(* ===== verification/MB_Prelude.thy ===== *)
theory MB_Prelude
  imports Main "HOL-Library.Word"
begin

text \<open>
  Shared vocabulary of the development: bytes, addressed memory, the effect of a flash
  program and erase on memory, little-endian fields, \<open>memcpy\<close> into a buffer, status words
  and result codes, with the lemmas the component theories share.

  A memory is a function from byte addresses (natural numbers below \<open>2 ^ 32\<close> in use) to
  bytes. Where the 32-bit or 16-bit wrap-around of an expression of the source can be
  observed, the component writes the \<open>mod\<close> out.
\<close>

unbundle bit_operations_syntax

named_theorems mem_simps \<open>reads of programmed, erased and overwritten memory\<close>

type_synonym u8 = "8 word"
type_synonym u16 = "16 word"
type_synonym u32 = "32 word"
type_synonym mem = "nat \<Rightarrow> u8"

subsection \<open>Result codes\<close>

text \<open>
  The \<open>DEVICE_*\<close> and \<open>MICROBIT_*\<close> codes (synonyms, \<open>inc/compat/MicroBitCompat.h\<close>). An
  operation that returns either a code or a count has a sum as its result, \<open>Inl\<close> the code.
\<close>

datatype code =
    OK
  | INVALID_PARAMETER
  | NOT_SUPPORTED
  | NO_RESOURCES
  | NO_DATA
  | I2C_ERROR
  | INVALID_STATE

subsection \<open>Memory\<close>

definition rdm :: "mem \<Rightarrow> nat \<Rightarrow> nat \<Rightarrow> u8 list" where
  "rdm m a n = map m [a..<a + n]"

definition put :: "mem \<Rightarrow> nat \<Rightarrow> u8 list \<Rightarrow> mem" where
  "put m a bs = (\<lambda>x. if a \<le> x \<and> x < a + length bs then bs ! (x - a) else m x)"

text \<open>
  Programming NOR flash can only clear bits: the cell keeps the conjunction of its old and
  its new value. Erasing sets every bit of the range.
\<close>

definition burn :: "mem \<Rightarrow> nat \<Rightarrow> u8 list \<Rightarrow> mem" where
  "burn m a bs = (\<lambda>x. if a \<le> x \<and> x < a + length bs then m x AND bs ! (x - a) else m x)"

definition wipe :: "mem \<Rightarrow> nat \<Rightarrow> nat \<Rightarrow> mem" where
  "wipe m a n = (\<lambda>x. if a \<le> x \<and> x < a + n then 255 else m x)"

text \<open>Little-endian fields.\<close>

definition rd16 :: "mem \<Rightarrow> nat \<Rightarrow> nat" where
  "rd16 m a = unat (m a) + 256 * unat (m (a + 1))"

definition rd32 :: "mem \<Rightarrow> nat \<Rightarrow> nat" where
  "rd32 m a = rd16 m a + 65536 * rd16 m (a + 2)"

lemma length_rdm [simp]: "length (rdm m a n) = n"
  by (simp add: rdm_def)

lemma nth_rdm [simp]: "i < n \<Longrightarrow> rdm m a n ! i = m (a + i)"
  by (simp add: rdm_def)

lemma rdm_0 [simp]: "rdm m a 0 = []"
  by (simp add: rdm_def)

lemma rdm_cong: "(\<And>x. a \<le> x \<Longrightarrow> x < a + n \<Longrightarrow> m x = m' x) \<Longrightarrow> rdm m a n = rdm m' a n"
  by (simp add: rdm_def)

lemma rdm_add: "rdm m a (n + k) = rdm m a n @ rdm m (a + n) k"
  using upt_add_eq_append [of a "a + n" k] by (simp add: rdm_def add.assoc)

lemma take_rdm: "take k (rdm m a n) = rdm m a (min k n)"
  by (rule nth_equalityI) auto

lemma drop_rdm: "drop k (rdm m a n) = rdm m (a + k) (n - k)"
  by (rule nth_equalityI) (auto simp: ac_simps)

lemma set_rdm: "set (rdm m a n) = m ` {a..<a + n}"
  by (simp add: rdm_def)

lemma burn_Nil [simp]: "burn m a [] = m"
  by (rule ext) (auto simp: burn_def)

lemma put_Nil [simp]: "put m a [] = m"
  by (rule ext) (auto simp: put_def)

lemma burn_out [mem_simps]: "\<not> (a \<le> x \<and> x < a + length bs) \<Longrightarrow> burn m a bs x = m x"
  by (auto simp: burn_def)

lemma put_out [mem_simps]: "\<not> (a \<le> x \<and> x < a + length bs) \<Longrightarrow> put m a bs x = m x"
  by (auto simp: put_def)

lemma wipe_out [mem_simps]: "\<not> (a \<le> x \<and> x < a + n) \<Longrightarrow> wipe m a n x = m x"
  by (auto simp: wipe_def)

lemma put_in [mem_simps]: "i < length bs \<Longrightarrow> put m a bs (a + i) = bs ! i"
  by (auto simp: put_def)

lemma wipe_in [mem_simps]: "a \<le> x \<Longrightarrow> x < a + n \<Longrightarrow> wipe m a n x = 255"
  by (auto simp: wipe_def)

lemma burn_append: "burn m a (xs @ ys) = burn (burn m a xs) (a + length xs) ys"
  by (auto simp: burn_def fun_eq_iff nth_append)

lemma rdm_burn_disj [mem_simps]:
  "b + n \<le> a \<or> a + length bs \<le> b \<Longrightarrow> rdm (burn m a bs) b n = rdm m b n"
  by (rule rdm_cong) (auto simp: burn_def)

lemma rdm_put_disj [mem_simps]:
  "b + n \<le> a \<or> a + length bs \<le> b \<Longrightarrow> rdm (put m a bs) b n = rdm m b n"
  by (rule rdm_cong) (auto simp: put_def)

lemma rdm_wipe_disj [mem_simps]:
  "b + n \<le> a \<or> a + k \<le> b \<Longrightarrow> rdm (wipe m a k) b n = rdm m b n"
  by (rule rdm_cong) (auto simp: wipe_def)

lemma rdm_put_same [mem_simps]: "rdm (put m a bs) a (length bs) = bs"
  by (rule nth_equalityI) (auto simp: put_def)

subsection \<open>Bytes that can be programmed without an erase\<close>

definition fits :: "u8 \<Rightarrow> u8 \<Rightarrow> bool" where
  "fits old new \<longleftrightarrow> NOT old AND new = 0"

lemma fits_and: "fits old new \<Longrightarrow> old AND new = new"
  by (auto simp: fits_def bit_eq_iff bit_simps)

lemma fits_iff: "fits old new \<longleftrightarrow> old AND new = new"
  by (auto simp: fits_def bit_eq_iff bit_simps)

lemma byte_and_FF [simp]: "(x :: u8) AND 255 = x" "255 AND (x :: u8) = x"
proof -
  have FF: "(255 :: u8) = NOT 0" by simp
  show "x AND 255 = x" by (simp only: FF) simp
  show "255 AND x = x" by (simp only: FF) simp
qed

lemma fits_FF [simp]: "fits 255 b"
  by (simp add: fits_iff)

lemma fits_zero [simp]: "fits b 0"
  by (simp add: fits_def)

lemma fits_refl [simp]: "fits b b"
  by (simp add: fits_iff)

lemma xor_and_fits: "(b1 XOR b2) AND b2 = 0 \<longleftrightarrow> fits b1 (b2 :: u8)"
  by (auto simp: fits_def bit_eq_iff bit_simps)

lemma burn_eq_put:
  assumes "\<And>i. i < length bs \<Longrightarrow> fits (m (a + i)) (bs ! i)"
  shows "burn m a bs = put m a bs"
proof
  fix x
  have "fits (m x) (bs ! (x - a))" if "a \<le> x" "x < a + length bs"
    using assms [of "x - a"] that by simp
  then show "burn m a bs x = put m a bs x"
    by (auto simp: burn_def put_def fits_iff)
qed

subsection \<open>Copying into a buffer\<close>

text \<open>\<open>memcpy(&buf[off], bs, length bs)\<close>, with the buffer long enough.\<close>

definition blit :: "'a list \<Rightarrow> nat \<Rightarrow> 'a list \<Rightarrow> 'a list" where
  "blit buf off bs = take off buf @ bs @ drop (off + length bs) buf"

lemma length_blit [simp]: "off + length bs \<le> length buf \<Longrightarrow> length (blit buf off bs) = length buf"
  by (simp add: blit_def)

lemma nth_blit:
  assumes "off + length bs \<le> length buf" and "i < length buf"
  shows "blit buf off bs ! i = (if off \<le> i \<and> i < off + length bs then bs ! (i - off) else buf ! i)"
  using assms by (auto simp: blit_def nth_append)

lemma blit_rdm: "off + length bs \<le> n \<Longrightarrow> blit (rdm m a n) off bs = rdm (put m (a + off) bs) a n"
  by (rule nth_equalityI) (auto simp: nth_blit put_def)

subsection \<open>Status words\<close>

definition has :: "u32 \<Rightarrow> u32 \<Rightarrow> bool" where
  "has s f \<longleftrightarrow> s AND f \<noteq> 0"

lemma has_or: "has (s OR g) f \<longleftrightarrow> has s f \<or> has g f"
  by (auto simp: has_def bit_eq_iff bit_simps)

lemma has_clear: "g AND f = 0 \<Longrightarrow> has (s AND NOT g) f \<longleftrightarrow> has s f"
  by (auto simp: has_def bit_eq_iff bit_simps)

lemma has_clear_same [simp]: "\<not> has (s AND NOT f) f"
  by (auto simp: has_def bit_eq_iff bit_simps)

lemma has_set_same [simp]: "f \<noteq> 0 \<Longrightarrow> has (s OR f) f"
  by (auto simp: has_def bit_eq_iff bit_simps)

lemma has_mask: "g AND f = 0 \<Longrightarrow> \<not> has (s AND g) f"
  by (auto simp: has_def bit_eq_iff bit_simps)

lemma has_zero [simp]: "\<not> has 0 f"
  by (simp add: has_def)

subsection \<open>Arithmetic on block addresses\<close>

text \<open>Differences of \<open>uint32_t\<close> values wrap.\<close>

definition sub32 :: "nat \<Rightarrow> nat \<Rightarrow> nat" where
  "sub32 a b = (a + 2 ^ 32 - b) mod 2 ^ 32"

lemma sub32_le: "b \<le> a \<Longrightarrow> a - b < 2 ^ 32 \<Longrightarrow> sub32 a b = a - b"
proof -
  assume "b \<le> a" "a - b < 2 ^ 32"
  moreover from this have "a + 2 ^ 32 - b = (a - b) + 2 ^ 32" by simp
  ultimately show ?thesis by (simp only: sub32_def mod_add_self2) simp
qed

lemma block_le: "(a div b) * b \<le> (a :: nat)"
  by simp

lemma block_offset: "(a div b) * b + a mod b = (a :: nat)"
  by simp

lemma block_fits: "b dvd e \<Longrightarrow> a < e \<Longrightarrow> (a div b) * b + b \<le> (e :: nat)"
proof -
  assume "b dvd e" "a < e"
  then obtain k where e: "e = k * b" by (auto simp: dvd_def mult.commute)
  with \<open>a < e\<close> have "a div b < k" by (simp add: less_mult_imp_div_less)
  then have "Suc (a div b) * b \<le> k * b" by (intro mult_le_mono1) simp
  with e show ?thesis by simp
qed

end
