(* ===== verification/NVM.thy ===== *)
theory NVM
  imports MB_Prelude
begin

text \<open>
  The interface between the storage components and a non-volatile memory controller. The
  abstract class \<open>NVMController\<close> belongs to codal-core, which is not part of this
  repository: a component that holds a reference to a controller takes its operations as an
  argument, the record \<open>nvm\<close> (the virtual methods), over a device state of any type. The
  locale \<open>nvm_contract\<close> states what the documentation of the methods promises; the flash
  managers of the repository fulfil it: \<open>NRF52Flash\<close> for the processor's own flash, \<open>USBFlash\<close>
  for the flash of the USB interface chip, given that chip's protocol.
\<close>

text \<open>
  \<open>nvm_read\<close> takes an address and a number of 32-bit words and returns the bytes copied to
  the caller's buffer, \<open>None\<close> when the controller reports a failure and copies nothing.
  \<open>nvm_write\<close> takes an address, the buffer and a number of 32-bit words.
\<close>

record 'd nvm =
  nvm_read :: "'d \<Rightarrow> nat \<Rightarrow> nat \<Rightarrow> u8 list option \<times> 'd"
  nvm_write :: "'d \<Rightarrow> nat \<Rightarrow> u8 list \<Rightarrow> nat \<Rightarrow> code \<times> 'd"
  nvm_erase :: "'d \<Rightarrow> nat \<Rightarrow> code \<times> 'd"
  nvm_start :: "'d \<Rightarrow> nat"
  nvm_end :: "'d \<Rightarrow> nat"
  nvm_page :: "'d \<Rightarrow> nat"

locale nvm_contract =
  fixes N :: "'d nvm"
    and img :: "'d \<Rightarrow> mem"
    and good :: "'d \<Rightarrow> bool"
    and fs :: nat and fe :: nat and pg :: nat
  assumes geometry:
      "good d \<Longrightarrow> nvm_start N d = fs \<and> nvm_end N d = fe \<and> nvm_page N d = pg"
    and geometry_sane:
      "good d \<Longrightarrow> 0 < pg \<and> 4 dvd pg \<and> pg dvd fs \<and> pg dvd fe \<and> fe \<le> 2 ^ 32"
    and read_value:
      "good d \<Longrightarrow> fs \<le> a \<Longrightarrow> a + 4 * n \<le> fe \<Longrightarrow> 4 dvd a \<Longrightarrow> 0 < n \<Longrightarrow>
        fst (nvm_read N d a n) = Some (rdm (img d) a (4 * n))"
    and read_img:
      "good d \<Longrightarrow> fs \<le> a \<Longrightarrow> a + 4 * n \<le> fe \<Longrightarrow> 4 dvd a \<Longrightarrow> 0 < n \<Longrightarrow>
        img (snd (nvm_read N d a n)) = img d"
    and read_good:
      "good d \<Longrightarrow> fs \<le> a \<Longrightarrow> a + 4 * n \<le> fe \<Longrightarrow> 4 dvd a \<Longrightarrow> 0 < n \<Longrightarrow>
        good (snd (nvm_read N d a n))"
    and write_img:
      "good d \<Longrightarrow> fs \<le> a \<Longrightarrow> a + 4 * n \<le> fe \<Longrightarrow> 4 dvd a \<Longrightarrow> 4 * n \<le> length bs \<Longrightarrow>
        img (snd (nvm_write N d a bs n)) = burn (img d) a (take (4 * n) bs)"
    and write_good:
      "good d \<Longrightarrow> fs \<le> a \<Longrightarrow> a + 4 * n \<le> fe \<Longrightarrow> 4 dvd a \<Longrightarrow> 4 * n \<le> length bs \<Longrightarrow>
        good (snd (nvm_write N d a bs n))"
    and erase_img:
      "good d \<Longrightarrow> pg dvd p \<Longrightarrow> fs \<le> p \<Longrightarrow> p + pg \<le> fe \<Longrightarrow>
        img (snd (nvm_erase N d p)) = wipe (img d) p pg"
    and erase_good:
      "good d \<Longrightarrow> pg dvd p \<Longrightarrow> fs \<le> p \<Longrightarrow> p + pg \<le> fe \<Longrightarrow>
        good (snd (nvm_erase N d p))"

end
