(* ===== verification/NRF52Flash.thy ===== *)
theory NRF52Flash
  imports NVM
begin

text \<open>
  \<open>NRF52FlashManager\<close> (\<open>source/NRF52FlashManager.cpp\<close>): the controller of the processor's
  own flash, through the NVMC peripheral. Modelled is the path the code takes when no
  SoftDevice is enabled; the SoftDevice's asynchronous flash calls are not. A store while
  write mode is on programs the word; a store to \<open>ERASEPAGE\<close> erases the page at that
  address, whose size is the \<open>pageSize\<close> the manager was made with.
\<close>

record nrf52 =
  nrf_startAddress :: nat
  nrf_pageCount :: nat
  nrf_pageSize :: nat
  nrf_mem :: mem

definition nrf52_new :: "nat \<Rightarrow> nat \<Rightarrow> nat \<Rightarrow> mem \<Rightarrow> nrf52" where
  "nrf52_new start pages sz m =
     \<lparr>nrf_startAddress = start, nrf_pageCount = pages, nrf_pageSize = sz, nrf_mem = m\<rparr>"

definition nrf52_read :: "nrf52 \<Rightarrow> nat \<Rightarrow> nat \<Rightarrow> u8 list option \<times> nrf52" where
  "nrf52_read d address len =
     (let source = (nrf_startAddress d + address) mod 2 ^ 32
      in (Some (rdm (nrf_mem d) source (len * 4)), d))"

text \<open>The loop \<open>*(addr+i) = *(data+i)\<close>, one 32-bit word an iteration.\<close>

primrec burn_words :: "mem \<Rightarrow> nat \<Rightarrow> u8 list \<Rightarrow> nat \<Rightarrow> mem" where
  "burn_words m addr bs 0 = m"
| "burn_words m addr bs (Suc i) =
     burn (burn_words m addr bs i) (addr + 4 * i) (take 4 (drop (4 * i) bs))"

definition nrf52_write :: "nrf52 \<Rightarrow> nat \<Rightarrow> u8 list \<Rightarrow> nat \<Rightarrow> code \<times> nrf52" where
  "nrf52_write d address bs len =
     (let addr = (address + nrf_startAddress d) mod 2 ^ 32
      in (OK, d\<lparr>nrf_mem := burn_words (nrf_mem d) addr bs len\<rparr>))"

definition nrf52_erase :: "nrf52 \<Rightarrow> nat \<Rightarrow> code \<times> nrf52" where
  "nrf52_erase d page =
     (let p = (page + nrf_startAddress d) mod 2 ^ 32
      in (OK, d\<lparr>nrf_mem := wipe (nrf_mem d) p (nrf_pageSize d)\<rparr>))"

definition nrf52_getFlashStart :: "nrf52 \<Rightarrow> nat" where
  "nrf52_getFlashStart d = 0"

definition nrf52_getFlashSize :: "nrf52 \<Rightarrow> nat" where
  "nrf52_getFlashSize d = (nrf_pageCount d * nrf_pageSize d) mod 2 ^ 32"

definition nrf52_getFlashEnd :: "nrf52 \<Rightarrow> nat" where
  "nrf52_getFlashEnd d = nrf52_getFlashSize d"

definition nrf52_getPageSize :: "nrf52 \<Rightarrow> nat" where
  "nrf52_getPageSize d = nrf_pageSize d"

definition nrf52_ops :: "nrf52 nvm" where
  "nrf52_ops =
     \<lparr>nvm_read = nrf52_read, nvm_write = nrf52_write, nvm_erase = nrf52_erase,
      nvm_start = nrf52_getFlashStart, nvm_end = nrf52_getFlashEnd,
      nvm_page = nrf52_getPageSize\<rparr>"

lemma nrf52_ops_simps [simp]:
  "nvm_read nrf52_ops = nrf52_read" "nvm_write nrf52_ops = nrf52_write"
  "nvm_erase nrf52_ops = nrf52_erase" "nvm_start nrf52_ops = nrf52_getFlashStart"
  "nvm_end nrf52_ops = nrf52_getFlashEnd" "nvm_page nrf52_ops = nrf52_getPageSize"
  by (simp_all add: nrf52_ops_def)

subsection \<open>The word loop programs the whole buffer\<close>

lemma burn_words_burn: "4 * n \<le> length bs \<Longrightarrow> burn_words m a bs n = burn m a (take (4 * n) bs)"
proof (induction n)
  case 0
  then show ?case by simp
next
  case (Suc n)
  have "take (4 * Suc n) bs = take (4 * n) bs @ take 4 (drop (4 * n) bs)"
    by (metis mult_Suc_right add.commute take_add)
  with Suc show ?case by (simp add: burn_append)
qed

subsection \<open>The manager fulfils the controller's contract\<close>

text \<open>
  The image the client sees is the flash from \<open>startAddress\<close> on. The geometry must not wrap
  the 32-bit address space and pages must be whole words.
\<close>

definition nrf52_image :: "nrf52 \<Rightarrow> mem" where
  "nrf52_image d = (\<lambda>x. nrf_mem d (nrf_startAddress d + x))"

definition nrf52_good :: "nat \<Rightarrow> nat \<Rightarrow> nat \<Rightarrow> nrf52 \<Rightarrow> bool" where
  "nrf52_good start pages sz d \<longleftrightarrow>
     nrf_startAddress d = start \<and> nrf_pageCount d = pages \<and> nrf_pageSize d = sz \<and>
     0 < sz \<and> 4 dvd sz \<and> start + pages * sz < 2 ^ 32"

lemma nrf52_image_burn:
  "nrf52_image (d\<lparr>nrf_mem := burn (nrf_mem d) (nrf_startAddress d + a) bs\<rparr>)
   = burn (nrf52_image d) a bs"
  by (auto simp: nrf52_image_def burn_def fun_eq_iff)

lemma nrf52_image_wipe:
  "nrf52_image (d\<lparr>nrf_mem := wipe (nrf_mem d) (nrf_startAddress d + a) n\<rparr>)
   = wipe (nrf52_image d) a n"
  by (auto simp: nrf52_image_def wipe_def fun_eq_iff)

lemma rdm_nrf52_image: "rdm (nrf_mem d) (nrf_startAddress d + a) n = rdm (nrf52_image d) a n"
  by (rule nth_equalityI) (auto simp: nrf52_image_def ac_simps)

interpretation nrf: nvm_contract nrf52_ops nrf52_image "nrf52_good start pages sz"
    0 "pages * sz" sz
  for start pages sz :: nat
proof unfold_locales
  fix d a n p and bs :: "u8 list"
  assume g: "nrf52_good start pages sz d"
  show "nvm_start nrf52_ops d = 0 \<and> nvm_end nrf52_ops d = pages * sz \<and>
      nvm_page nrf52_ops d = sz"
    using g by (simp add: nrf52_good_def nrf52_getFlashStart_def nrf52_getFlashEnd_def
        nrf52_getFlashSize_def nrf52_getPageSize_def)
  show "0 < sz \<and> 4 dvd sz \<and> sz dvd 0 \<and> sz dvd pages * sz \<and> pages * sz \<le> 2 ^ 32"
    using g by (simp add: nrf52_good_def)
  show "nrf52_image (snd (nvm_read nrf52_ops d a n)) = nrf52_image d"
    and "nrf52_good start pages sz (snd (nvm_read nrf52_ops d a n))"
    using g by (simp_all add: nrf52_read_def)
  {
    assume "a + 4 * n \<le> pages * sz"
    then have no_wrap: "(nrf_startAddress d + a) mod 2 ^ 32 = nrf_startAddress d + a"
      using g by (simp add: nrf52_good_def)
    then show "fst (nvm_read nrf52_ops d a n) = Some (rdm (nrf52_image d) a (4 * n))"
      by (simp add: nrf52_read_def rdm_nrf52_image mult.commute)
    assume "4 * n \<le> length bs"
    with no_wrap show "nrf52_image (snd (nvm_write nrf52_ops d a bs n))
        = burn (nrf52_image d) a (take (4 * n) bs)"
      by (simp add: nrf52_write_def burn_words_burn nrf52_image_burn add.commute [of a])
    show "nrf52_good start pages sz (snd (nvm_write nrf52_ops d a bs n))"
      using g by (simp add: nrf52_write_def nrf52_good_def)
  }
  {
    assume "p + sz \<le> pages * sz"
    then have "(nrf_startAddress d + p) mod 2 ^ 32 = nrf_startAddress d + p"
      using g by (simp add: nrf52_good_def)
    then show "nrf52_image (snd (nvm_erase nrf52_ops d p)) = wipe (nrf52_image d) p sz"
      using g nrf52_image_wipe [of d p sz]
      by (simp add: nrf52_erase_def nrf52_good_def add.commute [of p])
    show "nrf52_good start pages sz (snd (nvm_erase nrf52_ops d p))"
      using g by (simp add: nrf52_erase_def nrf52_good_def)
  }
qed

end
