(* ===== verification/FSCache.thy ===== *)
theory FSCache
  imports NRF52Flash
begin

text \<open>
  \<open>FSCache\<close> (\<open>source/FSCache.cpp\<close>, \<open>inc/FSCache.h\<close>): the write-through cache of flash
  blocks, with least-recently-used replacement and pinning. The operations take the
  controller's method table; the cache and the device it refers to are one state. The
  16-bit operation counter wraps. A freshly allocated page holds whatever \<open>malloc\<close> returns
  (\<open>fc_heap_junk\<close>) until the controller's read fills it. The \<open>debug\<close> printers are left out.
\<close>

record cache_entry =
  ce_address :: nat
  ce_lastUsed :: nat
  ce_flags :: u16
  ce_page :: "u8 list option"

record 'd fscache =
  fc_flash :: 'd
  fc_cache :: "cache_entry list"
  fc_blockSize :: nat
  fc_operationCount :: nat
  fc_heap_junk :: "u8 list"

definition FSCACHE_FLAG_PINNED :: u16 where
  "FSCACHE_FLAG_PINNED = 1"

definition empty_entry :: cache_entry where
  "empty_entry = \<lparr>ce_address = 0, ce_lastUsed = 0, ce_flags = 0, ce_page = None\<rparr>"

definition fscache_new :: "'d \<Rightarrow> nat \<Rightarrow> nat \<Rightarrow> u8 list \<Rightarrow> 'd fscache" where
  "fscache_new dev bsize sz junk =
     \<lparr>fc_flash = dev, fc_cache = replicate sz empty_entry, fc_blockSize = bsize, fc_operationCount = 0,
      fc_heap_junk = junk\<rparr>"

definition fscache_clear :: "'d fscache \<Rightarrow> 'd fscache" where
  "fscache_clear c =
     c\<lparr>fc_cache := replicate (length (fc_cache c)) empty_entry, fc_operationCount := 0\<rparr>"

definition tick :: "'d fscache \<Rightarrow> nat" where
  "tick c = (fc_operationCount c + 1) mod 2 ^ 16"

text \<open>The lookup loop: the first entry that holds a page for the address.\<close>

fun find_entry :: "cache_entry list \<Rightarrow> nat \<Rightarrow> nat \<Rightarrow> nat option" where
  "find_entry [] addr i = None"
| "find_entry (e # es) addr i =
     (if ce_address e = addr \<and> ce_page e \<noteq> None then Some i else find_entry es addr (Suc i))"

definition getCacheEntry :: "'d fscache \<Rightarrow> nat \<Rightarrow> nat option \<times> 'd fscache" where
  "getCacheEntry c addr =
     (case find_entry (fc_cache c) addr 0 of
        None \<Rightarrow> (None, c)
      | Some i \<Rightarrow>
          (Some i,
           c\<lparr>fc_operationCount := tick c,
             fc_cache := (fc_cache c)[i := (fc_cache c ! i)\<lparr>ce_lastUsed := tick c\<rparr>]\<rparr>))"

text \<open>
  The replacement loop from index \<open>i\<close> on, with the best candidate so far. The two ages are
  differences of \<open>uint16_t\<close> values computed as \<open>int\<close>.
\<close>

fun lru_scan :: "cache_entry list \<Rightarrow> nat \<Rightarrow> cache_entry list \<Rightarrow> nat \<Rightarrow> nat \<Rightarrow> nat" where
  "lru_scan all oc [] i lru = lru"
| "lru_scan all oc (e # es) i lru =
     (if ce_page e = None then i
      else if ce_flags e AND FSCACHE_FLAG_PINNED = 0 \<and>
              int oc - int (ce_lastUsed e) > int oc - int (ce_lastUsed (all ! lru))
      then lru_scan all oc es (Suc i) i
      else lru_scan all oc es (Suc i) lru)"

definition lru_victim :: "'d fscache \<Rightarrow> nat" where
  "lru_victim c = lru_scan (fc_cache c) (fc_operationCount c) (fc_cache c) 0 0"

text \<open>The page buffer after the controller's read: unchanged when the read fails.\<close>

definition loaded_page :: "'d fscache \<Rightarrow> cache_entry \<Rightarrow> u8 list option \<Rightarrow> u8 list" where
  "loaded_page c e r =
     (case r of Some bs \<Rightarrow> bs
      | None \<Rightarrow> (case ce_page e of Some p \<Rightarrow> p | None \<Rightarrow> fc_heap_junk c))"

definition cachePage :: "'d nvm \<Rightarrow> 'd fscache \<Rightarrow> nat \<Rightarrow> nat \<times> 'd fscache" where
  "cachePage N c0 addr =
     (case getCacheEntry c0 addr of
        (Some i, c) \<Rightarrow> (i, c)
      | (None, c) \<Rightarrow>
          (let i = lru_victim c;
               e = fc_cache c ! i;
               oc = tick c;
               (r, dev) = nvm_read N (fc_flash c) addr (fc_blockSize c div 4);
               e' = e\<lparr>ce_address := addr, ce_flags := 0, ce_lastUsed := oc,
                      ce_page := Some (loaded_page c e r)\<rparr>
           in (i, c\<lparr>fc_flash := dev, fc_operationCount := oc, fc_cache := (fc_cache c)[i := e']\<rparr>)))"

definition page_bytes :: "'d fscache \<Rightarrow> nat \<Rightarrow> u8 list" where
  "page_bytes c i = (case ce_page (fc_cache c ! i) of Some p \<Rightarrow> p | None \<Rightarrow> [])"

definition fscache_erase :: "'d fscache \<Rightarrow> nat \<Rightarrow> code \<times> 'd fscache" where
  "fscache_erase c0 addr =
     (case getCacheEntry c0 addr of
        (None, c) \<Rightarrow> (OK, c)
      | (Some i, c) \<Rightarrow>
          (OK, c\<lparr>fc_operationCount := tick c,
                 fc_cache := (fc_cache c)[i := (fc_cache c ! i)\<lparr>ce_page := Some (replicate (fc_blockSize c) 255),
                                                    ce_lastUsed := tick c\<rparr>]\<rparr>))"

text \<open>
  The range check of \<open>read\<close> and \<open>write\<close>; \<open>address + len\<close> is a \<open>uint32_t\<close>.
\<close>

definition out_of_range :: "'d nvm \<Rightarrow> 'd fscache \<Rightarrow> nat \<Rightarrow> nat \<Rightarrow> bool" where
  "out_of_range N c addr len \<longleftrightarrow>
     addr < nvm_start N (fc_flash c) \<or> (addr + len) mod 2 ^ 32 \<ge> nvm_end N (fc_flash c)"

text \<open>
  The segment of a transfer that starts at \<open>a\<close> with \<open>left\<close> bytes to go: it stops at the end of
  the block. A zero block size divides by zero in the source; here the loops stop.
\<close>

definition segment :: "nat \<Rightarrow> nat \<Rightarrow> nat \<Rightarrow> nat" where
  "segment bsize a left = min left (bsize - a mod bsize)"

lemma segment_pos: "0 < bsize \<Longrightarrow> 0 < left \<Longrightarrow> 0 < segment bsize a left"
  by (simp add: segment_def)

lemma segment_le: "segment bsize a left \<le> left"
  by (simp add: segment_def)

function read_loop :: "'d nvm \<Rightarrow> 'd fscache \<Rightarrow> nat \<Rightarrow> nat \<Rightarrow> nat \<Rightarrow> u8 list \<times> 'd fscache" where
  "read_loop N c addr len bytesCopied =
     (if bytesCopied < len \<and> 0 < fc_blockSize c then
        let a = addr + bytesCopied;
            block = (a div fc_blockSize c) * fc_blockSize c;
            offset = a mod fc_blockSize c;
            l = segment (fc_blockSize c) a (len - bytesCopied);
            (i, c') = cachePage N c block;
            (rest, c'') = read_loop N c' addr len (bytesCopied + l)
        in (take l (drop offset (page_bytes c' i)) @ rest, c'')
      else ([], c))"
  by pat_completeness auto
termination
  by (relation "measure (\<lambda>(N, c, addr, len, n). len - n)")
     (auto simp: segment_pos intro!: diff_less_mono2)

declare read_loop.simps [simp del]

definition fscache_read :: "'d nvm \<Rightarrow> 'd fscache \<Rightarrow> nat \<Rightarrow> nat \<Rightarrow> (code + u8 list) \<times> 'd fscache" where
  "fscache_read N c addr len =
     (if out_of_range N c addr len then (Inl INVALID_PARAMETER, c)
      else case read_loop N c addr len 0 of (bs, c') \<Rightarrow> (Inr bs, c'))"

function validate_loop :: "'d nvm \<Rightarrow> 'd fscache \<Rightarrow> nat \<Rightarrow> u8 list \<Rightarrow> nat \<Rightarrow> bool \<times> 'd fscache" where
  "validate_loop N c addr bs bytesCopied =
     (if bytesCopied < length bs \<and> 0 < fc_blockSize c then
        let a = addr + bytesCopied;
            block = (a div fc_blockSize c) * fc_blockSize c;
            offset = a mod fc_blockSize c;
            l = segment (fc_blockSize c) a (length bs - bytesCopied);
            (i, c') = cachePage N c block
        in if list_ex (\<lambda>k. (page_bytes c' i ! (offset + k) XOR bs ! (bytesCopied + k))
                              AND bs ! (bytesCopied + k) \<noteq> 0) [0..<l]
           then (False, c')
           else validate_loop N c' addr bs (bytesCopied + l)
      else (True, c))"
  by pat_completeness auto
termination
  by (relation "measure (\<lambda>(N, c, addr, bs, n). length bs - n)")
     (auto simp: segment_pos intro!: diff_less_mono2)

declare validate_loop.simps [simp del]

definition align_down :: "nat \<Rightarrow> nat" where
  "align_down a = a - a mod 4"

definition align_up :: "nat \<Rightarrow> nat" where
  "align_up a = (if a mod 4 \<noteq> 0 then align_down a + 4 else align_down a)"

text \<open>One pass of the write loop: update the cached page, then write it through.\<close>

definition write_segment :: "'d nvm \<Rightarrow> 'd fscache \<Rightarrow> nat \<Rightarrow> u8 list \<Rightarrow> 'd fscache" where
  "write_segment N c a seg =
     (let block = (a div fc_blockSize c) * fc_blockSize c;
          offset = a mod fc_blockSize c;
          (i, c1) = cachePage N c block;
          alignedStart = align_down a;
          alignedEnd = align_up (a + length seg);
          p = blit (page_bytes c1 i) offset seg;
          c2 = c1\<lparr>fc_cache := (fc_cache c1)[i := (fc_cache c1 ! i)\<lparr>ce_page := Some p\<rparr>]\<rparr>;
          (r, dev) = nvm_write N (fc_flash c2) alignedStart
                       (drop (alignedStart mod fc_blockSize c1) p) ((alignedEnd - alignedStart) div 4)
      in c2\<lparr>fc_flash := dev\<rparr>)"

function write_loop :: "'d nvm \<Rightarrow> 'd fscache \<Rightarrow> nat \<Rightarrow> u8 list \<Rightarrow> nat \<Rightarrow> 'd fscache" where
  "write_loop N c addr bs bytesCopied =
     (if bytesCopied < length bs \<and> 0 < fc_blockSize c then
        let a = addr + bytesCopied;
            l = segment (fc_blockSize c) a (length bs - bytesCopied)
        in write_loop N (write_segment N c a (take l (drop bytesCopied bs))) addr bs
             (bytesCopied + l)
      else c)"
  by pat_completeness auto
termination
  by (relation "measure (\<lambda>(N, c, addr, bs, n). length bs - n)")
     (auto simp: segment_pos intro!: diff_less_mono2)

declare write_loop.simps [simp del]

definition fscache_write :: "'d nvm \<Rightarrow> 'd fscache \<Rightarrow> nat \<Rightarrow> u8 list \<Rightarrow> code \<times> 'd fscache" where
  "fscache_write N c addr bs =
     (if out_of_range N c addr (length bs) then (INVALID_PARAMETER, c)
      else case validate_loop N c addr bs 0 of
             (False, c1) \<Rightarrow> (NOT_SUPPORTED, c1)
           | (True, c1) \<Rightarrow> (OK, write_loop N c1 addr bs 0))"

text \<open>
  A write that is cut off by a loss of power: the write loop stopped after \<open>k\<close> of its passes, each of which calls
  the driver of the flash once.
\<close>

fun write_passes :: "'d nvm \<Rightarrow> 'd fscache \<Rightarrow> nat \<Rightarrow> u8 list \<Rightarrow> nat \<Rightarrow> nat \<Rightarrow> 'd fscache" where
  "write_passes N c addr bs bytesCopied 0 = c"
| "write_passes N c addr bs bytesCopied (Suc k) =
     (if bytesCopied < length bs \<and> 0 < fc_blockSize c then
        let a = addr + bytesCopied;
            l = segment (fc_blockSize c) a (length bs - bytesCopied)
        in write_passes N (write_segment N c a (take l (drop bytesCopied bs))) addr bs (bytesCopied + l) k
      else c)"

definition write_cut :: "'d nvm \<Rightarrow> 'd fscache \<Rightarrow> nat \<Rightarrow> u8 list \<Rightarrow> nat \<Rightarrow> 'd fscache" where
  "write_cut N c addr bs k =
     (if out_of_range N c addr (length bs) then c
      else case validate_loop N c addr bs 0 of
             (False, c1) \<Rightarrow> c1
           | (True, c1) \<Rightarrow> write_passes N c1 addr bs 0 k)"

definition fscache_pin :: "'d nvm \<Rightarrow> 'd fscache \<Rightarrow> nat \<Rightarrow> code \<times> 'd fscache" where
  "fscache_pin N c addr =
     (case cachePage N c addr of
        (i, c') \<Rightarrow>
          (OK, c'\<lparr>fc_cache := (fc_cache c')[i := (fc_cache c' ! i)
                     \<lparr>ce_flags := ce_flags (fc_cache c' ! i) OR FSCACHE_FLAG_PINNED\<rparr>]\<rparr>))"

definition fscache_unpin :: "'d fscache \<Rightarrow> nat \<Rightarrow> code \<times> 'd fscache" where
  "fscache_unpin c addr =
     (case getCacheEntry c addr of
        (None, c') \<Rightarrow> (OK, c')
      | (Some i, c') \<Rightarrow>
          (OK, c'\<lparr>fc_cache := (fc_cache c')[i := (fc_cache c' ! i)
                     \<lparr>ce_flags := ce_flags (fc_cache c' ! i) AND NOT FSCACHE_FLAG_PINNED\<rparr>]\<rparr>))"

text \<open>
  After \<open>k\<close> passes the loop has written a prefix of the data; with as many passes as there are bytes it is the
  whole loop.
\<close>

lemma write_passes_prefix:
  "n \<le> length bs \<Longrightarrow> \<exists>m. n \<le> m \<and> m \<le> length bs \<and> write_passes N c addr bs n k = write_loop N c addr (take m bs) n"
proof (induction k arbitrary: n c)
  case 0
  then show ?case by (intro exI [of _ n]) (simp add: write_loop.simps)
next
  case (Suc k)
  show ?case
  proof (cases "n < length bs \<and> 0 < fc_blockSize c")
    case False
    then show ?thesis using Suc.prems by (intro exI [of _ n]) (auto simp: write_loop.simps [of N c addr "take n bs" n])
  next
    case True
    let ?a = "addr + n"
    let ?l = "segment (fc_blockSize c) ?a (length bs - n)"
    let ?c1 = "write_segment N c ?a (take ?l (drop n bs))"
    have l: "?l \<le> length bs - n" "0 < ?l" using True by (simp_all add: segment_le segment_pos)
    then have "n + ?l \<le> length bs" using True by simp
    from Suc.IH [OF this, of ?c1] obtain m where m: "n + ?l \<le> m" "m \<le> length bs"
      "write_passes N ?c1 addr bs (n + ?l) k = write_loop N ?c1 addr (take m bs) (n + ?l)" by blast
    have same: "segment (fc_blockSize c) ?a (length (take m bs) - n) = ?l"
      using m(1,2) by (auto simp: segment_def min_def split: if_splits)
    have "take ?l (drop n (take m bs)) = take ?l (drop n bs)"
      using m(1) by (simp add: drop_take take_take min_def)
    moreover have "n < length (take m bs)" using m(1,2) l(2) by simp
    ultimately have "write_loop N c addr (take m bs) n = write_loop N ?c1 addr (take m bs) (n + ?l)"
      using True same by (simp add: write_loop.simps [of N c addr "take m bs" n] Let_def)
    then show ?thesis using True m by (intro exI [of _ m]) (simp add: Let_def)
  qed
qed

lemma write_passes_all: "length bs \<le> n + k \<Longrightarrow> write_passes N c addr bs n k = write_loop N c addr bs n"
proof (induction k arbitrary: n c)
  case 0
  then show ?case by (simp add: write_loop.simps)
next
  case (Suc k)
  have "length bs \<le> n + segment (fc_blockSize c) (addr + n) (length bs - n) + k" if "n < length bs" "0 < fc_blockSize c"
    using segment_pos [of "fc_blockSize c" "length bs - n" "addr + n"] that Suc.prems by simp
  then show ?case using Suc.IH by (auto simp: write_loop.simps [of N c addr bs n] Let_def)
qed

lemma write_cut_all: "length bs \<le> k \<Longrightarrow> write_cut N c addr bs k = snd (fscache_write N c addr bs)"
  by (auto simp: write_cut_def fscache_write_def write_passes_all split: prod.splits bool.splits)


subsection \<open>Coherence: what the cache holds is what the flash holds\<close>

text \<open>
  \<open>coherent img fs fe c\<close>: every page held is a block-aligned copy of the flash image \<open>img\<close>
  inside the range \<open>fs\<close> to \<open>fe\<close>, and no block is held twice.
\<close>

definition entry_ok :: "mem \<Rightarrow> nat \<Rightarrow> nat \<Rightarrow> nat \<Rightarrow> cache_entry \<Rightarrow> bool" where
  "entry_ok m fs fe b e \<longleftrightarrow>
     (\<forall>p. ce_page e = Some p \<longrightarrow>
        p = rdm m (ce_address e) b \<and> b dvd ce_address e \<and>
        fs \<le> ce_address e \<and> ce_address e + b \<le> fe)"

definition holds :: "cache_entry list \<Rightarrow> nat \<Rightarrow> bool" where
  "holds es i \<longleftrightarrow> i < length es \<and> ce_page (es ! i) \<noteq> None"

definition unique_blocks :: "cache_entry list \<Rightarrow> bool" where
  "unique_blocks es \<longleftrightarrow>
     (\<forall>i j. holds es i \<and> holds es j \<and> ce_address (es ! i) = ce_address (es ! j) \<longrightarrow> i = j)"

definition held :: "'d fscache \<Rightarrow> nat set" where
  "held c = {ce_address e | e. e \<in> set (fc_cache c) \<and> ce_page e \<noteq> None}"

definition coherent :: "mem \<Rightarrow> nat \<Rightarrow> nat \<Rightarrow> 'd fscache \<Rightarrow> bool" where
  "coherent m fs fe c \<longleftrightarrow>
     fc_cache c \<noteq> [] \<and> 0 < fc_blockSize c \<and> 4 dvd fc_blockSize c \<and>
     fc_blockSize c dvd fs \<and> fc_blockSize c dvd fe \<and>
     (\<forall>e \<in> set (fc_cache c). entry_ok m fs fe (fc_blockSize c) e) \<and>
     unique_blocks (fc_cache c)"

lemma coherentD:
  assumes "coherent m fs fe c"
  shows "fc_cache c \<noteq> []" "0 < fc_blockSize c" "4 dvd fc_blockSize c"
    "fc_blockSize c dvd fs" "fc_blockSize c dvd fe" "unique_blocks (fc_cache c)"
    "i < length (fc_cache c) \<Longrightarrow> entry_ok m fs fe (fc_blockSize c) (fc_cache c ! i)"
  using assms by (auto simp: coherent_def)

lemma held_iff: "a \<in> held c \<longleftrightarrow> (\<exists>i. holds (fc_cache c) i \<and> ce_address (fc_cache c ! i) = a)"
  by (auto simp: held_def holds_def in_set_conv_nth)

lemma holds_update:
  "i < length es \<Longrightarrow>
    holds (es[i := e]) j \<longleftrightarrow> (if j = i then ce_page e \<noteq> None else holds es j)"
  by (auto simp: holds_def)

lemma unique_blocksD:
  "unique_blocks es \<Longrightarrow> holds es i \<Longrightarrow> holds es j \<Longrightarrow>
    ce_address (es ! i) = ce_address (es ! j) \<Longrightarrow> i = j"
  by (simp add: unique_blocks_def)

text \<open>Replacing one entry: the new one must be right, and its block not held elsewhere.\<close>

lemma unique_blocks_update:
  assumes "unique_blocks es" and "i < length es"
    and "\<And>j. holds es j \<Longrightarrow> j \<noteq> i \<Longrightarrow> ce_address (es ! j) \<noteq> ce_address e"
  shows "unique_blocks (es[i := e])"
  unfolding unique_blocks_def
proof (intro allI impI, elim conjE)
  fix j k
  assume j: "holds (es[i := e]) j" and k: "holds (es[i := e]) k"
    and eq: "ce_address (es[i := e] ! j) = ce_address (es[i := e] ! k)"
  have apart: "ce_address e \<noteq> ce_address (es ! x)" if "holds es x" "x \<noteq> i" for x
    using assms(3) [OF that] by simp
  show "j = k"
    using j k eq assms(2) apart [of j] apart [of k] unique_blocksD [OF assms(1), of j k]
    by (cases "j = i"; cases "k = i") (simp_all add: holds_update)
qed

lemma coherent_update:
  assumes c: "coherent m fs fe c" and i: "i < length (fc_cache c)"
    and e: "entry_ok m' fs fe (fc_blockSize c) e"
    and fresh: "\<And>j. holds (fc_cache c) j \<Longrightarrow> j \<noteq> i \<Longrightarrow> ce_address (fc_cache c ! j) \<noteq> ce_address e"
    and others: "\<And>j. holds (fc_cache c) j \<Longrightarrow> j \<noteq> i \<Longrightarrow>
        rdm m' (ce_address (fc_cache c ! j)) (fc_blockSize c)
        = rdm m (ce_address (fc_cache c ! j)) (fc_blockSize c)"
    and c': "fc_cache c' = (fc_cache c)[i := e]" "fc_blockSize c' = fc_blockSize c"
  shows "coherent m' fs fe c'"
proof -
  have "entry_ok m' fs fe (fc_blockSize c) ((fc_cache c)[i := e] ! j)"
    if j: "j < length (fc_cache c)" for j
  proof (cases "j = i")
    case True
    with e i show ?thesis by simp
  next
    case False
    have "entry_ok m fs fe (fc_blockSize c) (fc_cache c ! j)"
      using c j by (rule coherentD(7))
    with False others [of j] j show ?thesis
      by (auto simp: entry_ok_def holds_def)
  qed
  then have "\<forall>x \<in> set ((fc_cache c)[i := e]). entry_ok m' fs fe (fc_blockSize c) x"
    by (auto simp: in_set_conv_nth)
  moreover have "unique_blocks ((fc_cache c)[i := e])"
    using coherentD(6) [OF c] i fresh by (rule unique_blocks_update)
  ultimately show ?thesis
    using c c' by (auto simp: coherent_def)
qed

lemma held_update:
  "i < length (fc_cache c) \<Longrightarrow> fc_cache c' = (fc_cache c)[i := e] \<Longrightarrow>
    held c' \<subseteq> insert (ce_address e) (held c)"
  by (auto simp: held_iff holds_update nth_list_update split: if_splits)

subsection \<open>Lookup and replacement\<close>

lemma find_entry_Some:
  "find_entry es a k = Some i \<Longrightarrow> k \<le> i \<and> holds es (i - k) \<and> ce_address (es ! (i - k)) = a"
proof (induction es arbitrary: k)
  case Nil
  then show ?case by simp
next
  case (Cons e es)
  show ?case
  proof (cases "ce_address e = a \<and> ce_page e \<noteq> None")
    case True
    with Cons.prems show ?thesis by (auto simp: holds_def)
  next
    case False
    with Cons.prems have "find_entry es a (Suc k) = Some i" by auto
    then have "Suc k \<le> i \<and> holds es (i - Suc k) \<and> ce_address (es ! (i - Suc k)) = a"
      by (rule Cons.IH)
    then show ?thesis by (auto simp: holds_def Suc_diff_le Suc_le_eq nth_Cons' gr0_conv_Suc)
  qed
qed

lemma find_entry_None:
  "find_entry es a k = None \<Longrightarrow> holds es i \<Longrightarrow> ce_address (es ! i) \<noteq> a"
proof (induction es arbitrary: k i)
  case Nil
  then show ?case by (simp add: holds_def)
next
  case (Cons e es)
  show ?case
  proof (cases i)
    case 0
    with Cons.prems show ?thesis by (auto simp: holds_def split: if_splits)
  next
    case (Suc i')
    with Cons.prems have "holds es i'" by (simp add: holds_def)
    with Cons.IH [of "Suc k" i'] Cons.prems Suc show ?thesis by (auto split: if_splits)
  qed
qed

lemma lru_scan_bound:
  "lru < i + length es \<Longrightarrow> lru_scan all oc es i lru < i + length es"
proof (induction es arbitrary: i lru)
  case Nil
  then show ?case by simp
next
  case (Cons e es)
  have "lru_scan all oc es (Suc i) i < i + length (e # es)"
    using Cons.IH [of i "Suc i"] by simp
  moreover have "lru_scan all oc es (Suc i) lru < i + length (e # es)"
    using Cons.IH [of lru "Suc i"] Cons.prems by simp
  ultimately show ?case by auto
qed

lemma lru_victim_bound: "fc_cache c \<noteq> [] \<Longrightarrow> lru_victim c < length (fc_cache c)"
  using lru_scan_bound [of 0 0 "fc_cache c"] by (simp add: lru_victim_def)

lemma lru_scan_choice:
  assumes "\<And>k. k < length es \<Longrightarrow> all ! (i + k) = es ! k"
  shows "lru_scan all oc es i lru = lru
    \<or> ce_page (all ! lru_scan all oc es i lru) = None
    \<or> ce_flags (all ! lru_scan all oc es i lru) AND FSCACHE_FLAG_PINNED = 0"
  using assms
proof (induction es arbitrary: i lru)
  case Nil
  then show ?case by simp
next
  case (Cons e es)
  have e: "all ! i = e" using Cons.prems [of 0] by simp
  have es: "\<And>k. k < length es \<Longrightarrow> all ! (Suc i + k) = es ! k"
    using Cons.prems [of "Suc k" for k] by simp
  show ?case
    using Cons.IH [OF es, of i] Cons.IH [OF es, of lru] e by auto
qed

subsection \<open>Blocks and segments\<close>

definition blocks :: "nat \<Rightarrow> nat \<Rightarrow> nat \<Rightarrow> nat set" where
  "blocks b a n = {x. b dvd x \<and> x < a + n \<and> a < x + b}"

lemma block_of_range:
  assumes "0 < b" "b dvd s" "b dvd e" "s \<le> a" "a < (e :: nat)"
  shows "b dvd a div b * b" "s \<le> a div b * b" "a div b * b + b \<le> e"
    "a div b * b \<le> a" "a < a div b * b + b"
proof -
  show "b dvd a div b * b" "a div b * b \<le> a" by simp_all
  show "a < a div b * b + b"
    using assms(1) by (metis add_less_cancel_left div_mult_mod_eq mod_less_divisor)
  show "a div b * b + b \<le> e" using assms(3,5) by (rule block_fits)
  from assms(2) obtain k where s: "s = b * k" ..
  then have "k \<le> a div b" using assms(1,4) by (simp add: less_eq_div_iff_mult_less_eq mult.commute)
  with s show "s \<le> a div b * b" by (simp add: mult.commute)
qed

lemma block_in_blocks: "0 < b \<Longrightarrow> 0 < n \<Longrightarrow> a div b * b \<in> blocks b a n"
  by (simp add: blocks_def)
     (metis add_less_cancel_left add_strict_increasing block_le div_mult_mod_eq mod_less_divisor
       le_add1 order.strict_trans1)

lemma blocks_mono: "a \<le> a' \<Longrightarrow> a' + n' \<le> a + n \<Longrightarrow> blocks b a' n' \<subseteq> blocks b a n"
  by (auto simp: blocks_def)

lemma segment_bytes:
  "l \<le> b - a mod b \<Longrightarrow> take l (drop (a mod b) (rdm m (a div b * b) b)) = rdm m a l"
  by (simp add: take_rdm drop_rdm min_def)

lemma segment_in_block: "segment b a left \<le> b - a mod b"
  by (simp add: segment_def)

lemma multiples_apart:
  assumes "(b :: nat) dvd x" "x \<noteq> y" "b dvd y"
  shows "x + b \<le> y \<or> y + b \<le> x"
proof -
  obtain j k where xy: "x = b * j" "y = b * k" using assms by (auto elim!: dvdE)
  with assms(2) have "Suc j \<le> k \<or> Suc k \<le> j" by (cases j k rule: linorder_cases) auto
  then have "b * Suc j \<le> b * k \<or> b * Suc k \<le> b * j" by (auto simp del: mult_Suc_right)
  with xy show ?thesis by auto
qed

lemma align_down_eq: "align_down a = 4 * (a div 4)"
  by (simp add: align_down_def minus_mod_eq_mult_div)

lemma align_down_bounds: "align_down a \<le> a" "4 dvd align_down a"
    "4 dvd b \<Longrightarrow> b \<le> a \<Longrightarrow> b \<le> align_down a"
  by (auto simp: align_down_eq elim!: dvdE)

lemma align_up_bounds: "a \<le> align_up a" "4 dvd align_up a"
    "4 dvd b \<Longrightarrow> a \<le> b \<Longrightarrow> align_up a \<le> b"
  by (auto simp: align_up_def align_down_eq elim!: dvdE) presburger+

lemma burn_around:
  assumes "as \<le> a" "a + length seg \<le> as + n"
    and "\<And>k. k < length seg \<Longrightarrow> fits (m (a + k)) (seg ! k)"
  shows "burn m as (rdm (put m a seg) as n) = put m a seg"
proof -
  have "fits (m (as + i)) (put m a seg (as + i))" for i
    using assms(3) [of "as + i - a"] by (auto simp: put_def)
  then have "burn m as (rdm (put m a seg) as n) = put m as (rdm (put m a seg) as n)"
    by (intro burn_eq_put) simp
  also have "\<dots> = put m a seg"
  proof
    fix x
    show "put m as (rdm (put m a seg) as n) x = put m a seg x"
      using assms(1,2) nth_rdm [of "x - as" n "put m a seg" as]
      by (cases "as \<le> x \<and> x < as + n") (auto simp: put_def)
  qed
  finally show ?thesis .
qed

lemma put_append: "put (put m a xs) (a + length xs) ys = put m a (xs @ ys)"
  by (auto simp: put_def fun_eq_iff nth_append)

subsection \<open>The cache over a controller that keeps its contract\<close>

context nvm_contract
begin

text \<open>
  \<open>cache_ok c\<close>: the controller is in a good state and the cache is coherent with it.
\<close>

lemma cachePage_spec:
  assumes c: "coherent (img (fc_flash c)) fs fe c" and g: "good (fc_flash c)"
    and b: "fc_blockSize c dvd b" "fs \<le> b" "b + fc_blockSize c \<le> fe"
    and res: "cachePage N c b = (i, c')"
  shows "coherent (img (fc_flash c)) fs fe c'" "good (fc_flash c')"
    "img (fc_flash c') = img (fc_flash c)" "fc_blockSize c' = fc_blockSize c"
    "i < length (fc_cache c')" "ce_address (fc_cache c' ! i) = b"
    "ce_page (fc_cache c' ! i) = Some (rdm (img (fc_flash c)) b (fc_blockSize c))"
    "held c' \<subseteq> insert b (held c)"
proof -
  let ?m = "img (fc_flash c)" and ?B = "fc_blockSize c"
  have "coherent ?m fs fe c' \<and> good (fc_flash c') \<and> img (fc_flash c') = ?m \<and>
    fc_blockSize c' = ?B \<and> i < length (fc_cache c') \<and> ce_address (fc_cache c' ! i) = b \<and>
    ce_page (fc_cache c' ! i) = Some (rdm ?m b ?B) \<and> held c' \<subseteq> insert b (held c)"
  proof (cases "find_entry (fc_cache c) b 0")
    case (Some k)
    let ?e = "(fc_cache c ! k)\<lparr>ce_lastUsed := tick c\<rparr>"
    from find_entry_Some [OF Some] have k: "holds (fc_cache c) k" "ce_address (fc_cache c ! k) = b"
      by simp_all
    then have len: "k < length (fc_cache c)" by (simp add: holds_def)
    have ok: "entry_ok ?m fs fe ?B (fc_cache c ! k)" using c len by (rule coherentD(7))
    have pg: "ce_page (fc_cache c ! k) = Some (rdm ?m b ?B)"
      using ok k by (auto simp: entry_ok_def holds_def)
    have c': "c' = c\<lparr>fc_operationCount := tick c, fc_cache := (fc_cache c)[k := ?e]\<rparr>" "i = k"
      using res Some by (auto simp: cachePage_def getCacheEntry_def)
    have "coherent ?m fs fe c'"
    proof (rule coherent_update [OF c len])
      show "entry_ok ?m fs fe ?B ?e" using ok by (simp add: entry_ok_def)
      show "ce_address (fc_cache c ! j) \<noteq> ce_address ?e" if "holds (fc_cache c) j" "j \<noteq> k" for j
        using coherentD(6) [OF c] k that by (auto simp: unique_blocks_def)
    qed (simp_all add: c')
    moreover have "held c' \<subseteq> insert (ce_address ?e) (held c)"
      using len by (rule held_update) (simp add: c')
    ultimately show ?thesis
      using g k pg len by (simp add: c')
  next
    case None
    let ?v = "lru_victim c"
    let ?r = "nvm_read N (fc_flash c) b (?B div 4)"
    let ?e = "(fc_cache c ! ?v)\<lparr>ce_address := b, ce_flags := 0, ce_lastUsed := tick c,
                ce_page := Some (rdm ?m b ?B)\<rparr>"
    have len: "?v < length (fc_cache c)"
      using coherentD(1) [OF c] by (rule lru_victim_bound)
    have four: "4 dvd ?B" "4 dvd b"
      using coherentD(3) [OF c] b(1) dvd_trans by blast+
    have rng: "b + 4 * (?B div 4) \<le> fe" "0 < ?B div 4"
      using four(1) b(3) coherentD(2) [OF c] dvd_imp_le [OF four(1)] by (simp_all add: div_greater_zero_iff)
    have rd: "fst ?r = Some (rdm ?m b ?B)"
      using read_value [OF g b(2) rng(1) four(2) rng(2)] four(1) by simp
    then have c': "c' = c\<lparr>fc_flash := snd ?r, fc_operationCount := tick c,
        fc_cache := (fc_cache c)[?v := ?e]\<rparr>" "i = ?v"
      using res None
      by (auto simp: cachePage_def getCacheEntry_def Let_def loaded_page_def split: prod.splits)
    have "coherent ?m fs fe c'"
    proof (rule coherent_update [OF c len])
      show "entry_ok ?m fs fe ?B ?e" using b by (simp add: entry_ok_def)
      show "ce_address (fc_cache c ! j) \<noteq> ce_address ?e" if "holds (fc_cache c) j" for j
        using find_entry_None [OF None that] by simp
    qed (simp_all add: c')
    moreover have "held c' \<subseteq> insert (ce_address ?e) (held c)"
      using len by (rule held_update) (simp add: c')
    ultimately show ?thesis
      using g len read_img [OF g b(2) rng(1) four(2) rng(2)] read_good [OF g b(2) rng(1) four(2) rng(2)]
      by (simp add: c')
  qed
  then show "coherent ?m fs fe c'" "good (fc_flash c')" "img (fc_flash c') = ?m"
    "fc_blockSize c' = ?B" "i < length (fc_cache c')" "ce_address (fc_cache c' ! i) = b"
    "ce_page (fc_cache c' ! i) = Some (rdm ?m b ?B)" "held c' \<subseteq> insert b (held c)"
    by auto
qed

lemma read_loop_spec:
  assumes "coherent (img (fc_flash c)) fs fe c" "good (fc_flash c)"
    and "fs \<le> addr" "addr + len \<le> fe" "n \<le> len"
    and "read_loop N c addr len n = (bs, c')"
  shows "bs = rdm (img (fc_flash c)) (addr + n) (len - n) \<and>
    coherent (img (fc_flash c)) fs fe c' \<and> good (fc_flash c') \<and>
    img (fc_flash c') = img (fc_flash c) \<and> fc_blockSize c' = fc_blockSize c \<and>
    held c' \<subseteq> held c \<union> blocks (fc_blockSize c) addr len"
  using assms
proof (induction "len - n" arbitrary: c n bs c' rule: less_induct)
  case less
  let ?m = "img (fc_flash c)" and ?B = "fc_blockSize c"
  note c = less.prems(1) and g = less.prems(2)
  have B: "0 < ?B" using c by (rule coherentD(2))
  show ?case
  proof (cases "n < len")
    case False
    then have "bs = []" "c' = c"
      using less.prems(6) by (auto simp: read_loop.simps [of N c addr len n])
    with False less.prems show ?thesis by simp
  next
    case True
    let ?a = "addr + n"
    let ?b = "?a div ?B * ?B" and ?l = "segment ?B ?a (len - n)"
    obtain i c1 where cp: "cachePage N c ?b = (i, c1)" by fastforce
    obtain rest c2 where rl: "read_loop N c1 addr len (n + ?l) = (rest, c2)" by fastforce
    have range: "fs \<le> ?a" "?a < fe" using less.prems True by auto
    note b = block_of_range [OF B coherentD(4,5) [OF c] range]
    note cs = cachePage_spec [OF c g b(1-3) cp]
    have l: "0 < ?l" "?l \<le> len - n"
      using B True by (auto simp: segment_pos segment_le)
    have IH: "rest = rdm ?m (addr + (n + ?l)) (len - (n + ?l)) \<and> coherent ?m fs fe c2 \<and>
        good (fc_flash c2) \<and> img (fc_flash c2) = ?m \<and> fc_blockSize c2 = ?B \<and>
        held c2 \<subseteq> held c1 \<union> blocks ?B addr len"
      using less.hyps [OF _ _ cs(2) less.prems(3,4) _ rl] cs l True by auto
    have "bs = take ?l (drop (?a mod ?B) (page_bytes c1 i)) @ rest" "c' = c2"
      using less.prems(6) True B cp rl
      by (auto simp: read_loop.simps [of N c addr len n] Let_def)
    moreover have "page_bytes c1 i = rdm ?m ?b ?B"
      using cs(7) by (simp add: page_bytes_def)
    moreover have "rdm ?m ?a (len - n) = rdm ?m ?a ?l @ rdm ?m (?a + ?l) (len - (n + ?l))"
      using l rdm_add [of ?m ?a ?l "len - (n + ?l)"] by simp
    ultimately have "bs = rdm ?m ?a (len - n)"
      using IH by (simp add: segment_bytes segment_in_block add.assoc)
    moreover have "?b \<in> blocks ?B addr len"
      using block_in_blocks [of ?B "len - n" ?a] blocks_mono [of addr ?a "len - n" len ?B] B True
      by auto
    ultimately show ?thesis using IH cs \<open>c' = c2\<close> by auto
  qed
qed

lemma validate_loop_spec:
  assumes "coherent (img (fc_flash c)) fs fe c" "good (fc_flash c)"
    and "fs \<le> addr" "addr + length bs \<le> fe" "n \<le> length bs"
    and "validate_loop N c addr bs n = (r, c')"
  shows "(r \<longleftrightarrow> (\<forall>k. n \<le> k \<and> k < length bs \<longrightarrow> fits (img (fc_flash c) (addr + k)) (bs ! k))) \<and>
    coherent (img (fc_flash c)) fs fe c' \<and> good (fc_flash c') \<and>
    img (fc_flash c') = img (fc_flash c) \<and> fc_blockSize c' = fc_blockSize c \<and>
    held c' \<subseteq> held c \<union> blocks (fc_blockSize c) addr (length bs)"
  using assms
proof (induction "length bs - n" arbitrary: c n r c' rule: less_induct)
  case less
  let ?m = "img (fc_flash c)" and ?B = "fc_blockSize c"
  note c = less.prems(1) and g = less.prems(2)
  have B: "0 < ?B" using c by (rule coherentD(2))
  show ?case
  proof (cases "n < length bs")
    case False
    then have "r" "c' = c"
      using less.prems(6) by (auto simp: validate_loop.simps [of N c addr bs n])
    with False less.prems show ?thesis by auto
  next
    case True
    let ?a = "addr + n"
    let ?b = "?a div ?B * ?B" and ?l = "segment ?B ?a (length bs - n)"
    let ?bad = "list_ex (\<lambda>k. (page_bytes (snd (cachePage N c ?b)) (fst (cachePage N c ?b))
                  ! (?a mod ?B + k) XOR bs ! (n + k)) AND bs ! (n + k) \<noteq> 0) [0..<?l]"
    obtain i c1 where cp: "cachePage N c ?b = (i, c1)" by fastforce
    have range: "fs \<le> ?a" "?a < fe" using less.prems True by auto
    note b = block_of_range [OF B coherentD(4,5) [OF c] range]
    note cs = cachePage_spec [OF c g b(1-3) cp]
    have l: "0 < ?l" "?l \<le> length bs - n" "?l \<le> ?B - ?a mod ?B"
      using B True by (auto simp: segment_pos segment_le segment_in_block)
    have pb: "page_bytes c1 i = rdm ?m ?b ?B"
      using cs(7) by (simp add: page_bytes_def)
    have byte: "page_bytes c1 i ! (?a mod ?B + k) = ?m (?a + k)" if "k < ?l" for k
    proof -
      have "?b + (?a mod ?B + k) = ?a + k" by simp
      moreover have "?a mod ?B + k < ?B" using that l(3) by simp
      ultimately show ?thesis using pb by (metis nth_rdm)
    qed
    have bad: "?bad \<longleftrightarrow> (\<exists>k<?l. \<not> fits (?m (?a + k)) (bs ! (n + k)))"
      using byte cp by (auto simp: list_ex_iff xor_and_fits)
    have in_blocks: "?b \<in> blocks ?B addr (length bs)"
      using block_in_blocks [of ?B "length bs - n" ?a]
        blocks_mono [of addr ?a "length bs - n" "length bs" ?B] B True by auto
    show ?thesis
    proof (cases ?bad)
      case bad_true: True
      then have "\<not> r" "c' = c1"
        using less.prems(6) True B cp
        by (auto simp: validate_loop.simps [of N c addr bs n] Let_def)
      moreover obtain k where "k < ?l" "\<not> fits (?m (addr + (n + k))) (bs ! (n + k))"
        using bad bad_true by (auto simp: add.assoc)
      moreover have "n + k < length bs" using \<open>k < ?l\<close> l by simp
      ultimately show ?thesis using cs in_blocks le_add1 by blast
    next
      case False
      then have vl: "validate_loop N c1 addr bs (n + ?l) = (r, c')"
        using less.prems(6) True B cp
        by (auto simp: validate_loop.simps [of N c addr bs n] Let_def)
      have IH: "(r \<longleftrightarrow> (\<forall>k. n + ?l \<le> k \<and> k < length bs \<longrightarrow> fits (?m (addr + k)) (bs ! k))) \<and>
          coherent ?m fs fe c' \<and> good (fc_flash c') \<and> img (fc_flash c') = ?m \<and>
          fc_blockSize c' = ?B \<and> held c' \<subseteq> held c1 \<union> blocks ?B addr (length bs)"
        using less.hyps [OF _ _ cs(2) less.prems(3,4) _ vl] cs l True by auto
      have low: "fits (?m (addr + k)) (bs ! k)" if "n \<le> k" "k < n + ?l" for k
      proof -
        have "k - n < ?l" "n + (k - n) = k" using that by auto
        with bad False show ?thesis by (metis add.assoc)
      qed
      have "(\<forall>k. n + ?l \<le> k \<and> k < length bs \<longrightarrow> fits (?m (addr + k)) (bs ! k))
          \<longleftrightarrow> (\<forall>k. n \<le> k \<and> k < length bs \<longrightarrow> fits (?m (addr + k)) (bs ! k))"
        using low by (meson le_add1 le_trans not_le)
      with IH have "r \<longleftrightarrow> (\<forall>k. n \<le> k \<and> k < length bs \<longrightarrow> fits (?m (addr + k)) (bs ! k))"
        by blast
      then show ?thesis using IH cs(8) in_blocks by blast
    qed
  qed
qed

lemma write_segment_spec:
  assumes c: "coherent (img (fc_flash c)) fs fe c" and g: "good (fc_flash c)"
    and range: "fs \<le> a" "a + length seg \<le> fe" and L: "seg \<noteq> []"
      "length seg \<le> fc_blockSize c - a mod fc_blockSize c"
    and fit: "\<forall>k<length seg. fits (img (fc_flash c) (a + k)) (seg ! k)"
  shows "img (fc_flash (write_segment N c a seg)) = put (img (fc_flash c)) a seg"
    "coherent (put (img (fc_flash c)) a seg) fs fe (write_segment N c a seg)"
    "good (fc_flash (write_segment N c a seg))"
    "fc_blockSize (write_segment N c a seg) = fc_blockSize c"
    "held (write_segment N c a seg) \<subseteq> insert (a div fc_blockSize c * fc_blockSize c) (held c)"
proof -
  let ?m = "img (fc_flash c)" and ?B = "fc_blockSize c"
  let ?b = "a div ?B * ?B" and ?m' = "put ?m a seg"
  let ?as = "align_down a" and ?ae = "align_up (a + length seg)"
  note B = coherentD(2,3) [OF c]
  obtain i c1 where cp: "cachePage N c ?b = (i, c1)" by fastforce
  have "a < fe" using range L by (cases seg) auto
  note b = block_of_range [OF B(1) coherentD(4,5) [OF c] range(1) this]
  note cs = cachePage_spec [OF c g b(1-3) cp]
  have four: "4 dvd ?b" "4 dvd ?b + ?B" using B by auto
  have as: "?b \<le> ?as" "?as \<le> a" "4 dvd ?as"
    using align_down_bounds b(4) four by auto
  have "a + length seg \<le> ?b + ?B"
    using L(2) block_offset [of a ?B] mod_less_divisor [OF B(1), of a] by linarith
  then have ae: "a + length seg \<le> ?ae" "?ae \<le> ?b + ?B" "4 dvd ?ae"
    using align_up_bounds four by auto
  have n: "4 * ((?ae - ?as) div 4) = ?ae - ?as" using as(3) ae(3) by simp
  let ?p = "rdm ?m' ?b ?B"
  have p: "blit (page_bytes c1 i) (a mod ?B) seg = ?p"
    using cs(7) L(2) B(1) blit_rdm [of "a mod ?B" seg ?B ?m ?b] mod_less_divisor [OF B(1), of a]
    by (simp add: page_bytes_def)
  have "?as < ?b + ?B" using as(2) b(5) by simp
  then have off: "?as mod ?B = ?as - ?b"
    using as(1) by (metis add_diff_inverse_nat mod_less mod_mult_self3 nat_add_left_cancel_less not_le)
  let ?data = "drop (?as mod ?B) ?p"
  let ?w = "nvm_write N (fc_flash c1) ?as ?data ((?ae - ?as) div 4)"
  have data: "take (?ae - ?as) ?data = rdm ?m' ?as (?ae - ?as)"
    using as(1) ae(2) off by (simp add: take_rdm drop_rdm min_def)
  have wr: "fs \<le> ?as" "?as + 4 * ((?ae - ?as) div 4) \<le> fe"
      "4 * ((?ae - ?as) div 4) \<le> length ?data"
    using b as ae n off by auto
  have res: "write_segment N c a seg = c1\<lparr>fc_flash := snd ?w,
      fc_cache := (fc_cache c1)[i := (fc_cache c1 ! i)\<lparr>ce_page := Some ?p\<rparr>]\<rparr>"
    using cp cs(4) p by (simp add: write_segment_def Let_def split: prod.splits)
  show w: "img (fc_flash (write_segment N c a seg)) = ?m'"
    using write_img [OF cs(2) wr(1,2) as(3) wr(3)] n data cs(3) burn_around [of ?as a seg "?ae - ?as" ?m] fit ae as
    by (simp add: res)
  show "good (fc_flash (write_segment N c a seg))"
    using write_good [OF cs(2) wr(1,2) as(3) wr(3)] by (simp add: res)
  show "fc_blockSize (write_segment N c a seg) = ?B"
    using cs by (simp add: res)
  have "held (write_segment N c a seg) \<subseteq> insert ?b (held c1)"
    using held_update [OF cs(5), of "write_segment N c a seg"
        "(fc_cache c1 ! i)\<lparr>ce_page := Some ?p\<rparr>"] cs(6) by (simp add: res)
  then show "held (write_segment N c a seg) \<subseteq> insert ?b (held c)" using cs(8) by auto
  show "coherent ?m' fs fe (write_segment N c a seg)"
  proof (rule coherent_update [OF cs(1,5)])
    show "entry_ok ?m' fs fe (fc_blockSize c1) ((fc_cache c1 ! i)\<lparr>ce_page := Some ?p\<rparr>)"
      using cs(4,6) b by (simp add: entry_ok_def)
    fix j assume j: "holds (fc_cache c1) j" "j \<noteq> i"
    have "holds (fc_cache c1) i" using cs(5,7) by (simp add: holds_def)
    then have ne: "ce_address (fc_cache c1 ! j) \<noteq> ?b"
      using unique_blocksD [OF coherentD(6) [OF cs(1)] j(1), of i] cs(6) j(2) by auto
    then show "ce_address (fc_cache c1 ! j) \<noteq>
        ce_address ((fc_cache c1 ! i)\<lparr>ce_page := Some ?p\<rparr>)"
      using cs(6) by simp
    have "?B dvd ce_address (fc_cache c1 ! j)"
      using coherentD(7) [OF cs(1)] j(1) cs(4) by (auto simp: entry_ok_def holds_def)
    then have "ce_address (fc_cache c1 ! j) + ?B \<le> ?b \<or> ?b + ?B \<le> ce_address (fc_cache c1 ! j)"
      using ne by (rule multiples_apart) simp
    then show "rdm ?m' (ce_address (fc_cache c1 ! j)) (fc_blockSize c1)
        = rdm ?m (ce_address (fc_cache c1 ! j)) (fc_blockSize c1)"
      using \<open>a + length seg \<le> ?b + ?B\<close> b(4) unfolding cs(4)
      by (intro rdm_put_disj) linarith
  qed (simp_all add: res cs)
qed

lemma write_loop_spec:
  assumes "coherent (img (fc_flash c)) fs fe c" "good (fc_flash c)"
    and "fs \<le> addr" "addr + length bs \<le> fe" "n \<le> length bs"
    and "\<And>k. n \<le> k \<Longrightarrow> k < length bs \<Longrightarrow> fits (img (fc_flash c) (addr + k)) (bs ! k)"
    and "c' = write_loop N c addr bs n"
  shows "img (fc_flash c') = put (img (fc_flash c)) (addr + n) (drop n bs) \<and>
    coherent (img (fc_flash c')) fs fe c' \<and> good (fc_flash c') \<and>
    fc_blockSize c' = fc_blockSize c \<and>
    held c' \<subseteq> held c \<union> blocks (fc_blockSize c) addr (length bs)"
  using assms
proof (induction "length bs - n" arbitrary: c n c' rule: less_induct)
  case less
  let ?m = "img (fc_flash c)" and ?B = "fc_blockSize c"
  note c = less.prems(1) and g = less.prems(2)
  have B: "0 < ?B" using c by (rule coherentD(2))
  show ?case
  proof (cases "n < length bs")
    case False
    then have "c' = c"
      using less.prems(7) by (auto simp: write_loop.simps [of N c addr bs n])
    with False less.prems show ?thesis by auto
  next
    case True
    let ?a = "addr + n"
    let ?l = "segment ?B ?a (length bs - n)"
    let ?seg = "take ?l (drop n bs)"
    let ?c1 = "write_segment N c ?a ?seg"
    have l: "0 < ?l" "?l \<le> length bs - n" "?l \<le> ?B - ?a mod ?B"
      using B True by (auto simp: segment_pos segment_le segment_in_block)
    have seg: "?seg \<noteq> []" "length ?seg = ?l" using l by auto
    have range: "fs \<le> ?a" "?a + length ?seg \<le> fe" using less.prems l seg by auto
    have L: "length ?seg \<le> ?B - ?a mod ?B" using seg l by simp
    have fit: "\<forall>k<length ?seg. fits (?m (?a + k)) (?seg ! k)"
      using less.prems(6) [of "n + k" for k] l seg by (simp add: add.assoc)
    note ws = write_segment_spec [OF c g range seg(1) L fit]
    note img1 = ws(1)
    have c': "c' = write_loop N ?c1 addr bs (n + ?l)"
      using less.prems(7) True B by (simp add: write_loop.simps [of N c addr bs n] Let_def)
    have fit': "fits (img (fc_flash ?c1) (addr + k)) (bs ! k)"
      if "n + ?l \<le> k" "k < length bs" for k
      using less.prems(6) [of k] that seg(2) unfolding img1 by (simp add: put_def)
    have h1: "length bs - (n + ?l) < length bs - n" and h3: "n + ?l \<le> length bs"
      using l True by auto
    have h2: "coherent (img (fc_flash ?c1)) fs fe ?c1" using ws(2) by (simp add: img1)
    have IH: "img (fc_flash c') = put (img (fc_flash ?c1)) (addr + (n + ?l)) (drop (n + ?l) bs) \<and>
        coherent (img (fc_flash c')) fs fe c' \<and> good (fc_flash c') \<and>
        fc_blockSize c' = ?B \<and> held c' \<subseteq> held ?c1 \<union> blocks ?B addr (length bs)"
      using less.hyps [OF h1 h2 ws(3) less.prems(3,4) h3 fit' c'] unfolding ws(4) .
    have P: "put (put ?m ?a ?seg) (addr + (n + ?l)) (drop (n + ?l) bs)
        = put ?m ?a (drop n bs)"
      using put_append [of ?m ?a ?seg "drop ?l (drop n bs)"] append_take_drop_id [of ?l "drop n bs"]
        seg(2) by (simp add: add.assoc add.commute)
    have "?a div ?B * ?B \<in> blocks ?B addr (length bs)"
      using block_in_blocks [of ?B "length bs - n" ?a]
        blocks_mono [of addr ?a "length bs - n" "length bs" ?B] B True by auto
    then show ?thesis using IH ws(5) unfolding img1 P by auto
  qed
qed

text \<open>Inside the range, with the last byte out of reach, the range check passes.\<close>

lemma in_range:
  assumes "good (fc_flash c)" "fs \<le> addr" "addr + len < fe"
  shows "\<not> out_of_range N c addr len"
  using assms geometry geometry_sane [of "fc_flash c"] by (simp add: out_of_range_def)

theorem fscache_read_spec:
  assumes c: "coherent (img (fc_flash c)) fs fe c" "good (fc_flash c)"
    and range: "fs \<le> addr" "addr + len < fe"
    and res: "fscache_read N c addr len = (r, c')"
  shows "r = Inr (rdm (img (fc_flash c)) addr len)"
    "coherent (img (fc_flash c')) fs fe c'" "good (fc_flash c')"
    "img (fc_flash c') = img (fc_flash c)" "fc_blockSize c' = fc_blockSize c"
    "held c' \<subseteq> held c \<union> blocks (fc_blockSize c) addr len"
proof -
  obtain bs c1 where rl: "read_loop N c addr len 0 = (bs, c1)" by fastforce
  then have "r = Inr bs" "c' = c1"
    using res in_range [OF c(2) range] by (auto simp: fscache_read_def)
  then show "r = Inr (rdm (img (fc_flash c)) addr len)"
    "coherent (img (fc_flash c')) fs fe c'" "good (fc_flash c')"
    "img (fc_flash c') = img (fc_flash c)" "fc_blockSize c' = fc_blockSize c"
    "held c' \<subseteq> held c \<union> blocks (fc_blockSize c) addr len"
    using read_loop_spec [OF c range(1) _ _ rl] range(2) by auto
qed

theorem fscache_write_spec:
  assumes c: "coherent (img (fc_flash c)) fs fe c" "good (fc_flash c)"
    and range: "fs \<le> addr" "addr + length bs < fe"
    and res: "fscache_write N c addr bs = (r, c')"
  shows "r = (if \<forall>k<length bs. fits (img (fc_flash c) (addr + k)) (bs ! k)
              then OK else NOT_SUPPORTED)"
    "img (fc_flash c') = (if r = OK then put (img (fc_flash c)) addr bs else img (fc_flash c))"
    "coherent (img (fc_flash c')) fs fe c'" "good (fc_flash c')"
    "fc_blockSize c' = fc_blockSize c"
    "held c' \<subseteq> held c \<union> blocks (fc_blockSize c) addr (length bs)"
proof -
  let ?m = "img (fc_flash c)" and ?B = "fc_blockSize c"
  obtain v c1 where vl: "validate_loop N c addr bs 0 = (v, c1)" by fastforce
  have V: "v \<longleftrightarrow> (\<forall>k<length bs. fits (?m (addr + k)) (bs ! k))"
    "coherent ?m fs fe c1" "good (fc_flash c1)" "img (fc_flash c1) = ?m"
    "fc_blockSize c1 = ?B" "held c1 \<subseteq> held c \<union> blocks ?B addr (length bs)"
    using validate_loop_spec [OF c range(1) _ _ vl] range(2) by auto
  have res': "(r, c') = (if v then (OK, write_loop N c1 addr bs 0) else (NOT_SUPPORTED, c1))"
    using res vl in_range [OF c(2) range] by (auto simp: fscache_write_def split: bool.splits)
  show r: "r = (if \<forall>k<length bs. fits (?m (addr + k)) (bs ! k) then OK else NOT_SUPPORTED)"
    using res' V(1) by (auto split: if_splits)
  have W: "img (fc_flash c') = put ?m addr bs \<and> coherent (img (fc_flash c')) fs fe c' \<and>
      good (fc_flash c') \<and> fc_blockSize c' = ?B \<and>
      held c' \<subseteq> held c1 \<union> blocks ?B addr (length bs)" if v
    using write_loop_spec [of c1 addr bs 0 c'] V range res' that by auto
  show "img (fc_flash c') = (if r = OK then put ?m addr bs else ?m)"
    "coherent (img (fc_flash c')) fs fe c'" "good (fc_flash c')" "fc_blockSize c' = ?B"
    "held c' \<subseteq> held c \<union> blocks ?B addr (length bs)"
    using W V res' by (auto split: if_splits)
qed

text \<open>A write cut off between two calls of the driver has put a prefix of the data into the flash.\<close>

lemma write_cut_spec:
  assumes c: "coherent (img (fc_flash c)) fs fe c" "good (fc_flash c)"
    and range: "fs \<le> addr" "addr + length bs < fe"
    and fit: "\<forall>k<length bs. fits (img (fc_flash c) (addr + k)) (bs ! k)"
  shows "\<exists>m \<le> length bs. img (fc_flash (write_cut N c addr bs k)) = put (img (fc_flash c)) addr (take m bs)
    \<and> good (fc_flash (write_cut N c addr bs k))"
proof -
  let ?m = "img (fc_flash c)"
  obtain v c1 where vl: "validate_loop N c addr bs 0 = (v, c1)" by fastforce
  have V: "v" "coherent ?m fs fe c1" "good (fc_flash c1)" "img (fc_flash c1) = ?m"
    using validate_loop_spec [OF c range(1) _ _ vl] range(2) fit by auto
  obtain m where m: "m \<le> length bs" "write_passes N c1 addr bs 0 k = write_loop N c1 addr (take m bs) 0"
    using write_passes_prefix [of 0 bs N c1 addr k] by blast
  have "write_cut N c addr bs k = write_loop N c1 addr (take m bs) 0"
    using vl V(1) m(2) in_range [OF c(2) range] by (simp add: write_cut_def)
  then show ?thesis
    using write_loop_spec [of c1 addr "take m bs" 0] V m(1) range fit by (intro exI [of _ m]) auto
qed

end

subsection \<open>Fresh caches, erased blocks\<close>

lemma coherent_new:
  assumes "0 < n" "0 < b" "4 dvd b" "b dvd fs" "b dvd fe"
  shows "coherent m fs fe (fscache_new d b n junk)"
  using assms
  by (auto simp: coherent_def fscache_new_def empty_entry_def entry_ok_def unique_blocks_def
      holds_def)

lemma held_new [simp]: "held (fscache_new d b n junk) = {}"
  by (auto simp: held_def fscache_new_def empty_entry_def)

lemma coherent_clear: "coherent m fs fe c \<Longrightarrow> coherent m' fs fe (fscache_clear c)"
  by (auto simp: coherent_def fscache_clear_def empty_entry_def entry_ok_def unique_blocks_def
      holds_def)

lemma fscache_clear_simps [simp]:
  "fc_flash (fscache_clear c) = fc_flash c" "fc_blockSize (fscache_clear c) = fc_blockSize c"
  "held (fscache_clear c) = {}"
  by (auto simp: fscache_clear_def held_def empty_entry_def)

text \<open>The flash may change under the cache where no block is held.\<close>

lemma coherent_image:
  assumes "coherent m fs fe c"
    and "\<And>x. x \<in> held c \<Longrightarrow> rdm m' x (fc_blockSize c) = rdm m x (fc_blockSize c)"
    and "fc_cache c' = fc_cache c" "fc_blockSize c' = fc_blockSize c"
  shows "coherent m' fs fe c'"
proof -
  have "entry_ok m' fs fe (fc_blockSize c) e" if e: "e \<in> set (fc_cache c)" for e
  proof -
    have "entry_ok m fs fe (fc_blockSize c) e" using assms(1) e by (simp add: coherent_def)
    moreover have "ce_page e = Some p \<Longrightarrow> ce_address e \<in> held c" for p
      using e by (auto simp: held_def)
    ultimately show ?thesis using assms(2) by (auto simp: entry_ok_def)
  qed
  then show ?thesis using assms(1,3,4) by (simp add: coherent_def)
qed

lemma fscache_erase_simps [simp]:
  "fst (fscache_erase c a) = OK" "fc_flash (snd (fscache_erase c a)) = fc_flash c"
  "fc_blockSize (snd (fscache_erase c a)) = fc_blockSize c"
  by (auto simp: fscache_erase_def getCacheEntry_def split: option.splits)

lemma fscache_erase_spec:
  assumes c: "coherent m fs fe c"
    and m': "\<And>x. x \<in> held c \<Longrightarrow> x \<noteq> a \<Longrightarrow>
        rdm m' x (fc_blockSize c) = rdm m x (fc_blockSize c)"
    and a: "rdm m' a (fc_blockSize c) = replicate (fc_blockSize c) 255"
  shows "coherent m' fs fe (snd (fscache_erase c a))" "held (snd (fscache_erase c a)) \<subseteq> held c"
proof -
  have "coherent m' fs fe (snd (fscache_erase c a)) \<and> held (snd (fscache_erase c a)) \<subseteq> held c"
  proof (cases "find_entry (fc_cache c) a 0")
    case None
    then have same: "snd (fscache_erase c a) = c"
      by (simp add: fscache_erase_def getCacheEntry_def)
    have "a \<notin> held c" using find_entry_None [OF None] by (auto simp: held_iff)
    then have "coherent m' fs fe c" using m' by (intro coherent_image [OF c]) auto
    then show ?thesis by (simp add: same)
  next
    case (Some i)
    let ?e = "(fc_cache c ! i)\<lparr>ce_page := Some (replicate (fc_blockSize c) 255),
                ce_lastUsed := (tick c + 1) mod 2 ^ 16\<rparr>"
    from find_entry_Some [OF Some] have i: "holds (fc_cache c) i" "ce_address (fc_cache c ! i) = a"
      by simp_all
    then have len: "i < length (fc_cache c)" by (simp add: holds_def)
    have ok: "entry_ok m fs fe (fc_blockSize c) (fc_cache c ! i)" using c len by (rule coherentD(7))
    have res: "fc_cache (snd (fscache_erase c a)) = (fc_cache c)[i := ?e]"
      using Some len by (simp add: fscache_erase_def getCacheEntry_def tick_def)
    have other: "ce_address (fc_cache c ! j) \<noteq> a" if "holds (fc_cache c) j" "j \<noteq> i" for j
      using unique_blocksD [OF coherentD(6) [OF c] that(1) i(1)] i(2) that(2) by auto
    have "coherent m' fs fe (snd (fscache_erase c a))"
    proof (rule coherent_update [OF c len _ _ _ res])
      show "entry_ok m' fs fe (fc_blockSize c) ?e"
        using ok i a by (auto simp: entry_ok_def holds_def)
      show "ce_address (fc_cache c ! j) \<noteq> ce_address ?e"
        if "holds (fc_cache c) j" "j \<noteq> i" for j
        using other [OF that] i(2) by simp
      show "rdm m' (ce_address (fc_cache c ! j)) (fc_blockSize c)
          = rdm m (ce_address (fc_cache c ! j)) (fc_blockSize c)"
        if "holds (fc_cache c) j" "j \<noteq> i" for j
        using m' other [OF that] that by (auto simp: held_iff)
    qed simp
    moreover have "held (snd (fscache_erase c a)) \<subseteq> insert (ce_address ?e) (held c)"
      using len res by (rule held_update)
    moreover have "ce_address ?e \<in> held c" using i by (auto simp: held_iff)
    ultimately show ?thesis by auto
  qed
  then show "coherent m' fs fe (snd (fscache_erase c a))"
    "held (snd (fscache_erase c a)) \<subseteq> held c" by auto
qed

subsection \<open>Which slot is replaced\<close>

lemma lru_scan_oldest:
  assumes "\<And>k. k < length es \<Longrightarrow> all ! (i + k) = es ! k"
    and "\<forall>e \<in> set es. ce_page e \<noteq> None"
  shows "ce_lastUsed (all ! lru_scan all oc es i lru) \<le> ce_lastUsed (all ! lru) \<and>
    (\<forall>e \<in> set es. ce_flags e AND FSCACHE_FLAG_PINNED = 0 \<longrightarrow>
       ce_lastUsed (all ! lru_scan all oc es i lru) \<le> ce_lastUsed e)"
  using assms
proof (induction es arbitrary: i lru)
  case Nil
  then show ?case by simp
next
  case (Cons e es)
  have e: "all ! i = e" using Cons.prems(1) [of 0] by simp
  have es: "\<And>k. k < length es \<Longrightarrow> all ! (Suc i + k) = es ! k"
    using Cons.prems(1) [of "Suc k" for k] by simp
  have full: "\<forall>e \<in> set es. ce_page e \<noteq> None" "ce_page e \<noteq> None"
    using Cons.prems(2) by auto
  show ?case
    using Cons.IH [OF es full(1), of i] Cons.IH [OF es full(1), of lru] e full(2) by auto
qed

lemma lru_scan_stays:
  assumes "\<forall>e \<in> set es. ce_page e \<noteq> None \<and> ce_lastUsed (all ! lru) \<le> ce_lastUsed e"
  shows "lru_scan all oc es i lru = lru"
  using assms by (induction es arbitrary: i) auto

lemma cachePage_miss:
  assumes "find_entry (fc_cache c) a 0 = None"
  shows "fst (cachePage N c a) = lru_victim c"
  using assms by (auto simp: cachePage_def getCacheEntry_def Let_def split: prod.splits)

lemma cachePage_hit:
  assumes "find_entry (fc_cache c) a 0 = Some i"
  shows "cachePage N c a = (i, c\<lparr>fc_operationCount := tick c,
           fc_cache := (fc_cache c)[i := (fc_cache c ! i)\<lparr>ce_lastUsed := tick c\<rparr>]\<rparr>)"
  using assms by (simp add: cachePage_def getCacheEntry_def)

subsection \<open>Properties\<close>

text \<open>
  A read through the cache, over the repository's flash manager, returns exactly the bytes of
  the flash, whatever mixture of hits, misses and replacements it takes; the flash is untouched
  and the cache stays coherent with it.
\<close>

theorem fscache_read_correct:
  assumes "coherent (nrf52_image (fc_flash c)) 0 (pages * sz) c"
    and "nrf52_good start pages sz (fc_flash c)"
    and "addr + len < pages * sz"
  shows "\<exists>c'. fscache_read nrf52_ops c addr len
      = (Inr (rdm (nrf52_image (fc_flash c)) addr len), c') \<and>
    nrf52_image (fc_flash c') = nrf52_image (fc_flash c) \<and>
    coherent (nrf52_image (fc_flash c')) 0 (pages * sz) c'"
proof -
  obtain r c' where res: "fscache_read nrf52_ops c addr len = (r, c')" by fastforce
  show ?thesis
    using nrf.fscache_read_spec [OF assms(1,2) le0 assms(3) res] res by simp
qed

theorem fscache_read_correct_witness:
  "\<exists>c'. fscache_read nrf52_ops (fscache_new (nrf52_new 4096 4 16 (\<lambda>x. of_nat x)) 8 2 []) 5 20
      = (Inr (map of_nat [4101..<4121]), c')"
proof -
  let ?d = "nrf52_new 4096 4 16 (\<lambda>x. of_nat x)"
  let ?c = "fscache_new ?d 8 2 []"
  have "coherent (nrf52_image (fc_flash ?c)) 0 (4 * 16) ?c" by (rule coherent_new) simp_all
  moreover have "nrf52_good 4096 4 16 (fc_flash ?c)"
    by (simp add: fscache_new_def nrf52_new_def nrf52_good_def)
  moreover have "rdm (nrf52_image (fc_flash ?c)) 5 20 = map of_nat [4101..<4121]"
    by (simp add: fscache_new_def nrf52_new_def nrf52_image_def rdm_def upt_rec)
  ultimately show ?thesis using fscache_read_correct [of ?c 4 16 4096 5 20] by auto
qed

text \<open>
  C6 A write through the cache succeeds exactly when it needs no erase (no byte would have to
  set a cleared bit); then the flash holds the data, everything else is unchanged although whole
  aligned words are rewritten, and the cache is coherent with the new contents. Otherwise it
  answers \<open>DEVICE_NOT_SUPPORTED\<close> and the flash is unchanged.
\<close>

theorem fscache_write_correct:
  assumes "coherent (nrf52_image (fc_flash c)) 0 (pages * sz) c"
    and "nrf52_good start pages sz (fc_flash c)"
    and "addr + length bs < pages * sz"
    and "fscache_write nrf52_ops c addr bs = (r, c')"
  shows "(r = OK \<and> (\<forall>k<length bs. fits (nrf52_image (fc_flash c) (addr + k)) (bs ! k)) \<and>
      nrf52_image (fc_flash c') = put (nrf52_image (fc_flash c)) addr bs \<or>
      r = NOT_SUPPORTED \<and>
      \<not> (\<forall>k<length bs. fits (nrf52_image (fc_flash c) (addr + k)) (bs ! k)) \<and>
      nrf52_image (fc_flash c') = nrf52_image (fc_flash c)) \<and>
    coherent (nrf52_image (fc_flash c')) 0 (pages * sz) c' \<and>
    nrf52_good start pages sz (fc_flash c')"
  using nrf.fscache_write_spec [OF assms(1,2) le0 assms(3,4)] by (simp split: if_splits)

theorem fscache_write_correct_witness:
  "\<exists>c'. fscache_write nrf52_ops (fscache_new (nrf52_new 4096 4 16 (\<lambda>x. 255)) 8 2 []) 5 [1, 2, 3, 4]
      = (OK, c') \<and> nrf52_image (fc_flash c') = put (\<lambda>x. 255) 5 [1, 2, 3, 4]"
proof -
  let ?c = "fscache_new (nrf52_new 4096 4 16 (\<lambda>x. 255)) 8 2 []"
  obtain r c' where res: "fscache_write nrf52_ops ?c 5 [1, 2, 3, 4] = (r, c')" by fastforce
  have "coherent (nrf52_image (fc_flash ?c)) 0 (4 * 16) ?c" by (rule coherent_new) simp_all
  moreover have "nrf52_good 4096 4 16 (fc_flash ?c)"
    by (simp add: fscache_new_def nrf52_new_def nrf52_good_def)
  moreover have "nrf52_image (fc_flash ?c) = (\<lambda>x. 255)"
    by (simp add: fscache_new_def nrf52_new_def nrf52_image_def)
  ultimately show ?thesis
    using fscache_write_correct [of ?c 4 16 4096 5 "[1, 2, 3, 4]" r c'] res by auto
qed

text \<open>
  When every slot is in use, a miss replaces the slot with the smallest recorded use counter
  among slot 0 and the slots that are not pinned; a pinned block outside slot 0 is never
  replaced.
\<close>

theorem lru_victim_oldest:
  assumes "\<forall>e \<in> set (fc_cache c). ce_page e \<noteq> None" and "fc_cache c \<noteq> []"
  shows "lru_victim c < length (fc_cache c) \<and>
    (\<forall>e \<in> set (fc_cache c). ce_flags e AND FSCACHE_FLAG_PINNED = 0 \<longrightarrow>
       ce_lastUsed (fc_cache c ! lru_victim c) \<le> ce_lastUsed e) \<and>
    (lru_victim c = 0 \<or> ce_flags (fc_cache c ! lru_victim c) AND FSCACHE_FLAG_PINNED = 0)"
proof -
  have choice: "lru_victim c = 0 \<or> ce_page (fc_cache c ! lru_victim c) = None \<or>
      ce_flags (fc_cache c ! lru_victim c) AND FSCACHE_FLAG_PINNED = 0"
    unfolding lru_victim_def by (rule lru_scan_choice) simp
  have bound: "lru_victim c < length (fc_cache c)" using assms(2) by (rule lru_victim_bound)
  then have "ce_page (fc_cache c ! lru_victim c) \<noteq> None" using assms(1) nth_mem by blast
  moreover have "\<forall>e \<in> set (fc_cache c). ce_flags e AND FSCACHE_FLAG_PINNED = 0 \<longrightarrow>
      ce_lastUsed (fc_cache c ! lru_victim c) \<le> ce_lastUsed e"
    using assms(1) lru_scan_oldest [of "fc_cache c" "fc_cache c" 0 "fc_operationCount c" 0]
    by (simp add: lru_victim_def)
  ultimately show ?thesis using choice bound by auto
qed

definition held_entry :: "nat \<Rightarrow> nat \<Rightarrow> u16 \<Rightarrow> cache_entry" where
  "held_entry a used fl = \<lparr>ce_address = a, ce_lastUsed = used, ce_flags = fl, ce_page = Some [0]\<rparr>"

definition demo_cache :: "nat \<Rightarrow> cache_entry list \<Rightarrow> nrf52 fscache" where
  "demo_cache oc es = \<lparr>fc_flash = nrf52_new 0 4 16 (\<lambda>_. 255), fc_cache = es, fc_blockSize = 4,
     fc_operationCount = oc, fc_heap_junk = []\<rparr>"

theorem lru_victim_oldest_witness:
  "lru_victim (demo_cache 9 [held_entry 0 7 0, held_entry 8 5 0, held_entry 16 3 1]) < 3"
proof -
  let ?c = "demo_cache 9 [held_entry 0 7 0, held_entry 8 5 0, held_entry 16 3 1]"
  have "\<forall>e \<in> set (fc_cache ?c). ce_page e \<noteq> None" "fc_cache ?c \<noteq> []"
    by (simp_all add: demo_cache_def held_entry_def)
  from lru_victim_oldest [OF this] show ?thesis by (simp add: demo_cache_def)
qed

text \<open>
  The pin does not protect slot 0: when every slot is in use and the block in slot 0 is the
  one used longest ago, a miss replaces it although it is pinned (the search starts from slot 0
  without looking at its flags).
\<close>

theorem pinned_slot0_replaced:
  assumes "fc_cache c = e # es" and "ce_flags e = FSCACHE_FLAG_PINNED"
    and "\<forall>x \<in> set (e # es). ce_page x \<noteq> None \<and> ce_lastUsed e \<le> ce_lastUsed x"
    and "find_entry (fc_cache c) a 0 = None"
  shows "fst (cachePage N c a) = 0 \<and> ce_address (fc_cache (snd (cachePage N c a)) ! 0) = a"
proof -
  have "lru_scan (e # es) (fc_operationCount c) (e # es) 0 0 = 0"
    using assms(3) by (intro lru_scan_stays) auto
  then have v: "lru_victim c = 0" by (simp add: lru_victim_def assms(1))
  then show ?thesis
    using assms(1,4) cachePage_miss [OF assms(4), of N]
    by (auto simp: cachePage_def getCacheEntry_def Let_def split: prod.splits)
qed

theorem pinned_slot0_replaced_witness:
  "fst (cachePage nrf52_ops (demo_cache 9 [held_entry 0 1 1, held_entry 8 5 0]) 16) = 0"
  using pinned_slot0_replaced [of "demo_cache 9 [held_entry 0 1 1, held_entry 8 5 0]"
      "held_entry 0 1 1" "[held_entry 8 5 0]" 16 nrf52_ops]
  by (simp add: demo_cache_def held_entry_def FSCACHE_FLAG_PINNED_def)

text \<open>
  The 16-bit use counter defeats the replacement policy when it wraps: of two blocks, the one
  used just after the wrap is replaced by the next miss, and the one used before it is kept.
\<close>

theorem lru_wrap_replaces_newest:
  assumes "fc_cache c = [e0, e1]" and "fc_operationCount c = 2 ^ 16 - 1"
    and "ce_page e0 \<noteq> None" and "ce_page e1 \<noteq> None" and "0 < ce_lastUsed e0"
    and "ce_flags e1 AND FSCACHE_FLAG_PINNED = 0"
    and "ce_address e0 \<noteq> ce_address e1" and "a \<noteq> ce_address e0" and "a \<noteq> ce_address e1"
  shows "fst (cachePage N c (ce_address e1)) = 1 \<and>
    fst (cachePage N (snd (cachePage N c (ce_address e1))) a) = 1"
proof -
  have hit: "cachePage N c (ce_address e1)
      = (1, c\<lparr>fc_operationCount := 0, fc_cache := [e0, e1\<lparr>ce_lastUsed := 0\<rparr>]\<rparr>)"
    using assms(1-4,7) by (subst cachePage_hit [of c "ce_address e1" 1]) (auto simp: tick_def)
  moreover have "lru_victim (snd (cachePage N c (ce_address e1))) = 1"
    using assms(3-6) by (simp add: hit lru_victim_def)
  ultimately show ?thesis
    using assms(8,9) by (subst cachePage_miss) (auto simp: hit)
qed

theorem lru_wrap_replaces_newest_witness:
  "fst (cachePage nrf52_ops (snd (cachePage nrf52_ops
      (demo_cache 65535 [held_entry 0 65530 0, held_entry 8 65531 0]) 8)) 16) = 1"
  using lru_wrap_replaces_newest [of "demo_cache 65535 [held_entry 0 65530 0, held_entry 8 65531 0]"
      "held_entry 0 65530 0" "held_entry 8 65531 0" 16 nrf52_ops]
  by (simp add: demo_cache_def held_entry_def)

end
