(* ===== verification/MicroBitLog.thy ===== *)
theory MicroBitLog
  imports FSCache "HOL-Library.Monad_Syntax"
begin

text \<open>
  \<open>MicroBitLog\<close> (\<open>source/MicroBitLog.cpp\<close>, \<open>inc/MicroBitLog.h\<close>): the append-only CSV log kept
  in flash behind a header page, a metadata block and a journal of the data length. Strings
  are byte lists without NUL. The flash is reached through the controller's methods and the
  block cache of \<open>FSCache\<close>. The environment record gives what is not in this file: the
  controller, the USB interface calls, the HTML header to prepend, the decimal printing of
  \<open>ManagedString\<close>, and the indeterminate content of fresh memory. The fibre lock that
  serialises the calls is not modelled: the operations here run one at a time.
\<close>

definition bytes :: "string \<Rightarrow> u8 list" where
  "bytes s = map of_char s"

definition CONFIG_MICROBIT_LOG_JOURNAL_PAGES :: nat where
  "CONFIG_MICROBIT_LOG_JOURNAL_PAGES = 4"

definition CONFIG_MICROBIT_LOG_CACHE_BLOCK_SIZE :: nat where
  "CONFIG_MICROBIT_LOG_CACHE_BLOCK_SIZE = 256"

definition MICROBIT_LOG_VERSION :: "u8 list" where
  "MICROBIT_LOG_VERSION = bytes (''UBIT_LOG_FS_V_001'' @ [CHR 0x0A])"

definition MICROBIT_LOG_JOURNAL_ENTRY_SIZE :: nat where
  "MICROBIT_LOG_JOURNAL_ENTRY_SIZE = 8"

abbreviation LOG_INITIALIZED :: u32 where "LOG_INITIALIZED \<equiv> 1"
abbreviation LOG_ROW_STARTED :: u32 where "LOG_ROW_STARTED \<equiv> 2"
abbreviation LOG_FULL :: u32 where "LOG_FULL \<equiv> 4"
abbreviation LOG_SERIAL_MIRROR :: u32 where "LOG_SERIAL_MIRROR \<equiv> 8"

subsection \<open>Numbers as text\<close>

definition hex_digit :: "nat \<Rightarrow> u8" where
  "hex_digit d = (if d > 9 then of_nat (65 + d - 10) else of_nat (48 + d))"

text \<open>The loop of \<open>writeNum\<close>: from shift \<open>4 * (k - 1)\<close> down to 0, then the terminator.\<close>

fun write_digits :: "nat \<Rightarrow> nat \<Rightarrow> u8 list" where
  "write_digits n 0 = []"
| "write_digits n (Suc k) = hex_digit (n div 16 ^ k mod 16) # write_digits n k"

definition writeNum :: "nat \<Rightarrow> u8 list" where
  "writeNum n = write_digits n 8 @ [0]"

text \<open>
  \<open>strtoul(s, NULL, 16)\<close> of the C library, with a 32-bit \<open>unsigned long\<close>: leading white space,
  an optional sign, an optional \<open>0x\<close>, then hexadecimal digits up to the first other byte.
\<close>

definition hex_value :: "u8 \<Rightarrow> nat option" where
  "hex_value b =
     (let n = unat b in
      if 48 \<le> n \<and> n \<le> 57 then Some (n - 48)
      else if 65 \<le> n \<and> n \<le> 70 then Some (n - 55)
      else if 97 \<le> n \<and> n \<le> 102 then Some (n - 87)
      else None)"

fun hex_digits :: "u8 list \<Rightarrow> nat \<Rightarrow> nat" where
  "hex_digits [] acc = acc"
| "hex_digits (b # bs) acc =
     (case hex_value b of None \<Rightarrow> acc | Some v \<Rightarrow> hex_digits bs (16 * acc + v))"

definition is_space :: "u8 \<Rightarrow> bool" where
  "is_space b \<longleftrightarrow> b = 32 \<or> (9 \<le> unat b \<and> unat b \<le> 13)"

fun strip_0x :: "u8 list \<Rightarrow> u8 list" where
  "strip_0x (a # b # c # bs) =
     (if a = 48 \<and> (b = 120 \<or> b = 88) \<and> hex_value c \<noteq> None then c # bs else a # b # c # bs)"
| "strip_0x bs = bs"

definition strtoul16 :: "u8 list \<Rightarrow> nat" where
  "strtoul16 s =
     (let s1 = dropWhile is_space s;
          neg = (s1 \<noteq> [] \<and> hd s1 = 45);
          s2 = (if s1 \<noteq> [] \<and> (hd s1 = 43 \<or> hd s1 = 45) then tl s1 else s1);
          v = hex_digits (strip_0x s2) 0
      in if v \<ge> 2 ^ 32 then 2 ^ 32 - 1 else if neg then (2 ^ 32 - v) mod 2 ^ 32 else v)"

text \<open>
  \<open>padString\<close> prepends zeros until the length is \<open>digits\<close>; a longer string makes it run for
  ever, which is \<open>None\<close>.
\<close>

partial_function (option) padString :: "u8 list \<Rightarrow> nat \<Rightarrow> u8 list option" where
  "padString s digits = (if length s \<noteq> digits then padString (48 # s) digits else Some s)"

subsection \<open>Cleaning strings\<close>

definition INVALID_CHAR :: u8 where
  "INVALID_CHAR = 95"

definition clean_step :: "u8 list \<Rightarrow> bool \<Rightarrow> u8 list \<Rightarrow> nat \<Rightarrow> u8 list" where
  "clean_step s removeSeparators out i =
     (let out1 =
        (if i + 2 < length s \<and> s ! i = 45 \<and> s ! (i + 1) = 45 \<and> s ! (i + 2) = 62
         then ((if out = [] then s else out)
                 [i := INVALID_CHAR, i + 1 := INVALID_CHAR, i + 2 := INVALID_CHAR])
         else out)
      in if s ! i = 9 \<or> removeSeparators \<and> (s ! i = 44 \<or> s ! i = 10)
         then (if out1 = [] then s else out1)[i := INVALID_CHAR]
         else out1)"

definition cleanBuffer :: "u8 list \<Rightarrow> bool \<Rightarrow> u8 list" where
  "cleanBuffer s removeSeparators = foldl (clean_step s removeSeparators) [] [0..<length s]"

text \<open>What the callers do with the result: an empty one means that nothing had to change.\<close>

definition cleaned :: "u8 list \<Rightarrow> bool \<Rightarrow> u8 list" where
  "cleaned s removeSeparators =
     (let c = cleanBuffer s removeSeparators in if length c \<noteq> 0 then c else s)"

subsection \<open>State\<close>

datatype TimeStampFormat = TS_None | TS_Milliseconds | TS_Seconds | TS_Minutes | TS_Hours | TS_Days

fun ts_value :: "TimeStampFormat \<Rightarrow> nat" where
  "ts_value TS_None = 0"
| "ts_value TS_Milliseconds = 1"
| "ts_value TS_Seconds = 10"
| "ts_value TS_Minutes = 600"
| "ts_value TS_Hours = 36000"
| "ts_value TS_Days = 864000"

record column =
  col_key :: "u8 list"
  col_value :: "u8 list"

text \<open>\<open>rowData\<close> is the array of \<open>headingCount\<close> columns: the count is the list's length.\<close>

record 'd mlog =
  cache :: "'d fscache"
  status :: u32
  journalPages :: nat
  startAddress :: nat
  journalStart :: nat
  journalHead :: nat
  dataStart :: nat
  dataEnd :: nat
  logEnd :: nat
  headingStart :: nat
  headingLength :: nat
  headingsChanged :: bool
  rowData :: "column list"
  metaData :: "u8 list"
  timeStampFormat :: TimeStampFormat
  timeStampHeading :: "u8 list"
  serial_out :: "u8 list"
  full_events :: nat

abbreviation headingCount :: "'d mlog \<Rightarrow> nat" where
  "headingCount l \<equiv> length (rowData l)"

record 'd log_env =
  ctrl :: "'d nvm"
  setConfiguration :: "'d \<Rightarrow> u8 list \<Rightarrow> nat \<Rightarrow> 'd"
  remount :: "'d \<Rightarrow> 'd"
  header :: "u8 list"
  itoa :: "int \<Rightarrow> u8 list"
  junk :: u8

abbreviation pageSize :: "'d log_env \<Rightarrow> 'd mlog \<Rightarrow> nat" where
  "pageSize E l \<equiv> nvm_page (ctrl E) (fc_flash (cache l))"

abbreviation flashStart :: "'d log_env \<Rightarrow> 'd mlog \<Rightarrow> nat" where
  "flashStart E l \<equiv> nvm_start (ctrl E) (fc_flash (cache l))"

abbreviation flashEnd :: "'d log_env \<Rightarrow> 'd mlog \<Rightarrow> nat" where
  "flashEnd E l \<equiv> nvm_end (ctrl E) (fc_flash (cache l))"

text \<open>The constructor, over a device and fresh memory.\<close>

definition mlog_new :: "'d \<Rightarrow> u8 list \<Rightarrow> u8 list \<Rightarrow> 'd mlog" where
  "mlog_new dev heap meta =
     \<lparr>cache = fscache_new dev CONFIG_MICROBIT_LOG_CACHE_BLOCK_SIZE 4 heap, status = 0,
      journalPages = CONFIG_MICROBIT_LOG_JOURNAL_PAGES, startAddress = 0, journalStart = 0,
      journalHead = 0, dataStart = 0, dataEnd = 0, logEnd = 0, headingStart = 0,
      headingLength = 0, headingsChanged = False, rowData = [], metaData = meta,
      timeStampFormat = TS_None, timeStampHeading = [], serial_out = [], full_events = 0\<rparr>"

subsection \<open>Flash and cache calls of the log\<close>

definition flash_erase :: "'d log_env \<Rightarrow> 'd mlog \<Rightarrow> nat \<Rightarrow> 'd mlog" where
  "flash_erase E l a =
     l\<lparr>cache := (cache l)\<lparr>fc_flash := snd (nvm_erase (ctrl E) (fc_flash (cache l)) a)\<rparr>\<rparr>"

definition flash_write :: "'d log_env \<Rightarrow> 'd mlog \<Rightarrow> nat \<Rightarrow> u8 list \<Rightarrow> nat \<Rightarrow> 'd mlog" where
  "flash_write E l a bs n =
     l\<lparr>cache := (cache l)\<lparr>fc_flash := snd (nvm_write (ctrl E) (fc_flash (cache l)) a bs n)\<rparr>\<rparr>"

definition cache_write :: "'d log_env \<Rightarrow> 'd mlog \<Rightarrow> nat \<Rightarrow> u8 list \<Rightarrow> 'd mlog" where
  "cache_write E l a bs = l\<lparr>cache := snd (fscache_write (ctrl E) (cache l) a bs)\<rparr>"

text \<open>\<open>cache.read\<close> into a buffer that keeps its bytes \<open>old\<close> when the read is refused.\<close>

definition cache_read :: "'d log_env \<Rightarrow> 'd mlog \<Rightarrow> nat \<Rightarrow> u8 list \<Rightarrow> u8 list \<times> 'd mlog" where
  "cache_read E l a old =
     (case fscache_read (ctrl E) (cache l) a (length old) of
        (Inl e, c) \<Rightarrow> (old, l\<lparr>cache := c\<rparr>)
      | (Inr bs, c) \<Rightarrow> (bs, l\<lparr>cache := c\<rparr>))"

text \<open>The first page boundary after the HTML header, whose size is 2048 bytes.\<close>

definition meta_address :: "'d log_env \<Rightarrow> 'd mlog \<Rightarrow> nat" where
  "meta_address E l =
     (let pg = pageSize E l; sz = length (header E)
      in if sz mod pg = 0 then sz else (1 + sz div pg) * pg)"

subsection \<open>Finding the log\<close>

definition isPresent :: "'d log_env \<Rightarrow> 'd mlog \<Rightarrow> bool \<times> 'd mlog" where
  "isPresent E l =
     (if has (status l) LOG_INITIALIZED then (True, l)
      else
        let sa = meta_address E l;
            (r, dev) = nvm_read (ctrl E) (fc_flash (cache l)) sa 10;
            m0 = (case r of None \<Rightarrow> metaData l | Some bs \<Rightarrow> bs);
            m = m0[39 := 0, 28 := 0, 17 := 0];
            ds = strtoul16 (take 11 (drop 29 m));
            le = strtoul16 (take 11 (drop 18 m));
            pg = pageSize E l;
            l' = l\<lparr>cache := (cache l)\<lparr>fc_flash := dev\<rparr>, metaData := m, startAddress := sa,
                  dataStart := ds, logEnd := le, journalStart := sa + pg\<rparr>
        in (ds \<ge> sa + 2 * pg \<and> ds < le \<and> le < flashEnd E l \<and>
            take 17 m = take 17 MICROBIT_LOG_VERSION, l'))"

definition containsOnly :: "u8 list \<Rightarrow> u8 \<Rightarrow> bool" where
  "containsOnly j v = list_all (\<lambda>b. b = v) j"

text \<open>
  The journal scan of \<open>init\<close>: \<open>j\<close> is the entry buffer; the results are the last valid entry's
  address and the data end it records.
\<close>

function scan_journal ::
    "'d log_env \<Rightarrow> 'd mlog \<Rightarrow> nat \<Rightarrow> u8 list \<Rightarrow> bool \<Rightarrow> 'd mlog" where
  "scan_journal E l addr j valid =
     (if addr < dataStart l then
        let (j', l1) = cache_read E l addr j in
        if containsOnly j' 255 \<and> valid then l1
        else
          let hit = \<not> containsOnly j' 0;
              l2 = (if hit
                    then l1\<lparr>journalHead := addr,
                            dataEnd := (dataStart l + strtoul16 j') mod 2 ^ 32\<rparr>
                    else l1)
          in scan_journal E l2 (addr + MICROBIT_LOG_JOURNAL_ENTRY_SIZE) j' (valid \<or> hit)
      else l)"
  by pat_completeness auto
termination
  by (relation "measure (\<lambda>(E, l, addr, j, valid). dataStart l - addr)")
     (auto simp: cache_read_def MICROBIT_LOG_JOURNAL_ENTRY_SIZE_def split: prod.splits sum.splits)

declare scan_journal.simps [simp del]

function walk_data :: "'d log_env \<Rightarrow> 'd mlog \<Rightarrow> u8 \<Rightarrow> 'd mlog" where
  "walk_data E l d =
     (if dataEnd l < logEnd l then
        let (b, l1) = cache_read E l (dataEnd l) [d] in
        if hd b = 255 then l1
        else walk_data E (l1\<lparr>dataEnd := dataEnd l + 1\<rparr>) (hd b)
      else l)"
  by pat_completeness auto
termination
  by (relation "measure (\<lambda>(E, l, d). logEnd l - dataEnd l)")
     (auto simp: cache_read_def split: prod.splits sum.splits)

declare walk_data.simps [simp del]

text \<open>The two heading loops stop only when they find the byte they look for.\<close>

partial_function (option) skip_zeros ::
    "'d log_env \<Rightarrow> 'd mlog \<Rightarrow> nat \<Rightarrow> u8 \<Rightarrow> (nat \<times> u8 \<times> 'd mlog) option" where
  "skip_zeros E l start c =
     (if c = 0 then
        case cache_read E l (start + 1) [c] of (b, l1) \<Rightarrow> skip_zeros E l1 (start + 1) (hd b)
      else Some (start, c, l))"

partial_function (option) find_unused ::
    "'d log_env \<Rightarrow> 'd mlog \<Rightarrow> nat \<Rightarrow> u8 \<Rightarrow> (nat \<times> 'd mlog) option" where
  "find_unused E l end c =
     (if c \<noteq> 255 then
        case cache_read E l (end + 1) [c] of (b, l1) \<Rightarrow> find_unused E l1 (end + 1) (hd b)
      else Some (end, l))"

definition is_separator :: "u8 \<Rightarrow> bool" where
  "is_separator b \<longleftrightarrow> b = 44 \<or> b = 10"

fun parse_keys :: "nat \<Rightarrow> u8 list \<Rightarrow> u8 list list" where
  "parse_keys 0 hs = []"
| "parse_keys (Suc n) hs =
     (let key = takeWhile (\<lambda>b. b \<noteq> 0) hs in key # parse_keys n (drop (length key + 1) hs))"

definition parse_headings :: "u8 list \<Rightarrow> column list" where
  "parse_headings headers =
     map (\<lambda>k. \<lparr>col_key = k, col_value = []\<rparr>)
       (parse_keys (length (filter is_separator headers))
          (map (\<lambda>b. if is_separator b then 0 else b) headers))"

definition load_headings :: "'d log_env \<Rightarrow> 'd mlog \<Rightarrow> 'd mlog option" where
  "load_headings E l =
     (let start0 = startAddress l + 40;
          (b, l1) = cache_read E l start0 [junk E]
      in case skip_zeros E l1 start0 (hd b) of
           None \<Rightarrow> None
         | Some (start, c, l2) \<Rightarrow>
             (case find_unused E l2 start c of
                None \<Rightarrow> None
              | Some (end, l3) \<Rightarrow>
                  (let len = end - start; l4 = l3\<lparr>headingLength := len\<rparr> in
                   if len > 0 then
                     let (headers, l5) = cache_read E l4 start (replicate len (junk E))
                     in Some (l5\<lparr>headingStart := start, rowData := parse_headings headers\<rparr>)
                   else Some l4)))"

subsection \<open>Headings\<close>

definition addHeading :: "'d mlog \<Rightarrow> u8 list \<Rightarrow> u8 list \<Rightarrow> bool \<Rightarrow> 'd mlog" where
  "addHeading l key value head =
     (if list_ex (\<lambda>c. col_key c = key) (rowData l) then l
      else
        let new = \<lparr>col_key = key, col_value = value\<rparr>
        in l\<lparr>rowData := (if head then new # rowData l else rowData l @ [new]),
             headingsChanged := True\<rparr>)"

fun ts_units :: "TimeStampFormat \<Rightarrow> u8 list" where
  "ts_units TS_None = []"
| "ts_units TS_Milliseconds = bytes ''milliseconds''"
| "ts_units TS_Seconds = bytes ''seconds''"
| "ts_units TS_Minutes = bytes ''minutes''"
| "ts_units TS_Hours = bytes ''hours''"
| "ts_units TS_Days = bytes ''hours''"

text \<open>\<open>setTimeStamp\<close> after its call of \<open>init\<close>.\<close>

definition setTimeStamp_body :: "'d mlog \<Rightarrow> TimeStampFormat \<Rightarrow> 'd mlog" where
  "setTimeStamp_body l format =
     (let l1 = l\<lparr>timeStampFormat := format\<rparr> in
      if format = TS_None then l1
      else
        let h = bytes ''Time ('' @ ts_units format @ bytes '')'';
            l2 = l1\<lparr>timeStampHeading := h\<rparr>
        in addHeading l2 h [] (dataStart l = dataEnd l))"

subsection \<open>Formatting\<close>

function erase_pages :: "'d log_env \<Rightarrow> 'd mlog \<Rightarrow> nat \<Rightarrow> nat \<Rightarrow> nat \<Rightarrow> 'd mlog" where
  "erase_pages E l p lastp pg =
     (if p \<le> lastp \<and> 0 < pg then erase_pages E (flash_erase E l p) (p + pg) lastp pg else l)"
  by pat_completeness auto
termination
  by (relation "measure (\<lambda>(E, l, p, lastp, pg). Suc lastp - p)") auto

declare erase_pages.simps [simp del]

definition meta_bytes :: "nat \<Rightarrow> nat \<Rightarrow> u8 list" where
  "meta_bytes ds le =
     MICROBIT_LOG_VERSION @ (bytes ''0x'' @ writeNum le) @ (bytes ''0x'' @ writeNum ds)"

definition clear_geometry :: "'d log_env \<Rightarrow> 'd mlog \<Rightarrow> 'd mlog" where
  "clear_geometry E l =
     (let pg = pageSize E l; sa = meta_address E l; js = sa + pg;
          ds = js + CONFIG_MICROBIT_LOG_JOURNAL_PAGES * pg
      in l\<lparr>startAddress := sa, journalPages := CONFIG_MICROBIT_LOG_JOURNAL_PAGES,
           journalStart := js, journalHead := js, dataStart := ds, dataEnd := ds,
           logEnd := sub32 (sub32 (flashEnd E l) pg) 4, status := status l AND LOG_SERIAL_MIRROR,
           headingsChanged := False, headingStart := 0, headingLength := 0, rowData := []\<rparr>)"

definition clear :: "'d log_env \<Rightarrow> 'd mlog \<Rightarrow> bool \<Rightarrow> 'd mlog" where
  "clear E l fullErase =
     (let l1 = clear_geometry E l;
          l2 = flash_write E l1 (logEnd l1) [0, 0, 0, 0] 1;
          l3 = l2\<lparr>cache := fscache_clear (cache l2)\<rparr>;
          l4 = erase_pages E l3 (flashStart E l3) (if fullErase then logEnd l3 else dataStart l3)
                 (pageSize E l3);
          l5 = flash_write E l4 (flashStart E l4) (header E) (length (header E) div 4);
          md = meta_bytes (dataStart l5) (logEnd l5);
          l6 = cache_write E (l5\<lparr>metaData := md\<rparr>) (startAddress l5) md;
          l7 = cache_write E l6 (journalHead l6) (bytes ''00000000'');
          fsize = sub32 (sub32 (flashEnd E l7) (flashStart E l7)) (pageSize E l7);
          dev = remount E (setConfiguration E (fc_flash (cache l7)) (bytes ''MY_DATA.HTM'') fsize);
          l8 = l7\<lparr>cache := (cache l7)\<lparr>fc_flash := dev\<rparr>, status := status l7 OR LOG_INITIALIZED\<rparr>
      in setTimeStamp_body l8 (timeStampFormat l8))"

definition init :: "'d log_env \<Rightarrow> 'd mlog \<Rightarrow> 'd mlog option" where
  "init E l =
     (if has (status l) LOG_INITIALIZED then Some l
      else
        case isPresent E l of
          (False, l1) \<Rightarrow> Some (clear E l1 False)
        | (True, l1) \<Rightarrow>
            (let l2 = l1\<lparr>journalPages := (dataStart l1 - startAddress l1) div pageSize E l1 - 1,
                         journalHead := journalStart l1, dataEnd := dataStart l1\<rparr>;
                 l3 = scan_journal E l2 (journalHead l2) (bytes ''00000000'') False;
                 l4 = walk_data E l3 0
             in map_option (\<lambda>l5. l5\<lparr>status := status l5 OR LOG_INITIALIZED\<rparr>)
                  (load_headings E l4)))"

definition setTimeStamp :: "'d log_env \<Rightarrow> 'd mlog \<Rightarrow> TimeStampFormat \<Rightarrow> 'd mlog option" where
  "setTimeStamp E l format = map_option (\<lambda>l1. setTimeStamp_body l1 format) (init E l)"

definition setSerialMirroring :: "'d mlog \<Rightarrow> bool \<Rightarrow> 'd mlog" where
  "setSerialMirroring l enable =
     (if enable then l\<lparr>status := status l OR LOG_SERIAL_MIRROR\<rparr>
      else l\<lparr>status := status l AND NOT LOG_SERIAL_MIRROR\<rparr>)"

definition isFull :: "'d mlog \<Rightarrow> bool" where
  "isFull l = has (status l) LOG_FULL"

definition invalidate :: "'d log_env \<Rightarrow> 'd mlog \<Rightarrow> 'd mlog" where
  "invalidate E l =
     (let (present, l1) = isPresent E l;
          l2 = (if present
                then flash_write E (flash_write E l1 (startAddress l1) (replicate 40 0) 10)
                       (logEnd l1) (replicate 40 0) 1
                else l1)
      in l2\<lparr>status := status l2 AND NOT LOG_INITIALIZED\<rparr>)"

subsection \<open>Appending text\<close>

text \<open>The page loop of \<open>logString\<close>: the erase of the next page, then one pass.\<close>

definition space_on_page :: "'d log_env \<Rightarrow> 'd mlog \<Rightarrow> nat" where
  "space_on_page E l = pageSize E l - dataEnd l mod pageSize E l"

definition append_erase :: "'d log_env \<Rightarrow> 'd mlog \<Rightarrow> nat \<Rightarrow> 'd mlog" where
  "append_erase E l n =
     (if space_on_page E l \<le> n \<and> dataEnd l + space_on_page E l < logEnd l
      then flash_erase E l ((dataEnd l div pageSize E l + 1) * pageSize E l) else l)"

definition append_pass :: "'d log_env \<Rightarrow> 'd mlog \<Rightarrow> u8 list \<Rightarrow> 'd mlog" where
  "append_pass E l bs =
     (let lengthToWrite = min (length bs) (space_on_page E l);
          l1 = append_erase E l (length bs);
          l2 = cache_write E l1 (dataEnd l1) (take lengthToWrite bs)
      in l2\<lparr>dataEnd := dataEnd l2 + lengthToWrite\<rparr>)"

function append_loop :: "'d log_env \<Rightarrow> 'd mlog \<Rightarrow> u8 list \<Rightarrow> 'd mlog" where
  "append_loop E l bs =
     (if bs \<noteq> [] \<and> 0 < pageSize E l
      then append_loop E (append_pass E l bs) (drop (min (length bs) (space_on_page E l)) bs)
      else l)"
  by pat_completeness auto
termination
  by (relation "measure (\<lambda>(E, l, bs). length bs)") (auto simp: space_on_page_def)

declare append_loop.simps [simp del]

text \<open>
  The journal entry \<open>logString\<close> writes when the data crossed a cache block boundary: move the
  head on (erasing the page it enters), write the new entry, zero the old one.
\<close>

definition journal_advance :: "'d log_env \<Rightarrow> 'd mlog \<Rightarrow> 'd mlog" where
  "journal_advance E l =
     (let h1 = journalHead l + MICROBIT_LOG_JOURNAL_ENTRY_SIZE;
          h2 = (if h1 mod pageSize E l = 0 \<and> h1 = dataStart l then journalStart l else h1);
          l1 = (if h1 mod pageSize E l = 0
                then flash_erase E (l\<lparr>cache := snd (fscache_erase (cache l) h2)\<rparr>) h2
                else l)
      in l1\<lparr>journalHead := h2\<rparr>)"

definition journal_enter :: "'d log_env \<Rightarrow> 'd mlog \<Rightarrow> 'd mlog" where
  "journal_enter E l =
     (let used = sub32 (dataEnd l) (dataStart l) div CONFIG_MICROBIT_LOG_CACHE_BLOCK_SIZE
                   * CONFIG_MICROBIT_LOG_CACHE_BLOCK_SIZE
      in cache_write E l (journalHead l) (take 8 (writeNum used)))"

definition journal_retire :: "'d log_env \<Rightarrow> 'd mlog \<Rightarrow> nat \<Rightarrow> 'd mlog" where
  "journal_retire E l oldJournalHead = cache_write E l oldJournalHead (replicate 8 0)"

definition write_journal :: "'d log_env \<Rightarrow> 'd mlog \<Rightarrow> 'd mlog" where
  "write_journal E l =
     journal_retire E (journal_enter E (journal_advance E l)) (journalHead l)"

text \<open>\<open>logString\<close> after its call of \<open>init\<close>, in the case that the text fits.\<close>

definition mirror :: "'d mlog \<Rightarrow> u8 list \<Rightarrow> 'd mlog" where
  "mirror l data =
     (if has (status l) LOG_SERIAL_MIRROR \<and> length data > 0
      then l\<lparr>serial_out := serial_out l @ data\<rparr> else l)"

definition block_crossed :: "'d mlog \<Rightarrow> 'd mlog \<Rightarrow> bool" where
  "block_crossed l l' \<longleftrightarrow>
     dataEnd l' div CONFIG_MICROBIT_LOG_CACHE_BLOCK_SIZE
       \<noteq> dataEnd l div CONFIG_MICROBIT_LOG_CACHE_BLOCK_SIZE"

definition append_string :: "'d log_env \<Rightarrow> 'd mlog \<Rightarrow> u8 list \<Rightarrow> 'd mlog" where
  "append_string E l s =
     (let data = cleaned s False;
          l2 = append_loop E (mirror l data) data
      in if block_crossed l l2 then write_journal E l2 else l2)"

definition report_full :: "'d log_env \<Rightarrow> 'd mlog \<Rightarrow> 'd mlog" where
  "report_full E l =
     (let l1 = (if \<not> has (status l) LOG_FULL
                then let l0 = cache_write E l (logEnd l + 1) (bytes ''FUL'')
                     in l0\<lparr>status := status l0 OR LOG_FULL\<rparr>
                else l)
      in l1\<lparr>full_events := full_events l1 + 1\<rparr>)"

definition logString_body :: "'d log_env \<Rightarrow> 'd mlog \<Rightarrow> u8 list \<Rightarrow> code \<times> 'd mlog" where
  "logString_body E l s =
     (if length s > sub32 (logEnd l) (dataEnd l) then (NO_RESOURCES, report_full E l)
      else (OK, append_string E l s))"

definition logString :: "'d log_env \<Rightarrow> 'd mlog \<Rightarrow> u8 list \<Rightarrow> (code \<times> 'd mlog) option" where
  "logString E l s = map_option (\<lambda>l1. logString_body E l1 s) (init E l)"

subsection \<open>Rows\<close>

text \<open>
  \<open>beginRow\<close>, \<open>logData\<close> and \<open>endRow\<close> call each other in the source, but a call of \<open>beginRow\<close>
  from \<open>logData\<close> finds no open row and so ends none: \<open>open_row\<close> is what it does then
  (\<open>beginRow_closed\<close> and \<open>logData_beginRow\<close> below).
\<close>

definition open_row :: "'d mlog \<Rightarrow> 'd mlog" where
  "open_row l =
     l\<lparr>rowData := map (\<lambda>c. c\<lparr>col_value := []\<rparr>) (rowData l), status := status l OR LOG_ROW_STARTED\<rparr>"

text \<open>The search loop of \<open>logData\<close>: the first column with the key takes the value.\<close>

fun set_value :: "column list \<Rightarrow> u8 list \<Rightarrow> u8 list \<Rightarrow> column list option" where
  "set_value [] key value = None"
| "set_value (c # cs) key value =
     (if col_key c = key then Some (c\<lparr>col_value := value\<rparr> # cs)
      else map_option ((#) c) (set_value cs key value))"

definition logData_body :: "'d mlog \<Rightarrow> u8 list \<Rightarrow> u8 list \<Rightarrow> code \<times> 'd mlog" where
  "logData_body l key0 value0 =
     (let key = cleaned key0 True; value = cleaned value0 True in
      case set_value (rowData l) key value of
        Some cs \<Rightarrow> (OK, l\<lparr>rowData := cs\<rparr>)
      | None \<Rightarrow> (OK, addHeading l key value False))"

definition logData :: "'d log_env \<Rightarrow> 'd mlog \<Rightarrow> u8 list \<Rightarrow> u8 list \<Rightarrow> (code \<times> 'd mlog) option" where
  "logData E l key value =
     map_option (\<lambda>l1. logData_body (if has (status l1) LOG_ROW_STARTED then l1 else open_row l1)
                         key value)
       (init E l)"

text \<open>
  The text of a time stamp. \<open>now\<close> is the system timer in milliseconds. \<open>None\<close> would be a
  \<open>padString\<close> that runs for ever.
\<close>

definition timestamp_text :: "'d log_env \<Rightarrow> TimeStampFormat \<Rightarrow> nat \<Rightarrow> u8 list option" where
  "timestamp_text E format now =
     (let t = now div ts_value format;
          billions0 = t div 1000000000;
          units0 = t mod 1000000000;
          big = ts_value format > 1;
          fraction = (if big then units0 mod 100 else 0);
          units = (if big then units0 div 100 else units0);
          billions = (if big then billions0 div 100 else billions0)
      in do {
        f \<leftarrow> padString (itoa E (int fraction)) 2;
        s \<leftarrow> (if billions \<noteq> 0
             then map_option (\<lambda>u. itoa E (int billions) @ u) (padString (itoa E (int units)) 9)
             else Some (itoa E (int units)));
        Some (if big then s @ [46] @ f else s)
      })"

text \<open>The separator loops: fields joined by commas, with a newline at the end.\<close>

fun join_fields :: "u8 list list \<Rightarrow> u8 list" where
  "join_fields [] = [10]"
| "join_fields [x] = x @ [10]"
| "join_fields (x # xs) = x @ [44] @ join_fields xs"

text \<open>The rewriting of the headings: the new text goes after the old one, which is zeroed.\<close>

definition write_headings :: "'d log_env \<Rightarrow> 'd mlog \<Rightarrow> u8 list \<Rightarrow> 'd mlog" where
  "write_headings E l h =
     (let start = (if headingStart l = 0 then startAddress l + 40 else headingStart l);
          l1 = cache_write E (l\<lparr>headingStart := start\<rparr>) start (replicate (headingLength l) 0);
          start' = start + headingLength l
      in cache_write E (l1\<lparr>headingStart := start'\<rparr>) start' h)"

definition endRow_stamp :: "'d log_env \<Rightarrow> nat \<Rightarrow> 'd mlog \<Rightarrow> 'd mlog option" where
  "endRow_stamp E now l =
     (if list_ex (\<lambda>c. col_value c \<noteq> []) (rowData l) \<and> timeStampFormat l \<noteq> TS_None then
        do {
          s \<leftarrow> timestamp_text E (timeStampFormat l) now;
          map_option snd (logData E l (timeStampHeading l) s)
        }
      else Some l)"

definition endRow_headings :: "'d log_env \<Rightarrow> 'd mlog \<Rightarrow> 'd mlog option" where
  "endRow_headings E l =
     (if headingsChanged l then
        let h = join_fields (map col_key (rowData l)) in
        map_option (\<lambda>(r, l1). l1\<lparr>headingsChanged := False\<rparr>) (logString E (write_headings E l h) h)
      else Some l)"

definition endRow_data :: "'d log_env \<Rightarrow> 'd mlog \<Rightarrow> 'd mlog option" where
  "endRow_data E l =
     (if list_ex (\<lambda>c. col_value c \<noteq> []) (rowData l)
      then map_option snd (logString E l (join_fields (map col_value (rowData l))))
      else Some l)"

definition endRow :: "'d log_env \<Rightarrow> nat \<Rightarrow> 'd mlog \<Rightarrow> (code \<times> 'd mlog) option" where
  "endRow E now l =
     (if \<not> has (status l) LOG_ROW_STARTED then Some (INVALID_STATE, l)
      else do {
        l1 \<leftarrow> init E l;
        l2 \<leftarrow> endRow_stamp E now l1;
        l3 \<leftarrow> endRow_headings E l2;
        l4 \<leftarrow> endRow_data E l3;
        let l5 = l4\<lparr>status := status l4 AND NOT LOG_ROW_STARTED\<rparr>;
        Some (if has (status l5) LOG_FULL then NO_RESOURCES else OK, l5)
      })"

definition beginRow :: "'d log_env \<Rightarrow> nat \<Rightarrow> 'd mlog \<Rightarrow> (code \<times> 'd mlog) option" where
  "beginRow E now l =
     do {
       l1 \<leftarrow> init E l;
       l2 \<leftarrow> (if has (status l1) LOG_ROW_STARTED then map_option snd (endRow E now l1) else Some l1);
       Some (OK, open_row l2)
     }"

end
