(* ===== verification/LogText.thy ===== *)
theory LogText
  imports MicroBitLog
begin

text \<open>
  The text side of \<open>MicroBitLog\<close>: hexadecimal fields, cleaning of strings, the list of
  headings and the CSV rows. Nothing here touches flash.
\<close>

subsection \<open>Numbers in metadata and journal\<close>

lemma unat_hex_digit: "d < 16 \<Longrightarrow> unat (hex_digit d) = (if d > 9 then 55 + d else 48 + d)"
proof -
  assume d: "d < 16"
  have "unat (of_nat k :: u8) = k" if "k < 256" for k
    using that by (simp add: unat_of_nat take_bit_nat_eq_self)
  from this [of "65 + d - 10"] this [of "48 + d"] d show ?thesis
    by (auto simp: hex_digit_def simp del: of_nat_add of_nat_diff)
qed

lemma hex_value_digit: "d < 16 \<Longrightarrow> hex_value (hex_digit d) = Some d"
  by (auto simp: hex_value_def unat_hex_digit Let_def)

lemma hex_digit_range: "d < 16 \<Longrightarrow> unat (hex_digit d) \<in> {48..57} \<union> {65..70}"
  by (auto simp: unat_hex_digit)

lemma length_write_digits [simp]: "length (write_digits n k) = k"
  by (induction k) auto

lemma set_write_digits: "b \<in> set (write_digits n k) \<Longrightarrow> \<exists>d<16. b = hex_digit d"
  by (induction k) (auto intro: exI [of _ "n div 16 ^ k mod 16" for k])

lemma hex_digits_append:
  "(\<forall>b \<in> set xs. hex_value b \<noteq> None) \<Longrightarrow>
    hex_digits (xs @ ys) acc = hex_digits ys (hex_digits xs acc)"
  by (induction xs arbitrary: acc) (auto split: option.splits)

lemma hex_digits_write:
  "hex_digits (write_digits n k) acc = 16 ^ k * acc + n mod 16 ^ k"
proof (induction k arbitrary: acc)
  case 0
  then show ?case by simp
next
  case (Suc k)
  have "n mod 16 ^ Suc k = 16 ^ k * (n div 16 ^ k mod 16) + n mod 16 ^ k"
    using mod_mult2_eq [of n "16 ^ k" 16] by (simp add: mult.commute)
  with Suc [of "16 * acc + n div 16 ^ k mod 16"] show ?case
    by (simp add: hex_value_digit algebra_simps)
qed

lemma write_digits_hex: "\<forall>b \<in> set (write_digits n k). hex_value b \<noteq> None"
  using set_write_digits hex_value_digit by fastforce

lemma hex_digit_plain: "d < 16 \<Longrightarrow> \<not> is_space (hex_digit d) \<and>
    hex_digit d \<noteq> 43 \<and> hex_digit d \<noteq> 45 \<and> hex_digit d \<noteq> 120 \<and> hex_digit d \<noteq> 88 \<and>
    hex_digit d \<noteq> 0 \<and> hex_digit d \<noteq> 255"
proof -
  assume d: "d < 16"
  have ne: "hex_digit d \<noteq> w" if "unat w \<notin> {48..57} \<union> {65..70}" for w
    using hex_digit_range [OF d] that by blast
  moreover have "\<not> is_space (hex_digit d)"
    using hex_digit_range [OF d] ne [of 32] by (auto simp: is_space_def)
  ultimately show ?thesis by simp
qed

lemma write_digits_8:
  "write_digits n 8 = hex_digit (n div 16 ^ 7 mod 16) # hex_digit (n div 16 ^ 6 mod 16) #
     hex_digit (n div 16 ^ 5 mod 16) # write_digits n 5"
  using write_digits.simps(2) [of n 7] write_digits.simps(2) [of n 6] write_digits.simps(2) [of n 5]
  by simp

lemma hex_digits_stop: "hex_digits (0 # bs) acc = acc"
  by (simp add: hex_value_def)

lemma strip_0x_digits: "strip_0x (write_digits n 8 @ bs) = write_digits n 8 @ bs"
  using hex_digit_plain [of "n div 16 ^ 6 mod 16"] by (simp add: write_digits_8)

lemma hex_digits_8: "n < 2 ^ 32 \<Longrightarrow> bs = [] \<or> hd bs = 0 \<Longrightarrow> hex_digits (write_digits n 8 @ bs) 0 = n"
  using hex_digits_write [of n 8 0]
  by (cases bs) (simp_all add: hex_digits_append [OF write_digits_hex] hex_digits_stop
      del: hex_digits.simps(2))

lemma strtoul16_digits:
  assumes "n < 2 ^ 32" and "bs = [] \<or> hd bs = 0"
  shows "strtoul16 (write_digits n 8 @ bs) = n"
proof -
  have "dropWhile is_space (write_digits n 8 @ bs) = write_digits n 8 @ bs"
    "hd (write_digits n 8 @ bs) \<noteq> 43" "hd (write_digits n 8 @ bs) \<noteq> 45"
    using hex_digit_plain [of "n div 16 ^ 7 mod 16"] by (simp_all add: write_digits_8)
  then show ?thesis
    using assms(1) hex_digits_8 [OF assms] by (simp add: strtoul16_def strip_0x_digits Let_def)
qed

lemma strtoul16_0x:
  assumes "n < 2 ^ 32"
  shows "strtoul16 (bytes ''0x'' @ write_digits n 8 @ [0]) = n"
proof -
  have b: "bytes ''0x'' = [48, 120]" by (simp add: bytes_def)
  have s: "strip_0x ([48, 120] @ write_digits n 8 @ [0]) = write_digits n 8 @ [0]"
    using hex_value_digit [of "n div 16 ^ 7 mod 16"] by (simp add: write_digits_8)
  have "\<not> is_space 48" by (simp add: is_space_def)
  then show ?thesis
    using assms s hex_digits_8 [OF assms, of "[0]"] by (simp add: strtoul16_def b Let_def)
qed

lemma length_writeNum [simp]: "length (writeNum n) = 9"
  by (simp add: writeNum_def)

lemma take_writeNum [simp]: "take 8 (writeNum n) = write_digits n 8"
  by (simp add: writeNum_def)

subsection \<open>Cleaning\<close>

definition arrow_at :: "u8 list \<Rightarrow> nat \<Rightarrow> bool" where
  "arrow_at s i \<longleftrightarrow> i + 2 < length s \<and> s ! i = 45 \<and> s ! (i + 1) = 45 \<and> s ! (i + 2) = 62"

definition separator_at :: "u8 list \<Rightarrow> bool \<Rightarrow> nat \<Rightarrow> bool" where
  "separator_at s rs i \<longleftrightarrow> s ! i = 9 \<or> rs \<and> (s ! i = 44 \<or> s ! i = 10)"

text \<open>The bytes the first \<open>n\<close> passes of the loop replace.\<close>

definition replaced :: "u8 list \<Rightarrow> bool \<Rightarrow> nat \<Rightarrow> nat \<Rightarrow> bool" where
  "replaced s rs n i \<longleftrightarrow>
     (\<exists>j<n. arrow_at s j \<and> j \<le> i \<and> i \<le> j + 2) \<or> (i < n \<and> separator_at s rs i)"

definition effective :: "u8 list \<Rightarrow> u8 list \<Rightarrow> u8 list" where
  "effective s out = (if out = [] then s else out)"

lemma nth_update: "xs[i := x] ! j = (if i = j \<and> j < length xs then x else xs ! j)"
  by (cases "i = j") (auto simp: list_update_beyond)

lemma arrow_at_less: "arrow_at s j \<Longrightarrow> j < length s"
  by (simp add: arrow_at_def)

lemma cleaned_effective: "cleaned s rs = effective s (cleanBuffer s rs)"
  by (simp add: cleaned_def effective_def Let_def)

lemma effective_step:
  assumes "length (effective s out) = length s" "i < length s"
  shows "effective s (clean_step s rs out i) =
    (let o1 = if arrow_at s i then (effective s out)[i := 95, i + 1 := 95, i + 2 := 95]
              else effective s out
     in if separator_at s rs i then o1[i := 95] else o1)"
  using assms
  by (auto simp: clean_step_def effective_def arrow_at_def separator_at_def INVALID_CHAR_def Let_def)

lemma replaced_Suc:
  "replaced s rs (Suc n) i \<longleftrightarrow>
     replaced s rs n i \<or> (arrow_at s n \<and> n \<le> i \<and> i \<le> n + 2) \<or> (i = n \<and> separator_at s rs n)"
  by (auto simp: replaced_def less_Suc_eq)

lemma clean_prefix:
  "n \<le> length s \<Longrightarrow>
    effective s (foldl (clean_step s rs) [] [0..<n])
      = map (\<lambda>i. if replaced s rs n i then 95 else s ! i) [0..<length s]"
proof (induction n)
  case 0
  then show ?case by (simp add: effective_def replaced_def map_nth)
next
  case (Suc n)
  let ?out = "foldl (clean_step s rs) [] [0..<n]"
  have IH: "effective s ?out = map (\<lambda>i. if replaced s rs n i then 95 else s ! i) [0..<length s]"
    using Suc by simp
  then have "effective s (clean_step s rs ?out n) =
    (let o1 = if arrow_at s n then (effective s ?out)[n := 95, n + 1 := 95, n + 2 := 95]
              else effective s ?out
     in if separator_at s rs n then o1[n := 95] else o1)"
    using Suc by (intro effective_step) simp_all
  also have "\<dots> = map (\<lambda>i. if replaced s rs (Suc n) i then 95 else s ! i) [0..<length s]"
    by (rule nth_equalityI)
       (auto simp: IH Let_def replaced_Suc nth_update)
  finally show ?case using Suc by simp
qed

lemma cleaned_nth:
  "i < length s \<Longrightarrow> cleaned s rs ! i = (if replaced s rs (length s) i then 95 else s ! i)"
  by (simp add: cleaned_effective cleanBuffer_def clean_prefix)

lemma length_cleaned [simp]: "length (cleaned s rs) = length s"
  by (simp add: cleaned_effective cleanBuffer_def clean_prefix)

lemma replaced_all:
  "i < length s \<Longrightarrow> replaced s rs (length s) i \<longleftrightarrow>
     (\<exists>j. arrow_at s j \<and> j \<le> i \<and> i \<le> j + 2) \<or> separator_at s rs i"
  using arrow_at_less [of s] by (auto simp: replaced_def)

lemma cleaned_set: "b \<in> set (cleaned s rs) \<Longrightarrow> b = 95 \<or> b \<in> set s"
proof -
  assume "b \<in> set (cleaned s rs)"
  then obtain i where "i < length s" "b = cleaned s rs ! i" by (metis in_set_conv_nth length_cleaned)
  then show ?thesis using nth_mem [of i s] by (simp add: cleaned_nth)
qed

text \<open>
  C7 Cleaning a string keeps its length and changes nothing but the bytes of every "-->", every tab and, when
  separators are to go, every comma and newline; each of these becomes an underscore. (The comments of
  \<open>cleanBuffer\<close> in MicroBitLog.cpp and MicroBitLog.h say that without \<open>removeSeparators\<close> only "-->" is erased: the
  code replaces a tab then, too, and that is what is shown here, see the findings.)
\<close>

theorem cleaned_correct:
  "length (cleaned s rs) = length s \<and>
   (\<forall>i < length s. cleaned s rs ! i =
      (if (\<exists>j. arrow_at s j \<and> j \<le> i \<and> i \<le> j + 2) \<or> s ! i = 9 \<or> rs \<and> (s ! i = 44 \<or> s ! i = 10) then 95 else s ! i))"
  by (simp add: cleaned_nth replaced_all separator_at_def)

theorem cleaned_correct_witness: "cleaned (bytes ''a-->b'') False ! 2 = 95"
proof -
  have "arrow_at (bytes ''a-->b'') 1"
    by (simp add: arrow_at_def bytes_def)
  then have "\<exists>j. arrow_at (bytes ''a-->b'') j \<and> j \<le> 2 \<and> 2 \<le> j + 2" by (intro exI [of _ 1]) simp
  moreover have "2 < length (bytes ''a-->b'')" by (simp add: bytes_def)
  ultimately show ?thesis using cleaned_correct [of "bytes ''a-->b''" False] by simp
qed

lemma cleaned_no_separator: "i < length s \<Longrightarrow> \<not> separator_at (cleaned s rs) rs i"
  by (auto simp: separator_at_def cleaned_nth replaced_all split: if_splits)

text \<open>
  Cleaned text cannot end the HTML comment that holds the log, nor break the CSV: no "-->" is
  left, no tab, and with separators removed no comma or newline; cleaning again changes nothing.
\<close>

theorem cleaned_safe:
  "\<not> arrow_at (cleaned s rs) i \<and> (9 \<notin> set (cleaned s rs)) \<and>
   (rs \<longrightarrow> 44 \<notin> set (cleaned s rs) \<and> 10 \<notin> set (cleaned s rs)) \<and>
   cleaned (cleaned s rs) rs = cleaned s rs"
proof -
  have arrows: "\<not> arrow_at (cleaned s rs) i" for i
  proof
    assume a: "arrow_at (cleaned s rs) i"
    then have i: "i + 2 < length s" by (simp add: arrow_at_def)
    have keep: "\<not> replaced s rs (length s) k \<and> s ! k = cleaned s rs ! k"
      if "k < length s" "cleaned s rs ! k \<noteq> 95" for k
      using that by (auto simp: cleaned_nth split: if_splits)
    from keep [of i] keep [of "i + 1"] keep [of "i + 2"] a i
    have "arrow_at s i" "\<not> replaced s rs (length s) i" by (simp_all add: arrow_at_def)
    then show False using i by (auto simp: replaced_all)
  qed
  note plain = cleaned_no_separator [of _ s rs]
  have again: "cleaned (cleaned s rs) rs = cleaned s rs"
    using arrows plain replaced_all [of _ "cleaned s rs" rs]
    by (intro nth_equalityI) (simp_all add: cleaned_nth [of _ "cleaned s rs"])
  show ?thesis
    using arrows again plain by (auto simp: in_set_conv_nth separator_at_def)
qed

theorem cleaned_safe_witness: "10 \<notin> set (cleaned [104, 10, 45, 45, 62] True)"
  using cleaned_safe [of "[104, 10, 45, 45, 62]" True 0] by simp

text \<open>
  A 32-bit number written as eight hexadecimal digits reads back the same, bare as in a journal
  entry or after "0x" and terminated as in the metadata block.
\<close>

theorem hex_roundtrip:
  "n < 2 ^ 32 \<Longrightarrow> strtoul16 (take 8 (writeNum n) @ [0]) = n \<and>
     strtoul16 (bytes ''0x'' @ writeNum n) = n"
  using strtoul16_digits [of n "[0]"] strtoul16_0x [of n] by (simp add: writeNum_def)

theorem hex_roundtrip_witness: "strtoul16 (bytes ''0x'' @ writeNum 3735928559) = 3735928559"
  using hex_roundtrip [of 3735928559] by simp

subsection \<open>Headings and rows\<close>

definition plain_key :: "u8 list \<Rightarrow> bool" where
  "plain_key k \<longleftrightarrow> 0 \<notin> set k \<and> 44 \<notin> set k \<and> 10 \<notin> set k \<and> 255 \<notin> set k"

lemma cleaned_plain: "0 \<notin> set k \<Longrightarrow> 255 \<notin> set k \<Longrightarrow> plain_key (cleaned k True)"
  using cleaned_set [of 0 k True] cleaned_set [of 255 k True] cleaned_no_separator [of _ k True]
    in_set_conv_nth [of _ "cleaned k True"]
  by (auto simp: plain_key_def separator_at_def)

lemma join_fields_Cons: "xs \<noteq> [] \<Longrightarrow> join_fields (x # xs) = x @ 44 # join_fields xs"
  by (cases xs) simp_all

lemma join_fields_sep:
  "\<forall>k \<in> set ks. plain_key k \<Longrightarrow> ks \<noteq> [] \<Longrightarrow>
    length (filter is_separator (join_fields ks)) = length ks"
proof (induction ks)
  case (Cons k ks)
  have "filter is_separator k = []"
    using Cons(2) by (auto simp: filter_empty_conv is_separator_def plain_key_def)
  moreover have "is_separator 44" "is_separator 10" by (simp_all add: is_separator_def)
  ultimately show ?case using Cons by (cases "ks = []") (simp_all add: join_fields_Cons)
qed simp

lemma parse_keys_join:
  "\<forall>k \<in> set ks. plain_key k \<Longrightarrow> ks \<noteq> [] \<Longrightarrow>
    parse_keys (length ks) (map (\<lambda>b. if is_separator b then 0 else b) (join_fields ks)) = ks"
proof (induction ks)
  case (Cons k ks)
  let ?f = "\<lambda>b. if is_separator b then 0 else b"
  have k: "map ?f k = k" "\<forall>b \<in> set k. b \<noteq> 0"
    using Cons(2) by (auto simp: plain_key_def is_separator_def intro!: map_idI)
  have sep: "?f 44 = 0" "?f 10 = 0" by (simp_all add: is_separator_def)
  have tw: "takeWhile (\<lambda>b. b \<noteq> 0) (k @ 0 # r) = k" for r
    using k(2) by (simp add: takeWhile_append2)
  show ?case
  proof (cases "ks = []")
    case True
    then show ?thesis using k(1) sep tw [of "[]"] by (simp add: Let_def)
  next
    case False
    then show ?thesis using Cons k(1) sep tw by (simp add: join_fields_Cons Let_def)
  qed
qed simp

lemma parse_headings_join:
  "\<forall>k \<in> set ks. plain_key k \<Longrightarrow> ks \<noteq> [] \<Longrightarrow>
    parse_headings (join_fields ks) = map (\<lambda>k. \<lparr>col_key = k, col_value = []\<rparr>) ks"
  by (simp add: parse_headings_def join_fields_sep parse_keys_join)

lemma join_fields_FF: "\<forall>k \<in> set ks. b \<notin> set k \<Longrightarrow> b \<noteq> 44 \<Longrightarrow> b \<noteq> 10 \<Longrightarrow> b \<notin> set (join_fields ks)"
proof (induction ks)
  case (Cons k ks)
  then show ?case by (cases "ks = []") (auto simp: join_fields_Cons)
qed simp

lemma join_fields_ne [simp]: "join_fields ks \<noteq> []"
  by (cases ks rule: join_fields.cases) simp_all

text \<open>The text of one field more differs where the old text had its newline.\<close>

lemma join_fields_snoc:
  "ks \<noteq> [] \<Longrightarrow> \<exists>p. join_fields ks = p @ [10] \<and> join_fields (ks @ [k]) = p @ 44 # k @ [10]"
proof (induction ks)
  case (Cons x ks)
  show ?case
  proof (cases "ks = []")
    case False
    then obtain p where "join_fields ks = p @ [10]" "join_fields (ks @ [k]) = p @ 44 # k @ [10]"
      using Cons by blast
    then show ?thesis using False by (intro exI [of _ "x @ 44 # p"]) (simp add: join_fields_Cons)
  qed simp
qed simp

text \<open>
  C8 The headings written at the end of a row are the headings a restart reads back: parsing the
  comma-separated line gives the same keys in the same order, with no values.
\<close>

theorem headings_roundtrip:
  assumes "\<forall>k \<in> set ks. 0 \<notin> set k \<and> 255 \<notin> set k" and "ks \<noteq> []"
  shows "parse_headings (join_fields (map (\<lambda>k. cleaned k True) ks))
    = map (\<lambda>k. \<lparr>col_key = cleaned k True, col_value = []\<rparr>) ks"
  using assms parse_headings_join [of "map (\<lambda>k. cleaned k True) ks"] cleaned_plain
  by (auto simp: comp_def)

theorem headings_roundtrip_witness:
  "parse_headings (join_fields [cleaned [97, 44] True, cleaned [98] True])
    = [\<lparr>col_key = cleaned [97, 44] True, col_value = []\<rparr>, \<lparr>col_key = cleaned [98] True, col_value = []\<rparr>]"
  using headings_roundtrip [of "[[97, 44], [98]]"] by simp

subsection \<open>Filling in a row\<close>

definition row_map :: "column list \<Rightarrow> u8 list \<rightharpoonup> u8 list" where
  "row_map cs = map_of (map (\<lambda>c. (col_key c, col_value c)) cs)"

lemma row_map_simps [simp]:
  "row_map [] = Map.empty" "row_map (c # cs) = (row_map cs)(col_key c \<mapsto> col_value c)"
  "row_map (cs @ ds) = row_map ds ++ row_map cs"
  by (simp_all add: row_map_def)

lemma set_value_None: "set_value cs key value = None \<longleftrightarrow> key \<notin> col_key ` set cs"
  by (induction cs) auto

lemma set_value_Some:
  "set_value cs key value = Some cs' \<Longrightarrow>
    map col_key cs' = map col_key cs \<and> row_map cs' = (row_map cs)(key \<mapsto> value)"
  by (induction cs arbitrary: cs') (auto split: if_splits)

lemma row_map_fresh: "key \<notin> col_key ` set cs \<Longrightarrow> row_map cs key = None"
  by (induction cs) auto

text \<open>
  \<open>logData\<close> on an open row: exactly the given (cleaned) key takes the given (cleaned) value and
  every other column keeps its own; the keys stay distinct and in order, and a new key is added at
  the end and marks the headings as changed, an old one does not.
\<close>

theorem logData_sets_value:
  fixes l :: "'d mlog" and key val :: "u8 list"
  assumes "distinct (map col_key (rowData l))"
  defines "l' \<equiv> snd (logData_body l key val)" and "k \<equiv> cleaned key True"
  shows "row_map (rowData l') = (row_map (rowData l))(k \<mapsto> cleaned val True) \<and>
    distinct (map col_key (rowData l')) \<and>
    map col_key (rowData l') = map col_key (rowData l) @ (if k \<in> col_key ` set (rowData l) then [] else [k]) \<and>
    headingsChanged l' = (headingsChanged l \<or> k \<notin> col_key ` set (rowData l))"
proof (cases "set_value (rowData l) k (cleaned val True)")
  case None
  then have fresh: "k \<notin> col_key ` set (rowData l)" by (simp add: set_value_None)
  then have "\<not> list_ex (\<lambda>c. col_key c = k) (rowData l)" by (auto simp: list_ex_iff)
  then have "rowData l' = rowData l @ [\<lparr>col_key = k, col_value = cleaned val True\<rparr>]" "headingsChanged l'"
    using None by (simp_all add: l'_def k_def logData_body_def addHeading_def)
  then show ?thesis
    using fresh assms(1) row_map_fresh [OF fresh] by (auto simp: map_add_def fun_eq_iff split: option.splits)
next
  case (Some cs)
  then have "k \<in> col_key ` set (rowData l)" using set_value_None [of "rowData l" k "cleaned val True"] by simp
  moreover have "rowData l' = cs" "headingsChanged l' = headingsChanged l"
    using Some by (simp_all add: l'_def k_def logData_body_def)
  ultimately show ?thesis using set_value_Some [OF Some] assms(1) by simp
qed

theorem logData_sets_value_witness:
  "row_map (rowData (snd (logData_body (mlog_new () [] []) [97] [49]))) [97] = Some (cleaned [49] True)"
proof -
  have "cleaned [97] True = [97]" by code_simp
  then show ?thesis using logData_sets_value [of "mlog_new () [] []" "[97]" "[49]"]
    by (simp add: mlog_new_def)
qed

subsection \<open>Time stamps\<close>

lemma padString_done: "length s = n \<Longrightarrow> padString s n = Some s"
  by (simp add: padString.simps)

lemma padString_short: "padString s (length s + k) = Some (replicate k 48 @ s)"
proof (induction k arbitrary: s)
  case (Suc k)
  have "padString s (length s + Suc k) = padString (48 # s) (length (48 # s) + k)"
    by (subst padString.simps) simp
  also have "\<dots> = Some (replicate k 48 @ 48 # s)" by (rule Suc)
  finally show ?case by (simp add: replicate_app_Cons_same)
qed (simp add: padString.simps)

text \<open>
  A time stamp in seconds, minutes, hours or days is taken in hundredths of the unit, printed as
  whole units, a point and two digits of fraction (as long as the number of hundredths is below
  a thousand million).
\<close>

theorem timestamp_units:
  assumes "ts_value format > 1" and "now div ts_value format < 1000000000"
    and "\<forall>i. 0 \<le> i \<and> i < 100 \<longrightarrow> length (itoa E i) \<le> 2"
  shows "timestamp_text E format now =
    (let h = now div ts_value format; f = itoa E (int (h mod 100)) in
     Some (itoa E (int (h div 100)) @ [46] @ replicate (2 - length f) 48 @ f))"
proof -
  let ?f = "itoa E (int (now div ts_value format mod 100))"
  have "length ?f \<le> 2" using assms(3) by (simp add: nat_less_iff)
  then have "padString ?f 2 = Some (replicate (2 - length ?f) 48 @ ?f)"
    using padString_short [of ?f "2 - length ?f"] by simp
  then show ?thesis using assms(1,2) by (simp add: timestamp_text_def Let_def)
qed

text \<open>
  The time stamp of seconds to days falls back to 0 after a thousand million hundredths of the
  unit (for seconds, after 116 days): the count of thousand millions is divided by 100 and lost.
\<close>

theorem timestamp_wraps:
  assumes "ts_value format > 1" and "now div ts_value format < 1000000000"
  shows "timestamp_text E format (now + 1000000000 * ts_value format) = timestamp_text E format now"
  using assms by (simp add: timestamp_text_def Let_def)

definition digit_env :: "unit log_env" where
  "digit_env = \<lparr>ctrl = undefined, setConfiguration = \<lambda>d _ _. d, remount = \<lambda>d. d, header = [],
     itoa = (\<lambda>i. [of_int (48 + i mod 10)]), junk = 0\<rparr>"

theorem timestamp_units_witness:
  "timestamp_text digit_env TS_Seconds 5030 = Some [53, 46, 48, 51]"
  using timestamp_units [of TS_Seconds 5030 digit_env] by (simp add: digit_env_def Let_def)

theorem timestamp_wraps_witness:
  "timestamp_text digit_env TS_Seconds 10000005030 = timestamp_text digit_env TS_Seconds 5030"
  using timestamp_wraps [of TS_Seconds 5030 digit_env] by simp

subsection \<open>Calls between the row operations\<close>

lemma addHeading_status [simp]: "status (addHeading l k v h) = status l"
  by (simp add: addHeading_def Let_def)

lemma setTimeStamp_body_status [simp]: "status (setTimeStamp_body l f) = status l"
  by (simp add: setTimeStamp_body_def Let_def)

lemma init_initialized: "init E l = Some l' \<Longrightarrow> has (status l') LOG_INITIALIZED"
  by (auto simp: init_def clear_def Let_def split: if_splits prod.splits bool.splits)

lemma beginRow_closed:
  "has (status l) LOG_INITIALIZED \<Longrightarrow> \<not> has (status l) LOG_ROW_STARTED \<Longrightarrow>
    beginRow E now l = Some (OK, open_row l)"
  by (simp add: beginRow_def init_def)

lemma logData_beginRow:
  "logData E l key val = do {
     l1 \<leftarrow> init E l;
     l2 \<leftarrow> (if has (status l1) LOG_ROW_STARTED then Some l1 else map_option snd (beginRow E now l1));
     Some (logData_body l2 key val)
   }"
  by (cases "init E l") (auto simp: logData_def beginRow_closed init_initialized)

end
