(* ===== verification/LogRecovery.thy ===== *)
theory LogRecovery
  imports LogText
begin

text \<open>
  What the log promises about power loss: the state on flash after any sequence of appended
  strings is enough for \<open>init\<close> to find the journal entry, the end of the data and the
  headings again. \<open>log_image\<close> is the layout on flash (\<open>inc/MicroBitLog.h\<close> draws it),
  \<open>log_inv\<close> adds that the state in RAM describes that layout and that the cache is coherent.
  The lemmas are proved in the locale \<open>log_device\<close>, for every controller that keeps the
  contract of \<open>NVM\<close>, and reach the properties through its interpretation on the flash
  manager of the repository (\<open>LogProperties\<close>).
\<close>

subsection \<open>The layout on flash\<close>

definition page_end :: "nat \<Rightarrow> nat \<Rightarrow> nat" where
  "page_end pg a = (a div pg + 1) * pg"

lemma page_end_props:
  assumes "0 < pg"
  shows "page_end pg a = a + (pg - a mod pg)" "a < page_end pg a" "pg dvd page_end pg a"
proof -
  have "page_end pg a = a div pg * pg + pg" by (simp add: page_end_def)
  with block_offset [of a pg] mod_less_divisor [OF assms, of a]
  show "page_end pg a = a + (pg - a mod pg)" "a < page_end pg a" by linarith+
qed (simp add: page_end_def)

lemma page_end_same:
  assumes "a + n < page_end pg a"
  shows "page_end pg (a + n) = page_end pg a"
proof -
  have "(a + n) div pg < a div pg + 1"
    using assms by (intro less_mult_imp_div_less) (simp add: page_end_def)
  moreover have "a div pg \<le> (a + n) div pg" by (rule div_le_mono) simp
  ultimately show ?thesis by (simp add: page_end_def)
qed

text \<open>
  The journal from \<open>js\<close> to \<open>ds\<close>: no byte before the head is unused, the head holds the
  hexadecimal length \<open>used\<close>, entries after it are unused.
\<close>

definition journal_at :: "mem \<Rightarrow> nat \<Rightarrow> nat \<Rightarrow> nat \<Rightarrow> nat \<Rightarrow> bool" where
  "journal_at m js ds jh used \<longleftrightarrow>
     js \<le> jh \<and> jh + 8 \<le> ds \<and> 8 dvd jh - js \<and>
     (\<forall>x. js \<le> x \<and> x < jh \<longrightarrow> m x \<noteq> 255) \<and>
     rdm m jh 8 = write_digits used 8 \<and>
     (\<forall>x. jh + 8 \<le> x \<and> x < ds \<longrightarrow> m x = 255)"

text \<open>The data from \<open>ds\<close> to \<open>de\<close>, with the rest of its last page unused.\<close>

definition data_at :: "mem \<Rightarrow> nat \<Rightarrow> nat \<Rightarrow> nat \<Rightarrow> nat \<Rightarrow> bool" where
  "data_at m pg ds le de \<longleftrightarrow>
     ds \<le> de \<and> de \<le> le \<and>
     (\<forall>x. ds \<le> x \<and> x < de \<longrightarrow> m x \<noteq> 255) \<and>
     (\<forall>x. de \<le> x \<and> x < page_end pg de \<and> x < le \<longrightarrow> m x = 255)"

text \<open>The headings from \<open>hs\<close> to \<open>he\<close>, after the metadata and zeros, before unused bytes.\<close>

definition headings_at :: "mem \<Rightarrow> nat \<Rightarrow> nat \<Rightarrow> nat \<Rightarrow> nat \<Rightarrow> bool" where
  "headings_at m sa js hs he \<longleftrightarrow>
     sa + 40 \<le> hs \<and> hs \<le> he \<and> he < js \<and>
     (\<forall>x. sa + 40 \<le> x \<and> x < hs \<longrightarrow> m x = 0) \<and> m hs \<noteq> 0 \<and>
     (\<forall>x. hs \<le> x \<and> x < he \<longrightarrow> m x \<noteq> 255) \<and>
     (\<forall>x. he \<le> x \<and> x < js \<longrightarrow> m x = 255)"

text \<open>
  \<open>log_image fe pg sa ds le m jh de hs he\<close>: the image \<open>m\<close> of a flash that ends at \<open>fe\<close> holds
  a log. The length in the journal may be behind the end of the data, never ahead of it. The
  journal has room for one entry for each block of data.
\<close>

definition log_image ::
    "nat \<Rightarrow> nat \<Rightarrow> nat \<Rightarrow> nat \<Rightarrow> nat \<Rightarrow> mem \<Rightarrow> nat \<Rightarrow> nat \<Rightarrow> nat \<Rightarrow> nat \<Rightarrow> bool" where
  "log_image fe pg sa ds le m jh de hs he \<longleftrightarrow>
     pg dvd sa \<and> pg dvd ds \<and> sa + 2 * pg \<le> ds \<and> ds < le \<and> le + 4 < fe \<and> fe \<le> 2 ^ 32 \<and>
     (le - ds) div 256 < (ds - (sa + pg)) div 8 \<and>
     rdm m sa 40 = meta_bytes ds le \<and>
     (\<exists>used \<le> de - ds. journal_at m (sa + pg) ds jh used) \<and>
     (jh - (sa + pg)) div 8 \<le> (de - ds) div 256 \<and>
     data_at m pg ds le de \<and>
     headings_at m sa (sa + pg) hs he"

text \<open>Blocks of the data region held by the cache start before the end of the data.\<close>

definition held_below :: "'d fscache \<Rightarrow> nat \<Rightarrow> nat \<Rightarrow> bool" where
  "held_below c ds de \<longleftrightarrow> (\<forall>b \<in> held c. b < ds \<or> b \<le> de)"

locale log_device = nvm_contract N img good 0 fe pg
  for N :: "'d nvm" and img good fe pg +
  fixes E :: "'d log_env"
  assumes ctrl [simp]: "ctrl E = N"
    and blocks_in_page: "256 dvd pg"
    and configure_img: "good d \<Longrightarrow> img (setConfiguration E d name sz) = img d"
    and configure_good: "good d \<Longrightarrow> good (setConfiguration E d name sz)"
    and remount_img: "good d \<Longrightarrow> img (remount E d) = img d"
    and remount_good: "good d \<Longrightarrow> good (remount E d)"
begin

abbreviation image :: "'d fscache \<Rightarrow> mem" where
  "image c \<equiv> img (fc_flash c)"

definition cache_ok :: "'d fscache \<Rightarrow> bool" where
  "cache_ok c \<longleftrightarrow> good (fc_flash c) \<and> coherent (image c) 0 fe c \<and> fc_blockSize c = 256"

lemma cache_okD:
  assumes "cache_ok c"
  shows "good (fc_flash c)" "coherent (image c) 0 fe c" "fc_blockSize c = 256"
    "nvm_page N (fc_flash c) = pg" "nvm_start N (fc_flash c) = 0" "nvm_end N (fc_flash c) = fe"
  using assms geometry [of "fc_flash c"] by (auto simp: cache_ok_def)

lemma cache_ok_geometry:
  assumes "cache_ok c"
  shows "0 < pg" "4 dvd pg" "pg dvd fe" "fe \<le> 2 ^ 32" "256 \<le> pg"
  using assms geometry_sane [of "fc_flash c"] blocks_in_page dvd_imp_le [of 256 pg]
  by (auto simp: cache_ok_def)

text \<open>The cache calls of the log, over a coherent cache.\<close>

lemma cache_read_spec:
  assumes ok: "cache_ok (cache l)" and range: "a + length old < fe"
  shows "\<exists>c'. cache_read E l a old = (rdm (image (cache l)) a (length old), l\<lparr>cache := c'\<rparr>) \<and>
      cache_ok c' \<and> image c' = image (cache l) \<and>
      held c' \<subseteq> held (cache l) \<union> blocks 256 a (length old)"
proof -
  note C = cache_okD(1-3) [OF ok]
  obtain r c' where r: "fscache_read N (cache l) a (length old) = (r, c')" by fastforce
  note S = fscache_read_spec [OF C(2,1) le0 range r]
  show ?thesis
    using r S C by (intro exI [of _ c']) (simp add: cache_read_def cache_ok_def)
qed

lemma cache_write_spec:
  assumes ok: "cache_ok (cache l)" and range: "a + length bs < fe"
    and fit: "\<forall>k<length bs. fits (image (cache l) (a + k)) (bs ! k)"
  shows "\<exists>c'. cache_write E l a bs = l\<lparr>cache := c'\<rparr> \<and> cache_ok c' \<and>
      image c' = put (image (cache l)) a bs \<and>
      held c' \<subseteq> held (cache l) \<union> blocks 256 a (length bs)"
proof -
  note C = cache_okD(1-3) [OF ok]
  obtain r c' where r: "fscache_write N (cache l) a bs = (r, c')" by fastforce
  note S = fscache_write_spec [OF C(2,1) le0 range r]
  have "r = OK" using S(1) fit by simp
  then show ?thesis
    using r S C by (intro exI [of _ c']) (simp add: cache_write_def cache_ok_def)
qed

lemma cache_write_any:
  assumes ok: "cache_ok (cache l)" and range: "a + length bs < fe"
  shows "\<exists>c'. cache_write E l a bs = l\<lparr>cache := c'\<rparr> \<and> cache_ok c' \<and>
      (image c' = put (image (cache l)) a bs \<or> image c' = image (cache l))"
proof -
  note C = cache_okD(1-3) [OF ok]
  obtain r c' where r: "fscache_write N (cache l) a bs = (r, c')" by fastforce
  note S = fscache_write_spec [OF C(2,1) le0 range r]
  show ?thesis
    using r S(2-5) C by (intro exI [of _ c']) (simp add: cache_write_def cache_ok_def)
qed

lemma flash_erase_spec:
  assumes ok: "cache_ok (cache l)" and p: "pg dvd p" "p + pg \<le> fe"
    and clean: "\<And>b. b \<in> held (cache l) \<Longrightarrow> b + 256 \<le> p \<or> p + pg \<le> b \<or>
        (\<forall>x. p \<le> x \<and> x < p + pg \<longrightarrow> image (cache l) x = 255)"
  shows "\<exists>c'. flash_erase E l p = l\<lparr>cache := c'\<rparr> \<and> cache_ok c' \<and>
      image c' = wipe (image (cache l)) p pg \<and> held c' = held (cache l)"
proof -
  note C = cache_okD(1-3) [OF ok]
  let ?c = "(cache l)\<lparr>fc_flash := snd (nvm_erase N (fc_flash (cache l)) p)\<rparr>"
  have im: "img (snd (nvm_erase N (fc_flash (cache l)) p)) = wipe (image (cache l)) p pg"
    using C(1) p by (intro erase_img) auto
  have gd: "good (snd (nvm_erase N (fc_flash (cache l)) p))"
    using C(1) p by (intro erase_good) auto
  have "coherent (wipe (image (cache l)) p pg) 0 fe ?c"
  proof (rule coherent_image [OF C(2)])
    fix b assume b: "b \<in> held (cache l)"
    show "rdm (wipe (image (cache l)) p pg) b (fc_blockSize (cache l))
        = rdm (image (cache l)) b (fc_blockSize (cache l))"
      using clean [OF b] C(3) by (intro rdm_cong) (auto simp: wipe_def)
  qed simp_all
  moreover have "held ?c = held (cache l)" by (simp add: held_def)
  ultimately show ?thesis
    using im gd C(3) by (intro exI [of _ ?c]) (simp add: flash_erase_def cache_ok_def)
qed

lemma held_aligned: "cache_ok c \<Longrightarrow> b \<in> held c \<Longrightarrow> 256 dvd b"
  by (auto simp: cache_ok_def held_def coherent_def entry_ok_def)

text \<open>What the loops of \<open>logString\<close> keep of the data region.\<close>

definition appendable :: "'d mlog \<Rightarrow> bool" where
  "appendable l \<longleftrightarrow> cache_ok (cache l) \<and> pg dvd dataStart l \<and> logEnd l < fe \<and>
     data_at (image (cache l)) pg (dataStart l) (logEnd l) (dataEnd l) \<and>
     held_below (cache l) (dataStart l) (dataEnd l)"

lemma append_erase_spec:
  assumes l: "appendable l"
  defines "p \<equiv> page_end pg (dataEnd l)"
  shows "\<exists>c. append_erase E l n = l\<lparr>cache := c\<rparr> \<and> cache_ok c \<and> held c = held (cache l) \<and>
    image c = (if p \<le> dataEnd l + n \<and> p < logEnd l then wipe (image (cache l)) p pg
               else image (cache l))"
proof -
  have ok: "cache_ok (cache l)" and D: "data_at (image (cache l)) pg (dataStart l) (logEnd l) (dataEnd l)"
    and H: "held_below (cache l) (dataStart l) (dataEnd l)" and le: "logEnd l < fe"
    using l by (auto simp: appendable_def)
  note G = cache_ok_geometry [OF ok] and P = page_end_props [OF G(1), of "dataEnd l"]
  have cond: "append_erase E l n = (if p \<le> dataEnd l + n \<and> p < logEnd l then flash_erase E l p else l)"
    using P(1) cache_okD(4) [OF ok]
    by (auto simp: append_erase_def space_on_page_def p_def page_end_def)
  show ?thesis
  proof (cases "p \<le> dataEnd l + n \<and> p < logEnd l")
    case True
    have "p + pg \<le> fe" using block_fits [OF G(3), of p] True le P(3) by (simp add: p_def)
    moreover have "b + 256 \<le> p" if b: "b \<in> held (cache l)" for b
    proof -
      have "b < p" using H b D P(2) by (auto simp: held_below_def data_at_def p_def)
      with held_aligned [OF ok b] show ?thesis
        using multiples_apart [of 256 b p] P(3) blocks_in_page by (auto simp: p_def dest: dvd_trans)
    qed
    ultimately obtain c' where "flash_erase E l p = l\<lparr>cache := c'\<rparr> \<and> cache_ok c' \<and>
        image c' = wipe (image (cache l)) p pg \<and> held c' = held (cache l)"
      using flash_erase_spec [OF ok] P(3) by (metis p_def)
    then show ?thesis using True by (intro exI [of _ c']) (simp add: cond)
  next
    case False
    then show ?thesis using ok by (intro exI [of _ "cache l"]) (auto simp: cond)
  qed
qed

lemma data_at_erased:
  assumes "data_at m pg ds le de" and "0 < pg"
  shows "data_at (wipe m (page_end pg de) pg) pg ds le de"
  using assms page_end_props(2) [of pg de] by (auto simp: data_at_def wipe_def)

text \<open>The data region with a piece \<open>bs\<close> written behind its end, the next page erased if it is reached.\<close>

lemma data_at_written:
  assumes D: "data_at m pg ds le de" and pg: "0 < pg" and FF: "255 \<notin> set bs"
    and m1: "m1 = (if page_end pg de \<le> de + n \<and> page_end pg de < le then wipe m (page_end pg de) pg else m)"
    and len: "length bs \<le> n" "de + length bs \<le> page_end pg de" "de + length bs \<le> le"
  shows "data_at (put m1 de bs) pg ds le (de + length bs)"
proof -
  let ?p = "page_end pg de" and ?k = "length bs"
  note p = page_end_props [OF pg, of de]
  have "put m1 de bs x \<noteq> 255" if "ds \<le> x" "x < de + ?k" for x
  proof (cases "x < de")
    case True
    then show ?thesis using D that m1 p(2) by (auto simp: data_at_def put_def wipe_def)
  next
    case False
    then have "put m1 de bs x \<in> set bs" using that by (auto simp: put_def intro!: nth_mem)
    then show ?thesis using FF by metis
  qed
  moreover have "put m1 de bs x = 255" if "de + ?k \<le> x" "x < page_end pg (de + ?k)" "x < le" for x
  proof (cases "de + ?k < ?p")
    case True
    then have "page_end pg (de + ?k) = ?p" by (rule page_end_same)
    then show ?thesis using that D m1 by (auto simp: put_def data_at_def wipe_def)
  next
    case False
    then have e: "de + ?k = ?p" using len(2) by simp
    moreover from this have "page_end pg (de + ?k) = ?p + pg"
      using p(3) pg by (auto simp: page_end_def elim!: dvdE)
    moreover have "?p \<le> de + n" using e len(1) by linarith
    ultimately show ?thesis using that m1 by (auto simp: put_def wipe_def)
  qed
  ultimately show ?thesis using D len(3) by (auto simp: data_at_def)
qed

lemma append_pass_spec:
  assumes l: "appendable l" and bs: "bs \<noteq> []" "255 \<notin> set bs"
    and room: "dataEnd l + length bs \<le> logEnd l"
  defines "n \<equiv> min (length bs) (space_on_page E l)"
  shows "\<exists>c'. append_pass E l bs = l\<lparr>cache := c', dataEnd := dataEnd l + n\<rparr> \<and>
      appendable (l\<lparr>cache := c', dataEnd := dataEnd l + n\<rparr>) \<and> 0 < n \<and> n \<le> length bs \<and>
      (\<forall>x < dataEnd l. image c' x = image (cache l) x) \<and>
      rdm (image c') (dataEnd l) n = take n bs"
proof -
  let ?de = "dataEnd l" and ?ds = "dataStart l" and ?le = "logEnd l" and ?m = "image (cache l)"
  let ?p = "page_end pg ?de"
  have ok: "cache_ok (cache l)" and ds: "pg dvd ?ds" and le: "?le < fe"
    and D: "data_at ?m pg ?ds ?le ?de" and H: "held_below (cache l) ?ds ?de"
    using l by (auto simp: appendable_def)
  note G = cache_ok_geometry [OF ok]
  have p: "?p = ?de + space_on_page E l" "?de < ?p" "pg dvd ?p"
    using page_end_props [OF G(1), of ?de] cache_okD(4) [OF ok] by (simp_all add: space_on_page_def)
  have n_le: "?de + n \<le> ?p" "?de + n \<le> ?le" "0 < n" "n \<le> length bs" "length (take n bs) = n"
    using n_def p room bs(1) by auto
  obtain c1 where c1: "append_erase E l (length bs) = l\<lparr>cache := c1\<rparr>" "cache_ok c1"
      "held c1 = held (cache l)"
    and im1: "image c1 = (if ?p \<le> ?de + length bs \<and> ?p < ?le then wipe ?m ?p pg else ?m)"
    using append_erase_spec [OF l] by blast
  let ?l1 = "l\<lparr>cache := c1\<rparr>"
  have unused: "image c1 x = 255" if "?de \<le> x" "x < ?p" "x < ?le" for x
    using D that im1 by (auto simp: data_at_def wipe_def)
  have fit: "\<forall>k < length (take n bs). fits (image (cache ?l1) (?de + k)) (take n bs ! k)"
    using unused n_le by simp
  have "?de + length (take n bs) < fe" using n_le le by simp
  from cache_write_spec [of ?l1, OF _ this fit] c1
  obtain c2 where c2: "cache_write E ?l1 ?de (take n bs) = l\<lparr>cache := c2\<rparr>" "cache_ok c2"
    "image c2 = put (image c1) ?de (take n bs)" "held c2 \<subseteq> held (cache l) \<union> blocks 256 ?de n"
    using n_le(5) by auto
  have low: "\<forall>x < ?de. image c2 x = ?m x"
    using c2(3) im1 p(2) by (auto simp: put_def wipe_def)
  have mid: "rdm (image c2) ?de n = take n bs"
    using c2(3) rdm_put_same [of "image c1" ?de "take n bs"] n_le(5) by simp
  have "255 \<notin> set (take n bs)" using bs(2) by (auto dest: in_set_takeD)
  from data_at_written [OF D G(1) this im1] have "data_at (image c2) pg ?ds ?le (?de + n)"
    using c2(3) n_le by simp
  moreover have "held_below c2 ?ds (?de + n)"
    using H c2(4) by (fastforce simp: held_below_def blocks_def)
  ultimately have "appendable (l\<lparr>cache := c2, dataEnd := ?de + n\<rparr>)"
    using c2(2) ds le by (auto simp: appendable_def)
  then show ?thesis
    using c2(1) c1(1) low mid n_le(3,4)
    by (intro exI [of _ c2]) (simp add: append_pass_def Let_def flip: n_def)
qed

lemma append_loop_spec:
  assumes "appendable l" "255 \<notin> set bs" "dataEnd l + length bs \<le> logEnd l"
  shows "\<exists>c'. append_loop E l bs = l\<lparr>cache := c', dataEnd := dataEnd l + length bs\<rparr> \<and>
      appendable (append_loop E l bs) \<and>
      (\<forall>x < dataEnd l. image c' x = image (cache l) x) \<and>
      rdm (image c') (dataEnd l) (length bs) = bs"
  using assms
proof (induction bs arbitrary: l rule: length_induct)
  case (1 bs)
  show ?case
  proof (cases "bs = []")
    case True
    then show ?thesis using 1(2) by (intro exI [of _ "cache l"]) (simp add: append_loop.simps)
  next
    case False
    have ok: "cache_ok (cache l)" using 1(2) by (simp add: appendable_def)
    then have pg: "0 < pageSize E l" using cache_ok_geometry cache_okD(4) by auto
    define n where "n = min (length bs) (space_on_page E l)"
    obtain c1 where c1: "append_pass E l bs = l\<lparr>cache := c1, dataEnd := dataEnd l + n\<rparr>"
      and A: "appendable (l\<lparr>cache := c1, dataEnd := dataEnd l + n\<rparr>)" and n: "0 < n" "n \<le> length bs"
      and low: "\<forall>x < dataEnd l. image c1 x = image (cache l) x"
      and mid: "rdm (image c1) (dataEnd l) n = take n bs"
      using append_pass_spec [OF 1(2) False 1(3,4)] by (auto simp: n_def)
    let ?l' = "l\<lparr>cache := c1, dataEnd := dataEnd l + n\<rparr>"
    have rec: "append_loop E l bs = append_loop E ?l' (drop n bs)"
      using False pg c1 by (subst append_loop.simps) (simp flip: n_def)
    have "length (drop n bs) < length bs" using n by simp
    moreover have "255 \<notin> set (drop n bs)" using 1(3) by (meson in_set_dropD)
    moreover have "dataEnd ?l' + length (drop n bs) \<le> logEnd ?l'" using 1(4) n by simp
    ultimately obtain c' where c': "append_loop E ?l' (drop n bs)
          = ?l'\<lparr>cache := c', dataEnd := dataEnd ?l' + length (drop n bs)\<rparr>"
        "appendable (append_loop E ?l' (drop n bs))"
        "\<forall>x < dataEnd ?l'. image c' x = image (cache ?l') x"
        "rdm (image c') (dataEnd ?l') (length (drop n bs)) = drop n bs"
      using 1(1) A by blast
    have "rdm (image c') (dataEnd l) (length bs)
        = rdm (image c') (dataEnd l) n @ rdm (image c') (dataEnd l + n) (length bs - n)"
      using rdm_add [of "image c'" "dataEnd l" n "length bs - n"] n(2) by simp
    also have "rdm (image c') (dataEnd l) n = rdm (image c1) (dataEnd l) n"
      using c'(3) by (intro rdm_cong) simp
    also have "\<dots> = take n bs" by (rule mid)
    finally have "rdm (image c') (dataEnd l) (length bs) = bs" using c'(4) by simp
    then show ?thesis using c' n rec low by (intro exI [of _ c']) simp
  qed
qed

text \<open>The journal: the head moves to the next slot, which is unused.\<close>

lemma journal_advance_spec:
  assumes ok: "cache_ok (cache l)" and pages: "pg dvd dataStart l"
    and unused: "\<forall>x. journalHead l + 8 \<le> x \<and> x < dataStart l \<longrightarrow> image (cache l) x = 255"
    and room: "journalHead l + 16 \<le> dataStart l" and le: "dataStart l < fe"
  shows "\<exists>c. journal_advance E l = l\<lparr>cache := c, journalHead := journalHead l + 8\<rparr> \<and>
      cache_ok c \<and> image c = image (cache l) \<and> held c \<subseteq> held (cache l)"
proof -
  let ?m = "image (cache l)" and ?h = "journalHead l + 8"
  note G = cache_ok_geometry [OF ok]
  obtain c1 where c1: "image c1 = ?m" "cache_ok c1" "held c1 \<subseteq> held (cache l)"
    and l1: "(if ?h mod pg = 0
        then flash_erase E (l\<lparr>cache := snd (fscache_erase (cache l) ?h)\<rparr>) ?h else l) = l\<lparr>cache := c1\<rparr>"
  proof (cases "?h mod pg = 0")
    case True
    then have pg_h: "pg dvd ?h" by auto
    have pgend: "?h + pg \<le> dataStart l" using block_fits [OF pages, of ?h] room pg_h by simp
    let ?c = "snd (fscache_erase (cache l) ?h)"
    have blank: "rdm ?m ?h 256 = replicate 256 255"
      using pgend G(5) unused by (intro nth_equalityI) auto
    have C: "coherent ?m 0 fe ?c \<and> held ?c \<subseteq> held (cache l)"
      using fscache_erase_spec [OF cache_okD(2) [OF ok], of ?h ?m] blank cache_okD(3) [OF ok] by simp
    then have okc: "cache_ok (cache (l\<lparr>cache := ?c\<rparr>))" using ok by (simp add: cache_ok_def)
    have "\<exists>c'. flash_erase E (l\<lparr>cache := ?c\<rparr>) ?h = l\<lparr>cache := ?c\<rparr>\<lparr>cache := c'\<rparr> \<and> cache_ok c' \<and>
        image c' = wipe (image (cache (l\<lparr>cache := ?c\<rparr>))) ?h pg \<and> held c' = held (cache (l\<lparr>cache := ?c\<rparr>))"
      using pgend le unused by (intro flash_erase_spec [OF okc pg_h]) auto
    moreover have "wipe ?m ?h pg = ?m" using unused pgend by (auto simp: wipe_def fun_eq_iff)
    ultimately show ?thesis using that C True by auto
  next
    case False
    then show ?thesis using that [of "cache l"] ok by simp
  qed
  have "journal_advance E l = l\<lparr>cache := c1, journalHead := ?h\<rparr>"
    using l1 room cache_okD(4) [OF ok]
    by (simp add: journal_advance_def MICROBIT_LOG_JOURNAL_ENTRY_SIZE_def Let_def
        cong: if_cong split del: if_split)
  then show ?thesis using c1 by blast
qed

lemma journal_enter_spec:
  assumes ok: "cache_ok (cache l)" and unused: "\<forall>x. journalHead l \<le> x \<and> x < journalHead l + 8 \<longrightarrow> image (cache l) x = 255"
    and room: "journalHead l + 8 \<le> dataStart l" and le: "dataStart l < fe"
    and de: "dataStart l \<le> dataEnd l" "dataEnd l < 2 ^ 32"
  shows "\<exists>c used. journal_enter E l = l\<lparr>cache := c\<rparr> \<and> cache_ok c \<and>
      used = (dataEnd l - dataStart l) div 256 * 256 \<and>
      image c = put (image (cache l)) (journalHead l) (write_digits used 8) \<and>
      held c \<subseteq> held (cache l) \<union> blocks 256 (journalHead l) 8"
proof -
  let ?u = "(dataEnd l - dataStart l) div 256 * 256"
  have "\<exists>c'. cache_write E l (journalHead l) (write_digits ?u 8) = l\<lparr>cache := c'\<rparr> \<and> cache_ok c' \<and>
      image c' = put (image (cache l)) (journalHead l) (write_digits ?u 8) \<and>
      held c' \<subseteq> held (cache l) \<union> blocks 256 (journalHead l) (length (write_digits ?u 8))"
    using unused room le by (intro cache_write_spec [OF ok]) auto
  then show ?thesis using de
    by (auto simp: journal_enter_def CONFIG_MICROBIT_LOG_CACHE_BLOCK_SIZE_def sub32_le)
qed

lemma journal_retire_spec:
  assumes ok: "cache_ok (cache l)" and "old + 8 < fe"
  shows "\<exists>c. journal_retire E l old = l\<lparr>cache := c\<rparr> \<and> cache_ok c \<and>
      image c = put (image (cache l)) old (replicate 8 0) \<and>
      held c \<subseteq> held (cache l) \<union> blocks 256 old 8"
  using cache_write_spec [OF ok, of old "replicate 8 0"] assms(2) by (auto simp: journal_retire_def)

lemma journal_at_entered:
  assumes J: "journal_at m js ds jh used" and room: "jh + 16 \<le> ds"
  shows "journal_at (put m (jh + 8) (write_digits u 8)) js ds (jh + 8) u"
proof -
  have d: "js \<le> jh" "8 dvd jh - js" using J by (simp_all add: journal_at_def)
  then have "8 dvd jh + 8 - js" by presburger
  moreover have "m x \<noteq> 255" if "js \<le> x" "x < jh + 8" for x
  proof (cases "x < jh")
    case False
    then have "m x = write_digits used 8 ! (x - jh)"
      using J that nth_rdm [of "x - jh" 8 m jh] by (simp add: journal_at_def)
    moreover have "write_digits used 8 ! (x - jh) \<in> set (write_digits used 8)"
      using False that by (intro nth_mem) simp
    ultimately show ?thesis using set_write_digits hex_digit_plain by metis
  qed (use J that in \<open>auto simp: journal_at_def\<close>)
  moreover have "rdm (put m (jh + 8) (write_digits u 8)) (jh + 8) 8 = write_digits u 8"
    using rdm_put_same [of m "jh + 8" "write_digits u 8"] by simp
  ultimately show ?thesis using J room d(1) by (auto simp: journal_at_def put_def)
qed

lemma journal_at_retired:
  assumes "journal_at m js ds (jh + 8) u" and "js \<le> jh"
  shows "journal_at (put m jh (replicate 8 0)) js ds (jh + 8) u"
proof -
  have "rdm (put m jh (replicate 8 0)) (jh + 8) 8 = rdm m (jh + 8) 8" by (rule rdm_put_disj) simp
  then show ?thesis using assms by (auto simp: journal_at_def put_def)
qed

end

subsection \<open>The log in use\<close>

definition log_ready ::
    "('d \<Rightarrow> mem) \<Rightarrow> ('d \<Rightarrow> bool) \<Rightarrow> nat \<Rightarrow> nat \<Rightarrow> 'd mlog \<Rightarrow> nat \<Rightarrow> nat \<Rightarrow> bool" where
  "log_ready img good fe pg l hs he \<longleftrightarrow>
     good (fc_flash (cache l)) \<and> coherent (img (fc_flash (cache l))) 0 fe (cache l) \<and>
     fc_blockSize (cache l) = 256 \<and> has (status l) LOG_INITIALIZED \<and>
     journalStart l = startAddress l + pg \<and>
     log_image fe pg (startAddress l) (dataStart l) (logEnd l) (img (fc_flash (cache l)))
       (journalHead l) (dataEnd l) hs he \<and>
     held_below (cache l) (dataStart l) (dataEnd l)"

text \<open>The text the log holds.\<close>

definition log_data :: "('d \<Rightarrow> mem) \<Rightarrow> 'd mlog \<Rightarrow> u8 list" where
  "log_data img l = rdm (img (fc_flash (cache l))) (dataStart l) (dataEnd l - dataStart l)"

text \<open>
  The states \<open>append_string\<close> passes through, one for each call of the flash driver that may change the flash: power
  may be lost in any of them. The write of a pass goes to the flash in pieces, one for each block of the cache;
  \<open>append_partial\<close> is the state after \<open>k\<close> of them. An entry of the journal lies in one block.
\<close>

definition append_partial :: "'d log_env \<Rightarrow> 'd mlog \<Rightarrow> u8 list \<Rightarrow> nat \<Rightarrow> 'd mlog" where
  "append_partial E l bs k =
     (let l1 = append_erase E l (length bs)
      in l1\<lparr>cache := write_cut (ctrl E) (cache l1) (dataEnd l1) (take (min (length bs) (space_on_page E l)) bs) k\<rparr>)"

lemma append_partial_all:
  "length bs \<le> k \<Longrightarrow> (append_partial E l bs k)
      \<lparr>dataEnd := dataEnd (append_partial E l bs k) + min (length bs) (space_on_page E l)\<rparr> = append_pass E l bs"
  by (simp add: append_partial_def append_pass_def cache_write_def write_cut_all Let_def)

inductive append_cut :: "'d log_env \<Rightarrow> 'd mlog \<Rightarrow> u8 list \<Rightarrow> 'd mlog \<Rightarrow> bool" for E where
  cut_here: "append_cut E l bs l"
| cut_erased: "bs \<noteq> [] \<Longrightarrow> append_cut E l bs (append_erase E l (length bs))"
| cut_block: "bs \<noteq> [] \<Longrightarrow> append_cut E l bs (append_partial E l bs k)"
| cut_later: "bs \<noteq> [] \<Longrightarrow>
    append_cut E (append_pass E l bs) (drop (min (length bs) (space_on_page E l)) bs) l' \<Longrightarrow>
    append_cut E l bs l'"

inductive string_cut :: "'d log_env \<Rightarrow> 'd mlog \<Rightarrow> u8 list \<Rightarrow> 'd mlog \<Rightarrow> bool" for E l s where
  cut_append: "data = cleaned s False \<Longrightarrow> append_cut E (mirror l data) data l' \<Longrightarrow>
    string_cut E l s l'"
| cut_advance: "data = cleaned s False \<Longrightarrow> l2 = append_loop E (mirror l data) data \<Longrightarrow>
    block_crossed l l2 \<Longrightarrow> string_cut E l s (journal_advance E l2)"
| cut_enter: "data = cleaned s False \<Longrightarrow> l2 = append_loop E (mirror l data) data \<Longrightarrow>
    block_crossed l l2 \<Longrightarrow> string_cut E l s (journal_enter E (journal_advance E l2))"
| cut_done: "string_cut E l s (append_string E l s)"

context log_device
begin

abbreviation ready :: "'d mlog \<Rightarrow> nat \<Rightarrow> nat \<Rightarrow> bool" where
  "ready \<equiv> log_ready img good fe pg"

lemma readyD:
  assumes "ready l hs he"
  shows "cache_ok (cache l)" "has (status l) LOG_INITIALIZED" "journalStart l = startAddress l + pg"
    "log_image fe pg (startAddress l) (dataStart l) (logEnd l) (image (cache l))
       (journalHead l) (dataEnd l) hs he"
    "held_below (cache l) (dataStart l) (dataEnd l)" "appendable l"
  using assms by (auto simp: log_ready_def cache_ok_def appendable_def log_image_def)

lemma readyI:
  assumes "cache_ok (cache l)" "has (status l) LOG_INITIALIZED" "journalStart l = startAddress l + pg"
    "log_image fe pg (startAddress l) (dataStart l) (logEnd l) (image (cache l))
       (journalHead l) (dataEnd l) hs he"
    "held_below (cache l) (dataStart l) (dataEnd l)"
  shows "ready l hs he"
  using assms by (simp add: log_ready_def cache_ok_def)

lemma div_diff_mult: "(a - 256 * k) div 256 = a div 256 - (k :: nat)"
proof (cases "256 * k \<le> a")
  case True
  then obtain r where "a = 256 * k + r" using le_Suc_ex by blast
  then show ?thesis by simp
next
  case False
  then have "a div 256 < k" by (intro less_mult_imp_div_less) (simp add: mult.commute)
  with False show ?thesis by simp
qed

lemma journal_room:
  assumes "log_image fe pg sa ds le m jh de hs he"
    and "de \<le> de'" "de' \<le> le" "de' div 256 \<noteq> de div 256"
  shows "jh + 16 \<le> ds" "(jh + 8 - (sa + pg)) div 8 \<le> (de' - ds) div 256"
proof -
  obtain k where k: "ds = 256 * k"
    using assms(1) blocks_in_page by (auto simp: log_image_def elim!: dvdE)
  have "de div 256 < de' div 256" using assms(2,4) div_le_mono le_neq_implies_less by metis
  moreover have "ds \<le> de" using assms(1) by (simp add: log_image_def data_at_def)
  ultimately have step: "(de - ds) div 256 < (de' - ds) div 256"
    using assms(2) by (simp add: k div_diff_mult)
  moreover have "(de' - ds) div 256 \<le> (le - ds) div 256" using assms(3) by (intro div_le_mono) simp
  moreover have J: "(jh - (sa + pg)) div 8 \<le> (de - ds) div 256"
    "(le - ds) div 256 < (ds - (sa + pg)) div 8" "8 dvd jh - (sa + pg)" "sa + pg \<le> jh" "jh \<le> ds"
    using assms(1) by (auto simp: log_image_def journal_at_def)
  ultimately have "(jh - (sa + pg)) div 8 + 2 \<le> (ds - (sa + pg)) div 8" by linarith
  moreover from J(3) obtain q where q: "jh - (sa + pg) = 8 * q" ..
  moreover have "8 * ((ds - (sa + pg)) div 8) \<le> ds - (sa + pg)" by simp
  ultimately have "8 * q + 16 \<le> ds - (sa + pg)" by simp
  then show "jh + 16 \<le> ds" using J(4,5) q by linarith
  have "jh + 8 - (sa + pg) = 8 * (q + 1)" using q J(4) by simp
  then show "(jh + 8 - (sa + pg)) div 8 \<le> (de' - ds) div 256" using step J(1) q by simp
qed

lemma log_image_frame:
  assumes "log_image fe pg sa ds le m jh de hs he"
    and "\<forall>x < sa + pg. m' x = m x"
    and "journal_at m' (sa + pg) ds jh' used" "used \<le> de' - ds"
    and "(jh' - (sa + pg)) div 8 \<le> (de' - ds) div 256"
    and "data_at m' pg ds le de'"
  shows "log_image fe pg sa ds le m' jh' de' hs he"
proof -
  have "40 < pg" using assms(1) by (auto simp: log_image_def headings_at_def)
  then have "rdm m' sa 40 = rdm m sa 40" using assms(2) by (intro rdm_cong) simp
  moreover have "headings_at m sa (sa + pg) hs he" using assms(1) by (simp add: log_image_def)
  then have "headings_at m' sa (sa + pg) hs he" using assms(2) by (auto simp: headings_at_def)
  ultimately show ?thesis using assms by (auto simp: log_image_def)
qed

text \<open>While text is appended the journal keeps its head.\<close>

lemma log_image_appended:
  assumes I: "log_image fe pg sa ds le m jh de hs he"
    and low: "\<forall>x < de. m' x = m x" and de: "de \<le> de'" and D: "data_at m' pg ds le de'"
  shows "log_image fe pg sa ds le m' jh de' hs he"
proof -
  obtain used where J: "journal_at m (sa + pg) ds jh used" "used \<le> de - ds"
    and I': "ds \<le> de" "(jh - (sa + pg)) div 8 \<le> (de - ds) div 256"
    using I by (auto simp: log_image_def data_at_def)
  have js: "sa + pg \<le> ds" using J by (simp add: journal_at_def)
  have "rdm m' jh 8 = rdm m jh 8"
    using low J I'(1) by (intro rdm_cong) (simp add: journal_at_def)
  then have "journal_at m' (sa + pg) ds jh used"
    using J(1) low I'(1) js by (auto simp: journal_at_def)
  moreover have "(jh - (sa + pg)) div 8 \<le> (de' - ds) div 256"
    using I'(2) div_le_mono [of "de - ds" "de' - ds" 256] de by linarith
  ultimately show ?thesis
    using low I'(1) js J(2) de D by (intro log_image_frame [OF I]) auto
qed

lemma mirror_simps [simp]:
  "cache (mirror l d) = cache l" "dataEnd (mirror l d) = dataEnd l" "logEnd (mirror l d) = logEnd l"
  "dataStart (mirror l d) = dataStart l" "journalStart (mirror l d) = journalStart l"
  "journalHead (mirror l d) = journalHead l" "startAddress (mirror l d) = startAddress l"
  "status (mirror l d) = status l" "rowData (mirror l d) = rowData l"
  "headingStart (mirror l d) = headingStart l" "headingLength (mirror l d) = headingLength l"
  "headingsChanged (mirror l d) = headingsChanged l"
  "timeStampFormat (mirror l d) = timeStampFormat l"
  "timeStampHeading (mirror l d) = timeStampHeading l"
  by (simp_all add: mirror_def)

lemma appendable_mirror [simp]: "appendable (mirror l d) = appendable l"
  by (simp add: appendable_def)

lemma cleaned_FF: "255 \<notin> set s \<Longrightarrow> 255 \<notin> set (cleaned s rs)"
  using cleaned_set [of 255 s rs] by auto

text \<open>The state after the append, before the journal.\<close>

lemma append_string_loop:
  assumes l: "ready l hs he" and s: "255 \<notin> set s" and room: "dataEnd l + length s \<le> logEnd l"
  defines "l1 \<equiv> mirror l (cleaned s False)"
  shows "\<exists>c. append_loop E l1 (cleaned s False) = l1\<lparr>cache := c, dataEnd := dataEnd l + length s\<rparr> \<and>
      cache_ok c \<and> held_below c (dataStart l) (dataEnd l + length s) \<and>
      log_image fe pg (startAddress l) (dataStart l) (logEnd l) (image c) (journalHead l)
        (dataEnd l + length s) hs he \<and>
      (\<forall>x < dataEnd l. image c x = image (cache l) x) \<and>
      rdm (image c) (dataEnd l) (length s) = cleaned s False"
proof -
  note R = readyD [OF l]
  obtain c where c: "append_loop E l1 (cleaned s False) = l1\<lparr>cache := c, dataEnd := dataEnd l + length s\<rparr>"
    and A: "appendable (append_loop E l1 (cleaned s False))"
    and low: "\<forall>x < dataEnd l. image c x = image (cache l) x"
    and app: "rdm (image c) (dataEnd l) (length s) = cleaned s False"
    using append_loop_spec [of l1 "cleaned s False"] R(6) cleaned_FF [OF s] room by (auto simp: l1_def)
  then have "cache_ok c" "held_below c (dataStart l) (dataEnd l + length s)"
    "data_at (image c) pg (dataStart l) (logEnd l) (dataEnd l + length s)"
    by (simp_all add: appendable_def l1_def)
  moreover from this(3) have "log_image fe pg (startAddress l) (dataStart l) (logEnd l) (image c)
      (journalHead l) (dataEnd l + length s) hs he"
    by (intro log_image_appended [OF R(4) low]) simp_all
  ultimately show ?thesis using c low app by blast
qed

text \<open>The journal steps after it.\<close>

lemma journal_steps:
  assumes ok: "cache_ok (cache l)" and H: "held_below (cache l) (dataStart l) (dataEnd l)"
    and I: "log_image fe pg (startAddress l) (dataStart l) (logEnd l) (image (cache l))
        (journalHead l) (dataEnd l) hs he"
    and room: "journalHead l + 16 \<le> dataStart l"
    and cap: "(journalHead l + 8 - (startAddress l + pg)) div 8 \<le> (dataEnd l - dataStart l) div 256"
  shows "\<exists>c1 c2 c3.
      journal_advance E l = l\<lparr>cache := c1, journalHead := journalHead l + 8\<rparr> \<and>
      journal_enter E (journal_advance E l) = l\<lparr>cache := c2, journalHead := journalHead l + 8\<rparr> \<and>
      write_journal E l = l\<lparr>cache := c3, journalHead := journalHead l + 8\<rparr> \<and>
      cache_ok c1 \<and> cache_ok c2 \<and> cache_ok c3 \<and>
      held_below c3 (dataStart l) (dataEnd l) \<and> image c1 = image (cache l) \<and>
      log_image fe pg (startAddress l) (dataStart l) (logEnd l) (image c2) (journalHead l + 8)
        (dataEnd l) hs he \<and>
      log_image fe pg (startAddress l) (dataStart l) (logEnd l) (image c3) (journalHead l + 8)
        (dataEnd l) hs he \<and>
      (\<forall>x. x < startAddress l + pg \<or> dataStart l \<le> x \<longrightarrow>
          image c2 x = image (cache l) x \<and> image c3 x = image (cache l) x)"
proof -
  let ?m = "image (cache l)" and ?jh = "journalHead l" and ?ds = "dataStart l" and ?js = "startAddress l + pg"
  obtain used where J: "journal_at ?m ?js ?ds ?jh used"
    and I': "pg dvd ?ds" "?ds < logEnd l" "logEnd l < fe" "?ds \<le> dataEnd l" "dataEnd l < 2 ^ 32"
      "data_at ?m pg ?ds (logEnd l) (dataEnd l)"
    using I by (auto simp: log_image_def data_at_def)
  have js: "?js \<le> ?jh" using J by (simp add: journal_at_def)
  have unused: "\<forall>x. ?jh + 8 \<le> x \<and> x < ?ds \<longrightarrow> ?m x = 255" using J by (simp add: journal_at_def)
  obtain c1 where c1: "journal_advance E l = l\<lparr>cache := c1, journalHead := ?jh + 8\<rparr>"
      "cache_ok c1" "image c1 = ?m" "held c1 \<subseteq> held (cache l)"
    using journal_advance_spec [OF ok I'(1) unused room] I'(2,3) by auto
  let ?l1 = "l\<lparr>cache := c1, journalHead := ?jh + 8\<rparr>"
  let ?u = "(dataEnd l - ?ds) div 256 * 256"
  have "\<exists>c used. journal_enter E ?l1 = ?l1\<lparr>cache := c\<rparr> \<and> cache_ok c \<and>
      used = (dataEnd ?l1 - dataStart ?l1) div 256 * 256 \<and>
      image c = put (image (cache ?l1)) (journalHead ?l1) (write_digits used 8) \<and>
      held c \<subseteq> held (cache ?l1) \<union> blocks 256 (journalHead ?l1) 8"
    using c1 unused room I' by (intro journal_enter_spec) auto
  then obtain c2 where c2: "journal_enter E ?l1 = ?l1\<lparr>cache := c2\<rparr>" "cache_ok c2"
      "image c2 = put ?m (?jh + 8) (write_digits ?u 8)" "held c2 \<subseteq> held c1 \<union> blocks 256 (?jh + 8) 8"
    using c1(3) by auto
  let ?l2 = "l\<lparr>cache := c2, journalHead := ?jh + 8\<rparr>"
  obtain c3 where c3: "journal_retire E ?l2 ?jh = ?l2\<lparr>cache := c3\<rparr>" "cache_ok c3"
      "image c3 = put (image c2) ?jh (replicate 8 0)" "held c3 \<subseteq> held c2 \<union> blocks 256 ?jh 8"
    using journal_retire_spec [of ?l2 ?jh] c2(2) room I'(2,3) by auto
  have eq: "?l1\<lparr>cache := c2\<rparr> = ?l2" "?l2\<lparr>cache := c3\<rparr> = l\<lparr>cache := c3, journalHead := ?jh + 8\<rparr>"
    by (cases l, simp)+
  have J2: "journal_at (image c2) ?js ?ds (?jh + 8) ?u"
    unfolding c2(3) by (rule journal_at_entered [OF J room])
  have J3: "journal_at (image c3) ?js ?ds (?jh + 8) ?u"
    unfolding c3(3) by (rule journal_at_retired [OF J2 js])
  have fr2: "image c2 x = ?m x" and fr3: "image c3 x = ?m x" if "x < ?js \<or> ?ds \<le> x" for x
    using that js room c2(3) c3(3) by (auto simp: put_def)
  have D2: "data_at (image c2) pg ?ds (logEnd l) (dataEnd l)"
    and D3: "data_at (image c3) pg ?ds (logEnd l) (dataEnd l)"
    using I'(6) fr2 fr3 I'(4) by (auto simp: data_at_def)
  have L2: "log_image fe pg (startAddress l) ?ds (logEnd l) (image c2) (?jh + 8) (dataEnd l) hs he"
    using fr2 cap by (intro log_image_frame [OF I _ J2 _ _ D2]) simp_all
  have L3: "log_image fe pg (startAddress l) ?ds (logEnd l) (image c3) (?jh + 8) (dataEnd l) hs he"
    using fr3 cap by (intro log_image_frame [OF I _ J3 _ _ D3]) simp_all
  have H3: "held_below c3 ?ds (dataEnd l)"
    using H c1(4) c2(4) c3(4) room by (fastforce simp: held_below_def blocks_def)
  have "write_journal E l = l\<lparr>cache := c3, journalHead := ?jh + 8\<rparr>"
    using c1(1) c2(1) c3(1) eq by (simp add: write_journal_def)
  then show ?thesis
    using c1 c2(1,2) c3(2) H3 L2 L3 fr2 fr3 eq(1)
    by (intro exI [of _ c1] exI [of _ c2] exI [of _ c3]) simp
qed

lemma crossed_iff: "block_crossed l l' \<longleftrightarrow> dataEnd l' div 256 \<noteq> dataEnd l div 256"
  by (simp add: block_crossed_def CONFIG_MICROBIT_LOG_CACHE_BLOCK_SIZE_def)

theorem append_string_spec:
  assumes l: "ready l hs he" and s: "255 \<notin> set s" and room: "dataEnd l + length s \<le> logEnd l"
  shows "\<exists>c jh. append_string E l s = (mirror l (cleaned s False))\<lparr>cache := c,
        dataEnd := dataEnd l + length s, journalHead := jh\<rparr> \<and>
      ready (append_string E l s) hs he \<and>
      log_data img (append_string E l s) = log_data img l @ cleaned s False \<and>
      (\<forall>x < journalStart l. image c x = image (cache l) x)"
proof -
  note R = readyD [OF l]
  let ?data = "cleaned s False" and ?de = "dataEnd l + length s"
  let ?l1 = "mirror l ?data"
  obtain c where c: "append_loop E ?l1 ?data = ?l1\<lparr>cache := c, dataEnd := ?de\<rparr>" "cache_ok c"
      "held_below c (dataStart l) ?de"
      "log_image fe pg (startAddress l) (dataStart l) (logEnd l) (image c) (journalHead l) ?de hs he"
      "\<forall>x < dataEnd l. image c x = image (cache l) x" "rdm (image c) (dataEnd l) (length s) = ?data"
    using append_string_loop [OF l s room] by blast
  let ?l2 = "?l1\<lparr>cache := c, dataEnd := ?de\<rparr>"
  have ds: "dataStart l \<le> dataEnd l" "journalStart l \<le> dataStart l"
    using R(3,4) by (auto simp: log_image_def data_at_def)
  have dat: "rdm (image c) (dataStart l) (?de - dataStart l) = log_data img l @ ?data"
  proof -
    have "rdm (image c) (dataStart l) (?de - dataStart l)
        = rdm (image c) (dataStart l) (dataEnd l - dataStart l) @ rdm (image c) (dataEnd l) (length s)"
      using rdm_add [of "image c" "dataStart l" "dataEnd l - dataStart l" "length s"] ds(1) by simp
    also have "rdm (image c) (dataStart l) (dataEnd l - dataStart l) = log_data img l"
      unfolding log_data_def using c(5) by (intro rdm_cong) simp
    finally show ?thesis using c(6) by simp
  qed
  obtain c3 jh where l3: "append_string E l s = ?l2\<lparr>cache := c3, journalHead := jh\<rparr>" "cache_ok c3"
      "held_below c3 (dataStart l) ?de"
      "log_image fe pg (startAddress l) (dataStart l) (logEnd l) (image c3) jh ?de hs he"
      "\<forall>x. x < startAddress l + pg \<or> dataStart l \<le> x \<longrightarrow> image c3 x = image c x"
  proof (cases "?de div 256 = dataEnd l div 256")
    case True
    then have "append_string E l s = ?l2\<lparr>cache := c, journalHead := journalHead l\<rparr>"
      using c(1) by (simp add: append_string_def crossed_iff)
    then show ?thesis using that [of "journalHead l" c] c by simp
  next
    case False
    note room' = journal_room [OF R(4) _ room False]
    have "append_string E l s = write_journal E ?l2"
      using c(1) False by (simp add: append_string_def crossed_iff)
    moreover obtain c3 where "write_journal E ?l2 = ?l2\<lparr>cache := c3, journalHead := journalHead ?l2 + 8\<rparr>"
      "cache_ok c3" "held_below c3 (dataStart ?l2) (dataEnd ?l2)"
      "log_image fe pg (startAddress ?l2) (dataStart ?l2) (logEnd ?l2) (image c3) (journalHead ?l2 + 8)
        (dataEnd ?l2) hs he"
      "\<forall>x. x < startAddress ?l2 + pg \<or> dataStart ?l2 \<le> x \<longrightarrow> image c3 x = image (cache ?l2) x"
      using journal_steps [of ?l2 hs he] c room' by auto
    ultimately show ?thesis using that [of "journalHead l + 8" c3] by simp
  qed
  have "ready (append_string E l s) hs he"
    using l3 R(2,3) by (intro readyI) simp_all
  moreover have "rdm (image c3) (dataStart l) (?de - dataStart l) = rdm (image c) (dataStart l) (?de - dataStart l)"
    using l3(5) by (intro rdm_cong) simp
  then have "log_data img (append_string E l s) = log_data img l @ ?data"
    using dat l3(1) by (simp add: log_data_def)
  moreover have "\<forall>x < journalStart l. image c3 x = image (cache l) x"
    using l3(5) c(5) ds R(3) by auto
  moreover have "append_string E l s = ?l1\<lparr>cache := c3, dataEnd := ?de, journalHead := jh\<rparr>"
    using l3(1) by simp
  ultimately show ?thesis by blast
qed

text \<open>A full log keeps what it has.\<close>

theorem report_full_spec:
  assumes l: "ready l hs he"
  shows "\<exists>c st. report_full E l = l\<lparr>cache := c, status := st, full_events := full_events l + 1\<rparr> \<and>
      has st LOG_FULL \<and> cache_ok c \<and>
      log_image fe pg (startAddress l) (dataStart l) (logEnd l) (image c) (journalHead l) (dataEnd l) hs he \<and>
      (\<forall>x \<le> logEnd l. image c x = image (cache l) x)"
proof -
  note R = readyD [OF l]
  have I: "dataEnd l \<le> logEnd l" "logEnd l + 4 < fe" "startAddress l + 2 * pg \<le> dataStart l"
    "dataStart l < logEnd l"
    using R(4) by (auto simp: log_image_def data_at_def)
  obtain c where c: "cache_write E l (logEnd l + 1) (bytes ''FUL'') = l\<lparr>cache := c\<rparr>" "cache_ok c"
    "image c = put (image (cache l)) (logEnd l + 1) (bytes ''FUL'') \<or> image c = image (cache l)"
    using cache_write_any [OF R(1), of "logEnd l + 1" "bytes ''FUL''"] I(2) by (auto simp: bytes_def)
  have same: "\<forall>x \<le> logEnd l. image c x = image (cache l) x"
    using c(3) by (auto simp: put_def)
  obtain used where J: "used \<le> dataEnd l - dataStart l"
      "journal_at (image (cache l)) (startAddress l + pg) (dataStart l) (journalHead l) used"
      "(journalHead l - (startAddress l + pg)) div 8 \<le> (dataEnd l - dataStart l) div 256"
      "data_at (image (cache l)) pg (dataStart l) (logEnd l) (dataEnd l)"
    using R(4) by (auto simp: log_image_def)
  have "rdm (image c) (journalHead l) 8 = rdm (image (cache l)) (journalHead l) 8"
    using same J(2) I by (intro rdm_cong) (auto simp: journal_at_def)
  then have "journal_at (image c) (startAddress l + pg) (dataStart l) (journalHead l) used"
    using J(2) same I by (auto simp: journal_at_def)
  moreover have "data_at (image c) pg (dataStart l) (logEnd l) (dataEnd l)"
    using J(4) same by (auto simp: data_at_def)
  ultimately have L: "log_image fe pg (startAddress l) (dataStart l) (logEnd l) (image c)
      (journalHead l) (dataEnd l) hs he"
    using J(1,3) same I by (intro log_image_frame [OF R(4)]) auto
  show ?thesis
  proof (cases "has (status l) LOG_FULL")
    case True
    then show ?thesis using R(1,4)
      by (intro exI [of _ "cache l"] exI [of _ "status l"]) (simp add: report_full_def)
  next
    case False
    then show ?thesis using c(1,2) L same
      by (intro exI [of _ c] exI [of _ "status l OR LOG_FULL"]) (simp add: report_full_def Let_def)
  qed
qed

text \<open>Every state on the way is a log that holds the old text and a prefix of the new one.\<close>

lemma append_cut_spec:
  assumes "append_cut E l bs l'" and "appendable l" "255 \<notin> set bs" "dataEnd l + length bs \<le> logEnd l"
  shows "\<exists>k \<le> length bs. good (fc_flash (cache l')) \<and>
      data_at (image (cache l')) pg (dataStart l) (logEnd l) (dataEnd l + k) \<and>
      (\<forall>x < dataEnd l. image (cache l') x = image (cache l) x) \<and>
      rdm (image (cache l')) (dataEnd l) k = take k bs"
  using assms
proof induction
  case (cut_here l bs)
  then show ?case by (intro exI [of _ 0]) (auto simp: appendable_def cache_ok_def)
next
  case (cut_erased bs l)
  obtain c where c: "append_erase E l (length bs) = l\<lparr>cache := c\<rparr>" "cache_ok c"
      "image c = image (cache l) \<or> image c = wipe (image (cache l)) (page_end pg (dataEnd l)) pg"
    using append_erase_spec [OF cut_erased(2), of "length bs"] by (auto split: if_splits)
  have D: "data_at (image (cache l)) pg (dataStart l) (logEnd l) (dataEnd l)" and pg: "0 < pg"
    using cut_erased(2) cache_ok_geometry by (auto simp: appendable_def)
  then have "data_at (image c) pg (dataStart l) (logEnd l) (dataEnd l)"
    using c(3) data_at_erased by auto
  moreover have "\<forall>x < dataEnd l. image c x = image (cache l) x"
    using c(3) page_end_props(2) [OF pg, of "dataEnd l"] by (auto simp: wipe_def)
  ultimately show ?case using c(1,2) by (intro exI [of _ 0]) (simp add: cache_ok_def)
next
  case (cut_block bs l k)
  let ?de = "dataEnd l" and ?le = "logEnd l" and ?m = "image (cache l)"
  let ?p = "page_end pg ?de" and ?piece = "take (min (length bs) (space_on_page E l)) bs"
  have ok: "cache_ok (cache l)" and le: "?le < fe" and D: "data_at ?m pg (dataStart l) ?le ?de"
    using cut_block(2) by (auto simp: appendable_def)
  note pg = cache_ok_geometry(1) [OF ok]
  note p = page_end_props [OF pg, of ?de]
  have space: "?de + space_on_page E l = ?p" using p(1) cache_okD(4) [OF ok] by (simp add: space_on_page_def)
  obtain c1 where c1: "append_erase E l (length bs) = l\<lparr>cache := c1\<rparr>" "cache_ok c1"
    and im1: "image c1 = (if ?p \<le> ?de + length bs \<and> ?p < ?le then wipe ?m ?p pg else ?m)"
    using append_erase_spec [OF cut_block(2)] by blast
  have fit: "\<forall>i < length ?piece. fits (image c1 (?de + i)) (?piece ! i)"
    using D im1 space cut_block(4) by (auto simp: data_at_def wipe_def)
  have range: "?de + length ?piece < fe" using cut_block(4) le by simp
  note C1 = cache_okD(1,2) [OF c1(2)]
  obtain j where j: "j \<le> length ?piece" "image (write_cut N c1 ?de ?piece k) = put (image c1) ?de (take j ?piece)"
    "good (fc_flash (write_cut N c1 ?de ?piece k))"
    using write_cut_spec [OF C1(2,1) le0 range fit, of k] by blast
  let ?bs = "take j ?piece"
  have b: "length ?bs = j" "?bs = take j bs" "255 \<notin> set ?bs" "j \<le> length bs"
    using j(1) cut_block(3) by (auto dest: in_set_takeD)
  have l': "cache (append_partial E l bs k) = write_cut N c1 ?de ?piece k"
    using c1(1) by (simp add: append_partial_def)
  have im2: "image (cache (append_partial E l bs k)) = put (image c1) ?de (take j bs)" using j(2) b(2) l' by simp
  have "data_at (put (image c1) ?de ?bs) pg (dataStart l) ?le (?de + length ?bs)"
    by (rule data_at_written [OF D pg b(3) im1]) (use b j(1) space cut_block(4) in auto)
  then have D2: "data_at (put (image c1) ?de (take j bs)) pg (dataStart l) ?le (?de + j)" using b(1) by (simp only: b(2))
  have low: "\<forall>x < ?de. put (image c1) ?de (take j bs) x = ?m x" using im1 p(2) by (auto simp: put_def wipe_def)
  have mid: "rdm (put (image c1) ?de (take j bs)) ?de j = take j bs"
    using rdm_put_same [of "image c1" ?de "take j bs"] b(4) by (simp add: min_absorb2)
  show ?case
    unfolding im2 by (intro exI [of _ j] conjI b(4) D2 low mid) (simp only: l' j(3))
next
  case (cut_later bs l l')
  let ?n = "min (length bs) (space_on_page E l)"
  obtain c where c: "append_pass E l bs = l\<lparr>cache := c, dataEnd := dataEnd l + ?n\<rparr>"
    and A: "appendable (l\<lparr>cache := c, dataEnd := dataEnd l + ?n\<rparr>)" and n: "?n \<le> length bs"
    and low: "\<forall>x < dataEnd l. image c x = image (cache l) x"
    and mid: "rdm (image c) (dataEnd l) ?n = take ?n bs"
    using append_pass_spec [OF cut_later(4,1,5,6)] by blast
  have "255 \<notin> set (drop ?n bs)" using cut_later(5) by (meson in_set_dropD)
  with cut_later(3) A c cut_later(6) n obtain k where k: "k \<le> length bs - ?n" "good (fc_flash (cache l'))"
    "data_at (image (cache l')) pg (dataStart l) (logEnd l) (dataEnd l + ?n + k)"
    "\<forall>x < dataEnd l + ?n. image (cache l') x = image c x"
    "rdm (image (cache l')) (dataEnd l + ?n) k = take k (drop ?n bs)"
    by auto
  have "rdm (image (cache l')) (dataEnd l) ?n = take ?n bs"
    using k(4) mid rdm_cong [of "dataEnd l" ?n "image (cache l')" "image c"] by simp
  then have "rdm (image (cache l')) (dataEnd l) (?n + k) = take (?n + k) bs"
    using k(5) by (simp only: rdm_add take_add)
  then show ?case using k n low by (intro exI [of _ "?n + k"]) (auto simp: add.assoc)
qed

theorem string_cut_spec:
  assumes cut: "string_cut E l s l'" and l: "ready l hs he" and s: "255 \<notin> set s"
    and room: "dataEnd l + length s \<le> logEnd l"
  shows "\<exists>k \<le> length s. \<exists>jh. good (fc_flash (cache l')) \<and>
      log_image fe pg (startAddress l) (dataStart l) (logEnd l) (image (cache l')) jh (dataEnd l + k) hs he \<and>
      rdm (image (cache l')) (dataStart l) (dataEnd l + k - dataStart l)
        = log_data img l @ take k (cleaned s False)"
proof -
  note R = readyD [OF l]
  let ?data = "cleaned s False" and ?de = "dataEnd l + length s"
  let ?l1 = "mirror l ?data"
  have ds: "dataStart l \<le> dataEnd l" using R(4) by (auto simp: log_image_def data_at_def)
  have text_at: "rdm m (dataStart l) (dataEnd l + k - dataStart l) = log_data img l @ take k ?data"
    if "\<forall>x < dataEnd l. m x = image (cache l) x" "rdm m (dataEnd l) k = take k ?data" for m k
  proof -
    have "rdm m (dataStart l) (dataEnd l - dataStart l) = log_data img l"
      unfolding log_data_def using that(1) by (intro rdm_cong) simp
    then show ?thesis
      using that(2) ds rdm_add [of m "dataStart l" "dataEnd l - dataStart l" k] by simp
  qed
  obtain c where c: "append_loop E ?l1 ?data = ?l1\<lparr>cache := c, dataEnd := ?de\<rparr>" "cache_ok c"
      "held_below c (dataStart l) ?de"
      "log_image fe pg (startAddress l) (dataStart l) (logEnd l) (image c) (journalHead l) ?de hs he"
      "\<forall>x < dataEnd l. image c x = image (cache l) x" "rdm (image c) (dataEnd l) (length s) = ?data"
    using append_string_loop [OF l s room] by blast
  let ?l2 = "?l1\<lparr>cache := c, dataEnd := ?de\<rparr>"
  have steps: "\<exists>c1 c2.
      journal_advance E ?l2 = ?l2\<lparr>cache := c1, journalHead := journalHead l + 8\<rparr> \<and>
      journal_enter E (journal_advance E ?l2) = ?l2\<lparr>cache := c2, journalHead := journalHead l + 8\<rparr> \<and>
      cache_ok c1 \<and> cache_ok c2 \<and> image c1 = image c \<and>
      log_image fe pg (startAddress l) (dataStart l) (logEnd l) (image c2) (journalHead l + 8) ?de hs he \<and>
      (\<forall>x. dataStart l \<le> x \<longrightarrow> image c2 x = image c x)"
    if "block_crossed l ?l2"
  proof -
    have "?de div 256 \<noteq> dataEnd l div 256" using that by (simp add: crossed_iff)
    note room' = journal_room [OF R(4) _ room this]
    show ?thesis using journal_steps [of ?l2 hs he] c room' by auto
  qed
  show ?thesis
    using cut
  proof cases
    case (cut_append data)
    then obtain k where k: "k \<le> length s" "good (fc_flash (cache l'))"
      "data_at (image (cache l')) pg (dataStart l) (logEnd l) (dataEnd l + k)"
      "\<forall>x < dataEnd l. image (cache l') x = image (cache l) x"
      "rdm (image (cache l')) (dataEnd l) k = take k ?data"
      using append_cut_spec [of ?l1 ?data l'] R(6) cleaned_FF [OF s] room by auto
    then show ?thesis
      using log_image_appended [OF R(4) k(4) _ k(3)] text_at [OF k(4,5)]
      by (intro exI [of _ k]) auto
  next
    case (cut_advance data l2)
    then have l2: "l2 = ?l2" using c(1) by simp
    then have "block_crossed l ?l2" using cut_advance(4) by simp
    from steps [OF this] obtain c1 where
      c1: "journal_advance E ?l2 = ?l2\<lparr>cache := c1, journalHead := journalHead l + 8\<rparr>"
        "cache_ok c1" "image c1 = image c" by blast
    then have "cache l' = c1" using cut_advance(1) l2 by simp
    then show ?thesis using c c1(2,3) text_at [of "image c" "length s"]
      by (intro exI [of _ "length s"]) (auto simp: cache_ok_def)
  next
    case (cut_enter data l2)
    then have l2: "l2 = ?l2" using c(1) by simp
    then have "block_crossed l ?l2" using cut_enter(4) by simp
    from steps [OF this] obtain c2 where
      c2: "journal_enter E (journal_advance E ?l2) = ?l2\<lparr>cache := c2, journalHead := journalHead l + 8\<rparr>"
        "cache_ok c2"
        "log_image fe pg (startAddress l) (dataStart l) (logEnd l) (image c2) (journalHead l + 8) ?de hs he"
        "\<forall>x. dataStart l \<le> x \<longrightarrow> image c2 x = image c x" by blast
    then have l': "cache l' = c2" using cut_enter(1) l2 by simp
    have "rdm (image c2) (dataStart l) (?de - dataStart l) = rdm (image c) (dataStart l) (?de - dataStart l)"
      using c2(4) by (intro rdm_cong) simp
    then show ?thesis using l' c2 c text_at [of "image c" "length s"]
      by (intro exI [of _ "length s"]) (auto simp: cache_ok_def)
  next
    case cut_done
    obtain c3 jh where "append_string E l s = ?l1\<lparr>cache := c3, dataEnd := ?de, journalHead := jh\<rparr>"
      and A: "ready (append_string E l s) hs he"
      "log_data img (append_string E l s) = log_data img l @ ?data"
      using append_string_spec [OF l s room] by blast
    then show ?thesis using cut_done readyD(4) [OF A(1)] readyD(1) [OF A(1)]
      by (intro exI [of _ "length s"]) (auto simp: log_data_def cache_ok_def)
  qed
qed

end

subsection \<open>Finding the log again\<close>

lemma length_meta_bytes [simp]: "length (meta_bytes ds le) = 40"
  by (simp add: meta_bytes_def MICROBIT_LOG_VERSION_def bytes_def)

lemma writeNum_end: "(writeNum n)[8 := 0] = writeNum n"
  by (simp add: writeNum_def list_update_append)

lemma meta_fields:
  fixes ds le defines "m \<equiv> (meta_bytes ds le)[39 := 0, 28 := 0, 17 := 0]"
  shows "take 17 m = take 17 MICROBIT_LOG_VERSION"
    "take 11 (drop 29 m) = bytes ''0x'' @ writeNum ds"
    "take 11 (drop 18 m) = bytes ''0x'' @ writeNum le"
proof -
  have v: "length MICROBIT_LOG_VERSION = 18" "length (bytes ''0x'') = 2"
    by (simp_all add: MICROBIT_LOG_VERSION_def bytes_def)
  show "take 17 m = take 17 MICROBIT_LOG_VERSION"
    using v by (simp add: m_def meta_bytes_def)
  show "take 11 (drop 29 m) = bytes ''0x'' @ writeNum ds"
    using v by (simp add: m_def meta_bytes_def drop_update_swap list_update_append writeNum_end)
  show "take 11 (drop 18 m) = bytes ''0x'' @ writeNum le"
    using v by (simp add: m_def meta_bytes_def drop_update_swap list_update_append writeNum_end)
qed

lemma rdm_1 [simp]: "rdm m a 1 = [m a]" "rdm m a (Suc 0) = [m a]"
  by (simp_all add: rdm_def)

lemma containsOnly_rdm: "containsOnly (rdm m a n) v \<longleftrightarrow> (\<forall>x. a \<le> x \<and> x < a + n \<longrightarrow> m x = v)"
  by (auto simp: containsOnly_def list_all_iff set_rdm)

lemma digits_not_only: "\<not> containsOnly (write_digits n 8) 0" "\<not> containsOnly (write_digits n 8) 255"
  using hex_digit_plain [of "n div 16 ^ 7 mod 16"] by (simp_all add: write_digits_8 containsOnly_def)

context log_device
begin

lemma blocks_below: "256 dvd ds \<Longrightarrow> a + n \<le> ds \<Longrightarrow> b \<in> blocks 256 a n \<Longrightarrow> b < (ds :: nat)"
  by (auto simp: blocks_def)

text \<open>The scan passes the old entries, takes the head and stops after it.\<close>

lemma scan_journal_spec:
  assumes "cache_ok (cache l)" and "journal_at (image (cache l)) js (dataStart l) jh used"
    and "js \<le> addr" and "jh = addr + 8 * n" and "length j = 8"
    and "dataStart l + used < 2 ^ 32" and "dataStart l < fe" and "256 dvd dataStart l" and "8 dvd js"
  shows "\<exists>c'. scan_journal E l addr j valid
      = l\<lparr>cache := c', journalHead := jh, dataEnd := dataStart l + used\<rparr> \<and>
    cache_ok c' \<and> image c' = image (cache l) \<and>
    (\<forall>b \<in> held c'. b \<in> held (cache l) \<or> b < dataStart l)"
  using assms
proof (induction n arbitrary: l addr j valid)
  case 0
  note J = 0(2) [unfolded journal_at_def] and ds = 0(7,8)
  have jh: "addr = jh" "jh + 8 \<le> dataStart l" using 0 J by simp_all
  obtain c1 where r1: "cache_read E l jh j = (rdm (image (cache l)) jh 8, l\<lparr>cache := c1\<rparr>)"
      "cache_ok c1" "image c1 = image (cache l)" "held c1 \<subseteq> held (cache l) \<union> blocks 256 jh 8"
    using cache_read_spec [OF 0(1), of jh j] jh ds 0(5) by auto
  let ?l1 = "l\<lparr>cache := c1, journalHead := jh, dataEnd := dataStart l + used\<rparr>"
  have digits: "rdm (image (cache l)) jh 8 = write_digits used 8" using J by simp
  have "strtoul16 (write_digits used 8) = used" using strtoul16_digits [of used "[]"] 0(6) by simp
  then have one: "scan_journal E l addr j valid = scan_journal E ?l1 (jh + 8) (write_digits used 8) True"
    using r1(1) jh digits digits_not_only 0(6)
    by (subst scan_journal.simps) (simp add: MICROBIT_LOG_JOURNAL_ENTRY_SIZE_def)
  have low: "b \<in> held (cache l) \<or> b < dataStart l" if "b \<in> held c1" for b
    using that r1(4) jh(2) by (auto simp: blocks_def)
  show ?case
  proof (cases "jh + 8 < dataStart l")
    case False
    then have "scan_journal E l addr j valid = ?l1" by (subst one, subst scan_journal.simps) simp
    then show ?thesis using r1 low by blast
  next
    case True
    have "8 dvd jh - js" "js \<le> jh" using J by simp_all
    then have "8 dvd jh + 8" using dvd_add [of 8 "jh - js" js] 0(9) by simp
    moreover have "8 dvd dataStart l" using ds(2) by (rule dvd_trans [rotated]) simp
    ultimately have "jh + 16 \<le> dataStart l"
      using multiples_apart [of 8 "jh + 8" "dataStart l"] True by auto
    then obtain c2 where r2: "cache_read E ?l1 (jh + 8) (write_digits used 8)
          = (rdm (image c1) (jh + 8) 8, ?l1\<lparr>cache := c2\<rparr>)"
        "cache_ok c2" "image c2 = image c1" "held c2 \<subseteq> held c1 \<union> blocks 256 (jh + 8) 8"
      using cache_read_spec [of ?l1 "jh + 8" "write_digits used 8"] r1(2) ds(1) by auto
    have "containsOnly (rdm (image c1) (jh + 8) 8) 255"
      using J r1(3) \<open>jh + 16 \<le> dataStart l\<close> by (simp add: containsOnly_rdm)
    then have "scan_journal E ?l1 (jh + 8) (write_digits used 8) True = ?l1\<lparr>cache := c2\<rparr>"
      using True r2(1) by (subst scan_journal.simps) simp
    moreover have "b \<in> held (cache l) \<or> b < dataStart l" if "b \<in> held c2" for b
      using that r2(4) low \<open>jh + 16 \<le> dataStart l\<close> by (fastforce simp: blocks_def)
    ultimately show ?thesis using one r1(3) r2(2,3) by (intro exI [of _ c2]) auto
  qed
next
  case (Suc n)
  note J = Suc(3) [unfolded journal_at_def] and ds = Suc(8,9)
  have addr: "addr + 8 \<le> jh" "addr < dataStart l" "addr + 8 < dataStart l" using Suc(5) J by simp_all
  obtain c1 where r1: "cache_read E l addr j = (rdm (image (cache l)) addr 8, l\<lparr>cache := c1\<rparr>)"
      "cache_ok c1" "image c1 = image (cache l)" "held c1 \<subseteq> held (cache l) \<union> blocks 256 addr 8"
    using cache_read_spec [OF Suc(2), of addr j] addr ds Suc(6) by auto
  let ?j = "rdm (image (cache l)) addr 8"
  have used: "\<not> containsOnly ?j 255" using J addr Suc(4) by (auto simp: containsOnly_rdm)
  define l2 where "l2 = (if \<not> containsOnly ?j 0
      then l\<lparr>cache := c1, journalHead := addr, dataEnd := (dataStart l + strtoul16 ?j) mod 2 ^ 32\<rparr>
      else l\<lparr>cache := c1\<rparr>)"
  have l2: "cache l2 = c1" "dataStart l2 = dataStart l"
    "\<And>c' h d. l2\<lparr>cache := c', journalHead := h, dataEnd := d\<rparr> = l\<lparr>cache := c', journalHead := h, dataEnd := d\<rparr>"
    by (simp_all add: l2_def)
  have one: "scan_journal E l addr j valid
      = scan_journal E l2 (addr + 8) ?j (valid \<or> \<not> containsOnly ?j 0)"
    using r1(1) addr used by (subst scan_journal.simps) (simp add: l2_def MICROBIT_LOG_JOURNAL_ENTRY_SIZE_def)
  have low: "b \<in> held (cache l) \<or> b < dataStart l" if "b \<in> held c1" for b
    using that r1(4) addr(3) by (auto simp: blocks_def)
  obtain c' where "scan_journal E l2 (addr + 8) ?j (valid \<or> \<not> containsOnly ?j 0)
      = l2\<lparr>cache := c', journalHead := jh, dataEnd := dataStart l2 + used\<rparr>"
    "cache_ok c'" "image c' = image c1" "\<forall>b \<in> held c'. b \<in> held c1 \<or> b < dataStart l"
    using Suc(1) [of l2 "addr + 8" ?j "valid \<or> \<not> containsOnly ?j 0"] Suc(3-10) r1(2,3)
    by (auto simp: l2(1,2))
  then show ?case using one r1(3) low by (intro exI [of _ c']) (auto simp: l2(2,3))
qed

text \<open>The walk over the data after the last recorded block.\<close>

lemma walk_data_spec:
  assumes "cache_ok (cache l)" and "logEnd l < fe"
    and "\<forall>x. dataEnd l \<le> x \<and> x < de \<longrightarrow> image (cache l) x \<noteq> 255"
    and "de < logEnd l \<longrightarrow> image (cache l) de = 255" and "de = dataEnd l + n" and "de \<le> logEnd l"
  shows "\<exists>c'. walk_data E l d = l\<lparr>cache := c', dataEnd := de\<rparr> \<and> cache_ok c' \<and>
    image c' = image (cache l) \<and> (\<forall>b \<in> held c'. b \<in> held (cache l) \<or> b \<le> de)"
  using assms
proof (induction n arbitrary: l d)
  case 0
  show ?case
  proof (cases "de < logEnd l")
    case False
    then show ?thesis using 0 by (intro exI [of _ "cache l"]) (simp add: walk_data.simps)
  next
    case True
    obtain c1 where "cache_read E l de [d] = (rdm (image (cache l)) de 1, l\<lparr>cache := c1\<rparr>)"
      "cache_ok c1" "image c1 = image (cache l)" "held c1 \<subseteq> held (cache l) \<union> blocks 256 de 1"
      using cache_read_spec [OF 0(1), of de "[d]"] True 0(2) by auto
    then show ?thesis
      using 0 True by (intro exI [of _ c1]) (auto simp: walk_data.simps blocks_def)
  qed
next
  case (Suc n)
  then have lt: "dataEnd l < de" "dataEnd l < logEnd l" by simp_all
  obtain c1 where r1: "cache_read E l (dataEnd l) [d] = (rdm (image (cache l)) (dataEnd l) 1, l\<lparr>cache := c1\<rparr>)"
    "cache_ok c1" "image c1 = image (cache l)" "held c1 \<subseteq> held (cache l) \<union> blocks 256 (dataEnd l) 1"
    using cache_read_spec [OF Suc(2), of "dataEnd l" "[d]"] lt Suc(3) by auto
  let ?l1 = "l\<lparr>cache := c1, dataEnd := dataEnd l + 1\<rparr>"
  have step: "walk_data E l d = walk_data E ?l1 (image (cache l) (dataEnd l))"
    using lt r1(1) Suc(4) by (subst walk_data.simps) simp
  obtain c' where "walk_data E ?l1 (image (cache l) (dataEnd l)) = ?l1\<lparr>cache := c', dataEnd := de\<rparr>"
    "cache_ok c'" "image c' = image c1" "\<forall>b \<in> held c'. b \<in> held c1 \<or> b \<le> de"
    using Suc(1) [of ?l1 "image (cache l) (dataEnd l)"] Suc(3-) r1(2,3) by auto
  moreover from this(4) r1(4) lt(1) have "\<forall>b \<in> held c'. b \<in> held (cache l) \<or> b \<le> de"
    by (fastforce simp: blocks_def)
  ultimately show ?case using step r1(3) by (intro exI [of _ c']) simp
qed

text \<open>The two loops over the heading area.\<close>

lemma skip_zeros_spec:
  assumes "cache_ok (cache l)" and "\<forall>x. start \<le> x \<and> x < hs \<longrightarrow> image (cache l) x = 0"
    and "image (cache l) hs \<noteq> 0" and "hs = start + n" and "c = image (cache l) start"
    and "hs < ds" and "ds < fe"
  shows "\<exists>c'. skip_zeros E l start c = Some (hs, image (cache l) hs, l\<lparr>cache := c'\<rparr>) \<and> cache_ok c' \<and>
    image c' = image (cache l) \<and> (\<forall>b \<in> held c'. b \<in> held (cache l) \<or> b < ds)"
  using assms
proof (induction n arbitrary: l start c)
  case 0
  then show ?case by (intro exI [of _ "cache l"]) (simp add: skip_zeros.simps)
next
  case (Suc n)
  obtain c1 where r1: "cache_read E l (start + 1) [c]
      = (rdm (image (cache l)) (start + 1) 1, l\<lparr>cache := c1\<rparr>)"
    "cache_ok c1" "image c1 = image (cache l)" "held c1 \<subseteq> held (cache l) \<union> blocks 256 (start + 1) 1"
    using cache_read_spec [OF Suc(2), of "start + 1" "[c]"] Suc(5,7,8) by auto
  have "c = 0" using Suc(3,5,6) by simp
  then have step: "skip_zeros E l start c = skip_zeros E (l\<lparr>cache := c1\<rparr>) (start + 1) (image c1 (start + 1))"
    using r1(1,3) by (subst skip_zeros.simps) simp
  have "b \<in> held (cache l) \<or> b < ds" if "b \<in> held c1" for b
    using that r1(4) Suc(5,7) by (fastforce simp: blocks_def)
  moreover obtain c' where "skip_zeros E (l\<lparr>cache := c1\<rparr>) (start + 1) (image c1 (start + 1))
        = Some (hs, image c1 hs, l\<lparr>cache := c1\<rparr>\<lparr>cache := c'\<rparr>)"
    "cache_ok c'" "image c' = image c1" "\<forall>b \<in> held c'. b \<in> held c1 \<or> b < ds"
    using Suc(1) [of "l\<lparr>cache := c1\<rparr>" "start + 1" "image c1 (start + 1)"] Suc(3-) r1(2,3) by auto
  ultimately show ?case using step r1(3) by (intro exI [of _ c']) auto
qed

lemma find_unused_spec:
  assumes "cache_ok (cache l)" and "\<forall>x. a \<le> x \<and> x < he \<longrightarrow> image (cache l) x \<noteq> 255"
    and "image (cache l) he = 255" and "he = a + n" and "c = image (cache l) a"
    and "he < ds" and "ds < fe"
  shows "\<exists>c'. find_unused E l a c = Some (he, l\<lparr>cache := c'\<rparr>) \<and> cache_ok c' \<and>
    image c' = image (cache l) \<and> (\<forall>b \<in> held c'. b \<in> held (cache l) \<or> b < ds)"
  using assms
proof (induction n arbitrary: l a c)
  case 0
  then show ?case by (intro exI [of _ "cache l"]) (simp add: find_unused.simps)
next
  case (Suc n)
  obtain c1 where r1: "cache_read E l (a + 1) [c]
      = (rdm (image (cache l)) (a + 1) 1, l\<lparr>cache := c1\<rparr>)"
    "cache_ok c1" "image c1 = image (cache l)" "held c1 \<subseteq> held (cache l) \<union> blocks 256 (a + 1) 1"
    using cache_read_spec [OF Suc(2), of "a + 1" "[c]"] Suc(5,7,8) by auto
  have "c \<noteq> 255" using Suc(3,5,6) by simp
  then have step: "find_unused E l a c = find_unused E (l\<lparr>cache := c1\<rparr>) (a + 1) (image c1 (a + 1))"
    using r1(1,3) by (subst find_unused.simps) simp
  have "b \<in> held (cache l) \<or> b < ds" if "b \<in> held c1" for b
    using that r1(4) Suc(5,7) by (fastforce simp: blocks_def)
  moreover obtain c' where "find_unused E (l\<lparr>cache := c1\<rparr>) (a + 1) (image c1 (a + 1))
        = Some (he, l\<lparr>cache := c1\<rparr>\<lparr>cache := c'\<rparr>)"
    "cache_ok c'" "image c' = image c1" "\<forall>b \<in> held c'. b \<in> held c1 \<or> b < ds"
    using Suc(1) [of "l\<lparr>cache := c1\<rparr>" "a + 1" "image c1 (a + 1)"] Suc(3-) r1(2,3) by auto
  ultimately show ?case using step r1(3) by (intro exI [of _ c']) auto
qed

lemma load_headings_spec:
  assumes ok: "cache_ok (cache l)" and H: "headings_at (image (cache l)) (startAddress l) js hs he"
    and js: "js \<le> ds" "ds < fe"
  shows "\<exists>c'. load_headings E l = Some (if hs < he
      then l\<lparr>cache := c', headingLength := he - hs, headingStart := hs,
             rowData := parse_headings (rdm (image (cache l)) hs (he - hs))\<rparr>
      else l\<lparr>cache := c', headingLength := 0\<rparr>) \<and> cache_ok c' \<and>
    image c' = image (cache l) \<and> (\<forall>b \<in> held c'. b \<in> held (cache l) \<or> b < ds)"
proof -
  let ?m = "image (cache l)" and ?s = "startAddress l + 40"
  have h: "?s \<le> hs" "hs \<le> he" "he < js" "?m hs \<noteq> 0" "?m he = 255"
    "\<forall>x. ?s \<le> x \<and> x < hs \<longrightarrow> ?m x = 0" "\<forall>x. hs \<le> x \<and> x < he \<longrightarrow> ?m x \<noteq> 255"
    using H by (auto simp: headings_at_def)
  obtain c1 where r1: "cache_read E l ?s [junk E] = (rdm ?m ?s 1, l\<lparr>cache := c1\<rparr>)"
    "cache_ok c1" "image c1 = ?m" "held c1 \<subseteq> held (cache l) \<union> blocks 256 ?s 1"
    using cache_read_spec [OF ok, of ?s "[junk E]"] h js by auto
  obtain n where n: "hs = ?s + n" using h(1) le_Suc_ex by blast
  obtain c2 where r2: "skip_zeros E (l\<lparr>cache := c1\<rparr>) ?s (?m ?s) = Some (hs, ?m hs, l\<lparr>cache := c2\<rparr>)"
    "cache_ok c2" "image c2 = ?m" "\<forall>b \<in> held c2. b \<in> held c1 \<or> b < ds"
    using skip_zeros_spec [of "l\<lparr>cache := c1\<rparr>" ?s hs n "?m ?s" ds] h js r1(2,3) n by auto
  obtain k where k: "he = hs + k" using h(2) le_Suc_ex by blast
  obtain c3 where r3: "find_unused E (l\<lparr>cache := c2\<rparr>) hs (?m hs) = Some (he, l\<lparr>cache := c3\<rparr>)"
    "cache_ok c3" "image c3 = ?m" "\<forall>b \<in> held c3. b \<in> held c2 \<or> b < ds"
    using find_unused_spec [of "l\<lparr>cache := c2\<rparr>" hs he k "?m hs" ds] h js r2(2,3) k by auto
  let ?l4 = "l\<lparr>cache := c3, headingLength := he - hs\<rparr>"
  obtain c4 where r4: "cache_read E ?l4 hs (replicate (he - hs) (junk E))
      = (rdm ?m hs (he - hs), ?l4\<lparr>cache := c4\<rparr>)"
    "cache_ok c4" "image c4 = ?m" "held c4 \<subseteq> held c3 \<union> blocks 256 hs (he - hs)"
    using cache_read_spec [of ?l4 hs "replicate (he - hs) (junk E)"] h js r3(2,3) by auto
  have low1: "b \<in> held (cache l) \<or> b < ds" if "b \<in> held c1" for b
    using that r1(4) h js by (fastforce simp: blocks_def)
  have low3: "b \<in> held (cache l) \<or> b < ds" if "b \<in> held c3" for b
    using that r2(4) r3(4) low1 by blast
  have low4: "b \<in> held (cache l) \<or> b < ds" if "b \<in> held c4" for b
    using that r4(4) low3 h js by (fastforce simp: blocks_def)
  show ?thesis
  proof (cases "hs < he")
    case True
    then show ?thesis using r1(1) r2(1) r3(1) r4 low4
      by (intro exI [of _ c4]) (simp add: load_headings_def Let_def)
  next
    case False
    then have "he = hs" using h(2) by simp
    then show ?thesis using r1(1) r2(1) r3 low3
      by (intro exI [of _ c3]) (simp add: load_headings_def Let_def)
  qed
qed

lemma isPresent_spec:
  assumes ok: "cache_ok (cache l)" and off: "\<not> has (status l) LOG_INITIALIZED"
    and I: "log_image fe pg (meta_address E l) ds le (image (cache l)) jh de hs he"
  shows "\<exists>c' meta. isPresent E l = (True, l\<lparr>cache := c', metaData := meta,
        startAddress := meta_address E l, dataStart := ds, logEnd := le,
        journalStart := meta_address E l + pg\<rparr>) \<and>
      cache_ok c' \<and> image c' = image (cache l) \<and> held c' = held (cache l)"
proof -
  let ?sa = "meta_address E l" and ?d = "fc_flash (cache l)"
  let ?m = "(meta_bytes ds le)[39 := 0, 28 := 0, 17 := 0]"
  note C = cache_okD [OF ok] and G = cache_ok_geometry [OF ok]
  have I': "?sa + 2 * pg \<le> ds" "ds < le" "le < fe" "pg dvd ?sa" "rdm (image (cache l)) ?sa 40 = meta_bytes ds le"
    using I by (auto simp: log_image_def)
  have "4 dvd ?sa" using dvd_trans [OF G(2) I'(4)] .
  moreover have "?sa + 40 \<le> fe" using I'(1-3) G(5) by simp
  ultimately have R: "4 dvd ?sa" "?sa + 4 * 10 \<le> fe" by simp_all
  then have rd: "fst (nvm_read N ?d ?sa 10) = Some (meta_bytes ds le)"
    using read_value [OF C(1), of ?sa 10] I'(5) by simp
  obtain dev where dev: "nvm_read N ?d ?sa 10 = (Some (meta_bytes ds le), dev)"
    using rd by (cases "nvm_read N ?d ?sa 10") auto
  have after: "img dev = image (cache l)" "good dev"
    using read_img [OF C(1) _ R(2,1)] read_good [OF C(1) _ R(2,1)] dev by auto
  let ?c = "(cache l)\<lparr>fc_flash := dev\<rparr>"
  have held: "held ?c = held (cache l)" by (simp add: held_def)
  have okc: "cache_ok ?c"
    using C(2,3) after by (auto simp: cache_ok_def intro: coherent_image)
  have lim: "ds < 2 ^ 32" "le < 2 ^ 32" using I'(2,3) G(4) by simp_all
  have "strtoul16 (take 11 (drop 29 ?m)) = ds" "strtoul16 (take 11 (drop 18 ?m)) = le"
    unfolding meta_fields writeNum_def using strtoul16_0x [OF lim(1)] strtoul16_0x [OF lim(2)] by simp_all
  then show ?thesis
    using off dev C(4,6) I' okc held after meta_fields(1) [of ds le]
    by (intro exI [of _ ?c] exI [of _ ?m]) (simp add: isPresent_def Let_def)
qed

theorem init_recovers:
  assumes ok: "cache_ok (cache l)" and off: "\<not> has (status l) LOG_INITIALIZED"
    and empty: "held (cache l) = {}"
    and I: "log_image fe pg (meta_address E l) ds le (image (cache l)) jh de hs he"
  shows "\<exists>l'. init E l = Some l' \<and> ready l' hs he \<and> image (cache l') = image (cache l) \<and>
    startAddress l' = meta_address E l \<and> dataStart l' = ds \<and> logEnd l' = le \<and>
    dataEnd l' = de \<and> journalHead l' = jh \<and> status l' = status l OR LOG_INITIALIZED \<and>
    headingLength l' = he - hs \<and>
    (if hs < he then headingStart l' = hs \<and>
         rowData l' = parse_headings (rdm (image (cache l)) hs (he - hs))
     else headingStart l' = headingStart l \<and> rowData l' = rowData l)"
proof -
  let ?sa = "meta_address E l" and ?m = "image (cache l)"
  obtain used where used': "journal_at ?m (?sa + pg) ds jh used" "used \<le> de - ds"
    using I by (auto simp: log_image_def)
  note G = cache_ok_geometry [OF ok]
  have I': "pg dvd ?sa" "pg dvd ds" "ds < le" "le < fe" "journal_at ?m (?sa + pg) ds jh used"
    "data_at ?m pg ds le de" "headings_at ?m ?sa (?sa + pg) hs he" "?sa + 2 * pg \<le> ds"
    using I used'(1) by (auto simp: log_image_def)
  have de: "ds \<le> de" "de \<le> le" using I'(6) by (simp_all add: data_at_def)
  have used: "ds + used \<le> de" using de(1) used'(2) by simp
  obtain c1 meta where p: "isPresent E l = (True, l\<lparr>cache := c1, metaData := meta,
        startAddress := ?sa, dataStart := ds, logEnd := le, journalStart := ?sa + pg\<rparr>)"
      and c1: "cache_ok c1" "image c1 = ?m" "held c1 = {}"
    using isPresent_spec [OF ok off I] empty by auto
  let ?l1 = "l\<lparr>cache := c1, metaData := meta, startAddress := ?sa, dataStart := ds, logEnd := le,
      journalStart := ?sa + pg\<rparr>"
  let ?l2 = "?l1\<lparr>journalPages := (ds - ?sa) div pg - 1, journalHead := ?sa + pg, dataEnd := ds\<rparr>"
  have al: "256 dvd ds" "256 dvd ?sa + pg"
    using blocks_in_page I'(1,2) by (auto intro: dvd_trans)
  obtain n where n: "jh = ?sa + pg + 8 * n"
    using I'(5) by (auto simp: journal_at_def dvd_def) (metis le_add_diff_inverse)
  have "8 dvd ?sa + pg" using al(2) by (rule dvd_trans [rotated]) simp
  then obtain c2 where c2: "scan_journal E ?l2 (?sa + pg) (bytes ''00000000'') False
      = ?l2\<lparr>cache := c2, journalHead := jh, dataEnd := ds + used\<rparr>"
      "cache_ok c2" "image c2 = ?m" "\<forall>b \<in> held c2. b < ds"
    using scan_journal_spec [of ?l2 "?sa + pg" jh used "?sa + pg" n "bytes ''00000000''" False]
      c1 I' al n used de G(4) by (auto simp: bytes_def)
  let ?l3 = "?l2\<lparr>cache := c2, journalHead := jh, dataEnd := ds + used\<rparr>"
  obtain k where k: "de = ds + used + k" using used le_Suc_ex by blast
  have "\<exists>c'. walk_data E ?l3 0 = ?l3\<lparr>cache := c', dataEnd := de\<rparr> \<and> cache_ok c' \<and>
    image c' = image (cache ?l3) \<and> (\<forall>b \<in> held c'. b \<in> held (cache ?l3) \<or> b \<le> de)"
  proof (rule walk_data_spec [where n = k])
    show "\<forall>x. dataEnd ?l3 \<le> x \<and> x < de \<longrightarrow> image (cache ?l3) x \<noteq> 255"
      using I'(6) c2(3) by (auto simp: data_at_def)
    show "de < logEnd ?l3 \<longrightarrow> image (cache ?l3) de = 255"
      using I'(6) c2(3) page_end_props(2) [OF G(1), of de] by (auto simp: data_at_def)
  qed (use c2 I' de k in simp_all)
  then obtain c3 where c3: "walk_data E ?l3 0 = ?l3\<lparr>cache := c3, dataEnd := de\<rparr>"
      "cache_ok c3" "image c3 = ?m" "\<forall>b \<in> held c3. b < ds \<or> b \<le> de"
    using c2(3,4) by auto
  let ?l4 = "?l3\<lparr>cache := c3, dataEnd := de\<rparr>"
  have "cache_ok (cache ?l4)" "headings_at (image (cache ?l4)) (startAddress ?l4) (?sa + pg) hs he"
    "?sa + pg \<le> ds" "ds < fe"
    using c3(2,3) I' by simp_all
  note lh = load_headings_spec [OF this]
  have cs: "cache ?l4 = c3" by simp
  obtain c4 where c4: "load_headings E ?l4 = Some (if hs < he
      then ?l4\<lparr>cache := c4, headingLength := he - hs, headingStart := hs,
             rowData := parse_headings (rdm ?m hs (he - hs))\<rparr>
      else ?l4\<lparr>cache := c4, headingLength := 0\<rparr>)" "cache_ok c4" "image c4 = ?m"
      "\<forall>b \<in> held c4. b < ds \<or> b \<le> de"
    using lh [unfolded cs c3(3)] c3(4) by blast
  have he: "he - hs = 0" if "\<not> hs < he" using that by simp
  let ?l5 = "(if hs < he
      then ?l4\<lparr>cache := c4, headingLength := he - hs, headingStart := hs,
             rowData := parse_headings (rdm ?m hs (he - hs))\<rparr>
      else ?l4\<lparr>cache := c4, headingLength := 0\<rparr>)"
  have res: "init E l = Some (?l5\<lparr>status := status ?l5 OR LOG_INITIALIZED\<rparr>)"
    using off p c2(1) c3(1) c4(1) cache_okD(4) [OF c1(1)] by (simp add: init_def)
  show ?thesis
    unfolding res
    by (intro exI [of _ "?l5\<lparr>status := status ?l5 OR LOG_INITIALIZED\<rparr>"])
       (use I c4(2-4) he in \<open>auto simp: log_ready_def cache_ok_def held_below_def\<close>)
qed

lemma cache_ok_new:
  assumes "good dev"
  shows "cache_ok (cache (mlog_new dev heap meta))"
  using assms geometry_sane [OF assms] blocks_in_page
  by (auto simp: cache_ok_def mlog_new_def CONFIG_MICROBIT_LOG_CACHE_BLOCK_SIZE_def
      fscache_new_def intro!: coherent_new [unfolded fscache_new_def] intro: dvd_trans)

text \<open>\<open>clear\<close> makes an empty log, whatever the flash held.\<close>

lemma erase_pages_spec:
  assumes "good (fc_flash (cache l))" and "pg dvd p" and "lastp < fe"
  shows "\<exists>dev. erase_pages E l p lastp pg = l\<lparr>cache := (cache l)\<lparr>fc_flash := dev\<rparr>\<rparr> \<and> good dev \<and>
    (\<forall>x. img dev x = (if p \<le> x \<and> x < page_end pg lastp then 255 else image (cache l) x))"
  using assms
proof (induction "Suc lastp - p" arbitrary: l p rule: less_induct)
  case less
  have G: "0 < pg" "pg dvd fe" using geometry_sane [OF less(2)] by auto
  show ?case
  proof (cases "p \<le> lastp")
    case False
    have "page_end pg lastp \<le> p"
      using block_fits [OF less(3), of lastp] False by (simp add: page_end_def)
    then show ?thesis
      using False less(2) by (intro exI [of _ "fc_flash (cache l)"]) (auto simp: erase_pages.simps)
  next
    case True
    have fits: "p + pg \<le> fe"
      using block_fits [OF G(2), of p] True less(4) dvd_div_mult_self [OF less(3)] by simp
    let ?d = "snd (nvm_erase N (fc_flash (cache l)) p)"
    have im: "img ?d = wipe (image (cache l)) p pg" "good ?d"
      using less(2,3) fits by (auto intro: erase_img erase_good)
    let ?l = "flash_erase E l p"
    have l': "cache ?l = (cache l)\<lparr>fc_flash := ?d\<rparr>" by (simp add: flash_erase_def)
    have dec: "Suc lastp - (p + pg) < Suc lastp - p" using True G(1) by (intro diff_less_mono2) simp_all
    have le: "p + pg \<le> page_end pg lastp"
      using block_fits [OF page_end_props(3) [OF G(1), of lastp], of p]
        page_end_props(2) [OF G(1), of lastp] dvd_div_mult_self [OF less(3)] True by simp
    obtain dev where dev: "erase_pages E ?l (p + pg) lastp pg = ?l\<lparr>cache := (cache ?l)\<lparr>fc_flash := dev\<rparr>\<rparr>"
      "good dev" "\<forall>x. img dev x = (if p + pg \<le> x \<and> x < page_end pg lastp then 255 else img ?d x)"
      using less(1) [OF dec, of ?l] less(3,4) im(2) unfolding l' by auto
    have "erase_pages E l p lastp pg = l\<lparr>cache := (cache l)\<lparr>fc_flash := dev\<rparr>\<rparr>"
      using True G(1) dev(1) by (subst erase_pages.simps) (simp add: flash_erase_def)
    then show ?thesis
      using dev(2,3) im(1) le by (intro exI [of _ dev]) (auto simp: wipe_def)
  qed
qed

lemma write_zero: "write_digits 0 k = replicate k 48"
  by (induction k) (simp_all add: hex_digit_def)

lemma journal_empty: "bytes ''00000000'' = write_digits 0 8"
proof -
  have "replicate (Suc (Suc (Suc (Suc (Suc (Suc (Suc (Suc 0)))))))) (48 :: u8)
      = [48, 48, 48, 48, 48, 48, 48, 48]" by (simp only: replicate.simps)
  moreover have "Suc (Suc (Suc (Suc (Suc (Suc (Suc (Suc 0))))))) = 8" by simp
  ultimately have "replicate 8 (48 :: u8) = [48, 48, 48, 48, 48, 48, 48, 48]" by metis
  then show ?thesis by (simp add: bytes_def write_zero)
qed

lemma addHeading_simps [simp]:
  "cache (addHeading l k v h) = cache l"
  "startAddress (addHeading l k v h) = startAddress l"
  "journalStart (addHeading l k v h) = journalStart l"
  "journalHead (addHeading l k v h) = journalHead l" "dataStart (addHeading l k v h) = dataStart l"
  "dataEnd (addHeading l k v h) = dataEnd l" "logEnd (addHeading l k v h) = logEnd l"
  "headingStart (addHeading l k v h) = headingStart l"
  "headingLength (addHeading l k v h) = headingLength l"
  by (simp_all add: addHeading_def Let_def)

lemma setTimeStamp_body_simps [simp]:
  "cache (setTimeStamp_body l f) = cache l"
  "startAddress (setTimeStamp_body l f) = startAddress l"
  "journalStart (setTimeStamp_body l f) = journalStart l"
  "journalHead (setTimeStamp_body l f) = journalHead l" "dataStart (setTimeStamp_body l f) = dataStart l"
  "dataEnd (setTimeStamp_body l f) = dataEnd l" "logEnd (setTimeStamp_body l f) = logEnd l"
  "headingStart (setTimeStamp_body l f) = headingStart l"
  "headingLength (setTimeStamp_body l f) = headingLength l"
  by (simp_all add: setTimeStamp_body_def Let_def)

theorem clear_spec:
  assumes ok: "cache_ok (cache l)"
  defines "sa \<equiv> meta_address E l"
  defines "ds \<equiv> sa + 5 * pg" and "le \<equiv> fe - pg - 4"
  assumes room: "ds < le" and cap: "(le - ds) div 256 < pg div 2"
  shows "ready (clear E l full) (sa + 40) (sa + 40) \<and> dataStart (clear E l full) = ds \<and>
    dataEnd (clear E l full) = ds \<and> logEnd (clear E l full) = le \<and>
    startAddress (clear E l full) = sa \<and> headingLength (clear E l full) = 0 \<and>
    headingStart (clear E l full) = 0 \<and>
    status (clear E l full) = (status l AND LOG_SERIAL_MIRROR) OR LOG_INITIALIZED"
proof -
  note C = cache_okD [OF ok] and G = cache_ok_geometry [OF ok]
  have sa: "pg dvd sa" "length (header E) \<le> sa"
  proof -
    have m: "sa = (if length (header E) mod pg = 0 then length (header E)
        else page_end pg (length (header E)))"
      using C(4) by (simp add: sa_def meta_address_def Let_def page_end_def)
    show "pg dvd sa" "length (header E) \<le> sa"
      using page_end_props [OF G(1), of "length (header E)"] by (auto simp: m)
  qed
  have dsd: "pg dvd ds" "page_end pg ds = ds + pg" "pg dvd le + 4" "4 dvd le"
  proof -
    show d: "pg dvd ds" using sa(1) by (simp add: ds_def)
    show "page_end pg ds = ds + pg" using page_end_props(1) [OF G(1), of ds] d by simp
    have "le + 4 = fe - pg" using room by (simp add: le_def)
    then show "pg dvd le + 4" using G(3) by simp
    then have "4 dvd le + 4" using G(2) by (rule dvd_trans [rotated])
    then show "4 dvd le" by (simp add: dvd_add_left_iff)
  qed
  have le: "le + 4 + pg = fe" using room by (simp add: le_def)
  have "sub32 fe pg = fe - pg" using le G(1,4) by (intro sub32_le) simp_all
  then have le': "sub32 (sub32 fe pg) 4 = le"
    using le G(1,4) sub32_le [of 4 "fe - pg"] by simp
  define l1 where "l1 = clear_geometry E l"
  have l1: "cache l1 = cache l" "startAddress l1 = sa" "journalStart l1 = sa + pg"
    "journalHead l1 = sa + pg" "dataStart l1 = ds" "dataEnd l1 = ds" "logEnd l1 = le"
    "status l1 = status l AND LOG_SERIAL_MIRROR" "headingLength l1 = 0" "headingStart l1 = 0"
    using C(4-6) by (simp_all add: l1_def clear_geometry_def Let_def sa_def ds_def le'
        CONFIG_MICROBIT_LOG_JOURNAL_PAGES_def)
  let ?d2 = "snd (nvm_write N (fc_flash (cache l)) le [0, 0, 0, 0] 1)"
  have g2: "good ?d2" using le dsd(4) by (intro write_good [OF C(1)]) simp_all
  define l3 where "l3 = l1\<lparr>cache := fscache_clear ((cache l)\<lparr>fc_flash := ?d2\<rparr>)\<rparr>"
  define lastp where "lastp = (if full then le else ds)"
  have lastp: "lastp < fe" "ds \<le> lastp" using le room G(1) by (auto simp: lastp_def)
  have geo3: "flashStart E l3 = 0" "pageSize E l3 = pg" using geometry [OF g2] by (simp_all add: l3_def)
  obtain d4 where l4: "erase_pages E l3 0 lastp pg = l3\<lparr>cache := (cache l3)\<lparr>fc_flash := d4\<rparr>\<rparr>" "good d4"
    "\<forall>x. img d4 x = (if 0 \<le> x \<and> x < page_end pg lastp then 255 else image (cache l3) x)"
    using erase_pages_spec [of l3 0 lastp] g2 lastp(1) by (auto simp: l3_def)
  have "page_end pg ds \<le> page_end pg lastp"
    using lastp(2) by (auto simp: page_end_def intro!: mult_le_mono1 div_le_mono)
  then have FF4: "img d4 x = 255" if "x < ds + pg" for x using l4(3) that dsd(2) by simp
  let ?d5 = "snd (nvm_write N d4 0 (header E) (length (header E) div 4))"
  have hl: "4 * (length (header E) div 4) \<le> length (header E)" by simp
  have "length (header E) \<le> fe" using sa(2) le room by (simp add: ds_def)
  with hl have hfe: "4 * (length (header E) div 4) \<le> fe" by (rule le_trans)
  have g5: "good ?d5" "img ?d5 = burn (img d4) 0 (take (4 * (length (header E) div 4)) (header E))"
    using write_good [OF l4(2), of 0 "length (header E) div 4" "header E"]
      write_img [OF l4(2), of 0 "length (header E) div 4" "header E"] hl hfe by simp_all
  have FF5: "img ?d5 x = 255" if "sa \<le> x" "x < ds + pg" for x
    
  proof -
    have "img ?d5 x = img d4 x" using that(1) sa(2) by (simp add: g5(2) burn_out)
    then show ?thesis using FF4 [OF that(2)] by simp
  qed
  define c5 where "c5 = (fscache_clear (cache l))\<lparr>fc_flash := ?d5\<rparr>"
  have c5: "cache_ok c5" "image c5 = img ?d5" "held c5 = {}"
  proof -
    have "coherent (img ?d5) 0 fe (fscache_clear (cache l))" using C(2) by (rule coherent_clear)
    then show "cache_ok c5"
      using g5(1) C(3) by (auto simp: cache_ok_def c5_def intro: coherent_image)
    show "image c5 = img ?d5" by (simp add: c5_def)
    show "held c5 = {}" using fscache_clear_simps(3) [of "cache l"] by (simp add: c5_def held_def)
  qed
  define l5 where "l5 = l1\<lparr>cache := c5, metaData := meta_bytes ds le\<rparr>"
  have fits6: "\<forall>k < length (meta_bytes ds le). fits (image (cache l5) (sa + k)) (meta_bytes ds le ! k)"
    using FF5 c5(2) G(5) by (simp add: l5_def ds_def)
  obtain c6 where c6: "cache_write E l5 sa (meta_bytes ds le) = l5\<lparr>cache := c6\<rparr>" "cache_ok c6"
    "image c6 = put (img ?d5) sa (meta_bytes ds le)" "held c6 \<subseteq> blocks 256 sa 40"
    using cache_write_spec [OF _ _ fits6] c5 le room G(5) by (auto simp: l5_def ds_def)
  let ?l6 = "l5\<lparr>cache := c6\<rparr>"
  have fits7: "\<forall>k < length (write_digits 0 8). fits (image (cache ?l6) (sa + pg + k)) (write_digits 0 8 ! k)"
    using FF5 c6(3) G(5) by (simp add: put_def ds_def)
  obtain c7 where c7: "cache_write E ?l6 (sa + pg) (write_digits 0 8) = l5\<lparr>cache := c7\<rparr>" "cache_ok c7"
    "image c7 = put (image c6) (sa + pg) (write_digits 0 8)" "held c7 \<subseteq> held c6 \<union> blocks 256 (sa + pg) 8"
    using cache_write_spec [OF _ _ fits7] c6(2) le room G(5) by (auto simp: ds_def)
  define d8 where "d8 = remount E (setConfiguration E (fc_flash c7) (bytes ''MY_DATA.HTM'')
      (sub32 (sub32 fe 0) pg))"
  have d8: "good d8" "img d8 = image c7"
    using cache_okD(1) [OF c7(2)] configure_img configure_good remount_img remount_good
    by (simp_all add: d8_def)
  define c8 where "c8 = c7\<lparr>fc_flash := d8\<rparr>"
  have c8: "cache_ok c8" "image c8 = image c7" "held c8 = held c7"
    using c7(2) d8 by (auto simp: cache_ok_def c8_def held_def intro: coherent_image)
  define l8 where "l8 = l5\<lparr>cache := c8, status := status l5 OR LOG_INITIALIZED\<rparr>"
  have res: "clear E l full = setTimeStamp_body l8 (timeStampFormat l8)"
  proof -
    let ?L2 = "l1\<lparr>cache := (cache l)\<lparr>fc_flash := ?d2\<rparr>\<rparr>"
    let ?L4 = "l3\<lparr>cache := (cache l3)\<lparr>fc_flash := d4\<rparr>\<rparr>"
    let ?L5 = "l1\<lparr>cache := c5\<rparr>" and ?md = "meta_bytes ds le"
    have 1: "flash_write E l1 (logEnd l1) [0, 0, 0, 0] 1 = ?L2"
      by (simp add: flash_write_def l1)
    have 2: "?L2\<lparr>cache := fscache_clear (cache ?L2)\<rparr> = l3" by (simp add: l3_def)
    have 3: "erase_pages E l3 (flashStart E l3) (if full then logEnd l3 else dataStart l3) (pageSize E l3) = ?L4"
    proof -
      have "(if full then logEnd l3 else dataStart l3) = lastp" by (simp add: lastp_def l3_def l1)
      then show ?thesis using l4(1) by (simp only: geo3)
    qed
    have 4: "flash_write E ?L4 (flashStart E ?L4) (header E) (length (header E) div 4) = ?L5"
      using geometry [OF l4(2)] by (simp add: flash_write_def l3_def c5_def fscache_clear_def)
    have 5: "cache_write E (?L5\<lparr>metaData := meta_bytes (dataStart ?L5) (logEnd ?L5)\<rparr>) (startAddress ?L5)
        (meta_bytes (dataStart ?L5) (logEnd ?L5)) = l5\<lparr>cache := c6\<rparr>"
      using c6(1) by (simp add: l5_def l1)
    have 6: "cache_write E (l5\<lparr>cache := c6\<rparr>) (journalHead (l5\<lparr>cache := c6\<rparr>)) (bytes ''00000000'')
        = l5\<lparr>cache := c7\<rparr>"
      using c7(1) by (simp only: journal_empty) (simp add: l5_def l1)
    have 7: "l5\<lparr>cache := c7\<rparr>\<lparr>cache := (cache (l5\<lparr>cache := c7\<rparr>))\<lparr>fc_flash :=
          remount E (setConfiguration E (fc_flash (cache (l5\<lparr>cache := c7\<rparr>))) (bytes ''MY_DATA.HTM'')
            (sub32 (sub32 (flashEnd E (l5\<lparr>cache := c7\<rparr>)) (flashStart E (l5\<lparr>cache := c7\<rparr>)))
              (pageSize E (l5\<lparr>cache := c7\<rparr>))))\<rparr>,
        status := status (l5\<lparr>cache := c7\<rparr>) OR LOG_INITIALIZED\<rparr> = l8"
      using geometry [OF cache_okD(1) [OF c7(2)]] by (simp add: l8_def c8_def d8_def)
    show ?thesis by (simp only: clear_def Let_def l1_def [symmetric] 1 2 3 4 5 6 7)
  qed
  have im: "image c8 = put (put (img ?d5) sa (meta_bytes ds le)) (sa + pg) (write_digits 0 8)"
    using c8(2) c7(3) c6(3) by simp
  have I: "log_image fe pg sa ds le (image c8) (sa + pg) ds (sa + 40) (sa + 40)"
  proof -
    let ?m = "image c8"
    have unused: "?m x = 255" if "sa + 40 \<le> x" "x < ds + pg" "\<not> (sa + pg \<le> x \<and> x < sa + pg + 8)" for x
      using FF5 [of x] that by (auto simp: im put_def)
    have meta: "rdm ?m sa 40 = meta_bytes ds le"
      using rdm_put_same [of "img ?d5" sa "meta_bytes ds le"] G(5) by (simp add: im rdm_put_disj)
    have entry: "rdm ?m (sa + pg) 8 = write_digits 0 8"
      using rdm_put_same [of _ "sa + pg" "write_digits 0 8"] by (simp add: im)
    have "journal_at ?m (sa + pg) ds (sa + pg) 0"
      using unused entry G(5) by (auto simp: journal_at_def ds_def)
    moreover have "data_at ?m pg ds le ds"
      using unused room dsd(2) G(5) by (auto simp: data_at_def ds_def)
    moreover have "headings_at ?m sa (sa + pg) (sa + 40) (sa + 40)"
      using unused G(5) by (auto simp: headings_at_def ds_def)
    ultimately show ?thesis
      using sa(1) dsd(1) room le G(4) meta cap by (auto simp: log_image_def ds_def)
  qed
  have "held_below c8 ds ds"
    using c8(3) c7(4) c6(4) G(5) by (fastforce simp: held_below_def blocks_def ds_def)
  then have "ready l8 (sa + 40) (sa + 40)"
    using c8(1) I by (intro readyI) (simp_all add: l8_def l5_def l1)
  then show ?thesis unfolding res
    by (simp add: log_ready_def) (simp add: l8_def l5_def l1)
qed
end

subsection \<open>Writing the headings\<close>

context log_device
begin

lemma write_headings_spec:
  assumes l: "ready l hs he" and at: "(if headingStart l = 0 then startAddress l + 40 else headingStart l) = hs"
    and len: "headingLength l = he - hs" and h: "h \<noteq> []" "hd h \<noteq> 0" "255 \<notin> set h"
    and room: "he + length h < journalStart l"
  shows "\<exists>c. write_headings E l h = l\<lparr>cache := c, headingStart := he\<rparr> \<and>
    ready (write_headings E l h) he (he + length h) \<and> rdm (image c) he (length h) = h \<and>
    (\<forall>x. journalStart l \<le> x \<longrightarrow> image c x = image (cache l) x)"
proof -
  note R = readyD [OF l]
  let ?m = "image (cache l)" and ?js = "startAddress l + pg"
  have I: "startAddress l + 2 * pg \<le> dataStart l" "dataStart l < logEnd l" "logEnd l + 4 < fe"
    "headings_at ?m (startAddress l) ?js hs he"
    using R(4) by (auto simp: log_image_def)
  have H: "startAddress l + 40 \<le> hs" "hs \<le> he" "he < ?js"
    "\<forall>x. startAddress l + 40 \<le> x \<and> x < hs \<longrightarrow> ?m x = 0" "\<forall>x. he \<le> x \<and> x < ?js \<longrightarrow> ?m x = 255"
    using I(4) by (auto simp: headings_at_def)
  have room': "he + length h < ?js" using room R(3) by simp
  let ?l0 = "l\<lparr>headingStart := hs\<rparr>"
  have "\<exists>c'. cache_write E ?l0 hs (replicate (he - hs) 0) = ?l0\<lparr>cache := c'\<rparr> \<and> cache_ok c' \<and>
      image c' = put (image (cache ?l0)) hs (replicate (he - hs) 0) \<and>
      held c' \<subseteq> held (cache ?l0) \<union> blocks 256 hs (length (replicate (he - hs) (0 :: u8)))"
    using R(1) H(2,3) I(1-3) by (intro cache_write_spec) auto
  then obtain c1 where c1: "cache_write E ?l0 hs (replicate (he - hs) 0) = ?l0\<lparr>cache := c1\<rparr>" "cache_ok c1"
      "image c1 = put ?m hs (replicate (he - hs) 0)" "held c1 \<subseteq> held (cache l) \<union> blocks 256 hs (he - hs)"
    by auto
  let ?l1 = "l\<lparr>cache := c1, headingStart := he\<rparr>"
  have unused: "image c1 x = 255" if "he \<le> x" "x < ?js" for x
    using H(5) that H(2) by (auto simp: c1(3) put_def)
  have "\<exists>c'. cache_write E ?l1 he h = ?l1\<lparr>cache := c'\<rparr> \<and> cache_ok c' \<and>
      image c' = put (image (cache ?l1)) he h \<and> held c' \<subseteq> held (cache ?l1) \<union> blocks 256 he (length h)"
    using c1(2) unused room' I(1-3) by (intro cache_write_spec) auto
  then obtain c2 where c2: "cache_write E ?l1 he h = ?l1\<lparr>cache := c2\<rparr>" "cache_ok c2"
      "image c2 = put (image c1) he h" "held c2 \<subseteq> held c1 \<union> blocks 256 he (length h)"
    by auto
  have "write_headings E l h = l\<lparr>cache := c2, headingStart := he\<rparr>"
    using c1(1) c2(1) at len H(2) by (simp add: write_headings_def Let_def)
  moreover have im: "image c2 x = (if he \<le> x \<and> x < he + length h then h ! (x - he)
      else if hs \<le> x \<and> x < he then 0 else ?m x)" for x
    using H(2) by (auto simp: c1(3) c2(3) put_def)
  have out: "image c2 x = ?m x" if "x < startAddress l + 40 \<or> ?js \<le> x" for x
    using that H(1-3) room' by (auto simp: im)
  have "headings_at (image c2) (startAddress l) ?js he (he + length h)"
  proof -
    have "image c2 he \<noteq> 0" using h(1,2) by (simp add: im hd_conv_nth)
    moreover have "h ! i \<noteq> 255" if "i < length h" for i using h(3) that nth_mem by metis
    ultimately show ?thesis
      using H room' h(1) by (auto simp: headings_at_def im)
  qed
  moreover have "log_image fe pg (startAddress l) (dataStart l) (logEnd l) (image c2) (journalHead l)
      (dataEnd l) he (he + length h)"
  proof -
    obtain used where J: "used \<le> dataEnd l - dataStart l"
      "journal_at ?m ?js (dataStart l) (journalHead l) used"
      "data_at ?m pg (dataStart l) (logEnd l) (dataEnd l)"
      using R(4) by (auto simp: log_image_def)
    have "rdm (image c2) (startAddress l) 40 = rdm ?m (startAddress l) 40"
      using out by (intro rdm_cong) simp
    moreover have "rdm (image c2) (journalHead l) 8 = rdm ?m (journalHead l) 8"
      using out J(2) by (intro rdm_cong) (simp add: journal_at_def)
    then have "journal_at (image c2) ?js (dataStart l) (journalHead l) used"
      using J(2) out by (auto simp: journal_at_def)
    moreover have "data_at (image c2) pg (dataStart l) (logEnd l) (dataEnd l)"
      using J(3) out I(1) by (auto simp: data_at_def)
    ultimately show ?thesis
      using R(4) J(1) \<open>headings_at (image c2) _ _ _ _\<close> by (auto simp: log_image_def)
  qed
  moreover have "held_below c2 (dataStart l) (dataEnd l)"
    using R(5) c1(4) c2(4) room' I(1) H(1-3) by (fastforce simp: held_below_def blocks_def)
  moreover have "rdm (image c2) he (length h) = h" using rdm_put_same c2(3) by simp
  ultimately show ?thesis
    using R(2,3) c2(2) out by (intro exI [of _ c2] conjI) (auto intro!: readyI)
qed

text \<open>
  Headings that do not fit over the old ones are not written: the flash keeps the old headings.
\<close>

lemma write_headings_stuck:
  assumes l: "ready l hs he" and at: "headingStart l = hs" "headingLength l = 0"
    and i: "i < length h" "\<not> fits (image (cache l) (hs + i)) (h ! i)" and room: "hs + length h < fe"
  shows "\<exists>c. write_headings E l h = l\<lparr>cache := c\<rparr> \<and> image c = image (cache l) \<and> good (fc_flash c)"
proof -
  note R = readyD [OF l]
  have hs: "hs > 0" "hs < fe"
    using R(4) by (auto simp: log_image_def headings_at_def)
  let ?l0 = "l\<lparr>headingStart := hs\<rparr>"
  have "\<exists>c'. cache_write E ?l0 hs [] = ?l0\<lparr>cache := c'\<rparr> \<and> cache_ok c' \<and>
      image c' = put (image (cache ?l0)) hs [] \<and> held c' \<subseteq> held (cache ?l0) \<union> blocks 256 hs (length ([] :: u8 list))"
    using R(1) hs by (intro cache_write_spec) auto
  then obtain c1 where c1: "cache_write E ?l0 hs [] = ?l0\<lparr>cache := c1\<rparr>" "cache_ok c1"
    "image c1 = image (cache l)" by auto
  let ?l1 = "l\<lparr>cache := c1, headingStart := hs\<rparr>"
  note C = cache_okD(1-3) [OF c1(2)]
  obtain r c2 where r: "fscache_write N c1 hs h = (r, c2)" by fastforce
  note S = fscache_write_spec [OF C(2,1) le0 room r]
  have "r \<noteq> OK" using S(1) i c1(3) by auto
  then have c2: "image c2 = image (cache l)" "good (fc_flash c2)" using S(2,4) c1(3) by simp_all
  have "write_headings E l h = l\<lparr>cache := c2, headingStart := hs\<rparr>"
  proof -
    have "cache_write E ?l1 hs h = ?l1\<lparr>cache := c2\<rparr>" using r by (simp add: cache_write_def)
    then show ?thesis using c1(1) at hs(1) by (simp add: write_headings_def Let_def)
  qed
  moreover have "l\<lparr>cache := c2, headingStart := hs\<rparr> = l\<lparr>cache := c2\<rparr>"
    using at(1) by (cases l) simp
  ultimately show ?thesis using c2 by auto
qed

end

subsection \<open>Sessions of appends and restarts\<close>

datatype log_event = Append "u8 list" | Power_cycle "u8 list" "u8 list"

fun log_step :: "'d log_env \<Rightarrow> 'd mlog \<Rightarrow> log_event \<Rightarrow> 'd mlog option" where
  "log_step E l (Append s) = map_option snd (logString E l s)"
| "log_step E l (Power_cycle heap meta) = init E (mlog_new (fc_flash (cache l)) heap meta)"

fun log_run :: "'d log_env \<Rightarrow> 'd mlog \<Rightarrow> log_event list \<Rightarrow> 'd mlog option" where
  "log_run E l [] = Some l"
| "log_run E l (ev # evs) = (case log_step E l ev of None \<Rightarrow> None | Some l' \<Rightarrow> log_run E l' evs)"

text \<open>
  The same over a device whose driver keeps state in RAM of its own: \<open>reboot\<close> is what a loss of
  power makes of the device.
\<close>

fun log_run_with :: "('d \<Rightarrow> 'd) \<Rightarrow> 'd log_env \<Rightarrow> 'd mlog \<Rightarrow> log_event list \<Rightarrow> 'd mlog option" where
  "log_run_with reboot E l [] = Some l"
| "log_run_with reboot E l (Append s # evs) =
     (case logString E l s of None \<Rightarrow> None | Some (r, l') \<Rightarrow> log_run_with reboot E l' evs)"
| "log_run_with reboot E l (Power_cycle heap meta # evs) =
     (case init E (mlog_new (reboot (fc_flash (cache l))) heap meta) of None \<Rightarrow> None
      | Some l' \<Rightarrow> log_run_with reboot E l' evs)"

lemma log_run_with_id: "log_run_with id E l evs = log_run E l evs"
proof (induction evs arbitrary: l)
  case (Cons ev evs)
  then show ?case by (cases ev) (auto split: option.splits)
qed simp

fun appended :: "log_event list \<Rightarrow> u8 list" where
  "appended [] = []"
| "appended (Append s # evs) = s @ appended evs"
| "appended (Power_cycle heap meta # evs) = appended evs"

fun appended_clean :: "log_event list \<Rightarrow> u8 list" where
  "appended_clean [] = []"
| "appended_clean (Append s # evs) = cleaned s False @ appended_clean evs"
| "appended_clean (Power_cycle heap meta # evs) = appended_clean evs"

context log_device
begin

lemma logString_ready:
  assumes l: "ready l hs he" and s: "255 \<notin> set s" and room: "dataEnd l + length s \<le> logEnd l"
  shows "logString E l s = Some (OK, append_string E l s)"
proof -
  have "dataEnd l \<le> logEnd l" "logEnd l < 2 ^ 32"
    using readyD(4) [OF l] by (auto simp: log_image_def data_at_def)
  then have "\<not> length s > sub32 (logEnd l) (dataEnd l)" using room by (simp add: sub32_le)
  then show ?thesis
    using readyD(2) [OF l] by (simp add: logString_def init_def logString_body_def)
qed

lemma logString_full:
  assumes l: "ready l hs he" and room: "logEnd l < dataEnd l + length s"
  shows "logString E l s = Some (NO_RESOURCES, report_full E l)"
proof -
  have "dataEnd l \<le> logEnd l" "logEnd l < 2 ^ 32"
    using readyD(4) [OF l] by (auto simp: log_image_def data_at_def)
  then have "length s > sub32 (logEnd l) (dataEnd l)" using room by (simp add: sub32_le)
  then show ?thesis
    using readyD(2) [OF l] by (simp add: logString_def init_def logString_body_def)
qed

lemma meta_address_good:
  assumes "good (fc_flash (cache l))" "good (fc_flash (cache l'))"
  shows "meta_address E l = meta_address E l'"
  using assms by (simp add: meta_address_def geometry)

lemma restart_spec:
  assumes g: "good dev"
    and I: "log_image fe pg (meta_address E (mlog_new dev heap meta)) ds le (img dev) jh de hs he"
  shows "\<exists>l'. init E (mlog_new dev heap meta) = Some l' \<and> ready l' hs he \<and>
    image (cache l') = img dev \<and> startAddress l' = meta_address E (mlog_new dev heap meta) \<and>
    dataStart l' = ds \<and> logEnd l' = le \<and> dataEnd l' = de \<and>
    status l' = LOG_INITIALIZED \<and> headingLength l' = he - hs \<and>
    (if hs < he then headingStart l' = hs \<and> rowData l' = parse_headings (rdm (img dev) hs (he - hs))
     else headingStart l' = 0 \<and> rowData l' = [])"
proof -
  let ?l = "mlog_new dev heap meta"
  have held: "held (cache ?l) = {}" and off: "\<not> has (status ?l) LOG_INITIALIZED"
    and d: "fc_flash (cache ?l) = dev" and st: "status ?l OR LOG_INITIALIZED = LOG_INITIALIZED"
      "rowData ?l = []" "headingStart ?l = 0"
    by (simp_all add: mlog_new_def) (simp add: fscache_new_def)
  have "log_image fe pg (meta_address E ?l) ds le (image (cache ?l)) jh de hs he" using I d by simp
  from init_recovers [OF cache_ok_new [OF g] off held this, unfolded d st]
  show ?thesis by blast
qed

lemma log_run_with_spec:
  assumes R: "\<And>d. good d \<Longrightarrow> good (reboot d) \<and> img (reboot d) = img d"
    and "ready l hs he" and "startAddress l = meta_address E l"
    and "255 \<notin> set (appended evs)" and "dataEnd l + length (appended evs) \<le> logEnd l"
  shows "\<exists>l'. log_run_with reboot E l evs = Some l' \<and> ready l' hs he \<and>
    log_data img l' = log_data img l @ appended_clean evs \<and> dataStart l' = dataStart l \<and>
    dataEnd l' = dataEnd l + length (appended evs)"
  using assms(2-)
proof (induction evs arbitrary: l)
  case Nil
  then show ?case by simp
next
  case (Cons ev evs)
  note D = readyD [OF Cons(2)]
  have fin: "dataEnd l \<le> logEnd l" "dataStart l \<le> dataEnd l" using D(4) by (auto simp: log_image_def data_at_def)
  show ?case
  proof (cases ev)
    case (Append s)
    then have s: "255 \<notin> set s" "dataEnd l + length s \<le> logEnd l" using Cons(4,5) by auto
    obtain c jh where A: "append_string E l s = (mirror l (cleaned s False))\<lparr>cache := c,
        dataEnd := dataEnd l + length s, journalHead := jh\<rparr>"
      "ready (append_string E l s) hs he"
      "log_data img (append_string E l s) = log_data img l @ cleaned s False"
      using append_string_spec [OF Cons(2) s] by blast
    have same: "startAddress (append_string E l s) = startAddress l"
      "logEnd (append_string E l s) = logEnd l" "dataStart (append_string E l s) = dataStart l"
      "dataEnd (append_string E l s) = dataEnd l + length s"
      by (simp_all add: A(1))
    have "meta_address E (append_string E l s) = meta_address E l"
      using cache_okD(1) D(1) readyD(1) [OF A(2)] by (intro meta_address_good)
    then show ?thesis
      using Cons(1) [OF A(2)] Cons(3-5) Append same A(3) logString_ready [OF Cons(2) s]
      by (auto simp: add.assoc)
  next
    case (Power_cycle heap meta)
    let ?dev = "reboot (fc_flash (cache l))"
    have g0: "good (fc_flash (cache l))" using cache_okD(1) [OF D(1)] .
    have g: "good ?dev" "img ?dev = img (fc_flash (cache l))" using R [OF g0] by simp_all
    have "meta_address E (mlog_new ?dev heap meta) = meta_address E l"
      using g(1) g0 by (intro meta_address_good) (simp_all add: mlog_new_def fscache_new_def)
    then obtain l' where l': "init E (mlog_new ?dev heap meta) = Some l'" "ready l' hs he"
      "image (cache l') = img (fc_flash (cache l))" "startAddress l' = startAddress l" "dataStart l' = dataStart l"
      "logEnd l' = logEnd l" "dataEnd l' = dataEnd l"
      using restart_spec [OF g(1)] g(2) D(4) Cons(3) by metis
    have "meta_address E l' = meta_address E l"
      using g0 cache_okD(1) [OF readyD(1) [OF l'(2)]] by (intro meta_address_good)
    moreover have "log_data img l' = log_data img l" using l' by (simp add: log_data_def)
    ultimately show ?thesis
      using Cons(1) [OF l'(2)] Cons(3-5) Power_cycle l' by auto
  qed
qed

lemma log_run_spec:
  assumes "ready l hs he" and "startAddress l = meta_address E l"
    and "255 \<notin> set (appended evs)" and "dataEnd l + length (appended evs) \<le> logEnd l"
  shows "\<exists>l'. log_run E l evs = Some l' \<and> ready l' hs he \<and>
    log_data img l' = log_data img l @ appended_clean evs \<and> dataStart l' = dataStart l \<and>
    dataEnd l' = dataEnd l + length (appended evs)"
  using log_run_with_spec [OF _ assms, of id] by (simp add: log_run_with_id)

end

subsection \<open>A whole row\<close>

lemma join_fields_mem: "b \<in> set (join_fields ks) \<Longrightarrow> b = 44 \<or> b = 10 \<or> (\<exists>k \<in> set ks. b \<in> set k)"
  using join_fields_FF [of ks b] by auto

lemma has_clear_row: "has (s AND NOT LOG_ROW_STARTED) LOG_FULL = has s LOG_FULL"
  "has (s AND NOT LOG_ROW_STARTED) LOG_INITIALIZED = has s LOG_INITIALIZED"
  by (rule has_clear, simp)+

lemma has_clear_row_num [simp]:
  "has (s AND - 3) 4 = has s 4" "has (s AND - 3) 1 = has s 1" "\<not> has (s AND - 3) 2"
  using has_clear_row [of s] has_clear_same [of s 2] by simp_all

context log_device
begin

lemma ready_fields [simp]:
  "ready (l\<lparr>headingsChanged := b\<rparr>) hs he = ready l hs he"
  "ready (l\<lparr>status := status l AND NOT LOG_ROW_STARTED\<rparr>) hs he = ready l hs he"
  by (simp_all add: log_ready_def)

theorem endRow_spec:
  assumes l: "ready l hs he" and at: "(if headingStart l = 0 then startAddress l + 40 else headingStart l) = hs"
      "headingLength l = he - hs"
    and row: "has (status l) LOG_ROW_STARTED" "\<not> has (status l) LOG_FULL" "timeStampFormat l = TS_None"
      "headingsChanged l" "\<exists>c \<in> set (rowData l). col_value c \<noteq> []"
    and keys: "\<forall>c \<in> set (rowData l). plain_key (col_key c) \<and> 255 \<notin> set (col_value c)"
    and h: "h = join_fields (map col_key (rowData l))" and r: "r = join_fields (map col_value (rowData l))"
    and room: "he + length h < journalStart l" "dataEnd l + length h + length r \<le> logEnd l"
  shows "\<exists>l'. endRow E now l = Some (OK, l') \<and> ready l' he (he + length h) \<and>
    \<not> has (status l') LOG_ROW_STARTED \<and> \<not> headingsChanged l' \<and> startAddress l' = startAddress l \<and>
    dataStart l' = dataStart l \<and> logEnd l' = logEnd l \<and>
    log_data img l' = log_data img l @ cleaned h False @ cleaned r False \<and>
    rdm (image (cache l')) he (length h) = h \<and>
    headingLength l' = headingLength l \<and> headingStart l' = he"
proof -
  have ne: "rowData l \<noteq> []" using row(5) by auto
  have FF: "255 \<notin> set h" "255 \<notin> set r" "h \<noteq> []" "0 \<notin> set h"
    unfolding h r using keys by (auto simp: plain_key_def dest!: join_fields_mem)
  then have "hd h \<noteq> 0" using hd_in_set by metis
  then obtain c1 where c1: "write_headings E l h = l\<lparr>cache := c1, headingStart := he\<rparr>"
    "ready (write_headings E l h) he (he + length h)" "rdm (image c1) he (length h) = h"
    "\<forall>x. journalStart l \<le> x \<longrightarrow> image c1 x = image (cache l) x"
    using write_headings_spec [OF l at FF(3) _ FF(1) room(1)] by blast
  let ?l1 = "l\<lparr>cache := c1, headingStart := he\<rparr>"
  have R1: "ready ?l1 he (he + length h)" using c1(1,2) by simp
  have js: "journalStart l \<le> dataStart l"
    using readyD(3,4) [OF l] by (auto simp: log_image_def)
  have dat1: "log_data img ?l1 = log_data img l"
    unfolding log_data_def using c1(4) js by (auto intro: rdm_cong)
  obtain c2 jh2 where A2: "append_string E ?l1 h = (mirror ?l1 (cleaned h False))\<lparr>cache := c2,
        dataEnd := dataEnd l + length h, journalHead := jh2\<rparr>"
      "ready (append_string E ?l1 h) he (he + length h)"
      "log_data img (append_string E ?l1 h) = log_data img l @ cleaned h False"
      "\<forall>x < journalStart l. image c2 x = image c1 x"
    using append_string_spec [OF R1 FF(1)] room(2) dat1 by auto
  let ?l3 = "(append_string E ?l1 h)\<lparr>headingsChanged := False\<rparr>"
  have heads: "endRow_headings E l = Some ?l3"
    using row(4) logString_ready [OF R1 FF(1)] room(2) c1(1) h
    by (simp add: endRow_headings_def Let_def)
  have R3: "ready ?l3 he (he + length h)" using A2(2) by simp
  have f3: "dataEnd ?l3 = dataEnd l + length h" "logEnd ?l3 = logEnd l" "rowData ?l3 = rowData l"
    "status ?l3 = status l" "startAddress ?l3 = startAddress l" "dataStart ?l3 = dataStart l"
    "journalStart ?l3 = journalStart l" "cache ?l3 = c2" "headingsChanged ?l3 = False"
    "headingLength ?l3 = headingLength l" "headingStart ?l3 = he"
    "log_data img ?l3 = log_data img (append_string E ?l1 h)"
    by (simp_all add: A2(1) log_data_def)
  obtain c4 jh4 where A4: "append_string E ?l3 r = (mirror ?l3 (cleaned r False))\<lparr>cache := c4,
        dataEnd := dataEnd ?l3 + length r, journalHead := jh4\<rparr>"
      "ready (append_string E ?l3 r) he (he + length h)"
      "log_data img (append_string E ?l3 r) = log_data img ?l3 @ cleaned r False"
      "\<forall>x < journalStart ?l3. image c4 x = image (cache ?l3) x"
    using append_string_spec [OF R3 FF(2)] room(2) f3(1,2) by auto
  let ?l4 = "append_string E ?l3 r"
  have some: "list_ex (\<lambda>c. col_value c \<noteq> []) (rowData ?l3)" using row(5) f3(3) by (auto simp: list_ex_iff)
  have data: "endRow_data E ?l3 = Some ?l4"
    using some logString_ready [OF R3 FF(2)] room(2) f3(1-3) r by (simp add: endRow_data_def)
  let ?l5 = "?l4\<lparr>status := status ?l4 AND NOT LOG_ROW_STARTED\<rparr>"
  have f4: "status ?l4 = status l" "startAddress ?l4 = startAddress l" "dataStart ?l4 = dataStart l"
    "logEnd ?l4 = logEnd l" "headingsChanged ?l4 = False" "cache ?l4 = c4"
    "headingLength ?l4 = headingLength l" "headingStart ?l4 = he"
    by (simp_all only: A4(1) mlog.simps mirror_simps f3) (simp_all add: f3)
  have "endRow E now l = Some (OK, ?l5)"
    using row readyD(2) [OF l] heads data f4(1)
    by (simp add: endRow_def init_def endRow_stamp_def Let_def)
  moreover have "ready ?l5 he (he + length h)" using A4(2) by (simp only: ready_fields)
  moreover have "log_data img ?l5 = log_data img l @ cleaned h False @ cleaned r False"
    using A4(3) f3(12) A2(3) by (simp add: log_data_def)
  moreover have "rdm (image c4) he (length h) = rdm (image c1) he (length h)"
    using A4(4) A2(4) f3(7,8) room(1) by (intro rdm_cong) simp
  then have "rdm (image (cache ?l5)) he (length h) = h" using c1(3) f4(6) by simp
  ultimately show ?thesis
    using f4 by (intro exI [of _ ?l5]) simp
qed

end
end
