(* ===== verification/LogProperties.thy ===== *)
theory LogProperties
  imports LogRecovery
begin

text \<open>
  The properties of \<open>MicroBitLog\<close> on flash: the lemmas of \<open>LogRecovery\<close>, interpreted on the
  repository's own flash manager, for pages of any multiple of 256 bytes.
\<close>

subsection \<open>The log over the repository's flash manager\<close>

text \<open>
  The directory entry of the USB interface is not part of the flash: setting it and remounting
  leave the device as it is.
\<close>

definition nrf_env :: "u8 list \<Rightarrow> (int \<Rightarrow> u8 list) \<Rightarrow> u8 \<Rightarrow> nrf52 log_env" where
  "nrf_env hdr it jk =
     \<lparr>ctrl = nrf52_ops, setConfiguration = (\<lambda>d name sz. d), remount = (\<lambda>d. d), header = hdr,
      itoa = it, junk = jk\<rparr>"

interpretation nlog: log_device nrf52_ops nrf52_image "nrf52_good start pages (256 * k)"
    "pages * (256 * k)" "256 * k" "nrf_env hdr it jk"
  for start pages k :: nat and hdr it jk
  by (intro log_device.intro log_device_axioms.intro nrf.nvm_contract_axioms)
     (simp_all add: nrf_env_def)

text \<open>\<open>nrf_ready\<close>: a log in use on a flash of \<open>pages\<close> pages of \<open>256 * k\<close> bytes.\<close>

abbreviation nrf_ready :: "nat \<Rightarrow> nat \<Rightarrow> nat \<Rightarrow> nrf52 mlog \<Rightarrow> nat \<Rightarrow> nat \<Rightarrow> bool" where
  "nrf_ready start pages k \<equiv>
     log_ready nrf52_image (nrf52_good start pages (256 * k)) (pages * (256 * k)) (256 * k)"

lemma nrf_cache_ok:
  "nlog.cache_ok start pages k c \<longleftrightarrow> nrf52_good start pages (256 * k) (fc_flash c) \<and>
     coherent (nrf52_image (fc_flash c)) 0 (pages * (256 * k)) c \<and> fc_blockSize c = 256"
  by (simp add: nlog.cache_ok_def)

text \<open>A log for the witnesses: 8 pages of 256 bytes, no header page.\<close>

definition demo_itoa :: "int \<Rightarrow> u8 list" where
  "demo_itoa i = [of_int (48 + i mod 10)]"

definition demo_env :: "nrf52 log_env" where
  "demo_env = nrf_env [] demo_itoa 0"

definition demo_dev :: nrf52 where
  "demo_dev = nrf52_new 0 8 256 (\<lambda>_. 0)"

definition demo_log :: "nrf52 mlog" where
  "demo_log = clear demo_env (mlog_new demo_dev [] []) False"

lemma demo_new_ok: "nlog.cache_ok 0 8 1 (cache (mlog_new demo_dev [] []))"
  using nlog.cache_ok_new [of 0 8 1 demo_dev "[]" "[]"]
  by (simp add: demo_dev_def nrf52_good_def nrf52_new_def)

lemma demo_meta: "meta_address demo_env l = 0"
  by (simp add: meta_address_def demo_env_def nrf_env_def)

lemma demo_ready:
  "nrf_ready 0 8 1 demo_log 40 40" "startAddress demo_log = 0" "dataStart demo_log = 1280"
  "dataEnd demo_log = 1280" "logEnd demo_log = 1788" "headingLength demo_log = 0"
  "headingStart demo_log = 0"
  using nlog.clear_spec [where hdr = "[]" and it = demo_itoa and jk = 0 and full = False, folded demo_env_def,
      OF demo_new_ok]
  by (simp_all add: demo_log_def demo_meta)

lemma has_mask_same: "has (s AND f) f \<longleftrightarrow> has s f"
  by (simp add: has_def and.assoc)

lemma has_one: "\<not> has 1 4" "\<not> has 1 8"
  by (simp_all add: has_def)

subsection \<open>Properties\<close>

text \<open>
  C1 Power loss: whenever power fails while a string is being appended, between any two calls of the flash driver that
  change the flash (page erase, each block of 256 bytes that \<open>FSCache::write\<close> writes through, journal erase, new entry,
  old entry zeroed), the restarted log comes up by itself, holds all the text it held before followed by a prefix of
  the new text, and has its headings. (A loss of power inside a call of the driver is the driver's matter.)
\<close>

theorem log_power_loss:
  assumes "nrf_ready start pages k l hs he" and "startAddress l = meta_address (nrf_env hdr it jk) l"
    and "255 \<notin> set s" and "dataEnd l + length s \<le> logEnd l"
    and "string_cut (nrf_env hdr it jk) l s l'"
  shows "\<exists>n \<le> length s. \<exists>l''.
    init (nrf_env hdr it jk) (mlog_new (fc_flash (cache l')) heap meta) = Some l'' \<and>
    nrf_ready start pages k l'' hs he \<and>
    log_data nrf52_image l'' = log_data nrf52_image l @ take n (cleaned s False)"
proof -
  let ?E = "nrf_env hdr it jk" and ?new = "mlog_new (fc_flash (cache l')) heap meta"
  obtain n jh where n: "n \<le> length s" "nrf52_good start pages (256 * k) (fc_flash (cache l'))"
    "log_image (pages * (256 * k)) (256 * k) (startAddress l) (dataStart l) (logEnd l)
       (nrf52_image (fc_flash (cache l'))) jh (dataEnd l + n) hs he"
    "rdm (nrf52_image (fc_flash (cache l'))) (dataStart l) (dataEnd l + n - dataStart l)
       = log_data nrf52_image l @ take n (cleaned s False)"
    using nlog.string_cut_spec [OF assms(5,1,3,4)] by blast
  have "meta_address ?E ?new = startAddress l"
    unfolding assms(2)
    using n(2) nlog.cache_okD(1) [OF nlog.readyD(1) [OF assms(1)]]
    by (intro nlog.meta_address_good) (simp_all add: mlog_new_def fscache_new_def)
  with nlog.restart_spec [OF n(2), of hdr it jk heap meta] n(3) obtain l'' where
    "init ?E ?new = Some l''" "nrf_ready start pages k l'' hs he"
    "nrf52_image (fc_flash (cache l'')) = nrf52_image (fc_flash (cache l'))"
    "dataStart l'' = dataStart l" "dataEnd l'' = dataEnd l + n" by metis
  with n(1,4) show ?thesis by (intro exI [of _ n] conjI exI [of _ l'']) (simp_all add: log_data_def)
qed

theorem log_power_loss_witness:
  "\<exists>n \<le> length [97, 10 :: u8]. \<exists>l''.
    init demo_env (mlog_new (fc_flash (cache (append_string demo_env demo_log [97, 10]))) [] [])
      = Some l'' \<and>
    log_data nrf52_image l'' = log_data nrf52_image demo_log @ take n (cleaned [97, 10] False)"
proof -
  have "startAddress demo_log = meta_address demo_env demo_log"
    "255 \<notin> set [97, 10 :: u8]" "dataEnd demo_log + length [97, 10 :: u8] \<le> logEnd demo_log"
    by (simp_all add: demo_ready demo_meta)
  from log_power_loss [where hdr = "[]" and it = demo_itoa and jk = 0, folded demo_env_def,
      OF demo_ready(1) this string_cut.cut_done]
  show ?thesis by blast
qed

text \<open>
  C3 \<open>logString\<close> on a log in use: the cleaned text is appended to the data on flash, nothing
  before the journal changes, and the log stays in use.
\<close>

theorem logString_appends:
  assumes "nrf_ready start pages k l hs he" and "255 \<notin> set s" and "dataEnd l + length s \<le> logEnd l"
  shows "\<exists>l'. logString (nrf_env hdr it jk) l s = Some (OK, l') \<and> nrf_ready start pages k l' hs he \<and>
    log_data nrf52_image l' = log_data nrf52_image l @ cleaned s False \<and>
    dataEnd l' = dataEnd l + length s \<and>
    (\<forall>x < journalStart l. nrf52_image (fc_flash (cache l')) x = nrf52_image (fc_flash (cache l)) x)"
  using nlog.append_string_spec [OF assms, of hdr it jk] nlog.logString_ready [OF assms, of hdr it jk]
  by fastforce

theorem logString_appends_witness:
  "\<exists>l'. logString demo_env demo_log [104, 105] = Some (OK, l') \<and>
    log_data nrf52_image l' = log_data nrf52_image demo_log @ cleaned [104, 105] False"
  using logString_appends [where start = 0 and pages = 8 and k = 1 and l = demo_log and hs = 40 and he = 40 and hdr = "[]" and it = demo_itoa and jk = 0
      and s = "[104, 105]", folded demo_env_def,
      OF demo_ready(1)]
  by (auto simp: demo_ready)

text \<open>
  C4 A string that does not fit is refused with \<open>DEVICE_NO_RESOURCES\<close>, the full event is raised,
  and the log on flash is the same log: a restart finds the same text.
\<close>

theorem logString_full_refused:
  assumes "nrf_ready start pages k l hs he" and "logEnd l < dataEnd l + length s"
    and "startAddress l = meta_address (nrf_env hdr it jk) l"
  shows "\<exists>l' l''. logString (nrf_env hdr it jk) l s = Some (NO_RESOURCES, l') \<and> isFull l' \<and>
    full_events l' = full_events l + 1 \<and> log_data nrf52_image l' = log_data nrf52_image l \<and>
    init (nrf_env hdr it jk) (mlog_new (fc_flash (cache l')) heap meta) = Some l'' \<and>
    log_data nrf52_image l'' = log_data nrf52_image l"
proof -
  let ?E = "nrf_env hdr it jk"
  obtain c st where r: "report_full ?E l = l\<lparr>cache := c, status := st, full_events := full_events l + 1\<rparr>"
    "has st LOG_FULL" "nlog.cache_ok start pages k c"
    "log_image (pages * (256 * k)) (256 * k) (startAddress l) (dataStart l) (logEnd l)
       (nrf52_image (fc_flash c)) (journalHead l) (dataEnd l) hs he"
    "\<forall>x \<le> logEnd l. nrf52_image (fc_flash c) x = nrf52_image (fc_flash (cache l)) x"
    using nlog.report_full_spec [OF assms(1), of hdr it jk] by blast
  have de: "dataEnd l \<le> logEnd l" using r(4) by (auto simp: log_image_def data_at_def)
  have dat: "rdm (nrf52_image (fc_flash c)) (dataStart l) (dataEnd l - dataStart l) = log_data nrf52_image l"
    unfolding log_data_def using r(5) de by (intro rdm_cong) simp
  have g: "nrf52_good start pages (256 * k) (fc_flash c)" using r(3) by (simp add: nrf_cache_ok)
  have "meta_address ?E (mlog_new (fc_flash c) heap meta) = startAddress l"
    unfolding assms(3) using g nlog.cache_okD(1) [OF nlog.readyD(1) [OF assms(1)]]
    by (intro nlog.meta_address_good) (simp_all add: mlog_new_def fscache_new_def)
  with nlog.restart_spec [OF g, of hdr it jk heap meta] r(4) obtain l'' where
    "init ?E (mlog_new (fc_flash c) heap meta) = Some l''"
    "nrf52_image (fc_flash (cache l'')) = nrf52_image (fc_flash c)"
    "dataStart l'' = dataStart l" "dataEnd l'' = dataEnd l" by metis
  then show ?thesis
    using nlog.logString_full [OF assms(1,2), of hdr it jk] r(1,2) dat
    by (intro exI [of _ "report_full ?E l"] exI [of _ l'']) (simp add: isFull_def log_data_def)
qed

theorem logString_full_refused_witness:
  "\<exists>l'. logString demo_env demo_log (replicate 600 65) = Some (NO_RESOURCES, l') \<and> isFull l'"
  using logString_full_refused [where start = 0 and pages = 8 and k = 1 and l = demo_log and hs = 40 and he = 40 and hdr = "[]" and it = demo_itoa and jk = 0
      and s = "replicate 600 65", folded demo_env_def,
      OF demo_ready(1)]
  by (fastforce simp: demo_ready demo_meta)

text \<open>
  C5 \<open>clear\<close> makes an empty log out of any flash contents, provided the flash has room for the
  header, metadata and journal pages and a page of data.
\<close>

theorem clear_makes_empty_log:
  assumes "nrf52_good start pages (256 * k) (fc_flash (cache l))"
    and "coherent (nrf52_image (fc_flash (cache l))) 0 (pages * (256 * k)) (cache l)"
    and "fc_blockSize (cache l) = 256"
    and "meta_address (nrf_env hdr it jk) l + 5 * (256 * k) < pages * (256 * k) - 256 * k - 4"
    and "(pages * (256 * k) - 256 * k - 4 - (meta_address (nrf_env hdr it jk) l + 5 * (256 * k))) div 256
      < 256 * k div 2"
  shows "let l' = clear (nrf_env hdr it jk) l full; sa = meta_address (nrf_env hdr it jk) l in
    nrf_ready start pages k l' (sa + 40) (sa + 40) \<and> log_data nrf52_image l' = [] \<and>
    startAddress l' = sa \<and> \<not> isFull l' \<and>
    has (status l') LOG_SERIAL_MIRROR = has (status l) LOG_SERIAL_MIRROR"
proof -
  have "nlog.cache_ok start pages k (cache l)" using assms(1-3) by (simp add: nrf_cache_ok)
  from nlog.clear_spec [OF this assms(4,5)] show ?thesis
    by (simp add: Let_def log_data_def isFull_def has_or has_mask has_mask_same has_one)
qed

theorem clear_makes_empty_log_witness: "log_data nrf52_image demo_log = []"
  using clear_makes_empty_log [where start = 0 and pages = 8 and k = 1
      and l = "mlog_new demo_dev [] []" and hdr = "[]" and it = demo_itoa and jk = 0 and full = False, folded demo_env_def]
    demo_new_ok [unfolded nrf_cache_ok]
  by (simp add: demo_log_def demo_meta Let_def)

text \<open>
  C2 A session of appended strings and power cycles in any order: the log holds exactly the
  cleaned strings, in order, each whole, whatever was restarted in between.
\<close>

theorem log_session:
  assumes "nrf_ready start pages k l hs he" and "startAddress l = meta_address (nrf_env hdr it jk) l"
    and "255 \<notin> set (appended evs)" and "dataEnd l + length (appended evs) \<le> logEnd l"
  shows "\<exists>l'. log_run (nrf_env hdr it jk) l evs = Some l' \<and> nrf_ready start pages k l' hs he \<and>
    log_data nrf52_image l' = log_data nrf52_image l @ appended_clean evs"
  using nlog.log_run_spec [OF assms] by blast

theorem log_session_witness:
  "\<exists>l'. log_run demo_env demo_log [Append [97], Power_cycle [] [], Append [98]] = Some l' \<and>
    log_data nrf52_image l'
      = log_data nrf52_image demo_log @ cleaned [97] False @ cleaned [98] False"
  using log_session [where start = 0 and pages = 8 and k = 1 and l = demo_log and hs = 40 and he = 40 and hdr = "[]" and it = demo_itoa and jk = 0
      and evs = "[Append [97], Power_cycle [] [], Append [98]]", folded demo_env_def, OF demo_ready(1)]
  by (auto simp: demo_ready demo_meta)

text \<open>
  \<open>endRow\<close> with new headings: the heading line and the row are appended to the data, the row is
  closed, and after a restart the log has the same keys in the same order.
\<close>

theorem endRow_saves_row:
  assumes "nrf_ready start pages k l hs he" and "startAddress l = meta_address (nrf_env hdr it jk) l"
    and "(if headingStart l = 0 then startAddress l + 40 else headingStart l) = hs"
    and "headingLength l = he - hs"
    and "has (status l) LOG_ROW_STARTED" and "\<not> isFull l" and "timeStampFormat l = TS_None"
    and "headingsChanged l" and "\<exists>c \<in> set (rowData l). col_value c \<noteq> []"
    and "\<forall>c \<in> set (rowData l). plain_key (col_key c) \<and> 255 \<notin> set (col_value c)"
    and "h = join_fields (map col_key (rowData l))" and "r = join_fields (map col_value (rowData l))"
    and "he + length h < journalStart l" and "dataEnd l + length h + length r \<le> logEnd l"
  shows "\<exists>l' l''. endRow (nrf_env hdr it jk) now l = Some (OK, l') \<and>
    log_data nrf52_image l' = log_data nrf52_image l @ cleaned h False @ cleaned r False \<and>
    \<not> has (status l') LOG_ROW_STARTED \<and> \<not> headingsChanged l' \<and>
    init (nrf_env hdr it jk) (mlog_new (fc_flash (cache l')) heap meta) = Some l'' \<and>
    log_data nrf52_image l'' = log_data nrf52_image l' \<and>
    map col_key (rowData l'') = map col_key (rowData l)"
proof -
  let ?E = "nrf_env hdr it jk"
  obtain l' where l': "endRow ?E now l = Some (OK, l')" "nrf_ready start pages k l' he (he + length h)"
    "\<not> has (status l') LOG_ROW_STARTED" "\<not> headingsChanged l'" "startAddress l' = startAddress l"
    "log_data nrf52_image l' = log_data nrf52_image l @ cleaned h False @ cleaned r False"
    "rdm (nrf52_image (fc_flash (cache l'))) he (length h) = h"
    using nlog.endRow_spec [OF assms(1,3-5) assms(6) [unfolded isFull_def] assms(7-14)] by blast
  note g = nlog.cache_okD(1) [OF nlog.readyD(1) [OF l'(2)]] and I = nlog.readyD(4) [OF l'(2)]
  have "meta_address ?E (mlog_new (fc_flash (cache l')) heap meta) = startAddress l'"
    unfolding l'(5) assms(2) using g nlog.cache_okD(1) [OF nlog.readyD(1) [OF assms(1)]]
    by (intro nlog.meta_address_good) (simp_all add: mlog_new_def fscache_new_def)
  moreover have "h \<noteq> []" by (simp add: assms(11))
  ultimately obtain l'' where l'': "init ?E (mlog_new (fc_flash (cache l')) heap meta) = Some l''"
    "nrf52_image (fc_flash (cache l'')) = nrf52_image (fc_flash (cache l'))"
    "dataStart l'' = dataStart l'" "dataEnd l'' = dataEnd l'"
    "rowData l'' = parse_headings (rdm (nrf52_image (fc_flash (cache l'))) he (length h))"
    using nlog.restart_spec [OF g, of hdr it jk heap meta] I by fastforce
  have "rowData l \<noteq> []" using assms(9) by auto
  then have "map col_key (rowData l'') = map col_key (rowData l)"
    using parse_headings_join [of "map col_key (rowData l)"] assms(10) l''(5) l'(7)
    by (simp add: assms(11) comp_def)
  then show ?thesis using l' l'' by (intro exI [of _ l'] exI [of _ l'']) (simp add: log_data_def)
qed

definition demo_row :: "nrf52 mlog" where
  "demo_row = demo_log\<lparr>rowData := [\<lparr>col_key = [97], col_value = [49]\<rparr>], headingsChanged := True,
     status := LOG_INITIALIZED OR LOG_ROW_STARTED, timeStampFormat := TS_None\<rparr>"

lemma demo_row_facts:
  "nrf_ready 0 8 1 demo_row 40 40" "startAddress demo_row = 0" "headingStart demo_row = 0"
  "headingLength demo_row = 0" "has (status demo_row) LOG_ROW_STARTED" "\<not> isFull demo_row"
  "timeStampFormat demo_row = TS_None" "headingsChanged demo_row"
  "rowData demo_row = [\<lparr>col_key = [97], col_value = [49]\<rparr>]" "journalStart demo_row = 256"
  "dataEnd demo_row = 1280" "logEnd demo_row = 1788"
  using demo_ready nlog.readyD(3) [OF demo_ready(1)]
  by (simp_all add: demo_row_def log_ready_def has_def isFull_def)

theorem endRow_saves_row_witness:
  "\<exists>l' l''. endRow demo_env 5 demo_row = Some (OK, l') \<and>
    init demo_env (mlog_new (fc_flash (cache l')) [] []) = Some l'' \<and> map col_key (rowData l'') = [[97]]"
proof -
  have "startAddress demo_row = meta_address demo_env demo_row"
    "(if headingStart demo_row = 0 then startAddress demo_row + 40 else headingStart demo_row) = 40"
    "headingLength demo_row = 40 - 40" "\<exists>c \<in> set (rowData demo_row). col_value c \<noteq> []"
    "\<forall>c \<in> set (rowData demo_row). plain_key (col_key c) \<and> 255 \<notin> set (col_value c)"
    "40 + length (join_fields (map col_key (rowData demo_row))) < journalStart demo_row"
    "dataEnd demo_row + length (join_fields (map col_key (rowData demo_row)))
      + length (join_fields (map col_value (rowData demo_row))) \<le> logEnd demo_row"
    by (simp_all add: demo_row_facts demo_meta plain_key_def)
  from endRow_saves_row [where hdr = "[]" and it = demo_itoa and jk = 0 and now = 5
      and heap = "[]" and meta = "[]", folded demo_env_def,
      OF demo_row_facts(1) this(1-3) demo_row_facts(5-8) this(4,5) refl refl this(6,7)]
  show ?thesis by (simp only: demo_row_facts(9)) auto
qed

text \<open>
  A second change of the headings is not saved: \<open>headingLength\<close> stays 0 after the first line was
  written, so the old line is not zeroed and the longer one, written over it, would have to set
  cleared bits. The flash keeps the old line, and a restart has lost the new column.
\<close>

theorem second_headings_lost:
  assumes "nrf_ready start pages k l hs he" and "startAddress l = meta_address (nrf_env hdr it jk) l"
    and "headingStart l = hs" and "headingLength l = 0" and "ks \<noteq> []" and "\<forall>x \<in> set ks. plain_key x"
    and "he = hs + length (join_fields ks)"
    and "rdm (nrf52_image (fc_flash (cache l))) hs (length (join_fields ks)) = join_fields ks"
    and "hs + length (join_fields (ks @ [key])) < pages * (256 * k)"
  shows "\<exists>l''. init (nrf_env hdr it jk)
      (mlog_new (fc_flash (cache (write_headings (nrf_env hdr it jk) l (join_fields (ks @ [key]))))) heap meta)
      = Some l'' \<and> map col_key (rowData l'') = ks"
proof -
  let ?E = "nrf_env hdr it jk" and ?h = "join_fields (ks @ [key])"
  obtain p where p: "join_fields ks = p @ [10]" "?h = p @ 44 # key @ [10]"
    using join_fields_snoc [OF assms(5)] by blast
  have "nrf52_image (fc_flash (cache l)) (hs + length p)
      = rdm (nrf52_image (fc_flash (cache l))) hs (length (join_fields ks)) ! length p"
    by (rule nth_rdm [symmetric]) (simp add: p(1))
  also have "\<dots> = 10" unfolding assms(8) by (simp add: p(1))
  finally have "nrf52_image (fc_flash (cache l)) (hs + length p) = 10" .
  moreover have "\<not> fits 10 (44 :: u8)" by (simp add: fits_def)
  ultimately have nofit: "\<not> fits (nrf52_image (fc_flash (cache l)) (hs + length p)) (?h ! length p)"
    by (simp add: p(2))
  have len: "length p < length ?h" by (simp add: p(2))
  obtain c where c: "write_headings ?E l ?h = l\<lparr>cache := c\<rparr>"
      "nrf52_image (fc_flash c) = nrf52_image (fc_flash (cache l))" "nrf52_good start pages (256 * k) (fc_flash c)"
    using nlog.write_headings_stuck [OF assms(1,3,4) len nofit assms(9)] by blast
  have "meta_address ?E (mlog_new (fc_flash c) heap meta) = startAddress l"
    unfolding assms(2) using c(3) nlog.cache_okD(1) [OF nlog.readyD(1) [OF assms(1)]]
    by (intro nlog.meta_address_good) (simp_all add: mlog_new_def fscache_new_def)
  moreover have "hs < he" using assms(7) p(1) by simp
  ultimately obtain l'' where "init ?E (mlog_new (fc_flash c) heap meta) = Some l''"
    "rowData l'' = parse_headings (rdm (nrf52_image (fc_flash (cache l))) hs (he - hs))"
    using nlog.restart_spec [OF c(3), of hdr it jk heap meta] nlog.readyD(4) [OF assms(1)] c(2) by fastforce
  then show ?thesis
    using parse_headings_join [OF assms(6,5)] c(1) assms(7,8) by (simp add: comp_def)
qed

theorem second_headings_lost_witness:
  "\<exists>l l''. rdm (nrf52_image (fc_flash (cache l))) 40 2 = join_fields [[97]] \<and>
    init demo_env (mlog_new (fc_flash (cache (write_headings demo_env l (join_fields ([[97]] @ [[98]]))))) [] [])
      = Some l'' \<and> map col_key (rowData l'') = [[97]]"
proof -
  have "(if headingStart demo_row = 0 then startAddress demo_row + 40 else headingStart demo_row) = 40"
    "headingLength demo_row = 40 - 40" "\<exists>c \<in> set (rowData demo_row). col_value c \<noteq> []"
    "\<forall>c \<in> set (rowData demo_row). plain_key (col_key c) \<and> 255 \<notin> set (col_value c)"
    "[97, 10] = join_fields (map col_key (rowData demo_row))"
    "[49, 10] = join_fields (map col_value (rowData demo_row))"
    "40 + length [97, 10 :: u8] < journalStart demo_row"
    "dataEnd demo_row + length [97, 10 :: u8] + length [49, 10 :: u8] \<le> logEnd demo_row"
    by (simp_all add: demo_row_facts demo_meta plain_key_def)
  from nlog.endRow_spec [where hdr = "[]" and it = demo_itoa and jk = 0 and now = 5, folded demo_env_def,
      OF demo_row_facts(1) this(1,2) demo_row_facts(5) demo_row_facts(6) [unfolded isFull_def]
      demo_row_facts(7,8) this(3-8)]
  obtain l where l: "nrf_ready 0 8 1 l 40 42" "startAddress l = 0" "headingLength l = 0" "headingStart l = 40"
    "rdm (nrf52_image (fc_flash (cache l))) 40 2 = [97, 10]"
    by (auto simp: demo_row_facts numeral_2_eq_2)
  have "startAddress l = meta_address demo_env l" "[[97]] \<noteq> ([] :: u8 list list)"
    "\<forall>x \<in> set [[97]]. plain_key x" "42 = 40 + length (join_fields [[97 :: u8]])"
    "rdm (nrf52_image (fc_flash (cache l))) 40 (length (join_fields [[97 :: u8]])) = join_fields [[97]]"
    "40 + length (join_fields ([[97]] @ [[98 :: u8]])) < 8 * (256 * 1)"
    using l(2) l(5) [unfolded numeral_2_eq_2] by (simp_all add: demo_meta plain_key_def)
  from second_headings_lost [where hdr = "[]" and it = demo_itoa and jk = 0, folded demo_env_def,
      OF l(1) this(1) l(4,3) this(2-6)] l(5)
  show ?thesis by (metis join_fields.simps(2) append_Cons append_Nil)
qed

end
