(* ===== verification/Ring.thy ===== *)
theory Ring
  imports MB_Prelude
begin

text \<open>
  Circular byte buffers: a list of \<open>sz\<close> cells with a tail and a head index, one cell always
  kept free. \<open>ring_list\<close> is the queue such a buffer stands for.
\<close>

definition ring_count :: "nat \<Rightarrow> nat \<Rightarrow> nat \<Rightarrow> nat" where
  "ring_count sz t h = (if t \<le> h then h - t else sz - t + h)"

definition ring_list :: "u8 list \<Rightarrow> nat \<Rightarrow> nat \<Rightarrow> nat \<Rightarrow> u8 list" where
  "ring_list buf sz t h = map (\<lambda>i. buf ! ((t + i) mod sz)) [0..<ring_count sz t h]"

definition ring_ok :: "u8 list \<Rightarrow> nat \<Rightarrow> nat \<Rightarrow> nat \<Rightarrow> bool" where
  "ring_ok buf sz t h \<longleftrightarrow> sz \<le> length buf \<and> t < sz \<and> h < sz"

lemma length_ring_list [simp]: "length (ring_list buf sz t h) = ring_count sz t h"
  by (simp add: ring_list_def)

lemma ring_count_lt: "t < sz \<Longrightarrow> h < sz \<Longrightarrow> ring_count sz t h < sz"
  by (auto simp: ring_count_def)

lemma ring_empty [simp]: "ring_list buf sz t t = []" "ring_count sz t t = 0"
  by (simp_all add: ring_list_def ring_count_def)

lemma ring_count_0: "t < sz \<Longrightarrow> h < sz \<Longrightarrow> ring_count sz t h = 0 \<longleftrightarrow> t = h"
  by (auto simp: ring_count_def)

lemma mod_step: "i < (sz :: nat) \<Longrightarrow> t < sz \<Longrightarrow> (t + i) mod sz = (if t + i < sz then t + i else t + i - sz)"
  by (cases "t + i < sz") (simp_all add: le_mod_geq)

lemma ring_end: "t < sz \<Longrightarrow> h < sz \<Longrightarrow> (t + ring_count sz t h) mod sz = h"
  using mod_step [of "ring_count sz t h" sz t] ring_count_lt [of t sz h] by (auto simp: ring_count_def)

lemma ring_full_iff:
  "t < sz \<Longrightarrow> h < sz \<Longrightarrow> (h + 1) mod sz = t \<longleftrightarrow> ring_count sz t h = sz - 1"
  by (auto simp: ring_count_def mod_Suc)

lemma ring_count_push:
  "t < sz \<Longrightarrow> h < sz \<Longrightarrow> (h + 1) mod sz \<noteq> t \<Longrightarrow>
    ring_count sz t ((h + 1) mod sz) = Suc (ring_count sz t h)"
  by (auto simp: ring_count_def mod_Suc split: if_splits)

lemma ring_index_ne: "t < sz \<Longrightarrow> h < sz \<Longrightarrow> i < ring_count sz t h \<Longrightarrow> (t + i) mod sz \<noteq> h"
  using mod_step [of i sz t] ring_count_lt [of t sz h] by (auto simp: ring_count_def split: if_splits)

lemma ring_push:
  assumes "ring_ok buf sz t h" and "(h + 1) mod sz \<noteq> t"
  shows "ring_list (buf[h := c]) sz t ((h + 1) mod sz) = ring_list buf sz t h @ [c]"
proof -
  have b: "t < sz" "h < sz" "h < length buf" using assms(1) by (auto simp: ring_ok_def)
  have "map (\<lambda>i. buf[h := c] ! ((t + i) mod sz)) [0..<ring_count sz t h] = ring_list buf sz t h"
    using ring_index_ne [OF b(1,2), THEN not_sym] by (simp add: ring_list_def)
  then show ?thesis
    unfolding ring_list_def ring_count_push [OF b(1,2) assms(2)]
    using b(3) ring_end [OF b(1,2)] by simp
qed

lemma ring_count_pop:
  "t < sz \<Longrightarrow> h < sz \<Longrightarrow> k \<le> ring_count sz t h \<Longrightarrow>
    ring_count sz ((t + k) mod sz) h = ring_count sz t h - k"
  using mod_step [of k sz t] ring_count_lt [of t sz h] by (auto simp: ring_count_def split: if_splits)

lemma ring_drop:
  assumes "ring_ok buf sz t h" and "k \<le> ring_count sz t h"
  shows "ring_list buf sz ((t + k) mod sz) h = drop k (ring_list buf sz t h)"
proof -
  have b: "t < sz" "h < sz" using assms(1) by (auto simp: ring_ok_def)
  show ?thesis
    by (rule nth_equalityI)
       (use ring_count_pop [OF b assms(2)] in \<open>auto simp: ring_list_def mod_simps ac_simps\<close>)
qed

lemma ring_nth: "i < ring_count sz t h \<Longrightarrow> ring_list buf sz t h ! i = buf ! ((t + i) mod sz)"
  by (simp add: ring_list_def)

lemma ring_pop:
  assumes "ring_ok buf sz t h" and "t \<noteq> h"
  shows "ring_list buf sz t h = buf ! t # ring_list buf sz ((t + 1) mod sz) h"
proof -
  have b: "t < sz" "h < sz" using assms(1) by (auto simp: ring_ok_def)
  have pos: "0 < ring_count sz t h" using ring_count_0 [OF b] assms(2) by simp
  then have "ring_list buf sz t h \<noteq> []" by (metis length_ring_list list.size(3) less_irrefl)
  then have "ring_list buf sz t h = ring_list buf sz t h ! 0 # drop 1 (ring_list buf sz t h)"
    by (metis One_nat_def drop_Suc drop_0 hd_conv_nth list.collapse)
  then show ?thesis
    using ring_drop [OF assms(1), of 1] ring_nth [OF pos, of buf] pos b(1) by simp
qed

lemma ring_take:
  assumes "ring_ok buf sz t h" and "k \<le> ring_count sz t h"
  shows "ring_list buf sz t ((t + k) mod sz) = take k (ring_list buf sz t h)"
proof -
  have b: "t < sz" "h < sz" "k < sz"
    using assms ring_count_lt [of t sz h] by (auto simp: ring_ok_def)
  have "ring_count sz t ((t + k) mod sz) = k"
    using mod_step [OF b(3,1)] b by (auto simp: ring_count_def)
  then show ?thesis using assms(2) by (simp add: ring_list_def take_map)
qed

end
