(* ===== verification/Fifo.thy ===== *)
theory Fifo
  imports Main
begin

text \<open>
  The contract of a bounded first-in first-out queue: putting an item is refused exactly when the
  queue holds all it can, getting takes the oldest item. \<open>fifo_order\<close> is what follows for any
  sequence of puts and gets. The receive buffer of \<open>UART\<close> and the packet queue of \<open>Radio\<close> are
  instances.
\<close>

datatype 'a fifo_op = Put 'a | Get

text \<open>Running operations: the bytes accepted, the bytes got, the last state.\<close>

fun fifo_run ::
    "('a \<Rightarrow> 's \<Rightarrow> bool \<times> 's) \<Rightarrow> ('s \<Rightarrow> 'a option \<times> 's) \<Rightarrow> 'a fifo_op list \<Rightarrow> 's
      \<Rightarrow> 'a list \<times> 'a list \<times> 's" where
  "fifo_run enq deq [] s = ([], [], s)"
| "fifo_run enq deq (Put b # ops) s =
     (case enq b s of (r, s1) \<Rightarrow> case fifo_run enq deq ops s1 of (ins, outs, s2) \<Rightarrow>
        ((if r then b # ins else ins), outs, s2))"
| "fifo_run enq deq (Get # ops) s =
     (case deq s of (g, s1) \<Rightarrow> case fifo_run enq deq ops s1 of (ins, outs, s2) \<Rightarrow>
        (ins, (case g of None \<Rightarrow> outs | Some b \<Rightarrow> b # outs), s2))"

locale bounded_fifo =
  fixes inv :: "'s \<Rightarrow> bool" and content :: "'s \<Rightarrow> 'a list" and cap :: "'s \<Rightarrow> nat"
    and enq :: "'a \<Rightarrow> 's \<Rightarrow> bool \<times> 's" and deq :: "'s \<Rightarrow> 'a option \<times> 's"
  assumes enq_law: "inv s \<Longrightarrow> enq b s = (r, s') \<Longrightarrow>
      inv s' \<and> cap s' = cap s \<and> r = (length (content s) < cap s) \<and>
      content s' = (if r then content s @ [b] else content s)"
    and deq_law: "inv s \<Longrightarrow> deq s = (g, s') \<Longrightarrow>
      inv s' \<and> cap s' = cap s \<and>
      g = (case content s of [] \<Rightarrow> None | x # xs \<Rightarrow> Some x) \<and> content s' = tl (content s)"
    and cap_law: "inv s \<Longrightarrow> length (content s) \<le> cap s"
begin

theorem fifo_order:
  "inv s \<Longrightarrow> fifo_run enq deq ops s = (ins, outs, s') \<Longrightarrow>
    inv s' \<and> content s @ ins = outs @ content s' \<and> length (content s') \<le> cap s"
proof (induction ops arbitrary: s ins outs s')
  case Nil
  then show ?case by (simp add: cap_law)
next
  case (Cons oper ops)
  show ?case
  proof (cases oper)
    case (Put b)
    obtain r s1 where p: "enq b s = (r, s1)" by fastforce
    obtain i o1 s2 where q: "fifo_run enq deq ops s1 = (i, o1, s2)" using prod_cases3 by blast
    note L = enq_law [OF Cons(2) p]
    then have "inv s2 \<and> content s1 @ i = o1 @ content s2 \<and> length (content s2) \<le> cap s1"
      using Cons(1) [OF _ q] by blast
    then show ?thesis using Cons(3) Put p q L by (cases r) simp_all
  next
    case Get
    obtain g s1 where p: "deq s = (g, s1)" by fastforce
    obtain i o1 s2 where q: "fifo_run enq deq ops s1 = (i, o1, s2)" using prod_cases3 by blast
    note L = deq_law [OF Cons(2) p]
    then have "inv s2 \<and> content s1 @ i = o1 @ content s2 \<and> length (content s2) \<le> cap s1"
      using Cons(1) [OF _ q] by blast
    then show ?thesis using Cons(3) Get p q L by (cases "content s") auto
  qed
qed

end

end
