(* ===== verification/UART.thy ===== *)
theory UART
  imports Ring Fifo
begin

text \<open>
  \<open>MicroBitUARTService\<close> (\<open>source/bluetooth/MicroBitUARTService.cpp\<close>): a serial port over two
  Bluetooth characteristics. Received bytes go through a circular buffer that the BLE write
  callback fills and user fibres drain; bytes to send go through a second one, from which blocks
  of at most 20 bytes are indicated, one block at a time, the next after the confirmation.

  The BLE stack below the service is outside the repository: the connection and subscription
  state are fields of the state, the values handed to it are collected in \<open>indicated\<close>, and the
  events raised in \<open>events\<close>. Where the source blocks a fibre, the model takes the state in which
  the fibre runs again as a function of the state in which it went to sleep.
\<close>

datatype serial_mode = ASYNC | SYNC_SPINWAIT | SYNC_SLEEP

datatype uart_event = DELIM_MATCH | HEAD_MATCH | RX_FULL | TX_EMPTY

definition MICROBIT_UART_S_ATTRSIZE :: nat where
  "MICROBIT_UART_S_ATTRSIZE = 20"

record uart =
  rxBuffer :: "u8 list"
  rxBufferHead :: nat
  rxBufferTail :: nat
  rxBufferSize :: nat
  delimeters :: "u8 list"
  rxBuffHeadMatch :: int
  txBuffer :: "u8 list"
  txBufferHead :: nat
  txBufferTail :: nat
  txBufferSize :: nat
  txValue :: "u8 list"
  txValueSize :: nat
  waitingForEmpty :: bool
  connected :: bool
  indicating :: bool
  indicated :: "u8 list list"
  events :: "uart_event list"

text \<open>
  The constructor. The sizes are \<open>uint8_t\<close>: adding one wraps. \<open>rxBuffHeadMatch\<close> is not
  initialised.
\<close>

definition uart_new :: "nat \<Rightarrow> nat \<Rightarrow> int \<Rightarrow> uart" where
  "uart_new rxSize txSize garbage =
     (let rs = (rxSize + 1) mod 256; ts = (txSize + 1) mod 256 in
      \<lparr>rxBuffer = replicate rs 0, rxBufferHead = 0, rxBufferTail = 0, rxBufferSize = rs,
       delimeters = [], rxBuffHeadMatch = garbage, txBuffer = replicate ts 0, txBufferHead = 0,
       txBufferTail = 0, txBufferSize = ts, txValue = replicate MICROBIT_UART_S_ATTRSIZE 0,
       txValueSize = 0, waitingForEmpty = False, connected = False, indicating = False,
       indicated = [], events = []\<rparr>)"

definition raise :: "uart_event \<Rightarrow> uart \<Rightarrow> uart" where
  "raise ev s = s\<lparr>events := events s @ [ev]\<rparr>"

subsection \<open>Receiving\<close>

definition isReadable :: "uart \<Rightarrow> bool" where
  "isReadable s \<longleftrightarrow> rxBufferTail s \<noteq> rxBufferHead s"

definition rxBufferedSize :: "uart \<Rightarrow> nat" where
  "rxBufferedSize s =
     (if rxBufferTail s > rxBufferHead s then (rxBufferSize s - rxBufferTail s) + rxBufferHead s
      else rxBufferHead s - rxBufferTail s)"

text \<open>One byte of \<open>onDataWritten\<close>: \<open>True\<close> when it was stored.\<close>

definition rx_byte :: "u8 \<Rightarrow> uart \<Rightarrow> bool \<times> uart" where
  "rx_byte c s =
     (let newHead = (rxBufferHead s + 1) mod rxBufferSize s in
      if newHead \<noteq> rxBufferTail s then
        let s1 = s\<lparr>events := events s @ replicate (length (filter (\<lambda>d. d = c) (delimeters s))) DELIM_MATCH\<rparr>;
            s2 = s1\<lparr>rxBuffer := (rxBuffer s1)[rxBufferHead s1 := c], rxBufferHead := newHead\<rparr>
        in (True,
            if int (rxBufferHead s2) = rxBuffHeadMatch s2
            then raise HEAD_MATCH (s2\<lparr>rxBuffHeadMatch := - 1\<rparr>) else s2)
      else (False, raise RX_FULL s))"

definition onDataWritten :: "bool \<Rightarrow> u8 list \<Rightarrow> uart \<Rightarrow> uart" where
  "onDataWritten isRxHandle data s =
     (if isRxHandle then fold (\<lambda>c s. snd (rx_byte c s)) data s else s)"

definition eventOn :: "u8 list \<Rightarrow> serial_mode \<Rightarrow> (uart \<Rightarrow> uart) \<Rightarrow> uart \<Rightarrow> code \<times> uart" where
  "eventOn ds mode wake s =
     (if mode = SYNC_SPINWAIT then (INVALID_PARAMETER, s)
      else let s1 = s\<lparr>delimeters := ds\<rparr> in (OK, if mode = SYNC_SLEEP then wake s1 else s1))"

definition eventAfter :: "nat \<Rightarrow> serial_mode \<Rightarrow> (uart \<Rightarrow> uart) \<Rightarrow> uart \<Rightarrow> code \<times> uart" where
  "eventAfter len mode wake s =
     (if mode = SYNC_SPINWAIT then (INVALID_PARAMETER, s)
      else let s1 = s\<lparr>rxBuffHeadMatch := int ((rxBufferHead s + len) mod rxBufferSize s)\<rparr>
           in (OK, if mode = SYNC_SLEEP then wake s1 else s1))"

definition getc :: "serial_mode \<Rightarrow> (uart \<Rightarrow> uart) \<Rightarrow> uart \<Rightarrow> (code + u8) \<times> uart" where
  "getc mode wake s =
     (if mode = SYNC_SPINWAIT then (Inl INVALID_PARAMETER, s)
      else if mode = ASYNC \<and> \<not> isReadable s then (Inl NO_DATA, s)
      else
        let s1 = (if mode = SYNC_SLEEP \<and> \<not> isReadable s then snd (eventAfter 1 mode wake s) else s)
        in (Inr (rxBuffer s1 ! rxBufferTail s1),
            s1\<lparr>rxBufferTail := (rxBufferTail s1 + 1) mod rxBufferSize s1\<rparr>))"

text \<open>The two loops of \<open>read\<close>.\<close>

fun read_async :: "nat \<Rightarrow> uart \<Rightarrow> u8 list \<times> uart" where
  "read_async 0 s = ([], s)"
| "read_async (Suc n) s =
     (case getc ASYNC id s of
        (Inl e, s') \<Rightarrow> ([], s')
      | (Inr c, s') \<Rightarrow> (case read_async n s' of (cs, s'') \<Rightarrow> (c # cs, s'')))"

fun read_sync :: "nat \<Rightarrow> (uart \<Rightarrow> uart) \<Rightarrow> uart \<Rightarrow> u8 list \<times> uart" where
  "read_sync 0 wake s = ([], s)"
| "read_sync (Suc n) wake s =
     (case getc SYNC_SLEEP wake s of
        (Inl e, s') \<Rightarrow> ([], s')
      | (Inr c, s') \<Rightarrow> (case read_sync n wake s' of (cs, s'') \<Rightarrow> (c # cs, s'')))"

definition read :: "nat \<Rightarrow> serial_mode \<Rightarrow> (uart \<Rightarrow> uart) \<Rightarrow> uart \<Rightarrow> (code + u8 list) \<times> uart" where
  "read len mode wake s =
     (case mode of
        SYNC_SPINWAIT \<Rightarrow> (Inl INVALID_PARAMETER, s)
      | ASYNC \<Rightarrow> (case read_async len s of (cs, s') \<Rightarrow> (Inr cs, s'))
      | SYNC_SLEEP \<Rightarrow>
          (let s1 = (if len > rxBufferedSize s
                     then snd (eventAfter (len - rxBufferedSize s) mode wake s) else s)
           in case read_sync len wake s1 of (cs, s') \<Rightarrow> (Inr cs, s')))"

text \<open>The variant that returns a string: it ends at the first NUL.\<close>

definition read_string :: "nat \<Rightarrow> serial_mode \<Rightarrow> (uart \<Rightarrow> uart) \<Rightarrow> uart \<Rightarrow> u8 list \<times> uart" where
  "read_string len mode wake s =
     (case read len mode wake s of
        (Inl e, s') \<Rightarrow> ([], s')
      | (Inr cs, s') \<Rightarrow> (takeWhile (\<lambda>b. b \<noteq> 0) cs, s'))"

text \<open>The scan of \<open>readUntil\<close> from \<open>localTail\<close>; it ends when it meets the head.\<close>

partial_function (option) scan_delim :: "uart \<Rightarrow> u8 list \<Rightarrow> nat \<Rightarrow> nat option option" where
  "scan_delim s ds localTail =
     (if localTail = rxBufferHead s then Some None
      else if rxBuffer s ! localTail \<in> set ds then Some (Some localTail)
      else scan_delim s ds ((localTail + 1) mod rxBufferSize s))"

partial_function (option) circularCopy ::
    "u8 list \<Rightarrow> nat \<Rightarrow> u8 list \<Rightarrow> nat \<Rightarrow> nat \<Rightarrow> u8 list option" where
  "circularCopy circ bsize linear tailPosition headPosition =
     (if tailPosition \<noteq> headPosition
      then circularCopy circ bsize (linear @ [circ ! tailPosition]) ((tailPosition + 1) mod bsize) headPosition
      else Some linear)"

text \<open>What \<open>readUntil\<close> does once it has a position; a negative one means nothing was found.\<close>

definition take_until :: "nat \<Rightarrow> int \<Rightarrow> uart \<Rightarrow> (u8 list \<times> uart) option" where
  "take_until preservedTail foundIndex s =
     (if foundIndex \<ge> 0 then
        let f = nat foundIndex;
            n = (if preservedTail > f then (rxBufferSize s - preservedTail) + f else f - preservedTail)
        in map_option
             (\<lambda>bs. (bs, s\<lparr>rxBufferTail := (rxBufferTail s + n + 1) mod rxBufferSize s\<rparr>))
             (circularCopy (rxBuffer s) (rxBufferSize s) [] preservedTail f)
      else Some ([], s))"

text \<open>
  In the refused mode the source returns the error code from a function whose result is a string:
  the string class, which is outside the repository, makes a string of the number.
\<close>

definition readUntil ::
    "u8 list \<Rightarrow> serial_mode \<Rightarrow> (uart \<Rightarrow> uart) \<Rightarrow> uart \<Rightarrow> ((code + u8 list) \<times> uart) option" where
  "readUntil ds mode wake s =
     (if mode = SYNC_SPINWAIT then Some (Inl INVALID_PARAMETER, s)
      else case scan_delim s ds (rxBufferTail s) of
             None \<Rightarrow> None
           | Some (Some f) \<Rightarrow> map_option (map_prod Inr id) (take_until (rxBufferTail s) (int f) s)
           | Some None \<Rightarrow>
               (if mode = SYNC_SLEEP then
                  let s1 = (snd (eventOn ds mode wake s))\<lparr>delimeters := []\<rparr>
                  in map_option (map_prod Inr id)
                       (take_until (rxBufferTail s) (int (rxBufferHead s1) - 1) s1)
                else Some (Inr [], s)))"

subsection \<open>Sending\<close>

definition txBufferedSize :: "uart \<Rightarrow> nat" where
  "txBufferedSize s =
     (if txBufferTail s > txBufferHead s then (txBufferSize s - txBufferTail s) + txBufferHead s
      else txBufferHead s - txBufferTail s)"

function fill_value :: "uart \<Rightarrow> nat \<Rightarrow> uart" where
  "fill_value s txBufferNext =
     (if txValueSize s < MICROBIT_UART_S_ATTRSIZE \<and> txBufferNext \<noteq> txBufferHead s
      then fill_value
             (s\<lparr>txValue := (txValue s)[txValueSize s := txBuffer s ! txBufferNext],
                txValueSize := txValueSize s + 1\<rparr>)
             ((txBufferNext + 1) mod txBufferSize s)
      else s)"
  by pat_completeness auto
termination
  by (relation "measure (\<lambda>(s, n). MICROBIT_UART_S_ATTRSIZE - txValueSize s)") auto

declare fill_value.simps [simp del]

definition sendNext :: "uart \<Rightarrow> bool \<times> uart" where
  "sendNext s =
     (if txValueSize s \<noteq> 0 \<or> txBufferTail s = txBufferHead s then (False, s)
      else if \<not> connected s \<or> \<not> indicating s then (False, s)
      else let s1 = fill_value s (txBufferTail s)
           in (True, s1\<lparr>indicated := indicated s1 @ [take (txValueSize s1) (txValue s1)]\<rparr>))"

text \<open>The inner loop of \<open>send\<close>: as many bytes as fit.\<close>

fun fill_tx :: "uart \<Rightarrow> u8 list \<Rightarrow> nat \<times> uart" where
  "fill_tx s [] = (0, s)"
| "fill_tx s (b # bs) =
     (let nextHead = (txBufferHead s + 1) mod txBufferSize s in
      if nextHead = txBufferTail s then (0, s)
      else case fill_tx (s\<lparr>txBuffer := (txBuffer s)[txBufferHead s := b], txBufferHead := nextHead\<rparr>) bs of
             (n, s') \<Rightarrow> (Suc n, s'))"

text \<open>
  The outer loop in the sleeping mode: the \<open>i\<close>-th time the fibre sleeps it runs again in the
  state \<open>wake i\<close> of the state it slept in. It may never leave the loop: \<open>None\<close>.
\<close>

partial_function (option) send_sync ::
    "(nat \<Rightarrow> uart \<Rightarrow> uart) \<Rightarrow> nat \<Rightarrow> uart \<Rightarrow> u8 list \<Rightarrow> nat \<Rightarrow> (nat \<times> uart) option" where
  "send_sync wake i s buf bytesWritten =
     (if connected s \<and> indicating s then
        case fill_tx s (drop bytesWritten buf) of
          (n, s1) \<Rightarrow>
            let s2 = wake i (snd (sendNext (s1\<lparr>waitingForEmpty := True\<rparr>)));
                s3 = s2\<lparr>waitingForEmpty := False\<rparr>
            in if bytesWritten + n = length buf \<and> txBufferTail s3 = txBufferHead s3
               then Some (bytesWritten + n, s3)
               else send_sync wake (i + 1) s3 buf (bytesWritten + n)
      else Some (bytesWritten, s))"

definition send :: "(nat \<Rightarrow> uart \<Rightarrow> uart) \<Rightarrow> u8 list \<Rightarrow> serial_mode \<Rightarrow> uart \<Rightarrow> ((code + nat) \<times> uart) option" where
  "send wake buf mode s =
     (if length buf < 1 \<or> mode = SYNC_SPINWAIT then Some (Inl INVALID_PARAMETER, s)
      else if \<not> connected s \<or> \<not> indicating s then Some (Inl NOT_SUPPORTED, s)
      else if mode = SYNC_SLEEP
           then map_option (\<lambda>(n, s'). (Inr n, s')) (send_sync wake 0 s buf 0)
           else case fill_tx s buf of (n, s1) \<Rightarrow> Some (Inr n, snd (sendNext s1)))"

definition putc :: "(nat \<Rightarrow> uart \<Rightarrow> uart) \<Rightarrow> u8 \<Rightarrow> serial_mode \<Rightarrow> uart \<Rightarrow> ((code + nat) \<times> uart) option" where
  "putc wake c mode s = send wake [c] mode s"

definition onConfirmation :: "bool \<Rightarrow> uart \<Rightarrow> uart" where
  "onConfirmation isTxHandle s =
     (if isTxHandle then
        let s1 = s\<lparr>txBufferTail := (txBufferTail s + txValueSize s) mod txBufferSize s, txValueSize := 0\<rparr>;
            s2 = raise TX_EMPTY s1
        in (if waitingForEmpty s then s2 else snd (sendNext s2))
      else s)"

definition onDisconnect :: "uart \<Rightarrow> uart" where
  "onDisconnect s =
     (let s1 = s\<lparr>txValueSize := 0, txBufferTail := 0, txBufferHead := 0\<rparr>
      in if waitingForEmpty s1 then raise TX_EMPTY s1 else s1)"

subsection \<open>The receive buffer is a queue\<close>

definition rx_ok :: "uart \<Rightarrow> bool" where
  "rx_ok s \<longleftrightarrow> ring_ok (rxBuffer s) (rxBufferSize s) (rxBufferTail s) (rxBufferHead s)"

definition rx_content :: "uart \<Rightarrow> u8 list" where
  "rx_content s = ring_list (rxBuffer s) (rxBufferSize s) (rxBufferTail s) (rxBufferHead s)"

definition uart_get :: "uart \<Rightarrow> u8 option \<times> uart" where
  "uart_get s = (case getc ASYNC id s of (Inl e, s') \<Rightarrow> (None, s') | (Inr c, s') \<Rightarrow> (Some c, s'))"

lemma rx_okD: "rx_ok s \<Longrightarrow> rxBufferTail s < rxBufferSize s \<and> rxBufferHead s < rxBufferSize s \<and> 0 < rxBufferSize s"
  by (auto simp: rx_ok_def ring_ok_def)

lemma rxBufferedSize_content: "rxBufferedSize s = length (rx_content s)"
  by (auto simp: rxBufferedSize_def rx_content_def ring_count_def)

lemma isReadable_content: "rx_ok s \<Longrightarrow> isReadable s \<longleftrightarrow> rx_content s \<noteq> []"
proof -
  assume ok: "rx_ok s"
  have "ring_count (rxBufferSize s) (rxBufferTail s) (rxBufferHead s) = 0 \<longleftrightarrow> rxBufferTail s = rxBufferHead s"
    using rx_okD [OF ok] ring_count_0 by metis
  then have "rx_content s = [] \<longleftrightarrow> rxBufferTail s = rxBufferHead s"
    unfolding rx_content_def length_0_conv [symmetric] length_ring_list .
  then show ?thesis by (auto simp: isReadable_def)
qed

lemma rx_byte_spec:
  assumes ok: "rx_ok s" and r: "rx_byte c s = (r, s')"
  shows "rx_ok s' \<and> rxBufferSize s' = rxBufferSize s \<and>
    r = (length (rx_content s) < rxBufferSize s - 1) \<and>
    rx_content s' = (if r then rx_content s @ [c] else rx_content s) \<and>
    rxBufferTail s' = rxBufferTail s \<and> delimeters s' = delimeters s"
proof -
  let ?h = "(rxBufferHead s + 1) mod rxBufferSize s"
  note B = rx_okD [OF ok]
  have full: "?h = rxBufferTail s \<longleftrightarrow> length (rx_content s) = rxBufferSize s - 1"
    using ring_full_iff B by (simp add: rx_content_def)
  have lt: "length (rx_content s) < rxBufferSize s" using ring_count_lt B by (simp add: rx_content_def)
  show ?thesis
  proof (cases "?h = rxBufferTail s")
    case True
    then show ?thesis
      using r ok full by (auto simp: rx_byte_def raise_def rx_ok_def rx_content_def)
  next
    case False
    have push: "ring_list ((rxBuffer s)[rxBufferHead s := c]) (rxBufferSize s) (rxBufferTail s) ?h = rx_content s @ [c]"
      using ring_push [OF ok [unfolded rx_ok_def] False] by (simp add: rx_content_def)
    have S: "r" "rxBuffer s' = (rxBuffer s)[rxBufferHead s := c]" "rxBufferHead s' = ?h"
      "rxBufferTail s' = rxBufferTail s" "rxBufferSize s' = rxBufferSize s" "delimeters s' = delimeters s"
      using r False by (auto simp: rx_byte_def raise_def Let_def split: if_splits)
    have "rx_ok s'" using ok S B by (simp add: rx_ok_def ring_ok_def)
    moreover have "length (rx_content s) < rxBufferSize s - 1" using False full lt by linarith
    moreover have "rx_content s' = rx_content s @ [c]" using S push by (simp add: rx_content_def)
    ultimately show ?thesis using S by simp
  qed
qed

lemma pop_spec:
  assumes ok: "rx_ok s" and ne: "rx_content s \<noteq> []"
  defines "s' \<equiv> s\<lparr>rxBufferTail := (rxBufferTail s + 1) mod rxBufferSize s\<rparr>"
  shows "rx_ok s' \<and> rx_content s = rxBuffer s ! rxBufferTail s # rx_content s' \<and> rxBufferSize s' = rxBufferSize s"
proof -
  have "rxBufferTail s \<noteq> rxBufferHead s" using ne isReadable_content [OF ok] by (simp add: isReadable_def)
  then show ?thesis
    using ring_pop [OF ok [unfolded rx_ok_def]] ok rx_okD [OF ok]
    by (simp add: s'_def rx_ok_def rx_content_def ring_ok_def)
qed

lemma getc_async_spec:
  assumes ok: "rx_ok s"
  shows "rx_ok (snd (getc ASYNC wake s)) \<and> rxBufferSize (snd (getc ASYNC wake s)) = rxBufferSize s \<and>
    fst (getc ASYNC wake s) = (case rx_content s of [] \<Rightarrow> Inl NO_DATA | x # xs \<Rightarrow> Inr x) \<and>
    rx_content (snd (getc ASYNC wake s)) = tl (rx_content s)"
proof (cases "rx_content s")
  case Nil
  then show ?thesis using ok isReadable_content [OF ok] by (simp add: getc_def)
next
  case (Cons x xs)
  then show ?thesis using pop_spec [OF ok] isReadable_content [OF ok] by (auto simp: getc_def)
qed

interpretation urx: bounded_fifo rx_ok rx_content "\<lambda>s. rxBufferSize s - 1" rx_byte uart_get
proof
  fix s b r s' assume "rx_ok s" "rx_byte b s = (r, s')"
  from rx_byte_spec [OF this] show "rx_ok s' \<and> rxBufferSize s' - 1 = rxBufferSize s - 1 \<and>
      r = (length (rx_content s) < rxBufferSize s - 1) \<and>
      rx_content s' = (if r then rx_content s @ [b] else rx_content s)" by simp
next
  fix s g s' assume "rx_ok s" "uart_get s = (g, s')"
  then show "rx_ok s' \<and> rxBufferSize s' - 1 = rxBufferSize s - 1 \<and>
      g = (case rx_content s of [] \<Rightarrow> None | x # xs \<Rightarrow> Some x) \<and> rx_content s' = tl (rx_content s)"
    using getc_async_spec [of s id]
    by (cases "getc ASYNC id s"; cases "fst (getc ASYNC id s)") (auto simp: uart_get_def split: list.splits)
next
  fix s assume "rx_ok s"
  then show "length (rx_content s) \<le> rxBufferSize s - 1"
    using ring_count_lt rx_okD by (fastforce simp: rx_content_def)
qed

lemma uart_new_ok:
  "n < 255 \<Longrightarrow> rx_ok (uart_new n m g) \<and> rx_content (uart_new n m g) = [] \<and> rxBufferSize (uart_new n m g) = n + 1"
  by (simp add: uart_new_def rx_ok_def ring_ok_def rx_content_def Let_def)

text \<open>
  C9 The receive buffer is a first-in first-out queue: in any interleaving of bytes arriving and
  \<open>getc\<close> calls, the bytes read are the bytes accepted, in order, none twice and none lost, and
  what is left is in the buffer; a byte is refused only when the buffer holds all it was made for.
\<close>

theorem uart_rx_fifo:
  assumes "n < 255" and "fifo_run rx_byte uart_get ops (uart_new n m g) = (ins, outs, s')"
  shows "ins = outs @ rx_content s' \<and> length (rx_content s') \<le> n"
  using urx.fifo_order [OF _ assms(2)] uart_new_ok [OF assms(1), of m g] by simp

theorem uart_rx_fifo_witness:
  "fifo_run rx_byte uart_get [Put 7, Put 8, Put 9, Get, Put 9]
      (uart_new 2 2 0) = ([7, 8, 9], [7], snd (snd (fifo_run rx_byte uart_get [Put 7, Put 8, Put 9, Get, Put 9] (uart_new 2 2 0)))) \<and>
    [7, 8, 9] = [7] @ rx_content (snd (snd (fifo_run rx_byte uart_get [Put 7, Put 8, Put 9, Get, Put 9] (uart_new 2 2 0))))"
proof -
  have r: "fifo_run rx_byte uart_get [Put 7, Put 8, Put 9, Get, Put 9]
      (uart_new 2 2 0) = ([7, 8, 9], [7], snd (snd (fifo_run rx_byte uart_get [Put 7, Put 8, Put 9, Get, Put 9] (uart_new 2 2 0))))"
    by code_simp
  show ?thesis using uart_rx_fifo [OF _ r] r by simp
qed

subsection \<open>Whole writes\<close>

lemma onDataWritten_Cons:
  "onDataWritten True (c # cs) s = onDataWritten True cs (snd (rx_byte c s))"
  by (simp add: onDataWritten_def)

lemma count_replicate_other: "x \<noteq> y \<Longrightarrow> count_list (replicate n x) y = 0"
  by (induction n) auto

lemma rx_byte_full_events:
  "count_list (events (snd (rx_byte c s))) RX_FULL =
    count_list (events s) RX_FULL + (if fst (rx_byte c s) then 0 else 1)"
  by (auto simp: rx_byte_def raise_def Let_def count_replicate_other)

lemma onDataWritten_spec:
  assumes "rx_ok s"
  shows "rx_ok (onDataWritten True data s) \<and>
    rxBufferSize (onDataWritten True data s) = rxBufferSize s \<and>
    rx_content (onDataWritten True data s) =
      rx_content s @ take (rxBufferSize s - 1 - length (rx_content s)) data \<and>
    count_list (events (onDataWritten True data s)) RX_FULL =
      count_list (events s) RX_FULL + (length data - (rxBufferSize s - 1 - length (rx_content s)))"
  using assms
proof (induction data arbitrary: s)
  case Nil
  then show ?case by (simp add: onDataWritten_def)
next
  case (Cons c cs)
  obtain r s1 where p: "rx_byte c s = (r, s1)" by fastforce
  note R = rx_byte_spec [OF Cons.prems p]
  have ev: "count_list (events s1) RX_FULL = count_list (events s) RX_FULL + (if r then 0 else 1)"
    using rx_byte_full_events [of c s] p by simp
  have ok1: "rx_ok s1" using R by blast
  show ?case
  proof (cases r)
    case True
    define k where "k = rxBufferSize s - 1 - length (rx_content s)"
    have k: "k = Suc (rxBufferSize s1 - 1 - length (rx_content s1))"
    proof -
      have "length (rx_content s1) = Suc (length (rx_content s))" "rxBufferSize s1 = rxBufferSize s"
        "length (rx_content s) < rxBufferSize s - 1" using R True by auto
      then show ?thesis unfolding k_def by linarith
    qed
    show ?thesis
      unfolding onDataWritten_Cons k_def [symmetric] using Cons.IH [OF ok1] R True ev p k by simp
  next
    case False
    have c0: "rxBufferSize s - Suc (length (rx_content s)) = 0"
    proof -
      have "\<not> length (rx_content s) < rxBufferSize s - 1" using R False by blast
      then show ?thesis by linarith
    qed
    then show ?thesis
      unfolding onDataWritten_Cons using Cons.IH [OF ok1] R False ev p by simp
  qed
qed

subsection \<open>Reading\<close>

lemma read_async_spec:
  "rx_ok s \<Longrightarrow> rx_ok (snd (read_async n s)) \<and> fst (read_async n s) = take n (rx_content s) \<and>
    rx_content (snd (read_async n s)) = drop n (rx_content s)"
proof (induction n arbitrary: s)
  case 0
  then show ?case by simp
next
  case (Suc n)
  note G = getc_async_spec [OF Suc.prems, of id]
  show ?case
  proof (cases "rx_content s")
    case Nil
    then show ?thesis using G Suc.prems by (auto split: prod.splits)
  next
    case (Cons x xs)
    obtain g s1 where p: "getc ASYNC id s = (g, s1)" by fastforce
    then have s1: "rx_ok s1" "g = Inr x" "rx_content s1 = xs" using G Cons by auto
    show ?thesis using Suc.IH [OF s1(1)] p s1 Cons by (auto split: prod.splits)
  qed
qed

lemma scan_delim_spec:
  assumes ok: "rx_ok s" and j_def: "j = length (takeWhile (\<lambda>b. b \<notin> set ds) (rx_content s))"
  shows "i \<le> j \<Longrightarrow> scan_delim s ds ((rxBufferTail s + i) mod rxBufferSize s) =
    Some (if j < length (rx_content s) then Some ((rxBufferTail s + j) mod rxBufferSize s) else None)"
proof (induction "j - i" arbitrary: i)
  case 0
  then have i: "i = j" by simp
  note B = rx_okD [OF ok]
  show ?case
  proof (cases "j < length (rx_content s)")
    case True
    then have "rx_content s ! j \<in> set ds" unfolding j_def using nth_length_takeWhile by blast
    moreover have "(rxBufferTail s + j) mod rxBufferSize s \<noteq> rxBufferHead s"
      using ring_index_ne True B by (simp add: rx_content_def)
    ultimately show ?thesis
      using True i ring_nth by (subst scan_delim.simps) (simp add: rx_content_def)
  next
    case False
    then have "j = length (rx_content s)" using length_takeWhile_le [of _ "rx_content s"] by (simp add: j_def not_less order_antisym)
    then have "(rxBufferTail s + j) mod rxBufferSize s = rxBufferHead s"
      using ring_end B by (simp add: rx_content_def)
    then show ?thesis using i False by (subst scan_delim.simps) simp
  qed
next
  case (Suc x)
  note B = rx_okD [OF ok]
  have ij: "i < j" using Suc(2) by simp
  have jl: "j \<le> length (rx_content s)" by (simp add: j_def length_takeWhile_le)
  have "rx_content s ! i \<notin> set ds"
    using ij nth_mem [of i "takeWhile (\<lambda>b. b \<notin> set ds) (rx_content s)"] set_takeWhileD takeWhile_nth
    by (metis j_def)
  moreover have "(rxBufferTail s + i) mod rxBufferSize s \<noteq> rxBufferHead s"
    using ring_index_ne ij jl B by (simp add: rx_content_def)
  moreover have "rx_content s ! i = rxBuffer s ! ((rxBufferTail s + i) mod rxBufferSize s)"
    using ring_nth ij jl by (simp add: rx_content_def)
  moreover have "((rxBufferTail s + i) mod rxBufferSize s + 1) mod rxBufferSize s =
      (rxBufferTail s + Suc i) mod rxBufferSize s" by (simp add: mod_simps)
  ultimately show ?case
    using Suc(1) [of "Suc i"] Suc(2) ij by (subst scan_delim.simps) simp
qed

lemma circularCopy_spec:
  assumes ok: "ring_ok buf sz t h"
  shows "i \<le> j \<Longrightarrow> j \<le> ring_count sz t h \<Longrightarrow>
    circularCopy buf sz acc ((t + i) mod sz) ((t + j) mod sz) =
      Some (acc @ drop i (take j (ring_list buf sz t h)))"
proof (induction "j - i" arbitrary: i acc)
  case 0
  then show ?case by (subst circularCopy.simps) simp
next
  case (Suc x)
  have b: "t < sz" "h < sz" using ok by (auto simp: ring_ok_def)
  have lt: "i < j" "j < sz" "i < sz" using Suc(2,4) ring_count_lt [OF b] by auto
  have "(t + i) mod sz \<noteq> (t + j) mod sz"
    using mod_step [OF lt(3) b(1)] mod_step [OF lt(2) b(1)] lt by (auto split: if_splits)
  moreover have "((t + i) mod sz + 1) mod sz = (t + Suc i) mod sz" by (simp add: mod_simps)
  moreover have "drop i (take j (ring_list buf sz t h)) =
      buf ! ((t + i) mod sz) # drop (Suc i) (take j (ring_list buf sz t h))"
    using lt Suc(4) by (subst Cons_nth_drop_Suc [symmetric]) (simp_all add: ring_nth)
  ultimately show ?case
    using Suc(1) [of "Suc i" "acc @ [buf ! ((t + i) mod sz)]"] Suc(2,4) lt
    by (subst circularCopy.simps) simp
qed

lemma take_until_spec:
  assumes ok: "rx_ok s" and j: "j < length (rx_content s)"
  defines "f \<equiv> (rxBufferTail s + j) mod rxBufferSize s"
  shows "\<exists>s'. take_until (rxBufferTail s) (int f) s = Some (take j (rx_content s), s') \<and> rx_ok s' \<and>
    rx_content s' = drop (Suc j) (rx_content s)"
proof -
  note B = rx_okD [OF ok]
  have jc: "j < ring_count (rxBufferSize s) (rxBufferTail s) (rxBufferHead s)"
    using j by (simp add: rx_content_def)
  have js: "j < rxBufferSize s"
    using jc ring_count_lt B by (meson less_trans)
  have n: "(if rxBufferTail s > f then (rxBufferSize s - rxBufferTail s) + f else f - rxBufferTail s) = j"
    using mod_step [OF js] B js by (auto simp: f_def split: if_splits)
  have cc: "circularCopy (rxBuffer s) (rxBufferSize s) [] (rxBufferTail s) f = Some (take j (rx_content s))"
    using circularCopy_spec [OF ok [unfolded rx_ok_def], of 0 j "[]"] jc B
    by (simp add: f_def rx_content_def)
  let ?s' = "s\<lparr>rxBufferTail := (rxBufferTail s + j + 1) mod rxBufferSize s\<rparr>"
  have "rx_content ?s' = drop (Suc j) (rx_content s)"
    using ring_drop [OF ok [unfolded rx_ok_def], of "Suc j"] jc by (simp add: rx_content_def)
  moreover have "rx_ok ?s'" using ok B by (simp add: rx_ok_def ring_ok_def)
  moreover have "take_until (rxBufferTail s) (int f) s = Some (take j (rx_content s), ?s')"
    unfolding take_until_def Let_def nat_int n cc by simp
  ultimately show ?thesis by blast
qed

lemma readUntil_async_spec:
  assumes ok: "rx_ok s"
  shows "\<exists>r s'. readUntil ds ASYNC wake s = Some (Inr r, s') \<and> rx_ok s' \<and>
    (if set (rx_content s) \<inter> set ds = {} then r = [] \<and> s' = s
     else \<exists>d \<in> set ds. rx_content s = r @ d # rx_content s' \<and> set r \<inter> set ds = {})"
proof -
  define j where "j = length (takeWhile (\<lambda>b. b \<notin> set ds) (rx_content s))"
  have sc: "scan_delim s ds (rxBufferTail s) =
      Some (if j < length (rx_content s) then Some ((rxBufferTail s + j) mod rxBufferSize s) else None)"
    using scan_delim_spec [OF ok j_def, of 0] rx_okD [OF ok] by simp
  have jt: "take j (rx_content s) = takeWhile (\<lambda>b. b \<notin> set ds) (rx_content s)"
    unfolding j_def by (metis takeWhile_eq_take)
  show ?thesis
  proof (cases "j < length (rx_content s)")
    case True
    have d: "rx_content s ! j \<in> set ds" unfolding j_def
      using True nth_length_takeWhile j_def by blast
    then have ne: "set (rx_content s) \<inter> set ds \<noteq> {}" using nth_mem [OF True] by blast
    obtain s' where t: "take_until (rxBufferTail s) (int ((rxBufferTail s + j) mod rxBufferSize s)) s =
        Some (take j (rx_content s), s')" "rx_ok s'" "rx_content s' = drop (Suc j) (rx_content s)"
      using take_until_spec [OF ok True] by blast
    have r: "readUntil ds ASYNC wake s = Some (Inr (take j (rx_content s)), s')"
      by (simp add: readUntil_def sc True t)
    have "rx_content s = take j (rx_content s) @ rx_content s ! j # rx_content s'"
      using True t(3) by (simp add: id_take_nth_drop [symmetric])
    moreover have "set (take j (rx_content s)) \<inter> set ds = {}"
      using set_takeWhileD unfolding jt by fastforce
    ultimately show ?thesis using r t(2) ne d by auto
  next
    case False
    then have "takeWhile (\<lambda>b. b \<notin> set ds) (rx_content s) = rx_content s"
      using jt by simp
    then have "set (rx_content s) \<inter> set ds = {}" by (metis disjoint_iff takeWhile_eq_all_conv)
    then show ?thesis using False ok by (simp add: readUntil_def sc)
  qed
qed

subsection \<open>The transmit stream\<close>

definition tx_content :: "uart \<Rightarrow> u8 list" where
  "tx_content s = ring_list (txBuffer s) (txBufferSize s) (txBufferTail s) (txBufferHead s)"

definition tx_ok :: "uart \<Rightarrow> bool" where
  "tx_ok s \<longleftrightarrow> ring_ok (txBuffer s) (txBufferSize s) (txBufferTail s) (txBufferHead s) \<and>
     length (txValue s) = MICROBIT_UART_S_ATTRSIZE \<and> txValueSize s \<le> MICROBIT_UART_S_ATTRSIZE \<and>
     txValueSize s \<le> length (tx_content s)"

definition linked :: "uart \<Rightarrow> bool" where
  "linked s \<longleftrightarrow> connected s \<and> indicating s \<and> \<not> waitingForEmpty s"

lemma tx_okD:
  "tx_ok s \<Longrightarrow> txBufferTail s < txBufferSize s \<and> txBufferHead s < txBufferSize s \<and>
     ring_ok (txBuffer s) (txBufferSize s) (txBufferTail s) (txBufferHead s)"
  by (auto simp: tx_ok_def ring_ok_def)

lemma txBufferedSize_content: "txBufferedSize s = length (tx_content s)"
  by (auto simp: txBufferedSize_def tx_content_def ring_count_def)

lemma fill_value_spec:
  assumes ok: "ring_ok (txBuffer s) (txBufferSize s) (txBufferTail s) (txBufferHead s)"
    and "txValueSize s \<le> length (tx_content s)" and "txValueSize s \<le> MICROBIT_UART_S_ATTRSIZE"
    and "length (txValue s) = MICROBIT_UART_S_ATTRSIZE"
    and "take (txValueSize s) (txValue s) = take (txValueSize s) (tx_content s)"
    and "n = (txBufferTail s + txValueSize s) mod txBufferSize s"
  shows "\<exists>v. fill_value s n =
      s\<lparr>txValue := v, txValueSize := min MICROBIT_UART_S_ATTRSIZE (length (tx_content s))\<rparr> \<and>
      length v = MICROBIT_UART_S_ATTRSIZE \<and>
      take MICROBIT_UART_S_ATTRSIZE (tx_content s) =
        take (min MICROBIT_UART_S_ATTRSIZE (length (tx_content s))) v"
  using assms
proof (induction s n rule: fill_value.induct)
  case (1 s n)
  have b: "txBufferTail s < txBufferSize s" "txBufferHead s < txBufferSize s"
    using 1(2) by (auto simp: ring_ok_def)
  show ?case
  proof (cases "txValueSize s < MICROBIT_UART_S_ATTRSIZE \<and> n \<noteq> txBufferHead s")
    case True
    let ?s1 = "s\<lparr>txValue := (txValue s)[txValueSize s := txBuffer s ! n], txValueSize := txValueSize s + 1\<rparr>"
    have c1: "tx_content ?s1 = tx_content s" by (simp add: tx_content_def)
    have ne: "txValueSize s \<noteq> length (tx_content s)"
      using True 1(7) ring_end [OF b] by (auto simp: tx_content_def)
    then have lt: "txValueSize s < length (tx_content s)" using 1(3) by simp
    have nth: "tx_content s ! txValueSize s = txBuffer s ! n"
      using lt 1(7) by (simp add: tx_content_def ring_nth)
    have tk: "take (txValueSize s + 1) ((txValue s)[txValueSize s := txBuffer s ! n]) =
        take (txValueSize s + 1) (tx_content s)"
      using 1(5,6) True lt nth by (simp add: take_Suc_conv_app_nth)
    have "(n + 1) mod txBufferSize s = (txBufferTail s + (txValueSize s + 1)) mod txBufferSize s"
      unfolding 1(7) by (simp add: mod_simps)
    then have "\<exists>v. fill_value ?s1 ((n + 1) mod txBufferSize s) =
        ?s1\<lparr>txValue := v, txValueSize := min MICROBIT_UART_S_ATTRSIZE (length (tx_content ?s1))\<rparr> \<and>
        length v = MICROBIT_UART_S_ATTRSIZE \<and>
        take MICROBIT_UART_S_ATTRSIZE (tx_content ?s1) =
          take (min MICROBIT_UART_S_ATTRSIZE (length (tx_content ?s1))) v"
      using 1(1) [OF True] 1(2,3,4,5) True lt tk c1 by simp
    then show ?thesis using True unfolding c1 by (subst fill_value.simps) simp
  next
    case False
    have mv: "min MICROBIT_UART_S_ATTRSIZE (length (tx_content s)) = txValueSize s"
    proof (cases "txValueSize s < MICROBIT_UART_S_ATTRSIZE")
      case True
      then have "n = txBufferHead s" using False by blast
      then have "txValueSize s = length (tx_content s)"
        using 1(3,7) ring_index_ne [OF b, of "txValueSize s"] by (force simp: tx_content_def)
      then show ?thesis using True by simp
    next
      case False
      then show ?thesis using 1(3,4) by simp
    qed
    have "take MICROBIT_UART_S_ATTRSIZE (tx_content s) = take (txValueSize s) (txValue s)"
      unfolding 1(6) unfolding mv [symmetric] by (cases "MICROBIT_UART_S_ATTRSIZE \<le> length (tx_content s)") (simp_all add: min_def)
    moreover have "fill_value s n = s\<lparr>txValue := txValue s, txValueSize := txValueSize s\<rparr>"
      using False by (subst fill_value.simps) auto
    ultimately show ?thesis
      unfolding mv using 1(5) by blast
  qed
qed

text \<open>What \<open>sendNext\<close> does when the link is up.\<close>

lemma sendNext_spec:
  assumes ok: "tx_ok s" and l: "linked s"
  defines "s' \<equiv> snd (sendNext s)"
  shows "tx_ok s' \<and> linked s' \<and> tx_content s' = tx_content s \<and>
    (if txValueSize s \<noteq> 0 \<or> tx_content s = [] then s' = s
     else txValueSize s' = min MICROBIT_UART_S_ATTRSIZE (length (tx_content s)) \<and>
       indicated s' = indicated s @ [take MICROBIT_UART_S_ATTRSIZE (tx_content s)])"
proof -
  note B = tx_okD [OF ok]
  have emp: "tx_content s = [] \<longleftrightarrow> txBufferTail s = txBufferHead s"
    unfolding tx_content_def length_0_conv [symmetric] length_ring_list using ring_count_0 B by metis
  show ?thesis
  proof (cases "txValueSize s \<noteq> 0 \<or> tx_content s = []")
    case True
    then have "s' = s" using emp by (auto simp: s'_def sendNext_def)
    then show ?thesis using True ok l by simp
  next
    case False
    then have z: "txValueSize s = 0" "tx_content s \<noteq> []" by auto
    obtain v where v: "fill_value s (txBufferTail s) =
        s\<lparr>txValue := v, txValueSize := min MICROBIT_UART_S_ATTRSIZE (length (tx_content s))\<rparr>"
      "length v = MICROBIT_UART_S_ATTRSIZE"
      "take MICROBIT_UART_S_ATTRSIZE (tx_content s) =
        take (min MICROBIT_UART_S_ATTRSIZE (length (tx_content s))) v"
      using fill_value_spec [of s "txBufferTail s"] ok z(1) B by (auto simp: tx_ok_def)
    have S: "s' = s\<lparr>txValue := v, txValueSize := min MICROBIT_UART_S_ATTRSIZE (length (tx_content s)),
        indicated := indicated s @ [take MICROBIT_UART_S_ATTRSIZE (tx_content s)]\<rparr>"
      using z l emp v(1,3) by (simp add: s'_def sendNext_def linked_def Let_def)
    have c: "tx_content s' = tx_content s" by (simp add: S tx_content_def)
    moreover have "tx_ok s'" using ok v(2) c B by (simp add: tx_ok_def) (simp add: S)
    ultimately show ?thesis using False l by (simp add: S linked_def)
  qed
qed

lemma fill_tx_spec:
  "ring_ok (txBuffer s) (txBufferSize s) (txBufferTail s) (txBufferHead s) \<Longrightarrow>
   \<exists>buf h. fill_tx s bs = (min (length bs) (txBufferSize s - 1 - length (tx_content s)),
     s\<lparr>txBuffer := buf, txBufferHead := h\<rparr>) \<and> ring_ok buf (txBufferSize s) (txBufferTail s) h \<and>
     ring_list buf (txBufferSize s) (txBufferTail s) h =
       tx_content s @ take (txBufferSize s - 1 - length (tx_content s)) bs"
proof (induction bs arbitrary: s)
  case Nil
  then show ?case
    by (intro exI [of _ "txBuffer s"] exI [of _ "txBufferHead s"]) (simp add: tx_content_def)
next
  case (Cons b bs)
  note ok = Cons.prems
  have t: "txBufferTail s < txBufferSize s" "txBufferHead s < txBufferSize s" using ok by (auto simp: ring_ok_def)
  let ?h = "(txBufferHead s + 1) mod txBufferSize s"
  have full: "?h = txBufferTail s \<longleftrightarrow> length (tx_content s) = txBufferSize s - 1"
    using ring_full_iff [OF t] by (simp add: tx_content_def)
  have lt: "length (tx_content s) < txBufferSize s" using ring_count_lt [OF t] by (simp add: tx_content_def)
  show ?case
  proof (cases "?h = txBufferTail s")
    case True
    then show ?thesis using full ok
      by (intro exI [of _ "txBuffer s"] exI [of _ "txBufferHead s"]) (simp add: tx_content_def)
  next
    case False
    let ?s1 = "s\<lparr>txBuffer := (txBuffer s)[txBufferHead s := b], txBufferHead := ?h\<rparr>"
    have c1: "tx_content ?s1 = tx_content s @ [b]"
      using ring_push [OF ok False] by (simp add: tx_content_def)
    have k: "txBufferSize s - 1 - length (tx_content s) = Suc (txBufferSize s - 1 - length (tx_content ?s1))"
      using c1 full False lt by simp
    have ok1: "ring_ok (txBuffer ?s1) (txBufferSize ?s1) (txBufferTail ?s1) (txBufferHead ?s1)"
      using ok t by (simp add: ring_ok_def)
    obtain buf h where I: "fill_tx ?s1 bs = (min (length bs) (txBufferSize s - 1 - length (tx_content ?s1)),
        ?s1\<lparr>txBuffer := buf, txBufferHead := h\<rparr>)" "ring_ok buf (txBufferSize s) (txBufferTail s) h"
      "ring_list buf (txBufferSize s) (txBufferTail s) h =
        tx_content ?s1 @ take (txBufferSize s - 1 - length (tx_content ?s1)) bs"
      using Cons.IH [OF ok1] by auto
    show ?thesis
      by (intro exI [of _ buf] exI [of _ h]) (use I k False c1 in \<open>simp add: Let_def\<close>)
  qed
qed

text \<open>Runs of sends that do not wait and of confirmations from the peer.\<close>

datatype tx_op = Send "u8 list" | Confirm

fun tx_run :: "tx_op list \<Rightarrow> uart \<Rightarrow> u8 list \<times> uart" where
  "tx_run [] s = ([], s)"
| "tx_run (Send bs # ops) s =
     (case send (\<lambda>_. id) bs ASYNC s of
        Some (Inr n, s1) \<Rightarrow> (case tx_run ops s1 of (ins, s2) \<Rightarrow> (take n bs @ ins, s2))
      | Some (Inl e, s1) \<Rightarrow> tx_run ops s1
      | None \<Rightarrow> ([], s))"
| "tx_run (Confirm # ops) s = tx_run ops (onConfirmation True s)"

text \<open>
  The bytes indicated so far are those that left the buffer, plus the block in flight; a
  block is in flight whenever there is something to send.
\<close>

definition tx_inv :: "u8 list \<Rightarrow> uart \<Rightarrow> bool" where
  "tx_inv ins s \<longleftrightarrow> tx_ok s \<and> linked s \<and> (txValueSize s = 0 \<longrightarrow> tx_content s = []) \<and>
     ins = concat (indicated s) @ drop (txValueSize s) (tx_content s) \<and>
     (\<forall>b \<in> set (indicated s). 0 < length b \<and> length b \<le> MICROBIT_UART_S_ATTRSIZE)"

lemma sendNext_inv:
  assumes "tx_ok s" "linked s"
    "ins = concat (indicated s) @ drop (txValueSize s) (tx_content s)"
    "\<forall>b \<in> set (indicated s). 0 < length b \<and> length b \<le> MICROBIT_UART_S_ATTRSIZE"
  shows "tx_inv ins (snd (sendNext s))"
proof -
  note N = sendNext_spec [OF assms(1,2)]
  show ?thesis
  proof (cases "txValueSize s \<noteq> 0 \<or> tx_content s = []")
    case True
    then show ?thesis using N assms by (auto simp: tx_inv_def)
  next
    case False
    have "take 20 (tx_content s) @ drop (min 20 (length (tx_content s))) (tx_content s) = tx_content s"
      by (cases "20 \<le> length (tx_content s)") (auto simp: min_def)
    then show ?thesis
      using N assms False by (auto simp: tx_inv_def MICROBIT_UART_S_ATTRSIZE_def)
  qed
qed

lemma send_inv:
  assumes I: "tx_inv ins s"
  shows "\<exists>r s1. send (\<lambda>_. id) bs ASYNC s = Some (r, s1) \<and>
    (case r of Inl e \<Rightarrow> bs = [] \<and> s1 = s
     | Inr n \<Rightarrow> n = min (length bs) (txBufferSize s - 1 - txBufferedSize s) \<and> tx_inv (ins @ take n bs) s1)"
proof (cases "bs = []")
  case True
  then show ?thesis by (simp add: send_def)
next
  case False
  have ok: "tx_ok s" "linked s" using I by (auto simp: tx_inv_def)
  let ?n = "min (length bs) (txBufferSize s - 1 - length (tx_content s))"
  obtain buf h where F: "fill_tx s bs = (?n, s\<lparr>txBuffer := buf, txBufferHead := h\<rparr>)"
    "ring_ok buf (txBufferSize s) (txBufferTail s) h"
    "ring_list buf (txBufferSize s) (txBufferTail s) h =
       tx_content s @ take (txBufferSize s - 1 - length (tx_content s)) bs"
    using fill_tx_spec tx_okD [OF ok(1)] by blast
  let ?s1 = "s\<lparr>txBuffer := buf, txBufferHead := h\<rparr>"
  have c1: "tx_content ?s1 = tx_content s @ take ?n bs"
    using F(3) by (simp add: tx_content_def)
       (metis min.commute take_all_iff linorder_le_cases min.absorb1 min.absorb2)
  have v: "txValueSize s \<le> length (tx_content s)" using ok by (simp add: tx_ok_def)
  have ok1: "tx_ok ?s1" using ok F(2) c1 v by (simp add: tx_ok_def)
  have l1: "linked ?s1" using ok by (simp add: linked_def)
  have "tx_inv (ins @ take ?n bs) (snd (sendNext ?s1))"
    by (rule sendNext_inv [OF ok1 l1]) (use I c1 v in \<open>auto simp: tx_inv_def\<close>)
  moreover have "send (\<lambda>_. id) bs ASYNC s = Some (Inr ?n, snd (sendNext ?s1))"
    using False ok(2) F(1) by (cases bs) (simp_all add: send_def linked_def)
  ultimately show ?thesis by (simp add: txBufferedSize_content)
qed

lemma onConfirmation_inv:
  assumes I: "tx_inv ins s"
  shows "tx_inv ins (onConfirmation True s) \<and>
    length (tx_content (onConfirmation True s)) = length (tx_content s) - txValueSize s"
proof -
  have ok: "tx_ok s" "linked s" using I by (auto simp: tx_inv_def)
  have v: "txValueSize s \<le> ring_count (txBufferSize s) (txBufferTail s) (txBufferHead s)"
    using ok by (simp add: tx_ok_def tx_content_def)
  let ?s1 = "raise TX_EMPTY (s\<lparr>txBufferTail := (txBufferTail s + txValueSize s) mod txBufferSize s, txValueSize := 0\<rparr>)"
  have c1: "tx_content ?s1 = drop (txValueSize s) (tx_content s)"
    using ring_drop [OF _ v] tx_okD [OF ok(1)] by (simp add: tx_content_def raise_def)
  have ok1: "tx_ok ?s1" using ok(1) by (auto simp: tx_ok_def raise_def ring_ok_def)
  have l1: "linked ?s1" using ok by (simp add: linked_def raise_def)
  have "tx_inv ins (snd (sendNext ?s1))"
    by (rule sendNext_inv [OF ok1 l1]) (use I c1 in \<open>auto simp: tx_inv_def raise_def\<close>)
  moreover have "onConfirmation True s = snd (sendNext ?s1)"
    using ok(2) by (simp add: onConfirmation_def linked_def raise_def Let_def)
  ultimately show ?thesis using sendNext_spec [OF ok1 l1] c1 by simp
qed

lemma tx_run_inv: "tx_inv pre s \<Longrightarrow> tx_run ops s = (ins, s') \<Longrightarrow> tx_inv (pre @ ins) s'"
proof (induction ops arbitrary: pre s ins s')
  case Nil
  then show ?case by simp
next
  case (Cons oper ops)
  show ?case
  proof (cases oper)
    case (Send bs)
    obtain r s1 where S: "send (\<lambda>_. id) bs ASYNC s = Some (r, s1)"
      "case r of Inl e \<Rightarrow> bs = [] \<and> s1 = s
       | Inr n \<Rightarrow> n = min (length bs) (txBufferSize s - 1 - txBufferedSize s) \<and> tx_inv (pre @ take n bs) s1"
      using send_inv [OF Cons.prems(1)] by blast
    show ?thesis
    proof (cases r)
      case (Inl e)
      then show ?thesis using S Cons Send by simp
    next
      case (Inr n)
      obtain i s2 where q: "tx_run ops s1 = (i, s2)" by fastforce
      have "tx_inv (pre @ take n bs) s1" using S(2) unfolding Inr sum.case by blast
      from Cons.IH [OF this q] show ?thesis using Cons.prems(2) S(1) Inr Send q by auto
    qed
  next
    case Confirm
    then show ?thesis
      using Cons.IH [OF conjunct1 [OF onConfirmation_inv [OF Cons.prems(1)]]] Cons.prems(2) by simp
  qed
qed

lemma tx_drain:
  "tx_inv ins s \<Longrightarrow> length (tx_content s) \<le> k \<Longrightarrow> tx_run (replicate k Confirm) s = (i, s') \<Longrightarrow>
    i = [] \<and> tx_content s' = []"
proof (induction k arbitrary: s)
  case 0
  then show ?case by simp
next
  case (Suc k)
  note C = onConfirmation_inv [OF Suc.prems(1)]
  have "length (tx_content (onConfirmation True s)) \<le> k"
    using C Suc.prems(1,2) by (cases "txValueSize s") (auto simp: tx_inv_def)
  then show ?case using Suc.IH [OF conjunct1 [OF C]] Suc.prems(3) by simp
qed

lemma uart_new_tx:
  "m < 255 \<Longrightarrow> tx_inv [] ((uart_new n m g)\<lparr>connected := True, indicating := True\<rparr>)"
  by (simp add: uart_new_def tx_inv_def tx_ok_def ring_ok_def tx_content_def linked_def Let_def)


lemma uart_new_zero: "rxBufferSize (uart_new 255 m g) = 0 \<and> rxBuffer (uart_new 255 m g) = []"
  by (simp add: uart_new_def Let_def)

text \<open>
  A delimiter stored in the last cell leaves the head at 0: the waiting \<open>readUntil\<close> then takes
  position -1 and returns the empty string without consuming anything.
\<close>

lemma readUntil_sleep_wrapped:
  assumes "scan_delim s ds (rxBufferTail s) = Some None"
    and "rxBufferHead (wake (s\<lparr>delimeters := ds\<rparr>)) = 0"
  shows "readUntil ds SYNC_SLEEP wake s = Some (Inr [], (wake (s\<lparr>delimeters := ds\<rparr>))\<lparr>delimeters := []\<rparr>)"
  using assms by (simp add: readUntil_def eventOn_def take_until_def Let_def)

subsection \<open>The properties of the service\<close>

text \<open>
  Bytes the peer writes are stored in order as long as there is room; the rest of the write is
  dropped and the full event raised once for each dropped byte.
\<close>

theorem uart_rx_keeps_prefix:
  assumes "rx_ok s" and "free = rxBufferSize s - 1 - rxBufferedSize s"
    and "s' = onDataWritten True data s"
  shows "rx_content s' = rx_content s @ take free data \<and> rx_ok s' \<and>
    count_list (events s') RX_FULL = count_list (events s) RX_FULL + (length data - free)"
  using onDataWritten_spec [OF assms(1), of data] by (simp add: assms(2,3) rxBufferedSize_content)

theorem uart_rx_keeps_prefix_witness:
  "rx_content (onDataWritten True [1, 2, 3] (uart_new 2 2 0)) = [1, 2] \<and>
    count_list (events (onDataWritten True [1, 2, 3] (uart_new 2 2 0))) RX_FULL = 1"
proof -
  have "rx_ok (uart_new 2 2 0)" by code_simp
  moreover have "rx_content (uart_new 2 2 0) = [] \<and> rxBufferSize (uart_new 2 2 0) = 3 \<and>
      events (uart_new 2 2 0) = [] \<and> rxBufferedSize (uart_new 2 2 0) = 0" by code_simp
  ultimately show ?thesis
    using uart_rx_keeps_prefix [of "uart_new 2 2 0" 2 _ "[1, 2, 3]", OF _ _ refl] by simp
qed

text \<open>
  \<open>readUntil\<close> without waiting always ends; when a delimiter is in the buffer it returns exactly
  the bytes before the first one and consumes them and that delimiter, otherwise it returns
  nothing and leaves the service as it was.
\<close>

theorem uart_readUntil_async:
  assumes "rx_ok s"
  shows "\<exists>r s'. readUntil ds ASYNC wake s = Some (Inr r, s') \<and> rx_ok s' \<and>
    (if set (rx_content s) \<inter> set ds = {} then r = [] \<and> s' = s
     else \<exists>d \<in> set ds. rx_content s = r @ d # rx_content s' \<and> set r \<inter> set ds = {})"
  by (rule readUntil_async_spec [OF assms])

theorem uart_readUntil_async_witness:
  "\<exists>r s'. readUntil [10] ASYNC id (onDataWritten True [1, 10, 3] (uart_new 5 2 0)) = Some (Inr r, s') \<and>
    [1, 10, 3] = r @ 10 # rx_content s'"
proof -
  let ?s = "onDataWritten True [1, 10, 3] (uart_new 5 2 0)"
  have "rx_ok ?s" "rx_content ?s = [1, 10, 3]" by (code_simp, code_simp)
  then show ?thesis using uart_readUntil_async [of ?s "[10]" id] by auto
qed

text \<open>
  C10 The transmitted stream: over any sequence of sends that do not wait and of confirmations, on
  a link that stays up, the blocks indicated to the peer are each of 1 to 20 bytes and
  concatenate to a prefix of the bytes the sends reported as written; once as many confirmations
  have come as there are bytes in the buffer, to all of them.
\<close>

theorem uart_tx_stream:
  assumes "m < 255"
    and "tx_run ops ((uart_new n m g)\<lparr>connected := True, indicating := True\<rparr>) = (ins, s')"
  shows "(\<exists>rest. ins = concat (indicated s') @ rest) \<and>
    (\<forall>b \<in> set (indicated s'). 0 < length b \<and> length b \<le> MICROBIT_UART_S_ATTRSIZE) \<and>
    concat (indicated (snd (tx_run (replicate (txBufferedSize s') Confirm) s'))) = ins"
proof -
  have I: "tx_inv ins s'" using tx_run_inv [OF uart_new_tx [OF assms(1)] assms(2)] by simp
  obtain i s2 where q: "tx_run (replicate (txBufferedSize s') Confirm) s' = (i, s2)" by fastforce
  from tx_drain [OF I _ q] have "i = []" "tx_content s2 = []" by (auto simp: txBufferedSize_content)
  then have "concat (indicated s2) = ins" using tx_run_inv [OF I q] by (simp add: tx_inv_def)
  then show ?thesis using I q by (auto simp: tx_inv_def)
qed

theorem uart_tx_stream_witness:
  "\<exists>s'. tx_run [Send [1, 2, 3], Confirm, Send [4]] ((uart_new 2 2 0)\<lparr>connected := True, indicating := True\<rparr>) =
      ([1, 2, 4], s') \<and> concat (indicated (snd (tx_run (replicate (txBufferedSize s') Confirm) s'))) = [1, 2, 4]"
proof -
  let ?r = "tx_run [Send [1, 2, 3], Confirm, Send [4]] ((uart_new 2 2 0)\<lparr>connected := True, indicating := True\<rparr>)"
  have "fst ?r = [1, 2, 4]" by code_simp
  then have e: "?r = ([1, 2, 4], snd ?r)" by (simp add: prod_eq_iff)
  show ?thesis using uart_tx_stream [OF _ e] e by auto
qed

end
