(* ===== verification/USBFlash.thy ===== *)
theory USBFlash
  imports NVM
begin

text \<open>
  \<open>MicroBitUSBFlashManager\<close> (\<open>source/MicroBitUSBFlashManager.cpp\<close>): the flash of the USB
  interface chip, reached by request and response packets over I2C. The bus, the interrupt
  line and the chip behind them are outside the repository: \<open>bus\<close> is what the manager calls
  of them, over a chip state of any type, and \<open>chip_protocol\<close> states the documented protocol.
  Buffers are byte lists; reading past the end of a response gives \<open>junk\<close>.
\<close>

text \<open>
  \<open>bus_write\<close> sends a packet (\<open>True\<close>: acknowledged) and includes the 200 microseconds the
  manager waits after it; \<open>bus_irq\<close> samples \<open>irq1\<close>; \<open>bus_read\<close> reads so many bytes; \<open>bus_sleep\<close>
  is \<open>fiber_sleep(1)\<close>.
\<close>

record 'c bus =
  bus_write :: "'c \<Rightarrow> u8 list \<Rightarrow> bool \<times> 'c"
  bus_irq :: "'c \<Rightarrow> bool \<times> 'c"
  bus_read :: "'c \<Rightarrow> nat \<Rightarrow> u8 list option \<times> 'c"
  bus_sleep :: "'c \<Rightarrow> 'c"
  junk :: u8

definition FILENAME_CMD :: u8 where "FILENAME_CMD = 1"
definition FILESIZE_CMD :: u8 where "FILESIZE_CMD = 2"
definition VISIBILITY_CMD :: u8 where "VISIBILITY_CMD = 3"
definition WRITE_CONFIG_CMD :: u8 where "WRITE_CONFIG_CMD = 4"
definition ERASE_CONFIG_CMD :: u8 where "ERASE_CONFIG_CMD = 5"
definition DISK_SIZE_CMD :: u8 where "DISK_SIZE_CMD = 6"
definition SECTOR_SIZE_CMD :: u8 where "SECTOR_SIZE_CMD = 7"
definition REMOUNT_CMD :: u8 where "REMOUNT_CMD = 8"
definition READ_CMD :: u8 where "READ_CMD = 10"
definition WRITE_CMD :: u8 where "WRITE_CMD = 11"
definition ERASE_CMD :: u8 where "ERASE_CMD = 12"

lemmas usb_cmds = FILENAME_CMD_def FILESIZE_CMD_def VISIBILITY_CMD_def WRITE_CONFIG_CMD_def
  ERASE_CONFIG_CMD_def DISK_SIZE_CMD_def SECTOR_SIZE_CMD_def REMOUNT_CMD_def READ_CMD_def
  WRITE_CMD_def ERASE_CMD_def

definition MICROBIT_USB_FLASH_MAX_RETRIES :: nat where
  "MICROBIT_USB_FLASH_MAX_RETRIES = 20"

definition KL27_FLASH_MAX_WRITE_LENGTH :: nat where
  "KL27_FLASH_MAX_WRITE_LENGTH = 64"

text \<open>The table of response lengths; \<open>KeyValueTable::get\<close> gives 0 for a key that is not there.\<close>

definition usbFlashPropertyLength :: "u8 \<Rightarrow> nat" where
  "usbFlashPropertyLength cmd =
     (case map_of [(FILENAME_CMD, 12), (FILESIZE_CMD, 5), (VISIBILITY_CMD, 2), (WRITE_CONFIG_CMD, 1),
        (ERASE_CONFIG_CMD, 1), (DISK_SIZE_CMD, 2), (SECTOR_SIZE_CMD, 3), (REMOUNT_CMD, 1)] cmd of
        None \<Rightarrow> 0 | Some n \<Rightarrow> n)"

record usb_config =
  cfg_fileName :: "u8 list"
  cfg_fileSize :: int
  cfg_visible :: bool

record usb_geometry =
  geo_blockSize :: nat
  geo_blockCount :: nat

text \<open>\<open>geometry_loaded\<close> and \<open>config_loaded\<close> are the two bits of \<open>status\<close> in use.\<close>

record 'c usb =
  chip :: 'c
  config :: usb_config
  geometry :: usb_geometry
  geometry_loaded :: bool
  config_loaded :: bool
  awaitingPacket :: bool

text \<open>The manager is a global object: its fields start as zero.\<close>

definition usb_new :: "'c \<Rightarrow> 'c usb" where
  "usb_new c =
     \<lparr>chip = c, config = \<lparr>cfg_fileName = [], cfg_fileSize = 0, cfg_visible = False\<rparr>,
      geometry = \<lparr>geo_blockSize = 0, geo_blockCount = 0\<rparr>, geometry_loaded = False,
      config_loaded = False, awaitingPacket = False\<rparr>"

text \<open>A 32-bit number in network order, as \<open>htonl\<close> lays it out in memory.\<close>

definition be32 :: "nat \<Rightarrow> u8 list" where
  "be32 n = [of_nat (n div 2 ^ 24), of_nat (n div 2 ^ 16), of_nat (n div 2 ^ 8), of_nat n]"

definition unbe :: "u8 list \<Rightarrow> nat" where
  "unbe bs = foldl (\<lambda>n b. n * 256 + unat b) 0 bs"

subsection \<open>Transactions\<close>

text \<open>
  The two nested loops of \<open>transact\<close>: \<open>left\<close> counts the attempts that remain; \<open>sending\<close> is the
  outer loop, which sends the request, otherwise the inner one, which waits for the response.
\<close>

function transact_loop :: "'c bus \<Rightarrow> u8 list \<Rightarrow> nat \<Rightarrow> bool \<Rightarrow> nat \<Rightarrow> 'c usb \<Rightarrow> u8 list \<times> 'c usb" where
  "transact_loop B req n sending 0 s = ([], s\<lparr>awaitingPacket := False\<rparr>)"
| "transact_loop B req n True (Suc left) s =
     (case bus_write B (chip s) req of (ack, c) \<Rightarrow>
        if \<not> ack then transact_loop B req n True left (s\<lparr>chip := bus_sleep B c\<rparr>)
        else transact_loop B req n False (Suc left) (s\<lparr>chip := c, awaitingPacket := True\<rparr>))"
| "transact_loop B req n False (Suc left) s =
     (case bus_irq B (chip s) of (active, c) \<Rightarrow>
        if \<not> active then transact_loop B req n False left (s\<lparr>chip := bus_sleep B c\<rparr>)
        else (case bus_read B c n of
            (None, c') \<Rightarrow> transact_loop B req n True left (s\<lparr>chip := bus_sleep B c'\<rparr>)
          | (Some bs, c') \<Rightarrow>
              let b = take n (bs @ replicate n 0) in
              if b ! 0 \<noteq> req ! 0
              then transact_loop B req n True left (s\<lparr>chip := bus_sleep B c'\<rparr>)
              else (b, s\<lparr>chip := c', awaitingPacket := False\<rparr>)))"
  by pat_completeness auto
termination
  by (relation "measures [\<lambda>(B, req, n, sending, left, s). left,
        \<lambda>(B, req, n, sending, left, s). if sending then 1 else 0]") auto

definition transact :: "'c bus \<Rightarrow> u8 list \<Rightarrow> nat \<Rightarrow> 'c usb \<Rightarrow> u8 list \<times> 'c usb" where
  "transact B req n s = transact_loop B req n True MICROBIT_USB_FLASH_MAX_RETRIES s"

definition transact_cmd :: "'c bus \<Rightarrow> u8 \<Rightarrow> 'c usb \<Rightarrow> u8 list \<times> 'c usb" where
  "transact_cmd B cmd s = transact B [cmd] (usbFlashPropertyLength cmd) s"

text \<open>Reading byte \<open>i\<close> of a response that may be too short.\<close>

definition resp_at :: "'c bus \<Rightarrow> u8 list \<Rightarrow> nat \<Rightarrow> u8" where
  "resp_at B bs i = (if i < length bs then bs ! i else junk B)"

subsection \<open>Configuration and geometry\<close>

definition getConfiguration :: "'c bus \<Rightarrow> 'c usb \<Rightarrow> usb_config \<times> 'c usb" where
  "getConfiguration B s =
     (if config_loaded s then (config s, s)
      else
        let (r1, s1) = transact_cmd B FILENAME_CMD s;
            s2 = (if length r1 > 5
                  then let n = drop 1 r1
                       in s1\<lparr>config := (config s1)\<lparr>cfg_fileName := n[length n - 4 := 46]\<rparr>\<rparr>
                  else s1);
            (r2, s3) = transact_cmd B FILESIZE_CMD s2;
            s4 = s3\<lparr>config := (config s3)\<lparr>cfg_fileSize :=
                   sint (of_nat (unbe (map (resp_at B r2) [1..<5])) :: u32)\<rparr>\<rparr>;
            (r3, s5) = transact_cmd B VISIBILITY_CMD s4;
            s6 = s5\<lparr>config := (config s5)\<lparr>cfg_visible := (resp_at B r3 1 \<noteq> 0)\<rparr>, config_loaded := True\<rparr>
        in (config s6, s6))"

definition getGeometry :: "'c bus \<Rightarrow> 'c usb \<Rightarrow> usb_geometry \<times> 'c usb" where
  "getGeometry B s =
     (if geometry_loaded s then (geometry s, s)
      else
        let (r1, s1) = transact_cmd B SECTOR_SIZE_CMD s;
            s2 = (if length r1 > 0
                  then s1\<lparr>geometry := (geometry s1)\<lparr>geo_blockSize := unbe [resp_at B r1 1, resp_at B r1 2]\<rparr>\<rparr> else s1);
            (r2, s3) = transact_cmd B DISK_SIZE_CMD s2;
            s4 = (if length r2 > 0
                  then s3\<lparr>geometry := (geometry s3)\<lparr>geo_blockCount := unat (resp_at B r2 1)\<rparr>\<rparr> else s3);
            s5 = (if length r1 > 0 \<and> length r2 > 0 then s4\<lparr>geometry_loaded := True\<rparr> else s4)
        in (geometry s5, s5))"

definition isValidChar :: "u8 \<Rightarrow> bool" where
  "isValidChar c \<longleftrightarrow> (48 \<le> c \<and> c \<le> 57) \<or> (65 \<le> c \<and> c \<le> 90) \<or> (97 \<le> c \<and> c \<le> 122) \<or> c = 45 \<or> c = 95"

definition validName :: "u8 list \<Rightarrow> bool" where
  "validName f \<longleftrightarrow>
     (let dots = length (filter (\<lambda>c. c = 46) f);
          invalidChar = list_ex (\<lambda>c. c \<noteq> 46 \<and> \<not> isValidChar c) f
      in \<not> (length f < 5 \<or> length f > 12 \<or> dots = 0 \<or> dots > 1 \<or> invalidChar \<or> f ! (length f - 4) \<noteq> 46))"

definition name_packet :: "u8 list \<Rightarrow> u8 list" where
  "name_packet f =
     blit (blit ((replicate 12 32)[0 := FILENAME_CMD]) 1 (take (length f - 4) f)) 9
       (take 3 (drop (length f - 3) f))"

definition setConfiguration :: "'c bus \<Rightarrow> usb_config \<Rightarrow> bool \<Rightarrow> 'c usb \<Rightarrow> code \<times> 'c usb" where
  "setConfiguration B cfg persist s =
     (let (g, s1) = getGeometry B s in
      if cfg_fileSize cfg \<le> 0 \<or> cfg_fileSize cfg \<ge> int (geo_blockSize g * geo_blockCount g)
      then (INVALID_PARAMETER, s1)
      else if \<not> validName (cfg_fileName cfg) then (INVALID_PARAMETER, s1)
      else
        let fsize = FILESIZE_CMD # be32 (nat (cfg_fileSize cfg));
            fvisible = [VISIBILITY_CMD, if cfg_visible cfg then 1 else 0];
            (r1, s2) = transact B (name_packet (cfg_fileName cfg)) 12 s1;
            (r2, s3) = transact B fsize 2 s2;
            (r3, s4) = transact B fvisible 2 s3;
            s5 = (if persist then snd (transact_cmd B WRITE_CONFIG_CMD s4) else s4)
        in (OK, s5\<lparr>config := cfg\<rparr>))"

definition remount :: "'c bus \<Rightarrow> 'c usb \<Rightarrow> code \<times> 'c usb" where
  "remount B s = (OK, snd (transact B [REMOUNT_CMD] 1 s))"

definition eraseConfig :: "'c bus \<Rightarrow> 'c usb \<Rightarrow> code \<times> 'c usb" where
  "eraseConfig B s = (OK, snd (transact B [ERASE_CONFIG_CMD] 1 s))"

subsection \<open>Reading and writing\<close>

text \<open>The first word of a flash request: the command in the top byte of the address.\<close>

definition request_word :: "u8 \<Rightarrow> nat \<Rightarrow> nat" where
  "request_word cmd address = unat ((of_nat address :: u32) OR push_bit 24 (ucast cmd))"

definition usb_read :: "'c bus \<Rightarrow> nat \<Rightarrow> nat \<Rightarrow> 'c usb \<Rightarrow> u8 list \<times> 'c usb" where
  "usb_read B address words s =
     (let len = (words * 4) mod 2 ^ 32;
          (r, s') = transact B (be32 (request_word READ_CMD address) @ be32 len) (len + 8) s
      in (if length r > 8 then drop 8 r else [], s'))"

definition usb_read_into :: "'c bus \<Rightarrow> 'c usb \<Rightarrow> nat \<Rightarrow> nat \<Rightarrow> u8 list option \<times> 'c usb" where
  "usb_read_into B s address words =
     (let (b, s') = usb_read B address words s
      in (if length b = 0 then None else Some (take ((words * 4) mod 2 ^ 32) b), s'))"

text \<open>
  The fragments of a write: \<open>len\<close> bytes in all, of which \<open>done\<close> are written. The loop runs while
  \<open>p = address + done\<close>, in 32 bits, is below the end; \<open>done < len\<close> holds whenever it does.
\<close>

function write_frags :: "'c bus \<Rightarrow> nat \<Rightarrow> u8 list \<Rightarrow> nat \<Rightarrow> nat \<Rightarrow> 'c usb \<Rightarrow> code \<times> 'c usb" where
  "write_frags B address data len written s =
     (let p = (address + written) mod 2 ^ 32 in
      if p < (address + len) mod 2 ^ 32 \<and> written < len then
        let seg = min KL27_FLASH_MAX_WRITE_LENGTH (len - written);
            (r, s') = transact B (be32 (request_word WRITE_CMD p) @ be32 seg @ take seg (drop written data)) 9 s
        in if length r = 0 then (I2C_ERROR, s') else write_frags B address data len (written + seg) s'
      else (OK, s))"
  by pat_completeness auto
termination
  by (relation "measure (\<lambda>(B, a, d, len, w, s). len - w)") (auto simp: KL27_FLASH_MAX_WRITE_LENGTH_def)

declare write_frags.simps [simp del]

definition usb_write :: "'c bus \<Rightarrow> 'c usb \<Rightarrow> nat \<Rightarrow> u8 list \<Rightarrow> nat \<Rightarrow> code \<times> 'c usb" where
  "usb_write B s address data words = write_frags B address data ((words * 4) mod 2 ^ 32) 0 s"

definition usb_write_buffer :: "'c bus \<Rightarrow> u8 list \<Rightarrow> nat \<Rightarrow> 'c usb \<Rightarrow> code \<times> 'c usb" where
  "usb_write_buffer B data address s = usb_write B s address data (length data div 4)"

subsection \<open>Erasing\<close>

text \<open>The loop over the blocks: it need not end, when the block size is 0 or the end wraps.\<close>

partial_function (option) erase_blocks ::
    "'c bus \<Rightarrow> nat \<Rightarrow> nat \<Rightarrow> nat \<Rightarrow> 'c usb \<Rightarrow> (code \<times> 'c usb) option" where
  "erase_blocks B bsize eraseEnd page s =
     (if page \<le> eraseEnd then
        case transact B (be32 (request_word ERASE_CMD page) @ be32 page) 1 s of (r, s') \<Rightarrow>
          if length r = 0 then Some (I2C_ERROR, s')
          else erase_blocks B bsize eraseEnd ((page + bsize) mod 2 ^ 32) s'
      else Some (OK, s))"

definition usb_erase :: "'c bus \<Rightarrow> nat \<Rightarrow> nat \<Rightarrow> 'c usb \<Rightarrow> (code \<times> 'c usb) option" where
  "usb_erase B address words s0 =
     (let (g, s1) = getGeometry B s0;
          bs = geo_blockSize g;
          len = (words * 4) mod 2 ^ 32;
          stop = (address + len) mod 2 ^ 32
      in if stop > bs * geo_blockCount g then Some (INVALID_PARAMETER, s1)
         else
           let eraseStart = (address div bs) * bs;
               eraseEnd = sub32 ((stop div bs) * bs) (if stop mod bs = 0 then bs else 0);
               slow = (eraseStart \<noteq> address \<or> len \<noteq> (sub32 eraseEnd eraseStart + bs) mod 2 ^ 32);
               restoreLength1 = address - eraseStart;
               restoreLength2 = (bs - stop mod bs) mod bs;
               (b1, s2) = (if slow \<and> restoreLength1 > 0 then usb_read B eraseStart (restoreLength1 div 4) s1 else ([], s1));
               (b2, s3) = (if slow \<and> restoreLength2 > 0 then usb_read B stop (restoreLength2 div 4) s2 else ([], s2))
           in case erase_blocks B bs eraseEnd eraseStart s3 of
                None \<Rightarrow> None
              | Some (OK, s4) \<Rightarrow>
                  let s5 = (if length b1 > 0 then snd (usb_write_buffer B b1 eraseStart s4) else s4);
                      s6 = (if length b2 > 0 then snd (usb_write_buffer B b2 stop s5) else s5)
                  in Some (OK, s6)
              | Some (e, s4) \<Rightarrow> Some (e, s4))"

definition usb_erase_page :: "'c bus \<Rightarrow> nat \<Rightarrow> 'c usb \<Rightarrow> (code \<times> 'c usb) option" where
  "usb_erase_page B page s = (let (g, s1) = getGeometry B s in usb_erase B page (geo_blockSize g div 4) s1)"

definition usb_getFlashStart :: "'c usb \<Rightarrow> nat" where
  "usb_getFlashStart s = 0"

definition usb_getFlashEnd :: "'c bus \<Rightarrow> 'c usb \<Rightarrow> nat \<times> 'c usb" where
  "usb_getFlashEnd B s = (let (g, s') = getGeometry B s in (geo_blockSize g * geo_blockCount g, s'))"

definition usb_getPageSize :: "'c bus \<Rightarrow> 'c usb \<Rightarrow> nat \<times> 'c usb" where
  "usb_getPageSize B s = (let (g, s') = getGeometry B s in (geo_blockSize g, s'))"

definition usb_getFlashSize :: "'c bus \<Rightarrow> 'c usb \<Rightarrow> nat \<times> 'c usb" where
  "usb_getFlashSize B s = usb_getFlashEnd B s"

text \<open>
  The manager as a controller for the storage components. Once the geometry is loaded the
  getters do not change the manager, so only their values are handed on; an erase that does
  not end has no result to hand on: the code given for it stands for nothing in the source, and
  \<open>usb_erase_page_spec\<close> excludes the case.
\<close>

definition usb_ops :: "'c bus \<Rightarrow> 'c usb nvm" where
  "usb_ops B =
     \<lparr>nvm_read = usb_read_into B, nvm_write = usb_write B,
      nvm_erase = (\<lambda>s p. case usb_erase_page B p s of Some r \<Rightarrow> r | None \<Rightarrow> (INVALID_STATE, s)),
      nvm_start = usb_getFlashStart, nvm_end = (\<lambda>s. fst (usb_getFlashEnd B s)),
      nvm_page = (\<lambda>s. fst (usb_getPageSize B s))\<rparr>"

end
