(* ===== verification/USBChip.thy ===== *)
theory USBChip
  imports USBFlash
begin

text \<open>
  The protocol of the USB interface chip, as hypotheses on the bus and the chip behind it, and
  what the flash manager of \<open>USBFlash\<close> then does: each operation's effect on the chip's memory,
  and \<open>usb_contract\<close>, that the manager is a controller in the sense of \<open>NVM\<close>. \<open>transact_loop_safe\<close> and
  \<open>transact_loop_metered\<close> hold on any bus.
\<close>

subsection \<open>The interface chip\<close>

text \<open>
  What the header of the source documents of the commands: a write programs its data at the
  address, an erase wipes the blocks from the address to the end address inclusive, everything
  else leaves the memory alone.
\<close>

definition req_addr :: "u8 list \<Rightarrow> nat" where
  "req_addr req = unbe (take 3 (drop 1 req))"

definition req_len :: "u8 list \<Rightarrow> nat" where
  "req_len req = unbe (take 4 (drop 4 req))"

definition chip_effect :: "nat \<Rightarrow> u8 list \<Rightarrow> mem \<Rightarrow> mem" where
  "chip_effect pg req m =
     (if hd req = WRITE_CMD then burn m (req_addr req) (take (req_len req) (drop 8 req))
      else if hd req = ERASE_CMD then wipe m (req_addr req) (req_len req + pg - req_addr req)
      else m)"

definition chip_answer :: "nat \<Rightarrow> nat \<Rightarrow> mem \<Rightarrow> u8 list \<Rightarrow> nat \<Rightarrow> u8 list \<Rightarrow> bool" where
  "chip_answer pg cnt m req n bs \<longleftrightarrow>
     length bs = n \<and> bs ! 0 = hd req \<and>
     (hd req = SECTOR_SIZE_CMD \<and> n = 3 \<longrightarrow> unbe [bs ! 1, bs ! 2] = pg) \<and>
     (hd req = DISK_SIZE_CMD \<and> n = 2 \<longrightarrow> unat (bs ! 1) = cnt) \<and>
     (hd req = READ_CMD \<and> n = 8 + req_len req \<longrightarrow> drop 8 bs = rdm m (req_addr req) (req_len req))"

text \<open>
  The view of a chip: its memory, whether it works, the request it has accepted, and how many
  more milliseconds it may keep the manager waiting.
\<close>

record 'c view =
  img_of :: "'c \<Rightarrow> mem"
  ok_of :: "'c \<Rightarrow> bool"
  pending_of :: "'c \<Rightarrow> u8 list option"
  lag_of :: "'c \<Rightarrow> nat"

text \<open>
  The protocol. A working chip may refuse a packet, hold back its interrupt line, refuse a read
  or answer with something else, but no more than 19 milliseconds in a row; once that time has
  passed it acknowledges, signals and answers the request it accepted last.
\<close>

definition same_mem :: "'c view \<Rightarrow> 'c \<Rightarrow> 'c \<Rightarrow> bool" where
  "same_mem V c c' \<longleftrightarrow> ok_of V c' \<and> img_of V c' = img_of V c \<and> lag_of V c' \<le> lag_of V c"

definition chip_protocol :: "'c bus \<Rightarrow> 'c view \<Rightarrow> nat \<Rightarrow> nat \<Rightarrow> bool" where
  "chip_protocol B V pg cnt \<longleftrightarrow>
     0 < pg \<and> pg < 2 ^ 16 \<and> 0 < cnt \<and> cnt < 2 ^ 8 \<and> 4 dvd pg \<and>
     (\<forall>c. ok_of V c \<longrightarrow> lag_of V c < MICROBIT_USB_FLASH_MAX_RETRIES) \<and>
     (\<forall>c req c'. ok_of V c \<and> bus_write B c req = (True, c') \<longrightarrow>
        ok_of V c' \<and> img_of V c' = chip_effect pg req (img_of V c) \<and> lag_of V c' \<le> lag_of V c \<and>
        pending_of V c' = Some req) \<and>
     (\<forall>c req c'. ok_of V c \<and> bus_write B c req = (False, c') \<longrightarrow> 0 < lag_of V c \<and> same_mem V c c') \<and>
     (\<forall>c act c'. ok_of V c \<and> bus_irq B c = (act, c') \<longrightarrow>
        same_mem V c c' \<and> pending_of V c' = pending_of V c \<and>
        (lag_of V c = 0 \<and> pending_of V c \<noteq> None \<longrightarrow> act)) \<and>
     (\<forall>c n c'. ok_of V c \<and> bus_read B c n = (None, c') \<longrightarrow> 0 < lag_of V c \<and> same_mem V c c') \<and>
     (\<forall>c req n bs c'. ok_of V c \<and> pending_of V c = Some req \<and> 0 < n \<and> bus_read B c n = (Some bs, c') \<longrightarrow>
        ok_of V c' \<and> img_of V c' = img_of V c \<and>
        (if length bs = n \<and> bs ! 0 = hd req then chip_answer pg cnt (img_of V c) req n bs
         else length bs = n \<and> 0 < lag_of V c \<and> lag_of V c' \<le> lag_of V c)) \<and>
     (\<forall>c. ok_of V c \<longrightarrow> same_mem V c (bus_sleep B c) \<and> pending_of V (bus_sleep B c) = pending_of V c \<and>
        lag_of V (bus_sleep B c) = lag_of V c - 1)"

lemma chip_protocolD:
  assumes "chip_protocol B V pg cnt"
  shows "0 < pg" "pg < 2 ^ 16" "0 < cnt" "cnt < 2 ^ 8" "4 dvd pg"
    "ok_of V c \<Longrightarrow> lag_of V c < MICROBIT_USB_FLASH_MAX_RETRIES"
    "ok_of V c \<Longrightarrow> bus_write B c req = (True, c') \<Longrightarrow>
        ok_of V c' \<and> img_of V c' = chip_effect pg req (img_of V c) \<and> lag_of V c' \<le> lag_of V c \<and>
        pending_of V c' = Some req"
    "ok_of V c \<Longrightarrow> bus_write B c req = (False, c') \<Longrightarrow> 0 < lag_of V c \<and> same_mem V c c'"
    "ok_of V c \<Longrightarrow> bus_irq B c = (act, c') \<Longrightarrow>
        same_mem V c c' \<and> pending_of V c' = pending_of V c \<and>
        (lag_of V c = 0 \<and> pending_of V c \<noteq> None \<longrightarrow> act)"
    "ok_of V c \<Longrightarrow> bus_read B c n = (None, c') \<Longrightarrow> 0 < lag_of V c \<and> same_mem V c c'"
    "ok_of V c \<Longrightarrow> pending_of V c = Some req \<Longrightarrow> 0 < n \<Longrightarrow> bus_read B c n = (Some bs, c') \<Longrightarrow>
        ok_of V c' \<and> img_of V c' = img_of V c \<and>
        (if length bs = n \<and> bs ! 0 = hd req then chip_answer pg cnt (img_of V c) req n bs
         else length bs = n \<and> 0 < lag_of V c \<and> lag_of V c' \<le> lag_of V c)"
    "ok_of V c \<Longrightarrow> same_mem V c (bus_sleep B c) \<and> pending_of V (bus_sleep B c) = pending_of V c \<and>
        lag_of V (bus_sleep B c) = lag_of V c - 1"
  using assms unfolding chip_protocol_def by (elim conjE; blast)+

lemma chip_effect_idem: "chip_effect pg req (chip_effect pg req m) = chip_effect pg req m"
  by (auto simp: chip_effect_def burn_def wipe_def fun_eq_iff and.assoc)

subsection \<open>Numbers in packets\<close>

lemma digits256:
  "n = 256 * q1 + r0 \<Longrightarrow> q1 = 256 * q2 + r1 \<Longrightarrow> q2 = 256 * q3 + r2 \<Longrightarrow>
    ((q3 * 256 + r2) * 256 + r1) * 256 + r0 = (n :: nat)"
  by simp

lemma unbe_be32: "n < 2 ^ 32 \<Longrightarrow> unbe (be32 n) = n"
proof -
  assume n: "n < 2 ^ 32"
  have "n = 256 * (n div 256) + n mod 256" "n div 256 = 256 * (n div 65536) + n div 256 mod 256"
    "n div 65536 = 256 * (n div 16777216) + n div 65536 mod 256"
    using div_mult2_eq [of n 256 256] div_mult2_eq [of n 65536 256] by simp_all
  note D = digits256 [OF this]
  have "n div 16777216 mod 256 = n div 16777216" using n by simp
  then show ?thesis unfolding unbe_def be32_def using D by (simp add: unat_of_nat)
qed

lemma of_nat_div_byte: "(of_nat (unat (w :: u32) div 2 ^ k) :: u8) = ucast (drop_bit k w)"
  by (simp add: drop_bit_eq_div [symmetric] unat_drop_bit_eq [symmetric])

lemma be32_word: "be32 (unat (w :: u32)) = [ucast (drop_bit 24 w), ucast (drop_bit 16 w), ucast (drop_bit 8 w), ucast w]"
  using of_nat_div_byte [of w 0] unfolding be32_def of_nat_div_byte by simp

lemma bit_small: "a < 2 ^ n \<Longrightarrow> bit (a :: nat) i \<Longrightarrow> i < n"
  by (metis bit_take_bit_iff take_bit_nat_eq_self)

lemma be32_request:
  assumes a: "a < 2 ^ 24"
  shows "be32 (request_word cmd a) = [cmd, of_nat (a div 2 ^ 16), of_nat (a div 2 ^ 8), of_nat a]"
proof -
  let ?w = "(of_nat a :: u32) OR push_bit 24 (ucast cmd)"
  have u: "unat (of_nat a :: u32) = a" using a by (simp add: unat_of_nat)
  have "(of_nat (a div 2 ^ k) :: u8) = ucast (drop_bit k (of_nat a :: u32))" for k
    using of_nat_div_byte [of "of_nat a" k] u by simp
  from this [of 16] this [of 8] this [of 0]
  have "(of_nat (a div 2 ^ 16) :: u8) = ucast (drop_bit 16 (of_nat a :: u32))"
    "(of_nat (a div 2 ^ 8) :: u8) = ucast (drop_bit 8 (of_nat a :: u32))"
    "(of_nat a :: u8) = ucast (of_nat a :: u32)" by simp_all
  moreover have "ucast (drop_bit 24 ?w) = cmd"
    using bit_small [OF a] by (auto simp: bit_eq_iff bit_simps)
  moreover have "(ucast (drop_bit k ?w) :: u8) = ucast (drop_bit k (of_nat a :: u32))" if "k \<le> 16" for k
    using that by (auto simp: bit_eq_iff bit_simps)
  from this [of 16] this [of 8] this [of 0]
  have "(ucast (drop_bit 16 ?w) :: u8) = ucast (drop_bit 16 (of_nat a :: u32))"
    "(ucast (drop_bit 8 ?w) :: u8) = ucast (drop_bit 8 (of_nat a :: u32))"
    "(ucast ?w :: u8) = ucast (of_nat a :: u32)" by simp_all
  ultimately show ?thesis unfolding request_word_def be32_word by (simp only:)
qed

lemma request_fields:
  assumes "a < 2 ^ 24" and "n < 2 ^ 32" and "req = be32 (request_word cmd a) @ be32 n @ data"
  shows "hd req = cmd" "req ! 0 = cmd" "req \<noteq> []" "req_addr req = a" "req_len req = n" "drop 8 req = data"
proof -
  have "unbe [of_nat (a div 2 ^ 16), of_nat (a div 2 ^ 8), of_nat a] = a"
    using unbe_be32 [of a] assms(1) by (simp add: unbe_def be32_def)
  moreover have "length (be32 n) = 4" by (simp add: be32_def)
  ultimately show "hd req = cmd" "req ! 0 = cmd" "req \<noteq> []" "req_addr req = a" "req_len req = n" "drop 8 req = data"
    using unbe_be32 [OF assms(2)]
    by (simp_all add: assms(3) be32_request [OF assms(1)] req_addr_def req_len_def)
qed

subsection \<open>A transaction with a working chip\<close>

lemma transact_loop_spec:
  "chip_protocol B V pg cnt \<Longrightarrow> req \<noteq> [] \<Longrightarrow> 0 < n \<Longrightarrow> ok_of V (chip s) \<Longrightarrow> lag_of V (chip s) < left \<Longrightarrow>
    img_of V (chip s) = m \<and> sending \<or> img_of V (chip s) = chip_effect pg req m \<Longrightarrow>
    \<not> sending \<longrightarrow> pending_of V (chip s) = Some req \<Longrightarrow>
    \<exists>b c. transact_loop B req n sending left s = (b, s\<lparr>chip := c, awaitingPacket := False\<rparr>) \<and>
      ok_of V c \<and> img_of V c = chip_effect pg req m \<and> chip_answer pg cnt (chip_effect pg req m) req n b"
proof (induction B req n sending left s rule: transact_loop.induct)
  case (1 B req n sending s)
  then show ?case by simp
next
  case (2 B req n left s)
  note P = 2(3) and rn = 2(4,5) and g = 2(6) and lag = 2(7)
  obtain ack c where w: "bus_write B (chip s) req = (ack, c)" by fastforce
  show ?case
  proof (cases ack)
    case False
    have W: "0 < lag_of V (chip s)" "same_mem V (chip s) c"
      using chip_protocolD(8) [OF P g] w False by auto
    have ok: "ok_of V c" using W(2) by (simp add: same_mem_def)
    note S = chip_protocolD(12) [OF P ok]
    have "lag_of V (bus_sleep B c) < left" using S W lag by (auto simp: same_mem_def)
    moreover have "img_of V (bus_sleep B c) = img_of V (chip s)" using S W by (simp add: same_mem_def)
    ultimately show ?thesis
      using 2(1) [OF w [symmetric] _ P rn] False S 2(8) w by (simp add: same_mem_def)
  next
    case True
    have "bus_write B (chip s) req = (True, c)" using w True by simp
    note W = chip_protocolD(7) [OF P g this]
    have "img_of V c = chip_effect pg req m" using W 2(8) chip_effect_idem by metis
    then show ?thesis
      using 2(2) [OF w [symmetric] _ P rn] True W lag w by simp
  qed
next
  case (3 B req n left s)
  note P = 3(4) and rn = 3(5,6) and g = 3(7) and lag = 3(8)
  have img: "img_of V (chip s) = chip_effect pg req m" and pend: "pending_of V (chip s) = Some req"
    using 3(9,10) by auto
  obtain act c where i: "bus_irq B (chip s) = (act, c)" by fastforce
  have I: "same_mem V (chip s) c" "pending_of V c = Some req"
    "lag_of V (chip s) = 0 \<longrightarrow> act" using chip_protocolD(9) [OF P g i] pend by auto
  have ok: "ok_of V c" and lc: "lag_of V c \<le> lag_of V (chip s)" and ic: "img_of V c = chip_effect pg req m"
    using I(1) img by (auto simp: same_mem_def)
  show ?case
  proof (cases act)
    case False
    note S = chip_protocolD(12) [OF P ok]
    have "lag_of V (bus_sleep B c) < left" using S I(3) False lc lag by (cases "lag_of V (chip s)") auto
    then show ?thesis
      using 3(1) [OF i [symmetric] _ P rn] False S I(2) ic i by (simp add: same_mem_def)
  next
    case True
    obtain r c' where r: "bus_read B c n = (r, c')" by fastforce
    show ?thesis
    proof (cases r)
      case None
      have R: "0 < lag_of V c" "same_mem V c c'" using chip_protocolD(10) [OF P ok] r None by auto
      then have ok': "ok_of V c'" by (simp add: same_mem_def)
      note S = chip_protocolD(12) [OF P ok']
      have "lag_of V (bus_sleep B c') < left" using S R lc lag by (auto simp: same_mem_def)
      then show ?thesis
        using 3(2) [OF i [symmetric] _ r [symmetric] None P rn] True S R ic i r None by (simp add: same_mem_def)
    next
      case (Some bs)
      note R = chip_protocolD(11) [OF P ok I(2) rn(2) r [unfolded Some]]
      show ?thesis
      proof (cases "bs ! 0 = hd req")
        case eq: True
        then have "length bs = n" "chip_answer pg cnt (img_of V c) req n bs" "ok_of V c'" "img_of V c' = img_of V c"
          using R by (auto split: if_splits)
        then show ?thesis
          using i True r Some eq ic rn(1)
          by (intro exI [of _ bs] exI [of _ c']) (simp add: hd_conv_nth)
      next
        case False
        then have L: "length bs = n" "0 < lag_of V c" "lag_of V c' \<le> lag_of V c" "ok_of V c'" "img_of V c' = img_of V c"
          using R by (auto split: if_splits)
        note S = chip_protocolD(12) [OF P L(4)]
        have "lag_of V (bus_sleep B c') < left" using S L lc lag by (auto simp: same_mem_def)
        moreover have "bs ! 0 \<noteq> req ! 0" using False rn(1) by (simp add: hd_conv_nth)
        ultimately show ?thesis
          using 3(3) [OF i [symmetric] _ r [symmetric] Some refl _ P rn] True S L ic i r Some by (simp add: same_mem_def)
      qed
    qed
  qed
qed

lemma transact_spec:
  assumes P: "chip_protocol B V pg cnt" and g: "ok_of V (chip s)" and req: "req \<noteq> []" and n: "0 < n"
  shows "\<exists>b c. transact B req n s = (b, s\<lparr>chip := c, awaitingPacket := False\<rparr>) \<and> ok_of V c \<and>
    img_of V c = chip_effect pg req (img_of V (chip s)) \<and> chip_answer pg cnt (img_of V c) req n b"
proof -
  have "lag_of V (chip s) < MICROBIT_USB_FLASH_MAX_RETRIES" using chip_protocolD(6) [OF P g] .
  from transact_loop_spec [OF P req n g this, of "img_of V (chip s)" True]
  show ?thesis by (simp add: transact_def) metis
qed


subsection \<open>The operations on a working chip\<close>

definition usb_good :: "'c view \<Rightarrow> nat \<Rightarrow> nat \<Rightarrow> 'c usb \<Rightarrow> bool" where
  "usb_good V pg cnt s \<longleftrightarrow> ok_of V (chip s) \<and> geometry_loaded s \<and>
     geometry s = \<lparr>geo_blockSize = pg, geo_blockCount = cnt\<rparr>"

definition usb_image :: "'c view \<Rightarrow> 'c usb \<Rightarrow> mem" where
  "usb_image V s = img_of V (chip s)"

lemma usb_good_upd [simp]:
  "usb_good V pg cnt (s\<lparr>chip := c, awaitingPacket := b\<rparr>) \<longleftrightarrow>
     ok_of V c \<and> geometry_loaded s \<and> geometry s = \<lparr>geo_blockSize = pg, geo_blockCount = cnt\<rparr>"
  "usb_image V (s\<lparr>chip := c, awaitingPacket := b\<rparr>) = img_of V c"
  by (auto simp: usb_good_def usb_image_def)

lemma usb_size_bound:
  assumes "chip_protocol B V pg cnt"
  shows "pg * cnt < 2 ^ 24"
proof -
  have "pg * cnt \<le> pg * 2 ^ 8" using chip_protocolD(4) [OF assms] by (intro mult_le_mono2) simp
  also have "\<dots> < 2 ^ 16 * 2 ^ 8" using chip_protocolD(2) [OF assms] by simp
  finally show ?thesis by simp
qed

lemma getGeometry_loaded: "usb_good V pg cnt s \<Longrightarrow>
    getGeometry B s = (\<lparr>geo_blockSize = pg, geo_blockCount = cnt\<rparr>, s)"
  by (simp add: usb_good_def getGeometry_def)

lemma transact_cmd_spec:
  assumes P: "chip_protocol B V pg cnt" and g: "ok_of V (chip s)" and c: "usbFlashPropertyLength cmd > 0"
    and safe: "cmd \<noteq> WRITE_CMD" "cmd \<noteq> ERASE_CMD"
  shows "\<exists>b c. transact_cmd B cmd s = (b, s\<lparr>chip := c, awaitingPacket := False\<rparr>) \<and> ok_of V c \<and>
    img_of V c = img_of V (chip s) \<and>
    chip_answer pg cnt (img_of V c) [cmd] (usbFlashPropertyLength cmd) b"
  using transact_spec [OF P g _ c, of "[cmd]"] safe by (simp add: transact_cmd_def chip_effect_def)

lemma length_3_nth: "length bs = 3 \<Longrightarrow> bs = [bs ! 0, bs ! 1, bs ! 2]"
  by (auto simp: list_eq_iff_nth_eq less_Suc_eq numeral_3_eq_3 numeral_2_eq_2)

lemma getGeometry_spec:
  assumes P: "chip_protocol B V pg cnt" and g: "ok_of V (chip s)" and l: "\<not> geometry_loaded s"
  shows "\<exists>s'. getGeometry B s = (\<lparr>geo_blockSize = pg, geo_blockCount = cnt\<rparr>, s') \<and>
    usb_good V pg cnt s' \<and> usb_image V s' = usb_image V s"
proof -
  have n: "usbFlashPropertyLength SECTOR_SIZE_CMD = 3" "usbFlashPropertyLength DISK_SIZE_CMD = 2"
    by (simp_all add: usbFlashPropertyLength_def usb_cmds)
  obtain b1 c1 where t1: "transact_cmd B SECTOR_SIZE_CMD s = (b1, s\<lparr>chip := c1, awaitingPacket := False\<rparr>)"
    "ok_of V c1" "img_of V c1 = img_of V (chip s)" "chip_answer pg cnt (img_of V c1) [SECTOR_SIZE_CMD] 3 b1"
    using transact_cmd_spec [OF P g, of SECTOR_SIZE_CMD] n by (auto simp: usb_cmds)
  let ?s2 = "s\<lparr>chip := c1, awaitingPacket := False, geometry := (geometry s)\<lparr>geo_blockSize := pg\<rparr>\<rparr>"
  have a1: "b1 \<noteq> []" "unbe [resp_at B b1 1, resp_at B b1 2] = pg"
    using t1(4) by (cases b1; auto simp: chip_answer_def resp_at_def)+
  have ok2: "ok_of V (chip ?s2)" using t1(2) by simp
  obtain b2 c2 where t2: "transact_cmd B DISK_SIZE_CMD ?s2 = (b2, ?s2\<lparr>chip := c2, awaitingPacket := False\<rparr>)"
    "ok_of V c2" "img_of V c2 = img_of V c1" "chip_answer pg cnt (img_of V c2) [DISK_SIZE_CMD] 2 b2"
    using transact_cmd_spec [OF P ok2, of DISK_SIZE_CMD] n by (auto simp: usb_cmds)
  have a2: "b2 \<noteq> []" "unat (resp_at B b2 1) = cnt"
    using t2(4) by (cases b2; auto simp: chip_answer_def resp_at_def)+
  show ?thesis
    using l t1(1) a1 t2 a2 t1(3) by (simp add: getGeometry_def Let_def usb_good_def usb_image_def)
qed

lemma zero_less_header: "0 < 4 * n + (8 :: nat)"
  by simp

lemma usb_read_spec:
  assumes P: "chip_protocol B V pg cnt" and g: "usb_good V pg cnt s"
    and r: "a + 4 * n \<le> pg * cnt" "0 < n"
  shows "\<exists>s'. usb_read B a n s = (rdm (usb_image V s) a (4 * n), s') \<and> usb_good V pg cnt s' \<and>
    usb_image V s' = usb_image V s"
proof -
  define req where "req = be32 (request_word READ_CMD a) @ be32 (4 * n) @ []"
  have b: "a < 2 ^ 24" "4 * n < 2 ^ 32" "4 * n < 2 ^ 24" using r usb_size_bound [OF P] by auto
  note F = request_fields [OF b(1,2) req_def]
  have ok: "ok_of V (chip s)" using g by (simp add: usb_good_def)
  obtain bs c where t: "transact B req (4 * n + 8) s = (bs, s\<lparr>chip := c, awaitingPacket := False\<rparr>)"
    "ok_of V c" "img_of V c = chip_effect pg req (img_of V (chip s))"
    "chip_answer pg cnt (img_of V c) req (4 * n + 8) bs"
    using transact_spec [OF P ok F(3) zero_less_header] by blast
  have e: "img_of V c = img_of V (chip s)" using t(3) F(1) by (simp add: chip_effect_def usb_cmds)
  have "length bs = 4 * n + 8" "drop 8 bs = rdm (img_of V c) a (4 * n)"
    using t(4) F by (auto simp: chip_answer_def add.commute)
  then show ?thesis
    using t(1,2) g b r(2) e
    by (simp add: usb_read_def Let_def req_def mult.commute usb_good_def usb_image_def)
qed

lemma write_frags_spec:
  assumes P: "chip_protocol B V pg cnt" and r: "a + len \<le> pg * cnt" "len \<le> length data"
  shows "usb_good V pg cnt s \<Longrightarrow> w \<le> len \<Longrightarrow> usb_image V s = burn m a (take w data) \<Longrightarrow>
    \<exists>s'. write_frags B a data len w s = (OK, s') \<and> usb_good V pg cnt s' \<and>
      usb_image V s' = burn m a (take len data)"
proof (induction "len - w" arbitrary: w s rule: less_induct)
  case less
  have b: "a + len < 2 ^ 24" using r usb_size_bound [OF P] by linarith
  show ?case
  proof (cases "w < len")
    case False
    then show ?thesis using less.prems by (subst write_frags.simps) simp
  next
    case True
    define seg where "seg = min KL27_FLASH_MAX_WRITE_LENGTH (len - w)"
    have seg: "0 < seg" "seg \<le> len - w" using True by (auto simp: seg_def KL27_FLASH_MAX_WRITE_LENGTH_def)
    let ?d = "take seg (drop w data)"
    define req where "req = be32 (request_word WRITE_CMD (a + w)) @ be32 seg @ ?d"
    have c: "a + w < 2 ^ 24" "seg < 2 ^ 32" using b seg True by auto
    note F = request_fields [OF c req_def]
    have ok: "ok_of V (chip s)" using less.prems(1) by (simp add: usb_good_def)
    obtain bs ch where t: "transact B req 9 s = (bs, s\<lparr>chip := ch, awaitingPacket := False\<rparr>)"
      "ok_of V ch" "img_of V ch = chip_effect pg req (img_of V (chip s))"
      "chip_answer pg cnt (img_of V ch) req 9 bs"
      using transact_spec [OF P ok F(3), of 9] by auto
    let ?s' = "s\<lparr>chip := ch, awaitingPacket := False\<rparr>"
    have "img_of V ch = burn (img_of V (chip s)) (a + w) ?d"
      using t(3) F by (simp add: chip_effect_def)
    also have "\<dots> = burn m a (take (w + seg) data)"
      using less.prems(3) seg r(2) True by (simp add: usb_image_def take_add burn_append)
    finally have im: "usb_image V ?s' = burn m a (take (w + seg) data)" by simp
    have g': "usb_good V pg cnt ?s'" using less.prems(1) t(2) by (simp add: usb_good_def)
    have dec: "len - (w + seg) < len - w" "w + seg \<le> len" using seg True by linarith+
    obtain s' where I: "write_frags B a data len (w + seg) ?s' = (OK, s')" "usb_good V pg cnt s'"
      "usb_image V s' = burn m a (take len data)"
      using less.hyps [OF dec(1) g' dec(2) im] by blast
    have m: "(a + w) mod 2 ^ 32 = a + w" "(a + len) mod 2 ^ 32 = a + len" using b True by auto
    have "length bs \<noteq> 0" using t(4) by (simp add: chip_answer_def)
    then have "write_frags B a data len w s = write_frags B a data len (w + seg) ?s'"
      using t(1) True unfolding req_def
      by (subst write_frags.simps) (simp only: m seg_def [symmetric] Let_def prod.case if_False if_True simp_thms nat_add_left_cancel_less)
    then show ?thesis using I by auto
  qed
qed

lemma usb_write_spec:
  assumes P: "chip_protocol B V pg cnt" and g: "usb_good V pg cnt s"
    and r: "a + 4 * n \<le> pg * cnt" "4 * n \<le> length data"
  shows "\<exists>s'. usb_write B s a data n = (OK, s') \<and> usb_good V pg cnt s' \<and>
    usb_image V s' = burn (usb_image V s) a (take (4 * n) data)"
proof -
  have "(n * 4) mod 2 ^ 32 = 4 * n" using r usb_size_bound [OF P] by simp
  then show ?thesis
    using write_frags_spec [OF P r g, of 0 "usb_image V s"] unfolding usb_write_def by simp
qed

lemma erase_blocks_spec:
  assumes P: "chip_protocol B V pg cnt"
  shows "usb_good V pg cnt s \<Longrightarrow> e = p + k * pg \<Longrightarrow> e + pg \<le> pg * cnt \<Longrightarrow>
    \<exists>s'. erase_blocks B pg e p s = Some (OK, s') \<and> usb_good V pg cnt s' \<and>
      usb_image V s' = wipe (usb_image V s) p (Suc k * pg)"
proof (induction k arbitrary: p s)
  case (0 p s)
  have b: "p < 2 ^ 24" "p < 2 ^ 32" "(p + pg) mod 2 ^ 32 = p + pg"
    using 0 usb_size_bound [OF P] chip_protocolD(1) [OF P] by auto
  define req where "req = be32 (request_word ERASE_CMD p) @ be32 p @ []"
  note F = request_fields [OF b(1,2) req_def]
  have ok: "ok_of V (chip s)" using 0 by (simp add: usb_good_def)
  obtain bs ch where t: "transact B req 1 s = (bs, s\<lparr>chip := ch, awaitingPacket := False\<rparr>)"
    "ok_of V ch" "img_of V ch = chip_effect pg req (img_of V (chip s))"
    "chip_answer pg cnt (img_of V ch) req 1 bs"
    using transact_spec [OF P ok F(3), of 1] by auto
  have "img_of V ch = wipe (img_of V (chip s)) p pg"
    using t(3) F by (simp add: chip_effect_def usb_cmds)
  moreover have "erase_blocks B pg e p s = Some (OK, s\<lparr>chip := ch, awaitingPacket := False\<rparr>)"
  proof -
    have "erase_blocks B pg e (p + pg) x = Some (OK, x)" for x
      using 0(2) chip_protocolD(1) [OF P] by (subst erase_blocks.simps) simp
    moreover have "bs \<noteq> []" using t(4) by (auto simp: chip_answer_def)
    ultimately show ?thesis using t(1) 0(2) b(3) unfolding req_def by (subst erase_blocks.simps) simp
  qed
  ultimately show ?case using 0 t(2) by (simp add: usb_good_def usb_image_def)
next
  case (Suc k p s)
  have pe: "p + pg \<le> e" using Suc.prems(2) by simp
  have b: "p < 2 ^ 24" "p < 2 ^ 32" "(p + pg) mod 2 ^ 32 = p + pg"
    using Suc.prems(3) pe usb_size_bound [OF P] chip_protocolD(1) [OF P] by auto
  define req where "req = be32 (request_word ERASE_CMD p) @ be32 p @ []"
  note F = request_fields [OF b(1,2) req_def]
  have ok: "ok_of V (chip s)" using Suc.prems by (simp add: usb_good_def)
  obtain bs ch where t: "transact B req 1 s = (bs, s\<lparr>chip := ch, awaitingPacket := False\<rparr>)"
    "ok_of V ch" "img_of V ch = chip_effect pg req (img_of V (chip s))"
    "chip_answer pg cnt (img_of V ch) req 1 bs"
    using transact_spec [OF P ok F(3), of 1] by auto
  let ?s1 = "s\<lparr>chip := ch, awaitingPacket := False\<rparr>"
  have im: "usb_image V ?s1 = wipe (usb_image V s) p pg"
    using t(3) F by (simp add: chip_effect_def usb_cmds usb_image_def)
  have g1: "usb_good V pg cnt ?s1" using Suc.prems(1) t(2) by (simp add: usb_good_def)
  obtain s' where I: "erase_blocks B pg e (p + pg) ?s1 = Some (OK, s')" "usb_good V pg cnt s'"
    "usb_image V s' = wipe (usb_image V ?s1) (p + pg) (Suc k * pg)"
    using Suc.IH [OF g1, of "p + pg"] Suc.prems(2,3) by auto
  have "erase_blocks B pg e p s = erase_blocks B pg e (p + pg) ?s1"
  proof -
    have "bs \<noteq> []" using t(4) by (auto simp: chip_answer_def)
    then show ?thesis using t(1) pe b(3) unfolding req_def by (subst erase_blocks.simps) simp
  qed
  moreover have "wipe (usb_image V ?s1) (p + pg) (Suc k * pg) = wipe (usb_image V s) p (Suc (Suc k) * pg)"
    unfolding im by (auto simp: wipe_def fun_eq_iff)
  ultimately show ?case using I by auto
qed


lemma usb_write_buffer_spec:
  assumes P: "chip_protocol B V pg cnt" and g: "usb_good V pg cnt s"
    and r: "a + length data \<le> pg * cnt" "4 dvd length data"
  shows "\<exists>s'. (if length data > 0 then snd (usb_write_buffer B data a s) else s) = s' \<and>
    usb_good V pg cnt s' \<and> usb_image V s' = burn (usb_image V s) a data"
proof -
  have n: "4 * (length data div 4) = length data" using r(2) by simp
  obtain s' where "usb_write B s a data (length data div 4) = (OK, s')" "usb_good V pg cnt s'"
    "usb_image V s' = burn (usb_image V s) a (take (4 * (length data div 4)) data)"
    using usb_write_spec [OF P g, of a "length data div 4" data] r n by auto
  then show ?thesis using g n by (cases "data = []") (auto simp: usb_write_buffer_def)
qed

text \<open>The saved parts put back around the erased range.\<close>

lemma restore_range:
  assumes "es \<le> a" and "stop + r2 = es + n" and "a \<le> stop"
  shows "burn (burn (wipe m es n) es (rdm m es (a - es))) stop (rdm m stop r2) = wipe m a (stop - a)"
  using assms by (auto simp: burn_def wipe_def fun_eq_iff)

lemma block_end:
  assumes "0 < pg" and "0 < (stop :: nat)"
  obtains q r where "stop = q * pg + r + 1" "r < pg" "(stop - 1) div pg = q"
    "stop mod pg = (if r + 1 = pg then 0 else r + 1)" "stop div pg = (if r + 1 = pg then q + 1 else q)"
proof -
  define q r where "q = (stop - 1) div pg" and "r = (stop - 1) mod pg"
  have e: "stop = q * pg + r + 1" using assms(2) div_mult_mod_eq [of "stop - 1" pg] by (simp add: q_def r_def)
  have r: "r < pg" using assms(1) by (simp add: r_def)
  have st: "stop mod pg = (if r + 1 = pg then 0 else r + 1) \<and> stop div pg = (if r + 1 = pg then q + 1 else q)"
  proof (cases "r + 1 = pg")
    case True
    then have "stop = (q + 1) * pg" using e by simp
    then show ?thesis
      using True assms(1) by simp_all
  next
    case False
    then have lt: "r + 1 < pg" and e': "stop = q * pg + (r + 1)" using r e by simp_all
    have "stop mod pg = r + 1" unfolding e' using lt by simp
    moreover have "stop div pg = q" unfolding e' by (rule div_nat_eqI) (use lt in \<open>simp_all add: mult.commute\<close>)
    ultimately show ?thesis
      using False by simp_all
  qed
  show thesis by (rule that [OF e r _ conjunct1 [OF st] conjunct2 [OF st]]) (simp add: q_def)
qed

lemma usb_erase_spec:
  assumes P: "chip_protocol B V pg cnt" and g: "usb_good V pg cnt s"
    and r: "a + 4 * n \<le> pg * cnt" "0 < n" "4 dvd a"
  shows "\<exists>s'. usb_erase B a n s = Some (OK, s') \<and> usb_good V pg cnt s' \<and>
    usb_image V s' = wipe (usb_image V s) a (4 * n)"
proof -
  define stop es ee where "stop = a + 4 * n" and "es = a div pg * pg" and "ee = (stop - 1) div pg * pg"
  define r2 where "r2 = (pg - stop mod pg) mod pg"
  note C = chip_protocolD [OF P] and sz = usb_size_bound [OF P]
  have pos: "0 < pg" "4 dvd pg" by (rule C(1), rule C(5))
  have m: "(n * 4) mod 2 ^ 32 = 4 * n" "(a + 4 * n) mod 2 ^ 32 = stop" using r sz by (auto simp: stop_def)
  have es: "es \<le> a" "4 dvd es" using pos by (auto simp: es_def)
  have spos: "0 < stop" "a \<le> stop - 1" "stop - 1 < pg * cnt" using r by (auto simp: stop_def)
  obtain q t where Q: "stop = q * pg + t + 1" "t < pg" "(stop - 1) div pg = q"
    "stop mod pg = (if t + 1 = pg then 0 else t + 1)" "stop div pg = (if t + 1 = pg then q + 1 else q)"
    using block_end [OF pos(1) spos(1)] by blast
  have eq: "ee = q * pg" unfolding ee_def Q(3) by (rule refl)
  have ee: "stop + r2 = ee + pg" using Q by (auto simp: eq r2_def)
  have s4: "4 dvd stop" using r(3) unfolding stop_def by (intro dvd_add) simp_all
  have "4 dvd stop + r2" unfolding ee eq using pos(2) by (intro dvd_add dvd_mult)
  then have four: "4 dvd stop" "4 dvd r2" using s4 by (simp_all add: dvd_add_right_iff)
  have top: "ee + pg \<le> pg * cnt" unfolding ee_def by (rule block_fits) (use spos in auto)
  have ale: "a div pg \<le> q" unfolding Q(3) [symmetric] using spos(2) by (rule div_le_mono)
  then have k: "ee = es + (q - a div pg) * pg" unfolding eq es_def
    by (metis add_mult_distrib le_add_diff_inverse)
  have ee_code: "sub32 (stop div pg * pg) (if stop mod pg = 0 then pg else 0) = ee"
    using Q top sz by (auto simp: eq sub32_le)
  have d: "sub32 ee es = ee - es" "(ee - es + pg) mod 2 ^ 32 = ee - es + pg"
    using k top sz by (auto simp: sub32_le)
  have fast: "a - es = 0 \<and> r2 = 0" if "es = a" "4 * n = ee - es + pg"
    using that ee k by (auto simp: stop_def)
  let ?m = "usb_image V s"
  let ?slow = "es \<noteq> a \<or> 4 * n \<noteq> (sub32 ee es + pg) mod 2 ^ 32"
  have read1: "\<exists>s2. (if ?slow \<and> a - es > 0 then usb_read B es ((a - es) div 4) s else ([], s))
      = (rdm ?m es (a - es), s2) \<and> usb_good V pg cnt s2 \<and> usb_image V s2 = ?m"
  proof (cases "a - es = 0")
    case False
    have n4: "4 * ((a - es) div 4) = a - es" using r(3) es(2) by (simp add: dvd_diff_nat)
    have w: "es + 4 * ((a - es) div 4) \<le> pg * cnt" "0 < (a - es) div 4"
      using n4 False es(1) spos by linarith+
    show ?thesis using usb_read_spec [OF P g w] False n4 by auto
  qed (use g in simp)
  then obtain s2 where S2: "(if ?slow \<and> a - es > 0 then usb_read B es ((a - es) div 4) s else ([], s))
      = (rdm ?m es (a - es), s2)" "usb_good V pg cnt s2" "usb_image V s2 = ?m" by blast
  have read2: "\<exists>s3. (if ?slow \<and> r2 > 0 then usb_read B stop (r2 div 4) s2 else ([], s2))
      = (rdm ?m stop r2, s3) \<and> usb_good V pg cnt s3 \<and> usb_image V s3 = ?m"
  proof (cases "r2 = 0")
    case False
    have n4: "4 * (r2 div 4) = r2" using four(2) by simp
    have w: "stop + 4 * (r2 div 4) \<le> pg * cnt" "0 < r2 div 4"
      using n4 False ee top by linarith+
    have "?slow" using fast d False by (metis bot_nat_0.not_eq_extremum)
    then show ?thesis using usb_read_spec [OF P S2(2) w] False n4 S2(3) by auto
  qed (use S2 in simp)
  then obtain s3 where S3: "(if ?slow \<and> r2 > 0 then usb_read B stop (r2 div 4) s2 else ([], s2))
      = (rdm ?m stop r2, s3)" "usb_good V pg cnt s3" "usb_image V s3 = ?m" by blast
  obtain s4 where S4: "erase_blocks B pg ee es s3 = Some (OK, s4)" "usb_good V pg cnt s4"
    "usb_image V s4 = wipe ?m es (Suc (q - a div pg) * pg)"
    using erase_blocks_spec [OF P S3(2) k top] S3(3) by auto
  obtain s5 where S5: "(if length (rdm ?m es (a - es)) > 0 then snd (usb_write_buffer B (rdm ?m es (a - es)) es s4) else s4) = s5"
    "usb_good V pg cnt s5" "usb_image V s5 = burn (usb_image V s4) es (rdm ?m es (a - es))"
    using usb_write_buffer_spec [OF P S4(2), of es "rdm ?m es (a - es)"] es r(3) spos by (auto simp: dvd_diff_nat)
  obtain s6 where S6: "(if length (rdm ?m stop r2) > 0 then snd (usb_write_buffer B (rdm ?m stop r2) stop s5) else s5) = s6"
    "usb_good V pg cnt s6" "usb_image V s6 = burn (usb_image V s5) stop (rdm ?m stop r2)"
    using usb_write_buffer_spec [OF P S5(2), of stop "rdm ?m stop r2"] ee top four by auto
  have "\<not> pg * cnt < stop" using spos(1,3) by linarith
  then have "usb_erase B a n s = Some (OK, s6)"
    unfolding usb_erase_def getGeometry_loaded [OF g] Let_def prod.case usb_geometry.simps m
      es_def [symmetric] ee_code r2_def [symmetric]
    using S2(1) S3(1) S4(1) S5(1) S6(1) by simp (auto split: if_splits)
  moreover have "usb_image V s6 = wipe ?m a (stop - a)"
    unfolding S6(3) S5(3) S4(3) by (rule restore_range) (use es ee k spos in \<open>simp_all\<close>)
  ultimately show ?thesis using S6(2) by (simp add: stop_def)
qed


lemma usb_erase_page_spec:
  assumes P: "chip_protocol B V pg cnt" and g: "usb_good V pg cnt s" and r: "p + pg \<le> pg * cnt" "pg dvd p"
  shows "\<exists>s'. usb_erase_page B p s = Some (OK, s') \<and> usb_good V pg cnt s' \<and>
    usb_image V s' = wipe (usb_image V s) p pg"
proof -
  note C = chip_protocolD [OF P]
  have n: "4 * (pg div 4) = pg" "4 dvd p" using C(5) dvd_trans [OF C(5) r(2)] by simp_all
  have w: "p + 4 * (pg div 4) \<le> pg * cnt" "0 < pg div 4" using n(1) r(1) C(1) by linarith+
  show ?thesis
    using usb_erase_spec [OF P g w n(2)] getGeometry_loaded [OF g] n(1) by (simp add: usb_erase_page_def)
qed

subsection \<open>The manager fulfils the controller's contract\<close>

lemma usb_contract:
  assumes P: "chip_protocol B V pg cnt"
  shows "nvm_contract (usb_ops B) (usb_image V) (usb_good V pg cnt) 0 (pg * cnt) pg"
proof unfold_locales
  note C = chip_protocolD [OF P]
  fix d :: "'a usb" and a n p :: nat and bs :: "u8 list"
  assume g: "usb_good V pg cnt d"
  show "nvm_start (usb_ops B) d = 0 \<and> nvm_end (usb_ops B) d = pg * cnt \<and> nvm_page (usb_ops B) d = pg"
    using getGeometry_loaded [OF g]
    by (simp add: usb_ops_def usb_getFlashStart_def usb_getFlashEnd_def usb_getPageSize_def)
  show "0 < pg \<and> 4 dvd pg \<and> pg dvd 0 \<and> pg dvd pg * cnt \<and> pg * cnt \<le> 2 ^ 32"
    using C(1,5) usb_size_bound [OF P] by simp
  {
    assume r: "a + 4 * n \<le> pg * cnt" "0 < n"
    have m: "(n * 4) mod 2 ^ 32 = 4 * n" using r usb_size_bound [OF P] by simp
    obtain s' where "usb_read B a n d = (rdm (usb_image V d) a (4 * n), s')" "usb_good V pg cnt s'"
      "usb_image V s' = usb_image V d" using usb_read_spec [OF P g r] by blast
    moreover have "rdm (usb_image V d) a (4 * n) \<noteq> []" using r(2) by (simp add: rdm_def)
    ultimately show "fst (nvm_read (usb_ops B) d a n) = Some (rdm (usb_image V d) a (4 * n))"
      and "usb_image V (snd (nvm_read (usb_ops B) d a n)) = usb_image V d"
      and "usb_good V pg cnt (snd (nvm_read (usb_ops B) d a n))"
      using r(2) m by (simp_all add: usb_ops_def usb_read_into_def)
  }
  {
    assume "a + 4 * n \<le> pg * cnt" "4 * n \<le> length bs"
    from usb_write_spec [OF P g this]
    show "usb_image V (snd (nvm_write (usb_ops B) d a bs n)) = burn (usb_image V d) a (take (4 * n) bs)"
      and "usb_good V pg cnt (snd (nvm_write (usb_ops B) d a bs n))"
      by (auto simp: usb_ops_def)
  }
  {
    assume "p + pg \<le> pg * cnt" "pg dvd p"
    from usb_erase_page_spec [OF P g this]
    show "usb_image V (snd (nvm_erase (usb_ops B) d p)) = wipe (usb_image V d) p pg"
      and "usb_good V pg cnt (snd (nvm_erase (usb_ops B) d p))"
      by (auto simp: usb_ops_def)
  }
qed


subsection \<open>Transactions on any bus\<close>

lemma transact_loop_safe:
  "0 < n \<Longrightarrow> transact_loop B req n sending left s = (b, s') \<Longrightarrow>
    \<not> awaitingPacket s' \<and> (b = [] \<or> length b = n \<and> b ! 0 = req ! 0) \<and>
    (\<exists>c. s' = s\<lparr>chip := c, awaitingPacket := False\<rparr>)"
proof (induction B req n sending left s arbitrary: b s' rule: transact_loop.induct)
  case (1 B req n sending s)
  then show ?case by (auto intro!: exI [of _ "chip s"])
next
  case (2 B req n left s)
  obtain ack c where w: "bus_write B (chip s) req = (ack, c)" by fastforce
  show ?case
  proof (cases ack)
    case True
    have "transact_loop B req n False (Suc left) (s\<lparr>chip := c, awaitingPacket := True\<rparr>) = (b, s')"
      using 2(4) w True by simp
    from 2(2) [OF w [symmetric] _ 2(3) this] show ?thesis using True by simp
  next
    case False
    have "transact_loop B req n True left (s\<lparr>chip := bus_sleep B c\<rparr>) = (b, s')"
      using 2(4) w False by simp
    from 2(1) [OF w [symmetric] False 2(3) this] show ?thesis by simp
  qed
next
  case (3 B req n left s)
  obtain act c where i: "bus_irq B (chip s) = (act, c)" by fastforce
  obtain r c' where r: "bus_read B c n = (r, c')" by fastforce
  show ?case
  proof (cases act)
    case False
    have "transact_loop B req n False left (s\<lparr>chip := bus_sleep B c\<rparr>) = (b, s')"
      using 3(5) i False by simp
    from 3(1) [OF i [symmetric] False 3(4) this] show ?thesis by simp
  next
    case act: True
    show ?thesis
    proof (cases r)
      case None
      have "transact_loop B req n True left (s\<lparr>chip := bus_sleep B c'\<rparr>) = (b, s')"
        using 3(5) i act r None by simp
      from 3(2) [OF i [symmetric] _ r [symmetric] None 3(4) this] act show ?thesis by simp
    next
      case (Some bs)
      let ?b = "take n (bs @ replicate n 0)"
      show ?thesis
      proof (cases "?b ! 0 \<noteq> req ! 0")
        case True
        have "transact_loop B req n True left (s\<lparr>chip := bus_sleep B c'\<rparr>) = (b, s')"
          using 3(5) i act r Some True by (simp add: Let_def)
        from 3(3) [OF i [symmetric] _ r [symmetric] Some refl True 3(4) this] act show ?thesis by simp
      next
        case False
        then have "b = ?b" "s' = s\<lparr>chip := c', awaitingPacket := False\<rparr>"
          using 3(5) i act r Some by (simp_all add: Let_def)
        then show ?thesis using False by auto
      qed
    qed
  qed
qed

text \<open>A bus that counts the packets it carries.\<close>

definition metered :: "'c bus \<Rightarrow> ('c \<times> nat) bus" where
  "metered B =
     \<lparr>bus_write = (\<lambda>(c, k) req. case bus_write B c req of (r, c') \<Rightarrow> (r, (c', Suc k))),
      bus_irq = (\<lambda>(c, k). case bus_irq B c of (r, c') \<Rightarrow> (r, (c', k))),
      bus_read = (\<lambda>(c, k) n. case bus_read B c n of (r, c') \<Rightarrow> (r, (c', Suc k))),
      bus_sleep = (\<lambda>(c, k). (bus_sleep B c, k)), junk = junk B\<rparr>"

lemma metered_counts:
  "bus_write (metered B) c req = (r, c') \<Longrightarrow> snd c' = Suc (snd c)"
  "bus_irq (metered B) c = (r, c') \<Longrightarrow> snd c' = snd c"
  "bus_read (metered B) c n = (r', c') \<Longrightarrow> snd c' = Suc (snd c)"
  "snd (bus_sleep (metered B) c) = snd c"
  by (auto simp: metered_def split: prod.splits)

lemma transact_loop_metered:
  "M = metered B \<Longrightarrow> transact_loop M req n sending left s = (b, s') \<Longrightarrow>
    snd (chip s') \<le> snd (chip s) + (if sending then 2 * left else 2 * left - 1)"
proof (induction M req n sending left s arbitrary: b s' rule: transact_loop.induct)
  case (1 M req n sending s)
  then show ?case by auto
next
  case (2 M req n left s)
  obtain ack c where w: "bus_write M (chip s) req = (ack, c)" by (cases "bus_write M (chip s) req")
  have k: "snd c = Suc (snd (chip s))" "snd (bus_sleep M c) = snd c"
    using metered_counts(1,4) w 2(3) by metis+
  show ?case
  proof (cases ack)
    case True
    have "transact_loop M req n False (Suc left) (s\<lparr>chip := c, awaitingPacket := True\<rparr>) = (b, s')"
      using 2(4) w True by simp
    from 2(2) [OF w [symmetric] _ 2(3) this] show ?thesis using True k by simp
  next
    case False
    have "transact_loop M req n True left (s\<lparr>chip := bus_sleep M c\<rparr>) = (b, s')"
      using 2(4) w False by simp
    from 2(1) [OF w [symmetric] False 2(3) this] show ?thesis using k by simp
  qed
next
  case (3 M req n left s)
  obtain act c where i: "bus_irq M (chip s) = (act, c)" by (cases "bus_irq M (chip s)")
  obtain r c' where r: "bus_read M c n = (r, c')" by (cases "bus_read M c n")
  have k: "snd c = snd (chip s)" "snd c' = Suc (snd (chip s))" "\<And>x. snd (bus_sleep M x) = snd x"
    using metered_counts(2,3,4) i r 3(4) by metis+
  show ?case
  proof (cases act)
    case False
    have "transact_loop M req n False left (s\<lparr>chip := bus_sleep M c\<rparr>) = (b, s')"
      using 3(5) i False by simp
    from 3(1) [OF i [symmetric] False 3(4) this] show ?thesis using k by simp
  next
    case act: True
    show ?thesis
    proof (cases r)
      case None
      have "transact_loop M req n True left (s\<lparr>chip := bus_sleep M c'\<rparr>) = (b, s')"
        using 3(5) i act r None by simp
      from 3(2) [OF i [symmetric] _ r [symmetric] None 3(4) this] act k show ?thesis by simp
    next
      case (Some bs)
      let ?b = "take n (bs @ replicate n 0)"
      show ?thesis
      proof (cases "?b ! 0 \<noteq> req ! 0")
        case True
        have "transact_loop M req n True left (s\<lparr>chip := bus_sleep M c'\<rparr>) = (b, s')"
          using 3(5) i act r Some True by (simp add: Let_def)
        from 3(3) [OF i [symmetric] _ r [symmetric] Some refl True 3(4) this] act k show ?thesis by simp
      next
        case False
        then have "s' = s\<lparr>chip := c', awaitingPacket := False\<rparr>"
          using 3(5) i act r Some by (simp add: Let_def)
        then show ?thesis using k by simp
      qed
    qed
  qed
qed

subsection \<open>A chip for the witnesses\<close>

text \<open>2048 bytes in blocks of 256. It keeps the manager waiting for two polls after each answer.\<close>

type_synonym demo_chip = "mem \<times> u8 list option \<times> nat"

definition demo_answer :: "mem \<Rightarrow> u8 list \<Rightarrow> nat \<Rightarrow> u8 list" where
  "demo_answer m req n =
     (if hd req = SECTOR_SIZE_CMD \<and> n = 3 then [SECTOR_SIZE_CMD, 1, 0]
      else if hd req = DISK_SIZE_CMD \<and> n = 2 then [DISK_SIZE_CMD, 8]
      else if hd req = READ_CMD \<and> n = 8 + req_len req
        then (READ_CMD # replicate 7 0) @ rdm m (req_addr req) (req_len req)
      else hd req # replicate (n - 1) 0)"

definition demo_bus :: "demo_chip bus" where
  "demo_bus =
     \<lparr>bus_write = (\<lambda>(m, p, k) req. (True, (chip_effect 256 req m, Some req, k))),
      bus_irq = (\<lambda>(m, p, k). (k = 0, (m, p, k))),
      bus_read = (\<lambda>(m, p, k) n.
        (case p of None \<Rightarrow> (Some [], (m, p, 2)) | Some req \<Rightarrow> (Some (demo_answer m req n), (m, p, 2)))),
      bus_sleep = (\<lambda>(m, p, k). (m, p, k - 1)), junk = 0\<rparr>"

definition demo_view :: "demo_chip view" where
  "demo_view = \<lparr>img_of = fst, ok_of = (\<lambda>(m, p, k). k < 20), pending_of = (\<lambda>(m, p, k). p),
     lag_of = (\<lambda>(m, p, k). k)\<rparr>"

lemma demo_answer_ok: "0 < n \<Longrightarrow> chip_answer 256 8 m req n (demo_answer m req n)"
  by (auto simp: chip_answer_def demo_answer_def usb_cmds unbe_def nth_append)

lemma demo_answer_self:
  "demo_answer m req (length bs) = bs \<Longrightarrow> bs \<noteq> [] \<Longrightarrow> chip_answer 256 8 m req (length bs) bs"
  using demo_answer_ok [of "length bs" m req] by simp

lemma demo_protocol: "chip_protocol demo_bus demo_view 256 8"
proof -
  have "length (demo_answer m req n) = n \<and> demo_answer m req n ! 0 = hd req \<and>
      chip_answer 256 8 m req n (demo_answer m req n)" if "0 < n" for m req n
    using demo_answer_ok [OF that, of m req] by (auto simp: chip_answer_def)
  then show ?thesis
    unfolding chip_protocol_def
    by (intro conjI allI impI)
       (auto simp: demo_bus_def demo_view_def same_mem_def MICROBIT_USB_FLASH_MAX_RETRIES_def
          intro: demo_answer_self split: option.splits)
qed

definition demo_usb :: "demo_chip usb" where
  "demo_usb = (usb_new (\<lambda>_. 0, None, 2))\<lparr>geometry := \<lparr>geo_blockSize = 256, geo_blockCount = 8\<rparr>,
     geometry_loaded := True\<rparr>"

lemma demo_usb_good: "usb_good demo_view 256 8 demo_usb" "usb_image demo_view demo_usb = (\<lambda>_. 0)"
  by (simp_all add: demo_usb_def usb_good_def usb_image_def usb_new_def demo_view_def)

end
