(* ===== verification/USBLog.thy ===== *)
theory USBLog
  imports LogProperties USBChip
begin

text \<open>
  The properties of the USB flash manager, and those of the log on it: the device the runtime
  gives to \<open>MicroBitLog\<close> is this manager (\<open>model/MicroBit.cpp\<close>), so the locale \<open>log_device\<close> is
  applied here to the manager over a chip that keeps its protocol.
\<close>

subsection \<open>The configuration commands\<close>

lemma validNameD:
  "validName f \<Longrightarrow> 5 \<le> length f \<and> length f \<le> 12 \<and> f ! (length f - 4) = 46"
  by (auto simp: validName_def Let_def)

lemma name_packet_eq:
  assumes "5 \<le> length f" "length f \<le> 12"
  shows "name_packet f =
    FILENAME_CMD # take (length f - 4) f @ replicate (12 - length f) 32 @ drop (length f - 3) f"
proof -
  have l: "length (drop (length f - 3) f) = 3" "length (take (length f - 4) f) = length f - 4"
    using assms by auto
  have r: "(replicate 12 32)[0 := FILENAME_CMD] = FILENAME_CMD # replicate 11 32"
    by (simp add: numeral_eq_Suc)
  have d: "drop (1 + (length f - 4)) (FILENAME_CMD # replicate 11 32) = replicate (15 - length f) 32"
    using assms by simp
  have "blit (FILENAME_CMD # replicate 11 32) 1 (take (length f - 4) f) =
      FILENAME_CMD # take (length f - 4) f @ replicate (15 - length f) 32"
    unfolding blit_def l d by simp
  then show ?thesis
    unfolding name_packet_def r using assms l by (simp add: blit_def)
qed

text \<open>A chip that keeps the packets it is sent and answers each.\<close>

definition echo_bus :: "u8 list list bus" where
  "echo_bus =
     \<lparr>bus_write = (\<lambda>c req. (True, c @ [req])), bus_irq = (\<lambda>c. (True, c)),
      bus_read = (\<lambda>c n. (Some (last c), c)), bus_sleep = id, junk = 0\<rparr>"

lemma echo_transact:
  assumes "req \<noteq> []" and "0 < n"
  shows "transact echo_bus req n s =
    (take n (req @ replicate n 0), s\<lparr>chip := chip s @ [req], awaitingPacket := False\<rparr>)"
proof -
  have "take n (req @ replicate n 0) ! 0 = req ! 0" using assms by (cases req) simp_all
  then show ?thesis
    by (simp add: transact_def MICROBIT_USB_FLASH_MAX_RETRIES_def numeral_eq_Suc echo_bus_def Let_def)
qed


lemma transact_cmd_echo: "0 < usbFlashPropertyLength cmd \<Longrightarrow>
    snd (transact_cmd echo_bus cmd s) = s\<lparr>chip := chip s @ [[cmd]], awaitingPacket := False\<rparr>"
  by (simp add: transact_cmd_def echo_transact)

lemma setConfiguration_rejected:
  assumes "geometry_loaded s"
    and "cfg_fileSize cfg \<le> 0 \<or> cfg_fileSize cfg \<ge> int (geo_blockSize (geometry s) * geo_blockCount (geometry s))
      \<or> \<not> validName (cfg_fileName cfg)"
  shows "setConfiguration B cfg persist s = (INVALID_PARAMETER, s)"
  using assms by (auto simp: setConfiguration_def getGeometry_def)

lemma name_packet_props: "validName f \<Longrightarrow> name_packet f \<noteq> [] \<and> hd (name_packet f) = FILENAME_CMD"
  using name_packet_eq [of f] validNameD [of f] by simp

lemma setConfiguration_accepted:
  assumes "geometry_loaded s" and "0 < cfg_fileSize cfg"
    and "cfg_fileSize cfg < int (geo_blockSize (geometry s) * geo_blockCount (geometry s))"
    and "validName (cfg_fileName cfg)"
  shows "setConfiguration echo_bus cfg persist s = (OK, s\<lparr>config := cfg, awaitingPacket := False,
    chip := chip s @ [name_packet (cfg_fileName cfg), FILESIZE_CMD # be32 (nat (cfg_fileSize cfg)),
      [VISIBILITY_CMD, if cfg_visible cfg then 1 else 0]] @ (if persist then [[WRITE_CONFIG_CMD]] else [])\<rparr>)"
proof -
  have "0 < usbFlashPropertyLength WRITE_CONFIG_CMD" by (simp add: usbFlashPropertyLength_def usb_cmds)
  then show ?thesis
    using assms name_packet_props [OF assms(4)]
    by (simp add: setConfiguration_def getGeometry_def echo_transact transact_cmd_echo)
qed

text \<open>The configuration commands leave the flash as it is.\<close>

lemma transact_config:
  assumes P: "chip_protocol B V pg cnt" and g: "usb_good V pg cnt s" and "req \<noteq> []" and "0 < n"
    and "hd req \<noteq> WRITE_CMD" "hd req \<noteq> ERASE_CMD"
  shows "usb_good V pg cnt (snd (transact B req n s)) \<and> usb_image V (snd (transact B req n s)) = usb_image V s"
proof -
  have "ok_of V (chip s)" using g by (simp add: usb_good_def)
  from transact_spec [OF P this assms(3,4)] show ?thesis
    using g assms(5,6) by (auto simp: usb_good_def usb_image_def chip_effect_def)
qed

lemma setConfiguration_good:
  assumes P: "chip_protocol B V pg cnt" and g: "usb_good V pg cnt s"
  shows "usb_good V pg cnt (snd (setConfiguration B cfg persist s)) \<and>
    usb_image V (snd (setConfiguration B cfg persist s)) = usb_image V s"
proof (cases "cfg_fileSize cfg \<le> 0 \<or> cfg_fileSize cfg \<ge> int (pg * cnt) \<or> \<not> validName (cfg_fileName cfg)")
  case True
  then show ?thesis using g getGeometry_loaded [OF g] by (auto simp: setConfiguration_def)
next
  case False
  let ?f = "name_packet (cfg_fileName cfg)"
  let ?z = "FILESIZE_CMD # be32 (nat (cfg_fileSize cfg))" and ?v = "[VISIBILITY_CMD, if cfg_visible cfg then 1 else 0]"
  note N = name_packet_props [of "cfg_fileName cfg"]
  have t: "usb_good V pg cnt (snd (transact B req n s)) \<and> usb_image V (snd (transact B req n s)) = usb_image V s"
    if "usb_good V pg cnt s" "req \<in> {?f, ?z, ?v, [WRITE_CONFIG_CMD]}" "0 < n" for req n s
    using that N False by (intro transact_config [OF P that(1)]) (auto simp: usb_cmds)
  define s2 where "s2 = snd (transact B ?f 12 s)"
  define s3 where "s3 = snd (transact B ?z 2 s2)"
  define s4 where "s4 = snd (transact B ?v 2 s3)"
  define s5 where "s5 = (if persist then snd (transact B [WRITE_CONFIG_CMD] 1 s4) else s4)"
  have g2: "usb_good V pg cnt s2 \<and> usb_image V s2 = usb_image V s" unfolding s2_def by (rule t [OF g]) simp_all
  then have g3: "usb_good V pg cnt s3 \<and> usb_image V s3 = usb_image V s"
    using t [of s2 ?z 2] unfolding s3_def by simp
  then have g4: "usb_good V pg cnt s4 \<and> usb_image V s4 = usb_image V s"
    using t [of s3 ?v 2] unfolding s4_def by simp
  then have g5: "usb_good V pg cnt s5 \<and> usb_image V s5 = usb_image V s"
    using t [of s4 "[WRITE_CONFIG_CMD]" 1] unfolding s5_def by simp
  have "usbFlashPropertyLength WRITE_CONFIG_CMD = 1" by (simp add: usbFlashPropertyLength_def usb_cmds)
  then have "snd (setConfiguration B cfg persist s) = s5\<lparr>config := cfg\<rparr>"
    using False getGeometry_loaded [OF g]
    by (auto simp: setConfiguration_def transact_cmd_def Let_def s2_def s3_def s4_def s5_def split: prod.splits)
  then show ?thesis using g5 by (simp add: usb_good_def usb_image_def)
qed

lemma remount_good:
  assumes "chip_protocol B V pg cnt" and "usb_good V pg cnt s"
  shows "usb_good V pg cnt (snd (USBFlash.remount B s)) \<and> usb_image V (snd (USBFlash.remount B s)) = usb_image V s"
  using transact_config [OF assms, of "[REMOUNT_CMD]" 1] by (simp add: USBFlash.remount_def usb_cmds)

lemma transact_cmd_fields:
  "0 < usbFlashPropertyLength cmd \<Longrightarrow> config (snd (transact_cmd B cmd s)) = config s"
  using transact_loop_safe [of "usbFlashPropertyLength cmd" B "[cmd]" True MICROBIT_USB_FLASH_MAX_RETRIES s]
  by (cases "transact_cmd B cmd s") (fastforce simp: transact_cmd_def transact_def)

lemma getConfiguration_name:
  assumes "\<not> config_loaded s" and "transact_cmd B FILENAME_CMD s = (c # n, s1)" and "length n > 4"
  shows "cfg_fileName (fst (getConfiguration B s)) = n[length n - 4 := 46]"
proof -
  have l: "0 < usbFlashPropertyLength FILESIZE_CMD" "0 < usbFlashPropertyLength VISIBILITY_CMD"
    by (simp_all add: usbFlashPropertyLength_def usb_cmds)
  show ?thesis
    using assms transact_cmd_fields [OF l(1), of B] transact_cmd_fields [OF l(2), of B]
    by (simp add: getConfiguration_def Let_def case_prod_beta)
qed

subsection \<open>An erase of nothing\<close>

definition hangs :: "'c view \<Rightarrow> nat \<Rightarrow> 'c bus \<Rightarrow> nat \<Rightarrow> nat \<Rightarrow> nat \<Rightarrow> 'c usb \<Rightarrow> bool" where
  "hangs V cnt B pg ee p s \<longleftrightarrow> chip_protocol B V pg cnt \<and> pg dvd 2 ^ 32 \<and> ee = 2 ^ 32 - pg \<and>
     pg dvd p \<and> p < 2 ^ 32 \<and> ok_of V (chip s)"

lemma hangs_step:
  assumes H: "hangs V cnt B pg ee p s"
  shows "\<exists>b s'. p \<le> ee \<and> transact B (be32 (request_word ERASE_CMD p) @ be32 p) 1 s = (b, s') \<and> b \<noteq> [] \<and>
    hangs V cnt B pg ee ((p + pg) mod 2 ^ 32) s'"
proof -
  have P: "chip_protocol B V pg cnt" and d: "pg dvd 2 ^ 32" "ee = 2 ^ 32 - pg" "pg dvd p" "p < 2 ^ 32"
    and ok: "ok_of V (chip s)" using H by (auto simp: hangs_def)
  have "pg dvd 2 ^ 32 - p" using d(1,3) by (rule dvd_diff_nat)
  then have "pg \<le> 2 ^ 32 - p" using d(4) by (intro dvd_imp_le) simp_all
  then have le: "p \<le> ee" using d(2,4) by simp
  define req where "req = be32 (request_word ERASE_CMD p) @ be32 p"
  have "req \<noteq> []" by (simp add: req_def be32_def)
  from transact_spec [OF P ok this, of 1] obtain b c where
    t: "transact B req 1 s = (b, s\<lparr>chip := c, awaitingPacket := False\<rparr>)" "ok_of V c"
      "chip_answer pg cnt (img_of V c) req 1 b" by auto
  have "b \<noteq> []" using t(3) by (auto simp: chip_answer_def)
  moreover have "pg dvd (p + pg) mod 2 ^ 32" using d(1,3) by (simp add: dvd_mod)
  ultimately show ?thesis using le t P d ok unfolding req_def by (auto simp: hangs_def)
qed

lemma erase_blocks_hang:
  assumes "hangs V cnt B pg ee p s"
  shows "erase_blocks B pg ee p s = None"
proof (rule ccontr)
  assume "erase_blocks B pg ee p s \<noteq> None"
  then obtain r where "erase_blocks B pg ee p s = Some r" by blast
  then have "\<not> hangs V cnt B pg ee p s"
  proof (rule erase_blocks.raw_induct [where P = "\<lambda>B pg ee p s r. \<not> hangs V cnt B pg ee p s", rotated])
    fix rec B pg ee p s r
    assume IH: "\<And>B pg ee p s r. rec B pg ee p s = Some r \<Longrightarrow> \<not> hangs V cnt B pg ee p s"
      and step: "(if p \<le> ee then case transact B (be32 (request_word ERASE_CMD p) @ be32 p) 1 s of
          (r, s') \<Rightarrow> if length r = 0 then Some (I2C_ERROR, s') else rec B pg ee ((p + pg) mod 2 ^ 32) s'
        else Some (OK, s)) = Some r"
    show "\<not> hangs V cnt B pg ee p s"
    proof
      assume "hangs V cnt B pg ee p s"
      then obtain b s' where "p \<le> ee" "transact B (be32 (request_word ERASE_CMD p) @ be32 p) 1 s = (b, s')"
        "b \<noteq> []" "hangs V cnt B pg ee ((p + pg) mod 2 ^ 32) s'" using hangs_step by blast
      with step IH show False by auto
    qed
  qed
  with assms show False by blast
qed

lemma usb_erase_nothing:
  assumes P: "chip_protocol B V pg cnt" and g: "usb_good V pg cnt s" and d: "pg dvd 2 ^ 32"
  shows "usb_erase B 0 0 s = None"
proof -
  have pg: "0 < pg" "pg < 2 ^ 32" using chip_protocolD(1,2) [OF P] by auto
  have e: "sub32 0 pg = 2 ^ 32 - pg" using pg by (simp add: sub32_def)
  have "hangs V cnt B pg (2 ^ 32 - pg) 0 s" using P d g by (simp add: hangs_def usb_good_def)
  then have "erase_blocks B pg (2 ^ 32 - pg) 0 s = None" by (rule erase_blocks_hang)
  moreover have "(sub32 (2 ^ 32 - pg) 0 + pg) mod 2 ^ 32 = 0" using pg by (simp add: sub32_def mod_simps)
  ultimately show ?thesis
    using getGeometry_loaded [OF g, of B] pg e by (simp add: usb_erase_def Let_def)
qed


subsection \<open>The log on the interface chip\<close>

definition usb_env :: "'c bus \<Rightarrow> u8 list \<Rightarrow> (int \<Rightarrow> u8 list) \<Rightarrow> u8 \<Rightarrow> 'c usb log_env" where
  "usb_env B hdr it jk =
     \<lparr>ctrl = usb_ops B,
      setConfiguration = (\<lambda>s f n. snd (USBFlash.setConfiguration B
        \<lparr>cfg_fileName = f, cfg_fileSize = int n, cfg_visible = True\<rparr> True s)),
      remount = (\<lambda>s. snd (USBFlash.remount B s)), header = hdr, itoa = it, junk = jk\<rparr>"

lemma usb_log_device:
  assumes P: "chip_protocol B V (256 * k) cnt"
  shows "log_device (usb_ops B) (usb_image V) (usb_good V (256 * k) cnt) (256 * k * cnt) (256 * k)
    (usb_env B hdr it jk)"
  using usb_contract [OF P] setConfiguration_good [OF P] remount_good [OF P]
  by (intro log_device.intro log_device_axioms.intro) (simp_all add: usb_env_def)

text \<open>
  The manager after a start of the program: its object is empty, and the first thing \<open>init\<close> and
  \<open>clear\<close> of the log do is to ask it for the page size, which reads the geometry from the chip. A
  loss of power takes the manager there from any state.
\<close>

definition usb_boot :: "'c bus \<Rightarrow> 'c \<Rightarrow> 'c usb" where
  "usb_boot B c = snd (usb_getPageSize B (usb_new c))"

definition usb_reboot :: "'c bus \<Rightarrow> ('c \<Rightarrow> 'c) \<Rightarrow> 'c usb \<Rightarrow> 'c usb" where
  "usb_reboot B wake s = usb_boot B (wake (chip s))"

lemma usb_boot_good:
  assumes "chip_protocol B V pg cnt" and "ok_of V c"
  shows "usb_good V pg cnt (usb_boot B c) \<and> usb_image V (usb_boot B c) = img_of V c"
  using getGeometry_spec [OF assms(1), of "usb_new c"] assms(2)
  by (auto simp: usb_boot_def usb_getPageSize_def usb_new_def usb_image_def)

lemma usb_reboot_good:
  assumes "chip_protocol B V pg cnt" and "\<And>c. ok_of V c \<Longrightarrow> ok_of V (wake c) \<and> img_of V (wake c) = img_of V c"
    and "usb_good V pg cnt s"
  shows "usb_good V pg cnt (usb_reboot B wake s) \<and> usb_image V (usb_reboot B wake s) = usb_image V s"
  using usb_boot_good [OF assms(1), of "wake (chip s)"] assms(2) [of "chip s"] assms(3)
  by (simp add: usb_reboot_def usb_good_def usb_image_def)

text \<open>The address of the metadata: the first page boundary after the header.\<close>

definition after_header :: "u8 list \<Rightarrow> nat \<Rightarrow> nat" where
  "after_header hdr pg =
     (if length hdr mod pg = 0 then length hdr else (1 + length hdr div pg) * pg)"

lemma usb_meta_address:
  "usb_good V pg cnt (fc_flash (cache l)) \<Longrightarrow> meta_address (usb_env B hdr it jk) l = after_header hdr pg"
  using getGeometry_loaded [of V pg cnt "fc_flash (cache l)" B]
  by (simp add: meta_address_def usb_env_def usb_ops_def usb_getPageSize_def after_header_def Let_def)

lemma mlog_new_flash [simp]: "fc_flash (cache (mlog_new dev heap meta)) = dev"
  by (simp add: mlog_new_def fscache_new_def)

subsection \<open>Properties\<close>

text \<open>
  On any bus, working or not, a transaction ends having carried at most 40 packets, leaves the
  power manager not waiting, and returns either nothing or a response of the length asked for
  whose first byte is the command.
\<close>

theorem usb_transact_bounded:
  assumes "0 < n" and "transact (metered B) req n s = (b, s')"
  shows "snd (chip s') \<le> snd (chip s) + 2 * MICROBIT_USB_FLASH_MAX_RETRIES \<and> \<not> awaitingPacket s' \<and>
    (b = [] \<or> length b = n \<and> b ! 0 = req ! 0)"
  using transact_loop_metered [OF refl assms(2) [unfolded transact_def]]
    transact_loop_safe [OF assms(1) assms(2) [unfolded transact_def]] by simp

definition dead_bus :: "unit bus" where
  "dead_bus = \<lparr>bus_write = (\<lambda>c req. (True, c)), bus_irq = (\<lambda>c. (True, c)), bus_read = (\<lambda>c n. (None, c)),
     bus_sleep = id, junk = 0\<rparr>"

theorem usb_transact_bounded_witness:
  "\<exists>b s'. transact (metered dead_bus) [REMOUNT_CMD] 1 (usb_new ((), 0)) = (b, s') \<and> snd (chip s') \<le> 40"
proof -
  obtain b s' where t: "transact (metered dead_bus) [REMOUNT_CMD] 1 (usb_new ((), 0)) = (b, s')"
    by (cases "transact (metered dead_bus) [REMOUNT_CMD] 1 (usb_new ((), 0))")
  from usb_transact_bounded [OF _ this] show ?thesis
    using t by (simp add: usb_new_def MICROBIT_USB_FLASH_MAX_RETRIES_def)
qed

text \<open>
  C12 Erasing any range of whole words, then writing to it and reading it back, gives the bytes
  written; every byte outside the range is as it was, also where blocks are shared with it.
\<close>

theorem usb_rewrite_range:
  assumes "chip_protocol B V pg cnt" and "usb_good V pg cnt s"
    and "4 dvd a" and "0 < n" and "a + 4 * n \<le> pg * cnt" and "length data = 4 * n"
  shows "\<exists>s1 s2 s3. usb_erase B a n s = Some (OK, s1) \<and> usb_write B s1 a data n = (OK, s2) \<and>
    usb_read B a n s2 = (data, s3) \<and>
    (\<forall>x. \<not> (a \<le> x \<and> x < a + 4 * n) \<longrightarrow> usb_image V s3 x = usb_image V s x)"
proof -
  obtain s1 where s1: "usb_erase B a n s = Some (OK, s1)" "usb_good V pg cnt s1"
    "usb_image V s1 = wipe (usb_image V s) a (4 * n)" using usb_erase_spec [OF assms(1,2,5,4,3)] by blast
  have w: "4 * n \<le> length data" using assms(6) by simp
  obtain s2 where s2: "usb_write B s1 a data n = (OK, s2)" "usb_good V pg cnt s2"
    "usb_image V s2 = burn (usb_image V s1) a (take (4 * n) data)"
    using usb_write_spec [OF assms(1) s1(2) assms(5) w] by blast
  obtain s3 where s3: "usb_read B a n s2 = (rdm (usb_image V s2) a (4 * n), s3)"
    "usb_image V s3 = usb_image V s2" using usb_read_spec [OF assms(1) s2(2) assms(5,4)] by blast
  have im: "usb_image V s2 = put (usb_image V s1) a data"
    unfolding s2(3) using assms(6) by (subst burn_eq_put) (simp_all add: s1(3) wipe_in)
  then have "rdm (usb_image V s2) a (4 * n) = data"
    using rdm_put_same [of "usb_image V s1" a data] assms(6) by simp
  moreover have "\<forall>x. \<not> (a \<le> x \<and> x < a + 4 * n) \<longrightarrow> usb_image V s3 x = usb_image V s x"
    unfolding s3(2) im s1(3) using assms(6) by (auto simp: put_def wipe_def)
  ultimately show ?thesis using s1(1) s2(1) s3(1) by auto
qed

theorem usb_rewrite_range_witness:
  "\<exists>s1 s2 s3. usb_erase demo_bus 252 2 demo_usb = Some (OK, s1) \<and>
    usb_write demo_bus s1 252 [1, 2, 3, 4, 5, 6, 7, 8] 2 = (OK, s2) \<and>
    usb_read demo_bus 252 2 s2 = ([1, 2, 3, 4, 5, 6, 7, 8], s3) \<and> usb_image demo_view s3 0 = 0"
  using usb_rewrite_range [OF demo_protocol demo_usb_good(1), of 252 2 "[1, 2, 3, 4, 5, 6, 7, 8]"]
  by (auto simp: demo_usb_good(2))

text \<open>
  Erasing nothing at address 0 never returns on a working chip: the address of the last block to
  erase wraps to the top of the address space, and the loop over the blocks starts over.
\<close>

theorem usb_erase_nothing_hangs:
  assumes "chip_protocol B V pg cnt" and "usb_good V pg cnt s" and "pg dvd 2 ^ 32"
  shows "usb_erase B 0 0 s = None"
  by (rule usb_erase_nothing [OF assms])

theorem usb_erase_nothing_hangs_witness: "usb_erase demo_bus 0 0 demo_usb = None"
  by (rule usb_erase_nothing_hangs [OF demo_protocol demo_usb_good(1)]) simp

text \<open>
  \<open>setConfiguration\<close>: a size outside the disk or a name that is not 8.3 is refused before any
  packet is sent; otherwise the chip is sent exactly the name, padded to 8 and 3 characters, the
  size, the visibility and, for a permanent change, the command to keep them.
\<close>

theorem usb_configuration_packets:
  assumes "geometry_loaded s" and "f = cfg_fileName cfg"
    and "capacity = int (geo_blockSize (geometry s) * geo_blockCount (geometry s))"
  shows "if 0 < cfg_fileSize cfg \<and> cfg_fileSize cfg < capacity \<and> validName f
    then fst (USBFlash.setConfiguration echo_bus cfg persist s) = OK \<and>
      chip (snd (USBFlash.setConfiguration echo_bus cfg persist s)) = chip s @
        [FILENAME_CMD # take (length f - 4) f @ replicate (12 - length f) 32 @ drop (length f - 3) f,
         FILESIZE_CMD # be32 (nat (cfg_fileSize cfg)), [VISIBILITY_CMD, if cfg_visible cfg then 1 else 0]]
        @ (if persist then [[WRITE_CONFIG_CMD]] else [])
    else USBFlash.setConfiguration echo_bus cfg persist s = (INVALID_PARAMETER, s)"
  using setConfiguration_accepted [OF assms(1), of cfg persist]
    setConfiguration_rejected [OF assms(1), of cfg echo_bus persist]
    name_packet_eq [of f] validNameD [of f] unfolding assms(2,3) by (auto simp: not_less)

definition demo_echo :: "u8 list list usb" where
  "demo_echo = (usb_new [])\<lparr>geometry := \<lparr>geo_blockSize = 256, geo_blockCount = 8\<rparr>, geometry_loaded := True\<rparr>"

theorem usb_configuration_packets_witness:
  "chip (snd (USBFlash.setConfiguration echo_bus
      \<lparr>cfg_fileName = [65, 66, 46, 84, 88, 84], cfg_fileSize = 258, cfg_visible = True\<rparr> False demo_echo)) =
    [[1, 65, 66, 32, 32, 32, 32, 32, 32, 84, 88, 84], [2, 0, 0, 1, 2], [3, 1]]"
proof -
  let ?c = "\<lparr>cfg_fileName = [65, 66, 46, 84, 88, 84], cfg_fileSize = 258, cfg_visible = True\<rparr> :: usb_config"
  have "validName (cfg_fileName ?c)" by code_simp
  moreover have "geometry_loaded demo_echo" "geometry demo_echo = \<lparr>geo_blockSize = 256, geo_blockCount = 8\<rparr>"
    "chip demo_echo = []" by (simp_all add: demo_echo_def usb_new_def)
  moreover have "replicate 6 (32 :: u8) = [32, 32, 32, 32, 32, 32]" by (simp add: numeral_eq_Suc)
  ultimately show ?thesis
    using usb_configuration_packets [of demo_echo _ ?c, OF _ refl refl, of False]
    by (simp add: usb_cmds be32_def)
qed

text \<open>
  The name the chip was given does not always come back: \<open>getConfiguration\<close> puts the dot over
  the eighth character and keeps the padding, so that the name read back is the name written
  exactly when its stem has seven characters.
\<close>

theorem usb_name_read_back:
  assumes "\<not> config_loaded s" and "validName f" and "transact_cmd B FILENAME_CMD s = (name_packet f, s1)"
  shows "cfg_fileName (fst (getConfiguration B s)) =
      take 7 (take (length f - 4) f @ replicate 8 32) @ 46 # drop (length f - 3) f \<and>
    (cfg_fileName (fst (getConfiguration B s)) = f \<longleftrightarrow> length f = 11)"
proof -
  let ?p = "take (length f - 4) f @ replicate (12 - length f) 32 @ drop (length f - 3) f"
  have f: "5 \<le> length f" "length f \<le> 12" "f ! (length f - 4) = 46" using validNameD [OF assms(2)] by auto
  note N = name_packet_eq [OF f(1,2)]
  have "cfg_fileName (fst (getConfiguration B s)) = ?p[length ?p - 4 := 46]"
    using assms(1,3) f by (rule_tac getConfiguration_name) (simp_all add: N)
  also have "?p[length ?p - 4 := 46] = take 7 (take (length f - 4) f @ replicate 8 32) @ 46 # drop (length f - 3) f"
  proof -
    let ?x = "take (length f - 4) f @ replicate (12 - length f) 32"
    have l: "length ?x = 8" "length ?p - 4 = 7" using f by auto
    have "?p[length ?p - 4 := 46] = ?x[7 := 46] @ drop (length f - 3) f"
      unfolding l(2) append_assoc [symmetric] using l(1) by (subst list_update_append1) simp_all
    moreover have "?x[7 := 46] = take 7 ?x @ [46]"
      using l(1) by (subst upd_conv_take_nth_drop) simp_all
    moreover have "take 7 ?x = take 7 (take (length f - 4) f @ replicate 8 32)"
      using f by (simp add: min_def, arith)
    ultimately show ?thesis by simp
  qed
  finally have r: "cfg_fileName (fst (getConfiguration B s)) =
    take 7 (take (length f - 4) f @ replicate 8 32) @ 46 # drop (length f - 3) f" .
  have k: "length f - 4 < length f" "Suc (length f - 4) = length f - 3" using f by auto
  have split: "f = take (length f - 4) f @ 46 # drop (length f - 3) f"
    using id_take_nth_drop [OF k(1)] unfolding f(3) k(2) .
  show ?thesis
  proof (cases "length f = 11")
    case True
    then have "take 7 (take (length f - 4) f @ replicate 8 32) = take (length f - 4) f" by simp
    then show ?thesis unfolding r using True split by metis
  next
    case False
    have "length (take 7 (take (length f - 4) f @ replicate 8 32) @ 46 # drop (length f - 3) f) = 11"
      using f by simp
    then show ?thesis unfolding r using False by metis
  qed
qed

text \<open>A chip that only knows its file name.\<close>

definition name_bus :: "u8 list \<Rightarrow> u8 list bus" where
  "name_bus f =
     \<lparr>bus_write = (\<lambda>c req. (True, req)), bus_irq = (\<lambda>c. (True, c)),
      bus_read = (\<lambda>c n. (Some (if hd c = FILENAME_CMD then name_packet f else c), c)), bus_sleep = id, junk = 0\<rparr>"

theorem usb_name_read_back_witness:
  "cfg_fileName (fst (getConfiguration (name_bus [65, 66, 67, 68, 69, 70, 71, 72, 46, 84, 88, 84]) (usb_new []))) =
    [65, 66, 67, 68, 69, 70, 71, 46, 84, 88, 84]"
proof -
  let ?f = "[65, 66, 67, 68, 69, 70, 71, 72, 46, 84, 88, 84] :: u8 list"
  have "validName ?f" by code_simp
  moreover have "\<not> config_loaded (usb_new ([] :: u8 list))" by (simp add: usb_new_def)
  moreover have "fst (transact_cmd (name_bus ?f) FILENAME_CMD (usb_new [])) = name_packet ?f" by code_simp
  then have "transact_cmd (name_bus ?f) FILENAME_CMD (usb_new []) =
      (name_packet ?f, snd (transact_cmd (name_bus ?f) FILENAME_CMD (usb_new [])))"
    by (simp add: prod_eq_iff)
  ultimately show ?thesis using usb_name_read_back [of "usb_new []" ?f "name_bus ?f"] by simp
qed

text \<open>
  C11 The log on the interface chip: on a working chip with room for a log, whatever its flash held
  before, a session of appended strings and power cycles after \<open>clear\<close> leaves exactly the cleaned
  strings, in order, in the log. A power cycle loses all that is in RAM, the log's and the flash
  manager's, so that the geometry is asked of the chip anew; the chip starts again as it does
  (\<open>wake\<close>) with its flash as it was.
\<close>

theorem usb_log_session:
  assumes "chip_protocol B V (256 * k) cnt" and "ok_of V c"
    and "\<And>c. ok_of V c \<Longrightarrow> ok_of V (wake c) \<and> img_of V (wake c) = img_of V c"
    and "ds = after_header hdr (256 * k) + 5 * (256 * k)" and "le = 256 * k * cnt - 256 * k - 4"
    and "ds < le" and "(le - ds) div 256 < 256 * k div 2"
    and "255 \<notin> set (appended evs)" and "ds + length (appended evs) \<le> le"
  shows "\<exists>l. log_run_with (usb_reboot B wake) (usb_env B hdr it jk)
      (clear (usb_env B hdr it jk) (mlog_new (usb_boot B c) heap meta) full) evs = Some l \<and>
    log_data (usb_image V) l = appended_clean evs \<and> usb_good V (256 * k) cnt (fc_flash (cache l))"
proof -
  let ?E = "usb_env B hdr it jk" and ?l = "mlog_new (usb_boot B c) heap meta"
  note L = usb_log_device [OF assms(1), of hdr it jk] and G = usb_boot_good [OF assms(1,2)]
    and R = usb_reboot_good [OF assms(1,3)]
  have m: "meta_address ?E ?l = after_header hdr (256 * k)"
    by (rule usb_meta_address [of V "256 * k" cnt]) (use G in simp)
  have ok: "log_device.cache_ok (usb_image V) (usb_good V (256 * k) cnt) (256 * k * cnt) (cache ?l)"
    by (rule log_device.cache_ok_new [OF L]) (use G in simp)
  note C = log_device.clear_spec [OF L ok, unfolded m, folded assms(4,5), OF assms(6,7), of full]
  then have r: "log_ready (usb_image V) (usb_good V (256 * k) cnt) (256 * k * cnt) (256 * k) (clear ?E ?l full)
      (after_header hdr (256 * k) + 40) (after_header hdr (256 * k) + 40)" by blast
  have g: "usb_good V (256 * k) cnt (fc_flash (cache (clear ?E ?l full)))"
    by (rule log_device.cache_okD(1) [OF L log_device.readyD(1) [OF L r]])
  have "startAddress (clear ?E ?l full) = meta_address ?E (clear ?E ?l full)"
    using C usb_meta_address [OF g] by simp
  from log_device.log_run_with_spec [OF L R r this assms(8)] C assms(9) obtain l where
    l: "log_run_with (usb_reboot B wake) ?E (clear ?E ?l full) evs = Some l"
      "log_ready (usb_image V) (usb_good V (256 * k) cnt) (256 * k * cnt) (256 * k) l
        (after_header hdr (256 * k) + 40) (after_header hdr (256 * k) + 40)"
      "log_data (usb_image V) l = log_data (usb_image V) (clear ?E ?l full) @ appended_clean evs" by auto
  moreover have "log_data (usb_image V) (clear ?E ?l full) = []" using C by (simp add: log_data_def)
  moreover have "usb_good V (256 * k) cnt (fc_flash (cache l))"
    by (rule log_device.cache_okD(1) [OF L log_device.readyD(1) [OF L l(2)]])
  ultimately show ?thesis by simp
qed

theorem usb_log_session_witness:
  "\<exists>l. log_run_with (usb_reboot demo_bus id) (usb_env demo_bus [] demo_itoa 0)
      (clear (usb_env demo_bus [] demo_itoa 0) (mlog_new (usb_boot demo_bus (chip demo_usb)) [] []) False)
      [Append [97], Power_cycle [] [], Append [98]] = Some l \<and>
    log_data (usb_image demo_view) l = cleaned [97] False @ cleaned [98] False"
proof -
  have "chip_protocol demo_bus demo_view (256 * 1) 8" "ok_of demo_view (chip demo_usb)"
    using demo_protocol demo_usb_good(1) by (simp_all add: usb_good_def)
  from usb_log_session [OF this _ refl refl, of id "[]" "[Append [97], Power_cycle [] [], Append [98]]" demo_itoa 0 "[]" "[]" False]
  show ?thesis by (auto simp: after_header_def)
qed

end
