(* ===== verification/Radio.thy ===== *)
theory Radio
  imports MB_Prelude Fifo
begin

text \<open>
  \<open>MicroBitRadio\<close>, \<open>MicroBitRadioDatagram\<close> and \<open>MicroBitRadioEvent\<close> (\<open>source/MicroBitRadio*.cpp\<close>):
  the interrupt handler takes packets from the radio hardware into a queue of at most four, an
  idle callback hands them on, datagrams to a second queue for the user, events to the message
  bus. The three objects hold references to each other and are one record here.

  The hardware is outside the repository: \<open>rx_on\<close> and \<open>irq\<close> stand for the transceiver and the
  interrupt mask, the upper-case fields are the registers that vary, \<open>sent\<close> collects the frames
  handed to the transmitter. Busy waiting for the hardware ends at once. Of the registers that
  \<open>enable\<close> sets to constants only the packet layout \<open>PCNF1\<close> is kept, whose low byte is the longest
  frame the hardware passes; mode, base address and CRC are not modelled. Buffers carry an
  identity, \<open>fid\<close>, their address; \<open>fresh\<close> is the next one the allocator gives out.
\<close>

definition MICROBIT_RADIO_POWER_LEVEL :: "u8 list" where
  "MICROBIT_RADIO_POWER_LEVEL = [0xD8, 0xD8, 0xEC, 0xF0, 0xF4, 0xF8, 0xFC, 0x00, 0x03, 0x04]"

abbreviation MAXIMUM_RX_BUFFERS :: nat where "MAXIMUM_RX_BUFFERS \<equiv> 4"
abbreviation MAX_PACKET_SIZE :: nat where "MAX_PACKET_SIZE \<equiv> 32"
abbreviation HEADER_SIZE :: nat where "HEADER_SIZE \<equiv> 4"
abbreviation PROTOCOL_DATAGRAM :: u8 where "PROTOCOL_DATAGRAM \<equiv> 1"
abbreviation PROTOCOL_EVENTBUS :: u8 where "PROTOCOL_EVENTBUS \<equiv> 2"
abbreviation RADIO_INITIALISED :: u32 where "RADIO_INITIALISED \<equiv> 1"
abbreviation RADIO_DEEPSLEEP_IRQ :: u32 where "RADIO_DEEPSLEEP_IRQ \<equiv> 2"
abbreviation RADIO_DEEPSLEEP_INIT :: u32 where "RADIO_DEEPSLEEP_INIT \<equiv> 4"

text \<open>What goes over the air, and a buffer that holds it.\<close>

record packet =
  flength :: u8
  version :: u8
  fgroup :: u8
  protocol :: u8
  payload :: "u8 list"

record frame =
  fid :: nat
  body :: packet
  frssi :: "code + int"

datatype radio_event = RADIO_DATAGRAM | DATA_READY u8

record radio =
  group :: u8
  queueDepth :: nat
  rssi :: int
  rxQueue :: "frame list"
  rxBuf :: "frame option"
  status :: u32
  idle_tick :: bool
  TXPOWER :: u8
  FREQUENCY :: nat
  PREFIX0 :: u8
  PCNF1 :: u32
  PACKETPTR :: "nat option"
  irq :: bool
  rx_on :: bool
  ble :: bool
  mem_ok :: bool
  fresh :: nat
  sent :: "packet list"
  dg_rxQueue :: "frame list"
  suppressForwarding :: bool
  events :: "radio_event list"

definition radio_new :: radio where
  "radio_new =
     \<lparr>group = 0, queueDepth = 0, rssi = 0, rxQueue = [], rxBuf = None, status = 0, idle_tick = False,
      TXPOWER = 0, FREQUENCY = 0, PREFIX0 = 0, PCNF1 = 0, PACKETPTR = None, irq = False, rx_on = False,
      ble = False, mem_ok = True, fresh = 0, sent = [], dg_rxQueue = [], suppressForwarding = False,
      events = []\<rparr>"

subsection \<open>The radio\<close>

definition setTransmitPower :: "int \<Rightarrow> radio \<Rightarrow> code \<times> radio" where
  "setTransmitPower level s =
     (if level < 0 \<or> level \<ge> 10 then (INVALID_PARAMETER, s)
      else (OK, s\<lparr>TXPOWER := MICROBIT_RADIO_POWER_LEVEL ! nat level\<rparr>))"

definition setFrequencyBand :: "int \<Rightarrow> radio \<Rightarrow> code \<times> radio" where
  "setFrequencyBand band s =
     (if ble s then (NOT_SUPPORTED, s)
      else if band < 0 \<or> band > 100 then (INVALID_PARAMETER, s)
      else (OK, s\<lparr>FREQUENCY := nat band\<rparr>))"

definition setGroup :: "u8 \<Rightarrow> radio \<Rightarrow> code \<times> radio" where
  "setGroup g s = (if ble s then (NOT_SUPPORTED, s) else (OK, s\<lparr>group := g, PREFIX0 := g\<rparr>))"

definition setRSSI :: "int \<Rightarrow> radio \<Rightarrow> code \<times> radio" where
  "setRSSI r s = (if \<not> has (status s) RADIO_INITIALISED then (NOT_SUPPORTED, s) else (OK, s\<lparr>rssi := r\<rparr>))"

definition getRSSI :: "radio \<Rightarrow> code + int" where
  "getRSSI s = (if \<not> has (status s) RADIO_INITIALISED then Inl NOT_SUPPORTED else Inr (rssi s))"

text \<open>\<open>new FrameBuffer()\<close>: a zeroed buffer, or nothing.\<close>

definition new_frame :: "radio \<Rightarrow> frame option \<times> radio" where
  "new_frame s =
     (if mem_ok s
      then (Some \<lparr>fid = fresh s, body = \<lparr>flength = 0, version = 0, fgroup = 0, protocol = 0,
              payload = replicate MAX_PACKET_SIZE 0\<rparr>, frssi = Inr 0\<rparr>, s\<lparr>fresh := fresh s + 1\<rparr>)
      else (None, s))"

definition queueRxBuf :: "radio \<Rightarrow> code \<times> radio" where
  "queueRxBuf s =
     (case rxBuf s of
        None \<Rightarrow> (INVALID_PARAMETER, s)
      | Some b \<Rightarrow>
          if queueDepth s \<ge> MAXIMUM_RX_BUFFERS then (NO_RESOURCES, s)
          else
            let b' = b\<lparr>frssi := getRSSI s\<rparr> in
            case new_frame (s\<lparr>rxBuf := Some b'\<rparr>) of
              (None, s1) \<Rightarrow> (NO_RESOURCES, s1)
            | (Some nb, s1) \<Rightarrow>
                (OK, s1\<lparr>rxQueue := rxQueue s1 @ [b'], queueDepth := (queueDepth s1 + 1) mod 256,
                        rxBuf := Some nb\<rparr>))"

text \<open>
  The hardware writes to the buffer \<open>PACKETPTR\<close> points to, whichever that is; the packet is what the
  buffer holds afterwards, where a short packet has left bytes from before.
\<close>

definition dma :: "nat option \<Rightarrow> packet \<Rightarrow> frame \<Rightarrow> frame" where
  "dma ptr p f = (if ptr = Some (fid f) then f\<lparr>body := p\<rparr> else f)"

definition dma_write :: "packet \<Rightarrow> radio \<Rightarrow> radio" where
  "dma_write p s =
     s\<lparr>rxBuf := map_option (dma (PACKETPTR s) p) (rxBuf s),
       rxQueue := map (dma (PACKETPTR s) p) (rxQueue s),
       dg_rxQueue := map (dma (PACKETPTR s) p) (dg_rxQueue s)\<rparr>"

text \<open>The interrupt handler at the end of a packet, and a packet arriving.\<close>

definition RADIO_IRQHandler :: "bool \<Rightarrow> int \<Rightarrow> radio \<Rightarrow> radio" where
  "RADIO_IRQHandler crc sample s =
     (if crc then
        let s1 = snd (setRSSI (- sample) s);
            s2 = snd (queueRxBuf s1)
        in s2\<lparr>PACKETPTR := map_option fid (rxBuf s2)\<rparr>
      else snd (setRSSI 0 s))"

definition packet_arrives :: "packet \<Rightarrow> bool \<Rightarrow> int \<Rightarrow> radio \<Rightarrow> radio" where
  "packet_arrives p crc sample s =
     (if rx_on s \<and> irq s then RADIO_IRQHandler crc sample (dma_write p s) else s)"

definition enable :: "radio \<Rightarrow> code \<times> radio" where
  "enable s =
     (if has (status s) RADIO_INITIALISED then (OK, s)
      else if ble s then (NOT_SUPPORTED, s)
      else case (case rxBuf s of Some b \<Rightarrow> (Some b, s) | None \<Rightarrow> new_frame s) of
          (None, s1) \<Rightarrow> (NO_RESOURCES, s1)
        | (Some b, s1) \<Rightarrow>
            let s2 = s1\<lparr>rxBuf := Some b\<rparr>;
                s3 = snd (setTransmitPower 7 s2);
                s4 = snd (setFrequencyBand 7 s3);
                s5 = snd (setGroup (group s4) s4)
            in (OK, s5\<lparr>PCNF1 := 0x02040000 OR 32, PACKETPTR := Some (fid b), irq := True, rx_on := True, idle_tick := True,
                       status := status s5 OR RADIO_INITIALISED\<rparr>))"

definition disable :: "radio \<Rightarrow> code \<times> radio" where
  "disable s =
     (if ble s then (NOT_SUPPORTED, s)
      else if \<not> has (status s) RADIO_INITIALISED then (OK, s)
      else (OK, s\<lparr>irq := False, rx_on := False, idle_tick := False,
                  status := status s AND NOT RADIO_INITIALISED\<rparr>))"

definition dataReady :: "radio \<Rightarrow> nat" where
  "dataReady s = queueDepth s"

definition recv :: "radio \<Rightarrow> frame option \<times> radio" where
  "recv s =
     (case rxQueue s of
        [] \<Rightarrow> (None, s)
      | p # q \<Rightarrow> (Some p, s\<lparr>rxQueue := q, queueDepth := (queueDepth s + 255) mod 256, irq := True\<rparr>))"

definition send :: "packet option \<Rightarrow> radio \<Rightarrow> code \<times> radio" where
  "send buffer s =
     (if ble s then (NOT_SUPPORTED, s)
      else case buffer of
          None \<Rightarrow> (INVALID_PARAMETER, s)
        | Some p \<Rightarrow>
            if unat (flength p) > MAX_PACKET_SIZE + HEADER_SIZE - 1 then (INVALID_PARAMETER, s)
            else (OK, s\<lparr>sent := sent s @ [p], PACKETPTR := map_option fid (rxBuf s), rx_on := True, irq := True\<rparr>))"

definition setSleep :: "bool \<Rightarrow> radio \<Rightarrow> code \<times> radio" where
  "setSleep doSleep s =
     (if ble s then (NOT_SUPPORTED, s)
      else if doSleep then
        (if has (status s) RADIO_INITIALISED
         then let s1 = snd (disable s) in (OK, s1\<lparr>status := status s1 OR RADIO_DEEPSLEEP_INIT\<rparr>)
         else if irq s then (OK, s\<lparr>status := status s OR RADIO_DEEPSLEEP_IRQ, irq := False\<rparr>)
         else (OK, s))
      else
        (if has (status s) RADIO_DEEPSLEEP_INIT
         then (OK, snd (enable (s\<lparr>status := status s AND NOT RADIO_DEEPSLEEP_INIT\<rparr>)))
         else if has (status s) RADIO_DEEPSLEEP_IRQ
         then (OK, s\<lparr>status := status s AND NOT RADIO_DEEPSLEEP_IRQ, irq := True\<rparr>)
         else (OK, s)))"

subsection \<open>Datagrams\<close>

text \<open>
  \<open>memcpy(buf, p->payload, l)\<close> when \<open>l\<close> is the result of a subtraction: a negative length is taken
  as a huge unsigned one, and a length over 32 reads what lies behind the payload (\<open>beyond\<close>).
\<close>

datatype recv_result = Failed code | Data "u8 list" | Wild_copy int

definition datagram_recv :: "(frame \<Rightarrow> u8 list) \<Rightarrow> bool \<Rightarrow> int \<Rightarrow> radio \<Rightarrow> recv_result \<times> radio" where
  "datagram_recv beyond buf_null len s =
     (if buf_null \<or> dg_rxQueue s = [] \<or> len < 0 then (Failed INVALID_PARAMETER, s)
      else
        let p = hd (dg_rxQueue s);
            l = min len (int (unat (flength (body p))) - (int HEADER_SIZE - 1));
            s' = s\<lparr>dg_rxQueue := tl (dg_rxQueue s)\<rparr>
        in if l < 0 then (Wild_copy l, s')
           else (Data (take (nat l) (payload (body p) @ beyond p)), s'))"

text \<open>The variant that returns a \<open>PacketBuffer\<close>, whose constructor takes a negative length as 0.\<close>

definition datagram_recv_packet :: "(frame \<Rightarrow> u8 list) \<Rightarrow> radio \<Rightarrow> (u8 list \<times> (code + int)) option \<times> radio" where
  "datagram_recv_packet beyond s =
     (if dg_rxQueue s = [] then (None, s)
      else
        let p = hd (dg_rxQueue s);
            l = int (unat (flength (body p))) - (int HEADER_SIZE - 1)
        in (Some (take (nat l) (payload (body p) @ beyond p), frssi p),
            s\<lparr>dg_rxQueue := tl (dg_rxQueue s)\<rparr>))"

text \<open>
  \<open>stack\<close> is what the 32 payload bytes of the local frame hold before the copy. A longer copy runs
  on into the fields behind the payload, which are not sent.
\<close>

definition datagram_send :: "u8 list \<Rightarrow> u8 list option \<Rightarrow> radio \<Rightarrow> code \<times> radio" where
  "datagram_send stack buffer s =
     (case buffer of
        None \<Rightarrow> (INVALID_PARAMETER, s)
      | Some bs \<Rightarrow>
          if length bs > MAX_PACKET_SIZE + HEADER_SIZE - 1 then (INVALID_PARAMETER, s)
          else send (Some \<lparr>flength = of_nat (length bs + HEADER_SIZE - 1), version = 1, fgroup = 0,
                 protocol = PROTOCOL_DATAGRAM,
                 payload = take MAX_PACKET_SIZE (bs @ drop (length bs) stack)\<rparr>) s)"

definition datagram_packetReceived :: "radio \<Rightarrow> radio" where
  "datagram_packetReceived s =
     (case recv s of
        (None, s1) \<Rightarrow> s1
      | (Some p, s1) \<Rightarrow>
          if dg_rxQueue s1 \<noteq> [] \<and> length (dg_rxQueue s1) - 1 \<ge> MAXIMUM_RX_BUFFERS then s1
          else s1\<lparr>dg_rxQueue := dg_rxQueue s1 @ [p], events := events s1 @ [RADIO_DATAGRAM]\<rparr>)"

subsection \<open>Events\<close>

text \<open>
  The message bus is not part of the repository. \<open>fire\<close> is what firing the event in a payload does
  to the radio, \<open>ready\<close> what the handlers of the data-ready event of other protocols do.
\<close>

definition event_packetReceived :: "(u8 list \<Rightarrow> radio \<Rightarrow> radio) \<Rightarrow> radio \<Rightarrow> radio" where
  "event_packetReceived fire s =
     (case recv s of
        (None, s1) \<Rightarrow> s1
      | (Some p, s1) \<Rightarrow>
          (fire (payload (body p)) (s1\<lparr>suppressForwarding := True\<rparr>))\<lparr>suppressForwarding := False\<rparr>)"

definition eventReceived :: "u8 list \<Rightarrow> u8 list \<Rightarrow> radio \<Rightarrow> radio" where
  "eventReceived stack e s =
     (if suppressForwarding s then s
      else snd (send (Some \<lparr>flength = of_nat (length e + HEADER_SIZE - 1), version = 1, fgroup = 0,
             protocol = PROTOCOL_EVENTBUS, payload = take MAX_PACKET_SIZE (e @ drop (length e) stack)\<rparr>) s))"

text \<open>Registering with the message bus: the default one, when there is one.\<close>

definition event_listen ::
    "(u16 \<Rightarrow> u16 \<Rightarrow> 'b \<Rightarrow> code \<times> 'b) \<Rightarrow> u16 \<Rightarrow> u16 \<Rightarrow> 'b option \<Rightarrow> code \<times> 'b option" where
  "event_listen bus_listen i v bus =
     (case bus of None \<Rightarrow> (NO_RESOURCES, None) | Some b \<Rightarrow> map_prod id Some (bus_listen i v b))"

definition event_ignore ::
    "(u16 \<Rightarrow> u16 \<Rightarrow> 'b \<Rightarrow> code \<times> 'b) \<Rightarrow> u16 \<Rightarrow> u16 \<Rightarrow> 'b option \<Rightarrow> code \<times> 'b option" where
  "event_ignore bus_ignore i v bus =
     (case bus of None \<Rightarrow> (INVALID_PARAMETER, None) | Some b \<Rightarrow> map_prod id Some (bus_ignore i v b))"

subsection \<open>The idle callback\<close>

definition handle_packet :: "(u8 list \<Rightarrow> radio \<Rightarrow> radio) \<Rightarrow> (u8 \<Rightarrow> radio \<Rightarrow> radio) \<Rightarrow> frame \<Rightarrow> radio \<Rightarrow> radio" where
  "handle_packet fire ready p s =
     (let s1 = (if protocol (body p) = PROTOCOL_DATAGRAM then datagram_packetReceived s
                else if protocol (body p) = PROTOCOL_EVENTBUS then event_packetReceived fire s
                else ready (protocol (body p)) (s\<lparr>events := events s @ [DATA_READY (protocol (body p))]\<rparr>))
      in if rxQueue s1 \<noteq> [] \<and> fid (hd (rxQueue s1)) = fid p then snd (recv s1) else s1)"

partial_function (option) idleCallback ::
    "(u8 list \<Rightarrow> radio \<Rightarrow> radio) \<Rightarrow> (u8 \<Rightarrow> radio \<Rightarrow> radio) \<Rightarrow> radio \<Rightarrow> radio option" where
  "idleCallback fire ready s =
     (case rxQueue s of
        [] \<Rightarrow> Some s
      | p # q \<Rightarrow> idleCallback fire ready (handle_packet fire ready p s))"

end
