(* ===== verification/RadioProperties.thy ===== *)
theory RadioProperties
  imports Radio
begin

text \<open>
  The invariant of the radio over everything that can happen to it (\<open>radio_reach\<close>), the packet
  queue as an instance of the queue contract of \<open>Fifo\<close>, and the delivery of packets from the
  interrupt to the user.
\<close>

subsection \<open>The invariant\<close>

definition bufs :: "radio \<Rightarrow> frame list" where
  "bufs s = rxQueue s @ dg_rxQueue s @ (case rxBuf s of None \<Rightarrow> [] | Some b \<Rightarrow> [b])"

text \<open>
  The counter is the length of the queue; no buffer is in two places; the hardware writes to the
  receive buffer or nowhere; a radio in use has the packet layout set.
\<close>

definition radio_inv :: "radio \<Rightarrow> bool" where
  "radio_inv s \<longleftrightarrow>
     queueDepth s = length (rxQueue s) \<and> length (rxQueue s) \<le> MAXIMUM_RX_BUFFERS \<and>
     length (dg_rxQueue s) \<le> MAXIMUM_RX_BUFFERS + 1 \<and>
     distinct (map fid (bufs s)) \<and> (\<forall>f \<in> set (bufs s). fid f < fresh s) \<and>
     (PACKETPTR s = None \<or> PACKETPTR s = map_option fid (rxBuf s)) \<and>
     (has (status s) RADIO_INITIALISED \<longrightarrow> rxBuf s \<noteq> None \<and> PCNF1 s = 0x02040020)"

lemma radio_inv_new: "radio_inv radio_new"
  by (simp add: radio_inv_def radio_new_def bufs_def)

lemma radio_inv_fields [simp]:
  "radio_inv (s\<lparr>TXPOWER := x1\<rparr>) = radio_inv s" "radio_inv (s\<lparr>FREQUENCY := x2\<rparr>) = radio_inv s"
  "radio_inv (s\<lparr>group := x3\<rparr>) = radio_inv s" "radio_inv (s\<lparr>PREFIX0 := x3\<rparr>) = radio_inv s"
  "radio_inv (s\<lparr>rssi := x4\<rparr>) = radio_inv s" "radio_inv (s\<lparr>irq := x5\<rparr>) = radio_inv s"
  "radio_inv (s\<lparr>rx_on := x5\<rparr>) = radio_inv s" "radio_inv (s\<lparr>idle_tick := x5\<rparr>) = radio_inv s"
  "radio_inv (s\<lparr>ble := x5\<rparr>) = radio_inv s" "radio_inv (s\<lparr>mem_ok := x5\<rparr>) = radio_inv s"
  "radio_inv (s\<lparr>sent := x6\<rparr>) = radio_inv s" "radio_inv (s\<lparr>suppressForwarding := x5\<rparr>) = radio_inv s"
  "radio_inv (s\<lparr>events := x7\<rparr>) = radio_inv s"
  by (simp_all add: radio_inv_def bufs_def)

lemma radio_inv_status:
  "radio_inv s \<Longrightarrow> (has x RADIO_INITIALISED \<longrightarrow> has (status s) RADIO_INITIALISED) \<Longrightarrow> radio_inv (s\<lparr>status := x\<rparr>)"
  by (auto simp: radio_inv_def bufs_def)

lemma fid_dma [simp]: "fid (dma ptr p f) = fid f"
  by (simp add: dma_def)

lemma map_fid_dma [simp]: "map fid (map (dma ptr p) fs) = map fid fs"
  by (induction fs) auto

text \<open>A packet written by the hardware reaches no queued buffer.\<close>

lemma dma_write_queued:
  assumes "radio_inv s"
  shows "rxQueue (dma_write p s) = rxQueue s \<and> dg_rxQueue (dma_write p s) = dg_rxQueue s"
proof -
  have "dma (PACKETPTR s) p f = f" if "f \<in> set (rxQueue s @ dg_rxQueue s)" for f
    using that assms by (cases "rxBuf s") (auto simp: radio_inv_def bufs_def dma_def)
  then show ?thesis by (simp add: dma_write_def map_idI)
qed

lemma dma_write_eq:
  "radio_inv s \<Longrightarrow> dma_write p s = s\<lparr>rxBuf := map_option (dma (PACKETPTR s) p) (rxBuf s)\<rparr>"
  using dma_write_queued [of s p] by (cases s) (simp add: dma_write_def)

lemma dma_write_inv: "radio_inv s \<Longrightarrow> radio_inv (dma_write p s)"
  by (simp add: dma_write_eq) (auto simp: radio_inv_def bufs_def split: option.splits)

lemma new_frame_props:
  "new_frame s = (None, s') \<Longrightarrow> s' = s"
  "new_frame s = (Some b, s') \<Longrightarrow> fid b = fresh s \<and> s' = s\<lparr>fresh := fresh s + 1\<rparr> \<and> mem_ok s"
  by (auto simp: new_frame_def split: if_splits)

lemma queueRxBuf_inv:
  assumes I: "radio_inv s" and q: "queueRxBuf s = (c, s')"
  shows "radio_inv (s'\<lparr>PACKETPTR := map_option fid (rxBuf s')\<rparr>) \<and> dg_rxQueue s' = dg_rxQueue s \<and>
    (\<exists>new. rxQueue s' = rxQueue s @ new \<and> length new \<le> 1)"
proof (cases "rxBuf s")
  case None
  then show ?thesis using assms by (simp add: queueRxBuf_def radio_inv_def bufs_def)
next
  case (Some b)
  let ?b = "b\<lparr>frssi := getRSSI s\<rparr>"
  show ?thesis
  proof (cases "queueDepth s \<ge> MAXIMUM_RX_BUFFERS")
    case True
    then show ?thesis using assms Some by (simp add: queueRxBuf_def radio_inv_def bufs_def)
  next
    case room: False
    show ?thesis
    proof (cases "mem_ok s")
      case False
      then have "s' = s\<lparr>rxBuf := Some ?b\<rparr>"
        using q Some room by (simp add: queueRxBuf_def Let_def new_frame_def)
      then show ?thesis using I Some by (simp add: radio_inv_def bufs_def)
    next
      case True
      let ?nb = "\<lparr>fid = fresh s, body = \<lparr>flength = 0, version = 0, fgroup = 0, protocol = 0,
          payload = replicate MAX_PACKET_SIZE 0\<rparr>, frssi = Inr 0\<rparr>"
      have "s' = s\<lparr>fresh := fresh s + 1, rxQueue := rxQueue s @ [?b],
          queueDepth := (queueDepth s + 1) mod 256, rxBuf := Some ?nb\<rparr>"
        using True q Some room by (auto simp: queueRxBuf_def Let_def new_frame_def)
      then obtain nb where nb: "fid nb = fresh s"
        "s' = s\<lparr>fresh := fresh s + 1, rxQueue := rxQueue s @ [?b], queueDepth := (queueDepth s + 1) mod 256, rxBuf := Some nb\<rparr>"
        by (metis frame.select_convs(1))
      have d: "(queueDepth s + 1) mod 256 = length (rxQueue s) + 1" "length (rxQueue s) + 1 \<le> MAXIMUM_RX_BUFFERS"
        using I room by (auto simp: radio_inv_def)
      have fr: "fid f < fresh s" if "f \<in> set (rxQueue s @ dg_rxQueue s @ [b])" for f
        using I Some that by (auto simp: radio_inv_def bufs_def)
      then have "fid nb \<notin> fid ` set (rxQueue s @ dg_rxQueue s @ [b])" using nb(1) by fastforce
      then show ?thesis using I Some fr nb(1) d unfolding nb(2)
        by (auto simp: radio_inv_def bufs_def intro: less_SucI)
    qed
  qed
qed

lemma handler_inv:
  assumes I: "radio_inv s"
  shows "radio_inv (RADIO_IRQHandler crc sample s) \<and> dg_rxQueue (RADIO_IRQHandler crc sample s) = dg_rxQueue s \<and>
    (\<exists>new. rxQueue (RADIO_IRQHandler crc sample s) = rxQueue s @ new \<and> length new \<le> 1)"
proof (cases crc)
  case True
  let ?s1 = "snd (setRSSI (- sample) s)"
  have 1: "radio_inv ?s1" "dg_rxQueue ?s1 = dg_rxQueue s" "rxQueue ?s1 = rxQueue s"
    using I by (simp_all add: setRSSI_def)
  obtain c s2 where q: "queueRxBuf ?s1 = (c, s2)" by fastforce
  from queueRxBuf_inv [OF 1(1) q] show ?thesis
    using True 1 q by (simp add: RADIO_IRQHandler_def Let_def)
next
  case False
  then show ?thesis using I by (simp add: RADIO_IRQHandler_def setRSSI_def)
qed

lemma packet_arrives_inv:
  assumes I: "radio_inv s"
  shows "radio_inv (packet_arrives p crc sample s) \<and> dg_rxQueue (packet_arrives p crc sample s) = dg_rxQueue s \<and>
    (\<exists>new. rxQueue (packet_arrives p crc sample s) = rxQueue s @ new \<and> length new \<le> 1)"
  using handler_inv [OF dma_write_inv [OF I], of crc sample p] dma_write_queued [OF I, of p] I
  by (simp add: packet_arrives_def)

lemma recv_inv:
  assumes I: "radio_inv s"
  shows "radio_inv (snd (recv s))"
proof (cases "rxQueue s")
  case (Cons p q)
  then have "(queueDepth s + 255) mod 256 = length q" using I by (simp add: radio_inv_def)
  then show ?thesis using I Cons by (auto simp: recv_def radio_inv_def bufs_def)
qed (use I in \<open>simp add: recv_def\<close>)

lemma enable_inv:
  assumes I: "radio_inv s"
  shows "radio_inv (snd (enable s))"
proof (cases "rxBuf s")
  case None
  then show ?thesis using I
    by (auto simp: enable_def new_frame_def Let_def setTransmitPower_def setFrequencyBand_def setGroup_def
        radio_inv_def bufs_def intro: less_SucI)
next
  case (Some b)
  then show ?thesis using I
    by (auto simp: enable_def Let_def setTransmitPower_def setFrequencyBand_def setGroup_def
        radio_inv_def bufs_def)
qed

lemma status_clear: "has (x AND NOT g) RADIO_INITIALISED \<Longrightarrow> has x RADIO_INITIALISED"
  by (auto simp: has_def bit_eq_iff bit_simps)

lemma disable_inv: "radio_inv s \<Longrightarrow> radio_inv (snd (disable s))"
  by (auto simp: disable_def intro!: radio_inv_status dest: status_clear)

lemma radio_send_inv: "radio_inv s \<Longrightarrow> radio_inv (snd (send b s))"
  by (auto simp: send_def radio_inv_def bufs_def split: option.splits)

lemma status_set: "has (x OR RADIO_DEEPSLEEP_INIT) RADIO_INITIALISED = has x RADIO_INITIALISED"
    "has (x OR RADIO_DEEPSLEEP_IRQ) RADIO_INITIALISED = has x RADIO_INITIALISED"
  by (simp_all add: has_or) (simp_all add: has_def)

lemma setSleep_inv:
  assumes I: "radio_inv s"
  shows "radio_inv (snd (setSleep d s))"
proof -
  have 1: "radio_inv (s\<lparr>status := status s OR RADIO_DEEPSLEEP_IRQ, irq := False\<rparr>)"
    using radio_inv_status [OF I, of "status s OR RADIO_DEEPSLEEP_IRQ"] status_set by simp
  have 2: "radio_inv ((snd (disable s))\<lparr>status := status (snd (disable s)) OR RADIO_DEEPSLEEP_INIT\<rparr>)"
    using radio_inv_status [OF disable_inv [OF I]] status_set by simp
  have 3: "radio_inv (snd (enable (s\<lparr>status := status s AND NOT RADIO_DEEPSLEEP_INIT\<rparr>)))"
    by (intro enable_inv radio_inv_status [OF I] impI) (rule status_clear)
  have 4: "radio_inv (s\<lparr>status := status s AND NOT RADIO_DEEPSLEEP_IRQ\<rparr>)"
    by (intro radio_inv_status [OF I] impI) (rule status_clear)
  show ?thesis
    unfolding setSleep_def Let_def using I 1 2 3 4 by simp
qed

lemma datagram_recv_inv: "radio_inv s \<Longrightarrow> radio_inv (snd (datagram_recv beyond n len s))"
  by (cases "dg_rxQueue s") (auto simp: datagram_recv_def Let_def radio_inv_def bufs_def)

lemma datagram_packetReceived_inv:
  assumes I: "radio_inv s"
  shows "radio_inv (datagram_packetReceived s)"
proof (cases "rxQueue s")
  case Nil
  then show ?thesis using I by (simp add: datagram_packetReceived_def recv_def)
next
  case (Cons p q)
  then have "(queueDepth s + 255) mod 256 = length q" using I by (simp add: radio_inv_def)
  then show ?thesis using I Cons
    by (auto simp: datagram_packetReceived_def recv_def radio_inv_def bufs_def)
qed

lemma event_packetReceived_inv:
  assumes I: "radio_inv s" and f: "\<And>e s. radio_inv s \<Longrightarrow> radio_inv (fire e s)"
  shows "radio_inv (event_packetReceived fire s)"
  using recv_inv [OF I] f by (auto simp: event_packetReceived_def split: prod.splits option.splits)

lemma handle_packet_inv:
  assumes I: "radio_inv s" and f: "\<And>e s. radio_inv s \<Longrightarrow> radio_inv (fire e s)"
    and r: "\<And>e s. radio_inv s \<Longrightarrow> radio_inv (ready e s)"
  shows "radio_inv (handle_packet fire ready p s)"
  using datagram_packetReceived_inv [OF I] event_packetReceived_inv [OF I f] r I
  by (auto simp: handle_packet_def Let_def intro!: recv_inv)

lemma idleCallback_inv:
  assumes f: "\<And>e s. radio_inv s \<Longrightarrow> radio_inv (fire e s)" and r: "\<And>e s. radio_inv s \<Longrightarrow> radio_inv (ready e s)"
    and "idleCallback fire ready s = Some s'" and "radio_inv s"
  shows "radio_inv s'"
proof -
  have "(\<forall>e s. radio_inv s \<longrightarrow> radio_inv (fire e s)) \<longrightarrow> (\<forall>e s. radio_inv s \<longrightarrow> radio_inv (ready e s)) \<longrightarrow>
      radio_inv s \<longrightarrow> radio_inv s'"
    using assms(3)
  proof (rule idleCallback.raw_induct [where P = "\<lambda>fire ready s s'.
      (\<forall>e s. radio_inv s \<longrightarrow> radio_inv (fire e s)) \<longrightarrow> (\<forall>e s. radio_inv s \<longrightarrow> radio_inv (ready e s)) \<longrightarrow>
      radio_inv s \<longrightarrow> radio_inv s'", rotated], intro impI)
    fix rec :: "(u8 list \<Rightarrow> radio \<Rightarrow> radio) \<Rightarrow> (u8 \<Rightarrow> radio \<Rightarrow> radio) \<Rightarrow> radio \<Rightarrow> radio option"
      and fire ready s s'
    assume IH: "\<And>fire ready s s'. rec fire ready s = Some s' \<Longrightarrow>
        (\<forall>e s. radio_inv s \<longrightarrow> radio_inv (fire e s)) \<longrightarrow> (\<forall>e s. radio_inv s \<longrightarrow> radio_inv (ready e s)) \<longrightarrow>
        radio_inv s \<longrightarrow> radio_inv s'"
      and step: "(case rxQueue s of [] \<Rightarrow> Some s | p # q \<Rightarrow> rec fire ready (handle_packet fire ready p s)) = Some s'"
      and f: "\<forall>e s. radio_inv s \<longrightarrow> radio_inv (fire e s)" and r: "\<forall>e s. radio_inv s \<longrightarrow> radio_inv (ready e s)"
      and I: "radio_inv s"
    show "radio_inv s'"
    proof (cases "rxQueue s")
      case Nil
      then show ?thesis using step I by simp
    next
      case (Cons p q)
      have "radio_inv (handle_packet fire ready p s)" by (rule handle_packet_inv [OF I]) (use f r in blast)+
      with IH f r step Cons show ?thesis by simp
    qed
  qed
  then show ?thesis using assms by blast
qed

lemma eventReceived_inv: "radio_inv s \<Longrightarrow> radio_inv (eventReceived stack e s)"
  by (simp add: eventReceived_def radio_send_inv)

text \<open>Everything that can happen to the radio, the message bus forwarding every event to it.\<close>

inductive radio_reach :: "radio \<Rightarrow> bool" where
  start: "radio_reach radio_new"
| arrive: "radio_reach s \<Longrightarrow> radio_reach (packet_arrives p crc sample s)"
| enabled: "radio_reach s \<Longrightarrow> radio_reach (snd (enable s))"
| disabled: "radio_reach s \<Longrightarrow> radio_reach (snd (disable s))"
| sleep: "radio_reach s \<Longrightarrow> radio_reach (snd (setSleep d s))"
| power_level: "radio_reach s \<Longrightarrow> radio_reach (snd (setTransmitPower l s))"
| band: "radio_reach s \<Longrightarrow> radio_reach (snd (setFrequencyBand b s))"
| join: "radio_reach s \<Longrightarrow> radio_reach (snd (setGroup g s))"
| sends: "radio_reach s \<Longrightarrow> radio_reach (snd (send x s))"
| receives: "radio_reach s \<Longrightarrow> radio_reach (snd (recv s))"
| reads: "radio_reach s \<Longrightarrow> radio_reach (snd (datagram_recv beyond null len s))"
| event: "radio_reach s \<Longrightarrow> radio_reach (eventReceived stack e s)"
| idle: "radio_reach s \<Longrightarrow> idleCallback (eventReceived stack) (\<lambda>_. id) s = Some s' \<Longrightarrow> radio_reach s'"
| memory: "radio_reach s \<Longrightarrow> radio_reach (s\<lparr>mem_ok := m\<rparr>)"
| bluetooth: "radio_reach s \<Longrightarrow> radio_reach (s\<lparr>ble := m\<rparr>)"

lemma radio_reach_inv: "radio_reach s \<Longrightarrow> radio_inv s"
proof (induction rule: radio_reach.induct)
  case (idle s stack s')
  then show ?case using idleCallback_inv [OF eventReceived_inv _ idle(2)] by simp
qed (simp_all add: radio_inv_new packet_arrives_inv enable_inv disable_inv setSleep_inv radio_send_inv recv_inv
    datagram_recv_inv eventReceived_inv setTransmitPower_def setFrequencyBand_def setGroup_def)


subsection \<open>The packet queue\<close>

text \<open>A radio in use.\<close>

definition radio_up :: "radio \<Rightarrow> bool" where
  "radio_up s \<longleftrightarrow> radio_inv s \<and> has (status s) RADIO_INITIALISED \<and> rx_on s \<and> irq s \<and> mem_ok s \<and>
     PACKETPTR s = map_option fid (rxBuf s)"

definition packets :: "radio \<Rightarrow> packet list" where
  "packets s = map body (rxQueue s)"

definition radio_enq :: "packet \<Rightarrow> radio \<Rightarrow> bool \<times> radio" where
  "radio_enq p s = (dataReady s < MAXIMUM_RX_BUFFERS, packet_arrives p True 0 s)"

definition radio_deq :: "radio \<Rightarrow> packet option \<times> radio" where
  "radio_deq s = map_prod (map_option body) id (recv s)"

lemma arrives_up:
  assumes U: "radio_up s"
  shows "radio_up (packet_arrives p True k s) \<and> dg_rxQueue (packet_arrives p True k s) = dg_rxQueue s \<and>
    sent (packet_arrives p True k s) = sent s \<and>
    packets (packet_arrives p True k s) =
      (if length (packets s) < MAXIMUM_RX_BUFFERS then packets s @ [p] else packets s)"
proof -
  have I: "radio_inv s" and up: "has (status s) RADIO_INITIALISED" "rx_on s" "irq s" "mem_ok s"
    using U by (auto simp: radio_up_def)
  obtain b where b: "rxBuf s = Some b" using I up(1) by (auto simp: radio_inv_def)
  have ptr: "PACKETPTR s = Some (fid b)" using U b by (simp add: radio_up_def)
  have d: "queueDepth s = length (rxQueue s)" using I by (simp add: radio_inv_def)
  let ?s' = "packet_arrives p True k s"
  note P = packet_arrives_inv [OF I, of p True k]
  have e: "?s' = RADIO_IRQHandler True k (s\<lparr>rxBuf := Some (b\<lparr>body := p\<rparr>)\<rparr>)"
    using up(2,3) dma_write_eq [OF I, of p] b ptr by (simp add: packet_arrives_def dma_def)
  show ?thesis
  proof (cases "length (rxQueue s) < MAXIMUM_RX_BUFFERS")
    case True
    then have "packets ?s' = packets s @ [p] \<and> radio_up ?s' \<and> sent ?s' = sent s"
      using P up d unfolding e
      by (simp add: RADIO_IRQHandler_def setRSSI_def queueRxBuf_def Let_def new_frame_def radio_up_def packets_def)
    then show ?thesis using True P by (simp add: packets_def)
  next
    case False
    then have "packets ?s' = packets s \<and> radio_up ?s' \<and> sent ?s' = sent s"
      using P up d unfolding e
      by (simp add: RADIO_IRQHandler_def setRSSI_def queueRxBuf_def Let_def radio_up_def packets_def)
    then show ?thesis using False P by (simp add: packets_def)
  qed
qed

lemma recv_up:
  assumes U: "radio_up s"
  shows "radio_up (snd (recv s)) \<and> packets (snd (recv s)) = tl (packets s) \<and>
    map_option body (fst (recv s)) = (case packets s of [] \<Rightarrow> None | x # xs \<Rightarrow> Some x)"
  using recv_inv [of s] U
  by (cases "rxQueue s") (simp_all add: radio_up_def packets_def recv_def)

interpretation radioq: bounded_fifo radio_up packets "\<lambda>_. MAXIMUM_RX_BUFFERS" radio_enq radio_deq
proof
  fix s p r s' assume "radio_up s" "radio_enq p s = (r, s')"
  then show "radio_up s' \<and> MAXIMUM_RX_BUFFERS = MAXIMUM_RX_BUFFERS \<and> r = (length (packets s) < MAXIMUM_RX_BUFFERS) \<and>
      packets s' = (if r then packets s @ [p] else packets s)"
    using arrives_up [of s p 0]
    by (auto simp: radio_enq_def dataReady_def packets_def radio_up_def radio_inv_def)
next
  fix s g s' assume "radio_up s" "radio_deq s = (g, s')"
  then show "radio_up s' \<and> MAXIMUM_RX_BUFFERS = MAXIMUM_RX_BUFFERS \<and>
      g = (case packets s of [] \<Rightarrow> None | x # xs \<Rightarrow> Some x) \<and> packets s' = tl (packets s)"
    using recv_up [of s] by (cases "recv s") (auto simp: radio_deq_def)
next
  fix s assume "radio_up s"
  then show "length (packets s) \<le> MAXIMUM_RX_BUFFERS" by (simp add: radio_up_def radio_inv_def packets_def)
qed

subsection \<open>The idle callback hands every packet on\<close>

definition quiet :: "(u8 list \<Rightarrow> radio \<Rightarrow> radio) \<Rightarrow> bool" where
  "quiet fire \<longleftrightarrow> (\<forall>e s. suppressForwarding s \<longrightarrow> fire e s = s)"

lemma eventReceived_quiet: "quiet (eventReceived stack)"
  by (simp add: quiet_def eventReceived_def)

lemma handle_packet_spec:
  assumes I: "radio_inv s" and q: "rxQueue s = p # q" and f: "quiet fire"
  defines "s' \<equiv> handle_packet fire (\<lambda>_. id) p s"
  shows "radio_inv s' \<and> rxQueue s' = q \<and> sent s' = sent s \<and>
    dg_rxQueue s' = take (MAXIMUM_RX_BUFFERS + 1)
      (dg_rxQueue s @ (if protocol (body p) = PROTOCOL_DATAGRAM then [p] else []))"
proof -
  have ne: "fid (hd q) \<noteq> fid p" if "q \<noteq> []"
    using I q that by (cases q) (auto simp: radio_inv_def bufs_def)
  have len: "length (dg_rxQueue s) \<le> 5" using I by (simp add: radio_inv_def)
  have r: "snd (recv s) = s\<lparr>rxQueue := q, queueDepth := (queueDepth s + 255) mod 256, irq := True\<rparr>"
    "fst (recv s) = Some p" using q by (simp_all add: recv_def)
  have rI: "radio_inv (s\<lparr>rxQueue := q, queueDepth := (queueDepth s + 255) mod 256, irq := True\<rparr>)"
    using recv_inv [OF I] r by simp
  consider (dg) "protocol (body p) = PROTOCOL_DATAGRAM" | (ev) "protocol (body p) = PROTOCOL_EVENTBUS"
    | (other) "protocol (body p) \<noteq> PROTOCOL_DATAGRAM" "protocol (body p) \<noteq> PROTOCOL_EVENTBUS" by blast
  then show ?thesis
  proof cases
    case dg
    show ?thesis
    proof (cases "dg_rxQueue s \<noteq> [] \<and> length (dg_rxQueue s) - 1 \<ge> MAXIMUM_RX_BUFFERS")
      case True
      then have "datagram_packetReceived s = snd (recv s)" using q by (simp add: datagram_packetReceived_def recv_def)
      then have "s' = snd (recv s)" using dg ne r(1) by (auto simp: s'_def handle_packet_def Let_def)
      moreover have "length (dg_rxQueue s) = 5" using True len by arith
      then have "take 5 (dg_rxQueue s @ [p]) = dg_rxQueue s" by simp
      ultimately show ?thesis using rI r(1) dg by simp
    next
      case False
      then have "datagram_packetReceived s = (snd (recv s))\<lparr>dg_rxQueue := dg_rxQueue s @ [p], events := events s @ [RADIO_DATAGRAM]\<rparr>"
        using q by (auto simp: datagram_packetReceived_def recv_def)
      then have "s' = (snd (recv s))\<lparr>dg_rxQueue := dg_rxQueue s @ [p], events := events s @ [RADIO_DATAGRAM]\<rparr>"
        using dg ne r(1) by (auto simp: s'_def handle_packet_def Let_def)
      moreover from this have "radio_inv s'"
        using datagram_packetReceived_inv [OF I] \<open>datagram_packetReceived s = _\<close> by simp
      moreover have "length (dg_rxQueue s) \<le> 4" using False by (cases "dg_rxQueue s") auto
      ultimately show ?thesis using r(1) dg by simp
    qed
  next
    case ev
    have "event_packetReceived fire s = (snd (recv s))\<lparr>suppressForwarding := False\<rparr>"
      using q f by (simp add: event_packetReceived_def recv_def quiet_def)
    then have "s' = (snd (recv s))\<lparr>suppressForwarding := False\<rparr>"
      using ev ne r(1) by (auto simp: s'_def handle_packet_def Let_def)
    then show ?thesis using rI r(1) ev len by simp
  next
    case other
    then have "s' = snd (recv (s\<lparr>events := events s @ [DATA_READY (protocol (body p))]\<rparr>))"
      using q by (simp add: s'_def handle_packet_def Let_def)
    then have "s' = (snd (recv s))\<lparr>events := events s @ [DATA_READY (protocol (body p))]\<rparr>"
      using q by (simp add: recv_def)
    then show ?thesis using rI r(1) other len by simp
  qed
qed

lemma take_take_append: "take n (take n xs @ ys) = take n (xs @ ys)"
  by (cases "n \<le> length xs") simp_all

lemma idleCallback_spec:
  assumes f: "quiet fire"
  shows "radio_inv s \<Longrightarrow> \<exists>s'. idleCallback fire (\<lambda>_. id) s = Some s' \<and> radio_inv s' \<and> rxQueue s' = [] \<and>
    sent s' = sent s \<and> dg_rxQueue s' = take (MAXIMUM_RX_BUFFERS + 1)
      (dg_rxQueue s @ filter (\<lambda>p. protocol (body p) = PROTOCOL_DATAGRAM) (rxQueue s))"
proof (induction "rxQueue s" arbitrary: s)
  case Nil
  then show ?case by (subst idleCallback.simps) (simp add: radio_inv_def)
next
  case (Cons p q)
  let ?s = "handle_packet fire (\<lambda>_. id) p s"
  note H = handle_packet_spec [OF Cons.prems Cons.hyps(2) [symmetric] f]
  have "idleCallback fire (\<lambda>_. id) s = idleCallback fire (\<lambda>_. id) ?s"
    using Cons.hyps(2) [symmetric] by (subst idleCallback.simps) simp
  moreover obtain s' where s': "idleCallback fire (\<lambda>_. id) ?s = Some s'" "radio_inv s'" "rxQueue s' = []"
    "sent s' = sent ?s" "dg_rxQueue s' = take 5 (dg_rxQueue ?s @ filter (\<lambda>p. protocol (body p) = PROTOCOL_DATAGRAM) q)"
    using Cons.hyps(1) [of ?s] H by auto
  moreover have "filter (\<lambda>p. protocol (body p) = PROTOCOL_DATAGRAM) (rxQueue s) =
      (if protocol (body p) = PROTOCOL_DATAGRAM then [p] else []) @ filter (\<lambda>p. protocol (body p) = PROTOCOL_DATAGRAM) q"
    using Cons.hyps(2) [symmetric] by simp
  then have "dg_rxQueue s' = take 5 (dg_rxQueue s @ filter (\<lambda>p. protocol (body p) = PROTOCOL_DATAGRAM) (rxQueue s))"
  proof -
    have D: "dg_rxQueue ?s = take 5 (dg_rxQueue s @ (if protocol (body p) = PROTOCOL_DATAGRAM then [p] else []))"
      using H by simp
    show ?thesis unfolding \<open>filter _ (rxQueue s) = _\<close> s'(5) D take_take_append append_assoc by (rule refl)
  qed
  ultimately show ?case using H by (intro exI [of _ s']) simp
qed


subsection \<open>From one user to another\<close>

definition datagram_packet :: "u8 list \<Rightarrow> u8 list \<Rightarrow> packet" where
  "datagram_packet stack bs =
     \<lparr>flength = of_nat (length bs + HEADER_SIZE - 1), version = 1, fgroup = 0,
      protocol = PROTOCOL_DATAGRAM, payload = take MAX_PACKET_SIZE (bs @ drop (length bs) stack)\<rparr>"

lemma unat_header: "n \<le> 35 \<Longrightarrow> unat (of_nat (n + HEADER_SIZE - 1) :: u8) = n + HEADER_SIZE - 1"
  by (simp only: unat_of_nat) simp

lemma datagram_send_spec:
  assumes "\<not> ble s"
  shows "datagram_send stack (Some bs) s =
    (if length bs \<le> MAX_PACKET_SIZE
     then (OK, s\<lparr>sent := sent s @ [datagram_packet stack bs], PACKETPTR := map_option fid (rxBuf s),
              rx_on := True, irq := True\<rparr>)
     else (INVALID_PARAMETER, s))"
proof (cases "length bs \<le> 35")
  case True
  show ?thesis
    using assms unat_header [OF True] True
    unfolding datagram_send_def send_def datagram_packet_def option.case packet.simps by auto
next
  case False
  then show ?thesis by (simp add: datagram_send_def)
qed

fun send_all :: "u8 list \<Rightarrow> u8 list list \<Rightarrow> radio \<Rightarrow> radio" where
  "send_all stack [] s = s"
| "send_all stack (bs # bss) s = send_all stack bss (snd (datagram_send stack (Some bs) s))"

fun arrive_all :: "packet list \<Rightarrow> radio \<Rightarrow> radio" where
  "arrive_all [] s = s"
| "arrive_all (p # ps) s = arrive_all ps (packet_arrives p True (- 40) s)"

fun read_all :: "(frame \<Rightarrow> u8 list) \<Rightarrow> nat \<Rightarrow> radio \<Rightarrow> recv_result list" where
  "read_all beyond 0 s = []"
| "read_all beyond (Suc n) s =
     (case datagram_recv beyond False (int MAX_PACKET_SIZE) s of (r, s') \<Rightarrow> r # read_all beyond n s')"

lemma send_all_sent:
  "\<not> ble s \<Longrightarrow> \<forall>bs \<in> set bss. length bs \<le> MAX_PACKET_SIZE \<Longrightarrow>
    sent (send_all stack bss s) = sent s @ map (datagram_packet stack) bss"
  by (induction bss arbitrary: s) (simp_all add: datagram_send_spec)

lemma arrive_all_up:
  "radio_up s \<Longrightarrow> length (packets s) + length ps \<le> MAXIMUM_RX_BUFFERS \<Longrightarrow>
    radio_up (arrive_all ps s) \<and> packets (arrive_all ps s) = packets s @ ps \<and>
    dg_rxQueue (arrive_all ps s) = dg_rxQueue s"
proof (induction ps arbitrary: s)
  case (Cons p ps)
  then show ?case using arrives_up [OF Cons.prems(1), of p "- 40"] by simp
qed simp

text \<open>
  The air between a sender and a receiver: of a frame the hardware passes no more bytes behind the
  length byte than the low byte of \<open>PCNF1\<close> says, on either side. Within that limit the frame
  arrives as it was sent; of a longer one the head is sure to arrive, and nothing is known of its
  length byte or of what lies behind.
\<close>

definition max_length :: "radio \<Rightarrow> nat" where
  "max_length s = unat (PCNF1 s AND 0xFF)"

definition on_air :: "radio \<Rightarrow> radio \<Rightarrow> packet \<Rightarrow> packet \<Rightarrow> bool" where
  "on_air a r p q \<longleftrightarrow>
     (let m = min (max_length a) (max_length r); n = min (unat (flength p)) m - (HEADER_SIZE - 1) in
      (unat (flength p) \<le> m \<longrightarrow> flength q = flength p) \<and> version q = version p \<and> fgroup q = fgroup p \<and>
      protocol q = protocol p \<and> length (payload q) = MAX_PACKET_SIZE \<and> take n (payload q) = take n (payload p))"

text \<open>A frame that carries a datagram.\<close>

definition carries :: "u8 list \<Rightarrow> packet \<Rightarrow> bool" where
  "carries bs q \<longleftrightarrow> protocol q = PROTOCOL_DATAGRAM \<and> unat (flength q) = length bs + 3 \<and>
     take (length bs) (payload q) = bs \<and> length (payload q) = 32"

lemma max_length_up: "radio_inv s \<Longrightarrow> has (status s) RADIO_INITIALISED \<Longrightarrow> max_length s = 32"
  by (simp add: max_length_def radio_inv_def)

lemma on_air_datagram:
  assumes "on_air a r (datagram_packet stack bs) q" and "max_length a = 32" "max_length r = 32"
    and "length bs \<le> 29" and "length stack = MAX_PACKET_SIZE"
  shows "carries bs q"
proof -
  have u: "unat (flength (datagram_packet stack bs)) = length bs + 3"
    using unat_header [of "length bs"] assms(4) unfolding datagram_packet_def packet.simps by linarith
  then have "flength q = flength (datagram_packet stack bs)" "protocol q = PROTOCOL_DATAGRAM"
    "take (length bs) (payload q) = take (length bs) (payload (datagram_packet stack bs))" "length (payload q) = 32"
    using assms by (simp_all add: on_air_def Let_def) (simp_all add: datagram_packet_def)
  then show ?thesis using u assms(4) by (simp add: datagram_packet_def carries_def)
qed

lemma read_all_spec:
  "list_all2 carries bss (map body (dg_rxQueue s)) \<Longrightarrow> \<forall>bs \<in> set bss. length bs \<le> 29 \<Longrightarrow>
    read_all beyond (length bss) s = map Data bss"
proof (induction bss arbitrary: s)
  case (Cons bs bss)
  then obtain f fs where q: "dg_rxQueue s = f # fs" "carries bs (body f)" "list_all2 carries bss (map body fs)"
    by (auto simp: list_all2_Cons1)
  then have f: "unat (flength (body f)) = length bs + 3" "take (length bs) (payload (body f)) = bs"
    "length (payload (body f)) = 32" by (simp_all add: carries_def)
  have "datagram_recv beyond False 32 s = (Data bs, s\<lparr>dg_rxQueue := fs\<rparr>)"
    unfolding datagram_recv_def Let_def q(1) f(1) list.sel using f Cons.prems(2) by simp
  moreover have "read_all beyond (length bss) (s\<lparr>dg_rxQueue := fs\<rparr>) = map Data bss"
    using Cons q(3) by simp
  ultimately show ?case by simp
qed simp

lemma enable_new_up: "radio_up (snd (enable radio_new)) \<and> packets (snd (enable radio_new)) = []"
proof -
  have "radio_inv (snd (enable radio_new))" by (rule enable_inv [OF radio_inv_new])
  then show ?thesis
    by (simp add: radio_up_def enable_def radio_new_def new_frame_def Let_def setTransmitPower_def
        setFrequencyBand_def setGroup_def packets_def has_def)
qed

subsection \<open>Properties\<close>

text \<open>
  C13 Whatever happens to the radio, in any order (packets arriving, calls of the user, memory
  running out, Bluetooth coming and going): the counter is the length of the queue, the queues
  never hold more than four and five packets, and a packet that arrives is appended to the queue
  or dropped and changes no packet already queued.
\<close>

theorem radio_queue_safe:
  assumes "radio_reach s"
  shows "dataReady s = length (rxQueue s) \<and> length (rxQueue s) \<le> 4 \<and> length (dg_rxQueue s) \<le> 5 \<and>
    (\<exists>new. rxQueue (packet_arrives p crc k s) = rxQueue s @ new \<and> length new \<le> 1) \<and>
    dg_rxQueue (packet_arrives p crc k s) = dg_rxQueue s"
  using radio_reach_inv [OF assms] packet_arrives_inv [OF radio_reach_inv [OF assms], of p crc k]
  by (simp add: radio_inv_def dataReady_def)

theorem radio_queue_safe_witness:
  "length (rxQueue (snd (enable radio_new))) \<le> 4 \<and>
    (\<exists>new. rxQueue (packet_arrives \<lparr>flength = 4, version = 1, fgroup = 0, protocol = 1, payload = [7]\<rparr> True 50
      (snd (enable radio_new))) = rxQueue (snd (enable radio_new)) @ new)"
  using radio_queue_safe [OF radio_reach.enabled [OF radio_reach.start]] by blast

text \<open>
  C15 The packets \<open>recv\<close> returns are the packets the interrupt handler accepted, in the order they
  arrived, and a packet is refused only when four are waiting.
\<close>

theorem radio_fifo:
  assumes "fifo_run radio_enq radio_deq ops (snd (enable radio_new)) = (ins, outs, s')"
  shows "ins = outs @ packets s' \<and> length (packets s') \<le> MAXIMUM_RX_BUFFERS"
  using radioq.fifo_order [OF _ assms] enable_new_up by simp

theorem radio_fifo_witness:
  "\<exists>ins outs s'. fifo_run radio_enq radio_deq
      [Put \<lparr>flength = 4, version = 1, fgroup = 0, protocol = 1, payload = [7]\<rparr>, Get] (snd (enable radio_new))
      = (ins, outs, s') \<and> ins = outs @ packets s'"
proof -
  obtain ins outs s' where r: "fifo_run radio_enq radio_deq
      [Put \<lparr>flength = 4, version = 1, fgroup = 0, protocol = 1, payload = [7]\<rparr>, Get] (snd (enable radio_new))
      = (ins, outs, s')" by (rule prod_cases3)
  show ?thesis using radio_fifo [OF r] r by blast
qed

text \<open>
  The idle callback returns; it empties the packet queue, hands every datagram on in order as
  long as fewer than five wait for the user, and sends nothing: an event that came by radio is not
  sent back, although the radio listens to it.
\<close>

theorem radio_idle_delivers:
  assumes "radio_reach s"
  shows "\<exists>s'. idleCallback (eventReceived stack) (\<lambda>_. id) s = Some s' \<and> rxQueue s' = [] \<and> dataReady s' = 0 \<and>
    sent s' = sent s \<and>
    dg_rxQueue s' = take 5 (dg_rxQueue s @ filter (\<lambda>p. protocol (body p) = PROTOCOL_DATAGRAM) (rxQueue s))"
  using idleCallback_spec [OF eventReceived_quiet radio_reach_inv [OF assms], of stack]
  by (auto simp: radio_inv_def dataReady_def)

theorem radio_idle_delivers_witness:
  "\<exists>s'. idleCallback (eventReceived []) (\<lambda>_. id) (packet_arrives
      \<lparr>flength = 5, version = 1, fgroup = 0, protocol = 2, payload = [7, 0]\<rparr> True 50 (snd (enable radio_new))) = Some s' \<and>
    dataReady s' = 0 \<and> sent s' = []"
proof -
  let ?s = "packet_arrives \<lparr>flength = 5, version = 1, fgroup = 0, protocol = 2, payload = [7, 0]\<rparr> True 50 (snd (enable radio_new))"
  have "sent ?s = []" by code_simp
  then show ?thesis
    using radio_idle_delivers [OF radio_reach.arrive [OF radio_reach.enabled [OF radio_reach.start]], of "[]"] by metis
qed

text \<open>
  C14 Up to four datagrams of at most 29 bytes each, sent by a micro:bit whose radio is enabled and
  received by another whose queues are empty, are read there as they were sent and in the same
  order. The bound is that of the hardware: the packet layout \<open>enable\<close> sets passes 32 bytes behind
  the length byte, three of which are the rest of the header. \<open>send\<close> takes longer datagrams (up to
  32 bytes fit the frame, and it accepts 35) and returns \<open>OK\<close>, but the air cuts them; the theorem
  says nothing of those.
\<close>

theorem datagram_delivery:
  assumes "radio_reach a" and "has (status a) RADIO_INITIALISED" and "\<not> ble a"
    and "\<forall>bs \<in> set bss. length bs \<le> 29" and "length bss \<le> MAXIMUM_RX_BUFFERS"
    and "length stack = MAX_PACKET_SIZE" and "radio_up r" and "rxQueue r = []" and "dg_rxQueue r = []"
    and "sent (send_all stack bss a) = sent a @ out" and "list_all2 (on_air a r) out air"
  shows "\<exists>r'. idleCallback (eventReceived stack2) (\<lambda>_. id) (arrive_all air r) = Some r' \<and>
    read_all beyond (length bss) r' = map Data bss"
proof -
  have "out = map (datagram_packet stack) bss"
    using send_all_sent [OF assms(3), of bss stack] assms(4,10) by fastforce
  then have "list_all2 (\<lambda>bs q. on_air a r (datagram_packet stack bs) q) bss air"
    using assms(11) by (simp add: list_all2_map1)
  moreover have "max_length a = 32" "max_length r = 32"
    using max_length_up [OF radio_reach_inv [OF assms(1)] assms(2)] max_length_up [of r] assms(7)
    by (simp_all add: radio_up_def)
  ultimately have L: "list_all2 carries bss air"
    using assms(4,6) by (auto elim!: list.rel_mono_strong intro!: on_air_datagram [of a r stack])
  note A = arrive_all_up [OF assms(7), of air]
  have n: "length air \<le> 4" using assms(5) list_all2_lengthD [OF L] by simp
  have A': "radio_inv (arrive_all air r)" "map body (rxQueue (arrive_all air r)) = air"
    "dg_rxQueue (arrive_all air r) = []"
    using A n assms(8,9) by (simp_all add: packets_def radio_up_def)
  have "\<forall>q \<in> set air. protocol q = PROTOCOL_DATAGRAM"
    using L by (auto simp: list_all2_conv_all_nth in_set_conv_nth carries_def)
  then have "\<forall>q \<in> set (map body (rxQueue (arrive_all air r))). protocol q = PROTOCOL_DATAGRAM"
    using A'(2) by simp
  then have "\<forall>f \<in> set (rxQueue (arrive_all air r)). protocol (body f) = PROTOCOL_DATAGRAM" by simp
  moreover have "length (rxQueue (arrive_all air r)) \<le> 4" using n arg_cong [OF A'(2), of length] by simp
  ultimately obtain r' where r': "idleCallback (eventReceived stack2) (\<lambda>_. id) (arrive_all air r) = Some r'"
    "dg_rxQueue r' = rxQueue (arrive_all air r)"
    using idleCallback_spec [OF eventReceived_quiet A'(1), of stack2] A'(3) by auto
  have "list_all2 carries bss (map body (dg_rxQueue r'))" using L A'(2) r'(2) by simp
  from read_all_spec [OF this assms(4)] r'(1) show ?thesis by blast
qed

theorem datagram_delivery_witness:
  "\<exists>r'. idleCallback (eventReceived []) (\<lambda>_. id)
      (arrive_all (sent (send_all (replicate 32 0) [[1, 2], [3]] (snd (enable radio_new)))) (snd (enable radio_new))) = Some r' \<and>
    read_all (\<lambda>_. []) 2 r' = [Data [1, 2], Data [3]]"
proof -
  let ?a = "snd (enable radio_new)"
  have s: "\<not> ble ?a" "has (status ?a) RADIO_INITIALISED" "sent ?a = []" "rxQueue ?a = []" "dg_rxQueue ?a = []"
    by code_simp+
  have out: "sent (send_all (replicate 32 0) [[1, 2], [3]] ?a) =
      [datagram_packet (replicate 32 0) [1, 2], datagram_packet (replicate 32 0) [3]]"
    using send_all_sent [OF s(1), of "[[1, 2], [3]]" "replicate 32 0"] s(3) by simp
  have "list_all2 (on_air ?a ?a) (sent (send_all (replicate 32 0) [[1, 2], [3]] ?a)) (sent (send_all (replicate 32 0) [[1, 2], [3]] ?a))"
    unfolding out by (simp add: on_air_def datagram_packet_def)
  then show ?thesis
    using datagram_delivery [OF radio_reach.enabled [OF radio_reach.start], of "[[1, 2], [3]]" "replicate 32 0" ?a
        "sent (send_all (replicate 32 0) [[1, 2], [3]] ?a)"
        "sent (send_all (replicate 32 0) [[1, 2], [3]] ?a)" "[]" "\<lambda>_. []"] s enable_new_up
    by (simp add: numeral_2_eq_2)
qed

text \<open>
  A deep sleep keeps the group, the queues and the buffers of a radio in use and brings it back
  listening, but the transmit power and the frequency are back at their defaults.
\<close>

theorem radio_sleep_settings:
  assumes "radio_reach s" and "has (status s) RADIO_INITIALISED" and "\<not> ble s"
    and "s1 = snd (setSleep True s)" and "s2 = snd (setSleep False s1)"
  shows "\<not> irq s1 \<and> \<not> rx_on s1 \<and> irq s2 \<and> rx_on s2 \<and> has (status s2) RADIO_INITIALISED \<and>
    \<not> has (status s2) RADIO_DEEPSLEEP_INIT \<and> group s2 = group s \<and> PREFIX0 s2 = group s \<and>
    rxQueue s2 = rxQueue s \<and> dg_rxQueue s2 = dg_rxQueue s \<and> rxBuf s2 = rxBuf s \<and>
    TXPOWER s2 = MICROBIT_RADIO_POWER_LEVEL ! 7 \<and> FREQUENCY s2 = 7"
proof -
  obtain b where b: "rxBuf s = Some b" using radio_reach_inv [OF assms(1)] assms(2) by (auto simp: radio_inv_def)
  have s1: "s1 = s\<lparr>irq := False, rx_on := False, idle_tick := False,
      status := (status s AND NOT RADIO_INITIALISED) OR RADIO_DEEPSLEEP_INIT\<rparr>"
    using assms(2,3,4) by (simp add: setSleep_def disable_def Let_def)
  let ?st = "((status s AND NOT RADIO_INITIALISED) OR RADIO_DEEPSLEEP_INIT)"
  have st: "has ?st RADIO_DEEPSLEEP_INIT" by (simp add: has_or) (simp add: has_def)
  have n: "\<not> has RADIO_DEEPSLEEP_INIT RADIO_INITIALISED" "\<not> has RADIO_INITIALISED RADIO_DEEPSLEEP_INIT"
    by (simp_all add: has_def)
  have "\<not> has ?st RADIO_INITIALISED" unfolding has_or using has_clear_same n(1) by blast
  moreover have "has (?st AND NOT RADIO_DEEPSLEEP_INIT) RADIO_INITIALISED = has ?st RADIO_INITIALISED"
    by (rule has_clear) simp
  ultimately have off: "\<not> has (?st AND NOT RADIO_DEEPSLEEP_INIT) RADIO_INITIALISED" by blast
  have clr: "\<not> has ((?st AND NOT RADIO_DEEPSLEEP_INIT) OR RADIO_INITIALISED) RADIO_DEEPSLEEP_INIT"
    unfolding has_or [of "_ AND NOT RADIO_DEEPSLEEP_INIT"] using has_clear_same n(2) by blast
  have s2: "s2 = snd (enable (s1\<lparr>status := ?st AND NOT RADIO_DEEPSLEEP_INIT\<rparr>))"
    using assms(3,5) st unfolding s1 by (simp add: setSleep_def)
  show ?thesis
    using off clr b assms(3) unfolding s2 s1
    by (simp add: enable_def Let_def setTransmitPower_def setFrequencyBand_def setGroup_def has_or)
      (simp add: has_def)
qed

theorem radio_sleep_settings_witness:
  "TXPOWER (snd (setSleep False (snd (setSleep True (snd (setTransmitPower 0 (snd (enable radio_new)))))))) = MICROBIT_RADIO_POWER_LEVEL ! 7"
proof -
  let ?s = "snd (setTransmitPower 0 (snd (enable radio_new)))"
  have "has (status ?s) RADIO_INITIALISED \<and> \<not> ble ?s" by code_simp
  then show ?thesis
    using radio_sleep_settings [OF radio_reach.power_level [OF radio_reach.enabled [OF radio_reach.start]] _ _ refl refl]
    by blast
qed

end
