(* ===== verification/PacketBuffer.thy ===== *)
theory PacketBuffer
  imports MB_Prelude
begin

text \<open>
  \<open>PacketBuffer\<close> (\<open>source/PacketBuffer.cpp\<close>): handles to shared, reference-counted packets. The
  packets live in a store of cells; every handle in scope, a variable of type \<open>'h\<close>, points to one.
  Reference counting is inherited from \<open>RefCounted\<close> of the core library, which is not part of the
  repository: \<open>rc_init\<close>, \<open>incr\<close> and \<open>decr\<close> are arguments (\<open>decr\<close> gives nothing when the memory is
  to be freed), and the theorems assume the law of counting. Operations give \<open>None\<close> where the code
  would touch memory outside the packet. Memory is assumed not to run out: the code does not test
  for it.
\<close>

record 'r cell =
  rc :: 'r
  prssi :: int
  plength :: u8
  ppayload :: "u8 list"

record ('h, 'r) store =
  cells :: "nat \<Rightarrow> 'r cell option"
  ptr :: "'h \<Rightarrow> nat option"

definition store_empty :: "('h, 'r) store" where
  "store_empty = \<lparr>cells = \<lambda>_. None, ptr = \<lambda>_. None\<rparr>"

subsection \<open>Operations\<close>

text \<open>
  \<open>addr\<close> is what \<open>malloc\<close> returns, \<open>junk\<close> what the new memory holds. The length is stored in a byte.
\<close>

definition pb_init ::
    "'r \<Rightarrow> nat \<Rightarrow> u8 list \<Rightarrow> 'h \<Rightarrow> u8 list option \<Rightarrow> int \<Rightarrow> int \<Rightarrow> ('h, 'r) store \<Rightarrow> ('h, 'r) store" where
  "pb_init rc_init addr junk h data len r s =
     (let n = nat (if len < 0 then 0 else len) in
      s\<lparr>cells := (cells s)(addr \<mapsto> \<lparr>rc = rc_init, prssi = r, plength = of_nat n,
          ppayload = (case data of None \<Rightarrow> take n junk | Some d \<Rightarrow> take n d)\<rparr>),
        ptr := (ptr s)(h \<mapsto> addr)\<rparr>)"

definition deref :: "'h \<Rightarrow> ('h, 'r) store \<Rightarrow> (nat \<times> 'r cell) option" where
  "deref h s = (case ptr s h of None \<Rightarrow> None | Some a \<Rightarrow> map_option (Pair a) (cells s a))"

definition ptr_incr :: "('r \<Rightarrow> 'r) \<Rightarrow> 'h \<Rightarrow> ('h, 'r) store \<Rightarrow> ('h, 'r) store option" where
  "ptr_incr incr h s = map_option (\<lambda>(a, c). s\<lparr>cells := (cells s)(a \<mapsto> c\<lparr>rc := incr (rc c)\<rparr>)\<rparr>) (deref h s)"

definition ptr_decr :: "('r \<Rightarrow> 'r option) \<Rightarrow> 'h \<Rightarrow> ('h, 'r) store \<Rightarrow> ('h, 'r) store option" where
  "ptr_decr decr h s =
     map_option (\<lambda>(a, c). s\<lparr>cells := (cells s)(a := map_option (\<lambda>r. c\<lparr>rc := r\<rparr>) (decr (rc c)))\<rparr>) (deref h s)"

definition pb_copy :: "('r \<Rightarrow> 'r) \<Rightarrow> 'h \<Rightarrow> 'h \<Rightarrow> ('h, 'r) store \<Rightarrow> ('h, 'r) store option" where
  "pb_copy incr h g s = ptr_incr incr h (s\<lparr>ptr := (ptr s)(h := ptr s g)\<rparr>)"

definition pb_destroy :: "('r \<Rightarrow> 'r option) \<Rightarrow> 'h \<Rightarrow> ('h, 'r) store \<Rightarrow> ('h, 'r) store option" where
  "pb_destroy decr h s = map_option (\<lambda>s'. s'\<lparr>ptr := (ptr s')(h := None)\<rparr>) (ptr_decr decr h s)"

definition pb_assign ::
    "('r \<Rightarrow> 'r) \<Rightarrow> ('r \<Rightarrow> 'r option) \<Rightarrow> 'h \<Rightarrow> 'h \<Rightarrow> ('h, 'r) store \<Rightarrow> ('h, 'r) store option" where
  "pb_assign incr decr h g s =
     (if ptr s h = ptr s g then Some s
      else case ptr_decr decr h s of
          None \<Rightarrow> None
        | Some s1 \<Rightarrow> ptr_incr incr h (s1\<lparr>ptr := (ptr s1)(h := ptr s1 g)\<rparr>))"

definition pb_index :: "'h \<Rightarrow> int \<Rightarrow> ('h, 'r) store \<Rightarrow> u8 option" where
  "pb_index h i s =
     (case deref h s of None \<Rightarrow> None
      | Some (a, c) \<Rightarrow> if 0 \<le> i \<and> nat i < length (ppayload c) then Some (ppayload c ! nat i) else None)"

definition pb_store :: "'h \<Rightarrow> int \<Rightarrow> u8 \<Rightarrow> ('h, 'r) store \<Rightarrow> ('h, 'r) store option" where
  "pb_store h i v s =
     (case deref h s of None \<Rightarrow> None
      | Some (a, c) \<Rightarrow>
          if 0 \<le> i \<and> nat i < length (ppayload c)
          then Some (s\<lparr>cells := (cells s)(a \<mapsto> c\<lparr>ppayload := (ppayload c)[nat i := v]\<rparr>)\<rparr>) else None)"

definition pb_equal :: "'h \<Rightarrow> 'h \<Rightarrow> ('h, 'r) store \<Rightarrow> bool option" where
  "pb_equal h g s =
     (case (deref h s, deref g s) of
        (Some (a, c), Some (b, d)) \<Rightarrow>
          Some (if a = b then True
                else plength c = plength d \<and>
                     take (unat (plength c)) (ppayload c) = take (unat (plength c)) (ppayload d))
      | _ \<Rightarrow> None)"

definition setByte :: "'h \<Rightarrow> int \<Rightarrow> u8 \<Rightarrow> ('h, 'r) store \<Rightarrow> (code \<times> ('h, 'r) store) option" where
  "setByte h i v s =
     (case deref h s of None \<Rightarrow> None
      | Some (a, c) \<Rightarrow> if i < int (unat (plength c)) then map_option (Pair OK) (pb_store h i v s)
          else Some (INVALID_PARAMETER, s))"

definition getByte :: "'h \<Rightarrow> int \<Rightarrow> ('h, 'r) store \<Rightarrow> (code + u8) option" where
  "getByte h i s =
     (case deref h s of None \<Rightarrow> None
      | Some (a, c) \<Rightarrow> if i < int (unat (plength c)) then map_option Inr (pb_index h i s)
          else Some (Inl INVALID_PARAMETER))"

definition getBytes :: "'h \<Rightarrow> ('h, 'r) store \<Rightarrow> u8 list option" where
  "getBytes h s = map_option (\<lambda>(a, c). ppayload c) (deref h s)"

definition pb_length :: "'h \<Rightarrow> ('h, 'r) store \<Rightarrow> nat option" where
  "pb_length h s = map_option (\<lambda>(a, c). unat (plength c)) (deref h s)"

definition pb_getRSSI :: "'h \<Rightarrow> ('h, 'r) store \<Rightarrow> int option" where
  "pb_getRSSI h s = map_option (\<lambda>(a, c). prssi c) (deref h s)"

definition pb_setRSSI :: "'h \<Rightarrow> u8 \<Rightarrow> ('h, 'r) store \<Rightarrow> ('h, 'r) store option" where
  "pb_setRSSI h r s = map_option (\<lambda>(a, c). s\<lparr>cells := (cells s)(a \<mapsto> c\<lparr>prssi := int (unat r)\<rparr>)\<rparr>) (deref h s)"

subsection \<open>Programs over handles\<close>

datatype 'h pb_op =
    Create 'h nat "u8 list" "u8 list option" int int
  | Copy 'h 'h
  | Destroy 'h
  | Assign 'h 'h
  | ReadAt 'h int
  | WriteAt 'h int u8
  | Compare 'h 'h
  | SetByte 'h int u8
  | GetByte 'h int
  | GetBytes 'h
  | GetLength 'h
  | GetRSSI 'h
  | SetRSSI 'h u8

fun pb_run :: "'r \<Rightarrow> ('r \<Rightarrow> 'r) \<Rightarrow> ('r \<Rightarrow> 'r option) \<Rightarrow> 'h pb_op \<Rightarrow> ('h, 'r) store \<Rightarrow> ('h, 'r) store option" where
  "pb_run r0 incr decr (Create h a junk data n r) s = Some (pb_init r0 a junk h data n r s)"
| "pb_run r0 incr decr (Copy h g) s = pb_copy incr h g s"
| "pb_run r0 incr decr (Destroy h) s = pb_destroy decr h s"
| "pb_run r0 incr decr (Assign h g) s = pb_assign incr decr h g s"
| "pb_run r0 incr decr (ReadAt h i) s = map_option (\<lambda>v. s) (pb_index h i s)"
| "pb_run r0 incr decr (WriteAt h i v) s = pb_store h i v s"
| "pb_run r0 incr decr (Compare h g) s = map_option (\<lambda>v. s) (pb_equal h g s)"
| "pb_run r0 incr decr (SetByte h i v) s = map_option snd (setByte h i v s)"
| "pb_run r0 incr decr (GetByte h i) s = map_option (\<lambda>v. s) (getByte h i s)"
| "pb_run r0 incr decr (GetBytes h) s = map_option (\<lambda>v. s) (getBytes h s)"
| "pb_run r0 incr decr (GetLength h) s = map_option (\<lambda>v. s) (pb_length h s)"
| "pb_run r0 incr decr (GetRSSI h) s = map_option (\<lambda>v. s) (pb_getRSSI h s)"
| "pb_run r0 incr decr (SetRSSI h r) s = pb_setRSSI h r s"

text \<open>
  What the language and the allocator see to: a variable is constructed once before it is used,
  \<open>malloc\<close> returns unused memory of the size asked for, and a source buffer is as long as said. What the caller
  has to see to: an index of \<open>operator[]\<close> lies in the packet, a position of \<open>setByte\<close> and \<open>getByte\<close> is not
  negative (that it is below the length, they test).
\<close>

fun pb_scoped :: "'h pb_op \<Rightarrow> ('h, 'r) store \<Rightarrow> bool" where
  "pb_scoped (Create h a junk data n r) s \<longleftrightarrow> ptr s h = None \<and> cells s a = None \<and>
     nat n \<le> length (case data of None \<Rightarrow> junk | Some d \<Rightarrow> d)"
| "pb_scoped (Copy h g) s \<longleftrightarrow> ptr s h = None \<and> ptr s g \<noteq> None"
| "pb_scoped (Destroy h) s \<longleftrightarrow> ptr s h \<noteq> None"
| "pb_scoped (Assign h g) s \<longleftrightarrow> ptr s h \<noteq> None \<and> ptr s g \<noteq> None"
| "pb_scoped (ReadAt h i) s \<longleftrightarrow> 0 \<le> i \<and> (\<exists>n. pb_length h s = Some n \<and> i < int n)"
| "pb_scoped (WriteAt h i v) s \<longleftrightarrow> 0 \<le> i \<and> (\<exists>n. pb_length h s = Some n \<and> i < int n)"
| "pb_scoped (Compare h g) s \<longleftrightarrow> ptr s h \<noteq> None \<and> ptr s g \<noteq> None"
| "pb_scoped (SetByte h i v) s \<longleftrightarrow> ptr s h \<noteq> None \<and> 0 \<le> i"
| "pb_scoped (GetByte h i) s \<longleftrightarrow> ptr s h \<noteq> None \<and> 0 \<le> i"
| "pb_scoped (GetBytes h) s \<longleftrightarrow> ptr s h \<noteq> None"
| "pb_scoped (GetLength h) s \<longleftrightarrow> ptr s h \<noteq> None"
| "pb_scoped (GetRSSI h) s \<longleftrightarrow> ptr s h \<noteq> None"
| "pb_scoped (SetRSSI h r) s \<longleftrightarrow> ptr s h \<noteq> None"

inductive pb_reach :: "'r \<Rightarrow> ('r \<Rightarrow> 'r) \<Rightarrow> ('r \<Rightarrow> 'r option) \<Rightarrow> ('h, 'r) store \<Rightarrow> bool"
  for r0 incr decr where
  start: "pb_reach r0 incr decr store_empty"
| step: "pb_reach r0 incr decr s \<Longrightarrow> pb_scoped op s \<Longrightarrow> pb_run r0 incr decr op s = Some s' \<Longrightarrow>
    pb_reach r0 incr decr s'"

text \<open>The law of \<open>RefCounted\<close>: the count starts at one, and the memory goes with the last reference.\<close>

definition rc_laws :: "('r \<Rightarrow> nat) \<Rightarrow> 'r \<Rightarrow> ('r \<Rightarrow> 'r) \<Rightarrow> ('r \<Rightarrow> 'r option) \<Rightarrow> bool" where
  "rc_laws cnt r0 incr decr \<longleftrightarrow> cnt r0 = 1 \<and> (\<forall>r. cnt (incr r) = Suc (cnt r)) \<and>
     (\<forall>r. cnt r = 1 \<longrightarrow> decr r = None) \<and> (\<forall>r. cnt r > 1 \<longrightarrow> (\<exists>r'. decr r = Some r' \<and> cnt r' = cnt r - 1))"

subsection \<open>Counting handles\<close>

definition handles :: "('h \<Rightarrow> nat option) \<Rightarrow> nat \<Rightarrow> nat" where
  "handles p a = card {h. p h = Some a}"

lemma handles_finite: "finite (dom p) \<Longrightarrow> finite {h. p h = Some a}"
  by (rule finite_subset [of _ "dom p"]) auto

lemma handles_pos: "finite (dom p) \<Longrightarrow> p h = Some a \<Longrightarrow> handles p a > 0"
  using handles_finite [of p a] by (auto simp: handles_def card_gt_0_iff)

lemma handles_bind:
  "finite (dom p) \<Longrightarrow> p h = None \<Longrightarrow> handles (p(h \<mapsto> a)) b = handles p b + (if b = a then 1 else 0)"
proof (cases "b = a")
  case True
  assume f: "finite (dom p)" and n: "p h = None"
  have "{x. (p(h \<mapsto> a)) x = Some b} = insert h {x. p x = Some b}" using n True by auto
  then show ?thesis using handles_finite [OF f, of b] n True by (simp add: handles_def)
next
  case False
  assume n: "p h = None"
  have "{x. (p(h \<mapsto> a)) x = Some b} = {x. p x = Some b}" using n False by auto
  then show ?thesis using False by (simp add: handles_def)
qed

lemma handles_unbind:
  "finite (dom p) \<Longrightarrow> p h = Some a \<Longrightarrow> handles (p(h := None)) b = handles p b - (if b = a then 1 else 0)"
proof (cases "b = a")
  case True
  assume f: "finite (dom p)" and n: "p h = Some a"
  have "{x. (p(h := None)) x = Some b} = {x. p x = Some b} - {h}" by auto
  then show ?thesis using handles_finite [OF f, of b] n True by (simp add: handles_def)
next
  case False
  assume n: "p h = Some a"
  have "{x. (p(h := None)) x = Some b} = {x. p x = Some b}" using n False by auto
  then show ?thesis using False by (simp add: handles_def)
qed

definition cell_ok :: "('r \<Rightarrow> nat) \<Rightarrow> ('h, 'r) store \<Rightarrow> nat \<Rightarrow> bool" where
  "cell_ok cnt s a \<longleftrightarrow>
     (case cells s a of None \<Rightarrow> handles (ptr s) a = 0
      | Some c \<Rightarrow> handles (ptr s) a > 0 \<and> cnt (rc c) = handles (ptr s) a \<and>
                  unat (plength c) \<le> length (ppayload c))"

definition pb_inv :: "('r \<Rightarrow> nat) \<Rightarrow> ('h, 'r) store \<Rightarrow> bool" where
  "pb_inv cnt s \<longleftrightarrow> finite (dom (ptr s)) \<and> (\<forall>a. cell_ok cnt s a)"

lemma pb_invI: "finite (dom (ptr s)) \<Longrightarrow> (\<And>b. cell_ok cnt s b) \<Longrightarrow> pb_inv cnt s"
  by (simp add: pb_inv_def)

lemma pb_inv_cell:
  assumes "pb_inv cnt s" and "ptr s h = Some a"
  obtains c where "cells s a = Some c" "cnt (rc c) = handles (ptr s) a" "unat (plength c) \<le> length (ppayload c)"
    "deref h s = Some (a, c)"
proof -
  have "handles (ptr s) a > 0" "cell_ok cnt s a"
    using assms handles_pos [of "ptr s" h a] by (auto simp: pb_inv_def)
  then show ?thesis using that assms(2) by (auto simp: cell_ok_def deref_def split: option.splits)
qed

lemma pb_inv_empty: "pb_inv cnt store_empty"
  by (simp add: pb_inv_def cell_ok_def store_empty_def handles_def)

text \<open>Writing to a cell, without touching its count.\<close>

lemma pb_inv_update:
  assumes "pb_inv cnt s" and "cells s a = Some c" and "rc c' = rc c" and "unat (plength c') \<le> length (ppayload c')"
  shows "pb_inv cnt (s\<lparr>cells := (cells s)(a \<mapsto> c')\<rparr>)"
proof -
  have "cell_ok cnt (s\<lparr>cells := (cells s)(a \<mapsto> c')\<rparr>) b" for b
    using assms by (cases "b = a") (auto simp: pb_inv_def cell_ok_def split: option.splits dest: spec [of _ b])
  then show ?thesis using assms(1) by (simp add: pb_inv_def)
qed

lemma pb_init_inv:
  assumes "rc_laws cnt r0 incr decr" and "pb_inv cnt s" and "pb_scoped (Create h a junk data n r) s"
  shows "pb_inv cnt (pb_init r0 a junk h data n r s)"
proof -
  let ?s = "pb_init r0 a junk h data n r s"
  have f: "finite (dom (ptr s))" and ok: "cell_ok cnt s b" for b using assms(2) by (auto simp: pb_inv_def)
  have h: "ptr s h = None" and a: "cells s a = None" using assms(3) by auto
  have p: "ptr ?s = (ptr s)(h \<mapsto> a)" by (simp add: pb_init_def Let_def)
  have len: "unat (of_nat (nat n) :: u8) \<le> nat n" by (simp add: unat_of_nat)
  have "cell_ok cnt ?s b" for b
  proof (cases "b = a")
    case True
    have "handles (ptr s) a = 0" using ok [of a] a by (simp add: cell_ok_def)
    then show ?thesis
      using True handles_bind [OF f h, of a b] assms(1,3) len unfolding cell_ok_def p
      by (auto simp: pb_init_def Let_def rc_laws_def split: option.splits)
  next
    case False
    then show ?thesis using ok [of b] handles_bind [OF f h, of a b] unfolding cell_ok_def p
      by (auto simp: pb_init_def Let_def split: option.splits)
  qed
  moreover have "finite (dom (ptr ?s))" using f p by simp
  ultimately show ?thesis by (rule pb_invI [rotated])
qed

lemma pb_copy_inv:
  assumes "rc_laws cnt r0 incr decr" and "pb_inv cnt s" and "ptr s h = None" and "ptr s g = Some a"
  shows "\<exists>s'. pb_copy incr h g s = Some s' \<and> pb_inv cnt s' \<and> ptr s' = (ptr s)(h \<mapsto> a)"
proof -
  obtain c where c: "cells s a = Some c" "cnt (rc c) = handles (ptr s) a" "unat (plength c) \<le> length (ppayload c)"
    using assms(2,4) by (rule pb_inv_cell)
  have f: "finite (dom (ptr s))" and ok: "cell_ok cnt s b" for b using assms(2) by (auto simp: pb_inv_def)
  let ?s = "s\<lparr>ptr := (ptr s)(h \<mapsto> a), cells := (cells s)(a \<mapsto> c\<lparr>rc := incr (rc c)\<rparr>)\<rparr>"
  have d: "pb_copy incr h g s = Some ?s" using assms(4) c by (simp add: pb_copy_def ptr_incr_def deref_def)
  have "cell_ok cnt ?s b" for b
    using ok [of b] handles_bind [OF f assms(3), of a b] c assms(1)
    by (cases "b = a") (auto simp: cell_ok_def rc_laws_def split: option.splits)
  then have "pb_inv cnt ?s" using f by (intro pb_invI) simp_all
  with d show ?thesis by simp
qed

lemma pb_destroy_inv:
  assumes "rc_laws cnt r0 incr decr" and "pb_inv cnt s" and "ptr s h = Some a"
  shows "\<exists>s'. pb_destroy decr h s = Some s' \<and> pb_inv cnt s' \<and> ptr s' = (ptr s)(h := None)"
proof -
  obtain c where c: "cells s a = Some c" "cnt (rc c) = handles (ptr s) a" "unat (plength c) \<le> length (ppayload c)"
    "deref h s = Some (a, c)" using assms(2,3) by (rule pb_inv_cell)
  have f: "finite (dom (ptr s))" and ok: "cell_ok cnt s b" for b using assms(2) by (auto simp: pb_inv_def)
  let ?s = "s\<lparr>cells := (cells s)(a := map_option (\<lambda>r. c\<lparr>rc := r\<rparr>) (decr (rc c))), ptr := (ptr s)(h := None)\<rparr>"
  have d: "pb_destroy decr h s = Some ?s" using c by (simp add: pb_destroy_def ptr_decr_def)
  have pos: "handles (ptr s) a > 0" using handles_pos [OF f assms(3)] .
  have "cell_ok cnt ?s b" for b
  proof (cases "b = a")
    case True
    show ?thesis
    proof (cases "cnt (rc c) = 1")
      case one: True
      then have "decr (rc c) = None" using assms(1) by (auto simp: rc_laws_def)
      then show ?thesis using True one c handles_unbind [OF f assms(3), of b] by (simp add: cell_ok_def)
    next
      case False
      then have "cnt (rc c) > 1" using c pos by simp
      then obtain r where "decr (rc c) = Some r" "cnt r = cnt (rc c) - 1" using assms(1) by (auto simp: rc_laws_def)
      then show ?thesis using True \<open>cnt (rc c) > 1\<close> c handles_unbind [OF f assms(3), of b] by (simp add: cell_ok_def)
    qed
  next
    case False
    then show ?thesis using ok [of b] handles_unbind [OF f assms(3), of b]
      by (auto simp: cell_ok_def split: option.splits)
  qed
  then have "pb_inv cnt ?s" using f by (intro pb_invI) simp_all
  with d show ?thesis by simp
qed

lemma pb_assign_alt:
  "ptr s h \<noteq> ptr s g \<Longrightarrow> pb_assign incr decr h g s =
     (case pb_destroy decr h s of None \<Rightarrow> None | Some s1 \<Rightarrow> pb_copy incr h g s1)"
  by (auto simp: pb_assign_def pb_destroy_def pb_copy_def ptr_decr_def split: option.splits)

lemma pb_assign_inv:
  assumes "rc_laws cnt r0 incr decr" and "pb_inv cnt s" and "ptr s h = Some a" and "ptr s g = Some b"
  shows "\<exists>s'. pb_assign incr decr h g s = Some s' \<and> pb_inv cnt s' \<and> ptr s' = (ptr s)(h \<mapsto> b)"
proof (cases "a = b")
  case True
  then show ?thesis using assms by (simp add: pb_assign_def fun_upd_idem)
next
  case False
  then have hg: "h \<noteq> g" using assms by auto
  obtain s1 where s1: "pb_destroy decr h s = Some s1" "pb_inv cnt s1" "ptr s1 = (ptr s)(h := None)"
    using pb_destroy_inv [OF assms(1-3)] by blast
  then obtain s2 where "pb_copy incr h g s1 = Some s2" "pb_inv cnt s2" "ptr s2 = (ptr s1)(h \<mapsto> b)"
    using pb_copy_inv [OF assms(1), of s1 h g b] hg assms(4) by auto
  then show ?thesis using s1 pb_assign_alt [of s h g incr decr] assms(3,4) False by simp
qed

lemma setByte_eq:
  assumes "deref h s = Some (a, c)" and "unat (plength c) \<le> length (ppayload c)"
  shows "setByte h (int i) v s =
    (if i < unat (plength c) then Some (OK, s\<lparr>cells := (cells s)(a \<mapsto> c\<lparr>ppayload := (ppayload c)[i := v]\<rparr>)\<rparr>)
     else Some (INVALID_PARAMETER, s))"
proof -
  have e: "int i < int (unat (plength c)) \<longleftrightarrow> i < unat (plength c)" by (rule of_nat_less_iff)
  show ?thesis
    unfolding setByte_def assms(1) option.case prod.case e
    using assms by (simp add: pb_store_def)
qed

lemma pb_deref:
  assumes "pb_inv cnt s" and "ptr s h \<noteq> None"
  shows "\<exists>a c. deref h s = Some (a, c) \<and> cells s a = Some c \<and> unat (plength c) \<le> length (ppayload c)"
proof -
  obtain a where "ptr s h = Some a" using assms(2) by auto
  from pb_inv_cell [OF assms(1) this] show ?thesis by metis
qed

lemma pb_write_inv:
  assumes "pb_inv cnt s" and "deref h s = Some (a, c)" and "cells s a = Some c"
    and "unat (plength c) \<le> length (ppayload c)"
  shows "pb_inv cnt (s\<lparr>cells := (cells s)(a \<mapsto> c\<lparr>ppayload := (ppayload c)[i := v]\<rparr>)\<rparr>)"
  using pb_inv_update [OF assms(1,3), of "c\<lparr>ppayload := (ppayload c)[i := v]\<rparr>"] assms(4) by simp

lemma pb_at:
  assumes "deref h s = Some (a, c)" and "unat (plength c) \<le> length (ppayload c)" and "i < unat (plength c)"
  shows "pb_index h (int i) s = Some (ppayload c ! i)"
    and "pb_store h (int i) v s = Some (s\<lparr>cells := (cells s)(a \<mapsto> c\<lparr>ppayload := (ppayload c)[i := v]\<rparr>)\<rparr>)"
  using assms by (simp_all add: pb_index_def pb_store_def)

lemma getByte_eq:
  assumes "deref h s = Some (a, c)" and "unat (plength c) \<le> length (ppayload c)"
  shows "getByte h (int i) s = (if i < unat (plength c) then Some (Inr (ppayload c ! i)) else Some (Inl INVALID_PARAMETER))"
proof -
  have e: "int i < int (unat (plength c)) \<longleftrightarrow> i < unat (plength c)" by (rule of_nat_less_iff)
  show ?thesis
    unfolding getByte_def assms(1) option.case prod.case e using pb_at(1) [OF assms, of i] by simp
qed

lemma pb_run_inv:
  assumes "rc_laws cnt r0 incr decr" and "pb_inv cnt s" and "pb_scoped op s"
  shows "\<exists>s'. pb_run r0 incr decr op s = Some s' \<and> pb_inv cnt s'"
proof -
  note D = pb_deref [OF assms(2)] and W = pb_write_inv [OF assms(2)]
  have at: "\<exists>a c k. i = int k \<and> k < unat (plength c) \<and> deref h s = Some (a, c) \<and> cells s a = Some c
      \<and> unat (plength c) \<le> length (ppayload c)"
    if inside: "0 \<le> i \<and> (\<exists>n. pb_length h s = Some n \<and> i < int n)" for h i
  proof -
    obtain k where k: "i = int k" using inside by (auto elim: nonneg_int_cases)
    obtain n where n: "pb_length h s = Some n" "k < n" using inside k by auto
    then have "ptr s h \<noteq> None" by (auto simp: pb_length_def deref_def split: option.splits)
    from D [OF this] show ?thesis using n k by (auto simp: pb_length_def)
  qed
  show ?thesis
  proof (cases op)
    case (Create h a junk data n r)
    then show ?thesis using pb_init_inv [OF assms(1,2)] assms(3) by auto
  next
    case (Copy h g)
    then show ?thesis using pb_copy_inv [OF assms(1,2)] assms(3) by (auto; blast)
  next
    case (Destroy h)
    then show ?thesis using pb_destroy_inv [OF assms(1,2)] assms(3) by (auto; blast)
  next
    case (Assign h g)
    then show ?thesis using pb_assign_inv [OF assms(1,2)] assms(3) by (auto; blast)
  next
    case (ReadAt h i)
    then have "0 \<le> i \<and> (\<exists>n. pb_length h s = Some n \<and> i < int n)" using assms(3) by simp
    from at [OF this] obtain a c k where k: "i = int k" "k < unat (plength c)"
      and c: "deref h s = Some (a, c)" "cells s a = Some c" "unat (plength c) \<le> length (ppayload c)" by blast
    then show ?thesis using ReadAt pb_at(1) [OF c(1,3) k(2)] assms(2) by simp
  next
    case (WriteAt h i v)
    then have "0 \<le> i \<and> (\<exists>n. pb_length h s = Some n \<and> i < int n)" using assms(3) by simp
    from at [OF this] obtain a c k where k: "i = int k" "k < unat (plength c)"
      and c: "deref h s = Some (a, c)" "cells s a = Some c" "unat (plength c) \<le> length (ppayload c)" by blast
    then show ?thesis using WriteAt pb_at(2) [OF c(1,3) k(2), of v] W [OF c] by simp
  next
    case (Compare h g)
    then obtain a c b d where "deref h s = Some (a, c)" "deref g s = Some (b, d)"
      using D [of h] D [of g] assms(3) by fastforce
    then show ?thesis using Compare assms(2) by (simp add: pb_equal_def)
  next
    case (SetByte h i v)
    then obtain a c where c: "deref h s = Some (a, c)" "cells s a = Some c" "unat (plength c) \<le> length (ppayload c)"
      using D [of h] assms(3) by auto
    have "0 \<le> i" using assms(3) SetByte by simp
    then obtain k where "i = int k" by (rule nonneg_int_cases)
    then show ?thesis using SetByte setByte_eq [OF c(1,3), of k v] W [OF c] assms(2) by auto
  next
    case (GetByte h i)
    then obtain a c where c: "deref h s = Some (a, c)" "unat (plength c) \<le> length (ppayload c)"
      using D [of h] assms(3) by auto
    have "0 \<le> i" using assms(3) GetByte by simp
    then obtain k where "i = int k" by (rule nonneg_int_cases)
    then show ?thesis using GetByte getByte_eq [OF c, of k] assms(2) by auto
  next
    case (SetRSSI h r)
    then obtain a c where "deref h s = Some (a, c)" "cells s a = Some c" "unat (plength c) \<le> length (ppayload c)"
      using D [of h] assms(3) by auto
    then show ?thesis using SetRSSI pb_inv_update [OF assms(2), of a c] by (simp add: pb_setRSSI_def)
  qed (use D assms(2,3) in \<open>fastforce simp: getBytes_def pb_length_def pb_getRSSI_def\<close>)+
qed

lemma pb_reach_inv: "rc_laws cnt r0 incr decr \<Longrightarrow> pb_reach r0 incr decr s \<Longrightarrow> pb_inv cnt s"
proof -
  assume l: "rc_laws cnt r0 incr decr" and "pb_reach r0 incr decr s"
  from this(2) show ?thesis
  proof induction
    case start
    show ?case by (rule pb_inv_empty)
  next
    case (step s op s')
    then show ?case using pb_run_inv [OF l] by fastforce
  qed
qed


subsection \<open>Properties\<close>

text \<open>
  C17 Whatever a program does with handles in scope, as long as the indices it gives to \<open>operator[]\<close> lie in the
  packet and the positions it gives to \<open>setByte\<close> and \<open>getByte\<close> are not negative, no operation touches memory
  outside a packet: every handle points to an allocated packet, a packet is freed exactly when its last handle goes,
  and its count is the number of handles. With a negative position \<open>setByte\<close> and \<open>getByte\<close> do touch memory
  outside, as they test the upper bound only (see the findings).
\<close>

theorem packet_memory_safe:
  assumes "rc_laws cnt r0 incr decr" and "pb_reach r0 incr decr s" and "pb_scoped op s"
  shows "(\<exists>s'. pb_run r0 incr decr op s = Some s' \<and> dom (cells s') = ran (ptr s') \<and>
    (\<forall>a c. cells s' a = Some c \<longrightarrow> cnt (rc c) = card {h. ptr s' h = Some a}))
    \<and> (\<forall>h i v. i < 0 \<longrightarrow> setByte h i v s = None \<and> getByte h i s = None)"
proof -
  obtain s' where s': "pb_run r0 incr decr op s = Some s'" and inv: "pb_inv cnt s'"
    using pb_run_inv [OF assms(1) pb_reach_inv [OF assms(1,2)] assms(3)] by blast
  have "a \<in> ran (ptr s')" if "cells s' a = Some c" for a c
  proof -
    have "handles (ptr s') a > 0" using inv that by (auto simp: pb_inv_def cell_ok_def dest: spec [of _ a])
    then show ?thesis by (auto simp: handles_def card_gt_0_iff ran_def)
  qed
  moreover have "a \<in> dom (cells s')" if "ptr s' h = Some a" for a h
    using inv that by (rule pb_inv_cell) auto
  ultimately have "dom (cells s') = ran (ptr s')" unfolding ran_def by blast
  moreover have "cnt (rc c) = card {h. ptr s' h = Some a}" if "cells s' a = Some c" for a c
    using inv that by (auto simp: pb_inv_def cell_ok_def handles_def dest: spec [of _ a])
  moreover have "setByte h i v s = None \<and> getByte h i s = None" if "i < 0" for h i v
  proof -
    have "i < int (unat w)" for w :: u8 using that of_nat_0_le_iff [of "unat w"] by linarith
    then show ?thesis
      using that unfolding setByte_def getByte_def pb_store_def pb_index_def
      by (cases "deref h s") (simp_all del: of_nat_unat add: case_prod_beta)
  qed
  ultimately show ?thesis using s' by blast
qed

definition nat_decr :: "nat \<Rightarrow> nat option" where
  "nat_decr n = (if n = 1 then None else Some (n - 1))"

lemma nat_rc_laws: "rc_laws id 1 Suc nat_decr"
  by (simp add: rc_laws_def nat_decr_def)

theorem packet_memory_safe_witness:
  "let s = pb_init 1 0 [] False (Some [7, 8]) 2 0 (store_empty :: (bool, nat) store) in
   (\<exists>s'. pb_run 1 Suc nat_decr (Copy True False) s = Some s' \<and> dom (cells s') = ran (ptr s'))
   \<and> (\<exists>s'. pb_run 1 Suc nat_decr (WriteAt False 1 9) s = Some s' \<and> dom (cells s') = ran (ptr s'))
   \<and> setByte False (-1) 9 s = None"
proof -
  let ?s = "pb_init 1 0 [] False (Some [7, 8]) 2 0 (store_empty :: (bool, nat) store)"
  have "pb_scoped (Create False 0 [] (Some [7, 8]) 2 0) (store_empty :: (bool, nat) store)"
    by (simp add: store_empty_def)
  then have r: "pb_reach 1 Suc nat_decr ?s" by (rule pb_reach.step [OF pb_reach.start]) simp
  have "pb_scoped (Copy True False) ?s" "pb_scoped (WriteAt False 1 9) ?s"
    by (simp_all add: pb_init_def store_empty_def pb_length_def deref_def)
  then show ?thesis
    using packet_memory_safe [OF nat_rc_laws r, of "Copy True False"] packet_memory_safe [OF nat_rc_laws r, of "WriteAt False 1 9"]
    unfolding Let_def by fastforce
qed

text \<open>
  A byte written through one handle is read through every handle to the same packet and
  through no other; positions from the length on are refused by both operations.
\<close>

theorem packet_sharing:
  assumes "rc_laws cnt r0 incr decr" and "pb_reach r0 incr decr s"
    and "ptr s h = Some a" and "ptr s g = Some b" and "pb_length h s = Some n"
  shows "\<exists>e s'. setByte h (int i) v s = Some (e, s') \<and> pb_length h s' = Some n \<and>
    (if i < n then e = OK \<and>
        getByte g (int j) s' = (if a = b \<and> j = i then Some (Inr v) else getByte g (int j) s)
     else e = INVALID_PARAMETER \<and> s' = s \<and> getByte h (int i) s = Some (Inl INVALID_PARAMETER))"
proof -
  have inv: "pb_inv cnt s" using pb_reach_inv [OF assms(1,2)] .
  obtain c where c: "cells s a = Some c" "unat (plength c) \<le> length (ppayload c)" "deref h s = Some (a, c)"
    using inv assms(3) by (rule pb_inv_cell)
  obtain d where d: "cells s b = Some d" "deref g s = Some (b, d)"
    using inv assms(4) by (rule pb_inv_cell)
  have n: "n = unat (plength c)" using assms(5) c by (simp add: pb_length_def)
  have e: "int k < int (unat w) \<longleftrightarrow> k < unat w" for k and w :: u8 by (rule of_nat_less_iff)
  let ?s = "s\<lparr>cells := (cells s)(a \<mapsto> c\<lparr>ppayload := (ppayload c)[i := v]\<rparr>)\<rparr>"
  have g': "deref g ?s = (if a = b then Some (a, c\<lparr>ppayload := (ppayload c)[i := v]\<rparr>) else Some (b, d))"
    using assms(4) d by (simp add: deref_def)
  have h': "deref h ?s = Some (a, c\<lparr>ppayload := (ppayload c)[i := v]\<rparr>)"
    using assms(3) by (simp add: deref_def)
  show ?thesis
  proof (cases "i < n")
    case True
    have "getByte g (int j) ?s = (if a = b \<and> j = i then Some (Inr v) else getByte g (int j) s)"
      using True c d n unfolding getByte_def pb_index_def g' d(2) option.case
      by (auto simp del: of_nat_unat simp add: e)
    then show ?thesis using True n setByte_eq [OF c(3,2), of i v] h' by (simp add: pb_length_def)
  next
    case False
    then have "getByte h (int i) s = Some (Inl INVALID_PARAMETER)"
      unfolding getByte_def c(3) option.case prod.case e n by simp
    then show ?thesis using False n setByte_eq [OF c(3,2), of i v] assms(5) by simp
  qed
qed

theorem packet_sharing_witness:
  "\<exists>e s'. setByte False (int 1) 9 (pb_init 1 0 [] False (Some [7, 8]) 2 0 (store_empty :: (bool, nat) store)) = Some (e, s') \<and>
    pb_length False s' = Some 2 \<and> e = OK \<and> getByte False (int 1) s' = Some (Inr 9)"
proof -
  let ?s = "pb_init 1 0 [] False (Some [7, 8]) 2 0 (store_empty :: (bool, nat) store)"
  have "pb_scoped (Create False 0 [] (Some [7, 8]) 2 0) (store_empty :: (bool, nat) store)"
    by (simp add: store_empty_def)
  then have r: "pb_reach 1 Suc nat_decr ?s"
    by (rule pb_reach.step [OF pb_reach.start]) simp
  show ?thesis
    using packet_sharing [OF nat_rc_laws r, of False 0 False 0 2 1 9 1]
    by (simp add: pb_init_def store_empty_def pb_length_def deref_def)
qed

end
