(* ===== verification/MicroBitFlash.thy ===== *)
theory MicroBitFlash
  imports MB_Prelude
begin

text \<open>
  \<open>MicroBitFlash\<close> (\<open>source/MicroBitFlash.cpp\<close>): writing bytes to the processor's flash at any
  address, erasing the page first when a bit has to be set and keeping the page's other bytes by
  way of a scratch page. The flash is a memory; the path taken while the SoftDevice runs is not
  modelled (its calls do the same to the memory). The size of a page and the default scratch page
  are constants of the chip and the build, arguments here; the null pointer is address 0. The source buffer is not in flash.
\<close>

definition WORD_ADDR :: "nat \<Rightarrow> nat" where
  "WORD_ADDR x = x - x mod 4"

fun need_erase :: "u8 list \<Rightarrow> mem \<Rightarrow> nat \<Rightarrow> bool" where
  "need_erase [] m a \<longleftrightarrow> False"
| "need_erase (b # bs) m a \<longleftrightarrow> (if NOT (m a) AND b \<noteq> 0 then True else need_erase bs m (a + 1))"

definition erase_page :: "nat \<Rightarrow> nat \<Rightarrow> mem \<Rightarrow> mem" where
  "erase_page cps pg m = wipe m pg cps"

definition le32 :: "u32 \<Rightarrow> u8 list" where
  "le32 w = [ucast w, ucast (drop_bit 8 w), ucast (drop_bit 16 w), ucast (drop_bit 24 w)]"

text \<open>The loop over the words of a buffer, one word at a time.\<close>

fun flash_burn :: "nat \<Rightarrow> u8 list \<Rightarrow> nat \<Rightarrow> mem \<Rightarrow> mem" where
  "flash_burn addr buffer 0 m = m"
| "flash_burn addr buffer (Suc n) m = flash_burn (addr + 4) (drop 4 buffer) n (burn m addr (take 4 buffer))"

text \<open>
  The byte loop of \<open>flash_write\<close>: it collects a word, from the caller's buffer inside the range
  and from \<open>writeFrom\<close> outside it, and burns it after its last byte.
\<close>

function write_bytes :: "nat \<Rightarrow> nat \<Rightarrow> nat \<Rightarrow> u8 list \<Rightarrow> nat \<Rightarrow> nat \<Rightarrow> u32 \<Rightarrow> mem \<Rightarrow> mem" where
  "write_bytes pgAddr writeFrom offset buffer i stop writeWord m =
     (if i < stop then
        let b = (if offset \<le> i \<and> i < offset + length buffer then buffer ! (i - offset) else m (writeFrom + i));
            w = writeWord OR push_bit (8 * (i mod 4)) (ucast b)
        in if (i + 1) mod 4 = 0
           then write_bytes pgAddr writeFrom offset buffer (i + 1) stop 0
                  (flash_burn (pgAddr + 4 * (i div 4)) (le32 w) 1 m)
           else write_bytes pgAddr writeFrom offset buffer (i + 1) stop w m
      else m)"
  by pat_completeness auto
termination
  by (relation "measure (\<lambda>(p, f, off, buf, i, stop, w, m). stop - i)") auto

declare write_bytes.simps [simp del]

definition flash_write :: "nat \<Rightarrow> nat \<Rightarrow> nat \<Rightarrow> u8 list \<Rightarrow> nat \<Rightarrow> mem \<Rightarrow> code \<times> mem" where
  "flash_write cps default_scratch address buffer scratch m =
     (let scratch_addr = (if scratch = 0 then default_scratch else scratch) in
      if (of_nat scratch_addr :: u32) AND of_nat (cps - 1) \<noteq> 0 then (INVALID_PARAMETER, m)
      else
        let pgAddr = (address div cps) * cps;
            offset = address mod cps
        in if need_erase buffer m address then
             if scratch_addr = 0 then (INVALID_PARAMETER, m) else
             let m1 = erase_page cps scratch_addr m;
                 m2 = flash_burn scratch_addr (rdm m1 pgAddr cps) (cps div 4) m1;
                 m3 = erase_page cps pgAddr m2
             in (OK, write_bytes pgAddr scratch_addr offset buffer 0 cps 0 m3)
           else (OK, write_bytes pgAddr pgAddr offset buffer (WORD_ADDR offset)
                       (WORD_ADDR (offset + length buffer + 4)) 0 m))"

subsection \<open>The byte loop\<close>

lemma need_erase_iff: "need_erase bs m a \<longleftrightarrow> (\<exists>i < length bs. \<not> fits (m (a + i)) (bs ! i))"
proof (induction bs arbitrary: a)
  case (Cons b bs)
  have "(\<exists>i < length (b # bs). \<not> fits (m (a + i)) ((b # bs) ! i)) \<longleftrightarrow>
      \<not> fits (m a) b \<or> (\<exists>i < length bs. \<not> fits (m (a + 1 + i)) (bs ! i))"
    by (auto simp: less_Suc_eq_0_disj)
  then show ?case using Cons by (simp add: fits_def)
qed simp

lemma flash_burn_burn: "4 * n = length bs \<Longrightarrow> flash_burn a bs n m = burn m a bs"
proof (induction n arbitrary: a bs m)
  case (Suc n)
  have "bs = take 4 bs @ drop 4 bs" by simp
  then have "burn m a bs = burn (burn m a (take 4 bs)) (a + 4) (drop 4 bs)"
    using Suc.prems burn_append [of m a "take 4 bs" "drop 4 bs"] by simp
  then show ?case using Suc by simp
qed simp

text \<open>A word assembled from four bytes is those bytes.\<close>

definition pack :: "u8 \<Rightarrow> u8 \<Rightarrow> u8 \<Rightarrow> u8 \<Rightarrow> u32" where
  "pack a b c d = ((ucast a OR push_bit 8 (ucast b)) OR push_bit 16 (ucast c)) OR push_bit 24 (ucast d)"

lemma bit_high: "8 \<le> n \<Longrightarrow> \<not> bit (a :: u8) n"
  using bit_imp_le_length [of a n] by auto

lemma le32_pack: "le32 (pack a b c d) = [a, b, c, d]"
  by (auto simp: le32_def pack_def bit_eq_iff bit_simps bit_high)

text \<open>What the loop writes to the word at \<open>4 * k\<close>.\<close>

definition byte_at :: "nat \<Rightarrow> nat \<Rightarrow> u8 list \<Rightarrow> mem \<Rightarrow> nat \<Rightarrow> u8" where
  "byte_at writeFrom offset buffer m i =
     (if offset \<le> i \<and> i < offset + length buffer then buffer ! (i - offset) else m (writeFrom + i))"

lemma write_bytes_step:
  "i < stop \<Longrightarrow> write_bytes p f off buf i stop w m =
     (let w' = w OR push_bit (8 * (i mod 4)) (ucast (byte_at f off buf m i)) in
      if (i + 1) mod 4 = 0
      then write_bytes p f off buf (i + 1) stop 0 (burn m (p + 4 * (i div 4)) (le32 w'))
      else write_bytes p f off buf (i + 1) stop w' m)"
  by (subst write_bytes.simps) (simp add: Let_def byte_at_def le32_def)

lemma write_bytes_stop: "stop \<le> i \<Longrightarrow> write_bytes p f off buf i stop w m = m"
  by (subst write_bytes.simps) simp

lemma write_bytes_word:
  assumes "4 * k + 4 \<le> stop"
  shows "write_bytes p f off buf (4 * k) stop 0 m = write_bytes p f off buf (4 * Suc k) stop 0
    (burn m (p + 4 * k) (map (byte_at f off buf m) [4 * k..<4 * Suc k]))"
proof -
  have r: "[4 * k..<4 * Suc k] = [4 * k, Suc (4 * k), Suc (Suc (4 * k)), Suc (Suc (Suc (4 * k)))]"
    by (simp add: upt_rec)
  have md: "(4 * k) mod 4 = 0" "Suc (4 * k) mod 4 = 1" "Suc (Suc (4 * k)) mod 4 = 2"
    "Suc (Suc (Suc (4 * k))) mod 4 = 3" "Suc (Suc (Suc (Suc (4 * k)))) mod 4 = 0"
    "Suc (Suc (Suc (4 * k))) div 4 = k" "Suc (Suc (Suc (Suc (4 * k)))) = 4 * Suc k" by presburger+
  show ?thesis
    unfolding r
    using assms
    by (simp add: write_bytes_step Let_def md le32_pack [unfolded pack_def])
qed

lemma write_bytes_words:
  assumes "f = p \<or> f + 4 * (k + n) \<le> p \<or> p + 4 * (k + n) \<le> f"
  shows "write_bytes p f off buf (4 * k) (4 * (k + n)) 0 m =
    burn m (p + 4 * k) (map (byte_at f off buf m) [4 * k..<4 * (k + n)])"
  using assms
proof (induction n arbitrary: k m)
  case 0
  then show ?case by (simp add: write_bytes_stop)
next
  case (Suc n)
  let ?m = "burn m (p + 4 * k) (map (byte_at f off buf m) [4 * k..<4 * Suc k])"
  have r: "[4 * k..<4 * (k + Suc n)] = [4 * k..<4 * Suc k] @ [4 * Suc k..<4 * (Suc k + n)]"
    using upt_add_eq_append [of "4 * k" "4 * Suc k" "4 * n"] by (simp add: algebra_simps)
  have same: "map (byte_at f off buf ?m) [4 * Suc k..<4 * (Suc k + n)] =
      map (byte_at f off buf m) [4 * Suc k..<4 * (Suc k + n)]"
    using Suc.prems by (intro map_cong refl) (auto simp: byte_at_def burn_def)
  have "write_bytes p f off buf (4 * k) (4 * (k + Suc n)) 0 m =
      write_bytes p f off buf (4 * Suc k) (4 * (Suc k + n)) 0 ?m"
    using write_bytes_word [of k "4 * (k + Suc n)"] by simp
  also have "\<dots> = burn ?m (p + 4 * Suc k) (map (byte_at f off buf m) [4 * Suc k..<4 * (Suc k + n)])"
    unfolding same [symmetric] by (rule Suc.IH) (use Suc.prems in simp)
  also have "\<dots> = burn m (p + 4 * k) (map (byte_at f off buf m) [4 * k..<4 * (k + Suc n)])"
    unfolding r map_append burn_append by (simp add: algebra_simps)
  finally show ?case .
qed

subsection \<open>The two ways of writing\<close>

text \<open>No erase: the bytes around the data keep their value, and the data fits.\<close>

lemma write_in_place:
  assumes "\<not> need_erase data m (pg + off)"
  shows "write_bytes pg pg off data (WORD_ADDR off) (WORD_ADDR (off + length data + 4)) 0 m =
    put m (pg + off) data"
proof -
  let ?k = "off div 4" and ?K = "(off + length data + 4) div 4"
  have w: "WORD_ADDR off = 4 * ?k" "WORD_ADDR (off + length data + 4) = 4 * ?K"
    by (simp_all add: WORD_ADDR_def minus_mod_eq_mult_div [symmetric])
  have K: "?k \<le> ?K" by (rule div_le_mono) simp
  then have "?K = ?k + (?K - ?k)" by simp
  then have "write_bytes pg pg off data (4 * ?k) (4 * ?K) 0 m =
      burn m (pg + 4 * ?k) (map (byte_at pg off data m) [4 * ?k..<4 * ?K])"
    using write_bytes_words [of pg pg ?k "?K - ?k" off data m] by metis
  also have "\<dots> = put m (pg + off) data"
  proof
    fix x
    have lo: "4 * ?k \<le> off" and hi: "off + length data < 4 * ?K" by presburger+
    have fit: "m (pg + off + i) AND data ! i = data ! i" if "i < length data" for i
      using assms that by (auto simp: need_erase_iff fits_iff)
    show "burn m (pg + 4 * ?k) (map (byte_at pg off data m) [4 * ?k..<4 * ?K]) x = put m (pg + off) data x"
    proof (cases "pg + 4 * ?k \<le> x \<and> x < pg + 4 * ?K")
      case True
      then obtain i where i: "x = pg + i" "4 * ?k \<le> i" "i < 4 * ?K"
        by (metis add_le_cancel_left le_Suc_ex add_less_cancel_left le_add1 le_trans)
      then have v: "map (byte_at pg off data m) [4 * ?k..<4 * ?K] ! (x - (pg + 4 * ?k)) = byte_at pg off data m i"
        by simp
      have b: "burn m (pg + 4 * ?k) (map (byte_at pg off data m) [4 * ?k..<4 * ?K]) x = m x AND byte_at pg off data m i"
        using True i(1) v unfolding burn_def by (simp del: nth_map_upt)
      show ?thesis
      proof (cases "off \<le> i \<and> i < off + length data")
        case d: True
        then have "i - off < length data" by linarith
        with d show ?thesis using b fit [of "i - off"] i(1) by (simp add: byte_at_def put_def)
      next
        case False
        then show ?thesis using b i(1) by (auto simp: byte_at_def put_def)
      qed
    next
      case False
      then show ?thesis using lo hi by (auto simp: burn_def put_def)
    qed
  qed
  finally show ?thesis by (simp add: w)
qed

text \<open>
  With an erase: the page is rebuilt from the scratch copy and the data, up to its end.
\<close>

lemma write_after_erase:
  assumes "cps mod 4 = 0" and "scratch + cps \<le> pg \<or> pg + cps \<le> scratch"
    and "\<And>x. pg \<le> x \<Longrightarrow> x < pg + cps \<Longrightarrow> m x = 255"
  shows "write_bytes pg scratch off data 0 cps 0 m =
    put (put m pg (rdm m scratch cps)) (pg + off) (take (cps - off) data)"
proof -
  have c: "cps = 4 * (cps div 4)" using assms(1) by presburger
  have "write_bytes pg scratch off data 0 cps 0 m = burn m pg (map (byte_at scratch off data m) [0..<cps])"
    using write_bytes_words [of scratch pg 0 "cps div 4" off data m] assms(2) c by simp
  also have "\<dots> = put m pg (map (byte_at scratch off data m) [0..<cps])"
    by (rule burn_eq_put) (simp add: assms(3))
  also have "\<dots> = put (put m pg (rdm m scratch cps)) (pg + off) (take (cps - off) data)"
    by (rule ext) (auto simp: put_def byte_at_def)
  finally show ?thesis .
qed

lemma aligned_and: "k \<le> 32 \<Longrightarrow> a mod 2 ^ k = 0 \<Longrightarrow> (of_nat a :: u32) AND of_nat (2 ^ k - 1) = 0"
proof -
  assume k: "k \<le> 32" and a: "a mod 2 ^ k = 0"
  have "(of_nat a :: u32) AND of_nat (2 ^ k - 1) = take_bit k (of_nat a)"
    by (simp add: take_bit_eq_mask mask_eq_exp_minus_1 of_nat_diff)
  also have "\<dots> = of_nat (take_bit k a)"
    using k by (simp add: take_bit_of_nat)
  finally show ?thesis using a by (simp add: take_bit_eq_mod)
qed

lemma pages_disjoint: "a mod c = 0 \<Longrightarrow> b mod c = 0 \<Longrightarrow> a \<noteq> b \<Longrightarrow> a + c \<le> b \<or> b + c \<le> (a :: nat)"
proof -
  assume "a mod c = 0" "b mod c = 0" "a \<noteq> b"
  then obtain i j where ij: "a = c * i" "b = c * j" "i \<noteq> j" by (auto simp: mod_eq_0_iff_dvd elim!: dvdE)
  then consider "Suc i \<le> j" | "Suc j \<le> i" by linarith
  then show ?thesis
  proof cases
    case 1
    then have "c * Suc i \<le> c * j" by (rule mult_le_mono2)
    with ij show ?thesis by simp
  next
    case 2
    then have "c * Suc j \<le> c * i" by (rule mult_le_mono2)
    with ij show ?thesis by simp
  qed
qed

lemma erase_copy:
  assumes "cps mod 4 = 0" and "scratch + cps \<le> pg \<or> pg + cps \<le> scratch"
  shows "flash_burn scratch (rdm (erase_page cps scratch m) pg cps) (cps div 4) (erase_page cps scratch m) =
    put m scratch (rdm m pg cps)"
proof -
  let ?m1 = "erase_page cps scratch m"
  have "rdm ?m1 pg cps = rdm m pg cps"
    using assms(2) by (auto simp: erase_page_def mem_simps)
  moreover have "4 * (cps div 4) = length (rdm m pg cps)"
    using assms(1) by (simp only: length_rdm) presburger
  moreover have "burn ?m1 scratch (rdm m pg cps) = put ?m1 scratch (rdm m pg cps)"
    by (rule burn_eq_put) (simp add: erase_page_def wipe_def)
  moreover have "put ?m1 scratch (rdm m pg cps) = put m scratch (rdm m pg cps)"
    by (rule ext) (simp add: erase_page_def wipe_def put_def)
  ultimately show ?thesis by (simp add: flash_burn_burn)
qed

lemma rebuild_page:
  assumes "scratch + cps \<le> pg \<or> pg + cps \<le> scratch" and "m2 = put m scratch (rdm m pg cps)"
    and "m3 = wipe m2 pg cps"
  shows "put m3 pg (rdm m3 scratch cps) = m2"
proof
  fix x
  have "rdm m3 scratch cps = rdm m pg cps"
  proof (rule nth_equalityI)
    fix i assume "i < length (rdm m3 scratch cps)"
    then show "rdm m3 scratch cps ! i = rdm m pg cps ! i"
      using assms by (auto simp: wipe_def put_def)
  qed simp
  then show "put m3 pg (rdm m3 scratch cps) x = m2 x"
    using assms by (auto simp: wipe_def put_def)
qed

text \<open>Data that only clears bits is written in place.\<close>

lemma flash_write_fits:
  assumes "cps = 2 ^ k" and "k \<le> 32" and "scratch = (if arg = 0 then dflt else arg)" and "scratch mod cps = 0"
    and "\<And>i. i < length data \<Longrightarrow> fits (m (address + i)) (data ! i)"
  shows "flash_write cps dflt address data arg m = (OK, put m address data)"
proof -
  have "(of_nat scratch :: u32) AND of_nat (cps - 1) = 0"
    using assms(1,2,4) aligned_and by simp
  moreover have ne: "\<not> need_erase data m address" using assms(5) by (auto simp: need_erase_iff)
  moreover have "(address div cps) * cps + address mod cps = address" by simp
  ultimately show ?thesis
    using write_in_place [of data m "(address div cps) * cps" "address mod cps"]
    unfolding flash_write_def assms(3) [symmetric] Let_def by simp
qed

text \<open>
  C16 \<open>flash_write\<close>, for a scratch page that is aligned and is not the page written, leaves the data at the
  address and every other byte of the page as it was. When a bit has to be set, the scratch page also ends up as a
  copy of the old page, and the bytes of the data past the end of the page are dropped, although the comment
  promises that all are written; otherwise the data may run on into later pages. The value returned is
  \<open>MICROBIT_OK\<close>, which is 0: the comments in MicroBitFlash.cpp and MicroBitFlash.h document non-zero on success and
  zero on error, which the code does not keep. Both divergences are findings.
\<close>

theorem flash_write_correct:
  assumes "cps = 2 ^ k" and "2 \<le> k" and "k \<le> 32"
    and "scratch = (if arg = 0 then dflt else arg)" and "scratch \<noteq> 0"
    and "scratch mod cps = 0" and "scratch \<noteq> address - address mod cps"
  shows "flash_write cps dflt address data arg m =
    (OK, if need_erase data m address
         then put (put m scratch (rdm m (address - address mod cps) cps)) address
                (take (cps - address mod cps) data)
         else put m address data)"
proof -
  let ?pg = "(address div cps) * cps" and ?off = "address mod cps"
  have pg: "address - ?off = ?pg" by (simp add: minus_mod_eq_div_mult)
  have sum: "?pg + ?off = address" by simp
  have c4: "cps mod 4 = 0"
    using assms(1,2) le_imp_power_dvd [of 2 k "2 :: nat"] by (simp add: mod_eq_0_iff_dvd)
  have dj: "scratch + cps \<le> ?pg \<or> ?pg + cps \<le> scratch"
    by (rule pages_disjoint) (use assms(6,7) pg in simp_all)
  have al: "(of_nat scratch :: u32) AND of_nat (cps - 1) = 0"
    using assms(1,3,6) aligned_and by simp
  let ?m2 = "put m scratch (rdm m ?pg cps)"
  let ?m3 = "wipe ?m2 ?pg cps"
  have er: "write_bytes ?pg scratch ?off data 0 cps 0 ?m3 = put ?m2 address (take (cps - ?off) data)"
    using write_after_erase [OF c4 dj, of ?m3 ?off data] rebuild_page [OF dj refl refl, of m] sum
    by (simp add: wipe_def)
  show ?thesis
  proof (cases "need_erase data m address")
    case True
    then show ?thesis
      unfolding flash_write_def assms(4) [symmetric] pg Let_def erase_copy [OF c4 dj]
      using al er assms(5) by (simp add: erase_page_def)
  next
    case False
    then have "flash_write cps dflt address data arg m = (OK, put m address data)"
      using assms by (intro flash_write_fits) (auto simp: need_erase_iff)
    with False show ?thesis by simp
  qed
qed

theorem flash_write_correct_witness:
  "flash_write (2 ^ 3) 16 2 [0x0F, 0xFF, 7] 0 (\<lambda>x. if x = 3 then 0 else 255) =
     (OK, put (put (\<lambda>x. if x = 3 then 0 else 255) 16 (rdm (\<lambda>x. if x = 3 then 0 else 255) 0 8)) 2
            [0x0F, 0xFF, 7]) \<and>
   fst (flash_write (2 ^ 3) 16 6 [1, 2, 3] 0 (\<lambda>x. 255)) = OK"
proof -
  have e: "need_erase [0x0F, 0xFF, 7] (\<lambda>x. if x = 3 then 0 else 255) 2" by code_simp
  show ?thesis
    using flash_write_correct [where cps = "2 ^ 3" and k = 3 and scratch = 16 and arg = 0 and dflt = 16
        and address = 2 and data = "[0x0F, 0xFF, 7]" and m = "\<lambda>x. if x = 3 then 0 else 255"]
      flash_write_correct [where cps = "2 ^ 3" and k = 3 and scratch = 16 and arg = 0 and dflt = 16
        and address = 6 and data = "[1, 2, 3]" and m = "\<lambda>x. 255"] e
    by simp
qed

end
