(* ===== verification/FileSystem.thy ===== *)
theory FileSystem
  imports MicroBitFlash "HOL-Library.Monad_Syntax"
begin

text \<open>
  \<open>MicroBitFileSystem\<close> (\<open>source/MicroBitFileSystem.cpp\<close>): a file system in the processor's flash. A
  table of 16-bit entries at its start links the blocks of 256 bytes into chains; directories are
  files of 24-byte entries; open files are described by a list of file descriptors in memory.

  The state is the object's fields and the flash memory. Pointers into flash are addresses, 0 the
  null pointer; block numbers and table entries are the values of their 16-bit variables, with the
  wrap-around of sums written out; addresses do not reach \<open>2 ^ 32\<close>. A pointer to a file descriptor
  is its position in the list. The constants of the chip and the build are the record \<open>fs_env\<close>.
  Operations give \<open>None\<close> where the code does not return or writes outside its local buffers. The
  status codes \<open>flash_write\<close> returns are ignored by every caller. Sources of a write that lie in
  flash are read before the write; they are never on the page written. The source of randomness
  the comments mention is not used by the code.
\<close>

abbreviation BLOCK_SIZE :: nat where "BLOCK_SIZE \<equiv> 256"
abbreviation FILENAME_LENGTH :: nat where "FILENAME_LENGTH \<equiv> 16"
abbreviation DIRENT_SIZE :: nat where "DIRENT_SIZE \<equiv> 24"
abbreviation MBFS_UNUSED :: nat where "MBFS_UNUSED \<equiv> 0xFFFF"
abbreviation MBFS_EOF :: nat where "MBFS_EOF \<equiv> 0xEFFF"
abbreviation MBFS_DELETED :: nat where "MBFS_DELETED \<equiv> 0"
abbreviation ENTRY_FREE :: u16 where "ENTRY_FREE \<equiv> 0x8000"
abbreviation ENTRY_VALID :: u16 where "ENTRY_VALID \<equiv> 0x4000"
abbreviation ENTRY_DIRECTORY :: u16 where "ENTRY_DIRECTORY \<equiv> 0x2000"
abbreviation ENTRY_NEW :: u16 where "ENTRY_NEW \<equiv> 0xFFFF"
abbreviation ENTRY_DELETED :: u16 where "ENTRY_DELETED \<equiv> 0"
abbreviation MB_READ :: u32 where "MB_READ \<equiv> 1"
abbreviation MB_WRITE :: u32 where "MB_WRITE \<equiv> 2"
abbreviation MB_CREAT :: u32 where "MB_CREAT \<equiv> 4"
abbreviation MB_APPEND :: u32 where "MB_APPEND \<equiv> 8"

text \<open>\<open>"MICROBIT_FS_1_0"\<close>\<close>

definition MBFS_MAGIC :: "u8 list" where
  "MBFS_MAGIC = [77, 73, 67, 82, 79, 66, 73, 84, 95, 70, 83, 95, 49, 95, 48]"

datatype block_type = FILE | DIRECTORY | FILETABLE

record fs_env =
  codepage :: nat
  program_end :: nat
  region_end :: nat
  default_scratch :: nat
  cache_size :: nat

record file_descriptor =
  fdflags :: u16
  fdid :: nat
  seekpos :: nat
  flength :: nat
  dirent :: nat
  directory :: nat
  cached :: "u8 list"

record fs =
  fs_initialised :: bool
  fileSystemSize :: nat
  fileSystemTable :: nat
  fileSystemTableSize :: nat
  lastBlockAllocated :: nat
  rootDirectory :: nat
  openFiles :: "file_descriptor list"
  flash :: mem

subsection \<open>Reading and writing the flash\<close>

definition le16 :: "u16 \<Rightarrow> u8 list" where
  "le16 w = [ucast w, ucast (drop_bit 8 w)]"

definition fs_flash_write :: "fs_env \<Rightarrow> nat \<Rightarrow> u8 list \<Rightarrow> nat \<Rightarrow> fs \<Rightarrow> fs" where
  "fs_flash_write E a bs scratch s =
     s\<lparr>flash := snd (flash_write (codepage E) (default_scratch E) a bs scratch (flash s))\<rparr>"

definition fs_erase_page :: "fs_env \<Rightarrow> nat \<Rightarrow> fs \<Rightarrow> fs" where
  "fs_erase_page E a s = s\<lparr>flash := erase_page (codepage E) a (flash s)\<rparr>"

text \<open>A directory entry: name, first block, flags, length.\<close>

definition dirent_first :: "mem \<Rightarrow> nat \<Rightarrow> nat" where "dirent_first m d = rd16 m (d + 16)"
definition dirent_flags :: "mem \<Rightarrow> nat \<Rightarrow> u16" where "dirent_flags m d = of_nat (rd16 m (d + 18))"
definition dirent_length :: "mem \<Rightarrow> nat \<Rightarrow> nat" where "dirent_length m d = rd32 m (d + 20)"

definition dirent_bytes :: "u8 list \<Rightarrow> nat \<Rightarrow> u16 \<Rightarrow> nat \<Rightarrow> u8 list" where
  "dirent_bytes name first fl len = name @ le16 (of_nat first) @ le16 fl @ le32 (of_nat len)"

text \<open>\<open>strcmp\<close> of a string in flash and one without a zero byte.\<close>

definition streq :: "mem \<Rightarrow> nat \<Rightarrow> u8 list \<Rightarrow> bool" where
  "streq m a s \<longleftrightarrow> rdm m a (length s + 1) = s @ [0]"

subsection \<open>Blocks and the file table\<close>

definition getBlock :: "nat \<Rightarrow> fs \<Rightarrow> nat" where
  "getBlock block s = fileSystemTable s + block * BLOCK_SIZE"

definition getPage :: "fs_env \<Rightarrow> nat \<Rightarrow> fs \<Rightarrow> nat" where
  "getPage E block s = getBlock block s - getBlock block s mod codepage E"

definition getBlockNumber :: "nat \<Rightarrow> fs \<Rightarrow> nat" where
  "getBlockNumber a s = (sub32 a (fileSystemTable s) div BLOCK_SIZE) mod 65536"

definition getNextFileBlock :: "nat \<Rightarrow> fs \<Rightarrow> nat" where
  "getNextFileBlock block s = rd16 (flash s) (fileSystemTable s + 2 * block)"

definition calculateFileTableSize :: "fs \<Rightarrow> nat" where
  "calculateFileTableSize s =
     (let size = (fileSystemSize s * 2 div BLOCK_SIZE) mod 65536
      in if fileSystemSize s * 2 mod BLOCK_SIZE \<noteq> 0 then (size + 1) mod 65536 else size)"

definition fileTableWrite :: "fs_env \<Rightarrow> nat \<Rightarrow> nat \<Rightarrow> fs \<Rightarrow> fs" where
  "fileTableWrite E block v s = fs_flash_write E (fileSystemTable s + 2 * block) (le16 (of_nat v)) 0 s"

definition blocksPerPage :: "fs_env \<Rightarrow> nat" where
  "blocksPerPage E = codepage E div BLOCK_SIZE"

text \<open>The inner loop of \<open>getFreePage\<close>: whether the page is empty, and whether a deleted block was seen.\<close>

fun scan_page :: "nat \<Rightarrow> nat \<Rightarrow> nat \<Rightarrow> fs \<Rightarrow> bool \<Rightarrow> bool \<times> bool" where
  "scan_page page i 0 s deleted = (True, deleted)"
| "scan_page page i (Suc n) s deleted =
     (let next = getNextFileBlock ((page + i) mod 65536) s in
      if next = MBFS_DELETED then scan_page page (i + 1) n s True
      else if next \<noteq> MBFS_UNUSED then (False, deleted)
      else scan_page page (i + 1) n s deleted)"

partial_function (option) free_page_loop :: "fs_env \<Rightarrow> nat \<Rightarrow> nat \<Rightarrow> nat \<Rightarrow> fs \<Rightarrow> (nat + nat) option" where
  "free_page_loop E current page recyclable s =
     (if page = current then Some (Inr recyclable)
      else
        let (empty, deleted) = scan_page page 0 (blocksPerPage E) s False in
        if empty then Some (Inl page)
        else free_page_loop E current ((page + blocksPerPage E) mod fileSystemSize s mod 65536)
               (if deleted \<and> recyclable = 0 then page else recyclable) s)"

definition getFreePage :: "fs_env \<Rightarrow> fs \<Rightarrow> (nat \<times> fs) option" where
  "getFreePage E s =
     (let current = getBlockNumber (getPage E (lastBlockAllocated s) s) s;
          page = (current + blocksPerPage E) mod fileSystemSize s mod 65536
      in case free_page_loop E current page 0 s of
           None \<Rightarrow> None
         | Some (Inl page) \<Rightarrow> Some (getBlock page s, s\<lparr>lastBlockAllocated := page\<rparr>)
         | Some (Inr recyclable) \<Rightarrow>
             if recyclable \<noteq> 0
             then Some (getBlock recyclable s, fs_erase_page E (getBlock recyclable s) s)
             else Some (default_scratch E, fs_erase_page E (default_scratch E) s))"

subsection \<open>Recycling\<close>

text \<open>The entries of a directory block, then those of a block of the table, copied one by one.\<close>

fun copy_entries :: "fs_env \<Rightarrow> nat \<Rightarrow> nat \<Rightarrow> nat \<Rightarrow> fs \<Rightarrow> fs" where
  "copy_entries E src dst 0 s = s"
| "copy_entries E src dst (Suc n) s =
     copy_entries E (src + DIRENT_SIZE) (dst + DIRENT_SIZE) n
       (if dirent_flags (flash s) src AND ENTRY_VALID \<noteq> 0
        then fs_flash_write E dst (rdm (flash s) src DIRENT_SIZE) 0 s else s)"

fun copy_table :: "fs_env \<Rightarrow> nat \<Rightarrow> nat \<Rightarrow> nat \<Rightarrow> fs \<Rightarrow> fs" where
  "copy_table E src dst 0 s = s"
| "copy_table E src dst (Suc n) s =
     copy_table E (src + 2) (dst + 2) n
       (if rd16 (flash s) src \<noteq> MBFS_DELETED then fs_flash_write E dst (rdm (flash s) src 2) 0 s else s)"

fun recycle_blocks :: "fs_env \<Rightarrow> nat \<Rightarrow> block_type \<Rightarrow> nat \<Rightarrow> nat \<Rightarrow> nat \<Rightarrow> fs \<Rightarrow> fs" where
  "recycle_blocks E block type b write 0 s = s"
| "recycle_blocks E block type b write (Suc n) s =
     recycle_blocks E block type ((b + 1) mod 65536) (write + BLOCK_SIZE) n
       (if getNextFileBlock b s = MBFS_DELETED \<or> getNextFileBlock b s = MBFS_UNUSED then s
        else if b = block \<and> type = DIRECTORY
        then copy_entries E (getBlock b s) write (BLOCK_SIZE div DIRENT_SIZE) s
        else if getBlock b s < rootDirectory s
        then copy_table E (getBlock b s) write (BLOCK_SIZE div 2) s
        else fs_flash_write E write (rdm (flash s) (getBlock b s) BLOCK_SIZE) 0 s)"

definition recycleBlock :: "fs_env \<Rightarrow> nat \<Rightarrow> block_type \<Rightarrow> fs \<Rightarrow> fs option" where
  "recycleBlock E block type s =
     do {
       let page = getPage E block s;
       (scratch, s1) \<leftarrow> getFreePage E s;
       let s2 = recycle_blocks E block type (getBlockNumber page s1) scratch (blocksPerPage E) s1;
       let s3 = fs_erase_page E page s2;
       let s4 = fs_flash_write E page (rdm (flash s3) scratch (codepage E)) 0 s3;
       Some (fs_erase_page E scratch s4)
     }"

fun recycle_deleted :: "fs_env \<Rightarrow> nat list \<Rightarrow> bool \<Rightarrow> fs \<Rightarrow> fs option" where
  "recycle_deleted E [] done s = Some s"
| "recycle_deleted E (b # bs) done s =
     (let done' = (if b mod blocksPerPage E = 0 then False else done) in
      if getNextFileBlock b s = MBFS_DELETED \<and> \<not> done'
      then do { s1 \<leftarrow> recycleBlock E b FILE s; recycle_deleted E bs True s1 }
      else recycle_deleted E bs done' s)"

partial_function (option) recycle_table :: "fs_env \<Rightarrow> nat \<Rightarrow> fs \<Rightarrow> fs option" where
  "recycle_table E block s =
     (if getPage E block s < rootDirectory s
      then do { s1 \<leftarrow> recycleBlock E block FILE s;
                recycle_table E ((block + blocksPerPage E) mod 65536) s1 }
      else Some s)"

definition recycleFileTable :: "fs_env \<Rightarrow> fs \<Rightarrow> fs option" where
  "recycleFileTable E s =
     do { s1 \<leftarrow> recycle_deleted E [0..<fileSystemSize s] False s; recycle_table E 0 s1 }"

text \<open>
  The loop of \<open>getFreeBlock\<close> takes \<open>(last - first) mod 2 ^ 16\<close> steps; it gives an unused block, or the
  last deleted one it saw (0 when none).
\<close>

fun free_block_loop :: "nat \<Rightarrow> nat \<Rightarrow> nat \<Rightarrow> fs \<Rightarrow> nat + nat" where
  "free_block_loop block deleted 0 s = Inr deleted"
| "free_block_loop block deleted (Suc n) s =
     (if getNextFileBlock block s = MBFS_UNUSED then Inl block
      else free_block_loop ((block + 1) mod 65536)
             (if getNextFileBlock block s = MBFS_DELETED then block else deleted) n s)"

definition getFreeBlock :: "fs_env \<Rightarrow> fs \<Rightarrow> (nat \<times> fs) option" where
  "getFreeBlock E s =
     (let start = (lastBlockAllocated s + 1) mod fileSystemSize s mod 65536 in
      case free_block_loop start 0 ((lastBlockAllocated s + 65536 - start) mod 65536) s of
        Inl block \<Rightarrow> Some (block, s\<lparr>lastBlockAllocated := block\<rparr>)
      | Inr block \<Rightarrow>
          if block \<noteq> 0
          then do { s1 \<leftarrow> recycleFileTable E s; Some (block, s1\<lparr>lastBlockAllocated := block\<rparr>) }
          else Some (0, s))"

subsection \<open>Starting up\<close>

definition load :: "fs \<Rightarrow> code \<times> fs" where
  "load s =
     (let root = getNextFileBlock 0 s in
      if \<exists>i < root. getNextFileBlock i s \<ge> MBFS_EOF \<or> getNextFileBlock i s \<noteq> root then (NO_DATA, s)
      else if \<not> streq (flash s) (getBlock root s) MBFS_MAGIC then (NO_DATA, s)
      else
        let s1 = s\<lparr>fileSystemSize := dirent_length (flash s) (getBlock root s), rootDirectory := getBlock root s\<rparr>
        in (OK, s1\<lparr>fileSystemTableSize := calculateFileTableSize s1\<rparr>))"

fun mark_table :: "fs_env \<Rightarrow> nat \<Rightarrow> nat \<Rightarrow> nat \<Rightarrow> fs \<Rightarrow> fs" where
  "mark_table E block 0 v s = s"
| "mark_table E block (Suc n) v s =
     mark_table E (block + 1) n v (fs_flash_write E (fileSystemTable s + 2 * block) (le16 (of_nat v)) 0 s)"

definition format :: "fs_env \<Rightarrow> fs \<Rightarrow> code \<times> fs" where
  "format E s =
     (let n = fileSystemTableSize s;
          s1 = mark_table E 0 n n s;
          s2 = fs_flash_write E (fileSystemTable s1 + 2 * n) (le16 (of_nat MBFS_EOF)) 0 s1;
          s3 = s2\<lparr>rootDirectory := getBlock n s2\<rparr>
      in (OK, fs_flash_write E (rootDirectory s3)
                (dirent_bytes (MBFS_MAGIC @ [0]) n ENTRY_VALID (fileSystemSize s3)) 0 s3))"

definition fs_init :: "fs_env \<Rightarrow> nat \<Rightarrow> int \<Rightarrow> fs \<Rightarrow> code \<times> fs" where
  "fs_init E flashStart flashPages s =
     (if fs_initialised s then (NOT_SUPPORTED, s)
      else if flashPages < 0 then (INVALID_PARAMETER, s)
      else
        let P = codepage E;
            start = (if flashStart = 0
                     then if program_end E mod P \<noteq> 0 then program_end E - program_end E mod P + P
                          else program_end E
                     else flashStart);
            pages = (if flashPages = 0 then sub32 (region_end E) start div P else nat flashPages);
            s1 = s\<lparr>fileSystemTable := start, lastBlockAllocated := 0, rootDirectory := 0, openFiles := []\<rparr>;
            (e, s2) = load s1;
            s3 = (if e \<noteq> OK
                  then let s' = s2\<lparr>fileSystemSize := pages * blocksPerPage E\<rparr>
                       in snd (format E (s'\<lparr>fileSystemTableSize := calculateFileTableSize s'\<rparr>))
                  else s2)
        in (OK, s3\<lparr>fs_initialised := True\<rparr>))"

definition fs_new :: "fs_env \<Rightarrow> nat \<Rightarrow> int \<Rightarrow> mem \<Rightarrow> fs" where
  "fs_new E flashStart flashPages m =
     snd (fs_init E flashStart flashPages
       \<lparr>fs_initialised = False, fileSystemSize = 0, fileSystemTable = 0, fileSystemTableSize = 0,
        lastBlockAllocated = 0, rootDirectory = 0, openFiles = [], flash = m\<rparr>)"

subsection \<open>Directories\<close>

text \<open>The last component of a path, behind the last slash.\<close>

definition basename :: "u8 list \<Rightarrow> u8 list" where
  "basename path = rev (takeWhile (\<lambda>c. c \<noteq> 47) (rev path))"

text \<open>The search of a directory from entry \<open>i\<close> of a block on.\<close>

partial_function (option) find_dirent :: "u8 list \<Rightarrow> nat \<Rightarrow> nat \<Rightarrow> fs \<Rightarrow> nat option" where
  "find_dirent file block i s =
     (let over = DIRENT_SIZE * (i + 1) > BLOCK_SIZE;
          block' = (if over then getNextFileBlock block s else block);
          i' = (if over then 0 else i);
          d = getBlock block' s + DIRENT_SIZE * i'
      in if over \<and> block' = MBFS_EOF then Some 0
         else if dirent_flags (flash s) d AND ENTRY_VALID \<noteq> 0 \<and> streq (flash s) d file then Some d
         else find_dirent file block' (i' + 1) s)"

definition getDirectoryEntry :: "u8 list \<Rightarrow> nat \<Rightarrow> fs \<Rightarrow> nat option" where
  "getDirectoryEntry filename dir s =
     (let d = (if dir = 0 then rootDirectory s else dir)
      in find_dirent (basename filename) (dirent_first (flash s) d) 0 s)"

text \<open>
  The walk down a path. The component read so far is in a local array of 17 characters: a longer
  one is written past its end, before any check.
\<close>

fun walk_path :: "u8 list \<Rightarrow> u8 list \<Rightarrow> nat \<Rightarrow> fs \<Rightarrow> nat option" where
  "walk_path acc [] dir s = Some dir"
| "walk_path acc (c # cs) dir s =
     (if length acc > FILENAME_LENGTH then None
      else if c = 47 then
        if acc = [] then Some 0
        else do { d \<leftarrow> getDirectoryEntry acc dir s; if d = 0 then Some 0 else walk_path [] cs d s }
      else walk_path (acc @ [c]) cs dir s)"

definition getDirectoryOf :: "u8 list \<Rightarrow> fs \<Rightarrow> nat option" where
  "getDirectoryOf filename s =
     (if filename = [] then Some (rootDirectory s) else walk_path [] filename (rootDirectory s) s)"

text \<open>
  The search for a slot: an unused entry and the first invalid one (0 when there is none), then the
  last block of the chain.
\<close>

partial_function (option) find_slot :: "nat \<Rightarrow> nat \<Rightarrow> nat \<Rightarrow> fs \<Rightarrow> (nat \<times> nat) option" where
  "find_slot block i invalid s =
     (let over = DIRENT_SIZE * (i + 1) > BLOCK_SIZE;
          block' = (if over then getNextFileBlock block s else block);
          i' = (if over then 0 else i);
          d = getBlock block' s + DIRENT_SIZE * i'
      in if over \<and> block' = MBFS_EOF then Some (0, invalid)
         else if dirent_flags (flash s) d AND ENTRY_FREE \<noteq> 0 then Some (d, invalid)
         else find_slot block' (i' + 1)
                (if dirent_flags (flash s) d AND ENTRY_VALID = 0 \<and> invalid = 0 then d else invalid) s)"

partial_function (option) last_block :: "nat \<Rightarrow> fs \<Rightarrow> nat option" where
  "last_block block s =
     (if getNextFileBlock block s = MBFS_EOF then Some block
      else last_block (getNextFileBlock block s) s)"

definition createDirectoryEntry :: "fs_env \<Rightarrow> nat \<Rightarrow> fs \<Rightarrow> (nat \<times> fs) option" where
  "createDirectoryEntry E dir s =
     do {
       (empty, invalid) \<leftarrow> find_slot (dirent_first (flash s) dir) 0 0 s;
       if empty \<noteq> 0 then Some (empty, s)
       else if invalid \<noteq> 0 then
         do { s1 \<leftarrow> recycleBlock E (getBlockNumber invalid s) DIRECTORY s; Some (invalid, s1) }
       else
         do {
           (newBlock, s1) \<leftarrow> getFreeBlock E s;
           if newBlock = 0 then Some (0, s1)
           else
             do {
               lastBlock \<leftarrow> last_block (dirent_first (flash s1) dir) s1;
               let s2 = fileTableWrite E lastBlock newBlock s1;
               let s3 = fileTableWrite E newBlock MBFS_EOF s2;
               Some (getBlock newBlock s3, s3)
             }
         }
     }"

text \<open>
  \<open>stack\<close> is what the local directory entry holds at first; \<open>strcpy\<close> of a name of more than 23
  characters runs out of it, one of 16 to 23 into the fields that are set afterwards.
\<close>

definition createFile :: "fs_env \<Rightarrow> u8 list \<Rightarrow> u8 list \<Rightarrow> nat \<Rightarrow> bool \<Rightarrow> fs \<Rightarrow> (nat \<times> fs) option" where
  "createFile E stack filename dir isDirectory s =
     do {
       let file = basename filename;
       (d, s1) \<leftarrow> createDirectoryEntry E dir s;
       if d = 0 then Some (0, s1)
       else
         do {
           (newBlock, s2) \<leftarrow> getFreeBlock E s1;
           if newBlock = 0 then Some (0, s2)
           else if length file + 1 > DIRENT_SIZE then None
           else
             let name = take FILENAME_LENGTH (blit stack 0 (file @ [0]));
                 fl = (if isDirectory then ENTRY_VALID OR ENTRY_DIRECTORY else ENTRY_NEW);
                 len = (if isDirectory then 0 else 0xFFFFFFFF);
                 s3 = fs_flash_write E d (dirent_bytes name newBlock fl len) 0 s2
             in Some (d, fileTableWrite E newBlock MBFS_EOF s3)
         }
     }"

definition isValidFilename :: "u8 list option \<Rightarrow> bool" where
  "isValidFilename name =
     (case name of None \<Rightarrow> False | Some n \<Rightarrow> n \<noteq> [] \<and> list_all (\<lambda>c. \<not> (c < 32 \<or> c > 126)) n)"

definition createDirectory :: "fs_env \<Rightarrow> u8 list \<Rightarrow> u8 list option \<Rightarrow> fs \<Rightarrow> (code \<times> fs) option" where
  "createDirectory E stack name s =
     (if \<not> fs_initialised s then Some (NOT_SUPPORTED, s)
      else if \<not> isValidFilename name then Some (INVALID_PARAMETER, s)
      else
        do {
          dir \<leftarrow> getDirectoryOf (the name) s;
          if dir = 0 then Some (INVALID_PARAMETER, s)
          else
            do {
              d \<leftarrow> getDirectoryEntry (the name) dir s;
              if d \<noteq> 0 then Some (INVALID_PARAMETER, s)
              else
                do {
                  (d', s1) \<leftarrow> createFile E stack (the name) dir True s;
                  Some (if d' = 0 then NO_RESOURCES else OK, s1)
                }
            }
        })"

subsection \<open>Open files\<close>

text \<open>The descriptor with an identifier: its position in the list.\<close>

fun getFileDescriptor :: "nat \<Rightarrow> file_descriptor list \<Rightarrow> nat option" where
  "getFileDescriptor fd [] = None"
| "getFileDescriptor fd (f # fs) = (if fdid f = fd then Some 0 else map_option Suc (getFileDescriptor fd fs))"

definition remove_nth :: "nat \<Rightarrow> 'a list \<Rightarrow> 'a list" where
  "remove_nth k xs = take k xs @ drop (Suc k) xs"

text \<open>The loop of \<open>open\<close> over the list, restarted with the next identifier when one is taken.\<close>

partial_function (option) choose_id ::
    "nat \<Rightarrow> file_descriptor list \<Rightarrow> file_descriptor list \<Rightarrow> nat \<Rightarrow> (code + nat) option" where
  "choose_id d all files n =
     (case files of
        [] \<Rightarrow> Some (Inr n)
      | f # fs \<Rightarrow>
          if d = 0 then Some (Inr n)
          else if dirent f = d then Some (Inl NOT_SUPPORTED)
          else if fdid f = n then choose_id d all all (n + 1)
          else choose_id d all fs n)"

definition fs_open :: "fs_env \<Rightarrow> u8 list \<Rightarrow> u8 list option \<Rightarrow> u32 \<Rightarrow> fs \<Rightarrow> ((code + nat) \<times> fs) option" where
  "fs_open E stack filename fl s =
     (if \<not> fs_initialised s then Some (Inl NOT_SUPPORTED, s)
      else if \<not> isValidFilename filename then Some (Inl INVALID_PARAMETER, s)
      else
        do {
          dir \<leftarrow> getDirectoryOf (the filename) s;
          if dir = 0 then Some (Inl INVALID_PARAMETER, s)
          else
            do {
              d \<leftarrow> getDirectoryEntry (the filename) dir s;
              r \<leftarrow> choose_id d (openFiles s) (openFiles s) 0;
              case r of
                Inl e \<Rightarrow> Some (Inl e, s)
              | Inr n \<Rightarrow>
                  if d = 0 \<and> fl AND MB_CREAT = 0 then Some (Inl INVALID_PARAMETER, s)
                  else
                    do {
                      (d', s1) \<leftarrow> (if d = 0 then createFile E stack (the filename) dir False s else Some (d, s));
                      if d' = 0 then Some (Inl NO_RESOURCES, s1)
                      else
                        let len = (if dirent_flags (flash s1) d' = ENTRY_NEW then 0 else dirent_length (flash s1) d');
                            f = \<lparr>fdflags = ucast (fl AND NOT MB_CREAT), fdid = n mod 65536,
                                 seekpos = (if fl AND MB_APPEND \<noteq> 0 then len else 0), flength = len,
                                 dirent = d', directory = dir, cached = []\<rparr>
                        in Some (Inr (fdid f), s1\<lparr>openFiles := f # openFiles s1\<rparr>)
                    }
            }
        })"

text \<open>
  Walking a chain to the block of a position: \<open>n\<close> is \<open>file->seek - position\<close>, which is left between
  0 and 256, so that a position at the start of a block is the end of the block before it.
\<close>

function walk_chain :: "nat \<Rightarrow> nat \<Rightarrow> fs \<Rightarrow> nat \<times> nat" where
  "walk_chain block n s = (if n > BLOCK_SIZE then walk_chain (getNextFileBlock block s) (n - BLOCK_SIZE) s else (block, n))"
  by pat_completeness auto
termination by (relation "measure (\<lambda>(b, n, s). n)") auto

declare walk_chain.simps [simp del]

partial_function (option) write_loop ::
    "fs_env \<Rightarrow> file_descriptor \<Rightarrow> nat \<Rightarrow> nat \<Rightarrow> u8 list \<Rightarrow> nat \<Rightarrow> fs \<Rightarrow> (nat \<times> fs) option" where
  "write_loop E f block offset buffer copied s =
     (if copied < length buffer then
        do {
          let seg = min (length buffer - copied) (BLOCK_SIZE - offset);
          s2 \<leftarrow> (if seg \<noteq> 0
                 then do {
                   (scratch, s1) \<leftarrow> (if seekpos f + copied < flength f then getFreePage E s else Some (0, s));
                   Some (fs_flash_write E (getBlock block s + offset) (take seg (drop copied buffer)) scratch s1)
                 }
                 else Some s);
          let copied' = copied + seg;
          if offset + seg = BLOCK_SIZE \<and> copied' < length buffer
          then do {
            (newBlock, s3) \<leftarrow> getFreeBlock E s2;
            if newBlock = 0 then Some (copied', s3)
            else
              let s4 = fileTableWrite E newBlock MBFS_EOF s3;
                  s5 = fileTableWrite E block newBlock s4
              in write_loop E f newBlock 0 buffer copied' s5
          }
          else write_loop E f block (offset + seg) buffer copied' s2
        }
      else Some (copied, s))"

definition writeBuffer :: "fs_env \<Rightarrow> nat \<Rightarrow> u8 list \<Rightarrow> fs \<Rightarrow> (nat \<times> fs) option" where
  "writeBuffer E k buffer s =
     do {
       let f = openFiles s ! k;
       let (block, offset) = walk_chain (dirent_first (flash s) (dirent f)) (seekpos f) s;
       (n, s1) \<leftarrow> write_loop E f block offset buffer 0 s;
       Some (n, s1\<lparr>openFiles := (openFiles s1)[k := f\<lparr>flength := max (flength f) (seekpos f + n), seekpos := seekpos f + n\<rparr>]\<rparr>)
     }"

definition writeBack :: "fs_env \<Rightarrow> nat \<Rightarrow> fs \<Rightarrow> (nat \<times> fs) option" where
  "writeBack E k s =
     (if cached (openFiles s ! k) \<noteq> []
      then do {
        (n, s1) \<leftarrow> writeBuffer E k (cached (openFiles s ! k)) s;
        Some (n, s1\<lparr>openFiles := (openFiles s1)[k := (openFiles s1 ! k)\<lparr>cached := []\<rparr>]\<rparr>)
      }
      else Some (0, s))"

definition fs_flush :: "fs_env \<Rightarrow> nat \<Rightarrow> fs \<Rightarrow> (code \<times> fs) option" where
  "fs_flush E fd s =
     (if \<not> fs_initialised s then Some (NOT_SUPPORTED, s)
      else case getFileDescriptor fd (openFiles s) of
        None \<Rightarrow> Some (INVALID_PARAMETER, s)
      | Some k \<Rightarrow>
          do {
            (n, s1) \<leftarrow> writeBack E k s;
            let f = openFiles s1 ! k;
            let m = flash s1;
            let d = dirent f;
            if dirent_length m d = flength f then Some (OK, s1)
            else
              let entry = (\<lambda>fl. dirent_bytes (rdm m d FILENAME_LENGTH) (dirent_first m d) fl (flength f)) in
              if dirent_flags m d = ENTRY_NEW then Some (OK, fs_flash_write E d (entry ENTRY_VALID) 0 s1)
              else
                do {
                  let s2 = fs_flash_write E (d + 18) (le16 (of_nat MBFS_DELETED)) 0 s1;
                  (new, s3) \<leftarrow> createDirectoryEntry E (directory f) s2;
                  Some (OK, fs_flash_write E new (entry (dirent_flags m d)) 0 s3)
                }
          })"

definition fs_close :: "fs_env \<Rightarrow> nat \<Rightarrow> fs \<Rightarrow> (code \<times> fs) option" where
  "fs_close E fd s =
     do {
       (r, s1) \<leftarrow> fs_flush E fd s;
       if r \<noteq> OK then Some (r, s1)
       else case getFileDescriptor fd (openFiles s1) of
           None \<Rightarrow> None
         | Some k \<Rightarrow> Some (OK, s1\<lparr>openFiles := remove_nth k (openFiles s1)\<rparr>)
     }"

text \<open>Conversion to \<open>int\<close>, 32 bits.\<close>

definition to_int :: "int \<Rightarrow> int" where
  "to_int x = (x + 2 ^ 31) mod 2 ^ 32 - 2 ^ 31"

definition fs_seek :: "fs_env \<Rightarrow> nat \<Rightarrow> int \<Rightarrow> u8 \<Rightarrow> fs \<Rightarrow> ((code + nat) \<times> fs) option" where
  "fs_seek E fd offset fl s =
     (if \<not> fs_initialised s then Some (Inl NOT_SUPPORTED, s)
      else case getFileDescriptor fd (openFiles s) of
        None \<Rightarrow> Some (Inl INVALID_PARAMETER, s)
      | Some k \<Rightarrow>
          do {
            (n, s1) \<leftarrow> writeBack E k s;
            let f = openFiles s1 ! k;
            let position =
              (if fl = 1 then offset
               else if fl = 2 then to_int (int (flength f) + offset)
               else if fl = 4 then to_int (int (seekpos f) + offset)
               else to_int (int (seekpos f)));
            if position < 0 \<or> position > int (flength f) then Some (Inl INVALID_PARAMETER, s1)
            else Some (Inr (nat position), s1\<lparr>openFiles := (openFiles s1)[k := f\<lparr>seekpos := nat position\<rparr>]\<rparr>)
          })"

partial_function (option) read_loop :: "nat \<Rightarrow> nat \<Rightarrow> nat \<Rightarrow> u8 list \<Rightarrow> fs \<Rightarrow> u8 list option" where
  "read_loop block offset want out s =
     (if length out < want then
        let seg = min (want - length out) (BLOCK_SIZE - offset);
            out' = out @ rdm (flash s) (getBlock block s + offset) seg
        in if offset + seg = BLOCK_SIZE then read_loop (getNextFileBlock block s) 0 want out' s
           else read_loop block (offset + seg) want out' s
      else Some out)"

definition fs_read :: "fs_env \<Rightarrow> nat \<Rightarrow> bool \<Rightarrow> int \<Rightarrow> fs \<Rightarrow> ((code + u8 list) \<times> fs) option" where
  "fs_read E fd buffer_null want s =
     (if \<not> fs_initialised s then Some (Inl NOT_SUPPORTED, s)
      else case getFileDescriptor fd (openFiles s) of
        None \<Rightarrow> Some (Inl INVALID_PARAMETER, s)
      | Some k \<Rightarrow>
          if buffer_null \<or> want = 0 then Some (Inl INVALID_PARAMETER, s)
          else
            do {
              (n, s1) \<leftarrow> writeBack E k s;
              let f = openFiles s1 ! k;
              let want' = min want (to_int (int (flength f) - int (seekpos f)));
              let (block, offset) = walk_chain (dirent_first (flash s1) (dirent f)) (seekpos f) s1;
              out \<leftarrow> read_loop block offset (nat want') [] s1;
              Some (Inr out, s1\<lparr>openFiles := (openFiles s1)[k := f\<lparr>seekpos := seekpos f + length out\<rparr>]\<rparr>)
            })"

text \<open>
  The cached path of \<open>write\<close>: every round copies from the start of the buffer, up to its full
  length or the room in the cache.
\<close>

partial_function (option) cache_loop :: "fs_env \<Rightarrow> nat \<Rightarrow> u8 list \<Rightarrow> nat \<Rightarrow> fs \<Rightarrow> (nat \<times> fs) option" where
  "cache_loop E k buffer copied s =
     (if copied < length buffer then
        do {
          let f = openFiles s ! k;
          let seg = min (length buffer) (cache_size E - length (cached f));
          let f' = f\<lparr>cached := cached f @ take seg buffer\<rparr>;
          let s1 = s\<lparr>openFiles := (openFiles s)[k := f']\<rparr>;
          s2 \<leftarrow> (if length (cached f') = cache_size E then map_option snd (writeBack E k s1) else Some s1);
          cache_loop E k buffer (copied + seg) s2
        }
      else Some (copied, s))"

definition fs_write :: "fs_env \<Rightarrow> nat \<Rightarrow> u8 list option \<Rightarrow> fs \<Rightarrow> ((code + nat) \<times> fs) option" where
  "fs_write E fd buffer s =
     (if \<not> fs_initialised s then Some (Inl NOT_SUPPORTED, s)
      else case getFileDescriptor fd (openFiles s) of
        None \<Rightarrow> Some (Inl INVALID_PARAMETER, s)
      | Some k \<Rightarrow>
          (case buffer of
             None \<Rightarrow> Some (Inl INVALID_PARAMETER, s)
           | Some bs \<Rightarrow>
               if bs = [] then Some (Inl INVALID_PARAMETER, s)
               else if length bs < cache_size E
               then do { (n, s1) \<leftarrow> cache_loop E k bs 0 s; Some (Inr n, s1) }
               else
                 do {
                   (n, s1) \<leftarrow> writeBack E k s;
                   (n', s2) \<leftarrow> writeBuffer E k bs s1;
                   Some (Inr n', s2)
                 }))"

partial_function (option) delete_chain :: "fs_env \<Rightarrow> nat \<Rightarrow> fs \<Rightarrow> fs option" where
  "delete_chain E block s =
     (if block = MBFS_EOF then Some s
      else delete_chain E (getNextFileBlock block s) (fileTableWrite E block MBFS_DELETED s))"

definition fs_remove :: "fs_env \<Rightarrow> u8 list \<Rightarrow> u8 list option \<Rightarrow> fs \<Rightarrow> (code \<times> fs) option" where
  "fs_remove E stack filename s =
     do {
       (r, s1) \<leftarrow> fs_open E stack filename MB_READ s;
       case r of
         Inl e \<Rightarrow> Some (e, s1)
       | Inr fd \<Rightarrow>
           (case getFileDescriptor fd (openFiles s1) of
              None \<Rightarrow> None
            | Some k \<Rightarrow>
                do {
                  let f = openFiles s1 ! k;
                  let s2 = s1\<lparr>openFiles := remove_nth k (openFiles s1)\<rparr>;
                  s3 \<leftarrow> delete_chain E (dirent_first (flash s2) (dirent f)) s2;
                  Some (OK, fs_flash_write E (dirent f + 18) (le16 ENTRY_DELETED) 0 s3)
                })
     }"


declare free_page_loop.simps [code] recycle_table.simps [code] find_dirent.simps [code] find_slot.simps [code]
  last_block.simps [code] choose_id.simps [code] write_loop.simps [code] read_loop.simps [code]
  cache_loop.simps [code] delete_chain.simps [code]

end
