(* ===== verification/FileSystemProps.thy ===== *)
theory FileSystemProps
  imports FileSystem
begin

text \<open>
  Properties of the file system: reading gives the bytes of a file's chain of blocks, seeking stays
  inside the file, a write at the end of a file appends to it, a formatted flash is found again
  after a restart, and the page the recycler takes may be one in use.
\<close>

subsection \<open>Chains of blocks\<close>

fun linked :: "fs \<Rightarrow> nat list \<Rightarrow> bool" where
  "linked s [] \<longleftrightarrow> False"
| "linked s [b] \<longleftrightarrow> True"
| "linked s (b # c # bs) \<longleftrightarrow> getNextFileBlock b s = c \<and> linked s (c # bs)"

definition block_bytes :: "fs \<Rightarrow> nat \<Rightarrow> u8 list" where
  "block_bytes s b = rdm (flash s) (getBlock b s) BLOCK_SIZE"

definition contents :: "fs \<Rightarrow> nat list \<Rightarrow> u8 list" where
  "contents s bs = concat (map (block_bytes s) bs)"

lemma length_block_bytes [simp]: "length (block_bytes s b) = 256"
  by (simp add: block_bytes_def)

lemma contents_Cons [simp]: "contents s (b # bs) = block_bytes s b @ contents s bs"
  by (simp add: contents_def)

lemma contents_Nil [simp]: "contents s [] = []"
  by (simp add: contents_def)

lemma length_contents [simp]: "length (contents s bs) = 256 * length bs"
  by (induction bs) simp_all

lemma contents_append: "contents s (bs @ cs) = contents s bs @ contents s cs"
  by (simp add: contents_def)

lemma drop_contents: "j \<le> length bs \<Longrightarrow> drop (256 * j) (contents s bs) = contents s (drop j bs)"
proof (induction bs arbitrary: j)
  case (Cons b bs)
  then show ?case by (cases j) simp_all
qed simp

lemma linked_drop: "linked s bs \<Longrightarrow> j < length bs \<Longrightarrow> linked s (drop j bs)"
proof (induction bs arbitrary: j)
  case (Cons b bs)
  show ?case
  proof (cases j)
    case 0
    then show ?thesis using Cons.prems by simp
  next
    case (Suc i)
    then have "bs \<noteq> []" using Cons.prems by auto
    then have "linked s bs" using Cons.prems(1) by (cases bs) simp_all
    then show ?thesis using Suc Cons by simp
  qed
qed simp

lemma walk_chain_spec:
  "linked s bs \<Longrightarrow> n \<le> 256 * length bs \<Longrightarrow>
    \<exists>j < length bs. walk_chain (hd bs) n s = (bs ! j, n - 256 * j) \<and> 256 * j \<le> n \<and> n - 256 * j \<le> 256"
proof (induction bs arbitrary: n)
  case (Cons b bs)
  show ?case
  proof (cases "n > 256")
    case True
    with Cons.prems obtain c cs where bs: "bs = c # cs" by (cases bs) simp_all
    with Cons.prems have l: "linked s bs" and c: "getNextFileBlock b s = hd bs" by simp_all
    obtain j where j: "j < length bs" "walk_chain (hd bs) (n - 256) s = (bs ! j, n - 256 - 256 * j)"
      "256 * j \<le> n - 256" "n - 256 - 256 * j \<le> 256"
    proof -
      have "n - 256 \<le> 256 * length bs" using Cons.prems(2) True by simp
      from Cons.IH [OF l this] that show thesis by blast
    qed
    have "walk_chain b n s = walk_chain (hd bs) (n - 256) s"
      using True c by (subst walk_chain.simps) simp
    then show ?thesis using j True by (intro exI [of _ "Suc j"]) simp
  next
    case False
    then have "walk_chain b n s = (b, n)" by (subst walk_chain.simps) simp
    then show ?thesis using False by (intro exI [of _ 0]) simp
  qed
qed simp

subsection \<open>Reading\<close>

lemma rdm_block: "offset + seg \<le> 256 \<Longrightarrow>
    rdm (flash s) (getBlock b s + offset) seg = take seg (drop offset (block_bytes s b))"
  by (simp add: block_bytes_def drop_rdm take_rdm min_absorb1)

lemma read_loop_full: "want \<le> length out \<Longrightarrow> read_loop x y want out s = Some out"
  by (subst read_loop.simps) simp

lemma fs_read_loop_spec:
  "linked s bs \<Longrightarrow> offset \<le> 256 \<Longrightarrow> want - length out + offset \<le> 256 * length bs \<Longrightarrow> length out \<le> want \<Longrightarrow>
    read_loop (hd bs) offset want out s = Some (out @ take (want - length out) (drop offset (contents s bs)))"
proof (induction bs arbitrary: offset out)
  case (Cons b bs)
  let ?rem = "want - length out"
  let ?seg = "min ?rem (256 - offset)"
  let ?out = "out @ take ?seg (drop offset (block_bytes s b))"
  have seg: "rdm (flash s) (getBlock b s + offset) ?seg = take ?seg (drop offset (block_bytes s b))"
    using Cons.prems(2) by (intro rdm_block) simp
  have len: "length ?out = length out + ?seg" using Cons.prems(2) by simp
  show ?case
  proof (cases "?rem = 0")
    case True
    then show ?thesis using Cons.prems(4) by (subst read_loop.simps) simp
  next
    case False
    then have lt: "length out < want" by simp
    have step: "read_loop b offset want out s =
        (if offset + ?seg = 256 then read_loop (getNextFileBlock b s) 0 want ?out s
         else read_loop b (offset + ?seg) want ?out s)"
      using lt by (subst read_loop.simps) (simp only: Let_def seg if_True)
    show ?thesis
    proof (cases "offset + ?seg = 256 \<and> length ?out < want")
      case True
      with Cons.prems(3) len obtain c cs where bs: "bs = c # cs" by (cases bs) auto
      with Cons.prems have l: "linked s bs" and c: "getNextFileBlock b s = hd bs" by simp_all
      have s256: "?seg = 256 - offset" using True by linarith
      have "read_loop b offset want out s = read_loop (hd bs) 0 want ?out s"
        unfolding step using True c by (simp only: if_True simp_thms)
      also have "\<dots> = Some (?out @ take (want - length ?out) (drop 0 (contents s bs)))"
        by (rule Cons.IH [OF l]) (use Cons.prems len True in auto)
      also have "?out @ take (want - length ?out) (drop 0 (contents s bs)) =
          out @ take ?rem (drop offset (contents s (b # bs)))"
        using s256 len True Cons.prems(2) by simp
      finally show ?thesis by simp
    next
      case False
      have full: "length ?out = want \<and> ?seg = ?rem"
        using False len lt Cons.prems(2) by (cases "?rem \<le> 256 - offset") auto
      have stop: "read_loop x y want ?out s = Some ?out" for x y
        by (rule read_loop_full [OF eq_imp_le [OF sym [OF conjunct1 [OF full]]]])
      have "read_loop b offset want out s = Some ?out"
        unfolding step by (simp only: stop if_cancel)
      moreover have "?rem \<le> 256 - offset" using full by linarith
      ultimately show ?thesis using Cons.prems(2) lt by simp
    qed
  qed
qed simp

lemma to_int_id: "- (2 ^ 31) \<le> x \<Longrightarrow> x < 2 ^ 31 \<Longrightarrow> to_int x = x"
  by (simp add: to_int_def)

text \<open>An open file without cached data, and the blocks its first block leads to.\<close>

definition open_file :: "fs \<Rightarrow> nat \<Rightarrow> nat \<Rightarrow> nat list \<Rightarrow> bool" where
  "open_file s fd k bs \<longleftrightarrow>
     (let f = openFiles s ! k in
      fs_initialised s \<and> getFileDescriptor fd (openFiles s) = Some k \<and> cached f = [] \<and>
      linked s bs \<and> hd bs = dirent_first (flash s) (dirent f) \<and>
      seekpos f \<le> flength f \<and> flength f \<le> 256 * length bs \<and> flength f < 2 ^ 31)"

definition file_bytes :: "fs \<Rightarrow> nat \<Rightarrow> nat list \<Rightarrow> u8 list" where
  "file_bytes s k bs = take (flength (openFiles s ! k)) (contents s bs)"

lemma writeBack_none: "cached (openFiles s ! k) = [] \<Longrightarrow> writeBack E k s = Some (0, s)"
  by (simp add: writeBack_def)

lemma fs_read_eq:
  assumes "open_file s fd k bs" and "n > 0" and "f = openFiles s ! k"
    and "data = take (nat n) (drop (seekpos f) (file_bytes s k bs))"
  shows "fs_read E fd False n s =
    Some (Inr data, s\<lparr>openFiles := (openFiles s)[k := f\<lparr>seekpos := seekpos f + length data\<rparr>]\<rparr>)"
proof -
  note o = assms(1) [unfolded open_file_def Let_def assms(3) [symmetric]]
  let ?want = "min (nat n) (flength f - seekpos f)"
  have sz: "nat (min n (to_int (int (flength f) - int (seekpos f)))) = ?want"
    using o assms(2) by (subst to_int_id) (auto simp: min_def nat_le_iff nat_diff_distrib)
  obtain j where j: "j < length bs" "walk_chain (hd bs) (seekpos f) s = (bs ! j, seekpos f - 256 * j)"
    "256 * j \<le> seekpos f" "seekpos f - 256 * j \<le> 256"
    using walk_chain_spec [of s bs "seekpos f"] o by auto
  have hd: "hd (drop j bs) = bs ! j" using j(1) by (rule hd_drop_conv_nth)
  have "read_loop (hd (drop j bs)) (seekpos f - 256 * j) ?want [] s =
      Some (take ?want (drop (seekpos f - 256 * j) (contents s (drop j bs))))"
    using fs_read_loop_spec [of s "drop j bs" "seekpos f - 256 * j" ?want "[]"] o j
    by (auto simp: linked_drop right_diff_distrib')
  also have "take ?want (drop (seekpos f - 256 * j) (contents s (drop j bs))) = data"
    using j unfolding drop_contents [OF less_imp_le [OF j(1)], symmetric]
    by (simp add: assms(4) file_bytes_def assms(3) [symmetric] drop_take)
  finally have rl: "read_loop (bs ! j) (seekpos f - 256 * j) ?want [] s = Some data" using hd by simp
  show ?thesis
    using o j rl sz assms(2)
    by (simp add: fs_read_def writeBack_none assms(3) [symmetric] Let_def)
qed

subsection \<open>The file table\<close>

definition env_ok :: "fs_env \<Rightarrow> bool" where
  "env_ok E \<longleftrightarrow> (\<exists>k \<le> 32. codepage E = 2 ^ k) \<and> default_scratch E mod codepage E = 0"

lemma fs_flash_write_fits:
  assumes "env_ok E" and "\<And>i. i < length bs \<Longrightarrow> fits (flash s (a + i)) (bs ! i)"
  shows "fs_flash_write E a bs 0 s = s\<lparr>flash := put (flash s) a bs\<rparr>"
proof -
  obtain k where k: "k \<le> 32" "codepage E = 2 ^ k" "default_scratch E mod codepage E = 0"
    using assms(1) by (auto simp: env_ok_def)
  have "flash_write (codepage E) (default_scratch E) a bs 0 (flash s) = (OK, put (flash s) a bs)"
    by (rule flash_write_fits [OF k(2,1) refl]) (simp_all add: k(3) assms(2))
  then show ?thesis by (simp add: fs_flash_write_def)
qed

lemma rd16_cong: "m a = m' a \<Longrightarrow> m (a + 1) = m' (a + 1) \<Longrightarrow> rd16 m a = rd16 m' a"
  by (simp add: rd16_def)

lemma rd16_lt: "rd16 m a < 65536"
proof -
  have "unat (w :: u8) < 2 ^ LENGTH(8)" for w by (rule unsigned_less)
  from this [of "m a"] this [of "m (a + 1)"] have "unat (m a) < 256" "unat (m (a + 1)) < 256" by simp_all
  then show ?thesis by (simp add: rd16_def)
qed

lemma length_le16 [simp]: "length (le16 w) = 2"
  by (simp add: le16_def)

lemma le16_unat: "unat (le16 w ! 0) + 256 * unat (le16 w ! 1) = unat w"
proof -
  have "unat (ucast w :: u8) = unat w mod 256"
    by (simp add: unsigned_ucast_eq take_bit_eq_mod)
  moreover have "unat (ucast (drop_bit 8 w) :: u8) = unat w div 256"
  proof -
    have "unat w < 2 ^ LENGTH(16)" by (rule unsigned_less)
    then have "unat w div 256 < 256" by simp
    then show ?thesis by (simp add: unsigned_ucast_eq take_bit_eq_mod unat_drop_bit_eq) (simp add: drop_bit_eq_div)
  qed
  ultimately show ?thesis by (simp add: le16_def)
qed

lemma rd16_put_le16 [simp]: "rd16 (put m a (le16 w)) a = unat w"
  using le16_unat [of w] by (simp add: rd16_def put_def)

lemma rd16_put_out: "b + 1 < a \<or> a + length bs \<le> b \<Longrightarrow> rd16 (put m a bs) b = rd16 m b"
  by (rule rd16_cong) (auto simp: put_def)

subsection \<open>Allocating a block\<close>

abbreviation unused :: "nat \<Rightarrow> fs \<Rightarrow> bool" where
  "unused b s \<equiv> getNextFileBlock b s = MBFS_UNUSED"

text \<open>
  A file system whose unused blocks are data blocks and erased. It has at most 4096 blocks: the
  end-of-file mark has bit 12 clear, so no larger block number can replace it without an erase.
\<close>

definition clean :: "fs \<Rightarrow> bool" where
  "clean s \<longleftrightarrow> fileSystemSize s \<le> 4096 \<and> lastBlockAllocated s < fileSystemSize s \<and>
     (\<forall>b < fileSystemSize s. unused b s \<longrightarrow> 2 * fileSystemSize s \<le> 256 * b \<and>
        (\<forall>i < 256. flash s (getBlock b s + i) = 255))"

text \<open>The unused blocks behind the last one allocated, in order.\<close>

definition frees :: "fs \<Rightarrow> nat list" where
  "frees s = filter (\<lambda>b. unused b s) [lastBlockAllocated s + 1..<fileSystemSize s]"

lemma free_block_loop_finds:
  "(\<And>x. b \<le> x \<Longrightarrow> x < c \<Longrightarrow> \<not> unused x s) \<Longrightarrow> unused c s \<Longrightarrow> b \<le> c \<Longrightarrow> c - b < n \<Longrightarrow> c < 65536 \<Longrightarrow>
    free_block_loop b d n s = Inl c"
proof (induction n arbitrary: b d)
  case (Suc n)
  show ?case
  proof (cases "b = c")
    case True
    then show ?thesis using Suc.prems(2) by simp
  next
    case False
    then have "\<not> unused b s" "b + 1 \<le> c" "(b + 1) mod 65536 = b + 1" using Suc.prems by auto
    moreover have "free_block_loop (b + 1) d' n s = Inl c" for d'
      using Suc.prems False by (intro Suc.IH) auto
    ultimately show ?thesis by simp
  qed
qed simp

lemma filter_upt_Cons:
  "filter P [a..<n] = c # cs \<Longrightarrow> a \<le> c \<and> c < n \<and> P c \<and> (\<forall>x. a \<le> x \<longrightarrow> x < c \<longrightarrow> \<not> P x) \<and> cs = filter P [c + 1..<n]"
proof (induction "n - a" arbitrary: a)
  case (Suc k)
  then have an: "a < n" by simp
  then have u: "[a..<n] = a # [a + 1..<n]" by (simp add: upt_rec)
  show ?case
  proof (cases "P a")
    case True
    then show ?thesis using Suc.prems an u by auto
  next
    case False
    then have "filter P [a + 1..<n] = c # cs" using Suc.prems u by simp
    moreover have "k = n - (a + 1)" using Suc.hyps(2) by simp
    ultimately show ?thesis using Suc.hyps(1) False by (metis Suc_eq_plus1 Suc_leD Suc_leI le_neq_implies_less)
  qed
qed simp

lemma getFreeBlock_free:
  assumes "clean s" and "frees s = c # cs"
  shows "getFreeBlock E s = Some (c, s\<lparr>lastBlockAllocated := c\<rparr>)"
    and "lastBlockAllocated s < c" and "c < fileSystemSize s" and "unused c s"
    and "cs = filter (\<lambda>b. unused b s) [c + 1..<fileSystemSize s]"
proof -
  let ?l = "lastBlockAllocated s"
  have n: "fileSystemSize s \<le> 4096" "?l < fileSystemSize s" using assms(1) by (auto simp: clean_def)
  note c = filter_upt_Cons [OF assms(2) [unfolded frees_def]]
  then show "?l < c" "c < fileSystemSize s" "unused c s"
    "cs = filter (\<lambda>b. unused b s) [c + 1..<fileSystemSize s]" by auto
  have start: "(?l + 1) mod fileSystemSize s mod 65536 = ?l + 1" using c n by simp
  have "(?l + 65536 - (?l + 1)) mod 65536 = 65535" by simp
  moreover have "free_block_loop (?l + 1) 0 65535 s = Inl c"
    using c n by (intro free_block_loop_finds) auto
  ultimately show "getFreeBlock E s = Some (c, s\<lparr>lastBlockAllocated := c\<rparr>)"
    unfolding getFreeBlock_def Let_def start by simp
qed

subsection \<open>A file that grows\<close>

definition growing :: "fs \<Rightarrow> nat list \<Rightarrow> nat \<Rightarrow> bool" where
  "growing s bs n \<longleftrightarrow> clean s \<and> linked s bs \<and>
     (\<forall>b \<in> set bs. b < fileSystemSize s \<and> 2 * fileSystemSize s \<le> 256 * b) \<and>
     getNextFileBlock (last bs) s = MBFS_EOF \<and> n \<le> 256 * length bs \<and> 256 * (length bs - 1) \<le> n \<and>
     (\<forall>i. n - 256 * (length bs - 1) \<le> i \<and> i < 256 \<longrightarrow> flash s (getBlock (last bs) s + i) = 255)"

text \<open>What the write leaves alone: everything but the file's chain and the unused blocks.\<close>

definition others :: "fs \<Rightarrow> nat list \<Rightarrow> fs \<Rightarrow> bool" where
  "others s bs s' \<longleftrightarrow>
     (\<exists>m l. s' = s\<lparr>flash := m, lastBlockAllocated := l\<rparr>) \<and>
     (\<forall>x. x < fileSystemTable s \<or> fileSystemTable s + 256 * fileSystemSize s \<le> x \<longrightarrow> flash s' x = flash s x) \<and>
     (\<forall>b < fileSystemSize s. b \<notin> set bs \<and> \<not> unused b s \<longrightarrow>
        getNextFileBlock b s' = getNextFileBlock b s \<and>
        (2 * fileSystemSize s \<le> 256 * b \<longrightarrow> (\<forall>i < 256. flash s' (getBlock b s + i) = flash s (getBlock b s + i))))"

lemma othersI:
  assumes "s' = s\<lparr>flash := m, lastBlockAllocated := l\<rparr>"
    and "\<And>x. x < fileSystemTable s \<or> fileSystemTable s + 256 * fileSystemSize s \<le> x \<Longrightarrow> m x = flash s x"
    and "\<And>b. b < fileSystemSize s \<Longrightarrow> b \<notin> set bs \<Longrightarrow> \<not> unused b s \<Longrightarrow>
      getNextFileBlock b (s\<lparr>flash := m\<rparr>) = getNextFileBlock b s"
    and "\<And>b i. b < fileSystemSize s \<Longrightarrow> b \<notin> set bs \<Longrightarrow> \<not> unused b s \<Longrightarrow>
      2 * fileSystemSize s \<le> 256 * b \<Longrightarrow> i < 256 \<Longrightarrow> m (getBlock b s + i) = flash s (getBlock b s + i)"
  shows "others s bs s'"
  unfolding others_def assms(1)
  using assms(2-4) by (auto simp: getNextFileBlock_def)

lemma othersD:
  assumes "others s bs s'"
  shows "x < fileSystemTable s \<or> fileSystemTable s + 256 * fileSystemSize s \<le> x \<Longrightarrow> flash s' x = flash s x"
    and "b < fileSystemSize s \<Longrightarrow> b \<notin> set bs \<Longrightarrow> \<not> unused b s \<Longrightarrow> getNextFileBlock b s' = getNextFileBlock b s"
    and "b < fileSystemSize s \<Longrightarrow> b \<notin> set bs \<Longrightarrow> \<not> unused b s \<Longrightarrow> 2 * fileSystemSize s \<le> 256 * b \<Longrightarrow>
      i < 256 \<Longrightarrow> flash s' (getBlock b s + i) = flash s (getBlock b s + i)"
  using assms by (auto simp: others_def)

lemma others_refl: "others s bs s"
proof -
  have "s = s\<lparr>flash := flash s, lastBlockAllocated := lastBlockAllocated s\<rparr>" by simp
  then show ?thesis unfolding others_def by blast
qed

lemma others_fields:
  "others s bs s' \<Longrightarrow> fileSystemSize s' = fileSystemSize s \<and> fileSystemTable s' = fileSystemTable s \<and>
    openFiles s' = openFiles s \<and> fs_initialised s' = fs_initialised s \<and> getBlock b s' = getBlock b s"
  by (auto simp: others_def getBlock_def)

lemma linked_in: "linked s bs \<Longrightarrow> b \<in> set (butlast bs) \<Longrightarrow> getNextFileBlock b s \<in> set bs"
proof (induction bs)
  case (Cons a bs)
  then show ?case by (cases bs) (auto split: if_splits)
qed simp

lemma linked_cong:
  "linked s bs \<Longrightarrow> (\<And>b. b \<in> set (butlast bs) \<Longrightarrow> getNextFileBlock b s' = getNextFileBlock b s) \<Longrightarrow> linked s' bs"
proof (induction bs)
  case (Cons a bs)
  then show ?case by (cases bs) auto
qed simp

lemma linked_snoc: "linked s bs \<Longrightarrow> getNextFileBlock (last bs) s = c \<Longrightarrow> linked s (bs @ [c])"
proof (induction bs)
  case (Cons a bs)
  then show ?case by (cases bs) auto
qed simp

lemma growing_last:
  assumes "growing s bs n"
  shows "bs = butlast bs @ [last bs]" and "last bs \<in> set bs" and "last bs \<notin> set (butlast bs)"
proof -
  have ne: "bs \<noteq> []" using assms by (auto simp: growing_def)
  then show "bs = butlast bs @ [last bs]" "last bs \<in> set bs" by simp_all
  show "last bs \<notin> set (butlast bs)"
  proof
    assume "last bs \<in> set (butlast bs)"
    then have "MBFS_EOF \<in> set bs" using linked_in [of s bs "last bs"] assms by (auto simp: growing_def)
    then show False using assms by (auto simp: growing_def clean_def)
  qed
qed

lemma getBlock_flash [simp]: "getBlock b (s\<lparr>flash := m\<rparr>) = getBlock b s"
  "getBlock b (s\<lparr>lastBlockAllocated := l\<rparr>) = getBlock b s"
  by (simp_all add: getBlock_def)

lemma next_last [simp]: "getNextFileBlock b (s\<lparr>lastBlockAllocated := l\<rparr>) = getNextFileBlock b s"
  by (simp add: getNextFileBlock_def)

text \<open>Writing behind the table leaves the table alone, writing into one block the others.\<close>

lemma next_put_data:
  "b < fileSystemSize s \<Longrightarrow> fileSystemTable s + 2 * fileSystemSize s \<le> a \<Longrightarrow>
    getNextFileBlock b (s\<lparr>flash := put (flash s) a bs\<rparr>) = getNextFileBlock b s"
  by (simp add: getNextFileBlock_def rd16_put_out)

lemma put_other_block:
  "b \<noteq> l \<Longrightarrow> i < 256 \<Longrightarrow> off + length data \<le> 256 \<Longrightarrow>
    put m (getBlock l s + off) data (getBlock b s + i) = m (getBlock b s + i)"
proof -
  assume "b \<noteq> l" "i < 256" "off + length data \<le> 256"
  moreover have "256 * b + 256 \<le> 256 * l \<or> 256 * l + 256 \<le> 256 * b"
    using \<open>b \<noteq> l\<close> by (cases "b < l") auto
  ultimately show ?thesis by (intro put_out) (unfold getBlock_def, linarith)
qed

lemma contents_cong:
  assumes "fileSystemTable s' = fileSystemTable s"
    and "\<And>b i. b \<in> set bs \<Longrightarrow> i < 256 \<Longrightarrow> flash s' (getBlock b s + i) = flash s (getBlock b s + i)"
  shows "contents s' bs = contents s bs"
proof -
  have "block_bytes s' b = block_bytes s b" if "b \<in> set bs" for b
    using assms that by (intro nth_equalityI) (auto simp: block_bytes_def getBlock_def)
  then have "map (block_bytes s') bs = map (block_bytes s) bs" by simp
  then show ?thesis by (simp only: contents_def)
qed

text \<open>Writing the data into the last block.\<close>

lemma grow_data:
  assumes g: "growing s bs n" and E: "env_ok E" and off: "off = n - 256 * (length bs - 1)"
    and len: "off + length data \<le> 256"
    and s2: "s2 = fs_flash_write E (getBlock (last bs) s + off) data 0 s"
  shows "growing s2 bs (n + length data)" and "others s bs s2" and "frees s2 = frees s"
    and "take (n + length data) (contents s2 bs) = take n (contents s bs) @ data"
    and "lastBlockAllocated s2 = lastBlockAllocated s"
    and "\<And>b. b < fileSystemSize s \<Longrightarrow> getNextFileBlock b s2 = getNextFileBlock b s"
proof -
  let ?l = "last bs" and ?N = "fileSystemSize s" and ?T = "fileSystemTable s"
  let ?m = "put (flash s) (getBlock ?l s + off) data"
  note G = g [unfolded growing_def]
  note L = growing_last [OF g]
  have lk: "linked s bs" and mem: "b \<in> set bs \<Longrightarrow> b < ?N" for b using G by auto
  have er: "flash s (getBlock ?l s + i) = 255" if "off \<le> i" "i < 256" for i using G off that by auto
  have s2': "s2 = s\<lparr>flash := ?m\<rparr>" unfolding s2
  proof (rule fs_flash_write_fits [OF E])
    fix i assume "i < length data"
    then show "fits (flash s (getBlock ?l s + off + i)) (data ! i)" using er [of "off + i"] len by (simp add: add.assoc)
  qed
  show "lastBlockAllocated s2 = lastBlockAllocated s" by (simp add: s2')
  have l: "?l < ?N" "2 * ?N \<le> 256 * ?l" using G L(2) by auto
  then have addr: "?T + 2 * ?N \<le> getBlock ?l s + off" by (simp add: getBlock_def)
  have nxt: "getNextFileBlock b s2 = getNextFileBlock b s" if "b < ?N" for b
    unfolding s2' using that addr by (rule next_put_data)
  then show "\<And>b. b < ?N \<Longrightarrow> getNextFileBlock b s2 = getNextFileBlock b s" .
  have oth: "flash s2 (getBlock b s + i) = flash s (getBlock b s + i)" if "b \<noteq> ?l" "i < 256" for b i
    unfolding s2' using put_other_block [OF that len] by simp
  have inb: "flash s2 (getBlock ?l s + i) = (if off \<le> i \<and> i < off + length data then data ! (i - off) else flash s (getBlock ?l s + i))" for i
    unfolding s2' by (simp add: put_def)
  have unl: "\<not> unused ?l s" using G by simp
  have "clean s2" unfolding clean_def
  proof (intro conjI allI impI)
    show "fileSystemSize s2 \<le> 4096" "lastBlockAllocated s2 < fileSystemSize s2"
      using G by (simp_all add: s2' clean_def)
    fix b assume b: "b < fileSystemSize s2" "unused b s2"
    then have u: "b < ?N" "unused b s" using nxt by (simp_all add: s2')
    then show "2 * fileSystemSize s2 \<le> 256 * b" using G by (simp add: s2' clean_def)
    fix i :: nat assume i: "i < 256"
    have "b \<noteq> ?l" using u unl by metis
    then have "flash s2 (getBlock b s + i) = flash s (getBlock b s + i)" using oth i by blast
    then show "flash s2 (getBlock b s2 + i) = 255" using u i G by (simp add: s2' clean_def)
  qed
  moreover have "linked s2 bs"
    using lk by (rule linked_cong) (rule nxt [OF mem [OF in_set_butlastD]])
  moreover have "getNextFileBlock ?l s2 = MBFS_EOF" using nxt l(1) G by simp
  moreover have "n + length data \<le> 256 * length bs"
  proof -
    have "256 * length bs = 256 * (length bs - 1) + 256" using L(1) by (cases bs rule: rev_cases) simp_all
    then show ?thesis using len off G by linarith
  qed
  moreover have "flash s2 (getBlock ?l s2 + i) = 255" if "n + length data - 256 * (length bs - 1) \<le> i" "i < 256" for i
  proof -
    have "off + length data \<le> i" using that off G by linarith
    then have "flash s2 (getBlock ?l s + i) = 255" using inb [of i] er [of i] that by auto
    then show ?thesis by (simp add: s2')
  qed
  ultimately show "growing s2 bs (n + length data)"
    using G unfolding growing_def by (auto simp: s2')
  show "others s bs s2"
  proof -
    have "?m x = flash s x" if "x < ?T \<or> ?T + 256 * ?N \<le> x" for x
      using that l(1) len by (auto simp: put_def getBlock_def)
    moreover have "s2 = s\<lparr>flash := ?m, lastBlockAllocated := lastBlockAllocated s\<rparr>" by (simp add: s2')
    ultimately show ?thesis
    proof (intro othersI [where m = ?m and l = "lastBlockAllocated s"])
      fix b i :: nat
      assume b: "b \<notin> set bs" "i < 256"
      then have "b \<noteq> ?l" using L(2) by metis
      then show "?m (getBlock b s + i) = flash s (getBlock b s + i)" using oth b(2) by (simp add: s2')
    qed (use nxt s2' in auto)
  qed
  show "frees s2 = frees s"
    unfolding frees_def by (rule filter_cong) (use nxt in \<open>auto simp: s2'\<close>)
  have "contents s2 (butlast bs) = contents s (butlast bs)"
  proof (rule contents_cong)
    fix b i :: nat assume "b \<in> set (butlast bs)" "i < 256"
    then show "flash s2 (getBlock b s + i) = flash s (getBlock b s + i)" using L(3) oth by metis
  qed (simp add: s2')
  moreover have "take (off + length data) (block_bytes s2 ?l) = take off (block_bytes s ?l) @ data"
    using len inb by (intro nth_equalityI) (auto simp: block_bytes_def nth_append s2')
  moreover have "n = length (contents s (butlast bs)) + off" using off G by simp
  ultimately show "take (n + length data) (contents s2 bs) = take n (contents s bs) @ data"
    using L(1) contents_append [of s2 "butlast bs" "[?l]"] contents_append [of s "butlast bs" "[?l]"] by simp
qed

text \<open>Linking a new block behind the last one.\<close>

lemma rd16_bytes: "rd16 m a = w \<Longrightarrow> m a = of_nat (w mod 256) \<and> m (a + 1) = of_nat (w div 256)"
proof -
  have "unat (x :: u8) < 2 ^ LENGTH(8)" for x by (rule unsigned_less)
  from this [of "m a"] have "unat (m a) < 256" by simp
  moreover assume "rd16 m a = w"
  ultimately have "w mod 256 = unat (m a)" "w div 256 = unat (m (a + 1))" by (auto simp: rd16_def)
  then show ?thesis by simp
qed

lemma fits_EF: "b < 16 \<Longrightarrow> fits 0xEF b"
proof -
  assume "b < 16"
  then have "unat b \<in> set [0..<16]" by (simp add: word_less_nat_alt)
  moreover have "\<forall>n \<in> set [0..<16]. fits 0xEF (of_nat n)" by code_simp
  ultimately have "fits 0xEF (of_nat (unat b))" by blast
  then show ?thesis by simp
qed

lemma put16_next:
  "v < 65536 \<Longrightarrow> getNextFileBlock b (s\<lparr>flash := put (flash s) (fileSystemTable s + 2 * c) (le16 (of_nat v))\<rparr>) =
    (if b = c then v else getNextFileBlock b s)"
proof -
  assume "v < 65536"
  then have "unat (of_nat v :: u16) = v" by (simp add: unat_of_nat)
  moreover have "2 * b + 1 < 2 * c \<or> 2 * c + 2 \<le> 2 * b" if "b \<noteq> c" using that by linarith
  ultimately show ?thesis by (auto simp: getNextFileBlock_def rd16_put_out)
qed

lemma fileTableWrite_unused:
  assumes "env_ok E" and "unused b s"
  shows "fileTableWrite E b v s = s\<lparr>flash := put (flash s) (fileSystemTable s + 2 * b) (le16 (of_nat v))\<rparr>"
  unfolding fileTableWrite_def
proof (rule fs_flash_write_fits [OF assms(1)])
  fix i assume "i < length (le16 (of_nat v))"
  then have "i = 0 \<or> i = 1" by auto
  then show "fits (flash s (fileSystemTable s + 2 * b + i)) (le16 (of_nat v) ! i)"
    using rd16_bytes [OF assms(2) [unfolded getNextFileBlock_def]] by auto
qed

lemma fileTableWrite_EOF:
  assumes "env_ok E" and "getNextFileBlock b s = MBFS_EOF" and "v < 4096"
  shows "fileTableWrite E b v s = s\<lparr>flash := put (flash s) (fileSystemTable s + 2 * b) (le16 (of_nat v))\<rparr>"
  unfolding fileTableWrite_def
proof (rule fs_flash_write_fits [OF assms(1)])
  fix i assume "i < length (le16 (of_nat v))"
  then have i: "i = 0 \<or> i = 1" by auto
  have "unat (ucast (drop_bit 8 (of_nat v :: u16)) :: u8) = v div 256"
    using le16_unat [of "of_nat v"] assms(3) by (simp add: le16_def unsigned_ucast_eq take_bit_eq_mod unat_drop_bit_eq unat_of_nat; simp add: drop_bit_eq_div)
  then have "(ucast (drop_bit 8 (of_nat v :: u16)) :: u8) < 16"
    using assms(3) by (simp add: word_less_nat_alt)
  then show "fits (flash s (fileSystemTable s + 2 * b + i)) (le16 (of_nat v) ! i)"
    using i rd16_bytes [OF assms(2) [unfolded getNextFileBlock_def]] fits_EF by (auto simp: le16_def)
qed

lemma grow_block:
  assumes g: "growing s bs (256 * length bs)" and E: "env_ok E" and f: "frees s = c # cs"
    and s5: "s5 = fileTableWrite E (last bs) c (fileTableWrite E c MBFS_EOF (s\<lparr>lastBlockAllocated := c\<rparr>))"
  shows "growing s5 (bs @ [c]) (256 * length bs)" and "others s bs s5" and "frees s5 = cs"
    and "contents s5 bs = contents s bs" and "\<not> unused c s5" and "c < fileSystemSize s" and "unused c s"
    and "\<And>b. unused b s5 \<Longrightarrow> unused b s"
proof -
  let ?l = "last bs" and ?N = "fileSystemSize s" and ?T = "fileSystemTable s"
  note G = g [unfolded growing_def]
  note L = growing_last [OF g]
  have cl: "clean s" and lk: "linked s bs" and eof: "getNextFileBlock ?l s = MBFS_EOF" using G by auto
  have mem: "b < ?N \<and> 2 * ?N \<le> 256 * b" if "b \<in> set bs" for b using G that by auto
  note F = getFreeBlock_free [OF cl f]
  have N: "?N \<le> 4096" using cl by (simp add: clean_def)
  show "c < ?N" "unused c s" by (fact F(3), fact F(4))
  have c: "2 * ?N \<le> 256 * c" "i < 256 \<Longrightarrow> flash s (getBlock c s + i) = 255" for i
    using cl F(3,4) by (auto simp: clean_def)
  have lc: "?l \<noteq> c" using eof F(4) by auto
  have cbs: "c \<notin> set bs"
  proof
    assume "c \<in> set bs"
    then have "c \<in> set (butlast bs)" using lc L(1) by (metis in_set_butlast_appendI append_Nil2 butlast_append empty_iff insert_iff list.set(1) list.simps(15) rotate1.simps(2) set_append Un_iff)
    then have "MBFS_UNUSED \<in> set bs" using linked_in [OF lk, of c] F(4) by simp
    then show False using mem N by fastforce
  qed
  let ?m1 = "put (flash s) (?T + 2 * c) (le16 (of_nat MBFS_EOF))"
  let ?m2 = "put ?m1 (?T + 2 * ?l) (le16 (of_nat c))"
  let ?s1 = "s\<lparr>lastBlockAllocated := c\<rparr>"
  have s4: "fileTableWrite E c MBFS_EOF ?s1 = ?s1\<lparr>flash := ?m1\<rparr>"
    using fileTableWrite_unused [OF E, of c ?s1 MBFS_EOF] F(4) by simp
  have n4: "getNextFileBlock b (?s1\<lparr>flash := ?m1\<rparr>) = (if b = c then MBFS_EOF else getNextFileBlock b s)" for b
    using put16_next [of MBFS_EOF b ?s1 c] by simp
  have s5': "s5 = s\<lparr>flash := ?m2, lastBlockAllocated := c\<rparr>"
    using fileTableWrite_EOF [OF E, of ?l "?s1\<lparr>flash := ?m1\<rparr>" c] n4 eof lc N F(3) unfolding s5 s4 by simp
  have nxt: "getNextFileBlock b s5 = (if b = ?l then c else if b = c then MBFS_EOF else getNextFileBlock b s)" for b
    using put16_next [of c b "?s1\<lparr>flash := ?m1\<rparr>" ?l] n4 [of b] N F(3) unfolding s5' by (simp add: getNextFileBlock_def)
  have out: "?m2 x = flash s x" if "x < ?T \<or> ?T + 2 * ?N \<le> x" for x
    using that F(3) mem [OF L(2)] by (auto simp: put_def)
  have blk: "?m2 (getBlock b s + i) = flash s (getBlock b s + i)" if "2 * ?N \<le> 256 * b" for b i
    by (rule out) (use that in \<open>simp add: getBlock_def\<close>)
  show uc: "\<not> unused c s5" using nxt lc by simp
  have ul: "\<not> unused ?l s5" using nxt F(3) N by simp
  have un: "unused b s5 \<longleftrightarrow> unused b s \<and> b \<noteq> c" for b
    using nxt [of b] ul uc eof by auto
  then show "\<And>b. unused b s5 \<Longrightarrow> unused b s" by simp
  have "clean s5" unfolding clean_def
  proof (intro conjI allI impI)
    show "fileSystemSize s5 \<le> 4096" "lastBlockAllocated s5 < fileSystemSize s5" using N F(3) by (simp_all add: s5')
    fix b assume "b < fileSystemSize s5" "unused b s5"
    then have "b < ?N" "unused b s" using un by (simp_all add: s5')
    then have b: "2 * ?N \<le> 256 * b" "\<forall>i < 256. flash s (getBlock b s + i) = 255" using cl by (auto simp: clean_def)
    then show "2 * fileSystemSize s5 \<le> 256 * b" by (simp add: s5')
    fix i :: nat assume "i < 256"
    then show "flash s5 (getBlock b s5 + i) = 255" using b blk by (simp add: s5')
  qed
  moreover have "linked s5 (bs @ [c])"
  proof (rule linked_snoc)
    show "linked s5 bs" using lk
    proof (rule linked_cong)
      fix b assume "b \<in> set (butlast bs)"
      then have "b \<noteq> ?l" "b \<noteq> c" using L(3) cbs in_set_butlastD by metis+
      then show "getNextFileBlock b s5 = getNextFileBlock b s" using nxt by simp
    qed
    show "getNextFileBlock ?l s5 = c" using nxt by simp
  qed
  moreover have "getNextFileBlock c s5 = MBFS_EOF" using nxt lc by simp
  moreover have "flash s5 (getBlock c s5 + i) = 255" if "i < 256" for i
    using blk [OF c(1), of i] c(2) [OF that] by (simp add: s5')
  ultimately show "growing s5 (bs @ [c]) (256 * length bs)"
    using mem F(3) c(1) unfolding growing_def by (auto simp: s5')
  show "others s bs s5"
  proof (rule othersI [where m = ?m2 and l = c])
    show "s5 = s\<lparr>flash := ?m2, lastBlockAllocated := c\<rparr>" by (fact s5')
    fix b assume "b \<notin> set bs" "\<not> unused b s"
    then have "b \<noteq> ?l" "b \<noteq> c" using L(2) F(4) by auto
    then show "getNextFileBlock b (s\<lparr>flash := ?m2\<rparr>) = getNextFileBlock b s"
      using nxt [of b] by (simp add: s5' getNextFileBlock_def)
  qed (use out blk in auto)
  show "frees s5 = cs"
  proof -
    have "frees s5 = filter (\<lambda>b. unused b s \<and> b \<noteq> c) [lastBlockAllocated s5 + 1..<fileSystemSize s5]"
      unfolding frees_def un by (rule refl)
    also have "\<dots> = filter (\<lambda>b. unused b s \<and> b \<noteq> c) [c + 1..<?N]" by (simp add: s5')
    also have "\<dots> = filter (\<lambda>b. unused b s) [c + 1..<?N]" by (rule filter_cong) auto
    finally show ?thesis using F(5) by simp
  qed
  show "contents s5 bs = contents s bs"
  proof (rule contents_cong)
    fix b i :: nat assume "b \<in> set bs"
    then show "flash s5 (getBlock b s + i) = flash s (getBlock b s + i)" using blk mem by (simp add: s5')
  qed (simp add: s5')
qed

subsection \<open>Appending\<close>

lemma others_trans:
  assumes "others s bs s1" and "others s1 bs1 s2" and "\<And>b. b \<in> set bs1 \<Longrightarrow> b \<in> set bs \<or> unused b s"
  shows "others s bs s2"
proof -
  obtain m l where "s1 = s\<lparr>flash := m, lastBlockAllocated := l\<rparr>" using assms(1) by (auto simp: others_def)
  moreover obtain m2 l2 where "s2 = s1\<lparr>flash := m2, lastBlockAllocated := l2\<rparr>" using assms(2) by (auto simp: others_def)
  ultimately have s2: "s2 = s\<lparr>flash := flash s2, lastBlockAllocated := lastBlockAllocated s2\<rparr>" by simp
  note F = others_fields [OF assms(1)]
  have b1: "b \<notin> set bs1 \<and> \<not> unused b s1 \<and> b < fileSystemSize s1"
    if "b < fileSystemSize s" "b \<notin> set bs" "\<not> unused b s" for b
    using othersD(2) [OF assms(1)] assms(3) that F by metis
  show ?thesis
  proof (rule othersI [OF s2])
    fix x assume "x < fileSystemTable s \<or> fileSystemTable s + 256 * fileSystemSize s \<le> x"
    then show "flash s2 x = flash s x" using othersD(1) [OF assms(1)] othersD(1) [OF assms(2)] F by metis
  next
    fix b assume b: "b < fileSystemSize s" "b \<notin> set bs" "\<not> unused b s"
    have "getNextFileBlock b s2 = getNextFileBlock b s" using othersD(2) [OF assms(1) b] othersD(2) [OF assms(2)] b1 [OF b] by simp
    then show "getNextFileBlock b (s\<lparr>flash := flash s2\<rparr>) = getNextFileBlock b s"
      using F others_fields [OF assms(2)] by (simp add: getNextFileBlock_def)
  next
    fix b i :: nat assume b: "b < fileSystemSize s" "b \<notin> set bs" "\<not> unused b s" and i: "2 * fileSystemSize s \<le> 256 * b" "i < 256"
    have "flash s2 (getBlock b s1 + i) = flash s1 (getBlock b s1 + i)" 
      using othersD(3) [OF assms(2)] b1 [OF b] i F by simp
    moreover have "flash s1 (getBlock b s + i) = flash s (getBlock b s + i)" 
      using othersD(3) [OF assms(1) b i] .
    ultimately show "flash s2 (getBlock b s + i) = flash s (getBlock b s + i)" using F by simp
  qed
qed

lemma write_loop_step:
  assumes "copied < length buffer" and "flength f \<le> seekpos f + copied" and "env_ok E"
    and "seg = min (length buffer - copied) (256 - offset)"
    and "s2 = fs_flash_write E (getBlock block s + offset) (take seg (drop copied buffer)) 0 s"
  shows "write_loop E f block offset buffer copied s =
    (if offset + seg = 256 \<and> copied + seg < length buffer
     then do {
       (c, s3) \<leftarrow> getFreeBlock E s2;
       if c = 0 then Some (copied + seg, s3)
       else write_loop E f c 0 buffer (copied + seg) (fileTableWrite E block c (fileTableWrite E c MBFS_EOF s3))
     }
     else write_loop E f block (offset + seg) buffer (copied + seg) s2)"
proof -
  have e: "s = fs_flash_write E (getBlock block s + offset) [] 0 s"
    using fs_flash_write_fits [OF assms(3), of "[]" s] by simp
  have "(if seg \<noteq> 0
       then do {
         (scratch, s1) \<leftarrow> (if seekpos f + copied < flength f then getFreePage E s else Some (0, s));
         Some (fs_flash_write E (getBlock block s + offset) (take seg (drop copied buffer)) scratch s1)
       }
       else Some s) = Some s2"
    using assms(2,5) e by auto
  then show ?thesis
    using assms(1) by (subst write_loop.simps) (simp only: Let_def assms(4) [symmetric] if_True Option.bind_lunit)
qed

lemma write_loop_done: "write_loop E f block offset buffer (length buffer) s = Some (length buffer, s)"
  by (subst write_loop.simps) simp

lemma write_loop_append:
  assumes "env_ok E"
  shows "growing s bs n \<Longrightarrow> flength f \<le> seekpos f + copied \<Longrightarrow> copied \<le> length buffer \<Longrightarrow>
    off = n - 256 * (length bs - 1) \<Longrightarrow> off + (length buffer - copied) \<le> 256 + 256 * length (frees s) \<Longrightarrow>
    \<exists>s' new. write_loop E f (last bs) off buffer copied s = Some (length buffer, s') \<and>
      growing s' (bs @ new) (n + (length buffer - copied)) \<and> others s bs s' \<and> (\<forall>b \<in> set new. unused b s) \<and>
      take (n + (length buffer - copied)) (contents s' (bs @ new)) = take n (contents s bs) @ drop copied buffer \<and>
      (new = [] \<or> 256 * (length (bs @ new) - 1) < n + (length buffer - copied)) \<and>
      length (frees s') + length new = length (frees s)"
proof (induction "2 * (length buffer - copied) + off" arbitrary: s bs n copied off rule: less_induct)
  case less
  note g = less.prems(1) and off = less.prems(4)
  have ne: "bs \<noteq> []" using g by (auto simp: growing_def)
  then have bs: "bs \<noteq> []" "256 * length bs = 256 * (length bs - 1) + 256" "n \<le> 256 * length bs" "256 * (length bs - 1) \<le> n"
    using g by (auto simp: growing_def Suc_le_eq [symmetric] simp flip: length_greater_0_conv)
  show ?case
  proof (cases "copied = length buffer")
    case True
    have "others s bs s" by (rule others_refl)
    then show ?thesis using g True write_loop_done by (intro exI [of _ s] exI [of _ "[]"]) simp
  next
    case False
    then have lt: "copied < length buffer" using less.prems(3) by simp
    define seg where "seg = min (length buffer - copied) (256 - off)"
    define data where "data = take seg (drop copied buffer)"
    define s2 where "s2 = fs_flash_write E (getBlock (last bs) s + off) data 0 s"
    have o: "off \<le> 256" using bs off by linarith
    have len: "length data = seg" "off + length data \<le> 256" using o by (auto simp: data_def seg_def)
    note D = grow_data [OF g assms off len(2) s2_def, unfolded len(1)]
    note step = write_loop_step [OF lt less.prems(2) assms seg_def s2_def [unfolded data_def]]
    show ?thesis
    proof (cases "off + seg = 256 \<and> copied + seg < length buffer")
      case more: True
      have n': "n + seg = 256 * length bs" using more off bs by linarith
      have "frees s \<noteq> []" using more less.prems(5) by (cases "frees s") auto
      then obtain c cs where c: "frees s2 = c # cs" using D(3) by (cases "frees s") auto
      define s5 where "s5 = fileTableWrite E (last bs) c (fileTableWrite E c MBFS_EOF (s2\<lparr>lastBlockAllocated := c\<rparr>))"
      note B = grow_block [OF D(1) [unfolded n'] assms c s5_def]
      have cl: "clean s2" using D(1) by (simp add: growing_def)
      note fb = getFreeBlock_free(1) [OF cl c, of E] getFreeBlock_free(2) [OF cl c]
      have "write_loop E f (last bs) off buffer copied s = write_loop E f (last (bs @ [c])) 0 buffer (copied + seg) s5"
        using step more fb(1,2) by (simp add: s5_def)
      moreover have "\<exists>s' new. write_loop E f (last (bs @ [c])) 0 buffer (copied + seg) s5 = Some (length buffer, s') \<and>
          growing s' ((bs @ [c]) @ new) (256 * length bs + (length buffer - (copied + seg))) \<and> others s5 (bs @ [c]) s' \<and>
          (\<forall>b \<in> set new. unused b s5) \<and>
          take (256 * length bs + (length buffer - (copied + seg))) (contents s' ((bs @ [c]) @ new)) =
            take (256 * length bs) (contents s5 (bs @ [c])) @ drop (copied + seg) buffer \<and>
          (new = [] \<or> 256 * (length ((bs @ [c]) @ new) - 1) < 256 * length bs + (length buffer - (copied + seg))) \<and>
          length (frees s') + length new = length (frees s5)"
      proof (rule less.hyps)
        show "2 * (length buffer - (copied + seg)) + 0 < 2 * (length buffer - copied) + off" using more lt by linarith
        show "0 + (length buffer - (copied + seg)) \<le> 256 + 256 * length (frees s5)"
        proof -
          have "length (frees s) = Suc (length (frees s5))" using B(3) c D(3) by simp
          then show ?thesis using less.prems(5) more lt by linarith
        qed
      qed (use B(1) less.prems(2) more in auto)
      ultimately obtain s' new where w: "write_loop E f (last bs) off buffer copied s = Some (length buffer, s')"
        "growing s' (bs @ c # new) (256 * length bs + (length buffer - (copied + seg)))" "others s5 (bs @ [c]) s'"
        "\<forall>b \<in> set new. unused b s5"
        "take (256 * length bs + (length buffer - (copied + seg))) (contents s' (bs @ c # new)) =
            take (256 * length bs) (contents s5 (bs @ [c])) @ drop (copied + seg) buffer"
        "new = [] \<or> 256 * (length (bs @ c # new) - 1) < 256 * length bs + (length buffer - (copied + seg))"
        "length (frees s') + length new = length (frees s5)" by auto
      have tot: "256 * length bs + (length buffer - (copied + seg)) = n + (length buffer - copied)"
        using n' more by linarith
      have nb: "b < fileSystemSize s" if "b \<in> set (c # new)" for b
        using w(2) that others_fields [OF w(3)] others_fields [OF B(2)] others_fields [OF D(2)] by (auto simp: growing_def)
      have un: "unused b s" if "b \<in> set (c # new)" for b
      proof -
        have "unused b s2" using that w(4) B(7,8) by auto
        then show ?thesis using D(6) nb [OF that] by simp
      qed
      have "others s bs s'"
        using others_trans [OF others_trans [OF D(2) B(2)] w(3)] un by auto
      moreover have "take (256 * length bs) (contents s5 (bs @ [c])) = take n (contents s bs) @ data"
      proof -
        have "take (256 * length bs) (contents s5 (bs @ [c])) = contents s5 bs" by (simp add: contents_append)
        also have "\<dots> = take (n + seg) (contents s2 bs)" using B(4) n' by simp
        finally show ?thesis using D(4) by simp
      qed
      then have "take (n + (length buffer - copied)) (contents s' (bs @ c # new)) = take n (contents s bs) @ drop copied buffer"
      proof -
        assume t: "take (256 * length bs) (contents s5 (bs @ [c])) = take n (contents s bs) @ data"
        have "data @ drop (copied + seg) buffer = drop copied buffer"
          using append_take_drop_id [of seg "drop copied buffer"] by (simp add: data_def add.commute)
        then show ?thesis using w(5) unfolding tot t by (simp only: append_assoc)
      qed
      moreover have "256 * (length (bs @ c # new) - 1) < n + (length buffer - copied)"
      proof (cases "new = []")
        case True
        then have "length (bs @ c # new) - 1 = length bs" by simp
        then show ?thesis using more unfolding tot [symmetric] by linarith
      next
        case False
        then show ?thesis using w(6) unfolding tot [symmetric] by blast
      qed
      moreover have "length (frees s') + length (c # new) = length (frees s)" using w(7) B(3) c D(3) by simp
      ultimately show ?thesis
        using w(1,2) un tot by (intro exI [of _ s'] exI [of _ "c # new"]) simp
    next
      case last: False
      then have all: "copied + seg = length buffer" "seg = length buffer - copied" 
        using last lt o by (auto simp: seg_def min_def split: if_splits)
      have "write_loop E f (last bs) off buffer copied s = Some (length buffer, s2)"
        using step last all(1) write_loop_done by auto
      moreover have "data = drop copied buffer" using all by (simp add: data_def)
      ultimately show ?thesis
        using D all(2) by (intro exI [of _ s2] exI [of _ "[]"]) simp
    qed
  qed
qed

subsection \<open>Writing to an open file\<close>

lemma getFileDescriptor_nth:
  "getFileDescriptor fd fs = Some k \<Longrightarrow> k < length fs \<and> fdid (fs ! k) = fd"
  by (induction fs arbitrary: k) (auto split: if_splits)

lemma getFileDescriptor_update:
  "getFileDescriptor fd fs = Some k \<Longrightarrow> fdid f = fd \<Longrightarrow> getFileDescriptor fd (fs[k := f]) = Some k"
  by (induction fs arbitrary: k) (auto split: if_splits)

lemma next_openFiles [simp]: "getNextFileBlock b (s\<lparr>openFiles := x\<rparr>) = getNextFileBlock b s"
  by (simp add: getNextFileBlock_def)

lemma getBlock_openFiles [simp]: "getBlock b (s\<lparr>openFiles := x\<rparr>) = getBlock b s"
  by (simp add: getBlock_def)

lemma linked_openFiles [simp]: "linked (s\<lparr>openFiles := x\<rparr>) bs = linked s bs"
  by (induction s bs rule: linked.induct) simp_all

lemma contents_openFiles [simp]: "contents (s\<lparr>openFiles := x\<rparr>) bs = contents s bs"
  by (simp add: contents_def block_bytes_def cong: map_cong)

lemma growing_openFiles [simp]: "growing (s\<lparr>openFiles := x\<rparr>) bs n = growing s bs n"
  by (simp add: growing_def clean_def)

lemma frees_openFiles [simp]: "frees (s\<lparr>openFiles := x\<rparr>) = frees s"
  by (simp add: frees_def)

text \<open>The same, for two states whose open files may differ.\<close>

definition untouched :: "fs \<Rightarrow> nat list \<Rightarrow> fs \<Rightarrow> bool" where
  "untouched s bs s' \<longleftrightarrow> others s bs (s'\<lparr>openFiles := openFiles s\<rparr>)"

lemma others_openFiles: "others s bs s' \<Longrightarrow> others (s\<lparr>openFiles := x\<rparr>) bs (s'\<lparr>openFiles := x\<rparr>)"
proof -
  assume o: "others s bs s'"
  then obtain m l where s': "s' = s\<lparr>flash := m, lastBlockAllocated := l\<rparr>" by (auto simp: others_def)
  show ?thesis
  proof (rule othersI [where m = m and l = l])
    show "s'\<lparr>openFiles := x\<rparr> = s\<lparr>openFiles := x\<rparr>\<lparr>flash := m, lastBlockAllocated := l\<rparr>" by (simp add: s')
  qed (use o in \<open>auto simp: others_def s' getNextFileBlock_def\<close>)
qed

lemma untouched_trans:
  assumes "untouched s bs s1" and "untouched s1 bs1 s2" and "\<And>b. b \<in> set bs1 \<Longrightarrow> b \<in> set bs \<or> unused b s"
  shows "untouched s bs s2"
  using others_trans [OF assms(1) [unfolded untouched_def]
      others_openFiles [OF assms(2) [unfolded untouched_def], of "openFiles s"] assms(3)]
  by (simp add: untouched_def)

text \<open>
  A file that is written at its end: its descriptor, its chain of blocks \<open>bs\<close> with no block more than
  the length needs, erased behind the end, and its directory entry in a block of its own.
\<close>

definition dirent_in :: "fs \<Rightarrow> nat list \<Rightarrow> nat \<Rightarrow> bool" where
  "dirent_in s bs d \<longleftrightarrow> (\<exists>b < fileSystemSize s. b \<notin> set bs \<and> \<not> unused b s \<and> 2 * fileSystemSize s \<le> 256 * b \<and>
     getBlock b s \<le> d \<and> d + DIRENT_SIZE \<le> getBlock b s + 256)"

definition writable :: "fs \<Rightarrow> nat \<Rightarrow> nat \<Rightarrow> nat list \<Rightarrow> bool" where
  "writable s fd k bs \<longleftrightarrow>
     (let f = openFiles s ! k in
      open_file s fd k bs \<and> growing s bs (flength f) \<and> seekpos f = flength f \<and>
      (length bs = 1 \<or> 256 * (length bs - 1) < flength f) \<and> dirent_in s bs (dirent f))"

definition room :: "fs \<Rightarrow> nat \<Rightarrow> nat list \<Rightarrow> nat" where
  "room s k bs = 256 * length (frees s) + 256 * length bs - flength (openFiles s ! k)"

lemma walk_chain_last:
  assumes "linked s bs" and "n \<le> 256 * length bs" and "length bs = 1 \<or> 256 * (length bs - 1) < n"
  shows "walk_chain (hd bs) n s = (last bs, n - 256 * (length bs - 1))"
proof -
  obtain j where j: "j < length bs" "walk_chain (hd bs) n s = (bs ! j, n - 256 * j)" "256 * j \<le> n" "n - 256 * j \<le> 256"
    using walk_chain_spec [OF assms(1,2)] by blast
  have "j = length bs - 1"
  proof (rule ccontr)
    assume "j \<noteq> length bs - 1"
    then have "256 * (j + 1) \<le> 256 * (length bs - 1)" using j(1) by simp
    then show False using assms(3) j by auto
  qed
  then show ?thesis using j(1,2) by (cases bs) (auto simp: last_conv_nth)
qed

lemma untouched_dirent:
  assumes "others s bs s'" and "dirent_in s bs d"
  shows "dirent_first (flash s') d = dirent_first (flash s) d"
proof -
  obtain b where b: "b < fileSystemSize s" "b \<notin> set bs" "\<not> unused b s" "2 * fileSystemSize s \<le> 256 * b"
    "getBlock b s \<le> d" "d + 24 \<le> getBlock b s + 256" using assms(2) by (auto simp: dirent_in_def)
  have "flash s' x = flash s x" if "d \<le> x" "x < d + 24" for x
    using othersD(3) [OF assms(1) b(1-4), of "x - getBlock b s"] b(5,6) that by simp
  then show ?thesis unfolding dirent_first_def by (intro rd16_cong) auto
qed

lemma writable_write:
  assumes E: "env_ok E" "cache_size E = 0" and w: "writable s fd k bs" and data: "data \<noteq> []"
    and room: "length data \<le> room s k bs" and big: "flength (openFiles s ! k) + length data < 2 ^ 31"
  shows "\<exists>s' new. fs_write E fd (Some data) s = Some (Inr (length data), s') \<and> writable s' fd k (bs @ new) \<and>
    file_bytes s' k (bs @ new) = file_bytes s k bs @ data \<and> untouched s bs s' \<and> (\<forall>b \<in> set new. unused b s) \<and>
    flength (openFiles s' ! k) = flength (openFiles s ! k) + length data \<and>
    room s' k (bs @ new) = room s k bs - length data \<and>
    dirent (openFiles s' ! k) = dirent (openFiles s ! k) \<and> length (openFiles s') = length (openFiles s)"
proof -
  define f where "f = openFiles s ! k"
  let ?n = "flength f"
  note W = w [unfolded writable_def Let_def, folded f_def]
  have o: "fs_initialised s" "getFileDescriptor fd (openFiles s) = Some k" "cached f = []" "linked s bs"
    "hd bs = dirent_first (flash s) (dirent f)" "seekpos f = ?n" "?n \<le> 256 * length bs"
    and g: "growing s bs ?n" and fill: "length bs = 1 \<or> 256 * (length bs - 1) < ?n" and di: "dirent_in s bs (dirent f)"
    using W by (auto simp: open_file_def Let_def f_def)
  have k: "k < length (openFiles s)" "fdid f = fd" using getFileDescriptor_nth [OF o(2)] by (auto simp: f_def)
  have wc: "walk_chain (dirent_first (flash s) (dirent f)) (seekpos f) s = (last bs, ?n - 256 * (length bs - 1))"
    using walk_chain_last [OF o(4,7) fill] o(5,6) by simp
  have gl: "256 * (length bs - 1) \<le> ?n" "bs \<noteq> []" using g by (auto simp: growing_def)
  then have lb: "256 * length bs = 256 * (length bs - 1) + 256" by (cases bs) simp_all
  have sp: "?n - 256 * (length bs - 1) + (length data - 0) \<le> 256 + 256 * length (frees s)"
    using room lb gl(1) o(7) unfolding room_def f_def [symmetric] by linarith
  obtain s1 new where wl: "write_loop E f (last bs) (?n - 256 * (length bs - 1)) data 0 s = Some (length data, s1)"
    "growing s1 (bs @ new) (?n + length data)" "others s bs s1" "\<forall>b \<in> set new. unused b s"
    "take (?n + length data) (contents s1 (bs @ new)) = take ?n (contents s bs) @ data"
    "new = [] \<or> 256 * (length (bs @ new) - 1) < ?n + length data" "length (frees s1) + length new = length (frees s)"
    using write_loop_append [OF E(1) g, of f 0 data, OF _ _ refl sp] o(6) by auto
  note F = others_fields [OF wl(3)]
  define f' where "f' = f\<lparr>flength := ?n + length data, seekpos := ?n + length data\<rparr>"
  define s' where "s' = s1\<lparr>openFiles := (openFiles s)[k := f']\<rparr>"
  have wr: "fs_write E fd (Some data) s = Some (Inr (length data), s')"
    using o wc wl(1) data E(2) F
    by (simp add: fs_write_def writeBack_none writeBuffer_def Let_def f_def [symmetric] s'_def f'_def max_def)
  have f's: "openFiles s' ! k = f'" using k by (simp add: s'_def)
  have fds: "getFileDescriptor fd (openFiles s') = Some k"
    using getFileDescriptor_update [OF o(2), of f'] k by (simp add: s'_def f'_def)
  have dirf: "dirent_first (flash s') (dirent f') = hd (bs @ new)"
    using untouched_dirent [OF wl(3) di] o(5) gl(2) by (simp add: s'_def f'_def)
  have di': "dirent_in s' (bs @ new) (dirent f')"
  proof -
    obtain b where b: "b < fileSystemSize s" "b \<notin> set bs" "\<not> unused b s" "2 * fileSystemSize s \<le> 256 * b"
      "getBlock b s \<le> dirent f" "dirent f + 24 \<le> getBlock b s + 256" using di by (auto simp: dirent_in_def)
    have "getNextFileBlock b s1 = getNextFileBlock b s" using othersD(2) [OF wl(3) b(1-3)] .
    then show ?thesis using b wl(4) F unfolding dirent_in_def by (intro exI [of _ b]) (auto simp: s'_def f'_def)
  qed
  have fill': "length (bs @ new) = 1 \<or> 256 * (length (bs @ new) - 1) < ?n + length data"
    using wl(6) fill by auto
  have g': "growing s' (bs @ new) (?n + length data)" using wl(2) by (simp add: s'_def)
  have "open_file s' fd k (bs @ new)"
    unfolding open_file_def Let_def f's
    using fds dirf g' o(1,3) F big by (simp add: growing_def f'_def s'_def f_def)
  then have "writable s' fd k (bs @ new)"
    unfolding writable_def Let_def f's using g' fill' di' by (simp add: f'_def)
  moreover have "file_bytes s' k (bs @ new) = file_bytes s k bs @ data"
    using wl(5) unfolding file_bytes_def f's f_def [symmetric] by (simp add: f'_def s'_def)
  moreover have "untouched s bs s'"
  proof -
    have "s1\<lparr>openFiles := openFiles s1\<rparr> = s1" by simp
    then have "s1\<lparr>openFiles := openFiles s\<rparr> = s1" using F by simp
    then show ?thesis using wl(3) by (simp add: untouched_def s'_def)
  qed
  moreover have "room s' k (bs @ new) = room s k bs - length data"
  proof -
    have "256 * length (frees s1) + 256 * length new = 256 * length (frees s)" using wl(7) by linarith
    then show ?thesis unfolding room_def f's f_def [symmetric] by (simp add: s'_def f'_def)
  qed
  moreover have "length (openFiles s') = length (openFiles s)" by (simp add: s'_def)
  ultimately show ?thesis using wr wl(4) f's by (intro exI [of _ s'] exI [of _ new]) (simp add: f'_def f_def)
qed

fun fs_write_all :: "fs_env \<Rightarrow> nat \<Rightarrow> u8 list list \<Rightarrow> fs \<Rightarrow> fs option" where
  "fs_write_all E fd [] s = Some s"
| "fs_write_all E fd (d # ds) s =
     do { (r, s1) \<leftarrow> fs_write E fd (Some d) s; fs_write_all E fd ds s1 }"

lemma untouched_refl: "untouched s bs s"
  by (simp add: untouched_def others_refl)

lemma growing_used: "growing s bs n \<Longrightarrow> b \<in> set bs \<Longrightarrow> \<not> unused b s"
proof
  assume g: "growing s bs n" and b: "b \<in> set bs" and u: "unused b s"
  have "b \<noteq> last bs" using g u by (auto simp: growing_def)
  then have "b \<in> set (butlast bs)" using b by (metis append_butlast_last_id empty_iff in_set_conv_decomp list.set(1)
      set_ConsD Un_iff set_append)
  then have "MBFS_UNUSED \<in> set bs" using linked_in [of s bs b] g u by (simp add: growing_def)
  then show False using g by (auto simp: growing_def clean_def)
qed

lemma writable_write_all:
  assumes "env_ok E" and "cache_size E = 0"
  shows "writable s fd k bs \<Longrightarrow> [] \<notin> set ds \<Longrightarrow> length (concat ds) \<le> room s k bs \<Longrightarrow>
    flength (openFiles s ! k) + length (concat ds) < 2 ^ 31 \<Longrightarrow>
    \<exists>s' new. fs_write_all E fd ds s = Some s' \<and> writable s' fd k (bs @ new) \<and>
      file_bytes s' k (bs @ new) = file_bytes s k bs @ concat ds \<and> untouched s bs s' \<and> (\<forall>b \<in> set new. unused b s) \<and>
      flength (openFiles s' ! k) = flength (openFiles s ! k) + length (concat ds) \<and>
      dirent (openFiles s' ! k) = dirent (openFiles s ! k) \<and> length (openFiles s') = length (openFiles s)"
proof (induction ds arbitrary: s bs)
  case Nil
  then show ?case by (intro exI [of _ s] exI [of _ "[]"]) (simp add: untouched_refl)
next
  case (Cons d ds)
  obtain s1 new where s1: "fs_write E fd (Some d) s = Some (Inr (length d), s1)" "writable s1 fd k (bs @ new)"
    "file_bytes s1 k (bs @ new) = file_bytes s k bs @ d" "untouched s bs s1" "\<forall>b \<in> set new. unused b s"
    "flength (openFiles s1 ! k) = flength (openFiles s ! k) + length d" "room s1 k (bs @ new) = room s k bs - length d"
    "dirent (openFiles s1 ! k) = dirent (openFiles s ! k)" "length (openFiles s1) = length (openFiles s)"
    using writable_write [OF assms Cons.prems(1), of d] Cons.prems(2-4) by auto
  obtain s2 new2 where s2: "fs_write_all E fd ds s1 = Some s2" "writable s2 fd k ((bs @ new) @ new2)"
    "file_bytes s2 k ((bs @ new) @ new2) = file_bytes s1 k (bs @ new) @ concat ds" "untouched s1 (bs @ new) s2"
    "\<forall>b \<in> set new2. unused b s1" "flength (openFiles s2 ! k) = flength (openFiles s1 ! k) + length (concat ds)"
    "dirent (openFiles s2 ! k) = dirent (openFiles s1 ! k)" "length (openFiles s2) = length (openFiles s1)"
  proof -
    have "length (concat ds) \<le> room s1 k (bs @ new)" using Cons.prems(3) s1(7) by simp
    from Cons.IH [OF s1(2) _ this] that show thesis using Cons.prems(2,4) s1(6) by auto
  qed
  have un: "unused b s" if b: "b \<in> set new2" for b
  proof (rule ccontr)
    assume nu: "\<not> unused b s"
    have o: "others s bs (s1\<lparr>openFiles := openFiles s\<rparr>)" using s1(4) by (simp add: untouched_def)
    have "b < fileSystemSize s2" using s2(2) b by (auto simp: writable_def Let_def growing_def)
    then have lt: "b < fileSystemSize s"
      using others_fields [OF o] others_fields [OF s2(4) [unfolded untouched_def]] by simp
    have u1: "unused b s1" using s2(5) b by simp
    then have "b \<notin> set bs"
      using growing_used [of s1 "bs @ new" _ b] s1(2) by (auto simp: writable_def Let_def)
    then have "getNextFileBlock b s1 = getNextFileBlock b s" using othersD(2) [OF o lt _ nu] by simp
    then show False using u1 nu by simp
  qed
  have "untouched s bs s2"
    using untouched_trans [OF s1(4) s2(4)] s1(5) by auto
  then show ?case
    using s1 s2 un by (intro exI [of _ s2] exI [of _ "new @ new2"]) auto
qed

lemma fs_seek_eq:
  assumes "fs_initialised s" and "getFileDescriptor fd (openFiles s) = Some k" and "f = openFiles s ! k"
    and "cached f = []" and "flength f < 2 ^ 31" and "seekpos f \<le> flength f" and "- (2 ^ 31) \<le> offset" and "offset < 2 ^ 31"
    and "position = (if fl = 1 then offset else if fl = 2 then int (flength f) + offset
           else if fl = 4 then int (seekpos f) + offset else int (seekpos f))"
  shows "fs_seek E fd offset fl s =
    (if 0 \<le> position \<and> position \<le> int (flength f)
     then Some (Inr (nat position), s\<lparr>openFiles := (openFiles s)[k := f\<lparr>seekpos := nat position\<rparr>]\<rparr>)
     else Some (Inl INVALID_PARAMETER, s))"
proof -
  have wrap: "to_int x = (if x < 2 ^ 31 then x else x - 2 ^ 32)" if "- (2 ^ 31) \<le> x" "x < 2 ^ 32" for x
  proof (cases "x < 2 ^ 31")
    case True
    then show ?thesis using that by (simp add: to_int_def)
  next
    case False
    have "(x + 2 ^ 31) mod 2 ^ 32 = (x - 2 ^ 31) mod 2 ^ 32"
      using mod_add_self2 [of "x - 2 ^ 31" "2 ^ 32"] by (simp add: add.commute)
    also have "\<dots> = x - 2 ^ 31" using that False by simp
    finally show ?thesis using False by (simp add: to_int_def)
  qed
  define p where "p = (if fl = 1 then offset else if fl = 2 then to_int (int (flength f) + offset)
    else if fl = 4 then to_int (int (seekpos f) + offset) else to_int (int (seekpos f)))"
  have "(p < 0 \<or> p > int (flength f)) = (\<not> (0 \<le> position \<and> position \<le> int (flength f)))"
    "0 \<le> position \<and> position \<le> int (flength f) \<Longrightarrow> p = position"
    using assms(5-9) by (auto simp: p_def wrap)
  moreover have "fs_seek E fd offset fl s = (if p < 0 \<or> p > int (flength f) then Some (Inl INVALID_PARAMETER, s)
      else Some (Inr (nat p), s\<lparr>openFiles := (openFiles s)[k := f\<lparr>seekpos := nat p\<rparr>]\<rparr>))"
    unfolding fs_seek_def p_def assms(3)
    using assms(1,2,4) by (simp only: assms(3) not_True_eq_False if_False option.case writeBack_none
        Option.bind_lunit prod.case Let_def)
  ultimately show ?thesis by (cases "0 \<le> position \<and> position \<le> int (flength f)") simp_all
qed

subsection \<open>Allocating a page\<close>

definition page_free :: "fs_env \<Rightarrow> nat \<Rightarrow> fs \<Rightarrow> bool" where
  "page_free E p s \<longleftrightarrow>
     (\<forall>i < blocksPerPage E. getNextFileBlock ((p + i) mod 65536) s \<in> {MBFS_DELETED, MBFS_UNUSED})"

lemma scan_page_fst:
  "fst (scan_page p i n s d) \<longleftrightarrow> (\<forall>j. i \<le> j \<and> j < i + n \<longrightarrow> getNextFileBlock ((p + j) mod 65536) s \<in> {MBFS_DELETED, MBFS_UNUSED})"
proof (induction n arbitrary: i d)
  case (Suc n)
  have all: "(\<forall>j. i \<le> j \<and> j < i + Suc n \<longrightarrow> P j) \<longleftrightarrow> P i \<and> (\<forall>j. i + 1 \<le> j \<and> j < i + 1 + n \<longrightarrow> P j)" for P
  proof -
    have "i \<le> j \<and> j < i + Suc n \<longleftrightarrow> j = i \<or> i + 1 \<le> j \<and> j < i + 1 + n" for j by auto
    then show ?thesis by auto
  qed
  show ?case unfolding all using Suc.IH [of "i + 1"] by (simp add: Let_def)
qed simp

lemma scan_page_free: "fst (scan_page p 0 (blocksPerPage E) s d) \<longleftrightarrow> page_free E p s"
  by (simp add: scan_page_fst page_free_def)

lemma free_page_loop_result:
  assumes "free_page_loop E current page recyclable s = Some res"
  shows "(recyclable = 0 \<or> \<not> page_free E recyclable s) \<longrightarrow>
    (case res of Inl p \<Rightarrow> page_free E p s | Inr r \<Rightarrow> r = 0 \<or> \<not> page_free E r s)"
proof (rule free_page_loop.raw_induct [where P = "\<lambda>E current page recyclable s res.
    (recyclable = 0 \<or> \<not> page_free E recyclable s) \<longrightarrow>
    (case res of Inl p \<Rightarrow> page_free E p s | Inr r \<Rightarrow> r = 0 \<or> \<not> page_free E r s)", OF _ assms])
  fix f E current page recyclable s res
  assume IH: "\<And>E current page recyclable s res. f E current page recyclable s = Some res \<Longrightarrow>
      (recyclable = 0 \<or> \<not> page_free E recyclable s) \<longrightarrow>
      (case res of Inl p \<Rightarrow> page_free E p s | Inr r \<Rightarrow> r = 0 \<or> \<not> page_free E r s)"
    and step: "(if page = current then Some (Inr recyclable)
      else let (empty, deleted) = scan_page page 0 (blocksPerPage E) s False in
        if empty then Some (Inl page)
        else f E current ((page + blocksPerPage E) mod fileSystemSize s mod 65536)
               (if deleted \<and> recyclable = 0 then page else recyclable) s) = Some res"
  obtain empty deleted where sp: "scan_page page 0 (blocksPerPage E) s False = (empty, deleted)" by fastforce
  then have e: "empty \<longleftrightarrow> page_free E page s" using scan_page_free [of page E s False] by simp
  show "(recyclable = 0 \<or> \<not> page_free E recyclable s) \<longrightarrow>
    (case res of Inl p \<Rightarrow> page_free E p s | Inr r \<Rightarrow> r = 0 \<or> \<not> page_free E r s)"
    using step IH [of E current _ "if deleted \<and> recyclable = 0 then page else recyclable" s res] sp e
    by (auto split: if_splits)
qed

text \<open>
  A page the file system takes from its own blocks is either left as it is, and then none of its
  blocks is in use, or erased, and then at least one of them is in use: recycling a page of deleted
  blocks always destroys data. Otherwise the scratch page is taken.
\<close>

theorem getFreePage_erases_used:
  assumes "getFreePage E s = Some (addr, s')"
  shows "(\<exists>p. addr = getBlock p s \<and> s' = s\<lparr>lastBlockAllocated := p\<rparr> \<and>
      (\<forall>i < blocksPerPage E. getNextFileBlock ((p + i) mod 65536) s \<in> {MBFS_DELETED, MBFS_UNUSED})) \<or>
    (\<exists>p. addr = getBlock p s \<and> s' = fs_erase_page E addr s \<and>
      (\<exists>i < blocksPerPage E. getNextFileBlock ((p + i) mod 65536) s \<notin> {MBFS_DELETED, MBFS_UNUSED})) \<or>
    addr = default_scratch E \<and> s' = fs_erase_page E addr s"
proof -
  let ?page = "getBlockNumber (getPage E (lastBlockAllocated s) s) s"
  let ?next = "(?page + blocksPerPage E) mod fileSystemSize s mod 65536"
  obtain res where res: "free_page_loop E ?page ?next 0 s = Some res"
    using assms by (auto simp: getFreePage_def Let_def split: option.splits)
  note R = free_page_loop_result [OF res]
  show ?thesis
  proof (cases res)
    case (Inl p)
    then show ?thesis using assms res R by (auto simp: getFreePage_def Let_def page_free_def)
  next
    case (Inr r)
    then show ?thesis using assms res R by (auto simp: getFreePage_def Let_def page_free_def split: if_splits)
  qed
qed

text \<open>Pages of two blocks; block 2 is deleted, block 3 a file's, all others are in use.\<close>

definition full_mem :: mem where
  "full_mem = (\<lambda>x. if x = 512 then 1 else if x = 513 then 0 else if x = 516 then 0 else if x = 517 then 0
     else if x \<in> {515, 519, 521, 523} then 0xEF else 255)"

definition full_fs :: fs where
  "full_fs = \<lparr>fs_initialised = True, fileSystemSize = 6, fileSystemTable = 512, fileSystemTableSize = 1,
     lastBlockAllocated = 1, rootDirectory = 768, openFiles = [], flash = full_mem\<rparr>"

definition full_env :: fs_env where
  "full_env = \<lparr>codepage = 512, program_end = 0, region_end = 0, default_scratch = 8192, cache_size = 0\<rparr>"

lemma full_fs_page:
  "getFreePage full_env full_fs = Some (1024, full_fs\<lparr>flash := erase_page 512 1024 full_mem\<rparr>)"
proof -
  have pos: "getBlockNumber (getPage full_env (lastBlockAllocated full_fs) full_fs) full_fs = 0" "blocksPerPage full_env = 2"
    by (simp_all add: getBlockNumber_def getPage_def getBlock_def full_fs_def full_env_def blocksPerPage_def sub32_def)
  have sz: "fileSystemSize full_fs = 6" "fileSystemTable full_fs = 512" "flash full_fs = full_mem" "codepage full_env = 512"
    by (simp_all add: full_fs_def full_env_def)
  have nx: "getNextFileBlock 2 full_fs = 0" "getNextFileBlock 3 full_fs = MBFS_EOF" "getNextFileBlock 4 full_fs = MBFS_EOF"
    by (simp_all add: getNextFileBlock_def full_fs_def full_mem_def rd16_def)
  have "scan_page 2 0 (Suc (Suc 0)) full_fs False = (False, True)" "scan_page 4 0 (Suc (Suc 0)) full_fs False = (False, False)"
    using nx by (simp_all add: Let_def)
  then have sc: "scan_page 2 0 2 full_fs False = (False, True)" "scan_page 4 0 2 full_fs False = (False, False)"
    by (simp_all only: numeral_2_eq_2)
  have "free_page_loop full_env 0 0 2 full_fs = Some (Inr 2)"
    by (subst free_page_loop.simps) simp
  then have "free_page_loop full_env 0 4 2 full_fs = Some (Inr 2)"
    by (subst free_page_loop.simps) (simp add: pos sc sz)
  then have "free_page_loop full_env 0 2 0 full_fs = Some (Inr 2)"
    by (subst free_page_loop.simps) (simp add: pos sc sz)
  moreover have "(0 + 2) mod 6 mod 65536 = (2 :: nat)" by simp
  ultimately show ?thesis
    unfolding getFreePage_def Let_def pos sz by (simp add: fs_erase_page_def getBlock_def sz del: add_2_eq_Suc')
qed

theorem getFreePage_erases_used_witness:
  "\<exists>i < blocksPerPage full_env. getNextFileBlock ((2 + i) mod 65536) full_fs \<notin> {MBFS_DELETED, MBFS_UNUSED}"
proof -
  let ?s = "full_fs\<lparr>flash := erase_page 512 1024 full_mem\<rparr>"
  have two: "p = 2" if "1024 = getBlock p full_fs" for p using that by (simp add: getBlock_def full_fs_def)
  consider (free) p where "1024 = getBlock p full_fs" "?s = full_fs\<lparr>lastBlockAllocated := p\<rparr>"
    | (erased) p where "1024 = getBlock p full_fs"
        "\<exists>i < blocksPerPage full_env. getNextFileBlock ((p + i) mod 65536) full_fs \<notin> {MBFS_DELETED, MBFS_UNUSED}"
    | (scratch) "1024 = default_scratch full_env"
    using getFreePage_erases_used [OF full_fs_page] by blast
  then show ?thesis
  proof cases
    case free
    then have "?s = full_fs\<lparr>lastBlockAllocated := 2\<rparr>" using two by simp
    then have "lastBlockAllocated ?s = 2" by simp
    then show ?thesis by (simp add: full_fs_def)
  next
    case erased
    then show ?thesis using two by blast
  next
    case scratch
    then show ?thesis by (simp add: full_env_def)
  qed
qed

end
