(* ===== verification/FileSystemSession.thy ===== *)
theory FileSystemSession
  imports FileSystemProps
begin

text \<open>
  A file system from its first start on: formatting erased flash, finding it again after a restart,
  creating a file in it, and the way of a file from there to a later restart.
\<close>

subsection \<open>Formatting\<close>

definition erased :: "mem \<Rightarrow> nat \<Rightarrow> nat \<Rightarrow> bool" where
  "erased m a n \<longleftrightarrow> (\<forall>x. a \<le> x \<and> x < a + n \<longrightarrow> m x = 255)"

lemma rd16_erased: "m a = 255 \<Longrightarrow> m (a + 1) = 255 \<Longrightarrow> rd16 m a = MBFS_UNUSED"
  by (simp add: rd16_def)

lemma mark_table_spec:
  assumes "env_ok E" and "v < 65536"
  shows "(\<And>b'. b \<le> b' \<Longrightarrow> b' < b + n \<Longrightarrow> unused b' s) \<Longrightarrow>
    \<exists>m. mark_table E b n v s = s\<lparr>flash := m\<rparr> \<and>
      (\<forall>b'. getNextFileBlock b' (s\<lparr>flash := m\<rparr>) = (if b \<le> b' \<and> b' < b + n then v else getNextFileBlock b' s)) \<and>
      (\<forall>x. x < fileSystemTable s + 2 * b \<or> fileSystemTable s + 2 * (b + n) \<le> x \<longrightarrow> m x = flash s x)"
proof (induction n arbitrary: b s)
  case 0
  have "s = s\<lparr>flash := flash s\<rparr>" by simp
  then show ?case by (intro exI [of _ "flash s"]) simp
next
  case (Suc n)
  let ?m = "put (flash s) (fileSystemTable s + 2 * b) (le16 (of_nat v))"
  let ?s = "s\<lparr>flash := ?m\<rparr>"
  have s1: "fs_flash_write E (fileSystemTable s + 2 * b) (le16 (of_nat v)) 0 s = ?s"
    using fileTableWrite_unused [OF assms(1), of b s v] Suc.prems by (simp add: fileTableWrite_def)
  have nx: "getNextFileBlock b' ?s = (if b' = b then v else getNextFileBlock b' s)" for b'
    by (rule put16_next [OF assms(2)])
  obtain m where m: "mark_table E (b + 1) n v ?s = ?s\<lparr>flash := m\<rparr>"
    "\<forall>b'. getNextFileBlock b' (?s\<lparr>flash := m\<rparr>) = (if b + 1 \<le> b' \<and> b' < b + 1 + n then v else getNextFileBlock b' ?s)"
    "\<forall>x. x < fileSystemTable ?s + 2 * (b + 1) \<or> fileSystemTable ?s + 2 * (b + 1 + n) \<le> x \<longrightarrow> m x = flash ?s x"
    using Suc.IH [of "b + 1" ?s] Suc.prems nx by fastforce
  have "m x = flash s x" if "x < fileSystemTable s + 2 * b \<or> fileSystemTable s + 2 * (b + Suc n) \<le> x" for x
    using m(3) that by (auto simp: put_def)
  moreover have "getNextFileBlock b' (s\<lparr>flash := m\<rparr>) = (if b \<le> b' \<and> b' < b + Suc n then v else getNextFileBlock b' s)" for b'
    using m(2) nx by auto
  ultimately show ?case using m(1) s1 by (intro exI [of _ m]) simp
qed

text \<open>The entry of the root directory in itself.\<close>

abbreviation magic_entry :: "nat \<Rightarrow> nat \<Rightarrow> u8 list" where
  "magic_entry r n \<equiv> dirent_bytes (MBFS_MAGIC @ [0]) r ENTRY_VALID n"

text \<open>A formatted file system with nothing but the root directory's block in use.\<close>

definition formatted :: "fs \<Rightarrow> nat \<Rightarrow> bool" where
  "formatted s r \<longleftrightarrow>
     (let T = fileSystemTable s; n = fileSystemSize s in
      r = calculateFileTableSize s \<and> fileSystemTableSize s = r \<and> 0 < r \<and> 2 * n \<le> 256 * r \<and> r < n \<and> n \<le> 4096 \<and>
      rootDirectory s = getBlock r s \<and> (\<forall>b < r. getNextFileBlock b s = r) \<and> getNextFileBlock r s = MBFS_EOF \<and>
      rdm (flash s) (getBlock r s) 24 = magic_entry r n)"

lemma calculateFileTableSize_bounds:
  assumes "0 < fileSystemSize s" and "fileSystemSize s \<le> 4096" and "r = calculateFileTableSize s"
  shows "0 < r" and "2 * fileSystemSize s \<le> 256 * r" and "256 * r < 2 * fileSystemSize s + 256"
proof -
  let ?n = "fileSystemSize s"
  define q e where "q = ?n * 2 div 256" and "e = ?n * 2 mod 256"
  have d: "?n * 2 = 256 * q + e" by (simp only: q_def e_def mult_div_mod_eq)
  have e: "e < 256" by (simp add: e_def)
  have "q < 65535" using d assms(2) by linarith
  then have r: "r = (if e \<noteq> 0 then q + 1 else q)"
    unfolding assms(3) calculateFileTableSize_def Let_def q_def [symmetric] e_def [symmetric] by simp
  have "0 < r \<and> 2 * ?n \<le> 256 * r \<and> 256 * r < 2 * ?n + 256"
  proof (cases "e = 0")
    case True
    then show ?thesis using d r assms(1) by simp
  next
    case False
    then show ?thesis using d e r by simp
  qed
  then show "0 < r" "2 * ?n \<le> 256 * r" "256 * r < 2 * ?n + 256" by blast+
qed

lemma length_dirent_bytes [simp]: "length (dirent_bytes name r fl n) = length name + 8"
  by (simp add: dirent_bytes_def le32_def)

lemma format_spec:
  assumes "env_ok E" and "erased (flash s) (fileSystemTable s) (256 * fileSystemSize s)"
    and "3 \<le> fileSystemSize s" and "fileSystemSize s \<le> 4096" and "fileSystemTableSize s = calculateFileTableSize s"
    and "r = calculateFileTableSize s"
  shows "\<exists>m. format E s = (OK, s\<lparr>flash := m, rootDirectory := getBlock r s\<rparr>) \<and>
    formatted (s\<lparr>flash := m, rootDirectory := getBlock r s\<rparr>) r \<and>
    (\<forall>b. r < b \<and> b < fileSystemSize s \<longrightarrow> rd16 m (fileSystemTable s + 2 * b) = MBFS_UNUSED) \<and>
    (\<forall>x. getBlock r s + 24 \<le> x \<and> x < fileSystemTable s + 256 * fileSystemSize s \<longrightarrow> m x = 255) \<and>
    (\<forall>x. x < fileSystemTable s \<or> fileSystemTable s + 256 * fileSystemSize s \<le> x \<longrightarrow> m x = flash s x)"
proof -
  let ?T = "fileSystemTable s" and ?n = "fileSystemSize s"
  note R = calculateFileTableSize_bounds [OF _ assms(4,6)]
  have r: "0 < r" "2 * ?n \<le> 256 * r" "r < ?n"
  proof -
    show "0 < r" "2 * ?n \<le> 256 * r" using R assms(3) by auto
    show "r < ?n" using R(3) assms(3) by linarith
  qed
  have un: "unused b s" if "b < ?n" for b
    unfolding getNextFileBlock_def
    by (rule rd16_erased) (use assms(2) that in \<open>auto simp: erased_def\<close>)
  obtain m1 where m1: "mark_table E 0 r r s = s\<lparr>flash := m1\<rparr>"
    "\<forall>b. getNextFileBlock b (s\<lparr>flash := m1\<rparr>) = (if b < r then r else getNextFileBlock b s)"
    "\<forall>x. x < ?T \<or> ?T + 2 * r \<le> x \<longrightarrow> m1 x = flash s x"
    using mark_table_spec [OF assms(1), of r 0 r s] un r assms(4) by auto
  let ?s1 = "s\<lparr>flash := m1\<rparr>"
  let ?m2 = "put m1 (?T + 2 * r) (le16 (of_nat MBFS_EOF))"
  let ?s2 = "s\<lparr>flash := ?m2\<rparr>"
  have s2: "fs_flash_write E (?T + 2 * r) (le16 (of_nat MBFS_EOF)) 0 ?s1 = ?s2"
    using fileTableWrite_unused [OF assms(1), of r ?s1 MBFS_EOF] m1(2) un r(3) by (simp add: fileTableWrite_def)
  have n2: "getNextFileBlock b ?s2 = (if b = r then MBFS_EOF else if b < r then r else getNextFileBlock b s)" for b
    using put16_next [of MBFS_EOF b ?s1 r] m1(2) by simp
  have e2: "?m2 x = 255" if "?T + 2 * r + 2 \<le> x" "x < ?T + 256 * ?n" for x
    using m1(3) that assms(2) by (auto simp: put_def erased_def)
  let ?a = "getBlock r s"
  have a: "?T + 2 * ?n \<le> ?a" "?a + 256 \<le> ?T + 256 * ?n" "?T + 2 * r + 2 \<le> ?a" using r by (simp_all add: getBlock_def)
  let ?e = "magic_entry r ?n"
  have le: "length ?e = 24" by (simp add: MBFS_MAGIC_def)
  let ?m3 = "put ?m2 ?a ?e"
  let ?s3 = "s\<lparr>flash := ?m2, rootDirectory := ?a\<rparr>"
  have s3: "fs_flash_write E ?a ?e 0 ?s3 = ?s3\<lparr>flash := ?m3\<rparr>"
    using fs_flash_write_fits [OF assms(1), of ?e ?s3 ?a] e2 a le by simp
  have fm: "format E s = (OK, s\<lparr>flash := ?m3, rootDirectory := ?a\<rparr>)"
    using m1(1) s2 s3 assms(5,6) by (simp add: format_def Let_def)
  have n3: "getNextFileBlock b (s\<lparr>flash := ?m3\<rparr>) = getNextFileBlock b ?s2" if "b < ?n" for b
    using next_put_data [of b ?s2 ?a ?e] that a(1) by simp
  have n3': "rd16 ?m3 (?T + 2 * b) = getNextFileBlock b ?s2" if "b < ?n" for b
    using n3 [OF that] by (simp add: getNextFileBlock_def)
  have "formatted (s\<lparr>flash := ?m3, rootDirectory := ?a\<rparr>) r"
    unfolding formatted_def Let_def
    using r assms(4-6) n3' n2 rdm_put_same [of ?m2 ?a ?e, unfolded le]
    by (simp add: getNextFileBlock_def calculateFileTableSize_def getBlock_def)
  moreover have "rd16 ?m3 (?T + 2 * b) = MBFS_UNUSED" if "r < b" "b < ?n" for b
    using n3' [OF that(2)] n2 [of b] un [OF that(2)] that(1) by simp
  moreover have "?m3 x = 255" if "?a + 24 \<le> x" "x < ?T + 256 * ?n" for x
    using e2 [of x] that a le by (simp add: put_def)
  moreover have "?m3 x = flash s x" if "x < ?T \<or> ?T + 256 * ?n \<le> x" for x
    using m1(3) that a le by (auto simp: put_def)
  ultimately show ?thesis using fm by (intro exI [of _ ?m3]) blast
qed

subsection \<open>Directory entries\<close>

lemma le32_unat:
  "unat (le32 w ! 0) + 256 * unat (le32 w ! 1) + 65536 * (unat (le32 w ! 2) + 256 * unat (le32 w ! 3)) = unat w"
proof -
  have b: "unat (ucast (drop_bit k w) :: u8) = unat w div 2 ^ k mod 256" for k
    by (simp add: unsigned_ucast_eq take_bit_eq_mod unat_drop_bit_eq) (simp add: drop_bit_eq_div)
  have "unat w < 2 ^ LENGTH(32)" by (rule unsigned_less)
  then have "unat w div 65536 < 65536" by (simp add: less_mult_imp_div_less)
  moreover have "unat w mod 65536 = unat w mod 256 + 256 * (unat w div 256 mod 256)"
    using mod_mult2_eq [of "unat w" 256 256] by simp
  moreover have "unat w div 65536 mod 65536 = unat w div 65536 mod 256 + 256 * (unat w div 16777216 mod 256)"
    using mod_mult2_eq [of "unat w div 65536" 256 256] div_mult2_eq [of "unat w" 65536 256] by simp
  ultimately have "unat w mod 256 + 256 * (unat w div 256 mod 256) +
      65536 * (unat w div 65536 mod 256 + 256 * (unat w div 16777216 mod 256)) = unat w"
    using mult_div_mod_eq [of 65536 "unat w"] by simp
  then show ?thesis using b [of 0] b [of 8] b [of 16] b [of 24] by (simp add: le32_def)
qed

lemma entry_fields:
  assumes "rdm m d 24 = dirent_bytes name first fl len" and "length name = 16" and "first < 65536" and "len < 2 ^ 32"
  shows "rdm m d 16 = name" and "dirent_first m d = first" and "dirent_flags m d = fl" and "dirent_length m d = len"
proof -
  have nth: "m (d + i) = dirent_bytes name first fl len ! i" if "i < 24" for i
    using arg_cong [OF assms(1), of "\<lambda>l. l ! i"] that by simp
  show "rdm m d 16 = name"
    using arg_cong [OF assms(1), of "take 16"] assms(2) by (simp add: take_rdm dirent_bytes_def)
  have u: "unat (of_nat first :: u16) = first" "unat (of_nat len :: u32) = len"
    using assms(3,4) by (simp_all add: unat_of_nat)
  have f: "m (d + 16) = le16 (of_nat first) ! 0" "m (d + 17) = le16 (of_nat first) ! 1"
    "m (d + 18) = le16 fl ! 0" "m (d + 19) = le16 fl ! 1"
    "m (d + 20) = le32 (of_nat len) ! 0" "m (d + 21) = le32 (of_nat len) ! 1"
    "m (d + 22) = le32 (of_nat len) ! 2" "m (d + 23) = le32 (of_nat len) ! 3"
    using nth assms(2) by (simp_all add: dirent_bytes_def nth_append le32_def)
  have a: "d + 16 + 1 = d + 17" "d + 18 + 1 = d + 19" "d + 20 + 1 = d + 21" "d + 20 + 2 = d + 22" "d + 22 + 1 = d + 23" by simp_all
  show "dirent_first m d = first"
    unfolding dirent_first_def rd16_def a f le16_unat u ..
  show "dirent_flags m d = fl"
    unfolding dirent_flags_def rd16_def a f le16_unat by simp
  show "dirent_length m d = len"
    unfolding dirent_length_def rd32_def rd16_def a f le32_unat u ..
qed

lemma length_magic [simp]: "length (MBFS_MAGIC @ [0]) = 16"
  by (simp add: MBFS_MAGIC_def)

subsection \<open>Starting up\<close>

definition booted :: "nat \<Rightarrow> nat \<Rightarrow> nat \<Rightarrow> mem \<Rightarrow> fs" where
  "booted T n r m = \<lparr>fs_initialised = True, fileSystemSize = n, fileSystemTable = T, fileSystemTableSize = r,
     lastBlockAllocated = 0, rootDirectory = T + r * 256, openFiles = [], flash = m\<rparr>"

lemma booted_simps [simp]:
  "fs_initialised (booted T n r m)" "fileSystemSize (booted T n r m) = n" "fileSystemTable (booted T n r m) = T"
  "fileSystemTableSize (booted T n r m) = r" "lastBlockAllocated (booted T n r m) = 0"
  "rootDirectory (booted T n r m) = T + r * 256" "openFiles (booted T n r m) = []" "flash (booted T n r m) = m"
  by (simp_all add: booted_def)

lemma fs_new_erased:
  assumes "env_ok E" and "T \<noteq> 0" and "0 < pages" and "n = nat pages * blocksPerPage E" and "3 \<le> n" and "n \<le> 4096"
    and "erased m T (256 * n)"
  shows "\<exists>r m'. fs_new E T pages m = booted T n r m' \<and> formatted (booted T n r m') r \<and>
    (\<forall>b. r < b \<and> b < n \<longrightarrow> rd16 m' (T + 2 * b) = MBFS_UNUSED) \<and>
    (\<forall>x. T + r * 256 + 24 \<le> x \<and> x < T + 256 * n \<longrightarrow> m' x = 255) \<and>
    (\<forall>x. x < T \<or> T + 256 * n \<le> x \<longrightarrow> m' x = m x)"
proof -
  let ?s1 = "\<lparr>fs_initialised = False, fileSystemSize = 0, fileSystemTable = T, fileSystemTableSize = 0,
        lastBlockAllocated = 0, rootDirectory = 0, openFiles = [], flash = m\<rparr>"
  have n0: "getNextFileBlock 0 ?s1 = MBFS_UNUSED"
    unfolding getNextFileBlock_def by (rule rd16_erased) (use assms(5,7) in \<open>auto simp: erased_def\<close>)
  have "\<exists>i < MBFS_UNUSED. MBFS_EOF \<le> getNextFileBlock i ?s1 \<or> getNextFileBlock i ?s1 \<noteq> MBFS_UNUSED"
    by (rule exI [of _ 0]) (simp add: n0)
  then have ld: "load ?s1 = (NO_DATA, ?s1)" by (simp add: load_def n0 Let_def)
  let ?r = "calculateFileTableSize (?s1\<lparr>fileSystemSize := n\<rparr>)"
  let ?s = "?s1\<lparr>fileSystemSize := n, fileSystemTableSize := ?r\<rparr>"
  have r: "?r = calculateFileTableSize ?s" by (simp add: calculateFileTableSize_def)
  have pre: "erased (flash ?s) (fileSystemTable ?s) (256 * fileSystemSize ?s)" "3 \<le> fileSystemSize ?s"
    "fileSystemSize ?s \<le> 4096" "fileSystemTableSize ?s = calculateFileTableSize ?s"
    using assms(5-7) r by simp_all
  obtain m' where m': "format E ?s = (OK, ?s\<lparr>flash := m', rootDirectory := getBlock ?r ?s\<rparr>)"
    "formatted (?s\<lparr>flash := m', rootDirectory := getBlock ?r ?s\<rparr>) ?r"
    "\<forall>b. ?r < b \<and> b < n \<longrightarrow> rd16 m' (T + 2 * b) = MBFS_UNUSED"
    "\<forall>x. getBlock ?r ?s + 24 \<le> x \<and> x < T + 256 * n \<longrightarrow> m' x = 255"
    "\<forall>x. x < T \<or> T + 256 * n \<le> x \<longrightarrow> m' x = m x"
    using format_spec [OF assms(1) pre r] by auto
  have b: "?s\<lparr>flash := m', rootDirectory := getBlock ?r ?s\<rparr>\<lparr>fs_initialised := True\<rparr> = booted T n ?r m'"
    by (simp add: booted_def getBlock_def)
  have "fs_new E T pages m = ?s\<lparr>flash := m', rootDirectory := getBlock ?r ?s\<rparr>\<lparr>fs_initialised := True\<rparr>"
    using assms(2-4) ld m'(1) by (simp add: fs_new_def fs_init_def Let_def)
  moreover have "formatted (booted T n ?r m') ?r"
    using m'(2) unfolding b [symmetric] by (simp add: formatted_def getNextFileBlock_def getBlock_def calculateFileTableSize_def)
  moreover have "T + ?r * 256 = getBlock ?r ?s" by (simp add: getBlock_def)
  ultimately show ?thesis unfolding b using m'(3-5) by (intro exI [of _ ?r] exI [of _ m']) simp
qed

lemma fs_new_formatted:
  assumes "formatted (booted T n r m) r" and "T \<noteq> 0" and "0 \<le> pages"
  shows "fs_new E T pages m = booted T n r m"
proof -
  let ?s1 = "\<lparr>fs_initialised = False, fileSystemSize = 0, fileSystemTable = T, fileSystemTableSize = 0,
        lastBlockAllocated = 0, rootDirectory = 0, openFiles = [], flash = m\<rparr>"
  note F = assms(1) [unfolded formatted_def Let_def]
  have r: "0 < r" "r < n" "n \<le> 4096" using F by simp_all
  have nx: "getNextFileBlock b ?s1 = getNextFileBlock b (booted T n r m)" for b by (simp add: getNextFileBlock_def)
  have gb: "getBlock r ?s1 = T + r * 256" "getBlock r (booted T n r m) = T + r * 256" by (simp_all add: getBlock_def)
  have e: "rdm m (T + r * 256) 24 = magic_entry r n" using F gb by simp
  note ef = entry_fields [OF e length_magic]
  have n0: "getNextFileBlock 0 ?s1 = r" using F r(1) nx by simp
  have ok: "\<not> (\<exists>i < r. MBFS_EOF \<le> getNextFileBlock i ?s1 \<or> getNextFileBlock i ?s1 \<noteq> r)" using F nx r by simp
  have st: "streq m (T + r * 256) MBFS_MAGIC"
  proof -
    have "length MBFS_MAGIC + 1 = 16" by (simp add: MBFS_MAGIC_def)
    then show ?thesis using ef(1) r by (simp only: streq_def) simp
  qed
  have ln: "dirent_length m (T + r * 256) = n" using ef(4) r by simp
  have ct: "calculateFileTableSize (?s1\<lparr>fileSystemSize := n, rootDirectory := T + r * 256\<rparr>) = r"
    using F by (simp add: calculateFileTableSize_def)
  have "load ?s1 = (OK, ?s1\<lparr>fileSystemSize := n, rootDirectory := T + r * 256, fileSystemTableSize := r\<rparr>)"
    unfolding load_def n0 Let_def using ok st ln ct gb(1) r by simp
  then show ?thesis
    using assms(2,3) by (simp add: fs_new_def fs_init_def Let_def booted_def)
qed

subsection \<open>Finding and creating a file\<close>

definition valid_name :: "u8 list \<Rightarrow> bool" where
  "valid_name nm \<longleftrightarrow> isValidFilename (Some nm) \<and> 47 \<notin> set nm \<and> length nm \<le> 15 \<and> nm \<noteq> MBFS_MAGIC"

lemma basename_plain: "47 \<notin> set nm \<Longrightarrow> basename nm = nm"
proof -
  assume n: "47 \<notin> set nm"
  have "takeWhile (\<lambda>c. c \<noteq> 47) (rev nm) = rev nm"
    using n by (auto simp: takeWhile_eq_all_conv)
  then show ?thesis by (simp only: basename_def rev_rev_ident)
qed

lemma walk_path_plain:
  "47 \<notin> set cs \<Longrightarrow> length acc + length cs \<le> 17 \<Longrightarrow> walk_path acc cs dir s = Some dir"
  by (induction cs arbitrary: acc) auto

definition matches :: "u8 list \<Rightarrow> fs \<Rightarrow> nat \<Rightarrow> bool" where
  "matches file s d \<longleftrightarrow> dirent_flags (flash s) d AND ENTRY_VALID \<noteq> 0 \<and> streq (flash s) d file"

lemma find_dirent_step:
  "i < 10 \<Longrightarrow> find_dirent file b i s =
    (if matches file s (getBlock b s + 24 * i) then Some (getBlock b s + 24 * i) else find_dirent file b (i + 1) s)"
  by (subst find_dirent.simps) (simp add: Let_def matches_def)

lemma find_dirent_none:
  "(\<And>i. i < 10 \<Longrightarrow> \<not> matches file s (getBlock b s + 24 * i)) \<Longrightarrow> getNextFileBlock b s = MBFS_EOF \<Longrightarrow> i \<le> 10 \<Longrightarrow>
    find_dirent file b i s = Some 0"
proof (induction "10 - i" arbitrary: i)
  case 0
  then have "i = 10" by simp
  then show ?case using 0 by (subst find_dirent.simps) (simp add: Let_def)
next
  case (Suc k)
  then have "i < 10" "k = 10 - (i + 1)" by simp_all
  then show ?case using Suc find_dirent_step [of i] by simp
qed

lemma streq_nth: "streq m d file \<Longrightarrow> i < length file \<Longrightarrow> m (d + i) = file ! i"
  unfolding streq_def using nth_rdm [of i "length file + 1" m d] by (simp add: nth_append)

lemma valid_first: "isValidFilename (Some nm) \<Longrightarrow> nm \<noteq> [] \<and> nm ! 0 \<noteq> 255"
proof -
  assume v: "isValidFilename (Some nm)"
  then have "nm \<noteq> []" by (simp add: isValidFilename_def)
  moreover from this have "\<not> nm ! 0 > 126" using v by (simp add: isValidFilename_def list_all_length)
  ultimately show ?thesis by auto
qed

lemma streq_same: "streq m d f \<Longrightarrow> streq m d g \<Longrightarrow> 0 \<notin> set f \<Longrightarrow> 0 \<notin> set g \<Longrightarrow> f = g"
proof -
  assume f: "streq m d f" and g: "streq m d g" and z: "0 \<notin> set f" "0 \<notin> set g"
  have nth: "m (d + length x) = 0" if "streq m d x" for x
    using that nth_rdm [of "length x" "length x + 1" m d] by (simp add: streq_def)
  have "\<not> length a < length b" if "streq m d a" "streq m d b" "0 \<notin> set b" for a b
    using nth [OF that(1)] streq_nth [OF that(2), of "length a"] that(3) nth_mem by metis
  then have "length f = length g" using f g z by (meson linorder_cases)
  then show ?thesis using f g by (simp add: streq_def)
qed

lemma magic_only:
  assumes "rdm (flash s) a 24 = magic_entry r n" and "valid_name nm" and "r < 65536" and "n < 2 ^ 32"
  shows "\<not> matches nm s a"
proof
  assume "matches nm s a"
  then have nm: "streq (flash s) a nm" by (simp add: matches_def)
  have "length MBFS_MAGIC + 1 = 16" by (simp add: MBFS_MAGIC_def)
  then have mg: "streq (flash s) a MBFS_MAGIC"
    using entry_fields(1) [OF assms(1) length_magic assms(3,4)] by (simp only: streq_def)
  have "0 \<notin> set nm"
    using assms(2) by (auto simp: valid_name_def isValidFilename_def list_all_iff)
  moreover have "0 \<notin> set MBFS_MAGIC" by (simp add: MBFS_MAGIC_def)
  ultimately have "nm = MBFS_MAGIC" using streq_same [OF nm mg] by blast
  then show False using assms(2) by (simp add: valid_name_def)
qed

text \<open>A new file's entry: the name, its block, no flags and no length yet.\<close>

abbreviation new_entry :: "u8 list \<Rightarrow> nat \<Rightarrow> u8 list" where
  "new_entry name b \<equiv> dirent_bytes name b ENTRY_NEW 0xFFFFFFFF"

definition entry_name :: "u8 list \<Rightarrow> u8 list \<Rightarrow> u8 list" where
  "entry_name stack nm = take 16 (blit stack 0 (nm @ [0]))"

lemma length_entry_name: "length stack = 24 \<Longrightarrow> length nm \<le> 15 \<Longrightarrow> length (entry_name stack nm) = 16"
  by (simp add: entry_name_def)

lemma streq_entry_name:
  assumes "rdm m d 16 = entry_name stack nm" and "length nm \<le> 15" and "length stack = 24"
  shows "streq m d nm"
proof -
  have "rdm m d (length nm + 1) = take (length nm + 1) (rdm m d 16)"
    using assms(2) by (simp add: take_rdm min_absorb1)
  also have "\<dots> = nm @ [0]" using assms by (simp add: entry_name_def blit_def min_absorb1)
  finally show ?thesis by (simp add: streq_def)
qed

text \<open>A file system with an empty root directory.\<close>

definition fresh_fs :: "nat \<Rightarrow> nat \<Rightarrow> nat \<Rightarrow> mem \<Rightarrow> bool" where
  "fresh_fs T n r m \<longleftrightarrow> T \<noteq> 0 \<and> formatted (booted T n r m) r \<and> r + 1 < n \<and>
     (\<forall>b. r < b \<and> b < n \<longrightarrow> rd16 m (T + 2 * b) = MBFS_UNUSED) \<and>
     (\<forall>x. T + r * 256 + 24 \<le> x \<and> x < T + 256 * n \<longrightarrow> m x = 255)"

lemma fresh_facts:
  assumes "fresh_fs T n r m" and "s = booted T n r m"
  shows "getBlock b s = T + b * 256" and "0 < r" and "2 * n \<le> 256 * r" and "n \<le> 4096"
    and "b < r \<Longrightarrow> getNextFileBlock b s = r" and "getNextFileBlock r s = MBFS_EOF"
    and "rdm m (T + r * 256) 24 = magic_entry r n" and "r < b \<Longrightarrow> b < n \<Longrightarrow> unused b s"
    and "clean s" and "frees s = [r + 1..<n]"
proof -
  have sz: "fileSystemSize s = n" "fileSystemTable s = T" "flash s = m" "lastBlockAllocated s = 0"
    by (simp_all add: assms(2))
  show gb: "getBlock b s = T + b * 256" for b by (simp add: assms(2) getBlock_def)
  note F = assms(1) [unfolded fresh_fs_def formatted_def Let_def, folded assms(2), unfolded sz gb]
  have Tn: "r + 1 < n" using F by blast
  show r: "0 < r" "2 * n \<le> 256 * r" "n \<le> 4096" using F by blast+
  show lo: "b < r \<Longrightarrow> getNextFileBlock b s = r" and at: "getNextFileBlock r s = MBFS_EOF" for b using F by blast+
  show "rdm m (T + r * 256) 24 = magic_entry r n" using F by blast
  show hi: "r < b \<Longrightarrow> b < n \<Longrightarrow> unused b s" for b unfolding getNextFileBlock_def sz using F by blast
  have gt: "r < b" if "unused b s" "b < n" for b
  proof (rule ccontr)
    assume "\<not> r < b"
    then have "getNextFileBlock b s = r \<or> getNextFileBlock b s = MBFS_EOF" using lo [of b] at by (cases "b = r") simp_all
    then show False using that Tn r by simp
  qed
  show "clean s" unfolding clean_def
  proof (intro conjI allI impI)
    show "fileSystemSize s \<le> 4096" "lastBlockAllocated s < fileSystemSize s" using r Tn by (simp_all add: sz)
    fix b assume "b < fileSystemSize s" "unused b s"
    then have b: "b < n" "r < b" using gt by (simp_all add: assms(2))
    then show "2 * fileSystemSize s \<le> 256 * b" using r by (simp add: assms(2))
    fix i :: nat assume "i < 256"
    then have "T + r * 256 + 24 \<le> T + b * 256 + i" "T + b * 256 + i < T + 256 * n" using b by simp_all
    then show "flash s (getBlock b s + i) = 255" unfolding sz gb using F by blast
  qed
  have "[1..<n] = [1..<r + 1] @ [r + 1..<n]"
    using upt_add_eq_append [of 1 "r + 1" "n - (r + 1)"] r Tn by simp
  moreover have "filter (\<lambda>b. unused b s) [1..<r + 1] = []"
    using gt Tn by (fastforce simp: filter_empty_conv)
  moreover have "filter (\<lambda>b. unused b s) [r + 1..<n] = [r + 1..<n]"
    using hi by (simp add: filter_id_conv)
  ultimately show "frees s = [r + 1..<n]" by (simp add: frees_def assms(2))
qed

lemma fresh_create:
  assumes E: "env_ok E" and fr: "fresh_fs T n r m" and nm: "valid_name nm" and st: "length stack = 24"
    and fl: "fl AND MB_CREAT \<noteq> 0" and a: "a = T + r * 256" and s: "s = booted T n r m"
    and e: "e = new_entry (entry_name stack nm) (r + 1)"
    and m1: "m1 = put (put m (a + 24) e) (T + 2 * (r + 1)) (le16 (of_nat MBFS_EOF))"
    and f: "f = \<lparr>fdflags = ucast (fl AND NOT MB_CREAT), fdid = 0, seekpos = 0, flength = 0, dirent = a + 24,
      directory = a, cached = []\<rparr>"
  shows "fs_open E stack (Some nm) fl s =
    Some (Inr 0, s\<lparr>flash := m1, lastBlockAllocated := r + 1, openFiles := [f]\<rparr>)"
proof -
  note F = fresh_facts [OF fr s]
  have Tn: "T \<noteq> 0" "r + 1 < n" using fr by (simp_all add: fresh_fs_def)
  have er: "m x = 255" if "a + 24 \<le> x" "x < T + 256 * n" for x using fr that a by (simp add: fresh_fs_def)
  have top: "a + 256 \<le> T + 256 * n" using Tn a by simp
  note ef = entry_fields [OF F(7) length_magic, folded a]
  have first: "dirent_first (flash s) a = r" using ef(2) F(4) Tn by (simp add: s)
  have v: "isValidFilename (Some nm)" "47 \<notin> set nm" "length nm \<le> 15" using nm by (simp_all add: valid_name_def)
  have dir: "getDirectoryOf nm s = Some a"
    using valid_first [OF v(1)] walk_path_plain [OF v(2), of "[]"] v(3) by (simp add: getDirectoryOf_def s a)
  have nomatch: "\<not> matches nm s (a + 24 * i)" if "i < 10" for i
  proof (cases "i = 0")
    case True
    then show ?thesis using magic_only [of s a r n nm] F(4,7) nm Tn by (simp add: s a)
  next
    case False
    then have "a + 24 \<le> a + 24 * i" "a + 24 * i < T + 256 * n" using that top by simp_all
    then have "flash s (a + 24 * i) = 255" using er by (simp add: s)
    then show ?thesis using streq_nth [of "flash s" "a + 24 * i" nm 0] valid_first [OF v(1)]
      by (auto simp: matches_def)
  qed
  have ent: "getDirectoryEntry nm a s = Some 0"
    using find_dirent_none [of nm s r 0] nomatch F(1) [of r] F(6) a Tn first
    by (simp add: getDirectoryEntry_def basename_plain [OF v(2)])
  have flags0: "dirent_flags (flash s) a = ENTRY_VALID" using ef(3) F(4) Tn by (simp add: s)
  have flags1: "dirent_flags (flash s) (a + 24) = ENTRY_NEW"
    unfolding dirent_flags_def
    using rd16_erased [of "flash s" "a + 24 + 18"] er top by (simp add: s)
  have slot: "find_slot r 0 0 s = Some (a + 24, 0)"
  proof -
    have "find_slot r 0 0 s = find_slot r 1 0 s"
      using F(1) [of r] flags0 a by (subst find_slot.simps) (simp add: Let_def)
    also have "\<dots> = Some (a + 24, 0)"
      using F(1) [of r] flags1 a by (subst find_slot.simps) (simp add: Let_def)
    finally show ?thesis .
  qed
  have cde: "createDirectoryEntry E a s = Some (a + 24, s)"
    using slot first by (simp add: createDirectoryEntry_def)
  have "frees s = (r + 1) # [r + 2..<n]" using F(10) Tn upt_conv_Cons [of "r + 1" n] by simp
  note gf = getFreeBlock_free(1) [OF F(9) this, of E]
  let ?s2 = "s\<lparr>lastBlockAllocated := r + 1\<rparr>"
  have le: "length e = 24" using length_entry_name [OF st v(3)] by (simp add: e)
  have w1: "fs_flash_write E (a + 24) e 0 ?s2 = ?s2\<lparr>flash := put m (a + 24) e\<rparr>"
    using fs_flash_write_fits [OF E, of e ?s2 "a + 24"] er top le by (simp add: s)
  have "unused (r + 1) (s\<lparr>flash := put (flash s) (a + 24) e\<rparr>)"
    using next_put_data [of "r + 1" s "a + 24" e] F(3,8) Tn a by (simp add: s)
  then have "unused (r + 1) (?s2\<lparr>flash := put m (a + 24) e\<rparr>)" by (simp add: getNextFileBlock_def s)
  note w2 = fileTableWrite_unused [OF E this, of MBFS_EOF]
  have "blit stack 0 (nm @ [0]) = nm @ [0] @ drop (length nm + 1) stack" by (simp add: blit_def)
  have cf: "createFile E stack nm a False s = Some (a + 24, s\<lparr>flash := m1, lastBlockAllocated := r + 1\<rparr>)"
    using cde gf w1 w2 v(3) unfolding createFile_def basename_plain [OF v(2)]
    by (simp add: Let_def entry_name_def [symmetric] e m1 s)
  have "dirent_flags m1 (a + 24) = ENTRY_NEW"
  proof -
    have "rdm m1 (a + 24) 24 = e"
      using rdm_put_same [of m "a + 24" e] le F(3) Tn a by (simp add: m1 rdm_put_disj)
    then show ?thesis using entry_fields(3) [of m1 "a + 24" "entry_name stack nm" "r + 1"]
        length_entry_name [OF st v(3)] F(4) Tn by (simp add: e)
  qed
  then show ?thesis
    using v(1) dir ent cf fl Tn a
    by (simp add: fs_open_def choose_id.simps Let_def f s split del: if_split cong: if_cong)
qed

lemma fresh_created:
  assumes fr: "fresh_fs T n r m" and nm: "valid_name nm" and st: "length stack = 24"
    and a: "a = T + r * 256" and s: "s = booted T n r m" and e: "e = new_entry (entry_name stack nm) (r + 1)"
    and m1: "m1 = put (put m (a + 24) e) (T + 2 * (r + 1)) (le16 (of_nat MBFS_EOF))"
    and s1: "s1 = s\<lparr>flash := m1, lastBlockAllocated := r + 1, openFiles := [f]\<rparr>"
    and f: "fdid f = 0" "seekpos f = 0" "flength f = 0" "dirent f = a + 24" "cached f = []"
  shows "writable s1 0 0 [r + 1]" and "room s1 0 [r + 1] = 256 * (n - r - 1)"
    and "rdm m1 a 24 = magic_entry r n" and "rdm m1 (a + 24) 24 = e"
    and "b < r \<Longrightarrow> getNextFileBlock b s1 = r" and "getNextFileBlock r s1 = MBFS_EOF"
proof -
  note F = fresh_facts [OF fr s]
  have Tn: "T \<noteq> 0" "r + 1 < n" using fr by (simp_all add: fresh_fs_def)
  have sz: "fileSystemSize s = n" "fileSystemTable s = T" "flash s = m" by (simp_all add: s)
  have er: "m x = 255" if "a + 24 \<le> x" "x < T + 256 * n" for x using fr that a by (simp add: fresh_fs_def)
  have v: "length nm \<le> 15" using nm by (simp add: valid_name_def)
  have ln: "length (entry_name stack nm) = 16" using length_entry_name [OF st v] .
  have le: "length e = 24" using ln by (simp add: e)
  have gb: "getBlock b s1 = T + b * 256" for b by (simp add: getBlock_def s1 sz)
  have n1: "getNextFileBlock b s1 = (if b = r + 1 then MBFS_EOF else getNextFileBlock b s)" if "b < n" for b
  proof -
    let ?s' = "s\<lparr>flash := put m (a + 24) e\<rparr>"
    have "getNextFileBlock b s1 = getNextFileBlock b (?s'\<lparr>flash := put (flash ?s') (fileSystemTable ?s' + 2 * (r + 1)) (le16 (of_nat MBFS_EOF))\<rparr>)"
      by (simp add: getNextFileBlock_def s1 m1 sz)
    also have "\<dots> = (if b = r + 1 then MBFS_EOF else getNextFileBlock b ?s')"
      by (rule put16_next) simp
    also have "getNextFileBlock b ?s' = getNextFileBlock b s"
      using next_put_data [of b s "a + 24" e] that F(3) a by (simp add: sz)
    finally show ?thesis .
  qed
  show lo: "b < r \<Longrightarrow> getNextFileBlock b s1 = r" for b using n1 [of b] F(5) Tn by simp
  show at: "getNextFileBlock r s1 = MBFS_EOF" using n1 [of r] F(6) Tn by simp
  have tab: "T + 2 * (r + 1) + 2 \<le> a" using F(2,3) Tn a by simp
  show mg: "rdm m1 a 24 = magic_entry r n" using F(7) tab a by (simp add: m1 rdm_put_disj)
  show en: "rdm m1 (a + 24) 24 = e"
    using rdm_put_same [of m "a + 24" e] le tab by (simp add: m1 rdm_put_disj)
  have e1: "m1 x = 255" if "a + 256 \<le> x" "x < T + 256 * n" for x
    using er [of x] that tab le by (simp add: m1 put_def)
  have un: "r + 1 < b" if "unused b s1" "b < n" for b
  proof -
    have "b \<noteq> r + 1" using n1 [OF that(2)] that(1) by auto
    then have u: "unused b s" using n1 [OF that(2)] that(1) by simp
    have "\<not> b \<le> r"
      using lo [of b] at that(1) Tn F(4) by (cases "b = r") auto
    then show ?thesis using \<open>b \<noteq> r + 1\<close> by simp
  qed
  have cl: "clean s1" unfolding clean_def
  proof (intro conjI allI impI)
    show "fileSystemSize s1 \<le> 4096" "lastBlockAllocated s1 < fileSystemSize s1" using F(4) Tn by (simp_all add: s1 sz)
    fix b assume "b < fileSystemSize s1" "unused b s1"
    then have b: "b < n" "r + 1 < b" using un by (simp_all add: s1 sz)
    then show "2 * fileSystemSize s1 \<le> 256 * b" using F(3) by (simp add: s1 sz)
    fix i :: nat assume "i < 256"
    then show "flash s1 (getBlock b s1 + i) = 255" using e1 [of "T + b * 256 + i"] b a gb by (simp add: s1)
  qed
  have fr1: "frees s1 = [r + 2..<n]"
  proof -
    have "filter (\<lambda>b. unused b s1) [r + 2..<n] = [r + 2..<n]"
      using n1 F(8) by (auto simp: filter_id_conv)
    then show ?thesis by (simp add: frees_def s1 sz)
  qed
  have "e = dirent_bytes (entry_name stack nm) (r + 1) ENTRY_NEW 0xFFFFFFFF" by (fact e)
  then have fb: "dirent_first m1 (a + 24) = r + 1"
    using entry_fields(2) [of m1 "a + 24" "entry_name stack nm" "r + 1" ENTRY_NEW "0xFFFFFFFF"] en ln F(4) Tn by simp
  have f1: "openFiles s1 ! 0 = f" by (simp add: s1)
  have "growing s1 [r + 1] 0"
    unfolding growing_def
    using cl n1 [of "r + 1"] Tn F(3) e1 [of "T + (r + 1) * 256 + _"] a gb by (simp add: s1 sz)
  moreover have "open_file s1 0 0 [r + 1]"
    unfolding open_file_def Let_def f1 using fb f by (simp add: s1 s)
  moreover have "dirent_in s1 [r + 1] (a + 24)"
    unfolding dirent_in_def using at Tn F(3) gb a by (intro exI [of _ r]) (simp add: s1 sz)
  ultimately show "writable s1 0 0 [r + 1]"
    unfolding writable_def Let_def f1 using f by simp
  show "room s1 0 [r + 1] = 256 * (n - r - 1)"
    unfolding room_def f1 fr1 using f Tn by (simp add: right_diff_distrib')
qed

subsection \<open>Closing a new file\<close>

lemma fs_close_new:
  assumes E: "env_ok E" and s: "fs_initialised s" "getFileDescriptor fd (openFiles s) = Some k"
    and f: "f = openFiles s ! k" "cached f = []" "flength f < 2 ^ 31"
    and en: "rdm (flash s) (dirent f) 24 = new_entry name b" and nb: "length name = 16" "b < 65536"
  shows "fs_close E fd s = Some (OK, s\<lparr>flash := put (flash s) (dirent f) (dirent_bytes name b ENTRY_VALID (flength f)),
    openFiles := remove_nth k (openFiles s)\<rparr>)"
proof -
  let ?e = "dirent_bytes name b ENTRY_VALID (flength f)"
  have lim: "(0xFFFFFFFF :: nat) < 2 ^ 32" by simp
  note F = entry_fields [OF en nb lim]
  have fits: "fits (flash s (dirent f + i)) (?e ! i)" if i: "i < length ?e" for i
  proof -
    have o: "flash s (dirent f + i) = new_entry name b ! i"
      using arg_cong [OF en, of "\<lambda>l. l ! i"] i nb by simp
    show ?thesis
    proof (cases "i < 18")
      case True
      then have "?e ! i = new_entry name b ! i" using nb by (auto simp: dirent_bytes_def nth_append)
      then show ?thesis using o by simp
    next
      case False
      then have "i \<in> {18, 19, 20, 21, 22, 23}" using i nb by auto
      then have "new_entry name b ! i = 255" using nb by (auto simp: dirent_bytes_def nth_append le16_def le32_def)
      then show ?thesis using o by simp
    qed
  qed
  have "fs_flush E fd s = Some (OK, s\<lparr>flash := put (flash s) (dirent f) ?e\<rparr>)"
    using s f F fs_flash_write_fits [OF E fits] by (simp add: fs_flush_def writeBack_none Let_def)
  then show ?thesis using s by (simp add: fs_close_def)
qed

subsection \<open>After a restart\<close>

lemma fs_open_existing:
  assumes fm: "formatted (booted T n r m) r" and T: "T \<noteq> 0" and nm: "valid_name nm" and st: "length stack = 24"
    and a: "a = T + r * 256" and en: "rdm m (a + 24) 24 = dirent_bytes (entry_name stack nm) b ENTRY_VALID len"
    and b: "b < 65536" "len < 2 ^ 32"
    and f: "f = \<lparr>fdflags = ucast (fl AND NOT MB_CREAT), fdid = 0, seekpos = (if fl AND MB_APPEND \<noteq> 0 then len else 0),
      flength = len, dirent = a + 24, directory = a, cached = []\<rparr>"
  shows "fs_open E stack2 (Some nm) fl (booted T n r m) = Some (Inr 0, booted T n r m\<lparr>openFiles := [f]\<rparr>)"
proof -
  let ?s = "booted T n r m"
  have gb: "getBlock k ?s = T + k * 256" for k by (simp add: getBlock_def)
  note F = fm [unfolded formatted_def Let_def booted_simps gb]
  have v: "isValidFilename (Some nm)" "47 \<notin> set nm" "length nm \<le> 15" using nm by (simp_all add: valid_name_def)
  have mg: "rdm (flash ?s) a 24 = magic_entry r n" and n: "r < n" "n \<le> 4096"
    using F unfolding a booted_simps by blast+
  have first: "dirent_first (flash ?s) a = r" using entry_fields(2) [OF mg length_magic] n by simp
  have dir: "getDirectoryOf nm ?s = Some a"
    using valid_first [OF v(1)] walk_path_plain [OF v(2), of "[]"] v(3) by (simp add: getDirectoryOf_def a)
  have no: "\<not> matches nm ?s (getBlock r ?s + 24 * 0)"
    using magic_only [OF mg nm] n unfolding gb a by simp
  note ef = entry_fields [OF en length_entry_name [OF st v(3)] b]
  have yes: "matches nm ?s (getBlock r ?s + 24 * 1)"
    using streq_entry_name [OF ef(1) v(3) st] ef(3) unfolding matches_def gb a by simp
  have "find_dirent nm r 0 ?s = Some (a + 24)"
    using find_dirent_step [of 0 nm r ?s] find_dirent_step [of 1 nm r ?s] no yes by (simp add: gb a)
  then have ent: "getDirectoryEntry nm a ?s = Some (a + 24)"
    using T first by (simp add: getDirectoryEntry_def basename_plain [OF v(2)] a)
  then show ?thesis
    using v(1) dir T a ef(3,4) by (simp add: fs_open_def choose_id.simps Let_def f cong: if_cong)
qed

text \<open>
  From erased flash through a session, a restart, and back: the state after the file was closed.
\<close>

lemma file_session:
  assumes E: "env_ok E" "cache_size E = 0" and fr: "fresh_fs T n r m" and nm: "valid_name nm"
    and st: "length stack = 24" and fl: "fl AND MB_CREAT \<noteq> 0" and ds: "[] \<notin> set ds"
    and len: "length (concat ds) \<le> 256 * (n - r - 1)" and a: "a = T + r * 256"
  shows "\<exists>s1 s2 s3 bs. fs_open E stack (Some nm) fl (booted T n r m) = Some (Inr 0, s1) \<and>
    fs_write_all E 0 ds s1 = Some s2 \<and> fs_close E 0 s2 = Some (OK, s3) \<and>
    formatted (booted T n r (flash s3)) r \<and>
    rdm (flash s3) (a + 24) 24 = dirent_bytes (entry_name stack nm) (hd bs) ENTRY_VALID (length (concat ds)) \<and>
    hd bs < 65536 \<and> linked (booted T n r (flash s3)) bs \<and> length (concat ds) \<le> 256 * length bs \<and>
    take (length (concat ds)) (contents (booted T n r (flash s3)) bs) = concat ds \<and>
    (\<forall>x. x < T \<or> T + 256 * n \<le> x \<longrightarrow> flash s3 x = m x)"
proof -
  let ?len = "length (concat ds)"
  define s where "s = booted T n r m"
  define e where "e = new_entry (entry_name stack nm) (r + 1)"
  define m1 where "m1 = put (put m (a + 24) e) (T + 2 * (r + 1)) (le16 (of_nat MBFS_EOF))"
  define f where "f = \<lparr>fdflags = ucast (fl AND NOT MB_CREAT), fdid = 0, seekpos = 0, flength = 0, dirent = a + 24,
    directory = a, cached = []\<rparr>"
  define s1 where "s1 = s\<lparr>flash := m1, lastBlockAllocated := r + 1, openFiles := [f]\<rparr>"
  note F = fresh_facts [OF fr s_def]
  have Tn: "T \<noteq> 0" "r + 1 < n" using fr by (simp_all add: fresh_fs_def)
  have op: "fs_open E stack (Some nm) fl s = Some (Inr 0, s1)"
    unfolding s1_def by (rule fresh_create [OF E(1) fr nm st fl a s_def e_def m1_def f_def])
  have f': "fdid f = 0" "seekpos f = 0" "flength f = 0" "dirent f = a + 24" "cached f = []" by (simp_all add: f_def)
  note C = fresh_created [OF fr nm st a s_def e_def m1_def s1_def f']
  have f1: "openFiles s1 ! 0 = f" by (simp add: s1_def)
  have big: "flength (openFiles s1 ! 0) + ?len < 2 ^ 31" using len F(4) f1 f' by simp
  obtain s2 new where s2: "fs_write_all E 0 ds s1 = Some s2" "writable s2 0 0 ([r + 1] @ new)"
    "file_bytes s2 0 ([r + 1] @ new) = file_bytes s1 0 [r + 1] @ concat ds" "untouched s1 [r + 1] s2"
    "\<forall>b \<in> set new. unused b s1" "flength (openFiles s2 ! 0) = flength (openFiles s1 ! 0) + ?len"
    "dirent (openFiles s2 ! 0) = dirent (openFiles s1 ! 0)" "length (openFiles s2) = length (openFiles s1)"
    using writable_write_all [OF E C(1) ds _ big] len C(2) by auto
  define bs where "bs = [r + 1] @ new"
  define f2 where "f2 = openFiles s2 ! 0"
  have o: "others s1 [r + 1] (s2\<lparr>openFiles := openFiles s1\<rparr>)" using s2(4) by (simp add: untouched_def)
  note OF = others_fields [OF o, simplified]
  have sz2: "fileSystemSize s2 = n" "fileSystemTable s2 = T" "fs_initialised s2" using OF by (simp_all add: s1_def s_def)
  have gb1: "getBlock b s1 = T + b * 256" and gb2: "getBlock b s2 = T + b * 256" for b
    by (simp_all add: getBlock_def sz2 s1_def s_def)
  have n1: "fileSystemSize s1 = n" "fileSystemTable s1 = T" by (simp_all add: s1_def s_def)
  have lo2: "getNextFileBlock b s2 = getNextFileBlock b s1" if "b \<le> r" for b
  proof -
    have "\<not> unused b s1" using that C(5) [of b] C(6) F(4) Tn by (cases "b = r") auto
    then show ?thesis using othersD(2) [OF o, of b] that Tn n1 by simp
  qed
  have blk: "flash s2 (a + i) = flash s1 (a + i)" if "i < 256" for i
    using othersD(3) [OF o, of r i] that C(6) F(3) Tn n1 gb1 a by simp
  have rd: "rdm (flash s2) (a + j) 24 = rdm m1 (a + j) 24" if "j + 24 \<le> 256" for j
    using blk that by (intro nth_equalityI) (auto simp: s1_def add.assoc)
  note W = s2(2) [unfolded writable_def Let_def open_file_def, folded f2_def bs_def]
  have w: "getFileDescriptor 0 (openFiles s2) = Some 0" "cached f2 = []" "linked s2 bs"
    "hd bs = dirent_first (flash s2) (dirent f2)" "growing s2 bs (flength f2)" "flength f2 \<le> 256 * length bs"
    using W by auto
  have fl2: "flength f2 = ?len" using s2(6) f1 f'(3) by (simp add: f2_def)
  have d2: "dirent f2 = a + 24" using s2(7) f1 f'(4) by (simp add: f2_def)
  have of2: "remove_nth 0 (openFiles s2) = []" using s2(8) by (simp add: s1_def remove_nth_def)
  have ln: "length (entry_name stack nm) = 16" using length_entry_name [OF st] nm by (simp add: valid_name_def)
  let ?v = "dirent_bytes (entry_name stack nm) (r + 1) ENTRY_VALID ?len"
  define s3 where "s3 = s2\<lparr>flash := put (flash s2) (a + 24) ?v, openFiles := []\<rparr>"
  have en2: "rdm (flash s2) (dirent f2) 24 = new_entry (entry_name stack nm) (r + 1)"
    using rd [of 24] C(4) d2 by (simp add: e_def)
  have cl: "fs_close E 0 s2 = Some (OK, s3)"
    using fs_close_new [OF E(1) sz2(3) w(1) f2_def w(2) _ en2 ln] w(6) fl2 big f1 f'(3) F(4) Tn of2 d2
    by (simp add: s3_def)
  have lv: "length ?v = 24" using ln by simp
  define t where "t = booted T n r (flash s3)"
  have gbt: "getBlock b t = T + b * 256" for b by (simp add: getBlock_def t_def)
  have nt: "getNextFileBlock b t = getNextFileBlock b s2" if "b < n" for b
  proof -
    have "getNextFileBlock b t = getNextFileBlock b (s2\<lparr>flash := put (flash s2) (a + 24) ?v\<rparr>)"
      by (simp add: getNextFileBlock_def t_def s3_def sz2)
    also have "\<dots> = getNextFileBlock b s2" using next_put_data [of b s2 "a + 24" ?v] that F(3) a by (simp add: sz2)
    finally show ?thesis .
  qed
  have "formatted t r"
  proof -
    have "rdm (flash t) a 24 = magic_entry r n"
      using rd [of 0] C(3) by (simp add: t_def s3_def rdm_put_disj)
    moreover have "r = calculateFileTableSize (booted T n r m)"
      using fr by (simp add: fresh_fs_def formatted_def Let_def)
    then have "r = calculateFileTableSize t" by (simp add: calculateFileTableSize_def t_def)
    moreover have "getNextFileBlock b t = r" if "b < r" for b using nt [of b] lo2 [of b] C(5) [OF that] that Tn by simp
    moreover have "getNextFileBlock r t = MBFS_EOF" using nt [of r] lo2 [of r] C(6) Tn by simp
    moreover have tz: "fileSystemSize t = n" "fileSystemTableSize t = r" "rootDirectory t = a" by (simp_all add: t_def a)
    moreover have "r < n" using Tn by simp
    ultimately show ?thesis using F(2-4) unfolding formatted_def Let_def gbt a [symmetric] tz by blast
  qed
  moreover have "rdm (flash s3) (a + 24) 24 = ?v" using rdm_put_same [of "flash s2" "a + 24" ?v] lv by (simp add: s3_def)
  moreover have "r + 1 < 65536" using Tn F(4) by simp
  moreover have mem: "b < n \<and> 2 * n \<le> 256 * b" if "b \<in> set bs" for b using w(5) that sz2 by (simp add: growing_def)
  have "linked t bs"
    using w(3) by (rule linked_cong) (rule nt [OF conjunct1 [OF mem [OF in_set_butlastD]]])
  moreover have "take ?len (contents t bs) = concat ds"
  proof -
    have "contents t bs = contents s2 bs"
    proof (rule contents_cong)
      fix b i :: nat assume b: "b \<in> set bs" and i: "i < 256"
      have "b \<noteq> r"
      proof
        assume "b = r"
        then have "unused r s1" using b s2(5) by (simp add: bs_def)
        then show False using C(6) by simp
      qed
      then show "flash t (getBlock b s2 + i) = flash s2 (getBlock b s2 + i)"
        using put_other_block [of b r i 24 ?v "flash s2" s2] i lv gb2 a by (simp add: t_def s3_def)
    qed (simp add: t_def sz2)
    then show ?thesis using s2(3) fl2 f1 f'(3) by (simp add: file_bytes_def f2_def [symmetric] bs_def)
  qed
  moreover have "flash s3 x = m x" if "x < T \<or> T + 256 * n \<le> x" for x
  proof -
    have "flash s3 x = flash s2 x" using that lv Tn a by (auto simp: s3_def put_def)
    also have "\<dots> = m1 x" using othersD(1) [OF o, of x] that n1 by (simp add: s1_def)
    also have "\<dots> = m x" using that Tn a F(3) by (auto simp: m1_def e_def put_def ln)
    finally show ?thesis .
  qed
  ultimately show ?thesis
    using op s2(1) cl w(6) fl2 unfolding s_def t_def
    by (intro exI [of _ s1] exI [of _ s2] exI [of _ s3] exI [of _ bs]) (simp add: bs_def)
qed

subsection \<open>Properties\<close>

text \<open>Four blocks of flash in pages of 1024 bytes, with the default configuration.\<close>

definition demo_env :: fs_env where
  "demo_env = \<lparr>codepage = 1024, program_end = 0, region_end = 0, default_scratch = 8192, cache_size = 0\<rparr>"

lemma demo_env_ok: "env_ok demo_env"
  by (auto simp: env_ok_def demo_env_def intro: exI [of _ 10])

text \<open>
  C18 A file survives a restart: on erased flash, formatted when the file system is first started, a
  file is created for writing, written in any number of pieces and closed; after a restart, which finds the
  file system instead of formatting again, the file opens for reading under its name and reads back as all the
  pieces, and the flash outside the file system is as it was. The pieces may fill every block.
  (\<open>close\<close> returns \<open>MICROBIT_OK\<close>, which is 0, as the comment in MicroBitFileSystem.cpp says; MicroBitFileSystem.h documents non-zero on success: a finding.)
\<close>

theorem fs_file_persists:
  assumes "env_ok E" and "cache_size E = 0" and "T \<noteq> 0" and "0 < pages" and "0 \<le> pages2"
    and "n = nat pages * blocksPerPage E" and "3 \<le> n" and "n \<le> 4096" and "erased m T (256 * n)"
    and "valid_name nm" and "length stack = 24" and "fl AND MB_CREAT \<noteq> 0" and "fl2 AND MB_APPEND = 0"
    and "fl AND MB_WRITE \<noteq> 0" and "fl2 AND MB_READ \<noteq> 0"
    and "[] \<notin> set ds" and "length (concat ds) \<le> 256 * (n - (2 * n + 255) div 256 - 1)"
    and "0 < z" and "length (concat ds) \<le> nat z"
  shows "\<exists>s1 s2 s3 s4 s5. fs_open E stack (Some nm) fl (fs_new E T pages m) = Some (Inr 0, s1) \<and>
    fs_write_all E 0 ds s1 = Some s2 \<and> fs_close E 0 s2 = Some (OK, s3) \<and>
    fs_open E stack2 (Some nm) fl2 (fs_new E T pages2 (flash s3)) = Some (Inr 0, s4) \<and>
    fs_read E 0 False z s4 = Some (Inr (concat ds), s5) \<and>
    (\<forall>x. x < T \<or> T + 256 * n \<le> x \<longrightarrow> flash s3 x = m x)"
proof -
  let ?len = "length (concat ds)"
  obtain r m0 where boot: "fs_new E T pages m = booted T n r m0" "formatted (booted T n r m0) r"
    "\<forall>b. r < b \<and> b < n \<longrightarrow> rd16 m0 (T + 2 * b) = MBFS_UNUSED" "\<forall>x. T + r * 256 + 24 \<le> x \<and> x < T + 256 * n \<longrightarrow> m0 x = 255"
    "\<forall>x. x < T \<or> T + 256 * n \<le> x \<longrightarrow> m0 x = m x"
    using fs_new_erased [OF assms(1,3,4,6-9)] by blast
  have rb: "2 * n \<le> 256 * r" "256 * r < 2 * n + 256"
    using calculateFileTableSize_bounds [of "booted T n r m0" r] assms(7,8) boot(2) by (auto simp: formatted_def Let_def)
  then have "r = (2 * n + 255) div 256" by linarith
  then have room: "?len \<le> 256 * (n - r - 1)" using assms(17) by simp
  have "r + 1 < n" using rb assms(7) by linarith
  then have fr: "fresh_fs T n r m0" using assms(3) boot by (simp add: fresh_fs_def)
  define a where "a = T + r * 256"
  obtain s1 s2 s3 bs where S: "fs_open E stack (Some nm) fl (booted T n r m0) = Some (Inr 0, s1)"
    "fs_write_all E 0 ds s1 = Some s2" "fs_close E 0 s2 = Some (OK, s3)" "formatted (booted T n r (flash s3)) r"
    "rdm (flash s3) (a + 24) 24 = dirent_bytes (entry_name stack nm) (hd bs) ENTRY_VALID ?len"
    "hd bs < 65536" "linked (booted T n r (flash s3)) bs" "?len \<le> 256 * length bs"
    "take ?len (contents (booted T n r (flash s3)) bs) = concat ds" "\<forall>x. x < T \<or> T + 256 * n \<le> x \<longrightarrow> flash s3 x = m0 x"
    using file_session [OF assms(1,2) fr assms(10-12,16) room a_def] by blast
  let ?t = "booted T n r (flash s3)"
  have small: "?len < 2 ^ 31" using room assms(8) by simp
  define f where "f = \<lparr>fdflags = ucast (fl2 AND NOT MB_CREAT), fdid = 0, seekpos = (if fl2 AND MB_APPEND \<noteq> 0 then ?len else 0),
      flength = ?len, dirent = a + 24, directory = a, cached = []\<rparr>"
  have restart: "fs_new E T pages2 (flash s3) = ?t" by (rule fs_new_formatted [OF S(4) assms(3,5)])
  let ?s4 = "?t\<lparr>openFiles := [f]\<rparr>"
  have op: "fs_open E stack2 (Some nm) fl2 ?t = Some (Inr 0, ?s4)"
    by (rule fs_open_existing [OF S(4) assms(3,10,11) a_def S(5,6) _ f_def]) (use small in simp)
  have ln: "length (entry_name stack nm) = 16" using length_entry_name [OF assms(11)] assms(10) by (simp add: valid_name_def)
  have "dirent_first (flash s3) (a + 24) = hd bs" using entry_fields(2) [OF S(5) ln S(6)] small by simp
  then have "open_file ?s4 0 0 bs"
    using S(7,8) small assms(13) by (simp add: open_file_def f_def)
  moreover have "file_bytes ?s4 0 bs = concat ds" using S(9) by (simp add: file_bytes_def f_def)
  ultimately have "\<exists>s5. fs_read E 0 False z ?s4 = Some (Inr (concat ds), s5)"
    using fs_read_eq [OF _ assms(18) refl refl, of ?s4 0 0 bs E] assms(13,19) by (simp add: f_def)
  then show ?thesis using S(1-3,10) op boot(1,5) restart by metis
qed

theorem fs_file_persists_witness:
  "\<exists>s1 s2 s3 s4 s5.
    fs_open demo_env (replicate 24 0) (Some [97, 98]) 7 (fs_new demo_env 1024 1 (\<lambda>_. 255)) = Some (Inr 0, s1) \<and>
    fs_write_all demo_env 0 [[1, 2], [3]] s1 = Some s2 \<and> fs_close demo_env 0 s2 = Some (OK, s3) \<and>
    fs_open demo_env [] (Some [97, 98]) 1 (fs_new demo_env 1024 0 (flash s3)) = Some (Inr 0, s4) \<and>
    fs_read demo_env 0 False 10 s4 = Some (Inr (concat [[1, 2], [3]]), s5)"
proof -
  have "\<exists>s1 s2 s3 s4 s5.
    fs_open demo_env (replicate 24 0) (Some [97, 98]) 7 (fs_new demo_env 1024 1 (\<lambda>_. 255)) = Some (Inr 0, s1) \<and>
    fs_write_all demo_env 0 [[1, 2], [3]] s1 = Some s2 \<and> fs_close demo_env 0 s2 = Some (OK, s3) \<and>
    fs_open demo_env [] (Some [97, 98]) 1 (fs_new demo_env 1024 0 (flash s3)) = Some (Inr 0, s4) \<and>
    fs_read demo_env 0 False 10 s4 = Some (Inr (concat [[1, 2], [3]]), s5) \<and>
    (\<forall>x. x < 1024 \<or> 1024 + 256 * 4 \<le> x \<longrightarrow> flash s3 x = (\<lambda>_. 255) x)"
    by (rule fs_file_persists [OF demo_env_ok])
      (simp_all add: demo_env_def blocksPerPage_def erased_def valid_name_def isValidFilename_def MBFS_MAGIC_def)
  then show ?thesis by blast
qed

text \<open>
  C19 Reading a file opened for reading gives the bytes its chain of blocks holds from the current position on, no
  more than asked for and none past the end of the file, and moves the position by their number;
  nothing else changes. (That a file opened without \<open>MB_READ\<close> is read as well is a finding; nothing is said of it here.)
\<close>

theorem fs_read_contents:
  assumes "fs_initialised s" and "getFileDescriptor fd (openFiles s) = Some k" and "f = openFiles s ! k" and "cached f = []"
    and "linked s bs" and "hd bs = dirent_first (flash s) (dirent f)" and "seekpos f \<le> flength f"
    and "flength f \<le> 256 * length bs" and "flength f < 2 ^ 31" and "0 < z"
    and "data = take (nat z) (drop (seekpos f) (take (flength f) (concat (map (\<lambda>b. rdm (flash s) (getBlock b s) 256) bs))))"
    and "fdflags f AND ucast MB_READ \<noteq> 0"
  shows "fs_read E fd False z s =
    Some (Inr data, s\<lparr>openFiles := (openFiles s)[k := f\<lparr>seekpos := seekpos f + length data\<rparr>]\<rparr>)"
proof -
  have "open_file s fd k bs" using assms(1-9) by (simp add: open_file_def)
  moreover have "data = take (nat z) (drop (seekpos f) (file_bytes s k bs))"
    using assms(3,11) by (simp add: file_bytes_def contents_def block_bytes_def [abs_def])
  ultimately show ?thesis using fs_read_eq assms(3,10) by blast
qed

definition demo_file :: file_descriptor where
  "demo_file = \<lparr>fdflags = 1, fdid = 0, seekpos = 1, flength = 300, dirent = 2000, directory = 0, cached = []\<rparr>"

theorem fs_read_contents_witness:
  "fs_read demo_env 0 False 2 (booted 1024 8 1 (\<lambda>x. if x = 2016 then 3 else if x = 1030 then 4 else if x = 2017 \<or> x = 1031 then 0 else of_nat (x mod 7))
      \<lparr>openFiles := [demo_file]\<rparr>) =
    Some (Inr [of_nat (1793 mod 7), of_nat (1794 mod 7)],
      booted 1024 8 1 (\<lambda>x. if x = 2016 then 3 else if x = 1030 then 4 else if x = 2017 \<or> x = 1031 then 0 else of_nat (x mod 7))
        \<lparr>openFiles := [demo_file\<lparr>seekpos := 3\<rparr>]\<rparr>)"
proof -
  let ?m = "\<lambda>x. if x = 2016 then 3 else if x = 1030 then 4 else if x = 2017 \<or> x = 1031 then 0 else of_nat (x mod 7) :: u8"
  let ?s = "booted 1024 8 1 ?m\<lparr>openFiles := [demo_file]\<rparr>"
  have d: "openFiles ?s ! 0 = demo_file" by simp
  have n3: "getNextFileBlock 3 ?s = 4" by (simp add: getNextFileBlock_def rd16_def)
  have f: "dirent_first (flash ?s) 2000 = 3" by (simp add: dirent_first_def rd16_def)
  have tk: "[of_nat (1793 mod 7), of_nat (1794 mod 7)] =
      take (nat 2) (drop (seekpos demo_file) (take (flength demo_file) (concat (map (\<lambda>b. rdm (flash ?s) (getBlock b ?s) 256) [3, 4]))))"
  proof -
    have "rdm ?m 1792 256 = rdm ?m 1792 1 @ rdm ?m 1793 2 @ rdm ?m 1795 253"
      using rdm_add [of ?m 1792 1 255] rdm_add [of ?m 1793 2 253] by simp
    moreover have "rdm ?m 1793 2 = [of_nat (1793 mod 7), of_nat (1794 mod 7)]" by (simp add: rdm_def upt_rec)
    ultimately show ?thesis by (simp add: getBlock_def demo_file_def)
  qed
  show ?thesis
    using fs_read_contents [of ?s 0 0 demo_file "[3, 4]" 2, OF _ _ d [symmetric] _ _ _ _ _ _ _ tk] n3 f
    by (simp add: demo_file_def)
qed

text \<open>
  Writing at the end of a file appends to it: for any pieces that fit into the unused blocks, all
  bytes are written, and the file then reads back as its old bytes and the pieces. Every block
  that belongs to something else keeps its table entry and its bytes, and so does the flash
  outside the file system.
\<close>

theorem fs_append_session:
  assumes "env_ok E" and "cache_size E = 0" and "writable s fd k bs" and "[] \<notin> set ds"
    and "length (concat ds) \<le> room s k bs" and "flength (openFiles s ! k) + length (concat ds) < 2 ^ 31"
    and "int (flength (openFiles s ! k) + length (concat ds)) \<le> z" and "0 < z"
  shows "\<exists>s1 s2 s3. fs_write_all E fd ds s = Some s1 \<and> fs_seek E fd 0 1 s1 = Some (Inr 0, s2) \<and>
    fs_read E fd False z s2 = Some (Inr (file_bytes s k bs @ concat ds), s3) \<and>
    (\<forall>b < fileSystemSize s. b \<notin> set bs \<and> \<not> unused b s \<longrightarrow> getNextFileBlock b s3 = getNextFileBlock b s \<and>
      (2 * fileSystemSize s \<le> 256 * b \<longrightarrow> (\<forall>i < 256. flash s3 (getBlock b s + i) = flash s (getBlock b s + i)))) \<and>
    (\<forall>x. x < fileSystemTable s \<or> fileSystemTable s + 256 * fileSystemSize s \<le> x \<longrightarrow> flash s3 x = flash s x)"
proof -
  obtain s1 new where s1: "fs_write_all E fd ds s = Some s1" "writable s1 fd k (bs @ new)"
    "file_bytes s1 k (bs @ new) = file_bytes s k bs @ concat ds" "untouched s bs s1"
    "flength (openFiles s1 ! k) = flength (openFiles s ! k) + length (concat ds)"
    using writable_write_all [OF assms(1-6)] by blast
  define f where "f = openFiles s1 ! k"
  note W = s1(2) [unfolded writable_def Let_def open_file_def, folded f_def]
  have k: "k < length (openFiles s1)" "fdid f = fd"
    using getFileDescriptor_nth [of fd "openFiles s1" k] W by (auto simp: f_def)
  let ?s2 = "s1\<lparr>openFiles := (openFiles s1)[k := f\<lparr>seekpos := 0\<rparr>]\<rparr>"
  have sk: "fs_seek E fd 0 1 s1 = Some (Inr 0, ?s2)"
    using fs_seek_eq [of s1 fd k f 0 0 1 E] W by (simp add: f_def)
  have f2: "openFiles ?s2 ! k = f\<lparr>seekpos := 0\<rparr>" using k by simp
  have "getFileDescriptor fd (openFiles ?s2) = Some k"
    using getFileDescriptor_update [of fd "openFiles s1" k "f\<lparr>seekpos := 0\<rparr>"] W k by simp
  then have "open_file ?s2 fd k (bs @ new)" unfolding open_file_def Let_def f2 using W by simp
  moreover have fb: "file_bytes ?s2 k (bs @ new) = file_bytes s k bs @ concat ds"
    using s1(3) k by (simp add: file_bytes_def f_def)
  moreover have "take (nat z) (drop (seekpos (openFiles ?s2 ! k)) (file_bytes ?s2 k (bs @ new))) = file_bytes s k bs @ concat ds"
  proof -
    have "length (file_bytes s k bs @ concat ds) \<le> nat z" using assms(7) by (simp add: file_bytes_def)
    then show ?thesis unfolding fb f2 by simp
  qed
  ultimately have opn: "open_file ?s2 fd k (bs @ new)"
    and tk: "take (nat z) (drop (seekpos (openFiles ?s2 ! k)) (file_bytes ?s2 k (bs @ new))) = file_bytes s k bs @ concat ds"
    by blast+
  define s3 where "s3 = ?s2\<lparr>openFiles := (openFiles ?s2)[k := (openFiles ?s2 ! k)
    \<lparr>seekpos := seekpos (openFiles ?s2 ! k) + length (file_bytes s k bs @ concat ds)\<rparr>]\<rparr>"
  have rd: "fs_read E fd False z ?s2 = Some (Inr (file_bytes s k bs @ concat ds), s3)"
    using fs_read_eq [OF opn assms(8) refl refl, of E] unfolding tk s3_def .
  have fl: "flash s3 = flash s1" "getNextFileBlock b s3 = getNextFileBlock b s1" for b
    by (simp_all add: s3_def)
  have o: "others s bs (s1\<lparr>openFiles := openFiles s\<rparr>)" using s1(4) by (simp add: untouched_def)
  have "getNextFileBlock b s3 = getNextFileBlock b s \<and>
      (2 * fileSystemSize s \<le> 256 * b \<longrightarrow> (\<forall>i < 256. flash s3 (getBlock b s + i) = flash s (getBlock b s + i)))"
    if "b < fileSystemSize s" "b \<notin> set bs" "\<not> unused b s" for b
    using othersD(2) [OF o that] othersD(3) [OF o that] fl by simp
  moreover have "flash s3 x = flash s x" if "x < fileSystemTable s \<or> fileSystemTable s + 256 * fileSystemSize s \<le> x" for x
    using othersD(1) [OF o that] fl by simp
  ultimately show ?thesis using s1(1) sk rd by blast
qed

theorem fs_append_session_witness:
  "\<exists>s s1 s2 s3. fs_open demo_env (replicate 24 0) (Some [97, 98]) 7 (fs_new demo_env 1024 1 (\<lambda>_. 255)) = Some (Inr 0, s) \<and>
    fs_write_all demo_env 0 [replicate 300 1, [2]] s = Some s1 \<and> fs_seek demo_env 0 0 1 s1 = Some (Inr 0, s2) \<and>
    fs_read demo_env 0 False 1000 s2 = Some (Inr (replicate 300 1 @ [2]), s3)"
proof -
  have er: "erased (\<lambda>_. 255) 1024 (256 * 4)" by (simp add: erased_def)
  have nm: "valid_name [97, 98]" by (simp add: valid_name_def isValidFilename_def MBFS_MAGIC_def)
  have st: "length (replicate 24 0 :: u8 list) = 24" by simp
  have n4: "4 = nat 1 * blocksPerPage demo_env" by (simp add: blocksPerPage_def demo_env_def)
  obtain r m0 where boot: "fs_new demo_env 1024 1 (\<lambda>_. 255) = booted 1024 4 r m0" "formatted (booted 1024 4 r m0) r"
    "\<forall>b. r < b \<and> b < 4 \<longrightarrow> rd16 m0 (1024 + 2 * b) = MBFS_UNUSED"
    "\<forall>x. 1024 + r * 256 + 24 \<le> x \<and> x < 1024 + 256 * 4 \<longrightarrow> m0 x = 255"
    using fs_new_erased [OF demo_env_ok _ _ n4 _ _ er] by auto
  have "256 * r < 2 * 4 + 256"
    using calculateFileTableSize_bounds(3) [of "booted 1024 4 r m0" r] boot(2) by (simp add: formatted_def Let_def)
  then have r: "r + 1 < 4" by simp
  then have fr: "fresh_fs 1024 4 r m0" using boot by (simp add: fresh_fs_def)
  let ?f = "\<lparr>fdflags = ucast (7 AND NOT MB_CREAT), fdid = 0, seekpos = 0, flength = 0, dirent = 1024 + r * 256 + 24,
      directory = 1024 + r * 256, cached = []\<rparr>"
  have fl: "(7 :: u32) AND MB_CREAT \<noteq> 0" by simp
  define s where "s = booted 1024 4 r m0\<lparr>flash := put (put m0 (1024 + r * 256 + 24) (new_entry (entry_name (replicate 24 0) [97, 98]) (r + 1)))
      (1024 + 2 * (r + 1)) (le16 (of_nat MBFS_EOF)), lastBlockAllocated := r + 1, openFiles := [?f]\<rparr>"
  have op: "fs_open demo_env (replicate 24 0) (Some [97, 98]) 7 (booted 1024 4 r m0) = Some (Inr 0, s)"
    unfolding s_def by (rule fresh_create [OF demo_env_ok fr nm st fl refl refl refl refl refl])
  have f: "fdid ?f = 0" "seekpos ?f = 0" "flength ?f = 0" "dirent ?f = 1024 + r * 256 + 24" "cached ?f = []" by simp_all
  note C = fresh_created [OF fr nm st refl refl refl refl s_def f]
  have f0: "flength (openFiles s ! 0) = 0" by (simp add: s_def)
  have "256 * r < 264" using \<open>256 * r < 2 * 4 + 256\<close> by simp
  then have room: "301 \<le> room s 0 [r + 1]" using C(2) by simp
  have "file_bytes s 0 [r + 1] = []" using f0 by (simp add: file_bytes_def)
  then show ?thesis
    using fs_append_session [OF demo_env_ok _ C(1), of "[replicate 300 1, [2]]" 1000] room f0 op boot(1)
    by (auto simp: demo_env_def simp del: fs_write_all.simps)
qed

end
