(* ===== verification/MicroBitFile.thy ===== *)
theory MicroBitFile
  imports FileSystemSession
begin

text \<open>
  \<open>MicroBitFile\<close> (\<open>source/MicroBitFile.cpp\<close>): a file as an object that holds the handle of an open
  file of the default file system, or an error code. A file with a position, of which every
  sequence of operations gives the same results, is its specification.

  The state is the object, its handle and its name, and the default file system, which the first
  file object makes when there is none. Strings are lists of characters without a zero.
\<close>

record mb_file =
  fileHandle :: "code + nat"
  fileName :: "u8 list"

definition default_fs :: "fs_env \<Rightarrow> mem \<Rightarrow> fs option \<Rightarrow> fs" where
  "default_fs E m d = (case d of None \<Rightarrow> fs_new E 0 0 m | Some s \<Rightarrow> s)"

definition file_new :: "fs_env \<Rightarrow> mem \<Rightarrow> u8 list \<Rightarrow> u8 list \<Rightarrow> u32 \<Rightarrow> fs option \<Rightarrow> (mb_file \<times> fs) option" where
  "file_new E m stack name mode d =
     do {
       (h, s) \<leftarrow> fs_open E stack (Some name) mode (default_fs E m d);
       Some (\<lparr>fileHandle = h, fileName = name\<rparr>, s)
     }"

definition setPosition :: "fs_env \<Rightarrow> int \<Rightarrow> mb_file \<Rightarrow> fs \<Rightarrow> ((code + nat) \<times> fs) option" where
  "setPosition E offset f s =
     (case fileHandle f of
        Inl e \<Rightarrow> Some (Inl NOT_SUPPORTED, s)
      | Inr fd \<Rightarrow> if offset < 0 then Some (Inl INVALID_PARAMETER, s) else fs_seek E fd offset 1 s)"

definition getPosition :: "fs_env \<Rightarrow> mb_file \<Rightarrow> fs \<Rightarrow> ((code + nat) \<times> fs) option" where
  "getPosition E f s =
     (case fileHandle f of Inl e \<Rightarrow> Some (Inl NOT_SUPPORTED, s) | Inr fd \<Rightarrow> fs_seek E fd 0 4 s)"

definition file_write :: "fs_env \<Rightarrow> u8 list \<Rightarrow> mb_file \<Rightarrow> fs \<Rightarrow> ((code + nat) \<times> fs) option" where
  "file_write E bs f s =
     (case fileHandle f of Inl e \<Rightarrow> Some (Inl NOT_SUPPORTED, s) | Inr fd \<Rightarrow> fs_write E fd (Some bs) s)"

definition file_read :: "fs_env \<Rightarrow> bool \<Rightarrow> int \<Rightarrow> mb_file \<Rightarrow> fs \<Rightarrow> ((code + u8 list) \<times> fs) option" where
  "file_read E buffer_null n f s =
     (case fileHandle f of
        Inl e \<Rightarrow> Some (Inl NOT_SUPPORTED, s)
      | Inr fd \<Rightarrow> if n < 0 \<or> buffer_null then Some (Inl INVALID_PARAMETER, s) else fs_read E fd buffer_null n s)"

definition read_char :: "fs_env \<Rightarrow> mb_file \<Rightarrow> fs \<Rightarrow> ((code + u8) \<times> fs) option" where
  "read_char E f s =
     (case fileHandle f of
        Inl e \<Rightarrow> Some (Inl NOT_SUPPORTED, s)
      | Inr fd \<Rightarrow>
          do {
            (r, s1) \<leftarrow> file_read E False 1 f s;
            Some (case r of Inl e \<Rightarrow> Inl e | Inr [] \<Rightarrow> Inl NO_DATA | Inr (c # cs) \<Rightarrow> Inr c, s1)
          })"

text \<open>The string overload: an error gives the empty string.\<close>

definition read_string :: "fs_env \<Rightarrow> nat \<Rightarrow> mb_file \<Rightarrow> fs \<Rightarrow> (u8 list \<times> fs) option" where
  "read_string E n f s =
     do {
       (r, s1) \<leftarrow> file_read E False (int n) f s;
       Some (case r of Inl e \<Rightarrow> [] | Inr bs \<Rightarrow> bs, s1)
     }"

definition file_close :: "fs_env \<Rightarrow> mb_file \<Rightarrow> fs \<Rightarrow> (code \<times> mb_file \<times> fs) option" where
  "file_close E f s =
     (case fileHandle f of
        Inl e \<Rightarrow> Some (NOT_SUPPORTED, f, s)
      | Inr fd \<Rightarrow>
          do {
            (r, s1) \<leftarrow> fs_close E fd s;
            Some (if r \<noteq> OK then (r, f, s1) else (r, f\<lparr>fileHandle := Inl NO_RESOURCES\<rparr>, s1))
          })"

definition file_remove :: "fs_env \<Rightarrow> u8 list \<Rightarrow> mb_file \<Rightarrow> fs \<Rightarrow> (code \<times> mb_file \<times> fs) option" where
  "file_remove E stack f s =
     do {
       (f1, s1) \<leftarrow> (case fileHandle f of Inl e \<Rightarrow> Some (f, s) | Inr fd \<Rightarrow> map_option snd (file_close E f s));
       (r, s2) \<leftarrow> fs_remove E stack (Some (fileName f1)) s1;
       Some (if r \<noteq> OK then (r, f1, s2) else (r, f1\<lparr>fileHandle := Inl NOT_SUPPORTED\<rparr>, s2))
     }"

definition file_append :: "fs_env \<Rightarrow> u8 list \<Rightarrow> mb_file \<Rightarrow> fs \<Rightarrow> ((code + nat) \<times> fs) option" where
  "file_append E bs f s =
     (case fileHandle f of
        Inl e \<Rightarrow> Some (Inl NOT_SUPPORTED, s)
      | Inr fd \<Rightarrow>
          do {
            (r, s1) \<leftarrow> fs_seek E fd 0 2 s;
            case r of Inl e \<Rightarrow> Some (Inl e, s1) | Inr p \<Rightarrow> file_write E bs f s1
          })"

definition isValid :: "mb_file \<Rightarrow> bool" where
  "isValid f = (case fileHandle f of Inl e \<Rightarrow> False | Inr fd \<Rightarrow> True)"

definition getHandle :: "mb_file \<Rightarrow> code + nat" where
  "getHandle f = fileHandle f"

definition file_flush :: "fs_env \<Rightarrow> mb_file \<Rightarrow> fs \<Rightarrow> (code \<times> fs) option" where
  "file_flush E f s =
     (case fileHandle f of Inl e \<Rightarrow> Some (NOT_SUPPORTED, s) | Inr fd \<Rightarrow> fs_flush E fd s)"

definition file_delete :: "fs_env \<Rightarrow> mb_file \<Rightarrow> fs \<Rightarrow> fs option" where
  "file_delete E f s = map_option (\<lambda>(r, f1, s1). s1) (file_close E f s)"

subsection \<open>Programs that use a file\<close>

datatype file_op = Append "u8 list" | Read int | ReadChar | SetPosition int | GetPosition | Close

datatype file_result = Code code | Num nat | Bytes "u8 list" | Char u8

fun file_step :: "fs_env \<Rightarrow> file_op \<Rightarrow> mb_file \<times> fs \<Rightarrow> (file_result \<times> mb_file \<times> fs) option" where
  "file_step E (Append bs) (f, s) =
     map_option (\<lambda>(r, s1). (case_sum Code Num r, f, s1)) (file_append E bs f s)"
| "file_step E (Read n) (f, s) =
     map_option (\<lambda>(r, s1). (case_sum Code Bytes r, f, s1)) (file_read E False n f s)"
| "file_step E ReadChar (f, s) =
     map_option (\<lambda>(r, s1). (case_sum Code Char r, f, s1)) (read_char E f s)"
| "file_step E (SetPosition p) (f, s) =
     map_option (\<lambda>(r, s1). (case_sum Code Num r, f, s1)) (setPosition E p f s)"
| "file_step E GetPosition (f, s) =
     map_option (\<lambda>(r, s1). (case_sum Code Num r, f, s1)) (getPosition E f s)"
| "file_step E Close (f, s) =
     map_option (\<lambda>(r, f1, s1). (Code r, f1, s1)) (file_close E f s)"

fun file_steps :: "fs_env \<Rightarrow> file_op list \<Rightarrow> mb_file \<times> fs \<Rightarrow> (file_result list \<times> mb_file \<times> fs) option" where
  "file_steps E [] x = Some ([], x)"
| "file_steps E (op # ops) x =
     do { (r, x1) \<leftarrow> file_step E op x; (rs, x2) \<leftarrow> file_steps E ops x1; Some (r # rs, x2) }"

text \<open>The specification: the bytes of the file and a position in them, nothing when it is closed.\<close>

type_synonym byte_file = "(u8 list \<times> nat) option"

fun spec_step :: "file_op \<Rightarrow> byte_file \<Rightarrow> file_result \<times> byte_file" where
  "spec_step op None = (Code NOT_SUPPORTED, None)"
| "spec_step (Append bs) (Some (c, p)) =
     (if bs = [] then (Code INVALID_PARAMETER, Some (c, length c)) else (Num (length bs), Some (c @ bs, length c + length bs)))"
| "spec_step (Read n) (Some (c, p)) =
     (if n \<le> 0 then (Code INVALID_PARAMETER, Some (c, p))
      else (Bytes (take (nat n) (drop p c)), Some (c, p + length (take (nat n) (drop p c)))))"
| "spec_step ReadChar (Some (c, p)) =
     (if p < length c then (Char (c ! p), Some (c, p + 1)) else (Code NO_DATA, Some (c, p)))"
| "spec_step (SetPosition q) (Some (c, p)) =
     (if 0 \<le> q \<and> q \<le> int (length c) then (Num (nat q), Some (c, nat q)) else (Code INVALID_PARAMETER, Some (c, p)))"
| "spec_step GetPosition (Some (c, p)) = (Num p, Some (c, p))"
| "spec_step Close (Some (c, p)) = (Code OK, None)"

fun spec_steps :: "file_op list \<Rightarrow> byte_file \<Rightarrow> file_result list" where
  "spec_steps [] x = []"
| "spec_steps (op # ops) x = (let (r, x1) = spec_step op x in r # spec_steps ops x1)"

subsection \<open>An open file and its specification\<close>

definition at_pos :: "fs \<Rightarrow> nat \<Rightarrow> nat \<Rightarrow> fs" where
  "at_pos s k p = s\<lparr>openFiles := (openFiles s)[k := (openFiles s ! k)\<lparr>seekpos := p\<rparr>]\<rparr>"

definition represents :: "fs \<Rightarrow> nat \<Rightarrow> nat \<Rightarrow> nat list \<Rightarrow> u8 list \<Rightarrow> nat \<Rightarrow> bool" where
  "represents s fd k bs c p \<longleftrightarrow> seekpos (openFiles s ! k) = p \<and> p \<le> length c \<and> file_bytes s k bs = c \<and>
     k < length (openFiles s) \<and> writable (at_pos s k (length c)) fd k bs"

lemma at_pos_file: "k < length (openFiles s) \<Longrightarrow> openFiles (at_pos s k p) ! k = (openFiles s ! k)\<lparr>seekpos := p\<rparr>"
  by (simp add: at_pos_def)

lemma at_pos_fields [simp]:
  "flash (at_pos s k p) = flash s" "length (openFiles (at_pos s k p)) = length (openFiles s)"
  "fs_initialised (at_pos s k p) = fs_initialised s"
  by (simp_all add: at_pos_def)

lemma at_pos_twice: "k < length (openFiles s) \<Longrightarrow> at_pos (at_pos s k p) k q = at_pos s k q"
  by (simp add: at_pos_def)

lemma at_pos_here: "seekpos (openFiles s ! k) = p \<Longrightarrow> at_pos s k p = s"
proof -
  assume "seekpos (openFiles s ! k) = p"
  then have "(openFiles s ! k)\<lparr>seekpos := p\<rparr> = openFiles s ! k" by auto
  then show ?thesis by (simp add: at_pos_def)
qed

lemma at_pos_bytes: "k < length (openFiles s) \<Longrightarrow> file_bytes (at_pos s k p) k bs = file_bytes s k bs"
  by (simp add: file_bytes_def at_pos_file) (simp add: at_pos_def)

lemma represents_open:
  assumes "represents s fd k bs c p"
  shows "open_file s fd k bs" and "flength (openFiles s ! k) = length c"
proof -
  let ?t = "at_pos s k (length c)" and ?f = "openFiles s ! k"
  have k: "k < length (openFiles s)" and p: "seekpos ?f = p" "p \<le> length c" "file_bytes s k bs = c"
    and w: "open_file ?t fd k bs" using assms by (simp_all add: represents_def writable_def Let_def)
  have tf: "openFiles ?t ! k = ?f\<lparr>seekpos := length c\<rparr>" using at_pos_file [OF k] .
  note W = w [unfolded open_file_def Let_def tf, simplified]
  have "length (file_bytes s k bs) = flength ?f" using W by (simp add: file_bytes_def length_contents)
  then show l: "flength ?f = length c" using p(3) by simp
  have "fdid ?f = fd" using getFileDescriptor_nth [of fd "openFiles ?t" k] W tf by simp
  then have "getFileDescriptor fd ((openFiles ?t)[k := ?f]) = Some k" using getFileDescriptor_update W by blast
  moreover have "(openFiles ?t)[k := ?f] = openFiles s" by (simp add: at_pos_def)
  ultimately have "getFileDescriptor fd (openFiles s) = Some k" by simp
  then show "open_file s fd k bs" using W p l by (simp add: open_file_def) (simp add: at_pos_def)
qed

lemma represents_move: "represents s fd k bs c p \<Longrightarrow> q \<le> length c \<Longrightarrow> represents (at_pos s k q) fd k bs c q"
  by (simp add: represents_def at_pos_file at_pos_twice at_pos_bytes)

lemma represents_seek:
  assumes "represents s fd k bs c p" and "- (2 ^ 31) \<le> offset" and "offset < 2 ^ 31"
    and "q = (if fl = 1 then offset else if fl = 2 then int (length c) + offset
      else if fl = 4 then int p + offset else int p)"
  shows "fs_seek E fd offset fl s =
    (if 0 \<le> q \<and> q \<le> int (length c) then Some (Inr (nat q), at_pos s k (nat q)) else Some (Inl INVALID_PARAMETER, s))"
proof -
  note R = represents_open [OF assms(1)]
  have "seekpos (openFiles s ! k) = p" using assms(1) by (simp add: represents_def)
  then show ?thesis
    using fs_seek_eq [of s fd k "openFiles s ! k" offset q fl E] R assms(2-4)
    by (simp add: open_file_def Let_def at_pos_def)
qed

lemma represents_read:
  assumes "represents s fd k bs c p" and "0 < n" and "data = take (nat n) (drop p c)"
  shows "fs_read E fd False n s = Some (Inr data, at_pos s k (p + length data))"
    and "represents (at_pos s k (p + length data)) fd k bs c (p + length data)"
proof -
  have p: "seekpos (openFiles s ! k) = p" "file_bytes s k bs = c" "p \<le> length c" using assms(1) by (simp_all add: represents_def)
  show "fs_read E fd False n s = Some (Inr data, at_pos s k (p + length data))"
    using fs_read_eq [OF represents_open(1) [OF assms(1)] assms(2) refl] p assms(3) by (simp add: at_pos_def)
  have "p + length data \<le> length c" using p(3) assms(3) by simp
  then show "represents (at_pos s k (p + length data)) fd k bs c (p + length data)" using represents_move [OF assms(1)] by blast
qed

lemma represents_write:
  assumes "env_ok E" and "cache_size E = 0" and "represents s fd k bs c (length c)" and "data \<noteq> []"
    and "length data \<le> room s k bs" and "length c + length data < 2 ^ 31"
  shows "\<exists>s' new. fs_write E fd (Some data) s = Some (Inr (length data), s') \<and>
    represents s' fd k (bs @ new) (c @ data) (length c + length data) \<and> untouched s bs s' \<and>
    room s' k (bs @ new) = room s k bs - length data \<and> dirent (openFiles s' ! k) = dirent (openFiles s ! k)"
proof -
  have l: "flength (openFiles s ! k) = length c" by (rule represents_open [OF assms(3)])
  have r: "seekpos (openFiles s ! k) = length c" "k < length (openFiles s)" "file_bytes s k bs = c"
    using assms(3) by (simp_all add: represents_def)
  then have "writable s fd k bs" using assms(3) at_pos_here [OF r(1)] by (simp add: represents_def)
  then obtain s' new where s': "fs_write E fd (Some data) s = Some (Inr (length data), s')" "writable s' fd k (bs @ new)"
    "file_bytes s' k (bs @ new) = file_bytes s k bs @ data" "untouched s bs s'"
    "flength (openFiles s' ! k) = flength (openFiles s ! k) + length data"
    "room s' k (bs @ new) = room s k bs - length data" "dirent (openFiles s' ! k) = dirent (openFiles s ! k)"
    "length (openFiles s') = length (openFiles s)"
    using writable_write [OF assms(1,2) _ assms(4,5)] assms(6) l by fastforce
  have "seekpos (openFiles s' ! k) = length (c @ data)" using s'(2,5) l by (simp add: writable_def Let_def)
  then have "represents s' fd k (bs @ new) (c @ data) (length c + length data)"
    using s' r at_pos_here [of s' k "length (c @ data)"] by (simp add: represents_def)
  then show ?thesis using s'(1,4,6,7) by blast
qed

lemma room_at_pos: "k < length (openFiles s) \<Longrightarrow> room (at_pos s k p) k bs = room s k bs"
  by (simp add: room_def at_pos_file) (simp add: at_pos_def)

text \<open>The directory entry of a new file stays what it is until the file is closed.\<close>

definition new_file :: "fs \<Rightarrow> nat \<Rightarrow> u8 list \<Rightarrow> nat \<Rightarrow> bool" where
  "new_file s k name b \<longleftrightarrow> rdm (flash s) (dirent (openFiles s ! k)) 24 = new_entry name b \<and> length name = 16 \<and> b < 65536"

lemma new_file_move: "k < length (openFiles s) \<Longrightarrow> new_file (at_pos s k p) k name b = new_file s k name b"
  by (simp add: new_file_def at_pos_file)

lemma new_file_write:
  assumes "new_file s k name b" and "untouched s bs s'" and "dirent (openFiles s' ! k) = dirent (openFiles s ! k)"
    and "dirent_in s bs (dirent (openFiles s ! k))"
  shows "new_file s' k name b"
proof -
  let ?d = "dirent (openFiles s ! k)"
  have o: "others s bs (s'\<lparr>openFiles := openFiles s\<rparr>)" using assms(2) by (simp add: untouched_def)
  obtain a where a: "a < fileSystemSize s" "a \<notin> set bs" "\<not> unused a s" "2 * fileSystemSize s \<le> 256 * a"
    "getBlock a s \<le> ?d" "?d + 24 \<le> getBlock a s + 256" using assms(4) by (auto simp: dirent_in_def)
  have "flash s' x = flash s x" if "?d \<le> x" "x < ?d + 24" for x
    using othersD(3) [OF o a(1-4), of "x - getBlock a s"] a(5,6) that by simp
  then have "rdm (flash s') ?d 24 = rdm (flash s) ?d 24" by (rule rdm_cong)
  then show ?thesis using assms(1,3) by (simp add: new_file_def)
qed

subsection \<open>Every operation is that of the specification\<close>

lemma closed_step: "fileHandle f = Inl e \<Longrightarrow> file_step E op (f, s) = Some (Code NOT_SUPPORTED, f, s)"
  by (cases op) (simp_all add: file_append_def file_read_def read_char_def setPosition_def getPosition_def file_close_def)

lemma closed_steps: "fileHandle f = Inl e \<Longrightarrow> file_steps E ops (f, s) = Some (spec_steps ops None, f, s)"
  by (induction ops) (simp_all add: closed_step)

fun op_ok :: "file_op \<Rightarrow> bool" where
  "op_ok (SetPosition q) \<longleftrightarrow> - (2 ^ 31) \<le> q \<and> q < 2 ^ 31"
| "op_ok op \<longleftrightarrow> True"

fun appended :: "file_op list \<Rightarrow> nat" where
  "appended [] = 0"
| "appended (Append bs # ops) = length bs + appended ops"
| "appended (op # ops) = appended ops"

definition keeps :: "fs \<Rightarrow> nat \<Rightarrow> nat \<Rightarrow> nat list \<Rightarrow> u8 list \<Rightarrow> nat \<Rightarrow> u8 list \<Rightarrow> nat \<Rightarrow> nat \<Rightarrow> bool" where
  "keeps s fd k bs c p name b r \<longleftrightarrow> represents s fd k bs c p \<and> new_file s k name b \<and> room s k bs = r"

lemma keeps_move: "keeps s fd k bs c p name b r \<Longrightarrow> q \<le> length c \<Longrightarrow> keeps (at_pos s k q) fd k bs c q name b r"
  using represents_move [of s fd k bs c p q] room_at_pos [of k s q bs] new_file_move [of k s q name b]
  by (simp add: keeps_def) (simp add: represents_def)

lemma append_step:
  assumes "env_ok E" and "cache_size E = 0" and "keeps s fd k bs c p name b r" and "fileHandle f = Inr fd"
    and "data \<noteq> []" and "length data \<le> r" and "length c + length data < 2 ^ 31"
  shows "\<exists>s' bs'. file_append E data f s = Some (Inr (length data), s') \<and>
    keeps s' fd k bs' (c @ data) (length c + length data) name b (r - length data)"
proof -
  let ?t = "at_pos s k (length c)"
  have rp: "represents s fd k bs c p" using assms(3) by (simp add: keeps_def)
  have kt: "keeps ?t fd k bs c (length c) name b r" by (rule keeps_move [OF assms(3)]) simp
  then have t: "represents ?t fd k bs c (length c)" "new_file ?t k name b" "room ?t k bs = r" by (simp_all add: keeps_def)
  have sk: "fs_seek E fd 0 2 s = Some (Inr (length c), ?t)"
    using represents_seek [OF rp, of 0 "int (length c)" 2 E] by simp
  have "length data \<le> room ?t k bs" using t(3) assms(6) by simp
  from represents_write [OF assms(1,2) t(1) assms(5) this assms(7)]
  obtain s' new where s': "fs_write E fd (Some data) ?t = Some (Inr (length data), s')"
    "represents s' fd k (bs @ new) (c @ data) (length c + length data)" "untouched ?t bs s'"
    "room s' k (bs @ new) = room ?t k bs - length data" "dirent (openFiles s' ! k) = dirent (openFiles ?t ! k)" by blast
  have "writable ?t fd k bs" using t(1) at_pos_here [of ?t k "length c"] by (simp add: represents_def)
  then have "dirent_in ?t bs (dirent (openFiles ?t ! k))" by (simp add: writable_def Let_def)
  then have "new_file s' k name b" using new_file_write [OF t(2) s'(3,5)] by blast
  then show ?thesis using sk s' t(3) assms(4) by (auto simp: file_append_def file_write_def keeps_def)
qed

lemma read_step:
  assumes "keeps s fd k bs c p name b r" and "fileHandle f = Inr fd" and "0 < n" and "data = take (nat n) (drop p c)"
  shows "file_read E False n f s = Some (Inr data, at_pos s k (p + length data)) \<and>
    keeps (at_pos s k (p + length data)) fd k bs c (p + length data) name b r"
proof -
  have rp: "represents s fd k bs c p" using assms(1) by (simp add: keeps_def)
  then have "p \<le> length c" by (simp add: represents_def)
  then have "p + length data \<le> length c" using assms(4) by simp
  then show ?thesis
    using represents_read(1) [OF rp assms(3,4)] keeps_move [OF assms(1)] assms(2,3) by (simp add: file_read_def)
qed

lemma seek_step:
  assumes "keeps s fd k bs c p name b r" and "- (2 ^ 31) \<le> offset" and "offset < 2 ^ 31"
    and "q = (if fl = 1 then offset else int p + offset)" and "fl = 1 \<or> fl = 4"
  shows "fs_seek E fd offset fl s =
    (if 0 \<le> q \<and> q \<le> int (length c) then Some (Inr (nat q), at_pos s k (nat q)) else Some (Inl INVALID_PARAMETER, s))"
  using represents_seek [of s fd k bs c p offset q fl E] assms by (auto simp: keeps_def)

lemma close_step:
  assumes "env_ok E" and "keeps s fd k bs c p name b r" and "fileHandle f = Inr fd"
  shows "\<exists>f' s'. file_close E f s = Some (OK, f', s') \<and> fileHandle f' = Inl NO_RESOURCES"
proof -
  have rp: "represents s fd k bs c p" and nf: "new_file s k name b" using assms(2) by (simp_all add: keeps_def)
  note O = represents_open(1) [OF rp, unfolded open_file_def Let_def]
  show ?thesis
    using fs_close_new [OF assms(1), of s fd k "openFiles s ! k" name b] O nf assms(3)
    by (auto simp: new_file_def file_close_def)
qed

lemma open_step:
  assumes "env_ok E" and "cache_size E = 0" and "keeps s fd k bs c p name b r" and "fileHandle f = Inr fd" and "op_ok op"
    and "appended [op] \<le> r" and "length c + appended [op] < 2 ^ 31"
  shows "\<exists>f' s'. file_step E op (f, s) = Some (fst (spec_step op (Some (c, p))), f', s') \<and>
    (case snd (spec_step op (Some (c, p))) of
       None \<Rightarrow> \<exists>e. fileHandle f' = Inl e
     | Some (c', p') \<Rightarrow> f' = f \<and> length c' = length c + appended [op] \<and>
         (\<exists>bs'. keeps s' fd k bs' c' p' name b (r - appended [op])))"
proof (cases op)
  case (Append data)
  show ?thesis
  proof (cases "data = []")
    case True
    have k: "keeps (at_pos s k (length c)) fd k bs c (length c) name b r" by (rule keeps_move [OF assms(3)]) simp
    then have "open_file (at_pos s k (length c)) fd k bs" using represents_open(1) by (auto simp: keeps_def)
    then have w: "fs_write E fd (Some []) (at_pos s k (length c)) = Some (Inl INVALID_PARAMETER, at_pos s k (length c))"
      by (simp add: fs_write_def open_file_def Let_def)
    have "fs_seek E fd 0 2 s = Some (Inr (length c), at_pos s k (length c))"
      using represents_seek [of s fd k bs c p 0 "int (length c)" 2 E] assms(3) by (simp add: keeps_def)
    then show ?thesis using Append True k w assms(4) by (auto simp: file_append_def file_write_def)
  next
    case False
    have l: "length data \<le> r" "length c + length data < 2 ^ 31" using assms(6,7) Append by simp_all
    show ?thesis using append_step [OF assms(1-4) False l] False Append by fastforce
  qed
next
  case (Read n)
  show ?thesis
  proof (cases "0 < n")
    case True
    then show ?thesis using read_step [OF assms(3,4) True refl, of E] Read by auto
  next
    case False
    have "open_file s fd k bs" using represents_open(1) assms(3) by (auto simp: keeps_def)
    then have "file_read E False n f s = Some (Inl INVALID_PARAMETER, s)"
      using False assms(4) by (auto simp: file_read_def fs_read_def open_file_def Let_def)
    then show ?thesis using False Read assms(3) by auto
  qed
next
  case ReadChar
  have p: "p \<le> length c" using assms(3) by (simp add: keeps_def represents_def)
  have d: "(if p < length c then [c ! p] else []) = take (nat 1) (drop p c)"
    using p by (simp add: take_Suc hd_drop_conv_nth)
  show ?thesis
    using read_step [OF assms(3,4) zero_less_one d, of E] assms(4) ReadChar
    by (cases "p < length c") (auto simp: read_char_def)
next
  case (SetPosition q)
  have q: "- (2 ^ 31) \<le> q" "q < 2 ^ 31" using assms(5) SetPosition by simp_all
  have m: "0 \<le> q \<Longrightarrow> q \<le> int (length c) \<Longrightarrow> keeps (at_pos s k (nat q)) fd k bs c (nat q) name b r"
    by (rule keeps_move [OF assms(3)]) simp
  show ?thesis
    using seek_step [OF assms(3) q, of q 1 E] SetPosition assms(3,4) m by (auto simp: setPosition_def)
next
  case GetPosition
  have p: "p \<le> length c" using assms(3) by (simp add: keeps_def represents_def)
  show ?thesis
    using seek_step [OF assms(3), of 0 "int p" 4 E] GetPosition assms(4) p keeps_move [OF assms(3) p]
    by (auto simp: getPosition_def)
next
  case Close
  show ?thesis using close_step [OF assms(1,3,4)] Close by auto
qed

lemma open_steps:
  assumes "env_ok E" and "cache_size E = 0"
  shows "keeps s fd k bs c p name b r \<Longrightarrow> fileHandle f = Inr fd \<Longrightarrow> list_all op_ok ops \<Longrightarrow> appended ops \<le> r \<Longrightarrow>
    length c + appended ops < 2 ^ 31 \<Longrightarrow>
    \<exists>f' s'. file_steps E ops (f, s) = Some (spec_steps ops (Some (c, p)), f', s')"
proof (induction ops arbitrary: s bs c p r)
  case Nil
  then show ?case by simp
next
  case (Cons op ops)
  have a: "appended (op # ops) = appended [op] + appended ops" by (cases op) simp_all
  have l: "op_ok op" "appended [op] \<le> r" "length c + appended [op] < 2 ^ 31" using Cons.prems(3-5) a by simp_all
  obtain f1 s1 where 1: "file_step E op (f, s) = Some (fst (spec_step op (Some (c, p))), f1, s1)"
    "case snd (spec_step op (Some (c, p))) of
       None \<Rightarrow> \<exists>e. fileHandle f1 = Inl e
     | Some (c', p') \<Rightarrow> f1 = f \<and> length c' = length c + appended [op] \<and>
         (\<exists>bs'. keeps s1 fd k bs' c' p' name b (r - appended [op]))"
    using open_step [OF assms Cons.prems(1,2) l] by blast
  show ?case
  proof (cases "snd (spec_step op (Some (c, p)))")
    case None
    then obtain e where "fileHandle f1 = Inl e" using 1(2) by auto
    then show ?thesis using 1(1) None closed_steps [of f1 e E ops s1] by (simp add: split_beta)
  next
    case (Some x)
    obtain c' p' where x: "x = (c', p')" by (cases x)
    then obtain bs' where "f1 = f" "length c' = length c + appended [op]" "keeps s1 fd k bs' c' p' name b (r - appended [op])"
      using 1(2) Some by auto
    moreover have "appended ops \<le> r - appended [op]" using Cons.prems(4) a by linarith
    ultimately obtain f' s' where "file_steps E ops (f, s1) = Some (spec_steps ops (Some (c', p')), f', s')" and "f1 = f"
      using Cons.IH [of s1 bs' c' p' "r - appended [op]"] Cons.prems(2,3,5) a by auto
    then show ?thesis using 1(1) Some x by (simp add: split_beta)
  qed
qed

subsection \<open>Properties\<close>

text \<open>
  C23 A file object opened for reading and writing behaves as a list of bytes with a position: on a file system in
  erased flash, a new file is made, and every sequence of appending, reading, moving and closing that fits gives the
  results of the specification, errors included; once it is closed every operation is refused. (Appending or
  reading no bytes and a position behind the end are refused as invalid parameters, and reading a character at the
  end gives \<open>MICROBIT_NO_DATA\<close>: MicroBitFile.h documents none of these, see the findings.)
\<close>

theorem file_object_refines:
  assumes "env_ok E" and "cache_size E = 0" and "T \<noteq> 0" and "0 < pages" and "n = nat pages * blocksPerPage E"
    and "3 \<le> n" and "n \<le> 4096" and "erased m T (256 * n)" and "valid_name nm" and "length stack = 24"
    and "mode AND MB_CREAT \<noteq> 0" and "mode AND MB_READ \<noteq> 0" and "mode AND MB_WRITE \<noteq> 0" and "list_all op_ok ops" and "appended ops \<le> 256 * (n - (2 * n + 255) div 256 - 1)"
  shows "\<exists>f s f' s'. file_new E m' stack nm mode (Some (fs_new E T pages m)) = Some (f, s) \<and> isValid f \<and>
    file_steps E ops (f, s) = Some (spec_steps ops (Some ([], 0)), f', s')"
proof -
  obtain r m0 where boot: "fs_new E T pages m = booted T n r m0" "formatted (booted T n r m0) r"
    "\<forall>b. r < b \<and> b < n \<longrightarrow> rd16 m0 (T + 2 * b) = MBFS_UNUSED" "\<forall>x. T + r * 256 + 24 \<le> x \<and> x < T + 256 * n \<longrightarrow> m0 x = 255"
    using fs_new_erased [OF assms(1,3-8)] by blast
  have rb: "2 * n \<le> 256 * r" "256 * r < 2 * n + 256"
    using calculateFileTableSize_bounds [of "booted T n r m0" r] assms(6,7) boot(2) by (auto simp: formatted_def Let_def)
  then have "r = (2 * n + 255) div 256" by linarith
  then have room: "appended ops \<le> 256 * (n - r - 1)" using assms(15) by simp
  have "r + 1 < n" using rb assms(6) by linarith
  then have fr: "fresh_fs T n r m0" using assms(3) boot by (simp add: fresh_fs_def)
  define s e a where "s = booted T n r m0" and "e = new_entry (entry_name stack nm) (r + 1)" and "a = T + r * 256"
  define m1 where "m1 = put (put m0 (a + 24) e) (T + 2 * (r + 1)) (le16 (of_nat MBFS_EOF))"
  define f where "f = \<lparr>fdflags = ucast (mode AND NOT MB_CREAT), fdid = 0, seekpos = 0, flength = 0, dirent = a + 24,
    directory = a, cached = []\<rparr>"
  define s1 where "s1 = s\<lparr>flash := m1, lastBlockAllocated := r + 1, openFiles := [f]\<rparr>"
  have op: "fs_open E stack (Some nm) mode s = Some (Inr 0, s1)"
    unfolding s1_def by (rule fresh_create [OF assms(1) fr assms(9-11) a_def s_def e_def m1_def f_def])
  have f': "fdid f = 0" "seekpos f = 0" "flength f = 0" "dirent f = a + 24" "cached f = []" by (simp_all add: f_def)
  note C = fresh_created [OF fr assms(9,10) a_def s_def e_def m1_def s1_def f']
  have f1: "openFiles s1 = [f]" "flash s1 = m1" by (simp_all add: s1_def)
  have "at_pos s1 0 0 = s1" using at_pos_here [of s1 0 0] f1 f'(2) by simp
  moreover have "file_bytes s1 0 [r + 1] = []" by (simp add: file_bytes_def f1 f'(3))
  ultimately have "represents s1 0 0 [r + 1] [] 0" using C(1) f1 f'(2) by (simp add: represents_def)
  moreover have "new_file s1 0 (entry_name stack nm) (r + 1)"
    using C(4) f1 f'(4) length_entry_name [OF assms(10)] assms(9) rb assms(7)
    by (simp add: new_file_def e_def valid_name_def)
  ultimately have k: "keeps s1 0 0 [r + 1] [] 0 (entry_name stack nm) (r + 1) (256 * (n - r - 1))"
    using C(2) by (simp add: keeps_def)
  have "256 * (n - r - 1) < 2 ^ 31" using assms(7) by simp
  then have "length [] + appended ops < 2 ^ 31" using room by simp
  from open_steps [OF assms(1,2) k _ assms(14) room this] obtain f'' s'' where
    "file_steps E ops (\<lparr>fileHandle = Inr 0, fileName = nm\<rparr>, s1) = Some (spec_steps ops (Some ([], 0)), f'', s'')" by fastforce
  then show ?thesis using op boot(1) by (simp add: file_new_def default_fs_def s_def isValid_def)
qed

theorem file_object_refines_witness:
  "\<exists>f s f' s'. file_new demo_env (\<lambda>_. 0) (replicate 24 0) [97, 98] 7 (Some (fs_new demo_env 1024 1 (\<lambda>_. 255))) = Some (f, s) \<and>
    file_steps demo_env [Append [1, 2, 3], SetPosition 1, Read 5, ReadChar, Append [4], SetPosition 9, GetPosition, Close, ReadChar] (f, s)
    = Some ([Num 3, Num 1, Bytes [2, 3], Code NO_DATA, Num 1, Code INVALID_PARAMETER, Num 4, Code OK, Code NOT_SUPPORTED], f', s')"
proof -
  let ?ops = "[Append [1, 2, 3], SetPosition 1, Read 5, ReadChar, Append [4], SetPosition 9, GetPosition, Close, ReadChar]"
  have "\<exists>f s f' s'. file_new demo_env (\<lambda>_. 0) (replicate 24 0) [97, 98] 7 (Some (fs_new demo_env 1024 1 (\<lambda>_. 255))) = Some (f, s) \<and>
    isValid f \<and> file_steps demo_env ?ops (f, s) = Some (spec_steps ?ops (Some ([], 0)), f', s')"
    by (rule file_object_refines [where n = 4, OF demo_env_ok])
      (simp_all add: demo_env_def blocksPerPage_def erased_def valid_name_def isValidFilename_def MBFS_MAGIC_def)
  moreover have "spec_steps ?ops (Some ([], 0)) =
    [Num 3, Num 1, Bytes [2, 3], Code NO_DATA, Num 1, Code INVALID_PARAMETER, Num 4, Code OK, Code NOT_SUPPORTED]" by simp
  ultimately show ?thesis by auto
qed

end
