(* ===== verification/FileSystemRemove.thy ===== *)
theory FileSystemRemove
  imports FileSystemSession
begin

text \<open>
  What removing a file does: \<open>remove\<close> on a file of the root directory, whose chain of blocks is deleted
  entry by entry of the table.
\<close>

subsection \<open>Deleting a chain\<close>

lemma le16_zero [simp]: "le16 0 = [0, 0]"
  by (simp add: le16_def)

lemma write_zeros: "env_ok E \<Longrightarrow> fs_flash_write E a [0, 0] 0 s = s\<lparr>flash := put (flash s) a [0, 0]\<rparr>"
  by (rule fs_flash_write_fits) (auto simp: less_Suc_eq)

lemma next_put_zeros:
  "getNextFileBlock c (s\<lparr>flash := put (flash s) (fileSystemTable s + 2 * b) [0, 0]\<rparr>) =
    (if c = b then MBFS_DELETED else getNextFileBlock c s)"
proof (cases "c = b")
  case True
  then show ?thesis by (simp add: getNextFileBlock_def rd16_def put_def)
next
  case False
  then have "2 * c + 1 < 2 * b \<or> 2 * b + 2 \<le> 2 * c" by linarith
  then show ?thesis using False rd16_put_out [of "fileSystemTable s + 2 * c" "fileSystemTable s + 2 * b" "[0, 0]" "flash s"]
    by (simp add: getNextFileBlock_def)
qed

lemma delete_chain_spec:
  assumes "env_ok E" and "linked s bs" and "getNextFileBlock (last bs) s = MBFS_EOF" and "distinct bs" and "MBFS_EOF \<notin> set bs"
  shows "\<exists>m. delete_chain E (hd bs) s = Some (s\<lparr>flash := m\<rparr>) \<and>
    (\<forall>c. getNextFileBlock c (s\<lparr>flash := m\<rparr>) = (if c \<in> set bs then MBFS_DELETED else getNextFileBlock c s)) \<and>
    (\<forall>x. (\<forall>b \<in> set bs. x \<noteq> fileSystemTable s + 2 * b \<and> x \<noteq> fileSystemTable s + 2 * b + 1) \<longrightarrow> m x = flash s x)"
  using assms(2-5)
proof (induction bs arbitrary: s)
  case Nil
  then show ?case by simp
next
  case (Cons b bs)
  let ?m = "put (flash s) (fileSystemTable s + 2 * b) [0, 0]"
  let ?s = "s\<lparr>flash := ?m\<rparr>"
  have w: "fileTableWrite E b MBFS_DELETED s = ?s" using write_zeros [OF assms(1)] by (simp add: fileTableWrite_def)
  have out: "?m x = flash s x" if "x \<noteq> fileSystemTable s + 2 * b" "x \<noteq> fileSystemTable s + 2 * b + 1" for x
    using that by (auto intro!: put_out)
  have step: "delete_chain E b s = delete_chain E (getNextFileBlock b s) ?s"
    using Cons.prems(4) w by (subst delete_chain.simps) auto
  show ?case
  proof (cases bs)
    case Nil
    then have "delete_chain E b s = Some ?s" using step Cons.prems(2) by (simp add: delete_chain.simps)
    then show ?thesis using Nil next_put_zeros [of _ s b] out by (intro exI [of _ ?m]) auto
  next
    case (Cons c cs)
    have nb: "b \<notin> set bs" "distinct bs" "MBFS_EOF \<notin> set bs" "last (b # bs) = last bs" "last bs \<in> set bs"
      using Cons.prems(3,4) Cons by auto
    have l: "linked s bs" "getNextFileBlock b s = hd bs" using Cons.prems(1) Cons by simp_all
    have same: "getNextFileBlock x ?s = getNextFileBlock x s" if "x \<in> set bs" for x
      using next_put_zeros [of x s b] that nb(1) by auto
    have "linked ?s bs" using linked_cong [OF l(1), of ?s] same in_set_butlastD by fastforce
    moreover have "getNextFileBlock (last bs) ?s = MBFS_EOF" using same [OF nb(5)] Cons.prems(2) nb(4) by simp
    ultimately obtain m where m: "delete_chain E (hd bs) ?s = Some (?s\<lparr>flash := m\<rparr>)"
      "\<forall>c. getNextFileBlock c (?s\<lparr>flash := m\<rparr>) = (if c \<in> set bs then MBFS_DELETED else getNextFileBlock c ?s)"
      "\<forall>x. (\<forall>b \<in> set bs. x \<noteq> fileSystemTable ?s + 2 * b \<and> x \<noteq> fileSystemTable ?s + 2 * b + 1) \<longrightarrow> m x = flash ?s x"
      using Cons.IH [of ?s] nb(2,3) by blast
    show ?thesis
      using m step l(2) next_put_zeros [of _ s b] out by (intro exI [of _ m]) auto
  qed
qed

lemma find_dirent_at:
  assumes "\<forall>i < j. \<not> matches nm s (getBlock b s + 24 * i)" and "matches nm s (getBlock b s + 24 * j)" and "j < 10" and "k \<le> j"
  shows "find_dirent nm b k s = Some (getBlock b s + 24 * j)"
  using assms(4)
proof (induction "j - k" arbitrary: k)
  case 0
  then show ?case using find_dirent_step [of j nm b s] assms(2,3) by simp
next
  case (Suc d)
  then have "k < j" by simp
  then show ?case using Suc.hyps(1) [of "k + 1"] Suc.hyps(2) find_dirent_step [of k nm b s] assms(1,3) by simp
qed

subsection \<open>Removing a file\<close>

text \<open>A file in the root directory: entry \<open>j\<close> of its block, and the chain of blocks that holds its bytes.\<close>

definition stored_file :: "fs \<Rightarrow> u8 list \<Rightarrow> nat \<Rightarrow> nat list \<Rightarrow> bool" where
  "stored_file s nm j bs \<longleftrightarrow> 0 < j \<and> j < 10 \<and> matches nm s (rootDirectory s + 24 * j) \<and>
     (\<forall>i < 10. i \<noteq> j \<longrightarrow> \<not> matches nm s (rootDirectory s + 24 * i)) \<and>
     dirent_first (flash s) (rootDirectory s + 24 * j) = hd bs \<and> linked s bs \<and> getNextFileBlock (last bs) s = MBFS_EOF \<and>
     distinct bs \<and> (\<forall>b \<in> set bs. fileSystemTableSize s < b \<and> b < fileSystemSize s)"

lemma root_lookup:
  assumes "formatted (booted T n r m) r" and "T \<noteq> 0" and "valid_name nm" and "s = booted T n r m"
  shows "getDirectoryOf nm s = Some (T + r * 256)"
    and "getDirectoryEntry nm (T + r * 256) s = find_dirent nm r 0 s" and "r < n" and "n \<le> 4096" and "2 * n \<le> 256 * r"
    and "getBlock b s = T + b * 256" and "getNextFileBlock r s = MBFS_EOF"
proof -
  show gb: "getBlock b s = T + b * 256" for b by (simp add: getBlock_def assms(4))
  note F = assms(1) [unfolded formatted_def Let_def, folded assms(4), unfolded gb]
  show n: "r < n" "n \<le> 4096" "2 * n \<le> 256 * r" "getNextFileBlock r s = MBFS_EOF" using F by (simp_all add: assms(4))
  have v: "isValidFilename (Some nm)" "47 \<notin> set nm" "length nm \<le> 15" using assms(3) by (simp_all add: valid_name_def)
  show "getDirectoryOf nm s = Some (T + r * 256)"
    using valid_first [OF v(1)] walk_path_plain [OF v(2), of "[]"] v(3) by (simp add: getDirectoryOf_def assms(4))
  have "rdm (flash s) (T + r * 256) 24 = magic_entry r n" using F by (simp add: assms(4))
  from entry_fields(2) [OF this length_magic] n show "getDirectoryEntry nm (T + r * 256) s = find_dirent nm r 0 s"
    using assms(2) by (simp add: getDirectoryEntry_def basename_plain [OF v(2)])
qed

lemma open_root_file:
  assumes "formatted (booted T n r m) r" and "T \<noteq> 0" and "valid_name nm" and "s = booted T n r m" and "stored_file s nm j bs"
  shows "\<exists>f. fs_open E stack (Some nm) MB_READ s = Some (Inr 0, s\<lparr>openFiles := [f]\<rparr>) \<and> fdid f = 0 \<and>
    dirent f = T + r * 256 + 24 * j"
proof -
  note L = root_lookup [OF assms(1-4)]
  note S = assms(5) [unfolded stored_file_def]
  have v: "isValidFilename (Some nm)" using assms(3) by (simp add: valid_name_def)
  have root: "rootDirectory s = T + r * 256" by (simp add: assms(4))
  have j: "j < 10" and yes: "matches nm s (getBlock r s + 24 * j)" and no: "\<forall>i < j. \<not> matches nm s (getBlock r s + 24 * i)"
    using S unfolding L(6) root by auto
  have "find_dirent nm r 0 s = Some (T + r * 256 + 24 * j)" using find_dirent_at [OF no yes j, of 0] by (simp add: L(6))
  then have "getDirectoryEntry nm (T + r * 256) s = Some (T + r * 256 + 24 * j)" using L(2) by simp
  then show ?thesis
    using v L(1) assms(2) by (auto simp: fs_open_def choose_id.simps Let_def assms(4) cong: if_cong)
qed

lemma open_root_missing:
  assumes "formatted (booted T n r m) r" and "T \<noteq> 0" and "valid_name nm" and "s = booted T n r m"
    and "\<forall>i < 10. \<not> matches nm s (T + r * 256 + 24 * i)" and "fl AND MB_CREAT = 0"
  shows "fs_open E stack (Some nm) fl s = Some (Inl INVALID_PARAMETER, s)"
proof -
  note L = root_lookup [OF assms(1-4)]
  have v: "isValidFilename (Some nm)" using assms(3) by (simp add: valid_name_def)
  have "find_dirent nm r 0 s = Some 0" using find_dirent_none [of nm s r 0] assms(5) L(6,7) by simp
  then have "getDirectoryEntry nm (T + r * 256) s = Some 0" using L(2) by simp
  then show ?thesis
    using v L(1) assms(2,6) by (auto simp: fs_open_def choose_id.simps Let_def assms(4) cong: if_cong)
qed

lemma matches_cong:
  "(\<And>x. d \<le> x \<Longrightarrow> x < d + 20 \<Longrightarrow> flash s' x = flash s x) \<Longrightarrow> length nm \<le> 15 \<Longrightarrow> matches nm s' d = matches nm s d"
proof -
  assume e: "\<And>x. d \<le> x \<Longrightarrow> x < d + 20 \<Longrightarrow> flash s' x = flash s x" and l: "length nm \<le> 15"
  have "dirent_flags (flash s') d = dirent_flags (flash s) d"
    unfolding dirent_flags_def using rd16_cong [of "flash s'" "d + 18" "flash s"] e by simp
  moreover have "rdm (flash s') d (length nm + 1) = rdm (flash s) d (length nm + 1)" by (rule rdm_cong) (use e l in simp)
  ultimately show ?thesis by (simp add: matches_def streq_def)
qed

text \<open>
  C20 Removing a file of the root directory frees its blocks and its name: every block of its chain is
  marked deleted, the name no longer opens, and nothing else in flash changes, neither the table entry
  of another block nor the bytes of any block, apart from the flags of the file's entry.
\<close>

theorem fs_remove_forgets:
  assumes "env_ok E" and "formatted (booted T n r m) r" and "T \<noteq> 0" and "valid_name nm" and "a = T + r * 256 + 24 * j"
    and "stored_file (booted T n r m) nm j bs" and "fl AND MB_CREAT = 0"
  shows "\<exists>m'. fs_remove E stack (Some nm) (booted T n r m) = Some (OK, booted T n r m') \<and>
    fs_open E stack2 (Some nm) fl (booted T n r m') = Some (Inl INVALID_PARAMETER, booted T n r m') \<and>
    (\<forall>b \<in> set bs. getNextFileBlock b (booted T n r m') = MBFS_DELETED) \<and>
    (\<forall>x. (\<forall>b \<in> set bs. x \<noteq> T + 2 * b \<and> x \<noteq> T + 2 * b + 1) \<and> x \<noteq> a + 18 \<and> x \<noteq> a + 19 \<longrightarrow> m' x = m x)"
proof -
  define s where "s = booted T n r m"
  note S = assms(6) [folded s_def, unfolded stored_file_def]
  note L = root_lookup [OF assms(2-4) s_def]
  have len: "length nm \<le> 15" using assms(4) by (simp add: valid_name_def)
  obtain f where f: "fs_open E stack (Some nm) MB_READ s = Some (Inr 0, s\<lparr>openFiles := [f]\<rparr>)" "fdid f = 0" "dirent f = a"
    using open_root_file [OF assms(2-4) s_def assms(6) [folded s_def]] assms(5) by blast
  have bs: "\<forall>b \<in> set bs. r < b \<and> b < n" "linked s bs" "getNextFileBlock (last bs) s = MBFS_EOF" "distinct bs"
    and root: "rootDirectory s = T + r * 256" and j: "0 < j" "j < 10"
    using S by (simp_all add: s_def)
  have first: "dirent_first (flash s) a = hd bs" using S unfolding root assms(5) by blast
  have "MBFS_EOF \<notin> set bs" using bs(1) L(4) by auto
  then obtain m1 where m1: "delete_chain E (hd bs) s = Some (s\<lparr>flash := m1\<rparr>)"
    "\<forall>c. getNextFileBlock c (s\<lparr>flash := m1\<rparr>) = (if c \<in> set bs then MBFS_DELETED else getNextFileBlock c s)"
    "\<forall>x. (\<forall>b \<in> set bs. x \<noteq> T + 2 * b \<and> x \<noteq> T + 2 * b + 1) \<longrightarrow> m1 x = m x"
    using delete_chain_spec [OF assms(1) bs(2-4)] by (auto simp: s_def)
  define m' where "m' = put m1 (a + 18) [0, 0]"
  have s': "booted T n r m' = s\<lparr>flash := put m1 (a + 18) [0, 0]\<rparr>" by (simp add: s_def booted_def m'_def)
  have same: "s\<lparr>openFiles := remove_nth 0 [f]\<rparr> = s" by (simp add: s_def booted_def remove_nth_def)
  have rem: "fs_remove E stack (Some nm) s = Some (OK, booted T n r m')"
    unfolding s' using f m1(1) first same write_zeros [OF assms(1)] by (simp add: fs_remove_def Let_def)
  have root_far: "T + 2 * b + 1 < T + r * 256" if "b \<in> set bs" for b using bs(1) that L(5) by auto
  have m'_out: "m' x = m1 x" if "x \<noteq> a + 18" "x \<noteq> a + 19" for x using that unfolding m'_def by (intro put_out) auto
  have old: "m' x = m x" if "\<forall>b \<in> set bs. x \<noteq> T + 2 * b \<and> x \<noteq> T + 2 * b + 1" "x \<noteq> a + 18" "x \<noteq> a + 19" for x
    using m1(3) m'_out that by auto
  have dir: "m' x = m x" if "T + r * 256 \<le> x" "x \<noteq> a + 18" "x \<noteq> a + 19" for x
    by (rule old) (use that root_far in fastforce)+
  have "\<not> matches nm (booted T n r m') (T + r * 256 + 24 * i)" if i: "i < 10" for i
  proof (cases "i = j")
    case True
    have "m' (a + 18) = 0" "m' (a + 18 + 1) = 0" by (simp_all add: m'_def put_def)
    then have "dirent_flags m' a = 0" by (simp add: dirent_flags_def rd16_def)
    then show ?thesis using True by (simp add: matches_def assms(5))
  next
    case False
    then have "matches nm (booted T n r m') (T + r * 256 + 24 * i) = matches nm s (T + r * 256 + 24 * i)"
      using dir assms(5) by (intro matches_cong [OF _ len]) (auto simp: s_def)
    then show ?thesis using S False i root by simp
  qed
  moreover have "formatted (booted T n r m') r"
  proof -
    note F = assms(2) [unfolded formatted_def Let_def]
    have t: "m' (T + 2 * b + i) = m (T + 2 * b + i)" if "b \<le> r" "i < 2" for b i
      by (rule old) (use that bs(1) L(5) assms(5) j in fastforce)+
    have nx: "getNextFileBlock b (booted T n r m') = getNextFileBlock b (booted T n r m)" if "b \<le> r" for b
      using t [OF that, of 0] t [OF that, of 1] by (simp add: getNextFileBlock_def rd16_def)
    have rd: "rdm m' (T + r * 256) 24 = rdm m (T + r * 256) 24" by (rule rdm_cong, rule dir) (use assms(5) j in auto)
    have c: "calculateFileTableSize (booted T n r m') = calculateFileTableSize (booted T n r m)"
      by (simp add: calculateFileTableSize_def)
    have F1: "\<forall>b < r. getNextFileBlock b (booted T n r m') = r" "getNextFileBlock r (booted T n r m') = MBFS_EOF"
      "rdm m' (T + r * 256) 24 = magic_entry r n"
      using F nx rd unfolding booted_simps getBlock_def by auto
    then show ?thesis using F unfolding formatted_def Let_def booted_simps getBlock_def c by blast
  qed
  ultimately have op: "fs_open E stack2 (Some nm) fl (booted T n r m') = Some (Inl INVALID_PARAMETER, booted T n r m')"
    using open_root_missing [OF _ assms(3,4) refl _ assms(7)] by blast
  have "getNextFileBlock b (booted T n r m') = MBFS_DELETED" if b: "b \<in> set bs" for b
  proof -
    have "T + 2 * b + 1 < a + 18" using root_far [OF b] assms(5) by simp
    then have "m' (T + 2 * b) = m1 (T + 2 * b)" "m' (T + 2 * b + 1) = m1 (T + 2 * b + 1)" using m'_out by auto
    then have "getNextFileBlock b (booted T n r m') = getNextFileBlock b (s\<lparr>flash := m1\<rparr>)"
      by (simp add: getNextFileBlock_def rd16_def s_def)
    then show ?thesis using m1(2) b by simp
  qed
  then show ?thesis using rem op old unfolding s_def by blast
qed

definition demo_flash :: mem where
  "demo_flash = put (put (put (\<lambda>_. 255) 1024 [1, 0, 255, 239, 255, 239]) 1280 (magic_entry 1 4))
     1304 (dirent_bytes ([97, 98] @ replicate 14 0) 2 ENTRY_VALID 5)"

lemma demo_flash_formatted: "formatted (booted 1024 4 1 demo_flash) 1"
proof -
  have "rdm demo_flash 1280 24 = magic_entry 1 4"
  proof -
    have "length (magic_entry 1 4) = 24" by (simp add: MBFS_MAGIC_def)
    then have "rdm (put m 1280 (magic_entry 1 4)) 1280 24 = magic_entry 1 4" for m
      using rdm_put_same [of m 1280 "magic_entry 1 4"] by (simp only:)
    then show ?thesis unfolding demo_flash_def by (subst rdm_put_disj) simp_all
  qed
  moreover have "getNextFileBlock 0 (booted 1024 4 1 demo_flash) = 1" "getNextFileBlock 1 (booted 1024 4 1 demo_flash) = MBFS_EOF"
    by (simp_all add: getNextFileBlock_def rd16_def demo_flash_def put_def)
  ultimately show ?thesis by (simp add: formatted_def getBlock_def calculateFileTableSize_def)
qed

lemma demo_flash_stored: "stored_file (booted 1024 4 1 demo_flash) [97, 98] 1 [2]"
proof -
  let ?s = "booted 1024 4 1 demo_flash"
  have e: "rdm demo_flash 1304 24 = dirent_bytes ([97, 98] @ replicate 14 0) 2 ENTRY_VALID 5"
    using rdm_put_same [of _ 1304 "dirent_bytes ([97, 98] @ replicate 14 0) 2 ENTRY_VALID 5"] by (simp add: demo_flash_def)
  note F = entry_fields [OF e]
  have "take 3 (rdm demo_flash 1304 16) = [97, 98, 0]" using F(1) by (simp add: numeral_3_eq_3)
  then have "streq demo_flash 1304 [97, 98]" by (simp add: streq_def take_rdm eval_nat_numeral)
  then have "matches [97, 98] ?s 1304" using F(3) by (simp add: matches_def)
  moreover have "\<not> matches [97, 98] ?s (1280 + 24 * i)" if "i < 10" "i \<noteq> 1" for i
  proof -
    have "demo_flash (1280 + 24 * i) \<noteq> 97"
    proof (cases "i = 0")
      case False
      then have "1304 + 24 \<le> 1280 + 24 * i" using that by simp
      then show ?thesis by (simp add: demo_flash_def put_def MBFS_MAGIC_def)
    qed (simp add: demo_flash_def put_def dirent_bytes_def MBFS_MAGIC_def)
    then show ?thesis using streq_nth [of demo_flash "1280 + 24 * i" "[97, 98]" 0] by (auto simp: matches_def)
  qed
  moreover have "getNextFileBlock 2 ?s = MBFS_EOF" by (simp add: getNextFileBlock_def rd16_def demo_flash_def put_def)
  ultimately show ?thesis using F(2) by (simp add: stored_file_def)
qed

theorem fs_remove_forgets_witness:
  "\<exists>m'. fs_remove demo_env [] (Some [97, 98]) (booted 1024 4 1 demo_flash) = Some (OK, booted 1024 4 1 m') \<and>
    fs_open demo_env [] (Some [97, 98]) 1 (booted 1024 4 1 m') = Some (Inl INVALID_PARAMETER, booted 1024 4 1 m') \<and>
    getNextFileBlock 2 (booted 1024 4 1 m') = MBFS_DELETED"
proof -
  have "valid_name [97, 98]" by (simp add: valid_name_def isValidFilename_def MBFS_MAGIC_def)
  from fs_remove_forgets [OF demo_env_ok demo_flash_formatted _ this refl demo_flash_stored, of 1 "[]" "[]"]
  show ?thesis by auto
qed

end
