(* ===== verification/MemoryMap.thy ===== *)
theory MemoryMap
  imports MicroBitFlash
begin

text \<open>
  \<open>MicroBitMemoryMap\<close> (\<open>source/MicroBitMemoryMap.cpp\<close>): the table of the regions of the program in
  flash, found by the constructor from the marks MakeCode and MicroPython leave behind the program.
  Addresses and lengths are the values of 32-bit variables. The checksum of a version string is
  computed by the vendor's library, an argument of the model. \<open>None\<close> is a write outside the table. The flash starts with the
  SoftDevice and the runtime, more than the 4112 bytes the longest table of records takes, so that
  addresses in front of a mark are differences of natural numbers.
\<close>

abbreviation NUMBER_OF_REGIONS :: nat where "NUMBER_OF_REGIONS \<equiv> 3"
abbreviation REGION_SD :: nat where "REGION_SD \<equiv> 0"
abbreviation REGION_CODAL :: nat where "REGION_CODAL \<equiv> 1"
abbreviation REGION_MAKECODE :: nat where "REGION_MAKECODE \<equiv> 2"
abbreviation REGION_PYTHON :: nat where "REGION_PYTHON \<equiv> 3"
abbreviation HASH_TYPE_POINTER :: u8 where "HASH_TYPE_POINTER \<equiv> 2"
abbreviation MAX_STRING_LENGTH :: nat where "MAX_STRING_LENGTH \<equiv> 100"

record region =
  regionId :: nat
  startAddress :: nat
  endAddress :: nat
  rhash :: "u8 list"

record memory_map =
  regionCount :: nat
  memoryMap :: "region list"

record layout_record =
  rec_id :: nat
  ht :: u8
  reg_page :: nat
  reg_len :: nat
  hash_data :: "u8 list"

text \<open>The end of the program, the size of a page and the ends of the application's flash.\<close>

record map_env =
  FLASH_PROGRAM_END :: nat
  PAGE_SIZE :: nat
  SCRATCH_PAGE :: nat
  APP_REGION_START :: nat
  APP_REGION_END :: nat
  crc32_compute :: "u8 list \<Rightarrow> u32"

definition no_region :: region where
  "no_region = \<lparr>regionId = 0, startAddress = 0, endAddress = 0, rhash = replicate 8 0\<rparr>"

definition map_empty :: memory_map where
  "map_empty = \<lparr>regionCount = 0, memoryMap = replicate NUMBER_OF_REGIONS no_region\<rparr>"

text \<open>The hash of a pushed region is not stored.\<close>

definition pushRegion :: "region \<Rightarrow> memory_map \<Rightarrow> code \<times> memory_map" where
  "pushRegion r s =
     (if regionCount s = NUMBER_OF_REGIONS then (NO_RESOURCES, s)
      else (OK, s\<lparr>memoryMap := (memoryMap s)[regionCount s := (memoryMap s ! regionCount s)
                    \<lparr>startAddress := startAddress r, endAddress := endAddress r, regionId := regionId r\<rparr>],
                  regionCount := regionCount s + 1\<rparr>))"

fun find_region :: "nat \<Rightarrow> region list \<Rightarrow> nat" where
  "find_region k [] = 0"
| "find_region k (r # rs) = (if regionId r \<noteq> k then Suc (find_region k rs) else 0)"

definition updateRegion :: "region \<Rightarrow> memory_map \<Rightarrow> code \<times> memory_map" where
  "updateRegion r s =
     (let i = find_region (regionId r) (memoryMap s) in
      if i = NUMBER_OF_REGIONS then (NO_RESOURCES, s)
      else (OK, s\<lparr>memoryMap := (memoryMap s)[i := r]\<rparr>))"

definition read_record :: "mem \<Rightarrow> nat \<Rightarrow> layout_record" where
  "read_record m a = \<lparr>rec_id = unat (m a), ht = m (a + 1), reg_page = rd16 m (a + 2), reg_len = rd32 m (a + 4),
     hash_data = rdm m (a + 8) 8\<rparr>"

text \<open>The first word of the hash data as an address, and the string there.\<close>

definition hash_pointer :: "u8 list \<Rightarrow> nat" where
  "hash_pointer bs = rd32 (\<lambda>i. bs ! i) 0"

definition version_string :: "mem \<Rightarrow> nat \<Rightarrow> u8 list" where
  "version_string m a = takeWhile (\<lambda>c. c \<noteq> 0) (rdm m a MAX_STRING_LENGTH)"

definition processRecord :: "map_env \<Rightarrow> mem \<Rightarrow> nat \<Rightarrow> memory_map \<Rightarrow> (code \<times> memory_map) option" where
  "processRecord E m address s =
     (let r = read_record m address in
      if rec_id r > NUMBER_OF_REGIONS then Some (INVALID_PARAMETER, s)
      else
        let start = (reg_page r * PAGE_SIZE E) mod 2 ^ 32;
            hash = (if ht r = HASH_TYPE_POINTER
                    then le32 (crc32_compute E (version_string m (hash_pointer (hash_data r)))) @ [0, 0, 0, 0]
                    else hash_data r)
        in if rec_id r = 0 then None
           else Some (OK, s\<lparr>memoryMap := (memoryMap s)[rec_id r - 1 :=
                  \<lparr>regionId = rec_id r, startAddress = start, endAddress = (start + reg_len r) mod 2 ^ 32,
                   rhash = hash\<rparr>]\<rparr>))"

fun process_records :: "map_env \<Rightarrow> mem \<Rightarrow> nat \<Rightarrow> nat \<Rightarrow> nat \<Rightarrow> memory_map \<Rightarrow> memory_map option" where
  "process_records E m a i 0 s = Some s"
| "process_records E m a i (Suc n) s =
     (case processRecord E m (a - (2 + i) * 16) s of
        None \<Rightarrow> None
      | Some (e, s') \<Rightarrow> process_records E m a (i + 1) n s')"

definition pxt_magic :: "mem \<Rightarrow> nat \<Rightarrow> bool" where
  "pxt_magic m a \<longleftrightarrow> rd32 m a = 0x923B8E70 \<and> rd32 m (a + 4) = 0x41A815C6 \<and>
     rd32 m (a + 8) = 0xC96698C4 \<and> rd32 m (a + 12) = 0x9751EE75"

definition upy_magic :: "mem \<Rightarrow> nat \<Rightarrow> bool" where
  "upy_magic m a \<longleftrightarrow> rd32 m (a - 16) = 0x597F30FE \<and> rd32 m (a - 4) = 0xC1B1D79D"

definition set_pxt :: "map_env \<Rightarrow> mem \<Rightarrow> nat \<Rightarrow> memory_map \<Rightarrow> memory_map" where
  "set_pxt E m a s =
     (let e = FLASH_PROGRAM_END E;
          reg = (\<lambda>k from to. \<lparr>regionId = k, startAddress = from, endAddress = to, rhash = []\<rparr>);
          s1 = snd (pushRegion (reg REGION_SD 0 (APP_REGION_START E)) s);
          s2 = snd (pushRegion (reg REGION_CODAL (APP_REGION_START E) e) s1);
          s3 = snd (pushRegion (reg REGION_MAKECODE ((e + (PAGE_SIZE E - e mod PAGE_SIZE E)) mod 2 ^ 32) (APP_REGION_END E)) s2);
          rs = memoryMap s3
      in s3\<lparr>memoryMap := rs[1 := (rs ! 1)\<lparr>rhash := rdm m (a + 16) 8\<rparr>,
                             2 := (rs ! 2)\<lparr>rhash := rdm m (a + 24) 8, startAddress := a\<rparr>]\<rparr>)"

function search_pages :: "map_env \<Rightarrow> mem \<Rightarrow> nat \<Rightarrow> memory_map \<Rightarrow> memory_map option" where
  "search_pages E m a s =
     (if a < SCRATCH_PAGE E \<and> 0 < PAGE_SIZE E then
        if pxt_magic m a then Some (set_pxt E m a s)
        else
          case (if upy_magic m a then process_records E m a 0 (unat (m (a - 8))) s else Some s) of
            None \<Rightarrow> None
          | Some s' \<Rightarrow> search_pages E m (a + PAGE_SIZE E) s'
      else Some s)"
  by pat_completeness auto
termination by (relation "measure (\<lambda>(E, m, a, s). SCRATCH_PAGE E - a)") auto

declare search_pages.simps [simp del]

definition findHashes :: "map_env \<Rightarrow> mem \<Rightarrow> memory_map \<Rightarrow> memory_map option" where
  "findHashes E m s =
     (let add = FLASH_PROGRAM_END E;
          r = add mod PAGE_SIZE E
      in search_pages E m (if r \<noteq> 0 then add + (PAGE_SIZE E - r) else add) s)"

definition map_new :: "map_env \<Rightarrow> mem \<Rightarrow> memory_map option" where
  "map_new E m = findHashes E m map_empty"

subsection \<open>Searching the pages\<close>

lemma search_pages_stop: "SCRATCH_PAGE E \<le> b \<Longrightarrow> search_pages E m b s = Some s"
  by (subst search_pages.simps) simp

lemma search_pages_skip:
  assumes "0 < PAGE_SIZE E" and "\<forall>j < n. \<not> pxt_magic m (b + j * PAGE_SIZE E) \<and> \<not> upy_magic m (b + j * PAGE_SIZE E)"
  shows "search_pages E m b s = search_pages E m (b + n * PAGE_SIZE E) s"
  using assms(2)
proof (induction n arbitrary: b)
  case (Suc n)
  have "\<not> pxt_magic m (b + PAGE_SIZE E + j * PAGE_SIZE E) \<and> \<not> upy_magic m (b + PAGE_SIZE E + j * PAGE_SIZE E)"
    if "j < n" for j using Suc.prems [rule_format, of "Suc j"] that by (simp add: ac_simps)
  then have r: "search_pages E m (b + PAGE_SIZE E) s = search_pages E m (b + PAGE_SIZE E + n * PAGE_SIZE E) s"
    using Suc.IH by blast
  have b: "\<not> pxt_magic m b" "\<not> upy_magic m b" using Suc.prems [rule_format, of 0] by simp_all
  show ?case
  proof (cases "b < SCRATCH_PAGE E")
    case True
    then show ?thesis using b r assms(1) by (subst search_pages.simps) (simp add: ac_simps)
  next
    case False
    then show ?thesis by (simp add: search_pages_stop)
  qed
qed simp

lemma search_pages_end:
  assumes "0 < PAGE_SIZE E" and "\<forall>j. b + j * PAGE_SIZE E < SCRATCH_PAGE E \<longrightarrow>
    \<not> pxt_magic m (b + j * PAGE_SIZE E) \<and> \<not> upy_magic m (b + j * PAGE_SIZE E)"
  shows "search_pages E m b s = Some s"
proof -
  have "\<exists>n. SCRATCH_PAGE E \<le> b + n * PAGE_SIZE E \<and> (\<forall>j < n. b + j * PAGE_SIZE E < SCRATCH_PAGE E)"
  proof -
    define n where "n = (LEAST n. SCRATCH_PAGE E \<le> b + n * PAGE_SIZE E)"
    have "SCRATCH_PAGE E \<le> b + SCRATCH_PAGE E * PAGE_SIZE E"
      using assms(1) by (metis le_add2 le_trans mult.right_neutral mult_le_mono2 Suc_leI One_nat_def)
    then have "SCRATCH_PAGE E \<le> b + n * PAGE_SIZE E" unfolding n_def by (rule LeastI)
    moreover have "b + j * PAGE_SIZE E < SCRATCH_PAGE E" if "j < n" for j
      using not_less_Least [OF that [unfolded n_def]] by simp
    ultimately show ?thesis by blast
  qed
  then obtain n where n: "SCRATCH_PAGE E \<le> b + n * PAGE_SIZE E" "\<forall>j < n. b + j * PAGE_SIZE E < SCRATCH_PAGE E" by blast
  then have "search_pages E m b s = search_pages E m (b + n * PAGE_SIZE E) s"
    using assms by (intro search_pages_skip) auto
  then show ?thesis using n(1) by (simp add: search_pages_stop)
qed

text \<open>The first page behind the program, and the pages from there on.\<close>

definition first_page :: "map_env \<Rightarrow> nat" where
  "first_page E = (let r = FLASH_PROGRAM_END E mod PAGE_SIZE E in
     if r \<noteq> 0 then FLASH_PROGRAM_END E + (PAGE_SIZE E - r) else FLASH_PROGRAM_END E)"

lemma map_new_search: "map_new E m = search_pages E m (first_page E) map_empty"
  by (simp add: map_new_def findHashes_def first_page_def Let_def)

lemma first_page_props:
  assumes "0 < PAGE_SIZE E"
  shows "first_page E mod PAGE_SIZE E = 0" and "FLASH_PROGRAM_END E \<le> first_page E"
proof -
  let ?r = "FLASH_PROGRAM_END E mod PAGE_SIZE E"
  have r: "?r < PAGE_SIZE E" using assms by simp
  have "FLASH_PROGRAM_END E = FLASH_PROGRAM_END E div PAGE_SIZE E * PAGE_SIZE E + ?r" by simp
  then have "FLASH_PROGRAM_END E + (PAGE_SIZE E - ?r) = FLASH_PROGRAM_END E div PAGE_SIZE E * PAGE_SIZE E + PAGE_SIZE E"
    using r by linarith
  then show "first_page E mod PAGE_SIZE E = 0" by (simp add: first_page_def Let_def)
  show "FLASH_PROGRAM_END E \<le> first_page E" by (simp add: first_page_def Let_def)
qed

text \<open>Pages with no mark of either kind.\<close>

definition unmarked :: "map_env \<Rightarrow> mem \<Rightarrow> nat \<Rightarrow> nat \<Rightarrow> bool" where
  "unmarked E m from to \<longleftrightarrow> (\<forall>p. p mod PAGE_SIZE E = 0 \<and> from \<le> p \<and> p < to \<longrightarrow> \<not> pxt_magic m p \<and> \<not> upy_magic m p)"

lemma map_new_reach:
  assumes "0 < PAGE_SIZE E" and "a mod PAGE_SIZE E = 0" and "first_page E \<le> a" and "unmarked E m (first_page E) a"
  shows "map_new E m = search_pages E m a map_empty"
proof -
  let ?P = "PAGE_SIZE E" and ?f = "first_page E"
  have "?f mod ?P = 0" using first_page_props assms(1) by blast
  then have "(a - ?f) mod ?P = 0" using assms(2,3) by (metis dvd_diff_nat mod_eq_0_iff_dvd)
  then obtain n where "a - ?f = ?P * n" by (auto simp: mod_eq_0_iff_dvd elim: dvdE)
  then have n: "a = ?f + n * ?P" using assms(3) by (simp add: mult.commute)
  have "\<not> pxt_magic m (?f + j * ?P) \<and> \<not> upy_magic m (?f + j * ?P)" if "j < n" for j
  proof -
    have "(?f + j * ?P) mod ?P = 0" using \<open>?f mod ?P = 0\<close> by simp
    moreover have "?f + j * ?P < a" using that n assms(1) by simp
    ultimately show ?thesis using assms(4) by (simp add: unmarked_def)
  qed
  then show ?thesis unfolding n map_new_search using assms(1) by (intro search_pages_skip) auto
qed

lemma search_pages_none:
  assumes "0 < PAGE_SIZE E" and "b mod PAGE_SIZE E = 0" and "unmarked E m b (SCRATCH_PAGE E)"
  shows "search_pages E m b s = Some s"
  using assms by (intro search_pages_end) (auto simp: unmarked_def)

subsection \<open>Records\<close>

text \<open>The 16 bytes of a record.\<close>

definition record_bytes :: "layout_record \<Rightarrow> u8 list" where
  "record_bytes r = [of_nat (rec_id r), ht r, of_nat (reg_page r), of_nat (reg_page r div 256),
     of_nat (reg_len r), of_nat (reg_len r div 256), of_nat (reg_len r div 65536), of_nat (reg_len r div 16777216)]
     @ hash_data r"

definition record_ok :: "layout_record \<Rightarrow> bool" where
  "record_ok r \<longleftrightarrow> rec_id r \<in> {1..NUMBER_OF_REGIONS} \<and> ht r \<noteq> HASH_TYPE_POINTER \<and> reg_page r < 65536 \<and>
     reg_len r < 2 ^ 32 \<and> length (hash_data r) = 8"

lemma rdm_at: "rdm m b n = xs \<Longrightarrow> i < n \<Longrightarrow> m (b + i) = xs ! i"
  by auto

lemma bytes_le16: "(n :: nat) < 65536 \<Longrightarrow> unat (of_nat n :: u8) + 256 * unat (of_nat (n div 256) :: u8) = n"
  by (simp add: unat_of_nat)

lemma read_record_bytes:
  assumes "rdm m b 16 = record_bytes r" and "record_ok r"
  shows "read_record m b = r"
proof -
  note at = rdm_at [OF assms(1)]
  have l: "length (hash_data r) = 8" using assms(2) by (simp add: record_ok_def)
  have f: "m b = of_nat (rec_id r)" "m (b + 1) = ht r" "m (b + 2) = of_nat (reg_page r)" "m (b + 3) = of_nat (reg_page r div 256)"
    "m (b + 4) = of_nat (reg_len r)" "m (b + 5) = of_nat (reg_len r div 256)"
    "m (b + 6) = of_nat (reg_len r div 65536)" "m (b + 7) = of_nat (reg_len r div 16777216)"
    using at [of 0] at [of 1] at [of 2] at [of 3] at [of 4] at [of 5] at [of 6] at [of 7] by (simp_all add: record_bytes_def)
  have "rdm m (b + 8) 8 = drop 8 (rdm m b 16)" by (simp add: drop_rdm)
  then have h: "rdm m (b + 8) 8 = hash_data r" unfolding assms(1) by (simp add: record_bytes_def)
  have i: "unat (m b) = rec_id r" using assms(2) by (auto simp: f record_ok_def unat_of_nat)
  have e: "b + 2 + 1 = b + 3" "b + 4 + 1 = b + 5" "b + 4 + 2 = b + 6" "b + 6 + 1 = b + 7" by simp_all
  have p: "rd16 m (b + 2) = reg_page r"
    unfolding rd16_def e f using assms(2) bytes_le16 by (simp add: record_ok_def)
  have "rd16 m (b + 4) = reg_len r mod 65536"
    unfolding rd16_def e f using mod_mult2_eq [of "reg_len r" 256 256] by (simp add: unat_of_nat)
  moreover have "reg_len r div 65536 < 65536" using assms(2) by (simp add: record_ok_def less_mult_imp_div_less)
  then have "rd16 m (b + 6) = reg_len r div 65536"
    unfolding rd16_def e f using bytes_le16 [of "reg_len r div 65536"] div_mult2_eq [of "reg_len r" 65536 256] by simp
  ultimately have "rd32 m (b + 4) = reg_len r" unfolding rd32_def e by simp
  then show ?thesis using i p h f(2) by (simp add: read_record_def)
qed

definition region_of :: "map_env \<Rightarrow> layout_record \<Rightarrow> region" where
  "region_of E r = \<lparr>regionId = rec_id r, startAddress = (reg_page r * PAGE_SIZE E) mod 2 ^ 32,
     endAddress = ((reg_page r * PAGE_SIZE E) mod 2 ^ 32 + reg_len r) mod 2 ^ 32, rhash = hash_data r\<rparr>"

lemma processRecord_ok:
  "read_record m b = r \<Longrightarrow> record_ok r \<Longrightarrow>
    processRecord E m b s = Some (OK, s\<lparr>memoryMap := (memoryMap s)[rec_id r - 1 := region_of E r]\<rparr>)"
  by (simp add: processRecord_def record_ok_def region_of_def Let_def)

lemma process_records_ok:
  assumes "\<forall>j < n. read_record m (a - (2 + (i + j)) * 16) = rs ! j \<and> record_ok (rs ! j)" and "n \<le> length rs"
  shows "process_records E m a i n s = Some (s\<lparr>memoryMap :=
    foldl (\<lambda>M r. M[rec_id r - 1 := region_of E r]) (memoryMap s) (take n rs)\<rparr>)"
  using assms
proof (induction n arbitrary: i s rs)
  case (Suc n)
  then obtain r rs' where rs: "rs = r # rs'" by (cases rs) auto
  have "read_record m (a - (2 + i) * 16) = r \<and> record_ok r" using Suc.prems(1) [rule_format, of 0] rs by simp
  note step = processRecord_ok [OF conjunct1 [OF this] conjunct2 [OF this], of E s]
  have "\<forall>j < n. read_record m (a - (2 + (i + 1 + j)) * 16) = rs' ! j \<and> record_ok (rs' ! j)"
  proof (intro allI impI)
    fix j assume "j < n"
    then show "read_record m (a - (2 + (i + 1 + j)) * 16) = rs' ! j \<and> record_ok (rs' ! j)"
      using Suc.prems(1) [rule_format, of "Suc j"] rs by (simp add: ac_simps)
  qed
  note ih = Suc.IH [OF this]
  show ?case using ih Suc.prems(2) step rs by simp
qed simp

text \<open>A table whose records have different numbers is filled in by any order of the records.\<close>

lemma fold_records:
  assumes "distinct (map rec_id rs)" and "\<forall>r \<in> set rs. rec_id r \<noteq> 0" and "k < length M"
  shows "foldl (\<lambda>M r. M[rec_id r - 1 := region_of E r]) M rs ! k =
    (case find (\<lambda>r. rec_id r = k + 1) rs of None \<Rightarrow> M ! k | Some r \<Rightarrow> region_of E r)"
  using assms
proof (induction rs arbitrary: M)
  case (Cons r rs)
  have n: "find (\<lambda>q. rec_id q = rec_id r) rs = None" using Cons.prems(1) by (auto simp: find_None_iff) (metis imageI)
  show ?case
  proof (cases "rec_id r = k + 1")
    case True
    then show ?thesis using Cons n by simp
  next
    case False
    then have "rec_id r - 1 \<noteq> k" using Cons.prems(2) by auto
    then show ?thesis using Cons False by (simp split: option.split)
  qed
qed simp

lemma length_fold_records: "length (foldl (\<lambda>M r. M[rec_id r - 1 := region_of E r]) M rs) = length M"
  by (induction rs arbitrary: M) auto

subsection \<open>Properties\<close>

text \<open>
  When the first mark behind the program is MakeCode's, the map has the SoftDevice, the runtime
  and the MakeCode program as its regions, with the addresses of the build, the program starting at
  the mark, and the two hashes that follow the mark.
\<close>

theorem map_of_makecode:
  assumes "0 < PAGE_SIZE E" and "a mod PAGE_SIZE E = 0" and "first_page E \<le> a" and "a < SCRATCH_PAGE E"
    and "unmarked E m (first_page E) a" and "pxt_magic m a"
  shows "\<exists>s. map_new E m = Some s \<and> memoryMap s =
    [\<lparr>regionId = REGION_SD, startAddress = 0, endAddress = APP_REGION_START E, rhash = replicate 8 0\<rparr>,
     \<lparr>regionId = REGION_CODAL, startAddress = APP_REGION_START E, endAddress = FLASH_PROGRAM_END E, rhash = rdm m (a + 16) 8\<rparr>,
     \<lparr>regionId = REGION_MAKECODE, startAddress = a, endAddress = APP_REGION_END E, rhash = rdm m (a + 24) 8\<rparr>]"
proof -
  have "map_new E m = Some (set_pxt E m a map_empty)"
    using map_new_reach [OF assms(1,2,3,5)] assms(1,4,6) by (simp add: search_pages.simps [of E m a])
  then show ?thesis
    by (simp add: set_pxt_def pushRegion_def map_empty_def no_region_def Let_def numeral_3_eq_3)
qed

definition demo_map_env :: map_env where
  "demo_map_env = \<lparr>FLASH_PROGRAM_END = 8000, PAGE_SIZE = 4096, SCRATCH_PAGE = 20480, APP_REGION_START = 4096,
     APP_REGION_END = 20480, crc32_compute = \<lambda>_. 0\<rparr>"

lemma demo_first_page: "first_page demo_map_env = 8192"
  by (simp add: first_page_def demo_map_env_def)

theorem map_of_makecode_witness:
  "\<exists>s. map_new demo_map_env (put (\<lambda>_. 7) 8192
      [0x70, 0x8E, 0x3B, 0x92, 0xC6, 0x15, 0xA8, 0x41, 0xC4, 0x98, 0x66, 0xC9, 0x75, 0xEE, 0x51, 0x97]) = Some s \<and>
    memoryMap s ! 2 = \<lparr>regionId = 2, startAddress = 8192, endAddress = 20480, rhash = rdm (put (\<lambda>_. 7) 8192
      [0x70, 0x8E, 0x3B, 0x92, 0xC6, 0x15, 0xA8, 0x41, 0xC4, 0x98, 0x66, 0xC9, 0x75, 0xEE, 0x51, 0x97]) 8216 8\<rparr>"
proof -
  let ?m = "put (\<lambda>_. 7) 8192
      [0x70, 0x8E, 0x3B, 0x92, 0xC6, 0x15, 0xA8, 0x41, 0xC4, 0x98, 0x66, 0xC9, 0x75, 0xEE, 0x51, 0x97 :: u8]"
  have "pxt_magic ?m 8192" by (simp add: pxt_magic_def rd32_def rd16_def put_def)
  moreover have "unmarked demo_map_env ?m (first_page demo_map_env) 8192" unfolding demo_first_page unmarked_def by (blast dest: leD)
  moreover have "8192 < SCRATCH_PAGE demo_map_env \<and> 0 < PAGE_SIZE demo_map_env \<and> 8192 mod PAGE_SIZE demo_map_env = 0"
    by (simp add: demo_map_env_def)
  ultimately obtain s where "map_new demo_map_env ?m = Some s" and "memoryMap s =
    [\<lparr>regionId = REGION_SD, startAddress = 0, endAddress = APP_REGION_START demo_map_env, rhash = replicate 8 0\<rparr>,
     \<lparr>regionId = REGION_CODAL, startAddress = APP_REGION_START demo_map_env, endAddress = FLASH_PROGRAM_END demo_map_env,
      rhash = rdm ?m (8192 + 16) 8\<rparr>,
     \<lparr>regionId = REGION_MAKECODE, startAddress = 8192, endAddress = APP_REGION_END demo_map_env, rhash = rdm ?m (8192 + 24) 8\<rparr>]"
    using map_of_makecode [of demo_map_env 8192 ?m] demo_first_page by auto
  then show ?thesis by (simp add: demo_map_env_def)
qed

text \<open>
  A MicroPython build's table of regions is read back: the map holds, under every number of a
  record, that record's pages, length and hash, and is empty elsewhere.
\<close>

theorem map_of_python:
  assumes "0 < PAGE_SIZE E" and "a mod PAGE_SIZE E = 0" and "first_page E \<le> a" and "a < SCRATCH_PAGE E"
    and "unmarked E m (first_page E) a" and "unmarked E m (a + PAGE_SIZE E) (SCRATCH_PAGE E)"
    and "upy_magic m a" and "\<not> pxt_magic m a" and "m (a - 8) = of_nat (length rs)" and "length rs < 256"
    and "\<forall>j < length rs. rdm m (a - (2 + j) * 16) 16 = record_bytes (rs ! j)"
    and "\<forall>r \<in> set rs. record_ok r" and "distinct (map rec_id rs)"
  shows "\<exists>s. map_new E m = Some s \<and> memoryMap s =
    map (\<lambda>k. case find (\<lambda>r. rec_id r = k) rs of None \<Rightarrow> no_region | Some r \<Rightarrow> region_of E r) [1, 2, 3]"
proof -
  let ?M = "foldl (\<lambda>M r. M[rec_id r - 1 := region_of E r]) (memoryMap map_empty) rs"
  have "\<forall>j < length rs. read_record m (a - (2 + (0 + j)) * 16) = rs ! j \<and> record_ok (rs ! j)"
    using read_record_bytes assms(11,12) by simp
  from process_records_ok [OF this order_refl]
  have p: "process_records E m a 0 (length rs) s =
      Some (s\<lparr>memoryMap := foldl (\<lambda>M r. M[rec_id r - 1 := region_of E r]) (memoryMap s) rs\<rparr>)" for s by simp
  have c: "unat (m (a - 8)) = length rs" using assms(9,10) by (simp add: unat_of_nat)
  have e: "(a + PAGE_SIZE E) mod PAGE_SIZE E = 0" using assms(2) by simp
  have "map_new E m = search_pages E m (a + PAGE_SIZE E) (map_empty\<lparr>memoryMap := ?M\<rparr>)"
    using map_new_reach [OF assms(1,2,3,5)] assms(1,4,7,8) p c by (simp add: search_pages.simps [of E m a])
  then have s: "map_new E m = Some (map_empty\<lparr>memoryMap := ?M\<rparr>)"
    using search_pages_none [OF assms(1) e assms(6)] by simp
  have nz: "\<forall>r \<in> set rs. rec_id r \<noteq> 0" using assms(12) by (auto simp: record_ok_def)
  have len: "length (memoryMap map_empty) = 3" by (simp add: map_empty_def)
  have k: "k < 3 \<Longrightarrow> ?M ! k = (case find (\<lambda>r. rec_id r = k + 1) rs of None \<Rightarrow> no_region | Some r \<Rightarrow> region_of E r)" for k
    using fold_records [OF assms(13) nz, of k "memoryMap map_empty" E] by (simp add: map_empty_def split: option.split)
  have "?M = map (\<lambda>k. case find (\<lambda>r. rec_id r = k) rs of None \<Rightarrow> no_region | Some r \<Rightarrow> region_of E r) [1, 2, 3]"
  proof (rule nth_equalityI)
    fix i assume "i < length ?M"
    then have "i < 3" unfolding length_fold_records len .
    then have i: "i = 0 \<or> i = 1 \<or> i = 2" by linarith
    then show "?M ! i = map (\<lambda>k. case find (\<lambda>r. rec_id r = k) rs of None \<Rightarrow> no_region | Some r \<Rightarrow> region_of E r) [1, 2, 3] ! i"
      using k [of i] by (auto simp: eval_nat_numeral)
  qed (unfold length_fold_records len, simp)
  then show ?thesis using s by simp
qed

definition demo_records :: "layout_record list" where
  "demo_records = [\<lparr>rec_id = 2, ht = 1, reg_page = 5, reg_len = 300, hash_data = [1, 2, 3, 4, 5, 6, 7, 8]\<rparr>,
     \<lparr>rec_id = 1, ht = 0, reg_page = 1, reg_len = 70000, hash_data = [0, 0, 0, 0, 0, 0, 0, 0]\<rparr>]"

definition demo_table :: mem where
  "demo_table = put (\<lambda>_. 9) 8144 (record_bytes (demo_records ! 1) @ record_bytes (demo_records ! 0) @
     [0xFE, 0x30, 0x7F, 0x59, 0, 0, 0, 0, 2, 0, 0, 0, 0x9D, 0xD7, 0xB1, 0xC1])"

theorem map_of_python_witness:
  "\<exists>s. map_new demo_map_env demo_table = Some s \<and> memoryMap s =
    [\<lparr>regionId = 1, startAddress = 4096, endAddress = 74096, rhash = [0, 0, 0, 0, 0, 0, 0, 0]\<rparr>,
     \<lparr>regionId = 2, startAddress = 20480, endAddress = 20780, rhash = [1, 2, 3, 4, 5, 6, 7, 8]\<rparr>, no_region]"
proof -
  let ?E = demo_map_env
  have nine: "demo_table x = 9" if "8192 \<le> x" for x
    using that by (simp add: demo_table_def demo_records_def record_bytes_def put_def)
  have rd: "rd32 demo_table p \<noteq> 0xC1B1D79D \<and> rd32 demo_table p \<noteq> 0x923B8E70" if "8192 \<le> p" for p
    using that by (simp add: rd32_def rd16_def nine)
  have u: "unmarked ?E demo_table (8192 + 4096) 20480"
    using rd by (auto simp: unmarked_def pxt_magic_def upy_magic_def)
  have "upy_magic demo_table 8192"
    by (simp add: upy_magic_def rd32_def rd16_def demo_table_def demo_records_def record_bytes_def put_def)
  moreover have "\<not> pxt_magic demo_table 8192" using rd by (simp add: pxt_magic_def)
  moreover have "demo_table (8192 - 8) = of_nat (length demo_records)"
    by (simp add: demo_table_def demo_records_def record_bytes_def put_def)
  moreover have "\<forall>j < length demo_records. rdm demo_table (8192 - (2 + j) * 16) 16 = record_bytes (demo_records ! j)"
  proof (intro allI impI)
    fix j assume "j < length demo_records"
    then have "j = 0 \<or> j = 1" by (auto simp: demo_records_def)
    moreover have "rdm demo_table 8160 16 = record_bytes (demo_records ! 0)" "rdm demo_table 8144 16 = record_bytes (demo_records ! 1)"
      by (simp_all add: rdm_def upt_rec demo_table_def demo_records_def record_bytes_def put_def)
    ultimately show "rdm demo_table (8192 - (2 + j) * 16) 16 = record_bytes (demo_records ! j)" by auto
  qed
  ultimately show ?thesis
    using map_of_python [of ?E 8192 demo_table demo_records] u demo_first_page
    by (simp add: demo_map_env_def unmarked_def demo_records_def record_ok_def region_of_def)
qed

end
