(* ===== verification/PowerManager.thy ===== *)
theory PowerManager
  imports MB_Prelude
begin

text \<open>
  \<open>MicroBitPowerManager\<close> (\<open>source/MicroBitPowerManager.cpp\<close>, \<open>inc/MicroBitPowerManager.h\<close>): the
  control protocol of the USB interface chip, powering off, and deep sleep. What the manager
  calls and the repository does not hold (the I2C bus, the interrupt line, the system timer and
  its hardware counter, the fiber scheduler, the components that take part in deep sleep) is the
  record \<open>power_hw\<close>, over a state of the outside world of any type. Calls that block the fiber
  (\<open>fiber_sleep\<close>, \<open>lock_wait\<close>) let other fibers run the manager, so they may change its fields;
  \<open>target_wait\<close> is a busy wait. Interrupts between two calls are not modelled, the debug
  messages are left out.
\<close>

type_synonym u64 = "64 word"

text \<open>The reasons of \<open>CodalComponent::deepSleepAll\<close>, and the \<open>SENSE\<close> settings of a pin.\<close>

datatype sleep_reason = SleepPrepare | SleepBegin | SleepBeginWithWakeUps | SleepEnd
  | SleepEndWithWakeUps | SleepCountWakeUps

datatype sense = SENSE_Disabled | SENSE_High | SENSE_Low

text \<open>
  The fields; \<open>awaitingResponse\<close> and \<open>versionLoaded\<close> are the two bits of \<open>status\<close> in use,
  \<open>activeCount\<close> the static counter of \<open>idleCallback\<close>.
\<close>

record 'w pm =
  world :: 'w
  ver_i2c :: u16
  ver_daplink :: u16
  ver_board :: u16
  powerSource :: u8
  powerConsumption :: u32
  usbStatus :: u8
  awaitingResponse :: bool
  versionLoaded :: bool
  activeCount :: nat
  powerDownDisableCount :: int
  powerUpTime :: u64
  eventValue :: u16
  timer_irq_channels :: u16

definition pm_new :: "'w \<Rightarrow> 'w pm" where
  "pm_new w =
     \<lparr>world = w, ver_i2c = 0, ver_daplink = 0, ver_board = 0, powerSource = 0,
      powerConsumption = 0, usbStatus = 0, awaitingResponse = False, versionLoaded = False,
      activeCount = 0, powerDownDisableCount = 0, powerUpTime = 0, eventValue = 0,
      timer_irq_channels = 0\<rparr>"

text \<open>
  The outside. Writes are acknowledged or not; a read fills the buffer or fails. \<open>past_end i\<close>
  is what lies behind a response that is too short. \<open>deepSleepAll\<close> returns the count of the
  wake-up sources. The timer operations are those of \<open>NRFLowLevelTimer\<close> (\<open>timer_clearInts\<close>
  is the assignment of \<open>INTENSET\<close> to \<open>INTENCLR\<close>); \<open>wfi\<close> returns the channels with which
  \<open>deepSleepTimerIRQ\<close> has been called, if it has.
\<close>

record 'w power_hw =
  i2c_write :: "u8 list \<Rightarrow> 'w \<Rightarrow> bool \<times> 'w"
  i2c_read :: "nat \<Rightarrow> 'w \<Rightarrow> u8 list option \<times> 'w"
  irq1_active :: "'w \<Rightarrow> bool \<times> 'w"
  irq1_detect :: "sense \<Rightarrow> 'w \<Rightarrow> 'w"
  target_wait :: "nat \<Rightarrow> 'w \<Rightarrow> 'w"
  past_end :: "nat \<Rightarrow> u8"
  deepSleepAll :: "sleep_reason \<Rightarrow> 'w \<Rightarrow> nat \<times> 'w"
  systemOff :: "'w \<Rightarrow> 'w"
  has_sysTimer :: bool
  timer_32bit :: bool
  time_us :: "'w \<Rightarrow> u64 \<times> 'w"
  time_ms :: "'w \<Rightarrow> u64 \<times> 'w"
  wakeup_time :: "'w \<Rightarrow> (bool \<times> u64) \<times> 'w"
  event_after :: "u32 \<Rightarrow> u16 \<Rightarrow> 'w \<Rightarrow> bool \<times> 'w"
  cancel_event :: "u16 \<Rightarrow> 'w \<Rightarrow> 'w"
  deepsleep_begin :: "'w \<Rightarrow> (u64 \<times> u32) \<times> 'w"
  deepsleep_end :: "u32 \<Rightarrow> u64 \<Rightarrow> 'w \<Rightarrow> 'w"
  timer_getCC :: "nat \<Rightarrow> 'w \<Rightarrow> u32"
  timer_putCC :: "nat \<Rightarrow> u32 \<Rightarrow> 'w \<Rightarrow> 'w"
  timer_getINTENSET :: "'w \<Rightarrow> u32"
  timer_putINTENSET :: "u32 \<Rightarrow> 'w \<Rightarrow> 'w"
  timer_clearInts :: "'w \<Rightarrow> 'w"
  timer_hookIRQ :: "bool \<Rightarrow> 'w \<Rightarrow> 'w"
  timer_setCompare :: "nat \<Rightarrow> u32 \<Rightarrow> 'w \<Rightarrow> 'w"
  timer_capture :: "'w \<Rightarrow> u32 \<times> 'w"
  timer_enableIRQ :: "'w \<Rightarrow> 'w"
  timer_disableIRQ :: "'w \<Rightarrow> 'w"
  gpiote_enableIRQ :: "'w \<Rightarrow> 'w"
  wfi :: "'w \<Rightarrow> u16 option \<times> 'w"
  pin_getDigital :: "nat \<Rightarrow> 'w \<Rightarrow> 'w"
  pin_polarity :: "nat \<Rightarrow> 'w \<Rightarrow> bool"
  pin_setDetect :: "nat \<Rightarrow> sense \<Rightarrow> 'w \<Rightarrow> 'w"
  scheduler_running :: "'w \<Rightarrow> bool"
  get_pending :: "'w \<Rightarrow> bool"
  set_pending :: "bool \<Rightarrow> 'w \<Rightarrow> 'w"
  has_eventBus :: bool
  bus_listen :: "'w \<Rightarrow> 'w"
  bus_ignore :: "'w \<Rightarrow> 'w"
  lock_waitCount :: "'w \<Rightarrow> nat"
  lock_notifyAll :: "'w \<Rightarrow> 'w"
  lock_wait :: "'w pm \<Rightarrow> 'w pm"
  fiber_sleep :: "u32 \<Rightarrow> 'w pm \<Rightarrow> 'w pm"

definition COMMAND_READ_REQUEST :: u8 where "COMMAND_READ_REQUEST = 0x10"
definition COMMAND_READ_RESPONSE :: u8 where "COMMAND_READ_RESPONSE = 0x11"
definition COMMAND_WRITE_REQUEST :: u8 where "COMMAND_WRITE_REQUEST = 0x12"
definition COMMAND_WRITE_RESPONSE :: u8 where "COMMAND_WRITE_RESPONSE = 0x13"
definition COMMAND_ERROR_RESPONSE :: u8 where "COMMAND_ERROR_RESPONSE = 0x20"
definition PROPERTY_BOARD_REVISION :: u8 where "PROPERTY_BOARD_REVISION = 1"
definition PROPERTY_I2C_VERSION :: u8 where "PROPERTY_I2C_VERSION = 2"
definition PROPERTY_DAPLINK_VERSION :: u8 where "PROPERTY_DAPLINK_VERSION = 3"
definition PROPERTY_POWER_SOURCE :: u8 where "PROPERTY_POWER_SOURCE = 4"
definition PROPERTY_POWER_CONSUMPTION :: u8 where "PROPERTY_POWER_CONSUMPTION = 5"
definition PROPERTY_USB_STATE :: u8 where "PROPERTY_USB_STATE = 6"
definition PROPERTY_KL27_POWER_MODE :: u8 where "PROPERTY_KL27_POWER_MODE = 7"
definition PROPERTY_KL27_POWER_LED_STATE :: u8 where "PROPERTY_KL27_POWER_LED_STATE = 8"
definition PROPERTY_KL27_USER_EVENT :: u8 where "PROPERTY_KL27_USER_EVENT = 9"
definition EVENT_RESET_LONG_PRESS :: u8 where "EVENT_RESET_LONG_PRESS = 3"
definition INCOMPLETE_CMD :: u8 where "INCOMPLETE_CMD = 0x31"
definition WRITE_FAIL :: u8 where "WRITE_FAIL = 0x38"
definition POWER_MODE_VLLS0 :: u8 where "POWER_MODE_VLLS0 = 8"
definition UIPM_MAX_BUFFER_SIZE :: nat where "UIPM_MAX_BUFFER_SIZE = 8"
definition UIPM_MAX_RETRIES :: nat where "UIPM_MAX_RETRIES = 5"
definition USB_INTERFACE_IRQ_THRESHOLD :: nat where "USB_INTERFACE_IRQ_THRESHOLD = 3"
definition MINIMUM_DEEP_SLEEP_TIME :: nat where "MINIMUM_DEEP_SLEEP_TIME = 100"
definition MINIMUM_POWER_ON_TIME :: nat where "MINIMUM_POWER_ON_TIME = 500"

lemmas uipm_codes = COMMAND_READ_REQUEST_def COMMAND_READ_RESPONSE_def COMMAND_WRITE_REQUEST_def
  COMMAND_WRITE_RESPONSE_def COMMAND_ERROR_RESPONSE_def PROPERTY_BOARD_REVISION_def
  PROPERTY_I2C_VERSION_def PROPERTY_DAPLINK_VERSION_def PROPERTY_POWER_SOURCE_def
  PROPERTY_POWER_CONSUMPTION_def PROPERTY_USB_STATE_def PROPERTY_KL27_POWER_MODE_def
  PROPERTY_KL27_POWER_LED_STATE_def PROPERTY_KL27_USER_EVENT_def EVENT_RESET_LONG_PRESS_def
  INCOMPLETE_CMD_def WRITE_FAIL_def POWER_MODE_VLLS0_def

text \<open>The table of property lengths; \<open>KeyValueTable::get\<close> gives 0 for a key that is not there.\<close>

definition uipmPropertyLengths :: "u8 \<Rightarrow> nat" where
  "uipmPropertyLengths p =
     (case map_of [(PROPERTY_BOARD_REVISION, 2), (PROPERTY_I2C_VERSION, 2),
        (PROPERTY_DAPLINK_VERSION, 2), (PROPERTY_POWER_SOURCE, 1), (PROPERTY_POWER_CONSUMPTION, 4),
        (PROPERTY_USB_STATE, 1), (PROPERTY_KL27_POWER_MODE, 1), (PROPERTY_KL27_POWER_LED_STATE, 1)] p of
        None \<Rightarrow> 0 | Some n \<Rightarrow> n)"

subsection \<open>Packets\<close>

definition pm_nop :: "'w power_hw \<Rightarrow> 'w \<Rightarrow> 'w" where
  "pm_nop H w = target_wait H 10 (snd (i2c_write H [0, 0, 0] w))"

definition sendUIPMPacket :: "'w power_hw \<Rightarrow> u8 list \<Rightarrow> 'w \<Rightarrow> bool \<times> 'w" where
  "sendUIPMPacket H packet w = i2c_write H packet (pm_nop H w)"

definition recvUIPMPacket :: "'w power_hw \<Rightarrow> 'w \<Rightarrow> u8 list \<times> 'w" where
  "recvUIPMPacket H w =
     (case irq1_active H w of (active, w1) \<Rightarrow>
        if \<not> active then ([], w1)
        else case i2c_read H UIPM_MAX_BUFFER_SIZE (pm_nop H w1) of
            (None, w2) \<Rightarrow> ([], w2)
          | (Some bs, w2) \<Rightarrow>
              (take UIPM_MAX_BUFFER_SIZE (bs @ replicate UIPM_MAX_BUFFER_SIZE 0), w2))"

definition pm_awaitingPacket :: "bool \<Rightarrow> 'w pm \<Rightarrow> 'w pm" where
  "pm_awaitingPacket awaiting s = s\<lparr>awaitingResponse := awaiting\<rparr>"

text \<open>The loop of \<open>awaitUIPMPacket\<close>, with the number of attempts left.\<close>

definition not_ready :: "u8 list \<Rightarrow> bool" where
  "not_ready response \<longleftrightarrow>
     length response = 0 \<or> response ! 0 = COMMAND_ERROR_RESPONSE \<and> response ! 1 = INCOMPLETE_CMD"

definition sanitized :: "u8 list \<Rightarrow> u8 list" where
  "sanitized response =
     take (if response ! 0 = COMMAND_ERROR_RESPONSE \<or> response ! 0 = COMMAND_WRITE_RESPONSE then 2
           else 3 + uipmPropertyLengths (response ! 1)) response"

fun await_loop :: "'w power_hw \<Rightarrow> nat \<Rightarrow> 'w \<Rightarrow> u8 list \<times> 'w" where
  "await_loop H 0 w = ([COMMAND_ERROR_RESPONSE, WRITE_FAIL], w)"
| "await_loop H (Suc left) w =
     (case recvUIPMPacket H (target_wait H 1 w) of (response, w1) \<Rightarrow>
        if not_ready response then await_loop H left w1
        else (sanitized response, w1))"

definition awaitUIPMPacket :: "'w power_hw \<Rightarrow> 'w pm \<Rightarrow> u8 list \<times> 'w pm" where
  "awaitUIPMPacket H s =
     (let s1 = pm_awaitingPacket True s;
          (response, w) = await_loop H UIPM_MAX_RETRIES (world s1)
      in (response, pm_awaitingPacket False (s1\<lparr>world := w\<rparr>)))"

definition writeProperty :: "'w power_hw \<Rightarrow> u8 list \<Rightarrow> bool \<Rightarrow> 'w pm \<Rightarrow> u8 list \<times> 'w pm" where
  "writeProperty H request ack s =
     (case sendUIPMPacket H request (world s) of (ok, w) \<Rightarrow>
        if ok \<and> ack then awaitUIPMPacket H (s\<lparr>world := w\<rparr>) else ([], s\<lparr>world := w\<rparr>))"

definition readProperty :: "'w power_hw \<Rightarrow> u8 \<Rightarrow> 'w pm \<Rightarrow> u8 list \<times> 'w pm" where
  "readProperty H p s =
     (case sendUIPMPacket H [COMMAND_READ_REQUEST, p] (world s) of (ok, w) \<Rightarrow>
        if ok then awaitUIPMPacket H (s\<lparr>world := w\<rparr>) else ([], s\<lparr>world := w\<rparr>))"

subsection \<open>Properties of the interface chip\<close>

text \<open>Reading byte \<open>i\<close> of a response that may be too short, and the multi-byte copies.\<close>

definition byte_at :: "'w power_hw \<Rightarrow> u8 list \<Rightarrow> nat \<Rightarrow> u8" where
  "byte_at H b i = (if i < length b then b ! i else past_end H i)"

definition half_at :: "'w power_hw \<Rightarrow> u8 list \<Rightarrow> nat \<Rightarrow> u16" where
  "half_at H b i = ucast (byte_at H b i) + 256 * ucast (byte_at H b (i + 1))"

definition word_at :: "'w power_hw \<Rightarrow> u8 list \<Rightarrow> nat \<Rightarrow> u32" where
  "word_at H b i = ucast (half_at H b i) + 65536 * ucast (half_at H b (i + 2))"

definition getPowerSource :: "'w power_hw \<Rightarrow> 'w pm \<Rightarrow> u8 \<times> 'w pm" where
  "getPowerSource H s =
     (let (b, s1) = readProperty H PROPERTY_POWER_SOURCE s
      in (byte_at H b 3, s1\<lparr>powerSource := byte_at H b 3\<rparr>))"

definition getVersion :: "'w power_hw \<Rightarrow> 'w pm \<Rightarrow> (u16 \<times> u16 \<times> u16) \<times> 'w pm" where
  "getVersion H s =
     (let s' = (if versionLoaded s then s
                else
                  let (b1, s1) = readProperty H PROPERTY_BOARD_REVISION s;
                      s2 = s1\<lparr>ver_board := half_at H b1 3\<rparr>;
                      (b2, s3) = readProperty H PROPERTY_I2C_VERSION s2;
                      s4 = s3\<lparr>ver_i2c := half_at H b2 3\<rparr>;
                      (b3, s5) = readProperty H PROPERTY_DAPLINK_VERSION s4
                  in s5\<lparr>ver_daplink := half_at H b3 3\<rparr>)
      in ((ver_i2c s', ver_daplink s', ver_board s'), s'))"

definition getUSBStatus :: "'w power_hw \<Rightarrow> 'w pm \<Rightarrow> u8 \<times> 'w pm" where
  "getUSBStatus H s =
     (let (b, s1) = readProperty H PROPERTY_USB_STATE s
      in (byte_at H b 3, s1\<lparr>usbStatus := byte_at H b 3\<rparr>))"

definition getPowerConsumption :: "'w power_hw \<Rightarrow> 'w pm \<Rightarrow> u32 \<times> 'w pm" where
  "getPowerConsumption H s =
     (let (b, s1) = readProperty H PROPERTY_POWER_CONSUMPTION s
      in (word_at H b 3, s1\<lparr>powerConsumption := word_at H b 3\<rparr>))"

definition setPowerLED :: "'w power_hw \<Rightarrow> bool \<Rightarrow> 'w pm \<Rightarrow> 'w pm" where
  "setPowerLED H doSleep s =
     snd (writeProperty H [COMMAND_WRITE_REQUEST, PROPERTY_KL27_POWER_LED_STATE, 1,
            if doSleep then 0 else 1] True s)"

definition components_sleep :: "'w power_hw \<Rightarrow> sleep_reason \<Rightarrow> 'w pm \<Rightarrow> 'w pm" where
  "components_sleep H r s = s\<lparr>world := snd (deepSleepAll H r (world s))\<rparr>"

definition pm_off :: "'w power_hw \<Rightarrow> 'w pm \<Rightarrow> 'w pm" where
  "pm_off H s =
     (let s1 = components_sleep H SleepBegin (setPowerLED H True s);
          s2 = snd (writeProperty H [COMMAND_WRITE_REQUEST, PROPERTY_KL27_POWER_MODE, 1,
                 POWER_MODE_VLLS0] True s1)
      in s2\<lparr>world := systemOff H (irq1_detect H SENSE_Low (target_wait H 10 (world s2)))\<rparr>)"

text \<open>The frame of the chip, handled after the line has been active for a while.\<close>

definition user_event :: "'w power_hw \<Rightarrow> u8 list \<Rightarrow> 'w pm \<Rightarrow> 'w pm" where
  "user_event H response s =
     (if length response > 0 \<and> response ! 0 = COMMAND_READ_RESPONSE
         \<and> response ! 1 = PROPERTY_KL27_USER_EVENT \<and> response ! 2 = 1
         \<and> response ! 3 = EVENT_RESET_LONG_PRESS
      then pm_off H s else s)"

text \<open>The interrupt line is sampled only when no transaction is in progress.\<close>

definition idleCallback :: "'w power_hw \<Rightarrow> 'w pm \<Rightarrow> 'w pm" where
  "idleCallback H s =
     (if awaitingResponse s then s\<lparr>activeCount := 0\<rparr>
      else case irq1_active H (world s) of (active, w) \<Rightarrow>
        if \<not> active then s\<lparr>world := w, activeCount := 0\<rparr>
        else if activeCount s < USB_INTERFACE_IRQ_THRESHOLD
        then s\<lparr>world := w, activeCount := activeCount s + 1\<rparr>
        else case recvUIPMPacket H w of (response, w1) \<Rightarrow>
          user_event H response (s\<lparr>world := w1, activeCount := 0\<rparr>))"

end
