(* ===== verification/DeepSleep.thy ===== *)
theory DeepSleep
  imports PowerManager "HOL-Library.Monad_Syntax"
begin

text \<open>
  Deep sleep (\<open>source/MicroBitPowerManager.cpp\<close> from line 410): when it may start, the requests
  of fibers and their cancelling, and the sleep itself, a sequence of naps of the processor with
  the hardware timer as alarm. The loop of naps runs until the time is up or another interrupt
  comes, so it is a partial function: \<open>None\<close> stands for a sleep that never ends. Times are
  64-bit, timer ticks 32-bit words.
\<close>

subsection \<open>Enabling and requesting\<close>

definition powerDownEnable :: "'w pm \<Rightarrow> 'w pm" where
  "powerDownEnable s = s\<lparr>powerDownDisableCount := powerDownDisableCount s - 1\<rparr>"

definition powerDownDisable :: "'w pm \<Rightarrow> 'w pm" where
  "powerDownDisable s = s\<lparr>powerDownDisableCount := powerDownDisableCount s + 1\<rparr>"

definition powerDownIsEnabled :: "'w pm \<Rightarrow> bool" where
  "powerDownIsEnabled s \<longleftrightarrow> powerDownDisableCount s \<le> 0"

definition waitingForDeepSleep :: "'w power_hw \<Rightarrow> 'w pm \<Rightarrow> bool" where
  "waitingForDeepSleep H s = get_pending H (world s)"

definition readyForDeepSleep :: "'w power_hw \<Rightarrow> 'w pm \<Rightarrow> bool \<times> 'w pm" where
  "readyForDeepSleep H s =
     (case time_ms H (world s) of (t, w) \<Rightarrow>
        let s1 = s\<lparr>world := w\<rparr>
        in if t - powerUpTime s1 < of_nat MINIMUM_POWER_ON_TIME then (False, s1)
           else (powerDownIsEnabled s1, s1))"

definition pm_listen :: "'w power_hw \<Rightarrow> 'w pm \<Rightarrow> 'w pm" where
  "pm_listen H s = (if has_eventBus H then s\<lparr>world := bus_listen H (world s)\<rparr> else s)"

definition pm_ignore :: "'w power_hw \<Rightarrow> 'w pm \<Rightarrow> 'w pm" where
  "pm_ignore H s = (if has_eventBus H then s\<lparr>world := bus_ignore H (world s)\<rparr> else s)"

definition cancelDeepSleep :: "'w power_hw \<Rightarrow> 'w pm \<Rightarrow> 'w pm" where
  "cancelDeepSleep H s =
     pm_ignore H (s\<lparr>world := set_pending H False (lock_notifyAll H (world s))\<rparr>)"

text \<open>The two event codes come from codal-core and are arguments: the values of
  \<open>DEVICE_ID_NOTIFY\<close> and \<open>POWER_EVT_CANCEL_DEEPSLEEP\<close>.\<close>

definition pm_listener :: "'w power_hw \<Rightarrow> u16 \<Rightarrow> u16 \<Rightarrow> u16 \<Rightarrow> u16 \<Rightarrow> 'w pm \<Rightarrow> 'w pm" where
  "pm_listener H id_notify evt_cancel source value s =
     (if source = id_notify \<and> value = evt_cancel then cancelDeepSleep H s else s)"

definition prepareDeepSleep :: "'w power_hw \<Rightarrow> 'w pm \<Rightarrow> 'w pm" where
  "prepareDeepSleep H s =
     (if get_pending H (world s) then s
      else components_sleep H SleepPrepare
             (pm_listen H (s\<lparr>world := set_pending H True (world s)\<rparr>)))"

definition deepSleepWait :: "'w power_hw \<Rightarrow> 'w pm \<Rightarrow> 'w pm" where
  "deepSleepWait H s =
     (let s1 = (if lock_waitCount H (world s) = 0 then lock_wait H s else s)
      in lock_wait H (prepareDeepSleep H s1))"

definition deepSleepTimerIRQ :: "u16 \<Rightarrow> 'w pm \<Rightarrow> 'w pm" where
  "deepSleepTimerIRQ chan s = s\<lparr>timer_irq_channels := chan\<rparr>"

subsection \<open>The sleep\<close>

definition canDeepSleep :: "'w power_hw \<Rightarrow> bool \<Rightarrow> u64 \<Rightarrow> bool \<Rightarrow> nat option \<Rightarrow> 'w pm \<Rightarrow> code \<times> 'w pm"
  where
  "canDeepSleep H wakeOnTime wakeUpTime wakeUpSources wakeUpPin s =
     (if \<not> has_sysTimer H then (NOT_SUPPORTED, s)
      else case time_us H (world s) of (timeEntry, w) \<Rightarrow>
        let s1 = s\<lparr>world := w\<rparr> in
        if wakeOnTime then
          (if wakeUpTime < timeEntry
              \<or> wakeUpTime - timeEntry < of_nat (MINIMUM_DEEP_SLEEP_TIME * 1000)
           then (INVALID_STATE, s1) else (OK, s1))
        else if wakeUpSources then
          (case deepSleepAll H SleepCountWakeUps w of (count, w1) \<Rightarrow>
             (if count = 0 then INVALID_STATE else OK, s1\<lparr>world := w1\<rparr>))
        else (if wakeUpPin = None then INVALID_STATE else OK, s1))"

definition ticksMax :: u32 where
  "ticksMax = 0xFFFFFFFF - 1000 * 1000"

definition total_ticks :: "u64 \<Rightarrow> u64 \<Rightarrow> u64 \<Rightarrow> u64" where
  "total_ticks wakeUpTime timeEntry timeStart =
     wakeUpTime - timeEntry - (timeStart - timeEntry) * 2 div 1 - 13"

text \<open>How long the next nap may be; \<open>None\<close> when the time is up.\<close>

definition nap_remain :: "bool \<Rightarrow> u64 \<Rightarrow> u64 \<Rightarrow> u32 option" where
  "nap_remain wakeOnTime totalTicks sleepTicks =
     (if \<not> wakeOnTime then Some ticksMax
      else if totalTicks \<le> sleepTicks then None
      else Some (if ucast ticksMax < totalTicks - sleepTicks then ticksMax
                 else ucast (totalTicks - sleepTicks)))"

text \<open>One nap up to the reading of the counter.\<close>

definition nap :: "'w power_hw \<Rightarrow> u32 \<Rightarrow> u32 \<Rightarrow> 'w pm \<Rightarrow> u32 \<times> 'w pm" where
  "nap H tick0 remain s =
     (case wfi H (timer_setCompare H 2 (tick0 + remain) (world s)) of (irq, w1) \<Rightarrow>
        let s1 = (case irq of None \<Rightarrow> s | Some chan \<Rightarrow> deepSleepTimerIRQ chan s);
            (tick1, w2) = timer_capture H w1
        in (tick1, s1\<lparr>world := w2\<rparr>))"

definition read_clock :: "'w power_hw \<Rightarrow> 'w pm \<Rightarrow> 'w pm" where
  "read_clock H s = (if timer_32bit H then s\<lparr>world := snd (time_us H (world s))\<rparr> else s)"

partial_function (option) nap_loop ::
    "'w power_hw \<Rightarrow> bool \<Rightarrow> u64 \<Rightarrow> u32 \<Rightarrow> u64 \<Rightarrow> 'w pm \<Rightarrow> (u32 \<times> u64 \<times> 'w pm) option" where
  "nap_loop H wakeOnTime totalTicks tick0 sleepTicks s =
     (case nap_remain wakeOnTime totalTicks sleepTicks of
        None \<Rightarrow> Some (tick0, sleepTicks, s)
      | Some remain \<Rightarrow>
          let (tick1, s1) = nap H tick0 remain s;
              sleepTicks' = sleepTicks + ucast (tick1 - tick0);
              s2 = read_clock H s1
          in if timer_irq_channels s2 = 0 then Some (tick1, sleepTicks', s2)
             else nap_loop H wakeOnTime totalTicks tick1 sleepTicks' (s2\<lparr>timer_irq_channels := 0\<rparr>))"

text \<open>
  \<open>simpleDeepSleep\<close> in three parts: the preparation up to the loop, which leaves the saved timer
  registers, the starting tick and the number of ticks to sleep; the loop; the way back.
\<close>

definition sleep_detect :: "'w power_hw \<Rightarrow> bool \<Rightarrow> nat option \<Rightarrow> 'w \<Rightarrow> 'w" where
  "sleep_detect H wakeUpSources wakeUpPin w =
     (case wakeUpPin of
        Some p \<Rightarrow>
          if wakeUpSources then w
          else let w1 = pin_getDigital H p w
               in pin_setDetect H p (if pin_polarity H p w1 then SENSE_High else SENSE_Low) w1
      | None \<Rightarrow> w)"

definition sleep_enter ::
    "'w power_hw \<Rightarrow> u64 \<Rightarrow> u64 \<Rightarrow> bool \<Rightarrow> nat option \<Rightarrow> 'w pm \<Rightarrow> u32 \<times> u32 \<times> u32 \<times> u64 \<times> 'w pm" where
  "sleep_enter H timeEntry wakeUpTime wakeUpSources wakeUpPin s =
     (let s1 = setPowerLED H True s;
          s2 = components_sleep H (if wakeUpSources then SleepBeginWithWakeUps else SleepBegin) s1;
          ((timeStart, tickStart), w) = deepsleep_begin H (world s2);
          saveCompare = timer_getCC H 2 w;
          saveIntenset = timer_getINTENSET H w;
          s3 = s2\<lparr>world := timer_hookIRQ H True (timer_clearInts H w), timer_irq_channels := 0\<rparr>;
          w1 = sleep_detect H wakeUpSources wakeUpPin (world s3);
          w2 = gpiote_enableIRQ H (irq1_detect H SENSE_Low w1);
          w3 = timer_enableIRQ H (timer_setCompare H 2 tickStart w2)
      in (saveCompare, saveIntenset, tickStart, total_ticks wakeUpTime timeEntry timeStart,
          s3\<lparr>world := w3\<rparr>))"

definition sleep_leave ::
    "'w power_hw \<Rightarrow> u32 \<Rightarrow> u32 \<Rightarrow> bool \<Rightarrow> nat option \<Rightarrow> u32 \<Rightarrow> u64 \<Rightarrow> 'w pm \<Rightarrow> 'w pm" where
  "sleep_leave H saveCompare saveIntenset wakeUpSources wakeUpPin tick1 sleepTicks s =
     (let w = irq1_detect H SENSE_Disabled (world s);
          w1 = (case wakeUpPin of
                  Some p \<Rightarrow> if wakeUpSources then w else pin_setDetect H p SENSE_Disabled w
                | None \<Rightarrow> w);
          w2 = timer_clearInts H (timer_disableIRQ H w1);
          w3 = timer_putCC H 2 saveCompare (timer_hookIRQ H False w2);
          w4 = (if timer_32bit H then deepsleep_end H 0 0 w3
                else deepsleep_end H tick1 (sleepTicks * 1) w3);
          w5 = timer_putINTENSET H saveIntenset w4;
          s1 = components_sleep H (if wakeUpSources then SleepEndWithWakeUps else SleepEnd)
                 (s\<lparr>world := w5\<rparr>);
          s2 = setPowerLED H False s1;
          (t, w6) = time_ms H (world s2)
      in s2\<lparr>world := w6, powerUpTime := t\<rparr>)"

definition simpleDeepSleep_until ::
    "'w power_hw \<Rightarrow> bool \<Rightarrow> u64 \<Rightarrow> bool \<Rightarrow> nat option \<Rightarrow> 'w pm \<Rightarrow> (code \<times> 'w pm) option" where
  "simpleDeepSleep_until H wakeOnTime wakeUpTime wakeUpSources wakeUpPin s =
     (let (timeEntry, w) = time_us H (world s);
          (can, s1) = canDeepSleep H wakeOnTime wakeUpTime wakeUpSources wakeUpPin (s\<lparr>world := w\<rparr>)
      in if can \<noteq> OK then Some (can, s1)
         else
           let (saveCompare, saveIntenset, tickStart, totalTicks, s2) =
                 sleep_enter H timeEntry wakeUpTime wakeUpSources wakeUpPin s1
           in do {
             (tick1, sleepTicks, s3) \<leftarrow> nap_loop H wakeOnTime totalTicks tickStart 0 s2;
             Some (OK, sleep_leave H saveCompare saveIntenset wakeUpSources wakeUpPin
                         tick1 sleepTicks s3)
           })"

definition simpleDeepSleep :: "'w power_hw \<Rightarrow> 'w pm \<Rightarrow> (code \<times> 'w pm) option" where
  "simpleDeepSleep H s =
     (case wakeup_time H (world s) of ((wakeOnTime, eventTime), w) \<Rightarrow>
        simpleDeepSleep_until H wakeOnTime eventTime True None (s\<lparr>world := w\<rparr>))"

definition startDeepSleep :: "'w power_hw \<Rightarrow> 'w pm \<Rightarrow> (code \<times> 'w pm) option" where
  "startDeepSleep H s =
     do {
       (result, s1) \<leftarrow>
         simpleDeepSleep H (pm_ignore H (s\<lparr>world := set_pending H False (world s)\<rparr>));
       Some (result, s1\<lparr>world := lock_notifyAll H (world s1)\<rparr>)
     }"

subsection \<open>The operations of the program\<close>

definition can_sleep_now :: "'w power_hw \<Rightarrow> 'w pm \<Rightarrow> code \<times> 'w pm" where
  "can_sleep_now H s =
     (case wakeup_time H (world s) of ((wakeOnTime, eventTime), w) \<Rightarrow>
        canDeepSleep H wakeOnTime eventTime True None (s\<lparr>world := w\<rparr>))"

definition deepSleep :: "'w power_hw \<Rightarrow> 'w pm \<Rightarrow> 'w pm option" where
  "deepSleep H s =
     (if \<not> scheduler_running H (world s) then map_option snd (simpleDeepSleep H s)
      else case can_sleep_now H s of (can, s1) \<Rightarrow>
        Some (if can = OK then deepSleepWait H s1 else s1))"

definition deepSleepAsync :: "'w power_hw \<Rightarrow> 'w pm \<Rightarrow> 'w pm option" where
  "deepSleepAsync H s =
     (if \<not> scheduler_running H (world s) then map_option snd (simpleDeepSleep H s)
      else case can_sleep_now H s of (can, s1) \<Rightarrow>
        Some (if can = OK then prepareDeepSleep H s1 else s1))"

text \<open>The plain sleep at the end of \<open>deepSleep(milliSeconds)\<close>.\<close>

definition awake_sleep :: "'w power_hw \<Rightarrow> u32 \<Rightarrow> 'w pm \<Rightarrow> 'w pm" where
  "awake_sleep H milliSeconds s =
     powerDownEnable (fiber_sleep H milliSeconds (powerDownDisable s))"

definition deepSleep_for :: "'w power_hw \<Rightarrow> u32 \<Rightarrow> 'w pm \<Rightarrow> 'w pm option" where
  "deepSleep_for H milliSeconds s =
     (if of_nat MINIMUM_DEEP_SLEEP_TIME < milliSeconds then
        let (timeEntry, w) = time_us H (world s);
            wakeUpTime = timeEntry + 1000 * ucast milliSeconds;
            s1 = s\<lparr>world := w\<rparr>
        in if \<not> scheduler_running H w
           then map_option snd (simpleDeepSleep_until H True wakeUpTime True None s1)
           else
             let s2 = s1\<lparr>eventValue := eventValue s1 + 1\<rparr>;
                 (ok, w2) = event_after H milliSeconds (eventValue s2) (world s2);
                 s3 = s2\<lparr>world := w2\<rparr>
             in if \<not> ok then Some (awake_sleep H milliSeconds s3)
                else
                  let s4 = deepSleepWait H s3;
                      (awake, w4) = time_us H (world s4);
                      s5 = s4\<lparr>world := w4\<rparr>;
                      s6 = (if awake + 1000 < wakeUpTime
                            then fiber_sleep H (ucast ((wakeUpTime - awake) div 1000)) s5 else s5)
                  in Some (s6\<lparr>world := cancel_event H (eventValue s6) (world s6)\<rparr>)
      else Some (awake_sleep H milliSeconds s))"

end
