(* ===== verification/Boot.thy ===== *)
theory Boot
  imports DeepSleep NRF52Flash
begin

text \<open>
  \<open>MicroBit\<close> (\<open>model/MicroBit.cpp\<close>): the start of the device, the reaction to listeners and the idle step of
  the scheduler. Drivers, storage, Bluetooth and the event bus are the record \<open>board\<close>.
\<close>

subsection \<open>User storage\<close>

text \<open>\<open>reflash_status\<close> is the address of a word that a new program leaves at \<open>0xffffffff\<close>.\<close>

record 'w board =
  reflash_status :: nat
  erase_on_reflash :: bool
  log_invalidate :: "'w \<Rightarrow> 'w"
  hard_reset :: "'w \<Rightarrow> bool"
  board_wait :: "nat \<Rightarrow> 'w \<Rightarrow> 'w"
  scheduler_init :: "'w \<Rightarrow> 'w"
  component_init :: "nat \<Rightarrow> 'w \<Rightarrow> 'w"
  components :: "nat list"
  seedRandom :: "'w \<Rightarrow> 'w"
  board_listen :: "'w \<Rightarrow> 'w"
  set_priorities :: "'w \<Rightarrow> 'w"
  stored :: "string \<Rightarrow> 'w \<Rightarrow> bool"
  remove_stored :: "string \<Rightarrow> 'w \<Rightarrow> 'w"
  buttons_pressed :: "'w \<Rightarrow> bool"
  set_pixel :: "u8 \<Rightarrow> u8 \<Rightarrow> 'w \<Rightarrow> 'w"
  fiber_pause :: "nat \<Rightarrow> 'w \<Rightarrow> 'w"
  ble_start :: "bool \<Rightarrow> 'w \<Rightarrow> 'w"
  ble_enabled :: bool
  pairing_enabled :: bool

definition KL27_POWER_ON_DELAY :: nat where "KL27_POWER_ON_DELAY = 1000"

definition eraseUserStorage :: "'w board \<Rightarrow> bool \<Rightarrow> mem \<times> 'w \<Rightarrow> mem \<times> 'w" where
  "eraseUserStorage B forceErase x =
     (case x of (m, w) \<Rightarrow>
        let f = nrf52_new 0 128 4096 m;
            (reset_value, f1) = nrf52_read f (reflash_status B) 1;
            reflashed = (reset_value \<noteq> Some [0, 0, 0, 0])
        in if \<not> reflashed \<and> \<not> forceErase then (m, w)
           else
             let f2 = (if reflashed then snd (nrf52_write f1 (reflash_status B) [0, 0, 0, 0] 1) else f1)
             in (nrf_mem f2, if erase_on_reflash B then log_invalidate B w else w))"

subsection \<open>Start\<close>

text \<open>Pairing mode only ends with a reset: entering it is an outcome of its own.\<close>

datatype 'w outcome = Pairing 'w | Proceed 'w

text \<open>One round of the animation of \<open>init\<close>: a pixel and a pause.\<close>

definition animate :: "'w board \<Rightarrow> u8 \<Rightarrow> u8 \<Rightarrow> 'w \<Rightarrow> 'w" where
  "animate B x y w = fiber_pause B 50 (set_pixel B x y w)"

partial_function (option) boot_loop :: "'w board \<Rightarrow> bool \<Rightarrow> bool \<Rightarrow> int \<Rightarrow> u8 \<Rightarrow> u8 \<Rightarrow> 'w \<Rightarrow> 'w outcome option" where
  "boot_loop B rebootMode flashIncomplete i x y w =
     (if buttons_pressed B w \<and> i < 25 \<or> rebootMode \<or> flashIncomplete
      then let w1 = animate B x y w; i' = i + 1; x' = x + 1; (x'', y'') = (if x' = 5 then (0, y + 1) else (x', y))
           in if i' = 25 \<or> rebootMode
              then Some (Pairing (ble_start B True (if rebootMode then remove_stored B ''RebootMode'' w1 else w1)))
              else boot_loop B rebootMode flashIncomplete i' x'' y'' w1
      else Some (Proceed w))"

text \<open>The status bits \<open>DEVICE_INITIALIZED\<close> and \<open>DEVICE_COMPONENT_STATUS_IDLE_TICK\<close> of the device.\<close>

record device_status =
  initialized :: bool
  idle_tick :: bool

definition bring_up :: "'w board \<Rightarrow> mem \<times> 'w \<Rightarrow> mem \<times> 'w" where
  "bring_up B x =
     (let w0 = (if hard_reset B (snd x) then board_wait B KL27_POWER_ON_DELAY (snd x) else snd x);
          (m, w1) = eraseUserStorage B False (fst x, w0);
          w2 = fold (component_init B) (components B) (scheduler_init B w1)
      in (m, set_priorities B (board_listen B (seedRandom B w2))))"

definition microbit_init :: "'w board \<Rightarrow> device_status \<Rightarrow> mem \<times> 'w
    \<Rightarrow> (code \<times> device_status \<times> mem \<times> 'w outcome) option" where
  "microbit_init B s x =
     (if initialized s then Some (NOT_SUPPORTED, s, fst x, Proceed (snd x))
      else
        let (m, w1) = bring_up B x;
            s' = \<lparr>initialized = True, idle_tick = True\<rparr>;
            w2 = fiber_pause B 100 w1;
            booted = (if pairing_enabled B
              then boot_loop B (stored B ''RebootMode'' w1) (stored B ''flashIncomplete'' w1) 0 0 0 w2 else Some (Proceed w1))
        in case booted of
             None \<Rightarrow> None
           | Some (Pairing w) \<Rightarrow> Some (OK, s', m, Pairing w)
           | Some (Proceed w) \<Rightarrow>
               Some (OK, s', m, Proceed (fiber_pause B 10 (if ble_enabled B then ble_start B False w else w))))"

subsection \<open>Listeners and idling\<close>

datatype listener_id = ButtonAB | Compass | Accelerometer | Gesture | Thermometer | Light_sensor | Other_id

text \<open>What the device does for a new listener.\<close>

datatype reaction = Multi_button_events | Start_compass | Start_accelerometer

definition onListenerRegisteredEvent :: "listener_id \<Rightarrow> reaction list" where
  "onListenerRegisteredEvent value = (case value of
     ButtonAB \<Rightarrow> [Multi_button_events] | Compass \<Rightarrow> [Start_compass] | Accelerometer \<Rightarrow> [Start_accelerometer]
   | Gesture \<Rightarrow> [Start_accelerometer] | Thermometer \<Rightarrow> [] | Light_sensor \<Rightarrow> [] | Other_id \<Rightarrow> [])"

text \<open>\<open>guarded\<close> is \<open>CONFIG_ENABLED(MICROBIT_BLE)\<close>; \<open>doze\<close> waits for an event.\<close>

definition schedulerIdle :: "'w power_hw \<Rightarrow> bool \<Rightarrow> ('w \<Rightarrow> bool) \<Rightarrow> ('w \<Rightarrow> 'w) \<Rightarrow> 'w pm \<Rightarrow> 'w pm option" where
  "schedulerIdle H guarded connected doze s =
     (if waitingForDeepSleep H s then
        if guarded \<and> connected (world s)
        then (let s1 = cancelDeepSleep H s in Some (s1\<lparr>world := doze (world s1)\<rparr>))
        else case readyForDeepSleep H s of (ready, s1) \<Rightarrow>
          if ready
          then (case startDeepSleep H s1 of
                  None \<Rightarrow> None
                | Some (result, s2) \<Rightarrow> Some (if result = OK then s2 else s2\<lparr>world := doze (world s2)\<rparr>))
          else Some (s1\<lparr>world := doze (world s1)\<rparr>)
      else Some (s\<lparr>world := doze (world s)\<rparr>))"

subsection \<open>Properties\<close>

lemma rdm_word: "rdm m a 4 = [m a, m (a + 1), m (a + 2), m (a + 3)]"
  by (simp add: rdm_def upt_conv_Cons numeral_3_eq_3 numeral_2_eq_2)

text \<open>The word is read at \<open>a\<close>; erasing writes zeros there.\<close>

lemma erase_steps:
  assumes "reflash_status B < 2 ^ 32"
  defines "a \<equiv> reflash_status B"
  shows "eraseUserStorage B forceErase (m, w) =
    (if rdm m a 4 = [0, 0, 0, 0] \<and> \<not> forceErase then (m, w)
     else (if rdm m a 4 = [0, 0, 0, 0] then m else burn m a [0, 0, 0, 0], if erase_on_reflash B then log_invalidate B w else w))"
  using assms by (auto simp: eraseUserStorage_def nrf52_read_def nrf52_write_def nrf52_new_def Let_def)

text \<open>
  User data is erased once for each new program: the first start after it clears the mark and invalidates
  the log, and the starts that follow leave memory and log alone.
\<close>

theorem erased_once_per_program:
  assumes "reflash_status B < 2 ^ 32" and "(m', w') = eraseUserStorage B False (m, w)"
  shows "eraseUserStorage B False (m', v) = (m', v)
    \<and> (rdm m (reflash_status B) 4 = [0, 0, 0, 0] \<longrightarrow> (m', w') = (m, w))
    \<and> (rdm m (reflash_status B) 4 \<noteq> [0, 0, 0, 0] \<longrightarrow> w' = (if erase_on_reflash B then log_invalidate B w else w)
         \<and> (\<forall>x. \<not> (reflash_status B \<le> x \<and> x < reflash_status B + 4) \<longrightarrow> m' x = m x))"
proof -
  let ?a = "reflash_status B"
  have "rdm (burn m ?a [0, 0, 0, 0]) ?a 4 = [0, 0, 0, 0]"
    by (simp add: rdm_word burn_def)
  then show ?thesis
    using assms(2) by (auto simp: erase_steps [OF assms(1)] burn_def split: if_splits)
qed

text \<open>An example board: the world counts pauses; the buttons are held for a number of them.\<close>

definition demo_board :: "nat \<Rightarrow> bool \<Rightarrow> nat board" where
  "demo_board held rebootMode = \<lparr>reflash_status = 64, erase_on_reflash = True, log_invalidate = \<lambda>w. w, hard_reset = \<lambda>w. False,
     board_wait = \<lambda>t w. w, scheduler_init = \<lambda>w. w, component_init = \<lambda>i w. w, components = [], seedRandom = \<lambda>w. w,
     board_listen = \<lambda>w. w, set_priorities = \<lambda>w. w, stored = \<lambda>k w. rebootMode \<and> k = ''RebootMode'', remove_stored = \<lambda>k w. w,
     buttons_pressed = \<lambda>w. w < held, set_pixel = \<lambda>x y w. w, fiber_pause = \<lambda>t w. w + 1, ble_start = \<lambda>b w. w,
     ble_enabled = False, pairing_enabled = True\<rparr>"

theorem erased_once_per_program_witness:
  "\<exists>m'. eraseUserStorage (demo_board 0 False) False (\<lambda>x. 255, 7) = (m', 7) \<and> m' 70 = 255
    \<and> eraseUserStorage (demo_board 0 False) False (m', 8) = (m', 8)"
proof -
  obtain m' w' where x: "eraseUserStorage (demo_board 0 False) False (\<lambda>x. 255, 7) = (m', w')"
    by (cases "eraseUserStorage (demo_board 0 False) False (\<lambda>x. 255, 7)")
  have "reflash_status (demo_board 0 False) = 64" "log_invalidate (demo_board 0 False) = (\<lambda>w. w)"
    by (simp_all add: demo_board_def)
  then show ?thesis
    using erased_once_per_program [OF _ x [symmetric], of 8] x by (auto simp: rdm_word)
qed

subsection \<open>Pairing mode\<close>

text \<open>The world after \<open>k\<close> rounds of the animation: the pixels of the display in reading order.\<close>

primrec anim :: "'w board \<Rightarrow> nat \<Rightarrow> 'w \<Rightarrow> 'w" where
  "anim B 0 w = w"
| "anim B (Suc k) w = animate B (of_nat (k mod 5)) (of_nat (k div 5)) (anim B k w)"

lemma next_pixel:
  assumes "k < 25"
  shows "(if of_nat (k mod 5) + 1 = (5 :: u8) then (0 :: u8, of_nat (k div 5) + 1 :: u8) else (of_nat (k mod 5) + 1, of_nat (k div 5)))
    = (of_nat (Suc k mod 5), of_nat (Suc k div 5))"
proof (cases "k mod 5 = 4")
  case True
  then have "Suc k mod 5 = 0" "Suc k div 5 = Suc (k div 5)" by presburger+
  then show ?thesis using True by simp
next
  case False
  then have k: "Suc k mod 5 = Suc (k mod 5)" "Suc k div 5 = k div 5" by presburger+
  have "of_nat (k mod 5) + 1 \<noteq> (5 :: u8)"
  proof
    assume "of_nat (k mod 5) + 1 = (5 :: u8)"
    then have "of_nat (k mod 5) = (4 :: u8)" by (simp add: eq_diff_eq [symmetric])
    then have "unat (of_nat (k mod 5) :: u8) = 4" by simp
    moreover have "k mod 5 < 256" by (rule less_trans [of _ 5]) simp_all
    ultimately show False using False by (simp add: unat_of_nat)
  qed
  then show ?thesis using k by (simp add: add.commute)
qed

lemma boot_loop_from:
  "k < 25 \<Longrightarrow> boot_loop B False inc (int k) (of_nat (k mod 5)) (of_nat (k div 5)) (anim B k w) =
    (if inc \<or> (\<forall>j. k \<le> j \<and> j < 25 \<longrightarrow> buttons_pressed B (anim B j w))
     then Some (Pairing (ble_start B True (anim B 25 w)))
     else Some (Proceed (anim B (LEAST j. k \<le> j \<and> \<not> buttons_pressed B (anim B j w)) w)))"
proof (induction "25 - k" arbitrary: k)
  case (Suc n)
  show ?case
  proof (cases "inc \<or> buttons_pressed B (anim B k w)")
    case True
    have step: "boot_loop B False inc (int k) (of_nat (k mod 5)) (of_nat (k div 5)) (anim B k w) =
      (if Suc k = 25 then Some (Pairing (ble_start B True (anim B (Suc k) w)))
       else boot_loop B False inc (int (Suc k)) (of_nat (Suc k mod 5)) (of_nat (Suc k div 5)) (anim B (Suc k) w))"
    proof -
      have go: "(buttons_pressed B (anim B k w) \<and> int k < 25 \<or> False \<or> inc) = True" "(int (Suc k) = 25 \<or> False) = (Suc k = 25)"
        "int k + 1 = int (Suc k)" using True Suc.prems by auto
      show ?thesis
        by (subst boot_loop.simps) (simp only: Let_def next_pixel [OF Suc.prems] prod.case go anim.simps if_True if_False)
    qed
    show ?thesis
    proof (cases "Suc k = 25")
      case True
      have "k \<le> j \<and> j < 25 \<longleftrightarrow> j = k" for j using True by auto
      moreover have "anim B 25 w = anim B (Suc k) w" using True by simp
      ultimately show ?thesis using step True \<open>inc \<or> _\<close> by (simp only: if_True) auto
    next
      case False
      have IH: "boot_loop B False inc (int (Suc k)) (of_nat (Suc k mod 5)) (of_nat (Suc k div 5)) (anim B (Suc k) w) =
        (if inc \<or> (\<forall>j. Suc k \<le> j \<and> j < 25 \<longrightarrow> buttons_pressed B (anim B j w))
         then Some (Pairing (ble_start B True (anim B 25 w)))
         else Some (Proceed (anim B (LEAST j. Suc k \<le> j \<and> \<not> buttons_pressed B (anim B j w)) w)))"
        by (rule Suc.hyps(1)) (use Suc.hyps(2) Suc.prems False in auto)
      show ?thesis
      proof (cases "buttons_pressed B (anim B k w)")
        case pressed: True
        have "k \<le> j \<and> \<not> buttons_pressed B (anim B j w) \<longleftrightarrow> Suc k \<le> j \<and> \<not> buttons_pressed B (anim B j w)" for j
          using pressed by (cases "j = k") auto
        moreover have "(k \<le> j \<and> j < 25 \<longrightarrow> buttons_pressed B (anim B j w)) \<longleftrightarrow> (Suc k \<le> j \<and> j < 25 \<longrightarrow> buttons_pressed B (anim B j w))" for j
          using pressed by (cases "j = k") auto
        ultimately show ?thesis using step False IH by (simp only: if_False)
      next
        case released: False
        then have inc using True by simp
        then show ?thesis using step False IH by (simp only: if_False if_True simp_thms)
      qed
    qed
  next
    case False
    then have "(LEAST j. k \<le> j \<and> \<not> buttons_pressed B (anim B j w)) = k" by (intro Least_equality) auto
    then show ?thesis using False Suc.prems by (subst boot_loop.simps) auto
  qed
qed simp

text \<open>
  C40 The start always comes to an end, and it ends in pairing mode exactly when the storage asks for it, holds
  an incomplete flashing, or both buttons are held during all 25 steps of the animation.
\<close>

theorem boot_enters_pairing:
  assumes "\<not> initialized s" and "pairing_enabled B" and "(m, w1) = bring_up B x"
  shows "\<exists>out. microbit_init B s x = Some (OK, \<lparr>initialized = True, idle_tick = True\<rparr>, m, out)
    \<and> ((\<exists>w. out = Pairing w) \<longleftrightarrow> stored B ''RebootMode'' w1 \<or> stored B ''flashIncomplete'' w1
         \<or> (\<forall>k < 25. buttons_pressed B (anim B k (fiber_pause B 100 w1))))"
proof -
  let ?w = "fiber_pause B 100 w1"
  have loop: "\<exists>out. boot_loop B (stored B ''RebootMode'' w1) (stored B ''flashIncomplete'' w1) 0 0 0 ?w = Some out
    \<and> ((\<exists>w. out = Pairing w) \<longleftrightarrow> stored B ''RebootMode'' w1 \<or> stored B ''flashIncomplete'' w1
         \<or> (\<forall>k < 25. buttons_pressed B (anim B k ?w)))"
  proof (cases "stored B ''RebootMode'' w1")
    case True
    then show ?thesis by (subst boot_loop.simps) (simp add: Let_def)
  next
    case False
    then show ?thesis using boot_loop_from [of 0 B "stored B ''flashIncomplete'' w1" ?w] by auto
  qed
  then obtain out where out: "boot_loop B (stored B ''RebootMode'' w1) (stored B ''flashIncomplete'' w1) 0 0 0 ?w = Some out"
    "(\<exists>w. out = Pairing w) \<longleftrightarrow> stored B ''RebootMode'' w1 \<or> stored B ''flashIncomplete'' w1
         \<or> (\<forall>k < 25. buttons_pressed B (anim B k ?w))" by blast
  then show ?thesis using assms by (cases out) (simp_all add: microbit_init_def Let_def assms(3) [symmetric])
qed

theorem boot_enters_pairing_witness:
  "\<exists>m w. microbit_init (demo_board 40 False) \<lparr>initialized = False, idle_tick = False\<rparr> (\<lambda>x. 0, 0)
    = Some (OK, \<lparr>initialized = True, idle_tick = True\<rparr>, m, Pairing w)"
proof -
  obtain m w1 where up: "(m, w1) = bring_up (demo_board 40 False) (\<lambda>x. 0, 0)"
    by (cases "bring_up (demo_board 40 False) (\<lambda>x. 0, 0)") simp
  have "w1 = 0"
    using up by (simp add: bring_up_def demo_board_def eraseUserStorage_def nrf52_read_def nrf52_new_def rdm_word)
  moreover have "anim (demo_board 40 False) k w = w + k" for k w
    by (induction k) (simp_all add: animate_def demo_board_def)
  ultimately have "\<forall>k < 25. buttons_pressed (demo_board 40 False) (anim (demo_board 40 False) k (fiber_pause (demo_board 40 False) 100 w1))"
    by (simp add: demo_board_def)
  then show ?thesis
    using boot_enters_pairing [OF _ _ up, of "\<lparr>initialized = False, idle_tick = False\<rparr>"] by (auto simp: demo_board_def)
qed

text \<open>While no fibre waits for it, the idle step never sleeps deeply.\<close>

lemma idle_dozes: "\<not> waitingForDeepSleep H s \<Longrightarrow> schedulerIdle H guarded connected doze s = Some (s\<lparr>world := doze (world s)\<rparr>)"
  by (simp add: schedulerIdle_def)

end
