(* ===== verification/PartialFlashing.thy ===== *)
theory PartialFlashing
  imports MemoryMap Boot
begin

text \<open>
  \<open>MicroBitPartialFlashingService\<close> (\<open>source/bluetooth/MicroBitPartialFlashingService.cpp\<close>): a program
  is replaced over Bluetooth in blocks of 64 bytes. A block comes in four numbered packets; when the
  last has arrived an event is put on the message bus, and its listener burns the block to flash and
  notifies the client, which then sends the next block.

  The state is the object's fields, the two globals with the bounds of MicroPython's file system, the
  processor's flash, the world outside it (the log on the interface chip is part of it), the events on
  the bus the listener has not seen yet, the notifications sent, and the resets. The key-value storage
  is a component of the core library that lives in the same flash: its three operations on the key
  \<open>flashIncomplete\<close> are arguments, which may change world and flash. Arguments are also the bytes of
  the bootloader's settings, a structure of the vendor's kit whose checksums are computed by its
  library, and the addresses of its pages. The device, when there is one, is that of \<open>Boot\<close>, whose
  \<open>eraseUserStorage\<close> ends a transmission. \<open>None\<close> is an access outside a packet or a table.
\<close>

abbreviation REGION_INFO :: u8 where "REGION_INFO \<equiv> 0x00"
abbreviation FLASH_DATA :: u8 where "FLASH_DATA \<equiv> 0x01"
abbreviation END_OF_TRANSMISSION :: u8 where "END_OF_TRANSMISSION \<equiv> 0x02"
abbreviation MICROBIT_STATUS :: u8 where "MICROBIT_STATUS \<equiv> 0xEE"
abbreviation MICROBIT_RESET :: u8 where "MICROBIT_RESET \<equiv> 0xFF"
abbreviation PARTIAL_FLASHING_VERSION :: u8 where "PARTIAL_FLASHING_VERSION \<equiv> 0x01"
abbreviation MICROBIT_MODE_PAIRING :: u8 where "MICROBIT_MODE_PAIRING \<equiv> 0"
abbreviation MICROBIT_MODE_APPLICATION :: u8 where "MICROBIT_MODE_APPLICATION \<equiv> 1"

datatype pf_action = ResetDevice | RestartInBLEMode

record 'st pf_env =
  maps :: map_env
  store_has :: "'st \<Rightarrow> bool"
  store_put :: "'st \<times> mem \<Rightarrow> 'st \<times> mem"
  store_remove :: "'st \<times> mem \<Rightarrow> 'st \<times> mem"
  settings :: "u8 list"
  settings_page :: nat
  backup_page :: nat
  currentMode :: u8
  device :: "'st board option"

record 'st pf =
  packetCount :: u8
  blockPacketCount :: u8
  blockNum :: nat
  pf_offset :: u32
  block :: "u8 list"
  micropython_fs_start :: nat
  micropython_fs_end :: nat
  pf_flash :: mem
  store :: 'st
  pending :: "u8 list"
  notified :: "u8 list list"
  actions :: "pf_action list"

text \<open>The block is not initialised; \<open>junk\<close> is what it holds.\<close>

definition pf_new :: "u8 list \<Rightarrow> mem \<Rightarrow> 'st \<Rightarrow> 'st pf" where
  "pf_new junk m st = \<lparr>packetCount = 0, blockPacketCount = 0, blockNum = 0, pf_offset = 0, block = junk,
     micropython_fs_start = 0, micropython_fs_end = 0, pf_flash = m, store = st, pending = [], notified = [],
     actions = []\<rparr>"

definition notify :: "u8 list \<Rightarrow> 'st pf \<Rightarrow> 'st pf" where
  "notify bs s = s\<lparr>notified := notified s @ [bs]\<rparr>"

definition fire :: "u8 \<Rightarrow> 'st pf \<Rightarrow> 'st pf" where
  "fire v s = s\<lparr>pending := pending s @ [v]\<rparr>"

definition act :: "pf_action \<Rightarrow> 'st pf \<Rightarrow> 'st pf" where
  "act a s = s\<lparr>actions := actions s @ [a]\<rparr>"

subsection \<open>Packets\<close>

text \<open>A number that lies less than 8 behind the one expected, around 256, is of the batch before.\<close>

definition previous_batch :: "u8 \<Rightarrow> u8 \<Rightarrow> bool" where
  "previous_batch packetNum count \<longleftrightarrow>
     (if packetNum < count then unat count - unat packetNum < 8 else unat packetNum - unat count > 248)"

definition flashData :: "u8 list \<Rightarrow> 'st pf \<Rightarrow> 'st pf option" where
  "flashData data s =
     (if length data < 4 then None
      else if data ! 3 \<noteq> packetCount s then
        if previous_batch (data ! 3) (packetCount s) then Some s
        else
          let s1 = notify [FLASH_DATA, 0xAA] s;
              n = blockPacketCount s1 + 4
          in Some (s1\<lparr>blockPacketCount := n, packetCount := n, blockNum := 0\<rparr>)
      else if length data < 20 \<or> blockNum s > 3 then None
      else
        let s1 = s\<lparr>packetCount := packetCount s + 1,
                   block := blit (block s) (16 * blockNum s) (take 16 (drop 4 data))\<rparr>
        in Some (if blockNum s1 = 0 then
                   s1\<lparr>pf_offset := push_bit 8 (ucast (data ! 1)) OR ucast (data ! 2), blockNum := blockNum s1 + 1\<rparr>
                 else if blockNum s1 = 1 then
                   s1\<lparr>pf_offset := pf_offset s1 OR (push_bit 24 (ucast (data ! 1)) OR push_bit 16 (ucast (data ! 2))),
                      blockNum := blockNum s1 + 1\<rparr>
                 else if blockNum s1 = 3 then
                   (fire FLASH_DATA s1)\<lparr>blockNum := 0, blockPacketCount := blockPacketCount s1 + 4\<rparr>
                 else s1\<lparr>blockNum := blockNum s1 + 1\<rparr>))"

definition be_bytes :: "nat \<Rightarrow> u8 list" where
  "be_bytes n = [of_nat (n div 16777216), of_nat (n div 65536), of_nat (n div 256), of_nat n]"

definition region_info :: "'st pf_env \<Rightarrow> u8 list \<Rightarrow> 'st pf \<Rightarrow> 'st pf option" where
  "region_info E data s =
     (case map_new (maps E) (pf_flash s) of
        None \<Rightarrow> None
      | Some mm \<Rightarrow>
          let py = memoryMap mm ! 2;
              s1 = (if micropython_fs_end s = 0 \<and> startAddress py \<noteq> 0 \<and> regionId py = REGION_PYTHON
                    then s\<lparr>micropython_fs_start := startAddress py, micropython_fs_end := endAddress py\<rparr> else s)
          in if length data < 2 \<or> unat (data ! 1) \<ge> NUMBER_OF_REGIONS then None
             else
               let r = memoryMap mm ! unat (data ! 1)
               in Some ((notify ([0, data ! 1] @ be_bytes (startAddress r) @ be_bytes (endAddress r) @ rhash r) s1)
                    \<lparr>packetCount := 0, blockPacketCount := 0, blockNum := 0, pf_offset := 0\<rparr>))"

definition onDataWritten :: "'st pf_env \<Rightarrow> bool \<Rightarrow> u8 list \<Rightarrow> 'st pf \<Rightarrow> 'st pf option" where
  "onDataWritten E handle_is_ctrl data s =
     (if \<not> handle_is_ctrl \<or> data = [] then Some s
      else if data ! 0 = REGION_INFO then region_info E data s
      else if data ! 0 = FLASH_DATA then flashData data s
      else if data ! 0 = END_OF_TRANSMISSION then Some (fire END_OF_TRANSMISSION s)
      else if data ! 0 = MICROBIT_STATUS then
        Some (notify [MICROBIT_STATUS, PARTIAL_FLASHING_VERSION, currentMode E] s)
      else if data ! 0 = MICROBIT_RESET then
        if length data < 2 then None
        else if data ! 1 = MICROBIT_MODE_PAIRING then Some (fire MICROBIT_RESET s)
        else if data ! 1 = MICROBIT_MODE_APPLICATION then Some (act ResetDevice s)
        else Some s
      else Some s)"

subsection \<open>Writing to flash\<close>

definition page_used :: "mem \<Rightarrow> nat \<Rightarrow> nat \<Rightarrow> bool" where
  "page_used m page words \<longleftrightarrow> list_ex (\<lambda>i. rd32 m (page + 4 * i) \<noteq> 0xFFFFFFFF) [0..<words]"

definition erase_if_used :: "nat \<Rightarrow> nat \<Rightarrow> nat \<Rightarrow> mem \<Rightarrow> mem" where
  "erase_if_used cps page words m = (if page_used m page words then erase_page cps page m else m)"

function erase_used :: "nat \<Rightarrow> nat \<Rightarrow> nat \<Rightarrow> mem \<Rightarrow> mem" where
  "erase_used cps page to m =
     (if page < to \<and> 0 < cps then erase_used cps (page + cps) to (erase_if_used cps page 1024 m) else m)"
  by pat_completeness auto
termination by (relation "measure (\<lambda>(cps, page, to, m). to - page)") auto

declare erase_used.simps [simp del]

text \<open>The settings are written to a page when it does not hold them yet.\<close>

definition save_settings :: "'st pf_env \<Rightarrow> nat \<Rightarrow> mem \<Rightarrow> mem" where
  "save_settings E page m =
     (if rdm m page (length (settings E)) \<noteq> settings E
      then flash_burn page (settings E) ((length (settings E) + 3) div 4) (erase_page (PAGE_SIZE (maps E)) page m)
      else m)"

definition noValidation :: "'st pf_env \<Rightarrow> 'st pf \<Rightarrow> 'st pf" where
  "noValidation E s =
     s\<lparr>pf_flash := save_settings E (backup_page E) (save_settings E (settings_page E) (pf_flash s))\<rparr>"

definition set_incomplete :: "'st pf_env \<Rightarrow> 'st pf \<Rightarrow> 'st pf" where
  "set_incomplete E s =
     (if store_has E (store s) then s
      else
        let (st, m) = store_put E (store s, pf_flash s);
            s1 = s\<lparr>store := st, pf_flash := m\<rparr>
        in if micropython_fs_end s1 \<noteq> 0
           then s1\<lparr>pf_flash := erase_used (PAGE_SIZE (maps E)) (micropython_fs_start s1) (micropython_fs_end s1) (pf_flash s1)\<rparr>
           else s1)"

definition partialFlashingEvent :: "'st pf_env \<Rightarrow> u8 \<Rightarrow> 'st pf \<Rightarrow> 'st pf" where
  "partialFlashingEvent E v s =
     (if v = FLASH_DATA then
        let s1 = set_incomplete E s;
            a = unat (pf_offset s1);
            P = PAGE_SIZE (maps E);
            m1 = (if a mod P = 0 then erase_if_used P a (P div 4) (pf_flash s1) else pf_flash s1);
            m2 = flash_burn a (block s1) 16 m1
        in notify [FLASH_DATA, 0xFF] (s1\<lparr>pf_flash := m2\<rparr>)
      else if v = END_OF_TRANSMISSION then
        let s1 = s\<lparr>pf_flash := flash_burn (unat (pf_offset s)) (block s) 16 (pf_flash s)\<rparr>;
            s2 = noValidation E s1;
            (st3, m3) = store_remove E (store s2, pf_flash s2);
            (m4, st4) = (case device E of None \<Rightarrow> (m3, st3) | Some B \<Rightarrow> eraseUserStorage B True (m3, st3))
        in act ResetDevice (s2\<lparr>pf_flash := m4, store := st4\<rparr>)
      else if v = MICROBIT_RESET then act RestartInBLEMode s
      else s)"

text \<open>The message bus hands the oldest event to the listener.\<close>

definition deliver_event :: "'st pf_env \<Rightarrow> 'st pf \<Rightarrow> 'st pf" where
  "deliver_event E s =
     (case pending s of [] \<Rightarrow> s | v # vs \<Rightarrow> partialFlashingEvent E v (s\<lparr>pending := vs\<rparr>))"

fun receive :: "'st pf_env \<Rightarrow> u8 list list \<Rightarrow> 'st pf \<Rightarrow> 'st pf option" where
  "receive E [] s = Some s"
| "receive E (p # ps) s = (case onDataWritten E True p s of None \<Rightarrow> None | Some s' \<Rightarrow> receive E ps s')"

end
