(* ===== verification/PartialFlashingProps.thy ===== *)
theory PartialFlashingProps
  imports PartialFlashing
begin

text \<open>
  What the partial flashing service promises to a client that keeps to its protocol: the packets of
  one block (\<open>arrivals\<close>), attempts to send a block (\<open>send_block\<close>), and a whole program sent over a
  connection that loses, repeats and reorders packets within a block (\<open>send_image\<close>).
\<close>

subsection \<open>The client\<close>

text \<open>Packet \<open>k\<close> of a block: the low half of the address is in packet 0, the high half in packet 1.\<close>

definition offset_bytes :: "u32 \<Rightarrow> nat \<Rightarrow> u8 list" where
  "offset_bytes off k =
     (if k = 0 then [ucast (drop_bit 8 off), ucast off]
      else if k = 1 then [ucast (drop_bit 24 off), ucast (drop_bit 16 off)] else [0, 0])"

definition block_packet :: "u8 \<Rightarrow> u32 \<Rightarrow> u8 list \<Rightarrow> nat \<Rightarrow> u8 list" where
  "block_packet pn off data k =
     [FLASH_DATA] @ offset_bytes off k @ [pn + of_nat k] @ take 16 (drop (16 * k) data)"

text \<open>
  What becomes of the packets of a block that arrive, in whatever order and number: those behind the
  one expected are ignored, one ahead of it loses the block.
\<close>

datatype outcome = Reached nat | Lost

fun arrivals :: "nat \<Rightarrow> nat list \<Rightarrow> outcome" where
  "arrivals i [] = Reached i"
| "arrivals i (k # ks) =
     (if k < i then arrivals i ks else if k = i then arrivals (Suc i) ks else Lost)"

subsection \<open>Packet numbers\<close>

lemma previous_batch_iff: "n \<noteq> c \<Longrightarrow> previous_batch n c \<longleftrightarrow> unat (c - n) < 8"
proof -
  assume "n \<noteq> c"
  then have "unat n \<noteq> unat c" by (simp add: word_unat_eq_iff)
  moreover have "unat n < 256" "unat c < 256" using unsigned_less [of n] unsigned_less [of c] by simp_all
  ultimately show ?thesis by (auto simp: previous_batch_def unat_sub_if' word_less_nat_alt)
qed

lemma number_distance:
  "i < 8 \<Longrightarrow> k < 8 \<Longrightarrow> unat ((pn + of_nat i) - (pn + of_nat k) :: u8) = (if k \<le> i then i - k else i + 256 - k)"
  by (simp add: unat_sub_if' unat_of_nat)

lemma numbers_ne: "i \<noteq> k \<Longrightarrow> i < 256 \<Longrightarrow> k < 256 \<Longrightarrow> pn + of_nat k \<noteq> (pn + of_nat i :: u8)"
  by (auto simp: of_nat_eq_iff dest!: arg_cong [where f = unat] simp: unat_of_nat)

lemma number_behind: "k < i \<Longrightarrow> i < 8 \<Longrightarrow> previous_batch (pn + of_nat k) (pn + of_nat i)"
  using numbers_ne [of i k pn] number_distance [of i k pn] by (simp add: previous_batch_iff)

lemma number_ahead: "i < k \<Longrightarrow> k < 8 \<Longrightarrow> \<not> previous_batch (pn + of_nat k) (pn + of_nat i)"
  using numbers_ne [of i k pn] number_distance [of i k pn] by (simp add: previous_batch_iff)

subsection \<open>One block\<close>

lemma offset_joined:
  "(push_bit 8 (ucast (ucast (drop_bit 8 off) :: u8)) OR ucast (ucast off :: u8)) OR
   (push_bit 24 (ucast (ucast (drop_bit 24 off) :: u8)) OR push_bit 16 (ucast (ucast (drop_bit 16 off) :: u8))) = (off :: u32)" (is "?w = off")
proof (rule bit_eqI)
  fix n assume "possible_bit TYPE(u32) n"
  then have "n < 32" by simp
  then have "n < 8 \<or> 8 \<le> n \<and> n < 16 \<or> 16 \<le> n \<and> n < 24 \<or> 24 \<le> n \<and> n < 32" by linarith
  then show "bit ?w n = bit off n"
    by (elim disjE) (auto simp: bit_simps)
qed

text \<open>The state with the first \<open>i\<close> packets of a block taken, and with all of them.\<close>

definition taking :: "u8 \<Rightarrow> u32 \<Rightarrow> u8 list \<Rightarrow> nat \<Rightarrow> 'st pf \<Rightarrow> bool" where
  "taking pn off data i s \<longleftrightarrow> packetCount s = pn + of_nat i \<and> length (block s) = 64 \<and> length data = 64 \<and>
     (if i < 4
      then blockNum s = i \<and> blockPacketCount s = pn \<and> take (16 * i) (block s) = take (16 * i) data \<and> pending s = [] \<and>
        (i = 1 \<longrightarrow> pf_offset s = push_bit 8 (ucast (ucast (drop_bit 8 off) :: u8)) OR ucast (ucast off :: u8)) \<and>
        (1 < i \<longrightarrow> pf_offset s = off)
      else i = 4 \<and> blockNum s = 0 \<and> blockPacketCount s = pn + 4 \<and> block s = data \<and> pending s = [FLASH_DATA] \<and> pf_offset s = off)"

text \<open>What packets leave alone.\<close>

definition same_world :: "'st pf \<Rightarrow> 'st pf \<Rightarrow> bool" where
  "same_world s s' \<longleftrightarrow> pf_flash s' = pf_flash s \<and> store s' = store s \<and> actions s' = actions s \<and>
     micropython_fs_start s' = micropython_fs_start s \<and> micropython_fs_end s' = micropython_fs_end s"

lemma same_world_refl [simp]: "same_world s s"
  by (simp add: same_world_def)

lemma same_world_trans: "same_world s s' \<Longrightarrow> same_world s' s'' \<Longrightarrow> same_world s s''"
  by (simp add: same_world_def)

lemma block_packet_simps:
  assumes "length data = 64" and "k < 4"
  shows "length (block_packet pn off data k) = 20" and "block_packet pn off data k ! 0 = FLASH_DATA"
    and "block_packet pn off data k ! 3 = pn + of_nat k"
    and "take 16 (drop 4 (block_packet pn off data k)) = take 16 (drop (16 * k) data)"
    and "block_packet pn off data k ! 1 = offset_bytes off k ! 0"
    and "block_packet pn off data k ! 2 = offset_bytes off k ! 1"
  using assms by (auto simp: block_packet_def offset_bytes_def eval_nat_numeral)

lemma receive_block_packet:
  "length data = 64 \<Longrightarrow> k < 4 \<Longrightarrow>
    onDataWritten E True (block_packet pn off data k) s = flashData (block_packet pn off data k) s"
  using block_packet_simps(1,2) [of data k pn off] by (auto simp: onDataWritten_def)

lemma packet_ignored:
  assumes "taking pn off data i s" and "k < i" and "k < 4"
  shows "flashData (block_packet pn off data k) s = Some s"
proof -
  have "i \<le> 4" "length data = 64" "packetCount s = pn + of_nat i" using assms(1) by (auto simp: taking_def split: if_splits)
  then show ?thesis
    using numbers_ne [of i k pn] number_behind [of k i pn] assms block_packet_simps [of data k pn off]
    by (simp add: flashData_def)
qed

lemma packet_ahead:
  assumes "taking pn off data i s" and "i < k" and "k < 4"
  shows "\<exists>s'. flashData (block_packet pn off data k) s = Some s' \<and> same_world s s' \<and>
    notified s' = notified s @ [[FLASH_DATA, 0xAA]] \<and> taking (pn + 4) off' data 0 s'"
proof -
  have s: "length data = 64" "packetCount s = pn + of_nat i" "blockPacketCount s = pn" "length (block s) = 64" "pending s = []"
    using assms by (auto simp: taking_def split: if_splits)
  then show ?thesis
    using numbers_ne [of i k pn] number_ahead [of i k pn] assms block_packet_simps [of data k pn off]
    by (simp add: flashData_def taking_def same_world_def notify_def Let_def)
qed

lemma packet_taken:
  assumes "taking pn off data k s" and "k < 4"
  shows "\<exists>s'. flashData (block_packet pn off data k) s = Some s' \<and> same_world s s' \<and>
    notified s' = notified s \<and> taking pn off data (Suc k) s'"
proof -
  have s: "length data = 64" "packetCount s = pn + of_nat k" "blockPacketCount s = pn" "length (block s) = 64" "pending s = []"
    "blockNum s = k" "take (16 * k) (block s) = take (16 * k) data"
    "k = 1 \<longrightarrow> pf_offset s = push_bit 8 (ucast (ucast (drop_bit 8 off) :: u8)) OR ucast (ucast off :: u8)"
    "1 < k \<longrightarrow> pf_offset s = off"
    using assms by (auto simp: taking_def)
  let ?b = "blit (block s) (16 * k) (take 16 (drop (16 * k) data))"
  have l: "length (take 16 (drop (16 * k) data)) = 16" using s(1) assms(2) by simp
  have b: "take (16 * k + 16) ?b = take (16 * k + 16) data" "length ?b = 64"
    using s assms(2) l by (simp_all add: blit_def take_add)
  then have b4: "k = 3 \<Longrightarrow> ?b = data" using s(1) by simp
  have "k = 0 \<or> k = 1 \<or> k = 2 \<or> k = 3" using assms(2) by linarith
  then show ?thesis
    using s b b4 l block_packet_simps [of data k pn off] assms(2) offset_joined [of off]
    by (elim disjE)
      (simp_all add: flashData_def taking_def same_world_def Let_def fire_def offset_bytes_def add.assoc [symmetric])
qed

lemma block_packet_old:
  assumes "taking (pn + 4) off' data' 0 s" and "length data = 64" and "k < 4"
  shows "flashData (block_packet pn off data k) s = Some s"
proof -
  have "packetCount s = pn + of_nat 4" using assms(1) by (simp add: taking_def)
  then show ?thesis
    using numbers_ne [of 4 k pn] number_behind [of k 4 pn] assms(2,3) block_packet_simps [of data k pn off]
    by (simp add: flashData_def del: of_nat_numeral)
qed

lemma receive_old:
  "taking (pn + 4) off' data' 0 s \<Longrightarrow> length data = 64 \<Longrightarrow> set ks \<subseteq> {..<4} \<Longrightarrow>
    receive E (map (block_packet pn off data) ks) s = Some s"
  by (induction ks) (auto simp: receive_block_packet block_packet_old)

lemma arrivals_spec:
  assumes "taking pn off data i s" and "set ks \<subseteq> {..<4}"
  shows "\<exists>s'. receive E (map (block_packet pn off data) ks) s = Some s' \<and> same_world s s' \<and>
    (case arrivals i ks of
       Reached j \<Rightarrow> taking pn off data j s' \<and> notified s' = notified s
     | Lost \<Rightarrow> taking (pn + 4) off data 0 s' \<and> notified s' = notified s @ [[FLASH_DATA, 0xAA]])"
  using assms
proof (induction ks arbitrary: i s)
  case Nil
  then show ?case by simp
next
  case (Cons k ks)
  have k: "k < 4" and ks: "set ks \<subseteq> {..<4}" using Cons.prems(2) by auto
  have len: "length data = 64" using Cons.prems(1) by (simp add: taking_def)
  consider "k < i" | "k = i" | "i < k" by linarith
  then show ?case
  proof cases
    case 1
    then show ?thesis
      using Cons.IH [OF Cons.prems(1) ks] packet_ignored [OF Cons.prems(1) 1 k] by (simp add: receive_block_packet [OF len k])
  next
    case 2
    with packet_taken Cons.prems(1) k obtain s1 where s1: "flashData (block_packet pn off data k) s = Some s1"
      "same_world s s1" "notified s1 = notified s" "taking pn off data (Suc k) s1" by blast
    have r: "receive E (map (block_packet pn off data) (k # ks)) s = receive E (map (block_packet pn off data) ks) s1"
      by (simp add: receive_block_packet [OF len k] s1(1))
    have a: "arrivals i (k # ks) = arrivals (Suc k) ks" using 2 by simp
    show ?thesis
      unfolding r a s1(3) [symmetric] using Cons.IH [OF s1(4) ks] same_world_trans [OF s1(2)] by blast
  next
    case 3
    with packet_ahead Cons.prems(1) k obtain s1 where s1: "flashData (block_packet pn off data k) s = Some s1"
      "same_world s s1" "notified s1 = notified s @ [[FLASH_DATA, 0xAA]]" "taking (pn + 4) off data 0 s1" by blast
    show ?thesis using 3 s1 receive_old [OF s1(4) len ks] by (simp add: receive_block_packet [OF len k])
  qed
qed

lemma arrivals_le: "i \<le> 4 \<Longrightarrow> set ks \<subseteq> {..<4} \<Longrightarrow> arrivals i ks = Reached j \<Longrightarrow> j \<le> 4"
  by (induction ks arbitrary: i) (auto split: if_splits, metis Suc_leI)

text \<open>
  A client sends a block, some of whose packets arrive; when it is refused it sends the block again
  under the next numbers, when nothing comes back under the same ones. The listener runs once a
  block is complete.
\<close>

fun send_block :: "'st pf_env \<Rightarrow> u8 \<Rightarrow> u32 \<Rightarrow> u8 list \<Rightarrow> nat list list \<Rightarrow> 'st pf \<Rightarrow> (u8 \<times> 'st pf) option" where
  "send_block E pn off data [] s = None"
| "send_block E pn off data (ks # tries) s =
     (case receive E (map (block_packet pn off data) ks) s of
        None \<Rightarrow> None
      | Some s' \<Rightarrow>
          if pending s' \<noteq> [] then Some (pn + 4, deliver_event E s')
          else if notified s' \<noteq> notified s then send_block E (pn + 4) off data tries s'
          else send_block E pn off data tries s')"

text \<open>Whether a series of attempts gets the block through.\<close>

fun gets_through :: "nat \<Rightarrow> nat list list \<Rightarrow> bool" where
  "gets_through i [] \<longleftrightarrow> False"
| "gets_through i (ks # tries) \<longleftrightarrow>
     (case arrivals i ks of Lost \<Rightarrow> gets_through 0 tries | Reached j \<Rightarrow> j = 4 \<or> gets_through j tries)"

lemma send_block_spec:
  assumes "taking pn off data i s" and "i < 4" and "gets_through i tries" and "\<forall>ks \<in> set tries. set ks \<subseteq> {..<4}"
  shows "\<exists>pn' s'. send_block E pn off data tries s = Some (pn' + 4, deliver_event E s') \<and> same_world s s' \<and>
    taking pn' off data 4 s'"
  using assms
proof (induction tries arbitrary: pn i s)
  case Nil
  then show ?case by simp
next
  case (Cons ks tries)
  have ks: "set ks \<subseteq> {..<4}" using Cons.prems(4) by simp
  obtain s1 where s1: "receive E (map (block_packet pn off data) ks) s = Some s1" "same_world s s1"
    "case arrivals i ks of Reached j \<Rightarrow> taking pn off data j s1 \<and> notified s1 = notified s
     | Lost \<Rightarrow> taking (pn + 4) off data 0 s1 \<and> notified s1 = notified s @ [[FLASH_DATA, 0xAA]]"
    using arrivals_spec [OF Cons.prems(1) ks, of E] by blast
  show ?case
  proof (cases "arrivals i ks")
    case (Reached j)
    show ?thesis
    proof (cases "j = 4")
      case True
      then have "pending s1 \<noteq> []" "taking pn off data 4 s1" using s1(3) Reached by (simp_all add: taking_def)
      then show ?thesis using s1 by auto
    next
      case False
      then have j: "j < 4" using arrivals_le [OF _ ks Reached] Cons.prems(2) by simp
      then have t: "taking pn off data j s1" "pending s1 = []" "notified s1 = notified s" "gets_through j tries"
        using s1(3) Reached False Cons.prems(3) by (simp_all add: taking_def)
      then show ?thesis
        using Cons.IH [OF t(1) j t(4)] Cons.prems(4) s1(1) same_world_trans [OF s1(2)] by fastforce
    qed
  next
    case Lost
    then have t: "taking (pn + 4) off data 0 s1" "pending s1 = []" "notified s1 \<noteq> notified s" "gets_through 0 tries"
      using s1(3) Cons.prems(3) by (simp_all add: taking_def)
    then show ?thesis
      using Cons.IH [OF t(1) _ t(4)] Cons.prems(4) s1(1) same_world_trans [OF s1(2)] by fastforce
  qed
qed

subsection \<open>The flash behind a block\<close>

lemma word_blank: "rd32 m a = 0xFFFFFFFF \<Longrightarrow> i < 4 \<Longrightarrow> m (a + i) = 255"
proof -
  have "unat (m x) < 256" for x using unsigned_less [of "m x"] by simp
  then have b: "unat (m x) \<le> 255" for x using Suc_leI [of "unat (m x)" 256] by simp
  have e: "a + 2 + 1 = a + 3" by simp
  assume "rd32 m a = 0xFFFFFFFF" and i: "i < 4"
  then have "unat (m a) + 256 * unat (m (a + 1)) + 65536 * unat (m (a + 2)) + 16777216 * unat (m (a + 3)) = 4294967295"
    unfolding rd32_def rd16_def e by (simp add: distrib_left)
  then have "255 \<le> unat (m a)" "255 \<le> unat (m (a + 1))" "255 \<le> unat (m (a + 2))" "255 \<le> unat (m (a + 3))"
    using b [of a] b [of "a + 1"] b [of "a + 2"] b [of "a + 3"] by linarith+
  then have "unat (m a) = 255 \<and> unat (m (a + 1)) = 255 \<and> unat (m (a + 2)) = 255 \<and> unat (m (a + 3)) = 255"
    using b by (simp add: le_antisym)
  moreover have "i = 0 \<or> i = 1 \<or> i = 2 \<or> i = 3" using i by linarith
  ultimately have "unat (m (a + i)) = 255" by auto
  then show ?thesis by (simp add: word_unat_eq_iff)
qed

definition blank :: "mem \<Rightarrow> nat \<Rightarrow> nat \<Rightarrow> bool" where
  "blank m from to \<longleftrightarrow> (\<forall>x. from \<le> x \<and> x < to \<longrightarrow> m x = 255)"

lemma page_unused:
  assumes "\<not> page_used m a n"
  shows "blank m a (a + 4 * n)"
  unfolding blank_def
proof (intro allI impI)
  fix x assume x: "a \<le> x \<and> x < a + 4 * n"
  define i where "i = (x - a) div 4"
  have "x - a < n * 4" using x by linarith
  then have "i < n" unfolding i_def by (rule less_mult_imp_div_less)
  then have w: "rd32 m (a + 4 * i) = 0xFFFFFFFF" using assms by (auto simp: page_used_def list_ex_iff)
  have "x = a + 4 * i + (x - a) mod 4" using x unfolding i_def by simp
  then show "m x = 255" using word_blank [OF w, of "(x - a) mod 4"] by simp
qed

lemma erase_if_used_blank: "4 * n = cps \<Longrightarrow> blank (erase_if_used cps a n m) a (a + cps)"
  using page_unused [of m a n] by (auto simp: erase_if_used_def erase_page_def blank_def wipe_def)

lemma erase_if_used_out: "\<not> (a \<le> x \<and> x < a + cps) \<Longrightarrow> erase_if_used cps a n m x = m x"
  by (simp add: erase_if_used_def erase_page_def wipe_out)

lemma burn_blank: "blank m a (a + length bs) \<Longrightarrow> burn m a bs = put m a bs"
  by (rule burn_eq_put) (simp add: blank_def)

definition write_block :: "nat \<Rightarrow> nat \<Rightarrow> u8 list \<Rightarrow> mem \<Rightarrow> mem" where
  "write_block P a data m = flash_burn a data 16 (if a mod P = 0 then erase_if_used P a (P div 4) m else m)"

text \<open>
  An image written up to \<open>a\<close>: what is left of the page \<open>a\<close> lies in is blank, and nothing outside
  the pages begun so far differs.
\<close>

definition page_up :: "nat \<Rightarrow> nat \<Rightarrow> nat" where
  "page_up P a = ((a + P - 1) div P) * P"

lemma page_up_ge: "0 < P \<Longrightarrow> a \<le> page_up P a"
proof -
  assume P: "0 < P"
  have "a + P - 1 = page_up P a + (a + P - 1) mod P" by (simp add: page_up_def)
  moreover have "(a + P - 1) mod P < P" using P by simp
  ultimately show ?thesis by linarith
qed

lemma page_up_same: "a mod P = 0 \<Longrightarrow> 0 < P \<Longrightarrow> page_up P a = a"
proof -
  assume "a mod P = 0" "0 < P"
  moreover define q where "q = a div P"
  ultimately have q: "a = q * P" using div_mult_mod_eq [of a P] by simp
  have "a + P - 1 = q * P + (P - 1)" using q \<open>0 < P\<close> by linarith
  then have "(a + P - 1) div P = q" using \<open>0 < P\<close> by (simp only: div_mult_self3) simp
  then show ?thesis by (simp only: page_up_def q)
qed

lemma div_shift: "r < p \<Longrightarrow> (r + (q + 1) * p) div p = q + (1 :: nat)"
  using div_mult_self1 [of p r "q + 1"] by (simp only:) simp

lemma page_up_next:
  assumes "0 < P" and "64 dvd P" and "64 dvd a"
  shows "page_up P (a + 64) = (if a mod P = 0 then a + P else page_up P a)"
proof -
  obtain p where p: "P = 64 * p" using assms(2) by (rule dvdE)
  obtain b where b: "a = 64 * b" using assms(3) by (rule dvdE)
  have p0: "0 < p" using assms(1) p by simp
  have up: "page_up P (64 * c) = 64 * ((c + p - 1) div p * p)" for c
  proof -
    have "64 * c + 64 * p - 1 = 64 * (c + p - 1) + 63" using p0 by simp
    then have "(64 * c + 64 * p - 1) div (64 * p) = (c + p - 1) div p" by (simp add: div_mult2_eq)
    then show ?thesis by (simp add: page_up_def p)
  qed
  have c: "(c + 1 + p - 1) div p * p = (if c mod p = 0 then c + p else (c + p - 1) div p * p)" for c
  proof -
    define q r where "q = c div p" and "r = c mod p"
    have qr: "c = q * p + r" "r < p" using p0 by (simp_all add: q_def r_def)
    have e: "c + 1 + p - 1 = r + (q + 1) * p" using qr by (simp add: algebra_simps)
    have "(c + 1 + p - 1) div p = q + 1" unfolding e using qr(2) by (rule div_shift)
    moreover have "0 < r \<Longrightarrow> (c + p - 1) div p = q + 1"
    proof -
      assume "0 < r"
      then have e: "c + p - 1 = (r - 1) + (q + 1) * p" using qr by (simp add: algebra_simps)
      have "r - 1 < p" using qr by linarith
      then show "(c + p - 1) div p = q + 1" unfolding e by (rule div_shift)
    qed
    ultimately have d: "(c + 1 + p - 1) div p = q + 1" "0 < r \<Longrightarrow> (c + p - 1) div p = q + 1" by blast+
    show ?thesis
    proof (cases "r = 0")
      case True
      then have "c mod p = 0" "c = q * p" using qr(1) by (simp_all add: r_def [symmetric])
      then show ?thesis unfolding d(1) by simp
    next
      case False
      then show ?thesis unfolding d(1) using d(2) by (simp add: r_def [symmetric])
    qed
  qed
  have "a + 64 = 64 * (b + 1)" using b by simp
  then have "page_up P (a + 64) = 64 * ((b + 1 + p - 1) div p * p)" using up by metis
  also have "\<dots> = (if b mod p = 0 then 64 * b + 64 * p else page_up P (64 * b))" unfolding up c by simp
  finally show ?thesis using b p by (auto simp: mult_mod_right [symmetric])
qed

lemma write_block_image:
  assumes "0 < P" and "64 dvd P" and "64 dvd a" and "length data = 64" and "blank m a (page_up P a)"
  shows "rdm (write_block P a data m) a 64 = data"
    and "blank (write_block P a data m) (a + 64) (page_up P (a + 64))"
    and "x < a \<or> page_up P (a + 64) \<le> x \<Longrightarrow> write_block P a data m x = m x"
proof -
  let ?m = "if a mod P = 0 then erase_if_used P a (P div 4) m else m"
  have "4 dvd P" using assms(2) by (rule dvd_trans [rotated]) simp
  then have q: "4 * (P div 4) = P" by simp
  note up = page_up_next [OF assms(1-3)]
  have bl: "blank ?m a (page_up P (a + 64))"
    using erase_if_used_blank [OF q, of a m] assms(5) up by simp
  have ge: "a + 64 \<le> page_up P (a + 64)" using page_up_ge assms(1) .
  then have "blank ?m a (a + length data)" using bl assms(4) by (auto simp: blank_def)
  then have w: "write_block P a data m = put ?m a data"
    using burn_blank flash_burn_burn [of 16 data a ?m] assms(4) by (simp add: write_block_def)
  show "rdm (write_block P a data m) a 64 = data" unfolding w using rdm_put_same [of ?m a data] assms(4) by simp
  show "blank (write_block P a data m) (a + 64) (page_up P (a + 64))"
    unfolding w using bl assms(4) by (auto simp: blank_def put_out)
  assume x: "x < a \<or> page_up P (a + 64) \<le> x"
  then have "put ?m a data x = ?m x" using ge assms(4) by (intro put_out) auto
  also have "\<dots> = m x" using x up by (auto intro: erase_if_used_out)
  finally show "write_block P a data m x = m x" unfolding w .
qed

subsection \<open>The event\<close>

lemma event_block:
  assumes "taking pn off data 4 s" and "length data' = 64"
  shows "taking (pn + 4) off' data' 0 (deliver_event E s)"
    and "pf_flash (deliver_event E s) =
      write_block (PAGE_SIZE (maps E)) (unat off) data (pf_flash (set_incomplete E s))"
    and "store (deliver_event E s) = store (set_incomplete E s)"
    and "actions (deliver_event E s) = actions s"
    and "block (deliver_event E s) = data" and "pf_offset (deliver_event E s) = off"
    and "micropython_fs_end (deliver_event E s) = micropython_fs_end s"
  using assms
  by (auto simp: taking_def deliver_event_def partialFlashingEvent_def write_block_def set_incomplete_def notify_def
      Let_def case_prod_beta)

text \<open>
  What is asked of the key-value storage and of the device: the storage keeps and drops the mark, and
  in flash it changes nothing outside \<open>S\<close>, its own page; the word by which the device knows a new
  program is in \<open>S\<close> too, and invalidating the log, on another chip, does not bring the mark back.
\<close>

definition storage_in :: "'st pf_env \<Rightarrow> (nat \<Rightarrow> bool) \<Rightarrow> bool" where
  "storage_in E S \<longleftrightarrow>
     (\<forall>st m. store_has E (fst (store_put E (st, m)))) \<and>
     (\<forall>st m. \<not> store_has E (fst (store_remove E (st, m)))) \<and>
     (\<forall>st m x. \<not> S x \<longrightarrow> snd (store_put E (st, m)) x = m x \<and> snd (store_remove E (st, m)) x = m x) \<and>
     (\<forall>B. device E = Some B \<longrightarrow> reflash_status B < 2 ^ 32 \<and>
        (\<forall>x. reflash_status B \<le> x \<and> x < reflash_status B + 4 \<longrightarrow> S x) \<and>
        (\<forall>st. store_has E (log_invalidate B st) = store_has E st))"

lemma storage_inD:
  assumes "storage_in E S"
  shows "store_has E (fst (store_put E x))" and "\<not> store_has E (fst (store_remove E x))"
    and "\<not> S a \<Longrightarrow> snd (store_put E x) a = snd x a" and "\<not> S a \<Longrightarrow> snd (store_remove E x) a = snd x a"
  using assms unfolding storage_in_def by (metis prod.collapse)+

lemma erase_storage_spec:
  assumes "storage_in E S" and "device E = Some B" and "eraseUserStorage B True (m, st) = (m', st')"
  shows "store_has E st' = store_has E st \<and> (\<forall>x. \<not> S x \<longrightarrow> m' x = m x)"
proof -
  have D: "reflash_status B < 2 ^ 32" "\<forall>x. reflash_status B \<le> x \<and> x < reflash_status B + 4 \<longrightarrow> S x"
    "\<forall>st. store_has E (log_invalidate B st) = store_has E st"
    using assms(1,2) by (simp_all add: storage_in_def)
  then show ?thesis
    using assms(3) by (auto simp: erase_steps burn_def split: if_splits)
qed

definition prepared :: "'st pf_env \<Rightarrow> 'st pf \<Rightarrow> mem" where
  "prepared E s = pf_flash (set_incomplete E s)"

lemma prepared_same: "same_world s s' \<Longrightarrow> prepared E s' = prepared E s"
  by (simp add: prepared_def set_incomplete_def same_world_def Let_def case_prod_beta)

lemma prepared_has: "store_has E (store s) \<Longrightarrow> prepared E s = pf_flash s"
  by (simp add: prepared_def set_incomplete_def)

lemma store_incomplete:
  "storage_in E S \<Longrightarrow> store_has E (store (set_incomplete E s))"
  by (simp add: set_incomplete_def Let_def case_prod_beta storage_inD(1))

lemma erase_used_out: "\<not> (page \<le> x \<and> x < to + cps) \<Longrightarrow> erase_used cps page to m x = m x"
proof (induction cps page to m rule: erase_used.induct)
  case (1 cps page to m)
  show ?case
  proof (cases "page < to \<and> 0 < cps")
    case True
    have "\<not> (page + cps \<le> x \<and> x < to + cps)" "\<not> (page \<le> x \<and> x < page + cps)" using 1(2) True by linarith+
    then show ?thesis using 1(1) [OF True] True erase_if_used_out by (subst erase_used.simps) simp
  next
    case False
    then show ?thesis by (simp only: erase_used.simps [of cps page to m] if_False)
  qed
qed

lemma prepared_out:
  "storage_in E S \<Longrightarrow> \<not> S x \<Longrightarrow>
    micropython_fs_end s = 0 \<or> \<not> (micropython_fs_start s \<le> x \<and> x < micropython_fs_end s + PAGE_SIZE (maps E)) \<Longrightarrow>
    prepared E s x = pf_flash s x"
  by (auto simp: prepared_def set_incomplete_def Let_def case_prod_beta erase_used_out storage_inD(3))

subsection \<open>A whole image\<close>

fun send_image :: "'st pf_env \<Rightarrow> u8 \<Rightarrow> u32 \<Rightarrow> (u8 list \<times> nat list list) list \<Rightarrow> 'st pf \<Rightarrow> (u8 \<times> 'st pf) option" where
  "send_image E pn off [] s = Some (pn, s)"
| "send_image E pn off ((data, tries) # bs) s =
     (case send_block E pn off data tries s of
        None \<Rightarrow> None
      | Some (pn', s') \<Rightarrow> send_image E pn' (off + 64) bs s')"

definition sendable :: "u8 list \<times> nat list list \<Rightarrow> bool" where
  "sendable b \<longleftrightarrow> length (fst b) = 64 \<and> gets_through 0 (snd b) \<and> (\<forall>ks \<in> set (snd b). set ks \<subseteq> {..<4})"

definition ready :: "u8 \<Rightarrow> 'st pf \<Rightarrow> bool" where
  "ready pn s \<longleftrightarrow> packetCount s = pn \<and> blockPacketCount s = pn \<and> blockNum s = 0 \<and> pending s = [] \<and> length (block s) = 64"

lemma ready_taking: "length data = 64 \<Longrightarrow> taking pn off data 0 s \<longleftrightarrow> ready pn s"
  by (auto simp: taking_def ready_def)

lemma unat_add64: "unat off + 64 < 2 ^ 32 \<Longrightarrow> unat (off + 64 :: u32) = unat off + 64"
  by (subst unat_add_lem [THEN iffD1]) simp_all

text \<open>The block at the end of what has been written is still in the buffer.\<close>

definition written_up :: "'st pf_env \<Rightarrow> nat \<Rightarrow> nat \<Rightarrow> 'st pf \<Rightarrow> bool" where
  "written_up E from to s \<longleftrightarrow> store_has E (store s) \<and> rdm (pf_flash s) (unat (pf_offset s)) 64 = block s \<and>
     from \<le> unat (pf_offset s) \<and> unat (pf_offset s) + 64 = to"

lemma send_image_spec:
  assumes "storage_in E S" and "P = PAGE_SIZE (maps E)" and "0 < P" and "64 dvd P"
    and "64 dvd unat off" and "\<forall>b \<in> set bs. sendable b" and "unat off + 64 * length bs < 2 ^ 32"
    and "ready pn s" and "blank (prepared E s) (unat off) (page_up P (unat off))"
  shows "\<exists>pn' s'. send_image E pn off bs s = Some (pn', s') \<and> ready pn' s' \<and> actions s' = actions s \<and>
    rdm (prepared E s') (unat off) (64 * length bs) = concat (map fst bs) \<and>
    (\<forall>x. x < unat off \<or> page_up P (unat off + 64 * length bs) \<le> x \<longrightarrow> prepared E s' x = prepared E s x) \<and>
    (bs \<noteq> [] \<longrightarrow> written_up E (unat off) (unat off + 64 * length bs) s')"
  using assms(5-9)
proof (induction bs arbitrary: off pn s)
  case Nil
  then show ?case by simp
next
  case (Cons b bs)
  obtain data tries where b: "b = (data, tries)" by (cases b)
  let ?a = "unat off"
  have ok: "length data = 64" "gets_through 0 tries" "\<forall>ks \<in> set tries. set ks \<subseteq> {..<4}"
    using Cons.prems(2) by (simp_all add: b sendable_def)
  have lt: "?a + 64 < 2 ^ 32" using Cons.prems(3) by simp
  note a64 = unat_add64 [OF lt]
  obtain pn1 s1 where s1: "send_block E pn off data tries s = Some (pn1 + 4, deliver_event E s1)" "same_world s s1"
    "taking pn1 off data 4 s1"
    using send_block_spec [of pn off data 0 s tries E] ok Cons.prems(4) by (auto simp: ready_taking)
  let ?s2 = "deliver_event E s1"
  note ev = event_block [OF s1(3) ok(1)]
  note wb = write_block_image [OF assms(3,4) Cons.prems(1) ok(1) Cons.prems(5)]
  have ready2: "ready (pn1 + 4) ?s2" using ev(1) by (simp add: ready_taking [OF ok(1)])
  have has2: "store_has E (store ?s2)" using store_incomplete [OF assms(1)] by (simp add: ev(3))
  have fl2: "prepared E ?s2 = write_block P ?a data (prepared E s)"
    using prepared_has [OF has2] ev(2) prepared_same [OF s1(2), of E] assms(2) by (simp add: prepared_def)
  have d64: "64 dvd unat (off + 64)" using Cons.prems(1) a64 by simp
  have "blank (prepared E ?s2) (unat (off + 64)) (page_up P (unat (off + 64)))" using wb(2) by (simp add: fl2 a64)
  moreover have "unat (off + 64) + 64 * length bs < 2 ^ 32" using Cons.prems(3) a64 by simp
  ultimately obtain pn' s' where s': "send_image E (pn1 + 4) (off + 64) bs ?s2 = Some (pn', s')" "ready pn' s'"
    "actions s' = actions ?s2" "rdm (prepared E s') (?a + 64) (64 * length bs) = concat (map fst bs)"
    "\<forall>x. x < ?a + 64 \<or> page_up P (?a + 64 + 64 * length bs) \<le> x \<longrightarrow> prepared E s' x = prepared E ?s2 x"
    "bs \<noteq> [] \<longrightarrow> written_up E (?a + 64) (?a + 64 + 64 * length bs) s'"
    using Cons.IH [OF d64 _ _ ready2] Cons.prems(2) unfolding a64 by fastforce
  have up: "page_up P (?a + 64) \<le> page_up P (?a + 64 + 64 * length bs)"
    unfolding page_up_def by (intro mult_le_mono1 div_le_mono) simp
  have "rdm (prepared E s') ?a 64 = data"
    using wb(1) s'(5) rdm_cong [of ?a 64 "prepared E s'" "prepared E ?s2"] by (simp add: fl2)
  then have "rdm (prepared E s') ?a (64 * length (b # bs)) = concat (map fst (b # bs))"
    using rdm_add [of "prepared E s'" ?a 64 "64 * length bs"] s'(4) by (simp add: b)
  moreover have "prepared E s' x = prepared E s x" if "x < ?a \<or> page_up P (?a + 64 + 64 * length bs) \<le> x" for x
    using s'(5) wb(3) [of x] that up by (auto simp: fl2)
  moreover have "actions s' = actions s" using s'(3) ev(4) s1(2) by (simp add: same_world_def)
  moreover have "written_up E ?a (?a + 64 * length (b # bs)) s'"
  proof (cases "bs = []")
    case True
    then have "s' = ?s2" using s'(1) by simp
    then show ?thesis using True has2 ev(5,6) wb(1) fl2 prepared_has [OF has2] by (simp add: written_up_def)
  next
    case False
    have "?a + 64 + 64 * length bs = ?a + 64 * length (b # bs)" by simp
    then show ?thesis using s'(6) False unfolding written_up_def by auto
  qed
  ultimately show ?case using s'(1,2) s1(1) by (simp add: b add.assoc)
qed

subsection \<open>The end of the transmission\<close>

lemma save_settings_out:
  assumes "length (settings E) \<le> PAGE_SIZE (maps E)" and "4 dvd length (settings E)"
    and "\<not> (page \<le> x \<and> x < page + PAGE_SIZE (maps E))"
  shows "save_settings E page m x = m x"
proof -
  have "4 * ((length (settings E) + 3) div 4) = length (settings E)" using assms(2) by presburger
  moreover have "\<not> (page \<le> x \<and> x < page + length (settings E))" using assms(1,3) by linarith
  ultimately show ?thesis using assms(3) by (simp add: save_settings_def flash_burn_burn burn_out erase_page_def wipe_out)
qed

lemma save_settings_saved:
  assumes "length (settings E) \<le> PAGE_SIZE (maps E)" and "4 dvd length (settings E)"
  shows "rdm (save_settings E page m) page (length (settings E)) = settings E"
proof -
  have "4 * ((length (settings E) + 3) div 4) = length (settings E)" using assms(2) by presburger
  moreover have "blank (erase_page (PAGE_SIZE (maps E)) page m) page (page + length (settings E))"
    using assms(1) by (simp add: blank_def erase_page_def wipe_def)
  ultimately show ?thesis by (simp add: save_settings_def flash_burn_burn burn_blank rdm_put_same)
qed

lemma burn_again: "rdm m a (length bs) = bs \<Longrightarrow> burn m a bs = m"
proof
  fix x assume r: "rdm m a (length bs) = bs"
  have "bs ! (x - a) = m x" if "a \<le> x" "x < a + length bs"
    using rdm_at [OF r, of "x - a"] that by simp
  then show "burn m a bs x = m x" by (simp add: burn_def)
qed

text \<open>The pages of the settings: apart from each other.\<close>

definition settings_ok :: "'st pf_env \<Rightarrow> bool" where
  "settings_ok E \<longleftrightarrow> length (settings E) \<le> PAGE_SIZE (maps E) \<and> 4 dvd length (settings E) \<and>
     (settings_page E + PAGE_SIZE (maps E) \<le> backup_page E \<or> backup_page E + PAGE_SIZE (maps E) \<le> settings_page E)"

definition in_settings :: "'st pf_env \<Rightarrow> nat \<Rightarrow> bool" where
  "in_settings E x \<longleftrightarrow> settings_page E \<le> x \<and> x < settings_page E + PAGE_SIZE (maps E) \<or>
     backup_page E \<le> x \<and> x < backup_page E + PAGE_SIZE (maps E)"

lemma noValidation_spec:
  assumes "settings_ok E"
  shows "rdm (pf_flash (noValidation E s)) (settings_page E) (length (settings E)) = settings E"
    and "rdm (pf_flash (noValidation E s)) (backup_page E) (length (settings E)) = settings E"
    and "\<not> in_settings E x \<Longrightarrow> pf_flash (noValidation E s) x = pf_flash s x"
proof -
  note ok = assms [unfolded settings_ok_def]
  let ?m = "save_settings E (settings_page E) (pf_flash s)"
  have "save_settings E (backup_page E) ?m x = ?m x" if "settings_page E \<le> x" "x < settings_page E + length (settings E)" for x
    using ok that by (intro save_settings_out) auto
  then have "rdm (save_settings E (backup_page E) ?m) (settings_page E) (length (settings E)) =
      rdm ?m (settings_page E) (length (settings E))" by (rule rdm_cong)
  then show "rdm (pf_flash (noValidation E s)) (settings_page E) (length (settings E)) = settings E"
    using save_settings_saved [of E] ok by (simp add: noValidation_def)
  show "rdm (pf_flash (noValidation E s)) (backup_page E) (length (settings E)) = settings E"
    using save_settings_saved [of E] ok by (simp add: noValidation_def)
  show "pf_flash (noValidation E s) x = pf_flash s x" if "\<not> in_settings E x"
    using ok that save_settings_out [of E] by (simp add: noValidation_def in_settings_def)
qed

lemma end_event:
  assumes S: "storage_in E S" and "pending s = []" and "rdm (pf_flash s) (unat (pf_offset s)) 64 = block s"
    and "length (block s) = 64" and "onDataWritten E True [END_OF_TRANSMISSION] s = Some s'" and "s'' = deliver_event E s'"
  shows "(\<forall>x. \<not> S x \<longrightarrow> pf_flash s'' x = pf_flash (noValidation E s) x) \<and> \<not> store_has E (store s'') \<and>
    actions s'' = actions s @ [ResetDevice]"
proof -
  have b: "flash_burn (unat (pf_offset s)) (block s) 16 (pf_flash s) = pf_flash s"
    using flash_burn_burn [of 16 "block s"] burn_again [of "pf_flash s" _ "block s"] assms(3,4) by simp
  obtain st3 m3 where r: "store_remove E (store s, pf_flash (noValidation E s)) = (st3, m3)" by fastforce
  obtain m4 st4 where e: "(case device E of None \<Rightarrow> (m3, st3) | Some B \<Rightarrow> eraseUserStorage B True (m3, st3)) = (m4, st4)"
    by fastforce
  have "s' = s\<lparr>pending := [END_OF_TRANSMISSION]\<rparr>" using assms(2,5) by (simp add: onDataWritten_def fire_def)
  then have f: "pf_flash s'' = m4 \<and> store s'' = st4 \<and> actions s'' = actions s @ [ResetDevice]"
    using assms(6) b r e by (simp add: deliver_event_def partialFlashingEvent_def noValidation_def act_def Let_def)
  have "store_has E st4 = store_has E st3 \<and> (\<forall>x. \<not> S x \<longrightarrow> m4 x = m3 x)"
    using e erase_storage_spec [OF S] by (cases "device E") auto
  moreover have "\<not> store_has E st3" using storage_inD(2) [OF S, of "(store s, pf_flash (noValidation E s))"] r by simp
  moreover have "m3 x = pf_flash (noValidation E s) x" if "\<not> S x" for x
    using storage_inD(4) [OF S that, of "(store s, pf_flash (noValidation E s))"] r by simp
  ultimately show ?thesis using f by simp
qed

subsection \<open>Properties\<close>

text \<open>
  C22 What the device makes of the packets of a block that reach it, in any order and number, is what
  the counter of \<open>arrivals\<close> says, whatever the packet numbers and around their wrap: a packet behind
  is ignored, the one expected is taken, one ahead refuses the block with one notification, after
  which the device expects the block under the next four numbers. Nothing is written to flash.
\<close>

theorem pf_block_arrivals:
  assumes "packetCount s = pn" and "blockPacketCount s = pn" and "blockNum s = 0" and "pending s = []"
    and "length (block s) = 64" and "length data = 64" and "set ks \<subseteq> {..<4}"
  shows "\<exists>s'. receive E (map (block_packet pn off data) ks) s = Some s' \<and> pf_flash s' = pf_flash s \<and>
    (case arrivals 0 ks of
       Reached j \<Rightarrow> notified s' = notified s \<and> packetCount s' = pn + of_nat j \<and>
         (if j = 4 then pending s' = [FLASH_DATA] \<and> block s' = data \<and> pf_offset s' = off else pending s' = [])
     | Lost \<Rightarrow> notified s' = notified s @ [[FLASH_DATA, 0xAA]] \<and> pending s' = [] \<and>
         packetCount s' = pn + 4 \<and> blockPacketCount s' = pn + 4 \<and> blockNum s' = 0)"
proof -
  have "taking pn off data 0 s" using assms(1-6) by (simp add: taking_def)
  from arrivals_spec [OF this assms(7), of E] obtain s' where
    s': "receive E (map (block_packet pn off data) ks) s = Some s'" "same_world s s'"
      "case arrivals 0 ks of Reached j \<Rightarrow> taking pn off data j s' \<and> notified s' = notified s
       | Lost \<Rightarrow> taking (pn + 4) off data 0 s' \<and> notified s' = notified s @ [[FLASH_DATA, 0xAA]]" by blast
  show ?thesis
    using s' by (intro exI [of _ s'], cases "arrivals 0 ks") (auto simp: taking_def same_world_def split: if_splits)
qed

theorem pf_block_arrivals_witness:
  "\<exists>s'. receive undefined (map (block_packet 254 0x1000 (replicate 64 7)) [0, 1, 0, 3, 2])
      (pf_new (replicate 64 0) (\<lambda>_. 0) () \<lparr>packetCount := 254, blockPacketCount := 254\<rparr>) = Some s' \<and>
    notified s' = [[1, 0xAA]] \<and> packetCount s' = 2"
proof -
  have "arrivals 0 [0, 1, 0, 3, 2] = Lost" by simp
  then show ?thesis
    using pf_block_arrivals [where s = "pf_new (replicate 64 0) (\<lambda>_. 0) () \<lparr>packetCount := 254, blockPacketCount := 254\<rparr>"
        and pn = 254 and data = "replicate 64 7" and ks = "[0, 1, 0, 3, 2]" and E = undefined and off = "0x1000"]
    by (auto simp: pf_new_def)
qed

text \<open>
  C21 A program is replaced through a lossy connection: when every block gets through in the end, the
  image is in flash, block by block from its first page on; after the end of the transmission it is
  still there, the bootloader's settings are on both of their pages, the mark of an incomplete
  transfer is gone and the device resets. Outside the pages of the image, of the settings, of
  MicroPython's file system and of the key-value storage (\<open>S\<close>, with the word that marks a new program)
  no byte of the flash has changed. So the end of the transmission neither erases the remaining pages
  of the region nor removes the magic of the embedded source, as the description of the service says it
  does; the user's data is erased by invalidating the log, on the interface chip.
\<close>

theorem pf_image_flashed:
  assumes "storage_in E S" and "P = PAGE_SIZE (maps E)" and "0 < P" and "64 dvd P"
    and "settings_ok E" and "a = unat base" and "a mod P = 0" and "bs \<noteq> []"
    and "\<forall>(data, tries) \<in> set bs. length data = 64 \<and> gets_through 0 tries \<and> (\<forall>ks \<in> set tries. set ks \<subseteq> {..<4})"
    and "e = a + 64 * length bs" and "e < 2 ^ 32"
    and "\<forall>x. a \<le> x \<and> x < e \<longrightarrow> \<not> in_settings E x \<and> \<not> S x" and "\<forall>x. in_settings E x \<longrightarrow> \<not> S x"
    and "packetCount s = pn" and "blockPacketCount s = pn" and "blockNum s = 0" and "pending s = []" and "length (block s) = 64"
  shows "\<exists>pn' s1 s2. send_image E pn base bs s = Some (pn', s1) \<and>
    onDataWritten E True [END_OF_TRANSMISSION] s1 = Some s2 \<and>
    rdm (pf_flash s1) a (64 * length bs) = concat (map fst bs) \<and> actions s1 = actions s \<and> store_has E (store s1) \<and>
    rdm (pf_flash (deliver_event E s2)) a (64 * length bs) = concat (map fst bs) \<and>
    rdm (pf_flash (deliver_event E s2)) (settings_page E) (length (settings E)) = settings E \<and>
    rdm (pf_flash (deliver_event E s2)) (backup_page E) (length (settings E)) = settings E \<and>
    \<not> store_has E (store (deliver_event E s2)) \<and> actions (deliver_event E s2) = actions s @ [ResetDevice] \<and>
    (\<forall>x. (x < a \<or> page_up P e \<le> x) \<and> \<not> in_settings E x \<and> \<not> S x \<and>
      (micropython_fs_end s = 0 \<or> \<not> (micropython_fs_start s \<le> x \<and> x < micropython_fs_end s + P)) \<longrightarrow>
      pf_flash (deliver_event E s2) x = pf_flash s x)"
proof -
  have "64 dvd a" using assms(4,7) by (meson dvd_trans mod_eq_0_iff_dvd)
  moreover have "\<forall>b \<in> set bs. sendable b" using assms(9) by (simp add: sendable_def case_prod_beta')
  moreover have "ready pn s" using assms(14-18) by (simp add: ready_def)
  moreover have "blank (prepared E s) a (page_up P a)" using page_up_same [OF assms(7,3)] by (auto simp: blank_def)
  ultimately obtain pn' s1 where s1: "send_image E pn base bs s = Some (pn', s1)" "ready pn' s1" "actions s1 = actions s"
    "rdm (prepared E s1) a (64 * length bs) = concat (map fst bs)"
    "\<forall>x. x < a \<or> page_up P e \<le> x \<longrightarrow> prepared E s1 x = prepared E s x"
    "store_has E (store s1)" "rdm (pf_flash s1) (unat (pf_offset s1)) 64 = block s1"
    using send_image_spec [OF assms(1-4), of base bs pn s] assms(6,8,10,11) by (auto simp: written_up_def)
  have p1: "prepared E s1 = pf_flash s1" using prepared_has [OF s1(6)] .
  have r: "pending s1 = []" "length (block s1) = 64" using s1(2) by (simp_all add: ready_def)
  obtain s2 where s2: "onDataWritten E True [END_OF_TRANSMISSION] s1 = Some s2" by (simp add: onDataWritten_def)
  let ?m = "pf_flash (deliver_event E s2)"
  note en = end_event [OF assms(1) r(1) s1(7) r(2) s2 refl]
  note nv = noValidation_spec [OF assms(5), where s = s1]
  have keep: "?m x = pf_flash s1 x" if "\<not> in_settings E x" "\<not> S x" for x using en nv(3) [OF that(1)] that(2) by simp
  have "rdm ?m a (64 * length bs) = rdm (pf_flash s1) a (64 * length bs)"
    by (rule rdm_cong, rule keep) (use assms(10,12) in auto)
  moreover have "rdm ?m p (length (settings E)) = rdm (pf_flash (noValidation E s1)) p (length (settings E))"
    if "p = settings_page E \<or> p = backup_page E" for p
    by (rule rdm_cong) (use that en assms(5,13) in \<open>auto simp: settings_ok_def in_settings_def\<close>)
  moreover have "?m x = pf_flash s x" if "x < a \<or> page_up P e \<le> x" "\<not> in_settings E x" "\<not> S x"
    "micropython_fs_end s = 0 \<or> \<not> (micropython_fs_start s \<le> x \<and> x < micropython_fs_end s + P)" for x
    using keep [OF that(2,3)] s1(5) that(1) prepared_out [OF assms(1) that(3), of s] that(4) assms(2) by (auto simp: p1)
  ultimately show ?thesis using s1(1,3,4,6) s2 en nv(1,2) by (auto simp: p1)
qed

text \<open>An example: the mark is a byte of flash, and the device one of \<open>Boot\<close>.\<close>

definition demo_pf_env :: "bool pf_env" where
  "demo_pf_env = \<lparr>maps = \<lparr>FLASH_PROGRAM_END = 8000, PAGE_SIZE = 64, SCRATCH_PAGE = 20480, APP_REGION_START = 4096,
     APP_REGION_END = 20480, crc32_compute = \<lambda>_. 0\<rparr>, store_has = id, store_put = \<lambda>x. (True, (snd x)(3000 := 1)),
     store_remove = \<lambda>x. (False, (snd x)(3000 := 0)),
     settings = [1, 2, 3, 4], settings_page = 1024, backup_page = 2048, currentMode = 1,
     device = Some \<lparr>reflash_status = 512, erase_on_reflash = True, log_invalidate = id, hard_reset = \<lambda>w. False,
       board_wait = \<lambda>t w. w, scheduler_init = id, component_init = \<lambda>i w. w, components = [], seedRandom = id,
       board_listen = id, set_priorities = id, stored = \<lambda>k w. w, remove_stored = \<lambda>k w. w,
       buttons_pressed = \<lambda>w. False, set_pixel = \<lambda>x y w. w, fiber_pause = \<lambda>t w. w, ble_start = \<lambda>b w. w,
       ble_enabled = False, pairing_enabled = True\<rparr>\<rparr>"

definition demo_blocks :: "(u8 list \<times> nat list list) list" where
  "demo_blocks = [(replicate 64 1, [[0, 2, 3], [0], [0, 1, 2, 3]]), (replicate 64 2, [[3, 1, 2, 0], [0, 1, 1, 2, 0, 3]])]"

definition demo_pages :: "nat \<Rightarrow> bool" where
  "demo_pages x \<longleftrightarrow> x = 3000 \<or> 512 \<le> x \<and> x < 516"

theorem pf_image_flashed_witness:
  "\<exists>pn' s1 s2. send_image demo_pf_env 0 0x1000 demo_blocks (pf_new (replicate 64 0) (\<lambda>_. 0) False) = Some (pn', s1) \<and>
    onDataWritten demo_pf_env True [2] s1 = Some s2 \<and>
    rdm (pf_flash (deliver_event demo_pf_env s2)) 4096 128 = replicate 64 1 @ replicate 64 2 \<and>
    rdm (pf_flash (deliver_event demo_pf_env s2)) (settings_page demo_pf_env) (length (settings demo_pf_env)) = settings demo_pf_env \<and>
    \<not> store (deliver_event demo_pf_env s2) \<and> pf_flash (deliver_event demo_pf_env s2) 5000 = 0"
proof -
  let ?s = "pf_new (replicate 64 0) (\<lambda>_. 0) False"
  have E1: "storage_in demo_pf_env demo_pages" by (auto simp: storage_in_def demo_pf_env_def demo_pages_def)
  have "length (settings demo_pf_env) = 4" "settings_page demo_pf_env + PAGE_SIZE (maps demo_pf_env) \<le> backup_page demo_pf_env"
    "PAGE_SIZE (maps demo_pf_env) = 64" by (simp_all add: demo_pf_env_def)
  then have E2: "settings_ok demo_pf_env" unfolding settings_ok_def by simp
  have s: "in_settings demo_pf_env x \<Longrightarrow> x < 2112 \<and> \<not> demo_pages x" for x
    by (auto simp: in_settings_def demo_pf_env_def demo_pages_def)
  have P: "PAGE_SIZE (maps demo_pf_env) = 64" by (simp add: demo_pf_env_def)
  have P0: "0 < PAGE_SIZE (maps demo_pf_env)" "64 dvd PAGE_SIZE (maps demo_pf_env)" "unat (0x1000 :: u32) mod PAGE_SIZE (maps demo_pf_env) = 0"
    by (simp_all add: P)
  have d: "demo_blocks \<noteq> []" "64 * length demo_blocks = 128" "concat (map fst demo_blocks) = replicate 64 1 @ replicate 64 2"
    "\<forall>(data, tries) \<in> set demo_blocks. length data = 64 \<and> gets_through 0 tries \<and> (\<forall>ks \<in> set tries. set ks \<subseteq> {..<4})"
    by (auto simp: demo_blocks_def)
  have u: "unat (0x1000 :: u32) = 4096" by simp
  have e: "4224 = unat (0x1000 :: u32) + 64 * length demo_blocks" "(4224 :: nat) < 2 ^ 32" unfolding u d(2) by simp_all
  have ap: "\<forall>x. unat (0x1000 :: u32) \<le> x \<and> x < 4224 \<longrightarrow> \<not> in_settings demo_pf_env x \<and> \<not> demo_pages x"
    "\<forall>x. in_settings demo_pf_env x \<longrightarrow> \<not> demo_pages x"
    using s by (fastforce simp: demo_pages_def)+
  have n: "packetCount ?s = 0" "blockPacketCount ?s = 0" "blockNum ?s = 0" "pending ?s = []" "length (block ?s) = 64"
    "micropython_fs_end ?s = 0" "pf_flash ?s 5000 = 0" by (simp_all add: pf_new_def)
  have o: "\<not> in_settings demo_pf_env 5000" "\<not> demo_pages 5000" "page_up (PAGE_SIZE (maps demo_pf_env)) 4224 \<le> 5000"
    "store_has demo_pf_env = id"
    using s by (fastforce simp: demo_pages_def page_up_def demo_pf_env_def)+
  from pf_image_flashed [OF E1 refl P0(1,2) E2 refl P0(3) d(1,4) e ap n(1-5)] show ?thesis
    using o n(6,7) unfolding u d(2,3) id_apply
    by (elim exE conjE) (drule spec [of _ 5000], intro exI conjI; (assumption | simp))
qed

end
