(* ===== verification/PowerManagerProps.thy ===== *)
theory PowerManagerProps
  imports PowerManager
begin

text \<open>
  Reading the properties of the interface chip over a chip that keeps the documented protocol,
  which \<open>uipm_chip\<close> states: \<open>prop_of\<close> are the values the chip holds, \<open>request_of\<close> the property
  asked for and the milliseconds the chip still needs to answer.
\<close>

record 'w uipm_view =
  prop_of :: "'w \<Rightarrow> u8 \<Rightarrow> u8 list"
  request_of :: "'w \<Rightarrow> (u8 \<times> nat) option"

definition same_view :: "'w uipm_view \<Rightarrow> 'w \<Rightarrow> 'w \<Rightarrow> bool" where
  "same_view V w w' \<longleftrightarrow> prop_of V w' = prop_of V w \<and> request_of V w' = request_of V w"

definition read_frame :: "'w uipm_view \<Rightarrow> 'w \<Rightarrow> u8 \<Rightarrow> u8 list" where
  "read_frame V w p =
     [COMMAND_READ_RESPONSE, p, of_nat (uipmPropertyLengths p)] @ prop_of V w p"

text \<open>
  Waiting brings the answer nearer. The null operation changes nothing. A read request for a
  property in the table is acknowledged and ready within five milliseconds. The shared interrupt
  line is active when the answer is ready, and may be active before. A read gives the answer,
  padded to eight bytes, or, before it is ready, fails or gives the frame \<open>INCOMPLETE_CMD\<close>.
\<close>

definition uipm_chip :: "'w power_hw \<Rightarrow> 'w uipm_view \<Rightarrow> bool" where
  "uipm_chip H V \<longleftrightarrow>
     (\<forall>w n p d. prop_of V (target_wait H n w) = prop_of V w
        \<and> (0 < n \<and> request_of V w = Some (p, d)
           \<longrightarrow> (\<exists>d' \<le> d - 1. request_of V (target_wait H n w) = Some (p, d'))))
     \<and> (\<forall>w. same_view V w (snd (i2c_write H [0, 0, 0] w)))
     \<and> (\<forall>w p. 0 < uipmPropertyLengths p
        \<longrightarrow> length (prop_of V w p) = uipmPropertyLengths p
          \<and> (\<exists>w' d. i2c_write H [COMMAND_READ_REQUEST, p] w = (True, w')
              \<and> prop_of V w' = prop_of V w \<and> d \<le> UIPM_MAX_RETRIES \<and> request_of V w' = Some (p, d)))
     \<and> (\<forall>w p. same_view V w (snd (irq1_active H w))
          \<and> (request_of V w = Some (p, 0) \<longrightarrow> fst (irq1_active H w)))
     \<and> (\<forall>w p d. request_of V w = Some (p, d) \<longrightarrow>
          (case i2c_read H UIPM_MAX_BUFFER_SIZE w of
             (None, w') \<Rightarrow> 0 < d \<and> same_view V w w'
           | (Some bs, w') \<Rightarrow> length bs = UIPM_MAX_BUFFER_SIZE \<and> prop_of V w' = prop_of V w
               \<and> (if d = 0 then take (3 + uipmPropertyLengths p) bs = read_frame V w p
                  else bs ! 0 = COMMAND_ERROR_RESPONSE \<and> bs ! 1 = INCOMPLETE_CMD
                    \<and> same_view V w w')))"

lemma uipm_wait:
  assumes "uipm_chip H V" "request_of V w = Some (p, d)" "0 < n"
  shows "prop_of V (target_wait H n w) = prop_of V w"
    "\<exists>d' \<le> d - 1. request_of V (target_wait H n w) = Some (p, d')"
  using assms unfolding uipm_chip_def by auto

lemma uipm_nop:
  assumes "uipm_chip H V" "request_of V w = Some (p, d)"
  shows "prop_of V (pm_nop H w) = prop_of V w"
    "\<exists>d' \<le> d - 1. request_of V (pm_nop H w) = Some (p, d')"
proof -
  let ?w = "snd (i2c_write H [0, 0, 0] w)"
  have "same_view V w ?w" using assms(1) by (simp add: uipm_chip_def)
  then show "prop_of V (pm_nop H w) = prop_of V w"
    "\<exists>d' \<le> d - 1. request_of V (pm_nop H w) = Some (p, d')"
    using uipm_wait [OF assms(1), of ?w p d 10] assms(2)
    by (auto simp: pm_nop_def same_view_def)
qed

lemma length_table: "uipmPropertyLengths p \<le> 4"
  by (simp add: uipmPropertyLengths_def)

lemma read_frame_checks:
  assumes "take (3 + uipmPropertyLengths p) b = read_frame V w p" "length b = UIPM_MAX_BUFFER_SIZE"
  shows "\<not> not_ready b" "sanitized b = read_frame V w p"
proof -
  have "b ! i = take (3 + uipmPropertyLengths p) b ! i" if "i < 3" for i using that by simp
  then have "b ! 0 = COMMAND_READ_RESPONSE" "b ! 1 = p"
    unfolding assms(1) by (auto simp: read_frame_def)
  then show "\<not> not_ready b" "sanitized b = read_frame V w p"
    using assms by (auto simp: not_ready_def sanitized_def uipm_codes UIPM_MAX_BUFFER_SIZE_def)
qed

lemma recv_spec:
  assumes C: "uipm_chip H V" and q: "request_of V w = Some (p, d)"
    and e: "recvUIPMPacket H w = (b, w')"
  shows "prop_of V w' = prop_of V w"
    "not_ready b \<Longrightarrow> \<exists>d' \<le> d. 0 < d' \<and> request_of V w' = Some (p, d')"
    "\<not> not_ready b \<Longrightarrow> sanitized b = read_frame V w p"
proof -
  obtain active w1 where i: "irq1_active H w = (active, w1)" by fastforce
  have I: "same_view V w w1" "d = 0 \<Longrightarrow> active"
    using C i q unfolding uipm_chip_def by (metis fst_conv snd_conv)+
  then have q1: "request_of V w1 = Some (p, d)" using q by (simp add: same_view_def)
  obtain d2 where d2: "d2 \<le> d - 1" "request_of V (pm_nop H w1) = Some (p, d2)"
    using uipm_nop(2) [OF C q1] by auto
  have P: "prop_of V (pm_nop H w1) = prop_of V w"
    using uipm_nop(1) [OF C q1] I(1) by (simp add: same_view_def)
  have rd: "case i2c_read H UIPM_MAX_BUFFER_SIZE (pm_nop H w1) of
      (None, w2) \<Rightarrow> 0 < d2 \<and> same_view V (pm_nop H w1) w2
    | (Some bs, w2) \<Rightarrow> length bs = UIPM_MAX_BUFFER_SIZE \<and> prop_of V w2 = prop_of V (pm_nop H w1)
        \<and> (if d2 = 0 then take (3 + uipmPropertyLengths p) bs = read_frame V (pm_nop H w1) p
           else bs ! 0 = COMMAND_ERROR_RESPONSE \<and> bs ! 1 = INCOMPLETE_CMD
             \<and> same_view V (pm_nop H w1) w2)"
    by (rule C [unfolded uipm_chip_def, THEN conjunct2, THEN conjunct2, THEN conjunct2,
          THEN conjunct2, rule_format, OF d2(2)])
  have F: "read_frame V (pm_nop H w1) p = read_frame V w p" using P by (simp add: read_frame_def)
  consider (idle) "\<not> active" | (failed) w2 where "active"
      "i2c_read H UIPM_MAX_BUFFER_SIZE (pm_nop H w1) = (None, w2)"
    | (answered) bs w2 where "active"
      "i2c_read H UIPM_MAX_BUFFER_SIZE (pm_nop H w1) = (Some bs, w2)"
    by (metis not_None_eq prod.collapse)
  then have "prop_of V w' = prop_of V w
    \<and> (not_ready b \<longrightarrow> (\<exists>d' \<le> d. 0 < d' \<and> request_of V w' = Some (p, d')))
    \<and> (\<not> not_ready b \<longrightarrow> sanitized b = read_frame V w p)"
  proof cases
    case idle
    then have "0 < d" using I(2) by (cases d) auto
    then show ?thesis using idle e i I(1) q1
      by (auto simp: recvUIPMPacket_def same_view_def not_ready_def)
  next
    case failed
    then show ?thesis using rd e i P d2
      by (auto simp: recvUIPMPacket_def same_view_def not_ready_def intro!: exI [of _ d2])
  next
    case answered
    then have b: "b = bs" "w' = w2" "length bs = UIPM_MAX_BUFFER_SIZE" using rd e i
      by (auto simp: recvUIPMPacket_def)
    show ?thesis
    proof (cases "d2 = 0")
      case True
      then have "take (3 + uipmPropertyLengths p) bs = read_frame V w p" using rd answered F by simp
      from read_frame_checks [OF this b(3)] show ?thesis using rd answered b P by simp
    next
      case False
      then have "not_ready b" using rd answered b by (simp add: not_ready_def)
      then show ?thesis using False rd answered b P d2
        by (auto simp: same_view_def intro!: exI [of _ d2])
    qed
  qed
  then show "prop_of V w' = prop_of V w"
    "not_ready b \<Longrightarrow> \<exists>d' \<le> d. 0 < d' \<and> request_of V w' = Some (p, d')"
    "\<not> not_ready b \<Longrightarrow> sanitized b = read_frame V w p" by auto
qed

lemma await_loop_spec:
  assumes C: "uipm_chip H V"
  shows "request_of V w = Some (p, d) \<Longrightarrow> d \<le> n \<Longrightarrow> 0 < n \<Longrightarrow>
    fst (await_loop H n w) = read_frame V w p \<and> prop_of V (snd (await_loop H n w)) = prop_of V w"
proof (induction n arbitrary: w d)
  case (Suc n)
  obtain d1 where "d1 \<le> d - 1" and q: "request_of V (target_wait H 1 w) = Some (p, d1)"
    using uipm_wait(2) [OF C Suc.prems(1), of 1] by auto
  then have d1: "d1 \<le> n" "request_of V (target_wait H 1 w) = Some (p, d1)"
    using Suc.prems(2) by auto
  obtain b w1 where r: "recvUIPMPacket H (target_wait H 1 w) = (b, w1)" by fastforce
  note R = recv_spec [OF C d1(2) r]
  have P: "prop_of V (target_wait H 1 w) = prop_of V w" using uipm_wait(1) [OF C Suc.prems(1)] by simp
  have F: "read_frame V w1 p = read_frame V w p" "read_frame V (target_wait H 1 w) p = read_frame V w p"
    using R(1) P by (simp_all add: read_frame_def)
  show ?case
  proof (cases "not_ready b")
    case True
    obtain d2 where "d2 \<le> d1" "0 < d2" "request_of V w1 = Some (p, d2)" using R(2) [OF True] by auto
    then show ?thesis using Suc.IH [of w1 d2] d1 r True R(1) P F by simp
  next
    case False
    then show ?thesis using R(1,3) P F r by simp
  qed
qed simp

lemma readProperty_spec:
  assumes C: "uipm_chip H V" and p: "0 < uipmPropertyLengths p"
    and e: "readProperty H p s = (b, s')"
  shows "b = read_frame V (world s) p" "prop_of V (world s') = prop_of V (world s)"
    "length (prop_of V (world s) p) = uipmPropertyLengths p"
    "s' = s\<lparr>world := world s', awaitingResponse := False\<rparr>"
proof -
  have N: "same_view V (world s) (snd (i2c_write H [0, 0, 0] (world s)))"
    using C by (simp add: uipm_chip_def)
  have T: "\<And>w n. prop_of V (target_wait H n w) = prop_of V w" using C by (simp add: uipm_chip_def)
  have P0: "prop_of V (pm_nop H (world s)) = prop_of V (world s)"
    using N T by (simp add: pm_nop_def same_view_def)
  obtain w1 d where w: "i2c_write H [COMMAND_READ_REQUEST, p] (pm_nop H (world s)) = (True, w1)"
    "prop_of V w1 = prop_of V (pm_nop H (world s))" "d \<le> UIPM_MAX_RETRIES"
    "request_of V w1 = Some (p, d)"
    using C p unfolding uipm_chip_def by blast
  show "length (prop_of V (world s) p) = uipmPropertyLengths p"
    using C p by (simp add: uipm_chip_def)
  have "0 < UIPM_MAX_RETRIES" by (simp add: UIPM_MAX_RETRIES_def)
  from await_loop_spec [OF C w(4,3) this] w(1,2) P0 e
  show "b = read_frame V (world s) p" "prop_of V (world s') = prop_of V (world s)"
    "s' = s\<lparr>world := world s', awaitingResponse := False\<rparr>"
    by (auto simp: readProperty_def sendUIPMPacket_def awaitUIPMPacket_def pm_awaitingPacket_def
        read_frame_def split: prod.splits)
qed

lemma byte_at_frame:
  assumes "0 < uipmPropertyLengths p" "length (prop_of V w p) = uipmPropertyLengths p"
    and "i < uipmPropertyLengths p"
  shows "byte_at H (read_frame V w p) (i + 3) = prop_of V w p ! i"
  using assms by (simp add: byte_at_def read_frame_def numeral_eq_Suc)

lemma uipm_lengths:
  "uipmPropertyLengths PROPERTY_BOARD_REVISION = 2" "uipmPropertyLengths PROPERTY_I2C_VERSION = 2"
  "uipmPropertyLengths PROPERTY_DAPLINK_VERSION = 2" "uipmPropertyLengths PROPERTY_POWER_SOURCE = 1"
  "uipmPropertyLengths PROPERTY_POWER_CONSUMPTION = 4" "uipmPropertyLengths PROPERTY_USB_STATE = 1"
  by (simp_all add: uipmPropertyLengths_def uipm_codes)

lemma readProperty_bytes:
  assumes "uipm_chip H V" "0 < uipmPropertyLengths p" "readProperty H p s = (b, s')"
  shows "i < uipmPropertyLengths p \<Longrightarrow> byte_at H b (i + 3) = prop_of V (world s) p ! i"
    "prop_of V (world s') = prop_of V (world s)" "versionLoaded s' = versionLoaded s"
    "ver_board s' = ver_board s" "ver_i2c s' = ver_i2c s"
proof -
  note R = readProperty_spec [OF assms]
  show "i < uipmPropertyLengths p \<Longrightarrow> byte_at H b (i + 3) = prop_of V (world s) p ! i"
    unfolding R(1) by (rule byte_at_frame [OF assms(2) R(3)])
  show "versionLoaded s' = versionLoaded s" "ver_board s' = ver_board s" "ver_i2c s' = ver_i2c s"
    by (subst R(4), simp)+
qed (rule readProperty_spec [OF assms])

text \<open>The values the chip holds, as the getters return them.\<close>

definition chip_byte :: "'w uipm_view \<Rightarrow> 'w \<Rightarrow> u8 \<Rightarrow> nat \<Rightarrow> u8" where
  "chip_byte V w p i = prop_of V w p ! i"

definition chip_half :: "'w uipm_view \<Rightarrow> 'w \<Rightarrow> u8 \<Rightarrow> nat \<Rightarrow> u16" where
  "chip_half V w p i = ucast (prop_of V w p ! i) + 256 * ucast (prop_of V w p ! (i + 1))"

lemma readProperty_half:
  assumes "uipm_chip H V" "readProperty H p s = (b, s')" "i + 1 < uipmPropertyLengths p"
  shows "half_at H b (i + 3) = chip_half V (world s) p i"
  using readProperty_bytes(1) [OF assms(1) _ assms(2), of i]
    readProperty_bytes(1) [OF assms(1) _ assms(2), of "i + 1"] assms(3)
  by (simp add: half_at_def chip_half_def eval_nat_numeral)

text \<open>
  C24 Over a chip that keeps the protocol and answers within five milliseconds, the getters of the
  power manager return, and store, exactly what the chip holds, whatever the interrupt line
  shows before the answer is ready, and leave the properties of the chip as they were.
\<close>

theorem power_getters_correct:
  assumes C: "uipm_chip H V" and v: "\<not> versionLoaded s" and w: "w = world s"
  shows "(case getPowerSource H s of (x, s') \<Rightarrow> x = chip_byte V w PROPERTY_POWER_SOURCE 0
      \<and> powerSource s' = x \<and> prop_of V (world s') = prop_of V w)
    \<and> (case getUSBStatus H s of (x, s') \<Rightarrow> x = chip_byte V w PROPERTY_USB_STATE 0
      \<and> usbStatus s' = x \<and> prop_of V (world s') = prop_of V w)
    \<and> (case getPowerConsumption H s of (x, s') \<Rightarrow>
        x = ucast (chip_half V w PROPERTY_POWER_CONSUMPTION 0)
            + 65536 * ucast (chip_half V w PROPERTY_POWER_CONSUMPTION 2)
      \<and> powerConsumption s' = x \<and> prop_of V (world s') = prop_of V w)
    \<and> (case getVersion H s of (x, s') \<Rightarrow>
        x = (chip_half V w PROPERTY_I2C_VERSION 0, chip_half V w PROPERTY_DAPLINK_VERSION 0,
             chip_half V w PROPERTY_BOARD_REVISION 0)
      \<and> (ver_i2c s', ver_daplink s', ver_board s') = x \<and> prop_of V (world s') = prop_of V w)"
proof (intro conjI)
  obtain b s1 where r: "readProperty H PROPERTY_POWER_SOURCE s = (b, s1)" by fastforce
  then show "case getPowerSource H s of (x, s') \<Rightarrow> x = chip_byte V w PROPERTY_POWER_SOURCE 0
      \<and> powerSource s' = x \<and> prop_of V (world s') = prop_of V w"
    using readProperty_bytes(1) [OF C _ r, of 0] readProperty_bytes(2) [OF C _ r]
    by (simp add: getPowerSource_def chip_byte_def uipm_lengths w)
next
  obtain b s1 where r: "readProperty H PROPERTY_USB_STATE s = (b, s1)" by fastforce
  then show "case getUSBStatus H s of (x, s') \<Rightarrow> x = chip_byte V w PROPERTY_USB_STATE 0
      \<and> usbStatus s' = x \<and> prop_of V (world s') = prop_of V w"
    using readProperty_bytes(1) [OF C _ r, of 0] readProperty_bytes(2) [OF C _ r]
    by (simp add: getUSBStatus_def chip_byte_def uipm_lengths w)
next
  obtain b s1 where r: "readProperty H PROPERTY_POWER_CONSUMPTION s = (b, s1)" by fastforce
  then show "case getPowerConsumption H s of (x, s') \<Rightarrow>
        x = ucast (chip_half V w PROPERTY_POWER_CONSUMPTION 0)
            + 65536 * ucast (chip_half V w PROPERTY_POWER_CONSUMPTION 2)
      \<and> powerConsumption s' = x \<and> prop_of V (world s') = prop_of V w"
    using readProperty_half [OF C r, of 0] readProperty_half [OF C r, of 2]
      readProperty_bytes(2) [OF C _ r]
    by (simp add: getPowerConsumption_def word_at_def uipm_lengths w)
next
  obtain b1 s1 where 1: "readProperty H PROPERTY_BOARD_REVISION s = (b1, s1)" by fastforce
  let ?s2 = "s1\<lparr>ver_board := half_at H b1 3\<rparr>"
  obtain b2 s3 where 2: "readProperty H PROPERTY_I2C_VERSION ?s2 = (b2, s3)" by fastforce
  let ?s4 = "s3\<lparr>ver_i2c := half_at H b2 3\<rparr>"
  obtain b3 s5 where 3: "readProperty H PROPERTY_DAPLINK_VERSION ?s4 = (b3, s5)" by fastforce
  show "case getVersion H s of (x, s') \<Rightarrow>
        x = (chip_half V w PROPERTY_I2C_VERSION 0, chip_half V w PROPERTY_DAPLINK_VERSION 0,
             chip_half V w PROPERTY_BOARD_REVISION 0)
      \<and> (ver_i2c s', ver_daplink s', ver_board s') = x \<and> prop_of V (world s') = prop_of V w"
    using 1 2 3 v readProperty_half [OF C 1, of 0] readProperty_half [OF C 2, of 0]
      readProperty_half [OF C 3, of 0] readProperty_bytes(2-) [OF C _ 1]
      readProperty_bytes(2-) [OF C _ 2] readProperty_bytes(2-) [OF C _ 3]
    by (simp add: getVersion_def uipm_lengths chip_half_def w)
qed

text \<open>A chip that needs three milliseconds to answer, with the interrupt line active all the time.\<close>

type_synonym demo_uipm_state = "(u8 \<times> nat) option"

definition demo_props :: "u8 \<Rightarrow> u8 list" where
  "demo_props p = take (uipmPropertyLengths p) [p + 1, p + 2, p + 3, p + 4]"

definition demo_uipm_view :: "demo_uipm_state uipm_view" where
  "demo_uipm_view = \<lparr>prop_of = \<lambda>_. demo_props, request_of = \<lambda>w. w\<rparr>"

definition demo_uipm_write :: "u8 list \<Rightarrow> demo_uipm_state \<Rightarrow> bool \<times> demo_uipm_state" where
  "demo_uipm_write bs w =
     (case bs of [c, p] \<Rightarrow> (True, if c = COMMAND_READ_REQUEST then Some (p, 3) else w)
      | _ \<Rightarrow> (True, w))"

definition demo_uipm_read :: "nat \<Rightarrow> demo_uipm_state \<Rightarrow> u8 list option \<times> demo_uipm_state" where
  "demo_uipm_read n w =
     (case w of
        Some (p, 0) \<Rightarrow> (Some (take n (read_frame demo_uipm_view w p @ replicate n 0)), None)
      | _ \<Rightarrow> (Some (take n ([COMMAND_ERROR_RESPONSE, INCOMPLETE_CMD] @ replicate n 0)), w))"

definition demo_uipm :: "demo_uipm_state power_hw" where
  "demo_uipm =
     \<lparr>i2c_write = demo_uipm_write, i2c_read = demo_uipm_read, irq1_active = Pair True,
      irq1_detect = \<lambda>_ w. w, target_wait = \<lambda>n. map_option (map_prod id (\<lambda>d. d - n)),
      past_end = \<lambda>_. 0, deepSleepAll = \<lambda>_. Pair 0, systemOff = \<lambda>w. w, has_sysTimer = False,
      timer_32bit = False, time_us = Pair 0, time_ms = Pair 0, wakeup_time = Pair (False, 0),
      event_after = \<lambda>_ _. Pair False, cancel_event = \<lambda>_ w. w, deepsleep_begin = Pair (0, 0),
      deepsleep_end = \<lambda>_ _ w. w, timer_getCC = \<lambda>_ _. 0, timer_putCC = \<lambda>_ _ w. w,
      timer_getINTENSET = \<lambda>_. 0, timer_putINTENSET = \<lambda>_ w. w, timer_clearInts = \<lambda>w. w,
      timer_hookIRQ = \<lambda>_ w. w, timer_setCompare = \<lambda>_ _ w. w, timer_capture = Pair 0,
      timer_enableIRQ = \<lambda>w. w, timer_disableIRQ = \<lambda>w. w, gpiote_enableIRQ = \<lambda>w. w,
      wfi = Pair None, pin_getDigital = \<lambda>_ w. w, pin_polarity = \<lambda>_ _. True,
      pin_setDetect = \<lambda>_ _ w. w, scheduler_running = \<lambda>_. False, get_pending = \<lambda>_. False,
      set_pending = \<lambda>_ w. w, has_eventBus = False, bus_listen = \<lambda>w. w, bus_ignore = \<lambda>w. w,
      lock_waitCount = \<lambda>_. 0, lock_notifyAll = \<lambda>w. w, lock_wait = \<lambda>s. s, fiber_sleep = \<lambda>_ s. s\<rparr>"

lemma length_demo_props [simp]: "length (demo_props p) = uipmPropertyLengths p"
  using length_table [of p] by (simp add: demo_props_def)

lemma take_demo_props [simp]: "take 5 (demo_props p) = demo_props p"
  using length_table [of p] by (simp add: take_all)

lemma demo_frame [simp]:
  "take (3 + uipmPropertyLengths p) (a # b # c # demo_props p @ zs) = a # b # c # demo_props p"
  "uipmPropertyLengths p + (5 - uipmPropertyLengths p) = 5"
  using length_table [of p] by (simp_all add: eval_nat_numeral)

lemma demo_uipm_chip: "uipm_chip demo_uipm demo_uipm_view"
  using length_table
  by (auto simp: uipm_chip_def demo_uipm_def demo_uipm_view_def same_view_def demo_uipm_write_def
      demo_uipm_read_def UIPM_MAX_RETRIES_def UIPM_MAX_BUFFER_SIZE_def read_frame_def
      split: option.splits nat.splits)

lemma power_getters_correct_witness:
  "fst (getPowerSource demo_uipm (pm_new None)) = 5
    \<and> fst (getUSBStatus demo_uipm (pm_new None)) = 7
    \<and> fst (getPowerConsumption demo_uipm (pm_new None)) = 0x09080706
    \<and> fst (getVersion demo_uipm (pm_new None)) = (0x0403, 0x0504, 0x0302)"
  using power_getters_correct [OF demo_uipm_chip, of "pm_new None" None]
  by (auto simp: pm_new_def chip_byte_def chip_half_def demo_uipm_view_def demo_props_def uipm_lengths
      split: prod.splits) (simp_all add: uipm_codes)

end
