(* ===== verification/DeepSleepProps.thy ===== *)
theory DeepSleepProps
  imports DeepSleep
begin

text \<open>
  Timed deep sleep: the naps end, the ticks counted are the time that has passed also when the
  32-bit counter wraps, the system timer is read often enough to keep up with the counter, and an undisturbed
  sleep lasts what the preparation computed. The clock is a parameter: \<open>now w\<close> is the time in microseconds as a
  number without wrap-around, \<open>seen w\<close> the time at which the system timer was read last.
\<close>

text \<open>
  The timer: an alarm set \<open>r\<close> ticks ahead of the counter is raised after \<open>r\<close> ticks and at most a
  second later; another interrupt may end the wait before. The system timer adds up the differences of the 32-bit
  counter: it is right when it is read again before the counter has gone round. Reading it takes no time.
\<close>

definition nap_clock :: "'w power_hw \<Rightarrow> ('w \<Rightarrow> nat) \<Rightarrow> ('w \<Rightarrow> nat) \<Rightarrow> bool" where
  "nap_clock H now seen \<longleftrightarrow>
     (\<forall>w r. 0 < r \<and> r \<le> unat ticksMax \<longrightarrow>
        (let (irq, w1) = wfi H (timer_setCompare H 2 (of_nat (now w) + of_nat r) w);
             (tick, w2) = timer_capture H w1
         in tick = of_nat (now w2) \<and> now w \<le> now w2 \<and> now w2 \<le> now w + r + 1000000
            \<and> (irq \<noteq> None \<and> irq \<noteq> Some 0 \<longrightarrow> now w + r \<le> now w2) \<and> seen w2 = seen w))
     \<and> (\<forall>w. now (snd (time_us H w)) = now w \<and> (now w < seen w + 2 ^ 32 \<longrightarrow>
            fst (time_us H w) = of_nat (now w) \<and> seen (snd (time_us H w)) = now w))"

lemma unat_ticksMax [simp]: "unat ticksMax = 4293967295"
  by (simp add: ticksMax_def)

lemma nap_spec:
  assumes "nap_clock H now seen" "0 < r" "unat r \<le> unat ticksMax"
    and t0: "tick0 = of_nat (now (world s))" and z: "timer_irq_channels s = 0"
    and e: "nap H tick0 r s = (tick1, s1)"
  shows "tick1 = of_nat (now (world s1))" "now (world s) \<le> now (world s1)"
    "now (world s1) \<le> now (world s) + unat r + 1000000"
    "timer_irq_channels s1 \<noteq> 0 \<Longrightarrow> now (world s) + unat r \<le> now (world s1)" "seen (world s1) = seen (world s)"
proof -
  let ?w = "timer_setCompare H 2 (of_nat (now (world s)) + of_nat (unat r)) (world s)"
  obtain irq w1 where 1: "wfi H ?w = (irq, w1)" by fastforce
  obtain tick w2 where 2: "timer_capture H w1 = (tick, w2)" by fastforce
  have r0: "0 < unat r" using \<open>0 < r\<close> by (simp add: unat_gt_0 word_gt_0)
  have "tick = of_nat (now w2) \<and> now (world s) \<le> now w2 \<and> now w2 \<le> now (world s) + unat r + 1000000
      \<and> (irq \<noteq> None \<and> irq \<noteq> Some 0 \<longrightarrow> now (world s) + unat r \<le> now w2) \<and> seen w2 = seen (world s)"
    using assms(1,3) r0 1 2 unfolding nap_clock_def
    by (auto simp: Let_def dest!: spec [of _ "world s"] spec [of _ "unat r"])
  moreover have "tick1 = tick" "world s1 = w2"
    and "timer_irq_channels s1 = (case irq of None \<Rightarrow> 0 | Some c \<Rightarrow> c)"
    using e 1 2 z by (auto simp: nap_def t0 deepSleepTimerIRQ_def split: option.splits)
  ultimately show "tick1 = of_nat (now (world s1))" "now (world s) \<le> now (world s1)"
    "now (world s1) \<le> now (world s) + unat r + 1000000"
    "timer_irq_channels s1 \<noteq> 0 \<Longrightarrow> now (world s) + unat r \<le> now (world s1)" "seen (world s1) = seen (world s)"
    by (auto split: option.splits)
qed

text \<open>The difference of two 32-bit readings is the time between them if that is below \<open>2 ^ 32\<close>.\<close>

lemma tick_difference:
  assumes "a \<le> b" "b - a < 2 ^ 32"
  shows "unat ((of_nat b :: u32) - of_nat a) = b - a"
proof -
  have "(of_nat b :: u32) - of_nat a = of_nat (b - a)" using assms(1) by (simp add: of_nat_diff)
  then show ?thesis using assms(2) by (simp add: unat_of_nat take_bit_nat_eq_self)
qed

lemma unat_ucast_64 [simp]: "unat (ucast (w :: u32) :: u64) = unat w"
proof -
  have "unat w < 2 ^ 64" using unsigned_less [of w, where ?'a = nat] by simp
  then show ?thesis by (simp add: unsigned_ucast_eq unsigned_take_bit_eq take_bit_nat_eq_self)
qed

lemma nap_remain_None: "nap_remain True tot st = None \<longleftrightarrow> tot \<le> st"
  by (simp add: nap_remain_def)

lemma nap_remain_Some:
  assumes "nap_remain True tot st = Some r"
  shows "0 < r \<and> unat r \<le> unat ticksMax \<and> unat st + unat r \<le> unat tot"
proof -
  have lt: "unat st < unat tot"
    using assms by (auto simp: nap_remain_def word_less_nat_alt word_le_nat_alt split: if_splits)
  have d: "unat (tot - st) = unat tot - unat st"
    using lt by (simp add: unat_sub word_le_nat_alt)
  have u: "unat (ucast ticksMax :: u64) = unat ticksMax" by (rule unat_ucast_64)
  show ?thesis
  proof (cases "(ucast ticksMax :: u64) < tot - st")
    case True
    then have "r = ticksMax" using assms by (simp add: nap_remain_def split: if_splits)
    then show ?thesis using True d u by (simp add: word_less_nat_alt)
  next
    case False
    then have r: "r = ucast (tot - st)" using assms by (simp add: nap_remain_def split: if_splits)
    have le: "unat tot - unat st \<le> 4293967295" using False d u by (simp add: word_less_nat_alt)
    then have "unat r = unat tot - unat st"
      by (simp add: r unsigned_ucast_eq unsigned_take_bit_eq d take_bit_nat_eq_self)
    then show ?thesis using lt le by (simp add: word_less_nat_alt)
  qed
qed

lemma world_read_clock [simp]:
  "nap_clock H now seen \<Longrightarrow> now (world (read_clock H s)) = now (world s)"
  "timer_irq_channels (read_clock H s) = timer_irq_channels s"
  by (simp_all add: read_clock_def nap_clock_def)

lemma read_clock_last:
  "nap_clock H now seen \<Longrightarrow> timer_32bit H \<Longrightarrow> now (world s) < seen (world s) + 2 ^ 32 \<Longrightarrow>
    seen (world (read_clock H s)) = now (world s)"
  by (simp add: read_clock_def nap_clock_def)

definition undisturbed :: "'w power_hw \<Rightarrow> bool" where
  "undisturbed H \<longleftrightarrow> (\<forall>w. \<exists>c. fst (wfi H w) = Some c \<and> c \<noteq> 0)"

lemma nap_undisturbed:
  "undisturbed H \<Longrightarrow> timer_irq_channels (snd (nap H t r s)) \<noteq> 0"
  unfolding undisturbed_def nap_def
  by (drule spec [of _ "timer_setCompare H 2 (t + r) (world s)"])
    (auto simp: deepSleepTimerIRQ_def split: prod.splits)

lemma nap_loop_ends:
  assumes C: "nap_clock H now seen" and big: "unat tot < 2 ^ 63"
    and "t0 = of_nat (now (world s))" "timer_irq_channels s = 0"
    and "unat st \<le> unat tot + 1000000" and "seen (world s) = now (world s)" and B: "timer_32bit H"
  shows "\<exists>tick1 st' s'. nap_loop H True tot t0 st s = Some (tick1, st', s')
    \<and> tick1 = of_nat (now (world s'))
    \<and> now (world s') + unat st = now (world s) + unat st'
    \<and> unat st' \<le> unat tot + 1000000 \<and> (undisturbed H \<longrightarrow> unat tot \<le> unat st') \<and> seen (world s') = now (world s')"
  using assms(3-6)
proof (induction "unat tot - unat st" arbitrary: t0 st s rule: less_induct)
  case less
  show ?case
  proof (cases "nap_remain True tot st")
    case None
    then have "unat tot \<le> unat st" by (simp add: nap_remain_None word_le_nat_alt)
    with None less.prems show ?thesis by (subst nap_loop.simps) auto
  next
    case (Some r)
    note r = nap_remain_Some [OF Some]
    obtain t1 s1 where n: "nap H t0 r s = (t1, s1)" by fastforce
    have N: "t1 = of_nat (now (world s1))" "now (world s) \<le> now (world s1)"
      "now (world s1) \<le> now (world s) + unat r + 1000000"
      "timer_irq_channels s1 \<noteq> 0 \<Longrightarrow> now (world s) + unat r \<le> now (world s1)" "seen (world s1) = seen (world s)"
      using nap_spec [OF C _ _ less.prems(1,2) n] r by auto
    have "now (world s1) < seen (world s1) + 2 ^ 32" using N(3,5) r less.prems(4) by simp
    note read = read_clock_last [OF C B this]
    let ?d = "now (world s1) - now (world s)"
    have d: "unat (t1 - t0) = ?d"
      unfolding N(1) less.prems(1) using N r by (intro tick_difference) auto
    define st1 where "st1 = st + ucast (t1 - t0)"
    have u: "unat (ucast (t1 - t0) :: u64) = ?d" by (simp add: d)
    have step: "unat st + ?d \<le> unat tot + 1000000" using r N(2,3) by linarith
    have st1: "unat st1 = unat st + ?d"
    proof -
      have "unat st + ?d < 2 ^ 64" by (rule le_less_trans [OF step]) (use big in simp)
      then show ?thesis unfolding st1_def unat_plus_if' u by simp
    qed
    have bound: "unat st1 \<le> unat tot + 1000000" using st1 step by simp
    show ?thesis
    proof (cases "timer_irq_channels s1 = 0")
      case True
      have "\<not> undisturbed H" using nap_undisturbed [of H t0 r s] n True by auto
      moreover have "nap_loop H True tot t0 st s = Some (t1, st1, read_clock H s1)"
        using Some n True C by (subst nap_loop.simps) (simp add: Let_def st1_def)
      ultimately show ?thesis using bound N(1-3) st1 C read by simp
    next
      case False
      let ?s = "read_clock H s1\<lparr>timer_irq_channels := 0\<rparr>"
      have W: "now (world ?s) = now (world s1)" using C by simp
      have p: "unat r \<le> ?d" using N(4) [OF False] by simp
      have pos: "0 < unat r" using r by (simp add: word_less_nat_alt)
      have "unat tot - unat st1 < unat tot - unat st" using st1 p r pos by linarith
      from less.hyps [OF this, of t1 ?s] obtain t' st' s' where
        e: "nap_loop H True tot t1 st1 ?s = Some (t', st', s')" "t' = of_nat (now (world s'))"
          "now (world s') + unat st1 = now (world ?s) + unat st'"
          "unat st' \<le> unat tot + 1000000" "undisturbed H \<longrightarrow> unat tot \<le> unat st'" "seen (world s') = now (world s')"
        using N(1) bound W read by auto
      have "nap_loop H True tot t0 st s = nap_loop H True tot t1 st1 ?s"
        using Some n False C by (subst nap_loop.simps) (simp add: Let_def st1_def [symmetric])
      then show ?thesis using e W st1 N by auto
    qed
  qed
qed

lemma total_ticks_value:
  assumes "timeEntry \<le> timeStart" "unat timeStart < 2 ^ 62"
    and "unat timeStart - unat timeEntry + unat timeStart + 13 \<le> unat wakeUpTime"
  shows "unat (total_ticks wakeUpTime timeEntry timeStart)
    = unat wakeUpTime - unat timeStart - (unat timeStart - unat timeEntry) - 13"
proof -
  have d: "unat (timeStart - timeEntry) = unat timeStart - unat timeEntry"
    using assms(1) by (simp add: unat_sub)
  have e: "unat (wakeUpTime - timeEntry) = unat wakeUpTime - unat timeEntry"
    using assms by (simp add: unat_sub word_le_nat_alt)
  have m: "unat ((timeStart - timeEntry) * 2) = 2 * (unat timeStart - unat timeEntry)"
    unfolding unat_word_ariths d using assms(2) by simp
  have le: "2 * (unat timeStart - unat timeEntry) + 13 \<le> unat wakeUpTime - unat timeEntry"
    using assms(1,3) unfolding word_le_nat_alt by linarith
  have b: "(timeStart - timeEntry) * 2 \<le> wakeUpTime - timeEntry"
    unfolding word_le_nat_alt e m using le by linarith
  note f = unat_sub [OF b, unfolded e m]
  have c: "13 \<le> wakeUpTime - timeEntry - (timeStart - timeEntry) * 2"
    unfolding word_le_nat_alt f using le by simp
  have "unat (wakeUpTime - timeEntry - (timeStart - timeEntry) * 2 - 13)
    = unat wakeUpTime - unat timeEntry - 2 * (unat timeStart - unat timeEntry) - 13"
    unfolding unat_sub [OF c] f by simp
  then show ?thesis using assms(1) by (simp add: total_ticks_def word_le_nat_alt del: diff_diff_eq)
qed

text \<open>
  The other documented behaviour used: \<open>deepsleep_begin\<close> reads the system timer and returns the time and the counter
  of the moment it returns, and the register accesses of the preparation take no time.
\<close>

definition sleep_clock :: "'w power_hw \<Rightarrow> ('w \<Rightarrow> nat) \<Rightarrow> ('w \<Rightarrow> nat) \<Rightarrow> bool" where
  "sleep_clock H now seen \<longleftrightarrow> nap_clock H now seen
     \<and> (\<forall>w. let (r, w') = deepsleep_begin H w in r = (of_nat (now w'), of_nat (now w')) \<and> seen w' = now w')
     \<and> (\<forall>w. seen (irq1_detect H SENSE_Low w) = seen w \<and> seen (gpiote_enableIRQ H w) = seen w
            \<and> seen (timer_hookIRQ H True w) = seen w \<and> seen (timer_clearInts H w) = seen w
            \<and> (\<forall>t. seen (timer_setCompare H 2 t w) = seen w) \<and> seen (timer_enableIRQ H w) = seen w)
     \<and> (\<forall>w. now (irq1_detect H SENSE_Low w) = now w \<and> now (gpiote_enableIRQ H w) = now w
            \<and> now (timer_hookIRQ H True w) = now w \<and> now (timer_clearInts H w) = now w
            \<and> (\<forall>t. now (timer_setCompare H 2 t w) = now w) \<and> now (timer_enableIRQ H w) = now w)"

lemma sleep_enter_clock:
  assumes "sleep_clock H now seen"
    and "sleep_enter H timeEntry wakeUpTime True None s = (cc, ints, tick0, tot, s')"
  shows "tick0 = of_nat (now (world s'))" "timer_irq_channels s' = 0"
    "tot = total_ticks wakeUpTime timeEntry (of_nat (now (world s')))" "seen (world s') = now (world s')"
proof -
  let ?s2 = "components_sleep H SleepBeginWithWakeUps (setPowerLED H True s)"
  obtain ts t w where b: "deepsleep_begin H (world ?s2) = ((ts, t), w)" by (metis prod.collapse)
  have "let (r, w') = deepsleep_begin H (world ?s2) in r = (of_nat (now w'), of_nat (now w')) \<and> seen w' = now w'"
    using assms(1) unfolding sleep_clock_def by blast
  then have T: "ts = of_nat (now w)" "t = of_nat (now w)" "seen w = now w" using b by simp_all
  show "tick0 = of_nat (now (world s'))" "timer_irq_channels s' = 0"
    "tot = total_ticks wakeUpTime timeEntry (of_nat (now (world s')))" "seen (world s') = now (world s')"
    using assms b T unfolding sleep_clock_def
    by (auto simp: sleep_enter_def Let_def sleep_detect_def)
qed

text \<open>
  C25 In the configuration that is built (\<open>target.json\<close> sets \<open>CODAL_TIMER_32BIT\<close>), with the wake-up sources on: a timed
  deep sleep that \<open>canDeepSleep\<close> allows, and whose preparation took no more than half of the time up to the wake-up
  time less the 13 ticks of latency, ends. It ends at most a second after the wake-up time less the length of the
  preparation and those 13 ticks, and not before that when no other interrupt wakes the processor. The system timer has
  been read often enough to keep up with the 32-bit counter, however often that went round: its time is right at the
  end, and \<open>system_timer_deepsleep_end\<close> is given no ticks to add. (With a longer preparation the number of ticks wraps
  below zero, see the findings.)
\<close>

theorem deep_sleep_wakes:
  assumes C: "sleep_clock H now seen" and built: "timer_32bit H"
    and right: "now (world s) < seen (world s) + 2 ^ 32"
    and can: "canDeepSleep H True wakeUpTime True None (s\<lparr>world := snd (time_us H (world s))\<rparr>) = (OK, s1)"
    and enter: "sleep_enter H (of_nat (now (world s))) wakeUpTime True None s1
      = (cc, ints, tick0, tot, s2)"
    and before: "now (world s) \<le> now (world s2)"
    and fits: "2 * (now (world s2) - now (world s)) + 13 \<le> unat wakeUpTime - now (world s)"
    and small: "unat wakeUpTime < 2 ^ 62"
    and alarm: "alarm = unat wakeUpTime - (now (world s2) - now (world s)) - 13"
  shows "\<exists>s3. simpleDeepSleep_until H True wakeUpTime True None s = Some (OK, sleep_leave H cc ints True None 0 0 s3)
    \<and> now (world s2) \<le> now (world s3)
    \<and> now (world s3) \<le> alarm + 1000000
    \<and> (undisturbed H \<longrightarrow> alarm \<le> now (world s3))
    \<and> seen (world s3) = now (world s3)"
proof -
  let ?e = "now (world s)" and ?t = "now (world s2)"
  note E = sleep_enter_clock [OF C enter]
  have b: "?t < 2 ^ 62" "?e < 2 ^ 62" using fits small before by linarith+
  have u: "unat (of_nat ?t :: u64) = ?t" "unat (of_nat ?e :: u64) = ?e"
    using b by (simp_all add: unat_of_nat take_bit_nat_eq_self)
  have tot: "unat tot = unat wakeUpTime - ?t - (?t - ?e) - 13"
    unfolding E(3)
    by (subst total_ticks_value) (use u b before fits in \<open>auto simp: word_le_nat_alt\<close>)
  have nap: "nap_clock H now seen" using C by (simp add: sleep_clock_def)
  then have t: "fst (time_us H (world s)) = of_nat ?e" using right by (simp add: nap_clock_def)
  have "unat tot < 2 ^ 63" using tot small by simp
  from nap_loop_ends [OF nap this E(1,2) _ E(4) built, of 0] obtain ticks s3 where
    L: "nap_loop H True tot tick0 0 s2 = Some (of_nat (now (world s3)), ticks, s3)"
      "now (world s3) = ?t + unat ticks" "unat ticks \<le> unat tot + 1000000"
      "undisturbed H \<longrightarrow> unat tot \<le> unat ticks" "seen (world s3) = now (world s3)" by auto
  have "simpleDeepSleep_until H True wakeUpTime True None s
      = Some (OK, sleep_leave H cc ints True None (of_nat (now (world s3))) ticks s3)"
    using t can enter L(1)
    by (cases "time_us H (world s)") (auto simp: simpleDeepSleep_until_def)
  also have "sleep_leave H cc ints True None (of_nat (now (world s3))) ticks s3 = sleep_leave H cc ints True None 0 0 s3"
    using built by (simp add: sleep_leave_def)
  finally have "simpleDeepSleep_until H True wakeUpTime True None s = Some (OK, sleep_leave H cc ints True None 0 0 s3)" .
  moreover have "?t + unat tot = alarm" using tot alarm fits before by linarith
  ultimately show ?thesis using L(2-5) by (intro exI [of _ s3]) auto
qed

text \<open>
  When the preparation takes longer than half of the time, the number of ticks to sleep wraps
  below zero, and the alarm is more than 290,000 years away.
\<close>

lemma late_preparation_oversleeps:
  assumes "timeEntry \<le> timeStart" "timeEntry \<le> wakeUpTime"
    and "unat timeStart - unat timeEntry < 2 ^ 60"
    and "unat wakeUpTime - unat timeEntry < 2 * (unat timeStart - unat timeEntry) + 13"
  shows "2 ^ 63 \<le> unat (total_ticks wakeUpTime timeEntry timeStart)"
proof -
  define a where "a = unat wakeUpTime - unat timeEntry"
  define p where "p = unat timeStart - unat timeEntry"
  have A: "wakeUpTime - timeEntry = of_nat a"
    using assms(2) by (simp add: a_def word_le_nat_alt of_nat_diff)
  have P: "timeStart - timeEntry = of_nat p"
    using assms(1) by (simp add: p_def word_le_nat_alt of_nat_diff)
  define k where "k = 2 * p + 13 - a"
  have k: "0 < k" "k \<le> 2 ^ 61 + 13" using assms(3,4) by (auto simp: k_def a_def p_def)
  have "total_ticks wakeUpTime timeEntry timeStart = - of_nat k"
    using assms(4) by (simp add: total_ticks_def A P k_def of_nat_diff flip: a_def p_def)
  also have "\<dots> = of_nat (2 ^ 64 - k)"
    using k by (simp add: of_nat_diff)
  finally show ?thesis
    using k by (simp only: unat_of_nat) (simp add: take_bit_nat_eq_self)
qed

text \<open>A world of a clock, the compare register and the last reading of the system timer, with an interface chip that does
  not answer.\<close>

definition demo_timer :: "(nat \<times> u32 \<times> nat) power_hw" where
  "demo_timer =
     \<lparr>i2c_write = \<lambda>_ w. (False, w), i2c_read = \<lambda>_ w. (None, w), irq1_active = Pair False,
      irq1_detect = \<lambda>_ w. w, target_wait = \<lambda>n (x, t). (x + 1000 * n, t), past_end = \<lambda>_. 0,
      deepSleepAll = \<lambda>_. Pair 0, systemOff = \<lambda>w. w, has_sysTimer = True, timer_32bit = True,
      time_us = \<lambda>(x, t, l). (of_nat x, (x, t, x)), time_ms = \<lambda>w. (of_nat (fst w div 1000), w),
      wakeup_time = Pair (False, 0), event_after = \<lambda>_ _. Pair False, cancel_event = \<lambda>_ w. w,
      deepsleep_begin = \<lambda>(x, t, l). ((of_nat x, of_nat x), (x, t, x)), deepsleep_end = \<lambda>_ _ w. w,
      timer_getCC = \<lambda>_ (x, t, l). t, timer_putCC = \<lambda>_ t (x, _, l). (x, t, l), timer_getINTENSET = \<lambda>_. 0,
      timer_putINTENSET = \<lambda>_ w. w, timer_clearInts = \<lambda>w. w, timer_hookIRQ = \<lambda>_ w. w,
      timer_setCompare = \<lambda>_ t (x, _, l). (x, t, l), timer_capture = \<lambda>w. (of_nat (fst w), w),
      timer_enableIRQ = \<lambda>w. w, timer_disableIRQ = \<lambda>w. w, gpiote_enableIRQ = \<lambda>w. w,
      wfi = \<lambda>(x, t, l). (Some 4, (x + unat (t - of_nat x), t, l)), pin_getDigital = \<lambda>_ w. w,
      pin_polarity = \<lambda>_ _. True, pin_setDetect = \<lambda>_ _ w. w, scheduler_running = \<lambda>_. False,
      get_pending = \<lambda>_. False, set_pending = \<lambda>_ w. w, has_eventBus = False, bus_listen = \<lambda>w. w,
      bus_ignore = \<lambda>w. w, lock_waitCount = \<lambda>_. 0, lock_notifyAll = \<lambda>w. w, lock_wait = \<lambda>s. s,
      fiber_sleep = \<lambda>_ s. s\<rparr>"

abbreviation demo_last :: "nat \<times> u32 \<times> nat \<Rightarrow> nat" where
  "demo_last w \<equiv> snd (snd w)"

lemma demo_sleep_clock: "sleep_clock demo_timer fst demo_last" "undisturbed demo_timer"
proof -
  have "unat (of_nat r :: u32) = r" if "r \<le> unat ticksMax" for r
    using that by (simp add: unat_of_nat take_bit_nat_eq_self)
  then show "sleep_clock demo_timer fst demo_last"
    by (simp add: sleep_clock_def nap_clock_def demo_timer_def split: prod.splits)
  show "undisturbed demo_timer"
    by (simp add: undisturbed_def demo_timer_def split: prod.splits)
qed

text \<open>A sleep of five thousand seconds, more than the counter can hold.\<close>

lemma deep_sleep_wakes_witness:
  "\<exists>s3. simpleDeepSleep_until demo_timer True 5000000007 True None (pm_new (7, 0, 0))
      = Some (OK, sleep_leave demo_timer 0 0 True None 0 0 s3)
    \<and> fst (world s3) \<le> 4999989994 + 1000000 \<and> 4999989994 \<le> fst (world s3) \<and> demo_last (world s3) = fst (world s3)"
proof -
  let ?s = "pm_new (7, 0, 0) :: (nat \<times> u32 \<times> nat) pm"
  have can: "canDeepSleep demo_timer True 5000000007 True None
      (?s\<lparr>world := snd (time_us demo_timer (world ?s))\<rparr>) = (OK, pm_new (7, 0, 7))"
    by (simp add: canDeepSleep_def demo_timer_def pm_new_def MINIMUM_DEEP_SLEEP_TIME_def)
  have enter: "sleep_enter demo_timer (of_nat (fst (world ?s))) 5000000007 True None (pm_new (7, 0, 7))
      = (0, 0, 10007, total_ticks 5000000007 7 10007, pm_new (10007, 10007, 10007))"
    by (simp add: sleep_enter_def setPowerLED_def writeProperty_def sendUIPMPacket_def pm_nop_def
        components_sleep_def sleep_detect_def demo_timer_def pm_new_def)
  have "timer_32bit demo_timer" by (simp add: demo_timer_def)
  then show ?thesis
    using deep_sleep_wakes [OF demo_sleep_clock(1) _ _ can enter, of 4999989994] demo_sleep_clock(2)
    by (auto simp: pm_new_def)
qed

end
