(* ===== verification/LEDMatrix.thy ===== *)
theory LEDMatrix
  imports MB_Prelude
begin

text \<open>
  \<open>NRF52LEDMatrix\<close> (\<open>source/NRF52LedMatrix.cpp\<close>): the driver of the LED matrix. A timer interrupt
  calls \<open>render\<close>, which drives one row at a time: every column pin starts low (lit) and is set
  high by the hardware (timer compare event, PPI channel, GPIOTE task) when the time of the
  pixel's brightness is over. In the light sensing modes one more time slot measures how fast a
  pin charges. The registers are part of the state; the map from rows and columns to pins and
  pixels and \<open>Display::setBrightness\<close> (codal-core) are the record \<open>led_env\<close>.
\<close>

datatype display_mode = GREYSCALE | BLACK_AND_WHITE | BLACK_AND_WHITE_LIGHT_SENSE
  | GREYSCALE_LIGHT_SENSE

datatype pin_level = Input | Low | High

datatype ppi_event = NoEvent | CompareEvent nat | InputEvent nat

datatype ppi_task = NoTask | SetTask nat | CaptureTask nat

text \<open>The position of the LED at a row and column is entry \<open>row + rows * column\<close> of the map.\<close>

record led_env =
  map_width :: nat
  map_rows :: nat
  map_columns :: nat
  rowPins :: "nat list"
  columnPins :: "nat list"
  map_points :: "(nat \<times> nat) list"
  base_setBrightness :: "int \<Rightarrow> nat \<Rightarrow> code \<times> nat"

definition CLOCK_FREQUENCY :: nat where "CLOCK_FREQUENCY = 16000000"
definition FRAME_FREQUENCY :: nat where "FRAME_FREQUENCY = 60"
definition MAXIMUM_COLUMNS :: nat where "MAXIMUM_COLUMNS = 5"
definition LIGHTSENSE_STROBES :: nat where "LIGHTSENSE_STROBES = 4"
definition GPIOTE_CHANNEL_BASE :: nat where "GPIOTE_CHANNEL_BASE = 1"
definition PPI_CHANNEL_BASE :: nat where "PPI_CHANNEL_BASE = 3"

record led =
  strobeRow :: nat
  timeslots :: nat
  mode :: display_mode
  enabled :: bool
  timerPeriod :: nat
  quantum :: nat
  lightLevel :: nat
  gpiote :: "nat list"
  ppi :: "nat list"
  status_reset :: bool
  status_lightReady :: bool
  brightness :: nat
  bitmap :: "nat \<Rightarrow> u8"
  wasEnabled :: bool
  CC :: "nat \<Rightarrow> nat"
  GPIOTE_CONFIG :: "nat \<Rightarrow> u32"
  PPI_EEP :: "nat \<Rightarrow> ppi_event"
  PPI_TEP :: "nat \<Rightarrow> ppi_task"
  PPI_CHEN :: "nat set"
  level :: "nat \<Rightarrow> pin_level"
  timer_on :: bool

text \<open>The bit of a GPIOTE channel that holds the level its pin starts with.\<close>

definition OUTINIT :: u32 where "OUTINIT = 0x00100000"

definition column_config :: "nat \<Rightarrow> u32" where
  "column_config pin = 0x00010003 OR push_bit 8 (of_nat pin)"

subsection \<open>Modes\<close>

definition setup_channel :: "led_env \<Rightarrow> nat \<Rightarrow> led \<Rightarrow> led" where
  "setup_channel E c s =
     (let g = GPIOTE_CHANNEL_BASE + c; p = PPI_CHANNEL_BASE + c
      in s\<lparr>gpiote := (gpiote s)[c := g], ppi := (ppi s)[c := p],
           GPIOTE_CONFIG := (GPIOTE_CONFIG s)(g := column_config (columnPins E ! c)),
           PPI_EEP := (PPI_EEP s)(p := CompareEvent (c + 1)),
           PPI_TEP := (PPI_TEP s)(p := SetTask g),
           PPI_CHEN := insert p (PPI_CHEN s)\<rparr>)"

definition senses_light :: "display_mode \<Rightarrow> bool" where
  "senses_light m \<longleftrightarrow> m = BLACK_AND_WHITE_LIGHT_SENSE \<or> m = GREYSCALE_LIGHT_SENSE"

definition compute_quantum :: "led \<Rightarrow> nat" where
  "compute_quantum s = timerPeriod s * brightness s mod 2 ^ 32 div (256 * 255)"

definition setDisplayMode :: "led_env \<Rightarrow> display_mode \<Rightarrow> led \<Rightarrow> led" where
  "setDisplayMode E m s =
     (let s1 = (if \<not> enabled s \<or> status_reset s
                then (fold (setup_channel E) [0..<map_columns E] s)\<lparr>status_reset := False\<rparr> else s);
          slots = map_rows E + (if senses_light m then 1 else 0);
          s2 = s1\<lparr>timeslots := slots, timerPeriod := CLOCK_FREQUENCY div (FRAME_FREQUENCY * slots)\<rparr>;
          s3 = s2\<lparr>quantum := compute_quantum s2\<rparr>
      in s3\<lparr>CC := (CC s3)(0 := timerPeriod s3), mode := m\<rparr>)"

definition pins_to_input :: "nat list \<Rightarrow> led \<Rightarrow> led" where
  "pins_to_input ps s = s\<lparr>level := (\<lambda>p. if p \<in> set ps then Input else level s p)\<rparr>"

definition led_enable :: "led_env \<Rightarrow> led \<Rightarrow> led" where
  "led_enable E s =
     (if enabled s then s
      else
        let s1 = pins_to_input (take (map_columns E) (columnPins E))
                   (pins_to_input (take (map_rows E) (rowPins E)) (setDisplayMode E (mode s) s))
        in s1\<lparr>timer_on := True, enabled := True\<rparr>)"

definition led_disable :: "led_env \<Rightarrow> led \<Rightarrow> led" where
  "led_disable E s =
     (if \<not> enabled s then s
      else
        let s1 = s\<lparr>timer_on := False\<rparr>;
            s2 = fold (\<lambda>c s. s\<lparr>GPIOTE_CONFIG := (GPIOTE_CONFIG s)(gpiote s ! c := 0)\<rparr>)
                   [0..<map_columns E] s1;
            s3 = pins_to_input (take (map_rows E) (rowPins E))
                   (pins_to_input (take (map_columns E) (columnPins E)) s2)
        in s3\<lparr>status_lightReady := False, enabled := False\<rparr>)"

definition led_new :: "led_env \<Rightarrow> display_mode \<Rightarrow> (nat \<Rightarrow> u8) \<Rightarrow> nat \<Rightarrow> led" where
  "led_new E m img b =
     (let s = \<lparr>strobeRow = 0, timeslots = 0, mode = m, enabled = False, timerPeriod = 0, quantum = 0,
           lightLevel = 0, gpiote = replicate MAXIMUM_COLUMNS 0, ppi = replicate MAXIMUM_COLUMNS 0,
           status_reset = False, status_lightReady = False, brightness = b, bitmap = img,
           wasEnabled = False, CC = \<lambda>_. 0, GPIOTE_CONFIG = \<lambda>_. 0, PPI_EEP = \<lambda>_. NoEvent,
           PPI_TEP = \<lambda>_. NoTask, PPI_CHEN = {}, level = \<lambda>_. Input, timer_on = False\<rparr>
      in if map_columns E \<le> MAXIMUM_COLUMNS then led_enable E s else s)"

subsection \<open>Rendering\<close>

definition drive :: "nat \<Rightarrow> pin_level \<Rightarrow> led \<Rightarrow> led" where
  "drive p v s = s\<lparr>level := (level s)(p := v)\<rparr>"

text \<open>The value of the pixel behind a row and column, clipped in the black and white modes.\<close>

definition pixel_at :: "led_env \<Rightarrow> led \<Rightarrow> nat \<Rightarrow> nat \<Rightarrow> nat" where
  "pixel_at E s row c =
     (case map_points E ! (row + map_rows E * c) of (x, y) \<Rightarrow>
        let v = unat (bitmap s (y * map_width E + x))
        in if mode s = BLACK_AND_WHITE \<or> mode s = BLACK_AND_WHITE_LIGHT_SENSE
           then (if v \<noteq> 0 then 255 else 0) else v)"

definition draw_column :: "led_env \<Rightarrow> nat \<Rightarrow> led \<Rightarrow> led" where
  "draw_column E c s =
     (let value = pixel_at E s (strobeRow s) c * quantum s mod 2 ^ 32;
          s1 = s\<lparr>CC := (CC s)(c + 1 := value)\<rparr>;
          g = gpiote s1 ! c
      in if value \<noteq> 0
         then s1\<lparr>GPIOTE_CONFIG := (GPIOTE_CONFIG s1)(g := GPIOTE_CONFIG s1 g AND NOT OUTINIT)\<rparr>
         else s1\<lparr>GPIOTE_CONFIG := (GPIOTE_CONFIG s1)(g := GPIOTE_CONFIG s1 g OR OUTINIT)\<rparr>)"

definition sense_column :: "led_env \<Rightarrow> nat \<Rightarrow> led \<Rightarrow> led" where
  "sense_column E c s =
     drive (columnPins E ! c) High
       (s\<lparr>GPIOTE_CONFIG := (GPIOTE_CONFIG s)(gpiote s ! c := 0),
          CC := (CC s)(c + 1 := timerPeriod s * LIGHTSENSE_STROBES mod 2 ^ 32)\<rparr>)"

text \<open>What the strobe that is just over leaves to do.\<close>

definition finish_strobe :: "led_env \<Rightarrow> led \<Rightarrow> led" where
  "finish_strobe E s =
     (if strobeRow s < map_rows E then drive (rowPins E ! strobeRow s) Low s
      else
        let sensed = 255 * CC s 1 mod 2 ^ 32 div (timerPeriod s * LIGHTSENSE_STROBES mod 2 ^ 32);
            s1 = s\<lparr>lightLevel := (255 + 2 ^ 32 - sensed) mod 2 ^ 32, status_lightReady := True,
                   status_reset := True\<rparr>
        in setDisplayMode E (mode s1) s1)"

definition start_strobe :: "led_env \<Rightarrow> led \<Rightarrow> led" where
  "start_strobe E s =
     (if strobeRow s < map_rows E
      then drive (rowPins E ! strobeRow s) High (fold (draw_column E) [0..<map_columns E] s)
      else
        let s1 = s\<lparr>CC := (CC s)(0 := timerPeriod s * LIGHTSENSE_STROBES mod 2 ^ 32)\<rparr>;
            s2 = drive (rowPins E ! 0) Low (fold (sense_column E) [0..<map_columns E] s1);
            g = gpiote s2 ! 0; p = ppi s2 ! 0
        in s2\<lparr>GPIOTE_CONFIG := (GPIOTE_CONFIG s2)
                 (g := 0x00010001 OR push_bit 8 (of_nat (rowPins E ! 0))),
              PPI_EEP := (PPI_EEP s2)(p := InputEvent g),
              PPI_TEP := (PPI_TEP s2)(p := CaptureTask 1)\<rparr>)"

definition render :: "led_env \<Rightarrow> led \<Rightarrow> led" where
  "render E s =
     (let s1 = (finish_strobe E s)\<lparr>timer_on := False\<rparr>;
          s2 = s1\<lparr>strobeRow := (strobeRow s1 + 1) mod 256 mod timeslots s1\<rparr>
      in (start_strobe E s2)\<lparr>timer_on := True\<rparr>)"

subsection \<open>The other operations\<close>

definition led_clear :: "led \<Rightarrow> led" where
  "led_clear s = s\<lparr>bitmap := (\<lambda>_. 0)\<rparr>"

definition setBrightness :: "led_env \<Rightarrow> int \<Rightarrow> led \<Rightarrow> code \<times> led" where
  "setBrightness E b s =
     (case base_setBrightness E b (brightness s) of (result, v) \<Rightarrow>
        let s1 = s\<lparr>brightness := v\<rparr>
        in if result \<noteq> OK then (result, s1) else (OK, s1\<lparr>quantum := compute_quantum s1\<rparr>))"

text \<open>The renders that come while the fiber sleeps are a parameter.\<close>

definition readLightLevel :: "led_env \<Rightarrow> nat \<Rightarrow> led \<Rightarrow> nat \<times> led" where
  "readLightLevel E renders s =
     (let s1 = (if mode s = BLACK_AND_WHITE
                then (setDisplayMode E BLACK_AND_WHITE_LIGHT_SENSE s)\<lparr>status_lightReady := False\<rparr>
                else s);
          s2 = (if mode s1 = GREYSCALE
                then (setDisplayMode E GREYSCALE_LIGHT_SENSE s1)\<lparr>status_lightReady := False\<rparr>
                else s1);
          s3 = (if \<not> status_lightReady s2 then (render E ^^ renders) s2 else s2)
      in (lightLevel s3, s3))"

definition led_setSleep :: "led_env \<Rightarrow> bool \<Rightarrow> led \<Rightarrow> led" where
  "led_setSleep E doSleep s =
     (let s1 = (if doSleep then led_disable E (s\<lparr>wasEnabled := enabled s\<rparr>) else s)
      in if \<not> doSleep \<and> wasEnabled s1 then led_enable E s1 else s1)"

end
