(* ===== verification/LEDMatrixProps.thy ===== *)
theory LEDMatrixProps
  imports LEDMatrix
begin

text \<open>
  What the matrix shows: in every state the program can reach, each time slot lights exactly the
  row it is for, each LED for the time of its pixel, and the light sensing slot in between leaves
  no trace.
\<close>

text \<open>
  How long an LED of the driven row is lit in a slot: its column is set up for the hardware to
  switch it off at the compare value, or starts off. \<open>None\<close>: the column is not set up to draw.
\<close>

definition ready :: "led_env \<Rightarrow> led \<Rightarrow> nat \<Rightarrow> bool" where
  "ready E s c \<longleftrightarrow>
     GPIOTE_CONFIG s (gpiote s ! c) AND NOT OUTINIT = column_config (columnPins E ! c)
     \<and> PPI_EEP s (ppi s ! c) = CompareEvent (c + 1) \<and> PPI_TEP s (ppi s ! c) = SetTask (gpiote s ! c)
     \<and> ppi s ! c \<in> PPI_CHEN s"

definition lit_ticks :: "led_env \<Rightarrow> led \<Rightarrow> nat \<Rightarrow> nat option" where
  "lit_ticks E s c =
     (if ready E s c then Some (if bit (GPIOTE_CONFIG s (gpiote s ! c)) 20 then 0 else CC s (c + 1))
      else None)"

definition env_wf :: "led_env \<Rightarrow> bool" where
  "env_wf E \<longleftrightarrow> 0 < map_rows E \<and> map_rows E \<le> 64 \<and> 0 < map_columns E
     \<and> map_columns E \<le> MAXIMUM_COLUMNS
     \<and> length (rowPins E) = map_rows E \<and> length (columnPins E) = map_columns E
     \<and> distinct (rowPins E @ columnPins E) \<and> (\<forall>p \<in> set (rowPins E @ columnPins E). p < 64)
     \<and> (\<forall>b v. v \<le> 255 \<longrightarrow> snd (base_setBrightness E b v) \<le> 255
          \<and> (fst (base_setBrightness E b v) \<noteq> OK \<longrightarrow> snd (base_setBrightness E b v) = v))"

text \<open>The channels in use are fixed.\<close>

definition channels :: "led_env \<Rightarrow> led \<Rightarrow> bool" where
  "channels E s \<longleftrightarrow> length (gpiote s) = MAXIMUM_COLUMNS \<and> length (ppi s) = MAXIMUM_COLUMNS
     \<and> (\<forall>c < map_columns E. gpiote s ! c = c + 1 \<and> ppi s ! c = c + 3)"

definition wired :: "led_env \<Rightarrow> led \<Rightarrow> bool" where
  "wired E s \<longleftrightarrow> (\<forall>c < map_columns E. lit_ticks E s c \<noteq> None)"

lemma lit_update [simp]:
  "lit_ticks E (s\<lparr>strobeRow := x_strobeRow\<rparr>) c = lit_ticks E s c"
  "lit_ticks E (s\<lparr>enabled := x_enabled\<rparr>) c = lit_ticks E s c"
  "lit_ticks E (s\<lparr>lightLevel := x_lightLevel\<rparr>) c = lit_ticks E s c"
  "lit_ticks E (s\<lparr>status_reset := x_status_reset\<rparr>) c = lit_ticks E s c"
  "lit_ticks E (s\<lparr>status_lightReady := x_status_lightReady\<rparr>) c = lit_ticks E s c"
  "lit_ticks E (s\<lparr>brightness := x_brightness\<rparr>) c = lit_ticks E s c"
  "lit_ticks E (s\<lparr>bitmap := x_bitmap\<rparr>) c = lit_ticks E s c"
  "lit_ticks E (s\<lparr>wasEnabled := x_wasEnabled\<rparr>) c = lit_ticks E s c"
  "lit_ticks E (s\<lparr>level := x_level\<rparr>) c = lit_ticks E s c"
  "lit_ticks E (s\<lparr>timer_on := x_timer_on\<rparr>) c = lit_ticks E s c"
  "lit_ticks E (s\<lparr>quantum := x_quantum\<rparr>) c = lit_ticks E s c"
  by (simp_all add: lit_ticks_def ready_def)

lemma wired_update [simp]:
  "wired E (s\<lparr>strobeRow := x_strobeRow\<rparr>) = wired E s"
  "wired E (s\<lparr>enabled := x_enabled\<rparr>) = wired E s"
  "wired E (s\<lparr>lightLevel := x_lightLevel\<rparr>) = wired E s"
  "wired E (s\<lparr>status_reset := x_status_reset\<rparr>) = wired E s"
  "wired E (s\<lparr>status_lightReady := x_status_lightReady\<rparr>) = wired E s"
  "wired E (s\<lparr>brightness := x_brightness\<rparr>) = wired E s"
  "wired E (s\<lparr>bitmap := x_bitmap\<rparr>) = wired E s"
  "wired E (s\<lparr>wasEnabled := x_wasEnabled\<rparr>) = wired E s"
  "wired E (s\<lparr>level := x_level\<rparr>) = wired E s"
  "wired E (s\<lparr>timer_on := x_timer_on\<rparr>) = wired E s"
  "wired E (s\<lparr>quantum := x_quantum\<rparr>) = wired E s"
  by (simp_all add: wired_def)

lemma channels_update [simp]:
  "channels E (s\<lparr>strobeRow := x_strobeRow\<rparr>) = channels E s"
  "channels E (s\<lparr>enabled := x_enabled\<rparr>) = channels E s"
  "channels E (s\<lparr>lightLevel := x_lightLevel\<rparr>) = channels E s"
  "channels E (s\<lparr>status_reset := x_status_reset\<rparr>) = channels E s"
  "channels E (s\<lparr>status_lightReady := x_status_lightReady\<rparr>) = channels E s"
  "channels E (s\<lparr>brightness := x_brightness\<rparr>) = channels E s"
  "channels E (s\<lparr>bitmap := x_bitmap\<rparr>) = channels E s"
  "channels E (s\<lparr>wasEnabled := x_wasEnabled\<rparr>) = channels E s"
  "channels E (s\<lparr>level := x_level\<rparr>) = channels E s"
  "channels E (s\<lparr>timer_on := x_timer_on\<rparr>) = channels E s"
  "channels E (s\<lparr>quantum := x_quantum\<rparr>) = channels E s"
  by (simp_all add: channels_def)

lemma quantum_update [simp]:
  "compute_quantum (s\<lparr>strobeRow := x_strobeRow\<rparr>) = compute_quantum s"
  "compute_quantum (s\<lparr>enabled := x_enabled\<rparr>) = compute_quantum s"
  "compute_quantum (s\<lparr>lightLevel := x_lightLevel\<rparr>) = compute_quantum s"
  "compute_quantum (s\<lparr>status_reset := x_status_reset\<rparr>) = compute_quantum s"
  "compute_quantum (s\<lparr>status_lightReady := x_status_lightReady\<rparr>) = compute_quantum s"
  "compute_quantum (s\<lparr>bitmap := x_bitmap\<rparr>) = compute_quantum s"
  "compute_quantum (s\<lparr>wasEnabled := x_wasEnabled\<rparr>) = compute_quantum s"
  "compute_quantum (s\<lparr>level := x_level\<rparr>) = compute_quantum s"
  "compute_quantum (s\<lparr>timer_on := x_timer_on\<rparr>) = compute_quantum s"
  "compute_quantum (s\<lparr>quantum := x_quantum\<rparr>) = compute_quantum s"
  by (simp_all add: compute_quantum_def)

lemma fold_upt_Suc: "fold f [0..<Suc n] s = f n (fold f [0..<n] s)"
  by simp

lemma bit20_column [simp]: "pin < 64 \<Longrightarrow> \<not> bit (column_config pin) 20"
proof -
  assume pin: "pin < 64"
  then have "unat (of_nat pin :: u32) = pin" by (simp add: unat_of_nat take_bit_nat_eq_self)
  moreover have "\<not> bit pin 12" using pin by (simp add: bit_iff_odd)
  moreover have "bit (unat (of_nat pin :: u32)) 12 = bit (of_nat pin :: u32) 12"
    unfolding bit_unsigned_iff by simp
  ultimately have "\<not> bit (of_nat pin :: u32) 12" by simp
  moreover have "\<not> bit (0x00010003 :: u32) 20" by simp
  ultimately show ?thesis unfolding column_config_def bit_or_iff bit_push_bit_iff by auto
qed

lemma mask20 [simp]:
  "((x :: u32) AND NOT OUTINIT) AND NOT OUTINIT = x AND NOT OUTINIT"
  "((x :: u32) OR OUTINIT) AND NOT OUTINIT = x AND NOT OUTINIT"
  "\<not> bit ((x :: u32) AND NOT OUTINIT) 20" "bit ((x :: u32) OR OUTINIT) 20"
proof -
  have m: "OUTINIT = push_bit 20 1" by (simp add: OUTINIT_def)
  show "(x AND NOT OUTINIT) AND NOT OUTINIT = x AND NOT OUTINIT"
    by (simp only: and.assoc and.idem)
  show "(x OR OUTINIT) AND NOT OUTINIT = x AND NOT OUTINIT"
    unfolding m by (rule bit_eqI) (auto simp only: bit_and_iff bit_or_iff bit_not_iff)
  show "\<not> bit (x AND NOT OUTINIT) 20" "bit (x OR OUTINIT) 20"
    unfolding m by (auto simp: bit_simps)
qed

lemma unmasked20: "\<not> bit (x :: u32) 20 \<Longrightarrow> x AND NOT OUTINIT = x"
proof -
  assume n: "\<not> bit x 20"
  have m: "OUTINIT = push_bit 20 1" by (simp add: OUTINIT_def)
  show ?thesis unfolding m
  proof (rule bit_eqI)
    fix k assume "possible_bit TYPE(u32) k"
    then show "bit (x AND NOT (push_bit 20 1)) k = bit x k"
      using n by (cases "k = 20")
        (auto simp only: bit_and_iff bit_not_iff bit_push_bit_iff bit_1_iff)
  qed
qed

subsection \<open>Setting up the channels\<close>

lemma setup_frame [simp]:
  "strobeRow (setup_channel E c s) = strobeRow s" "timeslots (setup_channel E c s) = timeslots s"
  "mode (setup_channel E c s) = mode s" "enabled (setup_channel E c s) = enabled s"
  "timerPeriod (setup_channel E c s) = timerPeriod s" "quantum (setup_channel E c s) = quantum s"
  "lightLevel (setup_channel E c s) = lightLevel s" "brightness (setup_channel E c s) = brightness s"
  "status_lightReady (setup_channel E c s) = status_lightReady s"
  "bitmap (setup_channel E c s) = bitmap s" "wasEnabled (setup_channel E c s) = wasEnabled s"
  "CC (setup_channel E c s) = CC s" "level (setup_channel E c s) = level s"
  "timer_on (setup_channel E c s) = timer_on s"
  by (simp_all add: setup_channel_def Let_def)

lemma setup_fold_frame [simp]:
  "strobeRow (fold (setup_channel E) cs s) = strobeRow s" "timeslots (fold (setup_channel E) cs s) = timeslots s"
  "mode (fold (setup_channel E) cs s) = mode s" "enabled (fold (setup_channel E) cs s) = enabled s"
  "timerPeriod (fold (setup_channel E) cs s) = timerPeriod s" "quantum (fold (setup_channel E) cs s) = quantum s"
  "lightLevel (fold (setup_channel E) cs s) = lightLevel s" "brightness (fold (setup_channel E) cs s) = brightness s"
  "status_lightReady (fold (setup_channel E) cs s) = status_lightReady s"
  "bitmap (fold (setup_channel E) cs s) = bitmap s" "wasEnabled (fold (setup_channel E) cs s) = wasEnabled s"
  "CC (fold (setup_channel E) cs s) = CC s" "level (fold (setup_channel E) cs s) = level s"
  "timer_on (fold (setup_channel E) cs s) = timer_on s"
  by (induction cs arbitrary: s; simp)+

lemma setup_fold:
  assumes "length (gpiote s) = 5" "length (ppi s) = 5"
  shows "n \<le> 5 \<Longrightarrow> (let t = fold (setup_channel E) [0..<n] s in
    length (gpiote t) = 5 \<and> length (ppi t) = 5
    \<and> (\<forall>c < n. gpiote t ! c = c + 1 \<and> ppi t ! c = c + 3
        \<and> GPIOTE_CONFIG t (c + 1) = column_config (columnPins E ! c)
        \<and> PPI_EEP t (c + 3) = CompareEvent (c + 1) \<and> PPI_TEP t (c + 3) = SetTask (c + 1)
        \<and> c + 3 \<in> PPI_CHEN t))"
proof (induction n)
  case (Suc n)
  define u where "u = fold (setup_channel E) [0..<n] s"
  have "n < 5" using Suc.prems by simp
  then show ?case using Suc.IH unfolding fold_upt_Suc u_def [symmetric]
    by (auto simp: setup_channel_def Let_def GPIOTE_CHANNEL_BASE_def PPI_CHANNEL_BASE_def
        nth_list_update less_Suc_eq)
qed (simp add: assms)

lemma wf_columns:
  assumes "env_wf E" "c < map_columns E"
  shows "c < 5" "columnPins E ! c < 64" "columnPins E ! c \<notin> set (rowPins E)"
proof -
  have "columnPins E ! c \<in> set (columnPins E)" using assms by (auto simp: env_wf_def)
  then show "c < 5" "columnPins E ! c < 64" "columnPins E ! c \<notin> set (rowPins E)"
    using assms by (auto simp: env_wf_def MAXIMUM_COLUMNS_def)
qed

lemma setDisplayMode_frame [simp]:
  "strobeRow (setDisplayMode E m s) = strobeRow s" "mode (setDisplayMode E m s) = m"
  "enabled (setDisplayMode E m s) = enabled s" "lightLevel (setDisplayMode E m s) = lightLevel s"
  "brightness (setDisplayMode E m s) = brightness s"
  "status_lightReady (setDisplayMode E m s) = status_lightReady s"
  "bitmap (setDisplayMode E m s) = bitmap s" "wasEnabled (setDisplayMode E m s) = wasEnabled s"
  "level (setDisplayMode E m s) = level s" "timer_on (setDisplayMode E m s) = timer_on s"
  "timeslots (setDisplayMode E m s) = map_rows E + (if senses_light m then 1 else 0)"
  "timerPeriod (setDisplayMode E m s) = CLOCK_FREQUENCY div (FRAME_FREQUENCY * timeslots (setDisplayMode E m s))"
  "quantum (setDisplayMode E m s) = compute_quantum (setDisplayMode E m s)"
  "CC (setDisplayMode E m s) = (CC s)(0 := timerPeriod (setDisplayMode E m s))"
  by (simp_all add: setDisplayMode_def Let_def compute_quantum_def)

lemma compute_quantum_cong:
  "timerPeriod s = timerPeriod t \<Longrightarrow> brightness s = brightness t \<Longrightarrow> compute_quantum s = compute_quantum t"
  by (simp add: compute_quantum_def)

text \<open>When the channels are set up again, every column is ready to draw.\<close>

lemma setDisplayMode_wires:
  assumes W: "env_wf E" and L: "length (gpiote s) = 5" "length (ppi s) = 5"
    and r: "\<not> enabled s \<or> status_reset s"
  shows "wired E (setDisplayMode E m s)" "channels E (setDisplayMode E m s)"
    "\<not> status_reset (setDisplayMode E m s)"
proof -
  let ?t = "fold (setup_channel E) [0..<map_columns E] s"
  have "map_columns E \<le> 5" using W by (simp add: env_wf_def MAXIMUM_COLUMNS_def)
  from setup_fold [OF L this, of E] have F: "length (gpiote ?t) = 5" "length (ppi ?t) = 5"
    "\<forall>c < map_columns E. gpiote ?t ! c = c + 1 \<and> ppi ?t ! c = c + 3
        \<and> GPIOTE_CONFIG ?t (c + 1) = column_config (columnPins E ! c)
        \<and> PPI_EEP ?t (c + 3) = CompareEvent (c + 1) \<and> PPI_TEP ?t (c + 3) = SetTask (c + 1)
        \<and> c + 3 \<in> PPI_CHEN ?t" by (simp_all add: Let_def)
  show "channels E (setDisplayMode E m s)" "\<not> status_reset (setDisplayMode E m s)"
    using F r by (auto simp: setDisplayMode_def Let_def channels_def MAXIMUM_COLUMNS_def)
  show "wired E (setDisplayMode E m s)"
    using F r wf_columns [OF W]
    by (auto simp: setDisplayMode_def Let_def wired_def lit_ticks_def ready_def unmasked20)
qed

lemma setDisplayMode_keeps:
  assumes "enabled s" "\<not> status_reset s"
  shows "channels E (setDisplayMode E m s) = channels E s" "wired E (setDisplayMode E m s) = wired E s"
    "status_reset (setDisplayMode E m s) = False"
    "gpiote (setDisplayMode E m s) = gpiote s" "ppi (setDisplayMode E m s) = ppi s"
    "lit_ticks E (setDisplayMode E m s) c = lit_ticks E s c"
  using assms by (simp_all add: setDisplayMode_def Let_def channels_def wired_def lit_ticks_def ready_def)

lemma setDisplayMode_lengths:
  assumes "env_wf E" "length (gpiote s) = 5" "length (ppi s) = 5"
  shows "length (gpiote (setDisplayMode E m s)) = 5" "length (ppi (setDisplayMode E m s)) = 5"
proof -
  have "map_columns E \<le> 5" using assms(1) by (simp add: env_wf_def MAXIMUM_COLUMNS_def)
  from setup_fold [OF assms(2,3) this, of E] assms show
    "length (gpiote (setDisplayMode E m s)) = 5" "length (ppi (setDisplayMode E m s)) = 5"
    by (auto simp: setDisplayMode_def Let_def)
qed

subsection \<open>Drawing a row\<close>

lemma draw_frame [simp]:
  "strobeRow (draw_column E c s) = strobeRow s" "timeslots (draw_column E c s) = timeslots s"
  "mode (draw_column E c s) = mode s" "enabled (draw_column E c s) = enabled s"
  "timerPeriod (draw_column E c s) = timerPeriod s" "quantum (draw_column E c s) = quantum s"
  "brightness (draw_column E c s) = brightness s" "bitmap (draw_column E c s) = bitmap s"
  "level (draw_column E c s) = level s" "status_reset (draw_column E c s) = status_reset s"
  "gpiote (draw_column E c s) = gpiote s" "ppi (draw_column E c s) = ppi s"
  "CC (draw_column E c s) 0 = CC s 0"
  by (simp_all add: draw_column_def Let_def)

lemma draw_fold_frame [simp]:
  "strobeRow (fold (draw_column E) cs s) = strobeRow s" "timeslots (fold (draw_column E) cs s) = timeslots s"
  "mode (fold (draw_column E) cs s) = mode s" "enabled (fold (draw_column E) cs s) = enabled s"
  "timerPeriod (fold (draw_column E) cs s) = timerPeriod s" "quantum (fold (draw_column E) cs s) = quantum s"
  "brightness (fold (draw_column E) cs s) = brightness s" "bitmap (fold (draw_column E) cs s) = bitmap s"
  "level (fold (draw_column E) cs s) = level s" "status_reset (fold (draw_column E) cs s) = status_reset s"
  "gpiote (fold (draw_column E) cs s) = gpiote s" "ppi (fold (draw_column E) cs s) = ppi s"
  "CC (fold (draw_column E) cs s) 0 = CC s 0"
  by (induction cs arbitrary: s; simp)+

definition on_time :: "led_env \<Rightarrow> led \<Rightarrow> nat \<Rightarrow> nat" where
  "on_time E s c = pixel_at E s (strobeRow s) c * quantum s mod 2 ^ 32"

lemma on_time_cong:
  "strobeRow s = strobeRow t \<Longrightarrow> mode s = mode t \<Longrightarrow> bitmap s = bitmap t \<Longrightarrow> quantum s = quantum t \<Longrightarrow>
    on_time E s c = on_time E t c"
  by (simp add: on_time_def pixel_at_def)

lemma draw_column_lit:
  assumes "channels E s" "c < map_columns E" "d < map_columns E"
  shows "lit_ticks E (draw_column E c s) d
    = (if d = c \<and> lit_ticks E s d \<noteq> None then Some (on_time E s c) else lit_ticks E s d)"
proof -
  have g: "gpiote s ! c = c + 1" "gpiote s ! d = d + 1" using assms by (simp_all add: channels_def)
  have "ready E (draw_column E c s) d = ready E s d"
    using g by (cases "d = c") (simp_all add: draw_column_def ready_def Let_def)
  then show ?thesis
    using g by (cases "d = c") (simp_all add: draw_column_def lit_ticks_def on_time_def Let_def)
qed

lemma draw_fold_lit:
  assumes "channels E s" "wired E s"
  shows "n \<le> map_columns E \<Longrightarrow> (\<forall>d < map_columns E. lit_ticks E (fold (draw_column E) [0..<n] s) d
    = (if d < n then Some (on_time E s d) else lit_ticks E s d))"
proof (induction n)
  case (Suc n)
  define u where "u = fold (draw_column E) [0..<n] s"
  have u: "channels E u" "on_time E u n = on_time E s n"
    using assms(1) by (simp_all add: u_def channels_def) (rule on_time_cong; simp)
  have "lit_ticks E s n \<noteq> None" using assms(2) Suc.prems by (simp add: wired_def)
  then show ?case
    using Suc.IH Suc.prems u draw_column_lit [OF u(1), of n] unfolding fold_upt_Suc u_def [symmetric]
    by (simp add: less_Suc_eq)
qed simp

subsection \<open>The invariant\<close>

definition led_inv :: "led_env \<Rightarrow> led \<Rightarrow> bool" where
  "led_inv E s \<longleftrightarrow> strobeRow s \<le> map_rows E \<and> brightness s \<le> 255 \<and> \<not> status_reset s
     \<and> length (gpiote s) = 5 \<and> length (ppi s) = 5 \<and> timer_on s = enabled s
     \<and> (enabled s \<longrightarrow> channels E s
          \<and> timeslots s = map_rows E + (if senses_light (mode s) then 1 else 0)
          \<and> timerPeriod s = CLOCK_FREQUENCY div (FRAME_FREQUENCY * timeslots s)
          \<and> quantum s = compute_quantum s
          \<and> (strobeRow s < map_rows E \<longrightarrow> wired E s \<and> CC s 0 = timerPeriod s)
          \<and> (\<forall>r < map_rows E. r \<noteq> strobeRow s \<longrightarrow> level s (rowPins E ! r) \<noteq> High))"

lemma led_inv_setDisplayMode:
  assumes W: "env_wf E" and I: "led_inv E s"
  shows "led_inv E (setDisplayMode E m s)"
proof (cases "enabled s")
  case True
  then show ?thesis using I setDisplayMode_keeps [of s E m]
    by (auto simp: led_inv_def)
next
  case False
  then show ?thesis
    using I setDisplayMode_lengths [OF W, of s m] setDisplayMode_wires [OF W, of s m]
    by (auto simp: led_inv_def)
qed

lemma level_to_input [simp]:
  "level (pins_to_input ps s) p = (if p \<in> set ps then Input else level s p)"
  by (simp add: pins_to_input_def)

lemma to_input_frame [simp]:
  "strobeRow (pins_to_input ps s) = strobeRow s" "mode (pins_to_input ps s) = mode s"
  "brightness (pins_to_input ps s) = brightness s" "status_reset (pins_to_input ps s) = status_reset s"
  "gpiote (pins_to_input ps s) = gpiote s" "ppi (pins_to_input ps s) = ppi s"
  "timeslots (pins_to_input ps s) = timeslots s" "timerPeriod (pins_to_input ps s) = timerPeriod s"
  "quantum (pins_to_input ps s) = quantum s" "CC (pins_to_input ps s) = CC s"
  "compute_quantum (pins_to_input ps s) = compute_quantum s"
  "timer_on (pins_to_input ps s) = timer_on s"
  "channels E (pins_to_input ps s) = channels E s" "wired E (pins_to_input ps s) = wired E s"
  by (simp_all add: pins_to_input_def)

lemma led_inv_enable:
  assumes W: "env_wf E" and I: "led_inv E s"
  shows "led_inv E (led_enable E s)"
proof (cases "enabled s")
  case False
  let ?t = "setDisplayMode E (mode s) s"
  have L: "length (gpiote s) = 5" "length (ppi s) = 5" using I by (simp_all add: led_inv_def)
  note S = setDisplayMode_wires [OF W L, of "mode s"] setDisplayMode_lengths [OF W L, of "mode s"]
  have rows: "rowPins E ! r \<in> set (take (map_rows E) (rowPins E))" if "r < map_rows E" for r
    using W that by (simp add: env_wf_def)
  show ?thesis using False I S rows
    by (auto simp: led_inv_def led_enable_def Let_def)
qed (use I in \<open>simp add: led_enable_def\<close>)

lemma unplug_frame [simp]:
  "strobeRow (fold (\<lambda>c s. s\<lparr>GPIOTE_CONFIG := (GPIOTE_CONFIG s)(gpiote s ! c := 0)\<rparr>) cs s) = strobeRow s"
  "brightness (fold (\<lambda>c s. s\<lparr>GPIOTE_CONFIG := (GPIOTE_CONFIG s)(gpiote s ! c := 0)\<rparr>) cs s) = brightness s"
  "status_reset (fold (\<lambda>c s. s\<lparr>GPIOTE_CONFIG := (GPIOTE_CONFIG s)(gpiote s ! c := 0)\<rparr>) cs s) = status_reset s"
  "gpiote (fold (\<lambda>c s. s\<lparr>GPIOTE_CONFIG := (GPIOTE_CONFIG s)(gpiote s ! c := 0)\<rparr>) cs s) = gpiote s"
  "ppi (fold (\<lambda>c s. s\<lparr>GPIOTE_CONFIG := (GPIOTE_CONFIG s)(gpiote s ! c := 0)\<rparr>) cs s) = ppi s"
  "timer_on (fold (\<lambda>c s. s\<lparr>GPIOTE_CONFIG := (GPIOTE_CONFIG s)(gpiote s ! c := 0)\<rparr>) cs s) = timer_on s"
  by (induction cs arbitrary: s; simp)+

lemma led_inv_disable: "led_inv E s \<Longrightarrow> led_inv E (led_disable E s)"
  by (auto simp: led_inv_def led_disable_def Let_def)

subsection \<open>The invariant under rendering\<close>

text \<open>After a strobe is finished, all rows are off and every column is ready to draw.\<close>

definition between :: "led_env \<Rightarrow> led \<Rightarrow> bool" where
  "between E s \<longleftrightarrow> brightness s \<le> 255 \<and> \<not> status_reset s \<and> enabled s
     \<and> length (gpiote s) = 5 \<and> length (ppi s) = 5 \<and> channels E s \<and> wired E s
     \<and> timeslots s = map_rows E + (if senses_light (mode s) then 1 else 0)
     \<and> timerPeriod s = CLOCK_FREQUENCY div (FRAME_FREQUENCY * timeslots s)
     \<and> quantum s = compute_quantum s \<and> CC s 0 = timerPeriod s
     \<and> (\<forall>r < map_rows E. level s (rowPins E ! r) \<noteq> High)"

lemma drive_frame [simp]:
  "strobeRow (drive p v s) = strobeRow s" "timeslots (drive p v s) = timeslots s"
  "mode (drive p v s) = mode s" "enabled (drive p v s) = enabled s"
  "timerPeriod (drive p v s) = timerPeriod s" "quantum (drive p v s) = quantum s"
  "brightness (drive p v s) = brightness s" "bitmap (drive p v s) = bitmap s"
  "status_reset (drive p v s) = status_reset s" "gpiote (drive p v s) = gpiote s"
  "ppi (drive p v s) = ppi s" "CC (drive p v s) = CC s" "channels E (drive p v s) = channels E s"
  "wired E (drive p v s) = wired E s" "lit_ticks E (drive p v s) c = lit_ticks E s c"
  "compute_quantum (drive p v s) = compute_quantum s"
  "level (drive p v s) q = (if q = p then v else level s q)"
  by (simp_all add: drive_def)

lemma finish_strobe_spec:
  assumes W: "env_wf E" and I: "led_inv E s" and e: "enabled s"
  shows "between E (finish_strobe E s)" "strobeRow (finish_strobe E s) = strobeRow s"
    "mode (finish_strobe E s) = mode s" "bitmap (finish_strobe E s) = bitmap s"
proof -
  show "strobeRow (finish_strobe E s) = strobeRow s" "mode (finish_strobe E s) = mode s"
    "bitmap (finish_strobe E s) = bitmap s" by (simp_all add: finish_strobe_def Let_def)
  show "between E (finish_strobe E s)"
  proof (cases "strobeRow s < map_rows E")
    case True
    have "level s (rowPins E ! r) \<noteq> High" if "r < map_rows E" "rowPins E ! r \<noteq> rowPins E ! strobeRow s" for r
      using that I e by (auto simp: led_inv_def)
    then show ?thesis using True I e by (auto simp: finish_strobe_def between_def led_inv_def)
  next
    case False
    define t where "t = s\<lparr>lightLevel := (255 + 2 ^ 32 - 255 * CC s 1 mod 2 ^ 32
        div (timerPeriod s * LIGHTSENSE_STROBES mod 2 ^ 32)) mod 2 ^ 32,
        status_lightReady := True, status_reset := True\<rparr>"
    have f: "finish_strobe E s = setDisplayMode E (mode t) t"
      using False by (simp add: finish_strobe_def t_def Let_def)
    have t: "length (gpiote t) = 5" "length (ppi t) = 5" "status_reset t" "strobeRow s = map_rows E"
      using I False by (auto simp: t_def led_inv_def)
    have "\<forall>r < map_rows E. level t (rowPins E ! r) \<noteq> High" "brightness t \<le> 255" "enabled t"
      using I e t(4) by (auto simp: t_def led_inv_def)
    then show ?thesis
      using setDisplayMode_wires [OF W t(1,2), of "mode t"] setDisplayMode_lengths [OF W t(1,2), of "mode t"]
        t(3) unfolding f by (simp add: between_def)
  qed
qed

lemma sense_frame [simp]:
  "strobeRow (sense_column E c s) = strobeRow s" "timeslots (sense_column E c s) = timeslots s"
  "mode (sense_column E c s) = mode s" "enabled (sense_column E c s) = enabled s"
  "timerPeriod (sense_column E c s) = timerPeriod s" "quantum (sense_column E c s) = quantum s"
  "brightness (sense_column E c s) = brightness s" "bitmap (sense_column E c s) = bitmap s"
  "status_reset (sense_column E c s) = status_reset s" "gpiote (sense_column E c s) = gpiote s"
  "ppi (sense_column E c s) = ppi s" "compute_quantum (sense_column E c s) = compute_quantum s"
  "level (sense_column E c s) p = (if p = columnPins E ! c then High else level s p)"
  by (simp_all add: sense_column_def compute_quantum_def)

lemma sense_fold_frame [simp]:
  "strobeRow (fold (sense_column E) cs s) = strobeRow s" "timeslots (fold (sense_column E) cs s) = timeslots s"
  "mode (fold (sense_column E) cs s) = mode s" "enabled (fold (sense_column E) cs s) = enabled s"
  "timerPeriod (fold (sense_column E) cs s) = timerPeriod s" "quantum (fold (sense_column E) cs s) = quantum s"
  "brightness (fold (sense_column E) cs s) = brightness s" "bitmap (fold (sense_column E) cs s) = bitmap s"
  "status_reset (fold (sense_column E) cs s) = status_reset s" "gpiote (fold (sense_column E) cs s) = gpiote s"
  "ppi (fold (sense_column E) cs s) = ppi s" "compute_quantum (fold (sense_column E) cs s) = compute_quantum s"
  "level (fold (sense_column E) cs s) p = (if p \<in> (!) (columnPins E) ` set cs then High else level s p)"
  by (induction cs arbitrary: s; simp)+

text \<open>What a time slot shows.\<close>

definition shows_row :: "led_env \<Rightarrow> led \<Rightarrow> bool" where
  "shows_row E s \<longleftrightarrow>
     (\<forall>r < map_rows E. level s (rowPins E ! r) = High \<longleftrightarrow> r = strobeRow s)
     \<and> (\<forall>c < map_columns E. lit_ticks E s c = Some (pixel_at E s (strobeRow s) c * quantum s)
          \<and> pixel_at E s (strobeRow s) c * quantum s < CC s 0)"

definition senses :: "led_env \<Rightarrow> led \<Rightarrow> bool" where
  "senses E s \<longleftrightarrow> (\<forall>r < map_rows E. level s (rowPins E ! r) \<noteq> High)
     \<and> (\<forall>c < map_columns E. level s (columnPins E ! c) = High)"

lemma on_time_bound:
  assumes W: "env_wf E" and B: "between E s"
  shows "pixel_at E s r c * quantum s < timerPeriod s" "timerPeriod s < 2 ^ 20"
proof -
  have ts: "0 < timeslots s" "timeslots s \<le> 65" using W B by (auto simp: env_wf_def between_def)
  have P: "timerPeriod s = 16000000 div (60 * timeslots s)"
  proof -
    have "timerPeriod s = CLOCK_FREQUENCY div (FRAME_FREQUENCY * timeslots s)"
      using B by (simp only: between_def)
    then show ?thesis by (simp only: CLOCK_FREQUENCY_def FRAME_FREQUENCY_def)
  qed
  have "60 * timeslots s \<le> 3900" using ts by simp
  then have "16000000 div 3900 \<le> timerPeriod s" unfolding P using ts by (intro div_le_mono2) auto
  then have pos: "4102 \<le> timerPeriod s" by simp
  have "60 \<le> 60 * timeslots s" using ts(1) by simp
  then have "timerPeriod s \<le> 16000000 div 60" unfolding P by (intro div_le_mono2) auto
  then show small: "timerPeriod s < 2 ^ 20" by simp
  have v: "pixel_at E s r c \<le> 255"
  proof -
    have "unat x \<le> 255" for x :: u8 using unsigned_less [of x, where ?'a = nat] by simp
    then show ?thesis by (auto simp: pixel_at_def Let_def split: prod.splits)
  qed
  have b: "brightness s \<le> 255" using B by (simp add: between_def)
  have "timerPeriod s * brightness s \<le> 2 ^ 20 * 255"
    by (rule mult_le_mono) (use small b in simp_all)
  then have "timerPeriod s * brightness s < 2 ^ 32" by simp
  then have q: "quantum s = timerPeriod s * brightness s div 65280"
    using B by (simp add: between_def compute_quantum_def)
  have "quantum s \<le> timerPeriod s * 255 div 65280" unfolding q using b by (intro div_le_mono) simp
  then have "quantum s \<le> timerPeriod s div 256" by simp
  then have "pixel_at E s r c * quantum s \<le> 255 * (timerPeriod s div 256)" using v by (rule mult_le_mono[rotated])
  also have "\<dots> < timerPeriod s"
  proof -
    have "0 < timerPeriod s div 256" using pos by (simp add: div_greater_zero_iff)
    moreover have "timerPeriod s div 256 * 256 \<le> timerPeriod s" by (rule div_times_less_eq_dividend)
    ultimately show ?thesis by linarith
  qed
  finally show "pixel_at E s r c * quantum s < timerPeriod s" .
qed

lemma start_strobe_frame [simp]:
  "strobeRow (start_strobe E s) = strobeRow s" "timeslots (start_strobe E s) = timeslots s"
  "mode (start_strobe E s) = mode s" "enabled (start_strobe E s) = enabled s"
  "timerPeriod (start_strobe E s) = timerPeriod s" "quantum (start_strobe E s) = quantum s"
  "brightness (start_strobe E s) = brightness s" "bitmap (start_strobe E s) = bitmap s"
  "status_reset (start_strobe E s) = status_reset s" "gpiote (start_strobe E s) = gpiote s"
  "ppi (start_strobe E s) = ppi s"
  by (simp_all add: start_strobe_def Let_def)

lemma pixel_at_cong: "mode s = mode t \<Longrightarrow> bitmap s = bitmap t \<Longrightarrow> pixel_at E s r c = pixel_at E t r c"
  by (simp add: pixel_at_def)

text \<open>Starting the next strobe from the state in between.\<close>

lemma start_strobe_spec:
  assumes W: "env_wf E" and B: "between E s"
  shows "strobeRow s < map_rows E \<Longrightarrow> shows_row E (start_strobe E s)"
    "strobeRow s < map_rows E \<Longrightarrow> wired E (start_strobe E s) \<and> CC (start_strobe E s) 0 = timerPeriod s"
    "strobeRow s = map_rows E \<Longrightarrow> senses E (start_strobe E s)"
    "r < map_rows E \<Longrightarrow> r \<noteq> strobeRow s \<Longrightarrow> level (start_strobe E s) (rowPins E ! r) \<noteq> High"
proof -
  have dist: "rowPins E ! r = rowPins E ! q \<longleftrightarrow> r = q" if "r < map_rows E" "q < map_rows E" for r q
    using W that by (auto simp: env_wf_def nth_eq_iff_index_eq)
  have cols: "rowPins E ! r \<noteq> columnPins E ! c" if "c < map_columns E" "r < map_rows E" for c r
    using wf_columns(3) [OF W that(1)] W that(2) by (metis env_wf_def nth_mem)
  have off: "level s (rowPins E ! r) \<noteq> High" if "r < map_rows E" for r
    using B that by (simp add: between_def)
  have BB: "channels E s" "wired E s" "CC s 0 = timerPeriod s" using B by (simp_all add: between_def)
  note D = draw_fold_lit [OF BB(1,2) order.refl, rule_format]
  have time: "on_time E s c = pixel_at E s (strobeRow s) c * quantum s" for c
    using on_time_bound(1) [OF W B, of "strobeRow s" c] on_time_bound(2) [OF W B]
    by (simp add: on_time_def)
  have pix: "pixel_at E (start_strobe E s) (strobeRow s) c = pixel_at E s (strobeRow s) c" for c
    by (rule pixel_at_cong) simp_all
  {
    assume r: "strobeRow s < map_rows E"
    show "shows_row E (start_strobe E s)"
      using r off dist D time pix on_time_bound(1) [OF W B] BB(3)
      by (auto simp: shows_row_def start_strobe_def)
    show "wired E (start_strobe E s) \<and> CC (start_strobe E s) 0 = timerPeriod s"
      using r D BB(3) by (simp add: start_strobe_def wired_def)
  }
  {
    assume r: "strobeRow s = map_rows E"
    have "0 < map_rows E" using W by (simp add: env_wf_def)
    then show "senses E (start_strobe E s)"
      using r off cols cols [THEN not_sym] by (auto simp: senses_def start_strobe_def Let_def)
  }
  show "r < map_rows E \<Longrightarrow> r \<noteq> strobeRow s \<Longrightarrow> level (start_strobe E s) (rowPins E ! r) \<noteq> High"
    using off dist cols W by (auto simp: start_strobe_def Let_def)
qed

lemma render_spec:
  assumes W: "env_wf E" and I: "led_inv E s" and e: "enabled s"
  shows "led_inv E (render E s)" "enabled (render E s)"
    "strobeRow (render E s) = (strobeRow s + 1) mod timeslots (render E s)"
    "timeslots (render E s) = map_rows E + (if senses_light (mode s) then 1 else 0)"
    "bitmap (render E s) = bitmap s" "mode (render E s) = mode s"
    "strobeRow (render E s) < map_rows E \<Longrightarrow> shows_row E (render E s)"
    "strobeRow (render E s) = map_rows E \<Longrightarrow> senses E (render E s)"
proof -
  let ?f = "finish_strobe E s"
  define t where "t = ?f\<lparr>timer_on := False, strobeRow := (strobeRow ?f + 1) mod 256 mod timeslots ?f\<rparr>"
  note F = finish_strobe_spec [OF W I e]
  have B: "between E t"
    using F(1) by (simp add: t_def between_def)
  have r: "render E s = (start_strobe E t)\<lparr>timer_on := True\<rparr>" by (simp add: render_def t_def Let_def)
  have slots: "timeslots t = map_rows E + (if senses_light (mode s) then 1 else 0)"
    using B F(3) by (simp add: between_def t_def)
  have m: "strobeRow s \<le> map_rows E" "0 < map_rows E" "map_rows E \<le> 64"
    using I W by (simp_all add: led_inv_def env_wf_def)
  then have row: "strobeRow t = (strobeRow s + 1) mod timeslots t" by (simp add: t_def F(2))
  also have "\<dots> < timeslots t" using slots m by (intro mod_less_divisor) simp
  finally have le: "strobeRow t \<le> map_rows E" using slots by (simp split: if_splits)
  note S = start_strobe_spec [OF W B]
  have same: "shows_row E (u\<lparr>timer_on := b\<rparr>) = shows_row E u" "senses E (u\<lparr>timer_on := b\<rparr>) = senses E u" for u b
    by (simp_all add: shows_row_def senses_def pixel_at_def)
  show "enabled (render E s)" "strobeRow (render E s) = (strobeRow s + 1) mod timeslots (render E s)"
    "timeslots (render E s) = map_rows E + (if senses_light (mode s) then 1 else 0)"
    "mode (render E s) = mode s" "bitmap (render E s) = bitmap s"
    using B row slots F(3,4) by (simp_all add: r between_def t_def)
  show "strobeRow (render E s) < map_rows E \<Longrightarrow> shows_row E (render E s)"
    "strobeRow (render E s) = map_rows E \<Longrightarrow> senses E (render E s)"
    using S(1,3) by (simp_all add: r same)
  have "channels E (start_strobe E t) = channels E t" by (simp add: channels_def)
  moreover have "compute_quantum (start_strobe E t) = compute_quantum t" by (simp add: compute_quantum_def)
  ultimately show "led_inv E (render E s)"
    using B S(2,4) le by (auto simp: r led_inv_def between_def)
qed

subsection \<open>Every sequence of operations\<close>

text \<open>The timer interrupt, which renders, comes only while the display is enabled.\<close>

datatype led_op = Tick | SetMode display_mode | SetBrightness int | Enable | Disable | Clear
  | Draw "nat \<Rightarrow> u8" | ReadLight nat | Sleep bool

fun led_step :: "led_env \<Rightarrow> led_op \<Rightarrow> led \<Rightarrow> led" where
  "led_step E Tick s = (if enabled s then render E s else s)"
| "led_step E (SetMode m) s = setDisplayMode E m s"
| "led_step E (SetBrightness b) s = snd (setBrightness E b s)"
| "led_step E Enable s = led_enable E s"
| "led_step E Disable s = led_disable E s"
| "led_step E Clear s = led_clear s"
| "led_step E (Draw img) s = s\<lparr>bitmap := img\<rparr>"
| "led_step E (ReadLight n) s = snd (readLightLevel E (if enabled s then n else 0) s)"
| "led_step E (Sleep doSleep) s = led_setSleep E doSleep s"

lemma led_inv_flags:
  "led_inv E s \<Longrightarrow> led_inv E (s\<lparr>bitmap := img\<rparr>)" "led_inv E s \<Longrightarrow> led_inv E (s\<lparr>status_lightReady := b\<rparr>)"
  "led_inv E s \<Longrightarrow> led_inv E (s\<lparr>wasEnabled := b\<rparr>)"
  by (simp_all add: led_inv_def)

lemma renders_inv:
  assumes "env_wf E" "led_inv E s" "enabled s"
  shows "led_inv E ((render E ^^ n) s) \<and> enabled ((render E ^^ n) s)
    \<and> mode ((render E ^^ n) s) = mode s \<and> bitmap ((render E ^^ n) s) = bitmap s"
  using assms by (induction n) (auto simp: render_spec)

lemma led_inv_step:
  assumes W: "env_wf E" and I: "led_inv E s"
  shows "led_inv E (led_step E op s)"
proof (cases op)
  case (SetBrightness b)
  obtain result v where b: "base_setBrightness E b (brightness s) = (result, v)" by fastforce
  have "brightness s \<le> 255" using I by (simp add: led_inv_def)
  then have "v \<le> 255" "result \<noteq> OK \<longrightarrow> v = brightness s" using W b unfolding env_wf_def by (metis fst_conv snd_conv)+
  then show ?thesis using I b SetBrightness
    by (cases "result = OK")
      (simp_all add: led_inv_def setBrightness_def Let_def compute_quantum_def)
next
  case (ReadLight n)
  let ?n = "if enabled s then n else 0"
  have M: "led_inv E ((setDisplayMode E m t)\<lparr>status_lightReady := False\<rparr>)" if "led_inv E t" for m t
    using led_inv_setDisplayMode [OF W that] led_inv_flags by blast
  define s1 where "s1 = (if mode s = BLACK_AND_WHITE
    then (setDisplayMode E BLACK_AND_WHITE_LIGHT_SENSE s)\<lparr>status_lightReady := False\<rparr> else s)"
  define t where "t = (if mode s1 = GREYSCALE
    then (setDisplayMode E GREYSCALE_LIGHT_SENSE s1)\<lparr>status_lightReady := False\<rparr> else s1)"
  have 1: "led_inv E s1" "enabled s1 = enabled s" using I M by (auto simp: s1_def)
  have t: "led_inv E t" "enabled t = enabled s" using 1 M by (auto simp: t_def)
  have "snd (readLightLevel E ?n s) = (if \<not> status_lightReady t then (render E ^^ ?n) t else t)"
    unfolding readLightLevel_def s1_def [symmetric] t_def [symmetric] Let_def by simp
  then show ?thesis using renders_inv [OF W t(1), of n] ReadLight t by auto
next
  case (Sleep d)
  have "led_inv E (led_disable E (s\<lparr>wasEnabled := enabled s\<rparr>))"
    by (intro led_inv_disable led_inv_flags I)
  then show ?thesis using I led_inv_enable [OF W] Sleep by (auto simp: led_setSleep_def Let_def)
qed (use W I in \<open>auto simp: render_spec led_inv_setDisplayMode led_inv_enable led_inv_disable
  led_clear_def led_inv_flags\<close>)

lemma led_inv_new:
  assumes W: "env_wf E" and b: "b \<le> 255"
  shows "led_inv E (led_new E m img b)"
proof -
  have "led_inv E (led_enable E s)" if "strobeRow s = 0" "\<not> enabled s" "brightness s = b"
    "\<not> status_reset s" "length (gpiote s) = 5" "length (ppi s) = 5" "\<not> timer_on s" for s
    by (rule led_inv_enable [OF W]) (use that b in \<open>simp add: led_inv_def\<close>)
  then show ?thesis using W
    by (simp add: led_new_def Let_def env_wf_def MAXIMUM_COLUMNS_def)
qed

lemma led_inv_run:
  "env_wf E \<Longrightarrow> led_inv E s \<Longrightarrow> led_inv E (fold (led_step E) ops s)"
  by (induction ops arbitrary: s) (auto simp: led_inv_step)

lemma mod_shift: "(a + Suc (x mod T)) mod T = (a mod T + x + 1) mod (T :: nat)"
  using mod_add_right_eq [of "Suc a" x T] mod_add_left_eq [of a T "Suc x"] by simp

lemma renders_rows:
  assumes W: "env_wf E" and I: "led_inv E s" and e: "enabled s"
    and T: "T = map_rows E + (if senses_light (mode s) then 1 else 0)"
  shows "strobeRow ((render E ^^ Suc k) s) = (strobeRow s + Suc k) mod T"
proof (induction k)
  case 0
  then show ?case using render_spec(3,4) [OF W I e] T by simp
next
  case (Suc k)
  note R = renders_inv [OF W I e, of "Suc k"]
  then have "strobeRow (render E ((render E ^^ Suc k) s)) = (strobeRow ((render E ^^ Suc k) s) + 1) mod T"
    using render_spec(3,4) [OF W, of "(render E ^^ Suc k) s"] T by simp
  also have "\<dots> = (strobeRow s + Suc k + 1) mod T" unfolding Suc by (simp add: mod_simps)
  finally show ?case by simp
qed

text \<open>
  C26 Whatever the program did with the display before: while it is enabled, each timer interrupt
  either drives exactly one row, every LED of it for the time its pixel asks for, always less than
  the time slot, or senses the light with all rows off; and one round of interrupts shows every
  row of the image.
\<close>

theorem led_shows_image:
  assumes W: "env_wf E" and b: "b \<le> 255"
    and s: "s = fold (led_step E) ops (led_new E m img b)" and e: "enabled s"
    and T: "T = map_rows E + (if senses_light (mode s) then 1 else 0)"
  shows "(let s' = render E s in
        if strobeRow s' < map_rows E then shows_row E s' else senses E s')
    \<and> (\<forall>r < map_rows E. \<exists>k \<le> T. let s' = (render E ^^ k) s in
        strobeRow s' = r \<and> shows_row E s' \<and> bitmap s' = bitmap s \<and> mode s' = mode s)"
proof -
  have I: "led_inv E s" unfolding s by (rule led_inv_run [OF W led_inv_new [OF W b]])
  note R = render_spec [OF W I e]
  have "strobeRow (render E s) \<le> map_rows E" using R(1) by (simp add: led_inv_def)
  then have "if strobeRow (render E s) < map_rows E then shows_row E (render E s) else senses E (render E s)"
    using R(7,8) by simp
  moreover have "\<exists>k \<le> T. strobeRow ((render E ^^ k) s) = r \<and> shows_row E ((render E ^^ k) s)
      \<and> bitmap ((render E ^^ k) s) = bitmap s \<and> mode ((render E ^^ k) s) = mode s"
    if r: "r < map_rows E" for r
  proof -
    have T0: "r < T" using r T by simp
    define k where "k = (r + (T - 1) - strobeRow s mod T) mod T"
    have "strobeRow s mod T < T" using T0 by simp
    then have le: "strobeRow s mod T \<le> r + (T - 1)" by linarith
    have "k < T" using T0 by (simp add: k_def)
    have "(strobeRow s + Suc k) mod T = (strobeRow s mod T + (r + (T - 1) - strobeRow s mod T) + 1) mod T"
      unfolding k_def by (rule mod_shift)
    also have "\<dots> = (r + T) mod T" using le T0 by simp
    finally have row: "strobeRow ((render E ^^ Suc k) s) = r"
      using renders_rows [OF W I e T, of k] T0 by simp
    note K = renders_inv [OF W I e, of k] renders_inv [OF W I e, of "Suc k"]
    have "shows_row E ((render E ^^ Suc k) s)"
      using render_spec(7) [OF W, of "(render E ^^ k) s"] K row r by simp
    then show ?thesis using K row \<open>k < T\<close> by (intro exI [of _ "Suc k"]) auto
  qed
  ultimately show ?thesis by (simp add: Let_def)
qed

text \<open>The matrix of the micro:bit (\<open>model/MicroBit.cpp\<close>).\<close>

definition ledMatrixPositions :: "(nat \<times> nat) list" where
  "ledMatrixPositions = concat (map (\<lambda>x. map (\<lambda>y. (x, y)) [0..<5]) [0..<5])"

definition microbit_leds :: led_env where
  "microbit_leds =
     \<lparr>map_width = 5, map_rows = 5, map_columns = 5, rowPins = [21, 22, 15, 24, 19],
      columnPins = [28, 11, 31, 37, 30], map_points = ledMatrixPositions,
      base_setBrightness = \<lambda>b v. if 0 \<le> b \<and> b \<le> 255 then (OK, nat b) else (INVALID_PARAMETER, v)\<rparr>"

lemma led_shows_image_witness:
  "\<exists>k \<le> 6. let s' = (render microbit_leds ^^ k) (fold (led_step microbit_leds)
        [Draw (\<lambda>_. 7), SetBrightness 128, SetMode GREYSCALE_LIGHT_SENSE]
        (led_new microbit_leds BLACK_AND_WHITE (\<lambda>_. 0) 255))
    in strobeRow s' = 3 \<and> shows_row microbit_leds s'"
proof -
  let ?ops = "[Draw (\<lambda>_. 7), SetBrightness 128, SetMode GREYSCALE_LIGHT_SENSE]"
  let ?s = "fold (led_step microbit_leds) ?ops (led_new microbit_leds BLACK_AND_WHITE (\<lambda>_. 0) 255)"
  have W: "env_wf microbit_leds" by (auto simp: env_wf_def microbit_leds_def MAXIMUM_COLUMNS_def)
  have e: "enabled ?s" "mode ?s = GREYSCALE_LIGHT_SENSE"
    by (simp_all add: setBrightness_def led_new_def led_enable_def microbit_leds_def MAXIMUM_COLUMNS_def
        Let_def)
  have T: "6 = map_rows microbit_leds + (if senses_light (mode ?s) then 1 else 0)"
    unfolding e(2) by (simp add: microbit_leds_def senses_light_def)
  have "3 < map_rows microbit_leds" by (simp add: microbit_leds_def)
  then show ?thesis
    using led_shows_image [OF W _ refl e(1) T] by (auto simp: Let_def)
qed

end
