(* ===== verification/IOPin.thy ===== *)
theory IOPin
  imports MB_Prelude
begin

text \<open>
  \<open>MicroBitIOPinService\<close> (\<open>source/bluetooth/MicroBitIOPinService.cpp\<close>): a client chooses by two
  bit masks which of the 19 pins are inputs and which are analog, reads and writes their values
  and is notified of changes. The pins (codal-core) and the Bluetooth stack are the record
  \<open>io_hw\<close> over a state of any type; notifications and the values given to the stack are recorded
  in \<open>out\<close>.
\<close>

definition PINCOUNT :: nat where "PINCOUNT = 19"
definition DATA_SIZE :: nat where "DATA_SIZE = 10"

datatype io_chr = ADC | IO | PWM | DATA | Other

record 'w io_hw =
  getDigitalValue :: "nat \<Rightarrow> 'w \<Rightarrow> int \<times> 'w"
  getAnalogValue :: "nat \<Rightarrow> 'w \<Rightarrow> int \<times> 'w"
  setDigitalValue :: "nat \<Rightarrow> u8 \<Rightarrow> 'w \<Rightarrow> 'w"
  setAnalogValue :: "nat \<Rightarrow> nat \<Rightarrow> 'w \<Rightarrow> 'w"
  setAnalogPeriodUs :: "nat \<Rightarrow> nat \<Rightarrow> 'w \<Rightarrow> 'w"
  getConnected :: "'w \<Rightarrow> bool"
  wide_shift :: "nat \<Rightarrow> u32"

datatype io_out = ChrValue io_chr u32 | Notify "(nat \<times> u8) list"

text \<open>\<open>ADbuf\<close>, \<open>IObuf\<close> are the masks, \<open>IOData\<close> the last known values, \<open>dataBuf\<close> the pairs of pin
  and value in the data characteristic.\<close>

record 'w io_service =
  pins :: 'w
  ADbuf :: u32
  IObuf :: u32
  IOData :: "u8 list"
  dataBuf :: "(nat \<times> u8) list"
  out :: "io_out list"

definition io_new :: "'w \<Rightarrow> 'w io_service" where
  "io_new w = \<lparr>pins = w, ADbuf = 0, IObuf = 0, IOData = replicate PINCOUNT 0,
     dataBuf = replicate DATA_SIZE (0, 0), out = []\<rparr>"

text \<open>Pins the service does not have are redirected to pin 0.\<close>

definition edgePin :: "nat \<Rightarrow> nat" where
  "edgePin index = (if index \<ge> PINCOUNT then 0 else index)"

text \<open>
  The masks are tested with \<open>1 << i\<close>; for \<open>i\<close> from 32 on, which a client can send, C does not
  define the shift: \<open>wide_shift\<close> is what the processor makes of it.
\<close>

definition pin_bit :: "'w io_hw \<Rightarrow> nat \<Rightarrow> u32" where
  "pin_bit H i = (if i < 32 then push_bit i 1 else wide_shift H i)"

definition isDigital :: "'w io_hw \<Rightarrow> nat \<Rightarrow> 'w io_service \<Rightarrow> bool" where
  "isDigital H i s \<longleftrightarrow> ADbuf s AND pin_bit H i = 0"

definition isAnalog :: "'w io_hw \<Rightarrow> nat \<Rightarrow> 'w io_service \<Rightarrow> bool" where
  "isAnalog H i s \<longleftrightarrow> ADbuf s AND pin_bit H i \<noteq> 0"

definition isActiveInput :: "'w io_hw \<Rightarrow> nat \<Rightarrow> 'w io_service \<Rightarrow> bool" where
  "isActiveInput H i s \<longleftrightarrow> IObuf s AND pin_bit H i \<noteq> 0"

definition pin_value :: "'w io_hw \<Rightarrow> nat \<Rightarrow> 'w io_service \<Rightarrow> u8 \<times> 'w" where
  "pin_value H i s =
     (if isDigital H i s
      then (case getDigitalValue H (edgePin i) (pins s) of (v, w) \<Rightarrow> (of_int v, w))
      else (case getAnalogValue H (edgePin i) (pins s) of (v, w) \<Rightarrow> (of_int (v div 4), w)))"

text \<open>The loop of \<open>updateBLEInputs\<close> over the pins that are left; it returns the number of pairs.\<close>

fun update_loop :: "'w io_hw \<Rightarrow> bool \<Rightarrow> nat list \<Rightarrow> nat \<Rightarrow> 'w io_service \<Rightarrow> nat \<times> 'w io_service" where
  "update_loop H updateAll [] pairs s = (pairs, s)"
| "update_loop H updateAll (i # is) pairs s =
     (if isActiveInput H i s then
        case pin_value H i s of (value, w) \<Rightarrow>
          let s1 = s\<lparr>pins := w\<rparr>
          in if updateAll \<or> value \<noteq> IOData s1 ! i then
               let s2 = s1\<lparr>IOData := (IOData s1)[i := value],
                           dataBuf := (dataBuf s1)[pairs := (i, value)]\<rparr>
               in if DATA_SIZE \<le> pairs + 1 then (pairs + 1, s2)
                  else update_loop H updateAll is (pairs + 1) s2
             else update_loop H updateAll is pairs s1
      else update_loop H updateAll is pairs s)"

definition updateBLEInputs :: "'w io_hw \<Rightarrow> bool \<Rightarrow> 'w io_service \<Rightarrow> nat \<times> 'w io_service" where
  "updateBLEInputs H updateAll s = update_loop H updateAll [0..<PINCOUNT] 0 s"

text \<open>The selected pins are dropped into input mode.\<close>

definition select_input :: "'w io_hw \<Rightarrow> nat \<Rightarrow> 'w io_service \<Rightarrow> 'w io_service" where
  "select_input H i s =
     (let s1 = (if isDigital H i s \<and> isActiveInput H i s
                then s\<lparr>pins := snd (getDigitalValue H (edgePin i) (pins s))\<rparr> else s)
      in if isAnalog H i s1 \<and> isActiveInput H i s1
         then s1\<lparr>pins := snd (getAnalogValue H (edgePin i) (pins s1))\<rparr> else s1)"

definition select_inputs :: "'w io_hw \<Rightarrow> 'w io_service \<Rightarrow> 'w io_service" where
  "select_inputs H s = fold (select_input H) [0..<PINCOUNT] s"

definition le_nat :: "u8 list \<Rightarrow> nat" where
  "le_nat bs = foldr (\<lambda>b n. unat b + 256 * n) bs 0"

text \<open>The fields of seven bytes of the PWM characteristic, and the pairs of the data one.\<close>

fun write_pwm :: "'w io_hw \<Rightarrow> nat \<Rightarrow> u8 list \<Rightarrow> 'w \<Rightarrow> 'w" where
  "write_pwm H 0 data w = w"
| "write_pwm H (Suc n) data w =
     (let pin = edgePin (unat (data ! 0))
      in write_pwm H n (drop 7 data)
           (setAnalogPeriodUs H pin (le_nat (take 4 (drop 3 data)))
             (setAnalogValue H pin (le_nat (take 2 (drop 1 data))) w)))"

fun write_pins :: "'w io_hw \<Rightarrow> u8 list \<Rightarrow> 'w io_service \<Rightarrow> 'w io_service" where
  "write_pins H (pin # value # data) s =
     (let i = unat pin;
          s1 = (if isActiveInput H i s then s
                else if isDigital H i s then s\<lparr>pins := setDigitalValue H (edgePin i) value (pins s)\<rparr>
                else s\<lparr>pins := setAnalogValue H (edgePin i)
                       (if value = 255 then 1023 else unat value * 4) (pins s)\<rparr>)
      in write_pins H data s1)"
| "write_pins H data s = s"

definition io_onDataWritten :: "'w io_hw \<Rightarrow> io_chr \<Rightarrow> u8 list \<Rightarrow> 'w io_service \<Rightarrow> 'w io_service" where
  "io_onDataWritten H handle data s =
     (if handle = IO \<and> length data \<ge> 4 then
        let v = of_nat (le_nat (take 4 data))
        in select_inputs H (s\<lparr>IObuf := v, out := out s @ [ChrValue IO v]\<rparr>)
      else if handle = ADC \<and> length data \<ge> 4 then
        let v = of_nat (le_nat (take 4 data))
        in select_inputs H (s\<lparr>ADbuf := v, out := out s @ [ChrValue ADC v]\<rparr>)
      else if handle = PWM then
        (if length data > 0 \<and> length data mod 7 = 0
         then s\<lparr>pins := write_pwm H (length data div 7 mod 256) data (pins s)\<rparr> else s)
      else if handle = DATA then write_pins H data s
      else s)"

text \<open>What a read of the data characteristic is answered with; \<open>None\<close> leaves it as it was.\<close>

definition io_onDataRead :: "'w io_hw \<Rightarrow> io_chr \<Rightarrow> 'w io_service \<Rightarrow> (nat \<times> u8) list option \<times> 'w io_service"
  where
  "io_onDataRead H handle s =
     (if handle = DATA then
        case updateBLEInputs H True s of (pairs, s1) \<Rightarrow>
          (if pairs \<noteq> 0 then Some (take pairs (dataBuf s1)) else None, s1)
      else (None, s))"

definition io_idleCallback :: "'w io_hw \<Rightarrow> 'w io_service \<Rightarrow> 'w io_service" where
  "io_idleCallback H s =
     (if getConnected H (pins s) then
        case updateBLEInputs H False s of (pairs, s1) \<Rightarrow>
          if pairs \<noteq> 0 then s1\<lparr>out := out s1 @ [Notify (take pairs (dataBuf s1))]\<rparr> else s1
      else s)"

subsection \<open>Pins that hold their values\<close>

text \<open>Reading does not disturb the pins, and a client is connected.\<close>

definition steady :: "'w io_hw \<Rightarrow> (nat \<Rightarrow> int) \<Rightarrow> (nat \<Rightarrow> int) \<Rightarrow> bool" where
  "steady H dv av \<longleftrightarrow>
     (\<forall>i w. fst (getDigitalValue H i w) = dv i \<and> fst (getAnalogValue H i w) = av i)
     \<and> (\<forall>w. getConnected H w)"

definition value_of :: "'w io_hw \<Rightarrow> (nat \<Rightarrow> int) \<Rightarrow> (nat \<Rightarrow> int) \<Rightarrow> 'w io_service \<Rightarrow> nat \<Rightarrow> u8" where
  "value_of H dv av s i =
     (if isDigital H i s then of_int (dv (edgePin i)) else of_int (av (edgePin i) div 4))"

definition same_masks :: "'w io_service \<Rightarrow> 'w io_service \<Rightarrow> bool" where
  "same_masks s s' \<longleftrightarrow> ADbuf s' = ADbuf s \<and> IObuf s' = IObuf s \<and> out s' = out s
     \<and> length (IOData s') = length (IOData s) \<and> length (dataBuf s') = length (dataBuf s)"

lemma same_masks_simps:
  "same_masks s s' \<Longrightarrow> isActiveInput H i s' = isActiveInput H i s"
  "same_masks s s' \<Longrightarrow> isDigital H i s' = isDigital H i s"
  "same_masks s s' \<Longrightarrow> value_of H dv av s' i = value_of H dv av s i"
  by (simp_all add: same_masks_def isActiveInput_def isDigital_def value_of_def)

lemma same_masks_trans: "same_masks s s1 \<Longrightarrow> same_masks s1 s2 \<Longrightarrow> same_masks s s2"
  by (simp add: same_masks_def)

text \<open>The pins a pass reports: the first that fit into the buffer.\<close>

definition changed :: "'w io_hw \<Rightarrow> (nat \<Rightarrow> int) \<Rightarrow> (nat \<Rightarrow> int) \<Rightarrow> bool \<Rightarrow> 'w io_service \<Rightarrow> nat \<Rightarrow> bool" where
  "changed H dv av updateAll s i \<longleftrightarrow>
     isActiveInput H i s \<and> (updateAll \<or> value_of H dv av s i \<noteq> IOData s ! i)"

lemma pin_value_steady:
  "steady H dv av \<Longrightarrow> fst (pin_value H i s) = value_of H dv av s i"
  by (simp add: steady_def pin_value_def value_of_def split: prod.splits) (metis fst_conv)

definition reported :: "'w io_hw \<Rightarrow> (nat \<Rightarrow> int) \<Rightarrow> (nat \<Rightarrow> int) \<Rightarrow> 'w io_service \<Rightarrow> nat \<Rightarrow> nat list \<Rightarrow>
    nat \<Rightarrow> 'w io_service \<Rightarrow> bool" where
  "reported H dv av s pairs ns n s' \<longleftrightarrow> n = pairs + length ns \<and> same_masks s s'
    \<and> take n (dataBuf s') = take pairs (dataBuf s) @ map (\<lambda>i. (i, value_of H dv av s i)) ns
    \<and> (\<forall>i < length (IOData s). IOData s' ! i = (if i \<in> set ns then value_of H dv av s i else IOData s ! i))"

lemma reported_step:
  assumes "reported H dv av t (Suc pairs) ns n s'" "same_masks s t"
    and "take (Suc pairs) (dataBuf t) = take pairs (dataBuf s) @ [(i, value_of H dv av s i)]"
    and "IOData t = (IOData s)[i := value_of H dv av s i]" "i \<notin> set ns" "i < length (IOData s)"
  shows "reported H dv av s pairs (i # ns) n s'"
  using assms same_masks_trans [OF assms(2), of s']
  by (auto simp: reported_def nth_list_update same_masks_simps [OF assms(2)])

lemma update_loop_spec:
  assumes S: "steady H dv av"
  shows "distinct is \<Longrightarrow> set is \<subseteq> {..<length (IOData s)} \<Longrightarrow> pairs < DATA_SIZE \<Longrightarrow>
    length (dataBuf s) = DATA_SIZE \<Longrightarrow> update_loop H updateAll is pairs s = (n, s') \<Longrightarrow>
    reported H dv av s pairs
      (take (DATA_SIZE - pairs) (filter (changed H dv av updateAll s) is)) n s'"
proof (induction "is" arbitrary: pairs s)
  case Nil
  then show ?case by (simp add: reported_def same_masks_def)
next
  case (Cons i "is")
  obtain v w where pv: "pin_value H i s = (v, w)" by fastforce
  then have v: "v = value_of H dv av s i" using pin_value_steady [OF S, of i s] by simp
  consider (idle) "\<not> isActiveInput H i s"
    | (same) "isActiveInput H i s" "\<not> changed H dv av updateAll s i"
    | (new) "changed H dv av updateAll s i" by blast
  then show ?case
  proof cases
    case idle
    then show ?thesis using Cons.IH [of s pairs] Cons.prems by (simp add: changed_def)
  next
    case same
    let ?s = "s\<lparr>pins := w\<rparr>"
    have m: "same_masks s ?s" by (simp add: same_masks_def)
    have "changed H dv av updateAll ?s = changed H dv av updateAll s"
      by (rule ext) (simp add: changed_def same_masks_simps [OF m])
    then show ?thesis using same Cons.IH [of ?s pairs] Cons.prems pv v
      by (auto simp: reported_def changed_def same_masks_simps [OF m] same_masks_def)
  next
    case new
    let ?s = "s\<lparr>pins := w, IOData := (IOData s)[i := v], dataBuf := (dataBuf s)[pairs := (i, v)]\<rparr>"
    have m: "same_masks s ?s" by (simp add: same_masks_def)
    have b: "take (Suc pairs) (dataBuf ?s) = take pairs (dataBuf s) @ [(i, v)]"
      using Cons.prems(3,4) by (simp add: take_Suc_conv_app_nth)
    have il: "i < length (IOData s)" using Cons.prems(2) by simp
    obtain k where k: "DATA_SIZE - pairs = Suc k" "DATA_SIZE - Suc pairs = k"
      using Cons.prems(3) by (metis Suc_diff_Suc)
    have f: "filter (changed H dv av updateAll ?s) is = filter (changed H dv av updateAll s) is"
    proof (rule filter_cong [OF refl])
      fix j assume "j \<in> set is"
      then have "i \<noteq> j" using Cons.prems(1) by auto
      then show "changed H dv av updateAll ?s j = changed H dv av updateAll s j"
        by (simp add: changed_def same_masks_simps [OF m])
    qed
    show ?thesis
    proof (cases "DATA_SIZE \<le> pairs + 1")
      case True
      then have "k = 0" using k by simp
      then show ?thesis using new Cons.prems(5) True k b pv v m il
        by (auto simp: reported_def changed_def nth_list_update)
    next
      case False
      have "reported H dv av ?s (Suc pairs)
          (take k (filter (changed H dv av updateAll s) is)) n s'"
      proof -
        have "update_loop H updateAll is (Suc pairs) ?s = (n, s')"
          using Cons.prems(5) new pv v False by (simp add: changed_def)
        then show ?thesis using Cons.IH [of ?s "Suc pairs"] Cons.prems(1-4) False
          unfolding k f by simp
      qed
      moreover have "i \<notin> set (take k (filter (changed H dv av updateAll s) is))"
        using Cons.prems(1) by (auto dest: in_set_takeD)
      ultimately have "reported H dv av s pairs
          (i # take k (filter (changed H dv av updateAll s) is)) n s'"
        using m il b v by (intro reported_step [of H dv av ?s]) (auto simp: same_masks_simps [OF m])
      then show ?thesis using new k by simp
    qed
  qed
qed

definition io_wf :: "'w io_service \<Rightarrow> bool" where
  "io_wf s \<longleftrightarrow> length (IOData s) = PINCOUNT \<and> length (dataBuf s) = DATA_SIZE"

definition pairs_of :: "'w io_hw \<Rightarrow> (nat \<Rightarrow> int) \<Rightarrow> (nat \<Rightarrow> int) \<Rightarrow> 'w io_service \<Rightarrow> nat list \<Rightarrow> (nat \<times> u8) list"
  where "pairs_of H dv av s ns = map (\<lambda>i. (i, value_of H dv av s i)) ns"

lemma update_spec:
  assumes "steady H dv av" "io_wf s" "updateBLEInputs H updateAll s = (n, s')"
    and "ns = take 10 (filter (changed H dv av updateAll s) [0..<PINCOUNT])"
  shows "n = length ns" "same_masks s s'" "io_wf s'" "take n (dataBuf s') = pairs_of H dv av s ns"
    "i < PINCOUNT \<Longrightarrow> IOData s' ! i = (if i \<in> set ns then value_of H dv av s i else IOData s ! i)"
proof -
  have "reported H dv av s 0 ns n s'"
    using update_loop_spec [OF assms(1), of "[0..<PINCOUNT]" s 0 updateAll n s'] assms
    by (auto simp: updateBLEInputs_def io_wf_def DATA_SIZE_def lessThan_atLeast0)
  then show "n = length ns" "same_masks s s'" "io_wf s'" "take n (dataBuf s') = pairs_of H dv av s ns"
    "i < PINCOUNT \<Longrightarrow> IOData s' ! i = (if i \<in> set ns then value_of H dv av s i else IOData s ! i)"
    using assms(2) by (auto simp: reported_def io_wf_def pairs_of_def same_masks_def)
qed

lemma idle_spec:
  assumes S: "steady H dv av" and W: "io_wf s"
    and ns: "ns = take 10 (filter (changed H dv av False s) [0..<PINCOUNT])"
  shows "\<exists>s1. same_masks s s1 \<and> io_wf s1
    \<and> io_idleCallback H s = s1\<lparr>out := out s @ (if ns = [] then [] else [Notify (pairs_of H dv av s ns)])\<rparr>
    \<and> (\<forall>i < PINCOUNT. IOData s1 ! i = (if i \<in> set ns then value_of H dv av s i else IOData s ! i))"
proof -
  obtain n s1 where u: "updateBLEInputs H False s = (n, s1)" by fastforce
  note U = update_spec [OF S W u ns]
  show ?thesis using U S u
    by (intro exI [of _ s1]) (auto simp: io_idleCallback_def steady_def same_masks_def)
qed

lemma changed_after:
  assumes "same_masks s s1" "\<forall>i < PINCOUNT. IOData s1 ! i
      = (if i \<in> set ns then value_of H dv av s i else IOData s ! i)"
    and "i < PINCOUNT"
  shows "changed H dv av False (s1\<lparr>out := x\<rparr>) i \<longleftrightarrow> changed H dv av False s i \<and> i \<notin> set ns"
    "value_of H dv av (s1\<lparr>out := x\<rparr>) i = value_of H dv av s i"
proof -
  have "value_of H dv av (s1\<lparr>out := x\<rparr>) i = value_of H dv av s1 i"
    "isActiveInput H i (s1\<lparr>out := x\<rparr>) = isActiveInput H i s1"
    by (simp_all add: value_of_def isDigital_def isActiveInput_def)
  then show "changed H dv av False (s1\<lparr>out := x\<rparr>) i \<longleftrightarrow> changed H dv av False s i \<and> i \<notin> set ns"
    "value_of H dv av (s1\<lparr>out := x\<rparr>) i = value_of H dv av s i"
    using assms by (auto simp: changed_def same_masks_simps [OF assms(1)])
qed

lemma filter_rest:
  "distinct xs \<Longrightarrow> filter (\<lambda>x. P x \<and> x \<notin> set (take n (filter P xs))) xs = drop n (filter P xs)"
proof -
  assume d: "distinct xs"
  have "filter (\<lambda>x. P x \<and> x \<notin> set (take n (filter P xs))) xs
      = filter (\<lambda>x. x \<notin> set (take n (filter P xs))) (filter P xs)"
    by (simp add: conj_commute)
  also have "\<dots> = drop n (filter P xs)"
  proof -
    have "distinct (filter P xs)" using d by simp
    then have "filter (\<lambda>x. x \<notin> set (take n (filter P xs))) (take n (filter P xs) @ drop n (filter P xs))
        = drop n (filter P xs)"
      unfolding filter_append
      by (auto simp: filter_empty_conv filter_id_conv dest: set_take_disj_set_drop_if_distinct [of _ n n])
    then show ?thesis by simp
  qed
  finally show ?thesis .
qed

text \<open>
  C28 While the pins hold their values and a client is connected, two idle callbacks tell the
  client every pin that differs from what it was told last, once, in the order of the pins, ten to
  a notification; after them the service holds the value of every input and is silent.
\<close>

theorem io_changes_delivered:
  assumes S: "steady H dv av" and W: "io_wf s"
    and ch: "ch = filter (changed H dv av False s) [0..<PINCOUNT]"
    and s2: "s2 = io_idleCallback H (io_idleCallback H s)"
  shows "out s2 = out s @ map Notify (filter (\<lambda>ps. ps \<noteq> [])
        [pairs_of H dv av s (take 10 ch), pairs_of H dv av s (drop 10 ch)])
    \<and> (\<forall>i < PINCOUNT. isActiveInput H i s \<longrightarrow> IOData s2 ! i = value_of H dv av s i)
    \<and> out (io_idleCallback H s2) = out s2"
proof -
  let ?ns = "take 10 ch"
  obtain s1 where 1: "same_masks s s1" "io_wf s1"
    "io_idleCallback H s = s1\<lparr>out := out s @ (if ?ns = [] then [] else [Notify (pairs_of H dv av s ?ns)])\<rparr>"
    "\<forall>i < PINCOUNT. IOData s1 ! i = (if i \<in> set ?ns then value_of H dv av s i else IOData s ! i)"
    using idle_spec [OF S W, of ?ns] by (auto simp: ch)
  let ?t = "io_idleCallback H s"
  note A = changed_after [OF 1(1,4)]
  have rest: "filter (changed H dv av False ?t) [0..<PINCOUNT] = drop 10 ch"
    unfolding ch 1(3) filter_rest [OF distinct_upt, symmetric]
    by (rule filter_cong) (auto simp: A ch)
  have "length ch \<le> 19" unfolding ch by (rule order_trans [OF length_filter_le]) (simp add: PINCOUNT_def)
  then have short: "take 10 (drop 10 ch) = drop 10 ch" by simp
  have Wt: "io_wf ?t" using 1(2,3) by (simp add: io_wf_def)
  have same: "pairs_of H dv av ?t (drop 10 ch) = pairs_of H dv av s (drop 10 ch)"
    unfolding pairs_of_def 1(3)
    by (rule map_cong [OF refl]) (auto simp: A ch dest!: in_set_dropD)
  obtain t1 where 2: "same_masks ?t t1" "io_wf t1"
    "s2 = t1\<lparr>out := out ?t @ (if drop 10 ch = [] then [] else [Notify (pairs_of H dv av ?t (drop 10 ch))])\<rparr>"
    "\<forall>i < PINCOUNT. IOData t1 ! i = (if i \<in> set (drop 10 ch) then value_of H dv av ?t i else IOData ?t ! i)"
    using idle_spec [OF S Wt, of "drop 10 ch"] by (auto simp: rest short s2)
  note B = changed_after [OF 2(1,4)]
  have W2: "io_wf s2" using 2(2,3) by (simp add: io_wf_def)
  have quiet: "\<not> changed H dv av False s2 i" if "i < PINCOUNT" for i
    using that B(1) [OF that] arg_cong [OF rest, of set] unfolding 2(3) by auto
  then have none: "filter (changed H dv av False s2) [0..<PINCOUNT] = []"
    by (simp add: filter_empty_conv)
  have "out (io_idleCallback H s2) = out s2"
    using idle_spec [OF S W2, of "[]"] none by auto
  moreover have "out s2 = out s @ map Notify (filter (\<lambda>ps. ps \<noteq> [])
        [pairs_of H dv av s (take 10 ch), pairs_of H dv av s (drop 10 ch)])"
  proof -
    have "out ?t = out s @ (if ?ns = [] then [] else [Notify (pairs_of H dv av s ?ns)])"
      by (subst 1(3)) simp
    moreover have "out s2 = out ?t @ (if drop 10 ch = [] then []
        else [Notify (pairs_of H dv av s (drop 10 ch))])"
      using 2(3) unfolding same by simp
    ultimately show ?thesis by (auto simp: pairs_of_def)
  qed
  moreover have "IOData s2 ! i = value_of H dv av s i"
    if i: "i < PINCOUNT" "isActiveInput H i s" for i
  proof -
    have "isActiveInput H i s2" "value_of H dv av s2 i = value_of H dv av s i"
      using i 1(1,3) 2(1,3) A(2) B(2)
      by (auto simp: isActiveInput_def same_masks_def)
    then show ?thesis using quiet [OF i(1)] by (simp add: changed_def)
  qed
  ultimately show ?thesis by blast
qed

definition demo_io :: "unit io_hw" where
  "demo_io =
     \<lparr>getDigitalValue = \<lambda>_ w. (1, w), getAnalogValue = \<lambda>_ w. (512, w), setDigitalValue = \<lambda>_ _ w. w,
      setAnalogValue = \<lambda>_ _ w. w, setAnalogPeriodUs = \<lambda>_ _ w. w, getConnected = \<lambda>_. True,
      wide_shift = \<lambda>_. 0\<rparr>"

text \<open>All pins are inputs, pin 3 is analog.\<close>

definition demo_service :: "unit io_service" where
  "demo_service = (io_new ())\<lparr>IObuf := 0x7FFFF, ADbuf := 8\<rparr>"

lemma demo_changed:
  "filter (changed demo_io (\<lambda>_. 1) (\<lambda>_. 512) False demo_service) [0..<PINCOUNT] = [0..<19]"
  by code_simp

lemma io_changes_delivered_witness:
  "out (io_idleCallback demo_io (io_idleCallback demo_io demo_service))
    = [Notify (pairs_of demo_io (\<lambda>_. 1) (\<lambda>_. 512) demo_service [0..<10]),
       Notify (pairs_of demo_io (\<lambda>_. 1) (\<lambda>_. 512) demo_service [10..<19])]"
proof -
  have "steady demo_io (\<lambda>_. 1) (\<lambda>_. 512)" by (simp add: steady_def demo_io_def)
  moreover have "io_wf demo_service" by (simp add: io_wf_def demo_service_def io_new_def)
  ultimately show ?thesis
    using io_changes_delivered [OF _ _ demo_changed [symmetric] refl]
    by (simp add: pairs_of_def demo_service_def io_new_def take_upt)
qed

text \<open>A read answers for the first ten inputs only: there is no way to read the others.\<close>

lemma io_read_first_ten:
  assumes "steady H dv av" "io_wf s"
  shows "fst (io_onDataRead H DATA s) =
    (let ns = take 10 (filter (\<lambda>i. isActiveInput H i s) [0..<PINCOUNT])
     in if ns = [] then None else Some (pairs_of H dv av s ns))"
proof -
  obtain n s' where u: "updateBLEInputs H True s = (n, s')" by fastforce
  have "changed H dv av True s = (\<lambda>i. isActiveInput H i s)"
    by (rule ext) (simp add: changed_def)
  then show ?thesis using update_spec [OF assms u refl] u
    by (simp add: io_onDataRead_def Let_def)
qed

end
