(* ===== verification/Eddystone.thy ===== *)
theory Eddystone
  imports MB_Prelude "HOL-Library.Sublist"
begin

text \<open>
  The contents of Eddystone beacon frames (\<open>source/bluetooth/MicroBitEddystone.cpp\<close>): a URL with
  its scheme and its domain endings abbreviated to one byte, and a beacon identity. C strings are
  byte lists without the final zero, \<open>None\<close> is the null pointer.
\<close>

definition URL_PREFIXES :: "u8 list list" where
  "URL_PREFIXES = map (map of_char) [''http://www.'', ''https://www.'', ''http://'', ''https://'']"

definition URL_SUFFIXES :: "u8 list list" where
  "URL_SUFFIXES = map (map of_char) [''.com/'', ''.org/'', ''.edu/'', ''.net/'', ''.info/'',
     ''.biz/'', ''.gov/'', ''.com'', ''.org'', ''.edu'', ''.net'', ''.info'', ''.biz'', ''.gov'']"

definition URL_MAX_LENGTH :: nat where "URL_MAX_LENGTH = 18"
definition URL_FRAME_TYPE :: u8 where "URL_FRAME_TYPE = 0x10"
definition UID_FRAME_TYPE :: u8 where "UID_FRAME_TYPE = 0"
definition UID_NAMESPACE_LENGTH :: nat where "UID_NAMESPACE_LENGTH = 10"
definition UID_INSTANCE_LENGTH :: nat where "UID_INSTANCE_LENGTH = 6"
definition EDDYSTONE_UUID :: "u8 list" where "EDDYSTONE_UUID = [0xAA, 0xFE]"

text \<open>The loops over a table: the first entry that starts the string (\<open>strncmp\<close>), from \<open>i\<close> on.\<close>

fun find_start :: "u8 list list \<Rightarrow> nat \<Rightarrow> u8 list \<Rightarrow> (nat \<times> u8 list) option" where
  "find_start [] i url = None"
| "find_start (t # ts) i url =
     (if take (length t) url = t then Some (i, drop (length t) url) else find_start ts (i + 1) url)"

lemma find_start_Some:
  "find_start ts i url = Some (k, rest) \<Longrightarrow>
    i \<le> k \<and> k < i + length ts \<and> url = ts ! (k - i) @ rest"
proof (induction ts arbitrary: i)
  case (Cons t ts)
  show ?case
  proof (cases "take (length t) url = t")
    case True
    then show ?thesis using Cons.prems append_take_drop_id [of "length t" url] by auto
  next
    case False
    then show ?thesis using Cons.prems Cons.IH [of "i + 1"] by (auto simp: nth_Cons' Suc_diff_le)
  qed
qed simp

lemma find_start_None: "find_start ts i url = None \<longleftrightarrow> (\<forall>t \<in> set ts. \<not> prefix t url)"
  by (induction ts arbitrary: i) (auto simp: prefix_def, metis append_take_drop_id)

lemma suffixes_nonempty: "[] \<notin> set URL_SUFFIXES"
  by (simp add: URL_SUFFIXES_def)

text \<open>The loop over the rest of the URL.\<close>

function url_body :: "u8 list \<Rightarrow> u8 list \<Rightarrow> u8 list" where
  "url_body urlData url =
     (if url = [] \<or> URL_MAX_LENGTH \<le> length urlData then urlData
      else case find_start URL_SUFFIXES 0 url of
          Some (i, rest) \<Rightarrow> url_body (urlData @ [of_nat i]) rest
        | None \<Rightarrow> url_body (urlData @ [hd url]) (tl url))"
  by pat_completeness auto
termination
  by (relation "measure (\<lambda>(urlData, url). URL_MAX_LENGTH - length urlData)") auto

declare url_body.simps [simp del]

definition getURL :: "u8 list option \<Rightarrow> u8 \<Rightarrow> code \<times> u8 list" where
  "getURL url calibratedPower =
     (case url of
        None \<Rightarrow> (INVALID_PARAMETER, [])
      | Some u \<Rightarrow>
          if length u = 0 then (INVALID_PARAMETER, [])
          else
            let urlData = (case find_start URL_PREFIXES 0 u of
                    Some (i, rest) \<Rightarrow> url_body [of_nat i] rest
                  | None \<Rightarrow> url_body [] u)
            in (OK, EDDYSTONE_UUID @ [URL_FRAME_TYPE, calibratedPower] @ urlData))"

text \<open>The arguments are at least 10 and 6 bytes long.\<close>

definition getUID :: "u8 list option \<Rightarrow> u8 list option \<Rightarrow> u8 \<Rightarrow> code \<times> u8 list" where
  "getUID uid_namespace uid_instance calibratedPower =
     (case (uid_namespace, uid_instance) of
        (Some ns, Some inst) \<Rightarrow>
          (OK, EDDYSTONE_UUID @ [UID_FRAME_TYPE, calibratedPower]
               @ take UID_NAMESPACE_LENGTH ns @ take UID_INSTANCE_LENGTH inst)
      | _ \<Rightarrow> (INVALID_PARAMETER, []))"

subsection \<open>Reading the frame back\<close>

text \<open>The meaning of the bytes in the Eddystone protocol.\<close>

definition expand :: "u8 \<Rightarrow> u8 list" where
  "expand b = (if unat b < length URL_SUFFIXES then URL_SUFFIXES ! unat b else [b])"

definition decode_url :: "u8 list \<Rightarrow> u8 list" where
  "decode_url d =
     (case d of [] \<Rightarrow> []
      | b # bs \<Rightarrow> (if unat b < length URL_PREFIXES then URL_PREFIXES ! unat b else expand b)
                  @ concat (map expand bs))"

lemma length_tables [simp]: "length URL_SUFFIXES = 14" "length URL_PREFIXES = 4"
  by (simp_all add: URL_SUFFIXES_def URL_PREFIXES_def)

lemma expand_index: "i < 14 \<Longrightarrow> expand (of_nat i) = URL_SUFFIXES ! i"
  by (simp add: expand_def unat_of_nat take_bit_nat_eq_self)

text \<open>What the loop adds stands for a prefix of the URL, all of it if there is room left.\<close>

lemma url_body_spec:
  assumes "\<forall>b \<in> set url. 14 \<le> unat b" "length urlData \<le> URL_MAX_LENGTH"
  shows "\<exists>bs rest. url_body urlData url = urlData @ bs \<and> url = concat (map expand bs) @ rest
    \<and> length (urlData @ bs) \<le> URL_MAX_LENGTH
    \<and> (length (urlData @ bs) < URL_MAX_LENGTH \<longrightarrow> rest = [])"
  using assms
proof (induction urlData url rule: url_body.induct)
  case (1 urlData url)
  show ?case
  proof (cases "url = [] \<or> URL_MAX_LENGTH \<le> length urlData")
    case True
    then show ?thesis using "1.prems"
      by (subst url_body.simps) (auto intro: exI [of _ "[]"])
  next
    case False
    have len: "length urlData < URL_MAX_LENGTH" using False by simp
    show ?thesis
    proof (cases "find_start URL_SUFFIXES 0 url")
      case None
      have all: "\<forall>b \<in> set (tl url). 14 \<le> unat b" using "1.prems"(1) by (meson list.set_sel(2) False)
      have "length (urlData @ [hd url]) \<le> URL_MAX_LENGTH" using len by simp
      from "1.IH"(1) [OF False None all this]
      obtain bs rest where IH: "url_body (urlData @ [hd url]) (tl url) = (urlData @ [hd url]) @ bs"
        "tl url = concat (map expand bs) @ rest"
        "length ((urlData @ [hd url]) @ bs) \<le> URL_MAX_LENGTH"
        "length ((urlData @ [hd url]) @ bs) < URL_MAX_LENGTH \<longrightarrow> rest = []"
        by blast
      have "expand (hd url) = [hd url]" using "1.prems"(1) False by (cases url) (auto simp: expand_def)
      then show ?thesis using IH False None
        by (subst url_body.simps) (auto intro!: exI [of _ "hd url # bs"] exI [of _ rest] simp: neq_Nil_conv)
    next
      case (Some p)
      obtain i rest0 where p: "p = (i, rest0)" by fastforce
      have f: "i < 14" "url = URL_SUFFIXES ! i @ rest0"
        using find_start_Some [of URL_SUFFIXES 0 url i rest0] Some p by auto
      have all: "\<forall>b \<in> set rest0. 14 \<le> unat b" using "1.prems"(1) f(2) by auto
      have "length (urlData @ [of_nat i]) \<le> URL_MAX_LENGTH" using len by simp
      from "1.IH"(2) [OF False Some p [symmetric] all this]
      obtain bs rest where IH: "url_body (urlData @ [of_nat i]) rest0 = (urlData @ [of_nat i]) @ bs"
        "rest0 = concat (map expand bs) @ rest"
        "length ((urlData @ [of_nat i :: u8]) @ bs) \<le> URL_MAX_LENGTH"
        "length ((urlData @ [of_nat i :: u8]) @ bs) < URL_MAX_LENGTH \<longrightarrow> rest = []"
        by blast
      then show ?thesis using False Some p f expand_index [OF f(1)]
        by (subst url_body.simps) (auto intro!: exI [of _ "of_nat i # bs"] exI [of _ rest])
    qed
  qed
qed

text \<open>
  The frame of a URL that starts with a scheme decodes to the URL itself or, when the 18 bytes
  are used up, to a prefix of it; the data never exceeds 18 bytes. The URL must not contain the
  14 control characters the protocol uses as abbreviations.
\<close>

theorem eddystone_url_roundtrip:
  assumes "\<exists>p \<in> set URL_PREFIXES. prefix p url" "\<forall>b \<in> set url. 14 \<le> unat b"
  shows "\<exists>d rest. getURL (Some url) txPower = (OK, [0xAA, 0xFE, 0x10, txPower] @ d)
    \<and> length d \<le> 18 \<and> url = decode_url d @ rest \<and> (length d < 18 \<longrightarrow> rest = [])"
proof -
  obtain i rest0 where f: "find_start URL_PREFIXES 0 url = Some (i, rest0)"
    using assms(1) find_start_None [of URL_PREFIXES 0 url] by fastforce
  have F: "i < 4" "url = URL_PREFIXES ! i @ rest0" using find_start_Some [OF f] by auto
  have "\<forall>b \<in> set rest0. 14 \<le> unat b" using assms(2) F(2) by auto
  from url_body_spec [OF this, of "[of_nat i]"] obtain bs rest where
    B: "url_body [of_nat i] rest0 = [of_nat i] @ bs" "rest0 = concat (map expand bs) @ rest"
      "length ([of_nat i :: u8] @ bs) \<le> 18"
      "length ([of_nat i :: u8] @ bs) < 18 \<longrightarrow> rest = []"
    by (auto simp: URL_MAX_LENGTH_def)
  have "url \<noteq> []" using assms(1) by (auto simp: URL_PREFIXES_def)
  moreover have "unat (of_nat i :: u8) = i"
    using F(1) by (simp add: unat_of_nat take_bit_nat_eq_self)
  ultimately show ?thesis using f F B
    by (intro exI [of _ "of_nat i # bs"] exI [of _ rest])
      (auto simp: getURL_def EDDYSTONE_UUID_def URL_FRAME_TYPE_def decode_url_def)
qed

lemma eddystone_url_roundtrip_witness:
  "\<exists>d rest. getURL (Some (map of_char ''https://www.microbit.org/new'')) 0xF0
      = (OK, [0xAA, 0xFE, 0x10, 0xF0] @ d)
    \<and> length d \<le> 18 \<and> map of_char ''https://www.microbit.org/new'' = decode_url d @ rest
    \<and> (length d < 18 \<longrightarrow> rest = [])"
proof (rule eddystone_url_roundtrip)
  show "\<exists>p \<in> set URL_PREFIXES. prefix p (map of_char ''https://www.microbit.org/new'')"
    by (simp add: URL_PREFIXES_def)
  show "\<forall>b \<in> set (map of_char ''https://www.microbit.org/new''). 14 \<le> unat (b :: u8)"
    by simp
qed

end
