(* ===== verification/Device.thy ===== *)
theory Device
  imports MB_Prelude "HOL-Library.Signed_Division"
begin

text \<open>
  \<open>source/MicroBitDevice.cpp\<close>: the friendly name of a device, the seed of the random number
  generator, and the panic display. The serial number, the bytes of the hardware generator and
  the font (codal-core) are arguments; what the panic routine does is the sequence of the row
  scans it drives, each the levels of the column pins and the time the row is on.
\<close>

subsection \<open>The friendly name\<close>

definition MICROBIT_NAME_LENGTH :: nat where "MICROBIT_NAME_LENGTH = 5"
definition MICROBIT_NAME_CODE_LETTERS :: u32 where "MICROBIT_NAME_CODE_LETTERS = 5"

definition codebook :: "string list" where
  "codebook = [''zvgpt'', ''uoiea'', ''zvgpt'', ''uoiea'', ''zvgpt'']"

text \<open>The loop; \<open>todo\<close> counts the letters that are left, \<open>i = MICROBIT_NAME_LENGTH - todo\<close>.\<close>

fun name_loop :: "nat \<Rightarrow> u32 \<Rightarrow> u32 \<Rightarrow> u32 \<Rightarrow> string \<Rightarrow> string" where
  "name_loop 0 n ld d name = name"
| "name_loop (Suc todo) n ld d name =
     (let i = MICROBIT_NAME_LENGTH - Suc todo;
          h = (n mod d) div ld
      in name_loop todo (n - h) (ld * MICROBIT_NAME_CODE_LETTERS) (d * MICROBIT_NAME_CODE_LETTERS)
           ((codebook ! i ! unat h) # name))"

definition microbit_friendly_name :: "u32 \<Rightarrow> string" where
  "microbit_friendly_name serial =
     name_loop MICROBIT_NAME_LENGTH serial 1 MICROBIT_NAME_CODE_LETTERS []"

text \<open>The specification: the letters are the digits of the serial number in base five.\<close>

definition name_digit :: "u32 \<Rightarrow> nat \<Rightarrow> nat" where
  "name_digit serial i = unat serial div 5 ^ i mod 5"

definition spelled :: "u32 \<Rightarrow> string" where
  "spelled serial = map (\<lambda>i. codebook ! i ! name_digit serial i) [4, 3, 2, 1, 0]"

text \<open>
  The code subtracts the digit from \<open>n\<close>, not the digit times its place value. That is harmless:
  the difference does not reach the places that are still to come.
\<close>

lemma digit_step:
  fixes n :: nat
  assumes "0 < ld"
  shows "(n mod (ld * 5)) div ld = n div ld mod 5"
    "(n - n div ld mod 5) div (ld * 5) = n div (ld * 5)"
proof -
  show h: "(n mod (ld * 5)) div ld = n div ld mod 5"
    using assms by (simp add: mod_mult2_eq)
  have "n div ld mod 5 \<le> n mod (ld * 5)"
    using h by (metis div_le_dividend)
  then have "(n - n div ld mod 5) = n div (ld * 5) * (ld * 5) + (n mod (ld * 5) - n div ld mod 5)"
    by (metis Nat.add_diff_assoc div_mult_mod_eq)
  moreover have "n mod (ld * 5) - n div ld mod 5 < ld * 5"
    using assms by (simp add: less_imp_diff_less)
  ultimately show "(n - n div ld mod 5) div (ld * 5) = n div (ld * 5)"
    using assms by simp
qed

text \<open>What the loops over the digits keep: the place values, and the digits that are still to come.\<close>

definition at_place :: "u32 \<Rightarrow> nat \<Rightarrow> u32 \<Rightarrow> u32 \<Rightarrow> u32 \<Rightarrow> bool" where
  "at_place serial i n ld d \<longleftrightarrow> unat ld = 5 ^ i \<and> unat d = 5 ^ Suc i
     \<and> unat n div 5 ^ i = unat serial div 5 ^ i"

lemma at_place_0 [simp]: "at_place serial 0 serial 1 5"
  by (simp add: at_place_def)

lemma place_step:
  assumes "at_place serial i n ld d" and "i < 5"
  shows "unat ((n mod d) div ld) = name_digit serial i"
    "at_place serial (Suc i) (n - (n mod d) div ld) (ld * 5) (d * 5)"
proof -
  let ?h = "(n mod d) div ld"
  have p: "unat ld = 5 ^ i" "unat d = 5 ^ Suc i" "unat n div 5 ^ i = unat serial div 5 ^ i"
    using assms(1) by (simp_all add: at_place_def)
  have h: "unat ?h = unat n div 5 ^ i mod 5"
    using p(1,2) digit_step(1) [of "5 ^ i" "unat n"] by (simp add: unat_mod unat_div mult.commute)
  then show "unat ?h = name_digit serial i"
    using p(3) by (simp add: name_digit_def)
  have le: "?h \<le> n"
    by (simp add: word_le_nat_alt unat_div unat_mod) (meson div_le_dividend mod_less_eq_dividend order_trans)
  have "unat (n - ?h) = unat n - unat n div 5 ^ i mod 5"
    using h unat_sub [OF le] by simp
  then have "unat (n - ?h) div 5 ^ Suc i = unat n div 5 ^ Suc i"
    using digit_step(2) [of "5 ^ i" "unat n"] by (simp add: mult.commute)
  also have "\<dots> = unat serial div 5 ^ Suc i"
    using p(3) unfolding power_Suc2 div_mult2_eq by simp
  finally have n: "unat (n - ?h) div 5 ^ Suc i = unat serial div 5 ^ Suc i" .
  have small: "(5 :: nat) ^ Suc (Suc i) \<le> 5 ^ 6"
    by (rule power_increasing) (use assms(2) in auto)
  have u: "unat (x * 5) = unat x * 5" if "unat x * 5 \<le> 5 ^ 6" for x :: u32
    using that by (simp add: unat_word_ariths)
  show "at_place serial (Suc i) (n - ?h) (ld * 5) (d * 5)"
    using n p small u [of ld] u [of d] by (simp add: at_place_def)
qed

lemma name_loop_spec:
  assumes "todo \<le> 5" and "at_place serial (5 - todo) n ld d"
  shows "name_loop todo n ld d name
    = map (\<lambda>i. codebook ! i ! name_digit serial i) (rev [5 - todo..<5]) @ name"
  using assms
proof (induction todo arbitrary: n ld d name)
  case (Suc todo)
  let ?i = "5 - Suc todo" and ?h = "(n mod d) div ld"
  have i: "?i < 5" "5 - todo = Suc ?i" using Suc.prems(1) by auto
  note step = place_step [OF Suc.prems(2) i(1)]
  have r: "rev [4 - todo..<5] = rev [Suc (4 - todo)..<5] @ [4 - todo]" by (simp add: upt_rec)
  show ?case
    using Suc.IH [of "n - ?h" "ld * 5" "d * 5" "(codebook ! ?i ! unat ?h) # name"] Suc.prems(1) step
    by (simp add: r i(2) Let_def MICROBIT_NAME_LENGTH_def MICROBIT_NAME_CODE_LETTERS_def)
qed simp

lemma friendly_name_spelled: "microbit_friendly_name serial = spelled serial"
proof -
  have r: "rev [0..<5] = [4, 3, 2, 1, 0 :: nat]" by code_simp
  show ?thesis
    unfolding microbit_friendly_name_def spelled_def MICROBIT_NAME_LENGTH_def
    using name_loop_spec [of 5 serial serial 1 5 "[]"]
    by (simp add: MICROBIT_NAME_CODE_LETTERS_def r del: name_loop.simps)
qed

lemma codebook_inj:
  "i < 5 \<Longrightarrow> a < 5 \<Longrightarrow> b < 5 \<Longrightarrow> codebook ! i ! a = codebook ! i ! b \<longleftrightarrow> a = b"
  by (auto simp: codebook_def less_Suc_eq eval_nat_numeral)

lemma name_digit_less [simp]: "name_digit serial i < 5"
  by (simp add: name_digit_def)

lemma digits_5: "(n :: nat) mod 3125 =
    n mod 5 + 5 * (n div 5 mod 5) + 25 * (n div 25 mod 5) + 125 * (n div 125 mod 5)
    + 625 * (n div 625 mod 5)"
  using mod_mult2_eq [of n 5 625] mod_mult2_eq [of "n div 5" 5 125]
    mod_mult2_eq [of "n div 25" 5 25] mod_mult2_eq [of "n div 125" 5 5]
  by (simp add: div_mult2_eq [symmetric])

lemma digit_of_mod:
  assumes "i < 5"
  shows "(n mod 3125) div 5 ^ i mod 5 = (n :: nat) div 5 ^ i mod 5"
proof -
  have "(3125 :: nat) = 5 ^ 5" by simp
  also have "\<dots> = 5 ^ i * 5 ^ (5 - i)" using assms by (simp flip: power_add)
  finally have "(n mod 3125) div 5 ^ i = n div 5 ^ i mod 5 ^ (5 - i)"
    by (simp only: mod_mult2_eq) simp
  moreover have "(5 :: nat) dvd 5 ^ (5 - i)" using assms by (simp add: dvd_power)
  ultimately show ?thesis by (simp add: mod_mod_cancel)
qed

text \<open>
  The friendly name spells the last five digits of the serial number in base five, consonants
  and vowels alternating: two devices have the same name exactly when their serial numbers agree
  modulo 3125.
\<close>

theorem friendly_name_correct:
  "microbit_friendly_name m = map (\<lambda>i. codebook ! i ! name_digit m i) [4, 3, 2, 1, 0]
    \<and> (microbit_friendly_name m = microbit_friendly_name n
        \<longleftrightarrow> unat m mod 3125 = unat n mod 3125)"
proof -
  have "spelled m = spelled n \<longleftrightarrow> (\<forall>i \<in> {0, 1, 2, 3, 4}. name_digit m i = name_digit n i)"
    by (auto simp: spelled_def codebook_inj)
  also have "\<dots> \<longleftrightarrow> unat m mod 3125 = unat n mod 3125"
  proof
    assume "\<forall>i \<in> {0, 1, 2, 3, 4}. name_digit m i = name_digit n i"
    then show "unat m mod 3125 = unat n mod 3125"
      unfolding digits_5 by (simp add: name_digit_def)
  next
    assume "unat m mod 3125 = unat n mod 3125"
    then have "name_digit m i = name_digit n i" if "i < 5" for i
      unfolding name_digit_def by (metis digit_of_mod [OF that])
    then show "\<forall>i \<in> {0, 1, 2, 3, 4}. name_digit m i = name_digit n i" by simp
  qed
  finally show ?thesis unfolding friendly_name_spelled by (simp add: spelled_def)
qed

subsection \<open>The seed\<close>

definition hw_seed :: "bool \<Rightarrow> u8 list \<Rightarrow> u32" where
  "hw_seed ble rng =
     (if ble then 0xBBC5EED
      else foldl (\<lambda>r b. push_bit 8 r OR ucast b) 0xBBC5EED (take 4 rng))"

subsection \<open>The panic display\<close>

definition panic_MSGLEN :: nat where "panic_MSGLEN = 4"
definition panic_MSG1STDIGIT :: nat where "panic_MSG1STDIGIT = 1"
definition panic_DIVMAX :: int where "panic_DIVMAX = 100"
definition panic_DIVBASE :: int where "panic_DIVBASE = 10"
definition panic_SCANS :: nat where "panic_SCANS = 48"
definition panic_CLEARSCANS :: nat where "panic_CLEARSCANS = 8"
definition panic_ROWDELAY :: nat where "panic_ROWDELAY = 40000"
definition panic_face :: "u8 list" where "panic_face = [0x1B, 0x1B, 0, 0x0E, 0x11]"
definition LEDMap_rowPins :: "nat list" where "LEDMap_rowPins = [21, 22, 15, 24, 19]"
definition LEDMap_columnPins :: "nat list" where "LEDMap_columnPins = [28, 11, 31, 37, 30]"

definition RCtoX :: "nat \<Rightarrow> nat \<Rightarrow> nat" where "RCtoX row col = col"
definition RCtoY :: "nat \<Rightarrow> nat \<Rightarrow> nat" where "RCtoY row col = row"

text \<open>The divisor of a digit and the character at a position of the message; 0 is the face.\<close>

definition panic_div :: "nat \<Rightarrow> int" where
  "panic_div msgIdx =
     ((\<lambda>x. x sdiv panic_DIVBASE) ^^ (msgIdx - panic_MSG1STDIGIT)) panic_DIVMAX"

definition panic_chr :: "int \<Rightarrow> nat \<Rightarrow> u8" where
  "panic_chr statusCode msgIdx =
     (if msgIdx \<ge> panic_MSG1STDIGIT
      then of_int (0x30 + (statusCode sdiv panic_div msgIdx) smod panic_DIVBASE) else 0)"

text \<open>
  One row of one scan: the levels written to the column pins (low lights the LED), the pin of the
  row, and the cycles for which it is on, of the \<open>panic_ROWDELAY\<close> cycles of the row.
\<close>

type_synonym row_scan = "(nat \<times> bool) list \<times> nat \<times> nat"

definition panic_row :: "u8 list \<Rightarrow> nat \<Rightarrow> nat \<Rightarrow> row_scan" where
  "panic_row fontBytes rowOnCycles row =
     (map (\<lambda>col. (LEDMap_columnPins ! col,
                  fontBytes ! RCtoY row col AND push_bit (5 - 1 - RCtoX row col) 1 = 0)) [0..<5],
      LEDMap_rowPins ! row, rowOnCycles)"

definition panic_on :: "nat \<Rightarrow> nat \<Rightarrow> nat" where
  "panic_on repeat scan =
     (if panic_SCANS - panic_CLEARSCANS \<le> scan then 0
      else if repeat \<ge> 5 then panic_ROWDELAY div 10 else panic_ROWDELAY)"

definition panic_message :: "(u8 \<Rightarrow> u8 list) \<Rightarrow> int \<Rightarrow> nat \<Rightarrow> row_scan list" where
  "panic_message font statusCode repeat =
     concat (map (\<lambda>msgIdx.
       let chr = panic_chr statusCode msgIdx;
           fontBytes = (if chr \<noteq> 0 then font chr else panic_face)
       in concat (map (\<lambda>scan. map (panic_row fontBytes (panic_on repeat scan)) [0..<5])
            [0..<panic_SCANS])) [0..<panic_MSGLEN])"

text \<open>
  What is shown before the reset, \<open>None\<close> when the message is repeated for ever; \<open>timeout\<close> is
  the static \<open>panic_timeout\<close>.
\<close>

definition microbit_panic :: "(u8 \<Rightarrow> u8 list) \<Rightarrow> int \<Rightarrow> int \<Rightarrow> row_scan list option" where
  "microbit_panic font timeout statusCode =
     (if timeout = 0 then None
      else Some (concat (map (panic_message font statusCode) [0..<nat timeout])))"

lemma sdiv_nonneg: "0 \<le> a \<Longrightarrow> 0 < b \<Longrightarrow> a sdiv b = a div (b :: int)"
  by (simp add: signed_divide_int_def sgn_if)

lemma smod_nonneg: "0 \<le> a \<Longrightarrow> 0 < b \<Longrightarrow> a smod b = a mod (b :: int)"
  by (simp add: signed_modulo_int_def sgn_if)

lemma panic_divs: "panic_div 1 = 100" "panic_div 2 = 10" "panic_div 3 = 1"
  by (simp_all add: panic_div_def panic_MSG1STDIGIT_def panic_DIVMAX_def panic_DIVBASE_def sdiv_nonneg
      eval_nat_numeral)

lemma panic_digits:
  assumes "0 \<le> statusCode" "statusCode \<le> 999"
  shows "map (panic_chr statusCode) [0, 1, 2, 3]
    = [0, of_int (0x30 + statusCode div 100), of_int (0x30 + statusCode div 10 mod 10),
       of_int (0x30 + statusCode mod 10)]"
  using assms
  by (simp add: panic_chr_def panic_divs [unfolded One_nat_def] panic_MSG1STDIGIT_def panic_DIVBASE_def
      sdiv_nonneg smod_nonneg zdiv_mono1 pos_imp_zdiv_nonneg_iff)

end
