(* ===== verification/Sound.thy ===== *)
theory Sound
  imports MB_Prelude
begin

text \<open>
  Sound expressions (\<open>source/SoundExpressions.cpp\<close>): a sound is the name of a built-in sound or a
  text of effects, each 72 decimal characters, separated by commas; \<open>playAsync\<close> turns it into the
  effect structures for the synthesizer. The random numbers (codal-core) are a parameter, a
  function on the state of the generator. The structures hold floats computed from the numbers of
  the text: the model keeps the numbers, \<open>OverMax v\<close> for \<open>v / 1023.0\<close> and \<open>Spread d n\<close> for the
  float \<open>(d / 10000) * n\<close> cut to an integer.
\<close>

datatype wave = SineTone | SawtoothTone | TriangleTone | SquareWaveTone | NoiseTone

datatype progression = majorScale | minorScale | diminished | chromatic | wholeTone

datatype effect_fun = noInterpolation | linearInterpolation | curveInterpolation
  | exponentialRisingInterpolation | exponentialFallingInterpolation | logarithmicInterpolation
  | appregrioAscending | appregrioDescending | volumeRampEffect | frequencyVibratoEffect
  | volumeVibratoEffect | warbleInterpolation

datatype parameter = Zero | Number int | OverMax int | Progression progression

datatype step_count = Steps int | Spread int int

record tone_effect =
  effect :: "effect_fun option"
  steps :: step_count
  parameter0 :: parameter

record sound_effect =
  tonePrint :: "wave option"
  frequency :: int
  volume :: parameter
  duration :: int
  effects :: "tone_effect list"

text \<open>A fresh \<open>ManagedBuffer\<close> is zero: null pointers and zero numbers.\<close>

definition no_effect :: tone_effect where
  "no_effect = \<lparr>effect = None, steps = Steps 0, parameter0 = Zero\<rparr>"

subsection \<open>Numbers\<close>

text \<open>The loop of \<open>parseDigits\<close> from position \<open>i\<close> on; \<open>left\<close> characters are to come.\<close>

definition place :: "nat \<Rightarrow> int" where
  "place powers = (if powers = 4 then 1000 else if powers = 3 then 100 else if powers = 2 then 10
     else if powers = 1 then 1 else 0)"

fun digits_loop :: "string \<Rightarrow> nat \<Rightarrow> nat \<Rightarrow> int \<Rightarrow> int" where
  "digits_loop input i 0 result = result"
| "digits_loop input i (Suc left) result =
     (let n = int (of_char (input ! i)) - 48
      in if n < 0 \<or> n > 9 then -1
         else digits_loop input (i + 1) left (result + place (Suc left) * n))"

definition parseDigits :: "string \<Rightarrow> nat \<Rightarrow> nat \<Rightarrow> int" where
  "parseDigits soundChars start digits = digits_loop soundChars start digits 0"

definition applyRandom :: "('g \<Rightarrow> int \<Rightarrow> int \<times> 'g) \<Rightarrow> int \<Rightarrow> int \<Rightarrow> 'g \<Rightarrow> int \<times> 'g" where
  "applyRandom rnd v rand g =
     (if v < 0 \<or> rand < 0 then (-1, g)
      else case rnd g (rand * 2 + 1) of (r, g') \<Rightarrow> (\<bar>v + (r - rand)\<bar>, g'))"

definition clamp_volume :: "int \<Rightarrow> int" where
  "clamp_volume v = (if v < 0 then 0 else if v > 1023 then 1023 else v)"

subsection \<open>One effect\<close>

definition wave_of :: "int \<Rightarrow> wave option" where
  "wave_of w = (if w = 0 then Some SineTone else if w = 1 then Some SawtoothTone
     else if w = 2 then Some TriangleTone else if w = 3 then Some SquareWaveTone
     else if w = 4 then Some NoiseTone else None)"

definition scale_of :: "int \<Rightarrow> progression option" where
  "scale_of shape =
     (if shape \<in> {8, 9} then Some majorScale else if shape \<in> {10, 11} then Some minorScale
      else if shape \<in> {12, 13} then Some diminished else if shape \<in> {14, 15} then Some chromatic
      else if shape \<in> {16, 17} then Some wholeTone else None)"

definition shape_effect :: "int \<Rightarrow> int \<Rightarrow> int \<Rightarrow> tone_effect" where
  "shape_effect shape nsteps endFrequency =
     (let e = no_effect\<lparr>steps := Steps nsteps\<rparr>;
          e1 = (if shape = 0 then e\<lparr>effect := Some noInterpolation\<rparr>
                else if shape = 1 then e\<lparr>effect := Some linearInterpolation, parameter0 := Number endFrequency\<rparr>
                else if shape = 2 then e\<lparr>effect := Some curveInterpolation, parameter0 := Number endFrequency\<rparr>
                else if shape = 5
                then e\<lparr>effect := Some exponentialRisingInterpolation, parameter0 := Number endFrequency\<rparr>
                else if shape = 6
                then e\<lparr>effect := Some exponentialFallingInterpolation, parameter0 := Number endFrequency\<rparr>
                else if shape \<in> {8, 10, 12, 14, 16} then e\<lparr>effect := Some appregrioAscending\<rparr>
                else if shape \<in> {9, 11, 13, 15, 17} then e\<lparr>effect := Some appregrioDescending\<rparr>
                else if shape = 18 then e\<lparr>effect := Some logarithmicInterpolation\<rparr>
                else e)
      in case scale_of shape of Some p \<Rightarrow> e1\<lparr>parameter0 := Progression p\<rparr> | None \<Rightarrow> e1)"

definition vibrato :: "int \<Rightarrow> int \<Rightarrow> int \<Rightarrow> int \<Rightarrow> tone_effect" where
  "vibrato fxChoice fxParam d n =
     (let f = (if fxChoice = 1 then Some frequencyVibratoEffect
               else if fxChoice = 2 then Some volumeVibratoEffect
               else if fxChoice = 3 then Some warbleInterpolation else None)
      in if f = None then no_effect
         else \<lparr>effect = f, steps = Spread d n, parameter0 = Number fxParam\<rparr>)"

text \<open>\<open>None\<close> for a text that is refused.\<close>

definition parseSoundExpression ::
    "('g \<Rightarrow> int \<Rightarrow> int \<times> 'g) \<Rightarrow> string \<Rightarrow> 'g \<Rightarrow> sound_effect option \<times> 'g" where
  "parseSoundExpression rnd cs g =
     (let wv = parseDigits cs 0 1; vol = parseDigits cs 1 4; freq = parseDigits cs 5 4;
          dur = parseDigits cs 9 4; shape = parseDigits cs 13 2; endFreq = parseDigits cs 18 4;
          endVol = parseDigits cs 26 4; nsteps = parseDigits cs 30 4; fxChoice = parseDigits cs 34 2;
          fxParam = parseDigits cs 36 4; fxnSteps = parseDigits cs 40 4;
          (freq', g1) = applyRandom rnd freq (parseDigits cs 44 4) g;
          (endFreq', g2) = applyRandom rnd endFreq (parseDigits cs 48 4) g1;
          (vol', g3) = applyRandom rnd vol (parseDigits cs 52 4) g2;
          (endVol', g4) = applyRandom rnd endVol (parseDigits cs 56 4) g3;
          (dur', g5) = applyRandom rnd dur (parseDigits cs 60 4) g4;
          (fxParam', g6) = applyRandom rnd fxParam (parseDigits cs 64 4) g5;
          (fxnSteps', g7) = applyRandom rnd fxnSteps (parseDigits cs 68 4) g6
      in if freq' = -1 \<or> endFreq' = -1 \<or> vol' = -1 \<or> endVol' = -1 \<or> dur' = -1 \<or> fxParam' = -1
            \<or> fxnSteps' = -1
         then (None, g7)
         else (Some \<lparr>tonePrint = wave_of wv, frequency = freq', volume = OverMax (clamp_volume vol'),
                 duration = dur',
                 effects = [shape_effect shape nsteps endFreq',
                   \<lparr>effect = Some volumeRampEffect, steps = Steps 36,
                    parameter0 = OverMax (clamp_volume endVol')\<rparr>,
                   vibrato fxChoice fxParam' dur' fxnSteps']\<rparr>, g7))"

subsection \<open>The whole sound\<close>

definition charsPerEffect :: nat where "charsPerEffect = 72"

definition effect_count :: "string \<Rightarrow> nat" where
  "effect_count sound = (length sound + 1) div (charsPerEffect + 1)"

text \<open>The unsigned length wraps for the empty text.\<close>

definition expected_length :: "nat \<Rightarrow> nat" where
  "expected_length count = (count * (charsPerEffect + 1) + 2 ^ 32 - 1) mod 2 ^ 32"

fun parse_effects ::
    "('g \<Rightarrow> int \<Rightarrow> int \<times> 'g) \<Rightarrow> string \<Rightarrow> nat \<Rightarrow> nat \<Rightarrow> 'g \<Rightarrow> sound_effect list option \<times> 'g" where
  "parse_effects rnd cs i 0 g = (Some [], g)"
| "parse_effects rnd cs i (Suc left) g =
     (let start = i * charsPerEffect + i in
      if start > 0 \<and> cs ! (start - 1) \<noteq> CHR '','' then (None, g)
      else case parseSoundExpression rnd (drop start cs) g of
          (None, g1) \<Rightarrow> (None, g1)
        | (Some fx, g1) \<Rightarrow>
            (case parse_effects rnd cs (i + 1) left g1 of
               (None, g2) \<Rightarrow> (None, g2) | (Some fxs, g2) \<Rightarrow> (Some (fx # fxs), g2)))"

definition parse_sound :: "('g \<Rightarrow> int \<Rightarrow> int \<times> 'g) \<Rightarrow> string \<Rightarrow> 'g \<Rightarrow> sound_effect list option \<times> 'g" where
  "parse_sound rnd sound g =
     (if length sound \<noteq> expected_length (effect_count sound) then (None, g)
      else parse_effects rnd sound 0 (effect_count sound) g)"

text \<open>The built-in sounds.\<close>

definition builtin_names :: "string list" where
  "builtin_names =
     [''giggle'', ''happy'', ''hello'', ''mysterious'',
      ''sad'', ''slide'', ''soaring'', ''spring'', ''twinkle'', ''yawn'']"

definition builtin_data :: "string list" where
  "builtin_data =
    [''010230988019008440044008881023001601003300240000000000000000000000000000,'' @
      ''110232570087411440044008880352005901003300010000000000000000010000000000,'' @
      ''310232729021105440288908880091006300000000240700020000000000003000000000,'' @
      ''310232729010205440288908880091006300000000240700020000000000003000000000,'' @
      ''310232729011405440288908880091006300000000240700020000000000003000000000'',
     ''010231992066911440044008880262002800001800020500000000000000010000000000,'' @
      ''002322129029508440240408880000000400022400110000000000000000007500000000,'' @
      ''000002129029509440240408880145000400022400110000000000000000007500000000'',
     ''310230673019702440118708881023012800000000240000000000000000000000000000,'' @
      ''300001064001602440098108880000012800000100040000000000000000000000000000,'' @
      ''310231064029302440098108881023012800000100040000000000000000000000000000'',
     ''400002390033100440240408880477000400022400110400000000000000008000000000,'' @
      ''405512845385000440044008880000012803010500160000000000000000085000500015'',
     ''310232226070801440162408881023012800000100240000000000000000000000000000,'' @
      ''310231623093602440093908880000012800000100240000000000000000000000000000'',
     ''105202325022302440240408881023012801020000110400000000000000010000000000,'' @
      ''010232520091002440044008881023012801022400110400000000000000010000000000'',
     ''210234009530905440599908881023002202000400020250000000000000020000000000,'' @
      ''402233727273014440044008880000003101024400030000000000000000000000000000'',
     ''306590037116312440058708880807003400000000240000000000000000050000000000,'' @
      ''010230037116313440058708881023003100000000240000000000000000050000000000'',
     ''010180007672209440075608880855012800000000240000000000000000000000000000'',
     ''200002281133202440150008881023012801024100240400030000000000010000000000,'' @
      ''005312520091002440044008880636012801022400110300000000000000010000000000,'' @
      ''008220784019008440044008880681001600005500240000000000000000005000000000,'' @
      ''004790784019008440044008880298001600000000240000000000000000005000000000,'' @
      ''003210784019008440044008880108001600003300080000000000000000005000000000'']"

definition lookupBuiltIn :: "string \<Rightarrow> string" where
  "lookupBuiltIn sound = (case map_of (zip builtin_names builtin_data) sound of Some cs \<Rightarrow> cs | None \<Rightarrow> sound)"

text \<open>The effects given to \<open>synth.play\<close>; \<open>None\<close>: nothing is played.\<close>

definition playAsync :: "('g \<Rightarrow> int \<Rightarrow> int \<times> 'g) \<Rightarrow> string \<Rightarrow> 'g \<Rightarrow> sound_effect list option \<times> 'g" where
  "playAsync rnd sound g = parse_sound rnd (lookupBuiltIn sound) g"

subsection \<open>Writing a sound as text\<close>

definition digits :: "nat \<Rightarrow> nat \<Rightarrow> string" where
  "digits k n = map (\<lambda>i. char_of (48 + n div 10 ^ (k - 1 - i) mod 10)) [0..<k]"

lemma length_digits [simp]: "length (digits k n) = k"
  by (simp add: digits_def)

lemma digits_nth: "i < k \<Longrightarrow> int (of_char (digits k n ! i)) - 48 = int (n div 10 ^ (k - 1 - i) mod 10)"
proof -
  assume i: "i < k"
  have "48 + n div 10 ^ (k - 1 - i) mod 10 < 256" by (rule less_le_trans [of _ "58"]) auto
  then show ?thesis using i by (simp add: digits_def)
qed

text \<open>The digits read so far give the number without its last \<open>left\<close> digits.\<close>

lemma digits_loop_spec:
  assumes "\<And>j. j < k \<Longrightarrow> cs ! (start + j) = digits k n ! j" "k \<le> 4"
  shows "left \<le> k \<Longrightarrow> digits_loop cs (start + (k - left)) left (int (n - n mod 10 ^ left)) = int n"
proof (induction left)
  case (Suc left)
  let ?j = "k - Suc left"
  have j: "?j < k" "k - left = Suc ?j" "k - 1 - ?j = left" using Suc.prems by auto
  have d: "int (of_char (cs ! (start + ?j))) - 48 = int (n div 10 ^ left mod 10)"
    using digits_nth [OF j(1), of n] assms(1) [OF j(1)] j(3) by simp
  have p: "place (Suc left) = 10 ^ left"
  proof -
    have "left < 4" using Suc.prems assms(2) by simp
    then show ?thesis by (auto simp: place_def less_Suc_eq eval_nat_numeral)
  qed
  have m: "n mod 10 ^ Suc left = 10 ^ left * (n div 10 ^ left mod 10) + n mod 10 ^ left"
    using mod_mult2_eq [of n "10 ^ left" 10] by (simp add: mult.commute)
  have "n mod 10 ^ Suc left \<le> n" by (rule mod_less_eq_dividend)
  then have step: "n - n mod 10 ^ left = n - n mod 10 ^ Suc left + 10 ^ left * (n div 10 ^ left mod 10)"
    unfolding m by linarith
  have E: "int (n - n mod 10 ^ Suc left) + 10 ^ left * int (n div 10 ^ left mod 10)
      = int (n - n mod 10 ^ left)"
    by (simp only: step of_nat_add of_nat_mult of_nat_power of_nat_numeral)
  have "digits_loop cs (start + ?j) (Suc left) (int (n - n mod 10 ^ Suc left))
    = digits_loop cs (start + ?j + 1) left
        (int (n - n mod 10 ^ Suc left) + 10 ^ left * int (n div 10 ^ left mod 10))"
  proof -
    have "\<not> 9 < m mod 10" for m :: nat by presburger
    then show ?thesis unfolding digits_loop.simps d p Let_def by simp
  qed
  also have "\<dots> = digits_loop cs (start + (k - left)) left (int (n - n mod 10 ^ left))"
    unfolding E j(2) by simp
  also have "\<dots> = int n" by (rule Suc.IH) (use Suc.prems in simp)
  finally show ?case .
qed simp

lemma parseDigits_digits:
  assumes "take k (drop start cs) = digits k n" "n < 10 ^ k" "k \<le> 4"
  shows "parseDigits cs start k = int n"
proof -
  have len: "start + k \<le> length cs \<or> k = 0"
    using arg_cong [OF assms(1), of length] by auto
  have "cs ! (start + j) = digits k n ! j" if "j < k" for j
    using that len by (simp flip: assms(1))
  from digits_loop_spec [OF this assms(3), of k] show ?thesis
    using assms(2) by (simp add: parseDigits_def)
qed

record expression =
  x_wave :: nat
  x_volume :: nat
  x_frequency :: nat
  x_duration :: nat
  x_shape :: nat
  x_endFrequency :: nat
  x_endVolume :: nat
  x_steps :: nat
  x_fx :: nat
  x_fxParam :: nat
  x_fxSteps :: nat
  r_frequency :: nat
  r_endFrequency :: nat
  r_volume :: nat
  r_endVolume :: nat
  r_duration :: nat
  r_fxParam :: nat
  r_fxSteps :: nat

definition fits_text :: "expression \<Rightarrow> bool" where
  "fits_text e \<longleftrightarrow> x_wave e < 10 \<and> x_shape e < 100 \<and> x_fx e < 100
     \<and> (\<forall>n \<in> {x_volume e, x_frequency e, x_duration e, x_endFrequency e, x_endVolume e, x_steps e,
          x_fxParam e, x_fxSteps e, r_frequency e, r_endFrequency e, r_volume e, r_endVolume e,
          r_duration e, r_fxParam e, r_fxSteps e}. n < 10000)"

text \<open>The text of an effect; the characters 15 to 17 and 22 to 25 have no meaning.\<close>

definition encode :: "expression \<Rightarrow> string" where
  "encode e =
     digits 1 (x_wave e) @ digits 4 (x_volume e) @ digits 4 (x_frequency e) @ digits 4 (x_duration e)
     @ digits 2 (x_shape e) @ digits 3 0 @ digits 4 (x_endFrequency e) @ digits 4 0
     @ digits 4 (x_endVolume e) @ digits 4 (x_steps e) @ digits 2 (x_fx e) @ digits 4 (x_fxParam e)
     @ digits 4 (x_fxSteps e) @ digits 4 (r_frequency e) @ digits 4 (r_endFrequency e)
     @ digits 4 (r_volume e) @ digits 4 (r_endVolume e) @ digits 4 (r_duration e)
     @ digits 4 (r_fxParam e) @ digits 4 (r_fxSteps e)"

fun sound_text :: "expression list \<Rightarrow> string" where
  "sound_text [] = []"
| "sound_text [e] = encode e"
| "sound_text (e # es) = encode e @ CHR '','' # sound_text es"

text \<open>A number that is off by at most the random range, without its sign.\<close>

definition near :: "nat \<Rightarrow> nat \<Rightarrow> int \<Rightarrow> bool" where
  "near r v x \<longleftrightarrow> (\<exists>d. - int r \<le> d \<and> d \<le> int r \<and> x = \<bar>int v + d\<bar>)"

text \<open>
  What the digits of a text stand for, by the comments of the parser: the waves, the shapes, each with the parameter
  it needs, and the vibratos.
\<close>

definition wave_table :: "(nat \<times> wave) list" where
  "wave_table = [(0, SineTone), (1, SawtoothTone), (2, TriangleTone), (3, SquareWaveTone), (4, NoiseTone)]"

definition shape_table :: "int \<Rightarrow> (nat \<times> effect_fun \<times> parameter) list" where
  "shape_table endF =
    [(0, noInterpolation, Zero), (1, linearInterpolation, Number endF), (2, curveInterpolation, Number endF),
     (5, exponentialRisingInterpolation, Number endF), (6, exponentialFallingInterpolation, Number endF),
     (8, appregrioAscending, Progression majorScale), (9, appregrioDescending, Progression majorScale),
     (10, appregrioAscending, Progression minorScale), (11, appregrioDescending, Progression minorScale),
     (12, appregrioAscending, Progression diminished), (13, appregrioDescending, Progression diminished),
     (14, appregrioAscending, Progression chromatic), (15, appregrioDescending, Progression chromatic),
     (16, appregrioAscending, Progression wholeTone), (17, appregrioDescending, Progression wholeTone),
     (18, logarithmicInterpolation, Zero)]"

definition vibrato_table :: "(nat \<times> effect_fun) list" where
  "vibrato_table = [(1, frequencyVibratoEffect), (2, volumeVibratoEffect), (3, warbleInterpolation)]"

text \<open>Volumes are cut to 1023; a number that is in no table leaves the zeros of the fresh buffer.\<close>

definition renders :: "expression \<Rightarrow> sound_effect \<Rightarrow> bool" where
  "renders e fx \<longleftrightarrow>
     (\<exists>endF v endV p n. near (r_endFrequency e) (x_endFrequency e) endF \<and> near (r_volume e) (x_volume e) v
        \<and> near (r_endVolume e) (x_endVolume e) endV \<and> near (r_fxParam e) (x_fxParam e) p
        \<and> near (r_fxSteps e) (x_fxSteps e) n
        \<and> tonePrint fx = map_of wave_table (x_wave e)
        \<and> near (r_frequency e) (x_frequency e) (frequency fx)
        \<and> near (r_duration e) (x_duration e) (duration fx)
        \<and> volume fx = OverMax (min v 1023)
        \<and> effects fx =
            [case map_of (shape_table endF) (x_shape e) of
               Some (f, q) \<Rightarrow> \<lparr>effect = Some f, steps = Steps (int (x_steps e)), parameter0 = q\<rparr>
             | None \<Rightarrow> \<lparr>effect = None, steps = Steps (int (x_steps e)), parameter0 = Zero\<rparr>,
             \<lparr>effect = Some volumeRampEffect, steps = Steps 36, parameter0 = OverMax (min endV 1023)\<rparr>,
             case map_of vibrato_table (x_fx e) of
               Some f \<Rightarrow> \<lparr>effect = Some f, steps = Spread (duration fx) n, parameter0 = Number p\<rparr>
             | None \<Rightarrow> \<lparr>effect = None, steps = Steps 0, parameter0 = Zero\<rparr>])"

lemma wave_by_table: "wave_of (int k) = map_of wave_table k"
  by (simp add: wave_of_def wave_table_def)

lemma shape_by_table:
  "shape_effect (int k) s endF = (case map_of (shape_table endF) k of
     Some (f, q) \<Rightarrow> \<lparr>effect = Some f, steps = Steps s, parameter0 = q\<rparr>
   | None \<Rightarrow> \<lparr>effect = None, steps = Steps s, parameter0 = Zero\<rparr>)"
proof (cases "k < 19")
  case True
  then have "k \<in> {0, 1, 2, 3, 4, 5, 6, 7, 8, 9, 10, 11, 12, 13, 14, 15, 16, 17, 18}" unfolding insert_iff empty_iff by presburger
  then show ?thesis
    unfolding insert_iff empty_iff
    by (elim disjE; simp add: shape_effect_def shape_table_def scale_of_def no_effect_def)
qed (simp add: shape_effect_def shape_table_def scale_of_def no_effect_def)

lemma vibrato_by_table:
  "vibrato (int k) p d n = (case map_of vibrato_table k of
     Some f \<Rightarrow> \<lparr>effect = Some f, steps = Spread d n, parameter0 = Number p\<rparr>
   | None \<Rightarrow> \<lparr>effect = None, steps = Steps 0, parameter0 = Zero\<rparr>)"
  by (simp add: vibrato_def vibrato_table_def no_effect_def)

lemma near_clamped: "near r v x \<Longrightarrow> clamp_volume x = min x 1023"
  by (auto simp: near_def clamp_volume_def)

lemmas by_tables = wave_by_table shape_by_table vibrato_by_table

definition random_ok :: "('g \<Rightarrow> int \<Rightarrow> int \<times> 'g) \<Rightarrow> bool" where
  "random_ok rnd \<longleftrightarrow> (\<forall>g m. 0 < m \<longrightarrow> 0 \<le> fst (rnd g m) \<and> fst (rnd g m) < m)"

lemma applyRandom_near:
  assumes "random_ok rnd" "applyRandom rnd (int v) (int r) g = (x, g')"
  shows "near r v x" "x \<noteq> -1"
proof -
  obtain q where q: "rnd g (int r * 2 + 1) = (q, g')" "x = \<bar>int v + (q - int r)\<bar>"
    using assms(2) by (auto simp: applyRandom_def split: prod.splits)
  have "0 \<le> q \<and> q < int r * 2 + 1" using assms(1) q(1) unfolding random_ok_def
    by (metis fst_conv add_pos_nonneg add.commute mult_nonneg_nonneg of_nat_0_le_iff zero_le_numeral zero_less_one)
  then show "near r v x" "x \<noteq> -1"
    using q(2) by (auto simp: near_def intro!: exI [of _ "q - int r"])
qed

lemma length_encode [simp]: "length (encode e) = 72"
  by (simp add: encode_def)

lemma parse_encode:
  assumes v: "fits_text e" and R: "random_ok rnd"
  shows "\<exists>fx g'. parseSoundExpression rnd (encode e @ rest) g = (Some fx, g') \<and> renders e fx"
proof -
  let ?cs = "encode e @ rest"
  have P: "parseDigits ?cs 0 1 = int (x_wave e)" "parseDigits ?cs 1 4 = int (x_volume e)"
    "parseDigits ?cs 5 4 = int (x_frequency e)" "parseDigits ?cs 9 4 = int (x_duration e)"
    "parseDigits ?cs 13 2 = int (x_shape e)" "parseDigits ?cs 18 4 = int (x_endFrequency e)"
    "parseDigits ?cs 26 4 = int (x_endVolume e)" "parseDigits ?cs 30 4 = int (x_steps e)"
    "parseDigits ?cs 34 2 = int (x_fx e)" "parseDigits ?cs 36 4 = int (x_fxParam e)"
    "parseDigits ?cs 40 4 = int (x_fxSteps e)" "parseDigits ?cs 44 4 = int (r_frequency e)"
    "parseDigits ?cs 48 4 = int (r_endFrequency e)" "parseDigits ?cs 52 4 = int (r_volume e)"
    "parseDigits ?cs 56 4 = int (r_endVolume e)" "parseDigits ?cs 60 4 = int (r_duration e)"
    "parseDigits ?cs 64 4 = int (r_fxParam e)" "parseDigits ?cs 68 4 = int (r_fxSteps e)"
    by (rule parseDigits_digits; insert v; simp add: fits_text_def encode_def)+
  obtain f1 g1 where 1: "applyRandom rnd (int (x_frequency e)) (int (r_frequency e)) g = (f1, g1)" by fastforce
  obtain f2 g2 where 2: "applyRandom rnd (int (x_endFrequency e)) (int (r_endFrequency e)) g1 = (f2, g2)" by fastforce
  obtain f3 g3 where 3: "applyRandom rnd (int (x_volume e)) (int (r_volume e)) g2 = (f3, g3)" by fastforce
  obtain f4 g4 where 4: "applyRandom rnd (int (x_endVolume e)) (int (r_endVolume e)) g3 = (f4, g4)" by fastforce
  obtain f5 g5 where 5: "applyRandom rnd (int (x_duration e)) (int (r_duration e)) g4 = (f5, g5)" by fastforce
  obtain f6 g6 where 6: "applyRandom rnd (int (x_fxParam e)) (int (r_fxParam e)) g5 = (f6, g6)" by fastforce
  obtain f7 g7 where 7: "applyRandom rnd (int (x_fxSteps e)) (int (r_fxSteps e)) g6 = (f7, g7)" by fastforce
  note N = applyRandom_near [OF R 1] applyRandom_near [OF R 2] applyRandom_near [OF R 3]
    applyRandom_near [OF R 4] applyRandom_near [OF R 5] applyRandom_near [OF R 6] applyRandom_near [OF R 7]
  define fx where "fx = \<lparr>tonePrint = wave_of (int (x_wave e)), frequency = f1,
    volume = OverMax (clamp_volume f3), duration = f5,
    effects = [shape_effect (int (x_shape e)) (int (x_steps e)) f2,
      \<lparr>effect = Some volumeRampEffect, steps = Steps 36, parameter0 = OverMax (clamp_volume f4)\<rparr>,
      vibrato (int (x_fx e)) f6 f5 f7]\<rparr>"
  have "renders e fx" unfolding renders_def fx_def
    by (intro exI [of _ f2] exI [of _ f3] exI [of _ f4] exI [of _ f6] exI [of _ f7])
      (simp only: sound_effect.simps N near_clamped [OF N(5)] near_clamped [OF N(7)] by_tables simp_thms)
  moreover have "parseSoundExpression rnd ?cs g = (Some fx, g7)"
    unfolding parseSoundExpression_def P 1 2 3 4 5 6 7 Let_def prod.case fx_def using N by simp
  ultimately show ?thesis by blast
qed

lemma sound_text_Cons:
  "es \<noteq> [] \<Longrightarrow> sound_text (e # es) = encode e @ CHR '','' # sound_text es"
  by (cases es) auto

lemma length_sound_text: "es \<noteq> [] \<Longrightarrow> length (sound_text es) + 1 = 73 * length es"
proof (induction es)
  case (Cons e es)
  then show ?case by (cases "es = []") (simp_all add: sound_text_Cons)
qed simp

lemma parse_effects_spec:
  assumes R: "random_ok rnd"
  shows "es \<noteq> [] \<Longrightarrow> \<forall>e \<in> set es. fits_text e \<Longrightarrow> drop (i * 73) cs = sound_text es \<Longrightarrow>
    (i > 0 \<longrightarrow> cs ! (i * 73 - 1) = CHR '','') \<Longrightarrow>
    \<exists>fxs g'. parse_effects rnd cs i (length es) g = (Some fxs, g') \<and> list_all2 renders es fxs"
proof (induction es arbitrary: i g)
  case (Cons e es)
  have start: "i * charsPerEffect + i = i * 73" by (simp add: charsPerEffect_def)
  obtain rest where rest: "sound_text (e # es) = encode e @ rest"
    by (cases "es = []") (simp_all add: sound_text_Cons)
  obtain fx g1 where p: "parseSoundExpression rnd (drop (i * 73) cs) g = (Some fx, g1)" "renders e fx"
    using parse_encode [OF _ R, of e rest g] Cons.prems(2,3) rest by auto
  have sep: "\<not> (i * 73 > 0 \<and> cs ! (i * 73 - 1) \<noteq> CHR '','')" using Cons.prems(4) by auto
  show ?case
  proof (cases "es = []")
    case True
    then show ?thesis using p sep by (simp add: start Let_def)
  next
    case False
    have d: "drop (i * 73) cs = encode e @ CHR '','' # sound_text es"
      using Cons.prems(3) sound_text_Cons [OF False] by simp
    have "drop (Suc i * 73) cs = drop 73 (drop (i * 73) cs)" by (simp add: add.commute)
    also have "\<dots> = sound_text es" unfolding d by simp
    finally have d1: "drop (Suc i * 73) cs = sound_text es" .
    have "cs ! (i * 73 + 72) = drop (i * 73) cs ! 72"
      using arg_cong [OF d, of length] by simp
    also have "\<dots> = CHR '',''" unfolding d by (simp add: nth_append)
    finally have "cs ! (Suc i * 73 - 1) = CHR '',''" by (simp add: add.commute)
    then obtain fxs g' where "parse_effects rnd cs (Suc i) (length es) g1 = (Some fxs, g')"
      "list_all2 renders es fxs"
      using Cons.IH [OF False _ d1, of g1] Cons.prems(2) by auto
    then show ?thesis using p sep by (simp add: start Let_def)
  qed
qed simp

text \<open>
  C27 A text made of effects plays exactly those effects, in order: the wave, the shape with its scale or end
  frequency, the steps and the vibrato are those the tables of the format give for the digits written, every number
  with a random range is within that range of the one written (without its sign), and the volumes are cut to 1023.
  A digit that is in no table, like the waves 5 to 9, leaves a null pointer (see the findings).
\<close>

theorem sound_text_plays:
  assumes R: "random_ok rnd" and es: "es \<noteq> []" "\<forall>e \<in> set es. fits_text e"
    and short: "length (sound_text es) < 2 ^ 32"
  shows "\<exists>fxs g'. playAsync rnd (sound_text es) g = (Some fxs, g') \<and> list_all2 renders es fxs"
proof -
  have long: "72 \<le> length (sound_text es)"
    using length_sound_text [OF es(1)] es(1) by (cases es) auto
  have "\<forall>s \<in> set builtin_names. length s < 72" by (simp add: builtin_names_def)
  then have "sound_text es \<notin> set builtin_names" using long by auto
  then have "map_of (zip builtin_names builtin_data) (sound_text es) = None"
    by (auto simp: map_of_eq_None_iff dest: set_zip_leftD)
  then have l: "lookupBuiltIn (sound_text es) = sound_text es" by (simp add: lookupBuiltIn_def)
  have n: "effect_count (sound_text es) = length es"
    using length_sound_text [OF es(1)] by (simp add: effect_count_def charsPerEffect_def)
  have "length es * 73 + 2 ^ 32 - 1 = length (sound_text es) + 2 ^ 32"
    using length_sound_text [OF es(1)] by simp
  then have "expected_length (length es) = length (sound_text es)"
    using short by (simp add: expected_length_def charsPerEffect_def)
  then show ?thesis
    using parse_effects_spec [OF R es, of 0 "sound_text es" g]
    by (simp add: playAsync_def l parse_sound_def n)
qed

definition demo_effect :: expression where
  "demo_effect =
     \<lparr>x_wave = 3, x_volume = 1023, x_frequency = 440, x_duration = 500, x_shape = 1, x_endFrequency = 880,
      x_endVolume = 0, x_steps = 128, x_fx = 2, x_fxParam = 5, x_fxSteps = 24, r_frequency = 10,
      r_endFrequency = 0, r_volume = 0, r_endVolume = 0, r_duration = 20, r_fxParam = 0, r_fxSteps = 0\<rparr>"

lemma sound_text_plays_witness:
  "\<exists>fxs g'. playAsync (\<lambda>g m. (g mod m, g + 1)) (sound_text [demo_effect, demo_effect]) (7 :: int)
      = (Some fxs, g') \<and> list_all2 renders [demo_effect, demo_effect] fxs"
proof (rule sound_text_plays)
  show "random_ok (\<lambda>g m. (g mod m, g + 1 :: int))" by (simp add: random_ok_def)
  show "[demo_effect, demo_effect] \<noteq> []" by simp
  show "\<forall>e \<in> set [demo_effect, demo_effect]. fits_text e"
    by (simp add: fits_text_def demo_effect_def)
  show "length (sound_text [demo_effect, demo_effect]) < 2 ^ 32" by simp
qed

subsection \<open>The built-in sounds\<close>

text \<open>The numbers whose absence makes the parser refuse an effect.\<close>

definition needed :: "(nat \<times> nat) list" where
  "needed = [(1, 4), (5, 4), (9, 4), (18, 4), (26, 4), (36, 4), (40, 4), (44, 4), (48, 4), (52, 4),
     (56, 4), (60, 4), (64, 4), (68, 4)]"

definition well_formed :: "string \<Rightarrow> bool" where
  "well_formed cs \<longleftrightarrow> list_all (\<lambda>(a, k). 0 \<le> parseDigits cs a k) needed"

lemma applyRandom_some: "0 \<le> v \<Longrightarrow> 0 \<le> r \<Longrightarrow> fst (applyRandom rnd v r g) \<noteq> -1"
  by (auto simp: applyRandom_def split: prod.splits)

lemma applyRandom_none: "v < 0 \<or> r < 0 \<Longrightarrow> applyRandom rnd v r g = (-1, g)"
  by (auto simp: applyRandom_def)

lemma parse_well_formed:
  "fst (parseSoundExpression rnd cs g) \<noteq> None \<longleftrightarrow> well_formed cs"
proof -
  have A: "fst (applyRandom rnd v r g) = -1 \<longleftrightarrow> v < 0 \<or> r < 0" for v r g
    using applyRandom_some [of v r rnd g] applyRandom_none [of v r rnd g] by force
  show ?thesis
    by (auto simp: parseSoundExpression_def well_formed_def needed_def Let_def A [symmetric] not_le
        split: prod.splits) (auto simp: A not_le dest!: arg_cong [of _ _ fst])
qed

end
