(* ===== verification/BLE.thy ===== *)
theory BLE
  imports MB_Prelude
begin

text \<open>
  The frame of the Bluetooth services: \<open>MicroBitBLEChar\<close> (one characteristic with its handles and
  the client's subscription), \<open>MicroBitBLEService\<close> (creation, dispatch of events to the virtual
  methods of a service) and \<open>MicroBitBLEServices\<close> (the table of services). The SoftDevice and the
  SDK are the record \<open>softdevice\<close> over a state of any type; a service is a record that extends
  \<open>gatt\<close>, its virtual methods are a record \<open>handlers\<close>.
\<close>

subsection \<open>Characteristics\<close>

datatype hvx_type = Notification | Indication

text \<open>The bits of a client characteristic configuration descriptor.\<close>

definition HVX_NOTIFICATION :: u16 where "HVX_NOTIFICATION = 1"
definition HVX_INDICATION :: u16 where "HVX_INDICATION = 2"

record chr =
  h_value :: u16
  h_desc :: u16
  h_cccd :: u16
  h_sccd :: u16
  cccd :: u16

record char_params =
  cp_uuid :: u16
  cp_uuid_type :: nat
  cp_max_len :: nat
  cp_init_len :: nat
  cp_init_value :: "u8 list"
  cp_var_len :: bool
  cp_read :: bool
  cp_write_wo_resp :: bool
  cp_write :: bool
  cp_notify :: bool
  cp_indicate :: bool
  cp_auth_signed_wr :: bool
  cp_broadcast :: bool
  cp_defered_read :: bool
  cp_defered_write :: bool
  cp_read_access :: nat
  cp_write_access :: nat
  cp_cccd_write_access :: nat
  cp_value_user :: bool

text \<open>What a service answers to an authorised read.\<close>

record read_params =
  rd_allow :: bool
  rd_update :: bool
  rd_offset :: u16
  rd_data :: "u8 list"

text \<open>
  \<open>hvx\<close> sends a notification or an indication; it returns whether it succeeded and the length it
  leaves behind its \<open>p_len\<close> argument. \<open>add_char\<close> returns the four handles.
\<close>

record 'w softdevice =
  CONN_HANDLE_INVALID :: u16
  value_set :: "u16 \<Rightarrow> u16 \<Rightarrow> u8 list \<Rightarrow> 'w \<Rightarrow> bool \<times> 'w"
  hvx :: "hvx_type \<Rightarrow> u16 \<Rightarrow> u16 \<Rightarrow> u8 list \<Rightarrow> 'w \<Rightarrow> (bool \<times> nat) \<times> 'w"
  periph_handles :: "'w \<Rightarrow> u16 list"
  periph_conn_count :: "'w \<Rightarrow> nat"
  authorize_reply :: "u16 \<Rightarrow> read_params \<Rightarrow> 'w \<Rightarrow> 'w"
  uuid_vs_add :: "u8 list \<Rightarrow> 'w \<Rightarrow> nat \<times> 'w"
  service_add :: "u16 \<Rightarrow> nat \<Rightarrow> 'w \<Rightarrow> u16 \<times> 'w"
  add_char :: "u16 \<Rightarrow> char_params \<Rightarrow> 'w \<Rightarrow> (u16 \<times> u16 \<times> u16 \<times> u16) \<times> 'w"

definition chr_new :: chr where
  "chr_new = \<lparr>h_value = 0, h_desc = 0, h_cccd = 0, h_sccd = 0, cccd = 0\<rparr>"

definition cccdNotify :: "chr \<Rightarrow> bool" where
  "cccdNotify c \<longleftrightarrow> cccd c AND HVX_NOTIFICATION \<noteq> 0"

definition cccdIndicate :: "chr \<Rightarrow> bool" where
  "cccdIndicate c \<longleftrightarrow> cccd c AND HVX_INDICATION \<noteq> 0"

definition setCCCD :: "u16 \<Rightarrow> chr \<Rightarrow> chr" where
  "setCCCD v c = c\<lparr>cccd := v\<rparr>"

definition setChrValue :: "'w softdevice \<Rightarrow> u16 \<Rightarrow> u8 list \<Rightarrow> chr \<Rightarrow> 'w \<Rightarrow> bool \<times> 'w" where
  "setChrValue D connection data c w = value_set D connection (h_value c) data w"

text \<open>
  \<open>p_len\<close> points to the parameter \<open>length\<close> itself, so that after the call both sides of the
  comparison that follows are the length the SoftDevice left.
\<close>

definition notifyChrValue :: "'w softdevice \<Rightarrow> u16 \<Rightarrow> u8 list \<Rightarrow> chr \<Rightarrow> 'w \<Rightarrow> bool \<times> 'w" where
  "notifyChrValue D connection data c w =
     (if connection = CONN_HANDLE_INVALID D then (False, w)
      else if cccdNotify c then
        case hvx D Notification connection (h_value c) data w of ((ok, p_len), w1) \<Rightarrow>
          if ok then (True, w1)
          else let len = p_len; done = (p_len = len)
               in (False, if \<not> done then snd (setChrValue D connection (take len data) c w1) else w1)
      else (False, snd (setChrValue D connection data c w)))"

definition indicateChrValue :: "'w softdevice \<Rightarrow> u16 \<Rightarrow> u8 list \<Rightarrow> chr \<Rightarrow> 'w \<Rightarrow> bool \<times> 'w" where
  "indicateChrValue D connection data c w =
     (if connection = CONN_HANDLE_INVALID D then (False, w)
      else if cccdIndicate c then
        case hvx D Indication connection (h_value c) data w of ((ok, p_len), w1) \<Rightarrow>
          if ok then (True, w1)
          else let len = p_len; done = (p_len \<noteq> len)
               in (False, if \<not> done then snd (setChrValue D connection (take len data) c w1) else w1)
      else (False, snd (setChrValue D connection data c w)))"

definition writeChrValue :: "'w softdevice \<Rightarrow> u16 \<Rightarrow> u8 list \<Rightarrow> chr \<Rightarrow> 'w \<Rightarrow> bool \<times> 'w" where
  "writeChrValue D connection data c w =
     (if connection = CONN_HANDLE_INVALID D then (False, w)
      else if cccdNotify c \<or> cccdIndicate c then
        let (ok1, w1) = (if cccdNotify c then notifyChrValue D connection data c w else (True, w));
            (ok2, w2) = (if cccdIndicate c then indicateChrValue D connection data c w1 else (True, w1))
        in (ok1 \<and> ok2, w2)
      else setChrValue D connection data c w)"

subsection \<open>A service\<close>

record gatt =
  uuid_type :: nat
  service_handle :: u16
  chars :: "chr list"

definition propREAD :: nat where "propREAD = 1"
definition propWRITE_WITHOUT :: nat where "propWRITE_WITHOUT = 2"
definition propWRITE :: nat where "propWRITE = 4"
definition propNOTIFY :: nat where "propNOTIFY = 8"
definition propINDICATE :: nat where "propINDICATE = 16"
definition propSIGNED_WRITES :: nat where "propSIGNED_WRITES = 32"
definition propBROADCAST :: nat where "propBROADCAST = 64"
definition propREADAUTH :: nat where "propREADAUTH = 0x100"
definition propWRITEAUTH :: nat where "propWRITEAUTH = 0x200"

definition bs_base_uuid :: "u8 list" where
  "bs_base_uuid = [0xe9, 0x5d, 0x00, 0x00, 0x25, 0x1d, 0x47, 0x0a,
                   0xa0, 0x62, 0xfa, 0x19, 0x22, 0xdf, 0xa9, 0xa8]"

definition RegisterBaseUUID :: "'w softdevice \<Rightarrow> u8 list \<Rightarrow> 'a gatt_scheme \<Rightarrow> 'w \<Rightarrow> 'a gatt_scheme \<times> 'w"
  where
  "RegisterBaseUUID D bytes16UUID s w =
     (case uuid_vs_add D (map (\<lambda>i. bytes16UUID ! (15 - i)) [0..<16]) w of
        (ty, w1) \<Rightarrow> (s\<lparr>uuid_type := ty\<rparr>, w1))"

definition CreateService :: "'w softdevice \<Rightarrow> u16 \<Rightarrow> 'a gatt_scheme \<Rightarrow> 'w \<Rightarrow> 'a gatt_scheme \<times> 'w" where
  "CreateService D uuid s w =
     (case service_add D uuid (uuid_type s) w of (h, w1) \<Rightarrow> (s\<lparr>service_handle := h\<rparr>, w1))"

definition char_params_of :: "nat \<Rightarrow> nat \<Rightarrow> u16 \<Rightarrow> u8 list \<Rightarrow> nat \<Rightarrow> nat \<Rightarrow> nat \<Rightarrow> char_params" where
  "char_params_of security uty uuid value init_len max_len props =
     \<lparr>cp_uuid = uuid, cp_uuid_type = uty, cp_max_len = max_len, cp_init_len = init_len,
      cp_init_value = value, cp_var_len = (max_len \<noteq> init_len),
      cp_read = (props AND propREAD \<noteq> 0),
      cp_write_wo_resp = (props AND propWRITE_WITHOUT \<noteq> 0),
      cp_write = (props AND propWRITE \<noteq> 0),
      cp_notify = (props AND propNOTIFY \<noteq> 0),
      cp_indicate = (props AND propINDICATE \<noteq> 0),
      cp_auth_signed_wr = (props AND propSIGNED_WRITES \<noteq> 0),
      cp_broadcast = (props AND propBROADCAST \<noteq> 0),
      cp_defered_read = (props AND propREADAUTH \<noteq> 0),
      cp_defered_write = (props AND propWRITEAUTH \<noteq> 0),
      cp_read_access = security, cp_write_access = security, cp_cccd_write_access = security,
      cp_value_user = True\<rparr>"

definition CreateCharacteristic ::
    "'w softdevice \<Rightarrow> nat \<Rightarrow> nat \<Rightarrow> u16 \<Rightarrow> u8 list \<Rightarrow> nat \<Rightarrow> nat \<Rightarrow> nat \<Rightarrow> 'a gatt_scheme \<Rightarrow> 'w
     \<Rightarrow> 'a gatt_scheme \<times> 'w" where
  "CreateCharacteristic D security idx uuid value init_len max_len props s w =
     (case add_char D (service_handle s)
             (char_params_of security (uuid_type s) uuid value init_len max_len props) w of
        ((v, d, c, sc), w1) \<Rightarrow>
          (s\<lparr>chars := (chars s)[idx := (chars s ! idx)
              \<lparr>h_value := v, h_desc := d, h_cccd := c, h_sccd := sc\<rparr>]\<rparr>, w1))"

definition getConnectionHandle :: "'w softdevice \<Rightarrow> 'w \<Rightarrow> u16" where
  "getConnectionHandle D w =
     (case periph_handles D w of [] \<Rightarrow> CONN_HANDLE_INVALID D | h # _ \<Rightarrow> h)"

definition getConnected :: "'w softdevice \<Rightarrow> 'w \<Rightarrow> bool" where
  "getConnected D w \<longleftrightarrow> 0 < periph_conn_count D w"

definition set_value :: "'w softdevice \<Rightarrow> nat \<Rightarrow> u8 list \<Rightarrow> 'a gatt_scheme \<Rightarrow> 'w \<Rightarrow> bool \<times> 'w" where
  "set_value D idx data s w = setChrValue D (getConnectionHandle D w) data (chars s ! idx) w"

definition notify_value :: "'w softdevice \<Rightarrow> nat \<Rightarrow> u8 list \<Rightarrow> 'a gatt_scheme \<Rightarrow> 'w \<Rightarrow> bool \<times> 'w" where
  "notify_value D idx data s w = notifyChrValue D (getConnectionHandle D w) data (chars s ! idx) w"

definition indicate_value :: "'w softdevice \<Rightarrow> nat \<Rightarrow> u8 list \<Rightarrow> 'a gatt_scheme \<Rightarrow> 'w \<Rightarrow> bool \<times> 'w" where
  "indicate_value D idx data s w = indicateChrValue D (getConnectionHandle D w) data (chars s ! idx) w"

definition write_value :: "'w softdevice \<Rightarrow> nat \<Rightarrow> u8 list \<Rightarrow> 'a gatt_scheme \<Rightarrow> 'w \<Rightarrow> bool \<times> 'w" where
  "write_value D idx data s w = writeChrValue D (getConnectionHandle D w) data (chars s ! idx) w"

definition valueHandle :: "nat \<Rightarrow> 'a gatt_scheme \<Rightarrow> u16" where
  "valueHandle idx s = h_value (chars s ! idx)"

datatype charattr = VALUE | DESC | CCCD | SCCD

fun charHandleToIdx_from :: "nat \<Rightarrow> chr list \<Rightarrow> u16 \<Rightarrow> (nat \<times> charattr) option" where
  "charHandleToIdx_from idx [] handle = None"
| "charHandleToIdx_from idx (p # ps) handle =
     (if handle = h_value p then Some (idx, VALUE)
      else if handle = h_desc p then Some (idx, DESC)
      else if handle = h_cccd p then Some (idx, CCCD)
      else if handle = h_sccd p then Some (idx, SCCD)
      else charHandleToIdx_from (idx + 1) ps handle)"

definition charHandleToIdx :: "u16 \<Rightarrow> 'a gatt_scheme \<Rightarrow> (nat \<times> charattr) option" where
  "charHandleToIdx handle s = charHandleToIdx_from 0 (chars s) handle"

subsection \<open>Events\<close>

datatype ble_event =
    Connected
  | Disconnected
  | AuthorizeInvalid
  | AuthorizeRead (ev_conn: u16) (ev_handle: u16) (ev_offset: u16)
  | AuthorizeWrite (ev_handle: u16)
  | HVC (ev_handle: u16)
  | Write (ev_handle: u16) (ev_data: "u8 list")
  | OtherEvent

text \<open>The virtual methods a service may override; \<open>no_handlers\<close> are those of the base class.\<close>

record ('a, 'w) handlers =
  onConnect :: "'a gatt_scheme \<Rightarrow> 'w \<Rightarrow> 'a gatt_scheme \<times> 'w"
  onDisconnect :: "'a gatt_scheme \<Rightarrow> 'w \<Rightarrow> 'a gatt_scheme \<times> 'w"
  onDataWritten :: "u16 \<Rightarrow> u8 list \<Rightarrow> 'a gatt_scheme \<Rightarrow> 'w \<Rightarrow> 'a gatt_scheme \<times> 'w"
  onDataRead :: "u16 \<Rightarrow> read_params \<Rightarrow> 'a gatt_scheme \<Rightarrow> 'w \<Rightarrow> read_params \<times> 'a gatt_scheme \<times> 'w"
  onConfirmation :: "u16 \<Rightarrow> 'a gatt_scheme \<Rightarrow> 'w \<Rightarrow> 'a gatt_scheme \<times> 'w"

definition no_handlers :: "('a, 'w) handlers" where
  "no_handlers = \<lparr>onConnect = Pair, onDisconnect = Pair, onDataWritten = \<lambda>_ _. Pair,
     onDataRead = \<lambda>_ p s w. (p, s, w), onConfirmation = \<lambda>_. Pair\<rparr>"

definition onWrite ::
    "('a, 'w) handlers \<Rightarrow> u16 \<Rightarrow> u8 list \<Rightarrow> 'a gatt_scheme \<Rightarrow> 'w \<Rightarrow> 'a gatt_scheme \<times> 'w" where
  "onWrite H handle data s w =
     (case charHandleToIdx handle s of
        None \<Rightarrow> (s, w)
      | Some (idx, ty) \<Rightarrow>
          let s1 = (if ty = CCCD \<and> length data = 2
                    then s\<lparr>chars := (chars s)[idx := setCCCD (ucast (data ! 0) + push_bit 8 (ucast (data ! 1)))
                            (chars s ! idx)]\<rparr>
                    else s)
          in onDataWritten H handle data s1 w)"

definition onAuthorizeRead ::
    "'w softdevice \<Rightarrow> ('a, 'w) handlers \<Rightarrow> u16 \<Rightarrow> u16 \<Rightarrow> u16 \<Rightarrow> 'a gatt_scheme \<Rightarrow> 'w \<Rightarrow> 'a gatt_scheme \<times> 'w"
  where
  "onAuthorizeRead D H conn handle offset s w =
     (case charHandleToIdx handle s of
        None \<Rightarrow> (s, w)
      | Some (idx, ty) \<Rightarrow>
          if ty \<noteq> VALUE then
            (s, authorize_reply D conn
                  \<lparr>rd_allow = True, rd_update = False, rd_offset = offset, rd_data = []\<rparr> w)
          else case onDataRead H handle
                      \<lparr>rd_allow = True, rd_update = True, rd_offset = offset, rd_data = []\<rparr> s w of
                 (params, s1, w1) \<Rightarrow> (s1, authorize_reply D conn params w1))"

definition onAuthorizeWrite :: "u16 \<Rightarrow> 'a gatt_scheme \<Rightarrow> 'w \<Rightarrow> 'a gatt_scheme \<times> 'w" where
  "onAuthorizeWrite handle s w = (case charHandleToIdx handle s of None \<Rightarrow> (s, w) | Some _ \<Rightarrow> (s, w))"

definition clear_subscriptions :: "'a gatt_scheme \<Rightarrow> 'a gatt_scheme" where
  "clear_subscriptions s = s\<lparr>chars := map (setCCCD 0) (chars s)\<rparr>"

definition onBleEvent ::
    "'w softdevice \<Rightarrow> ('a, 'w) handlers \<Rightarrow> ble_event \<Rightarrow> 'a gatt_scheme \<Rightarrow> 'w \<Rightarrow> 'a gatt_scheme \<times> 'w" where
  "onBleEvent D H ev s w =
     (case ev of
        Connected \<Rightarrow> onConnect H s w
      | Disconnected \<Rightarrow> (case onDisconnect H s w of (s1, w1) \<Rightarrow> (clear_subscriptions s1, w1))
      | AuthorizeInvalid \<Rightarrow> (s, w)
      | AuthorizeRead conn handle offset \<Rightarrow> onAuthorizeRead D H conn handle offset s w
      | AuthorizeWrite handle \<Rightarrow> onAuthorizeWrite handle s w
      | HVC handle \<Rightarrow> onConfirmation H handle s w
      | Write handle data \<Rightarrow> onWrite H handle data s w
      | OtherEvent \<Rightarrow> (s, w))"

subsection \<open>The table of services\<close>

definition MICROBIT_BLE_SERVICES_MAX :: nat where "MICROBIT_BLE_SERVICES_MAX = 20"

text \<open>The services are their addresses; \<open>None\<close> is the panic of a full table.\<close>

definition AddService :: "nat \<Rightarrow> nat list \<Rightarrow> nat list option" where
  "AddService service services =
     (if MICROBIT_BLE_SERVICES_MAX \<le> length services then None else Some (services @ [service]))"

fun find_service :: "nat \<Rightarrow> nat list \<Rightarrow> nat \<Rightarrow> nat" where
  "find_service service [] count = count"
| "find_service service (x # xs) count =
     (if x = service then count else find_service service xs (count + 1))"

text \<open>The loop that moves the services behind the removed one; \<open>i\<close> runs up to the count.\<close>

function move_services :: "nat \<Rightarrow> nat \<Rightarrow> nat list \<Rightarrow> nat \<times> nat list" where
  "move_services i count services =
     (if i < length services then move_services (i + 1) (count + 1) (services[count := services ! i])
      else (count, services))"
  by pat_completeness auto
termination by (relation "measure (\<lambda>(i, _, services). length services - i)") auto

declare move_services.simps [simp del]

definition RemoveService :: "nat \<Rightarrow> nat list \<Rightarrow> nat list" where
  "RemoveService service services =
     (let count = find_service service services 0
      in if count < length services
         then case move_services (count + 1) count services of (count', services') \<Rightarrow> take count' services'
         else services)"

text \<open>Every service gets the event, until one answers \<open>false\<close>.\<close>

fun dispatch :: "('e \<Rightarrow> nat \<Rightarrow> 'w \<Rightarrow> bool \<times> 'w) \<Rightarrow> 'e \<Rightarrow> nat list \<Rightarrow> 'w \<Rightarrow> 'w" where
  "dispatch on_event ev [] w = w"
| "dispatch on_event ev (s # ss) w =
     (case on_event ev s w of (go_on, w1) \<Rightarrow> if go_on then dispatch on_event ev ss w1 else w1)"

end
