(* ===== verification/BLEProps.thy ===== *)
theory BLEProps
  imports BLE
begin

text \<open>
  The services and their clients: what a client has subscribed to follows from its writes since
  it connected, for every service whose methods leave the characteristics alone (locale
  \<open>gatt_service\<close>), and the table of services.
\<close>

lemma attr_CCCD:
  assumes "charHandleToIdx_from k cs h = Some (i, CCCD)"
  shows "k \<le> i \<and> i - k < length cs \<and> h = h_cccd (cs ! (i - k))"
  using assms
proof (induction cs arbitrary: k)
  case (Cons p ps)
  show ?case
  proof (cases "i = k")
    case True
    then show ?thesis using Cons.prems Cons.IH [of "k + 1"] by (auto split: if_splits)
  next
    case False
    then have "charHandleToIdx_from (k + 1) ps h = Some (i, CCCD)"
      using Cons.prems by (auto split: if_splits)
    then have "k + 1 \<le> i \<and> i - (k + 1) < length ps \<and> h = h_cccd (ps ! (i - (k + 1)))"
      by (rule Cons.IH)
    moreover from this have "i - k = Suc (i - (k + 1))" by linarith
    ultimately show ?thesis by simp
  qed
qed simp

text \<open>The handle of the descriptor of characteristic \<open>idx\<close> means nothing else in this service.\<close>

definition own_cccd :: "nat \<Rightarrow> 'a gatt_scheme \<Rightarrow> bool" where
  "own_cccd idx s \<longleftrightarrow> idx < length (chars s) \<and>
     (let h = h_cccd (chars s ! idx) in
      h \<noteq> h_value (chars s ! idx) \<and> h \<noteq> h_desc (chars s ! idx) \<and>
      (\<forall>j < length (chars s). j \<noteq> idx \<longrightarrow>
         h \<noteq> h_value (chars s ! j) \<and> h \<noteq> h_desc (chars s ! j) \<and>
         h \<noteq> h_cccd (chars s ! j) \<and> h \<noteq> h_sccd (chars s ! j)))"

lemma own_cccd_found_from:
  assumes "i < length cs" and "h = h_cccd (cs ! i)" "h \<noteq> h_value (cs ! i)" "h \<noteq> h_desc (cs ! i)"
    and "\<And>j. j < i \<Longrightarrow> h \<noteq> h_value (cs ! j) \<and> h \<noteq> h_desc (cs ! j) \<and> h \<noteq> h_cccd (cs ! j) \<and> h \<noteq> h_sccd (cs ! j)"
  shows "charHandleToIdx_from k cs h = Some (k + i, CCCD)"
  using assms
proof (induction cs arbitrary: i k)
  case (Cons p ps)
  show ?case
  proof (cases i)
    case (Suc i')
    have "charHandleToIdx_from (k + 1) ps h = Some (k + 1 + i', CCCD)"
      using Cons.prems Suc by (intro Cons.IH) (fastforce simp: nth_Cons_Suc)+
    moreover have "h \<noteq> h_value p \<and> h \<noteq> h_desc p \<and> h \<noteq> h_cccd p \<and> h \<noteq> h_sccd p"
      using Cons.prems(5) [of 0] Suc by simp
    ultimately show ?thesis using Suc by simp
  qed (use Cons.prems in auto)
qed simp

lemma own_cccd_found:
  assumes "own_cccd idx s"
  shows "charHandleToIdx h s = Some (idx, CCCD) \<longleftrightarrow> h = h_cccd (chars s ! idx)"
proof
  assume "charHandleToIdx h s = Some (idx, CCCD)"
  then show "h = h_cccd (chars s ! idx)"
    using attr_CCCD [of 0 "chars s" h idx] by (simp add: charHandleToIdx_def)
next
  assume "h = h_cccd (chars s ! idx)"
  then show "charHandleToIdx h s = Some (idx, CCCD)"
    using assms own_cccd_found_from [of idx "chars s" h 0]
    by (auto simp: own_cccd_def Let_def charHandleToIdx_def)
qed

subsection \<open>What the client has written\<close>

text \<open>The value of a descriptor after one more event, from the client's point of view.\<close>

definition client_cccd :: "u16 \<Rightarrow> ble_event \<Rightarrow> u16 \<Rightarrow> u16" where
  "client_cccd handle ev v =
     (case ev of
        Disconnected \<Rightarrow> 0
      | Write h data \<Rightarrow>
          if h = handle \<and> length data = 2 then ucast (data ! 0) + push_bit 8 (ucast (data ! 1)) else v
      | _ \<Rightarrow> v)"

definition client_wants :: "u16 \<Rightarrow> u16 \<Rightarrow> ble_event list \<Rightarrow> bool" where
  "client_wants handle v evs \<longleftrightarrow> fold (client_cccd handle) evs v AND HVX_NOTIFICATION \<noteq> 0"

fun run_events ::
    "'w softdevice \<Rightarrow> ('a, 'w) handlers \<Rightarrow> ble_event list \<Rightarrow> 'a gatt_scheme \<Rightarrow> 'w \<Rightarrow> 'a gatt_scheme \<times> 'w" where
  "run_events D H [] s w = (s, w)"
| "run_events D H (ev # evs) s w =
     (case onBleEvent D H ev s w of (s1, w1) \<Rightarrow> run_events D H evs s1 w1)"

text \<open>Handles never change; only \<open>cccd\<close> does.\<close>

definition same_handles :: "'a gatt_scheme \<Rightarrow> 'a gatt_scheme \<Rightarrow> bool" where
  "same_handles s s' \<longleftrightarrow> length (chars s') = length (chars s) \<and>
     (\<forall>i < length (chars s). chars s' ! i = (chars s ! i)\<lparr>cccd := cccd (chars s' ! i)\<rparr>)"

lemma same_handles_refl [simp]: "same_handles s s"
  by (simp add: same_handles_def)

lemma same_handles_chars: "chars s' = chars s \<Longrightarrow> same_handles s s'"
  by (simp add: same_handles_def)

lemma same_handlesD:
  assumes "same_handles s s'" and "i < length (chars s)"
  shows "h_value (chars s' ! i) = h_value (chars s ! i)" "h_desc (chars s' ! i) = h_desc (chars s ! i)"
    "h_cccd (chars s' ! i) = h_cccd (chars s ! i)" "h_sccd (chars s' ! i) = h_sccd (chars s ! i)"
proof -
  have "chars s' ! i = (chars s ! i)\<lparr>cccd := cccd (chars s' ! i)\<rparr>"
    using assms by (simp add: same_handles_def)
  then show "h_value (chars s' ! i) = h_value (chars s ! i)" "h_desc (chars s' ! i) = h_desc (chars s ! i)"
    "h_cccd (chars s' ! i) = h_cccd (chars s ! i)" "h_sccd (chars s' ! i) = h_sccd (chars s ! i)"
    by (metis chr.select_convs chr.surjective chr.update_convs(5))+
qed

lemma same_handles_trans: "same_handles s s' \<Longrightarrow> same_handles s' s'' \<Longrightarrow> same_handles s s''"
  unfolding same_handles_def
  by (metis (no_types, lifting) chr.surjective chr.update_convs(5))

lemma same_handles_own: "same_handles s s' \<Longrightarrow> own_cccd idx s \<Longrightarrow> own_cccd idx s'"
proof -
  assume same: "same_handles s s'" and own: "own_cccd idx s"
  have len: "length (chars s') = length (chars s)" using same by (simp add: same_handles_def)
  have idx: "idx < length (chars s)" using own by (simp add: own_cccd_def)
  show "own_cccd idx s'"
    using own by (simp add: own_cccd_def Let_def len same_handlesD [OF same] idx)
qed

lemma clear_subscriptions_handles: "same_handles s (clear_subscriptions s)"
  by (simp add: same_handles_def clear_subscriptions_def setCCCD_def)

locale gatt_service =
  fixes H :: "('a, 'w) handlers"
  assumes connect_chars: "chars (fst (onConnect H s w)) = chars s"
    and disconnect_chars: "chars (fst (onDisconnect H s w)) = chars s"
    and written_chars: "chars (fst (onDataWritten H h d s w)) = chars s"
    and read_chars: "chars (fst (snd (onDataRead H h p s w))) = chars s"
    and confirm_chars: "chars (fst (onConfirmation H h s w)) = chars s"
begin

lemma write_step:
  assumes "own_cccd idx s"
  shows "same_handles s (fst (onWrite H h data s w))"
    "cccd (chars (fst (onWrite H h data s w)) ! idx) = client_cccd (h_cccd (chars s ! idx)) (Write h data) (cccd (chars s ! idx))"
proof -
  have idx: "idx < length (chars s)" using assms by (simp add: own_cccd_def)
  show "same_handles s (fst (onWrite H h data s w))"
  proof (cases "charHandleToIdx h s")
    case (Some p)
    have upd: "same_handles s (s\<lparr>chars := (chars s)[i := setCCCD v (chars s ! i)]\<rparr>)" for i v
      by (cases "i < length (chars s)")
        (auto simp: same_handles_def setCCCD_def nth_list_update list_update_beyond)
    have wr: "same_handles s' (fst (onDataWritten H h data s' w))" for s'
      by (simp add: same_handles_chars written_chars)
    obtain i ty where "p = (i, ty)" by fastforce
    with Some show ?thesis
      by (auto simp: onWrite_def Let_def intro: same_handles_trans [OF upd wr] wr)
  qed (simp add: onWrite_def)
  show "cccd (chars (fst (onWrite H h data s w)) ! idx)
      = client_cccd (h_cccd (chars s ! idx)) (Write h data) (cccd (chars s ! idx))"
    using own_cccd_found [OF assms, of h] idx
    by (auto simp: onWrite_def written_chars client_cccd_def setCCCD_def nth_list_update Let_def
        split: option.splits)
qed

lemma event_step:
  assumes "own_cccd idx s"
  shows "same_handles s (fst (onBleEvent D H ev s w))"
    "cccd (chars (fst (onBleEvent D H ev s w)) ! idx) = client_cccd (h_cccd (chars s ! idx)) ev (cccd (chars s ! idx))"
proof -
  have idx: "idx < length (chars s)" using assms by (simp add: own_cccd_def)
  have read: "chars (fst (onAuthorizeRead D H c h off s w)) = chars s" for c h off
    by (auto simp: onAuthorizeRead_def split: option.splits prod.splits)
      (metis fst_conv read_chars snd_conv)
  have aw: "onAuthorizeWrite h s w = (s, w)" for h
    by (simp add: onAuthorizeWrite_def split: option.splits)
  have disc: "fst (onBleEvent D H Disconnected s w) = clear_subscriptions (fst (onDisconnect H s w))"
    by (simp add: onBleEvent_def split: prod.splits)
  have clear: "chars (clear_subscriptions s') = map (setCCCD 0) (chars s)"
    if "chars s' = chars s" for s' using that by (simp add: clear_subscriptions_def)
  show "same_handles s (fst (onBleEvent D H ev s w))"
  proof (cases ev)
    case Disconnected
    then show ?thesis
      by (simp only: disc) (simp add: same_handles_def clear disconnect_chars setCCCD_def)
  qed (use write_step(1) [OF assms] in \<open>simp_all add: onBleEvent_def same_handles_chars connect_chars
      read aw confirm_chars\<close>)
  show "cccd (chars (fst (onBleEvent D H ev s w)) ! idx)
      = client_cccd (h_cccd (chars s ! idx)) ev (cccd (chars s ! idx))"
  proof (cases ev)
    case Disconnected
    then show ?thesis
      using idx by (simp only: disc) (simp add: clear disconnect_chars setCCCD_def client_cccd_def)
  qed (use write_step(2) [OF assms] in \<open>simp_all add: onBleEvent_def connect_chars read aw confirm_chars
      client_cccd_def\<close>)
qed

text \<open>The descriptor holds what the client wrote last since it connected.\<close>

lemma subscription:
  assumes "own_cccd idx s" and "run_events D H evs s w = (s1, w1)"
  shows "same_handles s s1 \<and>
    cccd (chars s1 ! idx) = fold (client_cccd (h_cccd (chars s ! idx))) evs (cccd (chars s ! idx))"
  using assms
proof (induction evs arbitrary: s w)
  case (Cons ev evs)
  obtain s' w' where st: "onBleEvent D H ev s w = (s', w')" by fastforce
  have same: "same_handles s s'" and c: "cccd (chars s' ! idx) = client_cccd (h_cccd (chars s ! idx)) ev (cccd (chars s ! idx))"
    using event_step [OF Cons.prems(1), of D ev w] st by simp_all
  have own: "own_cccd idx s'" using same Cons.prems(1) by (rule same_handles_own)
  have idx: "idx < length (chars s)" using Cons.prems(1) by (simp add: own_cccd_def)
  have "same_handles s' s1 \<and>
    cccd (chars s1 ! idx) = fold (client_cccd (h_cccd (chars s' ! idx))) evs (cccd (chars s' ! idx))"
    using Cons.prems(2) st by (intro Cons.IH [OF own]) simp
  then show ?case using same c same_handlesD(3) [OF same idx] by (auto intro: same_handles_trans)
qed simp

text \<open>A value given to \<open>notify_value\<close> is notified to a client that asked for it, else stored.\<close>

lemma told:
  assumes "own_cccd idx s" and "run_events D H evs s w = (s1, w1)"
    and "chars s2 = chars s1" and "getConnectionHandle D w1 \<noteq> CONN_HANDLE_INVALID D"
  shows "notify_value D idx data s2 w1 =
    (let conn = getConnectionHandle D w1; h = valueHandle idx s in
     if client_wants (h_cccd (chars s ! idx)) (cccd (chars s ! idx)) evs
     then case hvx D Notification conn h data w1 of ((ok, _), w2) \<Rightarrow> (ok, w2)
     else (False, snd (value_set D conn h data w1)))"
proof -
  have idx: "idx < length (chars s)" using assms(1) by (simp add: own_cccd_def)
  have "same_handles s s1" and
    c: "cccd (chars s1 ! idx) = fold (client_cccd (h_cccd (chars s ! idx))) evs (cccd (chars s ! idx))"
    using subscription [OF assms(1,2)] by simp_all
  then have "h_value (chars s1 ! idx) = h_value (chars s ! idx)" using idx by (simp add: same_handlesD)
  with c assms(3,4) show ?thesis
    by (simp add: notify_value_def notifyChrValue_def cccdNotify_def client_wants_def valueHandle_def
        setChrValue_def Let_def split: prod.splits)
qed

end

subsection \<open>The table of services\<close>

lemma find_service_less: "find_service x xs k = k + length (takeWhile (\<lambda>y. y \<noteq> x) xs)"
  by (induction xs arbitrary: k) auto

lemma move_services_moves:
  assumes "i = Suc count" "i \<le> length xs"
  shows "(case move_services i count xs of (c, ys) \<Rightarrow> take c ys) = take count xs @ drop i xs"
  using assms
proof (induction i count xs rule: move_services.induct)
  case (1 i count xs)
  show ?case
  proof (cases "i < length xs")
    case True
    have "(case move_services (i + 1) (count + 1) (xs[count := xs ! i]) of (c, ys) \<Rightarrow> take c ys)
        = take (count + 1) (xs[count := xs ! i]) @ drop (i + 1) (xs[count := xs ! i])"
      using 1 True by simp
    also have "take (count + 1) (xs[count := xs ! i]) = take count xs @ [xs ! i]"
      using 1 True by (simp add: take_Suc_conv_app_nth)
    also have "drop (i + 1) (xs[count := xs ! i]) = drop (Suc i) xs"
      using 1 by simp
    finally show ?thesis
      using True by (subst move_services.simps) (simp add: Cons_nth_drop_Suc)
  next
    case False
    then show ?thesis using 1 by (subst move_services.simps) simp
  qed
qed

lemma remove1_takeWhile:
  "x \<in> set xs \<Longrightarrow> remove1 x xs = takeWhile (\<lambda>y. y \<noteq> x) xs @ drop (Suc (length (takeWhile (\<lambda>y. y \<noteq> x) xs))) xs"
  by (induction xs) auto

text \<open>Removing a service removes exactly its entry and keeps the order of the others.\<close>

lemma RemoveService_correct: "RemoveService x xs = remove1 x xs"
proof (cases "x \<in> set xs")
  case True
  let ?n = "length (takeWhile (\<lambda>y. y \<noteq> x) xs)"
  have n: "find_service x xs 0 = ?n" by (simp add: find_service_less)
  have less: "?n < length xs"
    using True by (induction xs) auto
  have "takeWhile (\<lambda>y. y \<noteq> x) xs = take ?n xs" by (metis takeWhile_eq_take)
  then show ?thesis
    using less True move_services_moves [of "?n + 1" ?n xs]
    by (simp add: RemoveService_def n remove1_takeWhile)
next
  case False
  then have "takeWhile (\<lambda>y. y \<noteq> x) xs = xs" by (simp add: takeWhile_eq_all_conv) blast
  then have "find_service x xs 0 = length xs" by (simp only: find_service_less)
  then show ?thesis
    using False by (simp add: RemoveService_def remove1_idem)
qed

text \<open>
  A failed notification never stores the value, a failed indication always does: the length the
  code compares is the variable \<open>p_len\<close> points to.
\<close>

lemma failed_notification:
  assumes "connection \<noteq> CONN_HANDLE_INVALID D" "cccdNotify c"
    and "hvx D Notification connection (h_value c) data w = ((False, n), w1)"
  shows "notifyChrValue D connection data c w = (False, w1)"
  using assms by (simp add: notifyChrValue_def)

lemma failed_indication:
  assumes "connection \<noteq> CONN_HANDLE_INVALID D" "cccdIndicate c"
    and "hvx D Indication connection (h_value c) data w = ((False, n), w1)"
  shows "indicateChrValue D connection data c w
    = (False, snd (value_set D connection (h_value c) (take n data) w1))"
  using assms by (simp add: indicateChrValue_def setChrValue_def)

end
