(* ===== verification/SensorServices.thy ===== *)
theory SensorServices
  imports BLE "HOL-Library.Signed_Division"
begin

text \<open>
  The thermometer (\<open>source/MicroBitThermometer.cpp\<close>) and the Bluetooth services of the buttons, the
  thermometer, the accelerometer and the compass (\<open>source/bluetooth/MicroBitButtonService.cpp\<close>,
  \<open>MicroBitTemperatureService.cpp\<close>, \<open>MicroBitAccelerometerService.cpp\<close>,
  \<open>MicroBitMagnetometerService.cpp\<close>). The message bus, the clock and the drivers of the sensors
  (codal-core) are records of functions over the state of the world.
\<close>

type_synonym u64 = "64 word"

definition bytes16 :: "u16 \<Rightarrow> u8 list" where
  "bytes16 x = [ucast x, ucast (drop_bit 8 x)]"

definition le16 :: "u8 list \<Rightarrow> u16" where
  "le16 bs = ucast (bs ! 0) OR push_bit 8 (ucast (bs ! 1))"

lemma le16_bytes16 [simp]: "le16 (bytes16 x @ bs) = x" "le16 (bytes16 x) = x"
  by (auto simp: le16_def bytes16_def bit_eq_iff bit_simps)

subsection \<open>The message bus\<close>

datatype bus_id = BUTTON_A | BUTTON_B | THERMOMETER | ACCELEROMETER | COMPASS
datatype bus_evt = EVT_ANY | UPDATE | CONFIG_NEEDED | CALIBRATION_NEEDED
datatype callback = ButtonA | ButtonB | Temperature | Acceleration | CompassEvents

record 'w bus =
  has_bus :: "'w \<Rightarrow> bool"
  listen :: "bus_id \<Rightarrow> bus_evt \<Rightarrow> callback \<Rightarrow> bool \<Rightarrow> 'w \<Rightarrow> 'w"
  ignore :: "bus_id \<Rightarrow> bus_evt \<Rightarrow> callback \<Rightarrow> 'w \<Rightarrow> 'w"
  send :: "bus_id \<Rightarrow> bus_evt \<Rightarrow> 'w \<Rightarrow> 'w"

subsection \<open>Buttons\<close>

datatype button_evt = Up | Down | Hold | OtherButtonEvt

record button_service = gatt +
  bufA :: u8
  bufB :: u8

definition idxA :: nat where "idxA = 0"
definition idxB :: nat where "idxB = 1"

definition button_listen :: "'w bus \<Rightarrow> bool \<Rightarrow> 'w \<Rightarrow> 'w" where
  "button_listen B yes w =
     (if has_bus B w then
        if yes then listen B BUTTON_B EVT_ANY ButtonB False (listen B BUTTON_A EVT_ANY ButtonA False w)
        else ignore B BUTTON_B EVT_ANY ButtonB (ignore B BUTTON_A EVT_ANY ButtonA w)
      else w)"

definition button_value :: "button_evt \<Rightarrow> u8 option" where
  "button_value e = (case e of Up \<Rightarrow> Some 0 | Down \<Rightarrow> Some 1 | Hold \<Rightarrow> Some 2 | OtherButtonEvt \<Rightarrow> None)"

definition buttonAUpdate ::
    "'w softdevice \<Rightarrow> button_evt \<Rightarrow> 'a button_service_scheme \<Rightarrow> 'w \<Rightarrow> 'a button_service_scheme \<times> 'w" where
  "buttonAUpdate D e s w =
     (if getConnected D w then
        case button_value e of
          None \<Rightarrow> (s, w)
        | Some v \<Rightarrow> let s1 = s\<lparr>bufA := v\<rparr> in (s1, snd (notify_value D idxA [v] s1 w))
      else (s, w))"

definition buttonBUpdate ::
    "'w softdevice \<Rightarrow> button_evt \<Rightarrow> 'a button_service_scheme \<Rightarrow> 'w \<Rightarrow> 'a button_service_scheme \<times> 'w" where
  "buttonBUpdate D e s w =
     (if getConnected D w then
        case button_value e of
          None \<Rightarrow> (s, w)
        | Some v \<Rightarrow> let s1 = s\<lparr>bufB := v\<rparr> in (s1, snd (notify_value D idxB [v] s1 w))
      else (s, w))"

definition button_handlers :: "'w bus \<Rightarrow> ('a button_service_ext, 'w) handlers" where
  "button_handlers B = no_handlers
     \<lparr>onConnect := \<lambda>s w. (s, button_listen B True w),
      onDisconnect := \<lambda>s w. (s, button_listen B False w)\<rparr>"

definition no_gatt :: "nat \<Rightarrow> gatt" where
  "no_gatt n = \<lparr>uuid_type = 0, service_handle = 0, chars = replicate n chr_new\<rparr>"

definition button_new :: "'w softdevice \<Rightarrow> 'w bus \<Rightarrow> nat \<Rightarrow> 'w \<Rightarrow> button_service \<times> 'w" where
  "button_new D B security w =
     (let s = gatt.extend (no_gatt 2) (button_service.fields 0 0);
          (s1, w1) = RegisterBaseUUID D bs_base_uuid s w;
          (s2, w2) = CreateService D 0x9882 s1 w1;
          (s3, w3) = CreateCharacteristic D security idxA 0xda90 [bufA s2] 1 1 (propREAD OR propNOTIFY) s2 w2;
          (s4, w4) = CreateCharacteristic D security idxB 0xda91 [bufB s3] 1 1 (propREAD OR propNOTIFY) s3 w3
      in (s4, if getConnected D w4 then button_listen B True w4 else w4))"

subsection \<open>The thermometer\<close>

definition MICROBIT_THERMOMETER_PERIOD :: u32 where "MICROBIT_THERMOMETER_PERIOD = 1000"

text \<open>\<open>sampleTime\<close> is an \<open>unsigned long\<close>, which has 32 bits on this processor.\<close>

record thermometer =
  idle_tick :: bool
  samplePeriod :: u32
  sampleTime :: u32
  offset :: "16 word"
  temperature :: "16 word"

record 'w thermo_hw =
  time_ms :: "'w \<Rightarrow> u64 \<times> 'w"
  cpu_temp :: "'w \<Rightarrow> 32 word \<times> 'w"
  thermo_event :: "'w \<Rightarrow> 'w"

definition thermo_new :: "16 word \<Rightarrow> thermometer" where
  "thermo_new t = \<lparr>idle_tick = False, samplePeriod = MICROBIT_THERMOMETER_PERIOD, sampleTime = 0,
     offset = 0, temperature = t\<rparr>"

definition isSampleNeeded :: "'w thermo_hw \<Rightarrow> thermometer \<Rightarrow> 'w \<Rightarrow> bool \<times> 'w" where
  "isSampleNeeded T s w = (case time_ms T w of (t, w1) \<Rightarrow> (ucast (sampleTime s) \<le> t, w1))"

definition updateSample :: "'w thermo_hw \<Rightarrow> thermometer \<Rightarrow> 'w \<Rightarrow> thermometer \<times> 'w" where
  "updateSample T s w =
     (let s1 = s\<lparr>idle_tick := True\<rparr>;
          (needed, w1) = isSampleNeeded T s1 w
      in if needed then
           let (processorTemperature, w2) = cpu_temp T w1;
               (t, w3) = time_ms T w2
           in (s1\<lparr>temperature := word_of_int (sint processorTemperature sdiv 4),
                  sampleTime := ucast t + samplePeriod s1\<rparr>, thermo_event T w3)
         else (s1, w1))"

definition getTemperature :: "'w thermo_hw \<Rightarrow> thermometer \<Rightarrow> 'w \<Rightarrow> int \<times> thermometer \<times> 'w" where
  "getTemperature T s w =
     (case updateSample T s w of (s1, w1) \<Rightarrow> (sint (temperature s1) - sint (offset s1), s1, w1))"

definition thermo_idle :: "'w thermo_hw \<Rightarrow> thermometer \<Rightarrow> 'w \<Rightarrow> thermometer \<times> 'w" where
  "thermo_idle T s w = updateSample T s w"

definition thermo_setPeriod :: "'w thermo_hw \<Rightarrow> 32 word \<Rightarrow> thermometer \<Rightarrow> 'w \<Rightarrow> thermometer \<times> 'w" where
  "thermo_setPeriod T period s w =
     (case updateSample T s w of (s1, w1) \<Rightarrow> (s1\<lparr>samplePeriod := period\<rparr>, w1))"

definition thermo_getPeriod :: "thermometer \<Rightarrow> u32" where
  "thermo_getPeriod s = samplePeriod s"

definition setCalibration :: "int \<Rightarrow> thermometer \<Rightarrow> thermometer" where
  "setCalibration off s = s\<lparr>offset := word_of_int off\<rparr>"

definition getCalibration :: "thermometer \<Rightarrow> int" where
  "getCalibration s = sint (offset s)"

subsection \<open>The temperature service\<close>

record temperature_service = gatt +
  tempData :: u8
  tempPeriod :: u16
  thermo :: thermometer

definition idxTempDATA :: nat where "idxTempDATA = 0"
definition idxTempPERIOD :: nat where "idxTempPERIOD = 1"

definition read_temperature :: "'w thermo_hw \<Rightarrow> 'a temperature_service_scheme \<Rightarrow> 'w
    \<Rightarrow> 'a temperature_service_scheme \<times> 'w" where
  "read_temperature T s w =
     (case getTemperature T (thermo s) w of (t, th, w1) \<Rightarrow>
        (s\<lparr>tempData := word_of_int t, thermo := th\<rparr>, w1))"

definition temperature_listen :: "'w bus \<Rightarrow> 'w thermo_hw \<Rightarrow> bool \<Rightarrow> 'a temperature_service_scheme \<Rightarrow> 'w
    \<Rightarrow> 'a temperature_service_scheme \<times> 'w" where
  "temperature_listen B T yes s w =
     (if has_bus B w then
        if yes then
          case read_temperature T s w of (s1, w1) \<Rightarrow>
            (s1\<lparr>tempPeriod := ucast (thermo_getPeriod (thermo s1))\<rparr>,
             listen B THERMOMETER UPDATE Temperature True w1)
        else (s, ignore B THERMOMETER UPDATE Temperature w)
      else (s, w))"

definition temperature_written ::
    "'w softdevice \<Rightarrow> 'w thermo_hw \<Rightarrow> u16 \<Rightarrow> u8 list \<Rightarrow> 'a temperature_service_scheme \<Rightarrow> 'w
     \<Rightarrow> 'a temperature_service_scheme \<times> 'w" where
  "temperature_written D T handle data s w =
     (if handle = valueHandle idxTempPERIOD s \<and> 2 \<le> length data then
        let (th, w1) = thermo_setPeriod T (ucast (le16 data)) (thermo s) w;
            s1 = s\<lparr>thermo := th, tempPeriod := ucast (thermo_getPeriod th)\<rparr>
        in (s1, snd (set_value D idxTempPERIOD (bytes16 (tempPeriod s1)) s1 w1))
      else (s, w))"

definition temperatureUpdate ::
    "'w softdevice \<Rightarrow> 'w thermo_hw \<Rightarrow> 'a temperature_service_scheme \<Rightarrow> 'w
     \<Rightarrow> 'a temperature_service_scheme \<times> 'w" where
  "temperatureUpdate D T s w =
     (if getConnected D w then
        case read_temperature T s w of (s1, w1) \<Rightarrow>
          (s1, snd (notify_value D idxTempDATA [tempData s1] s1 w1))
      else (s, w))"

definition temperature_handlers ::
    "'w softdevice \<Rightarrow> 'w bus \<Rightarrow> 'w thermo_hw \<Rightarrow> ('a temperature_service_ext, 'w) handlers" where
  "temperature_handlers D B T = no_handlers
     \<lparr>onConnect := temperature_listen B T True, onDisconnect := temperature_listen B T False,
      onDataWritten := temperature_written D T\<rparr>"

definition temperature_new ::
    "'w softdevice \<Rightarrow> 'w bus \<Rightarrow> 'w thermo_hw \<Rightarrow> nat \<Rightarrow> thermometer \<Rightarrow> 'w \<Rightarrow> temperature_service \<times> 'w" where
  "temperature_new D B T security th w =
     (let s = gatt.extend (no_gatt 2) (temperature_service.fields 0 0 th);
          (s1, w1) = RegisterBaseUUID D bs_base_uuid s w;
          (s2, w2) = CreateService D 0x6100 s1 w1;
          (s3, w3) = CreateCharacteristic D security idxTempDATA 0x9250 [tempData s2] 1 1
                       (propREAD OR propNOTIFY) s2 w2;
          (s4, w4) = CreateCharacteristic D security idxTempPERIOD 0x1b25 (bytes16 (tempPeriod s3)) 2 2
                       (propREAD OR propWRITE) s3 w3
      in if getConnected D w4 then temperature_listen B T True s4 w4 else (s4, w4))"

subsection \<open>The accelerometer service\<close>

record 'w axes_hw =
  getX :: "'w \<Rightarrow> int \<times> 'w"
  getY :: "'w \<Rightarrow> int \<times> 'w"
  getZ :: "'w \<Rightarrow> int \<times> 'w"
  getPeriod :: "'w \<Rightarrow> int \<times> 'w"
  setPeriod :: "int \<Rightarrow> 'w \<Rightarrow> 'w"

record accelerometer_service = gatt +
  accData :: "u16 list"
  accPeriod :: u16

definition idxAccDATA :: nat where "idxAccDATA = 0"
definition idxAccPERIOD :: nat where "idxAccPERIOD = 1"

definition read_axes :: "('w, 'b) axes_hw_scheme \<Rightarrow> 'w \<Rightarrow> u16 list \<times> 'w" where
  "read_axes A w =
     (let (x, w1) = getX A w; (y, w2) = getY A w1; (z, w3) = getZ A w2
      in ([word_of_int x, word_of_int y, word_of_int z], w3))"

definition readXYZ :: "('w, 'b) axes_hw_scheme \<Rightarrow> 'a accelerometer_service_scheme \<Rightarrow> 'w
    \<Rightarrow> 'a accelerometer_service_scheme \<times> 'w" where
  "readXYZ A s w = (case read_axes A w of (d, w1) \<Rightarrow> (s\<lparr>accData := d\<rparr>, w1))"

definition accelerometer_listen ::
    "'w bus \<Rightarrow> ('w, 'b) axes_hw_scheme \<Rightarrow> bool \<Rightarrow> 'a accelerometer_service_scheme \<Rightarrow> 'w
     \<Rightarrow> 'a accelerometer_service_scheme \<times> 'w" where
  "accelerometer_listen B A yes s w =
     (if has_bus B w then
        if yes then
          let (s1, w1) = readXYZ A s w; (p, w2) = getPeriod A w1
          in (s1\<lparr>accPeriod := word_of_int p\<rparr>, listen B ACCELEROMETER UPDATE Acceleration True w2)
        else (s, ignore B ACCELEROMETER UPDATE Acceleration w)
      else (s, w))"

definition accelerometer_written ::
    "'w softdevice \<Rightarrow> ('w, 'b) axes_hw_scheme \<Rightarrow> u16 \<Rightarrow> u8 list \<Rightarrow> 'a accelerometer_service_scheme \<Rightarrow> 'w
     \<Rightarrow> 'a accelerometer_service_scheme \<times> 'w" where
  "accelerometer_written D A handle data s w =
     (if handle = valueHandle idxAccPERIOD s \<and> 2 \<le> length data then
        let w1 = setPeriod A (uint (le16 data)) w;
            (p, w2) = getPeriod A w1;
            s1 = s\<lparr>accPeriod := word_of_int p\<rparr>
        in (s1, snd (set_value D idxAccPERIOD (bytes16 (accPeriod s1)) s1 w2))
      else (s, w))"

definition accelerometerUpdate ::
    "'w softdevice \<Rightarrow> ('w, 'b) axes_hw_scheme \<Rightarrow> 'a accelerometer_service_scheme \<Rightarrow> 'w
     \<Rightarrow> 'a accelerometer_service_scheme \<times> 'w" where
  "accelerometerUpdate D A s w =
     (if getConnected D w then
        case readXYZ A s w of (s1, w1) \<Rightarrow>
          (s1, snd (notify_value D idxAccDATA (concat (map bytes16 (accData s1))) s1 w1))
      else (s, w))"

definition accelerometer_handlers ::
    "'w softdevice \<Rightarrow> 'w bus \<Rightarrow> ('w, 'b) axes_hw_scheme \<Rightarrow> ('a accelerometer_service_ext, 'w) handlers" where
  "accelerometer_handlers D B A = no_handlers
     \<lparr>onConnect := accelerometer_listen B A True, onDisconnect := accelerometer_listen B A False,
      onDataWritten := accelerometer_written D A\<rparr>"

definition accelerometer_new ::
    "'w softdevice \<Rightarrow> 'w bus \<Rightarrow> ('w, 'b) axes_hw_scheme \<Rightarrow> nat \<Rightarrow> 'w \<Rightarrow> accelerometer_service \<times> 'w" where
  "accelerometer_new D B A security w =
     (let s = gatt.extend (no_gatt 2) (accelerometer_service.fields [0, 0, 0] 0);
          (s1, w1) = RegisterBaseUUID D bs_base_uuid s w;
          (s2, w2) = CreateService D 0x0753 s1 w1;
          (s3, w3) = CreateCharacteristic D security idxAccDATA 0xca4b
                       (concat (map bytes16 (accData s2))) 6 6 (propREAD OR propNOTIFY) s2 w2;
          (s4, w4) = CreateCharacteristic D security idxAccPERIOD 0xfb24 (bytes16 (accPeriod s3)) 2 2
                       (propREAD OR propWRITE) s3 w3
      in if getConnected D w4 then accelerometer_listen B A True s4 w4 else (s4, w4))"

subsection \<open>The magnetometer service\<close>

record 'w compass_hw = "'w axes_hw" +
  isCalibrated :: "'w \<Rightarrow> bool \<times> 'w"
  heading :: "'w \<Rightarrow> int \<times> 'w"
  calibrate :: "'w \<Rightarrow> code \<times> 'w"

record magnetometer_service = gatt +
  magData :: "u16 list"
  magBearing :: u16
  magPeriod :: u16
  magCalib :: u8

definition idxMagDATA :: nat where "idxMagDATA = 0"
definition idxMagBEARING :: nat where "idxMagBEARING = 1"
definition idxMagPERIOD :: nat where "idxMagPERIOD = 2"
definition idxMagCALIB :: nat where "idxMagCALIB = 3"

definition CALIBRATION_REQUESTED :: u8 where "CALIBRATION_REQUESTED = 1"
definition CALIBRATION_COMPLETED_OK :: u8 where "CALIBRATION_COMPLETED_OK = 2"
definition CALIBRATION_COMPLETED_ERR :: u8 where "CALIBRATION_COMPLETED_ERR = 3"

definition mag_read :: "'w compass_hw \<Rightarrow> 'a magnetometer_service_scheme \<Rightarrow> 'w
    \<Rightarrow> 'a magnetometer_service_scheme \<times> 'w" where
  "mag_read C s w =
     (let (d, w1) = read_axes C w;
          (p, w2) = getPeriod C w1;
          s1 = s\<lparr>magData := d, magPeriod := word_of_int p\<rparr>;
          (cal, w3) = isCalibrated C w2
      in if cal then let (h, w4) = heading C w3 in (s1\<lparr>magBearing := word_of_int h\<rparr>, w4)
         else (s1, w3))"

definition mag_listen :: "'w bus \<Rightarrow> 'w compass_hw \<Rightarrow> bool \<Rightarrow> 'a magnetometer_service_scheme \<Rightarrow> 'w
    \<Rightarrow> 'a magnetometer_service_scheme \<times> 'w" where
  "mag_listen B C yes s w =
     (if has_bus B w then
        if yes then
          case mag_read C s w of (s1, w1) \<Rightarrow>
            (s1, listen B COMPASS CALIBRATION_NEEDED CompassEvents False
                   (listen B COMPASS CONFIG_NEEDED CompassEvents False
                     (listen B COMPASS UPDATE CompassEvents True w1)))
        else (s, ignore B COMPASS EVT_ANY CompassEvents w)
      else (s, w))"

definition calibrateCompass :: "'w softdevice \<Rightarrow> 'w compass_hw \<Rightarrow> 'a magnetometer_service_scheme \<Rightarrow> 'w
    \<Rightarrow> 'a magnetometer_service_scheme \<times> 'w" where
  "calibrateCompass D C s w =
     (case calibrate C w of (rc, w1) \<Rightarrow>
        let s1 = s\<lparr>magCalib := if rc = OK then CALIBRATION_COMPLETED_OK else CALIBRATION_COMPLETED_ERR\<rparr>
        in (s1, snd (notify_value D idxMagCALIB [magCalib s1] s1 w1)))"

definition magnetometerUpdate :: "'w softdevice \<Rightarrow> 'w compass_hw \<Rightarrow> 'a magnetometer_service_scheme \<Rightarrow> 'w
    \<Rightarrow> 'a magnetometer_service_scheme \<times> 'w" where
  "magnetometerUpdate D C s w =
     (if getConnected D w then
        let (s1, w1) = mag_read C s w;
            w2 = snd (set_value D idxMagPERIOD (bytes16 (magPeriod s1)) s1 w1);
            w3 = snd (notify_value D idxMagDATA (concat (map bytes16 (magData s1))) s1 w2);
            (cal, w4) = isCalibrated C w3
        in (s1, if cal then snd (notify_value D idxMagBEARING (bytes16 (magBearing s1)) s1 w4) else w4)
      else (s, w))"

definition samplePeriodUpdateNeeded ::
    "'w softdevice \<Rightarrow> 'w compass_hw \<Rightarrow> 'a magnetometer_service_scheme \<Rightarrow> 'w
     \<Rightarrow> 'a magnetometer_service_scheme \<times> 'w" where
  "samplePeriodUpdateNeeded D C s w =
     (let w1 = setPeriod C (uint (magPeriod s)) w;
          (p, w2) = getPeriod C w1;
          s1 = s\<lparr>magPeriod := word_of_int p\<rparr>
      in (s1, snd (set_value D idxMagPERIOD (bytes16 (magPeriod s1)) s1 w2)))"

definition compassEvents ::
    "'w softdevice \<Rightarrow> 'w compass_hw \<Rightarrow> bus_evt \<Rightarrow> 'a magnetometer_service_scheme \<Rightarrow> 'w
     \<Rightarrow> 'a magnetometer_service_scheme \<times> 'w" where
  "compassEvents D C e s w =
     (case e of UPDATE \<Rightarrow> magnetometerUpdate D C s w
      | CONFIG_NEEDED \<Rightarrow> samplePeriodUpdateNeeded D C s w
      | CALIBRATION_NEEDED \<Rightarrow> calibrateCompass D C s w
      | EVT_ANY \<Rightarrow> (s, w))"

definition mag_written :: "'w bus \<Rightarrow> u16 \<Rightarrow> u8 list \<Rightarrow> 'a magnetometer_service_scheme \<Rightarrow> 'w
    \<Rightarrow> 'a magnetometer_service_scheme \<times> 'w" where
  "mag_written B handle data s w =
     (if handle = valueHandle idxMagPERIOD s \<and> 2 \<le> length data then
        (s\<lparr>magPeriod := le16 data\<rparr>, send B COMPASS CONFIG_NEEDED w)
      else if handle = valueHandle idxMagCALIB s \<and> 1 \<le> length data then
        let s1 = s\<lparr>magCalib := data ! 0\<rparr>
        in (s1, if magCalib s1 = CALIBRATION_REQUESTED then send B COMPASS CALIBRATION_NEEDED w else w)
      else (s, w))"

definition mag_handlers :: "'w bus \<Rightarrow> 'w compass_hw \<Rightarrow> ('a magnetometer_service_ext, 'w) handlers" where
  "mag_handlers B C = no_handlers
     \<lparr>onConnect := mag_listen B C True, onDisconnect := mag_listen B C False,
      onDataWritten := mag_written B\<rparr>"

definition mag_new :: "'w softdevice \<Rightarrow> 'w bus \<Rightarrow> 'w compass_hw \<Rightarrow> nat \<Rightarrow> 'w \<Rightarrow> magnetometer_service \<times> 'w" where
  "mag_new D B C security w =
     (let (p, w0) = getPeriod C w;
          s = gatt.extend (no_gatt 4) (magnetometer_service.fields [0, 0, 0] 0 (word_of_int p) 0);
          (s1, w1) = RegisterBaseUUID D bs_base_uuid s w0;
          (s2, w2) = CreateService D 0xf2d8 s1 w1;
          (s3, w3) = CreateCharacteristic D security idxMagDATA 0xfb11
                       (concat (map bytes16 (magData s2))) 6 6 (propREAD OR propNOTIFY) s2 w2;
          (s4, w4) = CreateCharacteristic D security idxMagBEARING 0x9715 (bytes16 (magBearing s3)) 2 2
                       (propREAD OR propNOTIFY) s3 w3;
          (s5, w5) = CreateCharacteristic D security idxMagPERIOD 0x386c (bytes16 (magPeriod s4)) 2 2
                       (propREAD OR propWRITE) s4 w4;
          (s6, w6) = CreateCharacteristic D security idxMagCALIB 0xB358 [magCalib s5] 1 1
                       (propWRITE OR propNOTIFY) s5 w5
      in if getConnected D w6 then mag_listen B C True s6 w6 else (s6, w6))"

end
