(* ===== verification/SensorProps.thy ===== *)
theory SensorProps
  imports BLEProps SensorServices
begin

text \<open>
  The services of the sensors keep the contract of \<open>gatt_service\<close>, so a client is told what it
  subscribed to; how old a temperature can be; and the period of the compass that gets lost.
\<close>

subsection \<open>The services keep their characteristics\<close>

lemma read_temperature_chars [simp]: "chars (fst (read_temperature T s w)) = chars s"
  by (simp add: read_temperature_def split: prod.splits)

lemma temperature_listen_chars [simp]: "chars (fst (temperature_listen B T yes s w)) = chars s"
  using read_temperature_chars [of T s w]
  by (auto simp: temperature_listen_def simp del: read_temperature_chars split: prod.splits)

lemma temperature_written_chars [simp]: "chars (fst (temperature_written D T h d s w)) = chars s"
  by (simp add: temperature_written_def Let_def split: prod.splits)

lemma accelerometer_listen_chars [simp]: "chars (fst (accelerometer_listen B A yes s w)) = chars s"
  by (simp add: accelerometer_listen_def readXYZ_def Let_def split: prod.splits)

lemma accelerometer_written_chars [simp]: "chars (fst (accelerometer_written D A h d s w)) = chars s"
  by (simp add: accelerometer_written_def Let_def split: prod.splits)

lemma mag_read_chars [simp]: "chars (fst (mag_read C s w)) = chars s"
  by (simp add: mag_read_def Let_def split: prod.splits)

lemma mag_listen_chars [simp]: "chars (fst (mag_listen B C yes s w)) = chars s"
  using mag_read_chars [of C s w] by (auto simp: mag_listen_def simp del: mag_read_chars split: prod.splits)

lemma mag_written_chars [simp]: "chars (fst (mag_written B h d s w)) = chars s"
  by (simp add: mag_written_def Let_def)

interpretation buttons: gatt_service "button_handlers B"
  by unfold_locales (simp_all add: button_handlers_def no_handlers_def)

interpretation temperatures: gatt_service "temperature_handlers D B T"
  by unfold_locales (simp_all add: temperature_handlers_def no_handlers_def)

interpretation accelerations: gatt_service "accelerometer_handlers D B A"
  by unfold_locales (simp_all add: accelerometer_handlers_def no_handlers_def)

interpretation compasses: gatt_service "mag_handlers B C"
  by unfold_locales (simp_all add: mag_handlers_def no_handlers_def)

subsection \<open>Buttons\<close>

lemma button_told_one:
  assumes "own_cccd i s" "run_events D (button_handlers B) evs s w = (s1, w1)"
    and "getConnectionHandle D w1 \<noteq> CONN_HANDLE_INVALID D" and "chars s2 = chars s1"
  shows "snd (notify_value D i [v] s2 w1) =
      (let conn = getConnectionHandle D w1; h = valueHandle i s in
       if client_wants (h_cccd (chars s ! i)) (cccd (chars s ! i)) evs
       then snd (hvx D Notification conn h [v] w1) else snd (value_set D conn h [v] w1))"
  using buttons.told [OF assms(1,2,4,3), of "[v]"] by (simp add: Let_def split: prod.splits)

text \<open>
  C29 After any events of the Bluetooth stack, a button, A or B, that goes up (0), goes down (1) or is held (2)
  while a client is connected is notified to the client with the handle of its own characteristic, exactly when
  the client's last write to the descriptor of that characteristic since it connected asked for it; otherwise
  the value is stored there for it to read. The buffer of the other button is left alone.
\<close>

theorem button_told:
  assumes "own_cccd 0 s" and "own_cccd 1 s"
    and "run_events D (button_handlers B) evs s w = (s1, w1)"
    and "getConnected D w1" and "getConnectionHandle D w1 \<noteq> CONN_HANDLE_INVALID D"
    and "(e, v) \<in> {(Up, 0), (Down, 1), (Hold, 2)}"
  shows "let conn = getConnectionHandle D w1;
             told = (\<lambda>i. if client_wants (h_cccd (chars s ! i)) (cccd (chars s ! i)) evs
                         then snd (hvx D Notification conn (valueHandle i s) [v] w1)
                         else snd (value_set D conn (valueHandle i s) [v] w1))
         in buttonAUpdate D e s1 w1 = (s1\<lparr>bufA := v\<rparr>, told 0) \<and> buttonBUpdate D e s1 w1 = (s1\<lparr>bufB := v\<rparr>, told 1)"
proof -
  have "button_value e = Some v" using assms(6) by (auto simp: button_value_def)
  then show ?thesis
    using button_told_one [OF assms(1,3,5), of "s1\<lparr>bufA := v\<rparr>" v] button_told_one [OF assms(2,3,5), of "s1\<lparr>bufB := v\<rparr>" v]
      assms(4)
    by (simp add: buttonAUpdate_def buttonBUpdate_def Let_def idxA_def idxB_def)
qed

text \<open>A SoftDevice that logs what it is asked for.\<close>

definition demo_softdevice :: "(bool \<times> u16 \<times> u8 list) list softdevice" where
  "demo_softdevice = \<lparr>CONN_HANDLE_INVALID = 0xFFFF,
     value_set = \<lambda>_ h d w. (True, w @ [(False, h, d)]),
     hvx = \<lambda>_ _ h d w. ((True, length d), w @ [(True, h, d)]),
     periph_handles = \<lambda>_. [3], periph_conn_count = \<lambda>_. 1,
     authorize_reply = \<lambda>_ _ w. w, uuid_vs_add = \<lambda>_ w. (2, w), service_add = \<lambda>_ _ w. (10, w),
     add_char = \<lambda>_ p w. ((cp_uuid p, 0, cp_uuid p + 0x100, 0), w)\<rparr>"

definition demo_bus :: "'w bus" where
  "demo_bus = \<lparr>has_bus = \<lambda>_. True, listen = \<lambda>_ _ _ _ w. w, ignore = \<lambda>_ _ _ w. w, send = \<lambda>_ _ w. w\<rparr>"

definition demo_buttons :: button_service where
  "demo_buttons = fst (button_new demo_softdevice demo_bus 2 [])"

lemma demo_buttons_chars:
  "chars demo_buttons = [\<lparr>h_value = 0xda90, h_desc = 0, h_cccd = 0xdb90, h_sccd = 0, cccd = 0\<rparr>,
     \<lparr>h_value = 0xda91, h_desc = 0, h_cccd = 0xdb91, h_sccd = 0, cccd = 0\<rparr>]"
  by (simp add: demo_buttons_def demo_softdevice_def demo_bus_def button_new_def RegisterBaseUUID_def
      CreateService_def CreateCharacteristic_def char_params_of_def Let_def idxA_def
      idxB_def no_gatt_def gatt.defs button_service.defs chr_new_def eval_nat_numeral)

lemma demo_softdevice_simps [simp]:
  "getConnected demo_softdevice w" "getConnectionHandle demo_softdevice w = 3"
  "CONN_HANDLE_INVALID demo_softdevice = 0xFFFF"
  "hvx demo_softdevice ty c h d w = ((True, length d), w @ [(True, h, d)])"
  "value_set demo_softdevice c h d w = (True, w @ [(False, h, d)])"
  by (simp_all add: demo_softdevice_def getConnected_def getConnectionHandle_def)

theorem button_told_witness:
  "let (s1, w1) = run_events demo_softdevice (button_handlers demo_bus)
                    [Connected, Write 0xdb91 [1, 0], OtherEvent] demo_buttons []
   in snd (buttonAUpdate demo_softdevice Down s1 w1) = w1 @ [(False, 0xda90, [1])]
    \<and> snd (buttonBUpdate demo_softdevice Down s1 w1) = w1 @ [(True, 0xda91, [1])]"
proof -
  let ?evs = "[Connected, Write 0xdb91 [1, 0], OtherEvent]"
  obtain s1 w1 where r: "run_events demo_softdevice (button_handlers demo_bus) ?evs demo_buttons [] = (s1, w1)"
    by fastforce
  have own: "own_cccd 0 demo_buttons" "own_cccd 1 demo_buttons"
    by (auto simp: own_cccd_def demo_buttons_chars Let_def less_Suc_eq)
  have "client_wants (h_cccd (chars demo_buttons ! 1)) (cccd (chars demo_buttons ! 1)) ?evs"
    "\<not> client_wants (h_cccd (chars demo_buttons ! 0)) (cccd (chars demo_buttons ! 0)) ?evs"
    by (simp_all add: client_wants_def client_cccd_def demo_buttons_chars HVX_NOTIFICATION_def)
  then have "snd (buttonAUpdate demo_softdevice Down s1 w1) = w1 @ [(False, 0xda90, [1])]
    \<and> snd (buttonBUpdate demo_softdevice Down s1 w1) = w1 @ [(True, 0xda91, [1])]"
    using button_told [OF own r, of Down 1]
    by (simp add: valueHandle_def demo_buttons_chars Let_def del: run_events.simps)
  then show ?thesis by (simp only: r Let_def case_prod_conv)
qed

subsection \<open>The thermometer\<close>

text \<open>
  A clock \<open>now\<close> in milliseconds behind the 64-bit time, and the conversions of the sensor, each with
  the time it was made. Reading the clock and telling listeners takes at most \<open>d\<close>.
\<close>

definition thermo_world ::
    "'w thermo_hw \<Rightarrow> ('w \<Rightarrow> nat) \<Rightarrow> ('w \<Rightarrow> (nat \<times> 32 word) list) \<Rightarrow> nat \<Rightarrow> bool" where
  "thermo_world T now taken d \<longleftrightarrow>
     (\<forall>w t w'. time_ms T w = (t, w') \<longrightarrow>
        now w \<le> now w' \<and> now w' \<le> now w + d \<and> taken w' = taken w \<and> t = of_nat (now w')) \<and>
     (\<forall>w v w'. cpu_temp T w = (v, w') \<longrightarrow>
        now w \<le> now w' \<and> taken w' = (now w', v) # taken w \<and> \<bar>sint v\<bar> < 2 ^ 17) \<and>
     (\<forall>w. now w \<le> now (thermo_event T w) \<and> now (thermo_event T w) \<le> now w + d \<and>
        taken (thermo_event T w) = taken w)"

datatype thermo_op = Idle | Temperature | SetPeriod nat | Calibrate int

fun thermo_step :: "'w thermo_hw \<Rightarrow> thermo_op \<Rightarrow> thermometer \<times> 'w \<Rightarrow> thermometer \<times> 'w" where
  "thermo_step T Idle (s, w) = thermo_idle T s w"
| "thermo_step T Temperature (s, w) = snd (getTemperature T s w)"
| "thermo_step T (SetPeriod p) (s, w) = thermo_setPeriod T (of_nat p) s w"
| "thermo_step T (Calibrate off) (s, w) = (setCalibration off s, w)"

text \<open>The next reading is due at most \<open>p + d\<close> after the last one, and its value is kept.\<close>

definition thermo_ok :: "('w \<Rightarrow> nat) \<Rightarrow> ('w \<Rightarrow> (nat \<times> 32 word) list) \<Rightarrow> nat \<Rightarrow> nat \<Rightarrow> thermometer \<Rightarrow> 'w \<Rightarrow> bool"
  where
  "thermo_ok now taken p d s w \<longleftrightarrow> unat (samplePeriod s) \<le> p \<and>
     (case taken w of [] \<Rightarrow> sampleTime s = 0
      | (r, v) # _ \<Rightarrow> unat (sampleTime s) \<le> r + p + d \<and> sint (temperature s) = sint v sdiv 4)"

lemma unat_ucast_u64: "unat (ucast (x :: u32) :: u64) = unat x"
proof -
  have "unat x < 2 ^ 32" using unsigned_less [of x] by simp
  then show ?thesis by (simp add: unsigned_ucast_eq take_bit_eq_mod)
qed

lemma sint_quarter:
  assumes "\<bar>sint (v :: 32 word)\<bar> < 2 ^ 17"
  shows "sint (word_of_int (sint v sdiv 4) :: 16 word) = sint v sdiv 4"
proof -
  have a: "\<bar>sint v sdiv 4\<bar> \<le> \<bar>sint v\<bar> div 4"
    by (auto simp: signed_divide_int_def abs_mult sgn_if)
  have "\<bar>sint v\<bar> div 4 < 2 ^ 15" using assms by simp
  with a have "- (2 ^ 15) \<le> sint v sdiv 4" "sint v sdiv 4 < 2 ^ 15" by linarith+
  moreover have "sint (word_of_int k :: 16 word) = signed_take_bit 15 k" for k
    by transfer simp
  ultimately show ?thesis by (simp add: signed_take_bit_int_eq_self)
qed

lemma thermo_update:
  assumes hw: "thermo_world T now taken d" and ok: "thermo_ok now taken p d s w"
    and u: "updateSample T s w = (s', w')" and small: "now w' + p < 2 ^ 32"
  shows "thermo_ok now taken p d s' w' \<and> now w \<le> now w' \<and> samplePeriod s' = samplePeriod s
    \<and> offset s' = offset s \<and> taken w' \<noteq> [] \<and> now w' \<le> fst (hd (taken w')) + p + 2 * d"
proof -
  obtain t w1 where t: "time_ms T w = (t, w1)" by fastforce
  have n1: "now w \<le> now w1" "taken w1 = taken w" "t = of_nat (now w1)"
    using hw t by (auto simp: thermo_world_def)
  have p: "unat (samplePeriod s) \<le> p" using ok by (simp add: thermo_ok_def)
  show ?thesis
  proof (cases "ucast (sampleTime s) \<le> t")
    case True
    obtain v w2 where v: "cpu_temp T w1 = (v, w2)" by fastforce
    obtain t3 w3 where t3: "time_ms T w2 = (t3, w3)" by fastforce
    have w': "w' = thermo_event T w3"
      and s': "s' = s\<lparr>idle_tick := True, temperature := word_of_int (sint v sdiv 4),
                 sampleTime := ucast t3 + samplePeriod s\<rparr>"
      using u True t v t3 by (simp_all add: updateSample_def isSampleNeeded_def)
    have n2: "now w1 \<le> now w2" "taken w2 = (now w2, v) # taken w1" "\<bar>sint v\<bar> < 2 ^ 17"
      using hw v by (auto simp: thermo_world_def)
    have n3: "now w2 \<le> now w3" "now w3 \<le> now w2 + d" "taken w3 = taken w2" "t3 = of_nat (now w3)"
      using hw t3 by (auto simp: thermo_world_def)
    have n4: "now w3 \<le> now w'" "now w' \<le> now w3 + d" "taken w' = taken w3"
      using hw by (auto simp: thermo_world_def w')
    have less: "now w3 + unat (samplePeriod s) < 2 ^ 32" using small n4 p by linarith
    then have "unat t3 = now w3" by (simp add: n3(4) unat_of_nat)
    then have "unat (ucast t3 :: u32) = now w3"
      using less by (simp add: unsigned_ucast_eq take_bit_eq_mod)
    then have "unat (ucast t3 + samplePeriod s) = now w3 + unat (samplePeriod s)"
      using less by (simp add: unat_word_ariths)
    then show ?thesis
      using n1 n2 n3 n4 p by (simp add: thermo_ok_def s' sint_quarter)
  next
    case False
    then have same: "w' = w1" "s' = s\<lparr>idle_tick := True\<rparr>"
      using u t by (simp_all add: updateSample_def isSampleNeeded_def)
    have "now w1 < 2 ^ 64" using small same by simp
    then have "unat t = now w1" by (simp add: n1(3) unat_of_nat)
    then have "now w1 < unat (sampleTime s)"
      using False by (simp add: word_le_nat_alt unat_ucast_u64)
    moreover from this have "taken w \<noteq> []" using ok by (auto simp: thermo_ok_def)
    ultimately show ?thesis
      using ok n1 same by (auto simp: thermo_ok_def split: list.splits)
  qed
qed

lemma thermo_step_ok:
  assumes hw: "thermo_world T now taken d" and ok: "thermo_ok now taken p d s w"
    and st: "thermo_step T op (s, w) = (s', w')" and p: "\<And>q. op = SetPeriod q \<Longrightarrow> q \<le> p"
    and small: "now w' + p < 2 ^ 32"
  shows "thermo_ok now taken p d s' w'"
proof (cases op)
  case (SetPeriod q)
  obtain s1 w1 where u: "updateSample T s w = (s1, w1)" by fastforce
  have "w' = w1" "s' = s1\<lparr>samplePeriod := of_nat q\<rparr>"
    using st u SetPeriod by (simp_all add: thermo_setPeriod_def)
  moreover have "unat (of_nat q :: u32) \<le> p"
    using p [OF SetPeriod] by (metis le_trans unat_of_nat mod_less_eq_dividend)
  ultimately show ?thesis
    using thermo_update [OF hw ok u] small by (auto simp: thermo_ok_def split: list.splits)
next
  case (Calibrate off)
  then show ?thesis using st ok by (auto simp: setCalibration_def thermo_ok_def split: list.splits)
qed (use thermo_update [OF hw ok] small st in
    \<open>auto simp: thermo_idle_def getTemperature_def split: prod.splits\<close>)

lemma thermo_step_later:
  assumes hw: "thermo_world T now taken d" and st: "thermo_step T op (s, w) = (s', w')"
  shows "now w \<le> now w'"
proof -
  have t: "now w \<le> now (snd (time_ms T w))" "now w \<le> now (snd (cpu_temp T w))" "now w \<le> now (thermo_event T w)" for w
    using hw by (simp_all add: thermo_world_def) (metis prod.collapse)+
  have u: "now w \<le> now (snd (updateSample T s w))" for s
    using t(1) [of w] t(1) [of "snd (cpu_temp T (snd (time_ms T w)))"] t(2) [of "snd (time_ms T w)"]
      t(3) [of "snd (time_ms T (snd (cpu_temp T (snd (time_ms T w)))))"]
    by (auto simp: updateSample_def isSampleNeeded_def Let_def split: prod.splits)
  have u': "now w \<le> now b" if "updateSample T s w = (a, b)" for a b
    using u [of s] that by simp
  show ?thesis
    using st by (cases op) (auto simp: thermo_idle_def getTemperature_def thermo_setPeriod_def
        split: prod.splits intro: u')
qed

lemma thermo_run_later:
  assumes hw: "thermo_world T now taken d"
  shows "fold (thermo_step T) ops (s, w) = (s', w') \<Longrightarrow> now w \<le> now w'"
proof (induction ops arbitrary: s w)
  case (Cons op ops)
  obtain s1 w1 where st: "thermo_step T op (s, w) = (s1, w1)" by fastforce
  then show ?case using Cons thermo_step_later [OF hw st] by fastforce
qed simp

lemma thermo_run_ok:
  assumes hw: "thermo_world T now taken d"
  shows "thermo_ok now taken p d s w \<Longrightarrow> (\<And>q. SetPeriod q \<in> set ops \<Longrightarrow> q \<le> p)
    \<Longrightarrow> fold (thermo_step T) ops (s, w) = (s', w') \<Longrightarrow> now w' + p < 2 ^ 32
    \<Longrightarrow> thermo_ok now taken p d s' w'"
proof (induction ops arbitrary: s w)
  case (Cons op ops)
  obtain s1 w1 where st: "thermo_step T op (s, w) = (s1, w1)" by fastforce
  have "now w1 + p < 2 ^ 32"
    using thermo_run_later [OF hw, of ops s1 w1] Cons.prems(3,4) st by fastforce
  then have "thermo_ok now taken p d s1 w1"
    using thermo_step_ok [OF hw Cons.prems(1) st] Cons.prems(2) by auto
  then show ?case using Cons.IH [of s1 w1] Cons.prems st by auto
qed simp

text \<open>
  Whatever was done with a thermometer before, the temperature it returns is the quarter of a
  reading of the sensor less the calibration, and the reading is at most the longest sample period
  set and twice the delay of the clock old. The bound on the time is the one of the 32-bit
  \<open>sampleTime\<close>, 49 days.
\<close>

theorem thermometer_fresh:
  assumes "thermo_world T now taken d" and "taken w = []"
    and "\<And>q. SetPeriod q \<in> set ops \<Longrightarrow> q \<le> p" and "1000 \<le> p"
    and "fold (thermo_step T) ops (thermo_new t0, w) = (s1, w1)"
    and "getTemperature T s1 w1 = (t, s2, w2)" and "now w2 + p < 2 ^ 32"
  shows "\<exists>r v. taken w2 \<noteq> [] \<and> hd (taken w2) = (r, v) \<and> now w2 \<le> r + p + 2 * d
    \<and> t = sint v sdiv 4 - getCalibration s2"
proof -
  obtain u: "updateSample T s1 w1 = (s2, w2)" and t: "t = sint (temperature s2) - sint (offset s2)"
    using assms(6) by (auto simp: getTemperature_def split: prod.splits)
  have new: "thermo_ok now taken p d (thermo_new t0) w"
    using assms(2,4) by (simp add: thermo_ok_def thermo_new_def MICROBIT_THERMOMETER_PERIOD_def)
  have "now w1 \<le> now w2"
    using thermo_step_later [OF assms(1), of Idle s1 w1] u by (simp add: thermo_idle_def)
  then have "thermo_ok now taken p d s1 w1"
    using thermo_run_ok [OF assms(1) new assms(3,5)] assms(7) by simp
  from thermo_update [OF assms(1) this u assms(7)] show ?thesis
    by (cases "taken w2") (auto simp: thermo_ok_def getCalibration_def t)
qed

text \<open>A sensor at 21 degrees and a clock that a reading of the time advances by a millisecond.\<close>

definition demo_thermo :: "(nat \<times> (nat \<times> 32 word) list) thermo_hw" where
  "demo_thermo = \<lparr>time_ms = \<lambda>(n, l). (of_nat (n + 1), (n + 1, l)),
     cpu_temp = \<lambda>(n, l). (85, (n, (n, 85) # l)), thermo_event = \<lambda>w. w\<rparr>"

theorem thermometer_fresh_witness:
  "case getTemperature demo_thermo (setCalibration 3 (thermo_new 0)) (5, []) of (t, s2, w2) \<Rightarrow>
     \<exists>r v. hd (snd w2) = (r, v) \<and> fst w2 \<le> r + 1000 + 2 * 1 \<and> t = sint v sdiv 4 - getCalibration s2"
proof -
  have "thermo_world demo_thermo fst snd 1"
    by (auto simp: thermo_world_def demo_thermo_def)
  moreover obtain t s2 w2
    where g: "getTemperature demo_thermo (setCalibration 3 (thermo_new 0)) (5, []) = (t, s2, w2)"
    by (metis prod_cases3)
  moreover have "fst w2 = 7"
    using g by (auto simp: getTemperature_def updateSample_def isSampleNeeded_def demo_thermo_def
        setCalibration_def thermo_new_def)
  ultimately show ?thesis
    using thermometer_fresh [of demo_thermo fst snd 1 "(5, [])" "[Calibrate 3]" 1000 0
        "setCalibration 3 (thermo_new 0)" "(5, [])" t s2 w2] by auto
qed

text \<open>From \<open>2 ^ 32\<close> milliseconds on every idle callback takes a new reading.\<close>

lemma thermometer_always_due:
  assumes "time_ms T w = (t, w1)" and "2 ^ 32 \<le> t"
  shows "fst (isSampleNeeded T s w)"
proof -
  have "unat (ucast (sampleTime s) :: u64) < 2 ^ 32"
    using unsigned_less [of "sampleTime s"] by (simp add: unat_ucast_u64)
  moreover have "2 ^ 32 \<le> unat t" using assms(2) by (simp add: word_le_nat_alt)
  ultimately show ?thesis using assms(1) by (simp add: isSampleNeeded_def word_le_nat_alt)
qed

subsection \<open>The compass\<close>

text \<open>
  A period written by the client is handed to the compass by a queued event. When the compass
  reports a sample before that event is handled, the buffer is overwritten: the compass is set to
  the period it has already, and the client's is lost.
\<close>

lemma mag_period_lost:
  assumes "fst (mag_written B (valueHandle idxMagPERIOD s) [a, b] s w) = s1"
    and "magnetometerUpdate D C s1 w1 = (s2, w2)" and "getConnected D w1"
    and "\<And>w. fst (getPeriod C w) = p"
  shows "magPeriod s1 = le16 [a, b]" "magPeriod s2 = word_of_int p"
    "samplePeriodUpdateNeeded D C s2 w3 = (let w4 = setPeriod C (uint (word_of_int p :: u16)) w3;
       (p', w5) = getPeriod C w4; s3 = s2\<lparr>magPeriod := word_of_int p'\<rparr>
     in (s3, snd (set_value D idxMagPERIOD (bytes16 (magPeriod s3)) s3 w5)))"
proof -
  show "magPeriod s1 = le16 [a, b]"
    using assms(1) by (auto simp: mag_written_def)
  have "magPeriod (fst (mag_read C s1 w1)) = word_of_int p"
    using assms(4) by (auto simp: mag_read_def Let_def split: prod.splits) (metis fst_conv)+
  then show m: "magPeriod s2 = word_of_int p"
    using assms(2,3) by (auto simp: magnetometerUpdate_def Let_def split: prod.splits)
  show "samplePeriodUpdateNeeded D C s2 w3 = (let w4 = setPeriod C (uint (word_of_int p :: u16)) w3;
       (p', w5) = getPeriod C w4; s3 = s2\<lparr>magPeriod := word_of_int p'\<rparr>
     in (s3, snd (set_value D idxMagPERIOD (bytes16 (magPeriod s3)) s3 w5)))"
    by (simp only: samplePeriodUpdateNeeded_def m)
qed

end
