(* ===== verification/ClientServices.thy ===== *)
theory ClientServices
  imports SensorProps
begin

text \<open>
  Two services a client works with: the event service
  (\<open>source/bluetooth/MicroBitEventService.cpp\<close>), which mirrors the message bus, and the service of the
  display (\<open>source/bluetooth/MicroBitLEDService.cpp\<close>). The message bus and the display belong to
  codal-core: they are the records \<open>event_bus\<close> and \<open>led_display\<close>.
\<close>

subsection \<open>The event service\<close>

type_synonym event = "u16 \<times> u16"

text \<open>\<open>elementAt\<close> is the listener with a given index: the event it waits for.\<close>

record 'w event_bus =
  fire :: "event \<Rightarrow> 'w \<Rightarrow> 'w"
  listen_for :: "event \<Rightarrow> 'w \<Rightarrow> 'w"
  ignore_all :: "'w \<Rightarrow> 'w"
  elementAt :: "nat \<Rightarrow> 'w \<Rightarrow> event option"

record event_service = gatt +
  microBitEventBuffer :: event
  microBitRequirementsBuffer :: event
  messageBusListenerOffset :: u16

definition idxMEVENT :: nat where "idxMEVENT = 0"
definition idxMREQ :: nat where "idxMREQ = 1"
definition idxCEVENT :: nat where "idxCEVENT = 2"
definition idxCREQ :: nat where "idxCREQ = 3"

definition event_bytes :: "event \<Rightarrow> u8 list" where
  "event_bytes e = bytes16 (fst e) @ bytes16 (snd e)"

text \<open>The loops over the events of a packet.\<close>

fun for_events :: "(event \<Rightarrow> 'w \<Rightarrow> 'w) \<Rightarrow> u8 list \<Rightarrow> 'w \<Rightarrow> 'w" where
  "for_events f (a # b # c # d # rest) w = for_events f rest (f (le16 [a, b], le16 [c, d]) w)"
| "for_events f data w = w"

definition event_written :: "'w event_bus \<Rightarrow> u16 \<Rightarrow> u8 list \<Rightarrow> 'a event_service_scheme \<Rightarrow> 'w
    \<Rightarrow> 'a event_service_scheme \<times> 'w" where
  "event_written E handle data s w =
     (if handle = valueHandle idxCEVENT s then (s, for_events (fire E) data w)
      else if handle = valueHandle idxCREQ s then (s, for_events (listen_for E) data w)
      else (s, w))"

definition onMicroBitEvent :: "'w softdevice \<Rightarrow> event \<Rightarrow> 'a event_service_scheme \<Rightarrow> 'w
    \<Rightarrow> 'a event_service_scheme \<times> 'w" where
  "onMicroBitEvent D evt s w =
     (if getConnected D w then
        let s1 = s\<lparr>microBitEventBuffer := evt\<rparr>
        in (s1, snd (notify_value D idxMEVENT (event_bytes (microBitEventBuffer s1)) s1 w))
      else (s, w))"

definition event_idle :: "'w softdevice \<Rightarrow> 'w event_bus \<Rightarrow> 'a event_service_scheme \<Rightarrow> 'w
    \<Rightarrow> 'a event_service_scheme \<times> 'w" where
  "event_idle D E s w =
     (if \<not> getConnected D w \<and> 0 < messageBusListenerOffset s
      then (s\<lparr>messageBusListenerOffset := 0\<rparr>, ignore_all E w) else (s, w))"

definition event_read :: "'w event_bus \<Rightarrow> u16 \<Rightarrow> read_params \<Rightarrow> 'a event_service_scheme \<Rightarrow> 'w
    \<Rightarrow> read_params \<times> 'a event_service_scheme \<times> 'w" where
  "event_read E handle p s w =
     (if handle = valueHandle idxMREQ s then
        let l = elementAt E (unat (messageBusListenerOffset s)) w;
            s1 = s\<lparr>messageBusListenerOffset := messageBusListenerOffset s + 1\<rparr>
        in case l of
             Some e \<Rightarrow> let s2 = s1\<lparr>microBitRequirementsBuffer := e\<rparr>
                       in (p\<lparr>rd_data := event_bytes (microBitRequirementsBuffer s2)\<rparr>, s2, w)
           | None \<Rightarrow> (p\<lparr>rd_data := []\<rparr>, s1, w)
      else (p, s, w))"

definition event_handlers :: "'w event_bus \<Rightarrow> ('a event_service_ext, 'w) handlers" where
  "event_handlers E = no_handlers\<lparr>onDataWritten := event_written E, onDataRead := event_read E\<rparr>"

definition event_new :: "'w softdevice \<Rightarrow> nat \<Rightarrow> 'w \<Rightarrow> event_service \<times> 'w" where
  "event_new D security w =
     (let z = event_bytes (0, 0);
          s = gatt.extend (no_gatt 4) (event_service.fields (0, 0) (0, 0) 0);
          (s1, w1) = RegisterBaseUUID D bs_base_uuid s w;
          (s2, w2) = CreateService D 0x93af s1 w1;
          (s3, w3) = CreateCharacteristic D security idxMEVENT 0x9775 z 4 4 (propREAD OR propNOTIFY) s2 w2;
          (s4, w4) = CreateCharacteristic D security idxCEVENT 0x5404 z 4 4
                       (propWRITE OR propWRITE_WITHOUT) s3 w3;
          (s5, w5) = CreateCharacteristic D security idxCREQ 0x23c4 z 4 4 propWRITE s4 w4
      in CreateCharacteristic D security idxMREQ 0xb84c z 4 4
           (propREAD OR propNOTIFY OR propREADAUTH) s5 w5)"

subsection \<open>The service of the display\<close>

record 'w led_display =
  setPixelValue :: "nat \<Rightarrow> nat \<Rightarrow> u8 \<Rightarrow> 'w \<Rightarrow> 'w"
  getPixelValue :: "nat \<Rightarrow> nat \<Rightarrow> 'w \<Rightarrow> int"
  stopAnimation :: "'w \<Rightarrow> 'w"
  scrollAsync :: "u8 list \<Rightarrow> nat \<Rightarrow> 'w \<Rightarrow> 'w"

record led_service = gatt +
  matrixValue :: "u8 list"
  speedValue :: u16

definition idxMATRIX :: nat where "idxMATRIX = 0"
definition idxTEXT :: nat where "idxTEXT = 1"
definition idxSPEED :: nat where "idxSPEED = 2"

definition column_bit :: "nat \<Rightarrow> u8" where
  "column_bit x = push_bit (4 - x) 1"

definition write_row :: "'w led_display \<Rightarrow> u8 list \<Rightarrow> nat \<Rightarrow> 'w \<Rightarrow> 'w" where
  "write_row L data y w =
     fold (\<lambda>x. setPixelValue L x y (if data ! y AND column_bit x \<noteq> 0 then 255 else 0)) [0..<5] w"

definition led_written :: "'w led_display \<Rightarrow> u16 \<Rightarrow> u8 list \<Rightarrow> 'a led_service_scheme \<Rightarrow> 'w
    \<Rightarrow> 'a led_service_scheme \<times> 'w" where
  "led_written L handle data s w =
     (if handle = valueHandle idxMATRIX s \<and> 0 < length data \<and> length data < 6 then
        (s, fold (write_row L data) [0..<length data] (stopAnimation L w))
      else if handle = valueHandle idxTEXT s then
        (s, scrollAsync L data (unat (speedValue s)) (stopAnimation L w))
      else if handle = valueHandle idxSPEED s \<and> 2 \<le> length data then
        (s\<lparr>speedValue := le16 data\<rparr>, w)
      else (s, w))"

definition read_row :: "'w led_display \<Rightarrow> 'w \<Rightarrow> nat \<Rightarrow> u8" where
  "read_row L w y =
     fold (\<lambda>x v. if getPixelValue L x y w \<noteq> 0 then v OR column_bit x else v) [0..<5] 0"

definition led_read :: "'w led_display \<Rightarrow> u16 \<Rightarrow> read_params \<Rightarrow> 'a led_service_scheme \<Rightarrow> 'w
    \<Rightarrow> read_params \<times> 'a led_service_scheme \<times> 'w" where
  "led_read L handle p s w =
     (if handle = valueHandle idxMATRIX s then
        let s1 = s\<lparr>matrixValue := map (read_row L w) [0..<5]\<rparr>
        in (p\<lparr>rd_data := matrixValue s1\<rparr>, s1, w)
      else (p, s, w))"

definition led_handlers :: "'w led_display \<Rightarrow> ('a led_service_ext, 'w) handlers" where
  "led_handlers L = no_handlers\<lparr>onDataWritten := led_written L, onDataRead := led_read L\<rparr>"

text \<open>
  The default scroll speed is a setting of codal-core; \<open>text\<close> is what the constructor leaves in the
  buffer behind its first byte.
\<close>

definition led_service_new :: "'w softdevice \<Rightarrow> nat \<Rightarrow> u16 \<Rightarrow> u8 list \<Rightarrow> 'w \<Rightarrow> led_service \<times> 'w" where
  "led_service_new D security speed text w =
     (let s = gatt.extend (no_gatt 3) (led_service.fields [0, 0, 0, 0, 0] speed);
          (s1, w1) = RegisterBaseUUID D bs_base_uuid s w;
          (s2, w2) = CreateService D 0xd91d s1 w1;
          (s3, w3) = CreateCharacteristic D security idxMATRIX 0x7b77 (matrixValue s2) 5 5
                       (propWRITE OR propREAD OR propREADAUTH) s2 w2;
          (s4, w4) = CreateCharacteristic D security idxTEXT 0x93ee (0 # text) 20 20 propWRITE s3 w3
      in CreateCharacteristic D security idxSPEED 0x0d2d (bytes16 (speedValue s4)) 2 2
           (propWRITE OR propREAD) s4 w4)"

subsection \<open>The contract of the services\<close>

interpretation events: gatt_service "event_handlers E"
  by unfold_locales (simp_all add: event_handlers_def no_handlers_def event_written_def event_read_def
      Let_def split: option.splits)

interpretation leds: gatt_service "led_handlers L"
  by unfold_locales (simp_all add: led_handlers_def no_handlers_def led_written_def led_read_def Let_def)

subsection \<open>Walking the listeners\<close>

text \<open>A client that reads the requirements \<open>n\<close> times: the answers in order.\<close>

fun read_requirements :: "'w softdevice \<Rightarrow> 'w event_bus \<Rightarrow> nat \<Rightarrow> 'a event_service_scheme \<Rightarrow> 'w
    \<Rightarrow> u8 list list \<times> 'a event_service_scheme \<times> 'w" where
  "read_requirements D E 0 s w = ([], s, w)"
| "read_requirements D E (Suc n) s w =
     (let (p, s1, w1) = onDataRead (event_handlers E) (valueHandle idxMREQ s)
                          \<lparr>rd_allow = True, rd_update = True, rd_offset = 0, rd_data = []\<rparr> s w;
          (ds, s2, w2) = read_requirements D E n s1 w1
      in (rd_data p # ds, s2, w2))"

lemma read_requirements_from:
  assumes "\<And>n. elementAt E n w = (if n < length ls then Some (ls ! n) else None)"
    and "k + unat (messageBusListenerOffset s) < 2 ^ 16"
  shows "fst (read_requirements D E k s w)
    = map (\<lambda>n. if n < length ls then event_bytes (ls ! n) else [])
        [unat (messageBusListenerOffset s)..<unat (messageBusListenerOffset s) + k]"
  using assms(2)
proof (induction k arbitrary: s)
  case (Suc k)
  let ?o = "unat (messageBusListenerOffset s)"
  define r where "r = event_read E (valueHandle idxMREQ s)
      \<lparr>rd_allow = True, rd_update = True, rd_offset = 0, rd_data = []\<rparr> s w"
  have o: "unat (messageBusListenerOffset s + 1) = ?o + 1"
    using Suc.prems by (simp add: unat_word_ariths)
  have r: "rd_data (fst r) = (if ?o < length ls then event_bytes (ls ! ?o) else [])"
    "messageBusListenerOffset (fst (snd r)) = messageBusListenerOffset s + 1" "snd (snd r) = w"
    by (auto simp: r_def event_read_def assms(1) Let_def)
  have "fst (read_requirements D E k (fst (snd r)) w)
      = map (\<lambda>n. if n < length ls then event_bytes (ls ! n) else []) [?o + 1..<?o + 1 + k]"
    using Suc.prems Suc.IH [of "fst (snd r)"] by (simp add: r(2) o)
  moreover have "fst (read_requirements D E (Suc k) s w) = rd_data (fst r) # fst (read_requirements D E k (fst (snd r)) w)"
  proof -
    obtain p s1 where ps: "r = (p, s1, w)" using r(3) by (metis prod.collapse)
    then show ?thesis by (simp add: r_def event_handlers_def Let_def split: prod.splits)
  qed
  moreover have "[?o..<?o + Suc k] = ?o # [?o + 1..<?o + 1 + k]" by (simp add: upt_conv_Cons)
  ultimately show ?case by (simp add: r(1))
qed simp

text \<open>
  Once the idle callback has run without a connection, whatever clients did before, a client that
  reads the requirements characteristic again and again is shown the events the program listens for,
  one to a read and in their order, and after them empty answers.
\<close>

theorem requirements_walked:
  assumes "\<not> getConnected D w0" and "event_idle D E s0 w0 = (s, w1)"
    and "\<And>n. elementAt E n w = (if n < length ls then Some (ls ! n) else None)"
    and "length ls + k < 2 ^ 16"
  shows "fst (read_requirements D E (length ls + k) s w) = map event_bytes ls @ replicate k []"
proof -
  have "messageBusListenerOffset s = 0"
    using assms(1,2) by (auto simp: event_idle_def word_gt_0 split: if_splits)
  then have "fst (read_requirements D E (length ls + k) s w)
      = map (\<lambda>n. if n < length ls then event_bytes (ls ! n) else []) [0..<length ls + k]"
    using read_requirements_from [OF assms(3), of "length ls + k" s D] assms(4) by simp
  also have "\<dots> = map event_bytes ls @ replicate k []"
    by (rule nth_equalityI) (auto simp: nth_append)
  finally show ?thesis .
qed

definition demo_event_bus :: "'w event_bus" where
  "demo_event_bus = \<lparr>fire = \<lambda>_ w. w, listen_for = \<lambda>_ w. w, ignore_all = \<lambda>w. w,
     elementAt = \<lambda>n _. if n = 0 then Some (4, 2) else if n = 1 then Some (5, 1) else None\<rparr>"

theorem requirements_walked_witness:
  "let D = demo_softdevice\<lparr>periph_conn_count := \<lambda>w. length w\<rparr>;
       (s0, w0) = event_new demo_softdevice 2 [];
       (s, w1) = event_idle D demo_event_bus (s0\<lparr>messageBusListenerOffset := 9\<rparr>) []
   in fst (read_requirements D demo_event_bus 3 s [(True, 1, [])])
        = [event_bytes (4, 2), event_bytes (5, 1), []]"
proof -
  let ?D = "demo_softdevice\<lparr>periph_conn_count := \<lambda>w. length w\<rparr>"
  define s0 where "s0 = fst (event_new demo_softdevice 2 [])"
  obtain s w1 where i: "event_idle ?D demo_event_bus (s0\<lparr>messageBusListenerOffset := 9\<rparr>) [] = (s, w1)"
    by fastforce
  have "fst (read_requirements ?D demo_event_bus (length [(4, 2), (5, 1) :: event] + 1) s [(True, 1, [])])
      = map event_bytes [(4, 2), (5, 1)] @ replicate 1 []"
    by (rule requirements_walked [OF _ i]) (auto simp: getConnected_def demo_event_bus_def less_Suc_eq)
  then have "fst (read_requirements ?D demo_event_bus 3 s [(True, 1, [])])
      = [event_bytes (4, 2), event_bytes (5, 1), []]"
    by (simp del: read_requirements.simps add: eval_nat_numeral)
  then show ?thesis using i
    by (simp only: Let_def case_prod_beta s0_def [symmetric] fst_conv)
qed

text \<open>
  Listeners a client registers stay after it has gone when it never read the requirements: the idle
  callback takes the read position as the sign that there is something to remove.
\<close>

lemma listeners_stay:
  assumes "messageBusListenerOffset s = 0"
  shows "event_idle D E (fst (event_written E h data s w)) w' = (fst (event_written E h data s w), w')"
  using assms by (auto simp: event_idle_def event_written_def)

subsection \<open>The picture on the display\<close>

text \<open>Pixels of the five by five image are independent of each other and of animations.\<close>

definition display_ok :: "'w led_display \<Rightarrow> bool" where
  "display_ok L \<longleftrightarrow>
     (\<forall>w x y v x' y'. x < 5 \<longrightarrow> y < 5 \<longrightarrow> x' < 5 \<longrightarrow> y' < 5 \<longrightarrow>
        getPixelValue L x' y' (setPixelValue L x y v w)
          = (if x' = x \<and> y' = y then uint v else getPixelValue L x' y' w))"

lemma write_row_pixels:
  assumes "display_ok L" "y < 5" "x' < 5" "y' < 5"
  shows "getPixelValue L x' y' (write_row L data y w)
    = (if y' = y then (if data ! y AND column_bit x' \<noteq> 0 then 255 else 0) else getPixelValue L x' y' w)"
proof -
  have "getPixelValue L x' y' (fold (\<lambda>x. setPixelValue L x y (f x)) [0..<n] w)
      = (if y' = y \<and> x' < n then uint (f x') else getPixelValue L x' y' w)" if "n \<le> 5" for n f
    using that
  proof (induction n)
    case (Suc n)
    then show ?case using assms by (auto simp: display_ok_def less_Suc_eq)
  qed simp
  from this [of 5] show ?thesis using assms by (auto simp: write_row_def)
qed

lemma write_rows_pixels:
  assumes "display_ok L" "n \<le> 5" "x < 5" "y < 5"
  shows "getPixelValue L x y (fold (write_row L data) [0..<n] w)
    = (if y < n then (if data ! y AND column_bit x \<noteq> 0 then 255 else 0) else getPixelValue L x y w)"
  using assms(2)
proof (induction n)
  case (Suc n)
  then show ?case using write_row_pixels [OF assms(1) _ assms(3,4), of n data] by (auto simp: less_Suc_eq)
qed simp

lemma column_bit_bits: "bit (column_bit x) m \<longleftrightarrow> m = 4 - x"
  by (auto simp: column_bit_def bit_simps)

lemma column_bit_test: "v AND column_bit x \<noteq> 0 \<longleftrightarrow> bit v (4 - x)"
  using bit_eq_iff [of "v AND column_bit x" 0] by (auto simp: bit_and_iff column_bit_bits)

lemma read_row_bits:
  assumes "\<And>x. x < 5 \<Longrightarrow> (getPixelValue L x y w \<noteq> 0) = bit v (4 - x)"
  shows "read_row L w y = v AND 31"
proof -
  let ?f = "\<lambda>x u. if getPixelValue L x y w \<noteq> 0 then u OR column_bit x else u"
  have fold: "bit (fold ?f [0..<n] 0) m \<longleftrightarrow> (\<exists>x < n. m = 4 - x \<and> bit v (4 - x))" if "n \<le> 5" for n m
    using that
  proof (induction n)
    case (Suc n)
    then show ?case using assms [of n] by (auto simp: bit_simps column_bit_bits less_Suc_eq)
  qed simp
  have "bit (v AND 31) m \<longleftrightarrow> m < 5 \<and> bit v m" for m
    using bit_mask_iff [of 5 m, where ?'a = "8 word"] by (auto simp: bit_simps mask_numeral)
  moreover have "bit (read_row L w y) m \<longleftrightarrow> m < 5 \<and> bit v m" for m
    unfolding read_row_def fold [OF order_refl]
    by (auto intro: exI [of _ "4 - m"])
  ultimately show ?thesis by (simp add: bit_eq_iff)
qed

text \<open>
  A client that writes one to five rows of the matrix and then reads it gets the low five bits of
  the rows it wrote, and what the display showed before in the rows it left out.
\<close>

theorem led_matrix_roundtrip:
  assumes "display_ok L" and "0 < length rows" "length rows < 6"
    and "\<And>w x y. getPixelValue L x y (stopAnimation L w) = getPixelValue L x y w"
    and "led_written L (valueHandle idxMATRIX s) rows s w = (s1, w1)"
    and "led_read L (valueHandle idxMATRIX s1) p s1 w1 = (p', s2, w2)"
  shows "rd_data p' = map (\<lambda>y. if y < length rows then rows ! y AND 31 else read_row L w y) [0..<5]
    \<and> w2 = w1"
proof -
  have w1: "w1 = fold (write_row L rows) [0..<length rows] (stopAnimation L w)"
    using assms(2,3,5) by (simp add: led_written_def)
  have pix: "getPixelValue L x y w1
      = (if y < length rows then (if bit (rows ! y) (4 - x) then 255 else 0) else getPixelValue L x y w)"
    if "x < 5" "y < 5" for x y
    using write_rows_pixels [OF assms(1) _ that, of "length rows"] assms(3,4)
    by (simp add: w1 column_bit_test)
  have "read_row L w1 y = (if y < length rows then rows ! y AND 31 else read_row L w y)" if "y < 5" for y
  proof (cases "y < length rows")
    case True
    then show ?thesis using read_row_bits [of L y w1 "rows ! y"] pix [OF _ that] by auto
  next
    case False
    then have "read_row L w1 y = read_row L w y"
      unfolding read_row_def by (intro fold_cong) (use pix [OF _ that] in auto)
    then show ?thesis using False by simp
  qed
  then show ?thesis using assms(6) by (auto simp: led_read_def Let_def)
qed

definition demo_display :: "(nat \<times> nat \<Rightarrow> u8) led_display" where
  "demo_display = \<lparr>setPixelValue = \<lambda>x y v w. w((x, y) := v), getPixelValue = \<lambda>x y w. uint (w (x, y)),
     stopAnimation = \<lambda>w. w, scrollAsync = \<lambda>_ _ w. w\<rparr>"

theorem led_matrix_roundtrip_witness:
  "let s = fst (led_service_new demo_softdevice 2 120 [] []);
       (s1, w1) = led_written demo_display (valueHandle idxMATRIX s) [0xF1, 0x0E] s (\<lambda>_. 0);
       (p', s2, w2) = led_read demo_display (valueHandle idxMATRIX s1)
                        \<lparr>rd_allow = True, rd_update = True, rd_offset = 0, rd_data = []\<rparr> s1 w1
   in rd_data p' = [0x11, 0x0E, 0, 0, 0]"
proof -
  let ?p = "\<lparr>rd_allow = True, rd_update = True, rd_offset = 0, rd_data = []\<rparr> :: read_params"
  define s where "s = fst (led_service_new demo_softdevice 2 120 [] [])"
  obtain s1 w1 where wr: "led_written demo_display (valueHandle idxMATRIX s) [0xF1, 0x0E] s (\<lambda>_. 0) = (s1, w1)"
    by fastforce
  obtain p' s2 w2 where rd: "led_read demo_display (valueHandle idxMATRIX s1) ?p s1 w1 = (p', s2, w2)"
    by (metis prod_cases3)
  have "display_ok demo_display" by (auto simp: display_ok_def demo_display_def)
  from led_matrix_roundtrip [OF this _ _ _ wr rd]
  have "rd_data p' = [0x11, 0x0E, 0, 0, 0]"
    by (simp add: demo_display_def read_row_def upt_rec)
  then show ?thesis
    by (simp only: s_def [symmetric] wr rd Let_def case_prod_conv)
qed

end
