(* ===== verification/BLEManager.thy ===== *)
theory BLEManager
  imports MB_Prelude Eddystone Device "HOL-Library.Monad_Syntax"
begin

text \<open>
  \<open>MicroBitBLEManager\<close> (\<open>source/bluetooth/MicroBitBLEManager.cpp\<close>,
  \<open>inc/bluetooth/MicroBitBLEManager.h\<close>): starting the Bluetooth stack, advertising, the pairing mode,
  and the shutdown. The SoftDevice, the peer manager and the other modules of the SDK, the clock, the
  scheduler, the display and the key-value storage are the record \<open>ble_hw\<close> over a state of any type.
\<close>

type_synonym u64 = "64 word"

subsection \<open>Constants\<close>

definition PAIR_REQUEST :: u32 where "PAIR_REQUEST = 0x01"
definition PAIR_COMPLETE :: u32 where "PAIR_COMPLETE = 0x02"
definition PAIR_PASSCODE :: u32 where "PAIR_PASSCODE = 0x04"
definition PAIR_SUCCESSFUL :: u32 where "PAIR_SUCCESSFUL = 0x08"

definition PAIRING_TIMEOUT :: nat where "PAIRING_TIMEOUT = 90"
definition POWER_LEVELS :: nat where "POWER_LEVELS = 8"
definition MAXIMUM_BONDS :: nat where "MAXIMUM_BONDS = 4"
definition STATUS_DISCONNECT :: u32 where "STATUS_DISCONNECT = 0x04"
definition STATUS_SHUTDOWN :: u32 where "STATUS_SHUTDOWN = 0x08"
definition PAIRING_FADE_SPEED :: int where "PAIRING_FADE_SPEED = 4"
definition DISCONNECT_AFTER_PAIRING_DELAY :: nat where "DISCONNECT_AFTER_PAIRING_DELAY = 2000"
definition PAIRING_EVENT_DELAY :: nat where "PAIRING_EVENT_DELAY = 2000"
definition SHUTDOWN_DELAY :: nat where "SHUTDOWN_DELAY = 500"

definition POWER_LEVEL :: "int list" where
  "POWER_LEVEL = [-40, -20, -16, -12, -8, -4, 0, 4]"

text \<open>The settings of \<open>inc/MicroBitConfig.h\<close>.\<close>

definition DEFAULT_TX_POWER :: int where "DEFAULT_TX_POWER = 1"
definition ADVERTISING_TIMEOUT :: nat where "ADVERTISING_TIMEOUT = 0"
definition ADVERTISING_INTERVAL :: nat where "ADVERTISING_INTERVAL = 50"
definition BLE_MODEL :: string where "BLE_MODEL = ''BBC micro:bit''"

datatype ble_mode = MODE_PAIRING | MODE_APPLICATION

datatype pair_event = PAIR_FAILURE | PAIR_SUCCESS | PAIR_AUTH | PAIR_UPDATE | PAIR_CHECK

datatype io_caps = CAPS_NONE | CAPS_DISPLAY_ONLY

record sec_params =
  bond :: bool
  mitm :: bool
  sec_io_caps :: io_caps
  min_key_size :: nat
  max_key_size :: nat
  kdist_own :: bool
  kdist_peer :: bool

datatype name_type = NO_NAME | FULL_NAME
datatype adv_flags = FLAGS_NONE | FLAGS_GENERAL | FLAGS_LE_ONLY_GENERAL

text \<open>The service data is there for Eddystone frames, with their service UUID.\<close>

record advdata =
  adv_name :: name_type
  adv_flags_of :: adv_flags
  adv_uuid :: "u16 option"
  adv_service_data :: "(u16 \<times> u8 list) option"

record adv_params =
  adv_connectable :: bool
  adv_interval :: nat
  adv_duration :: nat
  adv_filter :: bool

datatype picture = Arrow | Tick | Cross | BtIcon

datatype service = DFU | PartialFlashing | DeviceInformation string string | EventService

record manager =
  mstatus :: u32
  pairingStatus :: u32
  passKey :: string
  gapName :: string
  pairingTime :: u32
  shutdownTime :: u32
  currentMode :: ble_mode
  advertiseOnDisconnect :: bool
  m_power :: int
  m_adv_handle :: "u8 option"
  m_pending :: int
  wasEnabled :: bool
  idle_component :: bool

text \<open>
  \<open>fiber_sleep\<close> runs the other fibres and the interrupts, so it may change the manager. The peers are
  those of the peer manager, each with its pending mark, \<open>None\<close> if it cannot be read.
\<close>

record 'w ble_hw =
  time_ms :: "'w \<Rightarrow> u64 \<times> 'w"
  fiber_sleep :: "nat \<Rightarrow> manager \<Rightarrow> 'w \<Rightarrow> manager \<times> 'w"
  poll :: "manager \<Rightarrow> 'w \<Rightarrow> manager \<times> 'w"
  adv_start :: "u8 option \<Rightarrow> 'w \<Rightarrow> 'w"
  adv_stop :: "u8 option \<Rightarrow> 'w \<Rightarrow> 'w"
  adv_encode :: "advdata \<Rightarrow> 'w \<Rightarrow> u8 list"
  adv_set_configure :: "u8 option \<Rightarrow> u8 list \<Rightarrow> adv_params \<Rightarrow> 'w \<Rightarrow> u8 option \<times> 'w"
  ADV_INTERVAL_MIN :: nat
  ADV_INTERVAL_MAX :: nat
  tx_power_adv :: "u8 \<Rightarrow> int \<Rightarrow> 'w \<Rightarrow> 'w"
  tx_power_conn :: "u16 \<Rightarrow> int \<Rightarrow> 'w \<Rightarrow> 'w"
  connections :: "'w \<Rightarrow> u16 list"
  peripherals :: "'w \<Rightarrow> u16 list"
  gap_disconnect :: "u16 \<Rightarrow> 'w \<Rightarrow> 'w"
  bus_event :: "bool \<Rightarrow> 'w \<Rightarrow> 'w"
  peer_list :: "'w \<Rightarrow> (nat \<times> bool option) list"
  delete_lowest_ranked :: "'w \<Rightarrow> 'w"
  whitelist_set :: "nat list \<Rightarrow> 'w \<Rightarrow> 'w"
  identities_set :: "nat list \<Rightarrow> 'w \<Rightarrow> 'w"
  database_changed :: "'w \<Rightarrow> 'w"
  stack_init :: "string \<Rightarrow> sec_params \<Rightarrow> 'w \<Rightarrow> 'w"
  conn_params_init :: "'w \<Rightarrow> 'w"
  start_service :: "service \<Rightarrow> 'w \<Rightarrow> 'w"
  pwr_mgmt_shutdown :: "'w \<Rightarrow> 'w"
  sdh_suspended :: "'w \<Rightarrow> bool"
  sdh_suspend :: "'w \<Rightarrow> 'w"
  sdh_resume :: "'w \<Rightarrow> 'w"
  display_stop :: "'w \<Rightarrow> 'w"
  display_clear :: "'w \<Rightarrow> 'w"
  display_print :: "picture \<Rightarrow> 'w \<Rightarrow> 'w"
  display_char :: "char \<Rightarrow> 'w \<Rightarrow> 'w"
  display_brightness :: "int \<Rightarrow> 'w \<Rightarrow> 'w"
  display_pixel :: "int \<Rightarrow> int \<Rightarrow> u8 \<Rightarrow> 'w \<Rightarrow> 'w"
  display_animate :: "'w \<Rightarrow> 'w"
  button_pressed :: "'w \<Rightarrow> bool"
  reboot_mode :: "'w \<Rightarrow> bool"
  put_reboot_mode :: "u8 list \<Rightarrow> 'w \<Rightarrow> 'w"
  pointer_bytes :: "'w \<Rightarrow> u8 list"
  reset :: "'w \<Rightarrow> 'w"

definition manager_new :: manager where
  "manager_new = \<lparr>mstatus = 0, pairingStatus = 0, passKey = [], gapName = [], pairingTime = 0,
     shutdownTime = 0, currentMode = MODE_APPLICATION, advertiseOnDisconnect = True,
     m_power = DEFAULT_TX_POWER, m_adv_handle = None, m_pending = 0, wasEnabled = False,
     idle_component = False\<rparr>"

subsection \<open>Advertising\<close>

definition advertise :: "'w ble_hw \<Rightarrow> manager \<Rightarrow> 'w \<Rightarrow> 'w" where
  "advertise H m w = adv_start H (m_adv_handle m) w"

definition stopAdvertising :: "'w ble_hw \<Rightarrow> manager \<Rightarrow> 'w \<Rightarrow> 'w" where
  "stopAdvertising H m w = adv_stop H (m_adv_handle m) w"

definition adv_interval_of :: "'w ble_hw \<Rightarrow> nat \<Rightarrow> nat" where
  "adv_interval_of H interval_ms =
     (let i = 1000 * interval_ms div 625;
          i1 = (if i < ADV_INTERVAL_MIN H then ADV_INTERVAL_MIN H else i)
      in if ADV_INTERVAL_MAX H < i1 then ADV_INTERVAL_MAX H else i1)"

definition configure_advdata ::
    "'w ble_hw \<Rightarrow> bool \<Rightarrow> bool \<Rightarrow> nat \<Rightarrow> nat \<Rightarrow> advdata \<Rightarrow> manager \<Rightarrow> 'w \<Rightarrow> manager \<times> 'w" where
  "configure_advdata H connectable whitelist interval_ms timeout_seconds d m w =
     (let params = \<lparr>adv_connectable = connectable, adv_interval = adv_interval_of H interval_ms,
                     adv_duration = timeout_seconds * 100, adv_filter = whitelist\<rparr>;
          (h, w1) = adv_set_configure H (m_adv_handle m) (adv_encode H d w) params w
      in (m\<lparr>m_adv_handle := h\<rparr>, w1))"

definition configureAdvertising ::
    "'w ble_hw \<Rightarrow> bool \<Rightarrow> bool \<Rightarrow> bool \<Rightarrow> nat \<Rightarrow> nat \<Rightarrow> manager \<Rightarrow> 'w \<Rightarrow> manager \<times> 'w" where
  "configureAdvertising H connectable discoverable whitelist interval_ms timeout_seconds m w =
     configure_advdata H connectable whitelist interval_ms timeout_seconds
       \<lparr>adv_name = FULL_NAME,
        adv_flags_of = (if \<not> whitelist \<and> discoverable then FLAGS_GENERAL else FLAGS_NONE),
        adv_uuid = None, adv_service_data = None\<rparr> m w"

definition configure_frame ::
    "'w ble_hw \<Rightarrow> bool \<Rightarrow> bool \<Rightarrow> nat \<Rightarrow> nat \<Rightarrow> u8 list \<Rightarrow> manager \<Rightarrow> 'w \<Rightarrow> manager \<times> 'w" where
  "configure_frame H connectable whitelist interval_ms timeout_seconds frameData m w =
     configure_advdata H connectable whitelist interval_ms timeout_seconds
       \<lparr>adv_name = NO_NAME, adv_flags_of = FLAGS_LE_ONLY_GENERAL, adv_uuid = Some 0xFEAA,
        adv_service_data = (if frameData = [] then None else Some (0xFEAA, frameData))\<rparr> m w"

definition advertise_frame ::
    "'w ble_hw \<Rightarrow> code \<times> u8 list \<Rightarrow> bool \<Rightarrow> nat \<Rightarrow> manager \<Rightarrow> 'w \<Rightarrow> code \<times> manager \<times> 'w" where
  "advertise_frame H frame connectable interval m w =
     (case frame of (ret, frameData) \<Rightarrow>
        if ret = OK then
          let (m1, w1) = configure_frame H connectable False interval ADVERTISING_TIMEOUT
                           (drop 2 frameData) m (stopAdvertising H m w)
          in (ret, m1, advertise H m1 w1)
        else (ret, m, w))"

definition advertiseEddystoneUrl ::
    "'w ble_hw \<Rightarrow> u8 list option \<Rightarrow> u8 \<Rightarrow> bool \<Rightarrow> nat \<Rightarrow> manager \<Rightarrow> 'w \<Rightarrow> code \<times> manager \<times> 'w" where
  "advertiseEddystoneUrl H url calibratedPower connectable interval m w =
     advertise_frame H (getURL url calibratedPower) connectable interval m w"

definition advertiseEddystoneUid ::
    "'w ble_hw \<Rightarrow> u8 list option \<Rightarrow> u8 list option \<Rightarrow> u8 \<Rightarrow> bool \<Rightarrow> nat \<Rightarrow> manager \<Rightarrow> 'w
     \<Rightarrow> code \<times> manager \<times> 'w" where
  "advertiseEddystoneUid H uid_namespace uid_instance calibratedPower connectable interval m w =
     advertise_frame H (getUID uid_namespace uid_instance calibratedPower) connectable interval m w"

definition setTransmitPower :: "'w ble_hw \<Rightarrow> int \<Rightarrow> manager \<Rightarrow> 'w \<Rightarrow> code \<times> manager \<times> 'w" where
  "setTransmitPower H level m w =
     (if level < 0 \<or> level \<ge> int POWER_LEVELS then (INVALID_PARAMETER, m, w)
      else
        let m1 = m\<lparr>m_power := level\<rparr>;
            p = POWER_LEVEL ! nat level;
            w1 = fold (\<lambda>c. tx_power_conn H c p) (connections H w) w
        in (OK, m1, case m_adv_handle m1 of None \<Rightarrow> w1 | Some h \<Rightarrow> tx_power_adv H h p w1))"

definition bleConnectionCallback :: "'w ble_hw \<Rightarrow> u16 option \<Rightarrow> manager \<Rightarrow> 'w \<Rightarrow> 'w" where
  "bleConnectionCallback H handle m w =
     bus_event H True
       (case handle of None \<Rightarrow> w
        | Some c \<Rightarrow> tx_power_conn H c (POWER_LEVEL ! nat (m_power m)) w)"

definition onDisconnect :: "'w ble_hw \<Rightarrow> manager \<Rightarrow> 'w \<Rightarrow> 'w" where
  "onDisconnect H m w =
     (let w1 = bus_event H False w
      in if advertiseOnDisconnect m \<and> peripherals H w1 = [] then advertise H m w1 else w1)"

definition getBondCount :: "'w ble_hw \<Rightarrow> 'w \<Rightarrow> nat" where
  "getBondCount H w = length (peer_list H w)"

definition disconnect_all :: "'w ble_hw \<Rightarrow> 'w \<Rightarrow> 'w" where
  "disconnect_all H w = fold (gap_disconnect H) (connections H w) w"

subsection \<open>Progress of a pairing\<close>

definition pairingRequested :: "string \<Rightarrow> manager \<Rightarrow> manager" where
  "pairingRequested key m = m\<lparr>passKey := key, pairingStatus := PAIR_REQUEST\<rparr>"

definition pairing_done :: "manager \<Rightarrow> bool" where
  "pairing_done m \<longleftrightarrow> currentMode m \<noteq> MODE_PAIRING \<or> has (pairingStatus m) PAIR_COMPLETE"

definition pairing_success :: "manager \<Rightarrow> manager" where
  "pairing_success m =
     (let m1 = m\<lparr>pairingStatus := PAIR_COMPLETE OR PAIR_SUCCESSFUL\<rparr>
      in if 0 < DISCONNECT_AFTER_PAIRING_DELAY
         then m1\<lparr>mstatus := mstatus m1 OR STATUS_DISCONNECT, idle_component := True\<rparr> else m1)"

definition quiet_since :: "nat \<Rightarrow> u32 \<Rightarrow> u64 \<Rightarrow> bool" where
  "quiet_since delay since now \<longleftrightarrow> of_nat delay \<le> now - ucast since"

definition pairingComplete :: "'w ble_hw \<Rightarrow> pair_event \<Rightarrow> manager \<Rightarrow> 'w \<Rightarrow> bool \<times> manager \<times> 'w" where
  "pairingComplete H event m w =
     (if currentMode m \<noteq> MODE_PAIRING \<or> has (pairingStatus m) PAIR_COMPLETE then (True, m, w)
      else
        let (m1, w1) = (case event of
            PAIR_FAILURE \<Rightarrow> (m\<lparr>pairingStatus := PAIR_COMPLETE\<rparr>, w)
          | PAIR_SUCCESS \<Rightarrow> (pairing_success m, w)
          | PAIR_AUTH \<Rightarrow> (case time_ms H w of (t, w1) \<Rightarrow> (m\<lparr>pairingTime := ucast t\<rparr>, w1))
          | PAIR_UPDATE \<Rightarrow>
              if pairingTime m \<noteq> 0
              then (case time_ms H w of (t, w1) \<Rightarrow> (m\<lparr>pairingTime := ucast t\<rparr>, w1)) else (m, w)
          | PAIR_CHECK \<Rightarrow>
              if 0 < pairingTime m then
                case time_ms H w of (t, w1) \<Rightarrow>
                  (if quiet_since PAIRING_EVENT_DELAY (pairingTime m) t then pairing_success m else m, w1)
              else (m, w))
        in (has (pairingStatus m1) PAIR_COMPLETE, m1, w1))"

definition ble_idleCallback :: "'w ble_hw \<Rightarrow> manager \<Rightarrow> 'w \<Rightarrow> manager \<times> 'w" where
  "ble_idleCallback H m w =
     (let (m1, w1) =
        (if has (mstatus m) STATUS_DISCONNECT then
           case time_ms H w of (t, w1) \<Rightarrow>
             if quiet_since DISCONNECT_AFTER_PAIRING_DELAY (pairingTime m) t
             then (m\<lparr>mstatus := mstatus m AND NOT STATUS_DISCONNECT\<rparr>, disconnect_all H w1)
             else (m, w1)
         else (m, w))
      in (m1, if has (mstatus m1) STATUS_SHUTDOWN then pwr_mgmt_shutdown H w1 else w1))"

subsection \<open>Events of the stack\<close>

datatype stack_event =
    GapDisconnected
  | GapConnected u16
  | PasskeyDisplay string
  | GattTimeout u16
  | AuthStatus bool
  | ConnSecSucceeded
  | ConnSecFailed
  | PeerDataUpdated bool
  | OtherStackEvent

text \<open>\<open>microbit_ble_evt_handler\<close> and \<open>microbit_ble_pm_evt_handler\<close>; the flag of \<open>PeerDataUpdated\<close> is
  whether the data is the pending mark of changed services.\<close>

definition stack_handler :: "'w ble_hw \<Rightarrow> stack_event \<Rightarrow> manager \<Rightarrow> 'w \<Rightarrow> manager \<times> 'w" where
  "stack_handler H ev m w =
     (case ev of
        GapDisconnected \<Rightarrow> (m, onDisconnect H m w)
      | GapConnected c \<Rightarrow> (m, bleConnectionCallback H (Some c) m w)
      | PasskeyDisplay key \<Rightarrow> (pairingRequested key m, w)
      | GattTimeout c \<Rightarrow> (m, gap_disconnect H c w)
      | AuthStatus ok \<Rightarrow> if ok then snd (pairingComplete H PAIR_AUTH m w) else (m, w)
      | ConnSecSucceeded \<Rightarrow> snd (pairingComplete H PAIR_UPDATE m w)
      | ConnSecFailed \<Rightarrow> snd (pairingComplete H PAIR_FAILURE m w)
      | PeerDataUpdated pending \<Rightarrow>
          let m1 = (if pending then m\<lparr>m_pending := m_pending m - 1\<rparr> else m)
          in snd (pairingComplete H PAIR_UPDATE m1 w)
      | OtherStackEvent \<Rightarrow> (m, w))"

subsection \<open>The pairing mode\<close>

text \<open>The heights of the columns of the histogram; \<open>todo\<close> counts the columns that are left.\<close>

definition HISTOGRAM_WIDTH :: nat where "HISTOGRAM_WIDTH = 5"
definition HISTOGRAM_HEIGHT :: u32 where "HISTOGRAM_HEIGHT = 5"

definition draw_column :: "'w ble_hw \<Rightarrow> nat \<Rightarrow> u32 \<Rightarrow> 'w \<Rightarrow> 'w" where
  "draw_column H i h w =
     fold (\<lambda>j. display_pixel H (int HISTOGRAM_WIDTH - int i - 1) (uint HISTOGRAM_HEIGHT - int j - 1) 255)
       [0..<unat h + 1] w"

fun histogram_loop :: "'w ble_hw \<Rightarrow> nat \<Rightarrow> u32 \<Rightarrow> u32 \<Rightarrow> u32 \<Rightarrow> 'w \<Rightarrow> 'w" where
  "histogram_loop H 0 n ld d w = w"
| "histogram_loop H (Suc todo) n ld d w =
     (let i = HISTOGRAM_WIDTH - Suc todo;
          h = (n mod d) div ld
      in histogram_loop H todo (n - h) (ld * HISTOGRAM_HEIGHT) (d * HISTOGRAM_HEIGHT)
           (draw_column H i h w))"

definition showNameHistogram :: "'w ble_hw \<Rightarrow> u32 \<Rightarrow> 'w \<Rightarrow> 'w" where
  "showNameHistogram H serial w =
     histogram_loop H HISTOGRAM_WIDTH serial 1 HISTOGRAM_HEIGHT (display_clear H w)"

fun fade_in :: "'w ble_hw \<Rightarrow> int list \<Rightarrow> manager \<Rightarrow> 'w \<Rightarrow> manager \<times> 'w" where
  "fade_in H [] m w = (m, w)"
| "fade_in H (i # is) m w =
     (case fiber_sleep H 5 m (display_brightness H i w) of (m1, w1) \<Rightarrow> fade_in H is m1 w1)"

definition showManagementModeAnimation :: "'w ble_hw \<Rightarrow> manager \<Rightarrow> 'w \<Rightarrow> manager \<times> 'w" where
  "showManagementModeAnimation H m w =
     (case fade_in H (map (\<lambda>i. 5 * int i) [0..<51]) m (display_print H BtIcon (display_animate H w)) of
        (m1, w1) \<Rightarrow> fiber_sleep H 1000 m1 w1)"

text \<open>The passcode, a character at a time until the pairing is done; then the pause.\<close>

partial_function (option) passcode_loop :: "'w ble_hw \<Rightarrow> nat \<Rightarrow> manager \<Rightarrow> 'w \<Rightarrow> (manager \<times> 'w) option" where
  "passcode_loop H i m w =
     (if length (passKey m) \<le> i then Some (m, w)
      else
        case pairingComplete H PAIR_CHECK m (display_char H (passKey m ! i) w) of (done, m1, w1) \<Rightarrow>
          if done then Some (m1, w1)
          else case fiber_sleep H 800 m1 w1 of (m2, w2) \<Rightarrow>
            case pairingComplete H PAIR_CHECK m2 (display_clear H w2) of (done', m3, w3) \<Rightarrow>
              if done' then Some (m3, w3)
              else case fiber_sleep H 200 m3 w3 of (m4, w4) \<Rightarrow> passcode_loop H (i + 1) m4 w4)"

definition show_passcode :: "'w ble_hw \<Rightarrow> manager \<Rightarrow> 'w \<Rightarrow> (manager \<times> 'w) option" where
  "show_passcode H m w =
     do {
       (m1, w1) \<leftarrow> passcode_loop H 0 m (display_brightness H 255 w);
       let (done, m2, w2) = pairingComplete H PAIR_CHECK m1 w1;
       Some (if done then (m2, w2) else fiber_sleep H 1000 m2 w2)
     }"

text \<open>The variables of the loop.\<close>

record pairing_vars =
  timeInPairingMode :: nat
  brightness :: int
  fadeDirection :: bool

definition fade :: "'w ble_hw \<Rightarrow> pairing_vars \<Rightarrow> 'w \<Rightarrow> pairing_vars \<times> 'w" where
  "fade H v w =
     (let b = (if fadeDirection v then brightness v + PAIRING_FADE_SPEED
               else brightness v - PAIRING_FADE_SPEED);
          w1 = (if b \<le> 40 then display_clear H w else w);
          dir1 = (if b \<le> 0 then True else fadeDirection v);
          dir2 = (if 255 \<le> b then False else dir1)
      in (v\<lparr>brightness := b, fadeDirection := dir2\<rparr>, w1))"

definition show_request :: "'w ble_hw \<Rightarrow> pairing_vars \<Rightarrow> manager \<Rightarrow> 'w \<Rightarrow> pairing_vars \<times> manager \<times> 'w" where
  "show_request H v m w =
     (if has (pairingStatus m) PAIR_REQUEST then
        let (v1, w1) = fade H (v\<lparr>timeInPairingMode := 0\<rparr>) (display_print H Arrow w)
        in (v1, if button_pressed H w1
                then m\<lparr>pairingStatus := (pairingStatus m AND NOT PAIR_REQUEST) OR PAIR_PASSCODE\<rparr> else m, w1)
      else (v, m, w))"

definition show_result :: "'w ble_hw \<Rightarrow> pairing_vars \<Rightarrow> manager \<Rightarrow> 'w \<Rightarrow> pairing_vars \<times> manager \<times> 'w" where
  "show_result H v m w =
     (if has (pairingStatus m) PAIR_COMPLETE then
        if has (pairingStatus m) PAIR_SUCCESSFUL then
          case fiber_sleep H 15000 m (display_print H Tick w) of (m1, w1) \<Rightarrow>
            (v\<lparr>timeInPairingMode := PAIRING_TIMEOUT * 30\<rparr>, m1, w1)
        else (v, m, display_print H Cross w)
      else (v, m, w))"

definition pairing_round ::
    "'w ble_hw \<Rightarrow> pairing_vars \<Rightarrow> manager \<Rightarrow> 'w \<Rightarrow> (pairing_vars \<times> manager \<times> 'w) option" where
  "pairing_round H v m w =
     (let (_, m1, w1) = pairingComplete H PAIR_CHECK m w;
          (v2, m2, w2) = show_request H v m1 w1
      in do {
        (v3, m3, w3) \<leftarrow>
          (if has (pairingStatus m2) PAIR_PASSCODE
           then do { (m3, w3) \<leftarrow> show_passcode H m2 w2; Some (v2\<lparr>timeInPairingMode := 0\<rparr>, m3, w3) }
           else Some (v2, m2, w2));
        let (v4, m4, w4) = show_result H v3 m3 w3;
        let (m5, w5) = fiber_sleep H 100 m4 w4;
        Some (v4\<lparr>timeInPairingMode := timeInPairingMode v4 + 1\<rparr>, m5, w5)
      })"

text \<open>The loop only ends by the reset of the device.\<close>

partial_function (option) pairing_loop ::
    "'w ble_hw \<Rightarrow> pairing_vars \<Rightarrow> manager \<Rightarrow> 'w \<Rightarrow> (manager \<times> 'w) option" where
  "pairing_loop H v m w =
     (case pairing_round H v m w of
        None \<Rightarrow> None
      | Some r \<Rightarrow> (case r of (v1, m1, w1) \<Rightarrow>
          if PAIRING_TIMEOUT * 30 \<le> timeInPairingMode v1 then Some (m1, reset H w1)
          else pairing_loop H v1 m1 w1))"

definition pairing_start :: "'w ble_hw \<Rightarrow> bool \<Rightarrow> u32 \<Rightarrow> manager \<Rightarrow> 'w \<Rightarrow> manager \<times> 'w" where
  "pairing_start H whitelisting serial m w =
     (let m1 = m\<lparr>currentMode := MODE_PAIRING, pairingTime := 0\<rparr>;
          w1 = stopAdvertising H m1 w;
          w2 = (if whitelisting then identities_set H [] (whitelist_set H [] w1) else w1);
          (m2, w3) = configureAdvertising H True True False 200 0 m1 w2;
          w4 = display_stop H (advertise H m2 w3);
          (m3, w5) = showManagementModeAnimation H m2 w4
      in (m3, showNameHistogram H serial w5))"

definition pairingMode :: "'w ble_hw \<Rightarrow> bool \<Rightarrow> u32 \<Rightarrow> manager \<Rightarrow> 'w \<Rightarrow> (manager \<times> 'w) option" where
  "pairingMode H whitelisting serial m w =
     (case pairing_start H whitelisting serial m w of (m1, w1) \<Rightarrow>
        pairing_loop H \<lparr>timeInPairingMode = 0, brightness = 255, fadeDirection = False\<rparr> m1 w1)"

text \<open>
  \<open>sizeof(RebootMode)\<close> is the size of a pointer: behind the byte \<open>MICROBIT_MODE_PAIRING\<close>, which is 0,
  the storage gets the bytes that follow it on the stack.
\<close>

definition restartInBLEMode :: "'w ble_hw \<Rightarrow> 'w \<Rightarrow> 'w" where
  "restartInBLEMode H w =
     reset H (if reboot_mode H w then w else put_reboot_mode H (0 # pointer_bytes H w) w)"

subsection \<open>Shutdown and sleep\<close>

definition prepareForShutdown :: "'w ble_hw \<Rightarrow> manager \<Rightarrow> 'w \<Rightarrow> bool \<times> manager \<times> 'w" where
  "prepareForShutdown H m w =
     (let w1 = adv_stop H (m_adv_handle m) w;
          m1 = m\<lparr>advertiseOnDisconnect := False\<rparr>
      in if connections H w1 \<noteq> [] then (False, m1, disconnect_all H w1)
         else
           let (m2, w2) = (if shutdownTime m1 = 0
                 then (case time_ms H w1 of (t, w2) \<Rightarrow> (m1\<lparr>shutdownTime := ucast t\<rparr>, w2)) else (m1, w1));
               (t, w3) = time_ms H w2
           in (quiet_since SHUTDOWN_DELAY (shutdownTime m2) t, m2, w3))"

datatype pwr_event = PREPARE_RESET | PREPARE_DFU | PREPARE_WAKEUP | PREPARE_SYSOFF

definition shutdown_handler :: "'w ble_hw \<Rightarrow> pwr_event \<Rightarrow> manager \<Rightarrow> 'w \<Rightarrow> bool \<times> manager \<times> 'w" where
  "shutdown_handler H ev m w =
     (if ev = PREPARE_RESET \<or> ev = PREPARE_DFU
      then prepareForShutdown H (m\<lparr>mstatus := mstatus m OR STATUS_SHUTDOWN, idle_component := True\<rparr>) w
      else (True, m, w))"

text \<open>Enabling the SoftDevice is always allowed, disabling it after the preparation.\<close>

definition sdh_req_handler :: "'w ble_hw \<Rightarrow> bool \<Rightarrow> manager \<Rightarrow> 'w \<Rightarrow> bool \<times> manager \<times> 'w" where
  "sdh_req_handler H disable m w = (if disable then prepareForShutdown H m w else (True, m, w))"

text \<open>With the interrupts the code disables and enables as part of \<open>sdh_suspend\<close> and \<open>sdh_resume\<close>.\<close>

definition ble_setSleep :: "'w ble_hw \<Rightarrow> bool \<Rightarrow> manager \<Rightarrow> 'w \<Rightarrow> manager \<times> 'w" where
  "ble_setSleep H doSleep m w =
     (if doSleep then
        let m1 = m\<lparr>wasEnabled := \<not> sdh_suspended H w\<rparr>
        in (m1, if wasEnabled m1 then sdh_suspend H w else w)
      else (m, if wasEnabled m then sdh_resume H w else w))"

text \<open>The wait for the peer manager; \<open>poll\<close> lets its interrupts in, \<open>elapsed\<close> is the time so far.\<close>

partial_function (option) wait_pending ::
    "'w ble_hw \<Rightarrow> u64 \<Rightarrow> manager \<Rightarrow> 'w \<Rightarrow> (manager \<times> 'w) option" where
  "wait_pending H now m w =
     (if m_pending m = 0 then Some (m, w)
      else case time_ms H w of (t, w1) \<Rightarrow>
        if t - now < 1000 then (case poll H m w1 of (m1, w2) \<Rightarrow> wait_pending H now m1 w2)
        else Some (m, w1))"

definition servicesChanged :: "'w ble_hw \<Rightarrow> manager \<Rightarrow> 'w \<Rightarrow> (manager \<times> 'w) option" where
  "servicesChanged H m w =
     (let m1 = m\<lparr>m_pending := int (getBondCount H w)\<rparr>
      in if m_pending m1 \<le> 0 then Some (m1, w)
         else if \<exists>p \<in> set (peer_list H w). snd p \<noteq> Some True then
           case time_ms H w of (now, w1) \<Rightarrow> wait_pending H now m1 (database_changed H w1)
         else Some (m1, w))"

subsection \<open>Starting the stack\<close>

text \<open>The security modes 1, 2 and 3; the source refuses to compile with another.\<close>

definition security_params :: "nat \<Rightarrow> sec_params option" where
  "security_params mode =
     (if mode = 1 then
        Some \<lparr>bond = False, mitm = False, sec_io_caps = CAPS_NONE, min_key_size = 7, max_key_size = 16,
              kdist_own = False, kdist_peer = False\<rparr>
      else if mode = 2 then
        Some \<lparr>bond = True, mitm = False, sec_io_caps = CAPS_NONE, min_key_size = 7, max_key_size = 16,
              kdist_own = True, kdist_peer = True\<rparr>
      else if mode = 3 then
        Some \<lparr>bond = True, mitm = True, sec_io_caps = CAPS_DISPLAY_ONLY, min_key_size = 7, max_key_size = 16,
              kdist_own = True, kdist_peer = True\<rparr>
      else None)"

record ble_config =
  security_mode :: nat
  whitelist_on :: bool
  dfu_on :: bool
  partial_flashing_on :: bool
  device_information_on :: bool
  event_service_on :: bool

definition gap_name :: "ble_config \<Rightarrow> bool \<Rightarrow> string \<Rightarrow> string" where
  "gap_name C enableBonding deviceName =
     (if enableBonding \<or> \<not> whitelist_on C then BLE_MODEL @ '' ['' @ deviceName @ '']'' else BLE_MODEL)"

definition start_services :: "'w ble_hw \<Rightarrow> ble_config \<Rightarrow> string \<Rightarrow> 'w \<Rightarrow> 'w" where
  "start_services H C serialNumber w =
     (let w1 = (if dfu_on C then start_service H DFU w else w);
          w2 = (if partial_flashing_on C then start_service H PartialFlashing w1 else w1);
          w3 = (if device_information_on C
                then start_service H (DeviceInformation (BLE_MODEL @ '' V2.0'') serialNumber) w2 else w2)
      in if event_service_on C then start_service H EventService w3 else w3)"

definition purge_bonds :: "'w ble_hw \<Rightarrow> bool \<Rightarrow> 'w \<Rightarrow> 'w" where
  "purge_bonds H enableBonding w =
     (if enableBonding \<and> MAXIMUM_BONDS \<le> getBondCount H w then delete_lowest_ranked H w else w)"

text \<open>The whitelist takes at most \<open>MAXIMUM_BONDS\<close> peers; the result is whether there is one.\<close>

definition set_whitelist :: "'w ble_hw \<Rightarrow> 'w \<Rightarrow> bool \<times> 'w" where
  "set_whitelist H w =
     (let peers = take MAXIMUM_BONDS (map fst (peer_list H w))
      in (peers \<noteq> [], identities_set H peers (whitelist_set H peers w)))"

definition ble_init :: "'w ble_hw \<Rightarrow> ble_config \<Rightarrow> u32 \<Rightarrow> string \<Rightarrow> string \<Rightarrow> bool \<Rightarrow> manager \<Rightarrow> 'w
    \<Rightarrow> (manager \<times> 'w) option" where
  "ble_init H C RUNNING deviceName serialNumber enableBonding m w =
     (if has (mstatus m) RUNNING then Some (m, w)
      else do {
        sec \<leftarrow> security_params (security_mode C);
        let m1 = m\<lparr>pairingTime := 0, shutdownTime := 0, gapName := gap_name C enableBonding deviceName\<rparr>;
        let w1 = purge_bonds H enableBonding (stack_init H (gapName m1) sec w);
        let (bonded, w2) = (if whitelist_on C then set_whitelist H w1 else (True, w1));
        (m2, w3) \<leftarrow> servicesChanged H m1 (start_services H C serialNumber w2);
        let (m3, w4) = configureAdvertising H bonded bonded (whitelist_on C \<and> bonded)
                         ADVERTISING_INTERVAL ADVERTISING_TIMEOUT m2 w3;
        let (_, m4, w5) = setTransmitPower H DEFAULT_TX_POWER m3 w4;
        let m5 = m4\<lparr>advertiseOnDisconnect := True\<rparr>;
        let w6 = conn_params_init H w5;
        let w7 = (if whitelist_on C \<and> getBondCount H w6 = 0 then w6 else advertise H m5 w6);
        Some (m5\<lparr>mstatus := mstatus m5 OR RUNNING\<rparr>, w7)
      })"

end
