(* ===== verification/BLEManagerProps.thy ===== *)
theory BLEManagerProps
  imports BLEManager
begin

text \<open>
  The pairing mode: the histogram on the display spells the friendly name, a pairing is taken as
  successful only after an authentication, and the mode ends when nobody asks to pair.
\<close>

subsection \<open>The histogram\<close>

text \<open>\<open>lit\<close> are the pixels that are on.\<close>

definition shows_pixels :: "'w ble_hw \<Rightarrow> ('w \<Rightarrow> int \<Rightarrow> int \<Rightarrow> bool) \<Rightarrow> bool" where
  "shows_pixels H lit \<longleftrightarrow>
     (\<forall>w x y. \<not> lit (display_clear H w) x y) \<and>
     (\<forall>w x y x' y'. 0 \<le> x \<and> x < 5 \<and> 0 \<le> y \<and> y < 5 \<longrightarrow>
        lit (display_pixel H x y 255 w) x' y' = (lit w x' y' \<or> x' = x \<and> y' = y))"

lemma histogram_column_lit:
  assumes "shows_pixels H lit" and "i < 5" "unat h < 5"
  shows "lit (draw_column H i h w) x y
    \<longleftrightarrow> lit w x y \<or> x = 4 - int i \<and> 4 - int (unat h) \<le> y \<and> y \<le> 4"
proof -
  have "lit (fold (\<lambda>j. display_pixel H (int HISTOGRAM_WIDTH - int i - 1) (uint HISTOGRAM_HEIGHT - int j - 1) 255)
        [0..<n] w) x y \<longleftrightarrow> lit w x y \<or> x = 4 - int i \<and> 4 - int n < y \<and> y \<le> 4" if "n \<le> 5" for n
    using that
  proof (induction n)
    case (Suc n)
    then show ?case
      using assms(1,2) by (auto simp: shows_pixels_def HISTOGRAM_WIDTH_def HISTOGRAM_HEIGHT_def)
  qed auto
  from this [of "unat h + 1"] show ?thesis using assms(3) by (auto simp: draw_column_def)
qed

lemma ex_from: "(\<exists>i :: nat. k \<le> i \<and> P i) \<longleftrightarrow> P k \<or> (\<exists>i. Suc k \<le> i \<and> P i)"
  by (metis Suc_leD le_antisym not_less_eq_eq order_refl)

lemma histogram_loop_lit:
  assumes "shows_pixels H lit" and "todo \<le> 5" and "at_place serial (5 - todo) n ld d"
  shows "lit (histogram_loop H todo n ld d w) x y \<longleftrightarrow> lit w x y \<or>
    (\<exists>i. 5 - todo \<le> i \<and> i < 5 \<and> x = 4 - int i \<and> 4 - int (name_digit serial i) \<le> y \<and> y \<le> 4)"
  using assms(2,3)
proof (induction todo arbitrary: n ld d w)
  case (Suc todo)
  let ?i = "5 - Suc todo" and ?h = "(n mod d) div ld"
  have i: "?i < 5" "5 - todo = Suc ?i" using Suc.prems(1) by auto
  note step = place_step [OF Suc.prems(2) i(1)]
  have small: "unat ?h < 5" using step(1) by simp
  define Q where "Q = (\<lambda>i. x = 4 - int i \<and> 4 - int (name_digit serial i) \<le> y \<and> y \<le> 4)"
  have unfold: "histogram_loop H (Suc todo) n ld d w
      = histogram_loop H todo (n - ?h) (ld * 5) (d * 5) (draw_column H ?i ?h w)"
    by (simp add: Let_def HISTOGRAM_WIDTH_def HISTOGRAM_HEIGHT_def)
  have "lit (histogram_loop H (Suc todo) n ld d w) x y
      \<longleftrightarrow> lit (draw_column H ?i ?h w) x y \<or> (\<exists>i. Suc ?i \<le> i \<and> i < 5 \<and> Q i)"
    using Suc.IH [of "n - ?h" "ld * 5" "d * 5"] Suc.prems(1) step(2) by (simp only: unfold i(2) Q_def)
  also have "lit (draw_column H ?i ?h w) x y \<longleftrightarrow> lit w x y \<or> Q ?i"
    unfolding histogram_column_lit [OF assms(1) i(1) small] step(1) Q_def by simp
  also have "\<dots> \<or> (\<exists>i. Suc ?i \<le> i \<and> i < 5 \<and> Q i) \<longleftrightarrow> lit w x y \<or> (\<exists>i. ?i \<le> i \<and> i < 5 \<and> Q i)"
    using i(1) ex_from [of ?i "\<lambda>i. i < 5 \<and> Q i"] by blast
  finally show ?case by (simp only: Q_def)
qed auto

text \<open>
  C30 The histogram of the pairing mode is the friendly name of the device: the column at position \<open>x\<close>
  is lit from below up to the place that the \<open>x\<close>-th letter of the name has in its row of the code book.
\<close>

theorem histogram_spells_name:
  assumes "shows_pixels H lit" and "x < 5"
  shows "\<exists>h < 5. microbit_friendly_name serial ! x = codebook ! (4 - x) ! h
    \<and> (\<forall>y < 5. lit (showNameHistogram H serial w) (int x) (int y) = (4 - h \<le> y))"
proof (intro exI conjI allI impI)
  let ?h = "name_digit serial (4 - x)"
  show "?h < 5" by simp
  show "microbit_friendly_name serial ! x = codebook ! (4 - x) ! ?h"
    using assms(2) by (auto simp: friendly_name_spelled spelled_def less_Suc_eq eval_nat_numeral)
  fix y :: nat assume "y < 5"
  have clear: "\<not> lit (display_clear H w) (int x) (int y)"
    using assms(1) unfolding shows_pixels_def by blast
  have place: "at_place serial (5 - 5) serial 1 5" by simp
  have "lit (showNameHistogram H serial w) (int x) (int y) \<longleftrightarrow>
      (\<exists>i. 5 - 5 \<le> i \<and> i < 5 \<and> int x = 4 - int i \<and> 4 - int (name_digit serial i) \<le> int y \<and> int y \<le> 4)"
    unfolding showNameHistogram_def HISTOGRAM_WIDTH_def HISTOGRAM_HEIGHT_def
      histogram_loop_lit [OF assms(1) order_refl place]
    using clear by blast
  also have "\<dots> \<longleftrightarrow> (\<exists>i. (i < 5 \<and> int x = 4 - int i) \<and> 4 - int (name_digit serial i) \<le> int y \<and> int y \<le> 4)"
    by auto
  also have "\<dots> \<longleftrightarrow> 4 - int ?h \<le> int y"
  proof -
    have "i < 5 \<and> int x = 4 - int i \<longleftrightarrow> i = 4 - x" for i using assms(2) by auto
    then show ?thesis using \<open>y < 5\<close> by simp
  qed
  also have "\<dots> \<longleftrightarrow> 4 - ?h \<le> y" by auto
  finally show "lit (showNameHistogram H serial w) (int x) (int y) = (4 - ?h \<le> y)" .
qed

subsection \<open>Successful pairings\<close>

text \<open>
  What can happen in the pairing mode: events of the stack, the checks of the loop, the button that
  accepts a request, and the idle callback.
\<close>

datatype pairing_step = Stack stack_event | Check | Accept | IdleTick

definition pairing_step :: "'w ble_hw \<Rightarrow> pairing_step \<Rightarrow> manager \<times> 'w \<Rightarrow> manager \<times> 'w" where
  "pairing_step H st = (\<lambda>(m, w). case st of
      Stack ev \<Rightarrow> stack_handler H ev m w
    | Check \<Rightarrow> snd (pairingComplete H PAIR_CHECK m w)
    | Accept \<Rightarrow> (if has (pairingStatus m) PAIR_REQUEST
                 then m\<lparr>pairingStatus := (pairingStatus m AND NOT PAIR_REQUEST) OR PAIR_PASSCODE\<rparr> else m, w)
    | IdleTick \<Rightarrow> ble_idleCallback H m w)"

inductive pairing_run :: "'w ble_hw \<Rightarrow> manager \<times> 'w \<Rightarrow> pairing_step list \<Rightarrow> manager \<times> 'w \<Rightarrow> bool" for H s0
  where
  start: "pairing_run H s0 [] s0"
| step: "pairing_run H s0 sts s \<Longrightarrow> pairing_run H s0 (sts @ [st]) (pairing_step H st s)"

text \<open>The bits of the pairing status are independent.\<close>

lemma pair_bits [simp]:
  "has PAIR_REQUEST PAIR_SUCCESSFUL = False" "has PAIR_COMPLETE PAIR_SUCCESSFUL = False"
  "has PAIR_PASSCODE PAIR_SUCCESSFUL = False" "has PAIR_SUCCESSFUL PAIR_SUCCESSFUL = True"
  "has PAIR_COMPLETE PAIR_COMPLETE = True" "has PAIR_REQUEST PAIR_COMPLETE = False"
  "has PAIR_PASSCODE PAIR_COMPLETE = False" "has PAIR_REQUEST PAIR_PASSCODE = False"
  "has PAIR_COMPLETE PAIR_PASSCODE = False" "has PAIR_COMPLETE PAIR_REQUEST = False"
  by (simp_all add: has_def PAIR_REQUEST_def PAIR_COMPLETE_def PAIR_PASSCODE_def PAIR_SUCCESSFUL_def)

lemma accept_bits [simp]:
  "has ((s AND NOT PAIR_REQUEST) OR PAIR_PASSCODE) PAIR_SUCCESSFUL = has s PAIR_SUCCESSFUL"
  "has ((s AND NOT PAIR_REQUEST) OR PAIR_PASSCODE) PAIR_COMPLETE = has s PAIR_COMPLETE"
proof -
  have "PAIR_REQUEST AND PAIR_SUCCESSFUL = 0" "PAIR_REQUEST AND PAIR_COMPLETE = 0"
    by (simp_all add: PAIR_REQUEST_def PAIR_SUCCESSFUL_def PAIR_COMPLETE_def)
  then show "has ((s AND NOT PAIR_REQUEST) OR PAIR_PASSCODE) PAIR_SUCCESSFUL = has s PAIR_SUCCESSFUL"
    "has ((s AND NOT PAIR_REQUEST) OR PAIR_PASSCODE) PAIR_COMPLETE = has s PAIR_COMPLETE"
    by (simp_all add: has_or has_clear)
qed

text \<open>
  One step: a success comes from a success before or from a check when a sign of the pairing has been
  noted; the time of such a sign is only set by or after an authentication.
\<close>

lemma pairingComplete_step:
  assumes "pairingComplete H ev m w = (r, m', w')" and "ev \<noteq> PAIR_SUCCESS"
  shows "currentMode m' = currentMode m"
    "has (pairingStatus m') PAIR_SUCCESSFUL \<Longrightarrow> has (pairingStatus m) PAIR_SUCCESSFUL \<or> pairingTime m \<noteq> 0"
    "pairingTime m' \<noteq> 0 \<Longrightarrow> pairingTime m \<noteq> 0 \<or> ev = PAIR_AUTH"
  using assms
  by (auto simp: pairingComplete_def pairing_success_def has_or Let_def word_gt_0
      split: if_splits pair_event.splits prod.splits)

lemma idle_keeps:
  "ble_idleCallback H m w = (m', w') \<Longrightarrow>
     pairingStatus m' = pairingStatus m \<and> pairingTime m' = pairingTime m \<and> currentMode m' = currentMode m"
  by (auto simp: ble_idleCallback_def Let_def split: if_splits prod.splits)

lemma pairing_step_safe:
  assumes "pairing_step H st (m, w) = (m', w')"
  shows "(has (pairingStatus m') PAIR_SUCCESSFUL \<longrightarrow> has (pairingStatus m) PAIR_SUCCESSFUL \<or> pairingTime m \<noteq> 0)
    \<and> (pairingTime m' \<noteq> 0 \<longrightarrow> pairingTime m \<noteq> 0 \<or> st = Stack (AuthStatus True))
    \<and> currentMode m' = currentMode m"
proof (cases st)
  case (Stack ev)
  show ?thesis
  proof (cases ev)
    case (AuthStatus ok)
    then show ?thesis
      using assms Stack pairingComplete_step [of H PAIR_AUTH m w]
      by (cases "pairingComplete H PAIR_AUTH m w") (auto simp: pairing_step_def stack_handler_def split: if_splits)
  next
    case ConnSecSucceeded
    then show ?thesis
      using assms Stack pairingComplete_step [of H PAIR_UPDATE m w]
      by (cases "pairingComplete H PAIR_UPDATE m w") (auto simp: pairing_step_def stack_handler_def)
  next
    case ConnSecFailed
    then show ?thesis
      using assms Stack pairingComplete_step [of H PAIR_FAILURE m w]
      by (cases "pairingComplete H PAIR_FAILURE m w") (auto simp: pairing_step_def stack_handler_def)
  next
    case (PeerDataUpdated p)
    let ?m = "if p then m\<lparr>m_pending := m_pending m - 1\<rparr> else m"
    show ?thesis
      using assms Stack PeerDataUpdated pairingComplete_step [of H PAIR_UPDATE ?m w]
      by (cases "pairingComplete H PAIR_UPDATE ?m w") (auto simp: pairing_step_def stack_handler_def Let_def split: if_splits)
  qed (use assms Stack in \<open>auto simp: pairing_step_def stack_handler_def pairingRequested_def\<close>)
next
  case Check
  then show ?thesis
    using assms pairingComplete_step [of H PAIR_CHECK m w]
    by (cases "pairingComplete H PAIR_CHECK m w") (auto simp: pairing_step_def)
next
  case IdleTick
  then show ?thesis
    using assms idle_keeps [of H m w m' w'] by (auto simp: pairing_step_def)
qed (use assms in \<open>auto simp: pairing_step_def split: if_splits\<close>)

text \<open>
  C31 From the start of the pairing mode, whatever the stack reports and whatever the user does, the
  pairing counts as successful only if the stack has reported a successful authentication before.
\<close>

theorem pairing_success_authenticated:
  assumes "pairing_run H (m0, w0) sts (m, w)"
    and "pairingTime m0 = 0" and "\<not> has (pairingStatus m0) PAIR_SUCCESSFUL"
    and "has (pairingStatus m) PAIR_SUCCESSFUL"
  shows "Stack (AuthStatus True) \<in> set sts"
proof -
  have "(has (pairingStatus (fst s)) PAIR_SUCCESSFUL \<or> pairingTime (fst s) \<noteq> 0) \<longrightarrow> Stack (AuthStatus True) \<in> set sts"
    if "pairing_run H (m0, w0) sts s" for sts s
    using that
  proof induction
    case start
    then show ?case using assms(2,3) by simp
  next
    case (step sts s st)
    then show ?case
      using pairing_step_safe [of H st "fst s" "snd s"]
      by (cases "pairing_step H st s") (auto simp: prod_eq_iff)
  qed
  from this [OF assms(1)] assms(4) show ?thesis by simp
qed

text \<open>
  A failed pairing does not forget the time of its authentication. The next request for a passkey is
  then taken as successful by the first check, before anyone has accepted it.
\<close>

lemma stale_authentication:
  assumes "currentMode m = MODE_PAIRING" "pairingTime m \<noteq> 0" "\<not> has (pairingStatus m) PAIR_COMPLETE"
    and "time_ms H w = (t, w1)" "quiet_since PAIRING_EVENT_DELAY (pairingTime m) t"
  shows "fst (pairing_step H Check (pairing_step H (Stack (PasskeyDisplay key))
      (pairing_step H (Stack ConnSecFailed) (m, w)))) = pairing_success (m\<lparr>passKey := key, pairingStatus := PAIR_REQUEST\<rparr>)"
  using assms
  by (simp add: pairing_step_def stack_handler_def pairingComplete_def pairingRequested_def word_gt_0 Let_def)

subsection \<open>The end of the pairing mode\<close>

text \<open>Nothing but the loop happens: a sleep only lets time pass, of which \<open>slept\<close> is the sum.\<close>

definition undisturbed :: "'w ble_hw \<Rightarrow> ('w \<Rightarrow> nat) \<Rightarrow> bool" where
  "undisturbed H slept \<longleftrightarrow>
     (\<forall>ms m w. fst (fiber_sleep H ms m w) = m \<and> slept (snd (fiber_sleep H ms m w)) = slept w + ms) \<and>
     (\<forall>h w. slept (adv_start H h w) = slept w \<and> slept (adv_stop H h w) = slept w) \<and>
     (\<forall>h d p w. slept (snd (adv_set_configure H h d p w)) = slept w) \<and>
     (\<forall>l w. slept (whitelist_set H l w) = slept w \<and> slept (identities_set H l w) = slept w) \<and>
     (\<forall>w. slept (display_stop H w) = slept w \<and> slept (display_clear H w) = slept w
        \<and> slept (display_animate H w) = slept w) \<and>
     (\<forall>p w. slept (display_print H p w) = slept w) \<and>
     (\<forall>b w. slept (display_brightness H b w) = slept w) \<and>
     (\<forall>x y v w. slept (display_pixel H x y v w) = slept w)"

lemma sleep_split:
  "undisturbed H slept \<Longrightarrow> \<exists>w'. fiber_sleep H ms m w = (m, w') \<and> slept w' = slept w + ms"
proof -
  assume "undisturbed H slept"
  then have "fst (fiber_sleep H ms m w) = m \<and> slept (snd (fiber_sleep H ms m w)) = slept w + ms"
    unfolding undisturbed_def by blast
  then show ?thesis by (metis prod.collapse)
qed

lemma has_0 [simp]: "has 0 f = False"
  by simp

lemma quiet_round:
  assumes "undisturbed H slept" and "pairingStatus m = 0" "pairingTime m = 0"
  shows "\<exists>w'. pairing_round H v m w = Some (v\<lparr>timeInPairingMode := timeInPairingMode v + 1\<rparr>, m, w')
    \<and> slept w' = slept w + 100"
proof -
  obtain w' where s: "fiber_sleep H 100 m w = (m, w')" "slept w' = slept w + 100"
    using sleep_split [OF assms(1)] by blast
  have check: "snd (pairingComplete H PAIR_CHECK m w) = (m, w)"
    using assms(2,3) by (simp add: pairingComplete_def)
  show ?thesis
    using assms(2) check s
    by (simp add: pairing_round_def show_request_def show_result_def Let_def split: prod.splits) auto
qed

lemma quiet_loop:
  assumes "undisturbed H slept" and "pairingStatus m = 0" "pairingTime m = 0"
    and "timeInPairingMode v + k = PAIRING_TIMEOUT * 30" "0 < k"
  shows "\<exists>w'. pairing_loop H v m w = Some (m, reset H w') \<and> slept w' = slept w + 100 * k"
  using assms(4,5)
proof (induction k arbitrary: v w)
  case (Suc k)
  let ?v = "v\<lparr>timeInPairingMode := timeInPairingMode v + 1\<rparr>"
  obtain w1 where r: "pairing_round H v m w = Some (?v, m, w1)" "slept w1 = slept w + 100"
    using quiet_round [OF assms(1,2,3)] by blast
  show ?case
  proof (cases k)
    case 0
    then have "pairing_loop H v m w = Some (m, reset H w1)"
      using r Suc.prems by (subst pairing_loop.simps) simp
    then show ?thesis using r 0 by auto
  next
    case (Suc k')
    then obtain w' where "pairing_loop H ?v m w1 = Some (m, reset H w')" "slept w' = slept w1 + 100 * k"
      using Suc.IH [of ?v w1] Suc.prems by auto
    moreover have "pairing_loop H v m w = pairing_loop H ?v m w1"
      using r Suc Suc.prems by (subst pairing_loop.simps) simp
    ultimately show ?thesis using r by auto
  qed
qed simp

lemma fade_in_sleeps:
  assumes "undisturbed H slept"
  shows "\<exists>w'. fade_in H is m w = (m, w') \<and> slept w' = slept w + 5 * length is"
proof (induction "is" arbitrary: w)
  case (Cons i "is")
  obtain w1 where w1: "fiber_sleep H 5 m (display_brightness H i w) = (m, w1)"
      "slept w1 = slept (display_brightness H i w) + 5"
    using sleep_split [OF assms] by blast
  moreover obtain w' where "fade_in H is m w1 = (m, w')" "slept w' = slept w1 + 5 * length is"
    using Cons by blast
  ultimately show ?case using assms by (auto simp: undisturbed_def)
qed simp

lemma fold_pixels:
  assumes "undisturbed H slept"
  shows "slept (fold (\<lambda>j. display_pixel H (f j) (g j) v) js w) = slept w"
  using assms by (induction js arbitrary: w) (simp_all add: undisturbed_def)

lemma draw_column_sleeps:
  assumes "undisturbed H slept"
  shows "slept (draw_column H i h w) = slept w"
  unfolding draw_column_def by (rule fold_pixels [OF assms])

lemma histogram_sleeps:
  assumes "undisturbed H slept"
  shows "slept (histogram_loop H todo n ld d w) = slept w"
  by (induction todo arbitrary: n ld d w) (simp_all add: Let_def draw_column_sleeps [OF assms])

lemma pairing_start_quiet:
  assumes u: "undisturbed H slept" and "pairingStatus m = 0"
  shows "\<exists>m1 w1. pairing_start H wl serial m w = (m1, w1) \<and> pairingStatus m1 = 0 \<and> pairingTime m1 = 0
    \<and> currentMode m1 = MODE_PAIRING \<and> slept w1 = slept w + 1255"
proof -
  let ?m = "m\<lparr>currentMode := MODE_PAIRING, pairingTime := 0\<rparr>"
  have keep: "slept (adv_stop H h w) = slept w" "slept (adv_start H h w) = slept w"
    "slept (whitelist_set H l w) = slept w" "slept (identities_set H l w) = slept w"
    "slept (display_stop H w) = slept w" "slept (display_clear H w) = slept w"
    "slept (display_animate H w) = slept w" "slept (display_print H p w) = slept w" for h l p w
    using u by (simp_all add: undisturbed_def)
  define w2 where "w2 = (if wl then identities_set H [] (whitelist_set H [] (stopAdvertising H ?m w))
      else stopAdvertising H ?m w)"
  have w2: "slept w2 = slept w" by (simp add: w2_def stopAdvertising_def keep)
  obtain m2 w3 where c: "configureAdvertising H True True False 200 0 ?m w2 = (m2, w3)" by fastforce
  have m2: "pairingStatus m2 = 0" "pairingTime m2 = 0" "currentMode m2 = MODE_PAIRING"
    using c assms(2) by (auto simp: configureAdvertising_def configure_advdata_def split: prod.splits)
  have "w3 = snd (configureAdvertising H True True False 200 0 ?m w2)" using c by simp
  then have w3: "slept w3 = slept w"
    using u w2 by (simp add: configureAdvertising_def configure_advdata_def undisturbed_def Let_def
        split: prod.splits) (metis snd_conv)
  let ?w4 = "display_stop H (advertise H m2 w3)"
  have w4: "slept (display_print H BtIcon (display_animate H ?w4)) = slept w"
    by (simp add: keep advertise_def w3)
  have len: "5 * length (map (\<lambda>i. 5 * int i) [0..<51]) = 255" by simp
  obtain w5 where f: "fade_in H (map (\<lambda>i. 5 * int i) [0..<51]) m2 (display_print H BtIcon (display_animate H ?w4)) = (m2, w5)"
    "slept w5 = slept w + 255"
    using fade_in_sleeps [OF u, of "map (\<lambda>i. 5 * int i) [0..<51]" m2 "display_print H BtIcon (display_animate H ?w4)"]
    unfolding len w4 by blast
  obtain w6 where s: "fiber_sleep H 1000 m2 w5 = (m2, w6)" "slept w6 = slept w5 + 1000"
    using sleep_split [OF u] by blast
  have anim: "showManagementModeAnimation H m2 ?w4 = (m2, w6)"
    by (simp only: showManagementModeAnimation_def f case_prod_conv s)
  have "pairing_start H wl serial m w = (m2, showNameHistogram H serial w6)"
    unfolding pairing_start_def Let_def w2_def [symmetric] c case_prod_conv anim ..
  moreover have "slept (showNameHistogram H serial w6) = slept w + 1255"
    by (simp add: showNameHistogram_def histogram_sleeps [OF u] keep s f)
  ultimately show ?thesis using m2 by blast
qed

text \<open>
  C32 When nobody asks to pair, the pairing mode ends after 2700 rounds of a tenth of a second with a
  reset of the device.
\<close>

theorem pairing_mode_times_out:
  assumes "undisturbed H slept" and "pairingStatus m = 0"
  shows "\<exists>m' w'. pairingMode H whitelisting serial m w = Some (m', reset H w')
    \<and> currentMode m' = MODE_PAIRING \<and> slept w' = slept w + 1255 + 270000"
proof -
  obtain m1 w1 where st: "pairing_start H whitelisting serial m w = (m1, w1)" "pairingStatus m1 = 0"
      "pairingTime m1 = 0" "currentMode m1 = MODE_PAIRING" "slept w1 = slept w + 1255"
    using pairing_start_quiet [OF assms] by blast
  obtain w' where "pairing_loop H \<lparr>timeInPairingMode = 0, brightness = 255, fadeDirection = False\<rparr> m1 w1
      = Some (m1, reset H w')" "slept w' = slept w1 + 100 * 2700"
    using quiet_loop [OF assms(1) st(2,3), of "\<lparr>timeInPairingMode = 0, brightness = 255, fadeDirection = False\<rparr>" 2700]
    by (auto simp: PAIRING_TIMEOUT_def)
  then show ?thesis using st by (auto simp: pairingMode_def)
qed

subsection \<open>A device\<close>

text \<open>The state is the time slept and the pixels that are lit.\<close>

definition demo_ble :: "(nat \<times> (int \<Rightarrow> int \<Rightarrow> bool)) ble_hw" where
  "demo_ble = \<lparr>time_ms = \<lambda>w. (of_nat (fst w), w), fiber_sleep = \<lambda>ms m (t, l). (m, (t + ms, l)),
     poll = Pair, adv_start = \<lambda>_ w. w, adv_stop = \<lambda>_ w. w, adv_encode = \<lambda>_ _. [],
     adv_set_configure = \<lambda>_ _ _ w. (Some 0, w), ADV_INTERVAL_MIN = 0x20, ADV_INTERVAL_MAX = 0x4000,
     tx_power_adv = \<lambda>_ _ w. w, tx_power_conn = \<lambda>_ _ w. w, connections = \<lambda>_. [], peripherals = \<lambda>_. [],
     gap_disconnect = \<lambda>_ w. w, bus_event = \<lambda>_ w. w, peer_list = \<lambda>_. [], delete_lowest_ranked = \<lambda>w. w,
     whitelist_set = \<lambda>_ w. w, identities_set = \<lambda>_ w. w, database_changed = \<lambda>w. w,
     stack_init = \<lambda>_ _ w. w, conn_params_init = \<lambda>w. w, start_service = \<lambda>_ w. w,
     pwr_mgmt_shutdown = \<lambda>w. w, sdh_suspended = \<lambda>_. False, sdh_suspend = \<lambda>w. w, sdh_resume = \<lambda>w. w,
     display_stop = \<lambda>w. w, display_clear = \<lambda>(t, l). (t, \<lambda>_ _. False), display_print = \<lambda>_ w. w,
     display_char = \<lambda>_ w. w, display_brightness = \<lambda>_ w. w,
     display_pixel = \<lambda>x y v (t, l). (t, \<lambda>x' y'. l x' y' \<or> x' = x \<and> y' = y), display_animate = \<lambda>w. w,
     button_pressed = \<lambda>_. False, reboot_mode = \<lambda>_. False, put_reboot_mode = \<lambda>_ w. w,
     pointer_bytes = \<lambda>_. [0, 0, 0], reset = \<lambda>w. w\<rparr>"

lemma demo_ble_undisturbed: "undisturbed demo_ble fst"
  by (auto simp: undisturbed_def demo_ble_def)

theorem pairing_mode_times_out_witness:
  "\<exists>m w'. pairingMode demo_ble True 7 manager_new (0, \<lambda>_ _. False) = Some (m, w') \<and> fst w' = 271255"
  using pairing_mode_times_out [OF demo_ble_undisturbed, of manager_new True 7 "(0, \<lambda>_ _. False)"]
  by (auto simp: manager_new_def demo_ble_def)

theorem histogram_spells_name_witness:
  "\<exists>h < 5. microbit_friendly_name 1234 ! 2 = codebook ! 2 ! h
    \<and> (\<forall>y < 5. snd (showNameHistogram demo_ble 1234 (0, \<lambda>_ _. True)) 2 (int y) = (4 - h \<le> y))"
proof -
  have "shows_pixels demo_ble snd" by (auto simp: shows_pixels_def demo_ble_def split: prod.splits)
  from histogram_spells_name [OF this, of 2 1234 "(0, \<lambda>_ _. True)"] show ?thesis by simp
qed

text \<open>Here a look at the clock takes three seconds.\<close>

definition slow_ble :: "(nat \<times> (int \<Rightarrow> int \<Rightarrow> bool)) ble_hw" where
  "slow_ble = demo_ble\<lparr>time_ms := \<lambda>(t, l). (of_nat t, (t + 3000, l))\<rparr>"

theorem pairing_success_authenticated_witness:
  "let s3 = pairing_step slow_ble Check (pairing_step slow_ble (Stack (AuthStatus True))
              (pairing_step slow_ble (Stack (PasskeyDisplay ''123456''))
                (manager_new\<lparr>currentMode := MODE_PAIRING\<rparr>, (5, \<lambda>_ _. False))))
   in has (pairingStatus (fst s3)) PAIR_SUCCESSFUL \<and>
      Stack (AuthStatus True) \<in> set ([] @ [Stack (PasskeyDisplay ''123456'')] @ [Stack (AuthStatus True)] @ [Check])"
proof -
  let ?st = "pairing_step slow_ble" and ?m0 = "manager_new\<lparr>currentMode := MODE_PAIRING\<rparr>"
  define s3 where "s3 = ?st Check (?st (Stack (AuthStatus True)) (?st (Stack (PasskeyDisplay ''123456''))
      (?m0, (5, \<lambda>_ _. False))))"
  have time: "time_ms slow_ble (t, l) = (of_nat t, (t + 3000, l))" for t l by (simp add: slow_ble_def)
  have ok: "has (pairingStatus (fst s3)) PAIR_SUCCESSFUL"
    by (simp add: s3_def pairing_step_def stack_handler_def pairingRequested_def pairingComplete_def time
        manager_new_def quiet_since_def PAIRING_EVENT_DELAY_def pairing_success_def has_or Let_def)
  have "pairing_run slow_ble (?m0, (5, \<lambda>_ _. False))
      ((([] @ [Stack (PasskeyDisplay ''123456'')]) @ [Stack (AuthStatus True)]) @ [Check]) s3"
    unfolding s3_def by (intro pairing_run.intros)
  then have "Stack (AuthStatus True) \<in>
      set ((([] @ [Stack (PasskeyDisplay ''123456'')]) @ [Stack (AuthStatus True)]) @ [Check])"
    using pairing_success_authenticated [of slow_ble ?m0 "(5, \<lambda>_ _. False)" _ "fst s3" "snd s3"] ok
    by (simp add: manager_new_def)
  then show ?thesis using ok by (simp add: s3_def Let_def)
qed

end
