(* ===== verification/Floats.thy ===== *)
theory Floats
  imports Main
begin

text \<open>
  Floating point arithmetic: the operations of the processor are a record over a type of any
  numbers. \<open>to_int\<close> is the conversion by a cast, \<open>from_int\<close> its way back.
\<close>

record 'f float_ops =
  less :: "'f \<Rightarrow> 'f \<Rightarrow> bool"
  sub :: "'f \<Rightarrow> 'f \<Rightarrow> 'f"
  add :: "'f \<Rightarrow> 'f \<Rightarrow> 'f"
  mul :: "'f \<Rightarrow> 'f \<Rightarrow> 'f"
  divide :: "'f \<Rightarrow> 'f \<Rightarrow> 'f"
  root :: "'f \<Rightarrow> 'f"
  absolute :: "'f \<Rightarrow> 'f"
  from_int :: "int \<Rightarrow> 'f"
  to_int :: "'f \<Rightarrow> int"

text \<open>Integer arithmetic as an instance, for examples.\<close>

definition int_floats :: "int float_ops" where
  "int_floats = \<lparr>less = (<), sub = (-), add = (+), mul = (*), divide = (div), root = \<lambda>x. x,
     absolute = abs, from_int = \<lambda>x. x, to_int = \<lambda>x. x\<rparr>"

end
