(* ===== verification/Calibrator.thy ===== *)
theory Calibrator
  imports MB_Prelude Floats "HOL-Library.Signed_Division" "HOL-Library.Monad_Syntax"
begin

text \<open>
  \<open>MicroBitCompassCalibrator\<close> (\<open>source/MicroBitCompassCalibrator.cpp\<close>): the game that makes the user tilt
  the device in every direction while samples of the magnetometer are taken, and the search for the
  centre of the sphere they lie on. Floating point arithmetic is the record of \<open>Floats\<close>, with what else the search uses; the sensors, the display and the storage are the record \<open>cal_hw\<close>.
\<close>

subsection \<open>Samples and scores\<close>

record sample3d =
  sx :: int
  sy :: int
  sz :: int

text \<open>
  \<open>dSquared c p\<close> is codal-core's squared distance. \<open>scaled s w\<close> is \<open>1.0 + s * w\<close> in double precision,
  stored as a \<open>float\<close>, \<open>maximum\<close> is codal-core's \<open>max\<close>, and \<open>fixed\<close> is \<open>(int)(1024 * x)\<close>.
\<close>

record 'f cal_floats = "'f float_ops" +
  dSquared :: "sample3d \<Rightarrow> sample3d \<Rightarrow> 'f"
  maximum :: "'f \<Rightarrow> 'f \<Rightarrow> 'f"
  scaled :: "'f \<Rightarrow> 'f \<Rightarrow> 'f"
  fixed :: "'f \<Rightarrow> int"

fun score_loop :: "'f cal_floats \<Rightarrow> sample3d \<Rightarrow> sample3d list \<Rightarrow> 'f \<Rightarrow> 'f \<Rightarrow> 'f \<times> 'f" where
  "score_loop F c [] minD maxD = (minD, maxD)"
| "score_loop F c (p # ps) minD maxD =
     (let d = dSquared F c p
      in score_loop F c ps (if less F d minD then d else minD) (if less F maxD d then d else maxD))"

definition measureScore :: "'f cal_floats \<Rightarrow> sample3d \<Rightarrow> sample3d list \<Rightarrow> 'f" where
  "measureScore F c data =
     (let d0 = dSquared F c (data ! 0)
      in case score_loop F c (tl data) d0 d0 of (minD, maxD) \<Rightarrow> sub F maxD minD)"

subsection \<open>The centre\<close>

definition CALIBRATION_INCREMENT :: int where "CALIBRATION_INCREMENT = 200"

definition origin :: sample3d where "origin = \<lparr>sx = 0, sy = 0, sz = 0\<rparr>"

definition centre_of_mass :: "sample3d list \<Rightarrow> sample3d" where
  "centre_of_mass data =
     (let n = int (length data)
      in \<lparr>sx = sum_list (map sx data) sdiv n, sy = sum_list (map sy data) sdiv n,
          sz = sum_list (map sz data) sdiv n\<rparr>)"

definition steps :: "int list" where
  "steps = [- CALIBRATION_INCREMENT, 0, CALIBRATION_INCREMENT]"

definition moved :: "sample3d \<Rightarrow> int \<Rightarrow> int \<Rightarrow> int \<Rightarrow> sample3d" where
  "moved c x y z = c\<lparr>sx := sx c + x, sy := sy c + y, sz := sz c + z\<rparr>"

text \<open>The points the three nested loops try, in their order.\<close>

definition neighbours :: "sample3d \<Rightarrow> sample3d list" where
  "neighbours c = concat (map (\<lambda>x. concat (map (\<lambda>y. map (moved c x y) steps) steps)) steps)"

fun try_points :: "'f cal_floats \<Rightarrow> sample3d list \<Rightarrow> sample3d list \<Rightarrow> 'f \<times> sample3d \<Rightarrow> 'f \<times> sample3d" where
  "try_points F data [] st = st"
| "try_points F data (t # ts) (score, best) =
     (let s = measureScore F t data
      in try_points F data ts (if less F s score then (s, t) else (score, best)))"

partial_function (option) climb ::
    "'f cal_floats \<Rightarrow> sample3d list \<Rightarrow> sample3d \<Rightarrow> 'f \<Rightarrow> sample3d \<Rightarrow> sample3d option" where
  "climb F data c score best =
     (case try_points F data (neighbours c) (score, best) of (score', best') \<Rightarrow>
        if best' = c then Some c else climb F data best' score' best')"

text \<open>\<open>best\<close> starts at the origin, not at the point the search starts from.\<close>

definition approximateCentre :: "'f cal_floats \<Rightarrow> sample3d list \<Rightarrow> sample3d option" where
  "approximateCentre F data =
     (let c = centre_of_mass data in climb F data c (measureScore F c data) origin)"

subsection \<open>The scale\<close>

record calibration =
  cal_scale :: sample3d
  cal_centre :: sample3d
  cal_radius :: int

definition radius_of :: "'f cal_floats \<Rightarrow> sample3d \<Rightarrow> sample3d list \<Rightarrow> 'f" where
  "radius_of F centre data =
     fold (\<lambda>p radius. let d = to_int F (root F (dSquared F centre p))
                      in if less F radius (from_int F d) then from_int F d else radius)
       data (from_int F 0)"

fun weigh :: "'f cal_floats \<Rightarrow> sample3d \<Rightarrow> 'f \<Rightarrow> sample3d list \<Rightarrow> 'f \<times> 'f \<times> 'f \<times> 'f \<Rightarrow> 'f \<times> 'f \<times> 'f \<times> 'f" where
  "weigh F centre radius [] acc = acc"
| "weigh F centre radius (p # ps) (scale, weightX, weightY, weightZ) =
     (let d = root F (dSquared F centre p);
          s = sub F (divide F radius d) (from_int F 1);
          part = (\<lambda>dx. mul F s (absolute F (divide F (from_int F dx) d)))
      in weigh F centre radius ps
           (maximum F scale s,
            add F weightX (part (sx p - sx centre)),
            add F weightY (part (sy p - sy centre)),
            add F weightZ (part (sz p - sz centre))))"

definition spherify :: "'f cal_floats \<Rightarrow> sample3d \<Rightarrow> sample3d list \<Rightarrow> calibration" where
  "spherify F centre data =
     (let radius = radius_of F centre data;
          z = from_int F 0;
          (scale, weightX, weightY, weightZ) = weigh F centre radius data (z, z, z, z);
          wmag = root F (add F (add F (mul F weightX weightX) (mul F weightY weightY)) (mul F weightZ weightZ));
          axis = (\<lambda>w. fixed F (scaled F scale (divide F w wmag)))
      in \<lparr>cal_scale = \<lparr>sx = axis weightX, sy = axis weightY, sz = axis weightZ\<rparr>,
          cal_centre = centre, cal_radius = to_int F radius\<rparr>)"

definition calibrate :: "'f cal_floats \<Rightarrow> sample3d list \<Rightarrow> calibration option" where
  "calibrate F data = map_option (\<lambda>centre. spherify F centre data) (approximateCentre F data)"

subsection \<open>The game\<close>

definition PERIMETER_POINTS :: nat where "PERIMETER_POINTS = 25"
definition PIXEL1_THRESHOLD :: int where "PIXEL1_THRESHOLD = 200"
definition PIXEL2_THRESHOLD :: int where "PIXEL2_THRESHOLD = 680"
definition REDISPLAY_MSG_TIMEOUT_MS :: int where "REDISPLAY_MSG_TIMEOUT_MS = 30000"
definition SAMPLES_END_MSG_COUNT :: nat where "SAMPLES_END_MSG_COUNT = 15"
definition TIME_STEP :: int where "TIME_STEP = 100"
definition MSG_TIME :: int where "MSG_TIME = 155 * TIME_STEP"

definition perimeter :: "(nat \<times> nat) list" where
  "perimeter = concat (map (\<lambda>y. map (\<lambda>x. (x, y)) [0..<5]) [0..<5])"

record 'w cal_hw =
  acc_x :: "'w \<Rightarrow> int \<times> 'w"
  acc_y :: "'w \<Rightarrow> int \<times> 'w"
  compass_sample :: "'w \<Rightarrow> sample3d \<times> 'w"
  set_calibration :: "calibration \<Rightarrow> 'w \<Rightarrow> 'w"
  storage_put :: "calibration \<Rightarrow> 'w \<Rightarrow> 'w"
  storage_get :: "'w \<Rightarrow> calibration option"
  get_brightness :: "'w \<Rightarrow> int"
  set_brightness :: "int \<Rightarrow> 'w \<Rightarrow> 'w"
  stop_animation :: "'w \<Rightarrow> 'w"
  clear_display :: "'w \<Rightarrow> 'w"
  scroll_message :: "'w \<Rightarrow> 'w"
  paste_image :: "(nat \<times> nat \<Rightarrow> nat) \<Rightarrow> 'w \<Rightarrow> 'w"
  print_smiley :: "'w \<Rightarrow> 'w"
  target_wait :: "nat \<Rightarrow> 'w \<Rightarrow> 'w"

text \<open>\<open>data\<close> is the array of samples, written at \<open>samples\<close>; \<open>visited\<close> has a mark for each point.\<close>

record game =
  cursor :: "nat \<times> nat"
  data :: "sample3d list"
  visited :: "bool list"
  cursor_on :: nat
  samples :: nat
  samples_this_period :: nat
  remaining_scroll_time :: int

definition game_new :: "sample3d list \<Rightarrow> game" where
  "game_new junk = \<lparr>cursor = (2, 2), data = junk, visited = replicate PERIMETER_POINTS False,
     cursor_on = 0, samples = 0, samples_this_period = 0, remaining_scroll_time = MSG_TIME\<rparr>"

definition position :: "int \<Rightarrow> nat" where
  "position x =
     (if x < - PIXEL2_THRESHOLD then 0
      else if x < - PIXEL1_THRESHOLD then 1
      else if x > PIXEL2_THRESHOLD then 4
      else if x > PIXEL1_THRESHOLD then 3
      else 2)"

definition scroll_step :: "'w cal_hw \<Rightarrow> game \<Rightarrow> 'w \<Rightarrow> game \<times> 'w" where
  "scroll_step H g w =
     (if remaining_scroll_time g = MSG_TIME \<or> remaining_scroll_time g \<le> - REDISPLAY_MSG_TIMEOUT_MS then
        (g\<lparr>remaining_scroll_time := MSG_TIME, samples_this_period := 0\<rparr>, scroll_message H (clear_display H w))
      else if remaining_scroll_time g = 0 \<or> samples_this_period g = SAMPLES_END_MSG_COUNT
      then (g, stop_animation H w) else (g, w))"

definition game_image :: "game \<Rightarrow> nat \<times> nat \<Rightarrow> nat" where
  "game_image g =
     (fold (\<lambda>i img. if visited g ! i then img(perimeter ! i := 255) else img) [0..<PERIMETER_POINTS] (\<lambda>_. 0))
       (cursor g := cursor_on g)"

text \<open>The loop over the points: a point under the cursor that is new takes a sample.\<close>

fun take_samples :: "'w cal_hw \<Rightarrow> nat list \<Rightarrow> game \<Rightarrow> 'w \<Rightarrow> game \<times> 'w" where
  "take_samples H [] g w = (g, w)"
| "take_samples H (i # is) g w =
     (if cursor g = perimeter ! i \<and> \<not> visited g ! i then
        case compass_sample H w of (s, w1) \<Rightarrow>
          take_samples H is
            (g\<lparr>data := (data g)[samples g := s], visited := (visited g)[i := True],
              samples := samples g + 1, samples_this_period := samples_this_period g + 1\<rparr>) w1
      else take_samples H is g w)"

definition game_round :: "'w cal_hw \<Rightarrow> game \<Rightarrow> 'w \<Rightarrow> game \<times> 'w" where
  "game_round H g w =
     (let (g1, w1) = scroll_step H g w;
          (x, w2) = acc_x H w1;
          (y, w3) = acc_y H w2;
          g2 = g1\<lparr>cursor_on := (cursor_on g1 + 40) mod 200, cursor := (position x, position y)\<rparr>;
          w4 = (if remaining_scroll_time g2 < 0 \<or> samples_this_period g2 > SAMPLES_END_MSG_COUNT
                then paste_image H (game_image g2) w3 else w3);
          (g3, w5) = take_samples H [0..<PERIMETER_POINTS] g2 w4
      in (g3\<lparr>remaining_scroll_time := remaining_scroll_time g3 - TIME_STEP\<rparr>, target_wait H 100 w5))"

partial_function (option) game_loop :: "'w cal_hw \<Rightarrow> game \<Rightarrow> 'w \<Rightarrow> (game \<times> 'w) option" where
  "game_loop H g w =
     (if samples g < PERIMETER_POINTS
      then case game_round H g w of (g1, w1) \<Rightarrow> game_loop H g1 w1
      else Some (g, w))"

text \<open>\<open>junk\<close> is what the array of samples holds at first; \<open>has_storage\<close> is set by the constructor.\<close>

definition calibrateUX :: "'w cal_hw \<Rightarrow> 'f cal_floats \<Rightarrow> bool \<Rightarrow> sample3d list \<Rightarrow> 'w \<Rightarrow> 'w option" where
  "calibrateUX H F has_storage junk w =
     (let w0 = target_wait H 100 w;
          displayBrightness = get_brightness H w0
      in do {
        (g, w1) \<leftarrow> game_loop H (game_new junk) (stop_animation H (set_brightness H 255 w0));
        cal \<leftarrow> calibrate F (take (samples g) (data g));
        let w2 = set_calibration H cal w1;
        let w3 = (if has_storage then storage_put H cal w2 else w2);
        Some (set_brightness H displayBrightness (clear_display H
               (target_wait H 1000 (print_smiley H (clear_display H w3)))))
      })"

text \<open>The constructor with a storage loads the calibration saved there.\<close>

definition calibrator_new :: "'w cal_hw \<Rightarrow> bool \<Rightarrow> 'w \<Rightarrow> 'w" where
  "calibrator_new H has_storage w =
     (if has_storage then
        case storage_get H w of None \<Rightarrow> w | Some cal \<Rightarrow> set_calibration H cal w
      else w)"

end
