(* ===== verification/CalibratorProps.thy ===== *)
theory CalibratorProps
  imports Calibrator
begin

text \<open>
  The search for the centre ends, at a point that is better than the centre of mass and its own
  neighbours, or at the origin when the search finds nothing better than the centre of mass. The
  game ends when every point has been under the cursor, with one sample for each.
\<close>

subsection \<open>The search for the centre\<close>

text \<open>The order of the numbers; it is well-founded on floats, of which there are finitely many.\<close>

definition float_order :: "'f cal_floats \<Rightarrow> bool" where
  "float_order F \<longleftrightarrow> wf {(a, b). less F a b} \<and>
     (\<forall>a b c. less F a b \<longrightarrow> less F b c \<longrightarrow> less F a c)"

lemma float_order_irr: "float_order F \<Longrightarrow> \<not> less F a a"
  using wf_irrefl [of "{(a, b). less F a b}" a] by (auto simp: float_order_def)

lemma float_order_trans: "float_order F \<Longrightarrow> less F a b \<Longrightarrow> less F b c \<Longrightarrow> less F a c"
proof -
  assume F: "float_order F" and ab: "less F a b" and bc: "less F b c"
  have "\<forall>a b c. less F a b \<longrightarrow> less F b c \<longrightarrow> less F a c" using F by (simp add: float_order_def)
  from this [rule_format, OF ab bc] show "less F a c" .
qed

text \<open>What a pass over points makes of the score and of the best point.\<close>

definition improved :: "'f cal_floats \<Rightarrow> sample3d list \<Rightarrow> sample3d list \<Rightarrow> 'f \<Rightarrow> sample3d \<Rightarrow> 'f \<Rightarrow> sample3d \<Rightarrow> bool" where
  "improved F pts ts score best score' best' \<longleftrightarrow>
     (less F score' score \<and> best' \<in> set ts \<and> score' = measureScore F best' pts
      \<or> score' = score \<and> best' = best)
     \<and> (\<forall>t \<in> set ts. \<not> less F (measureScore F t pts) score')"

lemma try_points_improved:
  assumes "float_order F"
  shows "try_points F pts ts (score, best) = (score', best') \<Longrightarrow> improved F pts ts score best score' best'"
proof (induction ts arbitrary: score best)
  case (Cons t ts)
  let ?s = "measureScore F t pts"
  show ?case
  proof (cases "less F ?s score")
    case True
    then have "try_points F pts ts (?s, t) = (score', best')" using Cons.prems by (simp add: Let_def)
    from Cons.IH [OF this] have i: "improved F pts ts ?s t score' best'" .
    have s': "less F score' ?s \<or> score' = ?s" using i unfolding improved_def by blast
    then have "less F score' score" using True float_order_trans [OF assms, of score' ?s score] by auto
    moreover have "\<not> less F ?s score'"
    proof
      assume "less F ?s score'"
      then have "less F ?s ?s" using s' float_order_trans [OF assms, of ?s score' ?s] by auto
      then show False using float_order_irr [OF assms] by simp
    qed
    ultimately show ?thesis using i True unfolding improved_def by auto
  next
    case False
    then have "try_points F pts ts (score, best) = (score', best')" using Cons.prems by (simp add: Let_def)
    from Cons.IH [OF this] have i: "improved F pts ts score best score' best'" .
    have "less F score' score \<or> score' = score" using i unfolding improved_def by blast
    then have "\<not> less F ?s score'" using False float_order_trans [OF assms, of ?s score' score] by auto
    then show ?thesis using i unfolding improved_def by auto
  qed
qed (simp add: improved_def)

text \<open>A climb that has its score at its own point ends at a point no neighbour of which is better.\<close>

lemma climb_from:
  assumes F: "float_order F"
  shows "score = measureScore F c pts \<Longrightarrow> \<exists>c'. climb F pts c score c = Some c'
    \<and> (c' = c \<or> less F (measureScore F c' pts) score)
    \<and> (\<forall>t \<in> set (neighbours c'). \<not> less F (measureScore F t pts) (measureScore F c' pts))"
proof -
  have W: "wf {(a, b). less F a b}" using F by (simp add: float_order_def)
  show "score = measureScore F c pts \<Longrightarrow> ?thesis"
  proof (induction score arbitrary: c rule: wf_induct_rule [OF W])
    case (1 score)
    obtain score' best' where t: "try_points F pts (neighbours c) (score, c) = (score', best')" by fastforce
    note res = try_points_improved [OF F t, unfolded improved_def]
    show ?case
    proof (cases "best' = c")
      case True
      then have "climb F pts c score c = Some c" using t by (subst climb.simps) simp
      moreover have "score' = score" using res True 1(2) float_order_irr [OF F] by blast
      ultimately show ?thesis using res 1(2) by auto
    next
      case False
      then have better: "less F score' score" "score' = measureScore F best' pts" using res by blast+
      have "climb F pts c score c = climb F pts best' score' best'"
        using t False by (subst climb.simps) simp
      moreover obtain c' where c': "climb F pts best' score' best' = Some c'"
        "c' = best' \<or> less F (measureScore F c' pts) score'"
        "\<forall>t \<in> set (neighbours c'). \<not> less F (measureScore F t pts) (measureScore F c' pts)"
        using 1(1) better by blast
      moreover have "less F (measureScore F c' pts) score"
        using c'(2) better float_order_trans [OF F, of _ score' score] by auto
      ultimately show ?thesis by auto
    qed
  qed
qed

lemma centre_search:
  assumes F: "float_order F"
  shows "\<exists>c. approximateCentre F pts = Some c \<and>
    (let score = (\<lambda>t. measureScore F t pts); s0 = score (centre_of_mass pts) in
     if \<exists>t \<in> set (neighbours (centre_of_mass pts)) \<union> set (neighbours origin). less F (score t) s0
     then less F (score c) s0 \<and> (\<forall>t \<in> set (neighbours c). \<not> less F (score t) (score c))
     else c = origin)"
proof -
  let ?com = "centre_of_mass pts" and ?score = "\<lambda>t. measureScore F t pts"
  let ?s0 = "?score ?com"
  let ?good = "\<lambda>c. less F (?score c) ?s0 \<and> (\<forall>t \<in> set (neighbours c). \<not> less F (?score t) (?score c))"
  note irr = float_order_irr [OF F] and trans = float_order_trans [OF F]
  have on: "\<exists>c. climb F pts b s b = Some c \<and> ?good c" if "s = ?score b" "less F s ?s0" for b s
  proof -
    obtain c where c: "climb F pts b s b = Some c" "c = b \<or> less F (?score c) s"
      "\<forall>t \<in> set (neighbours c). \<not> less F (?score t) (?score c)"
      using climb_from [OF F \<open>s = ?score b\<close>] by blast
    have "less F (?score c) ?s0" using c(2) that trans [of _ s ?s0] by auto
    then show ?thesis using c by blast
  qed
  obtain s1 b1 where t1: "try_points F pts (neighbours ?com) (?s0, origin) = (s1, b1)" by fastforce
  note r1 = try_points_improved [OF F t1, unfolded improved_def]
  have start: "approximateCentre F pts = (if b1 = ?com then Some ?com else climb F pts b1 s1 b1)"
    unfolding approximateCentre_def Let_def by (subst climb.simps) (simp add: t1)
  show ?thesis
  proof (cases "\<exists>t \<in> set (neighbours ?com). less F (?score t) ?s0")
    case True
    then have b1: "less F s1 ?s0" "s1 = ?score b1" using r1 irr by blast+
    then have "b1 \<noteq> ?com" using irr by blast
    then have "\<exists>c. approximateCentre F pts = Some c \<and> ?good c" using start on [OF b1(2,1)] by simp
    then show ?thesis using True by (auto simp: Let_def)
  next
    case False
    then have b1: "s1 = ?s0" "b1 = origin" using r1 by blast+
    obtain s2 b2 where t2: "try_points F pts (neighbours origin) (?s0, origin) = (s2, b2)" by fastforce
    note r2 = try_points_improved [OF F t2, unfolded improved_def]
    have nxt: "climb F pts origin ?s0 origin = (if b2 = origin then Some origin else climb F pts b2 s2 b2)"
      using t2 by (subst climb.simps) simp
    show ?thesis
    proof (cases "\<exists>t \<in> set (neighbours origin). less F (?score t) ?s0")
      case True
      then have b2: "less F s2 ?s0" "s2 = ?score b2" using r2 irr by blast+
      have ne: "?com \<noteq> origin" using True False by auto
      have "\<exists>c. approximateCentre F pts = Some c \<and> ?good c"
      proof (cases "b2 = origin")
        case eq: True
        then have "approximateCentre F pts = Some origin" using start nxt b1 ne by simp
        moreover have "?good origin" using r2 b2 eq by auto
        ultimately show ?thesis by blast
      next
        case False
        then show ?thesis using start nxt b1 ne on [OF b2(2,1)] by simp
      qed
      then show ?thesis using True by (auto simp: Let_def)
    next
      case no: False
      then have "b2 = origin" using r2 by blast
      then have "approximateCentre F pts = Some origin" using start nxt b1 by auto
      then show ?thesis using no False by (auto simp: Let_def)
    qed
  qed
qed

lemma centre_returns: "float_order F \<Longrightarrow> \<exists>c. approximateCentre F pts = Some c"
  using centre_search [of F pts] by blast

text \<open>
  C33 The search for the centre of the samples ends. When one of the points around the centre of mass or
  around the origin is better than the centre of mass, it ends at a point better than that, around
  which nothing is better still; otherwise it ends at the origin.
\<close>

theorem centre_found:
  assumes F: "float_order F"
  shows "\<exists>c. approximateCentre F pts = Some c \<and>
    (let score = (\<lambda>t. measureScore F t pts); s0 = score (centre_of_mass pts) in
     if \<exists>t \<in> set (neighbours (centre_of_mass pts)) \<union> set (neighbours origin). less F (score t) s0
     then less F (score c) s0 \<and> (\<forall>t \<in> set (neighbours c). \<not> less F (score t) (score c))
     else c = origin)"
  using centre_search [OF F] .

text \<open>
  Natural numbers as scores. Two samples on both sides of their centre of mass, which is as good a
  centre as there can be: the search ends at the origin.
\<close>

definition nat_ops :: "nat cal_floats" where
  "nat_ops = \<lparr>less = (<), sub = (-), add = (+), mul = (*), divide = (div), root = \<lambda>x. x, absolute = \<lambda>x. x,
     from_int = nat, to_int = int,
     dSquared = \<lambda>c p. nat ((sx c - sx p)\<^sup>2 + (sy c - sy p)\<^sup>2 + (sz c - sz p)\<^sup>2),
     maximum = max, scaled = \<lambda>s w. 1 + s * w, fixed = \<lambda>x. 1024 * int x\<rparr>"

lemma nat_ops_order: "float_order nat_ops"
  by (simp add: float_order_def nat_ops_def wf)

theorem centre_found_witness:
  "approximateCentre nat_ops [\<lparr>sx = 400, sy = 0, sz = 0\<rparr>, \<lparr>sx = 1000, sy = 0, sz = 0\<rparr>] = Some origin"
proof -
  let ?pts = "[\<lparr>sx = 400, sy = 0, sz = 0\<rparr>, \<lparr>sx = 1000, sy = 0, sz = 0\<rparr>]"
  have "measureScore nat_ops (centre_of_mass ?pts) ?pts = 0"
    by (simp add: measureScore_def centre_of_mass_def nat_ops_def Let_def)
  then have "\<not> less nat_ops s (measureScore nat_ops (centre_of_mass ?pts) ?pts)" for s
    by (simp add: nat_ops_def)
  then show ?thesis
    using centre_found [OF nat_ops_order, of ?pts] by (auto simp: Let_def)
qed

subsection \<open>The game\<close>

lemma perimeter_nth: "k < 25 \<Longrightarrow> perimeter ! k = (k mod 5, k div 5)"
proof -
  have "\<forall>k < 25. perimeter ! k = (k mod 5, k div 5)" by code_simp
  then show "k < 25 \<Longrightarrow> perimeter ! k = (k mod 5, k div 5)" by blast
qed

text \<open>The number of the point at a position of the cursor.\<close>

definition point_of :: "nat \<times> nat \<Rightarrow> nat" where
  "point_of c = 5 * snd c + fst c"

lemma point_of_unique:
  assumes "fst c < 5" "snd c < 5" "k < 25"
  shows "c = perimeter ! k \<longleftrightarrow> k = point_of c"
proof -
  have "k = 5 * (k div 5) + k mod 5" by simp
  then show ?thesis
    using assms unfolding perimeter_nth [OF assms(3)] point_of_def
    by (cases c) (auto simp: mult.commute)
qed

lemma position_less: "position x < 5"
  by (simp add: position_def)

lemma take_samples_append:
  "take_samples H (is @ js) g w = (case take_samples H is g w of (g', w') \<Rightarrow> take_samples H js g' w')"
  by (induction "is" arbitrary: g w) (auto split: prod.splits)

lemma take_samples_none:
  "\<forall>i \<in> set is. cursor g = perimeter ! i \<longrightarrow> visited g ! i \<Longrightarrow> take_samples H is g w = (g, w)"
  by (induction "is") auto

text \<open>A pass over the points takes one sample, when the point under the cursor is new, and no other.\<close>

lemma take_samples_all:
  assumes "fst (cursor g) < 5" "snd (cursor g) < 5"
  shows "take_samples H [0..<25] g w =
    (if visited g ! point_of (cursor g) then (g, w)
     else case compass_sample H w of (s, w1) \<Rightarrow>
       (g\<lparr>data := (data g)[samples g := s], visited := (visited g)[point_of (cursor g) := True],
          samples := samples g + 1, samples_this_period := samples_this_period g + 1\<rparr>, w1))"
proof (cases "visited g ! point_of (cursor g)")
  case True
  then show ?thesis using take_samples_none [of "[0..<25]" g H w] point_of_unique [OF assms] by simp
next
  case False
  let ?k = "point_of (cursor g)"
  have k: "?k < 25" using assms by (simp add: point_of_def)
  then have split: "[0..<25] = [0..<?k] @ ?k # [Suc ?k..<25]"
    by (metis le_add1 less_imp_le plus_nat.add_0 upt_add_eq_append upt_conv_Cons le_add_diff_inverse)
  have before: "take_samples H [0..<?k] g w = (g, w)"
    using take_samples_none [of "[0..<?k]" g H w] point_of_unique [OF assms] k by simp
  obtain s w1 where c: "compass_sample H w = (s, w1)" by fastforce
  let ?g = "g\<lparr>data := (data g)[samples g := s], visited := (visited g)[?k := True],
          samples := samples g + 1, samples_this_period := samples_this_period g + 1\<rparr>"
  have after: "take_samples H [Suc ?k..<25] ?g w1 = (?g, w1)"
    using point_of_unique [OF assms] by (intro take_samples_none) auto
  have here: "cursor g = perimeter ! ?k" using point_of_unique [OF assms k] by simp
  show ?thesis unfolding split take_samples_append before
    using False c after here by simp
qed

text \<open>
  What every round keeps: one sample for each point visited, every place to write inside the array, and the
  counters inside their widths, the eight bits of the numbers of samples and the sixteen of the time left.
\<close>

definition game_ok :: "game \<Rightarrow> bool" where
  "game_ok g \<longleftrightarrow> length (data g) = 25 \<and> length (visited g) = 25
     \<and> samples g = count_list (visited g) True
     \<and> samples_this_period g \<le> samples g
     \<and> 100 dvd remaining_scroll_time g
     \<and> -30000 \<le> remaining_scroll_time g \<and> remaining_scroll_time g \<le> 15500"

lemma visit_again: "v ! k \<Longrightarrow> v[k := True] = v"
  by (metis list_update_id)

lemma count_list_visit:
  "k < length v \<Longrightarrow> count_list (v[k := True]) True = count_list v True + (if v ! k then 0 else 1)"
  by (induction v arbitrary: k) (auto simp: nth_Cons' split: nat.splits if_splits)

lemma count_list_full: "count_list v True = length v \<longleftrightarrow> v = replicate (length v) True"
proof (induction v)
  case (Cons b v)
  then show ?case using count_le_length [of v True] by auto
qed simp

text \<open>One round: the point under the new cursor is visited, with a sample when it was not before.\<close>

lemma scroll_step_cases:
  assumes "scroll_step H g w = (g1, w1)" and "game_ok g"
  shows "cursor_on g1 = cursor_on g" "data g1 = data g" "visited g1 = visited g" "samples g1 = samples g"
    "game_ok g1" "-30000 < remaining_scroll_time g1"
  using assms
  by (auto simp: scroll_step_def game_ok_def MSG_TIME_def TIME_STEP_def REDISPLAY_MSG_TIMEOUT_MS_def
      split: if_splits)

lemma game_round_step:
  assumes ok: "game_ok g" and r: "game_round H g w = (g', w')"
  shows "game_ok g'" "visited g' = (visited g)[point_of (cursor g') := True]"
    "fst (cursor g') < 5" "snd (cursor g') < 5"
proof -
  obtain g1 w1 where s: "scroll_step H g w = (g1, w1)" by fastforce
  note s1 = scroll_step_cases [OF s ok]
  obtain x w2 where x: "acc_x H w1 = (x, w2)" by fastforce
  obtain y w3 where y: "acc_y H w2 = (y, w3)" by fastforce
  let ?g2 = "g1\<lparr>cursor_on := (cursor_on g1 + 40) mod 200, cursor := (position x, position y)\<rparr>"
  let ?w4 = "if remaining_scroll_time ?g2 < 0 \<or> samples_this_period ?g2 > SAMPLES_END_MSG_COUNT
                then paste_image H (game_image ?g2) w3 else w3"
  obtain g3 w5 where t: "take_samples H [0..<25] ?g2 ?w4 = (g3, w5)" by fastforce
  have g': "g' = g3\<lparr>remaining_scroll_time := remaining_scroll_time g3 - TIME_STEP\<rparr>"
    using r s x y t by (simp add: game_round_def Let_def PERIMETER_POINTS_def)
  let ?k = "point_of (position x, position y)"
  have k: "?k < 25" using position_less [of x] position_less [of y] by (simp add: point_of_def)
  have t': "take_samples H [0..<25] ?g2 ?w4 =
    (if visited ?g2 ! ?k then (?g2, ?w4)
     else case compass_sample H ?w4 of (s, w1) \<Rightarrow>
       (?g2\<lparr>data := (data ?g2)[samples ?g2 := s], visited := (visited ?g2)[?k := True],
          samples := samples ?g2 + 1, samples_this_period := samples_this_period ?g2 + 1\<rparr>, w1))"
    using take_samples_all [of ?g2 H ?w4] position_less by simp
  have g3: "cursor g3 = (position x, position y)" "visited g3 = (visited g1)[?k := True]"
    "remaining_scroll_time g3 = remaining_scroll_time g1" "length (data g3) = length (data g1)"
    "samples g3 = samples g1 + (if visited g1 ! ?k then 0 else 1)"
    "samples_this_period g3 = samples_this_period g1 + (if visited g1 ! ?k then 0 else 1)"
    using t unfolding t' by (auto simp: visit_again split: if_splits prod.splits)
  show "game_ok g'"
    using s1(5,6) g3 k unfolding g' game_ok_def
    by (auto simp: count_list_visit TIME_STEP_def)
  show "visited g' = (visited g)[point_of (cursor g') := True]" "fst (cursor g') < 5" "snd (cursor g') < 5"
    using g3 s1 position_less by (simp_all add: g')
qed

definition rounds :: "'w cal_hw \<Rightarrow> nat \<Rightarrow> game \<times> 'w \<Rightarrow> game \<times> 'w" where
  "rounds H n = (\<lambda>(g, w). game_round H g w) ^^ n"

lemma rounds_Suc: "rounds H (Suc n) s = (case rounds H n s of (g, w) \<Rightarrow> game_round H g w)"
  by (simp add: rounds_def)

lemma rounds_ok: "game_ok (fst s) \<Longrightarrow> game_ok (fst (rounds H n s))"
proof (induction n)
  case (Suc n)
  obtain g w where n: "rounds H n s = (g, w)" by fastforce
  obtain g' w' where "game_round H g w = (g', w')" by fastforce
  then show ?case using Suc n game_round_step(1) [of g H w g' w'] by (simp add: rounds_Suc)
qed (simp add: rounds_def)

lemma rounds_visit:
  assumes "game_ok (fst s)" and "i < 25"
  shows "visited (fst (rounds H n s)) ! i \<longleftrightarrow>
    visited (fst s) ! i \<or> (\<exists>m < n. cursor (fst (rounds H (Suc m) s)) = perimeter ! i)"
proof (induction n)
  case (Suc n)
  obtain g w where n: "rounds H n s = (g, w)" by fastforce
  obtain g' w' where g': "rounds H (Suc n) s = (g', w')" by fastforce
  have r: "game_round H g w = (g', w')" using n g' by (simp add: rounds_Suc)
  have ok: "game_ok g" using rounds_ok [OF assms(1), of H n] n by simp
  note step = game_round_step [OF ok r]
  have "visited g' ! i \<longleftrightarrow> visited g ! i \<or> cursor g' = perimeter ! i"
    using step ok assms(2) point_of_unique [OF step(3,4) assms(2)]
    by (auto simp: game_ok_def nth_list_update)
  then show ?case using Suc n g' by (auto simp: less_Suc_eq)
qed (simp add: rounds_def)

text \<open>The loop returns the state of the first round at which there are enough samples.\<close>

lemma game_loop_rounds:
  assumes "\<not> samples (fst (rounds H N s)) < 25"
  shows "\<exists>n \<le> N. (\<forall>m < n. samples (fst (rounds H m s)) < 25)
    \<and> \<not> samples (fst (rounds H n s)) < 25 \<and> game_loop H (fst s) (snd s) = Some (rounds H n s)"
proof -
  define n where "n = (LEAST n. \<not> samples (fst (rounds H n s)) < 25)"
  have n: "\<not> samples (fst (rounds H n s)) < 25" "n \<le> N"
    using assms unfolding n_def by (rule LeastI, rule Least_le)
  have before: "samples (fst (rounds H m s)) < 25" if "m < n" for m
    using that not_less_Least unfolding n_def by blast
  have upto: "m \<le> n \<Longrightarrow> game_loop H (fst s) (snd s) = game_loop H (fst (rounds H m s)) (snd (rounds H m s))" for m
  proof (induction m)
    case (Suc m)
    then show ?case using before [of m]
      using game_loop.simps [of H "fst (rounds H m s)" "snd (rounds H m s)"]
      by (simp add: rounds_Suc PERIMETER_POINTS_def case_prod_beta)
  qed (simp add: rounds_def)
  have "game_loop H (fst s) (snd s) = Some (rounds H n s)"
    using n(1) upto [of n] game_loop.simps [of H "fst (rounds H n s)" "snd (rounds H n s)"]
    by (simp add: PERIMETER_POINTS_def)
  then show ?thesis using n before by blast
qed

text \<open>
  C34 The game ends once every point has been under the cursor, with one sample for each of the 25 points,
  and each sample was written inside the array; the calibration that follows returns.
\<close>

theorem calibration_finishes:
  assumes F: "float_order F" and junk: "length junk = 25"
    and start: "s = (game_new junk, stop_animation H (set_brightness H 255 (target_wait H 100 w)))"
    and tilted: "\<forall>i < 25. \<exists>n < N. cursor (fst (rounds H (Suc n) s)) = perimeter ! i"
  shows "(\<exists>n \<le> N. game_loop H (fst s) (snd s) = Some (rounds H n s)
      \<and> visited (fst (rounds H n s)) = replicate 25 True \<and> samples (fst (rounds H n s)) = 25
      \<and> (\<forall>m < n. samples (fst (rounds H m s)) < length (data (fst (rounds H m s)))))
    \<and> (\<exists>w'. calibrateUX H F has_storage junk w = Some w')"
proof -
  have ok: "game_ok (fst s)"
    by (simp add: start game_ok_def game_new_def junk PERIMETER_POINTS_def MSG_TIME_def TIME_STEP_def count_list_0_iff)
  note oks = rounds_ok [OF ok, of H]
  have full: "visited (fst (rounds H n s)) = replicate 25 True \<longleftrightarrow> samples (fst (rounds H n s)) = 25" for n
    using oks [of n] count_list_full [of "visited (fst (rounds H n s))"] by (auto simp: game_ok_def)
  have most: "samples (fst (rounds H n s)) \<le> 25" for n
    using oks [of n] count_le_length [of "visited (fst (rounds H n s))" True] by (auto simp: game_ok_def)
  have "visited (fst (rounds H N s)) = replicate 25 True"
    using oks [of N] rounds_visit [OF ok] tilted by (auto simp: game_ok_def intro!: nth_equalityI)
  then have "\<not> samples (fst (rounds H N s)) < 25" using full by simp
  from game_loop_rounds [OF this] obtain n where n: "n \<le> N" "\<forall>m < n. samples (fst (rounds H m s)) < 25"
    "\<not> samples (fst (rounds H n s)) < 25" "game_loop H (fst s) (snd s) = Some (rounds H n s)" by blast
  then have "samples (fst (rounds H n s)) = 25" using most [of n] by simp
  then have one: "\<exists>n \<le> N. game_loop H (fst s) (snd s) = Some (rounds H n s)
    \<and> visited (fst (rounds H n s)) = replicate 25 True \<and> samples (fst (rounds H n s)) = 25
    \<and> (\<forall>m < n. samples (fst (rounds H m s)) < length (data (fst (rounds H m s))))"
    using n full oks by (auto simp: game_ok_def)
  obtain cal where "calibrate F (take (samples (fst (rounds H n s))) (data (fst (rounds H n s)))) = Some cal"
    using centre_returns [OF F, of "take (samples (fst (rounds H n s))) (data (fst (rounds H n s)))"]
    by (auto simp: calibrate_def)
  then have "\<exists>w'. calibrateUX H F has_storage junk w = Some w'"
    using n(4) by (cases "rounds H n s") (simp add: calibrateUX_def Let_def start)
  with one show ?thesis ..
qed

text \<open>A user who tilts the device to each point in turn, 25 rounds in all.\<close>

definition tilt :: "nat \<Rightarrow> int" where
  "tilt k = [-700, -300, 0, 300, 700] ! (k mod 5)"

definition tilting_hw :: "nat cal_hw" where
  "tilting_hw = \<lparr>acc_x = \<lambda>w. (tilt w, w), acc_y = \<lambda>w. (tilt (w div 5), w),
     compass_sample = \<lambda>w. (\<lparr>sx = 1000 * tilt w, sy = 1000 * tilt (w div 5), sz = 0\<rparr>, w),
     set_calibration = \<lambda>_ w. w, storage_put = \<lambda>_ w. w, storage_get = \<lambda>_. None,
     get_brightness = \<lambda>_. 255, set_brightness = \<lambda>_ w. w, stop_animation = \<lambda>w. w,
     clear_display = \<lambda>w. w, scroll_message = \<lambda>w. w, paste_image = \<lambda>_ w. w,
     print_smiley = \<lambda>w. w, target_wait = \<lambda>_ w. w + 1\<rparr>"

lemma tilting_samples: "snd (take_samples tilting_hw is g w) = w"
  by (induction "is" arbitrary: g) (simp_all add: tilting_hw_def)

lemma tilting_cursor: "cursor (fst (take_samples H is g w)) = cursor g"
  by (induction "is" arbitrary: g w) (auto split: prod.splits)

lemma tilting_round:
  "snd (game_round tilting_hw g w) = w + 1"
  "cursor (fst (game_round tilting_hw g w)) = (position (tilt w), position (tilt (w div 5)))"
proof -
  obtain g1 where s: "scroll_step tilting_hw g w = (g1, w)"
    by (cases "scroll_step tilting_hw g w") (auto simp: scroll_step_def tilting_hw_def split: if_splits)
  let ?g2 = "g1\<lparr>cursor_on := (cursor_on g1 + 40) mod 200,
      cursor := (position (tilt w), position (tilt (w div 5)))\<rparr>"
  let ?t = "take_samples tilting_hw [0..<PERIMETER_POINTS] ?g2 w"
  have "game_round tilting_hw g w =
      ((fst ?t)\<lparr>remaining_scroll_time := remaining_scroll_time (fst ?t) - TIME_STEP\<rparr>, snd ?t + 1)"
    unfolding game_round_def Let_def s by (simp add: tilting_hw_def case_prod_beta)
  then show "snd (game_round tilting_hw g w) = w + 1"
    "cursor (fst (game_round tilting_hw g w)) = (position (tilt w), position (tilt (w div 5)))"
    by (simp_all add: tilting_samples tilting_cursor)
qed

lemma tilting_rounds: "snd (rounds tilting_hw n (g, w)) = w + n"
  by (induction n) (simp_all add: rounds_def case_prod_beta tilting_round)

lemma position_tilt: "k < 5 \<Longrightarrow> position (tilt (k + 5 * j)) = k"
proof -
  assume k: "k < 5"
  then have "k = 0 \<or> k = 1 \<or> k = 2 \<or> k = 3 \<or> k = 4" by arith
  moreover have "tilt (k + 5 * j) = [-700, -300, 0, 300, 700] ! k" using k by (simp add: tilt_def)
  ultimately show "position (tilt (k + 5 * j)) = k"
    by (elim disjE) (simp_all add: position_def PIXEL1_THRESHOLD_def PIXEL2_THRESHOLD_def)
qed

theorem calibration_finishes_witness:
  "\<exists>w'. calibrateUX tilting_hw nat_ops True (replicate 25 origin) 24 = Some w'"
proof -
  let ?s = "(game_new (replicate 25 origin), 25 :: nat)"
  have s: "?s = (game_new (replicate 25 origin),
      stop_animation tilting_hw (set_brightness tilting_hw 255 (target_wait tilting_hw 100 24)))"
    by (simp add: tilting_hw_def)
  have "\<exists>n < 25. cursor (fst (rounds tilting_hw (Suc n) ?s)) = perimeter ! i" if "i < 25" for i
  proof (intro exI conjI)
    have "position (tilt (25 + i)) = i mod 5"
      using position_tilt [of "i mod 5" "i div 5 + 5"] by (simp add: algebra_simps)
    moreover have "position (tilt ((25 + i) div 5)) = i div 5"
    proof -
      have "(25 + i) div 5 = i div 5 + 5 * 1" "i div 5 < 5" using that by auto
      then show ?thesis using position_tilt [of "i div 5" 1] by simp
    qed
    ultimately show "cursor (fst (rounds tilting_hw (Suc i) ?s)) = perimeter ! i"
      using that by (simp add: rounds_Suc case_prod_beta tilting_round tilting_rounds perimeter_nth)
  qed (rule that)
  then show ?thesis
    using calibration_finishes [OF nat_ops_order _ s, of 25 True] by simp
qed

end
