(* ===== verification/Synth.thy ===== *)
theory Synth
  imports MB_Prelude Floats "HOL-Library.Monad_Syntax"
begin

text \<open>
  \<open>SoundEmojiSynthesizer\<close> (\<open>source/SoundEmojiSynthesizer.cpp\<close>): a sequence of sound effects is turned into
  samples, a buffer each time the mixer pulls. A result \<open>None\<close> is a call that never returns or that plays
  the memory behind an empty buffer.
\<close>

subsection \<open>State\<close>

text \<open>\<open>fx_effect\<close> is the effect function with its parameters, if there is one.\<close>

record 'e tone_fx =
  fx_effect :: "'e option"
  fx_step :: int
  fx_steps :: int

record ('f, 't, 'e) sound_fx =
  fx_frequency :: 'f
  fx_volume :: 'f
  fx_duration :: 'f
  fx_tone :: 't
  fx_effects :: "'e tone_fx list"

definition EMOJI_SYNTHESIZER_SAMPLE_RATE :: int where "EMOJI_SYNTHESIZER_SAMPLE_RATE = 44100"
definition EMOJI_SYNTHESIZER_BUFFER_SIZE :: int where "EMOJI_SYNTHESIZER_BUFFER_SIZE = 512"
definition EMOJI_SYNTHESIZER_TONE_WIDTH :: int where "EMOJI_SYNTHESIZER_TONE_WIDTH = 1024"
definition EMOJI_SYNTHESIZER_TONE_EFFECTS :: nat where "EMOJI_SYNTHESIZER_TONE_EFFECTS = 3"

text \<open>\<open>effect\<close> is the place of the current effect in \<open>effectBuffer\<close>. The status bits are Booleans.\<close>

record ('f, 't, 'e) synth =
  effectBuffer :: "('f, 't, 'e) sound_fx list"
  effect :: "nat option"
  sampleRate :: int
  sampleRange :: 'f
  orMask :: u16
  bufferSize :: int
  frequency :: 'f
  volume :: 'f
  samplesToWrite :: int
  samplesWritten :: int
  position :: 'f
  samplesPerStep :: "'f list"
  st_active :: bool
  st_silence_as_empty :: bool
  st_stopping :: bool

text \<open>
  What the synthesizer uses: the tone functions of codal-core, the effect functions (they see the effect
  and its step and may set the frequency and the volume), the fibre lock and the component downstream.
  \<open>behind_empty\<close> is the duration read behind an empty buffer. \<open>lock_wait\<close> lets other fibres run.
\<close>

record ('f, 't, 'e, 'w) synth_env =
  fl :: "'f float_ops"
  tone_print :: "'t \<Rightarrow> int \<Rightarrow> u16"
  run_effect :: "'e \<Rightarrow> ('f, 't, 'e) sound_fx \<Rightarrow> 'e tone_fx \<Rightarrow> 'f \<times> 'f \<Rightarrow> 'f \<times> 'f"
  behind_empty :: "'w \<Rightarrow> 'f"
  wait_count :: "'w \<Rightarrow> nat"
  lock_wait :: "('f, 't, 'e) synth \<Rightarrow> 'w \<Rightarrow> ('f, 't, 'e) synth \<times> 'w"
  lock_notify :: "'w \<Rightarrow> 'w"
  done_event :: "'w \<Rightarrow> 'w"
  pull_request :: "'w \<Rightarrow> 'w"
  request_activation :: "'w \<Rightarrow> 'w"

definition synth_new :: "('f, 't, 'e, 'w) synth_env \<Rightarrow> int \<Rightarrow> 'f \<Rightarrow> 'f list \<Rightarrow> ('f, 't, 'e) synth" where
  "synth_new K rate junk junks =
     \<lparr>effectBuffer = [], effect = None, sampleRate = rate, sampleRange = from_int (fl K) 1023, orMask = 0,
      bufferSize = EMOJI_SYNTHESIZER_BUFFER_SIZE, frequency = junk, volume = junk, samplesToWrite = 0,
      samplesWritten = 0, position = from_int (fl K) 0, samplesPerStep = junks, st_active = False,
      st_silence_as_empty = False, st_stopping = False\<rparr>"

text \<open>The check looks at the field, not at the argument.\<close>

definition setBufferSize :: "int \<Rightarrow> ('f, 't, 'e) synth \<Rightarrow> code \<times> ('f, 't, 'e) synth" where
  "setBufferSize n s =
     (if bufferSize s \<le> 0 then (INVALID_PARAMETER, s) else (OK, s\<lparr>bufferSize := n\<rparr>))"

definition setSampleRate :: "int \<Rightarrow> ('f, 't, 'e) synth \<Rightarrow> ('f, 't, 'e) synth" where
  "setSampleRate rate s = s\<lparr>sampleRate := rate\<rparr>"

definition setSampleRange :: "('f, 't, 'e, 'w) synth_env \<Rightarrow> u16 \<Rightarrow> ('f, 't, 'e) synth \<Rightarrow> ('f, 't, 'e) synth" where
  "setSampleRange K r s = s\<lparr>sampleRange := from_int (fl K) (uint r)\<rparr>"

definition getSampleRange :: "('f, 't, 'e, 'w) synth_env \<Rightarrow> ('f, 't, 'e) synth \<Rightarrow> u16" where
  "getSampleRange K s = word_of_int (to_int (fl K) (sampleRange s))"

definition setOrMask :: "u16 \<Rightarrow> ('f, 't, 'e) synth \<Rightarrow> ('f, 't, 'e) synth" where
  "setOrMask m s = s\<lparr>orMask := m\<rparr>"

definition allowEmptyBuffers :: "bool \<Rightarrow> ('f, 't, 'e) synth \<Rightarrow> ('f, 't, 'e) synth" where
  "allowEmptyBuffers m s = s\<lparr>st_silence_as_empty := m\<rparr>"

definition determineSampleCount :: "('f, 't, 'e, 'w) synth_env \<Rightarrow> 'f \<Rightarrow> ('f, 't, 'e) synth \<Rightarrow> int" where
  "determineSampleCount K playoutTime s =
     (let F = fl K;
          t = (if less F playoutTime (from_int F 0) then sub F (from_int F 0) playoutTime else playoutTime);
          seconds = divide F t (from_int F 1000)
      in to_int F (mul F (from_int F (sampleRate s)) seconds))"

subsection \<open>The next effect\<close>

definition reset_steps :: "('f, 't, 'e) sound_fx \<Rightarrow> ('f, 't, 'e) sound_fx" where
  "reset_steps e = e\<lparr>fx_effects := map (\<lambda>t. t\<lparr>fx_step := 0, fx_steps := max (fx_steps t) 1\<rparr>) (fx_effects e)\<rparr>"

definition start_effect :: "('f, 't, 'e, 'w) synth_env \<Rightarrow> nat \<Rightarrow> ('f, 't, 'e) synth \<Rightarrow> ('f, 't, 'e) synth" where
  "start_effect K i s =
     (let e = effectBuffer s ! i; e' = reset_steps e; n = determineSampleCount K (fx_duration e) s
      in s\<lparr>effect := Some i, samplesToWrite := n, frequency := fx_frequency e, volume := fx_volume e,
           samplesWritten := 0, effectBuffer := (effectBuffer s)[i := e'],
           samplesPerStep := map (\<lambda>t. divide (fl K) (from_int (fl K) n) (from_int (fl K) (fx_steps t)))
             (fx_effects e')\<rparr>)"

definition no_more_effects :: "('f, 't, 'e, 'w) synth_env \<Rightarrow> ('f, 't, 'e) synth \<Rightarrow> ('f, 't, 'e) synth" where
  "no_more_effects K s =
     s\<lparr>effect := None, effectBuffer := [], samplesWritten := 0, samplesToWrite := 0,
       position := from_int (fl K) 0\<rparr>"

text \<open>Behind the last effect the first one is looked at again, also when there is none.\<close>

definition nextSoundEffect :: "('f, 't, 'e, 'w) synth_env \<Rightarrow> ('f, 't, 'e) synth \<Rightarrow> 'w
    \<Rightarrow> (bool \<times> ('f, 't, 'e) synth) option" where
  "nextSoundEffect K s w =
     (let hadEffect = effect s \<noteq> None;
          s1 = (if st_stopping s then s\<lparr>effect := None, effectBuffer := []\<rparr> else s);
          i = (case effect s1 of Some i \<Rightarrow> i + 1 | None \<Rightarrow> 0)
      in if i < length (effectBuffer s1) then Some (False, start_effect K i s1)
         else
           let first = (if effectBuffer s1 = [] then behind_empty K w else fx_duration (effectBuffer s1 ! 0))
           in if \<not> less (fl K) first (from_int (fl K) 0) \<or> wait_count K w > 0
              then Some (hadEffect, no_more_effects K s1)
              else if effectBuffer s1 = [] then None else Some (False, start_effect K 0 s1))"

subsection \<open>Playing and stopping\<close>

text \<open>A buffer shorter than one effect is the empty list.\<close>

definition play :: "('f, 't, 'e, 'w) synth_env \<Rightarrow> ('f, 't, 'e) sound_fx list \<Rightarrow> ('f, 't, 'e) synth \<Rightarrow> 'w
    \<Rightarrow> (code \<times> ('f, 't, 'e) synth \<times> 'w) option" where
  "play K sound s w =
     (let w1 = request_activation K w
      in if sound = [] then Some (INVALID_PARAMETER, s, w1)
         else case lock_wait K s w1 of (s1, w2) \<Rightarrow> do {
           (_, s2) \<leftarrow> nextSoundEffect K (s1\<lparr>effectBuffer := sound\<rparr>) w2;
           Some (if \<not> st_active s2 then (OK, s2\<lparr>st_active := True\<rparr>, pull_request K w2) else (OK, s2, w2))
         })"

definition stop :: "('f, 't, 'e) synth \<Rightarrow> ('f, 't, 'e) synth" where
  "stop s = (if effect s \<noteq> None then s\<lparr>st_stopping := True\<rparr> else s)"

subsection \<open>A buffer of samples\<close>

text \<open>The loop that keeps the position inside the tone; it does not end on huge numbers.\<close>

partial_function (option) keep_in_range :: "'f float_ops \<Rightarrow> 'f \<Rightarrow> 'f option" where
  "keep_in_range F p =
     (if less F (from_int F EMOJI_SYNTHESIZER_TONE_WIDTH) p
      then keep_in_range F (sub F p (from_int F EMOJI_SYNTHESIZER_TONE_WIDTH)) else Some p)"

definition current :: "('f, 't, 'e) synth \<Rightarrow> ('f, 't, 'e) sound_fx" where
  "current s = effectBuffer s ! the (effect s)"

definition one_sample :: "('f, 't, 'e, 'w) synth_env \<Rightarrow> ('f, 't, 'e) synth \<Rightarrow> (u16 \<times> ('f, 't, 'e) synth) option" where
  "one_sample K s =
     (let F = fl K;
          skip = divide F (mul F (from_int F EMOJI_SYNTHESIZER_TONE_WIDTH) (frequency s)) (from_int F (sampleRate s));
          gain = divide F (mul F (sampleRange s) (volume s)) (from_int F 1024);
          offset = sub F (from_int F 512) (mul F (from_int F 512) gain);
          v = from_int F (uint (tone_print K (fx_tone (current s)) (to_int F (position s))));
          x = word_of_int (to_int F (add F (mul F v gain) offset)) OR orMask s
      in do {
        p \<leftarrow> keep_in_range F (add F (position s) skip);
        Some (x, s\<lparr>samplesWritten := samplesWritten s + 1, position := p\<rparr>)
      })"

text \<open>Where the current step of an effect function ends.\<close>

definition step_end :: "('f, 't, 'e, 'w) synth_env \<Rightarrow> ('f, 't, 'e) synth \<Rightarrow> nat \<Rightarrow> int" where
  "step_end K s i =
     (let t = fx_effects (current s) ! i
      in if fx_step t = fx_steps t - 1 then samplesToWrite s
         else to_int (fl K) (mul (fl K) (samplesPerStep s ! i) (from_int (fl K) (fx_step t))))"

definition step_ends :: "('f, 't, 'e, 'w) synth_env \<Rightarrow> ('f, 't, 'e) synth \<Rightarrow> int list" where
  "step_ends K s = map (step_end K s) [0..<EMOJI_SYNTHESIZER_TONE_EFFECTS]"

definition step_end_position :: "int list \<Rightarrow> int" where
  "step_end_position ends = fold min (tl ends) (hd ends)"

text \<open>The result is whether the buffer is full; \<open>out\<close> is what it holds.\<close>

partial_function (option) write_samples :: "('f, 't, 'e, 'w) synth_env \<Rightarrow> int \<Rightarrow> u16 list \<Rightarrow> ('f, 't, 'e) synth
    \<Rightarrow> (bool \<times> u16 list \<times> ('f, 't, 'e) synth) option" where
  "write_samples K stepEnd out s =
     (if samplesWritten s < stepEnd then
        if 2 * int (length out) = bufferSize s then Some (True, out, s)
        else do { (x, s1) \<leftarrow> one_sample K s; write_samples K stepEnd (out @ [x]) s1 }
      else Some (False, out, s))"

definition update_current :: "(('f, 't, 'e) sound_fx \<Rightarrow> ('f, 't, 'e) sound_fx) \<Rightarrow> ('f, 't, 'e) synth \<Rightarrow> ('f, 't, 'e) synth" where
  "update_current f s = s\<lparr>effectBuffer := (effectBuffer s)[the (effect s) := f (current s)]\<rparr>"

definition fire_one :: "('f, 't, 'e, 'w) synth_env \<Rightarrow> int list \<Rightarrow> nat \<Rightarrow> ('f, 't, 'e) synth \<Rightarrow> ('f, 't, 'e) synth" where
  "fire_one K ends i s =
     (let t = fx_effects (current s) ! i
      in if samplesWritten s = ends ! i \<and> fx_step t < fx_steps t then
           let (f, v) = (case fx_effect t of Some e \<Rightarrow> run_effect K e (current s) t (frequency s, volume s)
                         | None \<Rightarrow> (frequency s, volume s))
           in update_current (\<lambda>e. e\<lparr>fx_effects := (fx_effects e)[i := t\<lparr>fx_step := fx_step t + 1\<rparr>]\<rparr>)
                (s\<lparr>frequency := f, volume := v\<rparr>)
         else s)"

definition fire_effects :: "('f, 't, 'e, 'w) synth_env \<Rightarrow> int list \<Rightarrow> ('f, 't, 'e) synth \<Rightarrow> ('f, 't, 'e) synth" where
  "fire_effects K ends s = fold (fire_one K ends) [0..<EMOJI_SYNTHESIZER_TONE_EFFECTS] s"

partial_function (option) generate :: "('f, 't, 'e, 'w) synth_env \<Rightarrow> u16 list \<Rightarrow> ('f, 't, 'e) synth
    \<Rightarrow> (bool \<times> u16 list \<times> ('f, 't, 'e) synth) option" where
  "generate K out s =
     (if samplesWritten s < samplesToWrite s then
        let ends = step_ends K s
        in do {
          (full, out1, s1) \<leftarrow> write_samples K (step_end_position ends) out s;
          if full then Some (True, out1, s1) else generate K out1 (fire_effects K ends s1)
        }
      else Some (False, out, s))"

text \<open>The result is whether the loop is done.\<close>

definition schedule :: "('f, 't, 'e, 'w) synth_env \<Rightarrow> ('f, 't, 'e) synth \<Rightarrow> 'w
    \<Rightarrow> (bool \<times> ('f, 't, 'e) synth \<times> 'w) option" where
  "schedule K s w =
     (if samplesWritten s = samplesToWrite s \<or> st_stopping s then do {
        (renderComplete, s1) \<leftarrow> nextSoundEffect K s w;
        Some (if samplesToWrite s1 = 0 \<or> st_stopping s1 then
                if renderComplete \<or> st_stopping s1
                then (True, s1\<lparr>st_stopping := False\<rparr>, lock_notify K (done_event K w))
                else (True, s1, w)
              else (False, s1, w))
      } else Some (False, s, w))"

text \<open>\<open>out\<close> is \<open>None\<close> as long as no buffer has been made.\<close>

partial_function (option) pull_loop :: "('f, 't, 'e, 'w) synth_env \<Rightarrow> u16 list option \<Rightarrow> ('f, 't, 'e) synth \<Rightarrow> 'w
    \<Rightarrow> (bool \<times> u16 list option \<times> ('f, 't, 'e) synth \<times> 'w) option" where
  "pull_loop K out s w = do {
     (done, s1, w1) \<leftarrow> schedule K s w;
     let out1 = (if (samplesWritten s1 < samplesToWrite s1 \<or> \<not> st_silence_as_empty s1) \<and> out = None
                 then Some [] else out);
     (full, out2, s2) \<leftarrow> generate K (case out1 of Some xs \<Rightarrow> xs | None \<Rightarrow> []) s1;
     let out3 = (if out1 = None then None else Some out2);
     if full then Some (True, out3, s2, w1)
     else if done then Some (False, out3, s2, w1)
     else pull_loop K out3 s2 w1
   }"

definition pad_silence :: "('f, 't, 'e, 'w) synth_env \<Rightarrow> ('f, 't, 'e) synth \<Rightarrow> u16 list \<Rightarrow> u16 list" where
  "pad_silence K s out =
     (let F = fl K;
          half = divide F (from_int F 1) (from_int F 2);
          silence = word_of_int (to_int F (mul F (sampleRange s) half)) OR orMask s
      in out @ replicate (nat ((bufferSize s - 2 * int (length out) + 1) div 2)) silence)"

definition pull :: "('f, 't, 'e, 'w) synth_env \<Rightarrow> ('f, 't, 'e) synth \<Rightarrow> 'w
    \<Rightarrow> (u16 list \<times> ('f, 't, 'e) synth \<times> 'w) option" where
  "pull K s w = do {
     (full, out, s1, w1) \<leftarrow> pull_loop K None s w;
     let buffer = (case out of None \<Rightarrow> [] | Some xs \<Rightarrow> if full then xs else pad_silence K s1 xs);
     Some (buffer, s1, pull_request K w1)
   }"

end
