(* ===== verification/SynthProps.thy ===== *)
theory SynthProps
  imports Synth
begin

text \<open>
  The samples a sound becomes do not depend on the buffers they are asked for: pulling gives the song of
  the sound, cut into buffers, the last one filled with silence.
\<close>

subsection \<open>The song\<close>

text \<open>The next effect of a sound that does not repeat.\<close>

definition next_of :: "('f, 't, 'e, 'w) synth_env \<Rightarrow> ('f, 't, 'e) synth \<Rightarrow> ('f, 't, 'e) synth" where
  "next_of K s =
     (let i = the (effect s) + 1
      in if i < length (effectBuffer s) then start_effect K i s else no_more_effects K s)"

text \<open>The samples from a state on, without buffers.\<close>

partial_function (option) song :: "('f, 't, 'e, 'w) synth_env \<Rightarrow> ('f, 't, 'e) synth \<Rightarrow> u16 list option" where
  "song K s =
     (if samplesWritten s < samplesToWrite s then
        let ends = step_ends K s; m = step_end_position ends
        in if samplesWritten s < m then do {
             (x, s1) \<leftarrow> one_sample K s;
             xs \<leftarrow> song K (if samplesWritten s1 < m then s1 else fire_effects K ends s1);
             Some (x # xs)
           } else song K (fire_effects K ends s)
      else if samplesToWrite (next_of K s) = 0 then Some [] else song K (next_of K s))"

subsection \<open>Sounds that can be played\<close>

text \<open>
  Numbers as they are on the processor: the steps of an effect end in order, inside the effect, and the
  position of a tone stays where the loop that keeps it in range ends. \<open>okf\<close> are frequencies that occur,
  \<open>okp\<close> positions.
\<close>

definition step_time :: "('f, 't, 'e, 'w) synth_env \<Rightarrow> int \<Rightarrow> int \<Rightarrow> int \<Rightarrow> int" where
  "step_time K n m k = to_int (fl K) (mul (fl K) (divide (fl K) (from_int (fl K) n) (from_int (fl K) m)) (from_int (fl K) k))"

definition steps_in_order :: "('f, 't, 'e, 'w) synth_env \<Rightarrow> int \<Rightarrow> int \<Rightarrow> bool" where
  "steps_in_order K n m \<longleftrightarrow>
     (\<forall>k. 0 \<le> k \<longrightarrow> k + 1 < m \<longrightarrow> 0 \<le> step_time K n m k \<and> step_time K n m k \<le> n
        \<and> (k + 2 < m \<longrightarrow> step_time K n m k \<le> step_time K n m (k + 1)))"

definition fx_ok :: "('f, 't, 'e, 'w) synth_env \<Rightarrow> ('f \<Rightarrow> bool) \<Rightarrow> ('f, 't, 'e) synth \<Rightarrow> ('f, 't, 'e) sound_fx \<Rightarrow> bool" where
  "fx_ok K okf s e \<longleftrightarrow> length (fx_effects e) = 3 \<and> okf (fx_frequency e)
     \<and> \<not> less (fl K) (fx_duration e) (from_int (fl K) 0) \<and> 0 < determineSampleCount K (fx_duration e) s
     \<and> (\<forall>t \<in> set (fx_effects e). steps_in_order K (determineSampleCount K (fx_duration e) s) (max (fx_steps t) 1))"

definition tones_ok :: "('f, 't, 'e, 'w) synth_env \<Rightarrow> ('f \<Rightarrow> bool) \<Rightarrow> ('f \<Rightarrow> bool) \<Rightarrow> int \<Rightarrow> bool" where
  "tones_ok K okf okp rate \<longleftrightarrow>
     (\<forall>p f. okp p \<longrightarrow> okf f \<longrightarrow> (\<exists>q. keep_in_range (fl K)
        (add (fl K) p (divide (fl K) (mul (fl K) (from_int (fl K) EMOJI_SYNTHESIZER_TONE_WIDTH) f) (from_int (fl K) rate)))
        = Some q \<and> okp q))
     \<and> (\<forall>e c t f v. okf (fx_frequency c) \<longrightarrow> okf f \<longrightarrow> okf (fst (run_effect K e c t (f, v))))"

text \<open>In the middle of a sound.\<close>

definition playing :: "('f, 't, 'e, 'w) synth_env \<Rightarrow> ('f \<Rightarrow> bool) \<Rightarrow> ('f \<Rightarrow> bool) \<Rightarrow> ('f, 't, 'e) synth \<Rightarrow> bool" where
  "playing K okf okp s \<longleftrightarrow>
     (\<exists>i. effect s = Some i \<and> i < length (effectBuffer s)
        \<and> samplesToWrite s = determineSampleCount K (fx_duration (effectBuffer s ! i)) s)
     \<and> (\<forall>e \<in> set (effectBuffer s). fx_ok K okf s e)
     \<and> tones_ok K okf okp (sampleRate s) \<and> okf (frequency s) \<and> okp (position s) \<and> \<not> st_stopping s
     \<and> samplesWritten s \<le> samplesToWrite s
     \<and> samplesPerStep s = map (\<lambda>t. divide (fl K) (from_int (fl K) (samplesToWrite s)) (from_int (fl K) (fx_steps t)))
         (fx_effects (current s))
     \<and> (samplesWritten s < samplesToWrite s \<longrightarrow> (\<forall>i < 3. let t = fx_effects (current s) ! i in
          1 \<le> fx_steps t \<and> 0 \<le> fx_step t \<and> fx_step t < fx_steps t \<and> samplesWritten s \<le> step_end K s i
          \<and> step_end K s i \<le> samplesToWrite s))"

lemma count_rate: "sampleRate s = sampleRate s' \<Longrightarrow> determineSampleCount K d s = determineSampleCount K d s'"
  by (simp add: determineSampleCount_def)

lemma fx_ok_rate: "sampleRate s = sampleRate s' \<Longrightarrow> fx_ok K okf s e = fx_ok K okf s' e"
  unfolding fx_ok_def using count_rate [of s s' K "fx_duration e"] by simp

lemma less_three: "i < 3 \<longleftrightarrow> i = 0 \<or> i = 1 \<or> i = (2::nat)"
  by auto

lemma step_ends_three: "step_ends K s = [step_end K s 0, step_end K s 1, step_end K s 2]"
  by (simp add: step_ends_def EMOJI_SYNTHESIZER_TONE_EFFECTS_def upt_rec numeral_2_eq_2)

lemma step_ends_nth: "i < 3 \<Longrightarrow> step_ends K s ! i = step_end K s i"
  by (auto simp: step_ends_three less_three)

lemma position_min:
  "step_end_position (step_ends K s) = min (step_end K s 2) (min (step_end K s 1) (step_end K s 0))"
  by (simp add: step_ends_three step_end_position_def)

lemma playing_min:
  assumes "playing K okf okp s" and "samplesWritten s < samplesToWrite s"
  shows "samplesWritten s \<le> step_end_position (step_ends K s)" "step_end_position (step_ends K s) \<le> samplesToWrite s"
proof -
  have "samplesWritten s \<le> step_end K s i \<and> step_end K s i \<le> samplesToWrite s" if "i < 3" for i
    using assms that unfolding playing_def Let_def by blast
  from this [of 0] this [of 1] this [of 2]
  show "samplesWritten s \<le> step_end_position (step_ends K s)" "step_end_position (step_ends K s) \<le> samplesToWrite s"
    unfolding position_min by auto
qed

subsection \<open>One sample\<close>

lemma one_sample_fields:
  assumes "one_sample K s = Some (x, s1)"
  shows "\<exists>p. s1 = s\<lparr>samplesWritten := samplesWritten s + 1, position := p\<rparr>
    \<and> keep_in_range (fl K) (add (fl K) (position s) (divide (fl K) (mul (fl K)
        (from_int (fl K) EMOJI_SYNTHESIZER_TONE_WIDTH) (frequency s)) (from_int (fl K) (sampleRate s)))) = Some p"
  using assms by (auto simp: one_sample_def Let_def bind_eq_Some_conv)

lemma one_sample_ends:
  assumes "one_sample K s = Some (x, s1)"
  shows "step_end K s1 i = step_end K s i" "step_ends K s1 = step_ends K s"
proof -
  show e: "step_end K s1 i = step_end K s i" for i
    using one_sample_fields [OF assms] by (auto simp: step_end_def current_def Let_def)
  show "step_ends K s1 = step_ends K s" by (simp add: step_ends_def e)
qed

lemma one_sample_returns:
  assumes "playing K okf okp s"
  shows "\<exists>x s1. one_sample K s = Some (x, s1)"
  using assms unfolding playing_def tones_ok_def one_sample_def Let_def by fastforce

lemma one_sample_playing:
  assumes p: "playing K okf okp s" and o: "one_sample K s = Some (x, s1)"
    and m: "samplesWritten s < step_end_position (step_ends K s)" and l: "samplesWritten s < samplesToWrite s"
  shows "playing K okf okp s1"
proof -
  obtain q where s1: "s1 = s\<lparr>samplesWritten := samplesWritten s + 1, position := q\<rparr>"
    and q: "keep_in_range (fl K) (add (fl K) (position s) (divide (fl K) (mul (fl K)
        (from_int (fl K) EMOJI_SYNTHESIZER_TONE_WIDTH) (frequency s)) (from_int (fl K) (sampleRate s)))) = Some q"
    using one_sample_fields [OF o] by blast
  have "okp q"
  proof -
    have "tones_ok K okf okp (sampleRate s)" "okp (position s)" "okf (frequency s)" using p by (auto simp: playing_def)
    then show ?thesis using q unfolding tones_ok_def by (metis option.inject)
  qed
  moreover have "samplesWritten s + 1 \<le> step_end K s i" if "i < 3" for i
    using m that unfolding position_min less_three by auto
  moreover have "determineSampleCount K d s1 = determineSampleCount K d s" for d by (rule count_rate) (simp add: s1)
  moreover have "fx_ok K okf s1 e = fx_ok K okf s e" for e by (rule fx_ok_rate) (simp add: s1)
  moreover have "current s1 = current s" by (simp add: s1 current_def)
  ultimately show ?thesis
    using p l one_sample_ends(1) [OF o] unfolding playing_def Let_def by (auto simp: s1)
qed

subsection \<open>The effect functions\<close>

text \<open>What an effect function leaves alone, and the step it ends.\<close>

definition same_sound :: "('f, 't, 'e) synth \<Rightarrow> ('f, 't, 'e) synth \<Rightarrow> bool" where
  "same_sound s s' \<longleftrightarrow> effect s' = effect s \<and> length (effectBuffer s') = length (effectBuffer s)
     \<and> map fx_duration (effectBuffer s') = map fx_duration (effectBuffer s)
     \<and> sampleRate s' = sampleRate s \<and> sampleRange s' = sampleRange s \<and> orMask s' = orMask s
     \<and> bufferSize s' = bufferSize s \<and> samplesToWrite s' = samplesToWrite s
     \<and> samplesWritten s' = samplesWritten s \<and> position s' = position s
     \<and> samplesPerStep s' = samplesPerStep s \<and> st_stopping s' = st_stopping s
     \<and> st_silence_as_empty s' = st_silence_as_empty s
     \<and> (\<forall>e \<in> set (effectBuffer s'). \<exists>e0 \<in> set (effectBuffer s). fx_frequency e = fx_frequency e0
          \<and> fx_duration e = fx_duration e0 \<and> map fx_steps (fx_effects e) = map fx_steps (fx_effects e0))"

lemma same_sound_refl: "same_sound s s"
  by (auto simp: same_sound_def)

lemma same_sound_trans: "same_sound s s' \<Longrightarrow> same_sound s' s'' \<Longrightarrow> same_sound s s''"
  unfolding same_sound_def by simp metis

text \<open>The effect that is playing is one of the sound, with its three effect functions.\<close>

definition in_effect :: "('f, 't, 'e) synth \<Rightarrow> bool" where
  "in_effect s \<longleftrightarrow> (\<exists>i. effect s = Some i \<and> i < length (effectBuffer s)) \<and> length (fx_effects (current s)) = 3"

definition due :: "int list \<Rightarrow> ('f, 't, 'e) synth \<Rightarrow> nat \<Rightarrow> bool" where
  "due ends s i \<longleftrightarrow> samplesWritten s = ends ! i \<and> fx_step (fx_effects (current s) ! i) < fx_steps (fx_effects (current s) ! i)"

lemma current_voice: "current (s\<lparr>frequency := f, volume := v\<rparr>) = current s"
  by (simp add: current_def)

lemma map_steps_update: "map fx_steps (es[i := (es ! i)\<lparr>fx_step := x\<rparr>]) = map fx_steps es"
  by (cases "i < length es") (auto intro!: nth_equalityI simp: nth_list_update)

lemma map_duration_update: "map fx_duration (es[i := (es ! i)\<lparr>fx_effects := ts\<rparr>]) = map fx_duration es"
  by (cases "i < length es") (auto intro!: nth_equalityI simp: nth_list_update)

lemma fire_one_fields:
  assumes "in_effect s" and "i < 3" and "fire_one K ends i s = s'"
  shows "same_sound s s'" "in_effect s'" "fx_frequency (current s') = fx_frequency (current s)"
    "fx_effects (current s') = (if due ends s i
       then (fx_effects (current s))[i := (fx_effects (current s) ! i)\<lparr>fx_step := fx_step (fx_effects (current s) ! i) + 1\<rparr>]
       else fx_effects (current s))"
    "\<lbrakk>tones_ok K okf okp rate; okf (frequency s); okf (fx_frequency (current s))\<rbrakk> \<Longrightarrow> okf (frequency s')"
proof -
  obtain k where k: "effect s = Some k" "k < length (effectBuffer s)" "length (fx_effects (effectBuffer s ! k)) = 3"
    using assms(1) by (auto simp: in_effect_def current_def)
  let ?t = "fx_effects (effectBuffer s ! k) ! i"
  have cur: "current s = effectBuffer s ! k" using k by (simp add: current_def)
  have mem: "effectBuffer s ! k \<in> set (effectBuffer s)" using k by simp
  obtain f v where fv: "(case fx_effect ?t of Some e \<Rightarrow> run_effect K e (effectBuffer s ! k) ?t (frequency s, volume s)
                         | None \<Rightarrow> (frequency s, volume s)) = (f, v)" by fastforce
  have one: "fire_one K ends i s = (if due ends s i
      then (case (case fx_effect ?t of Some e \<Rightarrow> run_effect K e (effectBuffer s ! k) ?t (frequency s, volume s)
                  | None \<Rightarrow> (frequency s, volume s)) of (f, v) \<Rightarrow>
         s\<lparr>frequency := f, volume := v, effectBuffer := (effectBuffer s)[k :=
          (effectBuffer s ! k)\<lparr>fx_effects := (fx_effects (effectBuffer s ! k))[i := ?t\<lparr>fx_step := fx_step ?t + 1\<rparr>]\<rparr>]\<rparr>)
      else s)"
    unfolding fire_one_def due_def update_current_def current_voice cur Let_def by (simp add: k(1) case_prod_beta)
  have s': "s' = (if due ends s i
      then s\<lparr>frequency := f, volume := v, effectBuffer := (effectBuffer s)[k :=
          (effectBuffer s ! k)\<lparr>fx_effects := (fx_effects (effectBuffer s ! k))[i := ?t\<lparr>fx_step := fx_step ?t + 1\<rparr>]\<rparr>]\<rparr>
      else s)"
    using assms(3) one unfolding fv by (simp only: prod.case)
  note eff = map_steps_update [of "fx_effects (effectBuffer s ! k)" i]
  note dur = map_duration_update [of "effectBuffer s" k]
  show "same_sound s s'"
  proof (cases "due ends s i")
    case True
    have "\<exists>e0 \<in> set (effectBuffer s). fx_frequency e = fx_frequency e0 \<and> fx_duration e = fx_duration e0
        \<and> map fx_steps (fx_effects e) = map fx_steps (fx_effects e0)" if "e \<in> set (effectBuffer s')" for e
      using set_update_subset_insert that True mem eff unfolding s' by fastforce
    then show ?thesis using True dur by (simp add: s' same_sound_def)
  next
    case False
    then show ?thesis by (simp add: s' same_sound_refl)
  qed
  show "in_effect s'" using k by (simp add: s' in_effect_def current_def)
  show "fx_frequency (current s') = fx_frequency (current s)" using k by (simp add: s' current_def)
  show "fx_effects (current s') = (if due ends s i
       then (fx_effects (current s))[i := (fx_effects (current s) ! i)\<lparr>fx_step := fx_step (fx_effects (current s) ! i) + 1\<rparr>]
       else fx_effects (current s))"
    using k by (simp add: s' current_def)
  show "\<lbrakk>tones_ok K okf okp rate; okf (frequency s); okf (fx_frequency (current s))\<rbrakk> \<Longrightarrow> okf (frequency s')"
    using fv unfolding s' cur tones_ok_def by (auto split: option.splits) (metis fst_conv)
qed

lemma fire_effects_fields:
  assumes "in_effect s" and s': "fire_effects K ends s = s'"
  shows "same_sound s s'" "in_effect s'" "fx_frequency (current s') = fx_frequency (current s)"
    "j < 3 \<Longrightarrow> fx_effects (current s') ! j = (if due ends s j
       then (fx_effects (current s) ! j)\<lparr>fx_step := fx_step (fx_effects (current s) ! j) + 1\<rparr>
       else fx_effects (current s) ! j)"
    "\<lbrakk>tones_ok K okf okp rate; okf (frequency s); okf (fx_frequency (current s))\<rbrakk> \<Longrightarrow> okf (frequency s')"
proof -
  define s1 where "s1 = fire_one K ends 0 s"
  define s2 where "s2 = fire_one K ends 1 s1"
  have s3: "fire_one K ends 2 s2 = s'"
    using s' by (simp add: fire_effects_def EMOJI_SYNTHESIZER_TONE_EFFECTS_def upt_rec s1_def s2_def numeral_2_eq_2)
  note f1 = fire_one_fields [OF assms(1) _ s1_def [symmetric], simplified]
  note f2 = fire_one_fields [OF f1(2) _ s2_def [symmetric], simplified]
  note f3 = fire_one_fields [OF f2(2) _ s3, simplified]
  have len: "length (fx_effects (current s)) = 3" using assms(1) by (simp add: in_effect_def)
  have w: "samplesWritten s1 = samplesWritten s" "samplesWritten s2 = samplesWritten s"
    using f1(1) f2(1) by (simp_all add: same_sound_def)
  show "same_sound s s'" using f1(1) f2(1) f3(1) same_sound_trans by blast
  show "in_effect s'" by (rule f3(2))
  show "fx_frequency (current s') = fx_frequency (current s)" using f1(3) f2(3) f3(3) by simp
  have d1: "due ends s1 1 = due ends s 1" "due ends s2 2 = due ends s 2"
    using w f1(4) f2(4) by (simp_all add: due_def)
  show "j < 3 \<Longrightarrow> fx_effects (current s') ! j = (if due ends s j
       then (fx_effects (current s) ! j)\<lparr>fx_step := fx_step (fx_effects (current s) ! j) + 1\<rparr>
       else fx_effects (current s) ! j)"
    unfolding less_three using len d1 by (auto simp: f1(4) f2(4) f3(4))
  show "\<lbrakk>tones_ok K okf okp rate; okf (frequency s); okf (fx_frequency (current s))\<rbrakk> \<Longrightarrow> okf (frequency s')"
    using f1(5) [of okf okp rate] f2(5) [of okf okp rate] f3(5) [of okf okp rate] f1(3) f2(3) by simp
qed

lemma fx_ok_same:
  assumes "fx_ok K okf s e0" "fx_frequency e = fx_frequency e0" "fx_duration e = fx_duration e0"
    "map fx_steps (fx_effects e) = map fx_steps (fx_effects e0)"
  shows "fx_ok K okf s e"
proof -
  have "length (fx_effects e) = length (fx_effects e0)" by (metis assms(4) length_map)
  moreover have "fx_steps ` set (fx_effects e) = fx_steps ` set (fx_effects e0)" by (metis assms(4) set_map)
  ultimately show ?thesis using assms(1,2,3) unfolding fx_ok_def by (metis image_iff)
qed

lemma fx_ok_sound: "same_sound s s' \<Longrightarrow> \<forall>e \<in> set (effectBuffer s). fx_ok K okf s e
    \<Longrightarrow> \<forall>e \<in> set (effectBuffer s'). fx_ok K okf s' e"
  unfolding same_sound_def by (metis fx_ok_rate fx_ok_same)

lemma playing_in_effect: "playing K okf okp s \<Longrightarrow> in_effect s"
  unfolding playing_def in_effect_def fx_ok_def current_def by (metis nth_mem option.sel)

lemma step_end_time:
  assumes "playing K okf okp s" and "i < 3"
  shows "step_end K s i = (let t = fx_effects (current s) ! i in
    if fx_step t = fx_steps t - 1 then samplesToWrite s
    else step_time K (samplesToWrite s) (fx_steps t) (fx_step t))"
  using assms playing_in_effect [OF assms(1)]
  by (simp add: step_end_def step_time_def playing_def in_effect_def Let_def)

lemma fire_playing:
  assumes p: "playing K okf okp s"
  shows "playing K okf okp (fire_effects K (step_ends K s) s)"
proof -
  define s' where "s' = fire_effects K (step_ends K s) s"
  note f = fire_effects_fields [OF playing_in_effect [OF p] s'_def [symmetric]]
  obtain i where i: "effect s = Some i" "i < length (effectBuffer s)"
      "samplesToWrite s = determineSampleCount K (fx_duration (effectBuffer s ! i)) s"
    using p by (auto simp: playing_def)
  have ok: "fx_ok K okf s (current s)" using p i by (auto simp: playing_def current_def)
  have same: "effect s' = Some i" "length (effectBuffer s') = length (effectBuffer s)" "sampleRate s' = sampleRate s"
      "samplesToWrite s' = samplesToWrite s" "samplesWritten s' = samplesWritten s" "position s' = position s"
      "samplesPerStep s' = samplesPerStep s" "st_stopping s' = st_stopping s"
      "fx_duration (effectBuffer s' ! i) = fx_duration (effectBuffer s ! i)"
    using f(1) i(1,2) nth_map [of i "effectBuffer s" fx_duration] nth_map [of i "effectBuffer s'" fx_duration]
    by (auto simp: same_sound_def)
  have steps: "fx_steps (fx_effects (current s') ! j) = fx_steps (fx_effects (current s) ! j)" if "j < 3" for j
    using f(4) [OF that] by simp
  have spp: "map (\<lambda>t. divide (fl K) (from_int (fl K) n) (from_int (fl K) (fx_steps t))) (fx_effects (current s'))
      = map (\<lambda>t. divide (fl K) (from_int (fl K) n) (from_int (fl K) (fx_steps t))) (fx_effects (current s))" for n
    using f(2) playing_in_effect [OF p] steps by (intro nth_equalityI) (auto simp: in_effect_def)
  have inv: "let t = fx_effects (current s') ! j in 1 \<le> fx_steps t \<and> 0 \<le> fx_step t \<and> fx_step t < fx_steps t
      \<and> samplesWritten s' \<le> step_end K s' j \<and> step_end K s' j \<le> samplesToWrite s'"
    if lt: "samplesWritten s < samplesToWrite s" and j: "j < 3" for j
  proof -
    let ?t = "fx_effects (current s) ! j"
    have t: "1 \<le> fx_steps ?t" "0 \<le> fx_step ?t" "fx_step ?t < fx_steps ?t"
        "samplesWritten s \<le> step_end K s j" "step_end K s j \<le> samplesToWrite s"
      using p lt j by (auto simp: playing_def Let_def)
    have ord: "steps_in_order K (samplesToWrite s) (fx_steps ?t)"
    proof -
      have "?t \<in> set (fx_effects (current s))" using j playing_in_effect [OF p] by (simp add: in_effect_def)
      moreover have "samplesToWrite s = determineSampleCount K (fx_duration (current s)) s"
        using i by (simp add: current_def)
      moreover have "max (fx_steps ?t) 1 = fx_steps ?t" using t(1) by simp
      ultimately show ?thesis using ok unfolding fx_ok_def by metis
    qed
    have e': "step_end K s' j = (let t = fx_effects (current s') ! j in
      if fx_step t = fx_steps t - 1 then samplesToWrite s
      else step_time K (samplesToWrite s) (fx_steps t) (fx_step t))"
      using same(4,7) p j playing_in_effect [OF p] steps [OF j]
      by (simp add: step_end_def step_time_def playing_def in_effect_def Let_def)
    show ?thesis
    proof (cases "due (step_ends K s) s j")
      case False
      then show ?thesis using f(4) [OF j] e' t step_end_time [OF p j] same by (simp add: Let_def)
    next
      case True
      then have w: "samplesWritten s = step_end K s j" using j by (simp add: due_def step_ends_nth)
      then have last: "fx_step ?t \<noteq> fx_steps ?t - 1" using step_end_time [OF p j] lt by (auto simp: Let_def)
      have "step_end K s j = step_time K (samplesToWrite s) (fx_steps ?t) (fx_step ?t)"
        using step_end_time [OF p j] last by (simp add: Let_def)
      then have "fx_step ?t + 2 < fx_steps ?t \<longrightarrow> step_end K s j \<le> step_time K (samplesToWrite s) (fx_steps ?t) (fx_step ?t + 1)
          \<and> step_time K (samplesToWrite s) (fx_steps ?t) (fx_step ?t + 1) \<le> samplesToWrite s"
        using ord t unfolding steps_in_order_def by auto
      then show ?thesis using f(4) [OF j] True e' t w last same lt by (auto simp: Let_def)
    qed
  qed
  have cnt: "determineSampleCount K d s' = determineSampleCount K d s" for d by (rule count_rate) (simp add: same)
  have fx: "\<forall>e \<in> set (effectBuffer s'). fx_ok K okf s' e"
    using fx_ok_sound [OF f(1)] p unfolding playing_def by blast
  have "okf (frequency s')"
    using f(5) [of okf okp "sampleRate s"] p ok unfolding playing_def fx_ok_def by blast
  then show ?thesis
    using p i same spp inv fx cnt unfolding s'_def [symmetric] playing_def by auto
qed

subsection \<open>The length of a song\<close>

lemma same_sound_count: "same_sound s s' \<Longrightarrow> determineSampleCount K d s' = determineSampleCount K d s"
  by (rule count_rate) (simp add: same_sound_def)

definition remaining :: "('f, 't, 'e, 'w) synth_env \<Rightarrow> ('f, 't, 'e) synth \<Rightarrow> int" where
  "remaining K s = samplesToWrite s - samplesWritten s
     + sum_list (map (\<lambda>d. determineSampleCount K d s) (drop (the (effect s) + 1) (map fx_duration (effectBuffer s))))"

lemma map_reset: "map fx_duration (es[i := reset_steps (es ! i)]) = map fx_duration es"
  unfolding reset_steps_def by (rule map_duration_update)

lemma start_effect_playing:
  assumes "i < length (effectBuffer s)" and "\<forall>e \<in> set (effectBuffer s). fx_ok K okf s e"
    and "tones_ok K okf okp (sampleRate s)" and "okp (position s)" and "\<not> st_stopping s"
    and s': "start_effect K i s = s'"
  shows "playing K okf okp s'" "effect s' = Some i" "samplesWritten s' = 0" "0 < samplesToWrite s'"
    "samplesToWrite s' = determineSampleCount K (fx_duration (effectBuffer s ! i)) s"
    "map fx_duration (effectBuffer s') = map fx_duration (effectBuffer s)" "sampleRate s' = sampleRate s"
    "bufferSize s' = bufferSize s" "st_silence_as_empty s' = st_silence_as_empty s"
    "sampleRange s' = sampleRange s" "orMask s' = orMask s"
proof -
  let ?e = "effectBuffer s ! i"
  let ?n = "determineSampleCount K (fx_duration ?e) s"
  have e: "fx_ok K okf s ?e" using assms(1,2) by simp
  have s'': "s' = s\<lparr>effect := Some i, samplesToWrite := ?n, frequency := fx_frequency ?e, volume := fx_volume ?e,
      samplesWritten := 0, effectBuffer := (effectBuffer s)[i := reset_steps ?e],
      samplesPerStep := map (\<lambda>t. divide (fl K) (from_int (fl K) ?n) (from_int (fl K) (fx_steps t)))
             (fx_effects (reset_steps ?e))\<rparr>"
    using s' by (simp add: start_effect_def Let_def)
  have cnt: "determineSampleCount K d s' = determineSampleCount K d s" for d by (rule count_rate) (simp add: s'')
  have rate: "fx_ok K okf s' e = fx_ok K okf s e" for e by (rule fx_ok_rate) (simp add: s'')
  have reset: "fx_ok K okf s (reset_steps ?e)"
    using e by (auto simp: fx_ok_def reset_steps_def)
  have ok: "\<forall>e \<in> set (effectBuffer s'). fx_ok K okf s' e"
    using assms(2) reset set_update_subset_insert [of "effectBuffer s" i] unfolding rate by (auto simp: s'')
  have cur: "current s' = reset_steps ?e" using assms(1) by (simp add: s'' current_def)
  have inv: "let t = fx_effects (current s') ! j in 1 \<le> fx_steps t \<and> 0 \<le> fx_step t \<and> fx_step t < fx_steps t
      \<and> samplesWritten s' \<le> step_end K s' j \<and> step_end K s' j \<le> samplesToWrite s'" if "j < 3" for j
  proof -
    let ?t = "fx_effects (reset_steps ?e) ! j"
    have len: "length (fx_effects ?e) = 3" using e by (simp add: fx_ok_def)
    then have t: "fx_step ?t = 0" "1 \<le> fx_steps ?t" "max (fx_steps ?t) 1 = fx_steps ?t"
      using that by (simp_all add: reset_steps_def)
    have "?t \<in> set (fx_effects (reset_steps ?e))" using len that by (simp add: reset_steps_def)
    then have "steps_in_order K ?n (fx_steps ?t)" using reset t(3) by (auto simp: fx_ok_def reset_steps_def)
    moreover have "step_end K s' j = (if fx_step ?t = fx_steps ?t - 1 then ?n else step_time K ?n (fx_steps ?t) 0)"
      using len that t unfolding step_end_def cur step_time_def by (simp add: s'' reset_steps_def Let_def)
    moreover have "0 < ?n" using e by (simp add: fx_ok_def)
    ultimately show ?thesis using t unfolding cur steps_in_order_def by (auto simp: s'' Let_def)
  qed
  show "playing K okf okp s'"
  proof -
    have e1: "effect s' = Some i" "i < length (effectBuffer s')" "samplesToWrite s' = ?n" "samplesWritten s' = 0"
      "fx_duration (effectBuffer s' ! i) = fx_duration ?e" "frequency s' = fx_frequency ?e" "position s' = position s"
      "sampleRate s' = sampleRate s" "st_stopping s' = st_stopping s"
      using assms(1) by (simp_all add: s'' reset_steps_def)
    have e2: "0 < ?n" "okf (fx_frequency ?e)" using e by (simp_all add: fx_ok_def)
    have e3: "samplesPerStep s' = map (\<lambda>t. divide (fl K) (from_int (fl K) ?n) (from_int (fl K) (fx_steps t)))
         (fx_effects (current s'))" unfolding cur by (simp add: s'')
    show ?thesis unfolding playing_def using assms(3,4,5) ok cnt inv e1 e2 e3 by simp
  qed
  show "effect s' = Some i" "samplesWritten s' = 0" "0 < samplesToWrite s'"
    "samplesToWrite s' = determineSampleCount K (fx_duration (effectBuffer s ! i)) s"
    "map fx_duration (effectBuffer s') = map fx_duration (effectBuffer s)" "sampleRate s' = sampleRate s"
    "bufferSize s' = bufferSize s" "st_silence_as_empty s' = st_silence_as_empty s"
    "sampleRange s' = sampleRange s" "orMask s' = orMask s"
    using e by (simp_all add: s'' fx_ok_def map_reset)
qed

lemma next_of_more:
  assumes p: "playing K okf okp s" and "the (effect s) + 1 < length (effectBuffer s)"
  shows "playing K okf okp (next_of K s)" "samplesWritten (next_of K s) = 0" "0 < samplesToWrite (next_of K s)"
    "samplesWritten s = samplesToWrite s \<Longrightarrow> remaining K (next_of K s) = remaining K s"
    "effect (next_of K s) = Some (the (effect s) + 1)"
    "length (effectBuffer (next_of K s)) = length (effectBuffer s)"
    "bufferSize (next_of K s) = bufferSize s" "st_silence_as_empty (next_of K s) = st_silence_as_empty s"
    "sampleRange (next_of K s) = sampleRange s" "orMask (next_of K s) = orMask s"
proof -
  have n: "start_effect K (the (effect s) + 1) s = next_of K s" using assms(2) by (simp add: next_of_def Let_def)
  note st = start_effect_playing [OF assms(2) _ _ _ _ n, of okf okp]
  have pre: "\<forall>e \<in> set (effectBuffer s). fx_ok K okf s e" "tones_ok K okf okp (sampleRate s)" "okp (position s)"
      "\<not> st_stopping s" using p by (auto simp: playing_def)
  note st = st [OF pre]
  show "playing K okf okp (next_of K s)" "samplesWritten (next_of K s) = 0" "0 < samplesToWrite (next_of K s)"
    "effect (next_of K s) = Some (the (effect s) + 1)"
    "bufferSize (next_of K s) = bufferSize s" "st_silence_as_empty (next_of K s) = st_silence_as_empty s"
    "sampleRange (next_of K s) = sampleRange s" "orMask (next_of K s) = orMask s" using st by simp_all
  show "length (effectBuffer (next_of K s)) = length (effectBuffer s)" using st(6) by (metis length_map)
  have cnt: "determineSampleCount K d (next_of K s) = determineSampleCount K d s" for d
    by (rule count_rate) (simp add: st(7))
  have "drop (the (effect s) + 1) (map fx_duration (effectBuffer s))
      = fx_duration (effectBuffer s ! (the (effect s) + 1)) # drop (the (effect s) + 2) (map fx_duration (effectBuffer s))"
    using assms(2) by (simp add: Cons_nth_drop_Suc [symmetric])
  then show "samplesWritten s = samplesToWrite s \<Longrightarrow> remaining K (next_of K s) = remaining K s"
    using st by (simp add: remaining_def cnt)
qed

text \<open>The steps an effect function still has; it goes down when one is due.\<close>

definition steps_left :: "('f, 't, 'e) synth \<Rightarrow> nat" where
  "steps_left s = (\<Sum>i<3. nat (fx_steps (fx_effects (current s) ! i) - fx_step (fx_effects (current s) ! i)))"

lemma some_due:
  assumes p: "playing K okf okp s" and l: "samplesWritten s < samplesToWrite s"
    and m: "\<not> samplesWritten s < step_end_position (step_ends K s)"
  shows "\<exists>j < 3. due (step_ends K s) s j"
proof -
  have "samplesWritten s = step_end_position (step_ends K s)" using playing_min(1) [OF p l] m by simp
  then obtain j where j: "j < 3" "samplesWritten s = step_end K s j"
    unfolding position_min less_three by (metis min_def)
  then have "due (step_ends K s) s j" using p l by (auto simp: due_def step_ends_nth playing_def Let_def)
  then show ?thesis using j by blast
qed

lemma fire_steps_left:
  assumes p: "playing K okf okp s" and l: "samplesWritten s < samplesToWrite s"
    and d: "\<exists>j < 3. due (step_ends K s) s j"
  shows "steps_left (fire_effects K (step_ends K s) s) < steps_left s"
proof -
  note f = fire_effects_fields(4) [OF playing_in_effect [OF p] refl, of _ K "step_ends K s"]
  obtain j where j: "j < 3" "due (step_ends K s) s j" using d by blast
  show ?thesis unfolding steps_left_def
  proof (rule sum_strict_mono_ex1)
    show "\<forall>i \<in> {..<3}. nat (fx_steps (fx_effects (current (fire_effects K (step_ends K s) s)) ! i)
        - fx_step (fx_effects (current (fire_effects K (step_ends K s) s)) ! i))
      \<le> nat (fx_steps (fx_effects (current s) ! i) - fx_step (fx_effects (current s) ! i))"
      using f by auto
    show "\<exists>i \<in> {..<3}. nat (fx_steps (fx_effects (current (fire_effects K (step_ends K s) s)) ! i)
        - fx_step (fx_effects (current (fire_effects K (step_ends K s) s)) ! i))
      < nat (fx_steps (fx_effects (current s) ! i) - fx_step (fx_effects (current s) ! i))"
      using f [OF j(1)] j by (intro bexI [of _ j]) (auto simp: due_def)
  qed simp
qed

lemma fire_remaining:
  assumes "playing K okf okp s"
  shows "remaining K (fire_effects K ends s) = remaining K s"
    "samplesWritten (fire_effects K ends s) = samplesWritten s" "samplesToWrite (fire_effects K ends s) = samplesToWrite s"
    "effect (fire_effects K ends s) = effect s"
    "length (effectBuffer (fire_effects K ends s)) = length (effectBuffer s)"
    "bufferSize (fire_effects K ends s) = bufferSize s"
    "st_silence_as_empty (fire_effects K ends s) = st_silence_as_empty s"
    "sampleRange (fire_effects K ends s) = sampleRange s" "orMask (fire_effects K ends s) = orMask s"
proof -
  have f: "same_sound s (fire_effects K ends s)"
    by (rule fire_effects_fields(1) [OF playing_in_effect [OF assms] refl])
  then show "samplesWritten (fire_effects K ends s) = samplesWritten s" "samplesToWrite (fire_effects K ends s) = samplesToWrite s"
    "effect (fire_effects K ends s) = effect s"
    "length (effectBuffer (fire_effects K ends s)) = length (effectBuffer s)"
    "bufferSize (fire_effects K ends s) = bufferSize s"
    "st_silence_as_empty (fire_effects K ends s) = st_silence_as_empty s"
    "sampleRange (fire_effects K ends s) = sampleRange s" "orMask (fire_effects K ends s) = orMask s"
    by (simp_all add: same_sound_def)
  show "remaining K (fire_effects K ends s) = remaining K s"
    using f by (simp add: remaining_def same_sound_count [OF f]) (simp add: same_sound_def)
qed

lemma one_sample_remaining:
  assumes "one_sample K s = Some (x, s1)"
  shows "remaining K s1 = remaining K s - 1" "samplesWritten s1 = samplesWritten s + 1"
    "samplesToWrite s1 = samplesToWrite s" "effect s1 = effect s" "effectBuffer s1 = effectBuffer s"
    "bufferSize s1 = bufferSize s" "st_silence_as_empty s1 = st_silence_as_empty s"
    "sampleRange s1 = sampleRange s" "orMask s1 = orMask s"
proof -
  obtain p where s1: "s1 = s\<lparr>samplesWritten := samplesWritten s + 1, position := p\<rparr>"
    using one_sample_fields [OF assms] by blast
  have "determineSampleCount K d s1 = determineSampleCount K d s" for d by (rule count_rate) (simp add: s1)
  then show "remaining K s1 = remaining K s - 1" by (simp add: remaining_def s1)
  show "samplesWritten s1 = samplesWritten s + 1"
    "samplesToWrite s1 = samplesToWrite s" "effect s1 = effect s" "effectBuffer s1 = effectBuffer s"
    "bufferSize s1 = bufferSize s" "st_silence_as_empty s1 = st_silence_as_empty s"
    "sampleRange s1 = sampleRange s" "orMask s1 = orMask s" by (simp_all add: s1)
qed

text \<open>After a sample: the state the song goes on from.\<close>

definition after_sample :: "('f, 't, 'e, 'w) synth_env \<Rightarrow> int list \<Rightarrow> ('f, 't, 'e) synth \<Rightarrow> ('f, 't, 'e) synth" where
  "after_sample K ends s1 = (if samplesWritten s1 < step_end_position ends then s1 else fire_effects K ends s1)"

lemma after_sample_playing:
  assumes p: "playing K okf okp s" and o: "one_sample K s = Some (x, s1)"
    and l: "samplesWritten s < samplesToWrite s" and m: "samplesWritten s < step_end_position (step_ends K s)"
  shows "playing K okf okp (after_sample K (step_ends K s) s1)"
    "remaining K (after_sample K (step_ends K s) s1) = remaining K s - 1"
    "samplesWritten (after_sample K (step_ends K s) s1) = samplesWritten s + 1"
    "samplesToWrite (after_sample K (step_ends K s) s1) = samplesToWrite s"
    "effect (after_sample K (step_ends K s) s1) = effect s"
    "length (effectBuffer (after_sample K (step_ends K s) s1)) = length (effectBuffer s)"
    "bufferSize (after_sample K (step_ends K s) s1) = bufferSize s"
    "st_silence_as_empty (after_sample K (step_ends K s) s1) = st_silence_as_empty s"
    "sampleRange (after_sample K (step_ends K s) s1) = sampleRange s" "orMask (after_sample K (step_ends K s) s1) = orMask s"
proof -
  have p1: "playing K okf okp s1" by (rule one_sample_playing [OF p o m l])
  note r = one_sample_remaining [OF o] fire_remaining [OF p1, of "step_ends K s"]
  have f1: "playing K okf okp (fire_effects K (step_ends K s) s1)"
    using fire_playing [OF p1] one_sample_ends(2) [OF o] by simp
  show "playing K okf okp (after_sample K (step_ends K s) s1)"
    "remaining K (after_sample K (step_ends K s) s1) = remaining K s - 1"
    "samplesWritten (after_sample K (step_ends K s) s1) = samplesWritten s + 1"
    "samplesToWrite (after_sample K (step_ends K s) s1) = samplesToWrite s"
    "effect (after_sample K (step_ends K s) s1) = effect s"
    "length (effectBuffer (after_sample K (step_ends K s) s1)) = length (effectBuffer s)"
    "bufferSize (after_sample K (step_ends K s) s1) = bufferSize s"
    "st_silence_as_empty (after_sample K (step_ends K s) s1) = st_silence_as_empty s"
    "sampleRange (after_sample K (step_ends K s) s1) = sampleRange s" "orMask (after_sample K (step_ends K s) s1) = orMask s"
    using p1 f1 r by (simp_all add: after_sample_def)
qed

text \<open>Induction along a song: a sample, a step of the effect functions, the next effect, the end.\<close>

lemma playing_induct [consumes 1, case_names sample fire next_fx last_fx]:
  assumes "playing K okf okp s"
    and sample: "\<And>s x s1. \<lbrakk>playing K okf okp s; samplesWritten s < samplesToWrite s;
      samplesWritten s < step_end_position (step_ends K s); one_sample K s = Some (x, s1);
      P (after_sample K (step_ends K s) s1)\<rbrakk> \<Longrightarrow> P s"
    and fire: "\<And>s. \<lbrakk>playing K okf okp s; samplesWritten s < samplesToWrite s;
      \<not> samplesWritten s < step_end_position (step_ends K s); P (fire_effects K (step_ends K s) s)\<rbrakk> \<Longrightarrow> P s"
    and next_fx: "\<And>s. \<lbrakk>playing K okf okp s; samplesWritten s = samplesToWrite s;
      the (effect s) + 1 < length (effectBuffer s); P (next_of K s)\<rbrakk> \<Longrightarrow> P s"
    and last_fx: "\<And>s. \<lbrakk>playing K okf okp s; samplesWritten s = samplesToWrite s;
      \<not> the (effect s) + 1 < length (effectBuffer s)\<rbrakk> \<Longrightarrow> P s"
  shows "P s"
  using assms(1)
proof (induction s rule: wf_induct_rule [OF wf_measures [of "[\<lambda>s. length (effectBuffer s) - the (effect s),
    \<lambda>s. nat (samplesToWrite s - samplesWritten s), steps_left]"]])
  case (1 s)
  note p = 1(2)
  show ?case
  proof (cases "samplesWritten s < samplesToWrite s")
    case l: True
    show ?thesis
    proof (cases "samplesWritten s < step_end_position (step_ends K s)")
      case m: True
      obtain x s1 where o: "one_sample K s = Some (x, s1)" using one_sample_returns [OF p] by blast
      note a = after_sample_playing [OF p o l m]
      show ?thesis by (rule sample [OF p l m o], rule 1(1)) (use a l in auto)
    next
      case m: False
      show ?thesis
        by (rule fire [OF p l m], rule 1(1)) (use fire_playing [OF p] fire_remaining [OF p, of "step_ends K s"]
            fire_steps_left [OF p l some_due [OF p l m]] in auto)
    qed
  next
    case l: False
    then have eq: "samplesWritten s = samplesToWrite s" using p by (simp add: playing_def)
    show ?thesis
    proof (cases "the (effect s) + 1 < length (effectBuffer s)")
      case True
      show ?thesis by (rule next_fx [OF p eq True], rule 1(1)) (use next_of_more [OF p True] True in auto)
    next
      case False
      then show ?thesis by (rule last_fx [OF p eq])
    qed
  qed
qed

lemma song_sample:
  assumes "samplesWritten s < samplesToWrite s" "samplesWritten s < step_end_position (step_ends K s)"
    "one_sample K s = Some (x, s1)"
  shows "song K s = map_option ((#) x) (song K (after_sample K (step_ends K s) s1))"
  using assms unfolding after_sample_def
  by (subst song.simps) (cases "song K (if samplesWritten s1 < step_end_position (step_ends K s) then s1
      else fire_effects K (step_ends K s) s1)"; simp add: Let_def)

lemma song_fire:
  assumes "samplesWritten s < samplesToWrite s" "\<not> samplesWritten s < step_end_position (step_ends K s)"
  shows "song K s = song K (fire_effects K (step_ends K s) s)"
  using assms by (subst song.simps) (simp add: Let_def)

lemma song_next:
  assumes "playing K okf okp s" "samplesWritten s = samplesToWrite s" "the (effect s) + 1 < length (effectBuffer s)"
  shows "song K s = song K (next_of K s)"
  using assms(2) next_of_more(3) [OF assms(1,3)] by (subst song.simps) simp

lemma song_last:
  assumes "samplesWritten s = samplesToWrite s" "\<not> the (effect s) + 1 < length (effectBuffer s)"
  shows "song K s = Some []"
  using assms by (subst song.simps) (simp add: next_of_def no_more_effects_def Let_def)

lemma song_returns:
  "playing K okf okp s \<Longrightarrow> \<exists>xs. song K s = Some xs \<and> int (length xs) = remaining K s"
proof (induction rule: playing_induct)
  case (sample s x s1)
  then show ?case using after_sample_playing(2) [of K okf okp s x s1] by (auto simp: song_sample)
next
  case (fire s)
  then show ?case using fire_remaining(1) [of K okf okp s "step_ends K s"] by (simp add: song_fire)
next
  case (next_fx s)
  then show ?case using next_of_more(4) [of K okf okp s] song_next [of K okf okp s] by simp
next
  case (last_fx s)
  then show ?case by (simp add: song_last remaining_def)
qed

subsection \<open>The song in buffers\<close>

definition idle :: "('f, 't, 'e, 'w) synth_env \<Rightarrow> ('f, 't, 'e) synth \<Rightarrow> bool" where
  "idle K s \<longleftrightarrow> effect s = None \<and> effectBuffer s = [] \<and> samplesWritten s = 0 \<and> samplesToWrite s = 0
     \<and> position s = from_int (fl K) 0 \<and> \<not> st_stopping s"

definition kept :: "('f, 't, 'e) synth \<Rightarrow> ('f, 't, 'e) synth \<Rightarrow> bool" where
  "kept s s' \<longleftrightarrow> bufferSize s' = bufferSize s \<and> st_silence_as_empty s' = st_silence_as_empty s
     \<and> sampleRange s' = sampleRange s \<and> orMask s' = orMask s"

lemma kept_trans: "kept s s' \<Longrightarrow> kept s' s'' \<Longrightarrow> kept s s''"
  by (simp add: kept_def)

text \<open>The rest of \<open>pull\<close> inside the loop that generates samples.\<close>

definition resume :: "('f, 't, 'e, 'w) synth_env \<Rightarrow> u16 list \<Rightarrow> ('f, 't, 'e) synth \<Rightarrow> 'w
    \<Rightarrow> (bool \<times> u16 list option \<times> ('f, 't, 'e) synth \<times> 'w) option" where
  "resume K out s w = do {
     (full, out2, s2) \<leftarrow> generate K out s;
     if full then Some (True, Some out2, s2, w) else pull_loop K (Some out2) s2 w
   }"

lemma generate_sample:
  assumes p: "playing K okf okp s" and l: "samplesWritten s < samplesToWrite s"
    and m: "samplesWritten s < step_end_position (step_ends K s)" and o: "one_sample K s = Some (x, s1)"
    and room: "2 * int (length out) \<noteq> bufferSize s"
  shows "generate K out s = generate K (out @ [x]) (after_sample K (step_ends K s) s1)"
proof -
  let ?m = "step_end_position (step_ends K s)"
  have w: "write_samples K ?m out s = write_samples K ?m (out @ [x]) s1"
    using m o room by (subst write_samples.simps) simp
  have g: "generate K out s = (write_samples K ?m (out @ [x]) s1) \<bind> (\<lambda>(full, out1, s1).
      if full then Some (True, out1, s1) else generate K out1 (fire_effects K (step_ends K s) s1))"
    using l w by (subst generate.simps) (simp add: Let_def)
  have s1: "samplesWritten s1 = samplesWritten s + 1" "samplesToWrite s1 = samplesToWrite s" "step_ends K s1 = step_ends K s"
    using one_sample_remaining [OF o] one_sample_ends(2) [OF o] by simp_all
  show ?thesis
  proof (cases "samplesWritten s1 < ?m")
    case True
    then have "samplesWritten s1 < samplesToWrite s1" using playing_min(2) [OF p l] s1 by simp
    then have "generate K (out @ [x]) s1 = (write_samples K ?m (out @ [x]) s1) \<bind> (\<lambda>(full, out1, s1).
      if full then Some (True, out1, s1) else generate K out1 (fire_effects K (step_ends K s) s1))"
      using s1(3) by (subst generate.simps) (simp add: Let_def)
    then show ?thesis using g True by (simp add: after_sample_def)
  next
    case False
    then have "write_samples K ?m (out @ [x]) s1 = Some (False, out @ [x], s1)"
      by (subst write_samples.simps) simp
    then show ?thesis using g False by (simp add: after_sample_def)
  qed
qed

lemma generate_full:
  assumes "samplesWritten s < samplesToWrite s" "samplesWritten s < step_end_position (step_ends K s)"
    "2 * int (length out) = bufferSize s"
  shows "generate K out s = Some (True, out, s)"
proof -
  have "write_samples K (step_end_position (step_ends K s)) out s = Some (True, out, s)"
    using assms by (subst write_samples.simps) simp
  then show ?thesis using assms(1) by (subst generate.simps) (simp add: Let_def)
qed

lemma generate_fire:
  assumes "samplesWritten s < samplesToWrite s" "\<not> samplesWritten s < step_end_position (step_ends K s)"
  shows "generate K out s = generate K out (fire_effects K (step_ends K s) s)"
proof -
  have "write_samples K (step_end_position (step_ends K s)) out s = Some (False, out, s)"
    using assms by (subst write_samples.simps) simp
  then show ?thesis using assms(1) by (subst generate.simps) (simp add: Let_def)
qed

lemma generate_end: "\<not> samplesWritten s < samplesToWrite s \<Longrightarrow> generate K out s = Some (False, out, s)"
  by (subst generate.simps) simp

lemma next_effect:
  assumes p: "playing K okf okp s"
  shows "nextSoundEffect K s w = Some (\<not> the (effect s) + 1 < length (effectBuffer s), next_of K s)"
proof -
  obtain i where i: "effect s = Some i" "i < length (effectBuffer s)" using p by (auto simp: playing_def)
  then have "effectBuffer s ! 0 \<in> set (effectBuffer s)" by (intro nth_mem) auto
  then have "\<not> less (fl K) (fx_duration (effectBuffer s ! 0)) (from_int (fl K) 0)"
    using p unfolding playing_def fx_ok_def by blast
  then show ?thesis using i p by (auto simp: nextSoundEffect_def next_of_def playing_def Let_def)
qed

text \<open>The loop of \<open>pull\<close> in the middle of a sound.\<close>

lemma pull_loop_in_effect:
  assumes p: "playing K okf okp s" and l: "samplesWritten s < samplesToWrite s"
  shows "pull_loop K (Some out) s w = resume K out s w" "pull_loop K None s w = resume K [] s w"
proof -
  have "schedule K s w = Some (False, s, w)" using p l by (simp add: schedule_def playing_def)
  then show "pull_loop K (Some out) s w = resume K out s w" "pull_loop K None s w = resume K [] s w"
    using l by (subst pull_loop.simps, simp add: resume_def Let_def case_prod_beta cong: if_cong)+
qed

lemma pull_loop_between:
  assumes p: "playing K okf okp s" and eq: "samplesWritten s = samplesToWrite s"
  shows "the (effect s) + 1 < length (effectBuffer s) \<Longrightarrow>
      pull_loop K (Some out) s w = resume K out (next_of K s) w"
    "\<not> the (effect s) + 1 < length (effectBuffer s) \<Longrightarrow>
      pull_loop K (Some out) s w = Some (False, Some out, next_of K s, lock_notify K (done_event K w))"
proof -
  note n = next_effect [OF p, of w]
  show "pull_loop K (Some out) s w = resume K out (next_of K s) w"
    if more: "the (effect s) + 1 < length (effectBuffer s)"
  proof -
    have "schedule K s w = Some (False, next_of K s, w)"
      using n more eq next_of_more [OF p more] by (simp add: schedule_def playing_def)
    then show ?thesis
      by (subst pull_loop.simps) (simp add: resume_def Let_def case_prod_beta cong: if_cong)
  qed
  show "pull_loop K (Some out) s w = Some (False, Some out, next_of K s, lock_notify K (done_event K w))"
    if last: "\<not> the (effect s) + 1 < length (effectBuffer s)"
  proof -
    have no: "next_of K s = no_more_effects K s" using last by (simp add: next_of_def Let_def)
    have "schedule K s w = Some (True, next_of K s, lock_notify K (done_event K w))"
      using n last eq p by (simp add: schedule_def no no_more_effects_def playing_def)
    moreover have "generate K out (next_of K s) = Some (False, out, next_of K s)"
      by (rule generate_end) (simp add: no no_more_effects_def)
    ultimately show ?thesis by (subst pull_loop.simps) (simp add: Let_def)
  qed
qed

lemma resume_between:
  assumes "samplesWritten s = samplesToWrite s"
  shows "resume K out s w = pull_loop K (Some out) s w"
  using assms by (simp add: resume_def generate_end)

text \<open>The buffer holds \<open>c\<close> samples. Either the song goes on behind it, or it ends in it.\<close>

definition room :: "('f, 't, 'e) synth \<Rightarrow> u16 list \<Rightarrow> nat" where
  "room s out = nat (bufferSize s div 2) - length out"

lemma resume_song:
  assumes "playing K okf okp s"
  shows "\<lbrakk>song K s = Some xs; even (bufferSize s); 2 * int (length out) \<le> bufferSize s\<rbrakk> \<Longrightarrow>
    (if room s out < length xs
     then \<exists>s'. resume K out s w = Some (True, Some (out @ take (room s out) xs), s', w)
       \<and> song K s' = Some (drop (room s out) xs) \<and> playing K okf okp s' \<and> samplesWritten s' < samplesToWrite s' \<and> kept s s'
     else \<exists>s'. resume K out s w = Some (False, Some (out @ xs), s', lock_notify K (done_event K w)) \<and> idle K s' \<and> kept s s')"
  using assms
proof (induction arbitrary: xs out rule: playing_induct)
  case (sample s x s1)
  note a = after_sample_playing [OF sample(1,4,2,3)]
  obtain ys where ys: "song K (after_sample K (step_ends K s) s1) = Some ys" "xs = x # ys"
    using song_sample [OF sample(2,3,4)] sample(6) by (cases "song K (after_sample K (step_ends K s) s1)") auto
  have k: "kept s (after_sample K (step_ends K s) s1)" using a by (simp add: kept_def)
  show ?case
  proof (cases "2 * int (length out) = bufferSize s")
    case True
    then have "room s out = 0" by (simp add: room_def)
    then show ?thesis using generate_full [OF sample(2,3) True] sample ys by (simp add: resume_def kept_def)
  next
    case False
    then have lt: "2 * int (length out) < bufferSize s" using sample(8) by simp
    then have r: "room s out = Suc (room (after_sample K (step_ends K s) s1) (out @ [x]))"
      using sample(7) a(7) by (auto simp: room_def elim!: evenE)
    have g: "resume K out s w = resume K (out @ [x]) (after_sample K (step_ends K s) s1) w"
      using generate_sample [OF sample(1,2,3,4) False] by (simp add: resume_def)
    have "2 * int (length (out @ [x])) \<le> bufferSize (after_sample K (step_ends K s) s1)"
      using lt sample(7) a(7) by (auto elim!: evenE)
    then show ?thesis
      using sample(5) [OF ys(1), of "out @ [x]"] sample(7) a(7) r g ys(2) kept_trans [OF k] by (auto split: if_splits)
  qed
next
  case (fire s)
  note f = fire_remaining [OF fire(1), of "step_ends K s"]
  have k: "kept s (fire_effects K (step_ends K s) s)" using f by (simp add: kept_def)
  have g: "resume K out s w = resume K out (fire_effects K (step_ends K s) s) w"
    using generate_fire [OF fire(2,3)] by (simp add: resume_def)
  have r: "room (fire_effects K (step_ends K s) s) out = room s out" using f(6) by (simp add: room_def)
  show ?case
    using fire(4) [of xs out] fire(5,6,7) song_fire [OF fire(2,3)] f(6) r g kept_trans [OF k] by (auto split: if_splits)
next
  case (next_fx s)
  note n = next_of_more [OF next_fx(1,3)]
  have k: "kept s (next_of K s)" using n by (simp add: kept_def)
  have g: "resume K out s w = resume K out (next_of K s) w"
    unfolding resume_between [OF next_fx(2)] by (rule pull_loop_between(1) [OF next_fx(1,2,3)])
  have r: "room (next_of K s) out = room s out" using n(7) by (simp add: room_def)
  show ?case
    using next_fx(4) [of xs out] next_fx(5,6,7) song_next [OF next_fx(1,2,3)] n(7) r g kept_trans [OF k] by (auto split: if_splits)
next
  case (last_fx s)
  have "xs = []" using song_last [OF last_fx(2,3), of K] last_fx(4) by simp
  moreover have "resume K out s w = Some (False, Some out, next_of K s, lock_notify K (done_event K w))"
    unfolding resume_between [OF last_fx(2)] by (rule pull_loop_between(2) [OF last_fx(1,2,3)])
  moreover have "idle K (next_of K s)" "kept s (next_of K s)"
    using last_fx(1,3) by (auto simp: next_of_def no_more_effects_def idle_def kept_def playing_def Let_def)
  ultimately show ?case by simp
qed

text \<open>The samples do not depend on the size of the buffers.\<close>

abbreviation with_buffer :: "int \<Rightarrow> bool \<Rightarrow> ('f, 't, 'e) synth \<Rightarrow> ('f, 't, 'e) synth" where
  "with_buffer b a s \<equiv> s\<lparr>bufferSize := b, st_active := a\<rparr>"

lemma with_buffer_parts:
  "step_ends K (with_buffer b a s) = step_ends K s"
  "one_sample K (with_buffer b a s) = map_option (map_prod id (with_buffer b a)) (one_sample K s)"
  "fire_effects K ends (with_buffer b a s) = with_buffer b a (fire_effects K ends s)"
  "next_of K (with_buffer b a s) = with_buffer b a (next_of K s)"
proof -
  have cur: "current (with_buffer b a s) = current s" for s by (simp add: current_def)
  show "step_ends K (with_buffer b a s) = step_ends K s"
    by (simp add: step_ends_def step_end_def cur Let_def)
  show "one_sample K (with_buffer b a s) = map_option (map_prod id (with_buffer b a)) (one_sample K s)"
    by (simp add: one_sample_def cur Let_def split: bind_split)
  have one: "fire_one K ends i (with_buffer b a s) = with_buffer b a (fire_one K ends i s)" for i s
    unfolding fire_one_def update_current_def current_voice cur Let_def
    by (simp add: case_prod_beta split: option.split)
  show "fire_effects K ends (with_buffer b a s) = with_buffer b a (fire_effects K ends s)"
    by (simp add: fire_effects_def EMOJI_SYNTHESIZER_TONE_EFFECTS_def upt_rec one)
  show "next_of K (with_buffer b a s) = with_buffer b a (next_of K s)"
    by (simp add: next_of_def start_effect_def no_more_effects_def determineSampleCount_def Let_def)
qed

lemma song_with_buffer:
  assumes "playing K okf okp s"
  shows "song K (with_buffer b a s) = song K s"
  using assms
proof (induction rule: playing_induct)
  case (sample s x s1)
  have o: "one_sample K (with_buffer b a s) = Some (x, with_buffer b a s1)"
    using sample(4) by (simp add: with_buffer_parts)
  have "after_sample K (step_ends K s) (with_buffer b a s1) = with_buffer b a (after_sample K (step_ends K s) s1)"
    by (simp add: after_sample_def with_buffer_parts)
  then have "song K (with_buffer b a s) = map_option ((#) x) (song K (with_buffer b a (after_sample K (step_ends K s) s1)))"
    using song_sample [OF _ _ o] sample(2,3) by (simp add: with_buffer_parts)
  then show ?case using song_sample [OF sample(2,3,4)] sample(5) by simp
next
  case (fire s)
  have "song K (with_buffer b a s) = song K (with_buffer b a (fire_effects K (step_ends K s) s))"
    using song_fire [of "with_buffer b a s" K] fire(2,3) by (simp add: with_buffer_parts)
  then show ?case using song_fire [OF fire(2,3)] fire(4) by simp
next
  case (next_fx s)
  have "song K (with_buffer b a s) = song K (with_buffer b a (next_of K s))"
    using next_fx(2) next_of_more(3) [OF next_fx(1,3)] by (subst song.simps) (simp add: with_buffer_parts)
  then show ?case using song_next [OF next_fx(1,2,3)] next_fx(4) by simp
next
  case (last_fx s)
  then show ?case using song_last [of s K] song_last [of "with_buffer b a s" K] by simp
qed

subsection \<open>Playing a sound\<close>

fun pulls :: "('f, 't, 'e, 'w) synth_env \<Rightarrow> nat \<Rightarrow> ('f, 't, 'e) synth \<Rightarrow> 'w
    \<Rightarrow> (u16 list list \<times> ('f, 't, 'e) synth \<times> 'w) option" where
  "pulls K 0 s w = Some ([], s, w)"
| "pulls K (Suc k) s w = do {
     (b, s1, w1) \<leftarrow> pull K s w;
     (bs, s2, w2) \<leftarrow> pulls K k s1 w1;
     Some (b # bs, s2, w2)
   }"

text \<open>Samples in buffers of \<open>c\<close>; the one they end in is filled with silence, those behind it are empty.\<close>

fun in_buffers :: "nat \<Rightarrow> u16 \<Rightarrow> nat \<Rightarrow> u16 list \<Rightarrow> u16 list list" where
  "in_buffers c silence 0 xs = []"
| "in_buffers c silence (Suc k) xs =
     (if xs = [] then [] else take c xs @ replicate (c - length xs) silence) # in_buffers c silence k (drop c xs)"

definition silence_of :: "('f, 't, 'e, 'w) synth_env \<Rightarrow> ('f, 't, 'e) synth \<Rightarrow> u16" where
  "silence_of K s = word_of_int (to_int (fl K) (mul (fl K) (sampleRange s)
     (divide (fl K) (from_int (fl K) 1) (from_int (fl K) 2)))) OR orMask s"

text \<open>
  \<open>told\<close> counts the events that a sound is done. With nothing to play, the code reads the duration of the first effect
  behind an empty buffer; \<open>quiet\<close> says that no negative number is found there.
\<close>

definition synth_world :: "('f, 't, 'e, 'w) synth_env \<Rightarrow> ('w \<Rightarrow> nat) \<Rightarrow> bool" where
  "synth_world K told \<longleftrightarrow> (\<forall>w. told (done_event K w) = told w + 1) \<and> (\<forall>w. told (lock_notify K w) = told w)
     \<and> (\<forall>w. told (pull_request K w) = told w)"

definition quiet :: "('f, 't, 'e, 'w) synth_env \<Rightarrow> bool" where
  "quiet K \<longleftrightarrow> (\<forall>w. \<not> less (fl K) (behind_empty K w) (from_int (fl K) 0))"

lemma pull_idle:
  assumes "synth_world K told" "quiet K" "idle K s" "st_silence_as_empty s"
  shows "\<exists>s' w'. pull K s w = Some ([], s', w') \<and> idle K s' \<and> kept s s' \<and> told w' = told w"
proof -
  have n: "nextSoundEffect K s w = Some (False, no_more_effects K s)"
    using assms by (simp add: nextSoundEffect_def idle_def quiet_def)
  then have "schedule K s w = Some (True, no_more_effects K s, w)"
    using assms(3) by (simp add: schedule_def idle_def no_more_effects_def)
  moreover have "generate K out (no_more_effects K s) = Some (False, out, no_more_effects K s)" for out
    by (rule generate_end) (simp add: no_more_effects_def)
  ultimately have "pull_loop K None s w = Some (False, None, no_more_effects K s, w)"
    using assms(4) by (subst pull_loop.simps) (simp add: Let_def no_more_effects_def)
  then show ?thesis using assms by (simp add: pull_def idle_def kept_def no_more_effects_def synth_world_def)
qed

lemma pulls_idle:
  assumes "synth_world K told" "quiet K"
  shows "idle K s \<Longrightarrow> st_silence_as_empty s \<Longrightarrow>
    \<exists>s' w'. pulls K k s w = Some (in_buffers c z k [], s', w') \<and> told w' = told w"
proof (induction k arbitrary: s w)
  case (Suc k)
  obtain s1 w1 where p: "pull K s w = Some ([], s1, w1)" "idle K s1" "kept s s1" "told w1 = told w"
    using pull_idle [OF assms Suc.prems] by blast
  obtain s2 w2 where "pulls K k s1 w1 = Some (in_buffers c z k [], s2, w2)" "told w2 = told w1"
    using Suc.IH [OF p(2), of w1] p(3) Suc.prems(2) by (auto simp: kept_def)
  then show ?case using p by simp
qed simp

lemma pull_song:
  assumes w: "synth_world K told" and p: "playing K okf okp s" and l: "samplesWritten s < samplesToWrite s"
    and xs: "song K s = Some xs" and c: "bufferSize s = 2 * int c"
  shows "if c < length xs
    then \<exists>s' w'. pull K s w = Some (take c xs, s', w') \<and> song K s' = Some (drop c xs) \<and> playing K okf okp s'
      \<and> samplesWritten s' < samplesToWrite s' \<and> kept s s' \<and> told w' = told w
    else \<exists>s' w'. pull K s w = Some (xs @ replicate (c - length xs) (silence_of K s), s', w') \<and> idle K s' \<and> kept s s'
      \<and> told w' = told w + 1"
proof -
  have r: "room s [] = c" using c by (simp add: room_def)
  note res = resume_song [OF p xs, of "[]" w, unfolded r]
  note start = pull_loop_in_effect(2) [OF p l, of w]
  show ?thesis
  proof (cases "c < length xs")
    case True
    then obtain s' where "resume K [] s w = Some (True, Some (take c xs), s', w)" "song K s' = Some (drop c xs)"
        "playing K okf okp s'" "samplesWritten s' < samplesToWrite s'" "kept s s'"
      using res c by auto
    then show ?thesis using True start w by (simp add: pull_def synth_world_def)
  next
    case False
    then obtain s' where s': "resume K [] s w = Some (False, Some xs, s', lock_notify K (done_event K w))"
        "idle K s'" "kept s s'"
      using res c by auto
    have "nat ((2 * int c - 2 * int (length xs) + 1) div 2) = c - length xs" using False by simp
    then have "pad_silence K s' xs = xs @ replicate (c - length xs) (silence_of K s)"
      using s'(3) c by (simp add: pad_silence_def silence_of_def kept_def Let_def)
    then show ?thesis using False start w s' by (simp add: pull_def synth_world_def)
  qed
qed

lemma pulls_song:
  assumes w: "synth_world K told" and c: "0 < c"
  shows "\<lbrakk>playing K okf okp s; samplesWritten s < samplesToWrite s; song K s = Some xs; bufferSize s = 2 * int c;
      st_silence_as_empty s; k * c < length xs + c \<or> quiet K\<rbrakk> \<Longrightarrow>
    \<exists>s' w'. pulls K k s w = Some (in_buffers c (silence_of K s) k xs, s', w')
      \<and> told w' = told w + (if length xs \<le> k * c \<and> 0 < k then 1 else 0)"
proof (induction k arbitrary: s w xs)
  case (Suc k)
  note one = pull_song [OF assms(1) Suc.prems(1-4), of w]
  have nonempty: "xs \<noteq> []"
  proof -
    have "0 < remaining K s"
    proof -
      have "0 \<le> determineSampleCount K d s" if "d \<in> set (drop (the (effect s) + 1) (map fx_duration (effectBuffer s)))" for d
        using in_set_dropD [OF that] Suc.prems(1) unfolding playing_def fx_ok_def by fastforce
      then have "0 \<le> sum_list (map (\<lambda>d. determineSampleCount K d s) (drop (the (effect s) + 1) (map fx_duration (effectBuffer s))))"
        by (intro sum_list_nonneg) auto
      then show ?thesis using Suc.prems(2) by (simp add: remaining_def)
    qed
    then show ?thesis using song_returns [OF Suc.prems(1)] Suc.prems(3) by auto
  qed
  show ?case
  proof (cases "c < length xs")
    case True
    then obtain s1 w1 where s1: "pull K s w = Some (take c xs, s1, w1)" "song K s1 = Some (drop c xs)" "playing K okf okp s1"
        "samplesWritten s1 < samplesToWrite s1" "kept s s1" "told w1 = told w"
      using one by auto
    have sil: "silence_of K s1 = silence_of K s" using s1(5) by (simp add: silence_of_def kept_def)
    obtain s2 w2 where "pulls K k s1 w1 = Some (in_buffers c (silence_of K s) k (drop c xs), s2, w2)"
        "told w2 = told w1 + (if length (drop c xs) \<le> k * c \<and> 0 < k then 1 else 0)"
      using Suc.IH [OF s1(3,4,2), of w1] s1(5) Suc.prems(4-6) sil True by (auto simp: kept_def)
    moreover have "(length xs \<le> Suc k * c \<and> 0 < Suc k) = (length (drop c xs) \<le> k * c \<and> 0 < k)"
      using True by (cases k) auto
    ultimately show ?thesis using s1 True nonempty by simp
  next
    case False
    then obtain s1 w1 where s1: "pull K s w = Some (xs @ replicate (c - length xs) (silence_of K s), s1, w1)"
        "idle K s1" "kept s s1" "told w1 = told w + 1"
      using one by auto
    have "\<exists>s2 w2. pulls K k s1 w1 = Some (in_buffers c (silence_of K s) k [], s2, w2) \<and> told w2 = told w1"
    proof (cases k)
      case (Suc j)
      then have "quiet K" using Suc.prems(6) False c by auto
      from pulls_idle [OF w this s1(2)] show ?thesis using s1(3) Suc.prems(5) by (auto simp: kept_def)
    qed simp
    then obtain s2 w2 where "pulls K k s1 w1 = Some (in_buffers c (silence_of K s) k [], s2, w2)" "told w2 = told w1"
      by blast
    then show ?thesis using s1 False nonempty by simp
  qed
qed simp

text \<open>The state a sound starts in.\<close>

abbreviation started :: "('f, 't, 'e, 'w) synth_env \<Rightarrow> ('f, 't, 'e) sound_fx list \<Rightarrow> ('f, 't, 'e) synth \<Rightarrow> ('f, 't, 'e) synth" where
  "started K sound s \<equiv> start_effect K 0 (s\<lparr>effectBuffer := sound\<rparr>)"

text \<open>
  C35 A sound becomes one song, with the samples of all its effects, whatever the size of the buffers: playing
  it and then pulling returns, the buffers are the song in pieces, the last one filled with silence, and the end is
  told once, with the buffer the song ends in. This holds for as many pulls as the song fills buffers; for the pulls
  behind its end, which give empty buffers, it holds when the memory behind an empty \<open>ManagedBuffer\<close>, which the code
  reads as the duration of an effect, holds no negative number there (see the findings). A buffer of \<open>c\<close> samples has a
  \<open>bufferSize\<close> of \<open>2 * c\<close>: the code counts bytes, as \<open>setBufferSize\<close> says, where the comment of the field in
  SoundEmojiSynthesizer.h says samples (a finding).
\<close>

theorem synth_plays_song:
  assumes w: "synth_world K told" and s: "idle K s" "st_silence_as_empty s"
    and free: "\<And>s. lock_wait K s (request_activation K w) = (s, w1)"
    and sound: "sound \<noteq> []" "\<forall>e \<in> set sound. fx_ok K okf s e"
    and tones: "tones_ok K okf okp (sampleRate s)" "okp (from_int (fl K) 0)"
  shows "\<exists>xs. song K (started K sound s) = Some xs
    \<and> int (length xs) = sum_list (map (\<lambda>e. determineSampleCount K (fx_duration e) s) sound)
    \<and> (\<forall>c > 0. \<forall>k. k * c < length xs + c \<or> quiet K \<longrightarrow> (\<exists>s2 w2 s3 w3. play K sound (s\<lparr>bufferSize := 2 * int c\<rparr>) w = Some (OK, s2, w2)
        \<and> pulls K k s2 w2 = Some (in_buffers c (silence_of K s) k xs, s3, w3)
        \<and> told w3 = told w2 + (if length xs \<le> k * c \<and> 0 < k then 1 else 0)))"
proof -
  define s0 where "s0 = started K sound s"
  note st = start_effect_playing [of 0 "s\<lparr>effectBuffer := sound\<rparr>" K okf okp s0]
  have rate: "fx_ok K okf (s\<lparr>effectBuffer := sound\<rparr>) e = fx_ok K okf s e"
      "determineSampleCount K d (s\<lparr>effectBuffer := sound\<rparr>) = determineSampleCount K d s" for e d
    by (rule fx_ok_rate, simp) (rule count_rate, simp)
  note st = st [unfolded rate, simplified, OF sound(1,2) tones(1) _ _ s0_def [symmetric]]
  have pos: "okp (position s)" "\<not> st_stopping s" using s(1) tones(2) by (simp_all add: idle_def)
  note st = st [OF pos]
  obtain xs where xs: "song K s0 = Some xs" "int (length xs) = remaining K s0" using song_returns [OF st(1)] by blast
  have "determineSampleCount K d s0 = determineSampleCount K d s" for d by (rule count_rate) (simp add: st)
  then have len: "remaining K s0 = sum_list (map (\<lambda>e. determineSampleCount K (fx_duration e) s) sound)"
    using st sound(1) by (cases sound) (simp_all add: remaining_def comp_def)
  have "\<exists>s2 w2 s3 w3. play K sound (s\<lparr>bufferSize := 2 * int c\<rparr>) w = Some (OK, s2, w2)
        \<and> pulls K k s2 w2 = Some (in_buffers c (silence_of K s) k xs, s3, w3)
        \<and> told w3 = told w2 + (if length xs \<le> k * c \<and> 0 < k then 1 else 0)"
    if c: "0 < c" and behind: "k * c < length xs + c \<or> quiet K" for c k
  proof -
    let ?b = "\<lambda>s. s\<lparr>bufferSize := 2 * int c\<rparr>"
    have start: "start_effect K 0 ((?b s)\<lparr>effectBuffer := sound\<rparr>) = ?b s0"
      by (simp add: s0_def start_effect_def determineSampleCount_def Let_def)
    have "nextSoundEffect K ((?b s)\<lparr>effectBuffer := sound\<rparr>) w1 = Some (False, ?b s0)"
      using s(1) sound(1) start by (simp add: nextSoundEffect_def idle_def)
    moreover have "st_active s0 \<Longrightarrow> (?b s0)\<lparr>st_active := True\<rparr> = ?b s0" by (cases s0) simp
    ultimately have "play K sound (?b s) w
        = Some (OK, (?b s0)\<lparr>st_active := True\<rparr>, if st_active s0 then w1 else pull_request K w1)"
      using sound(1) free [of "?b s"] by (simp add: play_def Let_def)
    then obtain a w2 where a: "play K sound (?b s) w = Some (OK, (?b s0)\<lparr>st_active := a\<rparr>, w2)" by blast
    define s2 where "s2 = (?b s0)\<lparr>st_active := a\<rparr>"
    have p2: "playing K okf okp s2"
    proof -
      have "determineSampleCount K d s2 = determineSampleCount K d s0" for d by (rule count_rate) (simp add: s2_def)
      moreover have "fx_ok K okf s2 e = fx_ok K okf s0 e" for e by (rule fx_ok_rate) (simp add: s2_def)
      moreover have "current s2 = current s0" "step_end K s2 i = step_end K s0 i" for i
        by (simp_all add: s2_def current_def step_end_def Let_def)
      ultimately show ?thesis using st(1) unfolding playing_def by (simp add: s2_def)
    qed
    have song2: "song K s2 = Some xs"
      using song_with_buffer [OF st(1), of a "2 * int c"] xs(1) by (simp add: s2_def)
    show ?thesis
      using pulls_song [OF w c p2 _ song2, of k w2] st s(2) a behind by (auto simp: s2_def silence_of_def)
  qed
  then show ?thesis using xs len unfolding s0_def by auto
qed

text \<open>Integers as numbers, a tone that is its position, effect functions that raise the frequency.\<close>

definition demo_synth :: "(int, nat, int, nat) synth_env" where
  "demo_synth = \<lparr>fl = int_floats, tone_print = \<lambda>t p. of_nat t + word_of_int p, run_effect = \<lambda>e _ _ (f, v). (f + e, v),
     behind_empty = \<lambda>_. 0, wait_count = \<lambda>_. 0, lock_wait = Pair, lock_notify = \<lambda>w. w, done_event = Suc,
     pull_request = \<lambda>w. w, request_activation = \<lambda>w. w\<rparr>"

definition demo_fx :: "nat \<Rightarrow> (int, nat, int) sound_fx" where
  "demo_fx t = \<lparr>fx_frequency = 440, fx_volume = 1, fx_duration = 2000, fx_tone = t, fx_effects =
     [\<lparr>fx_effect = Some 10, fx_step = 0, fx_steps = 4\<rparr>, \<lparr>fx_effect = None, fx_step = 0, fx_steps = 0\<rparr>,
      \<lparr>fx_effect = Some 1, fx_step = 0, fx_steps = 2\<rparr>]\<rparr>"

lemma keep_in_range_int: "\<exists>q. keep_in_range int_floats p = Some q"
proof (induction "nat p" arbitrary: p rule: less_induct)
  case less
  show ?case
  proof (cases "1024 < p")
    case True
    then have "\<exists>q. keep_in_range int_floats (p - 1024) = Some q" by (intro less) simp
    then show ?thesis using True
      by (subst keep_in_range.simps) (simp add: int_floats_def EMOJI_SYNTHESIZER_TONE_WIDTH_def)
  next
    case False
    then show ?thesis
      by (subst keep_in_range.simps) (simp add: int_floats_def EMOJI_SYNTHESIZER_TONE_WIDTH_def)
  qed
qed

lemma demo_steps: "1 \<le> m \<Longrightarrow> m \<le> 4 \<Longrightarrow> steps_in_order demo_synth 8 m"
  unfolding steps_in_order_def
proof (intro allI impI)
  fix k :: int assume "1 \<le> m" "m \<le> 4" "0 \<le> k" "k + 1 < m"
  then have "m = 2 \<and> k = 0 \<or> m = 3 \<and> (k = 0 \<or> k = 1) \<or> m = 4 \<and> (k = 0 \<or> k = 1 \<or> k = 2)" by arith
  then show "0 \<le> step_time demo_synth 8 m k \<and> step_time demo_synth 8 m k \<le> 8
      \<and> (k + 2 < m \<longrightarrow> step_time demo_synth 8 m k \<le> step_time demo_synth 8 m (k + 1))"
    by (auto simp: step_time_def demo_synth_def int_floats_def)
qed

theorem synth_plays_song_witness:
  "let s = allowEmptyBuffers True (synth_new demo_synth 4 0 []) in
   \<exists>xs. length xs = 16 \<and> (\<forall>c > 0. \<forall>k. \<exists>s2 w2 s3 w3.
      play demo_synth [demo_fx 1, demo_fx 2] (s\<lparr>bufferSize := 2 * int c\<rparr>) 0 = Some (OK, s2, w2)
      \<and> pulls demo_synth k s2 w2 = Some (in_buffers c 0 k xs, s3, w3)
      \<and> w3 = w2 + (if 16 \<le> k * c \<and> 0 < k then 1 else 0))"
proof -
  define s where "s = allowEmptyBuffers True (synth_new demo_synth 4 0 [])"
  have cnt: "determineSampleCount demo_synth 2000 s = 8"
    by (simp add: s_def determineSampleCount_def demo_synth_def int_floats_def allowEmptyBuffers_def synth_new_def)
  have fx: "\<forall>e \<in> set [demo_fx 1, demo_fx 2]. fx_ok demo_synth (\<lambda>_. True) s e"
    using demo_steps [of 1] demo_steps [of 2] demo_steps [of 4] cnt
    by (auto simp: fx_ok_def demo_fx_def) (simp_all add: demo_synth_def int_floats_def)
  have idle: "idle demo_synth s" "st_silence_as_empty s"
    by (simp_all add: s_def idle_def allowEmptyBuffers_def synth_new_def)
  have tones: "tones_ok demo_synth (\<lambda>_. True) (\<lambda>_. True) (sampleRate s)"
    using keep_in_range_int by (simp add: tones_ok_def demo_synth_def)
  have world: "synth_world demo_synth (\<lambda>w. w)" "quiet demo_synth"
    by (simp_all add: synth_world_def quiet_def demo_synth_def int_floats_def)
  have sil: "silence_of demo_synth s = 0"
    by (simp add: silence_of_def s_def demo_synth_def int_floats_def allowEmptyBuffers_def synth_new_def)
  have free: "lock_wait demo_synth t (request_activation demo_synth 0) = (t, 0)" for t
    by (simp add: demo_synth_def)
  obtain xs where "int (length xs) = sum_list (map (\<lambda>e. determineSampleCount demo_synth (fx_duration e) s) [demo_fx 1, demo_fx 2])"
    "\<forall>c > 0. \<forall>k. \<exists>s2 w2 s3 w3. play demo_synth [demo_fx 1, demo_fx 2] (s\<lparr>bufferSize := 2 * int c\<rparr>) 0 = Some (OK, s2, w2)
        \<and> pulls demo_synth k s2 w2 = Some (in_buffers c (silence_of demo_synth s) k xs, s3, w3)
        \<and> w3 = w2 + (if length xs \<le> k * c \<and> 0 < k then 1 else 0)"
    using synth_plays_song [OF world(1) idle free _ fx tones TrueI] world(2) by (elim meta_impE exE conjE) simp_all
  moreover from this(1) have "length xs = 16" by (simp add: demo_fx_def cnt)
  ultimately show ?thesis unfolding s_def [symmetric] Let_def by (intro exI [of _ xs]) (simp add: sil)
qed

text \<open>Stopping: the next pull gives an empty buffer and tells the end.\<close>

lemma stop_silences:
  assumes "synth_world K told" "playing K okf okp s" "st_silence_as_empty s" "quiet K"
  shows "\<exists>s' w'. pull K (stop s) w = Some ([], s', w') \<and> idle K s' \<and> told w' = told w + 1"
proof -
  have st: "stop s = s\<lparr>st_stopping := True\<rparr>" "effect s \<noteq> None" using assms(2) by (auto simp: stop_def playing_def)
  let ?s = "(no_more_effects K (s\<lparr>st_stopping := True, effect := None, effectBuffer := []\<rparr>))"
  have "nextSoundEffect K (stop s) w = Some (True, ?s)"
    using st assms(4) by (simp add: nextSoundEffect_def quiet_def)
  then have "schedule K (stop s) w = Some (True, ?s\<lparr>st_stopping := False\<rparr>, lock_notify K (done_event K w))"
    using st by (simp add: schedule_def no_more_effects_def)
  moreover have "generate K out (?s\<lparr>st_stopping := False\<rparr>) = Some (False, out, ?s\<lparr>st_stopping := False\<rparr>)" for out
    by (rule generate_end) (simp add: no_more_effects_def)
  ultimately have "pull_loop K None (stop s) w = Some (False, None, ?s\<lparr>st_stopping := False\<rparr>, lock_notify K (done_event K w))"
    using assms(3) by (subst pull_loop.simps) (simp add: Let_def no_more_effects_def)
  then show ?thesis using assms(1) by (simp add: pull_def idle_def no_more_effects_def synth_world_def)
qed

end
