(* ===== verification/Mixer.thy ===== *)
theory Mixer
  imports MB_Prelude Floats "HOL-Library.Monad_Syntax"
begin

text \<open>
  \<open>Mixer2\<close> (\<open>source/Mixer2.cpp\<close>): the samples of the channels are scaled, added and packed into buffers of
  the output format. The sources of the channels, the conversion of samples and the component downstream
  belong to codal-core and are the record \<open>mix_env\<close>.
\<close>

subsection \<open>State\<close>

datatype format = FORMAT_UNKNOWN | U8BIT | S8BIT | U16BIT | S16BIT | OtherFormat nat

definition CONFIG_MIXER_BUFFER_SIZE :: nat where "CONFIG_MIXER_BUFFER_SIZE = 512"
definition CONFIG_MIXER_INTERNAL_RANGE :: int where "CONFIG_MIXER_INTERNAL_RANGE = 1023"

text \<open>\<open>in_buf\<close> is the buffer that \<open>in\<close> points to the start of.\<close>

record 'f channel =
  ch_stream :: nat
  in_buf :: "u8 list"
  pullRequests :: nat
  ch_range :: 'f
  ch_rate :: 'f
  ch_offset :: 'f
  ch_gain :: 'f
  ch_skip :: 'f
  ch_position :: 'f
  ch_volume :: 'f
  ch_format :: format
  bytesPerSample :: nat

record 'f mixer =
  channels :: "'f channel list"
  outputRange :: 'f
  outputRate :: 'f
  outputFormat :: format
  bytesPerSampleOut :: nat
  mix_volume :: 'f
  mix_orMask :: u32
  silenceLevel :: 'f
  silent :: bool

text \<open>
  \<open>stream_pull\<close> gives the next buffer of a source and the number of pull requests it makes meanwhile.
  \<open>read_sample\<close> reads the sample at the start of some bytes, \<open>write_sample\<close> gives the bytes of one.
\<close>

record ('f, 'w) mix_env =
  mfl :: "'f float_ops"
  sample_bytes :: "format \<Rightarrow> nat"
  stream_format :: "nat \<Rightarrow> 'w \<Rightarrow> format"
  stream_pull :: "nat \<Rightarrow> 'w \<Rightarrow> u8 list \<times> nat \<times> 'w"
  stream_connect :: "nat \<Rightarrow> 'w \<Rightarrow> 'w"
  stream_disconnect :: "nat \<Rightarrow> 'w \<Rightarrow> 'w"
  read_sample :: "format \<Rightarrow> u8 list \<Rightarrow> 'f"
  write_sample :: "format \<Rightarrow> u32 \<Rightarrow> u8 list"
  silence_event :: "bool \<Rightarrow> 'w \<Rightarrow> 'w"
  pull_downstream :: "'w \<Rightarrow> 'w"

abbreviation unsigned_format :: "format \<Rightarrow> bool" where
  "unsigned_format f \<equiv> f = U16BIT \<or> f = U8BIT"

definition setFormat :: "('f, 'w) mix_env \<Rightarrow> format \<Rightarrow> 'f mixer \<Rightarrow> code \<times> 'f mixer" where
  "setFormat E f m =
     (if f = U16BIT \<or> f = S16BIT \<or> f = U8BIT \<or> f = S8BIT
      then (OK, m\<lparr>outputFormat := f, bytesPerSampleOut := sample_bytes E f\<rparr>) else (INVALID_PARAMETER, m))"

definition setSampleRate :: "('f, 'w) mix_env \<Rightarrow> 'f \<Rightarrow> 'f mixer \<Rightarrow> 'f mixer" where
  "setSampleRate E r m =
     m\<lparr>outputRate := r, channels := map (\<lambda>c. c\<lparr>ch_skip := divide (mfl E) (ch_rate c) r\<rparr>) (channels m)\<rparr>"

definition setSampleRange :: "('f, 'w) mix_env \<Rightarrow> u16 \<Rightarrow> 'f mixer \<Rightarrow> 'f mixer" where
  "setSampleRange E r m = m\<lparr>outputRange := from_int (mfl E) (uint r)\<rparr>"

definition mixer_new :: "('f, 'w) mix_env \<Rightarrow> 'f \<Rightarrow> u16 \<Rightarrow> format \<Rightarrow> 'f mixer" where
  "mixer_new E rate r f =
     (let zero = from_int (mfl E) 0;
          m = \<lparr>channels = [], outputRange = zero, outputRate = zero, outputFormat = U16BIT, bytesPerSampleOut = 2,
               mix_volume = from_int (mfl E) 1, mix_orMask = 0, silenceLevel = zero, silent = True\<rparr>
      in setSampleRange E r (setSampleRate E rate (snd (setFormat E f m))))"

definition configureChannel :: "('f, 'w) mix_env \<Rightarrow> 'f mixer \<Rightarrow> 'w \<Rightarrow> 'f channel \<Rightarrow> 'f channel" where
  "configureChannel E m w c =
     (let F = mfl E; f = stream_format E (ch_stream c) w
      in c\<lparr>ch_volume := from_int F 1, ch_format := f, bytesPerSample := sample_bytes E f,
           ch_gain := divide F (from_int F CONFIG_MIXER_INTERNAL_RANGE) (ch_range c),
           ch_skip := divide F (ch_rate c) (outputRate m),
           ch_offset := (if unsigned_format f
              then mul F (ch_range c) (sub F (from_int F 0) (divide F (from_int F 1) (from_int F 2)))
              else from_int F 0)\<rparr>)"

text \<open>A rate of \<open>None\<close> is the 0 that stands for the rate of the mixer; \<open>junk\<close> is what the memory held.\<close>

definition addChannel :: "('f, 'w) mix_env \<Rightarrow> nat \<Rightarrow> 'f option \<Rightarrow> int \<Rightarrow> 'f channel \<Rightarrow> 'f mixer \<Rightarrow> 'w \<Rightarrow> 'f mixer \<times> 'w" where
  "addChannel E stream rate r junk m w =
     (let c = junk\<lparr>ch_stream := stream, ch_range := from_int (mfl E) r,
                ch_rate := (case rate of Some x \<Rightarrow> x | None \<Rightarrow> outputRate m),
                pullRequests := 0, in_buf := [], ch_position := from_int (mfl E) 0\<rparr>
      in (m\<lparr>channels := configureChannel E m w c # channels m\<rparr>, stream_connect E stream w))"

definition pullRequest :: "'f channel \<Rightarrow> 'f channel" where
  "pullRequest c = c\<lparr>pullRequests := pullRequests c + 1\<rparr>"

definition setVolume :: "('f, 'w) mix_env \<Rightarrow> int \<Rightarrow> 'f mixer \<Rightarrow> code \<times> 'f mixer" where
  "setVolume E v m =
     (if v < 0 \<or> v > 1023 then (INVALID_PARAMETER, m)
      else (OK, m\<lparr>mix_volume := divide (mfl E) (from_int (mfl E) v) (from_int (mfl E) 1023)\<rparr>))"

definition getVolume :: "('f, 'w) mix_env \<Rightarrow> 'f mixer \<Rightarrow> int" where
  "getVolume E m = to_int (mfl E) (mul (mfl E) (mix_volume m) (from_int (mfl E) 1023))"

definition getSampleRange :: "('f, 'w) mix_env \<Rightarrow> 'f mixer \<Rightarrow> int" where
  "getSampleRange E m = to_int (mfl E) (outputRange m)"

definition getSampleRate :: "('f, 'w) mix_env \<Rightarrow> 'f mixer \<Rightarrow> int" where
  "getSampleRate E m = to_int (mfl E) (outputRate m)"

definition getFormat :: "'f mixer \<Rightarrow> format" where
  "getFormat m = outputFormat m"

definition isSilent :: "'f mixer \<Rightarrow> bool" where
  "isSilent m = silent m"

definition setOrMask :: "u32 \<Rightarrow> 'f mixer \<Rightarrow> 'f mixer" where
  "setOrMask v m = m\<lparr>mix_orMask := v\<rparr>"

definition setSilenceLevel :: "('f, 'w) mix_env \<Rightarrow> 'f \<Rightarrow> 'f mixer \<Rightarrow> code \<times> 'f mixer" where
  "setSilenceLevel E level m =
     (let F = mfl E
      in if less F level (from_int F 0) \<or> less F (from_int F 1024) level then (INVALID_PARAMETER, m)
         else (OK, m\<lparr>silenceLevel := sub F level (from_int F 512)\<rparr>))"

subsection \<open>Mixing\<close>

text \<open>The samples of a buffer; \<open>d\<close> is where the next sample is read.\<close>

fun mix_samples :: "('f, 'w) mix_env \<Rightarrow> 'f channel \<Rightarrow> nat \<Rightarrow> nat \<Rightarrow> nat \<Rightarrow> 'f list \<Rightarrow> 'f \<Rightarrow> nat \<times> 'f list \<times> 'f" where
  "mix_samples E ch 0 out d acc pos = (out, acc, pos)"
| "mix_samples E ch (Suc len) out d acc pos =
     (let F = mfl E;
          v = mul F (mul F (add F (read_sample E (ch_format ch) (drop d (in_buf ch))) (ch_offset ch)) (ch_gain ch)) (ch_volume ch);
          pos' = add F pos (ch_skip ch)
      in mix_samples E ch len (out + 1) (nat (to_int F (mul F pos' (from_int F (int (bytesPerSample ch))))))
           (acc[out := add F (acc ! out) v]) pos')"

definition samples_left :: "('f, 'w) mix_env \<Rightarrow> 'f channel \<Rightarrow> int" where
  "samples_left E ch =
     (let F = mfl E
      in to_int F (divide F (sub F (from_int F (int (length (in_buf ch) div bytesPerSample ch))) (ch_position ch)) (ch_skip ch)))"

text \<open>
  The loop of one channel. It starts reading at the start of the buffer, wherever the position is. A
  negative number of samples would make the inner loop run away: then the result is \<open>None\<close>.
\<close>

partial_function (option) mix_channel :: "('f, 'w) mix_env \<Rightarrow> nat \<Rightarrow> nat \<Rightarrow> 'f channel \<Rightarrow> 'f list \<Rightarrow> bool \<Rightarrow> 'w
    \<Rightarrow> ('f channel \<times> 'f list \<times> bool \<times> 'w) option" where
  "mix_channel E n out ch acc silence w =
     (if out < n then
        let outLen = int (n - out); inLen = samples_left E ch; len = min outLen inLen;
            silence' = (silence \<and> len = 0)
        in if len < 0 then None
           else case mix_samples E ch (nat len) out 0 acc (ch_position ch) of (out', acc', pos') \<Rightarrow>
             let ch1 = ch\<lparr>ch_position := pos'\<rparr>
             in if inLen \<le> outLen then
                  if pullRequests ch1 = 0 then Some (ch1, acc', silence', w)
                  else case stream_pull E (ch_stream ch1) w of (b, requests, w1) \<Rightarrow>
                    let ch2 = ch1\<lparr>pullRequests := pullRequests ch1 - 1 + requests, in_buf := b, ch_position := from_int (mfl E) 0\<rparr>
                    in if b = [] then Some (ch2, acc', silence', w1)
                       else mix_channel E n out' ch2 acc' silence' w1
                else mix_channel E n out' ch1 acc' silence' w
      else Some (ch, acc, silence, w))"

fun mix_channels :: "('f, 'w) mix_env \<Rightarrow> nat \<Rightarrow> 'f mixer \<Rightarrow> 'f channel list \<Rightarrow> 'f list \<Rightarrow> bool \<Rightarrow> 'w
    \<Rightarrow> ('f channel list \<times> 'f list \<times> bool \<times> 'w) option" where
  "mix_channels E n m [] acc silence w = Some ([], acc, silence, w)"
| "mix_channels E n m (ch # chs) acc silence w =
     (let ch1 = (if ch_format ch = FORMAT_UNKNOWN then configureChannel E m w ch else ch)
      in do {
        (ch2, acc1, silence1, w1) \<leftarrow>
          (if ch_format ch1 = FORMAT_UNKNOWN then Some (ch1, acc, silence, w)
           else mix_channel E n 0 ch1 acc silence w);
        (chs', acc2, silence2, w2) \<leftarrow> mix_channels E n m chs acc1 silence1 w1;
        Some (ch2 # chs', acc2, silence2, w2)
      })"

definition range_lo :: "('f, 'w) mix_env \<Rightarrow> 'f mixer \<Rightarrow> 'f" where
  "range_lo E m = (let F = mfl E in
     if unsigned_format (outputFormat m) then from_int F 0
     else divide F (sub F (from_int F 0) (outputRange m)) (from_int F 2))"

definition range_hi :: "('f, 'w) mix_env \<Rightarrow> 'f mixer \<Rightarrow> 'f" where
  "range_hi E m = (let F = mfl E in
     if unsigned_format (outputFormat m) then outputRange m else divide F (outputRange m) (from_int F 2))"

definition clamp :: "'f float_ops \<Rightarrow> 'f \<Rightarrow> 'f \<Rightarrow> 'f \<Rightarrow> 'f" where
  "clamp F lo hi x = (let y = (if less F x lo then lo else x) in if less F hi y then hi else y)"

definition output_sample :: "('f, 'w) mix_env \<Rightarrow> 'f mixer \<Rightarrow> 'f \<Rightarrow> u32" where
  "output_sample E m r =
     (let F = mfl E;
          scale = divide F (mul F (mix_volume m) (outputRange m)) (from_int F CONFIG_MIXER_INTERNAL_RANGE);
          offset = (if unsigned_format (outputFormat m) then to_int F (divide F (outputRange m) (from_int F 2)) else 0);
          x = add F (mul F r scale) (from_int F offset)
      in word_of_int (to_int F (clamp F (range_lo E m) (range_hi E m) x)) OR mix_orMask m)"

text \<open>\<open>0\<close> is compared as a float: a number that is neither less nor greater.\<close>

definition mixer_pull :: "('f, 'w) mix_env \<Rightarrow> 'f mixer \<Rightarrow> 'w \<Rightarrow> (u8 list \<times> 'f mixer \<times> 'w) option" where
  "mixer_pull E m w =
     (if channels m = [] then Some (replicate CONFIG_MIXER_BUFFER_SIZE 0, m, pull_downstream E w)
      else do {
        let F = mfl E;
        let n = CONFIG_MIXER_BUFFER_SIZE div bytesPerSampleOut m;
        (chs, acc, silence, w1) \<leftarrow> mix_channels E n m (channels m) (replicate n (from_int F 0)) True w;
        let level = silenceLevel m;
        let acc1 = (if silence \<and> (less F level (from_int F 0) \<or> less F (from_int F 0) level)
                    then replicate n level else acc);
        let w2 = (if silent m \<noteq> silence then silence_event E silence w1 else w1);
        let m1 = m\<lparr>channels := chs, silent := silence\<rparr>;
        Some (concat (map (\<lambda>r. write_sample E (outputFormat m) (output_sample E m r)) acc1), m1, pull_downstream E w2)
      })"

definition mixer_destroy :: "('f, 'w) mix_env \<Rightarrow> 'f mixer \<Rightarrow> 'w \<Rightarrow> 'w" where
  "mixer_destroy E m w = fold (\<lambda>c. stream_disconnect E (ch_stream c)) (channels m) w"

definition mixer_connect :: "('f, 'w) mix_env \<Rightarrow> 'w \<Rightarrow> 'w" where
  "mixer_connect E w = pull_downstream E w"

end
