(* ===== verification/MixerProps.thy ===== *)
theory MixerProps
  imports Mixer
begin

text \<open>
  What the mixer puts out: every sample lies in the range of the output, and while the sources deliver
  buffers of the size of its own, it is the sum of the samples of the channels.
\<close>

subsection \<open>The range of the output\<close>

text \<open>Cutting a number to the range from \<open>lo\<close> to \<open>hi\<close> works.\<close>

definition clamps :: "'f float_ops \<Rightarrow> 'f \<Rightarrow> 'f \<Rightarrow> bool" where
  "clamps F lo hi \<longleftrightarrow> \<not> less F lo lo \<and> \<not> less F hi hi \<and> \<not> less F hi lo
     \<and> (\<forall>x. \<not> less F x lo \<longrightarrow> \<not> less F hi x \<longrightarrow> to_int F lo \<le> to_int F x \<and> to_int F x \<le> to_int F hi)
     \<and> (\<forall>x. less F hi x \<longrightarrow> \<not> less F x lo)"

lemma clamp_range: "clamps F lo hi \<Longrightarrow> to_int F lo \<le> to_int F (clamp F lo hi x) \<and> to_int F (clamp F lo hi x) \<le> to_int F hi"
  unfolding clamps_def clamp_def Let_def by (cases "less F x lo"; cases "less F hi x"; simp)

lemma mix_samples_length: "mix_samples E ch len out d acc pos = (out', acc', pos') \<Longrightarrow> length acc' = length acc"
  by (induction len arbitrary: out d acc pos) (auto simp: Let_def)

lemma mix_channel_length:
  "mix_channel E n out ch acc silence w = Some r \<Longrightarrow> length (fst (snd r)) = length acc"
proof (rule mix_channel.raw_induct [of "\<lambda>E n out ch acc silence w r. length (fst (snd r)) = length acc"],
    goal_cases step whole)
  case (step f E n out ch acc silence w r)
  obtain out' acc' pos' where fields:
    "mix_samples E ch (nat (min (int (n - out)) (samples_left E ch))) out 0 acc (ch_position ch) = (out', acc', pos')"
    by (rule prod_cases3)
  have "length acc' = length acc" by (rule mix_samples_length [OF fields])
  then show ?case
    using step(3) fields by (auto simp: Let_def split: if_splits prod.splits dest!: step(2))
qed assumption

lemma mix_channels_length:
  "mix_channels E n m chs acc silence w = Some r \<Longrightarrow> length (fst (snd r)) = length acc"
proof (induction chs arbitrary: acc silence w r)
  case Nil
  then show ?case by auto
next
  case (Cons ch chs)
  let ?ch = "if ch_format ch = FORMAT_UNKNOWN then configureChannel E m w ch else ch"
  obtain ch2 acc1 silence1 w1 chs' acc2 silence2 w2 where
    one: "(if ch_format ?ch = FORMAT_UNKNOWN then Some (?ch, acc, silence, w) else mix_channel E n 0 ?ch acc silence w)
      = Some (ch2, acc1, silence1, w1)" and
    rest: "mix_channels E n m chs acc1 silence1 w1 = Some (chs', acc2, silence2, w2)" and
    r: "r = (ch2 # chs', acc2, silence2, w2)"
    using Cons.prems by (auto simp only: mix_channels.simps Let_def bind_eq_Some_conv prod.case split: prod.splits) auto
  have "length acc1 = length acc"
    using one mix_channel_length [of E n 0 ?ch acc silence w] by (cases "ch_format ?ch = FORMAT_UNKNOWN") auto
  then show ?case using Cons.IH [OF rest] r by simp
qed

lemma mixer_pull_samples:
  assumes "mixer_pull E m w = Some (buf, m', w')" and "channels m \<noteq> []"
  shows "\<exists>rs. length rs = CONFIG_MIXER_BUFFER_SIZE div bytesPerSampleOut m
    \<and> buf = concat (map (\<lambda>r. write_sample E (outputFormat m) (output_sample E m r)) rs)"
proof -
  let ?n = "CONFIG_MIXER_BUFFER_SIZE div bytesPerSampleOut m"
  let ?z = "from_int (mfl E) 0"
  obtain chs acc silence w1 where
    mixed: "mix_channels E ?n m (channels m) (replicate ?n ?z) True w = Some (chs, acc, silence, w1)"
    using assms by (cases "mix_channels E ?n m (channels m) (replicate ?n ?z) True w") (auto simp: mixer_pull_def Let_def)
  let ?level = "silenceLevel m"
  let ?acc = "if silence \<and> (less (mfl E) ?level ?z \<or> less (mfl E) ?z ?level) then replicate ?n ?level else acc"
  have "length ?acc = ?n" using mix_channels_length [OF mixed] by simp
  moreover have "buf = concat (map (\<lambda>r. write_sample E (outputFormat m) (output_sample E m r)) ?acc)"
    using assms mixed by (simp add: mixer_pull_def Let_def)
  ultimately show ?thesis by blast
qed

text \<open>
  The numbers of an output range of \<open>r\<close> steps: for an unsigned format 0 and \<open>r\<close>, for a signed one the
  halves of \<open>r\<close> below and above 0, cut to whole numbers towards 0. Floats hold them and compare with them.
\<close>

definition floats_hold :: "'f float_ops \<Rightarrow> bool \<Rightarrow> int \<Rightarrow> bool" where
  "floats_hold F is_unsigned r \<longleftrightarrow> (let zero = from_int F 0; top = from_int F r; two = from_int F 2 in
     if is_unsigned then clamps F zero top \<and> to_int F zero = 0 \<and> to_int F top = r
     else clamps F (divide F (sub F zero top) two) (divide F top two)
       \<and> to_int F (divide F (sub F zero top) two) = - (r div 2) \<and> to_int F (divide F top two) = r div 2)"

lemma output_sample_bounded:
  assumes "floats_hold (mfl E) (unsigned_format (outputFormat m)) r" "outputRange m = from_int (mfl E) r"
  shows "\<exists>z. output_sample E m x = word_of_int z OR mix_orMask m
    \<and> (if unsigned_format (outputFormat m) then 0 \<le> z \<and> z \<le> r else - (r div 2) \<le> z \<and> z \<le> r div 2)"
proof -
  let ?F = "mfl E" and ?lo = "range_lo E m" and ?hi = "range_hi E m"
  obtain y where y: "output_sample E m x = word_of_int (to_int ?F (clamp ?F ?lo ?hi y)) OR mix_orMask m"
    by (simp add: output_sample_def Let_def)
  have "clamps ?F ?lo ?hi" "if unsigned_format (outputFormat m) then to_int ?F ?lo = 0 \<and> to_int ?F ?hi = r
      else to_int ?F ?lo = - (r div 2) \<and> to_int ?F ?hi = r div 2"
    using assms by (auto simp: floats_hold_def range_lo_def range_hi_def Let_def split: if_splits)
  then show ?thesis using y clamp_range [of ?F ?lo ?hi y] by (intro exI [of _ "to_int ?F (clamp ?F ?lo ?hi y)"]) auto
qed

text \<open>The bits of the mask are set; the rest of a number that is not negative does not grow by taking bits away.\<close>

lemma masked_bounds:
  assumes "0 \<le> z" "z < 2 ^ 32"
  shows "uint ((word_of_int z OR k) AND NOT k :: u32) \<le> z"
proof -
  have "(word_of_int z OR k) AND NOT k = word_of_int z AND (NOT k :: u32)"
    by (simp add: bit.conj_disj_distrib2)
  moreover have "uint (word_of_int z AND NOT k :: u32) \<le> uint (word_of_int z :: u32)"
    by (simp add: uint_and AND_upper1)
  ultimately show ?thesis using assms by (simp add: unsigned_of_int take_bit_int_eq_self)
qed

lemma sint_small: "- (2 ^ 31) \<le> z \<Longrightarrow> z < 2 ^ 31 \<Longrightarrow> sint (word_of_int z :: u32) = z"
  by (simp add: signed_of_int signed_take_bit_int_eq_self)

text \<open>
  C36 Every sample the mixer puts out is in the range of the output format, whatever the channels deliver, and the
  buffer has the full size. For an output range of \<open>r\<close> steps: in an unsigned format a sample without the bits of
  \<open>orMask\<close> is at most \<open>r\<close>, and the bits of \<open>orMask\<close> are all set in it; when there is no \<open>orMask\<close>, a sample lies
  between 0 and \<open>r\<close> in an unsigned format and between the halves of \<open>r\<close> below and above 0 in a signed one. (With an
  \<open>orMask\<close> and a signed format nothing is said: the bits change the sign extension of a negative sample.)
\<close>

theorem mixer_output_in_range:
  assumes "outputRange m = from_int (mfl E) r" and "0 \<le> r" and "r < 2 ^ 16"
    and "floats_hold (mfl E) (unsigned_format (outputFormat m)) r"
    and "\<And>s. length (write_sample E (outputFormat m) s) = bytesPerSampleOut m"
    and "bytesPerSampleOut m dvd CONFIG_MIXER_BUFFER_SIZE"
    and "mixer_pull E m w = Some (buf, m', w')" and "channels m \<noteq> []"
  shows "length buf = CONFIG_MIXER_BUFFER_SIZE \<and>
    (\<exists>samples. buf = concat (map (write_sample E (outputFormat m)) samples) \<and>
      (\<forall>s \<in> set samples. s AND mix_orMask m = mix_orMask m
        \<and> (unsigned_format (outputFormat m) \<longrightarrow> uint (s AND NOT (mix_orMask m)) \<le> r)
        \<and> (mix_orMask m = 0 \<longrightarrow> (if unsigned_format (outputFormat m) then 0 \<le> sint s \<and> sint s \<le> r
                                    else - (r div 2) \<le> sint s \<and> sint s \<le> r div 2))))"
proof -
  let ?n = "CONFIG_MIXER_BUFFER_SIZE div bytesPerSampleOut m" and ?k = "mix_orMask m"
  obtain rs where rs: "length rs = ?n"
    "buf = concat (map (\<lambda>r. write_sample E (outputFormat m) (output_sample E m r)) rs)"
    using mixer_pull_samples [OF assms(7,8)] by blast
  have "length buf = sum_list (map (\<lambda>r. bytesPerSampleOut m) rs)"
    using rs(2) assms(5) by (simp add: length_concat comp_def)
  then have len: "length buf = CONFIG_MIXER_BUFFER_SIZE" using rs(1) assms(6) by (simp add: sum_list_triv)
  have "s AND ?k = ?k \<and> (unsigned_format (outputFormat m) \<longrightarrow> uint (s AND NOT ?k) \<le> r)
      \<and> (?k = 0 \<longrightarrow> (if unsigned_format (outputFormat m) then 0 \<le> sint s \<and> sint s \<le> r
                     else - (r div 2) \<le> sint s \<and> sint s \<le> r div 2))" if s: "s = output_sample E m x" for s x
  proof -
    obtain z where z: "s = word_of_int z OR ?k"
      "if unsigned_format (outputFormat m) then 0 \<le> z \<and> z \<le> r else - (r div 2) \<le> z \<and> z \<le> r div 2"
      using output_sample_bounded [OF assms(4,1)] s by blast
    have "r div 2 \<le> r" using assms(2) by simp
    then have "- (2 ^ 31) \<le> z" "z < 2 ^ 31" using z(2) assms(2,3) by (auto split: if_splits)
    then show ?thesis
      using z masked_bounds [of z ?k] sint_small [of z] by (auto simp: or.commute split: if_splits)
  qed
  then show ?thesis using len rs(2) by (intro conjI exI [of _ "map (output_sample E m) rs"]) (auto simp: comp_def)
qed

text \<open>An instance: whole numbers, samples of one byte, and sources that give 256 samples.\<close>

definition demo_mix :: "(int, nat) mix_env" where
  "demo_mix = \<lparr>mfl = int_floats, sample_bytes = \<lambda>f. if f = U8BIT \<or> f = S8BIT then 1 else 2,
     stream_format = \<lambda>i w. S8BIT, stream_pull = \<lambda>i w. (replicate 256 (of_nat i), 1, w), stream_connect = \<lambda>i w. w, stream_disconnect = \<lambda>i w. w,
     read_sample = \<lambda>f bs. sint (hd bs), write_sample = \<lambda>f s. [ucast s, ucast (drop_bit 8 s)], silence_event = \<lambda>b w. w,
     pull_downstream = \<lambda>w. w + 1\<rparr>"

definition demo_channel :: "nat \<Rightarrow> int channel" where
  "demo_channel i = \<lparr>ch_stream = i, in_buf = replicate 256 (of_nat i), pullRequests = 0, ch_range = 1023, ch_rate = 1,
     ch_offset = 0, ch_gain = 1, ch_skip = 1, ch_position = 0, ch_volume = 1, ch_format = S8BIT, bytesPerSample = 1\<rparr>"

definition demo_mixer :: "nat list \<Rightarrow> int mixer" where
  "demo_mixer cs = (mixer_new demo_mix 1 1023 U16BIT)\<lparr>channels := map demo_channel cs\<rparr>"

lemmas demo_defs = demo_mix_def demo_channel_def demo_mixer_def mixer_new_def setFormat_def setSampleRate_def
  setSampleRange_def int_floats_def CONFIG_MIXER_BUFFER_SIZE_def

lemma demo_holds: "floats_hold (mfl demo_mix) u 1024" "floats_hold (mfl demo_mix) True 1023"
  by (simp_all add: floats_hold_def clamps_def Let_def demo_defs)

lemma demo_writes: "length (write_sample demo_mix f x) = 2" "bytesPerSampleOut (demo_mixer cs) = 2"
  "channels (demo_mixer cs) = map demo_channel cs"
  by (simp_all add: demo_defs)

text \<open>With a single idle channel, the mixer returns as well.\<close>

lemma demo_mix_channel:
  "mix_channel demo_mix 256 0 (demo_channel i) acc s w \<noteq> None"
proof -
  obtain out' acc' pos' where
    "mix_samples demo_mix (demo_channel i) 256 0 0 acc 0 = (out', acc', pos')" by (rule prod_cases3)
  then show ?thesis
    by (subst mix_channel.simps) (simp add: samples_left_def Let_def demo_defs)
qed

lemma demo_mix_channels: "mix_channels demo_mix 256 m (map demo_channel cs) acc s w \<noteq> None"
proof (induction cs arbitrary: acc s w)
  case (Cons i cs)
  obtain ch2 acc1 silence1 w1 where "mix_channel demo_mix 256 0 (demo_channel i) acc s w = Some (ch2, acc1, silence1, w1)"
    using demo_mix_channel [of i acc s w] by (metis not_Some_eq prod_cases4)
  moreover obtain r where "mix_channels demo_mix 256 m (map demo_channel cs) acc1 silence1 w1 = Some r"
    using Cons.IH [of acc1 silence1 w1] by blast
  moreover have "ch_format (demo_channel i) \<noteq> FORMAT_UNKNOWN" by (simp add: demo_channel_def)
  ultimately show ?case by (cases r) simp
qed simp

lemma demo_pull: "\<exists>buf m' w'. mixer_pull demo_mix (demo_mixer [3, 4]) 0 = Some (buf, m', w')"
proof -
  obtain chs acc silence w1 where
    "mix_channels demo_mix 256 (demo_mixer [3, 4]) (channels (demo_mixer [3, 4])) (replicate 256 0) True 0
      = Some (chs, acc, silence, w1)"
    using demo_mix_channels [of "demo_mixer [3, 4]" "[3, 4]" "replicate 256 0" True 0] demo_writes(3) [of "[3, 4]"]
    by (metis not_Some_eq prod_cases4)
  moreover have "from_int (mfl demo_mix) 0 = 0" by (simp add: demo_defs)
  ultimately show ?thesis using demo_writes(2,3) [of "[3, 4]"]
    unfolding mixer_pull_def Let_def by (simp add: CONFIG_MIXER_BUFFER_SIZE_def)
qed

theorem mixer_output_in_range_witness:
  "\<exists>buf m' w' samples. mixer_pull demo_mix (demo_mixer [3, 4]) 0 = Some (buf, m', w') \<and> length buf = 512
    \<and> buf = concat (map (write_sample demo_mix U16BIT) samples) \<and> (\<forall>s \<in> set samples. 0 \<le> sint s \<and> sint s \<le> 1023)"
proof -
  obtain buf m' w' where pull: "mixer_pull demo_mix (demo_mixer [3, 4]) 0 = Some (buf, m', w')" using demo_pull by blast
  have m: "outputRange (demo_mixer [3, 4]) = from_int (mfl demo_mix) 1023" "outputFormat (demo_mixer [3, 4]) = U16BIT"
    "mix_orMask (demo_mixer [3, 4]) = 0"
    by (simp_all add: demo_defs)
  have "length buf = CONFIG_MIXER_BUFFER_SIZE \<and> (\<exists>samples. buf = concat (map (write_sample demo_mix U16BIT) samples)
      \<and> (\<forall>s \<in> set samples. 0 \<le> sint s \<and> sint s \<le> 1023))"
    using mixer_output_in_range [OF m(1) _ _ _ _ _ pull] by (auto simp: m(2,3) demo_holds demo_writes CONFIG_MIXER_BUFFER_SIZE_def)
  then show ?thesis using pull unfolding CONFIG_MIXER_BUFFER_SIZE_def by blast
qed

subsection \<open>Adding the channels\<close>

text \<open>One sample of a channel, as it is added.\<close>

definition contribution :: "('f, 'w) mix_env \<Rightarrow> 'f channel \<Rightarrow> nat \<Rightarrow> 'f" where
  "contribution E c j =
     (let F = mfl E
      in mul F (mul F (add F (read_sample E (ch_format c) (drop (j * bytesPerSample c) (in_buf c))) (ch_offset c))
           (ch_gain c)) (ch_volume c))"

text \<open>Source and mixer at the same rate; up to \<open>n\<close>, whole numbers are exact.\<close>

definition same_rate :: "('f, 'w) mix_env \<Rightarrow> nat \<Rightarrow> 'f channel \<Rightarrow> bool" where
  "same_rate E n c \<longleftrightarrow> (let F = mfl E in
     (\<forall>k \<le> n. add F (from_int F (int k)) (ch_skip c) = from_int F (int (k + 1))
        \<and> nat (to_int F (mul F (from_int F (int k)) (from_int F (int (bytesPerSample c))))) = k * bytesPerSample c
        \<and> to_int F (divide F (sub F (from_int F (int n)) (from_int F (int k))) (ch_skip c)) = int (n - k)))"

lemma mix_samples_from:
  assumes "same_rate E n c"
  shows "k + len \<le> n \<Longrightarrow> out + len \<le> length acc \<Longrightarrow>
    mix_samples E c len out (k * bytesPerSample c) acc (from_int (mfl E) (int k)) =
      (out + len, map (\<lambda>j. if out \<le> j \<and> j < out + len then add (mfl E) (acc ! j) (contribution E c (k + (j - out)))
                           else acc ! j) [0..<length acc],
       from_int (mfl E) (int (k + len)))"
proof (induction len arbitrary: k out acc)
  case 0
  have "map (\<lambda>j. if out \<le> j \<and> j < out + 0 then add (mfl E) (acc ! j) (contribution E c (k + (j - out))) else acc ! j)
      [0..<length acc] = acc" by (rule nth_equalityI) auto
  then show ?case by simp
next
  case (Suc len)
  have k: "add (mfl E) (from_int (mfl E) (int k)) (ch_skip c) = from_int (mfl E) (int (k + 1))"
    "nat (to_int (mfl E) (mul (mfl E) (from_int (mfl E) (int (k + 1))) (from_int (mfl E) (int (bytesPerSample c)))))
      = (k + 1) * bytesPerSample c"
    using assms [unfolded same_rate_def Let_def, THEN spec, of k] assms [unfolded same_rate_def Let_def, THEN spec, of "k + 1"]
      Suc.prems(1) by auto
  let ?acc = "acc[out := add (mfl E) (acc ! out) (contribution E c k)]"
  have "mix_samples E c (Suc len) out (k * bytesPerSample c) acc (from_int (mfl E) (int k))
      = mix_samples E c len (out + 1) ((k + 1) * bytesPerSample c) ?acc (from_int (mfl E) (int (k + 1)))"
    using k by (simp add: Let_def contribution_def)
  also have "\<dots> = (out + 1 + len, map (\<lambda>j. if out + 1 \<le> j \<and> j < out + 1 + len
      then add (mfl E) (?acc ! j) (contribution E c (k + 1 + (j - (out + 1)))) else ?acc ! j) [0..<length ?acc],
      from_int (mfl E) (int (k + 1 + len)))"
    by (rule Suc.IH) (use Suc.prems in auto)
  finally have step: "mix_samples E c (Suc len) out (k * bytesPerSample c) acc (from_int (mfl E) (int k)) = \<dots>" .
  moreover have "Suc out \<le> j \<Longrightarrow> Suc (k + j - Suc out) = k + j - out" for j by simp
  ultimately show ?case using Suc.prems by (auto simp: nth_list_update Suc_diff_le)
qed

text \<open>A channel at the start of a buffer of \<open>n\<close> samples.\<close>

definition full_channel :: "('f, 'w) mix_env \<Rightarrow> nat \<Rightarrow> 'f channel \<Rightarrow> bool" where
  "full_channel E n c \<longleftrightarrow> same_rate E n c \<and> ch_format c \<noteq> FORMAT_UNKNOWN \<and> ch_position c = from_int (mfl E) 0
     \<and> length (in_buf c) div bytesPerSample c = n"

lemma mix_channel_full:
  assumes "full_channel E n c" "0 < n" "length acc = n"
  shows "\<exists>c' w'. mix_channel E n 0 c acc silence w =
    Some (c', map (\<lambda>j. add (mfl E) (acc ! j) (contribution E c j)) [0..<n], False, w')"
proof -
  have left: "samples_left E c = int n"
    using assms(1) [unfolded full_channel_def same_rate_def Let_def, THEN conjunct1, THEN spec, of 0] assms(1)
    by (simp add: full_channel_def samples_left_def Let_def)
  have "mix_samples E c n 0 0 acc (from_int (mfl E) 0) = (n, map (\<lambda>j. if 0 \<le> j \<and> j < 0 + n
      then add (mfl E) (acc ! j) (contribution E c (0 + (j - 0))) else acc ! j) [0..<length acc], from_int (mfl E) (int n))"
    using mix_samples_from [of E n c 0 n 0 acc] assms by (simp add: full_channel_def)
  then have samples: "mix_samples E c n 0 0 acc (ch_position c) =
      (n, map (\<lambda>j. add (mfl E) (acc ! j) (contribution E c j)) [0..<n], from_int (mfl E) (int n))"
    using assms by (simp add: full_channel_def cong: map_cong)
  have stop: "mix_channel E n n c' acc' s' w' = Some (c', acc', s', w')" for c' acc' s' w'
    by (subst mix_channel.simps) simp
  have min: "min (int n) (samples_left E c) = int n" "n \<noteq> 0" "samples_left E c \<le> int n" using left assms(2) by simp_all
  obtain b requests w1 where pull: "stream_pull E (ch_stream c) w = (b, requests, w1)" by (rule prod_cases3)
  show ?thesis
    by (subst mix_channel.simps) (simp add: min samples stop pull Let_def)
qed

lemma mix_channels_full:
  assumes "\<forall>c \<in> set chs. full_channel E n c" "0 < n" "length acc = n"
  shows "\<exists>chs' w'. mix_channels E n m chs acc silence w =
    Some (chs', map (\<lambda>j. foldl (\<lambda>x c. add (mfl E) x (contribution E c j)) (acc ! j) chs) [0..<n], silence \<and> chs = [], w')"
  using assms(1,3)
proof (induction chs arbitrary: acc silence w)
  case Nil
  then show ?case using map_nth [of acc] by simp
next
  case (Cons c chs)
  let ?acc = "map (\<lambda>j. add (mfl E) (acc ! j) (contribution E c j)) [0..<n]"
  obtain c' w' where one: "mix_channel E n 0 c acc silence w = Some (c', ?acc, False, w')"
    using mix_channel_full [of E n c acc silence w] assms(2) Cons.prems by auto
  obtain chs' w2 where rest: "mix_channels E n m chs ?acc False w' =
      Some (chs', map (\<lambda>j. foldl (\<lambda>x c. add (mfl E) x (contribution E c j)) (?acc ! j) chs) [0..<n], False, w2)"
    using Cons.IH [of ?acc False w'] Cons.prems(1) by auto
  have "ch_format c \<noteq> FORMAT_UNKNOWN" using Cons.prems(1) by (simp add: full_channel_def)
  then show ?case using one rest by (simp cong: map_cong)
qed

text \<open>
  C37 While every channel stands at the start of a buffer as long as the mixer's, with the mixer's sample
  rate, the mixer puts out for each sample the scaled, shifted and clamped sum of the samples of all
  channels, and it always returns.
\<close>

theorem mixer_adds_channels:
  assumes "\<forall>c \<in> set (channels m). full_channel E n c" and "channels m \<noteq> []"
    and "n = CONFIG_MIXER_BUFFER_SIZE div bytesPerSampleOut m" and "0 < n"
  shows "\<exists>m' w'. mixer_pull E m w = Some (concat (map (\<lambda>j. write_sample E (outputFormat m) (output_sample E m
      (foldl (\<lambda>x c. add (mfl E) x (contribution E c j)) (from_int (mfl E) 0) (channels m)))) [0..<n]), m', w')
    \<and> \<not> silent m'"
proof -
  let ?sums = "map (\<lambda>j. foldl (\<lambda>x c. add (mfl E) x (contribution E c j)) (from_int (mfl E) 0) (channels m)) [0..<n]"
  have sums: "map (\<lambda>j. foldl (\<lambda>x c. add (mfl E) x (contribution E c j)) (replicate n (from_int (mfl E) 0) ! j) (channels m)) [0..<n]
    = ?sums" by (simp cong: map_cong)
  obtain chs w1 where mixed: "mix_channels E n m (channels m) (replicate n (from_int (mfl E) 0)) True w = Some (chs, ?sums, False, w1)"
    using mix_channels_full [OF assms(1,4), of "replicate n (from_int (mfl E) 0)" m True w, unfolded sums] assms(2) by auto
  show ?thesis
    using mixed assms(2) unfolding mixer_pull_def Let_def assms(3) [symmetric] by (simp add: comp_def)
qed

theorem mixer_adds_channels_witness:
  "\<exists>m' w'. mixer_pull demo_mix (demo_mixer [3, 4]) 0 = Some (concat (map (\<lambda>j. [6 :: u8, 2]) [0..<256]), m', w')"
proof -
  have full: "\<forall>c \<in> set (channels (demo_mixer [3, 4])). full_channel demo_mix 256 c"
    by (auto simp: full_channel_def same_rate_def demo_defs nat_diff_distrib)
  have contr: "contribution demo_mix (demo_channel i) j = sint (of_nat i :: u8)" if "j < 256" for i j
    using that by (simp add: contribution_def demo_defs)
  have "output_sample demo_mix (demo_mixer [3, 4]) 7 = 518"
    by (simp add: output_sample_def clamp_def range_lo_def range_hi_def CONFIG_MIXER_INTERNAL_RANGE_def demo_defs)
  moreover have "write_sample demo_mix f 518 = [6, 2]" "from_int (mfl demo_mix) 0 = 0" "add (mfl demo_mix) = (+)" for f
    by (simp_all add: demo_defs)
  ultimately have out: "map (\<lambda>j. write_sample demo_mix (outputFormat (demo_mixer [3, 4])) (output_sample demo_mix (demo_mixer [3, 4])
      (foldl (\<lambda>x c. add (mfl demo_mix) x (contribution demo_mix c j)) (from_int (mfl demo_mix) 0)
        (channels (demo_mixer [3, 4]))))) [0..<256] = map (\<lambda>j. [6 :: u8, 2]) [0..<256]"
    using contr demo_writes(3) [of "[3, 4]"] by (intro map_cong) simp_all
  have "channels (demo_mixer [3, 4]) \<noteq> []" "256 = CONFIG_MIXER_BUFFER_SIZE div bytesPerSampleOut (demo_mixer [3, 4])"
    using demo_writes(2,3) [of "[3, 4]"] by (simp_all add: CONFIG_MIXER_BUFFER_SIZE_def)
  from mixer_adds_channels [OF full this, of 0] show ?thesis unfolding out by auto
qed

end
