(* ===== verification/SynthEffects.thy ===== *)
theory SynthEffects
  imports Synth "HOL-Library.Signed_Division"
begin

text \<open>
  The scales and effect functions of \<open>source/SoundSynthesizerEffects.cpp\<close> that compute in single precision. An
  effect function sees the effect and its step and changes the frequency and the volume of the synthesizer.
  \<open>pow2\<close> is \<open>powf\<close> with base 2.
\<close>

subsection \<open>Scales\<close>

text \<open>A literal with four decimals: the quotient rounds as the literal does.\<close>

definition decimal :: "'f float_ops \<Rightarrow> int \<Rightarrow> 'f" where
  "decimal F x = divide F (from_int F x) (from_int F 10000)"

definition chromaticInterval :: "'f float_ops \<Rightarrow> 'f list" where
  "chromaticInterval F = map (decimal F)
     [10000, 10417, 11250, 12000, 12500, 13333, 14063, 15000, 16000, 16667, 18000, 18750]"

definition chosen :: "'f float_ops \<Rightarrow> nat list \<Rightarrow> 'f list" where
  "chosen F is = map (\<lambda>i. chromaticInterval F ! i) is"

definition majorScaleInterval :: "'f float_ops \<Rightarrow> 'f list" where
  "majorScaleInterval F = chosen F [0, 2, 4, 5, 7, 9, 11]"
definition minorScaleInterval :: "'f float_ops \<Rightarrow> 'f list" where
  "minorScaleInterval F = chosen F [0, 2, 3, 5, 7, 8, 10]"
definition pentatonicScaleInterval :: "'f float_ops \<Rightarrow> 'f list" where
  "pentatonicScaleInterval F = chosen F [0, 2, 4, 7, 9]"
definition majorTriadInterval :: "'f float_ops \<Rightarrow> 'f list" where
  "majorTriadInterval F = chosen F [0, 4, 7]"
definition minorTriadInterval :: "'f float_ops \<Rightarrow> 'f list" where
  "minorTriadInterval F = chosen F [0, 3, 7]"
definition diminishedInterval :: "'f float_ops \<Rightarrow> 'f list" where
  "diminishedInterval F = chosen F [0, 3, 6, 9]"
definition wholeToneInterval :: "'f float_ops \<Rightarrow> 'f list" where
  "wholeToneInterval F = chosen F [0, 2, 4, 6, 8, 10]"

record 'f progression =
  interval :: "'f list"
  steps_in :: int

definition progressions :: "'f float_ops \<Rightarrow> 'f progression list" where
  "progressions F = [\<lparr>interval = chromaticInterval F, steps_in = 12\<rparr>, \<lparr>interval = majorScaleInterval F, steps_in = 7\<rparr>,
     \<lparr>interval = minorScaleInterval F, steps_in = 7\<rparr>, \<lparr>interval = pentatonicScaleInterval F, steps_in = 5\<rparr>,
     \<lparr>interval = majorTriadInterval F, steps_in = 3\<rparr>, \<lparr>interval = minorTriadInterval F, steps_in = 3\<rparr>,
     \<lparr>interval = diminishedInterval F, steps_in = 4\<rparr>, \<lparr>interval = wholeToneInterval F, steps_in = 6\<rparr>]"

text \<open>\<open>None\<close>: the interval would be read outside its array.\<close>

definition calculateFrequencyFromProgression :: "'f float_ops \<Rightarrow> (int \<Rightarrow> 'f) \<Rightarrow> 'f \<Rightarrow> 'f progression \<Rightarrow> int \<Rightarrow> 'f option" where
  "calculateFrequencyFromProgression F pow2 base p offset =
     (let octave = offset sdiv steps_in p; index = offset smod steps_in p
      in if 0 \<le> index \<and> index < int (length (interval p))
         then Some (mul F (mul F base (pow2 octave)) (interval p ! nat index)) else None)"

subsection \<open>Effects\<close>

text \<open>An effect maps the frequency and the volume of the synthesizer.\<close>

definition noInterpolation :: "'f \<times> 'f \<Rightarrow> 'f \<times> 'f" where
  "noInterpolation fv = fv"

definition linearInterpolation :: "'f float_ops \<Rightarrow> 'f \<Rightarrow> ('f, 't, 'e) sound_fx \<Rightarrow> 'e tone_fx \<Rightarrow> 'f \<times> 'f \<Rightarrow> 'f \<times> 'f" where
  "linearInterpolation F param e t fv =
     (let i = divide F (sub F param (fx_frequency e)) (from_int F (fx_steps t))
      in (add F (fx_frequency e) (mul F i (from_int F (fx_step t))), snd fv))"

definition appregrioAscending :: "'f float_ops \<Rightarrow> (int \<Rightarrow> 'f) \<Rightarrow> 'f progression \<Rightarrow> ('f, 't, 'e) sound_fx \<Rightarrow> 'e tone_fx
    \<Rightarrow> 'f \<times> 'f \<Rightarrow> ('f \<times> 'f) option" where
  "appregrioAscending F pow2 p e t fv =
     map_option (\<lambda>f. (f, snd fv)) (calculateFrequencyFromProgression F pow2 (fx_frequency e) p (fx_step t))"

definition appregrioDescending :: "'f float_ops \<Rightarrow> (int \<Rightarrow> 'f) \<Rightarrow> 'f progression \<Rightarrow> ('f, 't, 'e) sound_fx \<Rightarrow> 'e tone_fx
    \<Rightarrow> 'f \<times> 'f \<Rightarrow> ('f \<times> 'f) option" where
  "appregrioDescending F pow2 p e t fv =
     map_option (\<lambda>f. (f, snd fv))
       (calculateFrequencyFromProgression F pow2 (fx_frequency e) p (fx_steps t - fx_step t - 1))"

definition frequencyVibratoEffect :: "'f float_ops \<Rightarrow> 'f \<Rightarrow> 'e tone_fx \<Rightarrow> 'f \<times> 'f \<Rightarrow> 'f \<times> 'f" where
  "frequencyVibratoEffect F param t fv =
     (if fx_step t = 0 then fv
      else if fx_step t smod 2 = 0 then (divide F (fst fv) param, snd fv) else (mul F (fst fv) param, snd fv))"

definition volumeVibratoEffect :: "'f float_ops \<Rightarrow> 'f \<Rightarrow> 'e tone_fx \<Rightarrow> 'f \<times> 'f \<Rightarrow> 'f \<times> 'f" where
  "volumeVibratoEffect F param t fv =
     (if fx_step t = 0 then fv
      else if fx_step t smod 2 = 0 then (fst fv, divide F (snd fv) param) else (fst fv, mul F (snd fv) param))"

definition adsrVolumeEffect :: "'f float_ops \<Rightarrow> 'f \<Rightarrow> 'f \<Rightarrow> ('f, 't, 'e) sound_fx \<Rightarrow> 'e tone_fx \<Rightarrow> 'f \<times> 'f \<Rightarrow> 'f \<times> 'f" where
  "adsrVolumeEffect F centre final e t fv =
     (let half = mul F (from_int F (fx_steps t)) (divide F (from_int F 1) (from_int F 2)); k = from_int F (fx_step t)
      in (fst fv,
          if \<not> less F half k
          then add F (fx_volume e) (mul F k (divide F (sub F centre (fx_volume e)) half))
          else add F centre (mul F (sub F k half) (divide F (sub F final centre) half))))"

definition volumeRampEffect :: "'f float_ops \<Rightarrow> 'f \<Rightarrow> ('f, 't, 'e) sound_fx \<Rightarrow> 'e tone_fx \<Rightarrow> 'f \<times> 'f \<Rightarrow> 'f \<times> 'f" where
  "volumeRampEffect F param e t fv =
     (let delta = divide F (sub F param (fx_volume e)) (from_int F (fx_steps t))
      in (fst fv, add F (fx_volume e) (mul F (from_int F (fx_step t)) delta)))"

subsection \<open>Properties\<close>

lemma progressions_lengths: "\<forall>p \<in> set (progressions F). 0 < steps_in p \<and> int (length (interval p)) = steps_in p"
  by (simp add: progressions_def chromaticInterval_def chosen_def majorScaleInterval_def minorScaleInterval_def
      pentatonicScaleInterval_def majorTriadInterval_def minorTriadInterval_def diminishedInterval_def wholeToneInterval_def)

lemma nonnegative_note:
  assumes "p \<in> set (progressions F)" "0 \<le> n"
  shows "calculateFrequencyFromProgression F pow2 base p n
    = Some (mul F (mul F base (pow2 (n div steps_in p))) (interval p ! nat (n mod steps_in p)))"
proof -
  have p: "0 < steps_in p" "int (length (interval p)) = steps_in p" using assms(1) progressions_lengths by blast+
  then have "n sdiv steps_in p = n div steps_in p" "n smod steps_in p = n mod steps_in p"
    using assms(2) by (cases "n = 0"; simp add: signed_divide_int_def signed_modulo_int_def)+
  then show ?thesis using p by (simp add: calculateFrequencyFromProgression_def)
qed

text \<open>
  Every step of an arpeggio reads a note inside the scale; a step a whole scale later sounds octaves
  higher, and a descending arpeggio plays the notes of the ascending one in reverse.
\<close>

theorem arpeggio_notes:
  assumes "p \<in> set (progressions F)" and "0 \<le> fx_step t" and "fx_step t < fx_steps t"
  shows "appregrioAscending F pow2 p e t fv = Some (mul F (mul F (fx_frequency e) (pow2 (fx_step t div steps_in p)))
      (interval p ! nat (fx_step t mod steps_in p)), snd fv)
    \<and> nat (fx_step t mod steps_in p) < length (interval p)
    \<and> appregrioDescending F pow2 p e t fv = appregrioAscending F pow2 p e (t\<lparr>fx_step := fx_steps t - fx_step t - 1\<rparr>) fv
    \<and> appregrioDescending F pow2 p e t fv \<noteq> None"
proof -
  have p: "0 < steps_in p" "int (length (interval p)) = steps_in p" using assms(1) progressions_lengths by blast+
  have "nat (fx_step t mod steps_in p) < length (interval p)"
    using p pos_mod_bound [OF p(1), of "fx_step t"] by linarith
  then show ?thesis
    using assms by (simp add: appregrioAscending_def appregrioDescending_def nonnegative_note)
qed

theorem arpeggio_notes_witness:
  "\<exists>f. appregrioDescending int_floats (\<lambda>k. 2 ^ nat k) (progressions int_floats ! 1)
     \<lparr>fx_frequency = 440, fx_volume = 1, fx_duration = 0, fx_tone = (), fx_effects = []\<rparr>
     \<lparr>fx_effect = Some (), fx_step = 2, fx_steps = 10\<rparr> (0, 1) = Some (f, 1) \<and> f = 880"
proof -
  let ?t = "\<lparr>fx_effect = Some (), fx_step = 2, fx_steps = 10\<rparr>"
  have p: "progressions int_floats ! 1 \<in> set (progressions int_floats)" by (simp add: progressions_def)
  show ?thesis
    using arpeggio_notes [OF p, of ?t "\<lambda>k. 2 ^ nat k" "\<lparr>fx_frequency = 440, fx_volume = 1, fx_duration = 0, fx_tone = (), fx_effects = []\<rparr>" "(0, 1)"]
      nonnegative_note [OF p, of 7 "\<lambda>k. 2 ^ nat k" 440]
    by (simp add: appregrioDescending_def)
      (simp add: progressions_def majorScaleInterval_def chosen_def chromaticInterval_def decimal_def int_floats_def)
qed

text \<open>Vibrato: the factor is applied at odd steps and taken back at even ones.\<close>

lemma vibrato_step:
  "fx_step t = int k \<Longrightarrow> volumeVibratoEffect F param t (f, v) =
    (f, if k = 0 then v else if even k then divide F v param else mul F v param)"
proof -
  assume k: "fx_step t = int k"
  have "int k smod 2 = int (k mod 2)" by (cases "k = 0") (simp_all add: signed_modulo_int_def zmod_int)
  then show ?thesis using k by (auto simp: volumeVibratoEffect_def even_iff_mod_2_eq_zero)
qed

lemma vibrato_alternates:
  assumes "\<And>x. divide F (mul F x param) param = x" "\<forall>k. fx_step (t k) = int k"
  shows "fold (\<lambda>k. volumeVibratoEffect F param (t k)) [0..<n] (f, v) = (f, if n = 0 \<or> odd n then v else mul F v param)"
proof (induction n)
  case (Suc n)
  then show ?case using assms by (auto simp: vibrato_step [of _ n])
qed simp

text \<open>A ramp starts at the volume of the effect, an envelope too.\<close>

lemma ramp_starts:
  assumes "\<And>x. mul F (from_int F 0) x = from_int F 0" "\<And>x. add F x (from_int F 0) = x" "fx_step t = 0"
  shows "snd (volumeRampEffect F param e t fv) = fx_volume e"
  using assms by (simp add: volumeRampEffect_def)

end
