(* ===== verification/Audio.thy ===== *)
theory Audio
  imports Mixer Synth
begin

text \<open>
  \<open>MicroBitAudio\<close> (\<open>source/MicroBitAudio.cpp\<close>): the pipeline from the mixer to the PWM and the pins, and
  \<open>SoundOutputPin\<close> (\<open>source/SoundOutputPin.cpp\<close>), an analog pin that makes a sound. The PWM driver, the
  timer and the pins are the records \<open>audio_env\<close> and \<open>pin_env\<close>.
\<close>

subsection \<open>MicroBitAudio\<close>

text \<open>\<open>a_pwm\<close> tells whether there is a PWM, \<open>deepsleep\<close> is the status bit. Pins are numbers.\<close>

record 'f audio =
  speakerEnabled :: bool
  pinEnabled :: bool
  a_pin :: nat
  a_pwm :: bool
  deepsleep :: bool
  a_mixer :: "'f mixer"

text \<open>\<open>pwm_new\<close> creates the PWM behind the mixer, \<open>pwm_delete\<close> disables and deletes it.\<close>

record ('f, 'w) audio_env =
  amix :: "('f, 'w) mix_env"
  pwm_new :: "'w \<Rightarrow> 'w"
  pwm_range :: "'w \<Rightarrow> u16"
  pwm_connect :: "nat \<Rightarrow> nat \<Rightarrow> 'w \<Rightarrow> 'w"
  pwm_disconnect :: "nat \<Rightarrow> 'w \<Rightarrow> 'w"
  pwm_delete :: "'w \<Rightarrow> 'w"
  a_speaker :: nat
  a_synth :: nat
  fresh_channel :: "'f channel"

definition audio_new :: "nat \<Rightarrow> 'f mixer \<Rightarrow> 'f audio" where
  "audio_new p m = \<lparr>speakerEnabled = True, pinEnabled = True, a_pin = p, a_pwm = False, deepsleep = False, a_mixer = m\<rparr>"

definition setSpeakerEnabled :: "('f, 'w) audio_env \<Rightarrow> bool \<Rightarrow> 'f audio \<Rightarrow> 'w \<Rightarrow> 'f audio \<times> 'w" where
  "setSpeakerEnabled K on a w =
     (a\<lparr>speakerEnabled := on\<rparr>,
      if a_pwm a then (if on then pwm_connect K (a_speaker K) 1 w else pwm_disconnect K (a_speaker K) w) else w)"

definition setPinEnabled :: "('f, 'w) audio_env \<Rightarrow> bool \<Rightarrow> 'f audio \<Rightarrow> 'w \<Rightarrow> 'f audio \<times> 'w" where
  "setPinEnabled K on a w =
     (a\<lparr>pinEnabled := on\<rparr>,
      if a_pwm a then (if on then pwm_connect K (a_pin a) 0 w else pwm_disconnect K (a_pin a) w) else w)"

definition setPin :: "('f, 'w) audio_env \<Rightarrow> nat \<Rightarrow> 'f audio \<Rightarrow> 'w \<Rightarrow> 'f audio \<times> 'w" where
  "setPin K p a w =
     (let (a1, w1) = setPinEnabled K False a w in setPinEnabled K (pinEnabled a) (a1\<lparr>a_pin := p\<rparr>) w1)"

definition isSpeakerEnabled :: "'f audio \<Rightarrow> bool" where
  "isSpeakerEnabled a = speakerEnabled a"

definition isPinEnabled :: "'f audio \<Rightarrow> bool" where
  "isPinEnabled a = pinEnabled a"

text \<open>The synthesizer becomes a channel of the mixer with the default rate and range.\<close>

definition enable :: "('f, 'w) audio_env \<Rightarrow> 'f audio \<Rightarrow> 'w \<Rightarrow> code \<times> 'f audio \<times> 'w" where
  "enable K a w =
     (if a_pwm a then (OK, a, w)
      else
        let M = amix K; w1 = pwm_new K w;
            m = Mixer.setOrMask 0x8000 (Mixer.setSampleRange M (pwm_range K w1)
              (Mixer.setSampleRate M (from_int (mfl M) 44100) (a_mixer a)));
            (a1, w2) = setSpeakerEnabled K (speakerEnabled a) (a\<lparr>a_pwm := True, a_mixer := m\<rparr>) w1;
            (a2, w3) = setPinEnabled K (pinEnabled a1) a1 w2;
            (m', w4) = addChannel M (a_synth K) None 1023 (fresh_channel K) (a_mixer a2) w3
        in (OK, a2\<lparr>a_mixer := m'\<rparr>, w4))"

text \<open>\<open>instance\<close> is the first instance created.\<close>

definition requestActivation :: "('f, 'w) audio_env \<Rightarrow> 'f audio option \<Rightarrow> 'w \<Rightarrow> 'f audio option \<times> 'w" where
  "requestActivation K inst w =
     (case inst of None \<Rightarrow> (None, w) | Some a \<Rightarrow> (let (c, a1, w1) = enable K a w in (Some a1, w1)))"

definition audio_setVolume :: "('f, 'w) audio_env \<Rightarrow> int \<Rightarrow> 'f audio \<Rightarrow> code \<times> 'f audio" where
  "audio_setVolume K v a =
     (if v < 0 \<or> v > 255 then (INVALID_PARAMETER, a)
      else (OK, a\<lparr>a_mixer := snd (Mixer.setVolume (amix K) (v * 4) (a_mixer a))\<rparr>))"

text \<open>The volume of the mixer is never negative.\<close>

definition audio_getVolume :: "('f, 'w) audio_env \<Rightarrow> 'f audio \<Rightarrow> int" where
  "audio_getVolume K a = Mixer.getVolume (amix K) (a_mixer a) div 4"

definition audio_destroy :: "('f, 'w) audio_env \<Rightarrow> 'f audio \<Rightarrow> 'w \<Rightarrow> 'w" where
  "audio_destroy K a w = (if a_pwm a then pwm_disconnect K (a_pin a) (pwm_disconnect K (a_speaker K) w) else w)"

definition setSleep :: "('f, 'w) audio_env \<Rightarrow> bool \<Rightarrow> 'f audio \<Rightarrow> 'w \<Rightarrow> 'f audio \<times> 'w" where
  "setSleep K doSleep a w =
     (if doSleep then
        if a_pwm a
        then (a\<lparr>deepsleep := True, a_pwm := False\<rparr>,
              pwm_delete K (pwm_disconnect K (a_pin a) (pwm_disconnect K (a_speaker K) w)))
        else (a, w)
      else if deepsleep a then snd (enable K (a\<lparr>deepsleep := False\<rparr>) w)
      else (a, w))"

subsection \<open>SoundOutputPin\<close>

text \<open>
  \<open>fx\<close> is the effect in \<open>outputBuffer\<close>. The synthesizer plays this buffer, so that a change of it is also
  one of its \<open>effectBuffer\<close> while it holds it.
\<close>

record ('f, 't, 'e) out_pin =
  pin_value :: int
  periodUs :: int
  timeOfLastUpdate :: u32
  fx :: "('f, 't, 'e) sound_fx option"
  pin_active :: bool
  pin_synth :: "('f, 't, 'e) synth"

text \<open>\<open>blank\<close> is the zero memory of \<open>outputBuffer\<close>. \<open>start_output\<close> enables the pipeline and adds the channel.\<close>

record ('f, 't, 'e, 'w) pin_env =
  syn :: "('f, 't, 'e, 'w) synth_env"
  clock :: "'w \<Rightarrow> nat"
  square :: 't
  blank :: "('f, 't, 'e) sound_fx"
  start_output :: "'w \<Rightarrow> 'w"

definition CONFIG_SOUND_OUTPUT_PIN_PERIOD :: int where "CONFIG_SOUND_OUTPUT_PIN_PERIOD = 50"
definition CONFIG_SOUND_OUTPUT_PIN_SILENCE_GATE :: int where "CONFIG_SOUND_OUTPUT_PIN_SILENCE_GATE = 100"

definition out_pin_new :: "('f, 't, 'e) synth \<Rightarrow> ('f, 't, 'e) out_pin" where
  "out_pin_new s = \<lparr>pin_value = 512, periodUs = 0, timeOfLastUpdate = 0, fx = None, pin_active = False,
     pin_synth = allowEmptyBuffers True s\<rparr>"

definition pin_volume :: "('f, 't, 'e, 'w) pin_env \<Rightarrow> ('f, 't, 'e) out_pin \<Rightarrow> 'f" where
  "pin_volume K p =
     (let F = fl (syn K)
      in if periodUs p = 0 then from_int F 0
         else divide F (mul F (from_int F 4) (from_int F (pin_value p))) (from_int F 512))"

definition pin_frequency :: "('f, 't, 'e, 'w) pin_env \<Rightarrow> ('f, 't, 'e) out_pin \<Rightarrow> 'f" where
  "pin_frequency K p =
     (let F = fl (syn K)
      in if periodUs p = 0 then from_int F 6068 else divide F (from_int F 1000000) (from_int F (periodUs p)))"

definition update :: "('f, 't, 'e, 'w) pin_env \<Rightarrow> ('f, 't, 'e) out_pin \<Rightarrow> 'w \<Rightarrow> ('f, 't, 'e) out_pin \<times> 'w" where
  "update K p w =
     (let F = fl (syn K);
          p1 = p\<lparr>timeOfLastUpdate := of_nat (clock K w)\<rparr>;
          (e, w1) = (case fx p1 of Some e \<Rightarrow> (e, w)
             | None \<Rightarrow> ((blank K)\<lparr>fx_duration := from_int F (- CONFIG_SOUND_OUTPUT_PIN_PERIOD), fx_tone := square K,
                                fx_volume := from_int F 0\<rparr>, start_output K w));
          set = (\<lambda>x. x\<lparr>fx_frequency := pin_frequency K p1, fx_volume := pin_volume K p1\<rparr>)
      in (p1\<lparr>fx := Some (set e), pin_synth := (pin_synth p1)\<lparr>effectBuffer := map set (effectBuffer (pin_synth p1))\<rparr>\<rparr>, w1))"

definition setAnalogValue :: "('f, 't, 'e, 'w) pin_env \<Rightarrow> int \<Rightarrow> ('f, 't, 'e) out_pin \<Rightarrow> 'w \<Rightarrow> code \<times> ('f, 't, 'e) out_pin \<times> 'w" where
  "setAnalogValue K v p w =
     (if v < 0 \<or> v > 1024 then (INVALID_PARAMETER, p, w)
      else (OK, update K (p\<lparr>pin_value := min 128 (if v > 512 then 1024 - v else v)\<rparr>) w))"

definition getAnalogValue :: "('f, 't, 'e) out_pin \<Rightarrow> int" where
  "getAnalogValue p = pin_value p"

text \<open>\<open>periodUs\<close> is a signed number of 32 bits.\<close>

definition setAnalogPeriodUs :: "('f, 't, 'e, 'w) pin_env \<Rightarrow> u32 \<Rightarrow> ('f, 't, 'e) out_pin \<Rightarrow> 'w \<Rightarrow> code \<times> ('f, 't, 'e) out_pin \<times> 'w" where
  "setAnalogPeriodUs K period p w = (OK, update K (p\<lparr>periodUs := sint period\<rparr>) w)"

definition setAnalogPeriod :: "('f, 't, 'e, 'w) pin_env \<Rightarrow> int \<Rightarrow> ('f, 't, 'e) out_pin \<Rightarrow> 'w \<Rightarrow> code \<times> ('f, 't, 'e) out_pin \<times> 'w" where
  "setAnalogPeriod K period p w = setAnalogPeriodUs K (word_of_int (period * 1000)) p w"

definition getAnalogPeriodUs :: "('f, 't, 'e) out_pin \<Rightarrow> u32" where
  "getAnalogPeriodUs p = word_of_int (periodUs p)"

definition getAnalogPeriod :: "('f, 't, 'e) out_pin \<Rightarrow> int" where
  "getAnalogPeriod p = uint (getAnalogPeriodUs p) div 1000"

text \<open>The clock has 64 bits.\<close>

definition silence_time :: "('f, 't, 'e, 'w) pin_env \<Rightarrow> ('f, 't, 'e) out_pin \<Rightarrow> 'w \<Rightarrow> int" where
  "silence_time K p w = (int (clock K w) - uint (timeOfLastUpdate p)) mod 2 ^ 64"

definition idleCallback :: "('f, 't, 'e, 'w) pin_env \<Rightarrow> ('f, 't, 'e) out_pin \<Rightarrow> 'w
    \<Rightarrow> (('f, 't, 'e) out_pin \<times> 'w) option" where
  "idleCallback K p w =
     (let F = fl (syn K); zero = from_int F 0;
          volume_is = (\<lambda>test. case fx p of None \<Rightarrow> False | Some e \<Rightarrow> test (fx_volume e));
          p1 = (if pin_active p \<and> volume_is (\<lambda>v. \<not> less F v zero \<and> \<not> less F zero v)
                  \<and> silence_time K p w > CONFIG_SOUND_OUTPUT_PIN_SILENCE_GATE
                then p\<lparr>pin_active := False, pin_synth := stop (pin_synth p)\<rparr> else p)
      in case fx p1 of
           None \<Rightarrow> Some (p1, w)
         | Some e \<Rightarrow>
             if \<not> pin_active p1 \<and> less F zero (fx_volume e)
             then case play (syn K) [e] (pin_synth p1) w of
                    None \<Rightarrow> None
                  | Some (c, s, w1) \<Rightarrow> Some (p1\<lparr>pin_active := True, pin_synth := s\<rparr>, w1)
             else Some (p1, w))"

end
