(* ===== verification/AudioProps.thy ===== *)
theory AudioProps
  imports Audio SynthProps
begin

text \<open>
  The audio pipeline: which pins the PWM drives after any session, what waking up adds to the mixer, the
  volume, and when the analog sound pin plays.
\<close>

subsection \<open>Routing\<close>

datatype audio_step = Enable | Speaker bool | Pin_on bool | Use_pin nat | Sleep bool | Volume int

fun audio_op :: "('f, 'w) audio_env \<Rightarrow> audio_step \<Rightarrow> 'f audio \<times> 'w \<Rightarrow> 'f audio \<times> 'w" where
  "audio_op K Enable (a, w) = snd (enable K a w)"
| "audio_op K (Speaker on) (a, w) = setSpeakerEnabled K on a w"
| "audio_op K (Pin_on on) (a, w) = setPinEnabled K on a w"
| "audio_op K (Use_pin p) (a, w) = setPin K p a w"
| "audio_op K (Sleep on) (a, w) = setSleep K on a w"
| "audio_op K (Volume v) (a, w) = (snd (audio_setVolume K v a), w)"

text \<open>
  \<open>out w c\<close> is the pin that channel \<open>c\<close> of the PWM drives. A channel drives one pin: connecting a pin to it takes
  the place of the one before. Disconnecting a pin frees every channel that drives it.
\<close>

locale pwm_driver =
  fixes K :: "('f, 'w) audio_env" and out :: "'w \<Rightarrow> nat \<Rightarrow> nat option"
  assumes new_out: "out (pwm_new K w) = (\<lambda>c. None)"
    and connect_out: "out (pwm_connect K p c w) = (out w)(c := Some p)"
    and disconnect_out: "out (pwm_disconnect K p w) = (\<lambda>c. if out w c = Some p then None else out w c)"
    and delete_out: "out (pwm_delete K w) = (\<lambda>c. None)"
    and stream_out: "out (stream_connect (amix K) s w) = out w"
begin

definition routed :: "'f audio \<times> 'w \<Rightarrow> bool" where
  "routed x \<longleftrightarrow> (case x of (a, w) \<Rightarrow> a_pin a \<noteq> a_speaker K \<and>
     out w = (\<lambda>c. if a_pwm a \<and> pinEnabled a \<and> c = 0 then Some (a_pin a)
                 else if a_pwm a \<and> speakerEnabled a \<and> c = 1 then Some (a_speaker K) else None))"

lemmas out_simps = new_out connect_out disconnect_out delete_out stream_out

lemma enable_routed: "routed (a, w) \<Longrightarrow> routed (snd (enable K a w))"
  by (auto simp: routed_def enable_def Let_def setSpeakerEnabled_def setPinEnabled_def addChannel_def out_simps
      split: prod.splits)

lemma speaker_routed: "routed (a, w) \<Longrightarrow> routed (setSpeakerEnabled K on a w)"
  by (auto simp: setSpeakerEnabled_def routed_def out_simps)

lemma pin_routed: "routed (a, w) \<Longrightarrow> routed (setPinEnabled K on a w)"
  by (auto simp: setPinEnabled_def routed_def out_simps)

lemma setPin_routed: "routed (a, w) \<Longrightarrow> p \<noteq> a_speaker K \<Longrightarrow> routed (setPin K p a w)"
  by (auto simp: setPin_def setPinEnabled_def routed_def out_simps)

lemma routed_fields [simp]: "routed (a\<lparr>deepsleep := d\<rparr>, w) = routed (a, w)" "routed (a\<lparr>a_mixer := m\<rparr>, w) = routed (a, w)"
  by (simp_all add: routed_def cong: if_cong)

lemma sleep_routed:
  assumes "routed (a, w)"
  shows "routed (setSleep K on a w)"
proof (cases on)
  case True
  then show ?thesis using assms by (auto simp: setSleep_def routed_def out_simps)
next
  case False
  then show ?thesis using assms enable_routed [of "a\<lparr>deepsleep := False\<rparr>" w] by (simp add: setSleep_def)
qed

lemma op_routed:
  assumes "routed x" and "\<And>p. op \<noteq> Use_pin p \<or> p \<noteq> a_speaker K"
  shows "routed (audio_op K op x)"
proof (cases x)
  case (Pair a w)
  then have x: "routed (a, w)" using assms(1) by simp
  show ?thesis
  proof (cases op)
    case (Use_pin p)
    then show ?thesis using Pair setPin_routed [OF x] assms(2) by simp
  next
    case (Volume v)
    then show ?thesis using Pair x by (simp add: audio_setVolume_def)
  qed (use Pair x in \<open>simp_all add: enable_routed speaker_routed pin_routed sleep_routed\<close>)
qed

lemma session_routed:
  "routed x \<Longrightarrow> \<forall>op \<in> set ops. \<forall>p. op \<noteq> Use_pin p \<or> p \<noteq> a_speaker K \<Longrightarrow> routed (fold (audio_op K) ops x)"
proof (induction ops arbitrary: x)
  case (Cons op ops)
  then show ?case using op_routed [of x op] by simp
qed simp

end

text \<open>An instance: the world is what the channels drive.\<close>

definition set_pwm :: "(int, nat \<Rightarrow> nat option) audio_env" where
  "set_pwm = \<lparr>amix = \<lparr>mfl = int_floats, sample_bytes = \<lambda>f. 2, stream_format = \<lambda>i w. U16BIT,
       stream_pull = \<lambda>i w. ([], 0, w), stream_connect = \<lambda>i w. w, stream_disconnect = \<lambda>i w. w,
       read_sample = \<lambda>f bs. 0, write_sample = \<lambda>f s. [ucast s, ucast (drop_bit 8 s)], silence_event = \<lambda>b w. w,
       pull_downstream = \<lambda>w. w\<rparr>,
     pwm_new = \<lambda>w c. None, pwm_range = \<lambda>w. 1023, pwm_connect = \<lambda>p c w. w(c := Some p),
     pwm_disconnect = \<lambda>p w c. if w c = Some p then None else w c, pwm_delete = \<lambda>w c. None, a_speaker = 0, a_synth = 3010,
     fresh_channel = \<lparr>ch_stream = 0, in_buf = [], pullRequests = 0, ch_range = 0, ch_rate = 0, ch_offset = 0, ch_gain = 0,
       ch_skip = 0, ch_position = 0, ch_volume = 0, ch_format = FORMAT_UNKNOWN, bytesPerSample = 1\<rparr>\<rparr>"

interpretation set_pwm: pwm_driver set_pwm "\<lambda>w. w"
  by unfold_locales (auto simp: set_pwm_def)

text \<open>
  C38 As long as the pin chosen for audio is never the pin of the speaker, after any session of enabling,
  switching, choosing pins, sleeping and waking, channel 1 of the PWM drives the speaker exactly when there is a PWM
  and the speaker is enabled, channel 0 drives the chosen pin exactly when there is a PWM and the pin is enabled,
  and no other channel drives anything.
\<close>

theorem audio_routing:
  assumes "pwm_driver K out" and "out w = (\<lambda>c. None)" and "p \<noteq> a_speaker K"
    and "\<forall>op \<in> set ops. \<forall>q. op \<noteq> Use_pin q \<or> q \<noteq> a_speaker K"
    and "(a', w') = fold (audio_op K) ops (audio_new p m, w)"
  shows "out w' 1 = (if a_pwm a' \<and> speakerEnabled a' then Some (a_speaker K) else None)
    \<and> out w' 0 = (if a_pwm a' \<and> pinEnabled a' then Some (a_pin a') else None)
    \<and> (\<forall>c. c \<noteq> 0 \<longrightarrow> c \<noteq> 1 \<longrightarrow> out w' c = None)"
proof -
  note routed = pwm_driver.routed_def [OF assms(1)]
  have "pwm_driver.routed K out (audio_new p m, w)" using assms(2,3) by (simp add: routed audio_new_def)
  then have "pwm_driver.routed K out (a', w')"
    unfolding assms(5) by (rule pwm_driver.session_routed [OF assms(1) _ assms(4)])
  then show ?thesis by (simp add: routed)
qed

theorem audio_routing_witness:
  "let out = snd (fold (audio_op set_pwm) [Enable, Pin_on False, Sleep True, Sleep False, Use_pin 7, Pin_on True]
     (audio_new 5 (mixer_new (amix set_pwm) 44100 1023 U16BIT), \<lambda>c. None))
   in out 1 = Some 0 \<and> out 0 = Some 7 \<and> out 2 = None"
proof -
  define x where "x = fold (audio_op set_pwm) [Enable, Pin_on False, Sleep True, Sleep False, Use_pin 7, Pin_on True]
     (audio_new 5 (mixer_new (amix set_pwm) 44100 1023 U16BIT), \<lambda>c. None)"
  have state: "a_pwm (fst x)" "speakerEnabled (fst x)" "pinEnabled (fst x)" "a_pin (fst x) = 7"
    by (simp_all add: x_def enable_def setSleep_def setPin_def setSpeakerEnabled_def setPinEnabled_def addChannel_def
        audio_new_def Let_def)
  have side: "(5 :: nat) \<noteq> a_speaker set_pwm"
    "\<forall>op \<in> set [Enable, Pin_on False, Sleep True, Sleep False, Use_pin 7, Pin_on True]. \<forall>q. op \<noteq> Use_pin q \<or> q \<noteq> a_speaker set_pwm"
    by (auto simp: set_pwm_def)
  have "(fst x, snd x) = fold (audio_op set_pwm) [Enable, Pin_on False, Sleep True, Sleep False, Use_pin 7, Pin_on True]
     (audio_new 5 (mixer_new (amix set_pwm) 44100 1023 U16BIT), \<lambda>c. None)" by (simp only: x_def prod.collapse)
  from audio_routing [OF set_pwm.pwm_driver_axioms refl side this] show ?thesis
    unfolding x_def [symmetric] Let_def by (simp add: state) (simp add: set_pwm_def)
qed

lemma set_pwm_synth: "a_synth set_pwm = 3010" by (simp add: set_pwm_def)

subsection \<open>Waking up\<close>

definition nap :: "('f, 'w) audio_env \<Rightarrow> 'f audio \<times> 'w \<Rightarrow> 'f audio \<times> 'w" where
  "nap K x = (let (a, w) = x; (a1, w1) = setSleep K True a w in setSleep K False a1 w1)"

lemma nap_channels:
  assumes "a_pwm (fst x)"
  shows "a_pwm (fst (nap K x)) \<and> map ch_stream (channels (a_mixer (fst (nap K x)))) = a_synth K # map ch_stream (channels (a_mixer (fst x)))"
  using assms
  by (auto simp: nap_def setSleep_def enable_def Let_def setSpeakerEnabled_def setPinEnabled_def addChannel_def
      configureChannel_def Mixer.setOrMask_def Mixer.setSampleRange_def Mixer.setSampleRate_def comp_def split: prod.splits)

text \<open>
  Every sleep of an enabled pipeline leaves one more channel for the same synthesizer in the mixer: after
  \<open>n\<close> of them the mixer holds \<open>n\<close> channels more than before, and none is ever taken away.
\<close>

theorem naps_add_channels:
  assumes "a_pwm a"
  shows "map ch_stream (channels (a_mixer (fst ((nap K ^^ n) (a, w))))) =
    replicate n (a_synth K) @ map ch_stream (channels (a_mixer a))"
proof -
  have "a_pwm (fst ((nap K ^^ n) (a, w))) \<and> map ch_stream (channels (a_mixer (fst ((nap K ^^ n) (a, w))))) =
    replicate n (a_synth K) @ map ch_stream (channels (a_mixer a))"
    using assms by (induction n) (auto simp: nap_channels)
  then show ?thesis ..
qed

theorem naps_add_channels_witness:
  "map ch_stream (channels (a_mixer (fst ((nap set_pwm ^^ 2)
     (fst (snd (enable set_pwm (audio_new 5 (mixer_new (amix set_pwm) 44100 1023 U16BIT)) (\<lambda>c. None))), (\<lambda>c. None)))))) = [3010, 3010, 3010]"
proof -
  let ?a = "fst (snd (enable set_pwm (audio_new 5 (mixer_new (amix set_pwm) 44100 1023 U16BIT)) (\<lambda>c. None)))"
  have on: "a_pwm ?a" "map ch_stream (channels (a_mixer ?a)) = [3010]"
    by (simp_all add: enable_def setSpeakerEnabled_def setPinEnabled_def addChannel_def configureChannel_def set_pwm_def
        audio_new_def mixer_new_def Mixer.setOrMask_def Mixer.setSampleRange_def Mixer.setSampleRate_def
        setFormat_def Let_def)
  show ?thesis using naps_add_channels [OF on(1), of 2 set_pwm "(\<lambda>c. None)"] on(2) set_pwm_synth by (simp add: numeral_2_eq_2)
qed

subsection \<open>Volume\<close>

text \<open>A volume that is accepted is read back, when scaling by 1023 is undone exactly for whole numbers up to 1020.\<close>

lemma volume_roundtrip:
  assumes "\<And>x. 0 \<le> x \<Longrightarrow> x \<le> 1020 \<Longrightarrow>
      to_int F (mul F (divide F (from_int F x) (from_int F 1023)) (from_int F 1023)) = x"
    and "F = mfl (amix K)" and "audio_setVolume K v a = (OK, a')"
  shows "audio_getVolume K a' = v"
  using assms(3) assms(1) [of "v * 4"] assms(2)
  by (auto simp: audio_setVolume_def audio_getVolume_def Mixer.setVolume_def Mixer.getVolume_def
      split: if_splits)

subsection \<open>The sound pin\<close>

text \<open>What the pin keeps: 0 to 128, the same for a duty cycle and its complement.\<close>

lemma analog_value_symmetric:
  "0 \<le> v \<Longrightarrow> v \<le> 1024 \<Longrightarrow> setAnalogValue K (1024 - v) p w = setAnalogValue K v p w"
  by (auto simp: setAnalogValue_def intro!: arg_cong [where f = "\<lambda>x. update K (p\<lparr>pin_value := x\<rparr>) w"])

lemma analog_value_range:
  "setAnalogValue K v p w = (OK, p', w') \<Longrightarrow> 0 \<le> getAnalogValue p' \<and> getAnalogValue p' \<le> 128"
  by (auto simp: setAnalogValue_def update_def getAnalogValue_def Let_def split: if_splits prod.splits)

text \<open>The time of the last update has 32 bits: once the clock has more, every silence seems long.\<close>

lemma silence_after_wrap:
  assumes "2 ^ 32 + 100 < clock K w" "clock K w < 2 ^ 64"
  shows "CONFIG_SOUND_OUTPUT_PIN_SILENCE_GATE < silence_time K p w"
proof -
  have "uint (timeOfLastUpdate p) < 4294967296" using uint_bounded [of "timeOfLastUpdate p"] by simp
  moreover have "4294967396 < clock K w" "clock K w < 18446744073709551616" using assms by simp_all
  ultimately have "100 < int (clock K w) - uint (timeOfLastUpdate p)"
    "int (clock K w) - uint (timeOfLastUpdate p) < 18446744073709551616"
    using uint_ge_0 [of "timeOfLastUpdate p"] by linarith+
  then show ?thesis by (simp add: silence_time_def CONFIG_SOUND_OUTPUT_PIN_SILENCE_GATE_def)
qed

definition audible :: "('f, 't, 'e, 'w) pin_env \<Rightarrow> ('f, 't, 'e) out_pin \<Rightarrow> bool" where
  "audible K p \<longleftrightarrow> (case fx p of None \<Rightarrow> False | Some e \<Rightarrow> less (fl (syn K)) (from_int (fl (syn K)) 0) (fx_volume e))"

definition mute :: "('f, 't, 'e, 'w) pin_env \<Rightarrow> ('f, 't, 'e) out_pin \<Rightarrow> bool" where
  "mute K p \<longleftrightarrow> (case fx p of None \<Rightarrow> True
     | Some e \<Rightarrow> \<not> less (fl (syn K)) (fx_volume e) (from_int (fl (syn K)) 0) \<and> \<not> less (fl (syn K)) (from_int (fl (syn K)) 0) (fx_volume e))"

text \<open>
  After the idle callback the pin plays when it has a volume; when it has been mute for longer than the
  silence gate it does not play; and a mute pin that plays keeps playing until then.
\<close>

theorem sound_pin_follows_volume:
  assumes "idleCallback K p w = Some (p', w')" and "pin_active p \<Longrightarrow> fx p \<noteq> None"
  shows "(audible K p \<longrightarrow> pin_active p')
    \<and> (mute K p \<and> silence_time K p w > CONFIG_SOUND_OUTPUT_PIN_SILENCE_GATE \<longrightarrow> \<not> pin_active p')
    \<and> (mute K p \<and> silence_time K p w \<le> CONFIG_SOUND_OUTPUT_PIN_SILENCE_GATE \<longrightarrow> pin_active p' = pin_active p)
    \<and> fx p' = fx p"
  using assms by (auto simp: idleCallback_def audible_def mute_def Let_def split: if_splits option.splits prod.splits)

text \<open>An instance on the synthesizer of whole numbers; the clock stands at 500.\<close>

definition demo_pin :: "(int, nat, int, nat) pin_env" where
  "demo_pin = \<lparr>syn = demo_synth, clock = \<lambda>w. 500, square = 0, blank = demo_fx 1, start_output = \<lambda>w. w\<rparr>"

theorem sound_pin_follows_volume_witness:
  "let p = fst (update demo_pin (out_pin_new (synth_new demo_synth 4 0 [])) 0)\<lparr>pin_active := True, timeOfLastUpdate := 300\<rparr> in
   \<exists>p' w'. idleCallback demo_pin p 0 = Some (p', w') \<and> \<not> pin_active p'"
proof -
  define p where "p = fst (update demo_pin (out_pin_new (synth_new demo_synth 4 0 [])) 0)\<lparr>pin_active := True, timeOfLastUpdate := 300\<rparr>"
  have fx: "fx p = Some ((demo_fx 1)\<lparr>fx_duration := - 50, fx_tone := 0, fx_volume := 0, fx_frequency := 6068\<rparr>)"
    "timeOfLastUpdate p = 300" "pin_active p"
    by (simp_all add: p_def update_def out_pin_new_def demo_pin_def demo_synth_def int_floats_def pin_volume_def pin_frequency_def
        CONFIG_SOUND_OUTPUT_PIN_PERIOD_def demo_fx_def Let_def)
  have mute: "mute demo_pin p" "silence_time demo_pin p 0 = 200"
    using fx by (simp_all add: mute_def silence_time_def demo_pin_def demo_synth_def int_floats_def)
  have "idleCallback demo_pin p 0 \<noteq> None"
    using fx mute(2) by (simp add: idleCallback_def demo_pin_def demo_synth_def int_floats_def CONFIG_SOUND_OUTPUT_PIN_SILENCE_GATE_def)
  then obtain p' w' where "idleCallback demo_pin p 0 = Some (p', w')" by auto
  moreover have "\<not> pin_active p'"
    using sound_pin_follows_volume [OF calculation] mute fx by (simp add: CONFIG_SOUND_OUTPUT_PIN_SILENCE_GATE_def)
  ultimately show ?thesis unfolding p_def [symmetric] Let_def by blast
qed

end
