(* ===== verification/Sensors.thy ===== *)
theory Sensors
  imports MB_Prelude
begin

text \<open>
  \<open>MicroBitAccelerometer\<close> and \<open>MicroBitCompass\<close> (\<open>source/\<close>): the detection of the motion sensor and the
  proxies that hand every call to the driver found. The drivers belong to codal-core and codal-nrf52: a
  driver is a record of its operations on the world.
\<close>

subsection \<open>Detection\<close>

datatype accelerometer_kind = FXOS_accelerometer | LSM_accelerometer | No_accelerometer
datatype compass_kind = FXOS_compass | LSM_compass | No_compass

text \<open>
  The static members. \<open>tilt\<close> is the accelerometer the compass compensates with, \<open>created\<close> counts the objects
  created. FXOS8700 is accelerometer and compass in one object.
\<close>

record sensors =
  autoDetectCompleted :: bool
  detectedAccelerometer :: "accelerometer_kind option"
  detectedCompass :: "compass_kind option"
  tilt :: "accelerometer_kind option"
  created :: nat

text \<open>\<open>is_detected\<close> asks a device at an address of the bus; \<open>prepare_irq\<close> waits 10 ms and sets up the line.\<close>

record 'w sensor_bus =
  is_detected :: "bool \<Rightarrow> nat \<Rightarrow> 'w \<Rightarrow> bool \<times> 'w"
  target_wait :: "nat \<Rightarrow> 'w \<Rightarrow> 'w"
  prepare_irq :: "'w \<Rightarrow> 'w"

definition sensors_new :: sensors where
  "sensors_new = \<lparr>autoDetectCompleted = False, detectedAccelerometer = None, detectedCompass = None, tilt = None, created = 0\<rparr>"

definition detect :: "'w sensor_bus \<Rightarrow> sensors \<Rightarrow> 'w \<Rightarrow> sensors \<times> 'w" where
  "detect B s w =
     (let s0 = s\<lparr>detectedAccelerometer := None, detectedCompass := None\<rparr>;
          (fxos, w1) = is_detected B True 0x3E w;
          s1 = (if fxos then s0\<lparr>detectedAccelerometer := Some FXOS_accelerometer, detectedCompass := Some FXOS_compass,
                               created := created s0 + 1\<rparr> else s0);
          (lsm, w2) = is_detected B False 0x32 w1;
          s2 = (if lsm then s1\<lparr>detectedAccelerometer := Some LSM_accelerometer, detectedCompass := Some LSM_compass,
                              created := created s1 + 2\<rparr> else s1);
          s3 = (if detectedAccelerometer s2 = None
                then s2\<lparr>detectedAccelerometer := Some No_accelerometer, created := created s2 + 1\<rparr> else s2);
          s4 = (if detectedCompass s3 \<noteq> None then s3\<lparr>tilt := detectedAccelerometer s3\<rparr> else s3)
      in (s4\<lparr>autoDetectCompleted := True\<rparr>, w2))"

definition accelerometer_autoDetect :: "'w sensor_bus \<Rightarrow> sensors \<Rightarrow> 'w \<Rightarrow> accelerometer_kind option \<times> sensors \<times> 'w" where
  "accelerometer_autoDetect B s w =
     (let w1 = prepare_irq B (target_wait B 10 w);
          (s1, w2) = (if autoDetectCompleted s then (s, w1) else detect B s w1)
      in (detectedAccelerometer s1, s1, w2))"

definition compass_autoDetect :: "'w sensor_bus \<Rightarrow> sensors \<Rightarrow> 'w \<Rightarrow> compass_kind option \<times> sensors \<times> 'w" where
  "compass_autoDetect B s w =
     (let (a, s1, w1) = accelerometer_autoDetect B s (target_wait B 10 w);
          s2 = (if detectedCompass s1 = None then s1\<lparr>detectedCompass := Some No_compass, created := created s1 + 1\<rparr> else s1)
      in (detectedCompass s2, s2, w1))"

subsection \<open>Proxies\<close>

text \<open>\<open>'s\<close> is a sample of three axes, \<open>'c\<close> a coordinate system, \<open>'r\<close> an angle in radians.\<close>

record ('s, 'c, 'r, 'w) accelerometer_ops =
  a_setPeriod :: "int \<Rightarrow> 'w \<Rightarrow> int \<times> 'w"
  a_getPeriod :: "'w \<Rightarrow> int"
  a_setRange :: "int \<Rightarrow> 'w \<Rightarrow> int \<times> 'w"
  a_getRange :: "'w \<Rightarrow> int"
  a_configure :: "'w \<Rightarrow> int \<times> 'w"
  a_requestUpdate :: "'w \<Rightarrow> int \<times> 'w"
  a_getSampleIn :: "'c \<Rightarrow> 'w \<Rightarrow> 's \<times> 'w"
  a_getSample :: "'w \<Rightarrow> 's \<times> 'w"
  a_getX :: "'w \<Rightarrow> int \<times> 'w"
  a_getY :: "'w \<Rightarrow> int \<times> 'w"
  a_getZ :: "'w \<Rightarrow> int \<times> 'w"
  a_getPitch :: "'w \<Rightarrow> int \<times> 'w"
  a_getPitchRadians :: "'w \<Rightarrow> 'r \<times> 'w"
  a_getRoll :: "'w \<Rightarrow> int \<times> 'w"
  a_getRollRadians :: "'w \<Rightarrow> 'r \<times> 'w"
  a_getGesture :: "'w \<Rightarrow> u16"

text \<open>\<open>self\<close> are the operations of the base class on the proxy itself; every method takes the same choice.\<close>

definition delegate :: "'k option \<Rightarrow> ('k \<Rightarrow> 'd) \<Rightarrow> 'd \<Rightarrow> ('d \<Rightarrow> 'm) \<Rightarrow> 'm" where
  "delegate detected driver self method = (case detected of Some k \<Rightarrow> method (driver k) | None \<Rightarrow> method self)"

definition microbit_accelerometer :: "(accelerometer_kind \<Rightarrow> ('s, 'c, 'r, 'w) accelerometer_ops)
    \<Rightarrow> ('s, 'c, 'r, 'w) accelerometer_ops \<Rightarrow> sensors \<Rightarrow> ('s, 'c, 'r, 'w) accelerometer_ops" where
  "microbit_accelerometer driver self s =
     \<lparr>a_setPeriod = delegate (detectedAccelerometer s) driver self a_setPeriod,
      a_getPeriod = delegate (detectedAccelerometer s) driver self a_getPeriod,
      a_setRange = delegate (detectedAccelerometer s) driver self a_setRange,
      a_getRange = delegate (detectedAccelerometer s) driver self a_getRange,
      a_configure = delegate (detectedAccelerometer s) driver self a_configure,
      a_requestUpdate = delegate (detectedAccelerometer s) driver self a_requestUpdate,
      a_getSampleIn = delegate (detectedAccelerometer s) driver self a_getSampleIn,
      a_getSample = delegate (detectedAccelerometer s) driver self a_getSample,
      a_getX = delegate (detectedAccelerometer s) driver self a_getX,
      a_getY = delegate (detectedAccelerometer s) driver self a_getY,
      a_getZ = delegate (detectedAccelerometer s) driver self a_getZ,
      a_getPitch = delegate (detectedAccelerometer s) driver self a_getPitch,
      a_getPitchRadians = delegate (detectedAccelerometer s) driver self a_getPitchRadians,
      a_getRoll = delegate (detectedAccelerometer s) driver self a_getRoll,
      a_getRollRadians = delegate (detectedAccelerometer s) driver self a_getRollRadians,
      a_getGesture = delegate (detectedAccelerometer s) driver self a_getGesture\<rparr>"

text \<open>\<open>'k\<close> is a calibration, \<open>'a\<close> an accelerometer.\<close>

record ('s, 'c, 'k, 'a, 'w) compass_ops =
  c_heading :: "'w \<Rightarrow> int \<times> 'w"
  c_getFieldStrength :: "'w \<Rightarrow> int \<times> 'w"
  c_calibrate :: "'w \<Rightarrow> int \<times> 'w"
  c_setCalibration :: "'k \<Rightarrow> 'w \<Rightarrow> 'w"
  c_getCalibration :: "'w \<Rightarrow> 'k"
  c_isCalibrated :: "'w \<Rightarrow> int"
  c_isCalibrating :: "'w \<Rightarrow> int"
  c_clearCalibration :: "'w \<Rightarrow> 'w"
  c_configure :: "'w \<Rightarrow> int \<times> 'w"
  c_setAccelerometer :: "'a \<Rightarrow> 'w \<Rightarrow> 'w"
  c_setPeriod :: "int \<Rightarrow> 'w \<Rightarrow> int \<times> 'w"
  c_getPeriod :: "'w \<Rightarrow> int"
  c_requestUpdate :: "'w \<Rightarrow> int \<times> 'w"
  c_getSampleIn :: "'c \<Rightarrow> 'w \<Rightarrow> 's \<times> 'w"
  c_getSample :: "'w \<Rightarrow> 's \<times> 'w"
  c_getX :: "'w \<Rightarrow> int \<times> 'w"
  c_getY :: "'w \<Rightarrow> int \<times> 'w"
  c_getZ :: "'w \<Rightarrow> int \<times> 'w"

text \<open>\<open>getZ\<close> asks the detected compass for its y axis.\<close>

definition microbit_compass :: "(compass_kind \<Rightarrow> ('s, 'c, 'k, 'a, 'w) compass_ops)
    \<Rightarrow> ('s, 'c, 'k, 'a, 'w) compass_ops \<Rightarrow> sensors \<Rightarrow> ('s, 'c, 'k, 'a, 'w) compass_ops" where
  "microbit_compass driver self s =
     \<lparr>c_heading = delegate (detectedCompass s) driver self c_heading,
      c_getFieldStrength = delegate (detectedCompass s) driver self c_getFieldStrength,
      c_calibrate = delegate (detectedCompass s) driver self c_calibrate,
      c_setCalibration = delegate (detectedCompass s) driver self c_setCalibration,
      c_getCalibration = delegate (detectedCompass s) driver self c_getCalibration,
      c_isCalibrated = delegate (detectedCompass s) driver self c_isCalibrated,
      c_isCalibrating = delegate (detectedCompass s) driver self c_isCalibrating,
      c_clearCalibration = delegate (detectedCompass s) driver self c_clearCalibration,
      c_configure = delegate (detectedCompass s) driver self c_configure,
      c_setAccelerometer = delegate (detectedCompass s) driver self c_setAccelerometer,
      c_setPeriod = delegate (detectedCompass s) driver self c_setPeriod,
      c_getPeriod = delegate (detectedCompass s) driver self c_getPeriod,
      c_requestUpdate = delegate (detectedCompass s) driver self c_requestUpdate,
      c_getSampleIn = delegate (detectedCompass s) driver self c_getSampleIn,
      c_getSample = delegate (detectedCompass s) driver self c_getSample,
      c_getX = delegate (detectedCompass s) driver self c_getX,
      c_getY = delegate (detectedCompass s) driver self c_getY,
      c_getZ = (case detectedCompass s of Some k \<Rightarrow> c_getY (driver k) | None \<Rightarrow> c_getZ self)\<rparr>"

subsection \<open>Properties\<close>

text \<open>Detection runs once: whatever is called afterwards in any order, the sensors stay the same.\<close>

lemma completed_stays:
  "autoDetectCompleted s \<Longrightarrow> detectedCompass s \<noteq> None \<Longrightarrow>
    fst (snd (accelerometer_autoDetect B s w)) = s \<and> fst (snd (compass_autoDetect B s w)) = s"
  by (simp add: accelerometer_autoDetect_def compass_autoDetect_def Let_def)

text \<open>The sensors of a device: both from one chip, and the compass compensates with the accelerometer of its chip.\<close>

definition matching :: "accelerometer_kind option \<Rightarrow> compass_kind option \<Rightarrow> bool" where
  "matching a c \<longleftrightarrow> (a, c) \<in> {(Some FXOS_accelerometer, Some FXOS_compass), (Some LSM_accelerometer, Some LSM_compass),
     (Some No_accelerometer, Some No_compass)}"

lemma detect_kinds:
  assumes "detect B s w = (s', w')"
  shows "autoDetectCompleted s' \<and>
    ((detectedAccelerometer s', detectedCompass s') \<in> {(Some FXOS_accelerometer, Some FXOS_compass),
        (Some LSM_accelerometer, Some LSM_compass)} \<and> tilt s' = detectedAccelerometer s'
     \<or> detectedAccelerometer s' = Some No_accelerometer \<and> detectedCompass s' = None \<and> tilt s' = tilt s)"
  using assms by (auto simp: detect_def Let_def split: prod.splits if_splits)

datatype sensor_step = Accelerometer_detect | Compass_detect

fun sensor_call :: "'w sensor_bus \<Rightarrow> sensor_step \<Rightarrow> sensors \<times> 'w \<Rightarrow> sensors \<times> 'w" where
  "sensor_call B Accelerometer_detect (s, w) = snd (accelerometer_autoDetect B s w)"
| "sensor_call B Compass_detect (s, w) = snd (compass_autoDetect B s w)"

definition settled :: "sensors \<Rightarrow> bool" where
  "settled s \<longleftrightarrow> autoDetectCompleted s \<and>
    (matching (detectedAccelerometer s) (detectedCompass s) \<or> detectedAccelerometer s = Some No_accelerometer \<and> detectedCompass s = None)
    \<and> (detectedCompass s \<in> {Some FXOS_compass, Some LSM_compass} \<longrightarrow> tilt s = detectedAccelerometer s)"

lemma detect_settles: "settled (fst (detect B s w))"
  using detect_kinds [of B s w "fst (detect B s w)" "snd (detect B s w)"]
  by (auto simp: settled_def matching_def)

lemma accelerometer_settles:
  "settled s \<or> \<not> autoDetectCompleted s \<Longrightarrow> settled (fst (snd (accelerometer_autoDetect B s w)))"
  using detect_settles [of B s "prepare_irq B (target_wait B 10 w)"]
  by (auto simp: accelerometer_autoDetect_def Let_def split: prod.splits)

lemma call_settles: "settled s \<or> \<not> autoDetectCompleted s \<Longrightarrow> settled (fst (sensor_call B c (s, w)))"
proof (cases c)
  case Compass_detect
  moreover assume "settled s \<or> \<not> autoDetectCompleted s"
  note accelerometer_settles [OF this, of B "target_wait B 10 w"]
  ultimately show ?thesis
    by (auto simp: compass_autoDetect_def settled_def matching_def Let_def split: prod.splits)
qed (simp add: accelerometer_settles)

lemma calls_settle: "settled s \<or> \<not> autoDetectCompleted s \<and> cs \<noteq> [] \<Longrightarrow> settled (fst (fold (sensor_call B) cs (s, w)))"
proof (induction cs arbitrary: s w)
  case (Cons c cs)
  then show ?case using call_settles [of s B c w] by (cases "sensor_call B c (s, w)") auto
qed simp

text \<open>
  In whatever order and how often the two classes are asked to detect the sensors, as soon as one call was
  made the accelerometer is of the same chip as the compass, if there is a compass, and a detected compass
  compensates its tilt with that accelerometer; after the first call of each no call changes anything.
\<close>

theorem sensors_of_one_chip:
  assumes "cs \<noteq> []" and "(s, w') = fold (sensor_call B) cs (sensors_new, w)"
  shows "(matching (detectedAccelerometer s) (detectedCompass s) \<or> detectedAccelerometer s = Some No_accelerometer \<and> detectedCompass s = None)
    \<and> (detectedCompass s \<in> {Some FXOS_compass, Some LSM_compass} \<longrightarrow> tilt s = detectedAccelerometer s)
    \<and> (detectedCompass s \<noteq> None \<longrightarrow> fst (sensor_call B c (s, w')) = s)"
proof -
  have "settled s" using calls_settle [of sensors_new cs B w] assms by (metis fst_conv sensors.select_convs(1) sensors_new_def)
  then show ?thesis using completed_stays [of s B w'] by (cases c) (auto simp: settled_def)
qed

theorem sensors_of_one_chip_witness:
  "let B = \<lparr>is_detected = \<lambda>fxos address w. (\<not> fxos, w), target_wait = (\<lambda>t w. w + t), prepare_irq = (\<lambda>w. w)\<rparr>;
       s = fst (fold (sensor_call B) [Compass_detect, Accelerometer_detect] (sensors_new, 0))
   in matching (detectedAccelerometer s) (detectedCompass s) \<and> detectedCompass s = Some LSM_compass \<and> tilt s = Some LSM_accelerometer"
proof -
  let ?B = "\<lparr>is_detected = \<lambda>fxos (address :: nat) w. (\<not> fxos, w), target_wait = (\<lambda>t w. w + t), prepare_irq = (\<lambda>w :: nat. w)\<rparr>"
  let ?x = "fold (sensor_call ?B) [Compass_detect, Accelerometer_detect] (sensors_new, 0)"
  have "detectedCompass (fst ?x) = Some LSM_compass" "detectedAccelerometer (fst ?x) = Some LSM_accelerometer"
    by (simp_all add: compass_autoDetect_def accelerometer_autoDetect_def detect_def sensors_new_def Let_def)
  then show ?thesis
    using sensors_of_one_chip [of "[Compass_detect, Accelerometer_detect]" "fst ?x" "snd ?x" ?B 0]
    by (simp add: Let_def)
qed

text \<open>The proxies: the accelerometer is the driver found; the compass is, except for the z axis.\<close>

lemma accelerometer_is_driver:
  "detectedAccelerometer s = Some k \<Longrightarrow> microbit_accelerometer driver self s = driver k"
  by (simp add: microbit_accelerometer_def delegate_def)

lemma compass_is_driver_but_z:
  "detectedCompass s = Some k \<Longrightarrow> microbit_compass driver self s = (driver k)\<lparr>c_getZ := c_getY (driver k)\<rparr>"
  by (simp add: microbit_compass_def delegate_def)

end
