(* ===== verification/PinSleep.thy ===== *)
theory PinSleep
  imports MB_Prelude
begin

text \<open>
  \<open>MicroBitIO\<close> (\<open>model/MicroBitIO.cpp\<close>): the pins of the device and what deep sleep does to them. The GPIO
  registers the code writes are state; the pin driver of codal-nrf52 is the record \<open>pins\<close>.
\<close>

subsection \<open>Pins\<close>

text \<open>The GPIO of every pin, in the order of the array \<open>pin\<close>: P0 to P16, P19, P20, then the internal ones.\<close>

definition MICROBIT_PIN_UART_TX :: nat where "MICROBIT_PIN_UART_TX = 6"
definition MICROBIT_PIN_UART_RX :: nat where "MICROBIT_PIN_UART_RX = 40"

definition pin_names :: "nat list" where
  "pin_names = [2, 3, 4, 31, 28, 14, 37, 11, 10, 9, 30, 23, 12, 17, 1, 13, 34, 26, 32,
     36, 0, 20, 5, 16, 8, 21, 22, 15, 24, 19, MICROBIT_PIN_UART_TX, MICROBIT_PIN_UART_RX, 25]"

definition pin_count :: nat where "pin_count = 33"

text \<open>
  \<open>cnf\<close> and \<open>out_reg\<close> are the registers \<open>PIN_CNF\<close> and \<open>OUT\<close> of both ports by GPIO, \<open>inten\<close> the interrupts
  enabled in \<open>GPIOTE\<close>. \<open>wake\<close> tells for each pin whether it wakes the device.
\<close>

record io =
  cnf :: "nat \<Rightarrow> u32"
  out_reg :: "nat \<Rightarrow> bool"
  latch :: "nat \<Rightarrow> bool"
  inten :: u32
  port_event :: bool
  savedStatus :: "u8 list"

text \<open>\<open>gpio_outputs\<close> is the setting \<open>DEEP_SLEEP_GPIO_OUTPUTS\<close>; \<open>active_high\<close> is the polarity of a pin.\<close>

record pins =
  gpio_outputs :: bool
  is_output :: "nat \<Rightarrow> bool"
  is_digital :: "nat \<Rightarrow> bool"
  active_high :: "nat \<Rightarrow> bool"
  set_detect :: "nat \<Rightarrow> nat \<Rightarrow> io \<Rightarrow> io"
  set_pull_none :: "nat \<Rightarrow> io \<Rightarrow> io"

definition IO_SAVED_STATUS_OUTPUT_LO :: u8 where "IO_SAVED_STATUS_OUTPUT_LO = 1"
definition IO_SAVED_STATUS_OUTPUT_HI :: u8 where "IO_SAVED_STATUS_OUTPUT_HI = 2"
definition IO_SAVED_STATUS_DETECT_LOW_ENABLED :: u8 where "IO_SAVED_STATUS_DETECT_LOW_ENABLED = 4"
definition IO_SAVED_STATUS_DETECT_HIGH_ENABLED :: u8 where "IO_SAVED_STATUS_DETECT_HIGH_ENABLED = 8"
definition IO_SAVED_STATUS_SAVED :: u8 where "IO_SAVED_STATUS_SAVED = 1"

text \<open>The field \<open>SENSE\<close> of \<open>PIN_CNF\<close>, and its values.\<close>

definition GPIO_PIN_CNF_SENSE_Pos :: nat where "GPIO_PIN_CNF_SENSE_Pos = 16"
definition GPIO_PIN_CNF_SENSE_Msk :: u32 where "GPIO_PIN_CNF_SENSE_Msk = push_bit 16 3"
definition GPIO_PIN_CNF_SENSE_Disabled :: nat where "GPIO_PIN_CNF_SENSE_Disabled = 0"
definition GPIO_PIN_CNF_SENSE_High :: nat where "GPIO_PIN_CNF_SENSE_High = 2"
definition GPIO_PIN_CNF_SENSE_Low :: nat where "GPIO_PIN_CNF_SENSE_Low = 3"

definition sense_of :: "u32 \<Rightarrow> nat" where
  "sense_of c = unat (drop_bit GPIO_PIN_CNF_SENSE_Pos (c AND GPIO_PIN_CNF_SENSE_Msk))"

definition with_sense :: "nat \<Rightarrow> u32 \<Rightarrow> u32" where
  "with_sense v c = (c AND NOT GPIO_PIN_CNF_SENSE_Msk) OR push_bit GPIO_PIN_CNF_SENSE_Pos (of_nat v)"

text \<open>Pins 19 to 32 and the columns and buttons (P4, P7, P3, P6, P10, P5, P11) have no pull resistors.\<close>

definition io_new :: "pins \<Rightarrow> io \<Rightarrow> io" where
  "io_new K s = (fold (set_pull_none K) ([19..<pin_count] @ [4, 7, 3, 6, 10, 5, 11]) s)\<lparr>savedStatus := replicate (pin_count + 1) 0\<rparr>"

subsection \<open>Saving, preparing and restoring\<close>

definition save_pin :: "pins \<Rightarrow> nat \<Rightarrow> io \<Rightarrow> io" where
  "save_pin K i s =
     (let name = pin_names ! i; sense = cnf s name AND GPIO_PIN_CNF_SENSE_Msk;
          st = (if is_output K i
                then if gpio_outputs K then (if out_reg s name then IO_SAVED_STATUS_OUTPUT_HI else IO_SAVED_STATUS_OUTPUT_LO) else 0
                else if sense = push_bit GPIO_PIN_CNF_SENSE_Pos (of_nat GPIO_PIN_CNF_SENSE_Low) then IO_SAVED_STATUS_DETECT_LOW_ENABLED
                else if sense = push_bit GPIO_PIN_CNF_SENSE_Pos (of_nat GPIO_PIN_CNF_SENSE_High) then IO_SAVED_STATUS_DETECT_HIGH_ENABLED
                else 0)
      in s\<lparr>savedStatus := (savedStatus s)[i := st]\<rparr>)"

definition pinsSaveStatus :: "pins \<Rightarrow> io \<Rightarrow> io" where
  "pinsSaveStatus K s =
     fold (save_pin K) [0..<pin_count]
       (s\<lparr>savedStatus := (savedStatus s)[pin_count := savedStatus s ! pin_count OR IO_SAVED_STATUS_SAVED]\<rparr>)"

definition drive :: "bool \<Rightarrow> nat \<Rightarrow> io \<Rightarrow> io" where
  "drive high name s = s\<lparr>out_reg := (out_reg s)(name := high), cnf := (cnf s)(name := cnf s name OR 1)\<rparr>"

definition restore_pin :: "pins \<Rightarrow> nat \<Rightarrow> io \<Rightarrow> io" where
  "restore_pin K i s =
     (let name = pin_names ! i; st = savedStatus s ! i
      in if is_output K i
         then if gpio_outputs K
              then let s1 = (if st AND IO_SAVED_STATUS_OUTPUT_HI \<noteq> 0 then drive True name s else s)
                   in if st AND IO_SAVED_STATUS_OUTPUT_LO \<noteq> 0 then drive False name s1 else s1
              else s
         else if st AND IO_SAVED_STATUS_DETECT_LOW_ENABLED \<noteq> 0 then set_detect K i GPIO_PIN_CNF_SENSE_Low s
         else if st AND IO_SAVED_STATUS_DETECT_HIGH_ENABLED \<noteq> 0 then set_detect K i GPIO_PIN_CNF_SENSE_High s
         else set_detect K i GPIO_PIN_CNF_SENSE_Disabled s)"

text \<open>A write to \<open>INTENCLR\<close> clears bits of \<open>INTENSET\<close>, one to \<open>INTENSET\<close> sets bits.\<close>

definition pinsRestoreStatus :: "pins \<Rightarrow> io \<Rightarrow> io" where
  "pinsRestoreStatus K s =
     (let s1 = s\<lparr>savedStatus := (savedStatus s)[pin_count := savedStatus s ! pin_count AND NOT IO_SAVED_STATUS_SAVED]\<rparr>;
          intenset = inten s1;
          s2 = fold (restore_pin K) [0..<pin_count] (s1\<lparr>inten := inten s1 AND NOT intenset\<rparr>)
      in s2\<lparr>inten := inten s2 OR intenset\<rparr>)"

text \<open>\<open>wake\<close> tells which pins wake the device.\<close>

definition detect_pin :: "pins \<Rightarrow> (nat \<Rightarrow> bool) \<Rightarrow> bool \<Rightarrow> bool \<Rightarrow> bool \<Rightarrow> nat \<Rightarrow> io \<Rightarrow> io" where
  "detect_pin K wake setWakeups enableWakeups disableOthers i s =
     (let name = pin_names ! i
      in if is_output K i
         then if gpio_outputs K \<and> disableOthers then s\<lparr>cnf := (cnf s)(name := 2)\<rparr> else s
         else if is_digital K i
         then if wake i
              then if setWakeups
                   then if enableWakeups
                        then if sense_of (cnf s name) = GPIO_PIN_CNF_SENSE_Disabled
                             then let s1 = set_detect K i (if active_high K i then GPIO_PIN_CNF_SENSE_High else GPIO_PIN_CNF_SENSE_Low) s
                                  in s1\<lparr>latch := (latch s1)(name := False)\<rparr>
                             else s
                        else set_detect K i GPIO_PIN_CNF_SENSE_Disabled s
                   else s
              else if disableOthers then set_detect K i GPIO_PIN_CNF_SENSE_Disabled s else s
         else s)"

definition pinsDetect :: "pins \<Rightarrow> (nat \<Rightarrow> bool) \<Rightarrow> bool \<Rightarrow> bool \<Rightarrow> bool \<Rightarrow> io \<Rightarrow> io" where
  "pinsDetect K wake setWakeups enableWakeups disableOthers s =
     (let intenset = inten s;
          s1 = fold (detect_pin K wake setWakeups enableWakeups disableOthers) [0..<pin_count]
                 (s\<lparr>inten := inten s AND NOT intenset\<rparr>)
      in s1\<lparr>port_event := False, inten := inten s1 OR intenset\<rparr>)"

subsection \<open>The callback\<close>

datatype reason = Prepare | Begin | BeginWithWakeUps | End | EndWithWakeUps | CountWakeUps | ClearWakeUps

text \<open>The wake-up flags are a set of pins; \<open>data\<close> is the counter, when there is one.\<close>

definition deepSleepCallback :: "pins \<Rightarrow> reason \<Rightarrow> nat option \<Rightarrow> (nat \<Rightarrow> bool) \<times> io
    \<Rightarrow> code \<times> nat option \<times> (nat \<Rightarrow> bool) \<times> io" where
  "deepSleepCallback K reason data x =
     (case x of (wake, s) \<Rightarrow>
        let saved = (if savedStatus s ! pin_count AND IO_SAVED_STATUS_SAVED = 0 then pinsSaveStatus K s else s)
        in case reason of
             Prepare \<Rightarrow> (OK, data, wake, pinsDetect K wake True True False (pinsSaveStatus K s))
           | Begin \<Rightarrow> (OK, data, wake, pinsDetect K wake True False True saved)
           | BeginWithWakeUps \<Rightarrow> (OK, data, wake, pinsDetect K wake True True True saved)
           | End \<Rightarrow> (OK, data, wake, pinsRestoreStatus K s)
           | EndWithWakeUps \<Rightarrow> (OK, data, wake, pinsRestoreStatus K s)
           | CountWakeUps \<Rightarrow>
               (case data of None \<Rightarrow> (INVALID_PARAMETER, data, wake, s)
                | Some n \<Rightarrow> (OK, Some (n + length (filter wake [0..<pin_count])), wake, s))
           | ClearWakeUps \<Rightarrow> (OK, data, (\<lambda>i. wake i \<and> \<not> i < pin_count), s))"

end
