(* ===== verification/PinSleepProps.thy ===== *)
theory PinSleepProps
  imports PinSleep
begin

text \<open>
  Deep sleep gives the pins back as they were: the sense of every input pin and the level of every output pin
  are the same after any number of sleeps.
\<close>

subsection \<open>The field \<open>SENSE\<close>\<close>

lemmas sense_consts = GPIO_PIN_CNF_SENSE_Pos_def GPIO_PIN_CNF_SENSE_Msk_def GPIO_PIN_CNF_SENSE_Disabled_def
  GPIO_PIN_CNF_SENSE_High_def GPIO_PIN_CNF_SENSE_Low_def

lemma with_sense_twice:
  assumes "b \<le> 3"
  shows "with_sense a (with_sense b c) = with_sense a c"
proof -
  have "push_bit 16 (of_nat b) AND NOT (push_bit 16 3 :: u32) = 0"
    using assms by (auto simp: le_Suc_eq numeral_3_eq_3)
  then show ?thesis
    by (simp add: with_sense_def sense_consts bit.conj_disj_distrib2 and.assoc)
qed

definition valid_sense :: "u32 \<Rightarrow> bool" where
  "valid_sense c \<longleftrightarrow> c AND GPIO_PIN_CNF_SENSE_Msk \<in> {0, push_bit 16 2, push_bit 16 3}"

text \<open>What is saved for an input pin, and what it is restored to.\<close>

definition encode_sense :: "u32 \<Rightarrow> u8" where
  "encode_sense c = (let sense = c AND GPIO_PIN_CNF_SENSE_Msk in
     if sense = push_bit 16 3 then 4 else if sense = push_bit 16 2 then 8 else 0)"

definition decode_sense :: "u8 \<Rightarrow> nat" where
  "decode_sense st = (if st AND 4 \<noteq> 0 then 3 else if st AND 8 \<noteq> 0 then 2 else 0)"

lemma decode_encode:
  assumes "valid_sense c" "b \<le> 3"
  shows "with_sense (decode_sense (encode_sense c)) (with_sense b c) = c" "with_sense (decode_sense (encode_sense c)) c = c"
proof -
  have split: "(c AND NOT GPIO_PIN_CNF_SENSE_Msk) OR (c AND GPIO_PIN_CNF_SENSE_Msk) = c"
    by (simp flip: bit.conj_disj_distrib)
  have "push_bit 16 (of_nat (decode_sense (encode_sense c))) = c AND GPIO_PIN_CNF_SENSE_Msk"
    using assms(1) by (auto simp: valid_sense_def encode_sense_def decode_sense_def Let_def)
  then show one: "with_sense (decode_sense (encode_sense c)) c = c"
    using split by (simp add: with_sense_def GPIO_PIN_CNF_SENSE_Pos_def)
  show "with_sense (decode_sense (encode_sense c)) (with_sense b c) = c"
    using with_sense_twice [OF assms(2)] one by simp
qed

subsection \<open>One pin at a time\<close>

lemma pin_names_facts: "length pin_names = 33" "distinct pin_names"
  by (simp_all add: pin_names_def MICROBIT_PIN_UART_TX_def MICROBIT_PIN_UART_RX_def)

lemma name_eq: "i < 33 \<Longrightarrow> j < 33 \<Longrightarrow> pin_names ! i = pin_names ! j \<longleftrightarrow> i = j"
  using pin_names_facts by (simp add: nth_eq_iff_index_eq)

text \<open>What concerns one pin.\<close>

definition view :: "nat \<Rightarrow> io \<Rightarrow> u32 \<times> bool \<times> u8" where
  "view i s = (cnf s (pin_names ! i), out_reg s (pin_names ! i), savedStatus s ! i)"

text \<open>A loop over the pins does to each what its step does to it alone.\<close>

definition per_pin :: "(nat \<Rightarrow> io \<Rightarrow> io) \<Rightarrow> (nat \<Rightarrow> u32 \<times> bool \<times> u8 \<Rightarrow> u32 \<times> bool \<times> u8) \<Rightarrow> bool" where
  "per_pin step g \<longleftrightarrow> (\<forall>i < 33. \<forall>s. length (savedStatus s) = 34 \<longrightarrow>
     view i (step i s) = g i (view i s) \<and> (\<forall>j < 33. j \<noteq> i \<longrightarrow> view j (step i s) = view j s)
     \<and> length (savedStatus (step i s)) = 34 \<and> savedStatus (step i s) ! 33 = savedStatus s ! 33 \<and> inten (step i s) = inten s)"

lemma per_pin_fold:
  assumes "per_pin step g" "length (savedStatus s) = 34"
  shows "n \<le> 33 \<Longrightarrow> (let s' = fold step [0..<n] s in
    (\<forall>j < 33. view j s' = (if j < n then g j (view j s) else view j s))
    \<and> length (savedStatus s') = 34 \<and> savedStatus s' ! 33 = savedStatus s ! 33 \<and> inten s' = inten s)"
proof (induction n)
  case (Suc n)
  let ?s = "fold step [0..<n] s"
  have IH: "\<forall>j < 33. view j ?s = (if j < n then g j (view j s) else view j s)" "length (savedStatus ?s) = 34"
    "savedStatus ?s ! 33 = savedStatus s ! 33" "inten ?s = inten s"
    using Suc by (simp_all add: Let_def)
  have n: "n < 33" using Suc.prems by simp
  have step: "view n (step n ?s) = g n (view n ?s)" "\<forall>j < 33. j \<noteq> n \<longrightarrow> view j (step n ?s) = view j ?s"
    "length (savedStatus (step n ?s)) = 34" "savedStatus (step n ?s) ! 33 = savedStatus ?s ! 33" "inten (step n ?s) = inten ?s"
    using assms(1) n IH(2) unfolding per_pin_def by blast+
  show ?case using IH step n by (auto simp: Let_def less_Suc_eq)
qed (use assms in simp)

lemma per_pin_all:
  assumes "per_pin step g" "length (savedStatus s) = 34"
  shows "j < 33 \<Longrightarrow> view j (fold step [0..<pin_count] s) = g j (view j s)"
    "length (savedStatus (fold step [0..<pin_count] s)) = 34"
    "savedStatus (fold step [0..<pin_count] s) ! 33 = savedStatus s ! 33"
    "inten (fold step [0..<pin_count] s) = inten s"
  using per_pin_fold [OF assms, of 33] by (simp_all add: Let_def pin_count_def)

text \<open>The callbacks in a row, and those of one sleep: with or without a preparation and with or without wake-ups.\<close>

definition callbacks :: "pins \<Rightarrow> reason list \<Rightarrow> (nat \<Rightarrow> bool) \<times> io \<Rightarrow> (nat \<Rightarrow> bool) \<times> io" where
  "callbacks K rs x = fold (\<lambda>r x. snd (snd (deepSleepCallback K r None x))) rs x"

definition one_sleep :: "bool \<times> bool \<times> bool \<Rightarrow> reason list" where
  "one_sleep k = (case k of (prepared, wakeups, wakeups_end) \<Rightarrow>
     (if prepared then [Prepare] else []) @ [if wakeups then BeginWithWakeUps else Begin,
       if wakeups_end then EndWithWakeUps else End])"

text \<open>The flag that the pins are saved.\<close>

definition saved_flag :: "io \<Rightarrow> bool" where
  "saved_flag s \<longleftrightarrow> savedStatus s ! 33 AND 1 \<noteq> 0"

lemma flag_test: "(savedStatus s ! pin_count AND IO_SAVED_STATUS_SAVED = 0) = (\<not> saved_flag s)"
  by (simp add: saved_flag_def pin_count_def IO_SAVED_STATUS_SAVED_def)

text \<open>Between saving and restoring, an input pin has its sense or another one.\<close>

definition touched :: "u32 \<Rightarrow> u32 \<times> bool \<times> u8 \<Rightarrow> u32 \<times> bool \<times> u8 \<Rightarrow> bool" where
  "touched c v v' \<longleftrightarrow> (fst v' = c \<or> (\<exists>b \<le> 3. fst v' = with_sense b c)) \<and> snd v' = snd v"

locale pin_driver =
  fixes K :: pins
  assumes detect: "v \<le> 3 \<Longrightarrow> i < 33 \<Longrightarrow>
    set_detect K i v s = s\<lparr>cnf := (cnf s)(pin_names ! i := with_sense v (cnf s (pin_names ! i)))\<rparr>"
begin

definition save_view :: "nat \<Rightarrow> u32 \<times> bool \<times> u8 \<Rightarrow> u32 \<times> bool \<times> u8" where
  "save_view i v = (case v of (c, out, st) \<Rightarrow>
     (c, out, if is_output K i then if gpio_outputs K then if out then 2 else 1 else 0 else encode_sense c))"

definition restore_view :: "nat \<Rightarrow> u32 \<times> bool \<times> u8 \<Rightarrow> u32 \<times> bool \<times> u8" where
  "restore_view i v = (case v of (c, out, st) \<Rightarrow>
     if is_output K i
     then if gpio_outputs K
          then (if st AND 3 \<noteq> 0 then c OR 1 else c, if st AND 1 \<noteq> 0 then False else if st AND 2 \<noteq> 0 then True else out, st)
          else v
     else (with_sense (decode_sense st) c, out, st))"

definition detect_view :: "(nat \<Rightarrow> bool) \<Rightarrow> bool \<Rightarrow> bool \<Rightarrow> bool \<Rightarrow> nat \<Rightarrow> u32 \<times> bool \<times> u8 \<Rightarrow> u32 \<times> bool \<times> u8" where
  "detect_view wake setWakeups enableWakeups disableOthers i v = (case v of (c, out, st) \<Rightarrow>
     if is_output K i then if gpio_outputs K \<and> disableOthers then (2, out, st) else v
     else if is_digital K i
     then if wake i
          then if setWakeups
               then if enableWakeups
                    then if sense_of c = 0 then (with_sense (if active_high K i then 2 else 3) c, out, st) else v
                    else (with_sense 0 c, out, st)
               else v
          else if disableOthers then (with_sense 0 c, out, st) else v
     else v)"

lemma save_per_pin: "per_pin (save_pin K) save_view"
  unfolding per_pin_def
  by (auto simp: save_pin_def save_view_def view_def Let_def encode_sense_def sense_consts IO_SAVED_STATUS_OUTPUT_HI_def
      IO_SAVED_STATUS_OUTPUT_LO_def IO_SAVED_STATUS_DETECT_LOW_ENABLED_def IO_SAVED_STATUS_DETECT_HIGH_ENABLED_def)

lemma detect_per_pin: "per_pin (detect_pin K wake a b c) (detect_view wake a b c)"
  unfolding per_pin_def
  by (auto simp: detect_pin_def detect_view_def view_def Let_def detect sense_consts name_eq)

lemma and_three: "(st AND 3 \<noteq> 0) = (st AND 1 \<noteq> 0 \<or> st AND 2 \<noteq> (0 :: u8))"
proof -
  have "st AND 3 = (st AND 1) OR (st AND 2)" by (simp flip: bit.conj_disj_distrib)
  then show ?thesis by (simp add: or_eq_0_iff)
qed

lemma restore_per_pin: "per_pin (restore_pin K) restore_view"
  unfolding per_pin_def
  by (auto simp: restore_pin_def restore_view_def drive_def view_def Let_def detect sense_consts name_eq and_three
      decode_sense_def IO_SAVED_STATUS_OUTPUT_HI_def or.assoc
      IO_SAVED_STATUS_OUTPUT_LO_def IO_SAVED_STATUS_DETECT_LOW_ENABLED_def IO_SAVED_STATUS_DETECT_HIGH_ENABLED_def)

text \<open>The callbacks of one sleep, for one pin.\<close>

lemma flag_or: "(x OR 1) AND 1 \<noteq> (0 :: u8)" and flag_not: "(x AND NOT 1) AND 1 = (0 :: u8)"
  by (simp_all add: bit.conj_disj_distrib2 and.assoc)

lemma save_all:
  assumes "length (savedStatus s) = 34"
  shows "j < 33 \<Longrightarrow> view j (pinsSaveStatus K s) = save_view j (view j s)"
    "length (savedStatus (pinsSaveStatus K s)) = 34" "saved_flag (pinsSaveStatus K s)" "inten (pinsSaveStatus K s) = inten s"
proof -
  let ?s = "s\<lparr>savedStatus := (savedStatus s)[pin_count := savedStatus s ! pin_count OR IO_SAVED_STATUS_SAVED]\<rparr>"
  have len: "length (savedStatus ?s) = 34" using assms by simp
  have view: "view j ?s = view j s" if "j < 33" for j using that by (simp add: view_def pin_count_def)
  have "savedStatus ?s ! 33 = savedStatus s ! 33 OR 1" using assms by (simp add: pin_count_def IO_SAVED_STATUS_SAVED_def)
  then show "saved_flag (pinsSaveStatus K s)"
    using per_pin_all(3) [OF save_per_pin len] flag_or [of "savedStatus s ! 33"] by (simp add: pinsSaveStatus_def saved_flag_def)
  show "j < 33 \<Longrightarrow> view j (pinsSaveStatus K s) = save_view j (view j s)"
    using per_pin_all(1) [OF save_per_pin len] view by (simp add: pinsSaveStatus_def)
  show "length (savedStatus (pinsSaveStatus K s)) = 34" "inten (pinsSaveStatus K s) = inten s"
    using per_pin_all(2,4) [OF save_per_pin len] by (simp_all add: pinsSaveStatus_def)
qed

lemma detect_all:
  assumes "length (savedStatus s) = 34"
  shows "j < 33 \<Longrightarrow> view j (pinsDetect K wake a b c s) = detect_view wake a b c j (view j s)"
    "length (savedStatus (pinsDetect K wake a b c s)) = 34" "saved_flag (pinsDetect K wake a b c s) = saved_flag s"
    "inten (pinsDetect K wake a b c s) = inten s"
proof -
  let ?s = "s\<lparr>inten := inten s AND NOT (inten s)\<rparr>"
  have len: "length (savedStatus ?s) = 34" using assms by simp
  have view: "view j ?s = view j s" for j by (simp add: view_def)
  show "j < 33 \<Longrightarrow> view j (pinsDetect K wake a b c s) = detect_view wake a b c j (view j s)"
    using per_pin_all(1) [OF detect_per_pin len] view by (simp add: pinsDetect_def Let_def view_def)
  show "length (savedStatus (pinsDetect K wake a b c s)) = 34" "saved_flag (pinsDetect K wake a b c s) = saved_flag s"
    using per_pin_all(2,3) [OF detect_per_pin len] by (simp_all add: pinsDetect_def Let_def saved_flag_def)
  show "inten (pinsDetect K wake a b c s) = inten s"
    using per_pin_all(4) [OF detect_per_pin len] by (simp add: pinsDetect_def Let_def)
qed

lemma restore_all:
  assumes "length (savedStatus s) = 34"
  shows "j < 33 \<Longrightarrow> view j (pinsRestoreStatus K s) = restore_view j (view j s)"
    "length (savedStatus (pinsRestoreStatus K s)) = 34" "\<not> saved_flag (pinsRestoreStatus K s)"
    "inten (pinsRestoreStatus K s) = inten s"
proof -
  let ?s = "s\<lparr>savedStatus := (savedStatus s)[pin_count := savedStatus s ! pin_count AND NOT IO_SAVED_STATUS_SAVED],
      inten := inten s AND NOT (inten s)\<rparr>"
  have len: "length (savedStatus ?s) = 34" using assms by simp
  have view: "view j ?s = view j s" if "j < 33" for j using that by (simp add: view_def pin_count_def)
  show "j < 33 \<Longrightarrow> view j (pinsRestoreStatus K s) = restore_view j (view j s)"
    using per_pin_all(1) [OF restore_per_pin len] view by (simp add: pinsRestoreStatus_def Let_def view_def)
  have "savedStatus ?s ! 33 = savedStatus s ! 33 AND NOT 1" using assms by (simp add: pin_count_def IO_SAVED_STATUS_SAVED_def)
  then show "\<not> saved_flag (pinsRestoreStatus K s)"
    using per_pin_all(3) [OF restore_per_pin len] flag_not [of "savedStatus s ! 33"]
    by (simp add: pinsRestoreStatus_def Let_def saved_flag_def)
  show "length (savedStatus (pinsRestoreStatus K s)) = 34" "inten (pinsRestoreStatus K s) = inten s"
    using per_pin_all(2,4) [OF restore_per_pin len] by (simp_all add: pinsRestoreStatus_def Let_def)
qed

lemma detect_touches:
  assumes "\<not> is_output K i" "touched c v v'"
  shows "touched c v (detect_view wake x y z i v')"
proof -
  have "\<exists>b \<le> 3. with_sense k (fst v') = with_sense b c" if "k \<le> 3" for k
    using assms(2) that with_sense_twice by (auto simp: touched_def)
  from this [of 0] this [of 2] this [of 3] show ?thesis
    using assms by (cases v') (auto simp: detect_view_def touched_def)
qed

lemma restore_touched:
  assumes "\<not> is_output K i" "valid_sense c" "touched c (save_view i (c, out, st)) v"
  shows "restore_view i v = (c, out, encode_sense c)"
  using assms decode_encode [OF assms(2)]
  by (cases v) (auto simp: restore_view_def save_view_def touched_def)

text \<open>The level of an output pin: after saving, its code.\<close>

lemma output_views:
  assumes "is_output K i"
  shows "snd (detect_view wake x y z i v) = snd v"
    and "fst (snd (restore_view i (c, snd (save_view i (c', out, st))))) = out"
  using assms by (auto simp: detect_view_def restore_view_def save_view_def split: prod.splits)

text \<open>The sleep itself, as one function of the state.\<close>

lemma one_sleep_state:
  assumes "length (savedStatus s) = 34" "\<not> saved_flag s"
  shows "\<exists>ds. callbacks K (one_sleep k) (wake, s) =
    (wake, pinsRestoreStatus K (fold (\<lambda>(x, y, z). pinsDetect K wake x y z) ds (pinsSaveStatus K s)))"
proof -
  obtain p w e where k: "k = (p, w, e)" by (cases k)
  have flag: "saved_flag (pinsDetect K wake a b c (pinsSaveStatus K s))" for a b c
    using save_all(2,3) [OF assms(1)] detect_all(3) by simp
  let ?ds = "(if p then [(True, True, False)] else []) @ [(True, w, True)]"
  have "callbacks K (one_sleep k) (wake, s) =
    (wake, pinsRestoreStatus K (fold (\<lambda>(x, y, z). pinsDetect K wake x y z) ?ds (pinsSaveStatus K s)))"
    using assms(2) flag by (cases p; cases w; cases e) (simp_all add: callbacks_def one_sleep_def k deepSleepCallback_def flag_test)
  then show ?thesis by blast
qed

lemma detects_views:
  assumes "length (savedStatus s) = 34"
  shows "length (savedStatus (fold (\<lambda>(x, y, z). pinsDetect K wake x y z) ds s)) = 34
    \<and> inten (fold (\<lambda>(x, y, z). pinsDetect K wake x y z) ds s) = inten s
    \<and> (\<forall>j < 33. (is_output K j \<longrightarrow> snd (view j (fold (\<lambda>(x, y, z). pinsDetect K wake x y z) ds s)) = snd (view j s))
        \<and> (\<forall>c. \<not> is_output K j \<longrightarrow> fst (view j s) = c \<longrightarrow>
              touched c (view j s) (view j (fold (\<lambda>(x, y, z). pinsDetect K wake x y z) ds s))))"
proof (induction ds rule: rev_induct)
  case Nil
  then show ?case using assms by (simp add: touched_def)
next
  case (snoc d ds)
  obtain x y z where d: "d = (x, y, z)" by (cases d)
  then show ?case
    using snoc detect_all [of "fold (\<lambda>(x, y, z). pinsDetect K wake x y z) ds s"] output_views(1) detect_touches
    by auto
qed

lemma one_sleep_restores:
  assumes "length (savedStatus s) = 34" "\<not> saved_flag s" "\<forall>i < 33. \<not> is_output K i \<longrightarrow> valid_sense (fst (view i s))"
  shows "\<exists>s'. callbacks K (one_sleep k) (wake, s) = (wake, s') \<and> length (savedStatus s') = 34 \<and> \<not> saved_flag s' \<and> inten s' = inten s
    \<and> (\<forall>i < 33. (\<not> is_output K i \<longrightarrow> fst (view i s') = fst (view i s)) \<and> fst (snd (view i s')) = fst (snd (view i s)))"
proof -
  obtain ds where run: "callbacks K (one_sleep k) (wake, s) =
      (wake, pinsRestoreStatus K (fold (\<lambda>(x, y, z). pinsDetect K wake x y z) ds (pinsSaveStatus K s)))"
    using one_sleep_state [OF assms(1,2)] by blast
  let ?s = "fold (\<lambda>(x, y, z). pinsDetect K wake x y z) ds (pinsSaveStatus K s)"
  note saved = save_all [OF assms(1)]
  note detected = detects_views [OF saved(2), of wake ds]
  note restored = restore_all [of ?s]
  have "(\<not> is_output K i \<longrightarrow> fst (view i (pinsRestoreStatus K ?s)) = fst (view i s))
      \<and> fst (snd (view i (pinsRestoreStatus K ?s))) = fst (snd (view i s))" if i: "i < 33" for i
  proof -
    obtain c out st where v: "view i s = (c, out, st)" by (cases "view i s")
    then have sv: "view i (pinsSaveStatus K s) = save_view i (c, out, st)" using saved(1) [OF i] by simp
    show ?thesis
    proof (cases "is_output K i")
      case True
      then have "snd (view i ?s) = snd (save_view i (c, out, st))" using detected i sv by simp
      then have "view i ?s = (fst (view i ?s), snd (save_view i (c, out, st)))" by (metis prod.collapse)
      then show ?thesis using True restored(1) [OF _ i] detected v output_views(2) by (metis fst_conv snd_conv)
    next
      case False
      have c: "fst (save_view i (c, out, st)) = c" by (simp add: save_view_def)
      have "touched (fst (view i (pinsSaveStatus K s))) (view i (pinsSaveStatus K s)) (view i ?s)" using detected i False by blast
      then have "touched c (save_view i (c, out, st)) (view i ?s)" by (simp only: sv c)
      moreover have "valid_sense c" using assms(3) i False v by fastforce
      ultimately have "restore_view i (view i ?s) = (c, out, encode_sense c)" using restore_touched [OF False] by blast
      then show ?thesis using restored(1) [OF _ i] detected v by simp
    qed
  qed
  then show ?thesis using run restored(2-4) detected saved(4) by auto
qed

lemma sleeps_restore:
  assumes "length (savedStatus s) = 34" "\<not> saved_flag s" "\<forall>i < 33. \<not> is_output K i \<longrightarrow> valid_sense (fst (view i s))"
  shows "\<exists>s'. callbacks K (concat (map one_sleep ks)) (wake, s) = (wake, s') \<and> inten s' = inten s
    \<and> (\<forall>i < 33. (\<not> is_output K i \<longrightarrow> fst (view i s') = fst (view i s)) \<and> fst (snd (view i s')) = fst (snd (view i s)))"
  using assms
proof (induction ks arbitrary: s)
  case Nil
  then show ?case by (simp add: callbacks_def)
next
  case (Cons k ks)
  obtain s1 where one: "callbacks K (one_sleep k) (wake, s) = (wake, s1)" "length (savedStatus s1) = 34" "\<not> saved_flag s1"
    "inten s1 = inten s"
    "\<forall>i < 33. (\<not> is_output K i \<longrightarrow> fst (view i s1) = fst (view i s)) \<and> fst (snd (view i s1)) = fst (snd (view i s))"
    using one_sleep_restores [OF Cons.prems] by blast
  obtain s2 where rest: "callbacks K (concat (map one_sleep ks)) (wake, s1) = (wake, s2)" "inten s2 = inten s1"
    "\<forall>i < 33. (\<not> is_output K i \<longrightarrow> fst (view i s2) = fst (view i s1)) \<and> fst (snd (view i s2)) = fst (snd (view i s1))"
    using Cons.IH [OF one(2,3)] one(5) Cons.prems(3) by auto
  have "callbacks K (concat (map one_sleep (k # ks))) (wake, s) = (wake, s2)"
    using one(1) rest(1) by (simp add: callbacks_def)
  then show ?case using rest(2,3) one(4,5) by simp
qed

end

text \<open>An instance: a driver that sets the field \<open>SENSE\<close>; pins 20 to 31 are outputs.\<close>

definition plain_pins :: pins where
  "plain_pins = \<lparr>gpio_outputs = True, is_output = \<lambda>i. 20 \<le> i \<and> i \<le> 31, is_digital = \<lambda>i. True, active_high = \<lambda>i. False,
     set_detect = \<lambda>i v s. s\<lparr>cnf := (cnf s)(pin_names ! i := with_sense v (cnf s (pin_names ! i)))\<rparr>, set_pull_none = \<lambda>i s. s\<rparr>"

interpretation plain_pins: pin_driver plain_pins
  by unfold_locales (simp add: plain_pins_def)

text \<open>
  C39 After any number of deep sleeps, each prepared or not and with or without wake-up pins, every input pin
  has the configuration it had before, every output pin its level, and the same interrupts are enabled.
\<close>

theorem sleep_restores_pins:
  assumes "pin_driver K" and "length (savedStatus s) = pin_count + 1" and "savedStatus s ! pin_count AND IO_SAVED_STATUS_SAVED = 0"
    and "\<forall>i < pin_count. \<not> is_output K i \<longrightarrow> valid_sense (cnf s (pin_names ! i))"
  shows "\<exists>s'. callbacks K (concat (map one_sleep sleeps)) (wake, s) = (wake, s') \<and> inten s' = inten s
    \<and> (\<forall>i < pin_count. (\<not> is_output K i \<longrightarrow> cnf s' (pin_names ! i) = cnf s (pin_names ! i))
        \<and> out_reg s' (pin_names ! i) = out_reg s (pin_names ! i))"
proof -
  have "length (savedStatus s) = 34" "\<not> saved_flag s" "\<forall>i < 33. \<not> is_output K i \<longrightarrow> valid_sense (fst (view i s))"
    using assms(2-4) flag_test [of s] by (simp_all add: pin_count_def view_def)
  from pin_driver.sleeps_restore [OF assms(1) this, of sleeps wake] show ?thesis by (simp add: view_def pin_count_def)
qed

theorem sleep_restores_pins_witness:
  "let s = \<lparr>cnf = \<lambda>n. 0x30000, out_reg = \<lambda>n. n = 22, latch = \<lambda>n. False, inten = 1, port_event = False, savedStatus = replicate 34 0\<rparr>;
       s' = snd (callbacks plain_pins (concat (map one_sleep [(True, True, False), (False, False, True)])) (\<lambda>i. i = 5, s))
   in cnf s' 14 = 0x30000 \<and> out_reg s' 22 \<and> \<not> out_reg s' 24"
proof -
  define s where "s = \<lparr>cnf = \<lambda>n. 0x30000, out_reg = \<lambda>n. n = 22, latch = \<lambda>n. False, inten = 1, port_event = False, savedStatus = replicate 34 0\<rparr>"
  have "valid_sense 0x30000" by (simp add: valid_sense_def GPIO_PIN_CNF_SENSE_Msk_def)
  then have hyps: "length (savedStatus s) = pin_count + 1" "savedStatus s ! pin_count AND IO_SAVED_STATUS_SAVED = 0"
    "\<forall>i < pin_count. \<not> is_output plain_pins i \<longrightarrow> valid_sense (cnf s (pin_names ! i))"
    by (simp_all add: s_def pin_count_def)
  obtain s' where s': "callbacks plain_pins (concat (map one_sleep [(True, True, False), (False, False, True)])) (\<lambda>i. i = 5, s)
      = (\<lambda>i. i = 5, s')"
    "\<forall>i < pin_count. (\<not> is_output plain_pins i \<longrightarrow> cnf s' (pin_names ! i) = cnf s (pin_names ! i))
      \<and> out_reg s' (pin_names ! i) = out_reg s (pin_names ! i)"
    using sleep_restores_pins [OF plain_pins.pin_driver_axioms hyps] by blast
  have "\<not> is_output plain_pins 5" "pin_names ! 5 = 14" "pin_names ! 26 = 22" "pin_names ! 28 = 24"
    by (simp_all add: plain_pins_def pin_names_def)
  then have "cnf s' 14 = 0x30000 \<and> out_reg s' 22 \<and> \<not> out_reg s' 24"
    using s'(2) [THEN spec, of 5] s'(2) [THEN spec, of 26] s'(2) [THEN spec, of 28] by (simp add: pin_count_def s_def)
  then show ?thesis unfolding s_def [symmetric] Let_def using s'(1) by simp
qed

text \<open>With the outputs part of the sleep, an output pin loses all its configuration but the direction, its drive strength too.\<close>

lemma output_configuration_lost:
  assumes "pin_driver K" "gpio_outputs K" "is_output K i"
  shows "fst (pin_driver.restore_view K i (pin_driver.detect_view K wake x y True i (pin_driver.save_view K i (c, out, st)))) = 3"
  using assms by (simp add: pin_driver.restore_view_def pin_driver.detect_view_def pin_driver.save_view_def)

end
