(* ===== verification/Spec2Isabelle.thy ===== *)
theory Spec2Isabelle
  imports LogProperties UART USBLog RadioProperties PacketBuffer MicroBitFile FileSystemRemove
    PartialFlashingProps PowerManagerProps DeepSleepProps LEDMatrixProps IOPin Eddystone Device
    Sound ClientServices BLEManagerProps CalibratorProps SynthProps MixerProps SynthEffects
    AudioProps Sensors PinSleepProps Boot
begin

text \<open>
  The runtime of the BBC micro:bit v2 (\<open>src/\<close>, the target layer above codal-core and
  codal-nrf52): its storage, radio, Bluetooth services, power management, display and sound
  components, translated from C++ and verified.

  \<^bold>\<open>How the code is read.\<close> An object is a record of its fields, a method a function from the state
  to the result and the next state, an early return a branch. \<open>uint8_t\<close>, \<open>uint16_t\<close>, \<open>uint32_t\<close> are words
  wherever an overflow can be observed, and natural numbers where the range is checked by the code
  before. Result codes are the type \<open>code\<close>. A loop that the source bounds is a structural recursion; a
  loop that may not end is a \<open>partial_function (option)\<close>, so that \<open>None\<close> is the loop that never returns, and
  a theorem says when it returns. Code outside \<open>src/\<close> (codal-core, codal-nrf52, the Nordic SDK and
  SoftDevice, the registers of the processor, the USB interface chip) is an argument of the
  definitions, mostly a record of functions over a state of any type; what a theorem relies on is a
  named predicate on that record, with a concrete instance in the witness.

  \<^bold>\<open>Parts and theories.\<close>

  \<^item> Shared: \<open>MB_Prelude\<close> (bytes, memory, programming and erasing, result codes, status words),
    \<open>Ring\<close> (circular byte buffers), \<open>Fifo\<close> (the locale of a bounded queue, instantiated by the UART
    receiver and by the radio), \<open>NVM\<close> (the locale of a flash controller).
  \<^item> Flash and the log: \<open>NRF52Flash\<close> (\<open>NRF52FlashManager.cpp\<close>, instance of the controller contract),
    \<open>FSCache\<close> (\<open>FSCache.cpp\<close>, the write-through page cache), \<open>MicroBitLog\<close> (\<open>MicroBitLog.cpp\<close>, the
    data log with its journal), \<open>LogText\<close> (cleaning, rows and headings), \<open>LogRecovery\<close> (the proofs over
    any controller that keeps the contract), \<open>LogProperties\<close> (the results on the processor's flash).
  \<^item> The USB interface chip: \<open>USBFlash\<close> (\<open>MicroBitUSBFlashManager.cpp\<close>), \<open>USBChip\<close> (what the chip is
    assumed to do, and each operation over it), \<open>USBLog\<close> (the log over this controller, which is how
    \<open>model/MicroBit.cpp\<close> puts them together).
  \<^item> Files: \<open>MicroBitFlash\<close>, \<open>FileSystem\<close> (\<open>MicroBitFileSystem.cpp\<close>), \<open>FileSystemProps\<close>,
    \<open>FileSystemSession\<close>, \<open>FileSystemRemove\<close>, \<open>MicroBitFile\<close> (the file object, refining a list of bytes
    with a position).
  \<^item> Radio: \<open>PacketBuffer\<close> (shared packets with reference counts), \<open>Radio\<close> (\<open>MicroBitRadio*.cpp\<close>),
    \<open>RadioProperties\<close> (every interleaving of interrupts and calls).
  \<^item> Bluetooth: \<open>BLE\<close>, \<open>BLEProps\<close> (the services and characteristics every service is built on),
    \<open>SensorServices\<close>, \<open>SensorProps\<close> (buttons, accelerometer, magnetometer and temperature, with the
    thermometer), \<open>ClientServices\<close> (LED, events), \<open>UART\<close>, \<open>IOPin\<close>, \<open>Eddystone\<close>, \<open>BLEManager\<close>,
    \<open>BLEManagerProps\<close> (pairing, advertising, the name shown as a histogram), \<open>MemoryMap\<close> and
    \<open>PartialFlashing\<close>, \<open>PartialFlashingProps\<close> (programming over the air, over a connection that loses,
    repeats and reorders packets).
  \<^item> Power and pins: \<open>PowerManager\<close>, \<open>PowerManagerProps\<close> (the protocol with the interface chip),
    \<open>DeepSleep\<close>, \<open>DeepSleepProps\<close> (timed sleep on a 32-bit counter), \<open>PinSleep\<close>, \<open>PinSleepProps\<close>
    (\<open>model/MicroBitIO.cpp\<close>: what deep sleep saves of the pins and gives back).
  \<^item> Display and sound: \<open>LEDMatrix\<close>, \<open>LEDMatrixProps\<close>, \<open>Sound\<close> (\<open>SoundExpressions.cpp\<close>), \<open>Synth\<close>,
    \<open>SynthProps\<close> (\<open>SoundEmojiSynthesizer.cpp\<close>: the samples of a sequence of effects do not depend on the
    size of the buffers), \<open>SynthEffects\<close> (\<open>SoundSynthesizerEffects.cpp\<close>), \<open>Mixer\<close>, \<open>MixerProps\<close>
    (\<open>Mixer2.cpp\<close>), \<open>Audio\<close>, \<open>AudioProps\<close> (\<open>MicroBitAudio.cpp\<close>, \<open>SoundOutputPin.cpp\<close>).
  \<^item> Motion: \<open>Sensors\<close> (detection and proxies of accelerometer and compass), \<open>Calibrator\<close>,
    \<open>CalibratorProps\<close> (\<open>MicroBitCompassCalibrator.cpp\<close>). Floating point numbers are of any type, with the
    operations of the processor a record (\<open>Floats\<close>); what a theorem needs of their rounding it assumes.
  \<^item> The device: \<open>Boot\<close> (\<open>model/MicroBit.cpp\<close>: the start, up to pairing mode, and the erasing of user
    data) and \<open>Device\<close> (the friendly name, the random seed, the panic display).

  \<^bold>\<open>Bounds and fuel.\<close> No fuel is used: loops are bounded by the source (retries, page and block
  counts, queue lengths) or are partial functions with a theorem that they return. Addresses are
  below \<open>2 ^ 32\<close>; where the code computes modulo a power of two, so do the definitions.

  \<^bold>\<open>Not modelled.\<close> Debug printing; the asynchronous SoftDevice flash calls; constructors that only
  put members together or register objects with codal-core (\<open>MicroBit\<close>, \<open>MicroBitDisplay\<close>); the
  interpolations of \<open>SoundSynthesizerEffects.cpp\<close> with sine, cosine and logarithm, whose precision depends
  on the overloads of the C++ library; \<open>inc/compat\<close>, \<open>source/compat\<close> and \<open>MicroBitCompat.cpp\<close>, inline
  wrappers of codal-core under the names of an earlier runtime; configuration headers and lists of event
  numbers; \<open>MicroBitBLETypes\<close>, checks of the versions of the Nordic SDK; \<open>samples\<close>.
\<close>

end
